(* ===== verification/Prelude.thy ===== *)
theory Prelude
  imports Main "HOL-Library.AList" "HOL-Library.Char_ord" "HOL-Library.List_Lexorder"
    "HOL-Library.Product_Lexorder" "HOL-Library.Multiset"
begin

text \<open>
  The shared vocabulary of the development: Python values that cross component borders
  (JSON-like data, dictionaries with insertion order, truthiness, slices), the exceptions the
  toolkit raises, and the list and dictionary lemmas the component theories use.

  \<^item> A Python \<^verbatim>\<open>dict\<close> is an association list with distinct keys.  \<^const>\<open>AList.update\<close> keeps
    the position of an existing key and appends a new one at the end, which is what assignment to a
    \<^verbatim>\<open>dict\<close> does; \<^const>\<open>AList.delete\<close> is \<^verbatim>\<open>pop(key, None)\<close>.
  \<^item> A time is an \<^typ>\<open>int\<close> (a UTC instant).  An operation that calls \<^verbatim>\<open>datetime.now\<close> takes the
    instant as an argument \<open>now\<close>; the calls inside one operation read the same instant.
  \<^item> A fresh \<^verbatim>\<open>uuid4()\<close> is an argument of the operation that draws it.
  \<^item> An operation that may raise returns a sum, \<^const>\<open>Inl\<close> the exception; where it mutates state
    before it raises, the state is returned beside the sum.
\<close>

section \<open>Collections of facts\<close>

named_theorems dict_simps \<open>lookup and key facts about dictionaries\<close>
named_theorems res_simps \<open>unfolding of the result combinators\<close>

section \<open>Values\<close>

type_synonym time = int

datatype json =
    JNull
  | JBool bool
  | JInt int
  | JStr string
  | JList "json list"
  | JDict "(string \<times> json) list"

type_synonym ('k, 'v) dict = "('k \<times> 'v) list"
type_synonym payload = "(string, json) dict"

text \<open>An optional specification is an optional predicate: \<^verbatim>\<open>specification.is_satisfied_by\<close>.\<close>

type_synonym 'a spec_opt = "('a \<Rightarrow> bool) option"

definition satisfies :: "'a spec_opt \<Rightarrow> 'a \<Rightarrow> bool" where
  "satisfies spec x = (case spec of None \<Rightarrow> True | Some p \<Rightarrow> p x)"

text \<open>Truth value of a \<^verbatim>\<open>str | None\<close>: \<^verbatim>\<open>None\<close> and the empty string are false.\<close>

definition truthy :: "string option \<Rightarrow> bool" where
  "truthy s = (case s of None \<Rightarrow> False | Some t \<Rightarrow> t \<noteq> [])"

fun json_truthy :: "json \<Rightarrow> bool" where
  "json_truthy JNull = False"
| "json_truthy (JBool b) = b"
| "json_truthy (JInt i) = (i \<noteq> 0)"
| "json_truthy (JStr s) = (s \<noteq> [])"
| "json_truthy (JList xs) = (xs \<noteq> [])"
| "json_truthy (JDict d) = (d \<noteq> [])"

text \<open>\<^verbatim>\<open>a or b\<close> on \<^verbatim>\<open>str | None\<close>.\<close>

definition py_or :: "string option \<Rightarrow> string option \<Rightarrow> string option" where
  "py_or a b = (if truthy a then a else b)"

text \<open>The slice \<^verbatim>\<open>xs[:n]\<close>; a negative bound counts from the end.\<close>

definition py_take :: "int \<Rightarrow> 'a list \<Rightarrow> 'a list" where
  "py_take n xs = (if 0 \<le> n then take (nat n) xs else take (length xs - nat (- n)) xs)"

text \<open>The slice \<^verbatim>\<open>xs[i:j]\<close>.\<close>

definition py_index :: "int \<Rightarrow> nat \<Rightarrow> nat" where
  "py_index i n = (if i < 0 then nat (int n + i) else min (nat i) n)"

definition py_slice :: "int \<Rightarrow> int \<Rightarrow> 'a list \<Rightarrow> 'a list" where
  "py_slice i j xs =
     (let a = py_index i (length xs); b = py_index j (length xs) in take (b - a) (drop a xs))"

text \<open>Decimal rendering of an integer, as \<^verbatim>\<open>str(n)\<close> does it.\<close>

fun show_nat :: "nat \<Rightarrow> string" where
  "show_nat n = (if n < 10 then [char_of (48 + n)] else show_nat (n div 10) @ [char_of (48 + n mod 10)])"

declare show_nat.simps [simp del]

definition show_int :: "int \<Rightarrow> string" where
  "show_int i = (if i < 0 then CHR ''-'' # show_nat (nat (- i)) else show_nat (nat i))"

text \<open>A name in single quotes, as f-strings of the code write it.\<close>

definition quoted :: "string \<Rightarrow> string" where
  "quoted s = CHR 0x27 # s @ [CHR 0x27]"

section \<open>Exceptions\<close>

text \<open>
  The exceptions that the modelled code raises or distinguishes when it catches.  \<^term>\<open>Other\<close> is any
  exception of user code (a handler, a broker, a driver) that no \<^verbatim>\<open>except\<close> clause names.
  A \<^verbatim>\<open>ProjectionHandlerError\<close> carries the exception it is raised from, whose text is its message;
  the same class with the message of an unknown policy is \<open>UnknownErrorPolicy\<close>.  An \<^verbatim>\<open>ACLError\<close> carries
  what failed and its cause.
\<close>

datatype exn =
    ConcurrencyError string
  | LockAcquisitionError string string
  | SagaStateError string
  | SagaConfigurationError string
  | SagaHandlerNotFoundError string
  | HandlerNotRegisteredError string
  | JobStateError string
  | HandlerRegistrationError string
  | CancellationRequestedError string
  | PublisherNotFoundError string
  | MissingEventHandlerError string string
  | StrictValidationViolationError string string
  | EventSourcingConfigurationError string
  | EventSourcedAggregateRequiredError string
  | ValidationError "(string \<times> string list) list"
  | SpecValidationError string string
  | OperatorNotFoundError string
  | FilterParseError string
  | FieldNotAllowedError string
  | SecurityConstraintError string
  | NotFoundError string
  | ProjectionHandlerError exn
  | UnknownErrorPolicy string
  | PermissionDeniedError "string option" string "string list option" string
  | ElevationRequiredError string
  | InsufficientRoleError string
  | ACLError string exn
  | TenantContextMissingError string
  | CrossTenantAccessError string string string "string option"
  | TenantNotFoundError string
  | TenantDeactivatedError string
  | TenantIsolationError string
  | TenantProvisioningError string
  | UndoNotPossibleError string
  | MergeStrategyRegistryMissingError string
  | SourceNotRegisteredError string
  | InvariantViolationError string
  | IdentityError string string
  | KeyError string
  | RecursionError
  | AttributeError string
  | TypeError string
  | ValueError string
  | OverflowError
  | ZeroDivisionError
  | IndexError
  | Other string

text \<open>\<^verbatim>\<open>LockAcquisitionError\<close> is a subclass of \<^verbatim>\<open>ConcurrencyError\<close>.\<close>

fun is_concurrency_error :: "exn \<Rightarrow> bool" where
  "is_concurrency_error (ConcurrencyError _) = True"
| "is_concurrency_error (LockAcquisitionError _ _) = True"
| "is_concurrency_error _ = False"

definition is_ok :: "'e + 'a \<Rightarrow> bool" where
  "is_ok r = (case r of Inl _ \<Rightarrow> False | Inr _ \<Rightarrow> True)"

lemma is_ok_simps [simp, res_simps]: "is_ok (Inr a)" "\<not> is_ok (Inl e)"
  by (simp_all add: is_ok_def)

section \<open>Lemmas on the values\<close>

lemma satisfies_simps [simp]: "satisfies None x" "satisfies (Some p) x = p x"
  by (simp_all add: satisfies_def)

lemma truthy_simps [simp]:
  "\<not> truthy None" "\<not> truthy (Some [])" "truthy (Some (c # cs))"
  by (simp_all add: truthy_def)

lemma py_or_simps [simp]:
  "py_or None b = b" "py_or (Some []) b = b" "py_or (Some (c # cs)) b = Some (c # cs)"
  by (simp_all add: py_or_def)

lemma py_take_nonneg: "0 \<le> n \<Longrightarrow> py_take n xs = take (nat n) xs"
  by (simp add: py_take_def)

lemma set_py_take_subset: "set (py_take n xs) \<subseteq> set xs"
  by (auto simp: py_take_def dest: in_set_takeD)

lemma py_take_prefix: "\<exists>m. py_take n xs = take m xs"
  by (auto simp: py_take_def)

lemma py_slice_nonneg:
  "0 \<le> i \<Longrightarrow> 0 \<le> n \<Longrightarrow> py_slice i (i + n) xs = take (nat n) (drop (nat i) xs)"
  by (auto simp: py_slice_def py_index_def Let_def min_def nat_add_distrib take_all)

lemma set_py_slice_subset: "set (py_slice i j xs) \<subseteq> set xs"
  by (auto simp: py_slice_def Let_def dest: in_set_takeD in_set_dropD)

section \<open>Dictionaries\<close>

abbreviation dkeys :: "('k, 'v) dict \<Rightarrow> 'k list" where
  "dkeys d \<equiv> map fst d"

abbreviation dvalues :: "('k, 'v) dict \<Rightarrow> 'v list" where
  "dvalues d \<equiv> map snd d"

abbreviation dict_ok :: "('k, 'v) dict \<Rightarrow> bool" where
  "dict_ok d \<equiv> distinct (dkeys d)"

lemma dget_set [simp, dict_simps]:
  "map_of (AList.update k v d) k' = (if k' = k then Some v else map_of d k')"
  by (simp add: update_conv)

lemma dget_del [simp, dict_simps]:
  "map_of (AList.delete k d) k' = (if k' = k then None else map_of d k')"
  by (simp add: delete_conv')

lemma dkeys_update_new: "k \<notin> set (dkeys d) \<Longrightarrow> AList.update k v d = d @ [(k, v)]"
  by (induction d) auto

lemma dkeys_update_old: "k \<in> set (dkeys d) \<Longrightarrow> dkeys (AList.update k v d) = dkeys d"
  by (induction d) auto

lemma set_dkeys_update [simp]: "fst ` set (AList.update k v d) = insert k (fst ` set d)"
  by (induction d) auto

lemma length_update_new: "k \<notin> set (dkeys d) \<Longrightarrow> length (AList.update k v d) = Suc (length d)"
  by (simp add: dkeys_update_new)

lemma dict_ok_update [simp, intro]: "dict_ok d \<Longrightarrow> dict_ok (AList.update k v d)"
  by (rule distinct_update)

lemma dict_ok_delete [simp, intro]: "dict_ok d \<Longrightarrow> dict_ok (AList.delete k d)"
  by (rule distinct_delete)

lemma dict_ok_filter [simp, intro]: "dict_ok d \<Longrightarrow> dict_ok (filter P d)"
  by (induction d) auto

lemma map_of_dvalues: "map_of d k = Some v \<Longrightarrow> v \<in> set (dvalues d)"
  by (induction d) (auto split: if_splits)

lemma dvalues_map_of: "dict_ok d \<Longrightarrow> v \<in> set (dvalues d) \<Longrightarrow> \<exists>k. map_of d k = Some v"
  by (fastforce simp: in_set_conv_nth)

lemma map_of_filter_dict:
  "dict_ok d \<Longrightarrow> map_of (filter (\<lambda>(k, v). P k v) d) k =
     (case map_of d k of None \<Rightarrow> None | Some v \<Rightarrow> if P k v then Some v else None)"
proof (induction d)
  case (Cons e d)
  have "k = fst e \<Longrightarrow> map_of d k = None"
    using Cons.prems by (auto simp: map_of_eq_None_iff)
  then show ?case using Cons by (cases e) (auto split: option.splits)
qed simp

text \<open>Replacing the value of a present key changes the values only there.\<close>

lemma dvalues_update_present:
  assumes "dict_ok d" "map_of d k = Some v0"
  shows "set (dvalues (AList.update k v d)) = insert v {w. \<exists>k'. k' \<noteq> k \<and> map_of d k' = Some w}"
proof -
  have "set (dvalues (AList.update k v d)) = ran (map_of (AList.update k v d))"
    using assms(1) by (simp add: ran_distinct dict_ok_update)
  then show ?thesis by (auto simp: ran_def)
qed

section \<open>Lists\<close>

lemma sort_key_mset_filter: "set (sort_key f (filter P xs)) = {x \<in> set xs. P x}"
  by auto

lemma sorted_map_take: "sorted (map f xs) \<Longrightarrow> sorted (map f (take n xs))"
  by (metis sorted_wrt_take take_map)

lemma distinct_map_Cons_neq: "distinct (map f (x # xs)) \<Longrightarrow> y \<in> set xs \<Longrightarrow> f y \<noteq> f x"
  by (metis distinct.simps(2) image_eqI list.set_map list.simps(9))

lemma filter_id_conv': "(\<And>x. x \<in> set xs \<Longrightarrow> P x) \<Longrightarrow> filter P xs = xs"
  by (simp add: filter_id_conv)

lemma sort_key_presorted: "sort_key f (sort_key f xs @ ys) = sort_key f (xs @ ys)"
proof (rule properties_for_sort_key)
  fix k
  have stable: "filter (\<lambda>x. f k = f x) (sort_key f zs) = filter (\<lambda>x. f k = f x) zs" for zs
    using sort_key_stable [of f "f k" zs] by (simp add: eq_commute [of "f k"])
  show "filter (\<lambda>x. f k = f x) (sort_key f (xs @ ys)) = filter (\<lambda>x. f k = f x) (sort_key f xs @ ys)"
    by (simp add: stable)
qed auto

section \<open>Runs of a deterministic relation\<close>

lemma rtranclp_stuck: "(\<And>s. \<not> R a s) \<Longrightarrow> R\<^sup>*\<^sup>* a r \<longleftrightarrow> r = a"
  by (auto elim: converse_rtranclpE)

lemma rtranclp_unique_step: "(\<And>s. R a s \<longleftrightarrow> s = b) \<Longrightarrow> R\<^sup>*\<^sup>* a r \<longleftrightarrow> r = a \<or> R\<^sup>*\<^sup>* b r"
  by (auto elim: converse_rtranclpE intro: converse_rtranclp_into_rtranclp)

end
