(* ===== verification/EventStore.thy ===== *)
theory EventStore
  imports Prelude
begin

text \<open>
  \<^verbatim>\<open>StoredEvent\<close> (ports/event_store.py) and the list-backed \<^verbatim>\<open>InMemoryEventStore\<close>
  (adapters/memory/event_store.py): appends that assign cursor positions, the cursor reads, and the
  two streaming reads.  The streaming reads are \<^verbatim>\<open>while True\<close> loops: the model gives them fuel,
  \<^const>\<open>None\<close> is "the loop has not ended yet", and the lemmas show how much fuel is enough.
  Instrumentation hooks wrap a call and by default run it once; they are not part of the model.
\<close>

section \<open>Model\<close>

record stored_event =
  se_event_id :: string
  se_event_type :: string
  se_aggregate_id :: string
  se_aggregate_type :: string
  se_version :: int
  se_schema_version :: int
  se_payload :: payload
  se_metadata :: payload
  se_occurred_at :: time
  se_correlation_id :: "string option"
  se_causation_id :: "string option"
  se_position :: "int option"
  se_tenant_id :: "string option"

type_synonym event_store = "stored_event list"

definition place :: "nat \<Rightarrow> stored_event \<Rightarrow> stored_event" where
  "place i e = e\<lparr>se_position := (case se_position e of None \<Rightarrow> Some (int i) | Some p \<Rightarrow> Some p)\<rparr>"

definition append_internal :: "event_store \<Rightarrow> stored_event \<Rightarrow> event_store" where
  "append_internal es e = es @ [place (length es) e]"

fun append_batch_loop :: "nat \<Rightarrow> nat \<Rightarrow> stored_event list \<Rightarrow> event_store \<Rightarrow> event_store" where
  "append_batch_loop start i [] es = es"
| "append_batch_loop start i (e # evs) es =
     append_batch_loop start (Suc i) evs (es @ [place (start + i) e])"

definition append_batch_internal :: "event_store \<Rightarrow> stored_event list \<Rightarrow> event_store" where
  "append_batch_internal es evs = append_batch_loop (length es) 0 evs es"

definition append_batch :: "event_store \<Rightarrow> stored_event list \<Rightarrow> event_store" where
  "append_batch es evs = (if evs = [] then es else append_batch_internal es evs)"

definition apply_specification ::
  "stored_event list \<Rightarrow> stored_event spec_opt \<Rightarrow> stored_event list" where
  "apply_specification evs spec =
     (case spec of None \<Rightarrow> evs | Some p \<Rightarrow> filter p evs)"

definition cursor :: "nat \<Rightarrow> stored_event \<Rightarrow> int" where
  "cursor i e = (case se_position e of None \<Rightarrow> int i | Some p \<Rightarrow> p)"

fun get_events_after_loop ::
  "int \<Rightarrow> int \<Rightarrow> stored_event spec_opt \<Rightarrow> nat \<Rightarrow> stored_event list \<Rightarrow> stored_event list \<Rightarrow>
     stored_event list" where
  "get_events_after_loop position limit spec i [] out = out"
| "get_events_after_loop position limit spec i (e # es) out =
     (if position < cursor i e
      then if \<not> satisfies spec e
           then get_events_after_loop position limit spec (Suc i) es out
           else if limit \<le> int (length (out @ [e])) then out @ [e]
           else get_events_after_loop position limit spec (Suc i) es (out @ [e])
      else get_events_after_loop position limit spec (Suc i) es out)"

definition get_events_after ::
  "event_store \<Rightarrow> int \<Rightarrow> int \<Rightarrow> stored_event spec_opt \<Rightarrow> stored_event list" where
  "get_events_after es position limit spec = get_events_after_loop position limit spec 0 es []"

definition next_cursor :: "int \<Rightarrow> stored_event list \<Rightarrow> int" where
  "next_cursor current batch =
     (case se_position (last batch) of None \<Rightarrow> current + int (length batch) | Some p \<Rightarrow> p)"

text \<open>
  \<^verbatim>\<open>get_events_from_position\<close>: what the generator yields, and the exception it ends with, if any
  (\<^verbatim>\<open>batch[-1]\<close> on an empty batch, which a batch size below one reaches).
\<close>

fun get_events_from_position ::
  "nat \<Rightarrow> event_store \<Rightarrow> int \<Rightarrow> int option \<Rightarrow> stored_event spec_opt \<Rightarrow>
     (stored_event list \<times> exn option) option" where
  "get_events_from_position 0 es current limit spec = None"
| "get_events_from_position (Suc fuel) es current limit spec =
     (let batch_size = (case limit of None \<Rightarrow> 1000 | Some l \<Rightarrow> l);
          batch = get_events_after es current batch_size spec
      in if int (length batch) < batch_size then Some (batch, None)
         else if batch = [] then Some ([], Some IndexError)
         else (case get_events_from_position fuel es (next_cursor current batch) limit spec of
                 None \<Rightarrow> None
               | Some (rest, e) \<Rightarrow> Some (batch @ rest, e)))"

definition get_latest_position :: "event_store \<Rightarrow> stored_event spec_opt \<Rightarrow> int option" where
  "get_latest_position es spec =
     (let events = (case spec of None \<Rightarrow> es | Some p \<Rightarrow> filter p es)
      in if events = [] then None
         else let positions = List.map_filter se_position events
              in if positions = [] then (if es \<noteq> [] then Some (int (length es) - 1) else None)
                 else Some (fold max (tl positions) (hd positions)))"

fun get_all_streaming_loop ::
  "nat \<Rightarrow> event_store \<Rightarrow> int \<Rightarrow> int \<Rightarrow> stored_event spec_opt \<Rightarrow>
     stored_event list list option" where
  "get_all_streaming_loop 0 es pos batch_size spec = None"
| "get_all_streaming_loop (Suc fuel) es pos batch_size spec =
     (let batch = get_events_after es pos batch_size spec
      in if batch = [] then Some []
         else (case get_all_streaming_loop fuel es (next_cursor pos batch) batch_size spec of
                 None \<Rightarrow> None
               | Some rest \<Rightarrow> Some (batch # rest)))"

definition get_all_streaming ::
  "nat \<Rightarrow> event_store \<Rightarrow> int \<Rightarrow> stored_event spec_opt \<Rightarrow> stored_event list list option" where
  "get_all_streaming fuel es batch_size spec = get_all_streaming_loop fuel es (-1) batch_size spec"

definition get_events ::
  "event_store \<Rightarrow> string \<Rightarrow> int \<Rightarrow> stored_event spec_opt \<Rightarrow> stored_event list" where
  "get_events es aggregate_id after_version spec =
     apply_specification
       (filter (\<lambda>e. se_aggregate_id e = aggregate_id \<and> after_version < se_version e) es) spec"

definition get_by_aggregate ::
  "event_store \<Rightarrow> string \<Rightarrow> string option \<Rightarrow> stored_event spec_opt \<Rightarrow> stored_event list" where
  "get_by_aggregate es aggregate_id aggregate_type spec =
     (let results = filter (\<lambda>e. se_aggregate_id e = aggregate_id) es;
          results = (case aggregate_type of None \<Rightarrow> results
                     | Some t \<Rightarrow> filter (\<lambda>e. se_aggregate_type e = t) results)
      in apply_specification results spec)"

definition get_all :: "event_store \<Rightarrow> stored_event spec_opt \<Rightarrow> stored_event list" where
  "get_all es spec = apply_specification es spec"

definition clear_events :: "event_store \<Rightarrow> event_store" where
  "clear_events es = []"

text \<open>
  Well-formed stores: every event has a position, and positions increase along the list.
  A dense store numbers its events from 0 without gaps.
\<close>

definition pos_of :: "stored_event \<Rightarrow> int" where
  "pos_of e = (case se_position e of None \<Rightarrow> 0 | Some p \<Rightarrow> p)"

definition positions_ok :: "event_store \<Rightarrow> bool" where
  "positions_ok es \<longleftrightarrow>
     list_all (\<lambda>e. se_position e \<noteq> None) es \<and> sorted_wrt (<) (map pos_of es)"

definition dense :: "event_store \<Rightarrow> bool" where
  "dense es \<longleftrightarrow> map se_position es = map (\<lambda>i. Some (int i)) [0..<length es]"

section \<open>Appending\<close>

lemma append_batch_fold: "append_batch es evs = fold (\<lambda>e es. append_internal es e) evs es"
proof -
  have "append_batch_loop s i evs es = fold (\<lambda>e es. append_internal es e) evs es"
    if "length es = s + i" for s i
    using that
  proof (induction evs arbitrary: i es)
    case (Cons e evs)
    then show ?case by (simp add: append_internal_def)
  qed simp
  from this [of "length es" 0] show ?thesis
    by (auto simp: append_batch_def append_batch_internal_def)
qed

lemma length_append_internal [simp]: "length (append_internal es e) = Suc (length es)"
  by (simp add: append_internal_def)

lemma place_position: "se_position (place i e) = (case se_position e of None \<Rightarrow> Some (int i) | p \<Rightarrow> p)"
  by (simp add: place_def split: option.splits)

lemma dense_append_internal:
  assumes "dense es" "se_position e = None"
  shows "dense (append_internal es e)"
  using assms by (simp add: dense_def append_internal_def place_def)

lemma dense_append_batch:
  assumes "dense es" "list_all (\<lambda>e. se_position e = None) evs"
  shows "dense (append_batch es evs)"
  using assms unfolding append_batch_fold
  by (induction evs arbitrary: es) (auto simp: dense_append_internal)

lemma dense_nth: "dense es \<Longrightarrow> i < length es \<Longrightarrow> se_position (es ! i) = Some (int i)"
  unfolding dense_def by (metis (no_types, lifting) nth_map nth_upt add_0 diff_zero length_upt)

lemma dense_positions_ok:
  assumes "dense es" shows "positions_ok es"
proof -
  have "map pos_of es = map int [0..<length es]"
    by (rule nth_equalityI) (auto simp: pos_of_def dense_nth [OF assms])
  moreover have "list_all (\<lambda>e. se_position e \<noteq> None) es"
    by (auto simp: list_all_length dense_nth [OF assms])
  ultimately show ?thesis by (simp add: positions_ok_def sorted_wrt_map)
qed

section \<open>Cursor reads\<close>

abbreviation wanted :: "int \<Rightarrow> stored_event spec_opt \<Rightarrow> stored_event \<Rightarrow> bool" where
  "wanted p spec e \<equiv> p < pos_of e \<and> satisfies spec e"

lemma get_events_after_loop_take:
  assumes "list_all (\<lambda>e. se_position e \<noteq> None) es"
    and "out = [] \<or> int (length out) < limit"
  shows "get_events_after_loop p limit spec i es out =
           out @ take (nat (max 1 (limit - int (length out)))) (filter (wanted p spec) es)"
  using assms
proof (induction es arbitrary: i out)
  case (Cons e es)
  obtain q where q: "se_position e = Some q" using Cons.prems by auto
  have c: "cursor i e = pos_of e" by (simp add: cursor_def pos_of_def q)
  have nat1: "nat (max 1 (limit - int (length out))) =
      Suc (nat (max 1 (limit - int (length out))) - 1)" by simp
  show ?case
  proof (cases "wanted p spec e")
    case True
    show ?thesis
    proof (cases "limit \<le> int (length (out @ [e]))")
      case last: True
      then have "nat (max 1 (limit - int (length out))) = 1" using Cons.prems(2) by auto
      with True last c show ?thesis by simp
    next
      case False
      then have "nat (max 1 (limit - int (length out))) =
          Suc (nat (max 1 (limit - int (length (out @ [e])))))" by simp
      with True False c Cons.IH [of "out @ [e]"] Cons.prems show ?thesis by simp
    qed
  next
    case False
    with c Cons.IH [of out] Cons.prems show ?thesis by auto
  qed
qed simp

lemma get_events_after_take:
  assumes "positions_ok es"
  shows "get_events_after es p limit spec = take (nat (max 1 limit)) (filter (wanted p spec) es)"
  using get_events_after_loop_take [of es "[]" limit p spec 0] assms
  by (simp add: get_events_after_def positions_ok_def)

lemma filter_after_nth:
  assumes "sorted_wrt (<) (map f xs)" "k < length xs"
  shows "filter (\<lambda>x. f (xs ! k) < (f x :: int)) xs = drop (Suc k) xs"
  using assms
proof (induction xs arbitrary: k)
  case (Cons x xs)
  show ?case
  proof (cases k)
    case 0
    have "\<forall>y\<in>set xs. f x < f y" using Cons.prems(1) by simp
    with 0 show ?thesis by (simp add: filter_id_conv)
  next
    case (Suc j)
    with Cons.prems have "f x < f (xs ! j)" by simp
    then have "\<not> f (xs ! j) < f x" by simp
    with Suc Cons.IH [of j] Cons.prems show ?thesis by simp
  qed
qed simp

lemma wanted_step:
  assumes ok: "positions_ok es" and k: "k < length (filter (wanted p spec) es)"
    and q: "q = pos_of (filter (wanted p spec) es ! k)"
  shows "filter (wanted q spec) es = drop (Suc k) (filter (wanted p spec) es)"
proof -
  let ?F = "filter (wanted p spec) es"
  have "sorted_wrt (<) (map pos_of es)" using ok by (simp add: positions_ok_def)
  then have s: "sorted_wrt (<) (map pos_of ?F)"
    by (simp add: sorted_wrt_map sorted_wrt_filter)
  have "?F ! k \<in> set ?F" using k by (rule nth_mem)
  then have pq: "p < q" by (simp add: q)
  have "filter (wanted q spec) es = filter (\<lambda>e. q < pos_of e) ?F"
    unfolding filter_filter by (rule filter_cong) (use pq in auto)
  also have "\<dots> = drop (Suc k) ?F" using filter_after_nth [OF s k] by (simp add: q)
  finally show ?thesis .
qed

lemma next_cursor_take:
  assumes ok: "positions_ok es" and F: "F = filter (wanted p spec) es" and ne: "F \<noteq> []"
    and m: "0 < m"
  shows "filter (wanted (next_cursor p (take m F)) spec) es = drop m F"
proof -
  let ?k = "min m (length F) - 1"
  have k: "?k < length F" using ne m by (cases F) auto
  have last: "last (take m F) = F ! ?k"
    using ne m by (subst last_conv_nth) (auto simp: min_def)
  have "F ! ?k \<in> set es" using k nth_mem [OF k] F by auto
  then have "se_position (F ! ?k) \<noteq> None"
    using ok by (auto simp: positions_ok_def list_all_iff)
  then have nc: "next_cursor p (take m F) = pos_of (F ! ?k)"
    by (auto simp: next_cursor_def last pos_of_def)
  have "filter (wanted (next_cursor p (take m F)) spec) es = drop (Suc ?k) F"
    unfolding nc unfolding F by (rule wanted_step [OF ok k [unfolded F] refl])
  also have "\<dots> = drop m F" using ne m by (auto simp: min_def Suc_diff_le)
  finally show ?thesis .
qed

section \<open>Streaming reads\<close>

lemma get_events_from_position_complete:
  assumes ok: "positions_ok es" and bs: "1 \<le> (case limit of None \<Rightarrow> 1000 | Some l \<Rightarrow> l)"
    and fuel: "length (filter (wanted p spec) es) < fuel"
  shows "get_events_from_position fuel es p limit spec = Some (filter (wanted p spec) es, None)"
  using fuel
proof (induction fuel arbitrary: p)
  case (Suc fuel)
  define b where "b = (case limit of None \<Rightarrow> 1000 | Some l \<Rightarrow> l)"
  define F where "F = filter (wanted p spec) es"
  have b1: "1 \<le> b" using bs by (simp add: b_def)
  have batch: "get_events_after es p b spec = take (nat b) F"
    using get_events_after_take [OF ok] b1 by (simp add: F_def)
  show ?case
  proof (cases "int (length F) < b")
    case True
    then have "take (nat b) F = F" by simp
    with True batch show ?thesis by (simp add: Let_def b_def [symmetric] F_def)
  next
    case False
    then have ne: "F \<noteq> []" using b1 by auto
    have len: "int (length (take (nat b) F)) = b" using False b1 by simp
    have rest: "filter (wanted (next_cursor p (take (nat b) F)) spec) es = drop (nat b) F"
      using next_cursor_take [OF ok F_def ne] b1 by simp
    have "length (drop (nat b) F) < fuel" using Suc.prems ne b1
      by (cases F) (auto simp: F_def [symmetric])
    then have "get_events_from_position fuel es (next_cursor p (take (nat b) F)) limit spec =
        Some (drop (nat b) F, None)"
      using Suc.IH rest by simp
    with batch len ne b1 show ?thesis
      by (simp add: Let_def b_def [symmetric] F_def [symmetric])
  qed
qed simp

lemma get_all_streaming_loop_complete:
  assumes ok: "positions_ok es" and fuel: "length (filter (wanted p spec) es) < fuel"
  shows "\<exists>bs. get_all_streaming_loop fuel es p n spec = Some bs \<and>
           concat bs = filter (wanted p spec) es \<and>
           (\<forall>b\<in>set bs. b \<noteq> [] \<and> int (length b) \<le> max 1 n)"
  using fuel
proof (induction fuel arbitrary: p)
  case (Suc fuel)
  define F where "F = filter (wanted p spec) es"
  define m where "m = nat (max 1 n)"
  have batch: "get_events_after es p n spec = take m F"
    using get_events_after_take [OF ok] by (simp add: F_def m_def)
  have m1: "0 < m" by (simp add: m_def)
  show ?case
  proof (cases "F = []")
    case True
    with batch show ?thesis by (simp add: F_def [symmetric])
  next
    case False
    have rest: "filter (wanted (next_cursor p (take m F)) spec) es = drop m F"
      by (rule next_cursor_take [OF ok F_def False m1])
    have "length (drop m F) < fuel" using Suc.prems False m1
      by (cases F) (auto simp: F_def [symmetric])
    then obtain bs where bs: "get_all_streaming_loop fuel es (next_cursor p (take m F)) n spec = Some bs"
        "concat bs = drop m F" "\<forall>b\<in>set bs. b \<noteq> [] \<and> int (length b) \<le> max 1 n"
      using Suc.IH rest by metis
    have "take m F \<noteq> []" "int (length (take m F)) \<le> max 1 n"
      using False m1 by (auto simp: m_def)
    with bs batch show ?thesis by (auto simp: F_def [symmetric] Let_def)
  qed
qed simp

section \<open>Properties\<close>

text \<open>A stored event for the witnesses.\<close>

definition sample_event :: "string \<Rightarrow> int \<Rightarrow> stored_event" where
  "sample_event aid v = \<lparr>se_event_id = ''e'', se_event_type = ''OrderCreated'',
     se_aggregate_id = aid, se_aggregate_type = ''Order'', se_version = v, se_schema_version = 1,
     se_payload = [], se_metadata = [], se_occurred_at = 0, se_correlation_id = None,
     se_causation_id = None, se_position = None, se_tenant_id = None\<rparr>"

abbreviation sample_store :: event_store where
  "sample_store \<equiv> append_batch [] [sample_event ''a'' 1, sample_event ''b'' 1, sample_event ''a'' 2]"

lemma erase_position_append_batch:
  "map (\<lambda>e. e\<lparr>se_position := None\<rparr>) (append_batch es evs) =
     map (\<lambda>e. e\<lparr>se_position := None\<rparr>) (es @ evs)"
  unfolding append_batch_fold
  by (induction evs arbitrary: es) (auto simp: append_internal_def place_def)

lemma dense_wanted_None:
  assumes "dense es"
  shows "filter (wanted (int k) None) es = drop (Suc k) es"
proof (cases "k < length es")
  case True
  have "map pos_of es = map int [0..<length es]"
    by (rule nth_equalityI) (auto simp: pos_of_def dense_nth [OF assms])
  then have "sorted_wrt (<) (map pos_of es)" by (simp add: sorted_wrt_map)
  from filter_after_nth [OF this True] dense_nth [OF assms True] show ?thesis
    by (simp add: pos_of_def)
next
  case False
  have "\<not> int k < pos_of e" if "e \<in> set es" for e
    using that False dense_nth [OF assms] by (fastforce simp: in_set_conv_nth pos_of_def)
  with False show ?thesis by (simp add: filter_empty_conv)
qed

lemma fold_max_ints: "fold max (map int [Suc i..<n]) (int i) = int (max i (n - 1))" if "i < n"
  using that
proof (induction n)
  case (Suc n)
  then show ?case by (cases "i = n") auto
qed simp

text \<open>
  appending a batch of events that carry no position keeps the store dense: events are
  numbered 0, 1, 2, ... in append order with no gap.  The batch is stored after the existing events,
  in order, with nothing but the position changed, and it is the same as appending one by one.
\<close>

theorem append_batch_numbers_events:
  assumes "dense es" "list_all (\<lambda>e. se_position e = None) evs"
  shows "dense (append_batch es evs) \<and>
         append_batch es evs = fold (\<lambda>e s. append_internal s e) evs es \<and>
         map (\<lambda>e. e\<lparr>se_position := None\<rparr>) (append_batch es evs) =
           map (\<lambda>e. e\<lparr>se_position := None\<rparr>) es @ evs"
proof -
  have "map (\<lambda>e. e\<lparr>se_position := None\<rparr>) evs = evs"
    using assms(2) by (auto intro!: map_idI simp: list_all_iff)
  with dense_append_batch [OF assms] append_batch_fold [of es evs]
    erase_position_append_batch [of es evs]
  show ?thesis by simp
qed

theorem append_batch_numbers_events_witness:
  "dense (append_batch (append_batch [] [sample_event ''a'' 1]) [sample_event ''a'' 2])"
proof -
  have d: "dense (append_batch [] [sample_event ''a'' 1])"
    by (simp add: dense_def append_batch_def append_batch_internal_def place_def sample_event_def)
  have n: "list_all (\<lambda>e. se_position e = None) [sample_event ''a'' 2]"
    by (simp add: sample_event_def)
  show ?thesis using append_batch_numbers_events [OF d n] by (rule conjunct1)
qed

text \<open>
  C37: on a store whose positions increase, \<^verbatim>\<open>get_events_from_position\<close> ends and yields exactly the
  events after the cursor that satisfy the specification, once each and in store order, for every
  batch size from 1 up.  Fuel above the number of events still to deliver is enough.
\<close>

theorem stream_from_position_complete:
  assumes "positions_ok es" "1 \<le> (case limit of None \<Rightarrow> 1000 | Some l \<Rightarrow> l)" "length es < fuel"
  shows "get_events_from_position fuel es p limit spec =
           Some (filter (\<lambda>e. p < pos_of e \<and> satisfies spec e) es, None)"
proof -
  have "length (filter (wanted p spec) es) < fuel"
    using assms(3) length_filter_le [of "wanted p spec" es] by linarith
  with get_events_from_position_complete [OF assms(1,2)] show ?thesis by simp
qed

theorem stream_from_position_complete_witness:
  "get_events_from_position 4 sample_store 0 (Some 1) None =
     Some (filter (\<lambda>e. 0 < pos_of e \<and> satisfies None e) sample_store, None)"
proof -
  have ok: "positions_ok sample_store"
    by (simp add: positions_ok_def append_batch_def append_batch_internal_def place_def
        sample_event_def pos_of_def)
  have len: "length sample_store < 4"
    by (simp add: append_batch_def append_batch_internal_def)
  show ?thesis by (rule stream_from_position_complete [OF ok _ len]) simp
qed

text \<open>
  \<^verbatim>\<open>get_all_streaming\<close> ends on a store whose positions increase from 0, and its batches,
  concatenated, are the events that satisfy the specification; no batch is empty, and none is longer
  than the batch size (a batch size below 1 behaves like 1).
\<close>

theorem all_streaming_complete:
  assumes "positions_ok es" "list_all (\<lambda>e. 0 \<le> pos_of e) es" "length es < fuel"
  shows "\<exists>bs. get_all_streaming fuel es n spec = Some bs \<and> concat bs = get_all es spec \<and>
           (\<forall>b\<in>set bs. b \<noteq> [] \<and> int (length b) \<le> max 1 n)"
proof -
  have F: "filter (wanted (-1) spec) es = get_all es spec"
    using assms(2) unfolding get_all_def apply_specification_def list_all_iff
    by (cases spec) (force intro!: filter_cong filter_True)+
  have "length (filter (wanted (-1) spec) es) < fuel"
    using assms(3) length_filter_le [of "wanted (-1) spec" es] by linarith
  from get_all_streaming_loop_complete [OF assms(1) this, of n] show ?thesis
    by (simp add: get_all_streaming_def F)
qed

theorem all_streaming_complete_witness:
  "\<exists>bs. get_all_streaming 4 sample_store 2 None = Some bs \<and> concat bs = get_all sample_store None"
proof -
  have ok: "positions_ok sample_store" and nn: "list_all (\<lambda>e. 0 \<le> pos_of e) sample_store"
    by (auto simp: positions_ok_def append_batch_def append_batch_internal_def place_def
        sample_event_def pos_of_def)
  have len: "length sample_store < 4"
    by (simp add: append_batch_def append_batch_internal_def)
  show ?thesis using all_streaming_complete [OF ok nn len, of 2 None] by auto
qed

text \<open>
  on a dense store the cursor contract holds.  Reading after position \<open>k\<close> returns the events
  from index \<open>k + 1\<close> on, up to the limit; the latest position is the index of the last event, and
  reading after it returns nothing, so a consumer that saves the last position it saw misses no event
  and sees none twice.
\<close>

theorem cursor_contract:
  assumes "dense es" "es \<noteq> []" "1 \<le> limit"
  shows "get_events_after es (int k) limit None = take (nat limit) (drop (Suc k) es) \<and>
         get_latest_position es None = Some (int (length es) - 1) \<and>
         get_events_after es (int (length es) - 1) limit None = []"
proof -
  have after: "get_events_after es (int j) limit None = take (nat limit) (drop (Suc j) es)" for j
    using get_events_after_take [OF dense_positions_ok [OF assms(1)]] assms(3)
      dense_wanted_None [OF assms(1)] by simp
  have n: "0 < length es" using assms(2) by simp
  have "filter (\<lambda>e. \<exists>p. se_position e = Some p) es = es"
    using dense_nth [OF assms(1)] by (auto simp: in_set_conv_nth intro!: filter_True)
  then have "List.map_filter se_position es = map (\<lambda>e. the (se_position e)) es"
    by (simp add: List.map_filter_def)
  also have "\<dots> = map int [0..<length es]"
    by (rule nth_equalityI) (auto simp: dense_nth [OF assms(1)])
  finally have mf: "List.map_filter se_position es = int 0 # map int [Suc 0..<length es]"
    using n by (simp add: upt_conv_Cons)
  have "get_latest_position es None = Some (int (length es) - 1)"
    using fold_max_ints [OF n] n assms(2) by (simp add: get_latest_position_def mf)
  moreover have "get_events_after es (int (length es) - 1) limit None = []"
    using after [of "length es - 1"] n by (simp add: of_nat_diff)
  ultimately show ?thesis using after by simp
qed

theorem cursor_contract_witness:
  "get_events_after sample_store (int 0) 5 None = take (nat 5) (drop (Suc 0) sample_store) \<and>
   get_latest_position sample_store None = Some (int (length sample_store) - 1)"
proof -
  have d: "dense sample_store"
    by (simp add: dense_def append_batch_def append_batch_internal_def place_def sample_event_def)
  have ne: "sample_store \<noteq> []" by (simp add: append_batch_def append_batch_internal_def)
  show ?thesis using cursor_contract [OF d ne, of 5 0] by simp
qed

end
