(* ===== verification/Repository.thy ===== *)
theory Repository
  imports Prelude
begin

text \<open>
  The repository interface of the toolkit (ports/repository.py) and its dictionary-backed
  implementation \<^verbatim>\<open>InMemoryRepository\<close> (adapters/memory/repository.py).

  Services reach entities through the pattern load, mutate, save.  \<^term>\<open>load_update\<close> is that pattern
  over any repository; the locale \<open>repository\<close> states what a repository promises, and its lemmas say
  what load, mutate, save does to the stored entities.  Entities are values: what a service mutates
  becomes visible to other readers when it is saved.
\<close>

section \<open>InMemoryRepository\<close>

type_synonym ('i, 'a) mem_repo = "('i, 'a) dict"

definition repo_add :: "('a \<Rightarrow> 'i) \<Rightarrow> ('i, 'a) mem_repo \<Rightarrow> 'a \<Rightarrow> ('i, 'a) mem_repo \<times> 'i" where
  "repo_add ident r x = (AList.update (ident x) x r, ident x)"

definition repo_get :: "('i, 'a) mem_repo \<Rightarrow> 'i \<Rightarrow> 'a spec_opt \<Rightarrow> 'a option" where
  "repo_get r i spec =
     (case map_of r i of
        None \<Rightarrow> None
      | Some x \<Rightarrow> if \<not> satisfies spec x then None else Some x)"

definition repo_delete :: "('i, 'a) mem_repo \<Rightarrow> 'i \<Rightarrow> 'a spec_opt \<Rightarrow> ('i, 'a) mem_repo \<times> 'i" where
  "repo_delete r i spec =
     (case (spec, map_of r i) of
        (Some p, Some x) \<Rightarrow> if \<not> p x then (r, i) else (AList.delete i r, i)
      | _ \<Rightarrow> (AList.delete i r, i))"

definition repo_clear :: "('i, 'a) mem_repo \<Rightarrow> ('i, 'a) mem_repo" where
  "repo_clear r = []"

definition repo_list_all ::
  "('i, 'a) mem_repo \<Rightarrow> 'i list option \<Rightarrow> 'a spec_opt \<Rightarrow> 'a list" where
  "repo_list_all r ids spec =
     (let results = (case ids of None \<Rightarrow> dvalues r
                     | Some js \<Rightarrow> dvalues (filter (\<lambda>(i, x). i \<in> set js) r))
      in case spec of None \<Rightarrow> results | Some p \<Rightarrow> filter p results)"

definition repo_search :: "('i, 'a) mem_repo \<Rightarrow> ('a \<Rightarrow> bool) \<Rightarrow> 'a list" where
  "repo_search r p = filter p (dvalues r)"

text \<open>
  \<^verbatim>\<open>stream_fn\<close>: \<^verbatim>\<open>range(0, len(items), batch)\<close> with \<^verbatim>\<open>batch = batch_size or len(items) or 1\<close>.
  A negative batch size makes the range empty.
\<close>

definition stream_batch :: "int option \<Rightarrow> nat \<Rightarrow> int" where
  "stream_batch batch_size n =
     (case batch_size of
        None \<Rightarrow> if n = 0 then 1 else int n
      | Some b \<Rightarrow> if b = 0 then (if n = 0 then 1 else int n) else b)"

fun stream_chunks :: "nat \<Rightarrow> 'a list \<Rightarrow> 'a list" where
  "stream_chunks b [] = []"
| "stream_chunks b (x # xs) = take (Suc b) (x # xs) @ stream_chunks b (drop b xs)"

definition repo_search_stream ::
  "('i, 'a) mem_repo \<Rightarrow> ('a \<Rightarrow> bool) \<Rightarrow> int option \<Rightarrow> 'a list" where
  "repo_search_stream r p batch_size =
     (let items = repo_search r p; b = stream_batch batch_size (length items)
      in if b < 0 then [] else stream_chunks (nat b - 1) items)"

section \<open>Load, mutate, save\<close>

definition load_update ::
  "('r \<Rightarrow> 'i \<Rightarrow> 'a option) \<Rightarrow> ('r \<Rightarrow> 'a \<Rightarrow> 'r \<times> 'a) \<Rightarrow> ('a \<Rightarrow> exn + 'a) \<Rightarrow> 'r \<Rightarrow> 'i \<Rightarrow>
     'r \<times> (exn + 'a option)" where
  "load_update get add op r i =
     (case get r i of
        None \<Rightarrow> (r, Inr None)
      | Some x \<Rightarrow> (case op x of
                    Inl e \<Rightarrow> (r, Inl e)
                  | Inr x' \<Rightarrow> (case add r x' of (r', x'') \<Rightarrow> (r', Inr (Some x'')))))"

section \<open>The interface\<close>

text \<open>
  \<open>add\<close> stores the entity under its identity and returns the stored entity (an implementation may
  bump a version); \<open>delete\<close> removes one entity; neither touches the others.
\<close>

locale repository =
  fixes add :: "'r \<Rightarrow> 'a \<Rightarrow> 'r \<times> 'a"
    and get :: "'r \<Rightarrow> 'i \<Rightarrow> 'a option"
    and delete :: "'r \<Rightarrow> 'i \<Rightarrow> 'r"
    and ident :: "'a \<Rightarrow> 'i"
    and invar :: "'r \<Rightarrow> bool"
  assumes get_add: "get (fst (add r x)) i = (if i = ident x then Some (snd (add r x)) else get r i)"
    and ident_add: "ident (snd (add r x)) = ident x"
    and get_delete: "get (delete r i) j = (if j = i then None else get r j)"
    and get_ident: "invar r \<Longrightarrow> get r i = Some x \<Longrightarrow> ident x = i"
    and invar_add: "invar r \<Longrightarrow> invar (fst (add r x))"
    and invar_delete: "invar r \<Longrightarrow> invar (delete r i)"
begin

lemma load_update_missing: "get r i = None \<Longrightarrow> load_update get add op r i = (r, Inr None)"
  by (simp add: load_update_def)

lemma load_update_raises:
  "get r i = Some x \<Longrightarrow> op x = Inl e \<Longrightarrow> load_update get add op r i = (r, Inl e)"
  by (simp add: load_update_def)

lemma load_update_saves:
  assumes "get r i = Some x" "op x = Inr x'"
  shows "load_update get add op r i = (fst (add r x'), Inr (Some (snd (add r x'))))"
  using assms by (simp add: load_update_def split: prod.splits)

lemma load_update_cases:
  obtains (missing) "get r i = None" "load_update get add op r i = (r, Inr None)"
  | (raises) x e where "get r i = Some x" "op x = Inl e" "load_update get add op r i = (r, Inl e)"
  | (saves) x x' where "get r i = Some x" "op x = Inr x'"
      "load_update get add op r i = (fst (add r x'), Inr (Some (snd (add r x'))))"
proof (cases "get r i")
  case (Some x)
  then show thesis using raises saves load_update_raises load_update_saves
    by (cases "op x") blast+
qed (use missing load_update_missing in blast)

lemma load_update_invar: "invar r \<Longrightarrow> invar (fst (load_update get add op r i))"
  by (rule load_update_cases [of r i op]) (auto simp: invar_add)

lemma load_update_other:
  assumes "invar r" "\<And>x x'. op x = Inr x' \<Longrightarrow> ident x' = ident x" "j \<noteq> i"
  shows "get (fst (load_update get add op r i)) j = get r j"
proof (cases rule: load_update_cases [of r i op])
  case (saves x x')
  have "ident x' = i" using saves assms get_ident by metis
  with saves assms(3) show ?thesis by (simp add: get_add)
qed auto

lemma load_update_same:
  assumes "invar r" "\<And>x x'. op x = Inr x' \<Longrightarrow> ident x' = ident x"
    and "snd (load_update get add op r i) = Inr (Some y)"
  shows "get (fst (load_update get add op r i)) i = Some y"
proof (cases rule: load_update_cases [of r i op])
  case (saves x x')
  have "ident x' = i" using saves assms get_ident by metis
  with saves assms(3) show ?thesis by (simp add: get_add)
qed (use assms(3) in auto)

lemma load_update_error_unchanged:
  "snd (load_update get add op r i) = Inl e \<Longrightarrow> fst (load_update get add op r i) = r"
  by (rule load_update_cases [of r i op]) auto

end

section \<open>InMemoryRepository provides the interface\<close>

definition repo_ok :: "('a \<Rightarrow> 'i) \<Rightarrow> ('i, 'a) mem_repo \<Rightarrow> bool" where
  "repo_ok ident r \<longleftrightarrow> dict_ok r \<and> list_all (\<lambda>(i, x). ident x = i) r"

lemma repo_ok_get: "repo_ok ident r \<Longrightarrow> map_of r i = Some x \<Longrightarrow> ident x = i"
  by (auto simp: repo_ok_def list_all_iff dest: map_of_SomeD)

lemma set_alist_update: "set (AList.update k v d) \<subseteq> insert (k, v) (set d)"
  by (induction d) auto

lemma set_alist_delete: "set (AList.delete k d) \<subseteq> set d"
  by (auto simp: AList.delete_eq)

lemma repo_ok_update: "repo_ok ident r \<Longrightarrow> repo_ok ident (AList.update (ident x) x r)"
  unfolding repo_ok_def list_all_iff
  by (auto dest!: subsetD [OF set_alist_update])

lemma repo_ok_delete: "repo_ok ident r \<Longrightarrow> repo_ok ident (AList.delete i r)"
  unfolding repo_ok_def list_all_iff
  by (auto dest!: subsetD [OF set_alist_delete])

interpretation mem: repository "\<lambda>r x. (fst (repo_add ident r x), x)" "\<lambda>r i. repo_get r i None"
  "\<lambda>r i. fst (repo_delete r i None)" ident "repo_ok ident" for ident :: "'a \<Rightarrow> 'i"
  by unfold_locales
    (auto simp: repo_add_def repo_get_def repo_delete_def repo_ok_update repo_ok_delete
      split: option.splits dest: repo_ok_get)

lemma stream_chunks_all: "stream_chunks b xs = xs"
  by (induction b xs rule: stream_chunks.induct) auto

text \<open>
  streaming a search in batches yields the items of the list search, in the same order, for
  every batch size but a negative one: no item is lost or repeated at a batch border.
\<close>

theorem search_stream_agrees:
  assumes "case batch_size of None \<Rightarrow> True | Some b \<Rightarrow> 0 \<le> b"
  shows "repo_search_stream r p batch_size = repo_search r p"
proof -
  have "0 \<le> stream_batch batch_size (length (repo_search r p))"
    using assms by (auto simp: stream_batch_def split: option.splits)
  then show ?thesis by (simp add: repo_search_stream_def stream_chunks_all Let_def)
qed

theorem search_stream_agrees_witness:
  "repo_search_stream [(1::nat, ''a''), (2, ''b''), (3, ''c'')] (\<lambda>s. s \<noteq> ''b'') (Some 1) =
   repo_search [(1::nat, ''a''), (2, ''b''), (3, ''c'')] (\<lambda>s. s \<noteq> ''b'')"
  by (rule search_stream_agrees) simp

end
