(* ===== verification/Jobs.thy ===== *)
theory Jobs
  imports Repository
begin

text \<open>
  \<^verbatim>\<open>BaseBackgroundJob\<close> (background_jobs/entity.py): the job aggregate, its guarded transitions and
  the events it records.  Each transition either raises \<^verbatim>\<open>JobStateError\<close> before it changes anything or
  returns the changed job.  \<open>job_step\<close> is the state machine the transitions make up.
\<close>

section \<open>Model\<close>

datatype job_status = JOB_PENDING | JOB_RUNNING | JOB_COMPLETED | JOB_FAILED | JOB_CANCELLED

fun job_status_value :: "job_status \<Rightarrow> string" where
  "job_status_value JOB_PENDING = ''PENDING''"
| "job_status_value JOB_RUNNING = ''RUNNING''"
| "job_status_value JOB_COMPLETED = ''COMPLETED''"
| "job_status_value JOB_FAILED = ''FAILED''"
| "job_status_value JOB_CANCELLED = ''CANCELLED''"

datatype job_event_body =
    JobCreated string int
  | JobStarted
  | JobCompleted
  | JobFailed string
  | JobRetried int
  | JobCancelled

record job_event =
  je_body :: job_event_body
  je_correlation_id :: "string option"
  je_aggregate_id :: "string option"
  je_aggregate_type :: "string option"

record background_job =
  bj_id :: string
  bj_class :: string
  bj_job_type :: string
  bj_status :: job_status
  bj_total_items :: int
  bj_processed_items :: int
  bj_result_data :: payload
  bj_error_message :: "string option"
  bj_broker_message_id :: "string option"
  bj_retry_count :: int
  bj_max_retries :: int
  bj_created_at :: time
  bj_updated_at :: time
  bj_metadata :: payload
  bj_correlation_id :: "string option"
  bj_tenant_id :: "string option"
  bj_version :: int
  bj_events :: "job_event list"

definition job_touch :: "time \<Rightarrow> background_job \<Rightarrow> background_job" where
  "job_touch now j = j\<lparr>bj_updated_at := now\<rparr>"

definition new_event :: "job_event_body \<Rightarrow> background_job \<Rightarrow> job_event" where
  "new_event b j = \<lparr>je_body = b, je_correlation_id = bj_correlation_id j,
                    je_aggregate_id = None, je_aggregate_type = None\<rparr>"

definition job_emit :: "job_event \<Rightarrow> background_job \<Rightarrow> background_job" where
  "job_emit e j =
     (let e = (if truthy (je_aggregate_id e) then e else e\<lparr>je_aggregate_id := Some (bj_id j)\<rparr>);
          e = (if truthy (je_aggregate_type e) then e else e\<lparr>je_aggregate_type := Some (bj_class j)\<rparr>)
      in j\<lparr>bj_events := bj_events j @ [e]\<rparr>)"

text \<open>
  \<^verbatim>\<open>create\<close>: \<open>data\<close> is the job \<^verbatim>\<open>cls(**data)\<close> builds, \<open>data_id\<close> the \<^verbatim>\<open>id\<close> the caller put in the data,
  if any, \<open>next_id\<close> what the id generator gives, if there is one, \<open>fresh\<close> the default factory's id.
  The constructor starts with no recorded events.
\<close>

definition job_create ::
  "background_job \<Rightarrow> string option \<Rightarrow> string option \<Rightarrow> string option \<Rightarrow> string \<Rightarrow> background_job" where
  "job_create data aggregate_id data_id next_id fresh =
     (let i = (case aggregate_id of Some a \<Rightarrow> a
               | None \<Rightarrow> (case data_id of Some d \<Rightarrow> d
                         | None \<Rightarrow> (case next_id of Some g \<Rightarrow> g | None \<Rightarrow> fresh)));
          j = data\<lparr>bj_id := i, bj_events := []\<rparr>
      in job_emit (new_event (JobCreated (bj_job_type j) (bj_total_items j)) j) j)"

definition job_state_error :: "string \<Rightarrow> background_job \<Rightarrow> exn" where
  "job_state_error what j =
     JobStateError (''Cannot '' @ what @ '' in '' @ job_status_value (bj_status j) @ '' state'')"

definition start_processing :: "time \<Rightarrow> background_job \<Rightarrow> exn + background_job" where
  "start_processing now j =
     (if bj_status j \<noteq> JOB_PENDING then Inl (job_state_error ''start job'' j)
      else let j = job_touch now (j\<lparr>bj_status := JOB_RUNNING\<rparr>)
           in Inr (job_emit (new_event JobStarted j) j))"

definition update_progress :: "time \<Rightarrow> int \<Rightarrow> background_job \<Rightarrow> exn + background_job" where
  "update_progress now n j =
     (if bj_status j \<noteq> JOB_RUNNING then Inl (job_state_error ''update progress'' j)
      else Inr (job_touch now (j\<lparr>bj_processed_items := n\<rparr>)))"

definition dict_update :: "payload \<Rightarrow> payload \<Rightarrow> payload" where
  "dict_update d e = fold (\<lambda>(k, v) d. AList.update k v d) e d"

definition job_complete :: "time \<Rightarrow> payload option \<Rightarrow> background_job \<Rightarrow> exn + background_job" where
  "job_complete now result j =
     (if bj_status j \<noteq> JOB_RUNNING then Inl (job_state_error ''complete job'' j)
      else let j = j\<lparr>bj_status := JOB_COMPLETED\<rparr>;
               j = (case result of
                      None \<Rightarrow> j
                    | Some d \<Rightarrow> if d = [] then j
                                else j\<lparr>bj_result_data := dict_update (bj_result_data j) d\<rparr>);
               j = job_touch now j
           in Inr (job_emit (new_event JobCompleted j) j))"

definition job_fail :: "time \<Rightarrow> string \<Rightarrow> background_job \<Rightarrow> exn + background_job" where
  "job_fail now msg j =
     (if bj_status j \<notin> {JOB_RUNNING, JOB_PENDING} then Inl (job_state_error ''fail job'' j)
      else let j = job_touch now (j\<lparr>bj_status := JOB_FAILED, bj_error_message := Some msg\<rparr>)
           in Inr (job_emit (new_event (JobFailed msg) j) j))"

definition job_retry :: "time \<Rightarrow> background_job \<Rightarrow> exn + background_job" where
  "job_retry now j =
     (if bj_status j \<noteq> JOB_FAILED then Inl (job_state_error ''retry job'' j)
      else if bj_max_retries j \<le> bj_retry_count j then Inl (JobStateError (''Max retries ('' @ show_int (bj_max_retries j) @ '') exceeded''))
      else let j = job_touch now (j\<lparr>bj_retry_count := bj_retry_count j + 1,
                                    bj_status := JOB_RUNNING, bj_error_message := None\<rparr>)
           in Inr (job_emit (new_event (JobRetried (bj_retry_count j)) j) j))"

definition job_cancel :: "time \<Rightarrow> background_job \<Rightarrow> exn + background_job" where
  "job_cancel now j =
     (if bj_status j \<in> {JOB_COMPLETED, JOB_CANCELLED} then Inl (job_state_error ''cancel job'' j)
      else let j = job_touch now (j\<lparr>bj_status := JOB_CANCELLED,
                                    bj_error_message := Some ''Cancelled by user''\<rparr>)
           in Inr (job_emit (new_event JobCancelled j) j))"

text \<open>The state machine: one rule per transition that succeeds.\<close>

inductive job_step :: "background_job \<Rightarrow> background_job \<Rightarrow> bool" where
  start: "start_processing now j = Inr j' \<Longrightarrow> job_step j j'"
| progress: "update_progress now n j = Inr j' \<Longrightarrow> job_step j j'"
| complete: "job_complete now r j = Inr j' \<Longrightarrow> job_step j j'"
| failed: "job_fail now msg j = Inr j' \<Longrightarrow> job_step j j'"
| retry: "job_retry now j = Inr j' \<Longrightarrow> job_step j j'"
| cancel: "job_cancel now j = Inr j' \<Longrightarrow> job_step j j'"

inductive job_run :: "background_job \<Rightarrow> background_job \<Rightarrow> bool" where
  init: "job_run j j"
| step: "job_run j k \<Longrightarrow> job_step k l \<Longrightarrow> job_run j l"

text \<open>
  What the recorded events say about a job: the status and retry count a reader rebuilds from the
  log alone.
\<close>

fun replay_body :: "job_status \<times> int \<Rightarrow> job_event_body \<Rightarrow> job_status \<times> int" where
  "replay_body (s, n) (JobCreated t k) = (JOB_PENDING, n)"
| "replay_body (s, n) JobStarted = (JOB_RUNNING, n)"
| "replay_body (s, n) JobCompleted = (JOB_COMPLETED, n)"
| "replay_body (s, n) (JobFailed m) = (JOB_FAILED, n)"
| "replay_body (s, n) (JobRetried k) = (JOB_RUNNING, k)"
| "replay_body (s, n) JobCancelled = (JOB_CANCELLED, n)"

definition replay_log :: "job_event list \<Rightarrow> job_status \<times> int" where
  "replay_log es = foldl replay_body (JOB_PENDING, 0) (map je_body es)"

section \<open>Transitions\<close>

lemmas job_op_defs = start_processing_def update_progress_def job_complete_def job_fail_def
  job_retry_def job_cancel_def

lemmas job_emit_defs = job_emit_def job_touch_def new_event_def Let_def

definition stamped :: "background_job \<Rightarrow> job_event_body \<Rightarrow> job_event" where
  "stamped j b = \<lparr>je_body = b, je_correlation_id = bj_correlation_id j,
                  je_aggregate_id = Some (bj_id j), je_aggregate_type = Some (bj_class j)\<rparr>"

lemma emit_new_event:
  "job_emit (new_event b j) j = j\<lparr>bj_events := bj_events j @ [stamped j b]\<rparr>"
  by (simp add: job_emit_defs stamped_def)

lemmas job_op_simps = job_op_defs emit_new_event job_touch_def Let_def stamped_def

inductive_simps job_step_iff: "job_step j j'"

lemma job_step_cases:
  assumes "job_step j j'"
  obtains (start) "bj_status j = JOB_PENDING" "bj_status j' = JOB_RUNNING"
      "bj_retry_count j' = bj_retry_count j" "bj_events j' = bj_events j @ [stamped j JobStarted]"
  | (progress) "bj_status j = JOB_RUNNING" "bj_status j' = JOB_RUNNING"
      "bj_retry_count j' = bj_retry_count j" "bj_events j' = bj_events j"
  | (complete) "bj_status j = JOB_RUNNING" "bj_status j' = JOB_COMPLETED"
      "bj_retry_count j' = bj_retry_count j" "bj_events j' = bj_events j @ [stamped j JobCompleted]"
  | (failed) m where "bj_status j \<in> {JOB_PENDING, JOB_RUNNING}" "bj_status j' = JOB_FAILED"
      "bj_retry_count j' = bj_retry_count j" "bj_events j' = bj_events j @ [stamped j (JobFailed m)]"
  | (retry) "bj_status j = JOB_FAILED" "bj_status j' = JOB_RUNNING"
      "bj_retry_count j < bj_max_retries j" "bj_retry_count j' = bj_retry_count j + 1"
      "bj_events j' = bj_events j @ [stamped j (JobRetried (bj_retry_count j + 1))]"
  | (cancel) "bj_status j \<in> {JOB_PENDING, JOB_RUNNING, JOB_FAILED}" "bj_status j' = JOB_CANCELLED"
      "bj_retry_count j' = bj_retry_count j" "bj_events j' = bj_events j @ [stamped j JobCancelled]"
  using assms
proof (cases rule: job_step.cases)
  case (start now)
  then show thesis using that(1) by (auto simp: job_op_simps split: if_splits)
next
  case (progress now n)
  then show thesis using that(2) by (auto simp: job_op_simps split: if_splits)
next
  case (complete now r)
  then show thesis using that(3) by (auto simp: job_op_simps split: if_splits option.splits)
next
  case (failed now msg)
  then show thesis using that(4) by (auto simp: job_op_simps split: if_splits)
next
  case (retry now)
  then show thesis using that(5) by (auto simp: job_op_simps split: if_splits)
next
  case (cancel now)
  then show thesis using that(6)
    by (cases "bj_status j") (auto simp: job_op_simps split: if_splits)
qed

lemma job_step_keeps:
  assumes "job_step j j'"
  shows "bj_id j' = bj_id j" "bj_max_retries j' = bj_max_retries j" "bj_class j' = bj_class j"
    "bj_correlation_id j' = bj_correlation_id j" "bj_version j' = bj_version j"
  using assms
  by (auto simp: job_step_iff job_op_simps split: if_splits option.splits)

lemma job_ops_step:
  "start_processing now j = Inr j' \<Longrightarrow> job_step j j'" "job_complete now r j = Inr j' \<Longrightarrow> job_step j j'"
  "job_fail now m j = Inr j' \<Longrightarrow> job_step j j'" "job_retry now j = Inr j' \<Longrightarrow> job_step j j'"
  "job_cancel now j = Inr j' \<Longrightarrow> job_step j j'"
  by (auto intro: job_step.intros)

lemma job_run_keeps:
  assumes "job_run j k"
  shows "bj_id k = bj_id j \<and> bj_max_retries k = bj_max_retries j \<and> bj_class k = bj_class j \<and>
         bj_correlation_id k = bj_correlation_id j"
  using assms by (induction rule: job_run.induct) (auto dest: job_step_keeps)

lemma job_run_terminal:
  assumes "job_run j k" "bj_status j \<in> {JOB_COMPLETED, JOB_CANCELLED}"
  shows "k = j"
  using assms
proof (induction rule: job_run.induct)
  case (step j k l)
  then have "k = j" by simp
  with step.hyps(2) step.prems show ?case by (auto elim: job_step_cases)
qed simp

section \<open>Properties\<close>

text \<open>A job for the witnesses.\<close>

definition sample_job :: "string \<Rightarrow> int \<Rightarrow> background_job" where
  "sample_job i m = \<lparr>bj_id = i, bj_class = ''ImportJob'', bj_job_type = ''import'',
     bj_status = JOB_PENDING, bj_total_items = 10, bj_processed_items = 0, bj_result_data = [],
     bj_error_message = None, bj_broker_message_id = None, bj_retry_count = 0, bj_max_retries = m,
     bj_created_at = 0, bj_updated_at = 0, bj_metadata = [], bj_correlation_id = Some ''c'',
     bj_tenant_id = None, bj_version = 0, bj_events = []\<rparr>"

text \<open>
  the status graph.  A transition that succeeds moves along one of the edges below and no
  other, so COMPLETED and CANCELLED are final: no run leaves them or changes anything of the job.
\<close>

theorem job_status_graph:
  "(job_step j j' \<longrightarrow> (bj_status j, bj_status j') \<in>
      {(JOB_PENDING, JOB_RUNNING), (JOB_RUNNING, JOB_RUNNING), (JOB_RUNNING, JOB_COMPLETED),
       (JOB_PENDING, JOB_FAILED), (JOB_RUNNING, JOB_FAILED), (JOB_FAILED, JOB_RUNNING),
       (JOB_PENDING, JOB_CANCELLED), (JOB_RUNNING, JOB_CANCELLED), (JOB_FAILED, JOB_CANCELLED)}) \<and>
   (job_run j k \<longrightarrow> bj_status j \<in> {JOB_COMPLETED, JOB_CANCELLED} \<longrightarrow> k = j)"
  by (auto elim: job_step_cases dest: job_run_terminal)

theorem job_status_graph_witness:
  "\<exists>j'. start_processing 5 (sample_job ''j'' 3) = Inr j' \<and>
     (bj_status (sample_job ''j'' 3), bj_status j') = (JOB_PENDING, JOB_RUNNING) \<and>
     \<not> job_step j' (sample_job ''j'' 3)"
proof -
  obtain j' where j': "start_processing 5 (sample_job ''j'' 3) = Inr j'" "bj_status j' = JOB_RUNNING"
    by (simp add: job_op_simps sample_job_def)
  have "\<not> job_step j' (sample_job ''j'' 3)"
    using job_status_graph [of j' "sample_job ''j'' 3"] j'(2) by (auto simp: sample_job_def)
  with j' show ?thesis by (auto simp: sample_job_def)
qed

text \<open>
  the retry budget.  A job created with its retry count within its maximum keeps it there
  along every run, and a run performs at most \<^verbatim>\<open>max_retries\<close> retries; once the budget is spent a failed
  job cannot be retried.
\<close>

theorem job_retry_budget:
  assumes "job_run j k" "bj_retry_count j \<le> bj_max_retries j"
  shows "bj_retry_count j \<le> bj_retry_count k \<and> bj_retry_count k \<le> bj_max_retries k \<and>
         (bj_retry_count k = bj_max_retries k \<longrightarrow> \<not> is_ok (job_retry now k))"
proof -
  have "bj_retry_count j \<le> bj_retry_count k \<and> bj_retry_count k \<le> bj_max_retries k"
    using assms
  proof (induction rule: job_run.induct)
    case (step j k l)
    then show ?case using job_step_keeps(2) [OF step.hyps(2)]
      by (auto elim!: job_step_cases)
  qed simp
  then show ?thesis by (simp add: job_op_simps)
qed

theorem job_retry_budget_witness:
  "bj_retry_count (sample_job ''j'' 0) \<le> bj_max_retries (sample_job ''j'' 0) \<and>
   \<not> is_ok (job_retry 7 (sample_job ''j'' 0))"
proof -
  have b: "bj_retry_count (sample_job ''j'' 0) \<le> bj_max_retries (sample_job ''j'' 0)"
    by (simp add: sample_job_def)
  show ?thesis using job_retry_budget [OF job_run.init b, of 7] b by (simp add: sample_job_def)
qed

text \<open>
  the event log tells the truth.  For a job created in PENDING with no retries yet, the
  status and the retry count rebuilt from the recorded events alone are those of the job after every
  run, and every recorded event carries the job's identity and class.
\<close>

theorem job_log_replays:
  assumes "job_run (job_create data aid did gen fresh) k"
    and "bj_status data = JOB_PENDING" "bj_retry_count data = 0"
  shows "replay_log (bj_events k) = (bj_status k, bj_retry_count k) \<and>
         (\<forall>e\<in>set (bj_events k). je_aggregate_id e = Some (bj_id k) \<and>
                                 je_aggregate_type e = Some (bj_class k))"
  using assms
proof (induction "job_create data aid did gen fresh" k rule: job_run.induct)
  case init
  then show ?case by (simp add: job_create_def Let_def emit_new_event stamped_def replay_log_def)
next
  case (step k l)
  then show ?case using job_step_keeps [OF step.hyps(3)]
    by (auto elim!: job_step_cases simp: replay_log_def stamped_def)
qed

theorem job_log_replays_witness:
  "replay_log (bj_events (job_create (sample_job ''j'' 3) None None None ''u'')) =
     (JOB_PENDING, 0)"
  using job_log_replays [OF job_run.init, of "sample_job ''j'' 3" None None None "''u''"]
  by (simp add: sample_job_def job_create_def Let_def emit_new_event)

end
