(* ===== verification/JobService.thy ===== *)
theory JobService
  imports Jobs
begin

text \<open>
  The services around background jobs: \<^verbatim>\<open>InMemoryBackgroundJobRepository\<close>
  (adapters/memory/background_jobs.py), \<^verbatim>\<open>BackgroundJobService\<close> (background_jobs/service.py),
  \<^verbatim>\<open>BackgroundJobAdminService\<close> (background_jobs/admin_service.py) and
  \<^verbatim>\<open>BackgroundJobEventHandler\<close> (background_jobs/handler.py).

  The handler's \<^verbatim>\<open>execute\<close> and hooks are code of the application: they are arguments, functions that
  take the repository and the job and return both changed, so that they also stand for what other
  actors (an administrator, the sweeper) do to the repository meanwhile.
\<close>

section \<open>InMemoryBackgroundJobRepository\<close>

type_synonym job_repo = "(string, background_job) mem_repo"

definition jobs_add :: "job_repo \<Rightarrow> background_job \<Rightarrow> job_repo \<times> background_job" where
  "jobs_add r j = (let j = j\<lparr>bj_version := bj_version j + 1\<rparr> in (AList.update (bj_id j) j r, j))"

definition jobs_get :: "job_repo \<Rightarrow> string \<Rightarrow> background_job spec_opt \<Rightarrow> background_job option" where
  "jobs_get r i spec =
     (case map_of r i of None \<Rightarrow> None | Some j \<Rightarrow> if \<not> satisfies spec j then None else Some j)"

definition jobs_delete :: "job_repo \<Rightarrow> string \<Rightarrow> background_job spec_opt \<Rightarrow> job_repo" where
  "jobs_delete r i spec =
     (case (spec, map_of r i) of
        (Some p, Some j) \<Rightarrow> if \<not> p j then r else AList.delete i r
      | _ \<Rightarrow> AList.delete i r)"

definition jobs_list_all ::
  "job_repo \<Rightarrow> string list option \<Rightarrow> background_job spec_opt \<Rightarrow> background_job list" where
  "jobs_list_all r ids spec =
     (let candidates = (case ids of None \<Rightarrow> dvalues r
                        | Some is \<Rightarrow> dvalues (filter (\<lambda>(i, j). i \<in> set is) r))
      in case spec of None \<Rightarrow> candidates | Some p \<Rightarrow> filter p candidates)"

definition is_stale :: "time \<Rightarrow> int option \<Rightarrow> background_job \<Rightarrow> bool" where
  "is_stale now timeout j \<longleftrightarrow>
     bj_status j = JOB_RUNNING \<and>
     (case timeout of None \<Rightarrow> 3600 | Some t \<Rightarrow> t) < now - bj_updated_at j"

definition get_stale_jobs ::
  "time \<Rightarrow> job_repo \<Rightarrow> int option \<Rightarrow> background_job spec_opt \<Rightarrow> background_job list" where
  "get_stale_jobs now r timeout spec =
     filter (\<lambda>j. is_stale now timeout j \<and> satisfies spec j) (dvalues r)"

definition find_by_status ::
  "job_repo \<Rightarrow> job_status list \<Rightarrow> int \<Rightarrow> int \<Rightarrow> background_job spec_opt \<Rightarrow> background_job list" where
  "find_by_status r statuses limit offset spec =
     py_slice offset (offset + limit)
       (sort_key (\<lambda>j. - bj_updated_at j)
          (filter (\<lambda>j. bj_status j \<in> set statuses \<and> satisfies spec j) (dvalues r)))"

definition count_by_status :: "job_repo \<Rightarrow> background_job spec_opt \<Rightarrow> (string, nat) dict" where
  "count_by_status r spec =
     fold (\<lambda>j counts. if \<not> satisfies spec j then counts
                      else let key = job_status_value (bj_status j)
                           in AList.update key
                                ((case map_of counts key of None \<Rightarrow> 0 | Some n \<Rightarrow> n) + 1) counts)
       (dvalues r) []"

definition is_cancellation_requested :: "job_repo \<Rightarrow> string \<Rightarrow> bool" where
  "is_cancellation_requested r i \<longleftrightarrow>
     (case map_of r i of None \<Rightarrow> False | Some j \<Rightarrow> bj_status j = JOB_CANCELLED)"

definition purgeable :: "time \<Rightarrow> background_job spec_opt \<Rightarrow> background_job \<Rightarrow> bool" where
  "purgeable before spec j \<longleftrightarrow>
     bj_status j \<in> {JOB_COMPLETED, JOB_CANCELLED} \<and> \<not> before \<le> bj_updated_at j \<and> satisfies spec j"

definition purge_completed ::
  "job_repo \<Rightarrow> time \<Rightarrow> background_job spec_opt \<Rightarrow> job_repo \<times> nat" where
  "purge_completed r before spec =
     (let to_delete = map fst (filter (\<lambda>(i, j). purgeable before spec j) r)
      in (fold AList.delete to_delete r, length to_delete))"

section \<open>BackgroundJobService\<close>

abbreviation load_job :: "job_repo \<Rightarrow> string \<Rightarrow> background_job option" where
  "load_job r i \<equiv> jobs_get r i None"

definition schedule_job :: "job_repo \<Rightarrow> background_job \<Rightarrow> job_repo \<times> background_job" where
  "schedule_job r j = jobs_add r j"

definition cancel_job :: "time \<Rightarrow> job_repo \<Rightarrow> string \<Rightarrow> job_repo \<times> (exn + background_job option)" where
  "cancel_job now r i = load_update load_job jobs_add (job_cancel now) r i"

definition retry_job :: "time \<Rightarrow> job_repo \<Rightarrow> string \<Rightarrow> job_repo \<times> (exn + background_job option)" where
  "retry_job now r i = load_update load_job jobs_add (job_retry now) r i"

text \<open>The last component says whether the sweeper's trigger was called (\<open>has_trigger\<close>: one is set).\<close>

definition mark_running ::
  "bool \<Rightarrow> time \<Rightarrow> job_repo \<Rightarrow> string \<Rightarrow> (job_repo \<times> (exn + background_job option)) \<times> bool" where
  "mark_running has_trigger now r i =
     (let res = load_update load_job jobs_add (start_processing now) r i
      in (res, has_trigger \<and> (case snd res of Inr (Some _) \<Rightarrow> True | _ \<Rightarrow> False)))"

definition stale_message :: "int \<Rightarrow> string" where
  "stale_message t = ''Job timed out after '' @ show_int t @ ''s (stale)''"

fun sweep_loop :: "time \<Rightarrow> int \<Rightarrow> background_job list \<Rightarrow> job_repo \<Rightarrow> nat \<Rightarrow> job_repo \<times> nat" where
  "sweep_loop now t [] r swept = (r, swept)"
| "sweep_loop now t (j # js) r swept =
     (case job_fail now (stale_message t) j of
        Inl _ \<Rightarrow> sweep_loop now t js r swept
      | Inr j' \<Rightarrow> sweep_loop now t js (fst (jobs_add r j')) (Suc swept))"

definition process_stale_jobs :: "time \<Rightarrow> job_repo \<Rightarrow> int \<Rightarrow> job_repo \<times> nat" where
  "process_stale_jobs now r t =
     (let stale = get_stale_jobs now r (Some t) None
      in if stale = [] then (r, 0) else sweep_loop now t stale r 0)"

section \<open>BackgroundJobAdminService\<close>

definition list_jobs :: "job_repo \<Rightarrow> job_status list option \<Rightarrow> int \<Rightarrow> int \<Rightarrow> background_job list" where
  "list_jobs r statuses limit offset =
     (case statuses of
        None \<Rightarrow> jobs_list_all r None None
      | Some ss \<Rightarrow> if ss = [] then jobs_list_all r None None
                   else find_by_status r ss limit offset None)"

definition get_statistics :: "job_repo \<Rightarrow> (string, nat) dict \<times> nat" where
  "get_statistics r = (let counts = count_by_status r None in (counts, sum_list (dvalues counts)))"

fun bulk_cancel :: "time \<Rightarrow> string list \<Rightarrow> job_repo \<Rightarrow> nat \<Rightarrow> nat \<Rightarrow> job_repo \<times> nat \<times> nat" where
  "bulk_cancel now [] r cancelled skipped = (r, cancelled, skipped)"
| "bulk_cancel now (i # is) r cancelled skipped =
     (case load_job r i of
        None \<Rightarrow> bulk_cancel now is r cancelled (Suc skipped)
      | Some j \<Rightarrow>
          if bj_status j \<in> {JOB_COMPLETED, JOB_CANCELLED}
          then bulk_cancel now is r cancelled (Suc skipped)
          else (case job_cancel now j of
                  Inl _ \<Rightarrow> bulk_cancel now is r cancelled (Suc skipped)
                | Inr j' \<Rightarrow> bulk_cancel now is (fst (jobs_add r j')) (Suc cancelled) skipped))"

fun bulk_retry :: "time \<Rightarrow> string list \<Rightarrow> job_repo \<Rightarrow> nat \<Rightarrow> nat \<Rightarrow> job_repo \<times> nat \<times> nat" where
  "bulk_retry now [] r retried skipped = (r, retried, skipped)"
| "bulk_retry now (i # is) r retried skipped =
     (case load_job r i of
        None \<Rightarrow> bulk_retry now is r retried (Suc skipped)
      | Some j \<Rightarrow>
          if bj_status j \<noteq> JOB_FAILED then bulk_retry now is r retried (Suc skipped)
          else if bj_max_retries j \<le> bj_retry_count j then bulk_retry now is r retried (Suc skipped)
          else (case job_retry now j of
                  Inl _ \<Rightarrow> bulk_retry now is r retried (Suc skipped)
                | Inr j' \<Rightarrow> bulk_retry now is (fst (jobs_add r j')) (Suc retried) skipped))"

definition purge_completed_default :: "time \<Rightarrow> job_repo \<Rightarrow> time option \<Rightarrow> job_repo \<times> nat" where
  "purge_completed_default now r before =
     purge_completed r (case before of None \<Rightarrow> now | Some b \<Rightarrow> b) None"

text \<open>
  \<^verbatim>\<open>cancel_running\<close>: \<open>env k\<close> is what happens to the repository during the \<open>k\<close>-th sleep of one second
  (\<open>env 0\<close>: while the stop signal is sent), \<open>kill_eff\<close> during the forced kill.  The loop sleeps while
  fewer seconds than the grace period have elapsed, so a fractional period counts as the next whole
  number of seconds.  The result lists the calls of the kill strategy.
\<close>

datatype kill_call = RequestStop string | ForceKill string

fun grace_loop ::
  "(nat \<Rightarrow> job_repo \<Rightarrow> job_repo) \<Rightarrow> string \<Rightarrow> nat \<Rightarrow> nat \<Rightarrow> job_repo \<Rightarrow>
     job_repo \<times> background_job option option" where
  "grace_loop env i elapsed 0 r = (r, None)"
| "grace_loop env i elapsed (Suc left) r =
     (let r = env (Suc elapsed) r
      in case load_job r i of
           None \<Rightarrow> (r, Some None)
         | Some latest \<Rightarrow>
             if bj_status latest \<noteq> JOB_RUNNING then (r, Some (Some latest))
             else grace_loop env i (Suc elapsed) left r)"

definition terminated_message :: "nat \<Rightarrow> string" where
  "terminated_message grace =
     ''Terminated: did not stop within '' @ show_nat grace @ ''s grace period''"

definition cancel_running ::
  "time \<Rightarrow> job_repo \<Rightarrow> string \<Rightarrow> bool \<Rightarrow> nat \<Rightarrow> (nat \<Rightarrow> job_repo \<Rightarrow> job_repo) \<Rightarrow>
     (job_repo \<Rightarrow> job_repo) \<Rightarrow> job_repo \<times> (exn + background_job option) \<times> kill_call list" where
  "cancel_running now r i has_strategy grace env kill_eff =
     (case load_job r i of
        None \<Rightarrow> (r, Inr None, [])
      | Some j \<Rightarrow>
          if bj_status j \<noteq> JOB_RUNNING then (r, Inr (Some j), [])
          else case job_cancel now j of
            Inl e \<Rightarrow> (r, Inl e, [])
          | Inr j' \<Rightarrow>
              (case jobs_add r j' of (r, j'') \<Rightarrow>
                 if \<not> has_strategy then (r, Inr (Some j''), [])
                 else case grace_loop env i 0 grace (env 0 r) of
                   (r, Some res) \<Rightarrow> (r, Inr res, [RequestStop i])
                 | (r, None) \<Rightarrow>
                     (let r = kill_eff r; calls = [RequestStop i, ForceKill i]
                      in case load_job r i of
                           None \<Rightarrow> (r, Inr None, calls)
                         | Some latest \<Rightarrow>
                             if bj_status latest = JOB_RUNNING
                             then (case job_fail now (terminated_message grace) latest of
                                     Inl e \<Rightarrow> (r, Inl e, calls)
                                   | Inr l \<Rightarrow> (case jobs_add r l of
                                               (r, l') \<Rightarrow> (r, Inr (Some l'), calls)))
                             else (r, Inr (Some latest), calls))))"

section \<open>BackgroundJobEventHandler\<close>

type_synonym job_hook = "job_repo \<Rightarrow> background_job \<Rightarrow> job_repo \<times> background_job \<times> exn option"

definition checkpoint_cancellation :: "job_repo \<Rightarrow> string \<Rightarrow> exn option" where
  "checkpoint_cancellation r i =
     (if is_cancellation_requested r i
      then Some (CancellationRequestedError (''Job '' @ i @ '' was cancelled'')) else None)"

definition handle_cancellation :: "time \<Rightarrow> job_repo \<Rightarrow> string \<Rightarrow> job_repo \<times> exn option" where
  "handle_cancellation now r i =
     (case load_job r i of
        None \<Rightarrow> (r, None)
      | Some latest \<Rightarrow>
          if bj_status latest = JOB_CANCELLED then (r, None)
          else (case job_cancel now latest of
                  Inl e \<Rightarrow> (r, Some e)
                | Inr l \<Rightarrow> (fst (jobs_add r l), None)))"

definition on_error ::
  "time \<Rightarrow> (exn \<Rightarrow> string) \<Rightarrow> (exn \<Rightarrow> job_hook) \<Rightarrow> job_repo \<Rightarrow> background_job \<Rightarrow> exn \<Rightarrow>
     job_repo \<times> exn option" where
  "on_error now str on_failure r j e =
     (case on_failure e r j of
        (r, j, Some e') \<Rightarrow> (r, Some e')
      | (r, j, None) \<Rightarrow>
          if bj_status j \<notin> {JOB_COMPLETED, JOB_FAILED, JOB_CANCELLED}
          then (case job_fail now (str e) j of
                  Inl e' \<Rightarrow> (r, Some e')
                | Inr j' \<Rightarrow> (fst (jobs_add r j'), Some e))
          else (r, Some e))"

definition run_job ::
  "time \<Rightarrow> (exn \<Rightarrow> string) \<Rightarrow> (job_repo \<Rightarrow> background_job \<Rightarrow> job_repo \<times> background_job \<times> (exn + payload option)) \<Rightarrow>
     (exn \<Rightarrow> job_hook) \<Rightarrow> job_hook \<Rightarrow> job_repo \<Rightarrow> string \<Rightarrow> background_job \<Rightarrow> job_repo \<times> exn option" where
  "run_job now str execute on_failure on_cancellation r i j =
     (case execute r j of
        (r, j, Inl (CancellationRequestedError m)) \<Rightarrow>
          (case on_cancellation r j of
             (r, _, Some e) \<Rightarrow> (r, Some e)
           | (r, _, None) \<Rightarrow> handle_cancellation now r i)
      | (r, j, Inl e) \<Rightarrow> on_error now str on_failure r j e
      | (r, j, Inr result) \<Rightarrow>
          (case load_job r i of
             Some latest \<Rightarrow>
               if bj_status latest = JOB_CANCELLED then (r, None)
               else (case job_complete now result j of
                       Inl e \<Rightarrow> on_error now str on_failure r j e
                     | Inr j' \<Rightarrow> (fst (jobs_add r j'), None))
           | None \<Rightarrow>
               (case job_complete now result j of
                  Inl e \<Rightarrow> on_error now str on_failure r j e
                | Inr j' \<Rightarrow> (fst (jobs_add r j'), None))))"

definition handle_job ::
  "time \<Rightarrow> (exn \<Rightarrow> string) \<Rightarrow> job_hook \<Rightarrow>
     (job_repo \<Rightarrow> background_job \<Rightarrow> job_repo \<times> background_job \<times> (exn + payload option)) \<Rightarrow>
     (exn \<Rightarrow> job_hook) \<Rightarrow> job_hook \<Rightarrow> job_repo \<Rightarrow> string option \<Rightarrow> job_repo \<times> exn option" where
  "handle_job now str before execute on_failure on_cancellation r corr =
     (if \<not> truthy corr then (r, None)
      else case load_job r (the corr) of
        None \<Rightarrow> (r, None)
      | Some j \<Rightarrow>
          (case before r j of
             (r, j, Some e) \<Rightarrow> (r, Some e)
           | (r, j, None) \<Rightarrow>
               (case (if bj_status j = JOB_FAILED then job_retry now j else start_processing now j) of
                  Inl e \<Rightarrow> (r, Some e)
                | Inr j \<Rightarrow>
                    (case jobs_add r j of (r, j) \<Rightarrow>
                       run_job now str execute on_failure on_cancellation r (the corr) j))))"


section \<open>The job repository provides the repository interface\<close>

interpretation jobs: repository jobs_add load_job "\<lambda>r i. jobs_delete r i None" bj_id "repo_ok bj_id"
  by unfold_locales
    (auto simp: jobs_add_def jobs_get_def jobs_delete_def repo_ok_delete Let_def
      repo_ok_update [of bj_id _ "_\<lparr>bj_version := _\<rparr>", simplified]
      split: option.splits dest: repo_ok_get)

lemma load_job_eq [simp]: "load_job r i = map_of r i"
  by (auto simp: jobs_get_def split: option.splits)

abbreviation bump :: "background_job \<Rightarrow> background_job" where
  "bump j \<equiv> j\<lparr>bj_version := bj_version j + 1\<rparr>"

lemma jobs_add_eq: "jobs_add r j = (AList.update (bj_id j) (bump j) r, bump j)"
  by (simp add: jobs_add_def Let_def)

lemma job_ops_id:
  "start_processing now j = Inr j' \<Longrightarrow> bj_id j' = bj_id j" "job_complete now d j = Inr j' \<Longrightarrow> bj_id j' = bj_id j"
  "job_fail now m j = Inr j' \<Longrightarrow> bj_id j' = bj_id j" "job_retry now j = Inr j' \<Longrightarrow> bj_id j' = bj_id j"
  "job_cancel now j = Inr j' \<Longrightarrow> bj_id j' = bj_id j"
  by (auto dest!: job_ops_step dest: job_step_keeps)

section \<open>Bulk operations\<close>

text \<open>
  Both bulk loops apply one guarded operation to the jobs with the given ids, in turn, and skip a job
  that is missing or that the operation would refuse.  The locale asks of the operation that it keeps
  the identity and that a job it has just changed is refused the second time, so that an id listed
  twice is counted once.
\<close>

fun bulk_apply ::
  "(background_job \<Rightarrow> exn + background_job) \<Rightarrow> string list \<Rightarrow> job_repo \<Rightarrow> nat \<Rightarrow> nat \<Rightarrow> job_repo \<times> nat \<times> nat" where
  "bulk_apply op [] r a s = (r, a, s)"
| "bulk_apply op (i # is) r a s =
     (case map_of r i of
        None \<Rightarrow> bulk_apply op is r a (Suc s)
      | Some j \<Rightarrow> (case op j of
                    Inl _ \<Rightarrow> bulk_apply op is r a (Suc s)
                  | Inr j' \<Rightarrow> bulk_apply op is (fst (jobs_add r j')) (Suc a) s))"

definition applied :: "(background_job \<Rightarrow> exn + background_job) \<Rightarrow> background_job \<Rightarrow> background_job" where
  "applied op j = (case op j of Inl _ \<Rightarrow> j | Inr j' \<Rightarrow> bump j')"

definition accepts :: "(background_job \<Rightarrow> exn + background_job) \<Rightarrow> job_repo \<Rightarrow> string \<Rightarrow> bool" where
  "accepts op r i = (case map_of r i of None \<Rightarrow> False | Some j \<Rightarrow> is_ok (op j))"

locale once_op =
  fixes op :: "background_job \<Rightarrow> exn + background_job"
  assumes op_id: "op j = Inr j' \<Longrightarrow> bj_id j' = bj_id j"
    and op_once: "op j = Inr j' \<Longrightarrow> \<not> is_ok (op (bump j'))"
begin

lemma applied_once: "op j = Inr j' \<Longrightarrow> applied op (bump j') = bump j'"
  using op_once [of j j'] by (auto simp: applied_def split: sum.splits)

lemma applied_refused: "op j = Inl e \<Longrightarrow> applied op j = j"
  by (simp add: applied_def)

lemma bulk_apply_spec:
  assumes "repo_ok bj_id r" "bulk_apply op is r a s = (r', a', s')"
  shows "repo_ok bj_id r' \<and>
         (\<forall>i. map_of r' i = (if i \<in> set is then map_option (applied op) (map_of r i) else map_of r i)) \<and>
         a' = a + card {i \<in> set is. accepts op r i} \<and> a' + s' = a + s + length is"
  using assms
proof (induction "is" arbitrary: r a s)
  case (Cons i "is")
  show ?case
  proof (cases "accepts op r i")
    case False
    then have skip: "bulk_apply op is r a (Suc s) = (r', a', s')"
      using Cons.prems(2) by (auto simp: accepts_def split: option.splits sum.splits)
    have "map_option (applied op) (map_of r i) = map_of r i"
      using False by (auto simp: accepts_def applied_def split: option.splits sum.splits)
    moreover have "{i' \<in> set (i # is). accepts op r i'} = {i' \<in> set is. accepts op r i'}"
      using False by auto
    ultimately show ?thesis using Cons.IH [OF Cons.prems(1) skip] by auto
  next
    case True
    then obtain j j' where j: "map_of r i = Some j" "op j = Inr j'"
      by (auto simp: accepts_def is_ok_def split: option.splits sum.splits)
    let ?r = "fst (jobs_add r j')"
    have id: "bj_id j' = i" using j op_id repo_ok_get Cons.prems(1) by metis
    have get: "map_of ?r k = (if k = i then Some (bump j') else map_of r k)" for k
      by (simp add: jobs_add_eq id)
    have nacc: "\<not> accepts op ?r i" using op_once [OF j(2)] by (simp add: accepts_def get)
    have "{k \<in> set (i # is). accepts op r k} = insert i {k \<in> set is. accepts op ?r k}"
      using True nacc by (auto simp: accepts_def get split: if_splits)
    then have card: "card {k \<in> set (i # is). accepts op r k} = Suc (card {k \<in> set is. accepts op ?r k})"
      using nacc by (simp add: card_insert_disjoint)
    have run: "bulk_apply op is ?r (Suc a) s = (r', a', s')" using Cons.prems(2) j by simp
    have "map_option (applied op) (map_of r i) = Some (bump j')" using j by (simp add: applied_def)
    with Cons.IH [OF jobs.invar_add [OF Cons.prems(1)] run] show ?thesis
      unfolding card by (auto simp: get applied_once [OF j(2)] split: if_splits)
  qed
qed simp

end

interpretation bulk_canceller: once_op "job_cancel now" for now
  by unfold_locales (auto dest: job_ops_id simp: job_op_simps split: if_splits)

interpretation bulk_retrier: once_op "job_retry now" for now
  by unfold_locales (auto dest: job_ops_id simp: job_op_simps split: if_splits)

lemma bulk_cancel_apply: "bulk_cancel now is r a s = bulk_apply (job_cancel now) is r a s"
  by (induction "is" arbitrary: r a s)
    (auto simp: job_op_simps split: option.splits sum.splits)

lemma bulk_retry_apply: "bulk_retry now is r a s = bulk_apply (job_retry now) is r a s"
  by (induction "is" arbitrary: r a s)
    (auto simp: job_op_simps split: option.splits sum.splits)

section \<open>The sweep\<close>

definition timed_out :: "time \<Rightarrow> int \<Rightarrow> background_job \<Rightarrow> background_job" where
  "timed_out now t j =
     j\<lparr>bj_status := JOB_FAILED, bj_error_message := Some (stale_message t), bj_updated_at := now,
       bj_version := bj_version j + 1,
       bj_events := bj_events j @ [stamped j (JobFailed (stale_message t))]\<rparr>"

lemma not_stale_timed_out: "\<not> is_stale now' t' (timed_out now t j)"
  by (simp add: is_stale_def timed_out_def)

lemma fail_running:
  "bj_status j = JOB_RUNNING \<Longrightarrow>
     \<exists>j'. job_fail now (stale_message t) j = Inr j' \<and> bump j' = timed_out now t j \<and> bj_id j' = bj_id j"
  by (simp add: job_op_simps timed_out_def)

lemma sweep_loop_spec:
  assumes "\<forall>j\<in>set js. bj_status j = JOB_RUNNING" "distinct (map bj_id js)"
  shows "snd (sweep_loop now t js r n) = n + length js \<and>
         map_of (fst (sweep_loop now t js r n)) i =
           (case map_of (map (\<lambda>j. (bj_id j, j)) js) i of
              None \<Rightarrow> map_of r i | Some j \<Rightarrow> Some (timed_out now t j))"
  using assms
proof (induction js arbitrary: r n)
  case (Cons j js)
  then obtain j' where j': "job_fail now (stale_message t) j = Inr j'"
      "bump j' = timed_out now t j" "bj_id j' = bj_id j"
    using fail_running by (metis list.set_intros(1))
  have "map_of (map (\<lambda>j. (bj_id j, j)) js) (bj_id j) = None"
    using Cons.prems(2) by (auto simp: map_of_eq_None_iff)
  with Cons j' show ?case by (auto simp: jobs_add_eq split: option.splits)
qed simp

lemma values_by_id:
  assumes "repo_ok bj_id r"
  shows "map_of (map (\<lambda>j. (bj_id j, j)) (filter P (dvalues r))) i =
           (case map_of r i of None \<Rightarrow> None | Some j \<Rightarrow> if P j then Some j else None)"
    and "distinct (map bj_id (filter P (dvalues r)))"
proof -
  have *: "map (\<lambda>j. (bj_id j, j)) (filter P (dvalues r)) = filter (\<lambda>(i, j). P j) r"
    using assms unfolding repo_ok_def by (induction r) auto
  show "map_of (map (\<lambda>j. (bj_id j, j)) (filter P (dvalues r))) i =
      (case map_of r i of None \<Rightarrow> None | Some j \<Rightarrow> if P j then Some j else None)"
    unfolding * using assms by (simp add: repo_ok_def map_of_filter_dict)
  have "map bj_id (filter P (dvalues r)) = dkeys (map (\<lambda>j. (bj_id j, j)) (filter P (dvalues r)))"
    by simp
  also have "distinct \<dots>" unfolding * using assms by (simp add: repo_ok_def dict_ok_filter)
  finally show "distinct (map bj_id (filter P (dvalues r)))" .
qed

text \<open>The sweep of a repository, job by job.\<close>

lemma process_stale_jobs_eq:
  assumes "repo_ok bj_id r" "process_stale_jobs now r t = (r', n)"
  shows "n = length (get_stale_jobs now r (Some t) None)"
    and "map_of r' i =
           map_option (\<lambda>j. if is_stale now (Some t) j then timed_out now t j else j) (map_of r i)"
proof -
  let ?st = "get_stale_jobs now r (Some t) None"
  have run: "\<forall>j\<in>set ?st. bj_status j = JOB_RUNNING" by (auto simp: get_stale_jobs_def is_stale_def)
  have d: "distinct (map bj_id ?st)" using values_by_id(2) [OF assms(1)] by (simp add: get_stale_jobs_def)
  have e: "sweep_loop now t ?st r 0 = (r', n)"
    using assms(2) by (auto simp: process_stale_jobs_def Let_def split: if_splits)
  show "n = length ?st" using sweep_loop_spec [OF run d, of now t r 0] e by simp
  show "map_of r' i = map_option (\<lambda>j. if is_stale now (Some t) j then timed_out now t j else j) (map_of r i)"
    using sweep_loop_spec [OF run d, of now t r 0 i] e values_by_id(1) [OF assms(1)]
    by (auto simp: get_stale_jobs_def split: option.splits)
qed


definition running_job :: "string \<Rightarrow> time \<Rightarrow> background_job" where
  "running_job i u = (sample_job i 3)\<lparr>bj_status := JOB_RUNNING, bj_updated_at := u\<rparr>"


section \<open>Properties of the admin service\<close>

text \<open>
  \<^verbatim>\<open>bulk_cancel\<close>.  Of the listed jobs exactly those that exist and are not COMPLETED or CANCELLED
  become CANCELLED, each once even if it is listed twice; every other job is untouched; the
  two counters add up to the number of ids.
\<close>

theorem bulk_cancel_result:
  assumes "repo_ok bj_id r" "bulk_cancel now is r 0 0 = (r', c, s)"
  shows "c = card {i \<in> set is. \<exists>j. map_of r i = Some j \<and> bj_status j \<notin> {JOB_COMPLETED, JOB_CANCELLED}} \<and>
         c + s = length is \<and> repo_ok bj_id r' \<and>
         (i \<notin> set is \<longrightarrow> map_of r' i = map_of r i) \<and>
         (i \<in> set is \<longrightarrow> map_option bj_status (map_of r' i) =
            map_option (\<lambda>j. if bj_status j = JOB_COMPLETED then JOB_COMPLETED else JOB_CANCELLED) (map_of r i))"
proof -
  have acc: "accepts (job_cancel now) r i \<longleftrightarrow>
      (\<exists>j. map_of r i = Some j \<and> bj_status j \<notin> {JOB_COMPLETED, JOB_CANCELLED})" for i
    by (auto simp: accepts_def job_op_simps split: option.splits)
  have st: "bj_status (applied (job_cancel now) j) =
      (if bj_status j = JOB_COMPLETED then JOB_COMPLETED else JOB_CANCELLED)" for j
    by (auto simp: applied_def job_op_simps)
  from bulk_canceller.bulk_apply_spec [OF assms(1), of now "is" 0 0 r' c s] assms(2)
  have b: "repo_ok bj_id r'" "c = card {i \<in> set is. accepts (job_cancel now) r i}" "c + s = length is"
    "\<And>i. map_of r' i = (if i \<in> set is then map_option (applied (job_cancel now)) (map_of r i) else map_of r i)"
    by (simp_all add: bulk_cancel_apply)
  show ?thesis using b by (simp add: acc st option.map_comp comp_def)
qed

theorem bulk_cancel_result_witness:
  "\<exists>r'. bulk_cancel 9 [''a'', ''a'', ''x''] [(''a'', running_job ''a'' 1)] 0 0 = (r', 1, 2) \<and>
        map_option bj_status (map_of r' ''a'') = Some JOB_CANCELLED"
proof -
  let ?r = "[(''a'', running_job ''a'' 1)]"
  have ok: "repo_ok bj_id ?r" by (simp add: repo_ok_def running_job_def sample_job_def)
  obtain r' c s where e: "bulk_cancel 9 [''a'', ''a'', ''x''] ?r 0 0 = (r', c, s)"
    using prod_cases3 by blast
  have "{i \<in> set [''a'', ''a'', ''x'']. \<exists>j. map_of ?r i = Some j \<and> bj_status j \<notin> {JOB_COMPLETED, JOB_CANCELLED}} = {''a''}"
    by (auto simp: running_job_def)
  then show ?thesis using bulk_cancel_result [OF ok e, of "''a''"] e
    by (simp add: running_job_def)
qed

text \<open>
  \<^verbatim>\<open>bulk_retry\<close>.  Of the listed jobs exactly those that are FAILED with retries left are set
  RUNNING with one more retry counted, each at most once; every other job is untouched.
\<close>

theorem bulk_retry_result:
  assumes "repo_ok bj_id r" "bulk_retry now is r 0 0 = (r', c, s)"
  shows "c = card {i \<in> set is. \<exists>j. map_of r i = Some j \<and> bj_status j = JOB_FAILED \<and>
                                      bj_retry_count j < bj_max_retries j} \<and>
         c + s = length is \<and> repo_ok bj_id r' \<and>
         map_option (\<lambda>j. (bj_status j, bj_retry_count j)) (map_of r' i) =
           map_option (\<lambda>j. if i \<in> set is \<and> bj_status j = JOB_FAILED \<and> bj_retry_count j < bj_max_retries j
                            then (JOB_RUNNING, bj_retry_count j + 1)
                            else (bj_status j, bj_retry_count j)) (map_of r i)"
proof -
  have acc: "accepts (job_retry now) r i \<longleftrightarrow>
      (\<exists>j. map_of r i = Some j \<and> bj_status j = JOB_FAILED \<and> bj_retry_count j < bj_max_retries j)" for i
    by (auto simp: accepts_def job_op_simps split: option.splits)
  have st: "(bj_status (applied (job_retry now) j), bj_retry_count (applied (job_retry now) j)) =
      (if bj_status j = JOB_FAILED \<and> bj_retry_count j < bj_max_retries j
       then (JOB_RUNNING, bj_retry_count j + 1) else (bj_status j, bj_retry_count j))" for j
    by (auto simp: applied_def job_op_simps)
  from bulk_retrier.bulk_apply_spec [OF assms(1), of now "is" 0 0 r' c s] assms(2)
  have b: "repo_ok bj_id r'" "c = card {i \<in> set is. accepts (job_retry now) r i}" "c + s = length is"
    "\<And>i. map_of r' i = (if i \<in> set is then map_option (applied (job_retry now)) (map_of r i) else map_of r i)"
    by (simp_all add: bulk_retry_apply)
  show ?thesis using b by (auto simp: acc st option.map_comp comp_def)
qed

theorem bulk_retry_result_witness:
  "\<exists>r'. bulk_retry 9 [''a'', ''b''] [(''a'', running_job ''a'' 1),
          (''b'', (running_job ''b'' 1)\<lparr>bj_status := JOB_FAILED\<rparr>)] 0 0 = (r', 1, 1)"
proof -
  let ?r = "[(''a'', running_job ''a'' 1), (''b'', (running_job ''b'' 1)\<lparr>bj_status := JOB_FAILED\<rparr>)]"
  have ok: "repo_ok bj_id ?r" by (simp add: repo_ok_def running_job_def sample_job_def)
  obtain r' c s where e: "bulk_retry 9 [''a'', ''b''] ?r 0 0 = (r', c, s)" using prod_cases3 by blast
  have "{i \<in> set [''a'', ''b'']. \<exists>j. map_of ?r i = Some j \<and> bj_status j = JOB_FAILED \<and>
          bj_retry_count j < bj_max_retries j} = {''b''}"
    by (auto simp: running_job_def sample_job_def split: if_splits)
  then show ?thesis using bulk_retry_result [OF ok e, of "''a''"] e by simp
qed

text \<open>Deleting keys one by one is filtering.\<close>

lemma fold_delete: "fold AList.delete ks d = filter (\<lambda>(k, v). k \<notin> set ks) d"
  by (induction ks arbitrary: d) (auto simp: AList.delete_eq filter_filter case_prod_unfold intro: filter_cong)

lemma purge_completed_eq:
  assumes "dict_ok r"
  shows "purge_completed r before spec =
           (filter (\<lambda>(i, j). \<not> purgeable before spec j) r,
            length (filter (\<lambda>(i, j). purgeable before spec j) r))"
proof -
  have "(i \<in> fst ` {x \<in> set r. case x of (i, j) \<Rightarrow> purgeable before spec j}) = purgeable before spec j"
    if "(i, j) \<in> set r" for i j
    using that by (auto simp: image_iff dest: eq_key_imp_eq_value [OF assms])
  then have "filter (\<lambda>(i, j). i \<notin> set (map fst (filter (\<lambda>(i, j). purgeable before spec j) r))) r =
      filter (\<lambda>(i, j). \<not> purgeable before spec j) r"
    by (auto intro!: filter_cong)
  then show ?thesis unfolding purge_completed_def Let_def fold_delete by simp
qed

text \<open>
  purging.  \<^verbatim>\<open>purge_completed\<close> without a date removes exactly the COMPLETED and CANCELLED jobs last
  touched before now and reports their number; PENDING, RUNNING and FAILED jobs survive every
  purge, and the order of the remaining jobs is kept.
\<close>

theorem purge_keeps_live_jobs:
  assumes "repo_ok bj_id r" "purge_completed_default now r before = (r', n)"
  shows "n + length r' = length r \<and>
         r' = filter (\<lambda>(i, j). \<not> (bj_status j \<in> {JOB_COMPLETED, JOB_CANCELLED} \<and>
                 bj_updated_at j < (case before of None \<Rightarrow> now | Some b \<Rightarrow> b))) r \<and>
         (map_of r i = Some j \<and> bj_status j \<in> {JOB_PENDING, JOB_RUNNING, JOB_FAILED} \<longrightarrow> map_of r' i = Some j)"
proof -
  let ?b = "case before of None \<Rightarrow> now | Some b \<Rightarrow> b"
  have ok: "dict_ok r" using assms(1) by (simp add: repo_ok_def)
  have eq: "r' = filter (\<lambda>(i, j). \<not> purgeable ?b None j) r"
      "n = length (filter (\<lambda>(i, j). purgeable ?b None j) r)"
    using assms(2) by (simp_all add: purge_completed_default_def purge_completed_eq [OF ok])
  have p: "purgeable ?b None j = (bj_status j \<in> {JOB_COMPLETED, JOB_CANCELLED} \<and> bj_updated_at j < ?b)" for j
    by (simp add: purgeable_def not_le)
  have "n + length r' = length r"
    unfolding eq using sum_length_filter_compl [of "\<lambda>(i, j). purgeable ?b None j" r]
    by (simp add: case_prod_unfold)
  moreover have "map_of r i = Some j \<and> bj_status j \<in> {JOB_PENDING, JOB_RUNNING, JOB_FAILED} \<longrightarrow> map_of r' i = Some j"
    unfolding eq(1) using map_of_filter_dict [OF ok, of "\<lambda>i j. \<not> purgeable ?b None j" i] by (auto simp: p)
  ultimately show ?thesis unfolding eq(1) p by blast
qed

theorem purge_keeps_live_jobs_witness:
  "snd (purge_completed_default 50 [(''a'', running_job ''a'' 1),
          (''b'', (running_job ''b'' 1)\<lparr>bj_status := JOB_COMPLETED\<rparr>)] None) = 1"
proof -
  let ?r = "[(''a'', running_job ''a'' 1), (''b'', (running_job ''b'' 1)\<lparr>bj_status := JOB_COMPLETED\<rparr>)]"
  have ok: "repo_ok bj_id ?r" by (simp add: repo_ok_def running_job_def sample_job_def)
  obtain r' n where e: "purge_completed_default 50 ?r None = (r', n)"
    by (cases "purge_completed_default 50 ?r None")
  from purge_keeps_live_jobs [OF ok e, of "''a''" "running_job ''a'' 1"] e show ?thesis
    by (auto simp add: running_job_def sample_job_def)
qed

text \<open>Counting by status.\<close>

definition nonzero :: "nat \<Rightarrow> nat option" where
  "nonzero n = (if n = 0 then None else Some n)"

lemma job_status_value_inj: "job_status_value s = job_status_value s' \<longleftrightarrow> s = s'"
  by (cases s; cases s') simp_all

abbreviation count_step :: "background_job \<Rightarrow> (string, nat) dict \<Rightarrow> (string, nat) dict" where
  "count_step j counts \<equiv>
     AList.update (job_status_value (bj_status j))
       ((case map_of counts (job_status_value (bj_status j)) of None \<Rightarrow> 0 | Some n \<Rightarrow> n) + 1) counts"

lemma sum_update:
  "dict_ok d \<Longrightarrow> sum_list (dvalues (AList.update k (Suc (case map_of d k of None \<Rightarrow> 0 | Some n \<Rightarrow> n)) d)) =
     Suc (sum_list (dvalues d))"
  by (induction d) (auto split: option.splits)

lemma count_fold:
  assumes "dict_ok c" "\<forall>s. map_of c (job_status_value s) = nonzero (f s)"
  shows "dict_ok (fold count_step js c) \<and>
         sum_list (dvalues (fold count_step js c)) = sum_list (dvalues c) + length js \<and>
         map_of (fold count_step js c) (job_status_value s) =
           nonzero (f s + length (filter (\<lambda>j. bj_status j = s) js))"
  using assms
proof (induction js arbitrary: c f)
  case (Cons j js)
  let ?f = "\<lambda>s. f s + (if bj_status j = s then 1 else 0)"
  have "dict_ok (count_step j c)" "\<forall>s. map_of (count_step j c) (job_status_value s) = nonzero (?f s)"
    using Cons.prems by (auto simp: job_status_value_inj nonzero_def split: option.splits)
  from Cons.IH [OF this] show ?case using Cons.prems(1) by (simp add: sum_update)
qed simp

text \<open>
  the statistics add up.  The count reported for a status is the number of jobs in it (no
  entry when there is none), and the total is the number of jobs.
\<close>

theorem statistics_count_every_job:
  "snd (get_statistics r) = length r \<and>
   map_of (fst (get_statistics r)) (job_status_value s) =
     nonzero (length (filter (\<lambda>j. bj_status j = s) (dvalues r)))"
  using count_fold [of "[]" "\<lambda>_. 0" "dvalues r" s]
  by (simp add: get_statistics_def count_by_status_def Let_def nonzero_def)

text \<open>
  \<^verbatim>\<open>cancel_running\<close> stops at the cooperative layer.  It stores CANCELLED before it polls for a
  status other than RUNNING, so unless somebody else changes the stored job meanwhile, the first poll
  ends the loop: for every positive grace period the forced kill is not reached and the job ends
  CANCELLED, whether or not its worker has stopped.
\<close>

theorem cancel_running_never_escalates:
  assumes "map_of r i = Some j" "repo_ok bj_id r" "bj_status j = JOB_RUNNING" "0 < grace"
    and "\<forall>k s. map_of (env k s) i = map_of s i"
    and "cancel_running now r i True grace env kill = (r', res, calls)"
  shows "calls = [RequestStop i] \<and>
         map_option bj_status (map_of r' i) = Some JOB_CANCELLED \<and> res = Inr (map_of r' i)"
proof -
  obtain j' where j': "job_cancel now j = Inr j'" "bj_status j' = JOB_CANCELLED"
    using assms(3) by (simp add: job_op_simps)
  have id: "bj_id j' = i" using job_ops_id(5) [OF j'(1)] repo_ok_get [OF assms(2,1)] by simp
  obtain g where g: "grace = Suc g" using assms(4) gr0_implies_Suc by blast
  show ?thesis using assms(1,3,6) j' assms(5)
    by (auto simp: cancel_running_def jobs_add_eq id g)
qed

theorem cancel_running_never_escalates_witness:
  "snd (snd (cancel_running 9 [(''a'', running_job ''a'' 1)] ''a'' True 10 (\<lambda>k s. s) (\<lambda>s. s))) =
     [RequestStop ''a'']"
proof -
  let ?r = "[(''a'', running_job ''a'' 1)]"
  have ok: "repo_ok bj_id ?r" by (simp add: repo_ok_def running_job_def sample_job_def)
  obtain r' res calls where e: "cancel_running 9 ?r ''a'' True 10 (\<lambda>k s. s) (\<lambda>s. s) = (r', res, calls)"
    using prod_cases3 by blast
  have "calls = [RequestStop ''a'']"
    using cancel_running_never_escalates [OF _ ok _ _ _ e, of "running_job ''a'' 1"]
    by (simp add: running_job_def)
  with e show ?thesis by simp
qed

section \<open>Properties of the event handler\<close>

definition no_hook :: job_hook where
  "no_hook r j = (r, j, None)"

definition begin_work :: "time \<Rightarrow> background_job \<Rightarrow> exn + background_job" where
  "begin_work now j = (if bj_status j = JOB_FAILED then job_retry now j else start_processing now j)"

lemma handle_job_runs:
  assumes "i \<noteq> []" "map_of r i = Some j" "begin_work now j = Inr j1"
  shows "handle_job now str no_hook execute (\<lambda>_. no_hook) no_hook r (Some i) =
           run_job now str execute (\<lambda>_. no_hook) no_hook (fst (jobs_add r j1)) i (bump j1)"
  using assms by (simp add: handle_job_def no_hook_def begin_work_def truthy_def jobs_add_eq)

lemma run_job_ok:
  assumes "execute r j = (r2, j2, Inr d)" "bj_status j2 = JOB_RUNNING" "bj_id j2 = i"
  shows "snd (run_job now str execute hf hc r i j) = None \<and>
         (if map_option bj_status (map_of r2 i) = Some JOB_CANCELLED
          then fst (run_job now str execute hf hc r i j) = r2
          else map_option bj_status (map_of (fst (run_job now str execute hf hc r i j)) i) = Some JOB_COMPLETED)"
proof -
  obtain j3 where "job_complete now d j2 = Inr j3" "bj_status j3 = JOB_COMPLETED" "bj_id j3 = i"
    using assms(2,3) by (simp add: job_op_simps split: option.splits)
  then show ?thesis using assms(1)
    by (auto simp: run_job_def jobs_add_eq split: option.splits)
qed

lemma run_job_error:
  assumes "execute r j = (r2, j2, Inl e)" "bj_status j2 = JOB_RUNNING" "bj_id j2 = i"
    and "\<forall>m. e \<noteq> CancellationRequestedError m"
  shows "snd (run_job now str execute (\<lambda>_. no_hook) hc r i j) = Some e \<and>
         map_option (\<lambda>x. (bj_status x, bj_error_message x))
           (map_of (fst (run_job now str execute (\<lambda>_. no_hook) hc r i j)) i) = Some (JOB_FAILED, Some (str e))"
proof -
  have "run_job now str execute (\<lambda>_. no_hook) hc r i j = on_error now str (\<lambda>_. no_hook) r2 j2 e"
    using assms(1,4) by (cases e) (simp_all add: run_job_def)
  then show ?thesis using assms(2,3)
    by (simp add: on_error_def no_hook_def job_op_simps jobs_add_eq)
qed

lemma run_job_cancelled:
  assumes "execute r j = (r2, j2, Inl (CancellationRequestedError m))"
    and "map_of r2 i = Some l" "bj_id l = i" "bj_status l \<noteq> JOB_COMPLETED"
  shows "snd (run_job now str execute hf no_hook r i j) = None \<and>
         map_option bj_status (map_of (fst (run_job now str execute hf no_hook r i j)) i) = Some JOB_CANCELLED"
  using assms
  by (auto simp: run_job_def no_hook_def handle_cancellation_def job_op_simps jobs_add_eq
      split: if_splits)

text \<open>
  what the event handler leaves behind.  With the default hooks, for a job that can be
  started or retried: when the task returns, the job is COMPLETED unless the stored job was
  cancelled meanwhile, in which case the handler stores nothing; when the task stops at a
  cancellation checkpoint, the job ends CANCELLED without an error; when the task raises, the job ends
  FAILED with the error's text and the error is raised again, and this path does not look at the
  stored status, so a cancellation that arrived meanwhile is overwritten.
\<close>

theorem handler_outcome:
  assumes "i \<noteq> []" "map_of r i = Some j" "begin_work now j = Inr j1"
    and "execute (fst (jobs_add r j1)) (bump j1) = (r2, j2, out)"
    and "bj_status j2 = JOB_RUNNING" "bj_id j2 = i" "repo_ok bj_id r2"
    and "handle_job now str no_hook execute (\<lambda>_. no_hook) no_hook r (Some i) = (r', exc)"
  shows "case out of
           Inr d \<Rightarrow> exc = None \<and>
             (if map_option bj_status (map_of r2 i) = Some JOB_CANCELLED then r' = r2
              else map_option bj_status (map_of r' i) = Some JOB_COMPLETED)
         | Inl e \<Rightarrow>
             if \<exists>m. e = CancellationRequestedError m
             then (\<forall>l. map_of r2 i = Some l \<and> bj_status l \<noteq> JOB_COMPLETED \<longrightarrow>
                       exc = None \<and> map_option bj_status (map_of r' i) = Some JOB_CANCELLED)
             else exc = Some e \<and>
                  map_option (\<lambda>x. (bj_status x, bj_error_message x)) (map_of r' i) =
                    Some (JOB_FAILED, Some (str e))"
proof -
  note run = handle_job_runs [OF assms(1-3), of str execute, unfolded assms(8), symmetric]
  show ?thesis
  proof (cases out)
    case (Inr d)
    show ?thesis using run_job_ok [where execute = execute, OF assms(4) [unfolded Inr] assms(5,6), of now str "\<lambda>_. no_hook" no_hook]
      unfolding run fst_conv snd_conv Inr sum.case by assumption
  next
    case (Inl e)
    show ?thesis
    proof (cases "\<exists>m. e = CancellationRequestedError m")
      case True
      then obtain m where m: "e = CancellationRequestedError m" ..
      show ?thesis using run_job_cancelled [where execute = execute, OF assms(4) [unfolded Inl m], where i = i and now = now and str = str and hf = "\<lambda>_. no_hook"]
          repo_ok_get [OF assms(7)] run by (auto simp: Inl m)
    next
      case False
      then show ?thesis using run_job_error [where execute = execute, OF assms(4) [unfolded Inl] assms(5,6), of now str no_hook] run
        by (auto simp: Inl)
    qed
  qed
qed

theorem handler_outcome_witness:
  "map_option bj_status (map_of (fst (handle_job 7 (\<lambda>_. ''boom'') no_hook
       (\<lambda>r j. (AList.update ''a'' (j\<lparr>bj_status := JOB_CANCELLED\<rparr>) r, j, Inl (Other ''boom'')))
       (\<lambda>_. no_hook) no_hook [(''a'', sample_job ''a'' 3)] (Some ''a''))) ''a'') = Some JOB_FAILED"
proof -
  let ?ex = "\<lambda>r j. (AList.update ''a'' (j\<lparr>bj_status := JOB_CANCELLED\<rparr>) r, j, Inl (Other ''boom''))"
  let ?r = "[(''a'', sample_job ''a'' 3)]"
  obtain j1 where j1: "begin_work 7 (sample_job ''a'' 3) = Inr j1" "bj_status j1 = JOB_RUNNING" "bj_id j1 = ''a''"
    by (simp add: begin_work_def job_op_simps sample_job_def)
  obtain r' exc where e: "handle_job 7 (\<lambda>_. ''boom'') no_hook ?ex (\<lambda>_. no_hook) no_hook ?r (Some ''a'') = (r', exc)"
    by (cases "handle_job 7 (\<lambda>_. ''boom'') no_hook ?ex (\<lambda>_. no_hook) no_hook ?r (Some ''a'')")
  have "map_option (\<lambda>x. (bj_status x, bj_error_message x)) (map_of r' ''a'') = Some (JOB_FAILED, Some ''boom'')"
    using handler_outcome [OF _ _ j1(1) refl _ _ _ e] j1 by (simp add: jobs_add_eq repo_ok_def)
  with e show ?thesis by auto
qed

end
