(* ===== verification/Locking.thy ===== *)
theory Locking
  imports Prelude
begin

text \<open>
  Pessimistic locks: \<^verbatim>\<open>ResourceIdentifier\<close> (primitives/locking.py) and \<^verbatim>\<open>InMemoryLockStrategy\<close> with its
  FIFO lock (adapters/memory/locking.py).

  The registry maps a resource to a lock state \<^emph>\<open>object\<close>, and a waiting task keeps a reference to the
  object it queued on, so the model has a heap of lock states and a dictionary of addresses.  Each
  method runs without suspension up to the point where it waits for its turn in the queue (the
  inner \<^verbatim>\<open>asyncio\<close> locks are never held across a suspension), so the atomic steps are \<open>acquire_begin\<close>,
  \<open>acquire_resume\<close> (the queued task was woken), the time-out of a queued task, and \<open>lock_release\<close>.

  The locale \<open>lock_strategy\<close> is the contract that \<^verbatim>\<open>CriticalSection\<close> and \<^verbatim>\<open>OutboxService\<close> rely on; the
  in-memory strategy provides it to callers during whose wait no other task runs.  All interleavings, with tasks that wait, are woken and time
  out, are the step relation \<open>lock_step\<close>.
\<close>

section \<open>Resources\<close>

datatype lock_mode = ReadMode | WriteMode

record resource =
  res_type :: string
  res_id :: string
  res_mode :: lock_mode

type_synonym key = "string \<times> string"

definition res_key :: "resource \<Rightarrow> key" where
  "res_key r = (res_type r, res_id r)"

definition resource_lt :: "resource \<Rightarrow> resource \<Rightarrow> bool" where
  "resource_lt a b \<longleftrightarrow> res_key a < res_key b"

definition resource_str :: "resource \<Rightarrow> string" where
  "resource_str r = res_type r @ '':'' @ res_id r @ (if res_mode r \<noteq> WriteMode then '':read'' else [])"

section \<open>The FIFO lock\<close>

record fifo_lock =
  fl_locked :: bool
  fl_waiters :: "nat list"
  fl_max_queue_size :: nat

datatype fifo_result = Immediate | Enqueued | QueueFull exn

definition queue_full_error :: "nat \<Rightarrow> nat \<Rightarrow> exn" where
  "queue_full_error n m =
     ConcurrencyError (''Lock queue full ('' @ show_nat n @ ''/'' @ show_nat m @
       ''). Too many concurrent requests - apply backpressure.'')"

text \<open>\<open>w\<close> is the \<^verbatim>\<open>asyncio.Event\<close> the caller would wait on.\<close>

definition fifo_acquire :: "fifo_lock \<Rightarrow> nat \<Rightarrow> fifo_lock \<times> fifo_result" where
  "fifo_acquire f w =
     (if \<not> fl_locked f then (f\<lparr>fl_locked := True\<rparr>, Immediate)
      else if fl_max_queue_size f \<le> length (fl_waiters f)
      then (f, QueueFull (queue_full_error (length (fl_waiters f)) (fl_max_queue_size f)))
      else (f\<lparr>fl_waiters := fl_waiters f @ [w]\<rparr>, Enqueued))"

definition timeout_error :: "string \<Rightarrow> exn" where
  "timeout_error tmo = ConcurrencyError (''Lock acquisition timeout after '' @ tmo @ ''s'')"

text \<open>\<open>fifo_release\<close> also returns the event it sets, if any.\<close>

definition fifo_release :: "fifo_lock \<Rightarrow> fifo_lock \<times> nat option" where
  "fifo_release f =
     (case fl_waiters f of
        w # ws \<Rightarrow> (f\<lparr>fl_waiters := ws\<rparr>, Some w)
      | [] \<Rightarrow> (f\<lparr>fl_locked := False\<rparr>, None))"

section \<open>InMemoryLockStrategy\<close>

record lock_state =
  ls_fifo :: fifo_lock
  ls_token :: string
  ls_session :: "string option"
  ls_ref_count :: int

record lock_manager =
  lm_locks :: "(key, nat) dict"
  lm_heap :: "lock_state list"

definition new_lock_state :: "string \<Rightarrow> lock_state" where
  "new_lock_state token =
     \<lparr>ls_fifo = \<lparr>fl_locked = False, fl_waiters = [], fl_max_queue_size = 100\<rparr>,
      ls_token = token, ls_session = None, ls_ref_count = 0\<rparr>"

definition write_state :: "nat \<Rightarrow> lock_state \<Rightarrow> lock_manager \<Rightarrow> lock_manager" where
  "write_state a st m = m\<lparr>lm_heap := (lm_heap m)[a := st]\<rparr>"

text \<open>The second critical section of \<^verbatim>\<open>acquire\<close>.\<close>

definition grant :: "string option \<Rightarrow> lock_state \<Rightarrow> lock_state" where
  "grant session st =
     st\<lparr>ls_session := (if ls_session st = None then session else ls_session st), ls_ref_count := 1\<rparr>"

datatype acquire_result = Granted string | Queued nat | Refused exn

definition find_or_create :: "lock_manager \<Rightarrow> key \<Rightarrow> string \<Rightarrow> lock_manager \<times> nat" where
  "find_or_create m k fresh =
     (case map_of (lm_locks m) k of
        Some a \<Rightarrow> (m, a)
      | None \<Rightarrow> (m\<lparr>lm_locks := AList.update k (length (lm_heap m)) (lm_locks m),
                   lm_heap := lm_heap m @ [new_lock_state fresh]\<rparr>, length (lm_heap m)))"

definition acquire_begin ::
  "lock_manager \<Rightarrow> resource \<Rightarrow> string option \<Rightarrow> string \<Rightarrow> nat \<Rightarrow> lock_manager \<times> acquire_result" where
  "acquire_begin m r session fresh w =
     (case find_or_create m (res_key r) fresh of (m, a) \<Rightarrow>
        let st = lm_heap m ! a
        in if session \<noteq> None \<and> ls_session st = session
           then (write_state a (st\<lparr>ls_ref_count := ls_ref_count st + 1\<rparr>) m, Granted (ls_token st))
           else case fifo_acquire (ls_fifo st) w of
                  (f, Immediate) \<Rightarrow> (write_state a (grant session (st\<lparr>ls_fifo := f\<rparr>)) m, Granted (ls_token st))
                | (f, Enqueued) \<Rightarrow> (write_state a (st\<lparr>ls_fifo := f\<rparr>) m, Queued a)
                | (f, QueueFull e) \<Rightarrow> (m, Refused e))"

definition acquire_resume ::
  "lock_manager \<Rightarrow> nat \<Rightarrow> string option \<Rightarrow> lock_manager \<times> string" where
  "acquire_resume m a session =
     (let st = lm_heap m ! a; st = st\<lparr>ls_fifo := (ls_fifo st)\<lparr>fl_locked := True\<rparr>\<rparr>
      in (write_state a (grant session st) m, ls_token st))"

definition lock_extend :: "lock_manager \<Rightarrow> resource \<Rightarrow> string \<Rightarrow> bool" where
  "lock_extend m r token =
     (case map_of (lm_locks m) (res_key r) of
        None \<Rightarrow> False | Some a \<Rightarrow> \<not> ls_token (lm_heap m ! a) \<noteq> token)"

definition lock_release ::
  "lock_manager \<Rightarrow> resource \<Rightarrow> string \<Rightarrow> lock_manager \<times> nat option" where
  "lock_release m r token =
     (case map_of (lm_locks m) (res_key r) of
        None \<Rightarrow> (m, None)
      | Some a \<Rightarrow>
          let st = lm_heap m ! a
          in if ls_token st \<noteq> token then (m, None)
             else let st = st\<lparr>ls_ref_count := ls_ref_count st - 1\<rparr>
                  in if ls_ref_count st \<le> 0
                     then (case fifo_release (ls_fifo st) of
                             (f, woken) \<Rightarrow>
                               ((write_state a (st\<lparr>ls_session := None, ls_fifo := f\<rparr>) m)
                                  \<lparr>lm_locks := AList.delete (res_key r) (lm_locks m)\<rparr>, woken))
                     else (write_state a st m, None))"

definition get_active_locks :: "lock_manager \<Rightarrow> (key \<times> string \<times> string option) list" where
  "get_active_locks m =
     map (\<lambda>(k, a). (k, ls_token (lm_heap m ! a), ls_session (lm_heap m ! a))) (lm_locks m)"

section \<open>The contract of a lock strategy\<close>

text \<open>
  \<open>held s k\<close> is the token, the session and the depth of the lock on \<open>k\<close>.  An acquisition may fail for
  reasons of its own, but then it changes no lock; it succeeds on a free resource or for the session
  that already holds it, never otherwise.
\<close>

locale lock_strategy =
  fixes acquire :: "'s \<Rightarrow> resource \<Rightarrow> string option \<Rightarrow> 's \<times> (exn + string)"
    and release :: "'s \<Rightarrow> resource \<Rightarrow> string \<Rightarrow> 's \<times> exn option"
    and held :: "'s \<Rightarrow> key \<Rightarrow> (string \<times> string option \<times> int) option"
    and ok :: "'s \<Rightarrow> bool"
  assumes acquire_granted:
      "ok s \<Longrightarrow> acquire s r sid = (s', Inr t) \<Longrightarrow>
         (held s (res_key r) = None \<and> held s' = (held s)(res_key r \<mapsto> (t, sid, 1))) \<or>
         (\<exists>n. sid \<noteq> None \<and> held s (res_key r) = Some (t, sid, n) \<and>
              held s' = (held s)(res_key r \<mapsto> (t, sid, n + 1)))"
    and acquire_refused: "ok s \<Longrightarrow> acquire s r sid = (s', Inl e) \<Longrightarrow> held s' = held s"
    and release_held:
      "ok s \<Longrightarrow> held s (res_key r) = Some (t, sid, n) \<Longrightarrow>
         held (fst (release s r t)) = (held s)(res_key r := if n \<le> 1 then None else Some (t, sid, n - 1)) \<and>
         snd (release s r t) = None"
    and held_depth: "ok s \<Longrightarrow> held s k = Some (t, sid, n) \<Longrightarrow> 1 \<le> n"
    and ok_acquire: "ok s \<Longrightarrow> ok (fst (acquire s r sid))"
    and ok_release: "ok s \<Longrightarrow> ok (fst (release s r t))"
begin

lemma acquire_held:
  assumes "ok s" "acquire s r sid = (s', Inr t)"
  obtains n where "held s' (res_key r) = Some (t, sid, n)" "1 \<le> n" "ok s'"
proof -
  have ok': "ok s'" using ok_acquire [OF assms(1), of r sid] assms(2) by simp
  obtain n where n: "held s' (res_key r) = Some (t, sid, n)"
    using acquire_granted [OF assms] by auto
  show thesis by (rule that [OF n held_depth [OF ok' n] ok'])
qed

text \<open>Two sessions never hold the same resource: who is refused is told so.\<close>

lemma acquire_excludes:
  assumes "ok s" "held s (res_key r) = Some (t, sid', n)" "sid = None \<or> sid \<noteq> sid'"
  shows "\<not> is_ok (snd (acquire s r sid))"
proof (cases "acquire s r sid")
  case (Pair s' x)
  then show ?thesis using acquire_granted [OF assms(1), of r sid s'] assms(2,3)
    by (cases x) auto
qed

lemma acquire_release:
  assumes "ok s" "acquire s r sid = (s', Inr t)" "held u = held s'" "ok u"
  shows "held (fst (release u r t)) = held s" "snd (release u r t) = None"
proof -
  obtain n where n: "held s' (res_key r) = Some (t, sid, n)" using acquire_held [OF assms(1,2)] by blast
  have rel: "held (fst (release u r t)) = (held u)(res_key r := if n \<le> 1 then None else Some (t, sid, n - 1))"
      "snd (release u r t) = None"
    using release_held [OF assms(4), of r t sid n] n assms(3) by simp_all
  then show "snd (release u r t) = None" by simp
  from acquire_granted [OF assms(1,2)] show "held (fst (release u r t)) = held s"
  proof
    assume g: "held s (res_key r) = None \<and> held s' = (held s)(res_key r \<mapsto> (t, sid, 1))"
    then have "n = 1" using n by simp
    with g show ?thesis by (simp add: rel(1) assms(3) fun_upd_idem)
  next
    assume "\<exists>n. sid \<noteq> None \<and> held s (res_key r) = Some (t, sid, n) \<and>
              held s' = (held s)(res_key r \<mapsto> (t, sid, n + 1))"
    then obtain m where g: "held s (res_key r) = Some (t, sid, m)"
        "held s' = (held s)(res_key r \<mapsto> (t, sid, m + 1))" by blast
    then have "n = m + 1" "1 \<le> m" using n held_depth [OF assms(1) g(1)] by simp_all
    with g show ?thesis by (simp add: rel(1) assms(3) fun_upd_idem)
  qed
qed

end

section \<open>The in-memory strategy provides the contract\<close>

text \<open>Every registered lock state is taken, and no state is registered twice.\<close>

definition lm_ok :: "lock_manager \<Rightarrow> bool" where
  "lm_ok m \<longleftrightarrow> dict_ok (lm_locks m) \<and> distinct (dvalues (lm_locks m)) \<and>
     list_all (\<lambda>a. a < length (lm_heap m) \<and> fl_locked (ls_fifo (lm_heap m ! a)) \<and>
                   1 \<le> ls_ref_count (lm_heap m ! a)) (dvalues (lm_locks m))"

definition lock_view :: "lock_state \<Rightarrow> string \<times> string option \<times> int" where
  "lock_view st = (ls_token st, ls_session st, ls_ref_count st)"

definition mem_held :: "lock_manager \<Rightarrow> key \<Rightarrow> (string \<times> string option \<times> int) option" where
  "mem_held m k = map_option (\<lambda>a. lock_view (lm_heap m ! a)) (map_of (lm_locks m) k)"

lemma lm_ok_lookup:
  assumes "lm_ok m" "map_of (lm_locks m) k = Some a"
  shows "a < length (lm_heap m)" "fl_locked (ls_fifo (lm_heap m ! a))" "1 \<le> ls_ref_count (lm_heap m ! a)"
  using assms(1) map_of_dvalues [OF assms(2)] unfolding lm_ok_def list_all_iff by blast+

lemma lm_ok_inj:
  assumes "lm_ok m" "map_of (lm_locks m) k = Some a" "map_of (lm_locks m) k' = Some a"
  shows "k' = k"
proof -
  have "inj_on snd (set (lm_locks m))" using assms(1) by (simp add: lm_ok_def distinct_map)
  from inj_onD [OF this _ map_of_SomeD [OF assms(3)] map_of_SomeD [OF assms(2)]]
  show ?thesis by simp
qed

lemma lm_ok_deleted:
  assumes "lm_ok m" "map_of (lm_locks m) k = Some a" "b \<in> set (dvalues (AList.delete k (lm_locks m)))"
  shows "b \<noteq> a \<and> b \<in> set (dvalues (lm_locks m))"
  using assms(3) lm_ok_inj [OF assms(1,2)] assms(1) by (auto simp: AList.delete_eq lm_ok_def)

lemma write_state_simps [simp]:
  "lm_locks (write_state a st m) = lm_locks m"
  "lm_heap (write_state a st m) = (lm_heap m)[a := st]"
  by (simp_all add: write_state_def)

lemma lm_ok_write:
  assumes "lm_ok m" "fl_locked (ls_fifo st)" "1 \<le> ls_ref_count st"
  shows "lm_ok (write_state a st m)"
proof -
  have "fl_locked (ls_fifo ((lm_heap m)[a := st] ! b)) \<and> 1 \<le> ls_ref_count ((lm_heap m)[a := st] ! b)"
    if "b < length (lm_heap m)" "fl_locked (ls_fifo (lm_heap m ! b))" "1 \<le> ls_ref_count (lm_heap m ! b)" for b
    using that assms(2,3) by (cases "a = b") auto
  with assms(1) show ?thesis unfolding lm_ok_def list_all_iff by simp
qed

lemma held_write:
  assumes "lm_ok m" "map_of (lm_locks m) k = Some a"
  shows "mem_held (write_state a st m) = (mem_held m)(k \<mapsto> lock_view st)"
proof (rule ext)
  fix k'
  have "map_of (lm_locks m) k' = Some a \<longleftrightarrow> k' = k" using lm_ok_inj [OF assms] assms(2) by blast
  then show "mem_held (write_state a st m) k' = ((mem_held m)(k \<mapsto> lock_view st)) k'"
    using lm_ok_lookup(1) [OF assms]
    by (cases "map_of (lm_locks m) k'") (auto simp: mem_held_def nth_list_update)
qed

text \<open>A held resource: the holder's session goes one level deeper, everybody else queues or is refused.\<close>

lemma acquire_begin_taken:
  assumes "lm_ok m" "map_of (lm_locks m) (res_key r) = Some a"
    and "acquire_begin m r sid fresh w = (m', res)"
  shows "lm_ok m' \<and>
         (if sid \<noteq> None \<and> ls_session (lm_heap m ! a) = sid
          then res = Granted (ls_token (lm_heap m ! a)) \<and>
               mem_held m' = (mem_held m)(res_key r \<mapsto>
                 (ls_token (lm_heap m ! a), sid, ls_ref_count (lm_heap m ! a) + 1))
          else mem_held m' = mem_held m \<and> (res = Queued a \<or> (\<exists>e. res = Refused e)))"
proof -
  note st = lm_ok_lookup [OF assms(1,2)]
  have idem: "(mem_held m)(res_key r \<mapsto> lock_view (lm_heap m ! a)) = mem_held m"
    using assms(2) by (auto simp: mem_held_def fun_eq_iff)
  show ?thesis using assms st idem
    by (auto simp: acquire_begin_def find_or_create_def fifo_acquire_def Let_def lock_view_def
        held_write [OF assms(1,2)] split: if_splits intro!: lm_ok_write [OF assms(1)])
qed

text \<open>A free resource is granted at once.\<close>

lemma acquire_begin_free:
  assumes "lm_ok m" "map_of (lm_locks m) (res_key r) = None"
  shows "\<exists>m'. acquire_begin m r sid fresh w = (m', Granted fresh) \<and> lm_ok m' \<and>
              mem_held m' = (mem_held m)(res_key r \<mapsto> (fresh, sid, 1))"
proof -
  let ?a = "length (lm_heap m)"
  let ?m = "m\<lparr>lm_locks := AList.update (res_key r) ?a (lm_locks m),
              lm_heap := lm_heap m @ [grant sid ((new_lock_state fresh)\<lparr>ls_fifo := (ls_fifo (new_lock_state fresh))\<lparr>fl_locked := True\<rparr>\<rparr>)]\<rparr>"
  have e: "acquire_begin m r sid fresh w = (?m, Granted fresh)"
    using assms(2)
    by (cases sid) (simp_all add: acquire_begin_def find_or_create_def fifo_acquire_def new_lock_state_def
        write_state_def Let_def)
  have lt: "map_of (lm_locks m) k = Some a \<Longrightarrow> a < ?a" for k a using lm_ok_lookup(1) [OF assms(1)] .
  have new: "AList.update (res_key r) ?a (lm_locks m) = lm_locks m @ [(res_key r, ?a)]"
    using assms(2) by (simp add: dkeys_update_new map_of_eq_None_iff)
  have "lm_ok ?m"
    using assms(1) assms(2) unfolding lm_ok_def new
    by (auto simp: list_all_iff nth_append grant_def new_lock_state_def map_of_eq_None_iff)
  moreover have "mem_held ?m = (mem_held m)(res_key r \<mapsto> (fresh, sid, 1))"
    using lt by (auto simp: mem_held_def fun_eq_iff nth_append lock_view_def grant_def
        new_lock_state_def split: option.splits intro!: option.map_cong0)
  ultimately show ?thesis using e by blast
qed

lemma lock_release_held:
  assumes "lm_ok m" "mem_held m (res_key r) = Some (t, sid, n)"
  shows "lm_ok (fst (lock_release m r t)) \<and>
         mem_held (fst (lock_release m r t)) =
           (mem_held m)(res_key r := if n \<le> 1 then None else Some (t, sid, n - 1))"
proof -
  obtain a where a: "map_of (lm_locks m) (res_key r) = Some a" "lock_view (lm_heap m ! a) = (t, sid, n)"
    using assms(2) by (auto simp: mem_held_def)
  let ?st = "lm_heap m ! a"
  have v: "ls_token ?st = t" "ls_session ?st = sid" "ls_ref_count ?st = n" using a(2) by (simp_all add: lock_view_def)
  show ?thesis
  proof (cases "n \<le> 1")
    case False
    then show ?thesis using a v lm_ok_lookup [OF assms(1) a(1)]
      by (auto simp: lock_release_def Let_def held_write [OF assms(1) a(1)] lock_view_def
          intro!: lm_ok_write [OF assms(1)])
  next
    case True
    obtain f w where f: "fifo_release (ls_fifo ?st) = (f, w)" by (cases "fifo_release (ls_fifo ?st)")
    let ?st' = "?st\<lparr>ls_ref_count := ls_ref_count ?st - 1, ls_session := None, ls_fifo := f\<rparr>"
    let ?m = "(write_state a ?st' m)\<lparr>lm_locks := AList.delete (res_key r) (lm_locks m)\<rparr>"
    have e: "fst (lock_release m r t) = ?m"
      using True v a(1) f by (simp add: lock_release_def Let_def)
    note del = lm_ok_deleted [OF assms(1) a(1)]
    have old: "b < length (lm_heap m)" "fl_locked (ls_fifo (lm_heap m ! b))" "1 \<le> ls_ref_count (lm_heap m ! b)"
      if "b \<in> set (dvalues (lm_locks m))" for b
      using assms(1) that unfolding lm_ok_def list_all_iff by blast+
    have taken: "b < length (lm_heap ?m) \<and> fl_locked (ls_fifo (lm_heap ?m ! b)) \<and> 1 \<le> ls_ref_count (lm_heap ?m ! b)"
      if "b \<in> set (dvalues (lm_locks ?m))" for b
    proof -
      from that have b: "b \<noteq> a" "b \<in> set (dvalues (lm_locks m))" using del [of b] by simp_all
      from b(1) old [OF b(2)] show ?thesis by simp
    qed
    have "dict_ok (lm_locks ?m)" "distinct (dvalues (lm_locks ?m))"
      using assms(1) by (simp_all add: lm_ok_def AList.delete_eq distinct_map_filter)
    with taken have "lm_ok ?m" unfolding lm_ok_def list_all_iff by blast
    moreover have "mem_held ?m = (mem_held m)(res_key r := None)"
    proof (rule ext)
      fix k
      have "map_of (lm_locks m) k = Some b \<Longrightarrow> k \<noteq> res_key r \<Longrightarrow> a \<noteq> b" for b
        using lm_ok_inj [OF assms(1) a(1)] by blast
      then show "mem_held ?m k = ((mem_held m)(res_key r := None)) k"
        by (cases "map_of (lm_locks m) k") (simp_all add: mem_held_def)
    qed
    ultimately show ?thesis using e True by simp
  qed
qed

lemma lock_release_ok: "lm_ok m \<Longrightarrow> lm_ok (fst (lock_release m r t))"
proof (cases "map_of (lm_locks m) (res_key r)")
  case (Some a)
  assume ok: "lm_ok m"
  show ?thesis
  proof (cases "ls_token (lm_heap m ! a) = t")
    case True
    then have "mem_held m (res_key r) = Some (t, ls_session (lm_heap m ! a), ls_ref_count (lm_heap m ! a))"
      using Some by (simp add: mem_held_def lock_view_def)
    from lock_release_held [OF ok this] show ?thesis by simp
  qed (simp add: lock_release_def Some ok Let_def)
qed (simp add: lock_release_def)

text \<open>
  One call of \<^verbatim>\<open>acquire\<close> from its beginning to its end.  The state carries the number of calls made, from which the
  caller's fresh uuid and event are drawn.  What the other tasks do while the caller waits is the parameter \<open>others\<close>: the state that
  they leave and whether the caller's event has been set.  A woken caller takes the lock on the state object it queued on; a
  timed-out caller leaves its event in the queue.
\<close>

type_synonym mem_locks = "lock_manager \<times> nat"

definition mem_acquire_among ::
  "(mem_locks \<Rightarrow> nat \<Rightarrow> mem_locks \<times> bool) \<Rightarrow> (nat \<Rightarrow> string) \<Rightarrow> string \<Rightarrow> mem_locks \<Rightarrow> resource \<Rightarrow> string option \<Rightarrow>
     mem_locks \<times> (exn + string)" where
  "mem_acquire_among others uuid tmo s r sid =
     (case acquire_begin (fst s) r sid (uuid (snd s)) (snd s) of
        (m, Granted t) \<Rightarrow> ((m, Suc (snd s)), Inr t)
      | (m, Queued a) \<Rightarrow>
          (case others (m, Suc (snd s)) (snd s) of
             (s', woken) \<Rightarrow>
               if woken then (case acquire_resume (fst s') a sid of (m', t) \<Rightarrow> ((m', snd s'), Inr t))
               else (s', Inl (timeout_error tmo)))
      | (m, Refused e) \<Rightarrow> ((m, Suc (snd s)), Inl e))"

text \<open>A caller during whose wait no other task runs: the sequential clients of the contract below.\<close>

definition mem_acquire ::
  "(nat \<Rightarrow> string) \<Rightarrow> string \<Rightarrow> mem_locks \<Rightarrow> resource \<Rightarrow> string option \<Rightarrow> mem_locks \<times> (exn + string)" where
  "mem_acquire = mem_acquire_among (\<lambda>s w. (s, False))"

lemma mem_acquire_eq:
  "mem_acquire uuid tmo s r sid =
     (case acquire_begin (fst s) r sid (uuid (snd s)) (snd s) of
        (m, Granted t) \<Rightarrow> ((m, Suc (snd s)), Inr t)
      | (m, Queued a) \<Rightarrow> ((m, Suc (snd s)), Inl (timeout_error tmo))
      | (m, Refused e) \<Rightarrow> ((m, Suc (snd s)), Inl e))"
  by (simp add: mem_acquire_def mem_acquire_among_def split: prod.split acquire_result.split)

definition mem_release :: "mem_locks \<Rightarrow> resource \<Rightarrow> string \<Rightarrow> mem_locks \<times> exn option" where
  "mem_release s r t = ((fst (lock_release (fst s) r t), snd s), None)"

lemma mem_acquire_cases:
  assumes "lm_ok (fst s)"
  obtains (free) s' where "mem_held (fst s) (res_key r) = None"
      "mem_acquire uuid tmo s r sid = (s', Inr (uuid (snd s)))" "lm_ok (fst s')"
      "mem_held (fst s') = (mem_held (fst s))(res_key r \<mapsto> (uuid (snd s), sid, 1))"
  | (reentrant) s' t n where "sid \<noteq> None" "mem_held (fst s) (res_key r) = Some (t, sid, n)"
      "mem_acquire uuid tmo s r sid = (s', Inr t)" "lm_ok (fst s')"
      "mem_held (fst s') = (mem_held (fst s))(res_key r \<mapsto> (t, sid, n + 1))"
  | (busy) s' t sid' n e where "mem_held (fst s) (res_key r) = Some (t, sid', n)" "sid = None \<or> sid' \<noteq> sid"
      "mem_acquire uuid tmo s r sid = (s', Inl e)" "lm_ok (fst s')" "mem_held (fst s') = mem_held (fst s)"
proof (cases "map_of (lm_locks (fst s)) (res_key r)")
  case None
  from acquire_begin_free [OF assms None, of sid "uuid (snd s)" "snd s"] obtain m'
    where "acquire_begin (fst s) r sid (uuid (snd s)) (snd s) = (m', Granted (uuid (snd s)))"
      "lm_ok m'" "mem_held m' = (mem_held (fst s))(res_key r \<mapsto> (uuid (snd s), sid, 1))" by blast
  with free [of "(m', Suc (snd s))"] None show thesis by (simp add: mem_acquire_eq mem_held_def)
next
  case (Some a)
  obtain m' res where b: "acquire_begin (fst s) r sid (uuid (snd s)) (snd s) = (m', res)"
    by (cases "acquire_begin (fst s) r sid (uuid (snd s)) (snd s)")
  let ?st = "lm_heap (fst s) ! a"
  have h: "mem_held (fst s) (res_key r) = Some (ls_token ?st, ls_session ?st, ls_ref_count ?st)"
    using Some by (simp add: mem_held_def lock_view_def)
  note t = acquire_begin_taken [OF assms Some b]
  show thesis
  proof (cases "sid \<noteq> None \<and> ls_session ?st = sid")
    case True
    with t have g: "lm_ok m'" "res = Granted (ls_token ?st)"
      "mem_held m' = (mem_held (fst s))(res_key r \<mapsto> (ls_token ?st, sid, ls_ref_count ?st + 1))"
      by simp_all
    show thesis
    proof (rule reentrant)
      show "mem_acquire uuid tmo s r sid = ((m', Suc (snd s)), Inr (ls_token ?st))"
        by (simp add: mem_acquire_eq b g(2))
    qed (use True h g in simp_all)
  next
    case False
    with t have g: "lm_ok m'" "mem_held m' = mem_held (fst s)" "res = Queued a \<or> (\<exists>e. res = Refused e)"
      by (simp_all split: if_splits)
    from g(3) obtain e where "mem_acquire uuid tmo s r sid = ((m', Suc (snd s)), Inl e)"
      by (auto simp: mem_acquire_eq b)
    from busy [OF h _ this] False g show thesis by auto
  qed
qed

interpretation mem_locks: lock_strategy "mem_acquire uuid tmo" mem_release
  "\<lambda>s. mem_held (fst s)" "\<lambda>s. lm_ok (fst s)" for uuid tmo
proof unfold_locales
  fix s s' :: mem_locks and r sid t e
  show "(mem_held (fst s) (res_key r) = None \<and> mem_held (fst s') = (mem_held (fst s))(res_key r \<mapsto> (t, sid, 1))) \<or>
      (\<exists>n. sid \<noteq> None \<and> mem_held (fst s) (res_key r) = Some (t, sid, n) \<and>
           mem_held (fst s') = (mem_held (fst s))(res_key r \<mapsto> (t, sid, n + 1)))"
    if "lm_ok (fst s)" "mem_acquire uuid tmo s r sid = (s', Inr t)"
    using that(2) by (cases rule: mem_acquire_cases [OF that(1), of r uuid tmo sid]) auto
  show "mem_held (fst s') = mem_held (fst s)"
    if "lm_ok (fst s)" "mem_acquire uuid tmo s r sid = (s', Inl e)"
    using that(2) by (cases rule: mem_acquire_cases [OF that(1), of r uuid tmo sid]) auto
  show "lm_ok (fst (fst (mem_acquire uuid tmo s r sid)))" if "lm_ok (fst s)"
    by (cases rule: mem_acquire_cases [OF that, of r uuid tmo sid]) auto
next
  fix s :: mem_locks and r t and sid :: "string option" and n :: int
  assume "lm_ok (fst s)" "mem_held (fst s) (res_key r) = Some (t, sid, n)"
  from lock_release_held [OF this]
  show "mem_held (fst (fst (mem_release s r t))) =
          (mem_held (fst s))(res_key r := if n \<le> 1 then None else Some (t, sid, n - 1)) \<and>
        snd (mem_release s r t) = None"
    by (simp add: mem_release_def)
next
  fix s :: mem_locks and k t and sid :: "string option" and n :: int
  assume "lm_ok (fst s)" "mem_held (fst s) k = Some (t, sid, n)"
  then show "1 \<le> n" using lm_ok_lookup(3) [of "fst s" k] by (auto simp: mem_held_def lock_view_def)
next
  fix s :: mem_locks and r t
  show "lm_ok (fst (fst (mem_release s r t)))" if "lm_ok (fst s)"
    using lock_release_ok [OF that] by (simp add: mem_release_def)
qed

text \<open>
  The in-memory strategy promises more: a free resource is granted, and every refusal is a
  \<^verbatim>\<open>ConcurrencyError\<close>.
\<close>

locale eager_lock_strategy = lock_strategy acquire release held ok
  for acquire :: "'s \<Rightarrow> resource \<Rightarrow> string option \<Rightarrow> 's \<times> (exn + string)"
    and release :: "'s \<Rightarrow> resource \<Rightarrow> string \<Rightarrow> 's \<times> exn option"
    and held :: "'s \<Rightarrow> key \<Rightarrow> (string \<times> string option \<times> int) option"
    and ok :: "'s \<Rightarrow> bool" +
  assumes acquire_free: "ok s \<Longrightarrow> held s (res_key r) = None \<Longrightarrow> is_ok (snd (acquire s r sid))"
    and refusal_kind: "acquire s r sid = (s', Inl e) \<Longrightarrow> is_concurrency_error e"
begin

lemma acquire_anonymous:
  assumes "ok s"
  obtains (granted) s' t where "held s (res_key r) = None" "acquire s r None = (s', Inr t)"
      "ok s'" "held s' = (held s)(res_key r \<mapsto> (t, None, 1))"
  | (refused) s' e where "held s (res_key r) \<noteq> None" "acquire s r None = (s', Inl e)"
      "ok s'" "held s' = held s" "is_concurrency_error e"
proof (cases "acquire s r None")
  case (Pair s' x)
  have ok': "ok s'" using ok_acquire [OF assms, of r None] Pair by simp
  show thesis
  proof (cases x)
    case (Inl e)
    then show thesis using refused ok' Pair acquire_refused [OF assms] refusal_kind acquire_free [OF assms, of r None]
      by fastforce
  next
    case (Inr t)
    then show thesis using granted ok' Pair acquire_granted [OF assms, of r None s' t] by auto
  qed
qed

end

interpretation mem_eager: eager_lock_strategy "mem_acquire uuid tmo" mem_release
  "\<lambda>s. mem_held (fst s)" "\<lambda>s. lm_ok (fst s)" for uuid tmo
proof unfold_locales
  fix s s' :: mem_locks and r sid e
  show "is_ok (snd (mem_acquire uuid tmo s r sid))"
    if "lm_ok (fst s)" "mem_held (fst s) (res_key r) = None"
    by (cases rule: mem_acquire_cases [OF that(1), of r uuid tmo sid]) (use that(2) in auto)
  show "is_concurrency_error e" if "mem_acquire uuid tmo s r sid = (s', Inl e)"
    using that
    by (auto simp: mem_acquire_eq timeout_error_def acquire_begin_def fifo_acquire_def queue_full_error_def
        Let_def split: prod.splits acquire_result.splits if_splits fifo_result.splits)
qed

section \<open>Properties\<close>

definition no_locks :: lock_manager where
  "no_locks = \<lparr>lm_locks = [], lm_heap = []\<rparr>"

lemma lm_ok_no_locks: "lm_ok no_locks"
  by (simp add: lm_ok_def no_locks_def)

definition write_res :: "string \<Rightarrow> string \<Rightarrow> resource" where
  "write_res t i = \<lparr>res_type = t, res_id = i, res_mode = WriteMode\<rparr>"

section \<open>Interleavings\<close>

text \<open>
  Any number of tasks.  \<open>lw_holds\<close> lists the acquisitions in force (key, token, session), \<open>lw_queue\<close> the waiting tasks
  (event, key, address of the state they queued on, session) and \<open>lw_set\<close> the events that have been set.  Two components only record the
  past: the events that were ever used, and the keys for which a release has woken a waiter.
\<close>

record lock_world =
  lw_mgr :: lock_manager
  lw_holds :: "(key \<times> string \<times> string option) list"
  lw_queue :: "(nat \<times> key \<times> nat \<times> string option) list"
  lw_set :: "nat set"
  lw_events :: "nat set"
  lw_woken :: "key set"

definition idle_world :: lock_world where
  "idle_world = \<lparr>lw_mgr = no_locks, lw_holds = [], lw_queue = [], lw_set = {}, lw_events = {}, lw_woken = {}\<rparr>"

inductive lock_step :: "lock_world \<Rightarrow> lock_world \<Rightarrow> bool" where
  granted: "acquire_begin (lw_mgr W) r sid fresh w = (m, Granted t) \<Longrightarrow>
     lock_step W (W\<lparr>lw_mgr := m, lw_holds := (res_key r, t, sid) # lw_holds W\<rparr>)"
| queued: "acquire_begin (lw_mgr W) r sid fresh w = (m, Queued a) \<Longrightarrow> w \<notin> lw_events W \<Longrightarrow>
     lock_step W (W\<lparr>lw_mgr := m, lw_queue := (w, res_key r, a, sid) # lw_queue W, lw_events := insert w (lw_events W)\<rparr>)"
| refused: "acquire_begin (lw_mgr W) r sid fresh w = (m, Refused e) \<Longrightarrow> lock_step W (W\<lparr>lw_mgr := m\<rparr>)"
| resumed: "(w, k, a, sid) \<in> set (lw_queue W) \<Longrightarrow> w \<in> lw_set W \<Longrightarrow> acquire_resume (lw_mgr W) a sid = (m, t) \<Longrightarrow>
     lock_step W (W\<lparr>lw_mgr := m, lw_queue := removeAll (w, k, a, sid) (lw_queue W), lw_holds := (k, t, sid) # lw_holds W\<rparr>)"
| timed_out: "q \<in> set (lw_queue W) \<Longrightarrow> lock_step W (W\<lparr>lw_queue := removeAll q (lw_queue W)\<rparr>)"
| released: "(res_key r, t, sid) \<in> set (lw_holds W) \<Longrightarrow> lock_release (lw_mgr W) r t = (m, woken) \<Longrightarrow>
     lock_step W (W\<lparr>lw_mgr := m, lw_holds := remove1 (res_key r, t, sid) (lw_holds W),
       lw_set := lw_set W \<union> set_option woken, lw_woken := lw_woken W \<union> (if woken = None then {} else {res_key r})\<rparr>)"

abbreviation holds_of :: "key \<Rightarrow> lock_world \<Rightarrow> (key \<times> string \<times> string option) list" where
  "holds_of k W \<equiv> filter (\<lambda>h. fst h = k) (lw_holds W)"

text \<open>The acquisitions of a key are the depth of its lock, all of one token and session; without a session there is one.\<close>

definition holds_ok :: "(string \<times> string option \<times> int) option \<Rightarrow> (key \<times> string \<times> string option) list \<Rightarrow> bool" where
  "holds_ok h xs \<longleftrightarrow>
     (case h of None \<Rightarrow> xs = []
      | Some (t, sid, n) \<Rightarrow> n = int (length xs) \<and> (\<forall>x \<in> set xs. snd x = (t, sid)) \<and> (sid = None \<longrightarrow> n = 1))"

abbreviation waiters_at :: "lock_manager \<Rightarrow> nat \<Rightarrow> nat list" where
  "waiters_at m a \<equiv> fl_waiters (ls_fifo (lm_heap m ! a))"

text \<open>An event waits on one state; a set event belongs to a key with a contended release and to a state that is out of the registry.\<close>

definition entry_ok :: "lock_manager \<Rightarrow> nat set \<Rightarrow> nat set \<Rightarrow> key set \<Rightarrow> nat \<times> key \<times> nat \<times> string option \<Rightarrow> bool" where
  "entry_ok m used flags woken q \<longleftrightarrow>
     (case q of (w, k, a, sid) \<Rightarrow> w \<in> used \<and> a < length (lm_heap m) \<and>
        (\<forall>b < length (lm_heap m). w \<in> set (waiters_at m b) \<longrightarrow> b = a \<and> (\<forall>k'. map_of (lm_locks m) k' = Some b \<longrightarrow> k' = k)) \<and>
        (w \<in> flags \<longrightarrow> k \<in> woken \<and> (\<forall>k'. map_of (lm_locks m) k' \<noteq> Some a)))"

definition queue_ok :: "lock_world \<Rightarrow> bool" where
  "queue_ok W \<longleftrightarrow> lw_set W \<subseteq> lw_events W \<and>
     (\<forall>a < length (lm_heap (lw_mgr W)). set (waiters_at (lw_mgr W) a) \<subseteq> lw_events W) \<and>
     (\<forall>q \<in> set (lw_queue W). entry_ok (lw_mgr W) (lw_events W) (lw_set W) (lw_woken W) q)"

lemma entry_ok_mono:
  assumes "entry_ok m used flags woken q" "length (lm_heap m) \<le> length (lm_heap m')" "used \<subseteq> used'" "woken \<subseteq> woken'"
    and "\<And>b. b < length (lm_heap m') \<Longrightarrow> fst q \<in> set (waiters_at m' b) \<Longrightarrow> b < length (lm_heap m) \<and> fst q \<in> set (waiters_at m b)"
    and "\<And>k b. b < length (lm_heap m) \<Longrightarrow> map_of (lm_locks m') k = Some b \<Longrightarrow> map_of (lm_locks m) k = Some b"
    and "fst q \<in> flags' \<Longrightarrow> fst q \<in> flags"
  shows "entry_ok m' used' flags' woken' q"
proof -
  obtain w k a sid where q: "q = (w, k, a, sid)" by (rule prod_cases4)
  have e: "w \<in> used" "a < length (lm_heap m)"
    "\<And>b k'. b < length (lm_heap m) \<Longrightarrow> w \<in> set (waiters_at m b) \<Longrightarrow> b = a \<and> (map_of (lm_locks m) k' = Some b \<longrightarrow> k' = k)"
    "\<And>k'. w \<in> flags \<Longrightarrow> k \<in> woken \<and> map_of (lm_locks m) k' \<noteq> Some a"
    using assms(1) by (auto simp: entry_ok_def q)
  have "b = a \<and> (\<forall>k'. map_of (lm_locks m') k' = Some b \<longrightarrow> k' = k)" if "b < length (lm_heap m')" "w \<in> set (waiters_at m' b)" for b
    using assms(5) [of b] assms(6) [of b] e(3) [of b] that by (auto simp: q)
  moreover have "k \<in> woken' \<and> (\<forall>k'. map_of (lm_locks m') k' \<noteq> Some a)" if "w \<in> flags'"
    using assms(4,7) assms(6) [of a] e(2,4) that by (auto simp: q)
  ultimately show ?thesis using e(1,2) assms(2,3) by (auto simp: entry_ok_def q)
qed

definition world_ok :: "lock_world \<Rightarrow> bool" where
  "world_ok W \<longleftrightarrow> lm_ok (lw_mgr W) \<and> queue_ok W \<and>
     (\<forall>k. k \<notin> lw_woken W \<longrightarrow> holds_ok (mem_held (lw_mgr W) k) (holds_of k W))"

lemma acquire_begin_shape:
  assumes "lm_ok m" "acquire_begin m r sid fresh w = (m', res)"
  shows "(\<exists>a. map_of (lm_locks m) (res_key r) = Some a \<and> lm_locks m' = lm_locks m \<and> length (lm_heap m') = length (lm_heap m) \<and>
            (\<forall>b. b < length (lm_heap m) \<longrightarrow> waiters_at m' b = waiters_at m b @ (if b = a \<and> res = Queued a then [w] else [])) \<and>
            (\<forall>b. res = Queued b \<longrightarrow> b = a)) \<or>
         (map_of (lm_locks m) (res_key r) = None \<and> res = Granted fresh \<and>
            lm_locks m' = AList.update (res_key r) (length (lm_heap m)) (lm_locks m) \<and> length (lm_heap m') = Suc (length (lm_heap m)) \<and>
            waiters_at m' (length (lm_heap m)) = [] \<and> (\<forall>b. b < length (lm_heap m) \<longrightarrow> waiters_at m' b = waiters_at m b))"
proof (cases "map_of (lm_locks m) (res_key r)")
  case None
  have "acquire_begin m r sid fresh w = (m\<lparr>lm_locks := AList.update (res_key r) (length (lm_heap m)) (lm_locks m),
      lm_heap := lm_heap m @ [grant sid ((new_lock_state fresh)\<lparr>ls_fifo := (ls_fifo (new_lock_state fresh))\<lparr>fl_locked := True\<rparr>\<rparr>)]\<rparr>, Granted fresh)"
    using None by (cases sid) (simp_all add: acquire_begin_def find_or_create_def fifo_acquire_def new_lock_state_def write_state_def Let_def)
  then show ?thesis using None assms(2) by (auto simp: nth_append grant_def new_lock_state_def)
next
  case (Some a)
  note st = lm_ok_lookup [OF assms(1) Some]
  show ?thesis
    using assms(2) Some st
    by (auto simp: acquire_begin_def find_or_create_def fifo_acquire_def Let_def nth_list_update split: if_splits)
qed

lemma begin_held:
  assumes "lm_ok m" "acquire_begin m r sid fresh w = (m', res)"
  shows "lm_ok m' \<and> (case res of
      Granted t \<Rightarrow> (mem_held m (res_key r) = None \<and> mem_held m' = (mem_held m)(res_key r \<mapsto> (t, sid, 1))) \<or>
        (\<exists>n. sid \<noteq> None \<and> mem_held m (res_key r) = Some (t, sid, n) \<and> mem_held m' = (mem_held m)(res_key r \<mapsto> (t, sid, n + 1)))
    | _ \<Rightarrow> mem_held m' = mem_held m)"
proof (cases "map_of (lm_locks m) (res_key r)")
  case None
  then show ?thesis using acquire_begin_free [OF assms(1) None, of sid fresh w] assms(2) by (auto simp: mem_held_def)
next
  case (Some a)
  then have "mem_held m (res_key r) = Some (ls_token (lm_heap m ! a), ls_session (lm_heap m ! a), ls_ref_count (lm_heap m ! a))"
    by (simp add: mem_held_def lock_view_def)
  then show ?thesis using acquire_begin_taken [OF assms(1) Some assms(2)] by (auto split: if_splits)
qed

lemma release_shape:
  assumes "lm_ok m" "lock_release m r t = (m', woken)"
  shows "lm_ok m' \<and> (\<forall>k. k \<noteq> res_key r \<longrightarrow> mem_held m' k = mem_held m k) \<and> length (lm_heap m') = length (lm_heap m) \<and>
    (\<forall>b. b < length (lm_heap m) \<longrightarrow> set (waiters_at m' b) \<subseteq> set (waiters_at m b)) \<and>
    (\<forall>k b. map_of (lm_locks m') k = Some b \<longrightarrow> map_of (lm_locks m) k = Some b) \<and>
    (\<forall>w. woken = Some w \<longrightarrow> (\<exists>a. map_of (lm_locks m) (res_key r) = Some a \<and> w \<in> set (waiters_at m a) \<and> a \<notin> set (dvalues (lm_locks m'))))"
proof (cases "map_of (lm_locks m) (res_key r)")
  case None
  then have "m' = m" "woken = None" using assms(2) by (simp_all add: lock_release_def)
  then show ?thesis using assms(1) by simp
next
  case (Some a)
  note st = lm_ok_lookup [OF assms(1) Some]
  have ok: "lm_ok m'" using lock_release_ok [OF assms(1), of r t] assms(2) by simp
  show ?thesis
  proof (cases "ls_token (lm_heap m ! a) = t")
    case False
    then have "m' = m" "woken = None" using assms(2) Some by (simp_all add: lock_release_def Let_def)
    then show ?thesis using assms(1) by simp
  next
    case True
    then have "mem_held m (res_key r) = Some (t, ls_session (lm_heap m ! a), ls_ref_count (lm_heap m ! a))"
      using Some by (simp add: mem_held_def lock_view_def)
    then have held: "\<forall>k. k \<noteq> res_key r \<longrightarrow> mem_held m' k = mem_held m k"
      using lock_release_held [OF assms(1)] assms(2) by fastforce
    have heap: "length (lm_heap m') = length (lm_heap m) \<and>
        (\<forall>b. b < length (lm_heap m) \<longrightarrow> set (waiters_at m' b) \<subseteq> set (waiters_at m b))"
      using assms(2) Some True st(1)
      by (auto simp: lock_release_def Let_def fifo_release_def nth_list_update split: if_splits list.splits)
    have locks: "\<forall>k b. map_of (lm_locks m') k = Some b \<longrightarrow> map_of (lm_locks m) k = Some b"
      using assms(2) Some True by (auto simp: lock_release_def Let_def AList.delete_conv' split: if_splits prod.splits)
    have "\<forall>w. woken = Some w \<longrightarrow> w \<in> set (waiters_at m a) \<and> lm_locks m' = AList.delete (res_key r) (lm_locks m)"
      using assms(2) Some True by (auto simp: lock_release_def Let_def fifo_release_def split: if_splits list.splits)
    then show ?thesis using ok held heap locks Some lm_ok_deleted [OF assms(1) Some] by metis
  qed
qed

lemma resume_shape:
  assumes "lm_ok m" "a \<notin> set (dvalues (lm_locks m))" "acquire_resume m a sid = (m', t)"
  shows "lm_ok m' \<and> mem_held m' = mem_held m \<and> lm_locks m' = lm_locks m \<and> length (lm_heap m') = length (lm_heap m) \<and>
    (\<forall>b. b < length (lm_heap m) \<longrightarrow> waiters_at m' b = waiters_at m b)"
proof -
  have m': "m' = write_state a (grant sid ((lm_heap m ! a)\<lparr>ls_fifo := (ls_fifo (lm_heap m ! a))\<lparr>fl_locked := True\<rparr>\<rparr>)) m"
    using assms(3) by (simp add: acquire_resume_def Let_def)
  have other: "lm_heap m' ! b = lm_heap m ! b" if "b \<in> set (dvalues (lm_locks m))" for b
    using that assms(2) by (cases "b = a") (auto simp: m')
  have "lm_ok m'" using assms(1) other unfolding lm_ok_def list_all_iff by (auto simp: m')
  moreover have "mem_held m' = mem_held m"
    using other map_of_dvalues [of "lm_locks m"] by (auto simp: mem_held_def m' fun_eq_iff intro!: option.map_cong)
  moreover have "\<forall>b. b < length (lm_heap m) \<longrightarrow> waiters_at m' b = waiters_at m b"
  proof (intro allI impI)
    fix b assume "b < length (lm_heap m)"
    then show "waiters_at m' b = waiters_at m b" by (cases "b = a") (simp_all add: m' grant_def)
  qed
  ultimately show ?thesis by (simp add: m')
qed

lemma holds_ok_acquired:
  assumes "holds_ok h xs"
    and "h = None \<and> h' = Some (t, sid, 1) \<or> (\<exists>n. sid \<noteq> None \<and> h = Some (t, sid, n) \<and> h' = Some (t, sid, n + 1))"
  shows "holds_ok h' ((k, t, sid) # xs)"
  using assms by (auto simp: holds_ok_def)

lemma holds_ok_released:
  assumes "holds_ok h xs" "(k, t, sid) \<in> set xs"
  obtains n where "h = Some (t, sid, n)" "holds_ok (if n \<le> 1 then None else Some (t, sid, n - 1)) (remove1 (k, t, sid) xs)"
proof -
  obtain t' sid' n where h: "h = Some (t', sid', n)" using assms by (cases h) (auto simp: holds_ok_def)
  have eq: "t' = t" "sid' = sid" "n = int (length xs)" using assms h by (auto simp: holds_ok_def)
  have len: "length (remove1 (k, t, sid) xs) = length xs - 1" "1 \<le> length xs"
    using assms(2) by (simp_all add: length_remove1) (metis One_nat_def Suc_leI length_pos_if_in_set)
  have "holds_ok (if n \<le> 1 then None else Some (t, sid, n - 1)) (remove1 (k, t, sid) xs)"
  proof (cases "n \<le> 1")
    case True
    then have "length (remove1 (k, t, sid) xs) = 0" using len eq(3) by linarith
    then show ?thesis using True by (simp add: holds_ok_def)
  next
    case False
    then show ?thesis using assms h eq len by (auto simp: holds_ok_def dest: notin_set_remove1)
  qed
  with h eq show thesis using that by blast
qed

lemma begin_queue_ok:
  assumes "lm_ok (lw_mgr W)" "queue_ok W" "acquire_begin (lw_mgr W) r sid fresh w = (m, res)" "w \<notin> lw_events W \<or> (\<forall>a. res \<noteq> Queued a)"
    and "W' = W\<lparr>lw_mgr := m, lw_holds := hs, lw_events := insert w (lw_events W),
           lw_queue := (case res of Queued a \<Rightarrow> [(w, res_key r, a, sid)] | _ \<Rightarrow> []) @ lw_queue W\<rparr> \<or>
         (\<forall>a. res \<noteq> Queued a) \<and> W' = W\<lparr>lw_mgr := m, lw_holds := hs\<rparr>"
  shows "queue_ok W'"
proof -
  let ?m = "lw_mgr W"
  note q = assms(2) [unfolded queue_ok_def]
  have "lm_locks m = lm_locks ?m \<or> lm_locks m = AList.update (res_key r) (length (lm_heap ?m)) (lm_locks ?m)"
    using acquire_begin_shape [OF assms(1,3)] by blast
  then have locks: "map_of (lm_locks m) k = Some b \<Longrightarrow> b < length (lm_heap ?m) \<Longrightarrow> map_of (lm_locks ?m) k = Some b" for k b
    by (auto simp: AList.update_conv' split: if_splits)
  have len: "length (lm_heap ?m) \<le> length (lm_heap m)" using acquire_begin_shape [OF assms(1,3)] by auto
  have wait: "b < length (lm_heap ?m) \<and> x \<in> set (waiters_at ?m b) \<or> x = w \<and> (\<exists>a. res = Queued a)"
    if b: "b < length (lm_heap m)" "x \<in> set (waiters_at m b)" for b x
    using acquire_begin_shape [OF assms(1,3)]
  proof (elim disjE exE conjE)
    fix a assume len: "length (lm_heap m) = length (lm_heap ?m)" and
      wt: "\<forall>b. b < length (lm_heap ?m) \<longrightarrow> waiters_at m b = waiters_at ?m b @ (if b = a \<and> res = Queued a then [w] else [])"
    have lt: "b < length (lm_heap ?m)" using b(1) len by simp
    have "x \<in> set (waiters_at ?m b @ (if b = a \<and> res = Queued a then [w] else []))" using b(2) wt lt by metis
    then show ?thesis using lt by (cases "b = a \<and> res = Queued a") auto
  next
    assume "length (lm_heap m) = Suc (length (lm_heap ?m))" "waiters_at m (length (lm_heap ?m)) = []"
      "\<forall>b. b < length (lm_heap ?m) \<longrightarrow> waiters_at m b = waiters_at ?m b"
    then show ?thesis using b by (metis empty_iff less_SucE list.set(1))
  qed
  have old: "entry_ok m (lw_events W') (lw_set W) (lw_woken W) e" if "e \<in> set (lw_queue W)" for e
  proof (rule entry_ok_mono)
    show e: "entry_ok ?m (lw_events W) (lw_set W) (lw_woken W) e" using q that by blast
    have "fst e \<in> lw_events W" using e by (auto simp: entry_ok_def)
    then show "b < length (lm_heap ?m) \<and> fst e \<in> set (waiters_at ?m b)" if "b < length (lm_heap m)" "fst e \<in> set (waiters_at m b)" for b
      using wait [OF that] assms(4) by auto
  qed (use len locks assms(5) in auto)
  have new: "entry_ok m (lw_events W') (lw_set W) (lw_woken W) (w, res_key r, a, sid)" if res: "res = Queued a" for a
  proof -
    obtain c where c: "map_of (lm_locks ?m) (res_key r) = Some c" "lm_locks m = lm_locks ?m" "length (lm_heap m) = length (lm_heap ?m)" "c = a"
      "\<forall>b. b < length (lm_heap ?m) \<longrightarrow> waiters_at m b = waiters_at ?m b @ (if b = a then [w] else [])"
      using acquire_begin_shape [OF assms(1,3)]
    proof (elim disjE exE conjE)
      fix c assume c: "map_of (lm_locks ?m) (res_key r) = Some c" "lm_locks m = lm_locks ?m" "length (lm_heap m) = length (lm_heap ?m)"
        "\<forall>b. b < length (lm_heap ?m) \<longrightarrow> waiters_at m b = waiters_at ?m b @ (if b = c \<and> res = Queued c then [w] else [])"
        "\<forall>b. res = Queued b \<longrightarrow> b = c"
      have "a = c" using c(5) res by blast
      then show thesis using that [OF c(1-3)] c(4) res by simp
    qed (simp add: res)
    have w: "w \<notin> lw_events W" using assms(4) res by blast
    have "b = a \<and> (\<forall>k'. map_of (lm_locks m) k' = Some b \<longrightarrow> k' = res_key r)" if "b < length (lm_heap m)" "w \<in> set (waiters_at m b)" for b
    proof -
      have "b = a" using that c(3,5) q w by (auto split: if_splits)
      then show ?thesis using lm_ok_inj [OF assms(1) c(1)] c(2,4) by auto
    qed
    moreover have "w \<notin> lw_set W" using q w by blast
    ultimately show ?thesis using lm_ok_lookup(1) [OF assms(1) c(1)] c(3,4) assms(5) res by (auto simp: entry_ok_def)
  qed
  have "\<forall>a < length (lm_heap m). set (waiters_at m a) \<subseteq> lw_events W'"
  proof (intro allI impI subsetI)
    fix a x assume "a < length (lm_heap m)" "x \<in> set (waiters_at m a)"
    from wait [OF this] have "x \<in> lw_events W \<or> x = w \<and> (\<exists>a. res = Queued a)" using q by blast
    then show "x \<in> lw_events W'" using assms(5) by auto
  qed
  moreover have f: "lw_mgr W' = m" "lw_set W' = lw_set W" "lw_woken W' = lw_woken W" "lw_events W \<subseteq> lw_events W'"
    "set (lw_queue W') \<subseteq> set (lw_queue W) \<union> {(w, res_key r, a, sid) |a. res = Queued a}"
    using assms(5) by (cases res; elim disjE conjE; simp add: subset_insertI2)+
  have "\<forall>e \<in> set (lw_queue W'). entry_ok m (lw_events W') (lw_set W) (lw_woken W) e"
  proof
    fix e assume "e \<in> set (lw_queue W')"
    then consider "e \<in> set (lw_queue W)" | a where "e = (w, res_key r, a, sid)" "res = Queued a" using f(5) by blast
    then show "entry_ok m (lw_events W') (lw_set W) (lw_woken W) e" using old new by cases simp_all
  qed
  ultimately show ?thesis using q f(4) unfolding queue_ok_def f(1-3) by blast
qed

lemma release_queue_ok:
  assumes "lm_ok (lw_mgr W)" "queue_ok W" "lock_release (lw_mgr W) r t = (m, woken)"
    and "W' = W\<lparr>lw_mgr := m, lw_holds := hs, lw_set := lw_set W \<union> set_option woken,
           lw_woken := lw_woken W \<union> (if woken = None then {} else {res_key r})\<rparr>"
  shows "queue_ok W'"
proof -
  let ?m = "lw_mgr W"
  note q = assms(2) [unfolded queue_ok_def]
  note s = release_shape [OF assms(1,3)]
  have len: "length (lm_heap m) = length (lm_heap ?m)" using s by blast
  have wait: "b < length (lm_heap ?m) \<Longrightarrow> set (waiters_at m b) \<subseteq> set (waiters_at ?m b)" for b using s by blast
  have locks: "map_of (lm_locks m) k = Some b \<Longrightarrow> map_of (lm_locks ?m) k = Some b" for k b using s by blast
  have flag: "\<exists>a. map_of (lm_locks ?m) (res_key r) = Some a \<and> w \<in> set (waiters_at ?m a) \<and> a \<notin> set (dvalues (lm_locks m))"
    if "woken = Some w" for w using s that by blast
  have "entry_ok m (lw_events W) (lw_set W') (lw_woken W') e" if "e \<in> set (lw_queue W)" for e
  proof -
    obtain w k a sid where e: "e = (w, k, a, sid)" by (rule prod_cases4)
    have old: "entry_ok ?m (lw_events W) (lw_set W) (lw_woken W) e" using q that by blast
    show ?thesis
    proof (cases "woken = Some w")
      case False
      show ?thesis
        by (rule entry_ok_mono [OF old]) (use len wait locks False assms(4) in \<open>auto simp: e\<close>)
    next
      case True
      obtain c where c: "map_of (lm_locks ?m) (res_key r) = Some c" "w \<in> set (waiters_at ?m c)" "c \<notin> set (dvalues (lm_locks m))"
        using flag [OF True] by blast
      have o: "w \<in> lw_events W" "a < length (lm_heap ?m)"
        "\<And>b k'. b < length (lm_heap ?m) \<Longrightarrow> w \<in> set (waiters_at ?m b) \<Longrightarrow> b = a \<and> (map_of (lm_locks ?m) k' = Some b \<longrightarrow> k' = k)"
        using old by (auto simp: entry_ok_def e)
      have "c = a" "res_key r = k" using o(3) [OF lm_ok_lookup(1) [OF assms(1) c(1)] c(2), of "res_key r"] c(1) by auto
      moreover have "map_of (lm_locks m) k' \<noteq> Some a" for k' using c(3) map_of_dvalues [of "lm_locks m" k' a] \<open>c = a\<close> by auto
      moreover have "b = a \<and> (\<forall>k'. map_of (lm_locks m) k' = Some b \<longrightarrow> k' = k)" if "b < length (lm_heap m)" "w \<in> set (waiters_at m b)" for b
        using o(3) [of b] wait [of b] locks that len by auto
      ultimately show ?thesis using o(1,2) len True assms(4) by (auto simp: entry_ok_def e)
    qed
  qed
  moreover have "lw_set W' \<subseteq> lw_events W"
  proof (cases woken)
    case (Some w)
    then obtain a where "map_of (lm_locks ?m) (res_key r) = Some a" "w \<in> set (waiters_at ?m a)" using flag by blast
    then have "w \<in> lw_events W" using q lm_ok_lookup(1) [OF assms(1)] by blast
    then show ?thesis using Some q assms(4) by simp
  qed (use q assms(4) in simp)
  moreover have "\<forall>a < length (lm_heap m). set (waiters_at m a) \<subseteq> lw_events W" using q len wait by (metis subset_trans)
  ultimately show ?thesis using assms(4) by (auto simp: queue_ok_def)
qed

lemma world_ok_step:
  assumes "lock_step W W'" "world_ok W"
  shows "world_ok W'"
proof -
  have ok: "lm_ok (lw_mgr W)" "queue_ok W" and holds: "\<And>k. k \<notin> lw_woken W \<Longrightarrow> holds_ok (mem_held (lw_mgr W) k) (holds_of k W)"
    using assms(2) by (auto simp: world_ok_def)
  from assms(1) show ?thesis
  proof cases
    case (granted r sid fresh w m t)
    note h = begin_held [OF ok(1) granted(2), simplified]
    have "queue_ok W'" by (rule begin_queue_ok [OF ok granted(2)]) (auto simp: granted(1))
    moreover have "holds_ok (mem_held m k) (holds_of k W')" if "k \<notin> lw_woken W" for k
    proof (cases "k = res_key r")
      case True
      have "holds_ok (mem_held m k) ((k, t, sid) # holds_of k W)"
        by (rule holds_ok_acquired [OF holds [OF that]]) (use h True in auto)
      then show ?thesis by (simp add: granted(1) True)
    next
      case False
      then show ?thesis using holds [OF that] h by (auto simp: granted(1))
    qed
    ultimately show ?thesis using h by (simp add: world_ok_def granted(1))
  next
    case (queued r sid fresh w m a)
    have "queue_ok W'"
      by (rule begin_queue_ok [OF ok queued(2), where hs = "lw_holds W"]) (use queued(3) in \<open>simp_all add: queued(1)\<close>)
    then show ?thesis using begin_held [OF ok(1) queued(2)] holds by (auto simp: world_ok_def queued(1))
  next
    case (refused r sid fresh w m e)
    have "queue_ok W'" by (rule begin_queue_ok [OF ok refused(2), where hs = "lw_holds W"]) (simp_all add: refused(1))
    then show ?thesis using begin_held [OF ok(1) refused(2)] holds by (auto simp: world_ok_def refused(1))
  next
    case (resumed w k a sid m t)
    have "entry_ok (lw_mgr W) (lw_events W) (lw_set W) (lw_woken W) (w, k, a, sid)" using ok(2) resumed(2) unfolding queue_ok_def by blast
    then have a: "k \<in> lw_woken W" "\<And>k'. map_of (lm_locks (lw_mgr W)) k' \<noteq> Some a" using resumed(3) by (auto simp: entry_ok_def)
    then have "a \<notin> set (dvalues (lm_locks (lw_mgr W)))" using dvalues_map_of [of "lm_locks (lw_mgr W)" a] ok(1) by (auto simp: lm_ok_def)
    note r = resume_shape [OF ok(1) this resumed(4)]
    have "queue_ok W'"
      using ok(2) r unfolding queue_ok_def resumed(1) by (auto intro!: entry_ok_mono [of "lw_mgr W" "lw_events W" "lw_set W" "lw_woken W" _ m])
    moreover have "holds_of k' W' = holds_of k' W" if "k' \<notin> lw_woken W" for k' using that a(1) by (auto simp: resumed(1))
    ultimately show ?thesis using r holds by (simp add: world_ok_def resumed(1))
  next
    case (timed_out x)
    then show ?thesis using assms(2) by (auto simp: world_ok_def queue_ok_def)
  next
    case (released r t sid m woken)
    have "queue_ok W'" by (rule release_queue_ok [OF ok released(3,1)])
    moreover note s = release_shape [OF ok(1) released(3)]
    moreover have "holds_ok (mem_held m k) (holds_of k W')" if "k \<notin> lw_woken W'" for k
    proof (cases "k = res_key r")
      case True
      have k: "k \<notin> lw_woken W" "(k, t, sid) \<in> set (holds_of k W)" using that released True by (auto split: if_splits)
      obtain n where n: "mem_held (lw_mgr W) k = Some (t, sid, n)"
        "holds_ok (if n \<le> 1 then None else Some (t, sid, n - 1)) (remove1 (k, t, sid) (holds_of k W))"
        by (rule holds_ok_released [OF holds [OF k(1)] k(2)])
      have "mem_held m k = (if n \<le> 1 then None else Some (t, sid, n - 1))"
        using lock_release_held [OF ok(1), of r t sid n] n(1) released(3) True by simp
      then show ?thesis using n(2) True by (simp add: released(1) filter_remove1)
    next
      case False
      have "holds_of k W' = holds_of k W" using False by (simp add: released(1) filter_remove1 remove1_idem)
      moreover have "mem_held m k = mem_held (lw_mgr W) k" using s False by blast
      moreover have "k \<notin> lw_woken W" using that by (simp add: released(1))
      ultimately show ?thesis using holds [of k] by simp
    qed
    ultimately show ?thesis by (simp add: world_ok_def released(1))
  qed
qed

text \<open>
  C27: exclusion, over every interleaving of tasks that acquire, wait, are woken, time out and release what they hold: as
  long as no release has woken a waiter for a resource, all acquisitions of it that are in force have the same token
  and belong to the same session, an acquisition without a session is alone, and the registry holds their token, session and
  number.  The condition is needed: \<open>contended_release_breaks_exclusion\<close> shows what a woken waiter leads to.
\<close>

theorem mem_lock_exclusion:
  assumes "lock_step\<^sup>*\<^sup>* idle_world W" "k \<notin> lw_woken W" "(k, t, sid) \<in> set (lw_holds W)" "(k, t', sid') \<in> set (lw_holds W)"
  shows "t' = t \<and> sid' = sid \<and> (sid = None \<longrightarrow> holds_of k W = [(k, t, None)]) \<and>
    mem_held (lw_mgr W) k = Some (t, sid, int (length (holds_of k W)))"
proof -
  have "world_ok idle_world"
    by (simp add: world_ok_def idle_world_def queue_ok_def lm_ok_no_locks) (simp add: no_locks_def mem_held_def holds_ok_def)
  with assms(1) have "world_ok W" by (induction rule: rtranclp_induct) (use world_ok_step in blast)+
  then have h: "holds_ok (mem_held (lw_mgr W) k) (holds_of k W)" using assms(2) unfolding world_ok_def by blast
  have mem: "(k, t, sid) \<in> set (holds_of k W)" "(k, t', sid') \<in> set (holds_of k W)" using assms(3,4) by simp_all
  obtain n where n: "mem_held (lw_mgr W) k = Some (t, sid, n)" using holds_ok_released [OF h mem(1)] by blast
  have len: "n = int (length (holds_of k W))" "sid = None \<longrightarrow> n = 1" and all: "\<forall>x \<in> set (holds_of k W). snd x = (t, sid)"
    using h unfolding n holds_ok_def option.case prod.case by blast+
  have "t' = t" "sid' = sid" using bspec [OF all mem(2)] by simp_all
  moreover have "sid = None \<longrightarrow> holds_of k W = [(k, t, None)]"
  proof
    assume "sid = None"
    then obtain x where x: "holds_of k W = [x]" using len by (auto simp: length_Suc_conv)
    moreover have "x = (k, t, sid)" using mem(1) unfolding x by simp
    ultimately show "holds_of k W = [(k, t, None)]" using \<open>sid = None\<close> by simp
  qed
  ultimately show ?thesis using n len by simp
qed

theorem mem_lock_exclusion_witness:
  "\<exists>W. lock_step\<^sup>*\<^sup>* idle_world W \<and> mem_held (lw_mgr W) (''A'', ''1'') = Some (''t'', Some ''x'', 1)"
proof -
  let ?r = "write_res ''A'' ''1''"
  obtain m where m: "acquire_begin no_locks ?r (Some ''x'') ''t'' 0 = (m, Granted ''t'')"
    using acquire_begin_free [OF lm_ok_no_locks, of ?r "Some ''x''" "''t''" 0] by (auto simp: no_locks_def)
  let ?W = "idle_world\<lparr>lw_mgr := m, lw_holds := [(res_key ?r, ''t'', Some ''x'')]\<rparr>"
  have "lock_step idle_world ?W" using lock_step.granted [of idle_world ?r "Some ''x''" "''t''" 0 m "''t''"] m by (simp add: idle_world_def)
  then have run: "lock_step\<^sup>*\<^sup>* idle_world ?W" by blast
  from mem_lock_exclusion [OF this, of "(''A'', ''1'')" "''t''" "Some ''x''"]
  have "mem_held (lw_mgr ?W) (''A'', ''1'') = Some (''t'', Some ''x'', 1)"
    by (simp add: idle_world_def write_res_def res_key_def)
  with run show ?thesis by blast
qed

text \<open>
  a contended release loses exclusion.  When a resource is held at depth one and a task waits
  for it, \<^verbatim>\<open>release\<close> wakes that task and removes the lock state from the registry; the woken task
  gets the lock on the removed state, so a third session that asks for the resource is granted it at
  once, with another state, while the woken task still believes it holds it, and the woken
  task's own release is ignored unless the tokens happen to coincide.
\<close>

theorem contended_release_breaks_exclusion:
  assumes "lm_ok m" "mem_held m (res_key r) = Some (t, sid, 1)"
    and "map_of (lm_locks m) (res_key r) = Some a" "fl_waiters (ls_fifo (lm_heap m ! a)) = w # ws"
    and "lock_release m r t = (m1, woken)" "acquire_resume m1 a sid2 = (m2, t2)"
    and "acquire_begin m2 r sid3 fresh w3 = (m3, res)"
  shows "woken = Some w \<and> t2 = t \<and> res = Granted fresh \<and>
         mem_held m3 (res_key r) = Some (fresh, sid3, 1) \<and>
         (fresh \<noteq> t \<longrightarrow> lock_release m3 r t2 = (m3, None))"
proof -
  let ?st = "lm_heap m ! a"
  have v: "ls_token ?st = t" "ls_ref_count ?st = 1"
    using assms(2,3) by (auto simp: mem_held_def lock_view_def)
  have a: "a < length (lm_heap m)" using lm_ok_lookup(1) [OF assms(1,3)] .
  have m1: "woken = Some w" "map_of (lm_locks m1) (res_key r) = None" "ls_token (lm_heap m1 ! a) = t"
    using assms(3-5) v a by (auto simp: lock_release_def Let_def fifo_release_def)
  have ok1: "lm_ok m1" using lock_release_ok [OF assms(1), of r t] assms(5) by simp
  have m2: "t2 = t" "lm_locks m2 = lm_locks m1" "length (lm_heap m2) = length (lm_heap m1)"
    using assms(6) m1(3) by (auto simp: acquire_resume_def Let_def)
  have l1: "lm_locks m1 = AList.delete (res_key r) (lm_locks m)"
    using assms(3-5) v by (auto simp: lock_release_def Let_def fifo_release_def)
  have notin: "a \<notin> set (dvalues (lm_locks m1))"
    using lm_ok_deleted [OF assms(1,3)] l1 by metis
  have heap: "lm_heap m2 ! b = lm_heap m1 ! b" if "b \<in> set (dvalues (lm_locks m1))" for b
  proof -
    have "a \<noteq> b" using that notin by blast
    then show ?thesis using assms(6) by (auto simp: acquire_resume_def Let_def)
  qed
  have ok2: "lm_ok m2"
    using ok1 heap unfolding lm_ok_def list_all_iff m2(2,3) by auto
  from acquire_begin_free [OF ok2, of r sid3 fresh w3] m1(2) m2(2) assms(7)
  have g: "res = Granted fresh" "mem_held m3 (res_key r) = Some (fresh, sid3, 1)" by auto
  then have "fresh \<noteq> t \<longrightarrow> lock_release m3 r t2 = (m3, None)"
    using m2(1) by (auto simp: lock_release_def mem_held_def lock_view_def Let_def)
  with g m1(1) m2(1) show ?thesis by simp
qed

definition contended :: lock_manager where
  "contended = \<lparr>lm_locks = [((''A'', ''1''), 0)],
     lm_heap = [\<lparr>ls_fifo = \<lparr>fl_locked = True, fl_waiters = [7], fl_max_queue_size = 100\<rparr>,
                 ls_token = ''t'', ls_session = Some ''x'', ls_ref_count = 1\<rparr>]\<rparr>"

theorem contended_release_breaks_exclusion_witness:
  "\<exists>m1 m2 m3. lock_release contended (write_res ''A'' ''1'') ''t'' = (m1, Some 7) \<and>
     acquire_resume m1 0 (Some ''y'') = (m2, ''t'') \<and>
     acquire_begin m2 (write_res ''A'' ''1'') (Some ''z'') ''u'' 9 = (m3, Granted ''u'')"
proof -
  let ?r = "write_res ''A'' ''1''"
  obtain m1 wk where m1: "lock_release contended ?r ''t'' = (m1, wk)" by (cases "lock_release contended ?r ''t''")
  obtain m2 t2 where m2: "acquire_resume m1 0 (Some ''y'') = (m2, t2)" by (cases "acquire_resume m1 0 (Some ''y'')")
  obtain m3 res where m3: "acquire_begin m2 ?r (Some ''z'') ''u'' 9 = (m3, res)"
    by (cases "acquire_begin m2 ?r (Some ''z'') ''u'' 9")
  have ok: "lm_ok contended" by (simp add: lm_ok_def contended_def)
  have "wk = Some 7 \<and> t2 = ''t'' \<and> res = Granted ''u''"
    using contended_release_breaks_exclusion [OF ok _ _ _ m1 m2 m3, of "Some ''x''" 7 "[]"]
    by (simp add: contended_def write_res_def res_key_def mem_held_def lock_view_def)
  with m1 m2 m3 show ?thesis by blast
qed

end
