(* ===== verification/CriticalSection.thy ===== *)
theory CriticalSection
  imports Locking Repository
begin

text \<open>
  \<^verbatim>\<open>CriticalSection\<close> (cqrs/concurrency.py), the context manager that takes several locks in sorted order
  and rolls back on failure, and \<^verbatim>\<open>ConcurrencyGuardMiddleware\<close> (middleware/concurrency.py), which runs a
  command's handler inside one.  Both are written over any lock strategy; their lemmas are proved
  in the locale \<open>lock_strategy\<close> and read off for the in-memory strategy.
\<close>

section \<open>CriticalSection\<close>

record critical_section =
  cs_resources :: "resource list"
  cs_timeout :: string
  cs_session :: "string option"
  cs_acquired :: "(resource \<times> string) list"

definition consolidate_step :: "resource \<Rightarrow> (key, resource) dict \<Rightarrow> (key, resource) dict" where
  "consolidate_step r d =
     (if res_key r \<notin> set (dkeys d) \<or> res_mode r = WriteMode then AList.update (res_key r) r d else d)"

definition consolidate :: "resource list \<Rightarrow> (key, resource) dict" where
  "consolidate rs = fold consolidate_step rs []"

definition new_section :: "resource list \<Rightarrow> string \<Rightarrow> string option \<Rightarrow> critical_section" where
  "new_section rs tmo sid =
     \<lparr>cs_resources = sort_key res_key (dvalues (consolidate rs)), cs_timeout = tmo,
      cs_session = sid, cs_acquired = []\<rparr>"

fun enter_loop ::
  "('s \<Rightarrow> resource \<Rightarrow> string option \<Rightarrow> 's \<times> (exn + string)) \<Rightarrow> 's \<Rightarrow> resource list \<Rightarrow> critical_section \<Rightarrow>
     's \<times> critical_section \<times> exn option" where
  "enter_loop acquire s [] sec = (s, sec, None)"
| "enter_loop acquire s (r # rs) sec =
     (case acquire s r (cs_session sec) of
        (s, Inl e) \<Rightarrow> (s, sec, Some e)
      | (s, Inr t) \<Rightarrow> enter_loop acquire s rs (sec\<lparr>cs_acquired := cs_acquired sec @ [(r, t)]\<rparr>))"

fun rollback_loop ::
  "('s \<Rightarrow> resource \<Rightarrow> string \<Rightarrow> 's \<times> exn option) \<Rightarrow> 's \<Rightarrow> (resource \<times> string) list \<Rightarrow> exn list \<Rightarrow> 's \<times> exn list" where
  "rollback_loop release s [] errors = (s, errors)"
| "rollback_loop release s ((r, t) # xs) errors =
     (case release s r t of
        (s, None) \<Rightarrow> rollback_loop release s xs errors
      | (s, Some e) \<Rightarrow> rollback_loop release s xs (errors @ [e]))"

definition cs_rollback ::
  "('s \<Rightarrow> resource \<Rightarrow> string \<Rightarrow> 's \<times> exn option) \<Rightarrow> 's \<Rightarrow> critical_section \<Rightarrow> 's \<times> critical_section \<times> exn list" where
  "cs_rollback release s sec =
     (case rollback_loop release s (rev (cs_acquired sec)) [] of
        (s, errors) \<Rightarrow> (s, sec\<lparr>cs_acquired := []\<rparr>, errors))"

text \<open>The wrapping of a foreign exception, computed after the rollback as the code does.\<close>

definition wrap_error :: "(exn \<Rightarrow> string) \<Rightarrow> critical_section \<Rightarrow> exn \<Rightarrow> exn" where
  "wrap_error str sec e =
     LockAcquisitionError
       (resource_str (if length (cs_acquired sec) < length (cs_resources sec)
                      then cs_resources sec ! length (cs_acquired sec) else last (cs_resources sec)))
       (''Rolled back '' @ show_nat (length (cs_acquired sec)) @ '' locks. '' @ str e)"

definition cs_enter ::
  "('s \<Rightarrow> resource \<Rightarrow> string option \<Rightarrow> 's \<times> (exn + string)) \<Rightarrow> ('s \<Rightarrow> resource \<Rightarrow> string \<Rightarrow> 's \<times> exn option) \<Rightarrow>
     (exn \<Rightarrow> string) \<Rightarrow> 's \<Rightarrow> critical_section \<Rightarrow> 's \<times> critical_section \<times> exn option" where
  "cs_enter acquire release str s sec =
     (case enter_loop acquire s (cs_resources sec) sec of
        (s, sec, None) \<Rightarrow> (s, sec, None)
      | (s, sec, Some e) \<Rightarrow>
          (case cs_rollback release s sec of
             (s, sec, _) \<Rightarrow>
               (s, sec, Some (case e of LockAcquisitionError r m \<Rightarrow> e | _ \<Rightarrow> wrap_error str sec e))))"

definition cs_exit ::
  "('s \<Rightarrow> resource \<Rightarrow> string \<Rightarrow> 's \<times> exn option) \<Rightarrow> 's \<Rightarrow> critical_section \<Rightarrow> 's \<times> critical_section" where
  "cs_exit release s sec = (case cs_rollback release s sec of (s, sec, _) \<Rightarrow> (s, sec))"

section \<open>ConcurrencyGuardMiddleware\<close>

text \<open>
  \<open>gm_resources\<close> is \<^verbatim>\<open>None\<close> for a message without \<^verbatim>\<open>get_critical_resources\<close>.  The handler works on the
  lock state and on the rest of the world.
\<close>

record guarded_message =
  gm_resources :: "resource list option"
  gm_correlation_id :: "string option"
  gm_metadata :: "(string, string) dict"

definition guard_session :: "guarded_message \<Rightarrow> string option" where
  "guard_session msg =
     (case gm_correlation_id msg of
        None \<Rightarrow> map_of (gm_metadata msg) ''correlation_id''
      | Some c \<Rightarrow> Some c)"

definition guard_call ::
  "('s \<Rightarrow> resource \<Rightarrow> string option \<Rightarrow> 's \<times> (exn + string)) \<Rightarrow> ('s \<Rightarrow> resource \<Rightarrow> string \<Rightarrow> 's \<times> exn option) \<Rightarrow>
     (exn \<Rightarrow> string) \<Rightarrow> string \<Rightarrow> bool \<Rightarrow> guarded_message \<Rightarrow> ('s \<times> 'w \<Rightarrow> ('s \<times> 'w) \<times> (exn + 'a)) \<Rightarrow>
     's \<times> 'w \<Rightarrow> ('s \<times> 'w) \<times> (exn + 'a)" where
  "guard_call acquire release str tmo fail_open msg nxt st =
     (case gm_resources msg of
        None \<Rightarrow> nxt st
      | Some rs \<Rightarrow>
          if rs = [] then nxt st
          else case cs_enter acquire release str (fst st) (new_section rs tmo (guard_session msg)) of
            (s, sec, Some e) \<Rightarrow>
              if is_concurrency_error e \<and> fail_open then nxt (s, snd st) else ((s, snd st), Inl e)
          | (s, sec, None) \<Rightarrow>
              (case nxt (s, snd st) of
                 ((s, w), res) \<Rightarrow>
                   let st' = (fst (cs_exit release s sec), w)
                   in case res of
                        Inl e \<Rightarrow> if is_concurrency_error e \<and> fail_open then nxt st' else (st', Inl e)
                      | Inr a \<Rightarrow> (st', Inr a)))"

section \<open>Which locks a section takes\<close>

lemma consolidate_fold:
  assumes "repo_ok res_key d"
  shows "repo_ok res_key (fold consolidate_step rs d) \<and>
         set (dkeys (fold consolidate_step rs d)) = set (dkeys d) \<union> res_key ` set rs"
  using assms
proof (induction rs arbitrary: d)
  case (Cons r rs)
  have "repo_ok res_key (consolidate_step r d)"
    "set (dkeys (consolidate_step r d)) = insert (res_key r) (set (dkeys d))"
    using Cons.prems repo_ok_update [of res_key d r]
    by (cases "res_key r \<in> fst ` set d"; simp add: consolidate_step_def insert_absorb)+
  from Cons.IH [OF this(1)] this(2) show ?case by simp
qed simp

abbreviation is_write :: "resource \<Rightarrow> bool" where
  "is_write r \<equiv> res_mode r = WriteMode"

abbreviation write_in :: "(key, resource) dict \<Rightarrow> key \<Rightarrow> bool" where
  "write_in d k \<equiv> case map_of d k of None \<Rightarrow> False | Some r \<Rightarrow> is_write r"

lemma consolidate_mode:
  "write_in (fold consolidate_step rs d) k \<longleftrightarrow> write_in d k \<or> (\<exists>r\<in>set rs. res_key r = k \<and> is_write r)"
proof (induction rs arbitrary: d)
  case (Cons r rs)
  have "write_in (consolidate_step r d) k \<longleftrightarrow> write_in d k \<or> (res_key r = k \<and> is_write r)"
    by (auto simp: consolidate_step_def split: option.splits) (metis image_eqI fst_conv map_of_SomeD)+
  then show ?case using Cons.IH by auto
qed simp

abbreviation section_resources :: "resource list \<Rightarrow> resource list" where
  "section_resources rs \<equiv> sort_key res_key (dvalues (consolidate rs))"

lemma dvalues_keys: "repo_ok ident d \<Longrightarrow> map ident (dvalues d) = dkeys d"
  by (induction d) (auto simp: repo_ok_def)

lemma section_resources_keys:
  "distinct (map res_key (section_resources rs))" "sorted (map res_key (section_resources rs))"
  "res_key ` set (section_resources rs) = res_key ` set rs"
proof -
  have c: "repo_ok res_key (consolidate rs)" "set (dkeys (consolidate rs)) = res_key ` set rs"
    using consolidate_fold [of "[]" rs] by (simp_all add: consolidate_def repo_ok_def)
  have k: "map res_key (dvalues (consolidate rs)) = dkeys (consolidate rs)" by (rule dvalues_keys [OF c(1)])
  have "distinct (map res_key (dvalues (consolidate rs)))" using c(1) unfolding k repo_ok_def by blast
  then show "distinct (map res_key (section_resources rs))" by (simp only: distinct_map distinct_sort set_sort)
  show "sorted (map res_key (section_resources rs))" by simp
  have "set (map res_key (dvalues (consolidate rs))) = res_key ` set rs" using c(2) k by simp
  then show "res_key ` set (section_resources rs) = res_key ` set rs" by (simp add: image_image)
qed

text \<open>
  what a section locks.  Every requested resource once, in strictly increasing order of
  type and id, and in write mode exactly if one of the requests for it was in write mode.
\<close>

theorem section_locks_each_once:
  "sorted_wrt (<) (map res_key (cs_resources (new_section rs tmo sid))) \<and>
   res_key ` set (cs_resources (new_section rs tmo sid)) = res_key ` set rs \<and>
   map res_mode (cs_resources (new_section rs tmo sid)) =
     map (\<lambda>r. if list_ex (\<lambda>q. res_key q = res_key r \<and> is_write q) rs then WriteMode else ReadMode)
       (cs_resources (new_section rs tmo sid))"
proof -
  have c: "repo_ok res_key (consolidate rs)"
    using consolidate_fold [of "[]" rs] by (simp add: consolidate_def repo_ok_def)
  have "res_mode r = (if list_ex (\<lambda>q. res_key q = res_key r \<and> is_write q) rs then WriteMode else ReadMode)"
    if "r \<in> set (section_resources rs)" for r
  proof -
    have "r \<in> set (dvalues (consolidate rs))" using that by (simp only: set_sort)
    then obtain k where k: "map_of (consolidate rs) k = Some r"
      using c dvalues_map_of unfolding repo_ok_def by metis
    then have "res_key r = k" using repo_ok_get [OF c] by blast
    with k consolidate_mode [of rs "[]" k] show ?thesis
      by (cases "res_mode r") (simp_all add: consolidate_def list_ex_iff)
  qed
  then show ?thesis using section_resources_keys [of rs]
    by (simp add: new_section_def strict_sorted_iff del: set_sort)
qed

section \<open>All or nothing\<close>

lemma rollback_append:
  "rollback_loop release s (xs @ ys) errs =
     (case rollback_loop release s xs errs of (s', errs') \<Rightarrow> rollback_loop release s' ys errs')"
  by (induction release s xs errs rule: rollback_loop.induct) (auto split: prod.splits option.splits)

context lock_strategy
begin

text \<open>Whatever the loop has acquired, releasing it in reverse order restores the locks.\<close>

definition undoes :: "'s \<Rightarrow> 's \<Rightarrow> (resource \<times> string) list \<Rightarrow> bool" where
  "undoes s' s acq \<longleftrightarrow>
     (\<forall>u errs. ok u \<and> held u = held s' \<longrightarrow>
        (\<exists>u'. rollback_loop release u (rev acq) errs = (u', errs) \<and> ok u' \<and> held u' = held s))"

lemma undoes_Cons:
  assumes "ok s" "acquire s r sid = (s1, Inr t)" "undoes s' s1 acq"
  shows "undoes s' s ((r, t) # acq)"
  unfolding undoes_def
proof (intro allI impI)
  fix u errs
  assume "ok u \<and> held u = held s'"
  then obtain u1 where u1: "rollback_loop release u (rev acq) errs = (u1, errs)" "ok u1" "held u1 = held s1"
    using assms(3) unfolding undoes_def by blast
  obtain u' x where rel: "release u1 r t = (u', x)" by (cases "release u1 r t")
  have "x = None" "held u' = held s" "ok u'"
    using acquire_release [OF assms(1,2) u1(3,2)] ok_release [OF u1(2), of r t] rel by simp_all
  then show "\<exists>u'. rollback_loop release u (rev ((r, t) # acq)) errs = (u', errs) \<and> ok u' \<and> held u' = held s"
    by (simp add: rollback_append u1(1) rel)
qed

lemma acquire_frame:
  assumes "ok s" "acquire s r sid = (s', Inr t)" "k \<noteq> res_key r"
  shows "held s' k = held s k"
  using acquire_granted [OF assms(1,2)] assms(3) by auto

lemma enter_loop_spec:
  assumes "ok s" "enter_loop acquire s rs sec = (s', sec', x)"
  shows "ok s' \<and> (\<exists>new. sec' = sec\<lparr>cs_acquired := cs_acquired sec @ new\<rparr> \<and> undoes s' s new \<and>
           (\<forall>k. k \<notin> res_key ` set rs \<longrightarrow> held s' k = held s k) \<and>
           (x = None \<and> distinct (map res_key rs) \<longrightarrow>
              (\<forall>r\<in>set rs. \<exists>t n. held s' (res_key r) = Some (t, cs_session sec, n) \<and> (r, t) \<in> set new)))"
  using assms
proof (induction rs arbitrary: s sec)
  case Nil
  then have "undoes s' s []" by (auto simp: undoes_def)
  with Nil show ?case by (auto intro!: exI [of _ "[]"])
next
  case (Cons r rs)
  obtain s1 y where acq: "acquire s r (cs_session sec) = (s1, y)" by (cases "acquire s r (cs_session sec)")
  have ok1: "ok s1" using ok_acquire [OF Cons.prems(1), of r "cs_session sec"] acq by simp
  show ?case
  proof (cases y)
    case (Inl e)
    then have "held s1 = held s" using acquire_refused [OF Cons.prems(1)] acq by simp
    with Inl acq Cons.prems(2) ok1 show ?thesis
      by (auto simp: undoes_def intro!: exI [of _ "[]"])
  next
    case (Inr t)
    let ?sec = "sec\<lparr>cs_acquired := cs_acquired sec @ [(r, t)]\<rparr>"
    note acq = acq [unfolded Inr]
    from Cons.prems(2) acq have "enter_loop acquire s1 rs ?sec = (s', sec', x)" by simp
    from Cons.IH [OF ok1 this] obtain new where new:
        "ok s'" "sec' = ?sec\<lparr>cs_acquired := cs_acquired ?sec @ new\<rparr>" "undoes s' s1 new"
        "\<And>k. k \<notin> res_key ` set rs \<Longrightarrow> held s' k = held s1 k"
        "x = None \<Longrightarrow> distinct (map res_key rs) \<Longrightarrow>
           \<forall>q\<in>set rs. \<exists>t n. held s' (res_key q) = Some (t, cs_session sec, n) \<and> (q, t) \<in> set new"
      by auto
    obtain n where n: "held s1 (res_key r) = Some (t, cs_session sec, n)"
      using acquire_held [OF Cons.prems(1) acq] by blast
    have "undoes s' s ((r, t) # new)" by (rule undoes_Cons [OF Cons.prems(1) acq new(3)])
    moreover have "held s' k = held s k" if "k \<notin> res_key ` set (r # rs)" for k
      using that new(4) [of k] acquire_frame [OF Cons.prems(1) acq, of k] by auto
    moreover have "\<forall>q\<in>set (r # rs). \<exists>t' n. held s' (res_key q) = Some (t', cs_session sec, n) \<and>
                     (q, t') \<in> set ((r, t) # new)"
      if "x = None" "distinct (map res_key (r # rs))"
      using that new(4) [of "res_key r"] new(5) n by auto
    ultimately show ?thesis using new(1,2) by (auto intro!: exI [of _ "(r, t) # new"])
  qed
qed

lemma cs_enter_spec:
  assumes "ok s" "cs_acquired sec = []" "distinct (map res_key (cs_resources sec))"
    and "cs_enter acquire release str s sec = (s', sec', x)"
  shows "ok s' \<and> cs_resources sec' = cs_resources sec \<and>
         (case x of
            Some e \<Rightarrow> held s' = held s \<and> (\<exists>q m. e = LockAcquisitionError q m) \<and> cs_acquired sec' = []
          | None \<Rightarrow> undoes s' s (cs_acquired sec') \<and>
              (\<forall>k. k \<notin> res_key ` set (cs_resources sec) \<longrightarrow> held s' k = held s k) \<and>
              (\<forall>r\<in>set (cs_resources sec). \<exists>t n. held s' (res_key r) = Some (t, cs_session sec, n)))"
proof -
  obtain s1 sec1 y where l: "enter_loop acquire s (cs_resources sec) sec = (s1, sec1, y)"
    using prod_cases3 by blast
  from enter_loop_spec [OF assms(1) l] assms(2) have e: "ok s1" "undoes s1 s (cs_acquired sec1)"
      "cs_resources sec1 = cs_resources sec" by auto
  show ?thesis
  proof (cases y)
    case None
    then show ?thesis using enter_loop_spec [OF assms(1) l] assms(2-4) l
      by (auto simp: cs_enter_def)
  next
    case (Some ex)
    from e(1,2) obtain u where u: "rollback_loop release s1 (rev (cs_acquired sec1)) [] = (u, [])"
        "ok u" "held u = held s" unfolding undoes_def by blast
    then show ?thesis using Some l assms(4) e(3)
      by (cases ex) (auto simp: cs_enter_def cs_rollback_def wrap_error_def)
  qed
qed

lemma cs_exit_undoes:
  assumes "undoes s' s (cs_acquired sec)" "ok u" "held u = held s'"
  shows "ok (fst (cs_exit release u sec)) \<and> held (fst (cs_exit release u sec)) = held s"
proof -
  obtain u' where "rollback_loop release u (rev (cs_acquired sec)) [] = (u', [])" "ok u'" "held u' = held s"
    using assms unfolding undoes_def by blast
  then show ?thesis by (simp add: cs_exit_def cs_rollback_def)
qed

end



section \<open>No deadlock between sections\<close>

text \<open>
  A section in progress is the list of resources it takes with the number it holds already; it waits
  for the next one.  Section \<open>p\<close> waits for section \<open>q\<close> if \<open>q\<close> holds what \<open>p\<close> asks for next.
\<close>

type_synonym progress = "resource list \<times> nat"

definition wants :: "progress \<Rightarrow> key option" where
  "wants p = (if snd p < length (fst p) then Some (res_key (fst p ! snd p)) else None)"

definition holds :: "progress \<Rightarrow> key list" where
  "holds p = map res_key (take (snd p) (fst p))"

definition waits_for :: "progress \<Rightarrow> progress \<Rightarrow> bool" where
  "waits_for p q = (case wants p of None \<Rightarrow> False | Some k \<Rightarrow> k \<in> set (holds q))"

definition of_section :: "progress \<Rightarrow> bool" where
  "of_section p = (\<exists>rs tmo sid. fst p = cs_resources (new_section rs tmo sid))"

lemma holds_less_wants:
  assumes "of_section p" "wants p = Some k" "h \<in> set (holds p)"
  shows "h < k"
proof -
  obtain rs where rs: "fst p = section_resources rs" using assms(1) by (auto simp: of_section_def new_section_def)
  have "sorted_wrt (<) (map res_key (fst p))"
    using section_resources_keys(1,2) [of rs] by (simp only: rs strict_sorted_iff)
  moreover from assms(3) obtain i where "i < snd p" "i < length (fst p)" "h = res_key (fst p ! i)"
    by (auto simp: holds_def in_set_conv_nth)
  ultimately show ?thesis using assms(2)
    by (auto simp: wants_def sorted_wrt_iff_nth_less split: if_splits)
qed

lemma waits_for_less:
  assumes "waits_for p q" "of_section q" "wants q = Some k'" "wants p = Some k"
  shows "k < k'"
  using assms holds_less_wants by (auto simp: waits_for_def)

text \<open>
  sections do not deadlock.  However far any number of sections have got, waiting for one
  another never closes a cycle: along a chain of waiting sections the awaited resource strictly
  increases.
\<close>

theorem sections_never_deadlock:
  "\<not> (\<lambda>p q. of_section p \<and> of_section q \<and> waits_for p q)\<^sup>+\<^sup>+ p p"
proof
  assume c: "(\<lambda>p q. of_section p \<and> of_section q \<and> waits_for p q)\<^sup>+\<^sup>+ p p"
  have chain: "wants q = Some k' \<longrightarrow> (\<forall>k. wants p = Some k \<longrightarrow> k < k')"
    if "(\<lambda>p q. of_section p \<and> of_section q \<and> waits_for p q)\<^sup>+\<^sup>+ p q" for p q k'
    using that
  proof (induction arbitrary: k' rule: tranclp_induct)
    case (base q)
    then show ?case using waits_for_less by blast
  next
    case (step q z)
    then obtain kq where "wants q = Some kq" by (auto simp: waits_for_def split: option.splits)
    then show ?case using step waits_for_less by (meson less_trans)
  qed
  from tranclpD [OF c] obtain q where "waits_for p q" by blast
  then obtain k where "wants p = Some k" by (auto simp: waits_for_def split: option.splits)
  then show False using chain [OF c] by blast
qed

section \<open>The middleware\<close>

context lock_strategy
begin

definition keeps_locks :: "('s \<times> 'w \<Rightarrow> ('s \<times> 'w) \<times> (exn + 'a)) \<Rightarrow> bool" where
  "keeps_locks nxt \<longleftrightarrow>
     (\<forall>s w. ok s \<longrightarrow> ok (fst (fst (nxt (s, w)))) \<and> held (fst (fst (nxt (s, w)))) = held s)"

lemma guard_call_spec:
  assumes "ok s" "keeps_locks nxt" "gm_resources msg = Some rs" "rs \<noteq> []"
    and "guard_call acquire release str tmo fail_open msg nxt (s, w) = (st', res)"
  shows "held (fst st') = held s \<and> ok (fst st') \<and>
    ((\<exists>q m s1. res = Inl (LockAcquisitionError q m) \<and> st' = (s1, w) \<and> \<not> fail_open) \<or>
     (\<exists>s1. fail_open \<and> ok s1 \<and> nxt (s1, w) = (st', res)) \<or>
     (\<exists>s1 sx w1 r1. ok s1 \<and> (\<forall>r\<in>set rs. \<exists>t n. held s1 (res_key r) = Some (t, guard_session msg, n)) \<and>
        nxt (s1, w) = ((sx, w1), r1) \<and>
        (if fail_open \<and> (\<exists>e. r1 = Inl e \<and> is_concurrency_error e)
         then (\<exists>s2. nxt (s2, w1) = (st', res)) else res = r1 \<and> snd st' = w1)))"
proof -
  let ?sec = "new_section rs tmo (guard_session msg)"
  have d: "cs_acquired ?sec = []" "distinct (map res_key (cs_resources ?sec))"
      "res_key ` set (cs_resources ?sec) = res_key ` set rs" "cs_session ?sec = guard_session msg"
    using section_resources_keys [of rs] by (simp_all add: new_section_def del: set_sort)
  obtain s1 sec x where en: "cs_enter acquire release str s ?sec = (s1, sec, x)" using prod_cases3 by blast
  note spec = cs_enter_spec [OF assms(1) d(1,2) en]
  have keep: "ok u \<Longrightarrow> ok (fst (fst (nxt (u, v)))) \<and> held (fst (fst (nxt (u, v)))) = held u" for u v
    using assms(2) unfolding keeps_locks_def by blast
  show ?thesis
  proof (cases x)
    case (Some e)
    then obtain q m where e: "e = LockAcquisitionError q m" "held s1 = held s" "ok s1" using spec by auto
    then show ?thesis using assms(3-5) en Some keep [OF e(3), of w]
      by (auto simp: guard_call_def split: if_splits)
  next
    case None
    obtain sx w1 r1 where n: "nxt (s1, w) = ((sx, w1), r1)" by (metis prod.exhaust)
    have s1: "ok s1" "undoes s1 s (cs_acquired sec)" using spec None by auto
    have sx: "ok sx" "held sx = held s1" using keep [OF s1(1), of w] n by auto
    note ex = cs_exit_undoes [OF s1(2) sx]
    have all: "\<forall>r\<in>set rs. \<exists>t n. held s1 (res_key r) = Some (t, guard_session msg, n)"
    proof
      fix r assume "r \<in> set rs"
      then have "res_key r \<in> res_key ` set (cs_resources ?sec)" unfolding d(3) by simp
      then obtain q where "res_key r = res_key q" "q \<in> set (cs_resources ?sec)" by (rule imageE)
      then show "\<exists>t n. held s1 (res_key r) = Some (t, guard_session msg, n)" using spec None d(4) by auto
    qed
    let ?s2 = "fst (cs_exit release sx sec)"
    let ?again = "fail_open \<and> (\<exists>e. r1 = Inl e \<and> is_concurrency_error e)"
    have run: "(if ?again then nxt (?s2, w1) else ((?s2, w1), r1)) = (st', res)"
      using assms(3-5) en None n by (auto simp: guard_call_def Let_def split: sum.splits if_splits)
    then have "held (fst st') = held s \<and> ok (fst st')"
      using ex keep [of ?s2 w1] by (auto split: if_splits)
    moreover have "if ?again then (\<exists>s2. nxt (s2, w1) = (st', res)) else res = r1 \<and> snd st' = w1"
      using run by (auto split: if_splits)
    ultimately show ?thesis using s1(1) all n by blast
  qed
qed

end

text \<open>
  the guard.  For a handler that itself keeps the locks, the guard leaves every lock as it
  found it, whatever the handler returns or raises; unless it is told to fail open, either the handler
  ran exactly once, with every declared resource held by the message's session, and its result is the
  guard's, or it did not run at all and the guard raised a \<^verbatim>\<open>LockAcquisitionError\<close>.
\<close>

theorem guard_runs_under_locks:
  assumes "lm_ok (fst s)" "gm_resources msg = Some rs" "rs \<noteq> []"
    and "\<forall>u w. lm_ok (fst u) \<longrightarrow>
           lm_ok (fst (fst (fst (nxt (u, w))))) \<and> mem_held (fst (fst (fst (nxt (u, w))))) = mem_held (fst u)"
    and "guard_call (mem_acquire uuid tmo) mem_release str tmo fail_open msg nxt (s, w) = (st', res)"
  shows "mem_held (fst (fst st')) = mem_held (fst s) \<and>
    (\<not> fail_open \<longrightarrow>
       (\<exists>q m. res = Inl (LockAcquisitionError q m) \<and> snd st' = w) \<or>
       (\<exists>s1 s2. (\<forall>r\<in>set rs. \<exists>t n. mem_held (fst s1) (res_key r) = Some (t, guard_session msg, n)) \<and>
                nxt (s1, w) = ((s2, snd st'), res)))"
proof -
  have k: "mem_locks.keeps_locks nxt" using assms(4) by (auto simp: mem_locks.keeps_locks_def)
  note spec = mem_locks.guard_call_spec [OF assms(1) k assms(2,3,5)]
  show ?thesis
  proof (intro conjI impI)
    show "mem_held (fst (fst st')) = mem_held (fst s)" using spec by blast
    assume nf: "\<not> fail_open"
    from spec nf consider q m s1 where "res = Inl (LockAcquisitionError q m)" "st' = (s1, w)"
      | s1 sx w1 r1 where "\<forall>r\<in>set rs. \<exists>t n. mem_held (fst s1) (res_key r) = Some (t, guard_session msg, n)"
          "nxt (s1, w) = ((sx, w1), r1)" "res = r1" "snd st' = w1"
      by (elim conjE disjE exE) simp_all
    then show "(\<exists>q m. res = Inl (LockAcquisitionError q m) \<and> snd st' = w) \<or>
       (\<exists>s1 s2. (\<forall>r\<in>set rs. \<exists>t n. mem_held (fst s1) (res_key r) = Some (t, guard_session msg, n)) \<and>
                nxt (s1, w) = ((s2, snd st'), res))"
    proof cases
      case 1
      then show ?thesis by simp
    next
      case 2
      then show ?thesis by blast
    qed
  qed
qed

theorem guard_runs_under_locks_witness:
  "mem_held (fst (fst (fst (guard_call (mem_acquire show_nat ''1'') mem_release (\<lambda>_. []) ''1'' False
       \<lparr>gm_resources = Some [write_res ''A'' ''1''], gm_correlation_id = Some ''x'', gm_metadata = []\<rparr>
       (\<lambda>(s, n). ((s, Suc n), Inr ())) ((no_locks, 0), 0))))) = mem_held no_locks"
proof -
  let ?msg = "\<lparr>gm_resources = Some [write_res ''A'' ''1''], gm_correlation_id = Some ''x'', gm_metadata = []\<rparr>"
  let ?n = "\<lambda>(s :: mem_locks, n :: nat). ((s, Suc n), Inr () :: exn + unit)"
  obtain st' res where e: "guard_call (mem_acquire show_nat ''1'') mem_release (\<lambda>_. []) ''1'' False ?msg ?n
      ((no_locks, 0), 0) = (st', res)" by fastforce
  show ?thesis using guard_runs_under_locks [OF _ _ _ _ e] lm_ok_no_locks by (simp add: e)
qed

end
