(* ===== verification/Outbox.thy ===== *)
theory Outbox
  imports CriticalSection
begin

text \<open>
  The transactional outbox: \<^verbatim>\<open>OutboxMessage\<close> (ports/outbox.py), \<^verbatim>\<open>InMemoryOutboxStorage\<close>
  (adapters/memory/outbox.py), \<^verbatim>\<open>OutboxService\<close> (cqrs/outbox/service.py) and the publishing side and
  loop body of \<^verbatim>\<open>BufferedOutbox\<close> (cqrs/outbox/buffered.py).

  The broker is a parameter: \<open>publish\<close> takes the broker's state, the topic, the payload and the
  correlation id, and returns the new state and the exception it raises, if any.  The lock strategy
  is a parameter too; the properties are about the in-memory strategy, through the locale
  \<open>lock_strategy\<close>.
\<close>

section \<open>Storage\<close>

record outbox_message =
  om_id :: string
  om_event_type :: string
  om_payload :: payload
  om_metadata :: payload
  om_created_at :: time
  om_published_at :: "time option"
  om_error :: "string option"
  om_retry_count :: int
  om_correlation_id :: "string option"
  om_causation_id :: "string option"
  om_tenant_id :: "string option"

type_synonym outbox = "outbox_message list"

definition save_messages :: "outbox \<Rightarrow> outbox_message list \<Rightarrow> outbox" where
  "save_messages ob ms = ob @ ms"

definition get_pending :: "outbox \<Rightarrow> int \<Rightarrow> outbox_message spec_opt \<Rightarrow> outbox_message list" where
  "get_pending ob limit spec =
     (let pending = filter (\<lambda>m. om_published_at m = None) ob;
          pending = (case spec of None \<Rightarrow> pending | Some p \<Rightarrow> filter p pending)
      in py_take limit (sort_key om_created_at pending))"

definition mark_published :: "time \<Rightarrow> string list \<Rightarrow> outbox \<Rightarrow> outbox" where
  "mark_published now ids ob =
     map (\<lambda>m. if om_id m \<in> set ids then m\<lparr>om_published_at := Some now\<rparr> else m) ob"

fun mark_failed :: "string \<Rightarrow> string \<Rightarrow> outbox \<Rightarrow> outbox" where
  "mark_failed i err [] = []"
| "mark_failed i err (m # ob) =
     (if om_id m = i then m\<lparr>om_error := Some err, om_retry_count := om_retry_count m + 1\<rparr> # ob
      else m # mark_failed i err ob)"

section \<open>OutboxService\<close>

type_synonym ('s, 'p) outbox_world = "'s \<times> outbox \<times> 'p"
type_synonym 'p publisher = "'p \<Rightarrow> string \<Rightarrow> payload \<Rightarrow> json option \<Rightarrow> 'p \<times> exn option"

definition message_resource :: "outbox_message \<Rightarrow> resource" where
  "message_resource m = \<lparr>res_type = ''OutboxMessage'', res_id = om_id m, res_mode = WriteMode\<rparr>"

text \<open>\<^verbatim>\<open>msg.metadata.get("correlation_id") or msg.correlation_id or None\<close>\<close>

definition message_correlation :: "outbox_message \<Rightarrow> json option" where
  "message_correlation m =
     (case map_of (om_metadata m) ''correlation_id'' of
        Some v \<Rightarrow> if json_truthy v then Some v
                  else if truthy (om_correlation_id m) then map_option JStr (om_correlation_id m) else None
      | None \<Rightarrow> if truthy (om_correlation_id m) then map_option JStr (om_correlation_id m) else None)"

type_synonym claim = "outbox_message \<times> resource \<times> string"

fun claim_loop ::
  "('s \<Rightarrow> resource \<Rightarrow> string option \<Rightarrow> 's \<times> (exn + string)) \<Rightarrow> 's \<Rightarrow> outbox_message list \<Rightarrow> claim list \<Rightarrow>
     's \<times> claim list \<times> exn option" where
  "claim_loop acquire s [] acquired = (s, acquired, None)"
| "claim_loop acquire s (m # ms) acquired =
     (case acquire s (message_resource m) None of
        (s, Inr t) \<Rightarrow> claim_loop acquire s ms (acquired @ [(m, message_resource m, t)])
      | (s, Inl e) \<Rightarrow> if is_concurrency_error e then claim_loop acquire s ms acquired
                     else (s, acquired, Some e))"

fun publish_loop ::
  "'p publisher \<Rightarrow> (exn \<Rightarrow> string) \<Rightarrow> outbox \<Rightarrow> 'p \<Rightarrow> outbox_message list \<Rightarrow> string list \<Rightarrow>
     outbox \<times> 'p \<times> string list" where
  "publish_loop publish str ob p [] ids = (ob, p, ids)"
| "publish_loop publish str ob p (m # ms) ids =
     (case publish p (om_event_type m) (om_payload m) (message_correlation m) of
        (p, None) \<Rightarrow> publish_loop publish str ob p ms (ids @ [om_id m])
      | (p, Some e) \<Rightarrow> publish_loop publish str (mark_failed (om_id m) (str e) ob) p ms ids)"

fun release_loop ::
  "('s \<Rightarrow> resource \<Rightarrow> string \<Rightarrow> 's \<times> exn option) \<Rightarrow> 's \<Rightarrow> claim list \<Rightarrow> 's" where
  "release_loop release s [] = s"
| "release_loop release s ((m, r, t) # cs) = release_loop release (fst (release s r t)) cs"

text \<open>Both entry points share the two phases: claim, then publish with the locks held and release.\<close>

definition deliver ::
  "('s \<Rightarrow> resource \<Rightarrow> string option \<Rightarrow> 's \<times> (exn + string)) \<Rightarrow> ('s \<Rightarrow> resource \<Rightarrow> string \<Rightarrow> 's \<times> exn option) \<Rightarrow>
     'p publisher \<Rightarrow> (exn \<Rightarrow> string) \<Rightarrow> time \<Rightarrow> outbox_message list \<Rightarrow> ('s, 'p) outbox_world \<Rightarrow>
     ('s, 'p) outbox_world \<times> (exn + nat)" where
  "deliver acquire release publish str now msgs w =
     (case w of (s, ob, p) \<Rightarrow>
        if msgs = [] then ((s, ob, p), Inr 0)
        else case claim_loop acquire s msgs [] of
          (s, acquired, Some e) \<Rightarrow> ((s, ob, p), Inl e)
        | (s, acquired, None) \<Rightarrow>
            if acquired = [] then ((s, ob, p), Inr 0)
            else (case publish_loop publish str ob p (map fst acquired) [] of
                    (ob, p, ids) \<Rightarrow>
                      ((release_loop release s acquired,
                        (if ids \<noteq> [] then mark_published now ids ob else ob), p),
                       Inr (length ids))))"

definition process_batch ::
  "('s \<Rightarrow> resource \<Rightarrow> string option \<Rightarrow> 's \<times> (exn + string)) \<Rightarrow> ('s \<Rightarrow> resource \<Rightarrow> string \<Rightarrow> 's \<times> exn option) \<Rightarrow>
     'p publisher \<Rightarrow> (exn \<Rightarrow> string) \<Rightarrow> time \<Rightarrow> int \<Rightarrow> ('s, 'p) outbox_world \<Rightarrow>
     ('s, 'p) outbox_world \<times> (exn + nat)" where
  "process_batch acquire release publish str now batch_size w =
     deliver acquire release publish str now (get_pending (fst (snd w)) batch_size None) w"

definition retryable :: "int \<Rightarrow> outbox_message \<Rightarrow> bool" where
  "retryable max_retries m \<longleftrightarrow> om_error m \<noteq> None \<and> om_retry_count m < max_retries"

definition retry_failed ::
  "('s \<Rightarrow> resource \<Rightarrow> string option \<Rightarrow> 's \<times> (exn + string)) \<Rightarrow> ('s \<Rightarrow> resource \<Rightarrow> string \<Rightarrow> 's \<times> exn option) \<Rightarrow>
     'p publisher \<Rightarrow> (exn \<Rightarrow> string) \<Rightarrow> int \<Rightarrow> time \<Rightarrow> int \<Rightarrow> ('s, 'p) outbox_world \<Rightarrow>
     ('s, 'p) outbox_world \<times> (exn + nat)" where
  "retry_failed acquire release publish str max_retries now batch_size w =
     deliver acquire release publish str now
       (filter (retryable max_retries) (get_pending (fst (snd w)) batch_size None)) w"

section \<open>BufferedOutbox\<close>

text \<open>What the caller hands to \<^verbatim>\<open>publish\<close>, with the dictionary that \<^verbatim>\<open>model_dump\<close> or \<^verbatim>\<open>vars\<close> gives.\<close>

datatype outgoing = PlainDict payload | ModelDump payload | ObjectVars payload | RawText string

fun outgoing_payload :: "outgoing \<Rightarrow> payload" where
  "outgoing_payload (PlainDict d) = d"
| "outgoing_payload (ModelDump d) = d"
| "outgoing_payload (ObjectVars d) = d"
| "outgoing_payload (RawText s) = [(''raw'', JStr s)]"

definition json_of_opt :: "string option \<Rightarrow> json" where
  "json_of_opt s = (case s of None \<Rightarrow> JNull | Some t \<Rightarrow> JStr t)"

text \<open>
  \<open>correlation\<close> is \<^verbatim>\<open>None\<close> when the keyword is absent; \<open>kwargs\<close> are the other keyword arguments.  \<open>in_uow\<close>:
  a unit of work with \<^verbatim>\<open>on_commit\<close> is active; the second result says that the trigger was registered.
\<close>

definition buffered_publish ::
  "string \<Rightarrow> time \<Rightarrow> string \<Rightarrow> outgoing \<Rightarrow> string option option \<Rightarrow> string option \<Rightarrow> payload \<Rightarrow> bool \<Rightarrow> outbox \<Rightarrow>
     outbox \<times> bool" where
  "buffered_publish fresh now topic msg correlation causation kwargs in_uow ob =
     (let corr = (case correlation of None \<Rightarrow> Some [] | Some c \<Rightarrow> c);
          md = AList.update ''correlation_id'' (json_of_opt corr) kwargs;
          md = (case causation of None \<Rightarrow> md | Some c \<Rightarrow> AList.update ''causation_id'' (JStr c) md)
      in (save_messages ob
            [\<lparr>om_id = fresh, om_event_type = topic, om_payload = outgoing_payload msg, om_metadata = md,
              om_created_at = now, om_published_at = None, om_error = None, om_retry_count = 0,
              om_correlation_id = corr, om_causation_id = causation, om_tenant_id = None\<rparr>], in_uow))"

text \<open>
  One turn of the background loop, from the moment the wait ended.  \<open>trigger\<close> is the trigger event as
  it stands after the debounce; an exception is logged and the loop goes on.
\<close>

definition loop_turn ::
  "(('s, 'p) outbox_world \<Rightarrow> ('s, 'p) outbox_world \<times> (exn + nat)) \<Rightarrow> int \<Rightarrow> bool \<times> ('s, 'p) outbox_world \<Rightarrow>
     bool \<times> ('s, 'p) outbox_world" where
  "loop_turn process batch_size st =
     (case process (snd st) of
        (w, Inl e) \<Rightarrow> (False, w)
      | (w, Inr n) \<Rightarrow> (batch_size \<le> int n, w))"

section \<open>Claiming and releasing\<close>

lemma message_key [simp]: "res_key (message_resource m) = (''OutboxMessage'', om_id m)"
  by (simp add: res_key_def message_resource_def)

abbreviation message_key_of :: "outbox_message \<Rightarrow> key" where
  "message_key_of m \<equiv> (''OutboxMessage'', om_id m)"

context eager_lock_strategy
begin

abbreviation free_in :: "'s \<Rightarrow> outbox_message \<Rightarrow> bool" where
  "free_in s m \<equiv> held s (message_key_of m) = None"

abbreviation claimed_in :: "'s \<Rightarrow> claim \<Rightarrow> bool" where
  "claimed_in s c \<equiv> fst (snd c) = message_resource (fst c) \<and>
     held s (message_key_of (fst c)) = Some (snd (snd c), None, 1)"

text \<open>The first phase claims exactly the messages nobody holds.\<close>

lemma claim_loop_spec:
  assumes "ok s" "distinct (map om_id ms)" "claim_loop acquire s ms acq0 = (s', acq, x)"
  shows "x = None \<and> ok s' \<and> (\<exists>new. acq = acq0 @ new \<and> map fst new = filter (free_in s) ms \<and>
           (\<forall>c\<in>set new. claimed_in s' c)) \<and>
         (\<forall>k. k \<notin> message_key_of ` set (filter (free_in s) ms) \<longrightarrow> held s' k = held s k)"
  using assms
proof (induction ms arbitrary: s acq0)
  case (Cons m ms)
  from Cons.prems(1) show ?case
  proof (cases rule: acquire_anonymous [where r = "message_resource m"])
    case (granted s1 t)
    from granted have free: "free_in s m" by simp
    have same: "filter (free_in s1) ms = filter (free_in s) ms"
    proof (rule filter_cong)
      fix y assume "y \<in> set ms"
      from distinct_map_Cons_neq [OF Cons.prems(2) this] show "free_in s1 y = free_in s y" using granted(4) by simp
    qed simp
    have run: "claim_loop acquire s1 ms (acq0 @ [(m, message_resource m, t)]) = (s', acq, x)"
      using Cons.prems(3) granted(2) by simp
    from Cons.IH [OF granted(3) _ run] Cons.prems(2) obtain new where new:
        "x = None" "ok s'" "acq = (acq0 @ [(m, message_resource m, t)]) @ new"
        "map fst new = filter (free_in s) ms"
        "\<forall>c\<in>set new. claimed_in s' c"
        "\<And>k. k \<notin> message_key_of ` set (filter (free_in s) ms) \<Longrightarrow> held s' k = held s1 k"
      unfolding same by auto
    have m: "held s' (message_key_of m) = Some (t, None, 1)"
      using new(6) [of "message_key_of m"] granted(4) Cons.prems(2) by auto
    have frame: "held s' k = held s k" if "k \<notin> message_key_of ` set (filter (free_in s) (m # ms))" for k
      using that new(6) [of k] granted(4) free by auto
    show ?thesis using new(1-5) m frame free by (auto intro!: exI [of _ "(m, message_resource m, t) # new"])
  next
    case (refused s1 e)
    then have busy: "\<not> free_in s m" by simp
    have run: "claim_loop acquire s1 ms acq0 = (s', acq, x)" using Cons.prems(3) refused(2,5) by simp
    from Cons.IH [OF refused(3) _ run] Cons.prems(2) busy show ?thesis by (auto simp: refused(4))
  qed
qed simp

lemma release_loop_spec:
  assumes "ok s" "distinct (map (om_id \<circ> fst) acq)"
    and "\<forall>c\<in>set acq. claimed_in s c"
  shows "ok (release_loop release s acq) \<and>
         held (release_loop release s acq) = (\<lambda>k. if k \<in> message_key_of ` fst ` set acq then None else held s k)"
  using assms
proof (induction acq arbitrary: s)
  case (Cons c acq)
  obtain m r t where c: "c = (m, r, t)" by (cases c)
  have r: "r = message_resource m" "held s (message_key_of m) = Some (t, None, 1)" using Cons.prems(3) c by auto
  let ?s = "fst (release s r t)"
  have rel: "held ?s = (held s)(message_key_of m := None)"
    using release_held [OF Cons.prems(1), of r t None 1] r by simp
  have "om_id (fst d) \<noteq> om_id m" if "d \<in> set acq" for d using distinct_map_Cons_neq [OF Cons.prems(2) that] by (simp add: c)
  then have pre: "\<forall>d\<in>set acq. claimed_in ?s d" using Cons.prems(3) unfolding rel by (simp add: c)
  have "distinct (map (om_id \<circ> fst) acq)" using Cons.prems(2) by (simp only: list.map distinct.simps)
  from Cons.IH [OF ok_release [OF Cons.prems(1)] this pre] show ?case
    by (auto simp: c rel fun_eq_iff)
qed simp

end

section \<open>Publishing\<close>

text \<open>What the broker answers to each of a list of messages, in order.\<close>

fun publish_outcomes :: "'p publisher \<Rightarrow> 'p \<Rightarrow> outbox_message list \<Rightarrow> exn option list" where
  "publish_outcomes publish p [] = []"
| "publish_outcomes publish p (m # ms) =
     (case publish p (om_event_type m) (om_payload m) (message_correlation m) of
        (p, r) \<Rightarrow> r # publish_outcomes publish p ms)"

definition broker_after :: "'p publisher \<Rightarrow> 'p \<Rightarrow> outbox_message list \<Rightarrow> 'p" where
  "broker_after publish p ms =
     foldl (\<lambda>p m. fst (publish p (om_event_type m) (om_payload m) (message_correlation m))) p ms"

definition record_failure :: "string \<Rightarrow> outbox_message \<Rightarrow> outbox_message" where
  "record_failure err m = m\<lparr>om_error := Some err, om_retry_count := om_retry_count m + 1\<rparr>"

text \<open>What delivery does to one stored message, given the broker's answers by message id.\<close>

definition settle ::
  "time \<Rightarrow> (exn \<Rightarrow> string) \<Rightarrow> (string, exn option) dict \<Rightarrow> outbox_message \<Rightarrow> outbox_message" where
  "settle now str outs m =
     (case map_of outs (om_id m) of
        None \<Rightarrow> m
      | Some None \<Rightarrow> m\<lparr>om_published_at := Some now\<rparr>
      | Some (Some e) \<Rightarrow> record_failure (str e) m)"

lemma mark_failed_map:
  "distinct (map om_id ob) \<Longrightarrow>
     mark_failed i err ob = map (\<lambda>m. if om_id m = i then record_failure err m else m) ob"
proof (induction ob)
  case (Cons m ob)
  have "om_id y \<noteq> om_id m" if "y \<in> set ob" for y by (rule distinct_map_Cons_neq [OF Cons.prems that])
  then have "map (\<lambda>y. if om_id y = om_id m then record_failure err y else y) ob = ob"
    by (simp add: map_idI)
  with Cons show ?case by (auto simp: record_failure_def)
qed simp

lemma record_failure_id [simp]: "om_id (record_failure err m) = om_id m"
  by (simp add: record_failure_def)

lemma length_outcomes [simp]: "length (publish_outcomes publish p ms) = length ms"
  by (induction publish p ms rule: publish_outcomes.induct) (auto split: prod.splits)

definition fail_only :: "(exn \<Rightarrow> string) \<Rightarrow> (string, exn option) dict \<Rightarrow> outbox_message \<Rightarrow> outbox_message" where
  "fail_only str outs m =
     (case map_of outs (om_id m) of Some (Some e) \<Rightarrow> record_failure (str e) m | _ \<Rightarrow> m)"

lemma fail_only_id [simp]: "om_id (fail_only str outs m) = om_id m"
  by (simp add: fail_only_def split: option.splits)

lemma publish_loop_spec:
  assumes "distinct (map om_id ob)" "distinct (map om_id ms)"
    and "publish_loop publish str ob p ms ids = (ob', p', ids')"
  shows "ob' = map (fail_only str (zip (map om_id ms) (publish_outcomes publish p ms))) ob \<and>
         ids' = ids @ map fst (filter (\<lambda>(i, r). r = None) (zip (map om_id ms) (publish_outcomes publish p ms))) \<and>
         p' = broker_after publish p ms"
  using assms
proof (induction ms arbitrary: ob p ids)
  case Nil
  then show ?case by (simp add: fail_only_def map_idI broker_after_def)
next
  case (Cons m ms)
  obtain p1 r where pub: "publish p (om_event_type m) (om_payload m) (message_correlation m) = (p1, r)"
    by (cases "publish p (om_event_type m) (om_payload m) (message_correlation m)")
  let ?outs = "zip (map om_id ms) (publish_outcomes publish p1 ms)"
  have fresh: "map_of ?outs (om_id m) = None"
    using Cons.prems(2) by (auto simp: map_of_eq_None_iff dest: set_zip_leftD)
  show ?case
  proof (cases r)
    case None
    with Cons.prems(3) pub have "publish_loop publish str ob p1 ms (ids @ [om_id m]) = (ob', p', ids')" by simp
    moreover have "fail_only str ((om_id m, None) # ?outs) = fail_only str ?outs"
      by (rule ext, rename_tac x, case_tac "om_id x = om_id m") (simp_all add: fail_only_def fresh)
    ultimately show ?thesis
      using Cons.IH [OF Cons.prems(1), of p1 "ids @ [om_id m]"] Cons.prems(2) None pub
      by (simp add: broker_after_def)
  next
    case (Some e)
    let ?ob = "mark_failed (om_id m) (str e) ob"
    have ob: "?ob = map (\<lambda>x. if om_id x = om_id m then record_failure (str e) x else x) ob"
      by (rule mark_failed_map [OF Cons.prems(1)])
    have d: "distinct (map om_id ?ob)" using Cons.prems(1) by (simp add: ob comp_def if_distrib cong: if_cong)
    from Cons.prems(3) pub Some have "publish_loop publish str ?ob p1 ms ids = (ob', p', ids')" by simp
    moreover have "fail_only str ?outs (if om_id x = om_id m then record_failure (str e) x else x) =
        fail_only str ((om_id m, Some e) # ?outs) x" for x
      by (cases "om_id x = om_id m") (simp_all add: fail_only_def fresh)
    ultimately show ?thesis
      using Cons.IH [OF d, of p1 ids] Cons.prems(2) Some pub by (simp add: ob broker_after_def)
  qed
qed

lemma mark_published_settles:
  assumes "distinct (dkeys outs)"
  shows "mark_published now (map fst (filter (\<lambda>(i, r). r = None) outs)) (map (fail_only str outs) ob) =
         map (settle now str outs) ob"
proof -
  have iff: "om_id m \<in> set (map fst (filter (\<lambda>(i, r). r = None) outs)) \<longleftrightarrow> map_of outs (om_id m) = Some None" for m
    using assms by (force simp: image_iff)
  have "(if om_id m \<in> set (map fst (filter (\<lambda>(i, r). r = None) outs))
        then (fail_only str outs m)\<lparr>om_published_at := Some now\<rparr> else fail_only str outs m) =
      settle now str outs m" for m
    unfolding iff settle_def fail_only_def by (simp split: option.splits)
  then show ?thesis by (simp add: mark_published_def)
qed

lemma mark_published_nil [simp]: "mark_published now [] ob = ob"
  by (simp add: mark_published_def map_idI)

lemma settle_nil [simp]: "settle now str [] m = m"
  by (simp add: settle_def)

definition successes :: "exn option list \<Rightarrow> nat" where
  "successes outs = length (filter (\<lambda>r. r = None) outs)"

lemma length_published:
  "length xs = length ys \<Longrightarrow> length (filter (\<lambda>(i, r). r = None) (zip xs ys)) = successes ys"
  by (induction xs ys rule: list_induct2) (auto simp: successes_def)

context eager_lock_strategy
begin

lemma deliver_spec:
  assumes "ok s" "distinct (map om_id ob)" "distinct (map om_id msgs)"
    and "deliver acquire release publish str now msgs (s, ob, p) = ((s', ob', p'), res)"
  defines "claimed \<equiv> filter (free_in s) msgs"
  shows "ok s' \<and> held s' = held s \<and>
         ob' = map (settle now str (zip (map om_id claimed) (publish_outcomes publish p claimed))) ob \<and>
         res = Inr (successes (publish_outcomes publish p claimed)) \<and>
         p' = broker_after publish p claimed"
proof -
  have dist: "distinct (map om_id claimed)" using assms(3) by (simp add: claimed_def distinct_map_filter)
  obtain s1 acq x where cl: "claim_loop acquire s msgs [] = (s1, acq, x)" using prod_cases3 by blast
  from claim_loop_spec [OF assms(1,3) cl] have c: "x = None" "ok s1" "map fst acq = claimed"
      "\<forall>c\<in>set acq. claimed_in s1 c" "\<And>k. k \<notin> message_key_of ` set claimed \<Longrightarrow> held s1 k = held s k"
    unfolding claimed_def by auto
  obtain ob1 p1 ids where pl: "publish_loop publish str ob p claimed [] = (ob1, p1, ids)"
    using prod_cases3 by blast
  let ?outs = "zip (map om_id claimed) (publish_outcomes publish p claimed)"
  from publish_loop_spec [OF assms(2) dist pl]
  have pub: "ob1 = map (fail_only str ?outs) ob" "ids = map fst (filter (\<lambda>(i, r). r = None) ?outs)"
      "p1 = broker_after publish p claimed" by simp_all
  have settled: "(if ids \<noteq> [] then mark_published now ids ob1 else ob1) = map (settle now str ?outs) ob"
  proof -
    have "(if ids \<noteq> [] then mark_published now ids ob1 else ob1) = mark_published now ids ob1" by simp
    also have "\<dots> = map (settle now str ?outs) ob"
      unfolding pub(1,2) by (rule mark_published_settles) (simp add: dist)
    finally show ?thesis .
  qed
  have "distinct (map (om_id \<circ> fst) acq)" using dist c(3) by (metis map_map)
  note rel = release_loop_spec [OF c(2) this c(4)]
  have keys: "fst ` set acq = set claimed" using c(3) by (metis set_map)
  have held: "held (release_loop release s1 acq) = held s"
  proof (rule ext)
    fix k
    show "held (release_loop release s1 acq) k = held s k"
      using rel c(5) [of k] by (auto simp: keys claimed_def)
  qed
  show ?thesis
  proof (cases "msgs = [] \<or> acq = []")
    case True
    then have "claimed = []" using c(3) by (auto simp: claimed_def)
    moreover have "held s1 = held s" using c(5) \<open>claimed = []\<close> by (simp add: fun_eq_iff)
    ultimately show ?thesis using True assms(1,4) cl c(1,2)
      by (auto simp: deliver_def successes_def map_idI broker_after_def split: if_splits)
  next
    case False
    then have "res = Inr (length ids)" "s' = release_loop release s1 acq"
        "ob' = (if ids \<noteq> [] then mark_published now ids ob1 else ob1)" "p' = p1"
      using assms(4) cl c(1,3) pl by (auto simp: deliver_def)
    then show ?thesis using rel held settled by (simp add: pub(2,3) length_published)
  qed
qed

end

section \<open>Properties\<close>

lemma distinct_pending: "distinct (map om_id ob) \<Longrightarrow> distinct (map om_id (get_pending ob n spec))"
proof -
  assume d: "distinct (map om_id ob)"
  let ?xs = "case spec of None \<Rightarrow> filter (\<lambda>m. om_published_at m = None) ob
             | Some p \<Rightarrow> filter p (filter (\<lambda>m. om_published_at m = None) ob)"
  have "distinct (map om_id ?xs)" using d by (cases spec) (simp_all add: distinct_map_filter)
  then have "distinct (map om_id (sort_key om_created_at ?xs))"
    by (simp only: distinct_map distinct_sort set_sort)
  moreover obtain k where "get_pending ob n spec = take k (sort_key om_created_at ?xs)"
    using py_take_prefix unfolding get_pending_def Let_def by metis
  ultimately show ?thesis by (simp only: take_map [symmetric] distinct_take)
qed

definition unlocked :: "mem_locks \<Rightarrow> outbox_message \<Rightarrow> bool" where
  "unlocked s m \<longleftrightarrow> mem_held (fst s) (message_key_of m) = None"

lemma unlocked_eq: "unlocked s = (\<lambda>m. mem_held (fst s) (message_key_of m) = None)"
  by (simp add: fun_eq_iff unlocked_def)

text \<open>
  one batch.  Of the pending messages of the batch exactly those nobody else holds are
  handed to the broker; each stored message is marked published if the broker took it, records the
  error and one more retry if the broker raised, and is untouched otherwise; the result is the
  number published, and every lock taken has been given back.
\<close>

theorem process_batch_settles:
  assumes "lm_ok (fst s)" "distinct (map om_id ob)"
    and "process_batch (mem_acquire uuid tmo) mem_release publish str now n (s, ob, p) = ((s', ob', p'), res)"
  shows "let claimed = filter (unlocked s) (get_pending ob n None);
             outs = publish_outcomes publish p claimed
         in res = Inr (successes outs) \<and> ob' = map (settle now str (zip (map om_id claimed) outs)) ob \<and>
            mem_held (fst s') = mem_held (fst s)"
  using mem_eager.deliver_spec [OF assms(1,2) distinct_pending [OF assms(2)], of uuid tmo publish str now n None p s' ob' p' res]
    assms(3)
  by (simp add: process_batch_def unlocked_eq Let_def)

definition sample_message :: "string \<Rightarrow> time \<Rightarrow> outbox_message" where
  "sample_message i c = \<lparr>om_id = i, om_event_type = ''order.created'', om_payload = [], om_metadata = [],
     om_created_at = c, om_published_at = None, om_error = None, om_retry_count = 0,
     om_correlation_id = None, om_causation_id = None, om_tenant_id = None\<rparr>"

text \<open>A broker that keeps a log of what it took and never raises.\<close>

type_synonym envelope = "string \<times> payload \<times> json option"

definition log_publish :: "envelope list publisher" where
  "log_publish p topic pl c = (p @ [(topic, pl, c)], None)"

theorem process_batch_settles_witness:
  "snd (process_batch (mem_acquire show_nat ''1'') mem_release log_publish (\<lambda>_. []) 9 10
          ((no_locks, 0), [sample_message ''a'' 1], [])) = Inr 1"
proof -
  obtain s' ob' p' res where e: "process_batch (mem_acquire show_nat ''1'') mem_release log_publish (\<lambda>_. []) 9 10
      ((no_locks, 0), [sample_message ''a'' 1], []) = ((s', ob', p'), res)" by (metis prod.exhaust)
  have pend: "get_pending [sample_message ''a'' 1] 10 None = [sample_message ''a'' 1]"
    by (simp add: get_pending_def py_take_def sample_message_def)
  show ?thesis
    using process_batch_settles [OF _ _ e] e lm_ok_no_locks
    by (simp add: pend unlocked_def mem_held_def no_locks_def log_publish_def successes_def Let_def)
qed

text \<open>
  retrying.  \<^verbatim>\<open>retry_failed\<close> hands to the broker only messages of the batch that have failed
  before with retries left and that nobody else holds; a message that never failed or that has used up its
  retries is not touched, and the retry count of a message grows by at most one.
\<close>

theorem retry_failed_settles:
  assumes "lm_ok (fst s)" "distinct (map om_id ob)"
    and "retry_failed (mem_acquire uuid tmo) mem_release publish str k now n (s, ob, p) = ((s', ob', p'), res)"
  shows "mem_held (fst s') = mem_held (fst s) \<and> is_ok res \<and> length ob' = length ob \<and>
         (i < length ob \<longrightarrow>
            (\<not> retryable k (ob ! i) \<longrightarrow> ob' ! i = ob ! i) \<and>
            om_retry_count (ob' ! i) \<le> om_retry_count (ob ! i) + 1 \<and>
            (om_retry_count (ob ! i) \<le> k \<longrightarrow> om_retry_count (ob' ! i) \<le> k))"
proof -
  let ?msgs = "filter (retryable k) (get_pending ob n None)"
  let ?claimed = "filter (mem_eager.free_in s) ?msgs"
  let ?outs = "zip (map om_id ?claimed) (publish_outcomes publish p ?claimed)"
  have d: "distinct (map om_id ?msgs)" using distinct_pending [OF assms(2)] by (simp add: distinct_map_filter)
  from mem_eager.deliver_spec [OF assms(1,2) d, of uuid tmo publish str now p s' ob' p' res] assms(3)
  have spec: "mem_held (fst s') = mem_held (fst s)" "is_ok res" "ob' = map (settle now str ?outs) ob"
    by (simp_all add: retry_failed_def)
  have same: "map_of ?outs (om_id m) = None" if "m \<in> set ob" "\<not> retryable k m" for m
  proof -
    have "m' = m" if "m' \<in> set ob" "om_id m' = om_id m" for m'
      using that \<open>m \<in> set ob\<close> assms(2) by (auto simp: distinct_map dest: inj_onD)
    moreover have "set (get_pending ob n None) \<subseteq> set ob"
      using set_py_take_subset by (fastforce simp: get_pending_def)
    ultimately have "om_id m \<notin> om_id ` set ?claimed" using \<open>\<not> retryable k m\<close> by fastforce
    then show ?thesis by (auto simp: map_of_eq_None_iff dest: set_zip_leftD)
  qed
  have "(\<not> retryable k m \<longrightarrow> settle now str ?outs m = m) \<and>
        om_retry_count (settle now str ?outs m) \<le> om_retry_count m + 1 \<and>
        (om_retry_count m \<le> k \<longrightarrow> om_retry_count (settle now str ?outs m) \<le> k)" if "m \<in> set ob" for m
  proof (cases "retryable k m")
    case True
    then show ?thesis by (auto simp: settle_def record_failure_def retryable_def split: option.splits)
  next
    case False
    have "settle now str ?outs m = m" unfolding settle_def same [OF that False] by simp
    then show ?thesis using False by simp
  qed
  then show ?thesis using spec by simp
qed

theorem retry_failed_settles_witness:
  "fst (snd (fst (retry_failed (mem_acquire show_nat ''1'') mem_release log_publish (\<lambda>_. []) 5 9 10
      ((no_locks, 0), [sample_message ''a'' 1], [])))) = [sample_message ''a'' 1]"
proof -
  obtain s' ob' p' res where e: "retry_failed (mem_acquire show_nat ''1'') mem_release log_publish (\<lambda>_. []) 5 9 10
      ((no_locks, 0), [sample_message ''a'' 1], []) = ((s', ob', p'), res)" by (metis prod.exhaust)
  have "length ob' = 1 \<and> ob' ! 0 = sample_message ''a'' 1"
    using retry_failed_settles [OF _ _ e, of 0] lm_ok_no_locks by (simp add: retryable_def sample_message_def)
  then have "ob' = [sample_message ''a'' 1]" by (cases ob') auto
  with e show ?thesis by simp
qed

section \<open>Draining the outbox\<close>

definition pending_all :: "outbox \<Rightarrow> outbox_message list" where
  "pending_all ob = sort_key om_created_at (filter (\<lambda>m. om_published_at m = None) ob)"

definition envelope_of :: "outbox_message \<Rightarrow> envelope" where
  "envelope_of m = (om_event_type m, om_payload m, message_correlation m)"

lemma get_pending_take: "get_pending ob (int n) None = take n (pending_all ob)"
  by (simp add: get_pending_def pending_all_def py_take_def)

lemma distinct_pending_all: "distinct (map om_id ob) \<Longrightarrow> distinct (map om_id (pending_all ob))"
  using distinct_pending [of ob "int (length (pending_all ob))" None] by (simp add: get_pending_take)

lemma filter_not_taken:
  assumes "distinct (map f xs)"
  shows "filter (\<lambda>x. f x \<notin> f ` set (take n xs)) xs = drop n xs"
proof -
  have d: "f ` set (take n xs) \<inter> f ` set (drop n xs) = {}"
    using assms by (metis append_take_drop_id distinct_append list.set_map map_append)
  have "filter (\<lambda>x. f x \<notin> f ` set (take n xs)) (take n xs) = []" by (simp add: filter_empty_conv)
  moreover have "filter (\<lambda>x. f x \<notin> f ` set (take n xs)) (drop n xs) = drop n xs"
    using d by (intro filter_id_conv') auto
  ultimately show ?thesis by (metis append_Nil append_take_drop_id filter_append)
qed

lemma log_publish_all:
  "publish_outcomes log_publish p ms = replicate (length ms) None"
  "broker_after log_publish p ms = p @ map envelope_of ms"
  by (induction ms arbitrary: p) (simp_all add: log_publish_def broker_after_def envelope_of_def)

lemma map_of_zip_const:
  "map_of (zip xs (replicate (length xs) c)) i = (if i \<in> set xs then Some c else None)"
  by (induction xs) auto

lemma settle_all_ok:
  fixes ms :: "outbox_message list"
  shows "settle now str (zip (map om_id ms) (replicate (length ms) None)) =
     (\<lambda>m. if om_id m \<in> om_id ` set ms then m\<lparr>om_published_at := Some now\<rparr> else m)"
proof (rule ext)
  fix m :: outbox_message
  have "map_of (zip (map om_id ms) (replicate (length ms) (None :: exn option))) (om_id m) =
      (if om_id m \<in> om_id ` set ms then Some None else None)"
    using map_of_zip_const [of "map om_id ms" "None :: exn option" "om_id m"]
    by (simp only: length_map set_map)
  then show "settle now str (zip (map om_id ms) (replicate (length ms) None)) m =
      (if om_id m \<in> om_id ` set ms then m\<lparr>om_published_at := Some now\<rparr> else m)"
    unfolding settle_def by (simp only:) simp
qed

lemma pending_after:
  fixes ob :: outbox
  assumes "distinct (map om_id ob)"
  shows "pending_all (map (settle now str (zip (map om_id (take n (pending_all ob)))
           (replicate (length (take n (pending_all ob))) None))) ob) = drop n (pending_all ob)"
proof -
  let ?ids = "om_id ` set (take n (pending_all ob))"
  have "filter (\<lambda>m. om_published_at m = None)
          (map (\<lambda>m. if om_id m \<in> I then m\<lparr>om_published_at := Some now\<rparr> else m) ob) =
        filter (\<lambda>m. om_id m \<notin> I) (filter (\<lambda>m. om_published_at m = None) ob)" for I
    by (induction ob) auto
  then have "pending_all (map (\<lambda>m. if om_id m \<in> ?ids then m\<lparr>om_published_at := Some now\<rparr> else m) ob) =
      filter (\<lambda>m. om_id m \<notin> ?ids) (pending_all ob)"
    by (simp add: pending_all_def filter_sort)
  also have "\<dots> = drop n (pending_all ob)"
    by (rule filter_not_taken [OF distinct_pending_all [OF assms]])
  finally show ?thesis by (simp only: settle_all_ok)
qed

lemma batch_step:
  assumes "lm_ok (fst s)" "\<forall>k. mem_held (fst s) k = None" "distinct (map om_id ob)"
    and "fst (process_batch (mem_acquire uuid tmo) mem_release log_publish str now (int n) (s, ob, p)) = (s', ob', p')"
  shows "lm_ok (fst s') \<and> (\<forall>k. mem_held (fst s') k = None) \<and> map om_id ob' = map om_id ob \<and>
         pending_all ob' = drop n (pending_all ob) \<and> p' = p @ map envelope_of (take n (pending_all ob))"
proof -
  let ?ms = "take n (pending_all ob)"
  obtain res where e: "process_batch (mem_acquire uuid tmo) mem_release log_publish str now (int n) (s, ob, p) =
      ((s', ob', p'), res)" using assms(4) by (metis prod.collapse)
  have free: "filter (mem_eager.free_in s) ?ms = ?ms" using assms(2) by simp
  from mem_eager.deliver_spec [OF assms(1,3) distinct_pending [OF assms(3)], of uuid tmo log_publish str now "int n" None p s' ob' p' res] e
  have d: "lm_ok (fst s')" "mem_held (fst s') = mem_held (fst s)" "p' = p @ map envelope_of ?ms"
      "ob' = map (settle now str (zip (map om_id ?ms) (replicate (length ?ms) None))) ob"
    by (simp_all add: process_batch_def get_pending_take free log_publish_all)
  have "om_id (settle now str outs m) = om_id m" for outs m
    by (simp add: settle_def split: option.splits)
  then have "map om_id ob' = map om_id ob" unfolding d(4) by simp
  then show ?thesis using d(1-3) assms(2) pending_after [OF assms(3), of now str n] by (simp add: d(4))
qed

definition batch_rounds ::
  "(nat \<Rightarrow> string) \<Rightarrow> string \<Rightarrow> (exn \<Rightarrow> string) \<Rightarrow> time \<Rightarrow> nat \<Rightarrow> nat \<Rightarrow>
     (mem_locks, envelope list) outbox_world \<Rightarrow> (mem_locks, envelope list) outbox_world" where
  "batch_rounds uuid tmo str now n k =
     ((\<lambda>w. fst (process_batch (mem_acquire uuid tmo) mem_release log_publish str now (int n) w)) ^^ k)"

lemma batch_rounds_spec:
  assumes "lm_ok (fst s)" "\<forall>k. mem_held (fst s) k = None" "distinct (map om_id ob)"
    and "batch_rounds uuid tmo str now n k (s, ob, p) = (s', ob', p')"
  shows "lm_ok (fst s') \<and> (\<forall>k. mem_held (fst s') k = None) \<and> map om_id ob' = map om_id ob \<and>
         pending_all ob' = drop (k * n) (pending_all ob) \<and> p' = p @ map envelope_of (take (k * n) (pending_all ob))"
  using assms(4)
proof (induction k arbitrary: s' ob' p')
  case 0
  with assms(1,2) show ?case by (simp add: batch_rounds_def)
next
  case (Suc k)
  obtain s1 ob1 p1 where r: "batch_rounds uuid tmo str now n k (s, ob, p) = (s1, ob1, p1)"
    using prod_cases3 by blast
  note ih = Suc.IH [OF r]
  have step: "fst (process_batch (mem_acquire uuid tmo) mem_release log_publish str now (int n) (s1, ob1, p1)) = (s', ob', p')"
    using Suc.prems r by (simp add: batch_rounds_def)
  from ih assms(3) have pre: "lm_ok (fst s1)" "\<forall>k. mem_held (fst s1) k = None" "distinct (map om_id ob1)" by simp_all
  show ?case using batch_step [OF pre step] ih
    by (simp add: take_add [of "k * n" n "pending_all ob", unfolded add.commute [of "k * n" n]])
qed

text \<open>
  C4: the outbox drains.  With a broker that takes every message and no competing worker, repeated
  batches publish every pending message exactly once, in the order of creation, with its topic,
  payload and correlation id, and leave nothing pending, after as many rounds as the batch size
  divides the backlog into.
\<close>

theorem outbox_drains:
  assumes "lm_ok (fst s)" "\<forall>k. mem_held (fst s) k = None" "distinct (map om_id ob)"
    and "length (pending_all ob) \<le> k * n"
    and "batch_rounds uuid tmo str now n k (s, ob, p) = (s', ob', p')"
  shows "pending_all ob' = [] \<and> p' = p @ map envelope_of (pending_all ob) \<and>
         map om_id ob' = map om_id ob"
  using batch_rounds_spec [OF assms(1-3,5)] assms(4) by simp

theorem outbox_drains_witness:
  "snd (snd (batch_rounds show_nat ''1'' (\<lambda>_. []) 9 1 2 ((no_locks, 0),
      [sample_message ''b'' 5, sample_message ''a'' 1], []))) =
   map envelope_of [sample_message ''a'' 1, sample_message ''b'' 5]"
proof -
  let ?ob = "[sample_message ''b'' 5, sample_message ''a'' 1]"
  obtain s' ob' p' where e: "batch_rounds show_nat ''1'' (\<lambda>_. []) 9 1 2 ((no_locks, 0), ?ob, []) = (s', ob', p')"
    using prod_cases3 by blast
  have pend: "pending_all ?ob = [sample_message ''a'' 1, sample_message ''b'' 5]"
    by (simp add: pending_all_def sample_message_def)
  have "p' = map envelope_of [sample_message ''a'' 1, sample_message ''b'' 5]"
    using outbox_drains [OF _ _ _ _ e] lm_ok_no_locks
    by (simp add: pend mem_held_def no_locks_def) (simp add: sample_message_def)
  with e show ?thesis by simp
qed

end
