(* ===== verification/Saga.thy ===== *)
theory Saga
  imports Repository
begin

text \<open>
  Sagas: \<^verbatim>\<open>SagaState\<close> (sagas/state.py), the base class \<^verbatim>\<open>Saga\<close> with its compensation stack and
  Try-Confirm/Cancel steps (sagas/orchestration.py), and \<^verbatim>\<open>MessageRegistry\<close> (cqrs/message_registry.py),
  which rebuilds commands from stored data.

  \<^item> A command is its class name, its module and the dictionary it serialises to.
  \<^item> An event handler is a function on the saga that may raise; \<open>mapped_handler\<close> is the one
    \<^verbatim>\<open>Saga.on\<close> builds from its command factories.  The handlers of a saga are a dictionary from event type
    to handler.
  \<^item> \<^verbatim>\<open>model_validate\<close> of the command classes is the argument \<open>validate\<close>; \<^const>\<open>None\<close> is a \<^verbatim>\<open>TypeError\<close> or
    \<^verbatim>\<open>ValueError\<close>.
  \<^item> \<^verbatim>\<open>_processed_ids_set\<close> always holds the elements of \<^verbatim>\<open>processed_event_ids\<close>, so the model keeps the list.
\<close>

section \<open>Commands and the message registry\<close>

record command =
  cmd_type :: string
  cmd_module :: string
  cmd_data :: payload

type_synonym hydrator = "string \<Rightarrow> payload \<Rightarrow> command option"

record message_registry =
  mr_commands :: "(string, string) dict"
  mr_queries :: "(string, string) dict"

definition register_command :: "message_registry \<Rightarrow> string \<Rightarrow> string \<Rightarrow> message_registry" where
  "register_command mr name cls = mr\<lparr>mr_commands := AList.update name cls (mr_commands mr)\<rparr>"

definition register_query :: "message_registry \<Rightarrow> string \<Rightarrow> string \<Rightarrow> message_registry" where
  "register_query mr name cls = mr\<lparr>mr_queries := AList.update name cls (mr_queries mr)\<rparr>"

definition hydrate_command :: "hydrator \<Rightarrow> message_registry \<Rightarrow> hydrator" where
  "hydrate_command validate mr ct d =
     (case map_of (mr_commands mr) ct of None \<Rightarrow> None | Some cls \<Rightarrow> validate cls d)"

definition hydrate_query :: "hydrator \<Rightarrow> message_registry \<Rightarrow> hydrator" where
  "hydrate_query validate mr ct d =
     (case map_of (mr_queries mr) ct of None \<Rightarrow> None | Some cls \<Rightarrow> validate cls d)"

definition hydrate :: "hydrator \<Rightarrow> message_registry \<Rightarrow> hydrator" where
  "hydrate validate mr t d =
     (case hydrate_command validate mr t d of
        Some c \<Rightarrow> Some c | None \<Rightarrow> hydrate_query validate mr t d)"

definition clear_commands :: "message_registry \<Rightarrow> message_registry" where
  "clear_commands mr = mr\<lparr>mr_commands := []\<rparr>"

definition clear_queries :: "message_registry \<Rightarrow> message_registry" where
  "clear_queries mr = mr\<lparr>mr_queries := []\<rparr>"

definition clear_messages :: "message_registry \<Rightarrow> message_registry" where
  "clear_messages mr = mr\<lparr>mr_commands := [], mr_queries := []\<rparr>"

section \<open>Saga state\<close>

datatype saga_status =
  SAGA_PENDING | SAGA_RUNNING | SAGA_SUSPENDED | SAGA_COMPLETED | SAGA_FAILED | SAGA_COMPENSATING
  | SAGA_COMPENSATED

datatype reservation_type = RESOURCE | TIME_BASED

datatype tcc_phase =
  TCC_PENDING | TCC_TRYING | TCC_TRIED | TCC_CONFIRMING | TCC_CONFIRMED | TCC_CANCELLING
  | TCC_CANCELLED | TCC_FAILED

record tcc_step_record =
  tr_name :: string
  tr_phase :: tcc_phase
  tr_reservation_type :: reservation_type
  tr_try :: command
  tr_confirm :: command
  tr_cancel :: command
  tr_error :: "string option"
  tr_tried_at :: "time option"
  tr_confirmed_at :: "time option"
  tr_cancelled_at :: "time option"
  tr_timeout_at :: "time option"

record step_record =
  sr_step_name :: string
  sr_event_type :: string
  sr_occurred_at :: time

record compensation_record =
  cr_command_type :: string
  cr_module_name :: string
  cr_data :: payload
  cr_description :: string

record pending_command =
  pc_type_name :: string
  pc_module_name :: string
  pc_data :: payload
  pc_dispatched :: bool

record failed_compensation =
  fc_command_type :: string
  fc_error :: string
  fc_failed_at :: time

record saga_state =
  ss_id :: string
  ss_saga_type :: string
  ss_status :: saga_status
  ss_current_step :: string
  ss_step_history :: "step_record list"
  ss_tcc_steps :: "tcc_step_record list"
  ss_processed_event_ids :: "string list"
  ss_pending_commands :: "pending_command list"
  ss_compensation_stack :: "compensation_record list"
  ss_failed_compensations :: "failed_compensation list"
  ss_suspended_at :: "time option"
  ss_suspension_reason :: "string option"
  ss_timeout_at :: "time option"
  ss_retry_count :: int
  ss_max_retries :: int
  ss_error :: "string option"
  ss_completed_at :: "time option"
  ss_failed_at :: "time option"
  ss_correlation_id :: "string option"
  ss_metadata :: payload
  ss_tenant_id :: "string option"
  ss_updated_at :: time
  ss_version :: int

definition ss_touch :: "time \<Rightarrow> saga_state \<Rightarrow> saga_state" where
  "ss_touch now s = s\<lparr>ss_updated_at := now\<rparr>"

definition is_event_processed :: "saga_state \<Rightarrow> string \<Rightarrow> bool" where
  "is_event_processed s i \<longleftrightarrow> i \<in> set (ss_processed_event_ids s)"

definition mark_event_processed :: "string \<Rightarrow> saga_state \<Rightarrow> saga_state" where
  "mark_event_processed i s =
     (if i \<notin> set (ss_processed_event_ids s)
      then s\<lparr>ss_processed_event_ids := ss_processed_event_ids s @ [i]\<rparr> else s)"

definition record_step :: "time \<Rightarrow> string \<Rightarrow> string \<Rightarrow> saga_state \<Rightarrow> saga_state" where
  "record_step now name et s =
     ss_touch now (s\<lparr>ss_current_step := name,
       ss_step_history := ss_step_history s @
         [\<lparr>sr_step_name = name, sr_event_type = et, sr_occurred_at = now\<rparr>]\<rparr>)"

definition is_terminal :: "saga_state \<Rightarrow> bool" where
  "is_terminal s \<longleftrightarrow> ss_status s \<in> {SAGA_COMPLETED, SAGA_FAILED, SAGA_COMPENSATED}"

section \<open>The saga object\<close>

record tcc_step =
  ts_name :: string
  ts_try :: command
  ts_confirm :: command
  ts_cancel :: command
  ts_reservation_type :: reservation_type
  ts_timeout :: "int option"

definition new_tcc_step ::
  "string \<Rightarrow> command \<Rightarrow> command \<Rightarrow> command \<Rightarrow> reservation_type \<Rightarrow> int option \<Rightarrow> exn + tcc_step" where
  "new_tcc_step name t cf cn rt timeout =
     (if rt = TIME_BASED \<and> timeout = None
      then Inl (SagaConfigurationError (''TCCStep '' @ quoted name @ '': TIME_BASED reservation requires a timeout.''))
      else Inr \<lparr>ts_name = name, ts_try = t, ts_confirm = cf, ts_cancel = cn,
                ts_reservation_type = rt, ts_timeout = timeout\<rparr>)"

record saga =
  sg_state :: saga_state
  sg_registry :: "hydrator option"
  sg_commands :: "command list"
  sg_tcc_steps :: "tcc_step list"
  sg_tcc_cache :: "tcc_step_record list option"

definition new_saga :: "saga_state \<Rightarrow> hydrator option \<Rightarrow> saga" where
  "new_saga s reg = \<lparr>sg_state = s, sg_registry = reg, sg_commands = [], sg_tcc_steps = [], sg_tcc_cache = None\<rparr>"

definition upd_state :: "(saga_state \<Rightarrow> saga_state) \<Rightarrow> saga \<Rightarrow> saga" where
  "upd_state f sg = sg\<lparr>sg_state := f (sg_state sg)\<rparr>"

definition dispatch :: "command \<Rightarrow> saga \<Rightarrow> saga" where
  "dispatch c sg = sg\<lparr>sg_commands := sg_commands sg @ [c]\<rparr>"

definition collect_commands :: "saga \<Rightarrow> saga \<times> command list" where
  "collect_commands sg = (sg\<lparr>sg_commands := []\<rparr>, sg_commands sg)"

definition complete_saga :: "time \<Rightarrow> saga \<Rightarrow> saga" where
  "complete_saga now =
     upd_state (\<lambda>s. ss_touch now (s\<lparr>ss_status := SAGA_COMPLETED, ss_completed_at := Some now\<rparr>))"

definition add_compensation :: "command \<Rightarrow> string \<Rightarrow> saga \<Rightarrow> saga" where
  "add_compensation c desc =
     upd_state (\<lambda>s. s\<lparr>ss_compensation_stack := ss_compensation_stack s @
       [\<lparr>cr_command_type = cmd_type c, cr_module_name = cmd_module c, cr_data = cmd_data c,
         cr_description = desc\<rparr>]\<rparr>)"

definition no_registry_error :: exn where
  "no_registry_error = SagaStateError ''message_registry is required for this operation. When using Saga with a SagaManager, it is injected automatically. For standalone use, pass message_registry to the constructor.''"

definition compensation_missing :: "string \<Rightarrow> exn" where
  "compensation_missing ct = HandlerNotRegisteredError (''Compensating command type '' @ quoted ct @
     '' not registered. Ensure it'' @ [CHR 0x27] @ ''s registered in MessageRegistry.'')"

text \<open>The loop pops from the end of the stack; \<open>str\<close> renders an exception.\<close>

fun compensation_loop ::
  "(exn \<Rightarrow> string) \<Rightarrow> time \<Rightarrow> hydrator \<Rightarrow> compensation_record list \<Rightarrow> saga \<Rightarrow> bool \<Rightarrow> saga \<times> bool" where
  "compensation_loop str now hyd [] sg failures = (sg, failures)"
| "compensation_loop str now hyd (r # rs) sg failures =
     (let sg = upd_state (\<lambda>s. s\<lparr>ss_compensation_stack := butlast (ss_compensation_stack s)\<rparr>) sg
      in case hyd (cr_command_type r) (cr_data r) of
           Some c \<Rightarrow> compensation_loop str now hyd rs (dispatch c sg) failures
         | None \<Rightarrow>
             compensation_loop str now hyd rs
               (upd_state (\<lambda>s. s\<lparr>ss_failed_compensations := ss_failed_compensations s @
                  [\<lparr>fc_command_type = cr_command_type r,
                    fc_error = str (compensation_missing (cr_command_type r)),
                    fc_failed_at = now\<rparr>]\<rparr>) sg) True)"

definition execute_compensations ::
  "(exn \<Rightarrow> string) \<Rightarrow> time \<Rightarrow> saga \<Rightarrow> saga \<times> exn option" where
  "execute_compensations str now sg =
     (case sg_registry sg of
        None \<Rightarrow> (sg, Some no_registry_error)
      | Some hyd \<Rightarrow>
          (case compensation_loop str now hyd (rev (ss_compensation_stack (sg_state sg)))
                  (upd_state (\<lambda>s. ss_touch now (s\<lparr>ss_status := SAGA_COMPENSATING\<rparr>)) sg) False of
             (sg, failures) \<Rightarrow>
               (upd_state (\<lambda>s. ss_touch now
                  (s\<lparr>ss_status := (if failures then SAGA_FAILED else SAGA_COMPENSATED)\<rparr>)) sg, None)))"

definition fail_saga ::
  "(exn \<Rightarrow> string) \<Rightarrow> time \<Rightarrow> string \<Rightarrow> bool \<Rightarrow> saga \<Rightarrow> saga \<times> exn option" where
  "fail_saga str now reason compensate sg =
     (let sg = upd_state (\<lambda>s. s\<lparr>ss_error := Some reason, ss_failed_at := Some now\<rparr>) sg
      in if compensate \<and> ss_compensation_stack (sg_state sg) \<noteq> []
         then execute_compensations str now sg
         else (upd_state (\<lambda>s. ss_touch now (s\<lparr>ss_status := SAGA_FAILED\<rparr>)) sg, None))"

definition suspend_saga :: "time \<Rightarrow> string \<Rightarrow> int option \<Rightarrow> saga \<Rightarrow> saga" where
  "suspend_saga now reason timeout =
     upd_state (\<lambda>s. ss_touch now (s\<lparr>ss_status := SAGA_SUSPENDED, ss_suspended_at := Some now,
       ss_suspension_reason := Some reason,
       ss_timeout_at := (case timeout of None \<Rightarrow> None | Some t \<Rightarrow> Some (now + t))\<rparr>))"

definition resume_saga :: "time \<Rightarrow> saga \<Rightarrow> saga" where
  "resume_saga now sg =
     (if ss_status (sg_state sg) \<noteq> SAGA_SUSPENDED then sg
      else upd_state (\<lambda>s. ss_touch now (s\<lparr>ss_status := SAGA_RUNNING, ss_suspended_at := None,
             ss_suspension_reason := None, ss_timeout_at := None\<rparr>)) sg)"

definition on_timeout :: "(exn \<Rightarrow> string) \<Rightarrow> time \<Rightarrow> saga \<Rightarrow> saga \<times> exn option" where
  "on_timeout str now sg =
     (let reason = ''Saga timed out while suspended'';
          reason = (case ss_suspension_reason (sg_state sg) of
                      None \<Rightarrow> reason
                    | Some r \<Rightarrow> if r = [] then reason else reason @ '' for: '' @ r)
      in fail_saga str now reason True sg)"

section \<open>Handling events\<close>

record saga_event =
  ev_id :: string
  ev_type :: string
  ev_correlation_id :: "string option"
  ev_metadata :: "(string, string) dict"

type_synonym saga_handler = "saga_event \<Rightarrow> saga \<Rightarrow> saga \<times> exn option"
type_synonym saga_handlers = "(string, saga_handler) dict"

definition mapped_handler ::
  "time \<Rightarrow> (saga_event \<Rightarrow> exn + command) \<Rightarrow> string option \<Rightarrow> (saga_event \<Rightarrow> exn + command) option \<Rightarrow>
     string \<Rightarrow> bool \<Rightarrow> saga_handler" where
  "mapped_handler now send step compensate desc complete ev sg =
     (let sg = (case step of None \<Rightarrow> sg | Some st \<Rightarrow> upd_state (\<lambda>s. s\<lparr>ss_current_step := st\<rparr>) sg)
      in case send ev of
           Inl e \<Rightarrow> (sg, Some e)
         | Inr c \<Rightarrow>
             (let sg = dispatch c sg
              in case compensate of
                   None \<Rightarrow> (if complete then complete_saga now sg else sg, None)
                 | Some cf \<Rightarrow>
                     (case cf ev of
                        Inl e \<Rightarrow> (sg, Some e)
                      | Inr cc \<Rightarrow>
                          (let sg = add_compensation cc desc sg
                           in (if complete then complete_saga now sg else sg, None)))))"

definition saga_on ::
  "time \<Rightarrow> saga_handlers \<Rightarrow> string \<Rightarrow> saga_handler option \<Rightarrow> (saga_event \<Rightarrow> exn + command) option \<Rightarrow>
     string option \<Rightarrow> (saga_event \<Rightarrow> exn + command) option \<Rightarrow> string \<Rightarrow> bool \<Rightarrow> exn + saga_handlers" where
  "saga_on now hs et handler send step compensate desc complete =
     (case (handler, send) of
        (Some _, Some _) \<Rightarrow>
          Inl (SagaConfigurationError (''Cannot provide both '' @ quoted ''handler'' @ '' and '' @
            quoted ''send'' @ '' - pick one.''))
      | (None, None) \<Rightarrow>
          Inl (SagaConfigurationError (''Must provide either '' @ quoted ''handler'' @ '' or '' @
            quoted ''send'' @ ''.''))
      | (Some h, None) \<Rightarrow> Inr (AList.update et h hs)
      | (None, Some f) \<Rightarrow> Inr (AList.update et (mapped_handler now f step compensate desc complete) hs))"

definition handle_event :: "saga_handlers \<Rightarrow> saga_handler" where
  "handle_event hs ev sg =
     (case map_of hs (ev_type ev) of
        Some h \<Rightarrow> h ev sg
      | None \<Rightarrow> (sg, Some (SagaHandlerNotFoundError (''No handler registered for '' @ ev_type ev @
                   ''. Either override _handle_event() or register handlers with on().''))))"

definition saga_handle :: "time \<Rightarrow> saga_handlers \<Rightarrow> saga_handler" where
  "saga_handle now hs ev sg =
     (let sg = sg\<lparr>sg_tcc_cache := None\<rparr>
      in if is_terminal (sg_state sg) then (sg, None)
         else if is_event_processed (sg_state sg) (ev_id ev) then (sg, None)
         else let sg = (if ss_status (sg_state sg) = SAGA_PENDING
                        then upd_state (\<lambda>s. s\<lparr>ss_status := SAGA_RUNNING\<rparr>) sg else sg)
              in case handle_event hs ev sg of
                   (sg, Some e) \<Rightarrow> (sg, Some e)
                 | (sg, None) \<Rightarrow>
                     (let sg = upd_state (mark_event_processed (ev_id ev)) sg
                      in (upd_state (\<lambda>s. record_step now (ss_current_step s) (ev_type ev) s) sg, None)))"

section \<open>Try-Confirm/Cancel\<close>

definition add_tcc_step :: "tcc_step \<Rightarrow> saga \<Rightarrow> exn + saga" where
  "add_tcc_step st sg =
     (if ts_name st \<in> set (map ts_name (sg_tcc_steps sg))
      then Inl (SagaConfigurationError (''TCC step '' @ quoted (ts_name st) @ '' already registered.''))
      else Inr (sg\<lparr>sg_tcc_steps := sg_tcc_steps sg @ [st]\<rparr>))"

definition tcc_record_of :: "time \<Rightarrow> tcc_step \<Rightarrow> tcc_step_record" where
  "tcc_record_of now st =
     \<lparr>tr_name = ts_name st, tr_phase = TCC_TRYING, tr_reservation_type = ts_reservation_type st,
      tr_try = ts_try st, tr_confirm = ts_confirm st, tr_cancel = ts_cancel st, tr_error = None,
      tr_tried_at = None, tr_confirmed_at = None, tr_cancelled_at = None,
      tr_timeout_at = (if ts_reservation_type st = TIME_BASED \<and> ts_timeout st \<notin> {None, Some 0}
                       then Some (now + the (ts_timeout st)) else None)\<rparr>"

definition begin_tcc :: "time \<Rightarrow> saga \<Rightarrow> saga \<times> exn option" where
  "begin_tcc now sg =
     (if sg_tcc_steps sg = []
      then (sg, Some (SagaStateError ''No TCC steps registered - call add_tcc_step() first.''))
      else if ss_tcc_steps (sg_state sg) \<noteq> []
      then (sg, Some (SagaStateError ''TCC already started for this saga.''))
      else (let sg = fold (\<lambda>st. dispatch (ts_try st)) (sg_tcc_steps sg) sg
            in upd_state (\<lambda>s. ss_touch now (s\<lparr>ss_tcc_steps := map (tcc_record_of now) (sg_tcc_steps sg),
                 ss_status := SAGA_RUNNING, ss_current_step := ''trying''\<rparr>)) sg, None))"

definition load_tcc_records :: "saga \<Rightarrow> saga \<times> tcc_step_record list" where
  "load_tcc_records sg =
     (case sg_tcc_cache sg of
        Some rs \<Rightarrow> (sg, rs)
      | None \<Rightarrow> (sg\<lparr>sg_tcc_cache := Some (ss_tcc_steps (sg_state sg))\<rparr>, ss_tcc_steps (sg_state sg)))"

definition save_tcc_records :: "tcc_step_record list \<Rightarrow> saga \<Rightarrow> saga" where
  "save_tcc_records rs sg = upd_state (\<lambda>s. s\<lparr>ss_tcc_steps := rs\<rparr>) (sg\<lparr>sg_tcc_cache := Some rs\<rparr>)"

text \<open>The keyword arguments that are not \<^verbatim>\<open>None\<close> are the update \<open>upd\<close>.\<close>

definition set_tcc_phase ::
  "time \<Rightarrow> string \<Rightarrow> tcc_phase \<Rightarrow> (tcc_step_record \<Rightarrow> tcc_step_record) \<Rightarrow> saga \<Rightarrow> saga" where
  "set_tcc_phase now name phase upd sg =
     (case load_tcc_records sg of
        (sg, rs) \<Rightarrow>
          upd_state (ss_touch now)
            (save_tcc_records (map (\<lambda>r. if tr_name r = name then upd (r\<lparr>tr_phase := phase\<rparr>) else r) rs) sg))"

definition all_tcc_steps_in_phase :: "tcc_phase \<Rightarrow> saga \<Rightarrow> bool" where
  "all_tcc_steps_in_phase phase sg = list_all (\<lambda>r. tr_phase r = phase) (snd (load_tcc_records sg))"

fun confirm_loop ::
  "hydrator \<Rightarrow> tcc_step_record list \<Rightarrow> tcc_step_record list \<Rightarrow> saga \<Rightarrow> saga \<times> tcc_step_record list" where
  "confirm_loop hyd [] updated sg = (sg, updated)"
| "confirm_loop hyd (r # rs) updated sg =
     (if tr_phase r = TCC_TRIED
      then case hyd (cmd_type (tr_confirm r)) (cmd_data (tr_confirm r)) of
             Some c \<Rightarrow> confirm_loop hyd rs (updated @ [r\<lparr>tr_phase := TCC_CONFIRMING\<rparr>]) (dispatch c sg)
           | None \<Rightarrow> confirm_loop hyd rs (updated @ [r]) sg
      else confirm_loop hyd rs (updated @ [r]) sg)"

definition dispatch_confirms :: "time \<Rightarrow> saga \<Rightarrow> saga \<times> exn option" where
  "dispatch_confirms now sg =
     (case sg_registry sg of
        None \<Rightarrow> (sg, Some no_registry_error)
      | Some hyd \<Rightarrow>
          (case load_tcc_records sg of (sg, rs) \<Rightarrow>
             case confirm_loop hyd rs [] sg of (sg, updated) \<Rightarrow>
               (upd_state (\<lambda>s. ss_touch now (s\<lparr>ss_current_step := ''confirming''\<rparr>))
                  (save_tcc_records updated sg), None)))"

definition mark_step_tried :: "time \<Rightarrow> string \<Rightarrow> saga \<Rightarrow> saga \<times> exn option" where
  "mark_step_tried now name sg =
     (let sg = set_tcc_phase now name TCC_TRIED (\<lambda>r. r\<lparr>tr_tried_at := Some now\<rparr>) sg
      in if all_tcc_steps_in_phase TCC_TRIED sg then dispatch_confirms now sg else (sg, None))"

definition mark_step_confirmed :: "time \<Rightarrow> string \<Rightarrow> saga \<Rightarrow> saga" where
  "mark_step_confirmed now name sg =
     (let sg = set_tcc_phase now name TCC_CONFIRMED (\<lambda>r. r\<lparr>tr_confirmed_at := Some now\<rparr>) sg
      in if all_tcc_steps_in_phase TCC_CONFIRMED sg then complete_saga now sg else sg)"

definition in_progress :: "tcc_step_record \<Rightarrow> bool" where
  "in_progress r \<longleftrightarrow> tr_phase r \<in> {TCC_TRIED, TCC_TRYING, TCC_CONFIRMING}"

fun cancel_loop ::
  "hydrator \<Rightarrow> nat list \<Rightarrow> tcc_step_record list \<Rightarrow> saga \<Rightarrow> saga \<times> tcc_step_record list" where
  "cancel_loop hyd [] rs sg = (sg, rs)"
| "cancel_loop hyd (i # is) rs sg =
     (case hyd (cmd_type (tr_cancel (rs ! i))) (cmd_data (tr_cancel (rs ! i))) of
        Some c \<Rightarrow> cancel_loop hyd is (rs[i := (rs ! i)\<lparr>tr_phase := TCC_CANCELLING\<rparr>]) (dispatch c sg)
      | None \<Rightarrow> cancel_loop hyd is rs sg)"

definition dispatch_cancels :: "time \<Rightarrow> string \<Rightarrow> saga \<Rightarrow> saga \<times> exn option" where
  "dispatch_cancels now reason sg =
     (case sg_registry sg of
        None \<Rightarrow> (sg, Some no_registry_error)
      | Some hyd \<Rightarrow>
          (case load_tcc_records sg of (sg, rs) \<Rightarrow>
             case cancel_loop hyd (rev (filter (\<lambda>i. in_progress (rs ! i)) [0..<length rs])) rs sg of
               (sg, rs) \<Rightarrow>
                 (upd_state (\<lambda>s. ss_touch now (s\<lparr>ss_status := SAGA_COMPENSATING,
                    ss_current_step := ''cancelling'', ss_error := Some reason\<rparr>))
                    (save_tcc_records rs sg), None)))"

definition mark_step_failed :: "time \<Rightarrow> string \<Rightarrow> string \<Rightarrow> saga \<Rightarrow> saga \<times> exn option" where
  "mark_step_failed now name reason sg =
     (case dispatch_cancels now reason sg of
        (sg, Some e) \<Rightarrow> (sg, Some e)
      | (sg, None) \<Rightarrow> (set_tcc_phase now name TCC_FAILED (\<lambda>r. r\<lparr>tr_error := Some reason\<rparr>) sg, None))"

definition mark_step_cancelled :: "time \<Rightarrow> string \<Rightarrow> saga \<Rightarrow> saga" where
  "mark_step_cancelled now name sg =
     (let sg = set_tcc_phase now name TCC_CANCELLED (\<lambda>r. r\<lparr>tr_cancelled_at := Some now\<rparr>) sg
      in case load_tcc_records sg of (sg, rs) \<Rightarrow>
           if list_all (\<lambda>r. tr_phase r \<in> {TCC_CANCELLED, TCC_FAILED, TCC_PENDING}) rs
           then upd_state (\<lambda>s. ss_touch now (s\<lparr>ss_status := SAGA_COMPENSATED\<rparr>)) sg else sg)"

definition tcc_expired :: "time \<Rightarrow> tcc_step_record \<Rightarrow> bool" where
  "tcc_expired now r \<longleftrightarrow> tr_reservation_type r = TIME_BASED \<and>
     (case tr_timeout_at r of None \<Rightarrow> False | Some t \<Rightarrow> t \<le> now) \<and>
     tr_phase r \<in> {TCC_TRYING, TCC_TRIED}"

definition expired_reason :: "string \<Rightarrow> string" where
  "expired_reason name = ''TIME_BASED reservation expired for step '' @ quoted name"

fun expire_loop :: "time \<Rightarrow> string list \<Rightarrow> saga \<Rightarrow> saga \<times> exn option" where
  "expire_loop now [] sg = (sg, None)"
| "expire_loop now (n # ns) sg =
     (case mark_step_failed now n (expired_reason n) sg of
        (sg, Some e) \<Rightarrow> (sg, Some e)
      | (sg, None) \<Rightarrow> expire_loop now ns sg)"

definition check_tcc_timeouts :: "time \<Rightarrow> saga \<Rightarrow> saga \<times> (exn + string list)" where
  "check_tcc_timeouts now sg =
     (case load_tcc_records sg of (sg, rs) \<Rightarrow>
        let names = map tr_name (filter (tcc_expired now) rs)
        in case expire_loop now names sg of
             (sg, Some e) \<Rightarrow> (sg, Inl e)
           | (sg, None) \<Rightarrow> (sg, Inr names))"

definition get_tcc_step_phase :: "string \<Rightarrow> saga \<Rightarrow> tcc_phase option" where
  "get_tcc_step_phase name sg = map_option tr_phase (find (\<lambda>r. tr_name r = name) (snd (load_tcc_records sg)))"

section \<open>Serialised commands\<close>

definition serialize_command_for_pending :: "command \<Rightarrow> pending_command" where
  "serialize_command_for_pending c =
     \<lparr>pc_type_name = cmd_type c, pc_module_name = cmd_module c, pc_data = cmd_data c, pc_dispatched = False\<rparr>"

definition is_command_dispatched :: "pending_command \<Rightarrow> bool" where
  "is_command_dispatched p = pc_dispatched p"

section \<open>Handling is idempotent\<close>

lemma upd_state_simps [simp]:
  "sg_state (upd_state f sg) = f (sg_state sg)" "sg_commands (upd_state f sg) = sg_commands sg"
  "sg_registry (upd_state f sg) = sg_registry sg" "sg_tcc_steps (upd_state f sg) = sg_tcc_steps sg"
  "sg_tcc_cache (upd_state f sg) = sg_tcc_cache sg"
  by (simp_all add: upd_state_def)

lemma dispatch_simps [simp]:
  "sg_state (dispatch c sg) = sg_state sg" "sg_commands (dispatch c sg) = sg_commands sg @ [c]"
  "sg_registry (dispatch c sg) = sg_registry sg" "sg_tcc_cache (dispatch c sg) = sg_tcc_cache sg"
  by (simp_all add: dispatch_def)

lemma handled_stays_handled:
  assumes "is_terminal (sg_state sg) \<or> is_event_processed (sg_state sg) (ev_id ev)"
  shows "saga_handle now hs ev sg = (sg\<lparr>sg_tcc_cache := None\<rparr>, None)"
  using assms by (auto simp: saga_handle_def Let_def)

lemma handle_marks:
  assumes "saga_handle now hs ev sg = (sg', None)"
  shows "is_terminal (sg_state sg') \<or> is_event_processed (sg_state sg') (ev_id ev)"
proof (cases "is_terminal (sg_state sg) \<or> is_event_processed (sg_state sg) (ev_id ev)")
  case True
  then show ?thesis using assms by (auto simp: handled_stays_handled)
next
  case False
  then obtain sg3 where "sg' = upd_state (\<lambda>s. record_step now (ss_current_step s) (ev_type ev) s)
      (upd_state (mark_event_processed (ev_id ev)) sg3)"
    using assms by (auto simp: saga_handle_def Let_def split: prod.splits option.splits if_splits)
  then show ?thesis
    by (simp add: is_event_processed_def record_step_def ss_touch_def mark_event_processed_def)
qed

text \<open>
  C8: handling is idempotent.  Once a saga has handled an event without raising, handing it the
  same event again, at any later time, changes neither its state nor its queued commands; nor does any
  event once the saga has reached a terminal status.
\<close>

theorem saga_handle_idempotent:
  assumes "saga_handle now hs ev sg = (sg', None)"
  shows "saga_handle now' hs ev sg' = (sg'\<lparr>sg_tcc_cache := None\<rparr>, None) \<and>
         (is_terminal (sg_state sg') \<longrightarrow> saga_handle now' hs ev' sg' = (sg'\<lparr>sg_tcc_cache := None\<rparr>, None))"
  using handled_stays_handled [OF handle_marks [OF assms]] handled_stays_handled by blast

definition sample_state :: saga_state where
  "sample_state = \<lparr>ss_id = ''s'', ss_saga_type = ''OrderSaga'', ss_status = SAGA_PENDING, ss_current_step = ''init'',
     ss_step_history = [], ss_tcc_steps = [], ss_processed_event_ids = [], ss_pending_commands = [],
     ss_compensation_stack = [], ss_failed_compensations = [], ss_suspended_at = None,
     ss_suspension_reason = None, ss_timeout_at = None, ss_retry_count = 0, ss_max_retries = 3,
     ss_error = None, ss_completed_at = None, ss_failed_at = None, ss_correlation_id = Some ''c'',
     ss_metadata = [], ss_tenant_id = None, ss_updated_at = 0, ss_version = 0\<rparr>"

definition sample_command :: "string \<Rightarrow> command" where
  "sample_command n = \<lparr>cmd_type = n, cmd_module = ''app'', cmd_data = []\<rparr>"

definition plain_hydrator :: hydrator where
  "plain_hydrator t d = Some \<lparr>cmd_type = t, cmd_module = ''app'', cmd_data = d\<rparr>"

definition order_created :: "string \<Rightarrow> saga_event" where
  "order_created i = \<lparr>ev_id = i, ev_type = ''OrderCreated'', ev_correlation_id = Some ''c'', ev_metadata = []\<rparr>"

abbreviation sample_handlers :: saga_handlers where
  "sample_handlers \<equiv> [(''OrderCreated'', mapped_handler 1 (\<lambda>e. Inr (sample_command ''Reserve'')) None None [] False)]"

theorem saga_handle_idempotent_witness:
  "\<exists>sg'. saga_handle 1 sample_handlers (order_created ''e'') (new_saga sample_state None) = (sg', None) \<and>
     sg_commands sg' = [sample_command ''Reserve''] \<and>
     sg_commands (fst (saga_handle 2 sample_handlers (order_created ''e'') sg')) = [sample_command ''Reserve'']"
proof -
  obtain sg' where e: "saga_handle 1 sample_handlers (order_created ''e'') (new_saga sample_state None) = (sg', None)"
      "sg_commands sg' = [sample_command ''Reserve'']"
    by (auto simp: saga_handle_def new_saga_def sample_state_def order_created_def handle_event_def
        mapped_handler_def is_terminal_def is_event_processed_def upd_state_def dispatch_def Let_def)
  then show ?thesis using saga_handle_idempotent [OF e(1), of 2] by simp
qed

section \<open>Compensation\<close>

abbreviation rehydrate :: "hydrator \<Rightarrow> compensation_record \<Rightarrow> command option" where
  "rehydrate hyd r \<equiv> hyd (cr_command_type r) (cr_data r)"

definition rehydrated :: "hydrator \<Rightarrow> compensation_record list \<Rightarrow> command list" where
  "rehydrated hyd rs = concat (map (\<lambda>r. case rehydrate hyd r of None \<Rightarrow> [] | Some c \<Rightarrow> [c]) rs)"

definition lost_types :: "hydrator \<Rightarrow> compensation_record list \<Rightarrow> string list" where
  "lost_types hyd rs = map cr_command_type (filter (\<lambda>r. rehydrate hyd r = None) rs)"

lemma compensation_loop_spec:
  assumes "compensation_loop str now hyd rs sg f = (sg', f')"
  shows "sg_commands sg' = sg_commands sg @ rehydrated hyd rs \<and>
         map fc_command_type (ss_failed_compensations (sg_state sg')) =
           map fc_command_type (ss_failed_compensations (sg_state sg)) @ lost_types hyd rs \<and>
         ss_compensation_stack (sg_state sg') =
           take (length (ss_compensation_stack (sg_state sg)) - length rs) (ss_compensation_stack (sg_state sg)) \<and>
         f' = (f \<or> lost_types hyd rs \<noteq> [])"
  using assms
proof (induction rs arbitrary: sg f)
  case Nil
  then show ?case by (simp add: rehydrated_def lost_types_def)
next
  case (Cons r rs)
  let ?sg = "upd_state (\<lambda>s. s\<lparr>ss_compensation_stack := butlast (ss_compensation_stack s)\<rparr>) sg"
  show ?case
  proof (cases "rehydrate hyd r")
    case None
    then show ?thesis using Cons.prems Cons.IH
      by (auto simp: Let_def rehydrated_def lost_types_def butlast_conv_take min_def dest!: Cons.IH)
  next
    case (Some c)
    then have "compensation_loop str now hyd rs (dispatch c ?sg) f = (sg', f')" using Cons.prems by (simp add: Let_def)
    from Cons.IH [OF this] Some show ?thesis
      by (auto simp: rehydrated_def lost_types_def butlast_conv_take min_def)
  qed
qed

lemma execute_compensations_spec:
  assumes "sg_registry sg = Some hyd" "execute_compensations str now sg = (sg', x)"
  shows "x = None \<and> ss_compensation_stack (sg_state sg') = [] \<and>
         sg_commands sg' = sg_commands sg @ rehydrated hyd (rev (ss_compensation_stack (sg_state sg))) \<and>
         map fc_command_type (ss_failed_compensations (sg_state sg')) =
           map fc_command_type (ss_failed_compensations (sg_state sg)) @
           lost_types hyd (rev (ss_compensation_stack (sg_state sg))) \<and>
         ss_status (sg_state sg') =
           (if lost_types hyd (rev (ss_compensation_stack (sg_state sg))) = [] then SAGA_COMPENSATED else SAGA_FAILED)"
proof -
  let ?sg = "upd_state (\<lambda>s. ss_touch now (s\<lparr>ss_status := SAGA_COMPENSATING\<rparr>)) sg"
  obtain sg1 f where l: "compensation_loop str now hyd (rev (ss_compensation_stack (sg_state sg))) ?sg False = (sg1, f)"
    by (cases "compensation_loop str now hyd (rev (ss_compensation_stack (sg_state sg))) ?sg False")
  from compensation_loop_spec [OF l] l assms show ?thesis
    by (auto simp: execute_compensations_def ss_touch_def)
qed

lemma fail_compensates:
  assumes "sg_registry sg = Some hyd" "ss_compensation_stack (sg_state sg) \<noteq> []"
    and "fail_saga str now reason True sg = (sg', x)"
  shows "x = None \<and> ss_compensation_stack (sg_state sg') = [] \<and>
         sg_commands sg' = sg_commands sg @ rehydrated hyd (rev (ss_compensation_stack (sg_state sg))) \<and>
         ss_status (sg_state sg') =
           (if lost_types hyd (rev (ss_compensation_stack (sg_state sg))) = [] then SAGA_COMPENSATED else SAGA_FAILED)"
  using execute_compensations_spec [of "upd_state (\<lambda>s. s\<lparr>ss_error := Some reason, ss_failed_at := Some now\<rparr>) sg" hyd str now sg' x]
    assms by (simp add: fail_saga_def)

definition add_compensations :: "(command \<times> string) list \<Rightarrow> saga \<Rightarrow> saga" where
  "add_compensations cs sg = fold (\<lambda>(c, d). add_compensation c d) cs sg"

lemma add_compensations_spec:
  "sg_registry (add_compensations cs sg) = sg_registry sg \<and>
   sg_commands (add_compensations cs sg) = sg_commands sg \<and>
   map (\<lambda>r. (cr_command_type r, cr_data r)) (ss_compensation_stack (sg_state (add_compensations cs sg))) =
     map (\<lambda>r. (cr_command_type r, cr_data r)) (ss_compensation_stack (sg_state sg)) @
     map (\<lambda>x. (cmd_type (fst x), cmd_data (fst x))) cs"
  unfolding add_compensations_def
  by (induction cs arbitrary: sg) (auto simp: add_compensation_def)

abbreviation cr_pair :: "compensation_record \<Rightarrow> string \<times> payload" where
  "cr_pair r \<equiv> (cr_command_type r, cr_data r)"

abbreviation cmd_pair :: "command \<times> string \<Rightarrow> string \<times> payload" where
  "cmd_pair x \<equiv> (cmd_type (fst x), cmd_data (fst x))"

lemma rehydrate_all:
  assumes "map cr_pair rs = map cmd_pair cs" "\<forall>x\<in>set cs. hyd (cmd_type (fst x)) (cmd_data (fst x)) = Some (fst x)"
  shows "rehydrated hyd rs = map fst cs \<and> lost_types hyd rs = []"
  using assms
proof (induction rs arbitrary: cs)
  case (Cons r rs)
  then obtain x xs where "cs = x # xs" by (cases cs) auto
  with Cons show ?case by (auto simp: rehydrated_def lost_types_def)
qed (simp add: rehydrated_def lost_types_def)

lemma lost_some:
  assumes "map cr_pair rs = map cmd_pair cs" "\<exists>x\<in>set cs. hyd (cmd_type (fst x)) (cmd_data (fst x)) = None"
  shows "lost_types hyd rs \<noteq> []"
  using assms
proof (induction rs arbitrary: cs)
  case (Cons r rs)
  then obtain x xs where "cs = x # xs" by (cases cs) auto
  with Cons show ?case by (auto simp: lost_types_def)
qed simp

text \<open>
  C7: compensation runs backwards.  When a saga that pushed the compensations \<open>cs\<close> fails, and the
  message registry can rebuild each of them, their commands are queued in the reverse order of
  pushing, each once, the stack is empty and the saga is COMPENSATED.  A compensation that cannot be
  rebuilt does not stop the others: it is recorded, and the saga ends FAILED.
\<close>

theorem compensation_lifo:
  assumes "sg_registry sg = Some hyd" "ss_compensation_stack (sg_state sg) = []" "cs \<noteq> []"
    and "fail_saga str now reason True (add_compensations cs sg) = (sg', x)"
  shows "x = None \<and> ss_compensation_stack (sg_state sg') = [] \<and>
         ((\<forall>x\<in>set cs. hyd (cmd_type (fst x)) (cmd_data (fst x)) = Some (fst x)) \<longrightarrow>
            sg_commands sg' = sg_commands sg @ rev (map fst cs) \<and> ss_status (sg_state sg') = SAGA_COMPENSATED) \<and>
         ((\<exists>x\<in>set cs. hyd (cmd_type (fst x)) (cmd_data (fst x)) = None) \<longrightarrow> ss_status (sg_state sg') = SAGA_FAILED)"
proof -
  let ?sg = "add_compensations cs sg" and ?st = "ss_compensation_stack (sg_state (add_compensations cs sg))"
  note a = add_compensations_spec [of cs sg]
  have pairs: "map cr_pair ?st = map cmd_pair cs" using a assms(2) by simp
  have rpairs: "map cr_pair (rev ?st) = map cmd_pair (rev cs)"
    using arg_cong [OF pairs, of rev] unfolding rev_map .
  have ne: "?st \<noteq> []" using arg_cong [OF pairs, of length] assms(3) by auto
  have reg: "sg_registry ?sg = Some hyd" using a assms(1) by simp
  note f = fail_compensates [OF reg ne assms(4)]
  have all: "sg_commands sg' = sg_commands sg @ rev (map fst cs) \<and> ss_status (sg_state sg') = SAGA_COMPENSATED"
    if "\<forall>x\<in>set cs. hyd (cmd_type (fst x)) (cmd_data (fst x)) = Some (fst x)"
    using f a rehydrate_all [OF rpairs, of hyd] that by (simp add: rev_map)
  have "ss_status (sg_state sg') = SAGA_FAILED"
    if "\<exists>x\<in>set cs. hyd (cmd_type (fst x)) (cmd_data (fst x)) = None"
    using f lost_some [OF rpairs, of hyd] that by simp
  with f all show ?thesis by blast
qed

theorem compensation_lifo_witness:
  "sg_commands (fst (fail_saga (\<lambda>_. []) 1 ''boom'' True
      (add_compensations [(sample_command ''A'', []), (sample_command ''B'', [])] (new_saga sample_state (Some plain_hydrator))))) =
   [sample_command ''B'', sample_command ''A'']"
proof -
  let ?sg = "new_saga sample_state (Some plain_hydrator)" and ?cs = "[(sample_command ''A'', []), (sample_command ''B'', [])]"
  obtain sg' x where e: "fail_saga (\<lambda>_. []) 1 ''boom'' True (add_compensations ?cs ?sg) = (sg', x)"
    by (cases "fail_saga (\<lambda>_. []) 1 ''boom'' True (add_compensations ?cs ?sg)")
  have "sg_commands sg' = [sample_command ''B'', sample_command ''A'']"
    using compensation_lifo [OF _ _ _ e, of plain_hydrator]
    by (simp add: new_saga_def sample_state_def plain_hydrator_def sample_command_def)
  with e show ?thesis by simp
qed

section \<open>Try-Confirm/Cancel: what is dispatched\<close>

abbreviation tcc_records :: "saga \<Rightarrow> tcc_step_record list" where
  "tcc_records sg \<equiv> snd (load_tcc_records sg)"

definition opt_list :: "'a option \<Rightarrow> 'a list" where
  "opt_list x = (case x of None \<Rightarrow> [] | Some a \<Rightarrow> [a])"

lemma opt_list_simps [simp]: "opt_list None = []" "opt_list (Some a) = [a]" "rev (opt_list x) = opt_list x"
  by (simp_all add: opt_list_def split: option.splits)

abbreviation hyd_confirm :: "hydrator \<Rightarrow> tcc_step_record \<Rightarrow> command option" where
  "hyd_confirm hyd r \<equiv> hyd (cmd_type (tr_confirm r)) (cmd_data (tr_confirm r))"

abbreviation hyd_cancel :: "hydrator \<Rightarrow> tcc_step_record \<Rightarrow> command option" where
  "hyd_cancel hyd r \<equiv> hyd (cmd_type (tr_cancel r)) (cmd_data (tr_cancel r))"

lemma load_tcc_fst [simp]:
  "sg_commands (fst (load_tcc_records sg)) = sg_commands sg"
  "sg_registry (fst (load_tcc_records sg)) = sg_registry sg"
  "sg_state (fst (load_tcc_records sg)) = sg_state sg"
  "sg_tcc_cache (fst (load_tcc_records sg)) = Some (tcc_records sg)"
  by (simp_all add: load_tcc_records_def split: option.splits)

lemma save_tcc_simps [simp]:
  "sg_commands (save_tcc_records rs sg) = sg_commands sg" "sg_registry (save_tcc_records rs sg) = sg_registry sg"
  "sg_tcc_cache (save_tcc_records rs sg) = Some rs"
  "ss_status (sg_state (save_tcc_records rs sg)) = ss_status (sg_state sg)"
  by (simp_all add: save_tcc_records_def)

lemma tcc_records_cached: "sg_tcc_cache sg = Some rs \<Longrightarrow> tcc_records sg = rs"
  by (simp add: load_tcc_records_def)

lemma set_tcc_phase_spec:
  "tcc_records (set_tcc_phase now n ph u sg) =
     map (\<lambda>r. if tr_name r = n then u (r\<lparr>tr_phase := ph\<rparr>) else r) (tcc_records sg)"
  "sg_commands (set_tcc_phase now n ph u sg) = sg_commands sg"
  "sg_registry (set_tcc_phase now n ph u sg) = sg_registry sg"
  "ss_status (sg_state (set_tcc_phase now n ph u sg)) = ss_status (sg_state sg)"
  by (simp_all add: set_tcc_phase_def split_beta ss_touch_def tcc_records_cached)

definition confirms :: "hydrator \<Rightarrow> tcc_step_record list \<Rightarrow> command list" where
  "confirms hyd rs = concat (map (\<lambda>r. opt_list (hyd_confirm hyd r)) rs)"

lemma confirm_loop_spec:
  assumes "list_all (\<lambda>r. tr_phase r = TCC_TRIED) rs" "confirm_loop hyd rs upd sg = (sg', upd')"
  shows "sg_commands sg' = sg_commands sg @ confirms hyd rs \<and> sg_state sg' = sg_state sg \<and>
         upd' = upd @ map (\<lambda>r. if hyd_confirm hyd r = None then r else r\<lparr>tr_phase := TCC_CONFIRMING\<rparr>) rs"
  using assms
proof (induction rs arbitrary: upd sg)
  case (Cons r rs)
  have all: "list_all (\<lambda>r. tr_phase r = TCC_TRIED) rs" using Cons.prems(1) by simp
  show ?case
  proof (cases "hyd_confirm hyd r")
    case None
    then have "confirm_loop hyd rs (upd @ [r]) sg = (sg', upd')" using Cons.prems by simp
    from Cons.IH [OF all this] None show ?thesis by (simp add: confirms_def)
  next
    case (Some c)
    then have "confirm_loop hyd rs (upd @ [r\<lparr>tr_phase := TCC_CONFIRMING\<rparr>]) (dispatch c sg) = (sg', upd')"
      using Cons.prems by simp
    from Cons.IH [OF all this] Some show ?thesis by (simp add: confirms_def)
  qed
qed (simp add: confirms_def)

abbreviation tried :: "time \<Rightarrow> string \<Rightarrow> tcc_step_record list \<Rightarrow> tcc_step_record list" where
  "tried now n rs \<equiv>
     map (\<lambda>r. if tr_name r = n then r\<lparr>tr_phase := TCC_TRIED, tr_tried_at := Some now\<rparr> else r) rs"

text \<open>
  C34: nothing is confirmed before everything is reserved.  Reporting a Try as successful queues
  commands only if every step of the saga is now TRIED; then it queues exactly the Confirm commands of
  all steps, in step order, and the steps are CONFIRMING.  Otherwise it queues nothing and records
  the step as TRIED.
\<close>

theorem tcc_confirms_when_all_tried:
  assumes "sg_registry sg = Some hyd" "mark_step_tried now n sg = (sg', x)"
  shows "x = None \<and>
         (if list_all (\<lambda>r. tr_phase r = TCC_TRIED) (tried now n (tcc_records sg))
          then sg_commands sg' = sg_commands sg @ confirms hyd (tcc_records sg) \<and>
               tcc_records sg' = map (\<lambda>r. if hyd_confirm hyd r = None then r else r\<lparr>tr_phase := TCC_CONFIRMING\<rparr>)
                                   (tried now n (tcc_records sg))
          else sg_commands sg' = sg_commands sg \<and> tcc_records sg' = tried now n (tcc_records sg))"
proof -
  let ?sg = "set_tcc_phase now n TCC_TRIED (\<lambda>r. r\<lparr>tr_tried_at := Some now\<rparr>) sg"
  have rs: "tcc_records ?sg = tried now n (tcc_records sg)" by (simp add: set_tcc_phase_spec)
  have same: "confirms hyd (tried now n (tcc_records sg)) = confirms hyd (tcc_records sg)"
    unfolding confirms_def by (induction "tcc_records sg") (auto simp: comp_def intro: arg_cong [of _ _ concat])
  show ?thesis
  proof (cases "list_all (\<lambda>r. tr_phase r = TCC_TRIED) (tried now n (tcc_records sg))")
    case True
    obtain sg1 u where l: "confirm_loop hyd (tcc_records ?sg) [] (fst (load_tcc_records ?sg)) = (sg1, u)"
      by (cases "confirm_loop hyd (tcc_records ?sg) [] (fst (load_tcc_records ?sg))")
    from confirm_loop_spec [OF _ l] True rs have c: "sg_commands sg1 = sg_commands sg @ confirms hyd (tcc_records sg)"
        "u = map (\<lambda>r. if hyd_confirm hyd r = None then r else r\<lparr>tr_phase := TCC_CONFIRMING\<rparr>) (tried now n (tcc_records sg))"
      by (simp_all add: same set_tcc_phase_spec)
    have "mark_step_tried now n sg = dispatch_confirms now ?sg"
      using True rs by (simp add: mark_step_tried_def all_tcc_steps_in_phase_def Let_def)
    with assms l have "x = None" "sg' = upd_state (\<lambda>s. ss_touch now (s\<lparr>ss_current_step := ''confirming''\<rparr>)) (save_tcc_records u sg1)"
      by (auto simp: dispatch_confirms_def set_tcc_phase_spec split_beta)
    with c True show ?thesis by (simp add: tcc_records_cached)
  next
    case False
    then have "mark_step_tried now n sg = (?sg, None)"
      using rs by (simp add: mark_step_tried_def all_tcc_steps_in_phase_def Let_def)
    with assms(2) False rs show ?thesis by (auto simp: set_tcc_phase_spec)
  qed
qed

definition tcc_sample :: saga where
  "tcc_sample = (new_saga (sample_state\<lparr>ss_tcc_steps :=
     [tcc_record_of 0 \<lparr>ts_name = ''a'', ts_try = sample_command ''TryA'', ts_confirm = sample_command ''ConfirmA'',
        ts_cancel = sample_command ''CancelA'', ts_reservation_type = TIME_BASED, ts_timeout = Some 5\<rparr>,
      tcc_record_of 0 \<lparr>ts_name = ''b'', ts_try = sample_command ''TryB'', ts_confirm = sample_command ''ConfirmB'',
        ts_cancel = sample_command ''CancelB'', ts_reservation_type = TIME_BASED, ts_timeout = Some 5\<rparr>]\<rparr>)
     (Some plain_hydrator))"

theorem tcc_confirms_when_all_tried_witness:
  "sg_commands (fst (mark_step_tried 1 ''a'' tcc_sample)) = []"
proof -
  obtain sg' x where e: "mark_step_tried 1 ''a'' tcc_sample = (sg', x)" by (cases "mark_step_tried 1 ''a'' tcc_sample")
  have "sg_registry tcc_sample = Some plain_hydrator" by (simp add: tcc_sample_def new_saga_def)
  from tcc_confirms_when_all_tried [OF this e] e show ?thesis
    by (simp add: tcc_sample_def new_saga_def load_tcc_records_def tcc_record_of_def)
qed

text \<open>The cancellation loop visits each step in progress once, from the last to the first.\<close>

lemma cancel_loop_spec:
  assumes "distinct is" "\<forall>i\<in>set is. i < length rs" "cancel_loop hyd is rs sg = (sg', rs')"
  shows "sg_commands sg' = sg_commands sg @ concat (map (\<lambda>i. opt_list (hyd_cancel hyd (rs ! i))) is) \<and>
         sg_registry sg' = sg_registry sg \<and> length rs' = length rs \<and>
         (\<forall>j<length rs. rs' ! j = (if j \<in> set is \<and> hyd_cancel hyd (rs ! j) \<noteq> None
                                   then (rs ! j)\<lparr>tr_phase := TCC_CANCELLING\<rparr> else rs ! j))"
  using assms
proof (induction "is" arbitrary: rs sg)
  case (Cons i "is")
  have i: "i \<notin> set is" "i < length rs" "distinct is" using Cons.prems(1,2) by simp_all
  show ?case
  proof (cases "hyd_cancel hyd (rs ! i)")
    case None
    then have l: "cancel_loop hyd is rs sg = (sg', rs')" using Cons.prems(3) by simp
    from Cons.IH [OF i(3) _ l] Cons.prems(2) None show ?thesis by auto
  next
    case (Some c)
    let ?rs = "rs[i := (rs ! i)\<lparr>tr_phase := TCC_CANCELLING\<rparr>]"
    have l: "cancel_loop hyd is ?rs (dispatch c sg) = (sg', rs')" using Some Cons.prems(3) by simp
    have same: "?rs ! k = rs ! k" if "k \<noteq> i" for k using that by simp
    have cs: "map (\<lambda>k. opt_list (hyd_cancel hyd (?rs ! k))) is = map (\<lambda>k. opt_list (hyd_cancel hyd (rs ! k))) is"
      using i(1) by (intro map_cong HOL.refl) (metis same)
    from Cons.IH [OF i(3) _ l] Cons.prems(2)
    have ih: "sg_commands sg' = sg_commands sg @ c # concat (map (\<lambda>k. opt_list (hyd_cancel hyd (rs ! k))) is)"
        "sg_registry sg' = sg_registry sg" "length rs' = length rs"
        "\<And>j. j < length rs \<Longrightarrow> rs' ! j = (if j \<in> set is \<and> hyd_cancel hyd (?rs ! j) \<noteq> None
           then (?rs ! j)\<lparr>tr_phase := TCC_CANCELLING\<rparr> else ?rs ! j)"
      unfolding cs by simp_all
    have "rs' ! j = (if j \<in> set (i # is) \<and> hyd_cancel hyd (rs ! j) \<noteq> None
        then (rs ! j)\<lparr>tr_phase := TCC_CANCELLING\<rparr> else rs ! j)" if "j < length rs" for j
      using ih(4) [OF that] i Some by (cases "j = i") auto
    with ih(1-3) Some show ?thesis by simp
  qed
qed simp

definition cancels :: "hydrator \<Rightarrow> tcc_step_record list \<Rightarrow> command list" where
  "cancels hyd rs = rev (concat (map (\<lambda>r. if in_progress r then opt_list (hyd_cancel hyd r) else []) rs))"

definition cancelling :: "hydrator \<Rightarrow> tcc_step_record \<Rightarrow> tcc_step_record" where
  "cancelling hyd r = (if in_progress r \<and> hyd_cancel hyd r \<noteq> None then r\<lparr>tr_phase := TCC_CANCELLING\<rparr> else r)"

lemma concat_map_filter: "concat (map f (filter P xs)) = concat (map (\<lambda>x. if P x then f x else []) xs)"
  by (induction xs) simp_all

lemma cancels_by_index:
  "concat (map (\<lambda>i. opt_list (hyd_cancel hyd (rs ! i))) (rev (filter (\<lambda>i. in_progress (rs ! i)) [0..<length rs]))) =
   cancels hyd rs"
proof -
  let ?f = "\<lambda>r. if in_progress r then opt_list (hyd_cancel hyd r) else []"
  have "concat (map (\<lambda>i. opt_list (hyd_cancel hyd (rs ! i))) (filter (\<lambda>i. in_progress (rs ! i)) [0..<length rs])) =
      concat (map ?f (map ((!) rs) [0..<length rs]))"
    by (simp add: concat_map_filter comp_def)
  also have "\<dots> = concat (map ?f rs)" by (simp only: map_nth)
  finally have "rev (concat (map (\<lambda>i. opt_list (hyd_cancel hyd (rs ! i))) (filter (\<lambda>i. in_progress (rs ! i)) [0..<length rs]))) =
      cancels hyd rs" by (simp add: cancels_def)
  then show ?thesis by (simp add: rev_concat rev_map comp_def)
qed

lemma dispatch_cancels_spec:
  assumes "sg_registry sg = Some hyd" "dispatch_cancels now reason sg = (sg', x)"
  shows "x = None \<and> sg_commands sg' = sg_commands sg @ cancels hyd (tcc_records sg) \<and>
         sg_registry sg' = Some hyd \<and> ss_status (sg_state sg') = SAGA_COMPENSATING \<and>
         tcc_records sg' = map (cancelling hyd) (tcc_records sg)"
proof -
  let ?rs = "tcc_records sg" and ?is = "rev (filter (\<lambda>i. in_progress (tcc_records sg ! i)) [0..<length (tcc_records sg)])"
  obtain sg1 rs1 where l: "cancel_loop hyd ?is ?rs (fst (load_tcc_records sg)) = (sg1, rs1)"
    by (cases "cancel_loop hyd ?is ?rs (fst (load_tcc_records sg))")
  have d: "distinct ?is" "\<forall>i\<in>set ?is. i < length ?rs" by auto
  note spec = cancel_loop_spec [OF d l, unfolded cancels_by_index load_tcc_fst]
  note c = spec [THEN conjunct1] spec [THEN conjunct2, THEN conjunct1]
    spec [THEN conjunct2, THEN conjunct2, THEN conjunct1]
    spec [THEN conjunct2, THEN conjunct2, THEN conjunct2, rule_format]
  have "rs1 = map (cancelling hyd) ?rs"
  proof (rule nth_equalityI)
    fix j assume "j < length rs1"
    then have j: "j < length ?rs" "j \<in> set ?is \<longleftrightarrow> in_progress (?rs ! j)" using c(3) by simp_all
    show "rs1 ! j = map (cancelling hyd) ?rs ! j"
      unfolding nth_map [OF j(1)] c(4) [OF j(1)] j(2) cancelling_def by (rule HOL.refl)
  qed (simp add: c(3))
  then show ?thesis using assms l c(1,2)
    by (auto simp: dispatch_cancels_def split_beta tcc_records_cached ss_touch_def)
qed

lemma mark_step_failed_spec:
  assumes "sg_registry sg = Some hyd" "mark_step_failed now n reason sg = (sg', x)"
  shows "x = None \<and> sg_commands sg' = sg_commands sg @ cancels hyd (tcc_records sg) \<and>
         sg_registry sg' = Some hyd \<and> ss_status (sg_state sg') = SAGA_COMPENSATING \<and>
         tcc_records sg' = map (\<lambda>r. if tr_name r = n then (cancelling hyd r)\<lparr>tr_phase := TCC_FAILED, tr_error := Some reason\<rparr>
                                    else cancelling hyd r) (tcc_records sg)"
proof -
  obtain sg1 y where d: "dispatch_cancels now reason sg = (sg1, y)" by (cases "dispatch_cancels now reason sg")
  note c = dispatch_cancels_spec [OF assms(1) d]
  have name: "tr_name (cancelling hyd r) = tr_name r" for r by (simp add: cancelling_def)
  show ?thesis using assms(2) d c
    by (auto simp: mark_step_failed_def set_tcc_phase_spec name)
qed

text \<open>
  a failed step cancels the others.  When a step fails, the Cancel commands of all steps in
  progress are queued, the last step first, each once; the saga is COMPENSATING, the failed step is
  FAILED, and every other step that was in progress and whose command could be rebuilt is CANCELLING.
\<close>

theorem tcc_failure_cancels_lifo:
  assumes "sg_registry sg = Some hyd" "mark_step_failed now n reason sg = (sg', x)"
  shows "x = None \<and> ss_status (sg_state sg') = SAGA_COMPENSATING \<and>
         sg_commands sg' = sg_commands sg @
           rev (concat (map (\<lambda>r. if in_progress r then opt_list (hyd_cancel hyd r) else []) (tcc_records sg))) \<and>
         map tr_phase (tcc_records sg') =
           map (\<lambda>r. if tr_name r = n then TCC_FAILED
                    else if in_progress r \<and> hyd_cancel hyd r \<noteq> None then TCC_CANCELLING else tr_phase r) (tcc_records sg)"
  using mark_step_failed_spec [OF assms] by (auto simp: cancels_def cancelling_def)

theorem tcc_failure_cancels_lifo_witness:
  "map cmd_type (sg_commands (fst (mark_step_failed 1 ''a'' ''no stock'' tcc_sample))) = [''CancelB'', ''CancelA'']"
proof -
  obtain sg' x where e: "mark_step_failed 1 ''a'' ''no stock'' tcc_sample = (sg', x)"
    by (cases "mark_step_failed 1 ''a'' ''no stock'' tcc_sample")
  have "sg_registry tcc_sample = Some plain_hydrator" by (simp add: tcc_sample_def new_saga_def)
  from tcc_failure_cancels_lifo [OF this e] e show ?thesis
    by (simp add: tcc_sample_def new_saga_def load_tcc_records_def tcc_record_of_def in_progress_def
        plain_hydrator_def sample_command_def)
qed

text \<open>Once a failure has been processed, only steps whose Cancel cannot be rebuilt stay in progress.\<close>

definition drained :: "hydrator \<Rightarrow> tcc_step_record list \<Rightarrow> bool" where
  "drained hyd rs \<longleftrightarrow> list_all (\<lambda>r. in_progress r \<longrightarrow> hyd_cancel hyd r = None) rs"

lemma drained_cancels: "drained hyd rs \<Longrightarrow> cancels hyd rs = []"
  unfolding drained_def cancels_def by (induction rs) auto

lemma failed_drained:
  "drained hyd (map (\<lambda>r. if tr_name r = n then (cancelling hyd r)\<lparr>tr_phase := TCC_FAILED, tr_error := Some e\<rparr>
                          else cancelling hyd r) rs)"
  by (auto simp: drained_def cancelling_def in_progress_def list_all_iff)

lemma expire_loop_drained:
  assumes "sg_registry sg = Some hyd" "drained hyd (tcc_records sg)" "expire_loop now ns sg = (sg', x)"
  shows "x = None \<and> sg_commands sg' = sg_commands sg \<and> drained hyd (tcc_records sg')"
  using assms
proof (induction ns arbitrary: sg)
  case (Cons n ns)
  obtain sg1 y where m: "mark_step_failed now n (expired_reason n) sg = (sg1, y)"
    by (cases "mark_step_failed now n (expired_reason n) sg")
  note c = mark_step_failed_spec [OF Cons.prems(1) m]
  have "drained hyd (tcc_records sg1)" unfolding c [THEN conjunct2, THEN conjunct2, THEN conjunct2, THEN conjunct2] by (rule failed_drained)
  from Cons.IH [OF _ this] c Cons.prems(2,3) m show ?case by (simp add: drained_cancels)
qed simp

text \<open>
  expired reservations are cancelled once.  The time-out check reports the steps with an
  expired time-based reservation; if there is any, one Cancel command per step in progress is queued,
  last step first, however many steps expired together, and afterwards no step is in progress whose
  Cancel command could be rebuilt; if there is none, nothing is queued.
\<close>

theorem tcc_timeouts_cancel_once:
  assumes "sg_registry sg = Some hyd" "check_tcc_timeouts now sg = (sg', x)"
  defines "expired \<equiv> filter (tcc_expired now) (tcc_records sg)"
  shows "x = Inr (map tr_name expired) \<and>
         sg_commands sg' = sg_commands sg @ (if expired = [] then [] else cancels hyd (tcc_records sg)) \<and>
         (expired \<noteq> [] \<longrightarrow> drained hyd (tcc_records sg'))"
proof -
  let ?sg = "fst (load_tcc_records sg)"
  have rs: "tcc_records ?sg = tcc_records sg" by (simp add: tcc_records_cached)
  obtain sg1 y where l: "expire_loop now (map tr_name expired) ?sg = (sg1, y)"
    by (cases "expire_loop now (map tr_name expired) ?sg")
  have loop: "y = None \<and> sg_commands sg1 = sg_commands sg @ (if expired = [] then [] else cancels hyd (tcc_records sg)) \<and>
      (expired \<noteq> [] \<longrightarrow> drained hyd (tcc_records sg1))"
  proof (cases expired)
    case Nil
    then show ?thesis using l by auto
  next
    case (Cons r ex)
    obtain sg2 z where m: "mark_step_failed now (tr_name r) (expired_reason (tr_name r)) ?sg = (sg2, z)"
      by (cases "mark_step_failed now (tr_name r) (expired_reason (tr_name r)) ?sg")
    have c: "z = None" "sg_commands sg2 = sg_commands sg @ cancels hyd (tcc_records sg)" "sg_registry sg2 = Some hyd"
        "drained hyd (tcc_records sg2)"
      using mark_step_failed_spec [OF _ m, of hyd] assms(1) rs failed_drained by simp_all
    have "expire_loop now (map tr_name ex) sg2 = (sg1, y)" using l Cons m c(1) by simp
    from expire_loop_drained [OF c(3,4) this] c(2) Cons show ?thesis by simp
  qed
  then show ?thesis using assms(2) l by (auto simp: check_tcc_timeouts_def split_beta expired_def Let_def)
qed

theorem tcc_timeouts_cancel_once_witness:
  "map cmd_type (sg_commands (fst (check_tcc_timeouts 9 tcc_sample))) = [''CancelB'', ''CancelA'']"
proof -
  obtain sg' x where e: "check_tcc_timeouts 9 tcc_sample = (sg', x)" by (cases "check_tcc_timeouts 9 tcc_sample")
  have "sg_registry tcc_sample = Some plain_hydrator" by (simp add: tcc_sample_def new_saga_def)
  from tcc_timeouts_cancel_once [OF this e] e show ?thesis
    by (simp add: tcc_sample_def new_saga_def load_tcc_records_def tcc_record_of_def in_progress_def
        plain_hydrator_def sample_command_def cancels_def tcc_expired_def)
qed

end
