(* ===== verification/SagaManager.thy ===== *)
theory SagaManager
  imports Saga
begin

text \<open>
  \<^verbatim>\<open>SagaManager\<close> (sagas/manager.py) with the \<^verbatim>\<open>SagaRegistry\<close> (sagas/registry.py) and the
  \<^verbatim>\<open>InMemorySagaRepository\<close> (adapters/memory/sagas.py) it works on.

  \<^item> The command bus is a parameter: \<open>send b c\<close> is the bus after \<open>c\<close> was sent and the exception raised.
  \<^item> A saga class is an element of a type \<open>'c\<close> (class identity); \<open>info\<close> gives what the class defines: its
    name, the events it listens to, what its constructor adds to the base saga, its handlers and its
    \<^verbatim>\<open>on_timeout\<close>.
  \<^item> \<open>construct\<close> stands for importing the module of an unregistered command type and calling the class.
\<close>

section \<open>InMemorySagaRepository\<close>

type_synonym saga_repo = "(string, saga_state) mem_repo"

definition sagas_add :: "saga_repo \<Rightarrow> saga_state \<Rightarrow> saga_repo \<times> saga_state" where
  "sagas_add r s = (let s = s\<lparr>ss_version := ss_version s + 1\<rparr> in (AList.update (ss_id s) s r, s))"

definition sagas_get :: "saga_repo \<Rightarrow> string \<Rightarrow> saga_state spec_opt \<Rightarrow> saga_state option" where
  "sagas_get r i spec =
     (case spec of
        Some p \<Rightarrow> (case map_of r i of None \<Rightarrow> None | Some s \<Rightarrow> if \<not> p s then None else Some s)
      | None \<Rightarrow> map_of r i)"

definition sagas_delete :: "saga_repo \<Rightarrow> string \<Rightarrow> saga_state spec_opt \<Rightarrow> saga_repo" where
  "sagas_delete r i spec =
     (case (spec, map_of r i) of
        (Some p, Some s) \<Rightarrow> if \<not> p s then r else AList.delete i r
      | _ \<Rightarrow> AList.delete i r)"

definition sagas_list_all :: "saga_repo \<Rightarrow> string list option \<Rightarrow> saga_state spec_opt \<Rightarrow> saga_state list" where
  "sagas_list_all r ids spec =
     (let candidates = (case ids of None \<Rightarrow> dvalues r
                        | Some is \<Rightarrow> dvalues (filter (\<lambda>(i, s). i \<in> set is) r))
      in case spec of None \<Rightarrow> candidates | Some p \<Rightarrow> filter p candidates)"

definition sagas_search :: "saga_repo \<Rightarrow> (saga_state \<Rightarrow> bool) \<Rightarrow> saga_state list" where
  "sagas_search r p = filter p (dvalues r)"

definition find_by_correlation_id :: "saga_repo \<Rightarrow> string \<Rightarrow> string \<Rightarrow> saga_state option" where
  "find_by_correlation_id r c t =
     find (\<lambda>s. ss_correlation_id s = Some c \<and> ss_saga_type s = t) (dvalues r)"

text \<open>The common loop of the queries: collect until the limit is reached, testing after each append.\<close>

fun collect_limited :: "int \<Rightarrow> ('a \<Rightarrow> bool) \<Rightarrow> 'a spec_opt \<Rightarrow> 'a list \<Rightarrow> 'a list \<Rightarrow> 'a list" where
  "collect_limited limit P spec [] result = result"
| "collect_limited limit P spec (x # xs) result =
     (if P x then
        (if \<not> satisfies spec x then collect_limited limit P spec xs result
         else let result = result @ [x]
              in if limit \<le> int (length result) then result else collect_limited limit P spec xs result)
      else collect_limited limit P spec xs result)"

definition find_stalled_sagas :: "saga_repo \<Rightarrow> int \<Rightarrow> saga_state spec_opt \<Rightarrow> saga_state list" where
  "find_stalled_sagas r limit spec =
     collect_limited limit (\<lambda>s. ss_status s = SAGA_RUNNING \<and> ss_pending_commands s \<noteq> []) spec (dvalues r) []"

definition find_suspended_sagas :: "saga_repo \<Rightarrow> int \<Rightarrow> saga_state spec_opt \<Rightarrow> saga_state list" where
  "find_suspended_sagas r limit spec =
     collect_limited limit (\<lambda>s. ss_status s = SAGA_SUSPENDED) spec (dvalues r) []"

definition find_expired_suspended_sagas ::
  "time \<Rightarrow> saga_repo \<Rightarrow> int \<Rightarrow> saga_state spec_opt \<Rightarrow> saga_state list" where
  "find_expired_suspended_sagas now r limit spec =
     collect_limited limit
       (\<lambda>s. ss_status s = SAGA_SUSPENDED \<and> (case ss_timeout_at s of None \<Rightarrow> False | Some t \<Rightarrow> t \<le> now))
       spec (dvalues r) []"

definition find_running_sagas_with_tcc_steps :: "saga_repo \<Rightarrow> int \<Rightarrow> saga_state spec_opt \<Rightarrow> saga_state list" where
  "find_running_sagas_with_tcc_steps r limit spec =
     collect_limited limit (\<lambda>s. ss_status s = SAGA_RUNNING \<and> ss_tcc_steps s \<noteq> []) spec (dvalues r) []"

definition sagas_clear :: "saga_repo \<Rightarrow> saga_repo" where
  "sagas_clear r = []"

section \<open>SagaRegistry\<close>

record 'c saga_class_info =
  sc_name :: "'c \<Rightarrow> string"
  sc_listens_to :: "'c \<Rightarrow> string list"
  sc_setup :: "'c \<Rightarrow> saga \<Rightarrow> saga"
  sc_handlers :: "'c \<Rightarrow> saga_handlers"
  sc_on_timeout :: "'c \<Rightarrow> time \<Rightarrow> saga \<Rightarrow> saga \<times> exn option"

record 'c saga_registry =
  rg_event_map :: "(string, 'c list) dict"
  rg_type_map :: "(string, 'c) dict"

definition register_type :: "'c saga_class_info \<Rightarrow> 'c \<Rightarrow> 'c saga_registry \<Rightarrow> 'c saga_registry" where
  "register_type info c rg = rg\<lparr>rg_type_map := AList.update (sc_name info c) c (rg_type_map rg)\<rparr>"

definition clear_sagas :: "'c saga_registry \<Rightarrow> 'c saga_registry" where
  "clear_sagas rg = rg\<lparr>rg_event_map := [], rg_type_map := []\<rparr>"

definition get_sagas_for_event :: "'c saga_registry \<Rightarrow> string \<Rightarrow> 'c list" where
  "get_sagas_for_event rg et = (case map_of (rg_event_map rg) et of None \<Rightarrow> [] | Some cs \<Rightarrow> cs)"

definition register_for_event ::
  "'c saga_class_info \<Rightarrow> string \<Rightarrow> 'c \<Rightarrow> 'c saga_registry \<Rightarrow> 'c saga_registry" where
  "register_for_event info et c rg =
     (let em = (if et \<notin> set (dkeys (rg_event_map rg)) then AList.update et [] (rg_event_map rg)
                else rg_event_map rg);
          em = (if c \<notin> set (the (map_of em et)) then AList.update et (the (map_of em et) @ [c]) em else em)
      in register_type info c (rg\<lparr>rg_event_map := em\<rparr>))"

definition register_saga :: "'c saga_class_info \<Rightarrow> 'c \<Rightarrow> 'c saga_registry \<Rightarrow> 'c saga_registry" where
  "register_saga info c rg =
     (if sc_listens_to info c \<noteq> []
      then fold (\<lambda>et. register_for_event info et c) (sc_listens_to info c) rg
      else register_type info c rg)"

definition get_saga_type :: "'c saga_registry \<Rightarrow> string \<Rightarrow> 'c option" where
  "get_saga_type rg name = map_of (rg_type_map rg) name"

section \<open>SagaManager\<close>

type_synonym 'b bus_send = "'b \<Rightarrow> command \<Rightarrow> 'b \<times> exn option"
type_synonym 'b saga_world = "saga_repo \<times> 'b"

definition correlation_id_from_event :: "saga_event \<Rightarrow> string option" where
  "correlation_id_from_event ev =
     (if truthy (ev_correlation_id ev) then ev_correlation_id ev
      else if ev_metadata ev \<noteq> [] then map_of (ev_metadata ev) ''correlation_id'' else None)"

definition inject_tenant_metadata :: "saga_event option \<Rightarrow> saga_state \<Rightarrow> saga_state" where
  "inject_tenant_metadata ev s =
     (case ev of
        None \<Rightarrow> s
      | Some e \<Rightarrow>
          (case map_of (ev_metadata e) ''tenant_id'' of
             None \<Rightarrow> s
           | Some t \<Rightarrow> if t \<noteq> [] \<and> ''tenant_id'' \<notin> set (dkeys (ss_metadata s))
                       then s\<lparr>ss_metadata := AList.update ''tenant_id'' (JStr t) (ss_metadata s)\<rparr> else s))"

definition initial_saga_state :: "time \<Rightarrow> string \<Rightarrow> string \<Rightarrow> string \<Rightarrow> saga_state" where
  "initial_saga_state now i t c =
     \<lparr>ss_id = i, ss_saga_type = t, ss_status = SAGA_PENDING, ss_current_step = ''init'', ss_step_history = [],
      ss_tcc_steps = [], ss_processed_event_ids = [], ss_pending_commands = [], ss_compensation_stack = [],
      ss_failed_compensations = [], ss_suspended_at = None, ss_suspension_reason = None,
      ss_timeout_at = None, ss_retry_count = 0, ss_max_retries = 3, ss_error = None,
      ss_completed_at = None, ss_failed_at = None, ss_correlation_id = Some c, ss_metadata = [],
      ss_tenant_id = None, ss_updated_at = now, ss_version = 0\<rparr>"

definition create_initial_saga_state ::
  "time \<Rightarrow> string \<Rightarrow> string \<Rightarrow> string \<Rightarrow> saga_event option \<Rightarrow> saga_repo \<Rightarrow> saga_repo \<times> saga_state" where
  "create_initial_saga_state now fresh t c ev r =
     sagas_add r (inject_tenant_metadata ev (initial_saga_state now fresh t c))"

definition mark_dispatched :: "nat \<Rightarrow> saga_state \<Rightarrow> saga_state" where
  "mark_dispatched i s =
     s\<lparr>ss_pending_commands := (ss_pending_commands s)[i := (ss_pending_commands s ! i)\<lparr>pc_dispatched := True\<rparr>]\<rparr>"

fun dispatch_and_persist ::
  "'b bus_send \<Rightarrow> nat \<Rightarrow> command list \<Rightarrow> saga_state \<Rightarrow> 'b saga_world \<Rightarrow> saga_state \<times> 'b saga_world \<times> exn option" where
  "dispatch_and_persist send i [] s w = (s, w, None)"
| "dispatch_and_persist send i (c # cs) s (r, b) =
     (case send b c of
        (b, Some e) \<Rightarrow> (s, (r, b), Some e)
      | (b, None) \<Rightarrow>
          if length (ss_pending_commands s) \<le> i then (s, (r, b), Some IndexError)
          else (case sagas_add r (mark_dispatched i s) of
                  (r, s) \<Rightarrow> dispatch_and_persist send (Suc i) cs s (r, b)))"

text \<open>\<open>build_saga\<close> is \<^verbatim>\<open>saga_class(state, message_registry)\<close>.\<close>

definition build_saga :: "'c saga_class_info \<Rightarrow> hydrator \<Rightarrow> 'c \<Rightarrow> saga_state \<Rightarrow> saga" where
  "build_saga info hyd c s = sc_setup info c (new_saga s (Some hyd))"

text \<open>
  The second half of \<^verbatim>\<open>_process_saga\<close>: collect, persist, dispatch, clear.  The last component of the
  result says that the recovery trigger was called.
\<close>

definition persist_and_dispatch ::
  "'b bus_send \<Rightarrow> bool \<Rightarrow> time \<Rightarrow> saga \<Rightarrow> 'b saga_world \<Rightarrow> 'b saga_world \<times> (exn + string option) \<times> bool" where
  "persist_and_dispatch send has_trigger now sg w =
     (case (collect_commands sg, w) of
        ((sg, cmds), (r, b)) \<Rightarrow>
          let s = sg_state sg;
              s = s\<lparr>ss_pending_commands := ss_pending_commands s @ map serialize_command_for_pending cmds\<rparr>
          in case sagas_add r s of (r, s) \<Rightarrow>
               case dispatch_and_persist send 0 cmds s (r, b) of
                 (s, w, Some ex) \<Rightarrow> (w, Inl ex, has_trigger)
               | (s, (r, b), None) \<Rightarrow>
                   ((fst (sagas_add r (ss_touch now (s\<lparr>ss_pending_commands := []\<rparr>))), b),
                    Inr (Some (ss_id s)), False))"

definition process_saga ::
  "'c saga_class_info \<Rightarrow> hydrator \<Rightarrow> 'b bus_send \<Rightarrow> bool \<Rightarrow> time \<Rightarrow> string \<Rightarrow> 'c \<Rightarrow> string \<Rightarrow> saga_event option \<Rightarrow>
     'b saga_world \<Rightarrow> 'b saga_world \<times> (exn + string option) \<times> bool" where
  "process_saga info hyd send has_trigger now fresh c corr ev w =
     (case w of (r, b) \<Rightarrow>
        case (case find_by_correlation_id r corr (sc_name info c) of
                Some s \<Rightarrow> (r, s)
              | None \<Rightarrow> create_initial_saga_state now fresh (sc_name info c) corr ev r) of
          (r, s) \<Rightarrow>
            if is_terminal s then ((r, b), Inr None, False)
            else case (case ev of None \<Rightarrow> (build_saga info hyd c s, None)
                       | Some e \<Rightarrow> saga_handle now (sc_handlers info c) e (build_saga info hyd c s)) of
              (sg, Some ex) \<Rightarrow> ((fst (sagas_add r (sg_state sg)), b), Inl ex, False)
            | (sg, None) \<Rightarrow> persist_and_dispatch send has_trigger now sg (r, b))"

fun process_sagas ::
  "'c saga_class_info \<Rightarrow> hydrator \<Rightarrow> 'b bus_send \<Rightarrow> bool \<Rightarrow> time \<Rightarrow> ('c \<Rightarrow> string) \<Rightarrow> 'c list \<Rightarrow> string \<Rightarrow> saga_event \<Rightarrow>
     'b saga_world \<Rightarrow> 'b saga_world \<times> exn option" where
  "process_sagas info hyd send tr now fresh [] corr ev w = (w, None)"
| "process_sagas info hyd send tr now fresh (c # cs) corr ev w =
     (case process_saga info hyd send tr now (fresh c) c corr (Some ev) w of
        (w, Inl e, _) \<Rightarrow> (w, Some e)
      | (w, Inr _, _) \<Rightarrow> process_sagas info hyd send tr now fresh cs corr ev w)"

definition manager_handle ::
  "'c saga_class_info \<Rightarrow> 'c saga_registry \<Rightarrow> hydrator \<Rightarrow> 'b bus_send \<Rightarrow> bool \<Rightarrow> time \<Rightarrow> ('c \<Rightarrow> string) \<Rightarrow> saga_event \<Rightarrow>
     'b saga_world \<Rightarrow> 'b saga_world \<times> exn option" where
  "manager_handle info rg hyd send tr now fresh ev w =
     (let cs = get_sagas_for_event rg (ev_type ev)
      in if cs = [] then (w, None)
         else if \<not> truthy (correlation_id_from_event ev) then (w, None)
         else process_sagas info hyd send tr now fresh cs (the (correlation_id_from_event ev)) ev w)"

definition start_saga ::
  "'c saga_class_info \<Rightarrow> hydrator \<Rightarrow> 'b bus_send \<Rightarrow> bool \<Rightarrow> time \<Rightarrow> string \<Rightarrow> 'c \<Rightarrow> saga_event \<Rightarrow> string \<Rightarrow>
     'b saga_world \<Rightarrow> 'b saga_world \<times> (exn + string option) \<times> bool" where
  "start_saga info hyd send tr now fresh c ev corr w =
     process_saga info hyd send tr now fresh c corr (Some ev) w"

section \<open>Recovery\<close>

definition deserialize_command ::
  "hydrator \<Rightarrow> (string \<Rightarrow> string \<Rightarrow> payload \<Rightarrow> exn + command) \<Rightarrow> pending_command \<Rightarrow> exn + command" where
  "deserialize_command hyd construct p =
     (case hyd (pc_type_name p) (pc_data p) of
        Some c \<Rightarrow> Inr c
      | None \<Rightarrow>
          if pc_module_name p \<noteq> [] then construct (pc_module_name p) (pc_type_name p) (pc_data p)
          else Inl (HandlerNotRegisteredError (''Command type '' @ pc_type_name p @
                 '' not registered in MessageRegistry'')))"

definition undispatched_commands :: "saga_state \<Rightarrow> (nat \<times> pending_command) list" where
  "undispatched_commands s =
     filter (\<lambda>(i, p). \<not> is_command_dispatched p) (enumerate 0 (ss_pending_commands s))"

fun redispatch_loop ::
  "hydrator \<Rightarrow> (string \<Rightarrow> string \<Rightarrow> payload \<Rightarrow> exn + command) \<Rightarrow> 'b bus_send \<Rightarrow> (nat \<times> pending_command) list \<Rightarrow> saga_state \<Rightarrow>
     'b saga_world \<Rightarrow> saga_state \<times> 'b saga_world \<times> exn option" where
  "redispatch_loop hyd construct send [] s w = (s, w, None)"
| "redispatch_loop hyd construct send ((i, p) # ps) s (r, b) =
     (case deserialize_command hyd construct p of
        Inl e \<Rightarrow> (s, (r, b), Some e)
      | Inr c \<Rightarrow>
          (case send b c of
             (b, Some e) \<Rightarrow> (s, (r, b), Some e)
           | (b, None) \<Rightarrow> (case sagas_add r (mark_dispatched i s) of
                             (r, s) \<Rightarrow> redispatch_loop hyd construct send ps s (r, b))))"

definition dispatch_undispatched ::
  "hydrator \<Rightarrow> (string \<Rightarrow> string \<Rightarrow> payload \<Rightarrow> exn + command) \<Rightarrow> 'b bus_send \<Rightarrow> time \<Rightarrow> (nat \<times> pending_command) list \<Rightarrow>
     saga_state \<Rightarrow> 'b saga_world \<Rightarrow> 'b saga_world \<times> exn option" where
  "dispatch_undispatched hyd construct send now ps s w =
     (case redispatch_loop hyd construct send ps s w of
        (s, w, Some e) \<Rightarrow> (w, Some e)
      | (s, (r, b), None) \<Rightarrow>
          ((fst (sagas_add r (ss_touch now (s\<lparr>ss_pending_commands := [], ss_retry_count := 0\<rparr>))), b), None))"

definition abandon_message :: "int \<Rightarrow> string" where
  "abandon_message n = ''Saga recovery abandoned: max_retries ('' @ show_int n @ '') exceeded''"

definition fail_saga_max_retries ::
  "'c saga_class_info \<Rightarrow> 'c saga_registry \<Rightarrow> hydrator \<Rightarrow> (exn \<Rightarrow> string) \<Rightarrow> time \<Rightarrow> saga_state \<Rightarrow> 'b saga_world \<Rightarrow>
     'b saga_world \<times> exn option" where
  "fail_saga_max_retries info rg hyd str now s w =
     (case w of (r, b) \<Rightarrow>
        case get_saga_type rg (ss_saga_type s) of
          None \<Rightarrow> ((r, b), None)
        | Some c \<Rightarrow>
            (case fail_saga str now (abandon_message (ss_max_retries s)) True (build_saga info hyd c s) of
               (sg, Some e) \<Rightarrow> ((r, b), Some e)
             | (sg, None) \<Rightarrow> ((fst (sagas_add r (sg_state sg)), b), None)))"

definition recover_saga ::
  "'c saga_class_info \<Rightarrow> 'c saga_registry \<Rightarrow> hydrator \<Rightarrow> (string \<Rightarrow> string \<Rightarrow> payload \<Rightarrow> exn + command) \<Rightarrow> 'b bus_send \<Rightarrow>
     (exn \<Rightarrow> string) \<Rightarrow> time \<Rightarrow> saga_state \<Rightarrow> 'b saga_world \<Rightarrow> 'b saga_world \<times> exn option" where
  "recover_saga info rg hyd construct send str now s w =
     (case w of (r, b) \<Rightarrow>
        if undispatched_commands s = []
        then (if ss_pending_commands s \<noteq> []
              then ((fst (sagas_add r (ss_touch now (s\<lparr>ss_pending_commands := []\<rparr>))), b), None)
              else ((r, b), None))
        else if ss_max_retries s \<le> ss_retry_count s
        then fail_saga_max_retries info rg hyd str now s (r, b)
        else (case sagas_add r (ss_touch now (s\<lparr>ss_retry_count := ss_retry_count s + 1\<rparr>)) of
                (r, s') \<Rightarrow>
                  (fst (dispatch_undispatched hyd construct send now (undispatched_commands s) s' (r, b)), None)))"

fun recover_loop ::
  "(saga_state \<Rightarrow> 'b saga_world \<Rightarrow> 'b saga_world \<times> exn option) \<Rightarrow> saga_state list \<Rightarrow> 'b saga_world \<Rightarrow>
     'b saga_world \<times> exn option" where
  "recover_loop one [] w = (w, None)"
| "recover_loop one (s # ss) w =
     (case one s w of (w, Some e) \<Rightarrow> (w, Some e) | (w, None) \<Rightarrow> recover_loop one ss w)"

definition recover_pending_sagas ::
  "'c saga_class_info \<Rightarrow> 'c saga_registry \<Rightarrow> hydrator \<Rightarrow> (string \<Rightarrow> string \<Rightarrow> payload \<Rightarrow> exn + command) \<Rightarrow> 'b bus_send \<Rightarrow>
     (exn \<Rightarrow> string) \<Rightarrow> time \<Rightarrow> int \<Rightarrow> 'b saga_world \<Rightarrow> 'b saga_world \<times> exn option" where
  "recover_pending_sagas info rg hyd construct send str now limit w =
     recover_loop (recover_saga info rg hyd construct send str now) (find_stalled_sagas (fst w) limit None) w"

text \<open>Commands queued by a time-out are sent one by one; a failing send is logged and skipped.\<close>

fun send_quietly :: "'b bus_send \<Rightarrow> command list \<Rightarrow> 'b \<Rightarrow> 'b" where
  "send_quietly send [] b = b"
| "send_quietly send (c # cs) b = send_quietly send cs (fst (send b c))"

definition timeout_saga ::
  "'c saga_class_info \<Rightarrow> 'c saga_registry \<Rightarrow> hydrator \<Rightarrow> 'b bus_send \<Rightarrow> (exn \<Rightarrow> string) \<Rightarrow> time \<Rightarrow> saga_state \<Rightarrow>
     'b saga_world \<Rightarrow> 'b saga_world \<times> exn option" where
  "timeout_saga info rg hyd send str now s w =
     (case w of (r, b) \<Rightarrow>
        case get_saga_type rg (ss_saga_type s) of
          None \<Rightarrow> ((r, b), None)
        | Some c \<Rightarrow>
            (case sc_on_timeout info c now (build_saga info hyd c s) of (sg, ex) \<Rightarrow>
               case (case ex of
                       None \<Rightarrow> (sg, None)
                     | Some e \<Rightarrow>
                         if ss_status (sg_state sg) \<noteq> SAGA_FAILED
                         then fail_saga str now (''Timeout handler failed: '' @ str e) True sg
                         else (sg, None)) of
                 (sg, Some e) \<Rightarrow> ((r, b), Some e)
               | (sg, None) \<Rightarrow>
                   (let sg = (if ss_status (sg_state sg) = SAGA_SUSPENDED \<and>
                                 (case ss_timeout_at (sg_state sg) of None \<Rightarrow> False | Some t \<Rightarrow> t \<le> now)
                              then fst (fail_saga str now ''Timeout handler did not resolve suspension'' False sg)
                              else sg)
                    in case collect_commands sg of
                         (sg, cmds) \<Rightarrow> ((fst (sagas_add r (sg_state sg)), send_quietly send cmds b), None))))"

definition process_timeouts ::
  "'c saga_class_info \<Rightarrow> 'c saga_registry \<Rightarrow> hydrator \<Rightarrow> 'b bus_send \<Rightarrow> (exn \<Rightarrow> string) \<Rightarrow> time \<Rightarrow> int \<Rightarrow> 'b saga_world \<Rightarrow>
     'b saga_world \<times> exn option" where
  "process_timeouts info rg hyd send str now limit w =
     recover_loop (timeout_saga info rg hyd send str now) (find_expired_suspended_sagas now (fst w) limit None) w"

definition tcc_timeout_saga ::
  "'c saga_class_info \<Rightarrow> 'c saga_registry \<Rightarrow> hydrator \<Rightarrow> 'b bus_send \<Rightarrow> time \<Rightarrow> saga_state \<Rightarrow>
     'b saga_world \<Rightarrow> 'b saga_world \<times> exn option" where
  "tcc_timeout_saga info rg hyd send now s w =
     (case w of (r, b) \<Rightarrow>
        case get_saga_type rg (ss_saga_type s) of
          None \<Rightarrow> ((r, b), None)
        | Some c \<Rightarrow>
            (case check_tcc_timeouts now (build_saga info hyd c s) of
               (sg, Inl e) \<Rightarrow> ((r, b), None)
             | (sg, Inr _) \<Rightarrow>
                 (case collect_commands sg of
                    (sg, cmds) \<Rightarrow> ((fst (sagas_add r (sg_state sg)), send_quietly send cmds b), None))))"

definition process_tcc_timeouts ::
  "'c saga_class_info \<Rightarrow> 'c saga_registry \<Rightarrow> hydrator \<Rightarrow> 'b bus_send \<Rightarrow> time \<Rightarrow> int \<Rightarrow> 'b saga_world \<Rightarrow>
     'b saga_world \<times> exn option" where
  "process_tcc_timeouts info rg hyd send now limit w =
     recover_loop (tcc_timeout_saga info rg hyd send now) (find_running_sagas_with_tcc_steps (fst w) limit None) w"

section \<open>The saga repository provides the repository interface\<close>

abbreviation load_saga :: "saga_repo \<Rightarrow> string \<Rightarrow> saga_state option" where
  "load_saga r i \<equiv> sagas_get r i None"

interpretation sagas: repository sagas_add load_saga "\<lambda>r i. sagas_delete r i None" ss_id "repo_ok ss_id"
  by unfold_locales
    (auto simp: sagas_add_def sagas_get_def sagas_delete_def repo_ok_delete Let_def
      repo_ok_update [of ss_id _ "_\<lparr>ss_version := _\<rparr>", simplified]
      split: option.splits dest: repo_ok_get)

lemma load_saga_eq [simp]: "load_saga r i = map_of r i"
  by (simp add: sagas_get_def)

lemma sagas_add_eq:
  "sagas_add r s = (AList.update (ss_id s) (s\<lparr>ss_version := ss_version s + 1\<rparr>) r, s\<lparr>ss_version := ss_version s + 1\<rparr>)"
  by (simp add: sagas_add_def Let_def)

section \<open>Sending a list of commands\<close>

text \<open>Send in order until the first failure; the number that went out is returned.\<close>

fun send_all :: "'b bus_send \<Rightarrow> 'b \<Rightarrow> command list \<Rightarrow> 'b \<times> nat \<times> exn option" where
  "send_all send b [] = (b, 0, None)"
| "send_all send b (c # cs) =
     (case send b c of
        (b, Some e) \<Rightarrow> (b, 0, Some e)
      | (b, None) \<Rightarrow> (case send_all send b cs of (b, n, e) \<Rightarrow> (b, Suc n, e)))"

definition marked :: "nat \<Rightarrow> nat \<Rightarrow> pending_command list \<Rightarrow> pending_command list" where
  "marked i n ps = map (\<lambda>(k, p). if i \<le> k \<and> k < i + n then p\<lparr>pc_dispatched := True\<rparr> else p) (enumerate 0 ps)"

lemma marked_nth: "k < length ps \<Longrightarrow>
    marked i n ps ! k = (if i \<le> k \<and> k < i + n then (ps ! k)\<lparr>pc_dispatched := True\<rparr> else ps ! k)"
  by (simp add: marked_def nth_enumerate_eq)

lemma length_marked [simp]: "length (marked i n ps) = length ps"
  by (simp add: marked_def)

lemma marked_0 [simp]: "marked i 0 ps = ps"
  by (rule nth_equalityI) (auto simp: marked_nth)

lemma marked_Suc:
  assumes "i < length ps"
  shows "marked (Suc i) n (ps[i := (ps ! i)\<lparr>pc_dispatched := True\<rparr>]) = marked i (Suc n) ps"
proof (rule nth_equalityI)
  fix k assume "k < length (marked (Suc i) n (ps[i := (ps ! i)\<lparr>pc_dispatched := True\<rparr>]))"
  then show "marked (Suc i) n (ps[i := (ps ! i)\<lparr>pc_dispatched := True\<rparr>]) ! k = marked i (Suc n) ps ! k"
    using assms by (cases "k = i") (auto simp: marked_nth)
qed simp

lemma dispatch_and_persist_spec:
  assumes "send_all send b cs = (b', n, e)" "i + length cs \<le> length (ss_pending_commands s)"
  shows "\<exists>s' r'. dispatch_and_persist send i cs s (r, b) = (s', (r', b'), e) \<and>
           s' = s\<lparr>ss_pending_commands := marked i n (ss_pending_commands s), ss_version := ss_version s + int n\<rparr> \<and>
           r' = (if n = 0 then r else AList.update (ss_id s) s' r)"
  using assms
proof (induction cs arbitrary: b n i s r)
  case (Cons c cs)
  obtain b1 x where sd: "send b c = (b1, x)" by (cases "send b c")
  show ?case
  proof (cases x)
    case (Some ex)
    then show ?thesis using Cons.prems sd by auto
  next
    case None
    obtain b2 m e2 where sa: "send_all send b1 cs = (b2, m, e2)" using prod_cases3 by blast
    with Cons.prems(1) sd None have n: "n = Suc m" "b' = b2" "e = e2" by simp_all
    have i: "i < length (ss_pending_commands s)" using Cons.prems(2) by simp
    let ?s = "(mark_dispatched i s)\<lparr>ss_version := ss_version s + 1\<rparr>"
    have len: "Suc i + length cs \<le> length (ss_pending_commands ?s)" using Cons.prems(2) by (simp add: mark_dispatched_def)
    from Cons.IH [OF sa [folded n(2,3)] len, of "AList.update (ss_id s) ?s r"] obtain s' r' where ih:
        "dispatch_and_persist send (Suc i) cs ?s (AList.update (ss_id s) ?s r, b1) = (s', (r', b'), e)"
        "s' = ?s\<lparr>ss_pending_commands := marked (Suc i) m (ss_pending_commands ?s), ss_version := ss_version ?s + int m\<rparr>"
        "r' = (if m = 0 then AList.update (ss_id s) ?s r else AList.update (ss_id ?s) s' (AList.update (ss_id s) ?s r))"
      by blast
    have s': "s' = s\<lparr>ss_pending_commands := marked i n (ss_pending_commands s), ss_version := ss_version s + int n\<rparr>"
      using ih(2) marked_Suc [OF i, of m] by (simp add: mark_dispatched_def n(1))
    have "m = 0 \<Longrightarrow> s' = ?s" using ih(2) by simp
    then have "r' = AList.update (ss_id s) s' r" using ih(3) by (simp add: mark_dispatched_def)
    moreover have "dispatch_and_persist send i (c # cs) s (r, b) = (s', (r', b'), e)"
      using ih(1) i sd None by (simp add: sagas_add_eq mark_dispatched_def)
    ultimately show ?thesis using s' n(1) by (intro exI [of _ s'] exI [of _ r']) simp
  qed
qed simp

section \<open>Processing one event\<close>

text \<open>The state after the handler ran, with the new commands appended to the pending ones.\<close>

definition queued_state :: "saga \<Rightarrow> saga_state" where
  "queued_state sg = (sg_state sg)\<lparr>ss_pending_commands :=
     ss_pending_commands (sg_state sg) @ map serialize_command_for_pending (sg_commands sg)\<rparr>"

lemma queued_state_simps [simp]:
  "ss_id (queued_state sg) = ss_id (sg_state sg)"
  "ss_pending_commands (queued_state sg) =
     ss_pending_commands (sg_state sg) @ map serialize_command_for_pending (sg_commands sg)"
  "ss_status (queued_state sg) = ss_status (sg_state sg)"
  "ss_retry_count (queued_state sg) = ss_retry_count (sg_state sg)"
  "ss_max_retries (queued_state sg) = ss_max_retries (sg_state sg)"
  by (simp_all add: queued_state_def)

lemma persist_and_dispatch_spec:
  assumes "send_all send b (sg_commands sg) = (b', n, x)"
  shows "\<exists>r' v. persist_and_dispatch send tr now sg (r, b) =
            ((r', b'), (case x of Some e \<Rightarrow> Inl e | None \<Rightarrow> Inr (Some (ss_id (sg_state sg)))), tr \<and> x \<noteq> None) \<and>
          map_of r' (ss_id (sg_state sg)) = Some
             (case x of
                Some e \<Rightarrow> (queued_state sg)\<lparr>ss_pending_commands := marked 0 n (ss_pending_commands (queued_state sg)),
                                             ss_version := v\<rparr>
              | None \<Rightarrow> ss_touch now ((queued_state sg)\<lparr>ss_pending_commands := [], ss_version := v\<rparr>))"
proof -
  define s where "s = (queued_state sg)\<lparr>ss_version := ss_version (queued_state sg) + 1\<rparr>"
  define r1 where "r1 = AList.update (ss_id (sg_state sg)) s r"
  have add: "sagas_add r (queued_state sg) = (r1, s)" by (simp add: sagas_add_eq r1_def s_def)
  have len: "0 + length (sg_commands sg) \<le> length (ss_pending_commands s)" by (simp add: s_def)
  from dispatch_and_persist_spec [OF assms len, of r1] obtain s' r' where d:
      "dispatch_and_persist send 0 (sg_commands sg) s (r1, b) = (s', (r', b'), x)"
      "s' = s\<lparr>ss_pending_commands := marked 0 n (ss_pending_commands s), ss_version := ss_version s + int n\<rparr>"
      "r' = (if n = 0 then r1 else AList.update (ss_id s) s' r1)" by blast
  have run: "persist_and_dispatch send tr now sg (r, b) =
      (case x of
         Some ex \<Rightarrow> ((r', b'), Inl ex, tr)
       | None \<Rightarrow> ((fst (sagas_add r' (ss_touch now (s'\<lparr>ss_pending_commands := []\<rparr>))), b'), Inr (Some (ss_id s')), False))"
    using add d(1) by (cases x) (simp_all add: persist_and_dispatch_def collect_commands_def queued_state_def Let_def)
  have id: "ss_id s = ss_id (sg_state sg)" "ss_id s' = ss_id (sg_state sg)" by (simp_all add: d(2) s_def)
  have st: "map_of r' (ss_id (sg_state sg)) = Some s'"
    using d(2,3) id(1) by (cases "n = 0") (simp_all add: r1_def)
  show ?thesis
  proof (cases x)
    case None
    then show ?thesis
      by (intro exI [of _ "fst (sagas_add r' (ss_touch now (s'\<lparr>ss_pending_commands := []\<rparr>)))"] exI [of _ "ss_version s' + 1"])
        (simp add: run id sagas_add_eq ss_touch_def, simp add: d(2) s_def)
  next
    case (Some e)
    then show ?thesis
      by (intro exI [of _ r'] exI [of _ "ss_version s'"]) (simp add: run st, simp add: d(2) s_def)
  qed
qed

lemma process_saga_handled:
  assumes "find_by_correlation_id r corr (sc_name info c) = Some s" "\<not> is_terminal s"
    and "saga_handle now (sc_handlers info c) ev (build_saga info hyd c s) = (sg, None)"
  shows "process_saga info hyd send tr now fresh c corr (Some ev) (r, b) = persist_and_dispatch send tr now sg (r, b)"
  using assms by (simp add: process_saga_def)

section \<open>Recovering\<close>

lemma redispatch_loop_spec:
  assumes "send_all send b cs = (b', n, None)"
    and "map (deserialize_command hyd construct \<circ> snd) us = map Inr cs"
  shows "\<exists>s' r'. redispatch_loop hyd construct send us s (r, b) = (s', (r', b'), None) \<and> ss_id s' = ss_id s \<and>
           (\<exists>ps v. s' = s\<lparr>ss_pending_commands := ps, ss_version := v\<rparr>) \<and>
           (\<forall>k. k \<noteq> ss_id s \<longrightarrow> map_of r' k = map_of r k)"
  using assms
proof (induction us arbitrary: b n cs s r)
  case Nil
  then show ?case by (auto intro!: exI [of _ "ss_pending_commands s"] exI [of _ "ss_version s"])
next
  case (Cons u us)
  obtain i p where u: "u = (i, p)" by (cases u)
  obtain c cs' where cs: "cs = c # cs'" using Cons.prems(2) by (cases cs) auto
  have des: "deserialize_command hyd construct p = Inr c" using Cons.prems(2) u cs by simp
  obtain b1 where sd: "send b c = (b1, None)" using Cons.prems(1) cs by (auto split: prod.splits option.splits)
  obtain m where sa: "send_all send b1 cs' = (b', m, None)"
    using Cons.prems(1) cs sd by (auto split: prod.splits)
  let ?s = "(mark_dispatched i s)\<lparr>ss_version := ss_version s + 1\<rparr>"
  have ds: "map (deserialize_command hyd construct \<circ> snd) us = map Inr cs'" using Cons.prems(2) cs by (simp add: comp_def)
  from Cons.IH [OF sa ds, of ?s "AList.update (ss_id s) ?s r"] show ?case
    using des sd by (auto simp: u sagas_add_eq mark_dispatched_def)
qed

lemma recover_saga_resends:
  assumes "undispatched_commands s \<noteq> []" "ss_retry_count s < ss_max_retries s"
    and "map (deserialize_command hyd construct \<circ> snd) (undispatched_commands s) = map Inr cs"
    and "send_all send b cs = (b', n, None)"
  shows "\<exists>r'. recover_saga info rg hyd construct send str now s (r, b) = ((r', b'), None) \<and>
           (\<exists>v. map_of r' (ss_id s) = Some (ss_touch now (s\<lparr>ss_pending_commands := [], ss_retry_count := 0, ss_version := v\<rparr>))) \<and>
           (\<forall>k. k \<noteq> ss_id s \<longrightarrow> map_of r' k = map_of r k)"
proof -
  define s1 where "s1 = (ss_touch now (s\<lparr>ss_retry_count := ss_retry_count s + 1\<rparr>))\<lparr>ss_version := ss_version s + 1\<rparr>"
  have add: "sagas_add r (ss_touch now (s\<lparr>ss_retry_count := ss_retry_count s + 1\<rparr>)) = (AList.update (ss_id s) s1 r, s1)"
    by (simp add: sagas_add_eq s1_def ss_touch_def)
  from redispatch_loop_spec [OF assms(4,3), of s1 "AList.update (ss_id s) s1 r"] obtain s' r' ps v where l:
      "redispatch_loop hyd construct send (undispatched_commands s) s1 (AList.update (ss_id s) s1 r, b) = (s', (r', b'), None)"
      "s' = s1\<lparr>ss_pending_commands := ps, ss_version := v\<rparr>"
      "\<forall>k. k \<noteq> ss_id s1 \<longrightarrow> map_of r' k = map_of (AList.update (ss_id s) s1 r) k" by blast
  have e: "recover_saga info rg hyd construct send str now s (r, b) =
      ((fst (sagas_add r' (ss_touch now (s'\<lparr>ss_pending_commands := [], ss_retry_count := 0\<rparr>))), b'), None)"
    using assms(1,2) add l(1) by (simp add: recover_saga_def dispatch_undispatched_def)
  show ?thesis
    by (intro exI [of _ "fst (sagas_add r' (ss_touch now (s'\<lparr>ss_pending_commands := [], ss_retry_count := 0\<rparr>)))"]
        conjI exI [of _ "v + 1"] e) (use l(3) in \<open>simp_all add: sagas_add_eq ss_touch_def l(2) s1_def\<close>)
qed

text \<open>
  One pass over stalled sagas.  A saga is resendable when its retries are not used up and its
  commands that did not go out can be rebuilt; those are its remaining commands.
\<close>

definition remaining_commands ::
  "hydrator \<Rightarrow> (string \<Rightarrow> string \<Rightarrow> payload \<Rightarrow> exn + command) \<Rightarrow> saga_state \<Rightarrow> command list" where
  "remaining_commands hyd construct s = map (\<lambda>(i, p). projr (deserialize_command hyd construct p)) (undispatched_commands s)"

definition resendable ::
  "hydrator \<Rightarrow> (string \<Rightarrow> string \<Rightarrow> payload \<Rightarrow> exn + command) \<Rightarrow> saga_state \<Rightarrow> bool" where
  "resendable hyd construct s \<longleftrightarrow> ss_retry_count s < ss_max_retries s \<and>
     list_all (\<lambda>(i, p). is_ok (deserialize_command hyd construct p)) (undispatched_commands s)"

lemma undispatched_marked:
  assumes "n \<le> length cs"
  shows "map snd (filter (\<lambda>(i, p). \<not> is_command_dispatched p)
           (enumerate 0 (marked 0 n (map serialize_command_for_pending cs)))) =
         map serialize_command_for_pending (drop n cs)"
proof -
  let ?ps = "map serialize_command_for_pending cs"
  have "marked 0 n ?ps = map (\<lambda>p. p\<lparr>pc_dispatched := True\<rparr>) (take n ?ps) @ drop n ?ps"
    using assms by (intro nth_equalityI) (auto simp: marked_nth nth_append min_def)
  moreover have "map snd (filter (\<lambda>(i, p). \<not> is_command_dispatched p) (enumerate k qs)) =
      filter (\<lambda>p. \<not> pc_dispatched p) qs" for k qs
    by (induction qs arbitrary: k) (simp_all add: is_command_dispatched_def)
  ultimately show ?thesis
    by (simp add: filter_empty_conv filter_id_conv serialize_command_for_pending_def drop_map)
qed

lemma undispatched_of_marked:
  assumes pend: "ss_pending_commands st = marked 0 n (map serialize_command_for_pending cs)" and n: "n < length cs"
    and rebuilt: "list_all (\<lambda>c. deserialize_command hyd construct (serialize_command_for_pending c) = Inr c) cs"
  shows "map pc_dispatched (ss_pending_commands st) = replicate n True @ replicate (length cs - n) False"
    and "undispatched_commands st \<noteq> []" "remaining_commands hyd construct st = drop n cs"
    and "ss_pending_commands st \<noteq> []"
proof -
  show "map pc_dispatched (ss_pending_commands st) = replicate n True @ replicate (length cs - n) False"
    unfolding pend using n
    by (intro nth_equalityI) (auto simp: marked_nth nth_append serialize_command_for_pending_def)
  have us: "map snd (undispatched_commands st) = map serialize_command_for_pending (drop n cs)"
    unfolding undispatched_commands_def pend by (rule undispatched_marked) (use n in simp)
  show "undispatched_commands st \<noteq> []" using us n by auto
  have "remaining_commands hyd construct st =
      map (\<lambda>p. projr (deserialize_command hyd construct p)) (map snd (undispatched_commands st))"
    by (simp add: remaining_commands_def case_prod_unfold)
  also have "\<dots> = map (\<lambda>c. c) (drop n cs)" unfolding us map_map
    using rebuilt by (intro map_cong) (auto simp: list_all_iff dest!: in_set_dropD)
  finally show "remaining_commands hyd construct st = drop n cs" by simp
  show "ss_pending_commands st \<noteq> []" using n by (metis pend length_0_conv length_map length_marked not_less_zero)
qed

lemma send_all_bound: "send_all send b cs = (b', n, Some e) \<Longrightarrow> n < length cs"
  by (induction cs arbitrary: b n) (auto split: prod.splits option.splits)

lemma resendable_rebuilt:
  assumes "resendable hyd construct s"
  shows "map (deserialize_command hyd construct \<circ> snd) (undispatched_commands s) =
    map Inr (remaining_commands hyd construct s)"
proof -
  have "deserialize_command hyd construct p = Inr (projr (deserialize_command hyd construct p))"
    if "(i, p) \<in> set (undispatched_commands s)" for i p
    using assms that by (cases "deserialize_command hyd construct p")
      (auto simp: resendable_def list_all_iff is_ok_def)
  then show ?thesis by (auto simp: remaining_commands_def)
qed

lemma recover_saga_settles:
  assumes "resendable hyd construct s" "ss_pending_commands s \<noteq> []"
    and "send_all send b (remaining_commands hyd construct s) = (b', n, None)"
  shows "\<exists>r' st. recover_saga info rg hyd construct send str now s (r, b) = ((r', b'), None) \<and>
    map_of r' (ss_id s) = Some st \<and> ss_pending_commands st = [] \<and>
    (undispatched_commands s \<noteq> [] \<longrightarrow> ss_retry_count st = 0) \<and>
    (\<forall>k. k \<noteq> ss_id s \<longrightarrow> map_of r' k = map_of r k)"
proof (cases "undispatched_commands s = []")
  case True
  with assms(3) have "b' = b" by (simp add: remaining_commands_def)
  with True assms(2) show ?thesis by (simp add: recover_saga_def sagas_add_eq ss_touch_def)
next
  case False
  have "ss_retry_count s < ss_max_retries s" using assms(1) by (simp add: resendable_def)
  from recover_saga_resends [OF False this resendable_rebuilt [OF assms(1)] assms(3), of info rg str now r]
  obtain r' v where "recover_saga info rg hyd construct send str now s (r, b) = ((r', b'), None)"
    "map_of r' (ss_id s) = Some (ss_touch now (s\<lparr>ss_pending_commands := [], ss_retry_count := 0, ss_version := v\<rparr>))"
    "\<forall>k. k \<noteq> ss_id s \<longrightarrow> map_of r' k = map_of r k" by blast
  then show ?thesis by (simp add: ss_touch_def)
qed

lemma send_all_append:
  assumes "send_all send b (xs @ ys) = (b', n, None)"
  obtains b1 k l where "send_all send b xs = (b1, k, None)" "send_all send b1 ys = (b', l, None)"
  using assms
proof (induction xs arbitrary: b n thesis)
  case (Cons x xs)
  from Cons.prems(2) obtain b0 m where "send b x = (b0, None)" "send_all send b0 (xs @ ys) = (b', m, None)"
    by (auto split: prod.splits option.splits)
  with Cons.IH [OF _ this(2)] show ?case using Cons.prems(1) by fastforce
qed simp

lemma recover_loop_settles:
  assumes "distinct (map ss_id ss)" "list_all (resendable hyd construct) ss"
    and "list_all (\<lambda>s. ss_pending_commands s \<noteq> []) ss"
    and "send_all send b (concat (map (remaining_commands hyd construct) ss)) = (b', n, None)"
  shows "\<exists>r'. recover_loop (recover_saga info rg hyd construct send str now) ss (r, b) = ((r', b'), None) \<and>
    (\<forall>s\<in>set ss. \<exists>st. map_of r' (ss_id s) = Some st \<and> ss_pending_commands st = [] \<and>
       (undispatched_commands s \<noteq> [] \<longrightarrow> ss_retry_count st = 0)) \<and>
    (\<forall>k. k \<notin> ss_id ` set ss \<longrightarrow> map_of r' k = map_of r k)"
  using assms
proof (induction ss arbitrary: b n r)
  case (Cons s ss)
  from Cons.prems(4) obtain b1 k l where 1: "send_all send b (remaining_commands hyd construct s) = (b1, k, None)"
      "send_all send b1 (concat (map (remaining_commands hyd construct) ss)) = (b', l, None)"
    by (auto elim: send_all_append)
  obtain r1 st where 2: "recover_saga info rg hyd construct send str now s (r, b) = ((r1, b1), None)"
      "map_of r1 (ss_id s) = Some st" "ss_pending_commands st = []"
      "undispatched_commands s \<noteq> [] \<longrightarrow> ss_retry_count st = 0" "\<forall>k. k \<noteq> ss_id s \<longrightarrow> map_of r1 k = map_of r k"
    using recover_saga_settles [OF _ _ 1(1), of info rg str now r] Cons.prems(2,3) by auto
  obtain r2 where 3: "recover_loop (recover_saga info rg hyd construct send str now) ss (r1, b1) = ((r2, b'), None)"
      "\<forall>s\<in>set ss. \<exists>st. map_of r2 (ss_id s) = Some st \<and> ss_pending_commands st = [] \<and>
         (undispatched_commands s \<noteq> [] \<longrightarrow> ss_retry_count st = 0)"
      "\<forall>k. k \<notin> ss_id ` set ss \<longrightarrow> map_of r2 k = map_of r1 k"
    using Cons.IH [OF _ _ _ 1(2), of r1] Cons.prems(1-3) by auto
  have "map_of r2 (ss_id s) = Some st" using 3(3) 2(2) Cons.prems(1) by auto
  with 2 3 show ?case by (intro exI [of _ r2]) auto
qed simp

lemma collect_limited_prefix:
  "\<exists>k. collect_limited limit P None xs out = out @ take k (filter P xs) \<and>
     (int (length (collect_limited limit P None xs out)) < limit \<longrightarrow> collect_limited limit P None xs out = out @ filter P xs)"
proof (induction xs arbitrary: out)
  case (Cons x xs)
  have "\<exists>k. out @ [x] = out @ take k (x # filter P xs)" by (rule exI [of _ 1]) simp
  moreover obtain k where "collect_limited limit P None xs (out @ [x]) = (out @ [x]) @ take k (filter P xs)"
    "int (length (collect_limited limit P None xs (out @ [x]))) < limit \<longrightarrow>
       collect_limited limit P None xs (out @ [x]) = (out @ [x]) @ filter P xs"
    using Cons [of "out @ [x]"] by blast
  then have "\<exists>k. collect_limited limit P None xs (out @ [x]) = out @ take k (x # filter P xs) \<and>
    (int (length (collect_limited limit P None xs (out @ [x]))) < limit \<longrightarrow>
       collect_limited limit P None xs (out @ [x]) = out @ x # filter P xs)"
    by (intro exI [of _ "Suc k"]) simp
  ultimately show ?case using Cons [of out] by (auto simp: satisfies_def Let_def)
qed simp

lemma stalled_sagas_of:
  assumes "repo_ok ss_id r" "stalled = find_stalled_sagas r limit None"
  shows "distinct (map ss_id stalled)" "list_all (\<lambda>s. ss_pending_commands s \<noteq> []) stalled"
    and "s \<in> set stalled \<Longrightarrow> ss_status s = SAGA_RUNNING \<and> map_of r (ss_id s) = Some s"
    and "int (length stalled) < limit \<Longrightarrow> map_of r i = Some s \<Longrightarrow> ss_status s = SAGA_RUNNING \<Longrightarrow>
           ss_pending_commands s \<noteq> [] \<Longrightarrow> s \<in> set stalled"
proof -
  let ?P = "\<lambda>s. ss_status s = SAGA_RUNNING \<and> ss_pending_commands s \<noteq> []"
  obtain k where k: "stalled = take k (filter ?P (dvalues r))"
      "int (length stalled) < limit \<longrightarrow> stalled = filter ?P (dvalues r)"
    using collect_limited_prefix [of limit ?P "dvalues r" "[]"] assms(2)
    unfolding find_stalled_sagas_def append_Nil by metis
  have "map ss_id (dvalues r) = dkeys r" using assms(1) by (auto simp: repo_ok_def list_all_iff)
  then have "distinct (map ss_id (dvalues r))" using assms(1) by (simp add: repo_ok_def del: map_map)
  then show "distinct (map ss_id stalled)" unfolding k(1) take_map [symmetric]
    by (intro distinct_take) (rule distinct_map_filter)
  show "list_all (\<lambda>s. ss_pending_commands s \<noteq> []) stalled" unfolding k(1) by (auto simp: list_all_iff dest: in_set_takeD)
  show "ss_status s = SAGA_RUNNING \<and> map_of r (ss_id s) = Some s" if "s \<in> set stalled"
    using that assms(1) unfolding k(1) by (fastforce simp: repo_ok_def list_all_iff dest!: in_set_takeD)
  show "s \<in> set stalled" if "int (length stalled) < limit" "map_of r i = Some s" "ss_status s = SAGA_RUNNING"
      "ss_pending_commands s \<noteq> []"
    using k(2) that by (auto dest: map_of_SomeD intro!: image_eqI [of _ snd "(i, s)"])
qed

lemma dispatch_and_persist_ok:
  "repo_ok ss_id r \<Longrightarrow> dispatch_and_persist send i cs s (r, b) = (s', (r', b'), e) \<Longrightarrow> repo_ok ss_id r'"
proof (induction cs arbitrary: i s r b)
  case (Cons c cs)
  have "repo_ok ss_id (fst (sagas_add r (mark_dispatched i s)))"
    using sagas.invar_add [OF Cons.prems(1)] by simp
  from Cons.IH [OF this] show ?case
    using Cons.prems by (auto simp: sagas_add_eq split: prod.splits option.splits if_splits)
qed simp

lemma persist_and_dispatch_ok:
  assumes "repo_ok ss_id r" "persist_and_dispatch send tr now sg (r, b) = ((r', b'), res, t)"
  shows "repo_ok ss_id r'"
proof -
  have a: "repo_ok ss_id (fst (sagas_add q x))" if "repo_ok ss_id q" for q x
    using sagas.invar_add [OF that] by simp
  from assms(2) obtain q x e where d: "dispatch_and_persist send 0 (sg_commands sg)
       (snd (sagas_add r (queued_state sg))) (fst (sagas_add r (queued_state sg)), b) = (x, (q, b'), e)"
      "r' = q \<or> (\<exists>y. r' = fst (sagas_add q y))"
    by (auto simp: persist_and_dispatch_def collect_commands_def queued_state_def Let_def split: prod.splits option.splits)
  from dispatch_and_persist_ok [OF a [OF assms(1)] d(1)] d(2) a show ?thesis by blast
qed

section \<open>Properties\<close>

text \<open>
  an event's commands go out once, in order.  When a saga handles an event and the bus takes
  every command, the bus has received exactly the queued commands in the order they were queued, and the
  stored state has no pending commands left.  Commands that an earlier failure left pending are among
  those dropped: this pass does not send them.
\<close>

theorem saga_commands_sent_in_order:
  assumes "find_by_correlation_id r corr (sc_name info c) = Some s" "\<not> is_terminal s"
    and "saga_handle now (sc_handlers info c) ev (build_saga info hyd c s) = (sg, None)"
    and "send_all send b (sg_commands sg) = (b', n, None)"
    and "process_saga info hyd send tr now fresh c corr (Some ev) (r, b) = ((r', b''), res, trig)"
  shows "b'' = b' \<and> res = Inr (Some (ss_id (sg_state sg))) \<and> \<not> trig \<and>
         map_option ss_pending_commands (map_of r' (ss_id (sg_state sg))) = Some []"
  using persist_and_dispatch_spec [OF assms(4), of tr now r] assms(5)
    process_saga_handled [OF assms(1-3), of send tr fresh b]
  by (auto simp: ss_touch_def)

definition log_send :: "command list bus_send" where
  "log_send b c = (b @ [c], None)"

definition sample_info :: "unit saga_class_info" where
  "sample_info = \<lparr>sc_name = (\<lambda>_. ''OrderSaga''), sc_listens_to = (\<lambda>_. [''OrderCreated'']), sc_setup = (\<lambda>_ sg. sg),
     sc_handlers = (\<lambda>_. sample_handlers), sc_on_timeout = (\<lambda>_ now. on_timeout (\<lambda>_. []) now)\<rparr>"

lemma sample_handled:
  "\<exists>sg. saga_handle 1 (sc_handlers sample_info ()) (order_created ''e'')
      (build_saga sample_info plain_hydrator () (sample_state\<lparr>ss_pending_commands := ps\<rparr>)) = (sg, None) \<and>
    sg_commands sg = [sample_command ''Reserve''] \<and> ss_id (sg_state sg) = ''s'' \<and>
    ss_pending_commands (sg_state sg) = ps \<and> ss_retry_count (sg_state sg) = 0 \<and> ss_max_retries (sg_state sg) = 3"
  by (auto simp: saga_handle_def new_saga_def sample_state_def order_created_def handle_event_def sample_info_def
      build_saga_def mapped_handler_def is_terminal_def is_event_processed_def upd_state_def dispatch_def
      mark_event_processed_def record_step_def ss_touch_def Let_def)

lemma sample_found:
  "find_by_correlation_id [(''s'', sample_state\<lparr>ss_pending_commands := ps\<rparr>)] ''c'' (sc_name sample_info ()) =
     Some (sample_state\<lparr>ss_pending_commands := ps\<rparr>)"
  "\<not> is_terminal (sample_state\<lparr>ss_pending_commands := ps\<rparr>)"
  by (simp_all add: find_by_correlation_id_def sample_state_def sample_info_def is_terminal_def)

theorem saga_commands_sent_in_order_witness:
  "snd (fst (process_saga sample_info plain_hydrator log_send False 1 ''u'' () ''c'' (Some (order_created ''e''))
      ([(''s'', sample_state\<lparr>ss_pending_commands := []\<rparr>)], []))) = [sample_command ''Reserve'']"
proof -
  let ?r = "[(''s'', sample_state\<lparr>ss_pending_commands := []\<rparr>)]"
  obtain sg where sg: "saga_handle 1 (sc_handlers sample_info ()) (order_created ''e'')
        (build_saga sample_info plain_hydrator () (sample_state\<lparr>ss_pending_commands := []\<rparr>)) = (sg, None)"
      "sg_commands sg = [sample_command ''Reserve'']" using sample_handled [of "[]"] by blast
  obtain r' b' res t where e: "process_saga sample_info plain_hydrator log_send False 1 ''u'' () ''c''
      (Some (order_created ''e'')) (?r, []) = ((r', b'), res, t)" by (metis prod.exhaust)
  have "send_all log_send [] (sg_commands sg) = ([sample_command ''Reserve''], 1, None)"
    by (simp add: sg(2) log_send_def)
  from saga_commands_sent_in_order [OF sample_found sg(1) this e] e show ?thesis by simp
qed


text \<open>A bus that is down or up.\<close>

definition flaky_send :: "(command list \<times> bool) bus_send" where
  "flaky_send b c = (if snd b then ((fst b @ [c], True), None) else (b, Some (Other ''bus down'')))"

definition empty_registry :: "unit saga_registry" where
  "empty_registry = \<lparr>rg_event_map = [], rg_type_map = []\<rparr>"

lemma sample_stalls:
  "\<exists>st. process_saga sample_info plain_hydrator flaky_send True 1 ''u'' () ''c'' (Some (order_created ''e''))
       ([(''s'', sample_state\<lparr>ss_pending_commands := []\<rparr>)], ([], False)) =
       (([(''s'', st)], ([], False)), Inl (Other ''bus down''), True) \<and>
     find_stalled_sagas [(''s'', st)] 10 None = [st] \<and> resendable plain_hydrator (\<lambda>_ _ _. Inl IndexError) st \<and>
     remaining_commands plain_hydrator (\<lambda>_ _ _. Inl IndexError) st = [sample_command ''Reserve'']"
  by (auto simp: process_saga_def persist_and_dispatch_def collect_commands_def find_by_correlation_id_def sagas_add_eq
      saga_handle_def new_saga_def sample_state_def order_created_def handle_event_def sample_info_def
      build_saga_def mapped_handler_def is_terminal_def is_event_processed_def upd_state_def dispatch_def
      mark_event_processed_def record_step_def ss_touch_def Let_def flaky_send_def find_stalled_sagas_def satisfies_def
      resendable_def remaining_commands_def undispatched_commands_def is_command_dispatched_def
      deserialize_command_def plain_hydrator_def serialize_command_for_pending_def sample_command_def is_ok_def)


text \<open>
  giving up loses the compensations.  A stalled saga whose retries are used up is failed with
  compensation, which moves its compensating commands to the queue of the saga object and empties
  the stored stack; but that queue is never collected, so the bus receives none of them, and since the
  saga is now terminal nothing will send them later.
\<close>

theorem abandoned_saga_sends_nothing:
  assumes "undispatched_commands s \<noteq> []" "ss_max_retries s \<le> ss_retry_count s"
    and "get_saga_type rg (ss_saga_type s) = Some c"
    and "sg_state (build_saga info hyd c s) = s" "sg_registry (build_saga info hyd c s) = Some hyd"
    and "ss_compensation_stack s \<noteq> []"
    and "recover_saga info rg hyd construct send str now s (r, b) = ((r', b'), x)"
  shows "b' = b \<and> x = None \<and>
         (\<exists>s'. r' = fst (sagas_add r s') \<and> ss_compensation_stack s' = [] \<and> is_terminal s')"
proof -
  obtain sg y where f: "fail_saga str now (abandon_message (ss_max_retries s)) True (build_saga info hyd c s) = (sg, y)"
    by (cases "fail_saga str now (abandon_message (ss_max_retries s)) True (build_saga info hyd c s)")
  from fail_compensates [OF assms(5) _ f] assms(4,6)
  have "y = None" "ss_compensation_stack (sg_state sg) = []" "is_terminal (sg_state sg)"
    by (auto simp: is_terminal_def)
  then show ?thesis using assms(1-3,7) f
    by (auto simp: recover_saga_def fail_saga_max_retries_def)
qed

theorem abandoned_saga_sends_nothing_witness:
  "snd (fst (recover_saga sample_info \<lparr>rg_event_map = [], rg_type_map = [(''OrderSaga'', ())]\<rparr> plain_hydrator
      (\<lambda>_ _ _. Inl IndexError) log_send (\<lambda>_. []) 2
      (sample_state\<lparr>ss_pending_commands := [serialize_command_for_pending (sample_command ''A'')], ss_retry_count := 3,
         ss_compensation_stack := [\<lparr>cr_command_type = ''Undo'', cr_module_name = ''app'', cr_data = [], cr_description = []\<rparr>]\<rparr>)
      ([], []))) = []"
proof -
  let ?s = "sample_state\<lparr>ss_pending_commands := [serialize_command_for_pending (sample_command ''A'')], ss_retry_count := 3,
         ss_compensation_stack := [\<lparr>cr_command_type = ''Undo'', cr_module_name = ''app'', cr_data = [], cr_description = []\<rparr>]\<rparr>"
  let ?rg = "\<lparr>rg_event_map = [], rg_type_map = [(''OrderSaga'', ())]\<rparr>"
  obtain r' b' x where e: "recover_saga sample_info ?rg plain_hydrator (\<lambda>_ _ _. Inl IndexError) log_send (\<lambda>_. []) 2 ?s ([], []) =
      ((r', b'), x)" by (metis prod.exhaust)
  have "b' = []"
    using abandoned_saga_sends_nothing [OF _ _ _ _ _ _ e, of "()"]
    by (simp add: undispatched_commands_def serialize_command_for_pending_def is_command_dispatched_def sample_state_def
        get_saga_type_def build_saga_def sample_info_def new_saga_def)
  with e show ?thesis by simp
qed

lemma get_after_register:
  "get_sagas_for_event (register_for_event info et c rg) et' =
     (if et' = et \<and> c \<notin> set (get_sagas_for_event rg et) then get_sagas_for_event rg et @ [c]
      else get_sagas_for_event rg et')"
proof (cases "map_of (rg_event_map rg) et")
  case None
  then have "et \<notin> fst ` set (rg_event_map rg)" by (simp add: map_of_eq_None_iff)
  with None show ?thesis
    by (auto simp: register_for_event_def register_type_def get_sagas_for_event_def Let_def)
next
  case (Some cs)
  then have "et \<in> fst ` set (rg_event_map rg)" by (metis domI dom_map_of_conv_image_fst)
  with Some show ?thesis
    by (auto simp: register_for_event_def register_type_def get_sagas_for_event_def Let_def)
qed

lemma type_after_register:
  "rg_type_map (register_for_event info et c rg) = AList.update (sc_name info c) c (rg_type_map rg)"
  by (simp add: register_for_event_def register_type_def Let_def)

lemma register_fold:
  "get_sagas_for_event (fold (\<lambda>et. register_for_event info et c) ets rg) et' =
     (if et' \<in> set ets \<and> c \<notin> set (get_sagas_for_event rg et') then get_sagas_for_event rg et' @ [c]
      else get_sagas_for_event rg et')"
  by (induction ets arbitrary: rg) (auto simp: get_after_register)

lemma register_fold_type:
  "map_of (rg_type_map (fold (\<lambda>et. register_for_event info et c) ets rg)) n =
     (if n = sc_name info c \<and> ets \<noteq> [] then Some c else map_of (rg_type_map rg) n)"
  by (induction ets arbitrary: rg) (auto simp: type_after_register)

text \<open>
  registering a saga class.  Afterwards the class is found by its name, it is called for
  exactly the event types it listens to besides the classes registered before it (once each, after
  them, however often it is registered), and nothing else changes.
\<close>

theorem register_saga_routes:
  "get_sagas_for_event (register_saga info c rg) et =
     (if et \<in> set (sc_listens_to info c) \<and> c \<notin> set (get_sagas_for_event rg et)
      then get_sagas_for_event rg et @ [c] else get_sagas_for_event rg et) \<and>
   get_saga_type (register_saga info c rg) n =
     (if n = sc_name info c then Some c else get_saga_type rg n)"
proof (cases "sc_listens_to info c = []")
  case True
  then show ?thesis
    by (simp add: register_saga_def get_saga_type_def register_type_def get_sagas_for_event_def)
next
  case False
  then show ?thesis
    by (simp add: register_saga_def register_fold register_fold_type get_saga_type_def)
qed

end
