(* ===== verification/Upcasting.thy ===== *)
theory Upcasting
  imports EventStore
begin

text \<open>
  Schema evolution of stored events: \<^verbatim>\<open>EventUpcaster\<close>, \<^verbatim>\<open>UpcasterChain\<close> and
  \<^verbatim>\<open>UpcasterRegistry\<close> (upcasting/registry.py) and the \<^verbatim>\<open>UpcastingEventReader\<close>
  (event_sourcing/upcasting_reader.py).  The \<^verbatim>\<open>upcast\<close> method of an upcaster is user code: a
  function from payloads to payloads that may raise.  The reference semantics is a step relation on
  (payload, schema version) pairs that knows nothing of the order of registration; the single sorted
  pass of the chain is shown to follow it to its end.
\<close>

section \<open>Upcasters and chains\<close>

record upcaster =
  up_event_type :: string
  up_source_version :: int
  up_target_version :: int
  up_fn :: "payload \<Rightarrow> exn + payload"

text \<open>\<^verbatim>\<open>__init_subclass__\<close>: a target version that is left at 0 is computed.\<close>

definition new_upcaster ::
  "string \<Rightarrow> int \<Rightarrow> int \<Rightarrow> (payload \<Rightarrow> exn + payload) \<Rightarrow> upcaster" where
  "new_upcaster ty source target f =
     \<lparr>up_event_type = ty, up_source_version = source,
      up_target_version = (if target = 0 \<and> 0 < source then source + 1 else target), up_fn = f\<rparr>"

type_synonym upcaster_chain = "upcaster list"

definition new_chain :: "upcaster list \<Rightarrow> upcaster_chain" where
  "new_chain us = sort_key up_source_version us"

fun chain_upcast ::
  "upcaster_chain \<Rightarrow> string \<Rightarrow> payload \<Rightarrow> int \<Rightarrow> exn + (payload \<times> int)" where
  "chain_upcast [] ty data version = Inr (data, version)"
| "chain_upcast (u # us) ty data version =
     (if up_event_type u \<noteq> ty then chain_upcast us ty data version
      else if up_source_version u = version
      then (case up_fn u data of
              Inl x \<Rightarrow> Inl x
            | Inr data' \<Rightarrow> chain_upcast us ty data' (up_target_version u))
      else chain_upcast us ty data version)"

definition latest_version :: "upcaster_chain \<Rightarrow> int" where
  "latest_version us =
     (case map up_target_version us of [] \<Rightarrow> 0 | t # ts \<Rightarrow> fold max ts t)"

section \<open>Registry\<close>

type_synonym upcaster_registry = "(string, upcaster list) dict"

definition upcasters_for :: "upcaster_registry \<Rightarrow> string \<Rightarrow> upcaster list" where
  "upcasters_for reg ty = (case map_of reg ty of None \<Rightarrow> [] | Some us \<Rightarrow> us)"

definition duplicate_upcaster :: "upcaster \<Rightarrow> exn" where
  "duplicate_upcaster u =
     ValueError (''Duplicate upcaster for '' @ up_event_type u @ '' v'' @ show_int (up_source_version u))"

definition register_upcaster :: "upcaster \<Rightarrow> upcaster_registry \<Rightarrow> exn + upcaster_registry" where
  "register_upcaster u reg =
     (let key = up_event_type u;
          reg = (if map_of reg key = None then AList.update key [] reg else reg);
          existing = upcasters_for reg key
      in if list_ex (\<lambda>x. up_source_version x = up_source_version u) existing
         then Inl (duplicate_upcaster u)
         else Inr (AList.update key (existing @ [u]) reg))"

definition chain_for :: "upcaster_registry \<Rightarrow> string \<Rightarrow> upcaster_chain" where
  "chain_for reg ty = new_chain (upcasters_for reg ty)"

definition registry_upcast ::
  "upcaster_registry \<Rightarrow> string \<Rightarrow> payload \<Rightarrow> int \<Rightarrow> exn + (payload \<times> int)" where
  "registry_upcast reg ty data stored_version = chain_upcast (chain_for reg ty) ty data stored_version"

definition has_upcasters :: "upcaster_registry \<Rightarrow> string \<Rightarrow> bool" where
  "has_upcasters reg ty \<longleftrightarrow> upcasters_for reg ty \<noteq> []"

definition registered_event_types :: "upcaster_registry \<Rightarrow> string list" where
  "registered_event_types reg = dkeys reg"

definition clear_upcasters :: "upcaster_registry \<Rightarrow> upcaster_registry" where
  "clear_upcasters reg = []"

fun register_all :: "upcaster list \<Rightarrow> upcaster_registry \<Rightarrow> exn + upcaster_registry" where
  "register_all [] reg = Inr reg"
| "register_all (u # us) reg =
     (case register_upcaster u reg of Inl x \<Rightarrow> Inl x | Inr reg' \<Rightarrow> register_all us reg')"

section \<open>Upcasting reads\<close>

definition upcast_one :: "upcaster_registry \<Rightarrow> stored_event \<Rightarrow> exn + stored_event" where
  "upcast_one reg stored =
     (if \<not> has_upcasters reg (se_event_type stored) then Inr stored
      else (case registry_upcast reg (se_event_type stored) (se_payload stored) (se_schema_version stored) of
              Inl x \<Rightarrow> Inl x
            | Inr (payload, new_ver) \<Rightarrow>
                Inr (stored\<lparr>se_payload := payload, se_schema_version := new_ver\<rparr>)))"

fun upcast_all :: "upcaster_registry \<Rightarrow> stored_event list \<Rightarrow> exn + stored_event list" where
  "upcast_all reg [] = Inr []"
| "upcast_all reg (e # es) =
     (case upcast_one reg e of
        Inl x \<Rightarrow> Inl x
      | Inr e' \<Rightarrow> (case upcast_all reg es of Inl x \<Rightarrow> Inl x | Inr es' \<Rightarrow> Inr (e' # es')))"

definition reader_get_events ::
  "upcaster_registry \<Rightarrow> event_store \<Rightarrow> string \<Rightarrow> int \<Rightarrow> exn + stored_event list" where
  "reader_get_events reg es aggregate_id after_version =
     upcast_all reg (get_events es aggregate_id after_version None)"

definition reader_get_by_aggregate ::
  "upcaster_registry \<Rightarrow> event_store \<Rightarrow> string \<Rightarrow> string option \<Rightarrow> exn + stored_event list" where
  "reader_get_by_aggregate reg es aggregate_id aggregate_type =
     upcast_all reg (get_by_aggregate es aggregate_id aggregate_type None)"

definition reader_get_all :: "upcaster_registry \<Rightarrow> event_store \<Rightarrow> exn + stored_event list" where
  "reader_get_all reg es = upcast_all reg (get_all es None)"

section \<open>Reference semantics\<close>

inductive upcast_step :: "upcaster set \<Rightarrow> string \<Rightarrow> payload \<times> int \<Rightarrow> payload \<times> int \<Rightarrow> bool"
  for us :: "upcaster set" and ty :: string where
  step: "u \<in> us \<Longrightarrow> up_event_type u = ty \<Longrightarrow> up_fn u d = Inr d' \<Longrightarrow>
    upcast_step us ty (d, up_source_version u) (d', up_target_version u)"

inductive_cases upcast_stepE: "upcast_step us ty (d, v) r"

definition upcastable :: "upcaster set \<Rightarrow> string \<Rightarrow> int \<Rightarrow> bool" where
  "upcastable us ty v \<longleftrightarrow> (\<exists>u\<in>us. up_event_type u = ty \<and> up_source_version u = v)"

definition ascending :: "upcaster set \<Rightarrow> bool" where
  "ascending us \<longleftrightarrow> (\<forall>u\<in>us. up_source_version u < up_target_version u)"

lemma ascending_insert [simp]:
  "ascending (insert u us) \<longleftrightarrow> up_source_version u < up_target_version u \<and> ascending us"
  by (simp add: ascending_def)

lemma steps_ascend:
  assumes "ascending us" "(upcast_step us ty)\<^sup>*\<^sup>* s r"
  shows "snd s \<le> snd r"
  using assms(2)
proof (induction rule: rtranclp_induct)
  case (step q r)
  from step.hyps(2) have "snd q < snd r"
    using assms(1) by (cases rule: upcast_step.cases) (auto simp: ascending_def)
  with step.IH show ?case by simp
qed simp

lemma not_upcastable_stuck:
  assumes "\<not> upcastable us ty v"
  shows "(upcast_step us ty)\<^sup>*\<^sup>* (d, v) r \<longleftrightarrow> r = (d, v)"
  by (rule rtranclp_stuck) (use assms in \<open>auto simp: upcastable_def elim!: upcast_stepE\<close>)

lemma steps_mono:
  assumes "(upcast_step us ty)\<^sup>*\<^sup>* s r" "us \<subseteq> us'"
  shows "(upcast_step us' ty)\<^sup>*\<^sup>* s r"
  using assms(1)
proof (induction rule: rtranclp_induct)
  case (step q r)
  from step.hyps(2) have "upcast_step us' ty q r"
    using assms(2) by (cases rule: upcast_step.cases) (auto intro: upcast_step.step)
  with step.IH show ?case by simp
qed simp

text \<open>An upcaster of a lower version than the current one plays no role any more.\<close>

lemma steps_drop_passed:
  assumes "ascending (insert u us)" "up_source_version u < v"
  shows "(upcast_step (insert u us) ty)\<^sup>*\<^sup>* (d, v) r \<longleftrightarrow> (upcast_step us ty)\<^sup>*\<^sup>* (d, v) r"
    (is "?L \<longleftrightarrow> ?R")
proof
  assume ?L
  then have "(upcast_step us ty)\<^sup>*\<^sup>* (d, v) r \<and> up_source_version u < snd r"
  proof (induction rule: rtranclp_induct)
    case base
    then show ?case using assms(2) by simp
  next
    case (step q r)
    from step.hyps(2) obtain w d1 d2 where w: "w \<in> insert u us" "up_event_type w = ty"
      "up_fn w d1 = Inr d2" "q = (d1, up_source_version w)" "r = (d2, up_target_version w)"
      by (cases rule: upcast_step.cases) auto
    with step.IH have "w \<in> us" by auto
    then have "upcast_step us ty q r" using w by (auto intro: upcast_step.step)
    moreover have "up_source_version w < up_target_version w"
      using assms(1) w(1) by (auto simp: ascending_def)
    ultimately show ?case using step.IH w by auto
  qed
  then show ?R by simp
next
  assume ?R
  then show ?L by (rule steps_mono) auto
qed

section \<open>The chain follows the step relation to its end\<close>

lemma chain_upcast_skip:
  assumes "\<not> upcastable (set us) ty v"
  shows "chain_upcast us ty d v = Inr (d, v)"
  using assms by (induction us) (auto simp: upcastable_def)

lemma upcastable_insert [simp]:
  "upcastable (insert u us) ty v \<longleftrightarrow>
     (up_event_type u = ty \<and> up_source_version u = v) \<or> upcastable us ty v"
  by (auto simp: upcastable_def)

lemma chain_upcast_follows:
  assumes "sorted_wrt (<) (map up_source_version us)" "ascending (set us)"
    and "list_all (\<lambda>u. up_event_type u = ty) us"
  shows "chain_upcast us ty d v = Inr r \<longleftrightarrow>
    (upcast_step (set us) ty)\<^sup>*\<^sup>* (d, v) r \<and> \<not> upcastable (set us) ty (snd r)"
  using assms
proof (induction us arbitrary: d v)
  case Nil
  show ?case
    using not_upcastable_stuck [of "{}" ty v d r] by (auto simp: upcastable_def)
next
  case (Cons u us)
  have ty: "up_event_type u = ty" and asc: "ascending (insert u (set us))"
    and up: "up_source_version u < up_target_version u"
    using Cons.prems by auto
  have above: "up_source_version u < up_source_version w" if "w \<in> set us" for w
    using Cons.prems(1) that by auto
  have IH: "chain_upcast us ty e x = Inr r \<longleftrightarrow>
      (upcast_step (set us) ty)\<^sup>*\<^sup>* (e, x) r \<and> \<not> upcastable (set us) ty (snd r)" for e x
    using Cons by simp
  have beyond: "chain_upcast us ty e x = Inr r \<longleftrightarrow>
      (upcast_step (insert u (set us)) ty)\<^sup>*\<^sup>* (e, x) r \<and> \<not> upcastable (insert u (set us)) ty (snd r)"
    if "up_source_version u < x" for e x
    using IH steps_drop_passed [OF asc that] steps_ascend [OF asc, of ty "(e, x)" r] that by auto
  consider (low) "v < up_source_version u" | (here) "v = up_source_version u"
    | (passed) "up_source_version u < v" by linarith
  then show ?case
  proof cases
    case low
    then have none: "\<not> upcastable (set us) ty v" "\<not> upcastable (insert u (set us)) ty v"
      using above by (fastforce simp: upcastable_def)+
    with low ty show ?thesis
      using not_upcastable_stuck [OF none(2)] chain_upcast_skip [OF none(1)] by auto
  next
    case here
    show ?thesis
    proof (cases "up_fn u d")
      case (Inl x)
      have "\<not> upcast_step (insert u (set us)) ty (d, v) s" for s
        by (auto elim!: upcast_stepE dest: above simp: Inl here)
      then have "(upcast_step (insert u (set us)) ty)\<^sup>*\<^sup>* (d, v) r \<longleftrightarrow> r = (d, v)"
        by (rule rtranclp_stuck)
      with Inl here ty show ?thesis by auto
    next
      case (Inr d')
      have only: "upcast_step (insert u (set us)) ty (d, v) s \<longleftrightarrow> s = (d', up_target_version u)" for s
        using Inr here ty by (auto elim!: upcast_stepE dest: above intro: upcast_step.step)
      have runs: "(upcast_step (insert u (set us)) ty)\<^sup>*\<^sup>* (d, v) r \<longleftrightarrow> r = (d, v) \<or>
          (upcast_step (insert u (set us)) ty)\<^sup>*\<^sup>* (d', up_target_version u) r"
        by (rule rtranclp_unique_step) (rule only)
      have more: "upcastable (insert u (set us)) ty v" using here ty by simp
      have "chain_upcast (u # us) ty d v = chain_upcast us ty d' (up_target_version u)"
        by (simp add: Inr here ty)
      then show ?thesis
        unfolding list.set(2) runs using beyond [OF up, of d'] more by fastforce
    qed
  next
    case passed
    with ty beyond [OF passed] show ?thesis by simp
  qed
qed

section \<open>The registry\<close>

lemma upcasters_for_register:
  assumes "register_upcaster u reg = Inr reg'"
  shows "upcasters_for reg' ty = upcasters_for reg ty @ (if up_event_type u = ty then [u] else [])"
  using assms
  by (auto simp: register_upcaster_def upcasters_for_def Let_def split: if_splits option.splits)

lemma register_upcaster_fresh:
  assumes "register_upcaster u reg = Inr reg'"
  shows "up_source_version u \<notin> up_source_version ` set (upcasters_for reg (up_event_type u))"
  using assms
  by (auto simp: register_upcaster_def upcasters_for_def Let_def list_ex_iff split: if_splits option.splits)

lemma register_all_upcasters:
  assumes "register_all us reg = Inr reg'"
  shows "upcasters_for reg' ty = upcasters_for reg ty @ filter (\<lambda>u. up_event_type u = ty) us"
  using assms
  by (induction us arbitrary: reg) (auto simp: upcasters_for_register split: sum.splits)

lemma register_all_distinct:
  assumes "register_all us reg = Inr reg'" "distinct (map up_source_version (upcasters_for reg ty))"
  shows "distinct (map up_source_version (upcasters_for reg' ty))"
  using assms
proof (induction us arbitrary: reg)
  case (Cons u us)
  then obtain reg1 where r: "register_upcaster u reg = Inr reg1" "register_all us reg1 = Inr reg'"
    by (auto split: sum.splits)
  have "distinct (map up_source_version (upcasters_for reg1 ty))"
    using Cons.prems(2) register_upcaster_fresh [OF r(1)]
    by (auto simp: upcasters_for_register [OF r(1)])
  with Cons.IH r(2) show ?case by blast
qed simp

lemma sorted_wrt_less_sort_key:
  "distinct (map f xs) \<Longrightarrow> sorted_wrt (<) (map f (sort_key f xs))"
  by (metis (no_types, lifting) distinct_map distinct_sort set_sort sorted_sort_key strict_sorted_iff)

lemma upcastable_filter:
  "upcastable {u \<in> us. up_event_type u = ty} ty v \<longleftrightarrow> upcastable us ty v"
  by (auto simp: upcastable_def)

lemma upcast_step_filter:
  "upcast_step {u \<in> us. up_event_type u = ty} ty = upcast_step us ty"
  by (intro ext) (auto simp: upcast_step.simps)

lemma registered_chain:
  assumes reg: "register_all us [] = Inr reg" and asc: "ascending (set us)"
  shows "registry_upcast reg ty d v = Inr r \<longleftrightarrow>
    (upcast_step (set us) ty)\<^sup>*\<^sup>* (d, v) r \<and> \<not> upcastable (set us) ty (snd r)"
proof -
  let ?us = "upcasters_for reg ty"
  have us: "?us = filter (\<lambda>u. up_event_type u = ty) us"
    using register_all_upcasters [OF reg] by (simp add: upcasters_for_def)
  have "distinct (map up_source_version ?us)"
    using register_all_distinct [OF reg] by (simp add: upcasters_for_def)
  then have sorted: "sorted_wrt (<) (map up_source_version (chain_for reg ty))"
    unfolding chain_for_def new_chain_def by (rule sorted_wrt_less_sort_key)
  have set: "set (chain_for reg ty) = {u \<in> set us. up_event_type u = ty}"
    by (simp add: chain_for_def new_chain_def us)
  have "ascending (set (chain_for reg ty))" "list_all (\<lambda>u. up_event_type u = ty) (chain_for reg ty)"
    using asc by (auto simp: set ascending_def list_all_iff)
  from chain_upcast_follows [OF sorted this] show ?thesis
    by (simp add: registry_upcast_def set upcastable_filter upcast_step_filter)
qed

lemma chain_upcast_ok:
  assumes "\<And>u d. u \<in> set us \<Longrightarrow> is_ok (up_fn u d)"
  shows "\<exists>r. chain_upcast us ty d v = Inr r"
  using assms
proof (induction us arbitrary: d v)
  case (Cons u us)
  obtain d' where "up_fn u d = Inr d'"
    using Cons.prems [of u d] by (cases "up_fn u d") auto
  with Cons show ?case by auto
qed simp

lemma upcast_one_fields:
  assumes "register_all us [] = Inr reg" "ascending (set us)" "upcast_one reg e = Inr e'"
  shows "e' = e\<lparr>se_payload := se_payload e', se_schema_version := se_schema_version e'\<rparr>"
    "\<not> upcastable (set us) (se_event_type e') (se_schema_version e')"
    "(upcast_step (set us) (se_event_type e))\<^sup>*\<^sup>*
       (se_payload e, se_schema_version e) (se_payload e', se_schema_version e')"
proof -
  let ?ty = "se_event_type e"
  have "registry_upcast reg ?ty (se_payload e) (se_schema_version e) =
      Inr (se_payload e', se_schema_version e') \<and>
      e' = e\<lparr>se_payload := se_payload e', se_schema_version := se_schema_version e'\<rparr>"
  proof (cases "has_upcasters reg ?ty")
    case True
    then show ?thesis using assms(3) by (auto simp: upcast_one_def split: sum.splits)
  next
    case False
    then show ?thesis using assms(3)
      by (auto simp: upcast_one_def has_upcasters_def registry_upcast_def chain_for_def new_chain_def)
  qed
  then have r: "registry_upcast reg ?ty (se_payload e) (se_schema_version e) =
      Inr (se_payload e', se_schema_version e')"
    and e': "e' = e\<lparr>se_payload := se_payload e', se_schema_version := se_schema_version e'\<rparr>"
    by blast+
  from e' show "e' = e\<lparr>se_payload := se_payload e', se_schema_version := se_schema_version e'\<rparr>" .
  have ty: "se_event_type e' = ?ty" by (subst e') simp
  from r show "\<not> upcastable (set us) (se_event_type e') (se_schema_version e')"
    "(upcast_step (set us) ?ty)\<^sup>*\<^sup>*
       (se_payload e, se_schema_version e) (se_payload e', se_schema_version e')"
    unfolding registered_chain [OF assms(1,2)] ty by auto
qed

lemma upcast_all_pointwise:
  "upcast_all reg es = Inr es' \<longleftrightarrow> list_all2 (\<lambda>e e'. upcast_one reg e = Inr e') es es'"
proof (induction es arbitrary: es')
  case (Cons e es)
  show ?case by (auto simp: list_all2_Cons1 Cons.IH [symmetric] split: sum.splits)
qed auto

section \<open>Properties\<close>

text \<open>
  C31: Upcasting through the registry follows the registered upcasters from version to version until
  none applies, whatever the order of their registration: for upcasters that each raise the version,
  the result of \<^verbatim>\<open>UpcasterRegistry.upcast\<close> is exactly the end of the run of single upcasting steps
  from the stored payload and version, and it is always reached when no upcaster raises.  The single
  pass over the sorted chain therefore never stops at an intermediate schema version.
\<close>

theorem upcast_runs_to_the_last_schema:
  assumes "register_all us [] = Inr reg" "ascending (set us)"
  shows "(registry_upcast reg ty d v = Inr (d', v') \<longleftrightarrow>
      (upcast_step (set us) ty)\<^sup>*\<^sup>* (d, v) (d', v') \<and> \<not> upcastable (set us) ty v')
    \<and> ((\<forall>u\<in>set us. \<forall>x. is_ok (up_fn u x)) \<longrightarrow> (\<exists>r. registry_upcast reg ty d v = Inr r))"
proof (intro conjI impI)
  show "registry_upcast reg ty d v = Inr (d', v') \<longleftrightarrow>
      (upcast_step (set us) ty)\<^sup>*\<^sup>* (d, v) (d', v') \<and> \<not> upcastable (set us) ty v'"
    using registered_chain [OF assms, of ty d v "(d', v')"] by simp
  have sub: "set (chain_for reg ty) \<subseteq> set us"
    using register_all_upcasters [OF assms(1), of ty]
    by (auto simp: chain_for_def new_chain_def upcasters_for_def)
  assume "\<forall>u\<in>set us. \<forall>x. is_ok (up_fn u x)"
  then show "\<exists>r. registry_upcast reg ty d v = Inr r"
    unfolding registry_upcast_def using sub by (intro chain_upcast_ok) auto
qed

definition ex_upcaster :: "int \<Rightarrow> upcaster" where
  "ex_upcaster v = new_upcaster ''OrderCreated'' v 0 (\<lambda>d. Inr (AList.update ''v'' (JInt v) d))"

lemma ex_upcasters_register:
  "register_all [ex_upcaster 2, ex_upcaster 1] [] = Inr [(''OrderCreated'', [ex_upcaster 2, ex_upcaster 1])]"
  by (simp add: register_upcaster_def upcasters_for_def ex_upcaster_def new_upcaster_def Let_def)

lemma ex_upcasters_ascending: "ascending (set [ex_upcaster 2, ex_upcaster 1])"
  by (simp add: ascending_def ex_upcaster_def new_upcaster_def)

theorem upcast_runs_to_the_last_schema_witness:
  "(upcast_step (set [ex_upcaster 2, ex_upcaster 1]) ''OrderCreated'')\<^sup>*\<^sup>* ([], 1) ([(''v'', JInt 2)], 3)
   \<and> \<not> upcastable (set [ex_upcaster 2, ex_upcaster 1]) ''OrderCreated'' 3"
proof -
  have "registry_upcast [(''OrderCreated'', [ex_upcaster 2, ex_upcaster 1])] ''OrderCreated'' [] 1 =
      Inr ([(''v'', JInt 2)], 3)"
    by (simp add: registry_upcast_def chain_for_def new_chain_def upcasters_for_def ex_upcaster_def
        new_upcaster_def)
  with upcast_runs_to_the_last_schema [OF ex_upcasters_register ex_upcasters_ascending,
      of "''OrderCreated''" "[]" 1 "[(''v'', JInt 2)]" 3]
  show ?thesis by blast
qed

text \<open>
  \<^verbatim>\<open>UpcastingEventReader.get_events\<close> returns the events of the store, the same ones in the same
  order: an event differs from its stored form in payload and schema version only, these are reached
  by upcasting steps, and no registered upcaster applies to it any more.
\<close>

theorem reader_returns_current_schema:
  assumes "register_all us [] = Inr reg" "ascending (set us)"
    and "reader_get_events reg es aggregate_id after_version = Inr evs"
  shows "list_all2 (\<lambda>raw e.
      e = raw\<lparr>se_payload := se_payload e, se_schema_version := se_schema_version e\<rparr>
      \<and> (upcast_step (set us) (se_event_type raw))\<^sup>*\<^sup>*
          (se_payload raw, se_schema_version raw) (se_payload e, se_schema_version e)
      \<and> \<not> upcastable (set us) (se_event_type e) (se_schema_version e))
    (get_events es aggregate_id after_version None) evs"
proof -
  have "list_all2 (\<lambda>e e'. upcast_one reg e = Inr e') (get_events es aggregate_id after_version None) evs"
    using assms(3) by (simp add: reader_get_events_def upcast_all_pointwise)
  then show ?thesis
    by (rule list_all2_mono) (intro conjI upcast_one_fields [OF assms(1,2)], assumption+)
qed

definition ex_order_event :: stored_event where
  "ex_order_event = \<lparr>se_event_id = ''e1'', se_event_type = ''OrderCreated'', se_aggregate_id = ''o1'',
     se_aggregate_type = ''Order'', se_version = 1, se_schema_version = 1, se_payload = [],
     se_metadata = [], se_occurred_at = 0, se_correlation_id = None, se_causation_id = None,
     se_position = Some 0, se_tenant_id = None\<rparr>"

theorem reader_returns_current_schema_witness:
  "list_all2 (\<lambda>raw e.
      e = raw\<lparr>se_payload := se_payload e, se_schema_version := se_schema_version e\<rparr>
      \<and> (upcast_step (set [ex_upcaster 2, ex_upcaster 1]) (se_event_type raw))\<^sup>*\<^sup>*
          (se_payload raw, se_schema_version raw) (se_payload e, se_schema_version e)
      \<and> \<not> upcastable (set [ex_upcaster 2, ex_upcaster 1]) (se_event_type e) (se_schema_version e))
    (get_events [ex_order_event] ''o1'' 0 None)
    [ex_order_event\<lparr>se_payload := [(''v'', JInt 2)], se_schema_version := 3\<rparr>]"
proof -
  have "reader_get_events [(''OrderCreated'', [ex_upcaster 2, ex_upcaster 1])] [ex_order_event] ''o1'' 0 =
      Inr [ex_order_event\<lparr>se_payload := [(''v'', JInt 2)], se_schema_version := 3\<rparr>]"
    by (simp add: reader_get_events_def get_events_def apply_specification_def upcast_one_def
        has_upcasters_def registry_upcast_def chain_for_def new_chain_def upcasters_for_def
        ex_upcaster_def new_upcaster_def ex_order_event_def)
  from reader_returns_current_schema [OF ex_upcasters_register ex_upcasters_ascending this]
  show ?thesis .
qed

end
