(* ===== verification/EventSourcing.thy ===== *)
theory EventSourcing
  imports Upcasting
begin

text \<open>
  Event-sourced aggregates: the event type registry (domain/event_registry.py), handler validation and
  the default applicator (domain/event_validation.py, event_sourcing/loader.py), the snapshot store and
  strategies (adapters/memory/snapshot_store.py, snapshots/), the loader and repository
  (event_sourcing/loader.py, repository.py) and the persistence orchestrator
  (event_sourcing/persistence_orchestrator.py).

  Loader and repository receive their event store and snapshot store as arguments, as the code does:
  the operations of \<^verbatim>\<open>IEventStore\<close> and \<^verbatim>\<open>ISnapshotStore\<close> they call are parameters, the laws they
  rely on are the locale \<open>event_log\<close>, and the in-memory store is an interpretation of it.
  Pydantic's \<^verbatim>\<open>model_dump\<close> and \<^verbatim>\<open>model_validate\<close>, the constructor of the aggregate and the
  \<^verbatim>\<open>apply_\<close> methods are user or library code and are parameters too.  Aggregate ids are strings.
\<close>

section \<open>Events, aggregates and the event type registry\<close>

record domain_event =
  de_class :: string
  de_event_id :: string
  de_occurred_at :: time
  de_version :: int
  de_aggregate_id :: "string option"
  de_aggregate_type :: "string option"
  de_metadata :: payload
  de_correlation_id :: "string option"
  de_causation_id :: "string option"
  de_fields :: payload

record 'a aggregate =
  ag_id :: string
  ag_version :: int
  ag_events :: "domain_event list"
  ag_state :: 'a

definition add_event :: "domain_event \<Rightarrow> 'a aggregate \<Rightarrow> 'a aggregate" where
  "add_event e a = a\<lparr>ag_events := ag_events a @ [e]\<rparr>"

definition collect_events :: "'a aggregate \<Rightarrow> 'a aggregate \<times> domain_event list" where
  "collect_events a = (a\<lparr>ag_events := []\<rparr>, ag_events a)"

text \<open>An event class is its \<^verbatim>\<open>model_validate\<close>.\<close>

type_synonym event_class = "payload \<Rightarrow> exn + domain_event"
type_synonym event_type_registry = "(string, event_class) dict"

definition register_event_type :: "string \<Rightarrow> event_class \<Rightarrow> event_type_registry \<Rightarrow> event_type_registry" where
  "register_event_type name cls reg = AList.update name cls reg"

definition clear_event_types :: "event_type_registry \<Rightarrow> event_type_registry" where
  "clear_event_types reg = []"

fun is_type_or_value_error :: "exn \<Rightarrow> bool" where
  "is_type_or_value_error (TypeError _) = True"
| "is_type_or_value_error (ValueError _) = True"
| "is_type_or_value_error _ = False"

definition hydrate_event ::
  "event_type_registry \<Rightarrow> string \<Rightarrow> payload \<Rightarrow> exn + domain_event option" where
  "hydrate_event reg event_type data =
     (case map_of reg event_type of
        None \<Rightarrow> Inr None
      | Some cls \<Rightarrow> (case cls data of
            Inl x \<Rightarrow> if is_type_or_value_error x then Inr None else Inl x
          | Inr e \<Rightarrow> Inr (Some e)))"

section \<open>Handler validation and the default applicator\<close>

definition is_upper :: "char \<Rightarrow> bool" where
  "is_upper c \<longleftrightarrow> 65 \<le> (of_char c :: nat) \<and> (of_char c :: nat) \<le> 90"

definition to_lower :: "char \<Rightarrow> char" where
  "to_lower c = (if is_upper c then char_of ((of_char c :: nat) + 32) else c)"

fun snake_tail :: "string \<Rightarrow> string" where
  "snake_tail [] = []"
| "snake_tail (c # cs) =
     (if is_upper c then CHR ''_'' # to_lower c # snake_tail cs else to_lower c # snake_tail cs)"

fun event_type_to_snake :: "string \<Rightarrow> string" where
  "event_type_to_snake [] = []"
| "event_type_to_snake (c # cs) = to_lower c # snake_tail cs"

text \<open>The attributes of an aggregate class by name; only methods are callable.\<close>

type_synonym 'a apply_method = "'a aggregate \<Rightarrow> domain_event \<Rightarrow> exn + 'a aggregate"

datatype 'a attribute = Method "'a apply_method" | Plain

record 'a agg_class =
  ac_name :: string
  ac_attrs :: "(string, 'a attribute) dict"

definition has_attr :: "'a agg_class \<Rightarrow> string \<Rightarrow> bool" where
  "has_attr cls name \<longleftrightarrow> map_of (ac_attrs cls) name \<noteq> None"

definition get_method :: "'a agg_class \<Rightarrow> string \<Rightarrow> 'a apply_method option" where
  "get_method cls name =
     (case map_of (ac_attrs cls) name of Some (Method m) \<Rightarrow> Some m | _ \<Rightarrow> None)"

record validation_config =
  vc_enabled :: bool
  vc_strict_mode :: bool
  vc_allow_fallback_handler :: bool

definition check_strict_mode :: "string \<Rightarrow> string \<Rightarrow> bool \<Rightarrow> bool \<Rightarrow> bool \<Rightarrow> exn + unit" where
  "check_strict_mode aggregate_type event_type has_exact has_fallback allow_fallback =
     (if has_exact then Inr ()
      else if has_fallback \<and> allow_fallback then Inr ()
      else if has_fallback then Inl (StrictValidationViolationError aggregate_type event_type)
      else Inl (MissingEventHandlerError aggregate_type event_type))"

definition check_lenient_mode :: "string \<Rightarrow> string \<Rightarrow> bool \<Rightarrow> bool \<Rightarrow> bool \<Rightarrow> exn + unit" where
  "check_lenient_mode aggregate_type event_type has_exact has_fallback allow_fallback =
     (if has_exact \<or> (has_fallback \<and> allow_fallback) then Inr ()
      else Inl (MissingEventHandlerError aggregate_type event_type))"

definition validate_handler_exists ::
  "validation_config \<Rightarrow> 'a agg_class \<Rightarrow> domain_event \<Rightarrow> exn + unit" where
  "validate_handler_exists cfg cls event =
     (if \<not> vc_enabled cfg then Inr ()
      else let event_type = de_class event;
               aggregate_type = ac_name cls;
               has_exact = has_attr cls (''apply_'' @ event_type)
                 \<or> has_attr cls (''apply_'' @ event_type_to_snake event_type);
               has_fallback = has_attr cls ''apply_event'';
               allow_fallback = vc_allow_fallback_handler cfg
           in if vc_strict_mode cfg
              then check_strict_mode aggregate_type event_type has_exact has_fallback allow_fallback
              else check_lenient_mode aggregate_type event_type has_exact has_fallback allow_fallback)"

definition exact_method :: "'a agg_class \<Rightarrow> string \<Rightarrow> 'a apply_method option" where
  "exact_method cls event_type =
     (case get_method cls (''apply_'' @ event_type) of
        Some m \<Rightarrow> Some m
      | None \<Rightarrow> get_method cls (''apply_'' @ event_type_to_snake event_type))"

definition applicator_apply ::
  "validation_config \<Rightarrow> bool \<Rightarrow> 'a agg_class \<Rightarrow> 'a aggregate \<Rightarrow> domain_event \<Rightarrow> exn + 'a aggregate" where
  "applicator_apply cfg raise_on_missing cls a event =
     (case (if raise_on_missing then validate_handler_exists cfg cls event else Inr ()) of
        Inl x \<Rightarrow> Inl x
      | Inr _ \<Rightarrow>
          (case exact_method cls (de_class event) of
             Some m \<Rightarrow> m a event
           | None \<Rightarrow> (case get_method cls ''apply_event'' of
                 Some m \<Rightarrow> m a event
               | None \<Rightarrow>
                   if raise_on_missing
                   then if vc_enabled cfg
                        then Inl (MissingEventHandlerError (ac_name cls) (de_class event))
                        else Inl (AttributeError (''Aggregate '' @ ac_name cls @ '' has no apply_'' @
                               de_class event @ '' or apply_event''))
                   else Inr a)))"

section \<open>Snapshots\<close>

record snapshot =
  sn_data :: payload
  sn_version :: int
  sn_created_at :: time

type_synonym snapshot_store = "(string \<times> string, snapshot) dict"

definition save_snapshot ::
  "time \<Rightarrow> string \<Rightarrow> string \<Rightarrow> payload \<Rightarrow> int \<Rightarrow> snapshot_store \<Rightarrow> snapshot_store" where
  "save_snapshot now aggregate_type aggregate_id snapshot_data version st =
     AList.update (aggregate_type, aggregate_id)
       \<lparr>sn_data = snapshot_data, sn_version = version, sn_created_at = now\<rparr> st"

definition get_latest_snapshot :: "snapshot_store \<Rightarrow> string \<Rightarrow> string \<Rightarrow> snapshot option" where
  "get_latest_snapshot st aggregate_type aggregate_id = map_of st (aggregate_type, aggregate_id)"

definition delete_snapshot :: "string \<Rightarrow> string \<Rightarrow> snapshot_store \<Rightarrow> snapshot_store" where
  "delete_snapshot aggregate_type aggregate_id st = AList.delete (aggregate_type, aggregate_id) st"

definition clear_snapshots :: "snapshot_store \<Rightarrow> snapshot_store" where
  "clear_snapshots st = []"

text \<open>\<^verbatim>\<open>snapshot.get("snapshot_data") or snapshot\<close>: empty data falls back to the whole dictionary.\<close>

definition snapshot_payload :: "snapshot \<Rightarrow> payload" where
  "snapshot_payload s =
     (if sn_data s \<noteq> [] then sn_data s
      else [(''snapshot_data'', JDict []), (''version'', JInt (sn_version s)),
            (''created_at'', JInt (sn_created_at s))])"

type_synonym 'a snapshot_strategy = "'a aggregate \<Rightarrow> exn + bool"

definition every_n_events :: "int \<Rightarrow> 'a snapshot_strategy" where
  "every_n_events n a =
     (if 0 < ag_version a
      then if n = 0 then Inl ZeroDivisionError else Inr (ag_version a mod n = 0)
      else Inr False)"

record 'a strategy_registry =
  sr_strategies :: "(string, 'a snapshot_strategy) dict"
  sr_default :: "'a snapshot_strategy option"

definition register_strategy ::
  "string \<Rightarrow> 'a snapshot_strategy \<Rightarrow> 'a strategy_registry \<Rightarrow> 'a strategy_registry" where
  "register_strategy aggregate_type s reg =
     reg\<lparr>sr_strategies := AList.update aggregate_type s (sr_strategies reg)\<rparr>"

definition set_default_strategy ::
  "'a snapshot_strategy \<Rightarrow> 'a strategy_registry \<Rightarrow> 'a strategy_registry" where
  "set_default_strategy s reg = reg\<lparr>sr_default := Some s\<rparr>"

definition clear_strategies :: "'a strategy_registry \<Rightarrow> 'a strategy_registry" where
  "clear_strategies reg = reg\<lparr>sr_strategies := [], sr_default := None\<rparr>"

definition get_strategy :: "'a strategy_registry \<Rightarrow> string \<Rightarrow> 'a snapshot_strategy option" where
  "get_strategy reg aggregate_type =
     (case map_of (sr_strategies reg) aggregate_type of Some s \<Rightarrow> Some s | None \<Rightarrow> sr_default reg)"

definition should_snapshot :: "'a strategy_registry \<Rightarrow> string \<Rightarrow> 'a aggregate \<Rightarrow> exn + bool" where
  "should_snapshot reg aggregate_type a =
     (case get_strategy reg aggregate_type of None \<Rightarrow> Inr False | Some s \<Rightarrow> s a)"

section \<open>Loader\<close>

record 'a loader =
  ld_type_name :: string
  ld_event_registry :: event_type_registry
  ld_upcaster_registry :: "upcaster_registry option"
  ld_strategies :: "'a strategy_registry option"
  ld_applicator :: "'a apply_method"
  ld_create_aggregate :: "string \<Rightarrow> exn + 'a aggregate"
  ld_model_validate :: "payload \<Rightarrow> exn + 'a aggregate"
  ld_model_dump :: "'a aggregate \<Rightarrow> payload"

definition decode_stored :: "'a loader \<Rightarrow> stored_event \<Rightarrow> exn + domain_event option" where
  "decode_stored ld stored =
     (case (case ld_upcaster_registry ld of
              Some reg \<Rightarrow>
                if has_upcasters reg (se_event_type stored)
                then registry_upcast reg (se_event_type stored) (se_payload stored) (se_schema_version stored)
                else Inr (se_payload stored, se_schema_version stored)
            | None \<Rightarrow> Inr (se_payload stored, se_schema_version stored)) of
        Inl x \<Rightarrow> Inl x
      | Inr (payload, schema_ver) \<Rightarrow> hydrate_event (ld_event_registry ld) (se_event_type stored) payload)"

fun replay :: "'a loader \<Rightarrow> stored_event list \<Rightarrow> 'a aggregate \<Rightarrow> exn + 'a aggregate" where
  "replay ld [] a = Inr a"
| "replay ld (stored # rest) a =
     (case decode_stored ld stored of
        Inl x \<Rightarrow> Inl x
      | Inr None \<Rightarrow> replay ld rest a
      | Inr (Some event) \<Rightarrow>
          (case ld_applicator ld a event of
             Inl x \<Rightarrow> Inl x
           | Inr a' \<Rightarrow> replay ld rest (a'\<lparr>ag_version := se_version stored\<rparr>)))"

text \<open>
  \<^verbatim>\<open>load\<close> over the two ports it calls: \<open>gev\<close> is \<^verbatim>\<open>event_store.get_events\<close>, \<open>gsnap\<close> the snapshot
  store's \<^verbatim>\<open>get_latest_snapshot\<close>, if there is a snapshot store.
\<close>

definition load ::
  "'a loader \<Rightarrow> (string \<Rightarrow> int \<Rightarrow> stored_event list) \<Rightarrow> (string \<Rightarrow> string \<Rightarrow> snapshot option) option \<Rightarrow>
     string \<Rightarrow> exn + 'a aggregate option" where
  "load ld gev gsnap aggregate_id =
     (let snap = (case gsnap of None \<Rightarrow> None | Some g \<Rightarrow> g (ld_type_name ld) aggregate_id);
          after_version = (case snap of None \<Rightarrow> 0 | Some s \<Rightarrow> sn_version s);
          start = (case snap of
                     Some s \<Rightarrow> (case ld_model_validate ld (snapshot_payload s) of
                                  Inl x \<Rightarrow> Inl x
                                | Inr a \<Rightarrow> Inr (Some (a\<lparr>ag_version := sn_version s\<rparr>)))
                   | None \<Rightarrow> (case ld_create_aggregate ld aggregate_id of
                                Inl _ \<Rightarrow> Inr None
                              | Inr a \<Rightarrow> Inr (Some (a\<lparr>ag_version := 0\<rparr>))))
      in case start of
           Inl x \<Rightarrow> Inl x
         | Inr None \<Rightarrow> Inr None
         | Inr (Some a) \<Rightarrow>
             let raw_events = gev aggregate_id after_version
             in if raw_events = [] \<and> after_version = 0 then Inr None
                else (case replay ld raw_events a of Inl x \<Rightarrow> Inl x | Inr b \<Rightarrow> Inr (Some b)))"

definition maybe_snapshot ::
  "'a loader \<Rightarrow> time \<Rightarrow> 'a aggregate \<Rightarrow> snapshot_store option \<Rightarrow> exn + snapshot_store option" where
  "maybe_snapshot ld now a snaps =
     (case snaps of
        None \<Rightarrow> Inr None
      | Some st \<Rightarrow>
          (case ld_strategies ld of
             None \<Rightarrow> Inr (Some st)
           | Some reg \<Rightarrow>
               (case should_snapshot reg (ld_type_name ld) a of
                  Inl x \<Rightarrow> Inl x
                | Inr due \<Rightarrow>
                    if \<not> due then Inr (Some st)
                    else Inr (Some (save_snapshot now (ld_type_name ld) (ag_id a)
                                      (ld_model_dump ld a) (ag_version a) st)))))"

section \<open>Repository\<close>

definition tenant_of :: "payload \<Rightarrow> string option" where
  "tenant_of metadata = (case map_of metadata ''tenant_id'' of Some (JStr t) \<Rightarrow> Some t | _ \<Rightarrow> None)"

text \<open>\<^verbatim>\<open>str(getattr(event, "aggregate_id", ""))\<close>: an event without aggregate id is stored under \<^verbatim>\<open>None\<close>.\<close>

definition str_opt :: "string option \<Rightarrow> string" where
  "str_opt s = (case s of None \<Rightarrow> ''None'' | Some t \<Rightarrow> t)"

definition to_stored ::
  "string \<Rightarrow> (domain_event \<Rightarrow> payload) \<Rightarrow> int \<Rightarrow> domain_event \<Rightarrow> stored_event" where
  "to_stored type_name model_dump version event =
     \<lparr>se_event_id = de_event_id event, se_event_type = de_class event,
      se_aggregate_id = str_opt (de_aggregate_id event),
      se_aggregate_type = (if truthy (de_aggregate_type event) then the (de_aggregate_type event) else type_name),
      se_version = version, se_schema_version = de_version event, se_payload = model_dump event,
      se_metadata = de_metadata event, se_occurred_at = de_occurred_at event,
      se_correlation_id = de_correlation_id event, se_causation_id = de_causation_id event,
      se_position = None, se_tenant_id = tenant_of (de_metadata event)\<rparr>"

fun stored_events ::
  "string \<Rightarrow> (domain_event \<Rightarrow> payload) \<Rightarrow> int \<Rightarrow> nat \<Rightarrow> domain_event list \<Rightarrow> stored_event list" where
  "stored_events type_name model_dump base_version i [] = []"
| "stored_events type_name model_dump base_version i (e # es) =
     to_stored type_name model_dump (base_version + int i + 1) e
       # stored_events type_name model_dump base_version (Suc i) es"

text \<open>
  \<open>append_batch_fn\<close> is \<^verbatim>\<open>event_store.append_batch\<close>.  The events are appended before the snapshot is
  attempted: an exception there leaves them in the store.
\<close>

definition persist_internal ::
  "'a loader \<Rightarrow> (domain_event \<Rightarrow> payload) \<Rightarrow> ('s \<Rightarrow> stored_event list \<Rightarrow> 's) \<Rightarrow> time \<Rightarrow>
     'a aggregate \<Rightarrow> domain_event list \<Rightarrow> 's \<times> snapshot_store option \<Rightarrow>
     ('s \<times> snapshot_store option) \<times> (exn + string)" where
  "persist_internal ld model_dump append_batch_fn now entity events st =
     (let base_version = ag_version entity - int (length events);
          store = append_batch_fn (fst st) (stored_events (ld_type_name ld) model_dump base_version 0 events)
      in case (if snd st \<noteq> None \<and> ld_strategies ld \<noteq> None
               then maybe_snapshot ld now entity (snd st) else Inr (snd st)) of
           Inl x \<Rightarrow> ((store, snd st), Inl x)
         | Inr snaps \<Rightarrow> ((store, snaps), Inr (ag_id entity)))"

definition persist ::
  "'a loader \<Rightarrow> (domain_event \<Rightarrow> payload) \<Rightarrow> ('s \<Rightarrow> stored_event list \<Rightarrow> 's) \<Rightarrow> time \<Rightarrow>
     'a aggregate \<Rightarrow> domain_event list option \<Rightarrow> 's \<times> snapshot_store option \<Rightarrow>
     'a aggregate \<times> ('s \<times> snapshot_store option) \<times> (exn + string)" where
  "persist ld model_dump append_batch_fn now entity events st =
     (case events of
        Some evs \<Rightarrow> (entity, persist_internal ld model_dump append_batch_fn now entity evs st)
      | None \<Rightarrow> (case collect_events entity of
            (entity', evs) \<Rightarrow> (entity', persist_internal ld model_dump append_batch_fn now entity' evs st)))"

fun retrieve ::
  "'a loader \<Rightarrow> (string \<Rightarrow> int \<Rightarrow> stored_event list) \<Rightarrow> (string \<Rightarrow> string \<Rightarrow> snapshot option) option \<Rightarrow>
     string list \<Rightarrow> exn + 'a aggregate list" where
  "retrieve ld gev gsnap [] = Inr []"
| "retrieve ld gev gsnap (i # ids) =
     (case load ld gev gsnap i of
        Inl x \<Rightarrow> Inl x
      | Inr agg \<Rightarrow> (case retrieve ld gev gsnap ids of
            Inl x \<Rightarrow> Inl x
          | Inr rest \<Rightarrow> Inr (case agg of None \<Rightarrow> rest | Some a \<Rightarrow> a # rest)))"

text \<open>The repository on the in-memory stores.\<close>

definition mem_get_events :: "event_store \<Rightarrow> string \<Rightarrow> int \<Rightarrow> stored_event list" where
  "mem_get_events es i v = get_events es i v None"

definition mem_load ::
  "'a loader \<Rightarrow> event_store \<times> snapshot_store option \<Rightarrow> string \<Rightarrow> exn + 'a aggregate option" where
  "mem_load ld st i = load ld (mem_get_events (fst st)) (map_option get_latest_snapshot (snd st)) i"

section \<open>Replay\<close>

text \<open>The reference: apply the events in order, numbering them from \<open>v + 1\<close>.\<close>

fun evolve :: "'a apply_method \<Rightarrow> int \<Rightarrow> domain_event list \<Rightarrow> 'a aggregate \<Rightarrow> exn + 'a aggregate" where
  "evolve f v [] a = Inr a"
| "evolve f v (e # es) a =
     (case f a e of Inl x \<Rightarrow> Inl x | Inr b \<Rightarrow> evolve f (v + 1) es (b\<lparr>ag_version := v + 1\<rparr>))"

definition unplaced :: "stored_event \<Rightarrow> stored_event" where
  "unplaced e = e\<lparr>se_position := None\<rparr>"

lemma unplaced_simps [simp]:
  "se_aggregate_id (unplaced e) = se_aggregate_id e" "se_version (unplaced e) = se_version e"
  "se_event_type (unplaced e) = se_event_type e" "se_payload (unplaced e) = se_payload e"
  "se_schema_version (unplaced e) = se_schema_version e" "unplaced (place i e) = unplaced e"
  by (simp_all add: unplaced_def place_def)

lemma decode_stored_unplaced [simp]: "decode_stored ld (unplaced e) = decode_stored ld e"
  unfolding decode_stored_def unplaced_simps ..

lemma replay_unplaced: "replay ld (map unplaced evs) a = replay ld evs a"
  by (induction evs arbitrary: a) (auto split: sum.splits option.splits)

lemma replay_append:
  "replay ld (xs @ ys) a = (case replay ld xs a of Inl x \<Rightarrow> Inl x | Inr b \<Rightarrow> replay ld ys b)"
  by (induction xs arbitrary: a) (auto split: sum.splits option.splits)

lemma replay_version_mono:
  assumes "replay ld evs a = Inr b" "\<forall>e\<in>set evs. ag_version a < se_version e"
    and "sorted_wrt (<) (map se_version evs)"
  shows "ag_version a \<le> ag_version b"
  using assms
proof (induction evs arbitrary: a)
  case (Cons e evs)
  show ?case
  proof (cases "decode_stored ld e")
    case (Inr r)
    show ?thesis
    proof (cases r)
      case None
      with Inr Cons show ?thesis by auto
    next
      case (Some ev)
      with Inr Cons.prems(1) obtain a' where a': "ld_applicator ld a ev = Inr a'"
        "replay ld evs (a'\<lparr>ag_version := se_version e\<rparr>) = Inr b" by (auto split: sum.splits)
      have "se_version e \<le> ag_version b" using Cons.IH [OF a'(2)] Cons.prems(3) by simp
      with Cons.prems(2) show ?thesis by auto
    qed
  qed (use Cons.prems in simp)
qed simp

text \<open>
  Resuming: an aggregate that was replayed from a prefix of the stream and then replays what the store
  returns after its version ends where a replay of the whole stream ends.
\<close>

lemma replay_resume:
  assumes "replay ld evs a = Inr b" "\<forall>e\<in>set (evs @ ys). ag_version a < se_version e"
    and "sorted_wrt (<) (map se_version (evs @ ys))"
  shows "replay ld (filter (\<lambda>e. ag_version b < se_version e) (evs @ ys)) b = replay ld (evs @ ys) a"
  using assms
proof (induction evs arbitrary: a)
  case Nil
  then show ?case by (simp add: filter_id_conv')
next
  case (Cons e evs)
  show ?case
  proof (cases "decode_stored ld e")
    case (Inr r)
    show ?thesis
    proof (cases r)
      case None
      with Inr Cons.prems(1) have "replay ld evs a = Inr b" by simp
      from Cons.IH [OF this] Cons.prems(2,3) Inr None show ?thesis by simp
    next
      case (Some ev)
      with Inr Cons.prems(1) obtain a' where a': "ld_applicator ld a ev = Inr a'"
        "replay ld evs (a'\<lparr>ag_version := se_version e\<rparr>) = Inr b" by (auto split: sum.splits)
      have "se_version e \<le> ag_version b"
        using replay_version_mono [OF a'(2)] Cons.prems(3) by (simp add: sorted_wrt_append)
      moreover have "replay ld (filter (\<lambda>e. ag_version b < se_version e) (evs @ ys)) b =
          replay ld (evs @ ys) (a'\<lparr>ag_version := se_version e\<rparr>)"
        using Cons.IH [OF a'(2)] Cons.prems(3) by auto
      ultimately show ?thesis using a' Inr Some by simp
    qed
  qed (use Cons.prems in simp)
qed

text \<open>An event decodes back to itself: no upcaster changes it and its class accepts its own dump.\<close>

definition decodes :: "'a loader \<Rightarrow> (domain_event \<Rightarrow> payload) \<Rightarrow> domain_event \<Rightarrow> bool" where
  "decodes ld model_dump e \<longleftrightarrow>
     decode_stored ld (to_stored (ld_type_name ld) model_dump 0 e) = Inr (Some e)"

lemma to_stored_simps [simp]:
  "se_version (to_stored ty model_dump v e) = v"
  "se_aggregate_id (to_stored ty model_dump v e) = str_opt (de_aggregate_id e)"
  "se_event_type (to_stored ty model_dump v e) = de_class e"
  "se_payload (to_stored ty model_dump v e) = model_dump e"
  "se_schema_version (to_stored ty model_dump v e) = de_version e"
  "se_position (to_stored ty model_dump v e) = None"
  by (simp_all add: to_stored_def)

lemma decode_to_stored:
  "decode_stored ld (to_stored ty model_dump v e) = decode_stored ld (to_stored ty' model_dump 0 e)"
  unfolding decode_stored_def to_stored_simps ..

lemma replay_stored:
  assumes "\<forall>e\<in>set evs. decodes ld model_dump e"
  shows "replay ld (stored_events ty model_dump base i evs) a =
    evolve (ld_applicator ld) (base + int i) evs a"
  using assms
proof (induction evs arbitrary: i a)
  case (Cons e evs)
  have "decode_stored ld (to_stored ty model_dump (base + int i + 1) e) = Inr (Some e)"
    using Cons.prems decode_to_stored unfolding decodes_def by (metis list.set_intros(1))
  with Cons show ?case by (auto simp: add.commute add.left_commute split: sum.splits)
qed simp

lemma stored_events_versions:
  "map se_version (stored_events ty model_dump base i evs) =
     map (\<lambda>k. base + int k + 1) [i..<i + length evs]"
  by (induction evs arbitrary: i) (auto simp: upt_rec)

lemma stored_events_ids:
  "map se_aggregate_id (stored_events ty model_dump base i evs) = map (str_opt \<circ> de_aggregate_id) evs"
  by (induction evs arbitrary: i) auto

lemma length_stored_events [simp]: "length (stored_events ty model_dump base i evs) = length evs"
  by (induction evs arbitrary: i) auto

lemma stored_events_members:
  assumes "e \<in> set (stored_events ty model_dump base i evs)"
  shows "base < se_version e" "se_version e \<le> base + int i + int (length evs)"
    "se_aggregate_id e \<in> (str_opt \<circ> de_aggregate_id) ` set evs"
proof -
  have "se_version e \<in> set (map se_version (stored_events ty model_dump base i evs))"
    using assms by simp
  then show "base < se_version e" "se_version e \<le> base + int i + int (length evs)"
    unfolding stored_events_versions by auto
  have "se_aggregate_id e \<in> set (map se_aggregate_id (stored_events ty model_dump base i evs))"
    using assms by simp
  then show "se_aggregate_id e \<in> (str_opt \<circ> de_aggregate_id) ` set evs"
    unfolding stored_events_ids by simp
qed

text \<open>The events numbered 0 and below are those a read of the stream skips.\<close>

lemma stored_events_readable:
  assumes "\<forall>e\<in>set evs. de_aggregate_id e = Some a"
  shows "filter (\<lambda>e. se_aggregate_id e = a \<and> 0 < se_version e) (stored_events ty model_dump base i evs) =
    stored_events ty model_dump base (max i (nat (- base))) (drop (nat (- base) - i) evs)"
  using assms
proof (induction evs arbitrary: i)
  case (Cons e evs)
  show ?case
  proof (cases "nat (- base) \<le> i")
    case True
    then have "nat (- base) - i = 0" "max i (nat (- base)) = i" "max (Suc i) (nat (- base)) = Suc i" "nat (- base) - Suc i = 0"
      by auto
    moreover have "0 < base + int i + 1" using True by linarith
    ultimately show ?thesis using Cons by (simp add: str_opt_def)
  next
    case False
    then have "max (Suc i) (nat (- base)) = max i (nat (- base))" "nat (- base) - i = Suc (nat (- base) - Suc i)" by auto
    moreover have "\<not> 0 < base + int i + 1" using False by linarith
    ultimately show ?thesis using Cons by simp
  qed
qed simp

section \<open>The event store as the loader and the repository see it\<close>

locale event_log =
  fixes add :: "'s \<Rightarrow> stored_event list \<Rightarrow> 's"
    and stream :: "'s \<Rightarrow> string \<Rightarrow> int \<Rightarrow> stored_event list"
  assumes stream_after: "w \<le> v \<Longrightarrow> stream s i v = filter (\<lambda>e. v < se_version e) (stream s i w)"
    and stream_add: "map unplaced (stream (add s evs) i v) = map unplaced (stream s i v) @
      map unplaced (filter (\<lambda>e. se_aggregate_id e = i \<and> v < se_version e) evs)"
begin

lemma stream_positive: "e \<in> set (stream s i v) \<Longrightarrow> v < se_version e"
  using stream_after [of v v s i] by (metis (no_types, lifting) filter_eq_ConsD filter_id_conv order_refl)

lemma load_fresh:
  assumes "ld_create_aggregate ld i = Inr a0"
  shows "load ld (stream s) None i =
    (if stream s i 0 = [] then Inr None
     else case replay ld (stream s i 0) (a0\<lparr>ag_version := 0\<rparr>) of Inl x \<Rightarrow> Inl x | Inr b \<Rightarrow> Inr (Some b))"
  by (simp add: load_def assms)

lemma load_after_persist:
  assumes create: "ld_create_aggregate ld i = Inr a0"
    and before: "replay ld (stream s i 0) (a0\<lparr>ag_version := 0\<rparr>) = Inr a"
    and ids: "\<forall>e\<in>set evs. de_aggregate_id e = Some i \<and> decodes ld model_dump e"
  shows "load ld (stream (add s (stored_events ty model_dump base 0 evs))) None i =
    (if stream s i 0 = [] \<and> drop (nat (- base)) evs = [] then Inr None
     else case evolve (ld_applicator ld) (max 0 base) (drop (nat (- base)) evs) a of Inl x \<Rightarrow> Inl x | Inr b \<Rightarrow> Inr (Some b))"
proof -
  let ?k = "nat (- base)"
  let ?new = "stored_events ty model_dump base 0 evs"
  let ?kept = "stored_events ty model_dump base ?k (drop ?k evs)"
  let ?s = "add s ?new"
  have "filter (\<lambda>e. se_aggregate_id e = i \<and> 0 < se_version e) ?new = ?kept"
    using stored_events_readable [of evs i ty model_dump base 0] ids by simp
  then have all: "map unplaced (stream ?s i 0) = map unplaced (stream s i 0 @ ?kept)"
    using stream_add [of s ?new i 0] by simp
  then have "length (stream ?s i 0) = length (stream s i 0) + length (drop ?k evs)"
    by (metis length_append length_map length_stored_events)
  then have ne: "stream ?s i 0 = [] \<longleftrightarrow> stream s i 0 = [] \<and> drop ?k evs = []"
    by (metis add_eq_0_iff_both_eq_0 length_0_conv)
  have "replay ld (stream ?s i 0) (a0\<lparr>ag_version := 0\<rparr>) =
      replay ld (stream s i 0 @ ?kept) (a0\<lparr>ag_version := 0\<rparr>)"
    using replay_unplaced [of ld "stream ?s i 0"] replay_unplaced [of ld "stream s i 0 @ ?kept"] all
    by (metis)
  also have "\<dots> = evolve (ld_applicator ld) (base + int ?k) (drop ?k evs) a"
    using replay_stored [of "drop ?k evs" ld model_dump ty base ?k a] ids
    by (simp add: replay_append before in_set_dropD)
  also have "base + int ?k = max 0 base" by simp
  finally show ?thesis unfolding load_fresh [OF create] ne by simp
qed

lemma load_resumes:
  assumes loaded: "load ld (stream s) None i = Inr (Some a)"
    and sorted: "sorted_wrt (<) (map se_version (stream (add s later) i 0))"
    and snap: "g (ld_type_name ld) i = Some sn" "sn_version sn = ag_version a"
    and valid: "ld_model_validate ld (snapshot_payload sn) = Inr c" "c\<lparr>ag_version := ag_version a\<rparr> = a"
  shows "load ld (stream (add s later)) (Some g) i = load ld (stream (add s later)) None i"
proof -
  let ?s = "add s later"
  define xs where "xs = map unplaced (stream s i 0)"
  define ys where "ys = map unplaced (filter (\<lambda>e. se_aggregate_id e = i \<and> 0 < se_version e) later)"
  obtain a0 where create: "ld_create_aggregate ld i = Inr a0"
    using loaded by (cases "ld_create_aggregate ld i") (auto simp: load_def)
  let ?z = "a0\<lparr>ag_version := 0\<rparr>"
  have ne: "stream s i 0 \<noteq> []" and r: "replay ld xs ?z = Inr a"
    using loaded by (auto simp: load_fresh [OF create] xs_def replay_unplaced split: if_splits sum.splits)
  have all: "map unplaced (stream ?s i 0) = xs @ ys" by (simp add: stream_add xs_def ys_def)
  then have ne': "stream ?s i 0 \<noteq> []" using ne by (auto simp: xs_def)
  have "map se_version (stream ?s i 0) = map se_version (map unplaced (stream ?s i 0))" by simp
  then have sorted': "sorted_wrt (<) (map se_version (xs @ ys))" using sorted all by simp
  have pos: "\<forall>e\<in>set (xs @ ys). ag_version ?z < se_version e"
    using stream_positive [of _ ?s i 0] unfolding all [symmetric] by auto
  have av: "0 \<le> ag_version a"
    using replay_version_mono [OF r] pos sorted' by (simp add: sorted_wrt_append)
  have tail: "map unplaced (stream ?s i (ag_version a)) =
      filter (\<lambda>e. ag_version a < se_version e) (xs @ ys)"
    unfolding stream_after [OF av] all [symmetric] filter_map by (simp add: comp_def)
  have "replay ld (stream ?s i (ag_version a)) a = replay ld (map unplaced (stream ?s i (ag_version a))) a"
    by (simp add: replay_unplaced)
  also have "\<dots> = replay ld (xs @ ys) ?z"
    unfolding tail by (rule replay_resume [OF r pos sorted'])
  also have "\<dots> = replay ld (stream ?s i 0) ?z" by (simp add: all [symmetric] replay_unplaced)
  finally have same: "replay ld (stream ?s i (ag_version a)) a = replay ld (stream ?s i 0) ?z" .
  show ?thesis
    using ne' same by (simp add: load_fresh [OF create]) (auto simp: load_def snap valid Let_def)
qed

end

lemma map_unplaced_append_batch:
  "map unplaced (append_batch es evs) = map unplaced es @ map unplaced evs"
  unfolding append_batch_fold
  by (induction evs arbitrary: es) (simp_all add: append_internal_def)

lemma filter_unplaced:
  "map unplaced (filter (\<lambda>e. se_aggregate_id e = i \<and> v < se_version e) es) =
     filter (\<lambda>e. se_aggregate_id e = i \<and> v < se_version e) (map unplaced es)"
  by (simp add: filter_map comp_def)

interpretation mem_log: event_log append_batch mem_get_events
proof unfold_locales
  fix w v :: int and s :: event_store and i :: string
  assume "w \<le> v"
  then show "mem_get_events s i v = filter (\<lambda>e. v < se_version e) (mem_get_events s i w)"
    by (auto simp: mem_get_events_def get_events_def apply_specification_def intro: filter_cong)
next
  fix s evs :: event_store and i :: string and v :: int
  show "map unplaced (mem_get_events (append_batch s evs) i v) = map unplaced (mem_get_events s i v) @
      map unplaced (filter (\<lambda>e. se_aggregate_id e = i \<and> v < se_version e) evs)"
    by (simp add: mem_get_events_def get_events_def apply_specification_def filter_unplaced
        map_unplaced_append_batch)
qed

section \<open>Properties of the loader and the repository\<close>

lemma persist_collected:
  "persist ld model_dump append_batch now entity None (es, None) =
     (entity\<lparr>ag_events := []\<rparr>,
      (append_batch es (stored_events (ld_type_name ld) model_dump
         (ag_version entity - int (length (ag_events entity))) 0 (ag_events entity)), None),
      Inr (ag_id entity))"
  by (simp add: persist_def collect_events_def persist_internal_def)


text \<open>
  C6: Snapshots are transparent.  When the loader saves a snapshot of an aggregate it has loaded, and
  events are appended afterwards, loading from the snapshot and the events after its version gives
  the same result as replaying the whole stream, even when some stored events are of unknown types and
  are skipped.  The stream's versions increase, and validating the dump of the aggregate restores it up
  to its version, which is stored beside it.
\<close>

theorem snapshot_load_equals_replay:
  assumes "mem_load ld (es, None) i = Inr (Some a)" and "ag_id a = i"
    and "ld_strategies ld = Some strategies" and "should_snapshot strategies (ld_type_name ld) a = Inr True"
    and "ld_model_dump ld a \<noteq> []" and "ld_model_validate ld (ld_model_dump ld a) = Inr c"
    and "c\<lparr>ag_version := ag_version a\<rparr> = a"
    and "maybe_snapshot ld now a (Some snaps) = Inr snaps'"
    and "sorted_wrt (<) (map se_version (mem_get_events (append_batch es later) i 0))"
  shows "mem_load ld (append_batch es later, snaps') i = mem_load ld (append_batch es later, None) i"
proof -
  let ?sn = "\<lparr>sn_data = ld_model_dump ld a, sn_version = ag_version a, sn_created_at = now\<rparr>"
  have s': "snaps' = Some (save_snapshot now (ld_type_name ld) i (ld_model_dump ld a) (ag_version a) snaps)"
    using assms(2,3,4,8) by (simp add: maybe_snapshot_def)
  have load: "load ld (mem_get_events es) None i = Inr (Some a)" using assms(1) by (simp add: mem_load_def)
  have valid: "ld_model_validate ld (snapshot_payload ?sn) = Inr c"
    using assms(5,6) by (simp add: snapshot_payload_def)
  have "get_latest_snapshot (the snaps') (ld_type_name ld) i = Some ?sn"
    by (simp add: s' get_latest_snapshot_def save_snapshot_def)
  from mem_log.load_resumes [where g = "get_latest_snapshot (the snaps')", OF load assms(9) this _ valid assms(7)]
  show ?thesis by (simp add: mem_load_def s')
qed

text \<open>
  The repository numbers the new events down from the entity's version, and recording an event
  does not advance it.  A new aggregate whose version is still 0 therefore gets its events stored
  under versions 0 and below: \<^verbatim>\<open>persist\<close> succeeds, the events are in the store, and \<^verbatim>\<open>load\<close> reports that the
  aggregate never existed.
\<close>

theorem unadvanced_aggregate_is_lost:
  assumes "mem_get_events es i 0 = []" and "ag_version entity = 0"
    and "\<forall>e\<in>set evs. de_aggregate_id e = Some i"
    and "persist ld model_dump append_batch now (fold add_event evs (entity\<lparr>ag_events := []\<rparr>)) None (es, None)
      = (entity', st', r)"
  shows "r = Inr (ag_id entity)
    \<and> length (get_by_aggregate (fst st') i None None) =
        length (get_by_aggregate es i None None) + length evs
    \<and> mem_load ld st' i = Inr None"
proof -
  have fold: "fold add_event evs e = e\<lparr>ag_events := ag_events e @ evs\<rparr>" for e :: "'a aggregate"
    by (induction evs arbitrary: e) (simp_all add: add_event_def)
  let ?new = "stored_events (ld_type_name ld) model_dump (- int (length evs)) 0 evs"
  have st: "st' = (append_batch es ?new, None)" and r: "r = Inr (ag_id entity)"
    using assms(2,4) by (simp_all add: fold persist_collected)
  have member: "se_version e \<le> 0" "se_aggregate_id e = i" if "e \<in> set ?new" for e
    using stored_events_members(2,3) [OF that] assms(3) by (auto simp: str_opt_def)
  have "map unplaced (mem_get_events (append_batch es ?new) i 0) = []"
    unfolding mem_log.stream_add using assms(1) member by (fastforce simp: filter_empty_conv)
  then have load: "mem_load ld st' i = Inr None"
    by (simp add: st mem_load_def load_def split: sum.splits)
  have len: "length (get_by_aggregate xs i None None) =
      length (filter (\<lambda>e. se_aggregate_id e = i) (map unplaced xs))" for xs
    by (simp add: get_by_aggregate_def apply_specification_def filter_map comp_def)
  have new: "filter (\<lambda>e. se_aggregate_id e = i) (map unplaced ?new) = map unplaced ?new"
    by (rule filter_id_conv') (use member in auto)
  have "length (get_by_aggregate (fst st') i None None) =
      length (get_by_aggregate es i None None) + length evs"
    unfolding st fst_conv len map_unplaced_append_batch filter_append new by simp
  with load r show ?thesis by simp
qed

section \<open>Persistence orchestrator\<close>

text \<open>
  The orchestrator writes events of registered aggregate types to their event store.  Stores are
  objects: the model names them by number, and a heap maps a number to the content of an in-memory
  store.  An \<^verbatim>\<open>InMemoryEventStore\<close> defines \<^verbatim>\<open>__len__\<close>, so in \<^verbatim>\<open>a or b\<close> an empty store is false.
\<close>

record orchestrator =
  or_default :: nat
  or_event_sourced_types :: "string list"
  or_non_event_sourced_types :: "string list"
  or_aggregate_stores :: "(string, nat) dict"
  or_enforce_registration :: bool

record command_response =
  cr_events :: "domain_event list"
  cr_entity_version :: "int option"
  cr_correlation :: "string option"
  cr_causation :: "string option"

type_synonym store_heap = "nat \<Rightarrow> event_store"

definition new_orchestrator :: "nat \<Rightarrow> bool \<Rightarrow> orchestrator" where
  "new_orchestrator default_store enforce =
     \<lparr>or_default = default_store, or_event_sourced_types = [], or_non_event_sourced_types = [],
      or_aggregate_stores = [], or_enforce_registration = enforce\<rparr>"

definition register_event_sourced_type :: "string \<Rightarrow> nat option \<Rightarrow> orchestrator \<Rightarrow> orchestrator" where
  "register_event_sourced_type ty store orc =
     (let orc = orc\<lparr>or_event_sourced_types := List.insert ty (or_event_sourced_types orc)\<rparr>
      in case store of
           None \<Rightarrow> orc
         | Some s \<Rightarrow> orc\<lparr>or_aggregate_stores := AList.update ty s (or_aggregate_stores orc)\<rparr>)"

definition register_non_event_sourced_type :: "string \<Rightarrow> orchestrator \<Rightarrow> orchestrator" where
  "register_non_event_sourced_type ty orc =
     orc\<lparr>or_non_event_sourced_types := List.insert ty (or_non_event_sourced_types orc)\<rparr>"

definition unregister_event_sourced_type :: "string \<Rightarrow> orchestrator \<Rightarrow> orchestrator" where
  "unregister_event_sourced_type ty orc =
     orc\<lparr>or_event_sourced_types := removeAll ty (or_event_sourced_types orc),
       or_aggregate_stores := AList.delete ty (or_aggregate_stores orc)\<rparr>"

text \<open>\<^verbatim>\<open>clear_registrations\<close> keeps the types registered as non-event-sourced.\<close>

definition clear_registrations :: "orchestrator \<Rightarrow> orchestrator" where
  "clear_registrations orc = orc\<lparr>or_event_sourced_types := [], or_aggregate_stores := []\<rparr>"

definition is_event_sourced :: "orchestrator \<Rightarrow> string \<Rightarrow> bool" where
  "is_event_sourced orc ty \<longleftrightarrow> ty \<in> set (or_event_sourced_types orc)"

definition get_event_store :: "orchestrator \<Rightarrow> store_heap \<Rightarrow> string \<Rightarrow> exn + nat" where
  "get_event_store orc heap ty =
     (if \<not> is_event_sourced orc ty
      then Inl (EventSourcingConfigurationError
             (''Aggregate type '' @ quoted ty @ '' is not registered as event-sourced''))
      else Inr (case map_of (or_aggregate_stores orc) ty of
                  Some s \<Rightarrow> if heap s \<noteq> [] then s else or_default orc
                | None \<Rightarrow> or_default orc))"

fun index_of :: "'a list \<Rightarrow> 'a \<Rightarrow> nat" where
  "index_of [] x = 0"
| "index_of (y # ys) x = (if x = y then 0 else Suc (index_of ys x))"

definition create_stored_event :: "command_response \<Rightarrow> (domain_event \<Rightarrow> payload) \<Rightarrow> domain_event \<Rightarrow> stored_event" where
  "create_stored_event resp model_dump event =
     (let base_version = (case cr_entity_version resp of
                            Some v \<Rightarrow> v - int (length (cr_events resp)) | None \<Rightarrow> 0);
          event_index = (if event \<in> set (cr_events resp) then index_of (cr_events resp) event else 0)
      in \<lparr>se_event_id = de_event_id event, se_event_type = de_class event,
          se_aggregate_id = str_opt (de_aggregate_id event),
          se_aggregate_type = (case de_aggregate_type event of None \<Rightarrow> [] | Some t \<Rightarrow> t),
          se_version = base_version + int event_index + 1, se_schema_version = de_version event,
          se_payload = model_dump event, se_metadata = de_metadata event,
          se_occurred_at = de_occurred_at event, se_correlation_id = cr_correlation resp,
          se_causation_id = cr_causation resp, se_position = None,
          se_tenant_id = tenant_of (de_metadata event)\<rparr>)"

definition persist_event ::
  "orchestrator \<Rightarrow> command_response \<Rightarrow> (domain_event \<Rightarrow> payload) \<Rightarrow> domain_event \<Rightarrow> store_heap \<Rightarrow>
     store_heap \<times> (exn + unit)" where
  "persist_event orc resp model_dump event heap =
     (if \<not> truthy (de_aggregate_type event) then (heap, Inr ())
      else let aggregate_type = the (de_aggregate_type event)
           in if \<not> is_event_sourced orc aggregate_type
              then if aggregate_type \<in> set (or_non_event_sourced_types orc) then (heap, Inr ())
                   else if or_enforce_registration orc
                   then (heap, Inl (EventSourcedAggregateRequiredError aggregate_type))
                   else (heap, Inr ())
              else (case get_event_store orc heap aggregate_type of
                      Inl x \<Rightarrow> (heap, Inl x)
                    | Inr s \<Rightarrow>
                        (heap(s := append_internal (heap s) (create_stored_event resp model_dump event)), Inr ())))"

fun persist_events ::
  "orchestrator \<Rightarrow> command_response \<Rightarrow> (domain_event \<Rightarrow> payload) \<Rightarrow> domain_event list \<Rightarrow> store_heap \<Rightarrow>
     store_heap \<times> (exn + unit)" where
  "persist_events orc resp model_dump [] heap = (heap, Inr ())"
| "persist_events orc resp model_dump (e # es) heap =
     (case persist_event orc resp model_dump e heap of
        (heap', Inl x) \<Rightarrow> (heap', Inl x)
      | (heap', Inr _) \<Rightarrow> persist_events orc resp model_dump es heap')"

text \<open>Which events are stored, which are refused, and where the stored ones go.\<close>

definition sourced :: "orchestrator \<Rightarrow> domain_event \<Rightarrow> bool" where
  "sourced orc e \<longleftrightarrow> truthy (de_aggregate_type e) \<and> is_event_sourced orc (the (de_aggregate_type e))"

definition refused :: "orchestrator \<Rightarrow> domain_event \<Rightarrow> bool" where
  "refused orc e \<longleftrightarrow> truthy (de_aggregate_type e) \<and> \<not> is_event_sourced orc (the (de_aggregate_type e))
     \<and> the (de_aggregate_type e) \<notin> set (or_non_event_sourced_types orc) \<and> or_enforce_registration orc"

definition route :: "orchestrator \<Rightarrow> store_heap \<Rightarrow> domain_event \<Rightarrow> nat" where
  "route orc heap e =
     (case map_of (or_aggregate_stores orc) (the (de_aggregate_type e)) of
        Some s \<Rightarrow> if heap s \<noteq> [] then s else or_default orc
      | None \<Rightarrow> or_default orc)"

lemma persist_event_cases:
  "persist_event orc resp model_dump e heap =
     (if refused orc e then (heap, Inl (EventSourcedAggregateRequiredError (the (de_aggregate_type e))))
      else if sourced orc e
      then (heap(route orc heap e := append_internal (heap (route orc heap e)) (create_stored_event resp model_dump e)),
            Inr ())
      else (heap, Inr ()))"
  by (simp add: persist_event_def refused_def sourced_def get_event_store_def route_def Let_def)

text \<open>A write never changes where later events go: only stores that were already chosen grow.\<close>

lemma route_stable:
  assumes "s = route orc heap e"
  shows "route orc (heap(s := append_internal (heap s) x)) e' = route orc heap e'"
  using assms by (auto simp: route_def append_internal_def split: option.splits)

lemma persist_events_written:
  "map unplaced (fst (persist_events orc resp model_dump evs heap) s) =
     map unplaced (heap s) @
     map (create_stored_event resp model_dump)
       (filter (\<lambda>e. sourced orc e \<and> route orc heap e = s) (takeWhile (\<lambda>e. \<not> refused orc e) evs))"
proof (induction evs arbitrary: heap)
  case (Cons e evs)
  have unpl: "unplaced (create_stored_event resp model_dump e) = create_stored_event resp model_dump e"
    by (simp add: unplaced_def create_stored_event_def Let_def)
  show ?case
  proof (cases "refused orc e")
    case False
    let ?s = "route orc heap e"
    define heap' where "heap' = heap(?s := append_internal (heap ?s) (create_stored_event resp model_dump e))"
    have stable: "route orc heap' e' = route orc heap e'" for e'
      unfolding heap'_def by (rule route_stable [OF HOL.refl])
    show ?thesis
    proof (cases "sourced orc e")
      case True
      have "map unplaced (heap' s) = map unplaced (heap s) @
          (if ?s = s then [create_stored_event resp model_dump e] else [])"
        by (simp add: heap'_def append_internal_def unpl)
      moreover have "persist_events orc resp model_dump (e # evs) heap = persist_events orc resp model_dump evs heap'"
        using True False by (simp add: persist_event_cases heap'_def)
      ultimately show ?thesis using True False Cons.IH [of heap'] by (simp add: stable)
    next
      case ns: False
      with False Cons.IH [of heap] show ?thesis by (simp add: persist_event_cases)
    qed
  qed (simp add: persist_event_cases)
qed simp

lemma persist_events_result:
  "snd (persist_events orc resp model_dump evs heap) =
     (case find (refused orc) evs of
        None \<Rightarrow> Inr ()
      | Some e \<Rightarrow> Inl (EventSourcedAggregateRequiredError (the (de_aggregate_type e))))"
  by (induction evs arbitrary: heap) (simp_all add: persist_event_cases)


text \<open>
  A dedicated in-memory event store that is empty when its aggregate type is registered never
  receives an event: \<^verbatim>\<open>get_event_store\<close> chooses with \<^verbatim>\<open>or\<close>, an empty store is false, so all events
  of the type go to the default store and the dedicated one stays empty.
\<close>

theorem empty_dedicated_store_never_used:
  assumes "or_default orc \<noteq> s" "heap s = []"
    and "\<forall>e\<in>set evs. de_aggregate_type e = Some ty" "ty \<noteq> []"
    and "persist_events (register_event_sourced_type ty (Some s) orc) resp model_dump evs heap = (heap', r)"
  shows "r = Inr () \<and> heap' s = []
    \<and> map unplaced (heap' (or_default orc)) =
        map unplaced (heap (or_default orc)) @ map (create_stored_event resp model_dump) evs"
proof -
  let ?orc = "register_event_sourced_type ty (Some s) orc"
  have def: "or_default ?orc = or_default orc"
    by (simp add: register_event_sourced_type_def)
  have ev: "\<not> refused ?orc e" "sourced ?orc e" "route ?orc heap e = or_default orc" if "e \<in> set evs" for e
    using assms(2,3,4) that
    by (simp_all add: refused_def sourced_def route_def is_event_sourced_def truthy_def def)
      (simp_all add: register_event_sourced_type_def)
  have all: "takeWhile (\<lambda>e. \<not> refused ?orc e) evs = evs" by (rule takeWhile_eq_all_conv [THEN iffD2]) (use ev in auto)
  have none: "find (refused ?orc) evs = None" using ev(1) by (auto simp: find_None_iff)
  have "filter (\<lambda>e. sourced ?orc e \<and> route ?orc heap e = s) evs = []"
    "filter (\<lambda>e. sourced ?orc e \<and> route ?orc heap e = or_default orc) evs = evs"
    using ev assms(1) by (auto simp: filter_empty_conv intro: filter_id_conv')
  then have "map unplaced (heap' s) = []" "map unplaced (heap' (or_default orc)) =
      map unplaced (heap (or_default orc)) @ map (create_stored_event resp model_dump) evs"
    using persist_events_written [of ?orc resp model_dump evs heap] assms(2,5) all by simp_all
  moreover have "r = Inr ()" using persist_events_result [of ?orc resp model_dump evs heap] assms(5) none by simp
  ultimately show ?thesis by simp
qed

section \<open>Witnesses\<close>

text \<open>A counter whose \<^verbatim>\<open>apply_Added\<close> adds one; its snapshot data is its id and count.\<close>

definition ex_added :: "string \<Rightarrow> domain_event" where
  "ex_added eid = \<lparr>de_class = ''Added'', de_event_id = eid, de_occurred_at = 0, de_version = 1,
     de_aggregate_id = Some ''c1'', de_aggregate_type = Some ''Counter'', de_metadata = [],
     de_correlation_id = None, de_causation_id = None, de_fields = []\<rparr>"

definition ex_dump :: "domain_event \<Rightarrow> payload" where
  "ex_dump e = [(''event_id'', JStr (de_event_id e))]"

definition ex_added_class :: event_class where
  "ex_added_class d = (case map_of d ''event_id'' of Some (JStr s) \<Rightarrow> Inr (ex_added s) | _ \<Rightarrow> Inl (ValueError ''event_id''))"

definition ex_counter :: "int agg_class" where
  "ex_counter = \<lparr>ac_name = ''Counter'',
     ac_attrs = [(''apply_added'', Method (\<lambda>a e. Inr (a\<lparr>ag_state := ag_state a + 1\<rparr>)))]\<rparr>"

definition ex_loader :: "int loader" where
  "ex_loader = \<lparr>ld_type_name = ''Counter'', ld_event_registry = register_event_type ''Added'' ex_added_class [],
     ld_upcaster_registry = None,
     ld_strategies = Some (set_default_strategy (every_n_events 2) \<lparr>sr_strategies = [], sr_default = None\<rparr>),
     ld_applicator = applicator_apply \<lparr>vc_enabled = True, vc_strict_mode = False,
       vc_allow_fallback_handler = True\<rparr> True ex_counter,
     ld_create_aggregate = (\<lambda>i. Inr \<lparr>ag_id = i, ag_version = 0, ag_events = [], ag_state = 0\<rparr>),
     ld_model_validate = (\<lambda>d. case map_of d ''n'' of
         Some (JInt n) \<Rightarrow> Inr \<lparr>ag_id = ''c1'', ag_version = 0, ag_events = [], ag_state = n\<rparr>
       | _ \<Rightarrow> Inl (ValueError ''n'')),
     ld_model_dump = (\<lambda>a. [(''n'', JInt (ag_state a))])\<rparr>"

definition ex_entity :: "int aggregate" where
  "ex_entity = \<lparr>ag_id = ''c1'', ag_version = 2, ag_events = [ex_added ''e1'', ex_added ''e2''], ag_state = 2\<rparr>"

definition ex_stream :: event_store where
  "ex_stream = append_batch [] (stored_events ''Counter'' ex_dump 0 0 [ex_added ''e1'', ex_added ''e2''])"

lemmas ex_defs = ex_added_def ex_dump_def ex_added_class_def ex_counter_def ex_loader_def ex_entity_def
  ex_stream_def

lemma snake_added [simp]: "event_type_to_snake ''Added'' = ''added''"
  by (simp add: to_lower_def is_upper_def char_of_def bit_iff_odd)

lemma ex_apply [simp]:
  "ld_applicator ex_loader a (ex_added eid) = Inr (a\<lparr>ag_state := ag_state a + 1\<rparr>)"
  by (simp add: ex_defs applicator_apply_def validate_handler_exists_def check_lenient_mode_def
      has_attr_def exact_method_def get_method_def Let_def del: event_type_to_snake.simps)

lemma ex_decodes [simp]: "decodes ex_loader ex_dump (ex_added eid)"
  by (simp add: decodes_def decode_stored_def to_stored_def ex_defs hydrate_event_def register_event_type_def)

lemma ex_decode_stored [simp]:
  "decode_stored ex_loader (to_stored ty ex_dump v (ex_added eid)) = Inr (Some (ex_added eid))"
  using ex_decodes unfolding decodes_def decode_to_stored [of ex_loader ty ex_dump v "ex_added eid" "ld_type_name ex_loader"] .


theorem unadvanced_aggregate_is_lost_witness:
  "mem_load ex_loader (fst (snd (persist ex_loader ex_dump append_batch 0
     (fold add_event [ex_added ''e1''] (ex_entity\<lparr>ag_version := 0, ag_events := []\<rparr>)) None ([], None)))) ''c1''
   = Inr None"
proof -
  let ?e = "ex_entity\<lparr>ag_version := 0\<rparr>"
  let ?p = "persist ex_loader ex_dump append_batch 0
     (fold add_event [ex_added ''e1''] (?e\<lparr>ag_events := []\<rparr>)) None ([], None)"
  have "mem_get_events [] ''c1'' 0 = []" "ag_version ?e = 0"
    by (simp_all add: mem_get_events_def get_events_def apply_specification_def)
  moreover have "\<forall>e\<in>set [ex_added ''e1'']. de_aggregate_id e = Some ''c1''" by (simp add: ex_added_def)
  moreover have "?p = (fst ?p, fst (snd ?p), snd (snd ?p))" by simp
  ultimately show ?thesis using unadvanced_aggregate_is_lost by blast
qed

theorem empty_dedicated_store_never_used_witness:
  "fst (persist_events (register_event_sourced_type ''Counter'' (Some 1) (new_orchestrator 0 True))
     \<lparr>cr_events = [ex_added ''e1''], cr_entity_version = Some 1, cr_correlation = None, cr_causation = None\<rparr>
     ex_dump [ex_added ''e1''] (\<lambda>_. [])) 1 = []"
proof -
  let ?r = "\<lparr>cr_events = [ex_added ''e1''], cr_entity_version = Some 1, cr_correlation = None,
    cr_causation = None\<rparr>"
  let ?o = "new_orchestrator 0 True"
  let ?p = "persist_events (register_event_sourced_type ''Counter'' (Some 1) ?o) ?r ex_dump
    [ex_added ''e1''] (\<lambda>_. [])"
  have "or_default ?o \<noteq> 1" "\<forall>e\<in>set [ex_added ''e1'']. de_aggregate_type e = Some ''Counter''"
    by (simp_all add: new_orchestrator_def ex_added_def)
  moreover have "?p = (fst ?p, snd ?p)" by simp
  ultimately show ?thesis
    using empty_dedicated_store_never_used [of ?o 1 "\<lambda>_. []" "[ex_added ''e1'']" "''Counter''" ?r ex_dump]
    by blast
qed

lemma ex_stream_eq:
  "ex_stream = [place 0 (to_stored ''Counter'' ex_dump 1 (ex_added ''e1'')),
                place 1 (to_stored ''Counter'' ex_dump 2 (ex_added ''e2''))]"
  by (simp add: ex_stream_def append_batch_fold append_internal_def)

lemma place_fields [simp]:
  "se_version (place i e) = se_version e" "se_aggregate_id (place i e) = se_aggregate_id e"
  by (simp_all add: place_def)

lemma decode_stored_place [simp]: "decode_stored ld (place i e) = decode_stored ld e"
  by (metis decode_stored_unplaced unplaced_simps(6))

lemma ex_loaded:
  "mem_load ex_loader (ex_stream, None) ''c1'' =
     Inr (Some \<lparr>ag_id = ''c1'', ag_version = 2, ag_events = [], ag_state = 2\<rparr>)"
proof -
  have "mem_get_events ex_stream ''c1'' 0 = ex_stream"
    by (simp add: mem_get_events_def get_events_def apply_specification_def ex_stream_eq str_opt_def)
      (simp add: ex_added_def)
  moreover have "ld_create_aggregate ex_loader ''c1'' =
      Inr \<lparr>ag_id = ''c1'', ag_version = 0, ag_events = [], ag_state = 0\<rparr>"
    by (simp add: ex_loader_def)
  ultimately show ?thesis
    by (simp add: mem_load_def load_def) (simp add: ex_stream_eq)
qed

theorem snapshot_load_equals_replay_witness:
  "mem_load ex_loader (append_batch ex_stream (stored_events ''Counter'' ex_dump 2 0 [ex_added ''e3'']),
      Some (save_snapshot 5 ''Counter'' ''c1'' [(''n'', JInt 2)] 2 [])) ''c1'' =
   mem_load ex_loader (append_batch ex_stream (stored_events ''Counter'' ex_dump 2 0 [ex_added ''e3'']), None) ''c1''"
proof -
  let ?a = "\<lparr>ag_id = ''c1'', ag_version = 2, ag_events = [], ag_state = 2\<rparr> :: int aggregate"
  let ?c = "?a\<lparr>ag_version := 0\<rparr>"
  let ?st = "set_default_strategy (every_n_events 2) \<lparr>sr_strategies = [], sr_default = None\<rparr> :: int strategy_registry"
  let ?later = "stored_events ''Counter'' ex_dump 2 0 [ex_added ''e3'']"
  have st: "ld_strategies ex_loader = Some ?st" "ld_type_name ex_loader = ''Counter''"
    "ld_model_dump ex_loader ?a = [(''n'', JInt 2)]"
    "ld_model_validate ex_loader (ld_model_dump ex_loader ?a) = Inr ?c"
    by (simp_all add: ex_loader_def)
  have due: "should_snapshot ?st (ld_type_name ex_loader) ?a = Inr True"
    by (simp add: should_snapshot_def get_strategy_def set_default_strategy_def every_n_events_def)
  have ms: "maybe_snapshot ex_loader 5 ?a (Some []) = Inr (Some (save_snapshot 5 ''Counter'' ''c1'' [(''n'', JInt 2)] 2 []))"
    using due by (simp add: maybe_snapshot_def st)
  have sorted: "sorted_wrt (<) (map se_version (mem_get_events (append_batch ex_stream ?later) ''c1'' 0))"
    by (simp add: mem_get_events_def get_events_def apply_specification_def append_batch_fold
        append_internal_def ex_stream_eq)
  have "ld_model_dump ex_loader ?a \<noteq> []" "?c\<lparr>ag_version := ag_version ?a\<rparr> = ?a" "ag_id ?a = ''c1''"
    by (simp_all add: st)
  from snapshot_load_equals_replay [OF ex_loaded this(3) st(1) due this(1) st(4) this(2) ms sorted]
  show ?thesis .
qed

end
