(* ===== verification/Instrumentation.thy ===== *)
theory Instrumentation
  imports Prelude
begin

text \<open>
  Instrumentation hooks (instrumentation.py): registrations with filters and a bounded match cache, the
  registry ordered by priority, and \<^verbatim>\<open>execute_all\<close>, which nests the matching hooks around an
  operation.  A hook is a function that takes the operation's name, its attributes and the rest of
  the chain.  \<^verbatim>\<open>fnmatch.fnmatch\<close> of the standard library is modelled: \<^verbatim>\<open>*\<close>, \<^verbatim>\<open>?\<close> and character
  sets with ranges and negation.
\<close>

section \<open>Shell patterns\<close>

datatype glob = Star | AnyChar | Lit char | CharSet bool "(char \<times> char) list"

fun set_items :: "string \<Rightarrow> (char \<times> char) list" where
  "set_items (a # m # b # cs) =
     (if m = CHR ''-'' then (a, b) # set_items cs else (a, a) # set_items (m # b # cs))"
| "set_items (a # cs) = (a, a) # set_items cs"
| "set_items [] = []"

text \<open>The text of a set ends at the first closing bracket that is not its first character.\<close>

definition split_set :: "string \<Rightarrow> (bool \<times> string \<times> string) option" where
  "split_set cs =
     (let neg = (cs \<noteq> [] \<and> hd cs = CHR ''!'');
          body = (if neg then tl cs else cs)
      in case body of
           [] \<Rightarrow> None
         | c # rest \<Rightarrow>
             (case dropWhile (\<lambda>x. x \<noteq> CHR '']'') rest of
                [] \<Rightarrow> None
              | _ # after \<Rightarrow> Some (neg, c # takeWhile (\<lambda>x. x \<noteq> CHR '']'') rest, after)))"

lemma split_set_shorter: "split_set cs = Some (n, s, after) \<Longrightarrow> length after < length cs"
proof -
  assume a: "split_set cs = Some (n, s, after)"
  have len: "dropWhile P xs = y # ys \<Longrightarrow> length ys < length xs" for P y ys and xs :: string
    by (metis length_dropWhile_le length_Cons Suc_le_lessD)
  show ?thesis using a
    by (cases cs) (auto simp: split_set_def Let_def split: list.splits if_splits dest!: len)
qed

function (sequential) parse_glob :: "string \<Rightarrow> glob list" where
  "parse_glob [] = []"
| "parse_glob (c # cs) =
     (if c = CHR ''*'' then Star # parse_glob cs
      else if c = CHR ''?'' then AnyChar # parse_glob cs
      else if c = CHR ''['' then
        (case split_set cs of
           None \<Rightarrow> Lit c # parse_glob cs
         | Some (neg, items, after) \<Rightarrow> CharSet neg (set_items items) # parse_glob after)
      else Lit c # parse_glob cs)"
  by pat_completeness auto
termination
  by (relation "measure length") (auto dest!: split_set_shorter)

definition in_set :: "bool \<Rightarrow> (char \<times> char) list \<Rightarrow> char \<Rightarrow> bool" where
  "in_set neg items c \<longleftrightarrow> list_ex (\<lambda>(a, b). a \<le> c \<and> c \<le> b) items \<noteq> neg"

fun glob_match :: "glob list \<Rightarrow> string \<Rightarrow> bool" where
  "glob_match [] s = (s = [])"
| "glob_match (Star # gs) [] = glob_match gs []"
| "glob_match (Star # gs) (c # s) = (glob_match gs (c # s) \<or> glob_match (Star # gs) s)"
| "glob_match (g # gs) [] = False"
| "glob_match (AnyChar # gs) (c # s) = glob_match gs s"
| "glob_match (Lit x # gs) (c # s) = (x = c \<and> glob_match gs s)"
| "glob_match (CharSet neg items # gs) (c # s) = (in_set neg items c \<and> glob_match gs s)"

definition fnmatch :: "string \<Rightarrow> string \<Rightarrow> bool" where
  "fnmatch name pat = glob_match (parse_glob pat) name"

section \<open>Registrations\<close>

record hook_attrs =
  ha_attributes :: payload
  ha_message_type :: "string option"

type_synonym ('w, 'r) call = "'w \<Rightarrow> 'w \<times> (exn + 'r)"
type_synonym ('w, 'r) hook = "string \<Rightarrow> hook_attrs \<Rightarrow> ('w, 'r) call \<Rightarrow> ('w, 'r) call"

record ('w, 'r) hook_registration =
  hr_hook :: "('w, 'r) hook"
  hr_priority :: int
  hr_predicate :: "(string \<Rightarrow> hook_attrs \<Rightarrow> bool) option"
  hr_operations :: "string list"
  hr_message_types :: "string list"
  hr_enabled :: bool
  hr_match_cache :: "(string, bool) dict"

definition match_cache_max_size :: nat where
  "match_cache_max_size = 2048"

definition matches_predicate :: "('w, 'r) hook_registration \<Rightarrow> string \<Rightarrow> hook_attrs \<Rightarrow> bool" where
  "matches_predicate r operation attrs =
     (case hr_predicate r of None \<Rightarrow> True | Some p \<Rightarrow> p operation attrs)"

definition matches_operation ::
  "string \<Rightarrow> ('w, 'r) hook_registration \<Rightarrow> ('w, 'r) hook_registration \<times> bool" where
  "matches_operation operation r =
     (if hr_operations r = [] then (r, True)
      else case map_of (hr_match_cache r) operation of
        Some b \<Rightarrow> (r, b)
      | None \<Rightarrow>
          let matched = list_ex (\<lambda>pat. fnmatch operation pat) (hr_operations r);
              cache = (if match_cache_max_size \<le> length (hr_match_cache r) then [] else hr_match_cache r)
          in (r\<lparr>hr_match_cache := AList.update operation matched cache\<rparr>, matched))"

definition matches_message_type :: "('w, 'r) hook_registration \<Rightarrow> hook_attrs \<Rightarrow> bool" where
  "matches_message_type r attrs =
     (if hr_message_types r = [] then True
      else case ha_message_type attrs of None \<Rightarrow> True | Some t \<Rightarrow> t \<in> set (hr_message_types r))"

definition reg_matches ::
  "string \<Rightarrow> hook_attrs \<Rightarrow> ('w, 'r) hook_registration \<Rightarrow> ('w, 'r) hook_registration \<times> bool" where
  "reg_matches operation attrs r =
     (if \<not> hr_enabled r then (r, False)
      else if \<not> matches_predicate r operation attrs then (r, False)
      else case matches_operation operation r of
        (r, False) \<Rightarrow> (r, False)
      | (r, True) \<Rightarrow> (r, matches_message_type r attrs))"

definition clear_cache :: "('w, 'r) hook_registration \<Rightarrow> ('w, 'r) hook_registration" where
  "clear_cache r = r\<lparr>hr_match_cache := []\<rparr>"

section \<open>Registry\<close>

type_synonym ('w, 'r) hook_registry = "('w, 'r) hook_registration list"

definition register_hook ::
  "('w, 'r) hook_registration \<Rightarrow> ('w, 'r) hook_registry \<Rightarrow> ('w, 'r) hook_registry" where
  "register_hook r regs = sort_key hr_priority (regs @ [r\<lparr>hr_match_cache := []\<rparr>])"

fun matching_loop ::
  "string \<Rightarrow> hook_attrs \<Rightarrow> ('w, 'r) hook_registry \<Rightarrow> ('w, 'r) hook_registry \<times> ('w, 'r) hook list" where
  "matching_loop operation attrs [] = ([], [])"
| "matching_loop operation attrs (r # regs) =
     (case reg_matches operation attrs r of
        (r, b) \<Rightarrow>
          (case matching_loop operation attrs regs of
             (regs, ms) \<Rightarrow> (r # regs, if b then hr_hook r # ms else ms)))"

fun hook_pipeline :: "string \<Rightarrow> hook_attrs \<Rightarrow> ('w, 'r) hook list \<Rightarrow> ('w, 'r) call \<Rightarrow> ('w, 'r) call" where
  "hook_pipeline operation attrs [] next_handler = next_handler"
| "hook_pipeline operation attrs (h # hs) next_handler =
     h operation attrs (hook_pipeline operation attrs hs next_handler)"

definition execute_all ::
  "string \<Rightarrow> hook_attrs \<Rightarrow> ('w, 'r) call \<Rightarrow> ('w, 'r) hook_registry \<Rightarrow> 'w \<Rightarrow>
     ('w, 'r) hook_registry \<times> 'w \<times> (exn + 'r)" where
  "execute_all operation attrs next_handler regs w =
     (case matching_loop operation attrs regs of
        (regs, ms) \<Rightarrow>
          (regs, if ms = [] then next_handler w else hook_pipeline operation attrs ms next_handler w))"

definition clear_hooks :: "('w, 'r) hook_registry \<Rightarrow> ('w, 'r) hook_registry" where
  "clear_hooks regs = []"

definition clear_caches :: "('w, 'r) hook_registry \<Rightarrow> ('w, 'r) hook_registry" where
  "clear_caches regs = map clear_cache regs"

section \<open>The match cache\<close>

text \<open>What a registration matches, without the cache.\<close>

definition applies :: "string \<Rightarrow> hook_attrs \<Rightarrow> ('w, 'r) hook_registration \<Rightarrow> bool" where
  "applies operation attrs r \<longleftrightarrow>
     hr_enabled r \<and> matches_predicate r operation attrs
     \<and> (hr_operations r = [] \<or> list_ex (\<lambda>pat. fnmatch operation pat) (hr_operations r))
     \<and> matches_message_type r attrs"

definition cache_ok :: "('w, 'r) hook_registration \<Rightarrow> bool" where
  "cache_ok r \<longleftrightarrow> dict_ok (hr_match_cache r) \<and> length (hr_match_cache r) \<le> match_cache_max_size
     \<and> (\<forall>op b. map_of (hr_match_cache r) op = Some b \<longrightarrow>
          b = list_ex (\<lambda>pat. fnmatch op pat) (hr_operations r))"

abbreviation uncached :: "('w, 'r) hook_registration \<Rightarrow> ('w, 'r) hook_registration" where
  "uncached r \<equiv> r\<lparr>hr_match_cache := []\<rparr>"

lemma cache_ok_uncached [simp]: "cache_ok (uncached r)"
  by (simp add: cache_ok_def)

lemma matches_message_type_uncached: "matches_message_type (uncached r) attrs = matches_message_type r attrs"
  by (simp add: matches_message_type_def split: option.splits)

lemma applies_uncached [simp]: "applies op attrs (uncached r) = applies op attrs r"
  by (simp add: applies_def matches_predicate_def matches_message_type_uncached)

lemma length_update_le: "length (AList.update k v d) \<le> Suc (length d)"
  by (induction d) auto

lemma matches_operation_ok:
  assumes "cache_ok r"
  shows "snd (matches_operation op r) \<longleftrightarrow>
      hr_operations r = [] \<or> list_ex (\<lambda>pat. fnmatch op pat) (hr_operations r)"
    "cache_ok (fst (matches_operation op r))" "uncached (fst (matches_operation op r)) = uncached r"
proof -
  have l: "length (AList.update op m c) \<le> match_cache_max_size"
    if "c = (if match_cache_max_size \<le> length (hr_match_cache r) then [] else hr_match_cache r)" for c m
    using length_update_le [of op m c] that by (auto simp: match_cache_max_size_def split: if_splits)
  have hit: "b = list_ex (\<lambda>pat. fnmatch o' pat) (hr_operations r)" if "map_of (hr_match_cache r) o' = Some b" for o' b
    using assms that unfolding cache_ok_def by blast
  show "snd (matches_operation op r) \<longleftrightarrow>
      hr_operations r = [] \<or> list_ex (\<lambda>pat. fnmatch op pat) (hr_operations r)"
    using hit [of op] by (simp add: matches_operation_def Let_def split: option.splits)
  show "uncached (fst (matches_operation op r)) = uncached r"
    by (simp add: matches_operation_def Let_def split: option.splits)
  have "cache_ok (r\<lparr>hr_match_cache := AList.update op (list_ex (\<lambda>pat. fnmatch op pat) (hr_operations r))
      (if match_cache_max_size \<le> length (hr_match_cache r) then [] else hr_match_cache r)\<rparr>)"
    unfolding cache_ok_def using assms l [OF HOL.refl] hit by (auto simp: cache_ok_def)
  then show "cache_ok (fst (matches_operation op r))"
    using assms by (simp add: matches_operation_def Let_def split: option.splits if_splits)
qed

lemma reg_matches_ok:
  assumes "cache_ok r"
  shows "snd (reg_matches op attrs r) = applies op attrs r"
    "cache_ok (fst (reg_matches op attrs r))" "uncached (fst (reg_matches op attrs r)) = uncached r"
proof -
  obtain r' b where m: "matches_operation op r = (r', b)" by force
  note ok = matches_operation_ok [OF assms, of op, unfolded m fst_conv snd_conv]
  have mt: "matches_message_type r' attrs = matches_message_type r attrs"
    using matches_message_type_uncached ok(3) by metis
  show "snd (reg_matches op attrs r) = applies op attrs r"
    using ok(1) mt by (auto simp: reg_matches_def applies_def m split: bool.splits)
  show "cache_ok (fst (reg_matches op attrs r))" "uncached (fst (reg_matches op attrs r)) = uncached r"
    using ok assms by (auto simp: reg_matches_def m split: bool.splits)
qed

lemma matching_loop_ok:
  assumes "list_all cache_ok regs" "matching_loop op attrs regs = (regs', ms)"
  shows "ms = map hr_hook (filter (applies op attrs) regs) \<and> list_all cache_ok regs'
    \<and> map uncached regs' = map uncached regs"
  using assms
proof (induction regs arbitrary: regs' ms)
  case (Cons r regs)
  obtain regs1 ms1 where rest: "matching_loop op attrs regs = (regs1, ms1)" by force
  have ok: "cache_ok r" and oks: "list_all cache_ok regs" using Cons.prems by auto
  note IH = Cons.IH [OF oks rest]
  obtain r1 b where r1: "reg_matches op attrs r = (r1, b)" by force
  note h = reg_matches_ok [OF ok, of op attrs, unfolded r1 fst_conv snd_conv]
  have hook: "hr_hook r1 = hr_hook r"
    using arg_cong [OF h(3), of hr_hook] by simp
  show ?case using IH h hook Cons.prems(2) by (auto simp: rest r1)
qed auto

section \<open>Property\<close>

text \<open>
  The registries that registering hooks and running operations produce, with the hooks in the order
  they were registered.
\<close>

inductive hooks_built :: "('w, 'r) hook_registration list \<Rightarrow> ('w, 'r) hook_registry \<Rightarrow> bool" where
  empty: "hooks_built [] []"
| reg: "hooks_built rs regs \<Longrightarrow> hooks_built (rs @ [r]) (register_hook r regs)"
| run: "hooks_built rs regs \<Longrightarrow> hooks_built rs (fst (execute_all op attrs call regs w))"
| caches: "hooks_built rs regs \<Longrightarrow> hooks_built rs (clear_caches regs)"

lemma sort_key_uncached:
  "map uncached (sort_key hr_priority xs) = sort_key hr_priority (map uncached xs)"
proof (induction xs)
  case (Cons x xs)
  have "map uncached (insort_key hr_priority x ys) = insort_key hr_priority (uncached x) (map uncached ys)" for ys
    by (induction ys) auto
  with Cons show ?case by simp
qed simp

lemma hooks_built_ok:
  assumes "hooks_built rs regs"
  shows "list_all cache_ok regs \<and> map uncached regs = sort_key hr_priority (map uncached rs)"
  using assms
proof induction
  case (reg rs regs r)
  have "map uncached (register_hook r regs) = sort_key hr_priority (map uncached (regs @ [uncached r]))"
    unfolding register_hook_def by (rule sort_key_uncached)
  also have "\<dots> = sort_key hr_priority (sort_key hr_priority (map uncached rs) @ [uncached r])"
    using reg.IH by simp
  also have "\<dots> = sort_key hr_priority (map uncached (rs @ [r]))"
    by (simp add: sort_key_presorted)
  finally show ?case using reg.IH by (auto simp: register_hook_def list_all_iff)
next
  case (run rs regs op attrs call w)
  obtain regs' ms where m: "matching_loop op attrs regs = (regs', ms)" by force
  show ?case using matching_loop_ok [OF _ m] run.IH by (auto simp: execute_all_def m)
next
  case (caches rs regs)
  then show ?case by (auto simp: clear_caches_def clear_cache_def list_all_iff comp_def)
qed auto

text \<open>
  Instrumentation runs exactly the hooks that apply, nested in priority order, hooks of equal
  priority in the order of their registration, around the operation; with no applicable hook the
  operation runs as it is.  The match cache never changes this: after any history of registrations and
  operations the cached answers are the ones matching would give, and a cache holds at most 2048
  entries.
\<close>

theorem hooks_nest_by_priority:
  assumes "hooks_built rs regs"
  shows "snd (execute_all op attrs call regs w) =
      foldr (\<lambda>r. hr_hook r op attrs) (filter (applies op attrs) (sort_key hr_priority rs)) call w
    \<and> list_all (\<lambda>r. length (hr_match_cache r) \<le> match_cache_max_size) regs"
proof -
  obtain regs' ms where m: "matching_loop op attrs regs = (regs', ms)" by force
  have ok: "list_all cache_ok regs" and u: "map uncached regs = sort_key hr_priority (map uncached rs)"
    using hooks_built_ok [OF assms] by auto
  have "ms = map hr_hook (filter (applies op attrs) (map uncached regs))"
    using matching_loop_ok [OF ok m] by (simp add: filter_map comp_def)
  also have "map uncached regs = map uncached (sort_key hr_priority rs)"
    by (simp add: u sort_key_uncached)
  finally have ms: "ms = map hr_hook (filter (applies op attrs) (sort_key hr_priority rs))"
    by (simp add: filter_map comp_def)
  have pipe: "hook_pipeline op attrs (map hr_hook xs) call = foldr (\<lambda>r. hr_hook r op attrs) xs call"
    for xs :: "('a, 'b) hook_registration list"
    by (induction xs) auto
  have "snd (execute_all op attrs call regs w) = hook_pipeline op attrs ms call w"
    by (simp add: execute_all_def m)
  then show ?thesis
    using ok by (auto simp: ms pipe cache_ok_def list_all_iff)
qed

text \<open>Two tracing hooks, registered inner first; only one of them matches the operation.\<close>

definition ex_hook :: "string \<Rightarrow> int \<Rightarrow> string \<Rightarrow> (string list, unit) hook_registration" where
  "ex_hook name priority pat = \<lparr>hr_hook = (\<lambda>op attrs call w. call (w @ [name])), hr_priority = priority,
     hr_predicate = None, hr_operations = [pat], hr_message_types = [], hr_enabled = True,
     hr_match_cache = []\<rparr>"

definition ex_attrs :: hook_attrs where
  "ex_attrs = \<lparr>ha_attributes = [], ha_message_type = None\<rparr>"

lemma ex_hook_applies:
  "applies ''uow.commit'' ex_attrs (ex_hook name p ''uow.*'')"
  "\<not> applies ''uow.commit'' ex_attrs (ex_hook name p ''outbox.[a-z]*'')"
  by (simp_all add: applies_def ex_hook_def ex_attrs_def matches_predicate_def matches_message_type_def
      fnmatch_def split_set_def in_set_def)

theorem hooks_nest_by_priority_witness:
  "snd (execute_all ''uow.commit'' ex_attrs (\<lambda>w. (w @ [''commit''], Inr ()))
     (register_hook (ex_hook ''metrics'' 0 ''uow.*'') (register_hook (ex_hook ''tracing'' 1 ''uow.*'')
        (register_hook (ex_hook ''other'' 0 ''outbox.[a-z]*'') []))) []) =
   ([''metrics'', ''tracing'', ''commit''], Inr ())"
proof -
  let ?rs = "[ex_hook ''other'' 0 ''outbox.[a-z]*'', ex_hook ''tracing'' 1 ''uow.*'', ex_hook ''metrics'' 0 ''uow.*'']"
  have built: "hooks_built ?rs (register_hook (ex_hook ''metrics'' 0 ''uow.*'')
      (register_hook (ex_hook ''tracing'' 1 ''uow.*'') (register_hook (ex_hook ''other'' 0 ''outbox.[a-z]*'') [])))"
    using hooks_built.reg [OF hooks_built.reg [OF hooks_built.reg [OF hooks_built.empty]]] by simp
  have "sort_key hr_priority ?rs =
      [ex_hook ''other'' 0 ''outbox.[a-z]*'', ex_hook ''metrics'' 0 ''uow.*'', ex_hook ''tracing'' 1 ''uow.*'']"
    by (simp add: ex_hook_def)
  then show ?thesis
    using hooks_nest_by_priority [OF built, of "''uow.commit''" ex_attrs "\<lambda>w. (w @ [''commit''], Inr ())" "[]"]
    by (simp add: ex_hook_applies) (simp add: ex_hook_def)
qed

end
