(* ===== verification/Validation.thy ===== *)
theory Validation
  imports Prelude
begin

text \<open>
  Command validation: \<^verbatim>\<open>ValidationResult\<close> (validation/result.py), \<^verbatim>\<open>CompositeValidator\<close>
  (validation/composite.py) and \<^verbatim>\<open>PydanticValidator\<close> (validation/pydantic.py).  A result is its
  dictionary from field to messages.  A validator reads the command and may raise; Pydantic's
  re-validation of the command is a parameter that gives the list of its errors.
\<close>

section \<open>Model\<close>

type_synonym validation_result = "(string, string list) dict"

definition is_valid :: "validation_result \<Rightarrow> bool" where
  "is_valid r \<longleftrightarrow> length r = 0"

definition vr_success :: validation_result where
  "vr_success = []"

definition vr_failure :: "(string, string list) dict \<Rightarrow> validation_result" where
  "vr_failure errors = errors"

definition messages :: "validation_result \<Rightarrow> string \<Rightarrow> string list" where
  "messages r f = (case map_of r f of None \<Rightarrow> [] | Some ms \<Rightarrow> ms)"

fun merge_loop :: "validation_result \<Rightarrow> (string \<times> string list) list \<Rightarrow> validation_result" where
  "merge_loop merged [] = merged"
| "merge_loop merged ((f, ms) # rest) = merge_loop (AList.update f (messages merged f @ ms) merged) rest"

definition vr_merge :: "validation_result \<Rightarrow> validation_result \<Rightarrow> validation_result" where
  "vr_merge r other = merge_loop r other"

definition add_error :: "string \<Rightarrow> string \<Rightarrow> validation_result \<Rightarrow> validation_result" where
  "add_error f m r = AList.update f (messages r f @ [m]) r"

type_synonym 'm validator = "'m \<Rightarrow> exn + validation_result"

definition add_validator :: "'m validator \<Rightarrow> 'm validator list \<Rightarrow> 'm validator list" where
  "add_validator v vs = vs @ [v]"

fun composite_loop :: "'m validator list \<Rightarrow> 'm \<Rightarrow> validation_result \<Rightarrow> exn + validation_result" where
  "composite_loop [] c combined = Inr combined"
| "composite_loop (v # vs) c combined =
     (case v c of Inl x \<Rightarrow> Inl x | Inr r \<Rightarrow> composite_loop vs c (vr_merge combined r))"

definition composite_validate :: "'m validator list \<Rightarrow> 'm validator" where
  "composite_validate vs c = composite_loop vs c vr_success"

text \<open>An error of Pydantic: its location, already rendered part by part, and its message.\<close>

type_synonym pydantic_error = "string list \<times> string"

fun join_dots :: "string list \<Rightarrow> string" where
  "join_dots [] = []"
| "join_dots [p] = p"
| "join_dots (p # ps) = p @ ''.'' @ join_dots ps"

fun collect_errors :: "pydantic_error list \<Rightarrow> validation_result \<Rightarrow> validation_result" where
  "collect_errors [] errors = errors"
| "collect_errors ((loc, msg) # rest) errors = collect_errors rest (add_error (join_dots loc) msg errors)"

definition pydantic_validate :: "('m \<Rightarrow> bool) \<Rightarrow> ('m \<Rightarrow> pydantic_error list) \<Rightarrow> 'm validator" where
  "pydantic_validate is_model errors_of c =
     (if \<not> is_model c then Inr vr_success
      else if errors_of c = [] then Inr vr_success
      else Inr (vr_failure (collect_errors (errors_of c) [])))"

section \<open>Merging\<close>

lemma messages_update [simp]:
  "messages (AList.update f ms r) g = (if g = f then ms else messages r g)"
  by (simp add: messages_def)

lemma messages_merge_loop:
  assumes "dict_ok other"
  shows "messages (merge_loop r other) g = messages r g @ messages other g"
  using assms
proof (induction other arbitrary: r)
  case (Cons e other)
  obtain f ms where e: "e = (f, ms)" by force
  have "messages other f = []"
    using Cons.prems by (simp add: e messages_def map_of_eq_None_iff [THEN iffD2])
  then show ?case using Cons by (auto simp: e) (auto simp: messages_def)
qed (simp add: messages_def)

lemma dict_ok_merge [simp]: "dict_ok r \<Longrightarrow> dict_ok (vr_merge r other)"
  unfolding vr_merge_def by (induction r other rule: merge_loop.induct) auto

lemma keys_merge [simp]: "fst ` set (vr_merge r other) = fst ` set r \<union> fst ` set other"
  unfolding vr_merge_def by (induction r other rule: merge_loop.induct) auto

lemma is_valid_merge: "is_valid (vr_merge r other) \<longleftrightarrow> is_valid r \<and> is_valid other"
proof -
  have "fst ` set (vr_merge r other) = {} \<longleftrightarrow> fst ` set r = {} \<and> fst ` set other = {}"
    unfolding keys_merge by blast
  then show ?thesis by (simp add: is_valid_def del: keys_merge)
qed

lemma messages_merge:
  "dict_ok other \<Longrightarrow> messages (vr_merge r other) g = messages r g @ messages other g"
  by (simp add: vr_merge_def messages_merge_loop)

lemma messages_success [simp]: "messages vr_success f = []"
  by (simp add: messages_def vr_success_def)

text \<open>The results of the validators, if none of them raises.\<close>

fun results :: "'m validator list \<Rightarrow> 'm \<Rightarrow> validation_result list option" where
  "results [] c = Some []"
| "results (v # vs) c =
     (case v c of Inl _ \<Rightarrow> None | Inr r \<Rightarrow> map_option ((#) r) (results vs c))"

lemma composite_loop_results:
  assumes "results vs c = Some rs" "list_all dict_ok rs" "dict_ok combined"
  shows "\<exists>r. composite_loop vs c combined = Inr r \<and> dict_ok r
    \<and> (\<forall>f. messages r f = messages combined f @ concat (map (\<lambda>r. messages r f) rs))
    \<and> (is_valid r \<longleftrightarrow> is_valid combined \<and> list_all is_valid rs)"
  using assms
proof (induction vs arbitrary: rs combined)
  case (Cons v vs)
  obtain r rs' where r: "v c = Inr r" "results vs c = Some rs'" "rs = r # rs'"
    using Cons.prems(1) by (auto split: sum.splits)
  have ok: "dict_ok r" using Cons.prems(2) r(3) by simp
  have "\<exists>x. composite_loop vs c (vr_merge combined r) = Inr x \<and> dict_ok x
      \<and> (\<forall>f. messages x f = messages (vr_merge combined r) f @ concat (map (\<lambda>r. messages r f) rs'))
      \<and> (is_valid x \<longleftrightarrow> is_valid (vr_merge combined r) \<and> list_all is_valid rs')"
    by (rule Cons.IH) (use Cons.prems r in auto)
  then show ?case
    by (simp add: r is_valid_merge messages_merge [OF ok])
qed simp

section \<open>Property\<close>

text \<open>
  A composite validator collects every error: when no validator raises, it returns, for every
  field, the messages of all validators in their order, and its result is valid exactly when all
  results are valid.  It does not stop at the first validator that finds an error.
\<close>

theorem composite_collects_all:
  assumes "results vs c = Some rs" "list_all dict_ok rs"
  shows "\<exists>r. composite_validate vs c = Inr r
    \<and> (\<forall>f. messages r f = concat (map (\<lambda>r. messages r f) rs))
    \<and> (is_valid r \<longleftrightarrow> list_all is_valid rs)"
  using composite_loop_results [OF assms, of vr_success]
  by (auto simp: composite_validate_def) (auto simp: vr_success_def is_valid_def)

theorem composite_collects_all_witness:
  "\<exists>r. composite_validate [\<lambda>_. Inr [(''name'', [''required''])], \<lambda>_. Inr [(''name'', [''short''])]] ()
       = Inr r \<and> messages r ''name'' = [''required'', ''short''] \<and> \<not> is_valid r"
  using composite_collects_all [of "[\<lambda>_. Inr [(''name'', [''required''])], \<lambda>_. Inr [(''name'', [''short''])]]"
      "()" "[[(''name'', [''required''])], [(''name'', [''short''])]]"]
  by (auto simp: messages_def is_valid_def)

end
