(* ===== verification/Mediator.thy ===== *)
theory Mediator
  imports EventSourcing Validation
begin

text \<open>
  The dispatch core: \<^verbatim>\<open>UnitOfWork\<close> (ports/unit_of_work.py, adapters/memory/unit_of_work.py),
  \<^verbatim>\<open>HandlerRegistry\<close> (cqrs/registry.py), \<^verbatim>\<open>EventDispatcher\<close> (cqrs/event_dispatcher.py), the
  middleware registry and pipeline with the toolkit's own middlewares (middleware/, correlation.py)
  and the \<^verbatim>\<open>Mediator\<close> (cqrs/mediator.py).

  The context record holds the context variables (current unit of work, correlation and causation id),
  the units of work that have ended, and the application state \<open>'w\<close> that handlers, middlewares and
  hooks change.  Handlers get the bus as an argument: a handler runs inside the scope of a unit of
  work and the bus, which is \<^verbatim>\<open>Mediator.send\<close> itself, tests the context as the code does before it
  reuses that unit of work.  The nesting is bounded by \<open>depth\<close>, beyond
  which Python raises \<^verbatim>\<open>RecursionError\<close>.  Classes are named by strings.
\<close>

section \<open>Unit of work\<close>

record 'h uow =
  uw_committed :: bool
  uw_rolled_back :: bool
  uw_commit_count :: nat
  uw_rollback_count :: nat
  uw_on_commit_hooks :: "'h list"

definition new_uow :: "'h uow" where
  "new_uow = \<lparr>uw_committed = False, uw_rolled_back = False, uw_commit_count = 0,
     uw_rollback_count = 0, uw_on_commit_hooks = []\<rparr>"

definition on_commit :: "'h \<Rightarrow> 'h uow \<Rightarrow> 'h uow" where
  "on_commit h u = u\<lparr>uw_on_commit_hooks := uw_on_commit_hooks u @ [h]\<rparr>"

definition uow_commit :: "'h uow \<Rightarrow> 'h uow" where
  "uow_commit u =
     (if uw_committed u \<or> uw_rolled_back u then u
      else u\<lparr>uw_committed := True, uw_commit_count := uw_commit_count u + 1\<rparr>)"

definition uow_rollback :: "'h uow \<Rightarrow> 'h uow" where
  "uow_rollback u =
     (if uw_committed u \<or> uw_rolled_back u then u
      else u\<lparr>uw_rolled_back := True, uw_rollback_count := uw_rollback_count u + 1\<rparr>)"

definition uow_reset :: "'h uow \<Rightarrow> 'h uow" where
  "uow_reset u = u\<lparr>uw_committed := False, uw_rolled_back := False, uw_commit_count := 0,
     uw_rollback_count := 0\<rparr>"

record ('h, 'w) mctx =
  cx_uow :: "'h uow option"
  cx_finished :: "'h uow list"
  cx_correlation_id :: "string option"
  cx_causation_id :: "string option"
  cx_app :: 'w

text \<open>
  \<^verbatim>\<open>trigger_commit_hooks\<close>: hooks run in order until the queue is empty.  A hook may raise, which is
  logged, and may register further hooks on the same unit of work; the loop need not end.
\<close>

partial_function (option) trigger_commit_hooks ::
  "('h \<Rightarrow> 'c \<Rightarrow> 'c \<times> exn option \<times> 'h list) \<Rightarrow> 'h list \<Rightarrow> 'c \<Rightarrow> 'c option" where
  "trigger_commit_hooks run hooks cx =
     (case hooks of
        [] \<Rightarrow> Some cx
      | h # rest \<Rightarrow> (case run h cx of (cx, e, new) \<Rightarrow> trigger_commit_hooks run (rest @ new) cx))"

text \<open>\<^verbatim>\<open>__aexit__\<close> of the unit of work \<open>u\<close>: commit and then hooks, or rollback and no hooks.\<close>

definition uow_exit ::
  "('h \<Rightarrow> ('h, 'w) mctx \<Rightarrow> ('h, 'w) mctx \<times> exn option \<times> 'h list) \<Rightarrow> bool \<Rightarrow> 'h uow \<Rightarrow>
     ('h, 'w) mctx \<Rightarrow> ('h, 'w) mctx option" where
  "uow_exit run failed u cx =
     (if \<not> failed
      then trigger_commit_hooks run (uw_on_commit_hooks u)
             (cx\<lparr>cx_finished := cx_finished cx @ [uow_commit u]\<rparr>)
      else Some (cx\<lparr>cx_finished := cx_finished cx @ [uow_rollback u]\<rparr>))"

section \<open>Handler registry\<close>

record handler_registry =
  hg_command_handlers :: "(string, string) dict"
  hg_query_handlers :: "(string, string) dict"
  hg_synchronous_event_handlers :: "(string, string list) dict"
  hg_asynchronous_event_handlers :: "(string, string list) dict"

definition empty_handlers :: handler_registry where
  "empty_handlers = \<lparr>hg_command_handlers = [], hg_query_handlers = [],
     hg_synchronous_event_handlers = [], hg_asynchronous_event_handlers = []\<rparr>"

definition duplicate_handler :: "string \<Rightarrow> string \<Rightarrow> string \<Rightarrow> string \<Rightarrow> exn" where
  "duplicate_handler kind message_type existing handler_cls =
     HandlerRegistrationError (''Duplicate '' @ kind @ '' handler for '' @ message_type @ '': '' @
       existing @ '' already registered, cannot register '' @ handler_cls)"

definition register_command_handler ::
  "string \<Rightarrow> string \<Rightarrow> handler_registry \<Rightarrow> exn + handler_registry" where
  "register_command_handler command_type handler_cls reg =
     (case map_of (hg_command_handlers reg) command_type of
        Some existing \<Rightarrow>
          if existing \<noteq> handler_cls then Inl (duplicate_handler ''command'' command_type existing handler_cls)
          else Inr (reg\<lparr>hg_command_handlers := AList.update command_type handler_cls (hg_command_handlers reg)\<rparr>)
      | None \<Rightarrow> Inr (reg\<lparr>hg_command_handlers := AList.update command_type handler_cls (hg_command_handlers reg)\<rparr>))"

definition register_query_handler ::
  "string \<Rightarrow> string \<Rightarrow> handler_registry \<Rightarrow> exn + handler_registry" where
  "register_query_handler query_type handler_cls reg =
     (case map_of (hg_query_handlers reg) query_type of
        Some existing \<Rightarrow>
          if existing \<noteq> handler_cls then Inl (duplicate_handler ''query'' query_type existing handler_cls)
          else Inr (reg\<lparr>hg_query_handlers := AList.update query_type handler_cls (hg_query_handlers reg)\<rparr>)
      | None \<Rightarrow> Inr (reg\<lparr>hg_query_handlers := AList.update query_type handler_cls (hg_query_handlers reg)\<rparr>))"

text \<open>\<^verbatim>\<open>setdefault\<close> and append, if the element is not there yet.\<close>

definition add_to_group :: "'k \<Rightarrow> 'v \<Rightarrow> ('k, 'v list) dict \<Rightarrow> ('k, 'v list) dict" where
  "add_to_group k v d =
     (let vs = (case map_of d k of None \<Rightarrow> [] | Some vs \<Rightarrow> vs)
      in AList.update k (if v \<in> set vs then vs else vs @ [v]) d)"

definition register_event_handler ::
  "string \<Rightarrow> string \<Rightarrow> bool \<Rightarrow> handler_registry \<Rightarrow> handler_registry" where
  "register_event_handler event_type handler_cls synchronous reg =
     (if synchronous
      then reg\<lparr>hg_synchronous_event_handlers :=
             add_to_group event_type handler_cls (hg_synchronous_event_handlers reg)\<rparr>
      else reg\<lparr>hg_asynchronous_event_handlers :=
             add_to_group event_type handler_cls (hg_asynchronous_event_handlers reg)\<rparr>)"

definition get_command_handler :: "handler_registry \<Rightarrow> string \<Rightarrow> string option" where
  "get_command_handler reg t = map_of (hg_command_handlers reg) t"

definition get_query_handler :: "handler_registry \<Rightarrow> string \<Rightarrow> string option" where
  "get_query_handler reg t = map_of (hg_query_handlers reg) t"

definition get_synchronous_event_handlers :: "handler_registry \<Rightarrow> string \<Rightarrow> string list" where
  "get_synchronous_event_handlers reg t =
     (case map_of (hg_synchronous_event_handlers reg) t of None \<Rightarrow> [] | Some hs \<Rightarrow> hs)"

definition get_asynchronous_event_handlers :: "handler_registry \<Rightarrow> string \<Rightarrow> string list" where
  "get_asynchronous_event_handlers reg t =
     (case map_of (hg_asynchronous_event_handlers reg) t of None \<Rightarrow> [] | Some hs \<Rightarrow> hs)"

definition clear_handlers :: "handler_registry \<Rightarrow> handler_registry" where
  "clear_handlers reg = reg\<lparr>hg_command_handlers := [], hg_query_handlers := [],
     hg_synchronous_event_handlers := [], hg_asynchronous_event_handlers := []\<rparr>"

section \<open>Event dispatcher\<close>

text \<open>
  An instance \<open>'i\<close> of a handler is invoked with the event; \<open>invoke\<close> is its \<^verbatim>\<open>handle\<close> method.  The
  handlers of one event are gathered: all of them run, and the first exception in their order is
  raised afterwards.  Handlers run without suspension here.
\<close>

type_synonym 'i event_dispatcher = "(string, 'i list) dict"

definition dispatcher_register :: "string \<Rightarrow> 'i \<Rightarrow> 'i event_dispatcher \<Rightarrow> 'i event_dispatcher" where
  "dispatcher_register event_type handler d = add_to_group event_type handler d"

fun gather :: "('i \<Rightarrow> 'e \<Rightarrow> 'c \<Rightarrow> 'c \<times> exn option) \<Rightarrow> 'i list \<Rightarrow> 'e \<Rightarrow> 'c \<Rightarrow> 'c \<times> exn option" where
  "gather invoke [] e cx = (cx, None)"
| "gather invoke (i # is) e cx =
     (case invoke i e cx of
        (cx, r) \<Rightarrow> (case gather invoke is e cx of (cx, r') \<Rightarrow> (cx, case r of Some x \<Rightarrow> Some x | None \<Rightarrow> r')))"

fun dispatch_events ::
  "('i \<Rightarrow> domain_event \<Rightarrow> 'c \<Rightarrow> 'c \<times> exn option) \<Rightarrow> 'i event_dispatcher \<Rightarrow> domain_event list \<Rightarrow> 'c \<Rightarrow>
     'c \<times> exn option" where
  "dispatch_events invoke d [] cx = (cx, None)"
| "dispatch_events invoke d (e # es) cx =
     (case (case map_of d (de_class e) of None \<Rightarrow> [] | Some hs \<Rightarrow> hs) of
        [] \<Rightarrow> dispatch_events invoke d es cx
      | hs \<Rightarrow> (case gather invoke hs e cx of
            (cx, Some x) \<Rightarrow> (cx, Some x)
          | (cx, None) \<Rightarrow> dispatch_events invoke d es cx))"

definition clear_dispatcher :: "'i event_dispatcher \<Rightarrow> 'i event_dispatcher" where
  "clear_dispatcher d = []"

section \<open>Messages and middleware\<close>

datatype message_kind = CommandMessage | QueryMessage

record 'm message =
  ms_kind :: message_kind
  ms_type :: string
  ms_id :: string
  ms_correlation_id :: "string option"
  ms_event_id :: "string option"
  ms_body :: 'm

record 'r response =
  rs_kind :: message_kind
  rs_result :: 'r
  rs_events :: "domain_event list"
  rs_success :: bool
  rs_correlation_id :: "string option"
  rs_causation_id :: "string option"

type_synonym ('c, 'm, 'r) bus = "'m message \<Rightarrow> 'c \<Rightarrow> 'c \<times> (exn + 'r response)"
type_synonym ('c, 'm, 'r) middleware = "'m message \<Rightarrow> ('c, 'm, 'r) bus \<Rightarrow> 'c \<Rightarrow> 'c \<times> (exn + 'r response)"

definition build_pipeline :: "('c, 'm, 'r) middleware list \<Rightarrow> ('c, 'm, 'r) bus \<Rightarrow> ('c, 'm, 'r) bus" where
  "build_pipeline middlewares handler_fn =
     fold (\<lambda>mw current_next message. mw message current_next) (rev middlewares) handler_fn"

record 'mw middleware_definition =
  mdf_priority :: int
  mdf_build :: 'mw

record 'mw middleware_registry =
  mg_definitions :: "'mw middleware_definition list"
  mg_instances :: "'mw list option"

definition register_middleware :: "'mw \<Rightarrow> int \<Rightarrow> 'mw middleware_registry \<Rightarrow> 'mw middleware_registry" where
  "register_middleware mw priority reg =
     reg\<lparr>mg_definitions := mg_definitions reg @ [\<lparr>mdf_priority = priority, mdf_build = mw\<rparr>],
         mg_instances := None\<rparr>"

definition get_ordered_middlewares :: "'mw middleware_registry \<Rightarrow> 'mw middleware_registry \<times> 'mw list" where
  "get_ordered_middlewares reg =
     (case mg_instances reg of
        Some ms \<Rightarrow> (reg, ms)
      | None \<Rightarrow>
          let ms = map mdf_build (sort_key mdf_priority (mg_definitions reg))
          in (reg\<lparr>mg_instances := Some ms\<rparr>, ms))"

definition clear_middlewares :: "'mw middleware_registry \<Rightarrow> 'mw middleware_registry" where
  "clear_middlewares reg = reg\<lparr>mg_definitions := [], mg_instances := None\<rparr>"

text \<open>The toolkit's middlewares.  \<^verbatim>\<open>LoggingMiddleware\<close> only logs.\<close>

definition logging_middleware :: "('c, 'm, 'r) middleware" where
  "logging_middleware message next_handler cx = next_handler message cx"

definition validator_middleware :: "'m message validator \<Rightarrow> ('c, 'm, 'r) middleware" where
  "validator_middleware validator message next_handler cx =
     (case validator message of
        Inl x \<Rightarrow> (cx, Inl x)
      | Inr r \<Rightarrow> if \<not> is_valid r then (cx, Inl (ValidationError r)) else next_handler message cx)"

definition correlation_propagator :: "(('h, 'w) mctx, 'm, 'r) middleware" where
  "correlation_propagator message next_handler cx =
     (let message = (if truthy (cx_correlation_id cx)
                     then message\<lparr>ms_correlation_id := cx_correlation_id cx\<rparr> else message);
          cx = (if truthy (ms_correlation_id message)
                then cx\<lparr>cx_correlation_id := ms_correlation_id message\<rparr> else cx);
          cx = (if truthy (ms_event_id message)
                then cx\<lparr>cx_causation_id := ms_event_id message\<rparr> else cx)
      in next_handler message cx)"

text \<open>\<open>publish\<close> takes the topic, the event, and the correlation and causation id passed with it.\<close>

type_synonym 'c event_publisher =
  "string \<Rightarrow> domain_event \<Rightarrow> string option \<Rightarrow> string option \<Rightarrow> 'c \<Rightarrow> 'c \<times> exn option"

fun publish_events :: "'c event_publisher \<Rightarrow> domain_event list \<Rightarrow> 'c \<Rightarrow> 'c \<times> exn option" where
  "publish_events publish [] cx = (cx, None)"
| "publish_events publish (e # es) cx =
     (case publish (de_class e) e
             (if truthy (de_correlation_id e) then de_correlation_id e else None)
             (if truthy (de_causation_id e) then de_causation_id e else None) cx of
        (cx, Some x) \<Rightarrow> (cx, Some x)
      | (cx, None) \<Rightarrow> publish_events publish es cx)"

definition outbox_middleware :: "'c event_publisher \<Rightarrow> ('c, 'm, 'r) middleware" where
  "outbox_middleware publish message next_handler cx =
     (case next_handler message cx of
        (cx, Inl x) \<Rightarrow> (cx, Inl x)
      | (cx, Inr result) \<Rightarrow>
          if rs_kind result = CommandMessage
          then (case publish_events publish (rs_events result) cx of
                  (cx, Some x) \<Rightarrow> (cx, Inl x)
                | (cx, None) \<Rightarrow> (cx, Inr result))
          else (cx, Inr result))"

fun persisted_events :: "(domain_event \<Rightarrow> payload) \<Rightarrow> int \<Rightarrow> nat \<Rightarrow> domain_event list \<Rightarrow> stored_event list" where
  "persisted_events model_dump base_version i [] = []"
| "persisted_events model_dump base_version i (event # events) =
     \<lparr>se_event_id = de_event_id event, se_event_type = de_class event,
      se_aggregate_id = str_opt (de_aggregate_id event),
      se_aggregate_type = (case de_aggregate_type event of None \<Rightarrow> [] | Some t \<Rightarrow> t),
      se_version = base_version + int i + 1, se_schema_version = de_version event,
      se_payload = model_dump event, se_metadata = de_metadata event,
      se_occurred_at = de_occurred_at event, se_correlation_id = de_correlation_id event,
      se_causation_id = de_causation_id event, se_position = None, se_tenant_id = None\<rparr>
     # persisted_events model_dump base_version (Suc i) events"

text \<open>
  \<open>entity_version\<close> gives \<^verbatim>\<open>result.entity.version\<close>, if the result has an entity; \<open>append\<close> is
  \<^verbatim>\<open>event_store.append_batch\<close>.
\<close>

definition event_store_middleware ::
  "('r \<Rightarrow> int option) \<Rightarrow> (domain_event \<Rightarrow> payload) \<Rightarrow> (stored_event list \<Rightarrow> 'c \<Rightarrow> 'c \<times> exn option) \<Rightarrow>
     ('c, 'm, 'r) middleware" where
  "event_store_middleware entity_version model_dump append_fn message next_handler cx =
     (case next_handler message cx of
        (cx, Inl x) \<Rightarrow> (cx, Inl x)
      | (cx, Inr result) \<Rightarrow>
          if rs_events result \<noteq> []
          then let base_version = (case entity_version (rs_result result) of
                                     Some v \<Rightarrow> v - int (length (rs_events result)) | None \<Rightarrow> 0)
               in (case append_fn (persisted_events model_dump base_version 0 (rs_events result)) cx of
                     (cx, Some x) \<Rightarrow> (cx, Inl x)
                   | (cx, None) \<Rightarrow> (cx, Inr result))
          else (cx, Inr result))"

section \<open>Mediator\<close>

record ('h, 'w, 'm, 'r, 'i) mediator =
  md_registry :: handler_registry
  md_command_factory :: "string \<Rightarrow> (('h, 'w) mctx, 'm, 'r) bus \<Rightarrow> (('h, 'w) mctx, 'm, 'r) bus"
  md_query_factory :: "string \<Rightarrow> (('h, 'w) mctx, 'm, 'r) bus"
  md_middlewares :: "(('h, 'w) mctx, 'm, 'r) middleware middleware_registry option"
  md_dispatcher :: "'i event_dispatcher"
  md_invoke :: "(('h, 'w) mctx, 'm, 'r) bus \<Rightarrow> 'i \<Rightarrow> domain_event \<Rightarrow> ('h, 'w) mctx \<Rightarrow> ('h, 'w) mctx \<times> exn option"
  md_uuid :: "('h, 'w) mctx \<Rightarrow> ('h, 'w) mctx \<times> string"

definition message_id :: "'m message \<Rightarrow> string option" where
  "message_id m =
     (case ms_kind m of
        CommandMessage \<Rightarrow> if ms_id m \<noteq> [] then Some (ms_id m) else None
      | QueryMessage \<Rightarrow> Some (ms_id m))"

definition propagate_ids :: "'m message \<Rightarrow> 'r response \<Rightarrow> 'r response" where
  "propagate_ids message response =
     response\<lparr>rs_correlation_id := py_or (rs_correlation_id response) (ms_correlation_id message),
       rs_causation_id := (if truthy (rs_causation_id response) then rs_causation_id response
                           else message_id message)\<rparr>"

definition enrich_event_metadata :: "string option \<Rightarrow> string option \<Rightarrow> domain_event \<Rightarrow> domain_event" where
  "enrich_event_metadata correlation_id causation_id event =
     (let event = (if truthy correlation_id \<and> \<not> truthy (de_correlation_id event)
                   then event\<lparr>de_correlation_id := correlation_id\<rparr> else event)
      in if truthy causation_id \<and> \<not> truthy (de_causation_id event)
         then event\<lparr>de_causation_id := causation_id\<rparr> else event)"

definition pipeline_for ::
  "('h, 'w, 'm, 'r, 'i) mediator \<Rightarrow> (('h, 'w) mctx, 'm, 'r) bus \<Rightarrow> (('h, 'w) mctx, 'm, 'r) bus" where
  "pipeline_for md innermost =
     (case md_middlewares md of
        Some reg \<Rightarrow> build_pipeline (snd (get_ordered_middlewares reg)) innermost
      | None \<Rightarrow> innermost)"

definition no_handler :: "string \<Rightarrow> 'm message \<Rightarrow> exn" where
  "no_handler kind m = ValueError (''No handler registered for '' @ kind @ '' '' @ ms_type m)"

definition dispatch_command ::
  "('h, 'w, 'm, 'r, 'i) mediator \<Rightarrow> (('h, 'w) mctx, 'm, 'r) bus \<Rightarrow> (('h, 'w) mctx, 'm, 'r) bus" where
  "dispatch_command md self command cx =
     (case get_command_handler (md_registry md) (ms_type command) of
        None \<Rightarrow> (cx, Inl (no_handler ''command'' command))
      | Some handler_cls \<Rightarrow>
          (case pipeline_for md (md_command_factory md handler_cls self) command cx of
             (cx, Inl x) \<Rightarrow> (cx, Inl x)
           | (cx, Inr result) \<Rightarrow>
               let result = propagate_ids command result;
                   result = result\<lparr>rs_events := map (enrich_event_metadata (rs_correlation_id result)
                                     (rs_causation_id result)) (rs_events result)\<rparr>
               in (case dispatch_events (md_invoke md self) (md_dispatcher md) (rs_events result) cx of
                     (cx, Some x) \<Rightarrow> (cx, Inl x)
                   | (cx, None) \<Rightarrow> (cx, Inr result))))"

definition choose_correlation ::
  "('h, 'w, 'm, 'r, 'i) mediator \<Rightarrow> 'm message \<Rightarrow> ('h, 'w) mctx \<Rightarrow> ('h, 'w) mctx \<times> 'm message" where
  "choose_correlation md message cx =
     (let cid = py_or (ms_correlation_id message) (cx_correlation_id cx);
          (cx, cid) = (if truthy cid then (cx, cid) else (case md_uuid md cx of (cx, i) \<Rightarrow> (cx, Some i)))
      in (cx\<lparr>cx_correlation_id := cid\<rparr>, message\<lparr>ms_correlation_id := cid\<rparr>))"

text \<open>
  \<^verbatim>\<open>send\<close>, on the bus \<open>self\<close> that the handlers get: inside the scope of a unit of work the command is
  dispatched in it; a root command opens a unit of work, dispatches and leaves it.  No value means
  that the commit hooks of the root command never end.
\<close>

definition send_with ::
  "('h \<Rightarrow> ('h, 'w) mctx \<Rightarrow> ('h, 'w) mctx \<times> exn option \<times> 'h list) \<Rightarrow> ('h, 'w, 'm, 'r, 'i) mediator \<Rightarrow>
     (('h, 'w) mctx, 'm, 'r) bus \<Rightarrow> 'm message \<Rightarrow> ('h, 'w) mctx \<Rightarrow>
     (('h, 'w) mctx \<times> (exn + 'r response)) option" where
  "send_with run md self command cx =
     (if cx_uow cx \<noteq> None then Some (dispatch_command md self command cx)
      else case choose_correlation md command cx of (cx, command) \<Rightarrow>
        (case dispatch_command md self command (cx\<lparr>cx_uow := Some new_uow\<rparr>) of
           (cx, result) \<Rightarrow>
             let u = (case cx_uow cx of Some u \<Rightarrow> u | None \<Rightarrow> new_uow)
             in map_option (\<lambda>cx. (cx, result)) (uow_exit run (\<not> is_ok result) u (cx\<lparr>cx_uow := None\<rparr>))))"

text \<open>
  The bus that a handler gets is \<^verbatim>\<open>send\<close> again, with the nesting that is left.  A handler outside any
  scope whose hooks never end does not come back; the bus has an error value for it.
\<close>

fun nested_send ::
  "('h \<Rightarrow> ('h, 'w) mctx \<Rightarrow> ('h, 'w) mctx \<times> exn option \<times> 'h list) \<Rightarrow> nat \<Rightarrow>
     ('h, 'w, 'm, 'r, 'i) mediator \<Rightarrow> (('h, 'w) mctx, 'm, 'r) bus" where
  "nested_send run 0 md command cx = (cx, Inl RecursionError)"
| "nested_send run (Suc depth) md command cx =
     (case send_with run md (nested_send run depth md) command cx of
        Some r \<Rightarrow> r
      | None \<Rightarrow> (cx, Inl (Other ''commit hooks never end'')))"

definition send ::
  "('h \<Rightarrow> ('h, 'w) mctx \<Rightarrow> ('h, 'w) mctx \<times> exn option \<times> 'h list) \<Rightarrow> nat \<Rightarrow> ('h, 'w, 'm, 'r, 'i) mediator \<Rightarrow>
     'm message \<Rightarrow> ('h, 'w) mctx \<Rightarrow> (('h, 'w) mctx \<times> (exn + 'r response)) option" where
  "send run depth md command cx = send_with run md (nested_send run depth md) command cx"

definition query ::
  "('h, 'w, 'm, 'r, 'i) mediator \<Rightarrow> (('h, 'w) mctx, 'm, 'r) bus" where
  "query md q cx =
     (case choose_correlation md q cx of (cx, q) \<Rightarrow>
        (case get_query_handler (md_registry md) (ms_type q) of
           None \<Rightarrow> (cx, Inl (no_handler ''query'' q))
         | Some handler_cls \<Rightarrow>
             (case pipeline_for md (md_query_factory md handler_cls) q cx of
                (cx, Inl x) \<Rightarrow> (cx, Inl x)
              | (cx, Inr result) \<Rightarrow> (cx, Inr (propagate_ids q result)))))"

text \<open>\<^verbatim>\<open>autoload_event_handlers\<close>: \<open>factory\<close> makes the instances.\<close>

fun autoload_group :: "(string \<Rightarrow> 'i) \<Rightarrow> string \<Rightarrow> string list \<Rightarrow> 'i event_dispatcher \<Rightarrow> 'i event_dispatcher" where
  "autoload_group factory event_type [] d = d"
| "autoload_group factory event_type (c # cs) d =
     autoload_group factory event_type cs (dispatcher_register event_type (factory c) d)"

fun autoload_loop :: "(string \<Rightarrow> 'i) \<Rightarrow> (string, string list) dict \<Rightarrow> 'i event_dispatcher \<Rightarrow> 'i event_dispatcher" where
  "autoload_loop factory [] d = d"
| "autoload_loop factory ((event_type, cs) # rest) d = autoload_loop factory rest (autoload_group factory event_type cs d)"

definition autoload_event_handlers ::
  "(string \<Rightarrow> 'i) \<Rightarrow> handler_registry \<Rightarrow> 'i event_dispatcher \<Rightarrow> 'i event_dispatcher" where
  "autoload_event_handlers factory reg d = autoload_loop factory (hg_synchronous_event_handlers reg) d"

section \<open>What a command run preserves\<close>

text \<open>
  A relation between the context before and after is kept by the mediator when handlers, middlewares
  and event handlers keep it, given a bus that keeps it.
\<close>

definition keeps :: "('c \<Rightarrow> 'c \<Rightarrow> bool) \<Rightarrow> ('c \<Rightarrow> 'c \<times> 'x) \<Rightarrow> bool" where
  "keeps R f \<longleftrightarrow> (\<forall>cx. R cx (fst (f cx)))"

definition lawful ::
  "(('h, 'w) mctx \<Rightarrow> ('h, 'w) mctx \<Rightarrow> bool) \<Rightarrow> ('h, 'w, 'm, 'r, 'i) mediator \<Rightarrow> bool" where
  "lawful R md \<longleftrightarrow>
     (\<forall>cls self m. (\<forall>m. keeps R (self m)) \<longrightarrow> keeps R (md_command_factory md cls self m))
     \<and> (\<forall>reg. md_middlewares md = Some reg \<longrightarrow>
          (\<forall>mw\<in>set (snd (get_ordered_middlewares reg)). \<forall>next_handler m.
             (\<forall>m. keeps R (next_handler m)) \<longrightarrow> keeps R (mw m next_handler)))
     \<and> (\<forall>self i e. (\<forall>m. keeps R (self m)) \<longrightarrow> keeps R (md_invoke md self i e))"

lemma keepsD: "keeps R f \<Longrightarrow> f cx = (cx', x) \<Longrightarrow> R cx cx'"
  unfolding keeps_def by (metis fst_conv)

lemma keeps_gather:
  assumes "reflp R" "transp R" "\<And>i. keeps R (invoke i e)"
  shows "keeps R (gather invoke is e)"
proof (induction "is")
  case Nil
  then show ?case using assms(1) by (simp add: keeps_def reflpD)
next
  case (Cons i "is")
  show ?case unfolding keeps_def
  proof
    fix cx
    obtain cx1 r where 1: "invoke i e cx = (cx1, r)" by force
    obtain cx2 r2 where 2: "gather invoke is e cx1 = (cx2, r2)" by force
    have "R cx cx2" using keepsD [OF assms(3) 1] keepsD [OF Cons 2] assms(2) by (rule transpD [rotated])
    then show "R cx (fst (gather invoke (i # is) e cx))" by (simp add: 1 2)
  qed
qed

lemma keeps_dispatch_events:
  assumes "reflp R" "transp R" "\<And>i e. keeps R (invoke i e)"
  shows "keeps R (dispatch_events invoke d es)"
proof (induction es)
  case Nil
  then show ?case using assms(1) by (simp add: keeps_def reflpD)
next
  case (Cons e es)
  show ?case unfolding keeps_def
  proof
    fix cx
    let ?hs = "case map_of d (de_class e) of None \<Rightarrow> [] | Some hs \<Rightarrow> hs"
    obtain cx1 r where 1: "gather invoke ?hs e cx = (cx1, r)" by force
    have R1: "R cx cx1" by (rule keepsD [OF keeps_gather [OF assms] 1])
    have IH: "R x (fst (dispatch_events invoke d es x))" for x using Cons by (simp add: keeps_def)
    then have "R cx (fst (dispatch_events invoke d es cx1))" using R1 assms(2) by (blast dest: transpD)
    with R1 IH [of cx] show "R cx (fst (dispatch_events invoke d (e # es) cx))"
      using 1 by (cases ?hs; cases r) auto
  qed
qed

lemma build_pipeline_foldr:
  "build_pipeline mws h = foldr (\<lambda>mw next_handler message. mw message next_handler) mws h"
  by (simp add: build_pipeline_def foldr_conv_fold)

lemma keeps_pipeline:
  assumes "\<And>mw next_handler m. mw \<in> set mws \<Longrightarrow> (\<And>m. keeps R (next_handler m)) \<Longrightarrow> keeps R (mw m next_handler)"
    and "\<And>m. keeps R (h m)"
  shows "keeps R (build_pipeline mws h m)"
  using assms unfolding build_pipeline_foldr by (induction mws arbitrary: m) auto

lemma keeps_dispatch_command:
  assumes "reflp R" "transp R" "lawful R md" "\<And>m. keeps R (self m)"
  shows "keeps R (dispatch_command md self command)"
  unfolding keeps_def
proof
  fix cx
  have pipe: "keeps R (pipeline_for md (md_command_factory md cls self) command)" for cls
    using assms(3,4) unfolding pipeline_for_def lawful_def
    by (auto intro: keeps_pipeline split: option.splits)
  have disp: "keeps R (dispatch_events (md_invoke md self) (md_dispatcher md) es)" for es
    by (rule keeps_dispatch_events) (use assms in \<open>auto simp: lawful_def\<close>)
  show "R cx (fst (dispatch_command md self command cx))"
  proof (cases "get_command_handler (md_registry md) (ms_type command)")
    case None
    then show ?thesis using assms(1) by (simp add: dispatch_command_def reflpD)
  next
    case (Some cls)
    obtain cx1 r where 1: "pipeline_for md (md_command_factory md cls self) command cx = (cx1, r)" by force
    have R1: "R cx cx1" by (rule keepsD [OF pipe 1])
    show ?thesis
    proof (cases r)
      case (Inl x)
      with R1 show ?thesis by (simp add: dispatch_command_def Some 1)
    next
      case (Inr resp)
      let ?r = "propagate_ids command resp"
      let ?es = "map (enrich_event_metadata (rs_correlation_id ?r) (rs_causation_id ?r)) (rs_events ?r)"
      obtain cx2 x where 2: "dispatch_events (md_invoke md self) (md_dispatcher md) ?es cx1 = (cx2, x)" by force
      have "R cx cx2" using R1 keepsD [OF disp 2] assms(2) by (rule transpD [rotated])
      then show ?thesis using 2 by (cases x) (simp_all add: dispatch_command_def Some 1 Inr Let_def)
    qed
  qed
qed

text \<open>Inside a scope only hooks are added to the unit of work, and no unit of work ends.\<close>

definition scope_step :: "('h, 'w) mctx \<Rightarrow> ('h, 'w) mctx \<Rightarrow> bool" where
  "scope_step cx cx' \<longleftrightarrow>
     (\<forall>u. cx_uow cx = Some u \<longrightarrow> cx_finished cx' = cx_finished cx \<and>
       (\<exists>hs. cx_uow cx' = Some (u\<lparr>uw_on_commit_hooks := uw_on_commit_hooks u @ hs\<rparr>)))"

lemma reflp_scope_step: "reflp scope_step"
  by (rule reflpI) (auto simp: scope_step_def intro: exI [of _ "[]"])

lemma transp_scope_step: "transp scope_step"
  by (rule transpI) (fastforce simp: scope_step_def)

text \<open>
  A command sent inside a scope keeps it, because \<^verbatim>\<open>send\<close> finds the unit of work in the context;
  outside a scope there is nothing to keep.
\<close>

lemma keeps_nested_send:
  assumes "lawful scope_step md"
  shows "keeps scope_step (nested_send run depth md m)"
proof (induction depth arbitrary: m)
  case 0
  then show ?case by (simp add: keeps_def reflpD [OF reflp_scope_step])
next
  case (Suc depth)
  let ?d = "dispatch_command md (nested_send run depth md) m"
  have d: "keeps scope_step ?d"
    by (rule keeps_dispatch_command [OF reflp_scope_step transp_scope_step assms]) (rule Suc)
  have "scope_step cx (fst (nested_send run (Suc depth) md m cx))" for cx
  proof (cases "cx_uow cx")
    case None
    then show ?thesis by (simp add: scope_step_def)
  next
    case (Some u)
    then have "nested_send run (Suc depth) md m cx = ?d cx" by (simp add: send_with_def)
    then show ?thesis using d by (simp add: keeps_def)
  qed
  then show ?case by (simp only: keeps_def) blast
qed

section \<open>Termination of the commit hooks\<close>

lemma trigger_simps [simp]:
  "trigger_commit_hooks run [] cx = Some cx"
  "trigger_commit_hooks run (h # hs) cx =
     (case run h cx of (cx, e, new) \<Rightarrow> trigger_commit_hooks run (hs @ new) cx)"
  by (simp_all add: trigger_commit_hooks.simps)

text \<open>
  The loop over the commit hooks ends whenever hooks that are registered by a hook rank below
  it, however many they are and whatever order they run in; in particular when no hook registers
  another one.
\<close>

theorem commit_hooks_terminate:
  fixes rank :: "'h \<Rightarrow> nat"
  assumes "\<And>h cx h'. h' \<in> set (snd (snd (run h cx))) \<Longrightarrow> rank h' < rank h"
  shows "\<exists>cx'. trigger_commit_hooks run hooks cx = Some cx'"
proof (induction "mset (map rank hooks)" arbitrary: hooks cx rule: wf_induct_rule [OF wf_mult1 [OF wf_less_than]])
  case 1
  show ?case
  proof (cases hooks)
    case (Cons h rest)
    obtain cx1 e new where r: "run h cx = (cx1, e, new)" by (cases "run h cx") auto
    have "(mset (map rank (rest @ new)), mset (map rank hooks)) \<in> mult1 less_than"
      by (rule mult1I [where a = "rank h" and ?M0.0 = "mset (map rank rest)" and K = "mset (map rank new)"])
        (use assms [of _ h cx] r in \<open>auto simp: Cons\<close>)
    then show ?thesis using 1 [of "rest @ new" cx1] by (simp add: Cons r)
  qed simp
qed

theorem commit_hooks_terminate_witness:
  "\<exists>cx'. trigger_commit_hooks (\<lambda>h cx. (cx + h, None, if h = 2 then [1, 1] else [])) [2, 0] (0::nat) = Some cx'"
  by (rule commit_hooks_terminate [where rank = "\<lambda>h. h"]) (auto split: if_splits)

section \<open>Properties of the mediator\<close>

text \<open>
  C2: A root command is one transaction.  However deeply handlers, middlewares and event handlers
  send further commands with the same \<^verbatim>\<open>send\<close>, exactly one unit of work ends: each nested command
  finds the unit of work of the context and opens none.  If the command fails it has been rolled back
  once, never committed, and no hook runs.  If it succeeds it has been committed once, never rolled
  back, and the hooks registered during the command run after that, on a context where the commit
  is visible and the scope is closed.
\<close>

theorem root_command_is_one_transaction:
  assumes "lawful scope_step md" "cx_uow cx = None"
    and "choose_correlation md command cx = (cx1, command1)"
    and "dispatch_command md (nested_send run depth md) command1 (cx1\<lparr>cx_uow := Some new_uow\<rparr>) = (cx2, result)"
  shows "\<exists>hooks. send run depth md command cx =
    (case result of
       Inl x \<Rightarrow> Some (cx2\<lparr>cx_uow := None, cx_finished := cx_finished cx1 @
         [\<lparr>uw_committed = False, uw_rolled_back = True, uw_commit_count = 0, uw_rollback_count = 1,
           uw_on_commit_hooks = hooks\<rparr>]\<rparr>, result)
     | Inr r \<Rightarrow> map_option (\<lambda>cx. (cx, result)) (trigger_commit_hooks run hooks
         (cx2\<lparr>cx_uow := None, cx_finished := cx_finished cx1 @
           [\<lparr>uw_committed = True, uw_rolled_back = False, uw_commit_count = 1, uw_rollback_count = 0,
             uw_on_commit_hooks = hooks\<rparr>]\<rparr>)))"
proof -
  have "keeps scope_step (dispatch_command md (nested_send run depth md) command1)"
    by (rule keeps_dispatch_command [OF reflp_scope_step transp_scope_step assms(1)])
      (rule keeps_nested_send [OF assms(1)])
  from keepsD [OF this assms(4)] obtain hs where
    u: "cx_uow cx2 = Some (new_uow\<lparr>uw_on_commit_hooks := hs\<rparr>)" and f: "cx_finished cx2 = cx_finished cx1"
    by (auto simp: scope_step_def new_uow_def)
  show ?thesis
  proof (cases result)
    case (Inl x)
    have "send run depth md command cx = Some (cx2\<lparr>cx_uow := None, cx_finished := cx_finished cx1 @
        [uow_rollback (new_uow\<lparr>uw_on_commit_hooks := hs\<rparr>)]\<rparr>, result)"
      by (simp add: send_def send_with_def assms u f uow_exit_def Inl)
    then show ?thesis by (intro exI [of _ hs]) (simp add: Inl uow_rollback_def new_uow_def)
  next
    case (Inr r)
    have "send run depth md command cx = map_option (\<lambda>cx. (cx, result)) (trigger_commit_hooks run hs
        (cx2\<lparr>cx_uow := None, cx_finished := cx_finished cx1 @ [uow_commit (new_uow\<lparr>uw_on_commit_hooks := hs\<rparr>)]\<rparr>))"
      by (simp add: send_def send_with_def assms u f uow_exit_def Inr)
    then show ?thesis by (intro exI [of _ hs]) (simp add: Inr uow_commit_def new_uow_def)
  qed
qed

lemma enrich_ids:
  "truthy c \<Longrightarrow> truthy (de_correlation_id (enrich_event_metadata c k e))"
  "truthy k \<Longrightarrow> truthy (de_causation_id (enrich_event_metadata c k e))"
  by (auto simp: enrich_event_metadata_def Let_def)

lemma dispatch_command_ids:
  assumes "dispatch_command md self command cx = (cx', Inr r)"
    and "truthy (ms_correlation_id command)" "ms_id command \<noteq> []"
  shows "truthy (rs_correlation_id r) \<and> truthy (rs_causation_id r) \<and>
    list_all (\<lambda>e. truthy (de_correlation_id e) \<and> truthy (de_causation_id e)) (rs_events r)"
proof -
  obtain resp where r: "r = propagate_ids command resp\<lparr>rs_events :=
      map (enrich_event_metadata (rs_correlation_id (propagate_ids command resp))
        (rs_causation_id (propagate_ids command resp))) (rs_events (propagate_ids command resp))\<rparr>"
    using assms(1) by (auto simp: dispatch_command_def Let_def split: option.splits prod.splits sum.splits)
  have "truthy (Some (ms_id command))" using assms(3) by (simp add: truthy_def)
  then have ids: "truthy (rs_correlation_id (propagate_ids command resp))"
    "truthy (rs_causation_id (propagate_ids command resp))"
    using assms(2) by (auto simp: propagate_ids_def message_id_def py_or_def split: message_kind.splits)
  then show ?thesis by (simp add: r enrich_ids list_all_iff)
qed

text \<open>
  Tracing ids reach everything.  When a root command with an id succeeds, its response carries a
  correlation and a causation id and so does every event of the response; ids that the handler set
  itself are kept.
\<close>

theorem successful_command_is_traced:
  assumes "send run depth md command cx = Some (cx', Inr r)" "cx_uow cx = None"
    and "ms_id command \<noteq> []" "\<And>cx. snd (md_uuid md cx) \<noteq> []"
  shows "truthy (rs_correlation_id r) \<and> truthy (rs_causation_id r) \<and>
    list_all (\<lambda>e. truthy (de_correlation_id e) \<and> truthy (de_causation_id e)) (rs_events r)"
proof -
  obtain cx1 command1 where c: "choose_correlation md command cx = (cx1, command1)" by force
  obtain cx2 result where d: "dispatch_command md (nested_send run depth md) command1
      (cx1\<lparr>cx_uow := Some new_uow\<rparr>) = (cx2, result)" by force
  have res: "result = Inr r" using assms(1,2) by (auto simp: send_def send_with_def c d Let_def)
  have "truthy (ms_correlation_id command1)" "ms_id command1 = ms_id command"
    using c assms(4) [of cx]
    by (auto simp: choose_correlation_def Let_def truthy_def split: prod.splits if_splits)
  then show ?thesis using dispatch_command_ids [OF d [unfolded res]] assms(3) by simp
qed

inductive middlewares_built :: "(int \<times> 'mw) list \<Rightarrow> 'mw middleware_registry \<Rightarrow> bool" where
  empty: "middlewares_built [] \<lparr>mg_definitions = [], mg_instances = None\<rparr>"
| reg: "middlewares_built ms reg \<Longrightarrow> middlewares_built (ms @ [(p, mw)]) (register_middleware mw p reg)"
| get: "middlewares_built ms reg \<Longrightarrow> middlewares_built ms (fst (get_ordered_middlewares reg))"
| clear: "middlewares_built ms reg \<Longrightarrow> middlewares_built [] (clear_middlewares reg)"

lemma middlewares_built_ok:
  assumes "middlewares_built ms reg"
  shows "map (\<lambda>d. (mdf_priority d, mdf_build d)) (mg_definitions reg) = ms \<and>
    (mg_instances reg = None \<or>
     mg_instances reg = Some (map mdf_build (sort_key mdf_priority (mg_definitions reg))))"
  using assms
  by induction (auto simp: register_middleware_def get_ordered_middlewares_def clear_middlewares_def
      Let_def split: option.splits)

lemma sort_key_map: "map g (sort_key (\<lambda>x. f (g x)) xs) = sort_key f (map g xs)"
proof (induction xs)
  case (Cons x xs)
  have "map g (insort_key (\<lambda>x. f (g x)) x ys) = insort_key f (g x) (map g ys)" for ys
    by (induction ys) auto
  with Cons show ?case by simp
qed simp

text \<open>
  Middlewares wrap the handler by priority.  After any registrations and reads of the registry,
  a message goes through the middlewares in ascending priority, those of equal priority in the order
  they were registered, the first one outermost, and reaches the handler last; the cached instances
  are never stale.
\<close>

theorem middlewares_wrap_by_priority:
  assumes "middlewares_built ms reg"
  shows "build_pipeline (snd (get_ordered_middlewares reg)) handler =
    foldr (\<lambda>(p, mw) next_handler message. mw message next_handler) (sort_key fst ms) handler"
proof -
  let ?g = "\<lambda>d. (mdf_priority d, mdf_build d)"
  have ms: "map ?g (mg_definitions reg) = ms" and
    "snd (get_ordered_middlewares reg) = map mdf_build (sort_key mdf_priority (mg_definitions reg))"
    using middlewares_built_ok [OF assms] by (auto simp: get_ordered_middlewares_def Let_def)
  then have "snd (get_ordered_middlewares reg) =
      map snd (map ?g (sort_key (\<lambda>d. fst (?g d)) (mg_definitions reg)))" by simp
  then have o: "snd (get_ordered_middlewares reg) = map snd (sort_key fst ms)"
    unfolding sort_key_map [where f = fst and g = ?g] ms .
  show ?thesis unfolding o build_pipeline_foldr foldr_map by (simp add: comp_def case_prod_unfold)
qed

text \<open>
  A handler registration never displaces another: registering a different handler for a command
  type is refused with \<^verbatim>\<open>HandlerRegistrationError\<close> and leaves the registry as it is; any other
  registration succeeds, and afterwards the type has that handler and all other types the handlers they
  had.
\<close>

theorem command_handler_conflicts_refused:
  "register_command_handler t h reg =
     (if get_command_handler reg t \<in> {None, Some h}
      then Inr (reg\<lparr>hg_command_handlers := AList.update t h (hg_command_handlers reg)\<rparr>)
      else Inl (duplicate_handler ''command'' t (the (get_command_handler reg t)) h))
   \<and> get_command_handler (reg\<lparr>hg_command_handlers := AList.update t h (hg_command_handlers reg)\<rparr>) t' =
       (if t' = t then Some h else get_command_handler reg t')"
  by (auto simp: register_command_handler_def get_command_handler_def update_conv' split: option.splits if_splits)

section \<open>Witnesses\<close>

text \<open>A mediator with two commands: \<^verbatim>\<open>Ping\<close> sends \<^verbatim>\<open>Pong\<close> and registers a commit hook.\<close>

type_synonym ex_ctx = "(string, string list) mctx"

definition ex_message :: "string \<Rightarrow> unit message" where
  "ex_message t = \<lparr>ms_kind = CommandMessage, ms_type = t, ms_id = ''c1'', ms_correlation_id = None,
     ms_event_id = None, ms_body = ()\<rparr>"

definition ex_response :: "unit response" where
  "ex_response = \<lparr>rs_kind = CommandMessage, rs_result = (), rs_events = [ex_added ''e1''], rs_success = True,
     rs_correlation_id = None, rs_causation_id = None\<rparr>"

definition ex_handler :: "string \<Rightarrow> (ex_ctx, unit, unit) bus \<Rightarrow> (ex_ctx, unit, unit) bus" where
  "ex_handler cls self m cx =
     (if cls = ''PingHandler''
      then (case self (ex_message ''Pong'') cx of
              (cx, Inl x) \<Rightarrow> (cx, Inl x)
            | (cx, Inr _) \<Rightarrow> (cx\<lparr>cx_uow := map_option (on_commit ''notify'') (cx_uow cx)\<rparr>, Inr ex_response))
      else (cx\<lparr>cx_app := cx_app cx @ [''pong'']\<rparr>, Inr ex_response))"

definition ex_md :: "(string, string list, unit, unit, unit) mediator" where
  "ex_md = \<lparr>md_registry = empty_handlers\<lparr>hg_command_handlers := [(''Ping'', ''PingHandler''), (''Pong'', ''PongHandler'')]\<rparr>,
     md_command_factory = ex_handler, md_query_factory = (\<lambda>_ m cx. (cx, Inr ex_response)),
     md_middlewares = Some \<lparr>mg_definitions = [\<lparr>mdf_priority = 0, mdf_build = logging_middleware\<rparr>], mg_instances = None\<rparr>,
     md_dispatcher = [], md_invoke = (\<lambda>_ _ _ cx. (cx, None)), md_uuid = (\<lambda>cx. (cx, ''u1''))\<rparr>"

definition ex_cx :: ex_ctx where
  "ex_cx = \<lparr>cx_uow = None, cx_finished = [], cx_correlation_id = None, cx_causation_id = None, cx_app = []\<rparr>"

definition ex_run :: "string \<Rightarrow> ex_ctx \<Rightarrow> ex_ctx \<times> exn option \<times> string list" where
  "ex_run h cx = (cx\<lparr>cx_app := cx_app cx @ [h]\<rparr>, None, [])"

lemma ex_lawful: "lawful scope_step ex_md"
proof -
  have h: "keeps scope_step (ex_handler cls self m)" if self: "\<forall>m. keeps scope_step (self m)" for cls self m
    unfolding keeps_def
  proof
    fix cx
    obtain cx1 r where 1: "self (ex_message ''Pong'') cx = (cx1, r)" by force
    have R1: "scope_step cx cx1" using self [THEN spec, THEN keepsD, OF 1] .
    have add: "scope_step c (c\<lparr>cx_uow := map_option (on_commit ''notify'') (cx_uow c)\<rparr>)" for c :: ex_ctx
      by (auto simp: scope_step_def on_commit_def)
    have "scope_step cx (cx1\<lparr>cx_uow := map_option (on_commit ''notify'') (cx_uow cx1)\<rparr>)"
      using R1 add transp_scope_step by (blast dest: transpD)
    moreover have "scope_step cx (cx\<lparr>cx_app := cx_app cx @ [''pong'']\<rparr>)"
      by (auto simp: scope_step_def intro: exI [of _ "[]"])
    ultimately show "scope_step cx (fst (ex_handler cls self m cx))"
      using 1 R1 by (cases r) (auto simp: ex_handler_def)
  qed
  have "keeps scope_step (\<lambda>cx :: ex_ctx. (cx, None))"
    by (simp add: keeps_def reflpD [OF reflp_scope_step])
  with h show ?thesis
    by (auto simp: lawful_def ex_md_def get_ordered_middlewares_def keeps_def logging_middleware_def
        Let_def)
qed

definition ex_dispatched :: "ex_ctx \<times> (exn + unit response)" where
  "ex_dispatched = dispatch_command ex_md (nested_send ex_run 5 ex_md) (ex_message ''Ping''\<lparr>ms_correlation_id := Some ''u1''\<rparr>)
     (ex_cx\<lparr>cx_correlation_id := Some ''u1'', cx_uow := Some new_uow\<rparr>)"

lemmas ex_md_simps = ex_dispatched_def send_with_def dispatch_command_def get_command_handler_def ex_md_def pipeline_for_def
  get_ordered_middlewares_def build_pipeline_def logging_middleware_def ex_handler_def ex_message_def ex_cx_def
  empty_handlers_def ex_response_def eval_nat_numeral

lemma ex_chosen:
  "choose_correlation ex_md (ex_message ''Ping'') ex_cx =
     (ex_cx\<lparr>cx_correlation_id := Some ''u1''\<rparr>, ex_message ''Ping''\<lparr>ms_correlation_id := Some ''u1''\<rparr>)"
  by (simp add: choose_correlation_def ex_message_def ex_cx_def ex_md_def)

theorem root_command_is_one_transaction_witness:
  "\<exists>hooks. send ex_run 5 ex_md (ex_message ''Ping'') ex_cx =
    (case snd ex_dispatched of
       Inl x \<Rightarrow> Some ((fst ex_dispatched)\<lparr>cx_uow := None, cx_finished :=
         [\<lparr>uw_committed = False, uw_rolled_back = True, uw_commit_count = 0, uw_rollback_count = 1,
           uw_on_commit_hooks = hooks\<rparr>]\<rparr>, snd ex_dispatched)
     | Inr r \<Rightarrow> map_option (\<lambda>cx. (cx, snd ex_dispatched)) (trigger_commit_hooks ex_run hooks
         ((fst ex_dispatched)\<lparr>cx_uow := None, cx_finished :=
           [\<lparr>uw_committed = True, uw_rolled_back = False, uw_commit_count = 1, uw_rollback_count = 0,
             uw_on_commit_hooks = hooks\<rparr>]\<rparr>)))"
proof -
  have d: "dispatch_command ex_md (nested_send ex_run 5 ex_md) (ex_message ''Ping''\<lparr>ms_correlation_id := Some ''u1''\<rparr>)
      ((ex_cx\<lparr>cx_correlation_id := Some ''u1''\<rparr>)\<lparr>cx_uow := Some new_uow\<rparr>) = (fst ex_dispatched, snd ex_dispatched)"
    by (simp add: ex_dispatched_def)
  have "cx_uow ex_cx = None" "cx_finished (ex_cx\<lparr>cx_correlation_id := Some ''u1''\<rparr>) = []" by (simp_all add: ex_cx_def)
  then show ?thesis
    using root_command_is_one_transaction [OF ex_lawful _ ex_chosen d]
    by (simp only: append_Nil)
qed

theorem successful_command_is_traced_witness:
  "\<exists>cx' r. send ex_run 5 ex_md (ex_message ''Ping'') ex_cx = Some (cx', Inr r) \<and>
     truthy (rs_correlation_id r) \<and> truthy (rs_causation_id r) \<and>
     list_all (\<lambda>e. truthy (de_correlation_id e) \<and> truthy (de_causation_id e)) (rs_events r)"
proof -
  have ok: "\<exists>cx' r. send ex_run 5 ex_md (ex_message ''Ping'') ex_cx = Some (cx', Inr r)"
    unfolding send_def send_with_def ex_chosen
    by (simp add: ex_md_simps uow_exit_def ex_run_def new_uow_def on_commit_def Let_def propagate_ids_def)
  then obtain cx' r where s: "send ex_run 5 ex_md (ex_message ''Ping'') ex_cx = Some (cx', Inr r)" by blast
  have "cx_uow ex_cx = None" "ms_id (ex_message ''Ping'') \<noteq> []" "\<And>cx. snd (md_uuid ex_md cx) \<noteq> []"
    by (simp_all add: ex_cx_def ex_message_def ex_md_def)
  from s successful_command_is_traced [OF s this] show ?thesis by blast
qed

definition ex_tag :: "string \<Rightarrow> (string list, unit, unit) middleware" where
  "ex_tag t message next_handler cx = next_handler message (cx @ [t])"

theorem middlewares_wrap_by_priority_witness:
  "build_pipeline (snd (get_ordered_middlewares (register_middleware (ex_tag ''outer'') (-1)
      (register_middleware (ex_tag ''inner'') 0 \<lparr>mg_definitions = [], mg_instances = None\<rparr>))))
     (\<lambda>m cx. (cx, Inr ex_response)) (ex_message ''Ping'') [] = ([''outer'', ''inner''], Inr ex_response)"
proof -
  have "middlewares_built [(0, ex_tag ''inner''), (-1, ex_tag ''outer'')] (register_middleware (ex_tag ''outer'') (-1)
      (register_middleware (ex_tag ''inner'') 0 \<lparr>mg_definitions = [], mg_instances = None\<rparr>))"
    using middlewares_built.reg [OF middlewares_built.reg [OF middlewares_built.empty]] by simp
  from middlewares_wrap_by_priority [OF this] show ?thesis by (simp add: ex_tag_def)
qed

end
