(* ===== verification/PyValue.thy ===== *)
theory PyValue
  imports Prelude Complex_Main "HOL-Library.Sublist"
begin

text \<open>
  Python values as the specification and filtering packages compare them: equality, ordering,
  membership, truth and rendering of \<^verbatim>\<open>None\<close>, booleans, numbers, strings, lists, dictionaries with
  string keys and objects, and the string methods they use.

  A string is a list of characters below 256, read as code points.  Tuples are lists.  A finite
  \<^verbatim>\<open>float\<close> is the rational number it stands for.  What depends on the classes of an application (attribute
  access, the order of its objects) and what renders a value as text beyond the simple cases are
  the fields of the record \<open>host\<close>, which every operation that needs them takes as its first argument.
\<close>

section \<open>Values\<close>

datatype pyfloat = Finite rat | PosInf | NegInf | NaN

datatype 'o pyval =
    PNone
  | PBool bool
  | PInt int
  | PFloat pyfloat
  | PStr string
  | PList "'o pyval list"
  | PDict "(string \<times> 'o pyval) list"
  | PObj 'o

datatype cmp = Lt | Le | Gt | Ge

text \<open>
  \<open>ho_getattr\<close> is \<^verbatim>\<open>getattr(obj, name, None)\<close>, \<open>ho_cmp\<close> compares two objects (\<^const>\<open>None\<close>: the classes define
  no order), \<open>ho_str\<close> renders floats, lists, dictionaries and objects, \<open>ho_search\<close> is \<^verbatim>\<open>re.search\<close> with the
  flag \<^verbatim>\<open>IGNORECASE\<close> first and \<open>ho_match\<close> is \<^verbatim>\<open>re.match\<close>; both raise on a malformed pattern.  \<open>ho_float\<close> reads
  a \<^verbatim>\<open>float\<close>, and \<open>ho_cast\<close> converts to dates, times, UUIDs, bytes and parsed JSON.
\<close>

record 'o host =
  ho_getattr :: "'o pyval \<Rightarrow> string \<Rightarrow> 'o pyval"
  ho_cmp :: "cmp \<Rightarrow> 'o \<Rightarrow> 'o \<Rightarrow> bool option"
  ho_str :: "'o pyval \<Rightarrow> string"
  ho_search :: "bool \<Rightarrow> string \<Rightarrow> string \<Rightarrow> exn + bool"
  ho_match :: "bool \<Rightarrow> string \<Rightarrow> string \<Rightarrow> exn + bool"
  ho_float :: "string \<Rightarrow> pyfloat option"
  ho_cast :: "string \<Rightarrow> 'o pyval \<Rightarrow> exn + 'o pyval option"

fun py_truthy :: "'o pyval \<Rightarrow> bool" where
  "py_truthy PNone = False"
| "py_truthy (PBool b) = b"
| "py_truthy (PInt i) = (i \<noteq> 0)"
| "py_truthy (PFloat f) = (f \<noteq> Finite 0)"
| "py_truthy (PStr s) = (s \<noteq> [])"
| "py_truthy (PList xs) = (xs \<noteq> [])"
| "py_truthy (PDict d) = (d \<noteq> [])"
| "py_truthy (PObj x) = True"

fun type_name :: "'o pyval \<Rightarrow> string" where
  "type_name PNone = ''NoneType''"
| "type_name (PBool _) = ''bool''"
| "type_name (PInt _) = ''int''"
| "type_name (PFloat _) = ''float''"
| "type_name (PStr _) = ''str''"
| "type_name (PList _) = ''list''"
| "type_name (PDict _) = ''dict''"
| "type_name (PObj _) = ''object''"

section \<open>Equality and order\<close>

fun num_of :: "'o pyval \<Rightarrow> pyfloat option" where
  "num_of (PBool b) = Some (Finite (if b then 1 else 0))"
| "num_of (PInt i) = Some (Finite (of_int i))"
| "num_of (PFloat f) = Some f"
| "num_of _ = None"

definition float_eq :: "pyfloat \<Rightarrow> pyfloat \<Rightarrow> bool" where
  "float_eq a b = (a = b \<and> a \<noteq> NaN)"

fun float_lt :: "pyfloat \<Rightarrow> pyfloat \<Rightarrow> bool" where
  "float_lt (Finite a) (Finite b) = (a < b)"
| "float_lt NegInf (Finite _) = True"
| "float_lt NegInf PosInf = True"
| "float_lt (Finite _) PosInf = True"
| "float_lt _ _ = False"

text \<open>\<^verbatim>\<open>a == b\<close>.  Booleans are numbers, and dictionaries are equal whatever the order of their keys.\<close>

definition num_eq :: "'o pyval \<Rightarrow> 'o pyval \<Rightarrow> bool" where
  "num_eq x y = (case (num_of x, num_of y) of (Some a, Some b) \<Rightarrow> float_eq a b | _ \<Rightarrow> False)"

function py_eq :: "'o pyval \<Rightarrow> 'o pyval \<Rightarrow> bool"
  and py_eq_list :: "'o pyval list \<Rightarrow> 'o pyval list \<Rightarrow> bool"
  and py_eq_dict :: "(string \<times> 'o pyval) list \<Rightarrow> (string \<times> 'o pyval) list \<Rightarrow> bool" where
  "py_eq PNone y = (y = PNone)"
| "py_eq (PBool b) y = num_eq (PBool b) y"
| "py_eq (PInt i) y = num_eq (PInt i) y"
| "py_eq (PFloat f) y = num_eq (PFloat f) y"
| "py_eq (PStr s) y = (y = PStr s)"
| "py_eq (PList xs) y = (case y of PList ys \<Rightarrow> py_eq_list xs ys | _ \<Rightarrow> False)"
| "py_eq (PDict d) y = (case y of PDict e \<Rightarrow> length d = length e \<and> py_eq_dict d e | _ \<Rightarrow> False)"
| "py_eq (PObj a) y = (y = PObj a)"
| "py_eq_list [] ys = (ys = [])"
| "py_eq_list (x # xs) ys = (case ys of [] \<Rightarrow> False | y # ys \<Rightarrow> py_eq x y \<and> py_eq_list xs ys)"
| "py_eq_dict [] e = True"
| "py_eq_dict ((k, v) # d) e =
     ((case map_of e k of None \<Rightarrow> False | Some w \<Rightarrow> py_eq v w) \<and> py_eq_dict d e)"
  by pat_completeness auto
termination
  by (relation "measure (\<lambda>p. case p of
       Inl (x, _) \<Rightarrow> size x
     | Inr (Inl (xs, _)) \<Rightarrow> size_list size xs
     | Inr (Inr (d, _)) \<Rightarrow> size_list (size_prod (\<lambda>_. 0) size) d)") auto

definition ord_cmp :: "cmp \<Rightarrow> 'a :: linorder \<Rightarrow> 'a \<Rightarrow> bool" where
  "ord_cmp c a b = (case c of Lt \<Rightarrow> a < b | Le \<Rightarrow> a \<le> b | Gt \<Rightarrow> b < a | Ge \<Rightarrow> b \<le> a)"

definition float_cmp :: "cmp \<Rightarrow> pyfloat \<Rightarrow> pyfloat \<Rightarrow> bool" where
  "float_cmp c a b =
     (case c of Lt \<Rightarrow> float_lt a b | Le \<Rightarrow> float_lt a b \<or> float_eq a b
      | Gt \<Rightarrow> float_lt b a | Ge \<Rightarrow> float_lt b a \<or> float_eq a b)"

definition not_ordered :: "'o pyval \<Rightarrow> 'o pyval \<Rightarrow> exn" where
  "not_ordered x y = TypeError (''comparison not supported between instances of '' @ quoted (type_name x)
     @ '' and '' @ quoted (type_name y))"

text \<open>\<^verbatim>\<open>a < b\<close> and the like: lists compare at the first position where they differ.\<close>

definition num_cmp :: "cmp \<Rightarrow> 'o pyval \<Rightarrow> 'o pyval \<Rightarrow> exn + bool" where
  "num_cmp c x y =
     (case (num_of x, num_of y) of (Some a, Some b) \<Rightarrow> Inr (float_cmp c a b) | _ \<Rightarrow> Inl (not_ordered x y))"

function py_cmp :: "'o host \<Rightarrow> cmp \<Rightarrow> 'o pyval \<Rightarrow> 'o pyval \<Rightarrow> exn + bool"
  and py_cmp_list :: "'o host \<Rightarrow> cmp \<Rightarrow> 'o pyval list \<Rightarrow> 'o pyval list \<Rightarrow> exn + bool" where
  "py_cmp h c PNone y = num_cmp c PNone y"
| "py_cmp h c (PBool b) y = num_cmp c (PBool b) y"
| "py_cmp h c (PInt i) y = num_cmp c (PInt i) y"
| "py_cmp h c (PFloat f) y = num_cmp c (PFloat f) y"
| "py_cmp h c (PStr s) y = (case y of PStr t \<Rightarrow> Inr (ord_cmp c s t) | _ \<Rightarrow> Inl (not_ordered (PStr s) y))"
| "py_cmp h c (PList xs) y = (case y of PList ys \<Rightarrow> py_cmp_list h c xs ys | _ \<Rightarrow> Inl (not_ordered (PList xs) y))"
| "py_cmp h c (PDict d) y = Inl (not_ordered (PDict d) y)"
| "py_cmp h c (PObj a) y =
     (case y of PObj b \<Rightarrow> (case ho_cmp h c a b of None \<Rightarrow> Inl (not_ordered (PObj a) y) | Some r \<Rightarrow> Inr r)
      | _ \<Rightarrow> Inl (not_ordered (PObj a) y))"
| "py_cmp_list h c [] ys = Inr (ord_cmp c 0 (length ys))"
| "py_cmp_list h c (x # xs) ys =
     (case ys of [] \<Rightarrow> Inr (ord_cmp c (length (x # xs)) 0)
      | y # ys \<Rightarrow> if py_eq x y then py_cmp_list h c xs ys else py_cmp h c x y)"
  by pat_completeness auto
termination
  by (relation "measure (\<lambda>p. case p of
       Inl (_, _, x, _) \<Rightarrow> size x | Inr (_, _, xs, _) \<Rightarrow> size_list size xs)") auto

section \<open>Text\<close>

definition py_str :: "'o host \<Rightarrow> 'o pyval \<Rightarrow> string" where
  "py_str h v =
     (case v of PNone \<Rightarrow> ''None'' | PBool b \<Rightarrow> (if b then ''True'' else ''False'') | PInt i \<Rightarrow> show_int i
      | PStr s \<Rightarrow> s | _ \<Rightarrow> ho_str h v)"

definition lower_char :: "char \<Rightarrow> char" where
  "lower_char c =
     (let n = of_char c :: nat
      in if 65 \<le> n \<and> n \<le> 90 \<or> 192 \<le> n \<and> n \<le> 222 \<and> n \<noteq> 215 then char_of (n + 32) else c)"

definition lower :: "string \<Rightarrow> string" where
  "lower s = map lower_char s"

definition is_space :: "char \<Rightarrow> bool" where
  "is_space c = (let n = of_char c :: nat in 9 \<le> n \<and> n \<le> 13 \<or> 28 \<le> n \<and> n \<le> 32 \<or> n = 133 \<or> n = 160)"

definition strip :: "string \<Rightarrow> string" where
  "strip s = rev (dropWhile is_space (rev (dropWhile is_space s)))"

text \<open>\<^verbatim>\<open>s.split(sep)\<close> for a single character, \<^verbatim>\<open>s.split()\<close>, and \<^verbatim>\<open>sep.join(parts)\<close>.\<close>

fun split_on :: "char \<Rightarrow> string \<Rightarrow> string list" where
  "split_on c [] = [[]]"
| "split_on c (x # xs) =
     (if x = c then [] # split_on c xs
      else (case split_on c xs of [] \<Rightarrow> [[x]] | p # ps \<Rightarrow> (x # p) # ps))"

fun split_space :: "string \<Rightarrow> string \<Rightarrow> string list" where
  "split_space acc [] = (if acc = [] then [] else [rev acc])"
| "split_space acc (x # xs) =
     (if is_space x then (if acc = [] then [] else [rev acc]) @ split_space [] xs
      else split_space (x # acc) xs)"

fun join_with :: "char \<Rightarrow> string list \<Rightarrow> string" where
  "join_with c [] = []"
| "join_with c [p] = p"
| "join_with c (p # q # ps) = p @ c # join_with c (q # ps)"

definition contains_text :: "string \<Rightarrow> string \<Rightarrow> bool" where
  "contains_text needle text = sublist needle text"

section \<open>Membership and iteration\<close>

definition hashable :: "'o pyval \<Rightarrow> bool" where
  "hashable v = (case v of PList _ \<Rightarrow> False | PDict _ \<Rightarrow> False | _ \<Rightarrow> True)"

text \<open>\<^verbatim>\<open>x in container\<close>: elements of a list, substrings of a string, keys of a dictionary.\<close>

fun py_in :: "'o pyval \<Rightarrow> 'o pyval \<Rightarrow> exn + bool" where
  "py_in x (PList ys) = Inr (list_ex (py_eq x) ys)"
| "py_in x (PStr t) =
     (case x of PStr s \<Rightarrow> Inr (contains_text s t)
      | _ \<Rightarrow> Inl (TypeError (''in <string> requires string as left operand, not '' @ type_name x)))"
| "py_in x (PDict d) =
     (if \<not> hashable x then Inl (TypeError (''unhashable type: '' @ quoted (type_name x)))
      else Inr (\<exists>k \<in> set (dkeys d). x = PStr k))"
| "py_in x y = Inl (TypeError (''argument of type '' @ quoted (type_name y) @ '' is not iterable''))"

text \<open>The elements a loop over a value visits.\<close>

fun py_iter :: "'o pyval \<Rightarrow> exn + 'o pyval list" where
  "py_iter (PList xs) = Inr xs"
| "py_iter (PStr s) = Inr (map (\<lambda>c. PStr [c]) s)"
| "py_iter (PDict d) = Inr (map (\<lambda>e. PStr (fst e)) d)"
| "py_iter x = Inl (TypeError (quoted (type_name x) @ '' object is not iterable''))"

section \<open>Lemmas\<close>

lemma split_on_ne [simp]: "split_on c s \<noteq> []"
  by (induction s) (auto split: list.splits)

lemma split_on_no_sep: "c \<notin> set s \<Longrightarrow> split_on c s = [s]"
  by (induction s) auto

lemma split_on_append: "c \<notin> set p \<Longrightarrow> split_on c (p @ c # s) = p # split_on c s"
  by (induction p) auto

text \<open>Splitting at the separator undoes joining.\<close>

lemma split_on_join:
  assumes "ps \<noteq> []" "list_all (\<lambda>p. c \<notin> set p) ps"
  shows "split_on c (join_with c ps) = ps"
  using assms
proof (induction ps rule: induct_list012)
  case (3 p q ps)
  then show ?case by (simp add: split_on_append)
qed (simp_all add: split_on_no_sep)

lemma py_eq_list_all2: "py_eq_list xs ys = list_all2 py_eq xs ys"
  by (induction xs arbitrary: ys) (auto simp: list_all2_Cons1 split: list.splits)

lemma py_eq_dict_all:
  "py_eq_dict d e = (\<forall>(k, v) \<in> set d. case map_of e k of None \<Rightarrow> False | Some w \<Rightarrow> py_eq v w)"
  by (induction d) auto

section \<open>Results of a list of computations\<close>

fun traverse :: "('a \<Rightarrow> 'e + 'b) \<Rightarrow> 'a list \<Rightarrow> 'e + 'b list" where
  "traverse f [] = Inr []"
| "traverse f (x # xs) =
     (case f x of Inl e \<Rightarrow> Inl e | Inr y \<Rightarrow>
       (case traverse f xs of Inl e \<Rightarrow> Inl e | Inr ys \<Rightarrow> Inr (y # ys)))"

lemma traverse_cong [fundef_cong]:
  "xs = ys \<Longrightarrow> (\<And>x. x \<in> set ys \<Longrightarrow> f x = g x) \<Longrightarrow> traverse f xs = traverse g ys"
  by (induction xs arbitrary: ys) (auto split: sum.splits)

lemma traverse_map [simp]: "traverse f (map g xs) = traverse (\<lambda>x. f (g x)) xs"
  by (induction xs) (simp_all split: sum.split)

lemma traverse_InrD: "traverse f xs = Inr ys \<Longrightarrow> list_all2 (\<lambda>x y. f x = Inr y) xs ys"
proof (induction xs arbitrary: ys)
  case (Cons x xs)
  then obtain y zs where "f x = Inr y" "traverse f xs = Inr zs" "ys = y # zs"
    by (auto split: sum.splits)
  with Cons.IH show ?case by simp
qed simp

lemma traverse_all_Inr: "(\<And>x. x \<in> set xs \<Longrightarrow> f x = Inr (g x)) \<Longrightarrow> traverse f xs = Inr (map g xs)"
  by (induction xs) auto

end
