(* ===== verification/SpecOperators.thy ===== *)
theory SpecOperators
  imports PyValue
begin

text \<open>
  The operators of the specifications package: operators.py, evaluator.py, the in-memory operators
  (operators_memory/standard.py, set.py, string.py, null.py, jsonb.py, fts.py) and the value casting of
  utils.py.  Geometry operators call Shapely and are an argument of \<open>build_default_registry\<close>.
\<close>

section \<open>Operators and the registry\<close>

datatype spec_operator =
    EQ | NE | GT | LT | GE | LE | IN | NOT_IN | ALL_OP | BETWEEN | NOT_BETWEEN
  | LIKE | NOT_LIKE | ILIKE | CONTAINS | ICONTAINS | STARTSWITH | ISTARTSWITH | ENDSWITH | IENDSWITH
  | REGEX | IREGEX
  | IS_NULL | IS_NOT_NULL | IS_EMPTY | IS_NOT_EMPTY
  | JSON_CONTAINS | JSON_CONTAINED_BY | JSON_HAS_KEY | JSON_HAS_ANY | JSON_HAS_ALL | JSON_PATH_EXISTS
  | INTERSECTS | WITHIN | CONTAINS_GEOM | TOUCHES | CROSSES | OVERLAPS | DISJOINT | GEOM_EQUALS
  | DISTANCE_LT | DWITHIN | BBOX_INTERSECTS
  | FTS | FTS_PHRASE
  | AND_OP | OR_OP | NOT_OP

definition operator_values :: "(spec_operator \<times> string) list" where
  "operator_values =
    [(EQ, ''=''), (NE, ''!=''), (GT, ''>''), (LT, ''<''), (GE, ''>=''), (LE, ''<=''), (IN, ''in''),
     (NOT_IN, ''not_in''), (ALL_OP, ''all''), (BETWEEN, ''between''), (NOT_BETWEEN, ''not_between''),
     (LIKE, ''like''), (NOT_LIKE, ''not_like''), (ILIKE, ''ilike''), (CONTAINS, ''contains''),
     (ICONTAINS, ''icontains''), (STARTSWITH, ''startswith''), (ISTARTSWITH, ''istartswith''),
     (ENDSWITH, ''endswith''), (IENDSWITH, ''iendswith''), (REGEX, ''regex''), (IREGEX, ''iregex''),
     (IS_NULL, ''is_null''), (IS_NOT_NULL, ''is_not_null''), (IS_EMPTY, ''is_empty''),
     (IS_NOT_EMPTY, ''is_not_empty''), (JSON_CONTAINS, ''json_contains''),
     (JSON_CONTAINED_BY, ''json_contained_by''), (JSON_HAS_KEY, ''json_has_key''),
     (JSON_HAS_ANY, ''json_has_any''), (JSON_HAS_ALL, ''json_has_all''),
     (JSON_PATH_EXISTS, ''json_path_exists''), (INTERSECTS, ''intersects''), (WITHIN, ''within''),
     (CONTAINS_GEOM, ''contains_geom''), (TOUCHES, ''touches''), (CROSSES, ''crosses''),
     (OVERLAPS, ''overlaps''), (DISJOINT, ''disjoint''), (GEOM_EQUALS, ''geom_equals''),
     (DISTANCE_LT, ''distance_lt''), (DWITHIN, ''dwithin''), (BBOX_INTERSECTS, ''bbox_intersects''),
     (FTS, ''fts''), (FTS_PHRASE, ''fts_phrase''), (AND_OP, ''and''), (OR_OP, ''or''), (NOT_OP, ''not'')]"

definition op_value :: "spec_operator \<Rightarrow> string" where
  "op_value m = the (map_of operator_values m)"

text \<open>\<^verbatim>\<open>SpecificationOperator(value)\<close>.\<close>

definition operator_of :: "string \<Rightarrow> exn + spec_operator" where
  "operator_of v = (case find (\<lambda>e. snd e = v) operator_values of
     None \<Rightarrow> Inl (ValueError (quoted v @ '' is not a valid SpecificationOperator''))
   | Some e \<Rightarrow> Inr (fst e))"

definition valid_operators :: "string list" where
  "valid_operators = map snd operator_values"

definition logical_operators :: "string list" where
  "logical_operators = [''and'', ''or'', ''not'']"

text \<open>A memory operator is its name and its \<^verbatim>\<open>evaluate\<close> method; the registry maps names to methods.\<close>

type_synonym 'o evaluation = "'o pyval \<Rightarrow> 'o pyval \<Rightarrow> exn + bool"
type_synonym 'o memory_operator = "spec_operator \<times> 'o evaluation"
type_synonym 'o operator_registry = "(spec_operator, 'o evaluation) dict"

definition register_operator :: "'o memory_operator \<Rightarrow> 'o operator_registry \<Rightarrow> 'o operator_registry" where
  "register_operator mo reg = AList.update (fst mo) (snd mo) reg"

definition register_all :: "'o memory_operator list \<Rightarrow> 'o operator_registry \<Rightarrow> 'o operator_registry" where
  "register_all mos reg = fold register_operator mos reg"

definition unregister_operator :: "spec_operator \<Rightarrow> 'o operator_registry \<Rightarrow> 'o operator_registry" where
  "unregister_operator name reg = AList.delete name reg"

definition supported_operators :: "'o operator_registry \<Rightarrow> spec_operator set" where
  "supported_operators reg = set (dkeys reg)"

definition reg_evaluate :: "'o operator_registry \<Rightarrow> spec_operator \<Rightarrow> 'o evaluation" where
  "reg_evaluate reg name field_value condition_value =
     (case map_of reg name of
        None \<Rightarrow> Inl (ValueError (''Unsupported operator for in-memory evaluation: '' @ op_value name))
      | Some evaluate \<Rightarrow> evaluate field_value condition_value)"

section \<open>Comparison and set operators\<close>

definition equal_op :: "'o evaluation" where
  "equal_op fv cv = Inr (py_eq fv cv)"

definition not_equal_op :: "'o evaluation" where
  "not_equal_op fv cv = Inr (\<not> py_eq fv cv)"

definition order_op :: "'o host \<Rightarrow> cmp \<Rightarrow> 'o evaluation" where
  "order_op h c fv cv = (if fv = PNone then Inr False else py_cmp h c fv cv)"

definition in_op :: "'o evaluation" where
  "in_op fv cv = py_in fv cv"

definition not_in_op :: "'o evaluation" where
  "not_in_op fv cv = map_sum id Not (py_in fv cv)"

text \<open>\<^verbatim>\<open>set(value)\<close>: the elements, all of which must be hashable.\<close>

definition py_set :: "'o pyval \<Rightarrow> exn + 'o pyval list" where
  "py_set v = (case py_iter v of Inl x \<Rightarrow> Inl x | Inr xs \<Rightarrow>
     (case find (\<lambda>x. \<not> hashable x) xs of
        Some x \<Rightarrow> Inl (TypeError (''unhashable type: '' @ quoted (type_name x)))
      | None \<Rightarrow> Inr xs))"

definition all_op :: "'o evaluation" where
  "all_op fv cv =
     (if fv = PNone then Inr False
      else case py_set cv of Inl x \<Rightarrow> Inl x | Inr expected \<Rightarrow>
        (case py_set fv of Inl x \<Rightarrow> Inl x
         | Inr actual \<Rightarrow> Inr (list_all (\<lambda>e. list_ex (py_eq e) actual) expected)))"

text \<open>\<^verbatim>\<open>low, high = value\<close>.\<close>

definition unpack2 :: "'o pyval \<Rightarrow> exn + 'o pyval \<times> 'o pyval" where
  "unpack2 v = (case py_iter v of Inl x \<Rightarrow> Inl x | Inr xs \<Rightarrow>
     (case xs of [a, b] \<Rightarrow> Inr (a, b)
      | _ \<Rightarrow> Inl (ValueError ((if length xs < 2 then ''not enough'' else ''too many'') @ '' values to unpack''))))"

text \<open>\<^verbatim>\<open>low <= x <= high\<close>: the second comparison runs only if the first holds.\<close>

definition in_range :: "'o host \<Rightarrow> 'o pyval \<Rightarrow> 'o pyval \<Rightarrow> 'o pyval \<Rightarrow> exn + bool" where
  "in_range h low x high =
     (case py_cmp h Le low x of Inr True \<Rightarrow> py_cmp h Le x high | r \<Rightarrow> r)"

definition between_op :: "'o host \<Rightarrow> 'o evaluation" where
  "between_op h fv cv =
     (if fv = PNone then Inr False
      else case unpack2 cv of Inl x \<Rightarrow> Inl x | Inr (low, high) \<Rightarrow> in_range h low fv high)"

definition not_between_op :: "'o host \<Rightarrow> 'o evaluation" where
  "not_between_op h fv cv =
     (if fv = PNone then Inr False
      else case unpack2 cv of Inl x \<Rightarrow> Inl x | Inr (low, high) \<Rightarrow> map_sum id Not (in_range h low fv high))"

section \<open>String, null and full-text operators\<close>

text \<open>\<^verbatim>\<open>replace("%", ".*").replace("_", ".")\<close>.\<close>

definition sql_pattern_to_regex :: "string \<Rightarrow> string" where
  "sql_pattern_to_regex pattern =
     concat (map (\<lambda>c. if c = CHR ''%'' then ''.*'' else if c = CHR ''_'' then ''.'' else [c]) pattern)"

definition like_op :: "'o host \<Rightarrow> bool \<Rightarrow> 'o evaluation" where
  "like_op h ignore_case fv cv =
     (if fv = PNone then Inr False
      else ho_match h ignore_case (CHR ''^'' # sql_pattern_to_regex (py_str h cv) @ ''$'') (py_str h fv))"

definition not_like_op :: "'o host \<Rightarrow> 'o evaluation" where
  "not_like_op h fv cv =
     (if fv = PNone then Inr False
      else map_sum id Not
        (ho_match h False (CHR ''^'' # sql_pattern_to_regex (py_str h cv) @ ''$'') (py_str h fv)))"

text \<open>The operators that compare the text of the two values; the \<open>i\<close> variants lower both first.\<close>

definition text_op :: "'o host \<Rightarrow> (string \<Rightarrow> string) \<Rightarrow> (string \<Rightarrow> string \<Rightarrow> bool) \<Rightarrow> 'o evaluation" where
  "text_op h nf rel fv cv =
     (if fv = PNone then Inr False else Inr (rel (nf (py_str h cv)) (nf (py_str h fv))))"

definition regex_op :: "'o host \<Rightarrow> bool \<Rightarrow> 'o evaluation" where
  "regex_op h ignore_case fv cv =
     (if fv = PNone then Inr False else ho_search h ignore_case (py_str h cv) (py_str h fv))"

definition is_null_op :: "'o evaluation" where
  "is_null_op fv cv = Inr (fv = PNone)"

definition is_not_null_op :: "'o evaluation" where
  "is_not_null_op fv cv = Inr (fv \<noteq> PNone)"

definition is_empty_op :: "'o evaluation" where
  "is_empty_op fv cv = Inr (\<not> py_truthy fv)"

definition is_not_empty_op :: "'o evaluation" where
  "is_not_empty_op fv cv = Inr (py_truthy fv)"

definition fts_op :: "'o host \<Rightarrow> 'o evaluation" where
  "fts_op h fv cv =
     (if fv = PNone then Inr False
      else Inr (list_all (\<lambda>token. contains_text token (lower (py_str h fv)))
        (split_space [] (lower (py_str h cv)))))"

section \<open>JSON operators\<close>

lemma size_dict_lookup: "map_of d k = Some v \<Longrightarrow> size v < size (PDict d)"
  by (induction d) (auto split: if_splits)

lemma size_list_member: "x \<in> set xs \<Longrightarrow> size x < size (PList xs)"
  by (induction xs) auto

function (sequential) dict_contains :: "'o pyval \<Rightarrow> 'o pyval \<Rightarrow> bool" where
  "dict_contains (PDict d) (PDict e) =
     list_all (\<lambda>(k, v). case map_of d k of None \<Rightarrow> False | Some w \<Rightarrow> dict_contains w v) e"
| "dict_contains (PList hs) (PList ns) = list_all (\<lambda>n. list_ex (\<lambda>h. dict_contains h n) hs) ns"
| "dict_contains haystack needle = py_eq haystack needle"
  by pat_completeness auto
termination
  by (relation "measure (\<lambda>(h, n). size h)") (auto dest: size_dict_lookup size_list_member simp del: pyval.size)

definition json_contains_op :: "'o evaluation" where
  "json_contains_op fv cv = (if fv = PNone then Inr False else Inr (dict_contains fv cv))"

definition json_contained_by_op :: "'o evaluation" where
  "json_contained_by_op fv cv = (if fv = PNone then Inr False else Inr (dict_contains cv fv))"

definition has_key :: "'o host \<Rightarrow> (string \<times> 'o pyval) list \<Rightarrow> 'o pyval \<Rightarrow> bool" where
  "has_key h d k = (py_str h k \<in> set (dkeys d))"

definition json_has_key_op :: "'o host \<Rightarrow> 'o evaluation" where
  "json_has_key_op h fv cv = (case fv of PDict d \<Rightarrow> Inr (has_key h d cv) | _ \<Rightarrow> Inr False)"

definition keys_of :: "'o pyval \<Rightarrow> 'o pyval list" where
  "keys_of cv = (case cv of PList ks \<Rightarrow> ks | _ \<Rightarrow> [cv])"

definition json_has_any_op :: "'o host \<Rightarrow> 'o evaluation" where
  "json_has_any_op h fv cv = (case fv of PDict d \<Rightarrow> Inr (list_ex (has_key h d) (keys_of cv)) | _ \<Rightarrow> Inr False)"

definition json_has_all_op :: "'o host \<Rightarrow> 'o evaluation" where
  "json_has_all_op h fv cv = (case fv of PDict d \<Rightarrow> Inr (list_all (has_key h d) (keys_of cv)) | _ \<Rightarrow> Inr False)"

fun path_exists :: "string list \<Rightarrow> 'o pyval \<Rightarrow> bool" where
  "path_exists [] current = True"
| "path_exists (part # parts) current =
     (if part = [] then path_exists parts current
      else case current of
        PDict d \<Rightarrow> (case map_of d part of None \<Rightarrow> False | Some v \<Rightarrow> path_exists parts v)
      | _ \<Rightarrow> False)"

definition json_path_exists_op :: "'o host \<Rightarrow> 'o evaluation" where
  "json_path_exists_op h fv cv =
     (if fv = PNone then Inr False
      else let path = dropWhile (\<lambda>c. c = CHR ''.'') (dropWhile (\<lambda>c. c = CHR ''$'') (py_str h cv))
           in Inr (path_exists (split_on (CHR ''.'') path) fv))"

section \<open>The default registry\<close>

definition builtin_operators :: "'o host \<Rightarrow> 'o memory_operator list" where
  "builtin_operators h =
    [(EQ, equal_op), (NE, not_equal_op), (GT, order_op h Gt), (LT, order_op h Lt), (GE, order_op h Ge),
     (LE, order_op h Le),
     (IN, in_op), (NOT_IN, not_in_op), (ALL_OP, all_op), (BETWEEN, between_op h), (NOT_BETWEEN, not_between_op h),
     (LIKE, like_op h False), (NOT_LIKE, not_like_op h), (ILIKE, like_op h True),
     (CONTAINS, text_op h id contains_text), (ICONTAINS, text_op h lower contains_text),
     (STARTSWITH, text_op h id prefix), (ISTARTSWITH, text_op h lower prefix),
     (ENDSWITH, text_op h id suffix), (IENDSWITH, text_op h lower suffix),
     (REGEX, regex_op h False), (IREGEX, regex_op h True),
     (IS_NULL, is_null_op), (IS_NOT_NULL, is_not_null_op), (IS_EMPTY, is_empty_op), (IS_NOT_EMPTY, is_not_empty_op),
     (JSON_CONTAINS, json_contains_op), (JSON_CONTAINED_BY, json_contained_by_op),
     (JSON_HAS_KEY, json_has_key_op h), (JSON_HAS_ANY, json_has_any_op h), (JSON_HAS_ALL, json_has_all_op h),
     (JSON_PATH_EXISTS, json_path_exists_op h),
     (FTS, fts_op h), (FTS_PHRASE, text_op h lower contains_text)]"

definition build_default_registry :: "'o host \<Rightarrow> 'o memory_operator list \<Rightarrow> 'o operator_registry" where
  "build_default_registry h geometry = register_all (builtin_operators h @ geometry) []"

section \<open>Casting of condition values\<close>

text \<open>\<^verbatim>\<open>int(text)\<close>: surrounding space, a sign, digits with single underscores between them.\<close>

fun digits :: "int \<Rightarrow> bool \<Rightarrow> string \<Rightarrow> int option" where
  "digits acc after_digit [] = (if after_digit then Some acc else None)"
| "digits acc after_digit (c # cs) =
     (if CHR ''0'' \<le> c \<and> c \<le> CHR ''9'' then digits (10 * acc + (of_char c - 48)) True cs
      else if c = CHR ''_'' \<and> after_digit then digits acc False cs else None)"

definition int_of_text :: "string \<Rightarrow> int option" where
  "int_of_text s =
     (case strip s of
        [] \<Rightarrow> None
      | c # cs \<Rightarrow> if c = CHR ''-'' then map_option uminus (digits 0 False cs)
                  else if c = CHR ''+'' then digits 0 False cs else digits 0 False (c # cs))"

definition py_int :: "'o host \<Rightarrow> 'o pyval \<Rightarrow> exn + 'o pyval" where
  "py_int h v =
     (case v of
        PBool b \<Rightarrow> Inr (PInt (if b then 1 else 0))
      | PInt i \<Rightarrow> Inr (PInt i)
      | PFloat f \<Rightarrow> (case f of Finite r \<Rightarrow> Inr (PInt (if 0 \<le> r then \<lfloor>r\<rfloor> else \<lceil>r\<rceil>))
          | NaN \<Rightarrow> Inl (ValueError ''cannot convert float NaN to integer'') | _ \<Rightarrow> Inl OverflowError)
      | PStr s \<Rightarrow> (case int_of_text s of Some i \<Rightarrow> Inr (PInt i)
          | None \<Rightarrow> Inl (ValueError ''invalid literal for int() with base 10''))
      | PObj _ \<Rightarrow> (case ho_cast h ''int'' v of Inl x \<Rightarrow> Inl x | Inr (Some r) \<Rightarrow> Inr r
          | Inr None \<Rightarrow> Inl (TypeError ''int() argument''))
      | _ \<Rightarrow> Inl (TypeError ''int() argument''))"

text \<open>\<^verbatim>\<open>float(n)\<close> of an integer rounds as the conversion of its digits does, and overflows on infinity.\<close>

definition py_float :: "'o host \<Rightarrow> 'o pyval \<Rightarrow> exn + 'o pyval" where
  "py_float h v =
     (let of_int_text = (\<lambda>i. case ho_float h (show_int i) of
            Some (Finite r) \<Rightarrow> Inr (PFloat (Finite r)) | _ \<Rightarrow> Inl OverflowError)
      in case v of
        PBool b \<Rightarrow> of_int_text (if b then 1 else 0)
      | PInt i \<Rightarrow> of_int_text i
      | PFloat f \<Rightarrow> Inr (PFloat f)
      | PStr s \<Rightarrow> (case ho_float h s of Some f \<Rightarrow> Inr (PFloat f)
          | None \<Rightarrow> Inl (ValueError ''could not convert string to float''))
      | PObj _ \<Rightarrow> (case ho_cast h ''float'' v of Inl x \<Rightarrow> Inl x | Inr (Some r) \<Rightarrow> Inr r
          | Inr None \<Rightarrow> Inl (TypeError ''float() argument''))
      | _ \<Rightarrow> Inl (TypeError ''float() argument''))"

definition cast_numeric :: "'o host \<Rightarrow> 'o pyval \<Rightarrow> string \<Rightarrow> exn + 'o pyval option" where
  "cast_numeric h v vt =
     (if vt \<in> {''integer'', ''int'', ''smallinteger'', ''biginteger''} then map_sum id Some (py_int h v)
      else if vt \<in> {''float'', ''double'', ''decimal'', ''numeric''} then map_sum id Some (py_float h v)
      else Inr None)"

definition cast_boolean :: "'o pyval \<Rightarrow> bool" where
  "cast_boolean v =
     (case v of PBool b \<Rightarrow> b | PStr s \<Rightarrow> lower s \<in> {''true'', ''1'', ''yes''} | _ \<Rightarrow> py_truthy v)"

definition cast_datetime_types :: "'o host \<Rightarrow> 'o pyval \<Rightarrow> string \<Rightarrow> exn + 'o pyval option" where
  "cast_datetime_types h v vt =
     (if vt \<in> {''date'', ''datetime'', ''time'', ''interval''} then ho_cast h vt v else Inr None)"

definition cast_json :: "'o host \<Rightarrow> 'o pyval \<Rightarrow> exn + 'o pyval option" where
  "cast_json h v = (case v of PDict _ \<Rightarrow> Inr (Some v) | PList _ \<Rightarrow> Inr (Some v) | _ \<Rightarrow> ho_cast h ''json'' v)"

definition strip_char :: "char \<Rightarrow> string \<Rightarrow> string" where
  "strip_char c s = rev (dropWhile (\<lambda>x. x = c) (rev (dropWhile (\<lambda>x. x = c) s)))"

definition parse_list_value :: "'o pyval \<Rightarrow> 'o pyval list" where
  "parse_list_value v =
     (case v of
        PList xs \<Rightarrow> xs
      | PStr s \<Rightarrow>
          (let content = strip s;
               content = (if content \<noteq> [] \<and> hd content = CHR ''['' \<and> last content = CHR '']''
                          then strip (py_slice 1 (-1) content) else content)
           in if content = [] then []
              else map (\<lambda>p. PStr (strip_char (CHR 0x22) (strip_char (CHR 0x27) (strip p)))) (split_on (CHR '','') content))
      | _ \<Rightarrow> [v])"

definition infer_auto :: "'o host \<Rightarrow> string \<Rightarrow> 'o pyval" where
  "infer_auto h s =
     (case int_of_text s of Some i \<Rightarrow> PInt i | None \<Rightarrow>
       (case ho_float h s of Some f \<Rightarrow> PFloat f | None \<Rightarrow>
         if lower s \<in> {''true'', ''yes'', ''1''} then PBool True
         else if lower s \<in> {''false'', ''no'', ''0''} then PBool False
         else PStr s))"

definition cast_other_types :: "'o host \<Rightarrow> 'o pyval \<Rightarrow> string \<Rightarrow> exn + 'o pyval option" where
  "cast_other_types h v vt =
     (if vt \<in> {''uuid'', ''largebinary''} then ho_cast h vt v
      else if vt = ''json'' then cast_json h v
      else if vt = ''list'' then Inr (Some (PList (parse_list_value v)))
      else if vt = ''auto'' then Inr (Some (case v of PStr s \<Rightarrow> infer_auto h s | _ \<Rightarrow> v))
      else Inr None)"

text \<open>A result of \<^verbatim>\<open>None\<close> is no result: the next group of types is tried.\<close>

definition or_else :: "exn + 'o pyval option \<Rightarrow> exn + 'o pyval \<Rightarrow> exn + 'o pyval" where
  "or_else r k = (case r of Inl x \<Rightarrow> Inl x | Inr (Some v) \<Rightarrow> if v = PNone then k else Inr v | Inr None \<Rightarrow> k)"

definition cast_explicit :: "'o host \<Rightarrow> 'o pyval \<Rightarrow> string \<Rightarrow> exn + 'o pyval" where
  "cast_explicit h v value_type =
     (let vt = lower value_type
      in if vt \<in> {''string'', ''text'', ''str''} then Inr (PStr (py_str h v))
         else or_else (cast_numeric h v vt)
           (if vt \<in> {''boolean'', ''bool''} then Inr (PBool (cast_boolean v))
            else or_else (cast_datetime_types h v vt) (or_else (cast_other_types h v vt) (Inr v))))"

text \<open>
  \<^verbatim>\<open>cast_value(value, value_type)\<close> with a type; the type comes from a specification dictionary and need not
  be a string.  Failed conversions keep the value.
\<close>

fun cast_value :: "'o host \<Rightarrow> 'o pyval \<Rightarrow> 'o pyval \<Rightarrow> exn + 'o pyval" where
  "cast_value h value_type (PList xs) = map_sum id PList (traverse (cast_value h value_type) xs)"
| "cast_value h value_type v =
     (case value_type of
        PStr vt \<Rightarrow> (case cast_explicit h v vt of
            Inl x \<Rightarrow> (case x of ValueError _ \<Rightarrow> Inr v | TypeError _ \<Rightarrow> Inr v | _ \<Rightarrow> Inl x)
          | Inr r \<Rightarrow> Inr r)
      | _ \<Rightarrow> Inl (AttributeError ''lower''))"

end
