(* ===== verification/Specification.thy ===== *)
theory Specification
  imports SpecOperators
begin

text \<open>
  The specification trees of the specifications package: base.py (and, or, not), ast.py (attribute
  specifications, \<^verbatim>\<open>SpecificationFactory\<close> with validation and building from dictionaries), builder.py and
  query_options.py.  The memory operator registry that every leaf carries is an argument of evaluation.
  \<open>SpecValidationError\<close> is the package's own \<^verbatim>\<open>ValidationError\<close> (message and path).
\<close>

section \<open>Trees and evaluation\<close>

datatype 'o spec =
    AttributeSpecification (spec_attr: "'o pyval") (spec_op: spec_operator) (spec_val: "'o pyval")
  | AndSpecification "'o spec list"
  | OrSpecification "'o spec list"
  | NotSpecification "'o spec"

text \<open>\<^verbatim>\<open>d.get(key)\<close>.\<close>

definition dget :: "(string \<times> 'o pyval) list \<Rightarrow> string \<Rightarrow> 'o pyval" where
  "dget d k = (case map_of d k of None \<Rightarrow> PNone | Some v \<Rightarrow> v)"

function resolve_parts :: "'o host \<Rightarrow> string list \<Rightarrow> 'o pyval \<Rightarrow> 'o pyval" where
  "resolve_parts h [] obj = obj"
| "resolve_parts h (part # parts) obj =
     (case obj of
        PNone \<Rightarrow> PNone
      | PList items \<Rightarrow> PList (map (resolve_parts h [part]) items)
      | PDict d \<Rightarrow> resolve_parts h parts (dget d part)
      | _ \<Rightarrow> resolve_parts h parts (ho_getattr h obj part))"
  by pat_completeness auto
termination
  by (relation "measures [\<lambda>(h, ps, obj). length ps, \<lambda>(h, ps, obj). size obj]")
    (auto dest: size_list_member simp del: pyval.size)

definition resolve_field :: "'o host \<Rightarrow> 'o pyval \<Rightarrow> string \<Rightarrow> 'o pyval" where
  "resolve_field h obj attr_path = resolve_parts h (split_on (CHR ''.'') attr_path) obj"

text \<open>\<^verbatim>\<open>all\<close> and \<^verbatim>\<open>any\<close> over a generator: they stop at the first result that decides, or raises.\<close>

fun all_of :: "(exn + bool) list \<Rightarrow> exn + bool" where
  "all_of [] = Inr True"
| "all_of (r # rs) = (case r of Inl x \<Rightarrow> Inl x | Inr b \<Rightarrow> if b then all_of rs else Inr False)"

fun any_of :: "(exn + bool) list \<Rightarrow> exn + bool" where
  "any_of [] = Inr False"
| "any_of (r # rs) = (case r of Inl x \<Rightarrow> Inl x | Inr b \<Rightarrow> if b then Inr True else any_of rs)"

primrec is_satisfied_by ::
  "'o host \<Rightarrow> 'o operator_registry \<Rightarrow> 'o pyval \<Rightarrow> 'o spec \<Rightarrow> exn + bool" where
  "is_satisfied_by h reg candidate (AttributeSpecification attr op val) =
     (case attr of
        PStr path \<Rightarrow> reg_evaluate reg op (resolve_field h candidate path) val
      | _ \<Rightarrow> Inl (AttributeError ''split''))"
| "is_satisfied_by h reg candidate (AndSpecification specs) = all_of (map (is_satisfied_by h reg candidate) specs)"
| "is_satisfied_by h reg candidate (OrSpecification specs) = any_of (map (is_satisfied_by h reg candidate) specs)"
| "is_satisfied_by h reg candidate (NotSpecification s) = map_sum id Not (is_satisfied_by h reg candidate s)"

primrec spec_to_dict :: "'o spec \<Rightarrow> 'o pyval" where
  "spec_to_dict (AttributeSpecification attr op val) =
     PDict [(''op'', PStr (op_value op)), (''attr'', attr), (''val'', val)]"
| "spec_to_dict (AndSpecification specs) =
     PDict [(''op'', PStr ''and''), (''conditions'', PList (map spec_to_dict specs))]"
| "spec_to_dict (OrSpecification specs) =
     PDict [(''op'', PStr ''or''), (''conditions'', PList (map spec_to_dict specs))]"
| "spec_to_dict (NotSpecification s) =
     PDict [(''op'', PStr ''not''), (''conditions'', PList [spec_to_dict s])]"

section \<open>Validation\<close>

definition condition_path :: "string \<Rightarrow> nat \<Rightarrow> string" where
  "condition_path path idx = path @ ''.conditions['' @ show_nat idx @ '']''"

definition validate_leaf_node ::
  "string list option \<Rightarrow> string \<Rightarrow> string \<Rightarrow> (string \<times> 'o pyval) list \<Rightarrow> exn + unit" where
  "validate_leaf_node allowed_fields path op_lower d =
     (if op_lower \<notin> set valid_operators then Inl (OperatorNotFoundError op_lower)
      else case dget d ''attr'' of
        PStr attr \<Rightarrow>
          if attr = [] then Inl (SpecValidationError ''Leaf specification missing attr'' path)
          else (case allowed_fields of
              None \<Rightarrow> Inr ()
            | Some names \<Rightarrow>
                if attr \<in> set names then Inr ()
                else Inl (SpecValidationError (''Field '' @ quoted attr @ '' is not in the allowed fields list'') path))
      | _ \<Rightarrow> Inl (SpecValidationError ''Leaf specification missing attr'' path))"

lemma size_dget: "dget d k = v \<Longrightarrow> v \<noteq> PNone \<Longrightarrow> size v < size (PDict d)"
  by (auto simp: dget_def simp del: pyval.size split: option.splits dest: size_dict_lookup)

lemma size_dget_child:
  "dget d k = PList cs \<Longrightarrow> c \<in> set cs \<Longrightarrow> size c < size (PDict d)"
  using size_dget [of d k "PList cs"] size_list_member [of c cs] by (simp del: pyval.size)

lemma size_dget_nth: "dget d k = PList cs \<Longrightarrow> i < length cs \<Longrightarrow> size (cs ! i) < size (PDict d)"
  by (rule size_dget_child) auto

text \<open>\<open>validate_node\<close> contains \<^verbatim>\<open>_validate_logical_node\<close>, with which it is recursive.\<close>

function validate_node :: "string list option \<Rightarrow> string \<Rightarrow> 'o pyval \<Rightarrow> exn + unit" where
  "validate_node allowed path data =
     (case data of
        PDict d \<Rightarrow>
          (case dget d ''op'' of
             PStr op_str \<Rightarrow>
               if op_str = [] then Inl (SpecValidationError ''Missing or empty op key'' path)
               else if lower op_str \<in> set logical_operators then
                 (if \<not> py_truthy (dget d ''conditions'') \<and> map_of d ''condition'' = None
                  then Inl (SpecValidationError (''Logical operator '' @ quoted op_str @ '' requires conditions list'') path)
                  else case dget d ''conditions'' of
                    PNone \<Rightarrow>
                      (case map_of d ''condition'' of
                         None \<Rightarrow> Inr ()
                       | Some c \<Rightarrow> validate_node allowed (path @ ''.condition'') c)
                  | PList children \<Rightarrow>
                      (case traverse (\<lambda>(idx, child). validate_node allowed (condition_path path idx) child)
                         (enumerate 0 children) of
                         Inl x \<Rightarrow> Inl x | Inr _ \<Rightarrow> Inr ())
                  | _ \<Rightarrow> Inl (SpecValidationError ''conditions must be a list'' path))
               else validate_leaf_node allowed path (lower op_str) d
           | _ \<Rightarrow> Inl (SpecValidationError ''Missing or empty op key'' path))
      | _ \<Rightarrow> Inl (SpecValidationError (''Expected a dict, got '' @ type_name data) path))"
  by pat_completeness auto
termination
  by (relation "measure (\<lambda>(a, p, data). size data)")
    (auto dest: size_dict_lookup size_dget_nth simp: in_set_enumerate_eq simp del: pyval.size)

definition collect_leaf_errors ::
  "string list option \<Rightarrow> string \<Rightarrow> string \<Rightarrow> (string \<times> 'o pyval) list \<Rightarrow> string list" where
  "collect_leaf_errors allowed_fields path op_lower d =
     (if op_lower \<notin> set valid_operators then [path @ '': unknown operator '' @ quoted op_lower] else [])
     @ (let missing = [path @ '': missing attr'']
        in case dget d ''attr'' of
             PStr attr \<Rightarrow>
               if attr = [] then missing
               else (case allowed_fields of
                   None \<Rightarrow> []
                 | Some names \<Rightarrow> if attr \<in> set names then [] else [path @ '': field '' @ quoted attr @ '' not allowed''])
           | _ \<Rightarrow> missing)"

function collect_spec_errors :: "string list option \<Rightarrow> string \<Rightarrow> 'o pyval \<Rightarrow> string list" where
  "collect_spec_errors allowed path data =
     (case data of
        PDict d \<Rightarrow>
          (case dget d ''op'' of
             PStr op_str \<Rightarrow>
               if op_str = [] then [path @ '': missing or empty op key'']
               else if lower op_str \<in> set logical_operators then
                 (if \<not> py_truthy (dget d ''conditions'') \<and> map_of d ''condition'' = None
                  then [path @ '': logical '' @ quoted op_str @ '' requires conditions'']
                  else case dget d ''conditions'' of
                    PNone \<Rightarrow>
                      (case map_of d ''condition'' of
                         None \<Rightarrow> []
                       | Some c \<Rightarrow> collect_spec_errors allowed (path @ ''.condition'') c)
                  | PList children \<Rightarrow>
                      concat (map (\<lambda>(idx, child). collect_spec_errors allowed (condition_path path idx) child)
                        (enumerate 0 children))
                  | _ \<Rightarrow> [path @ '': conditions must be a list''])
               else collect_leaf_errors allowed path (lower op_str) d
           | _ \<Rightarrow> [path @ '': missing or empty op key''])
      | _ \<Rightarrow> [path @ '': expected dict, got '' @ type_name data])"
  by pat_completeness auto
termination
  by (relation "measure (\<lambda>(a, p, data). size data)")
    (auto dest: size_dict_lookup size_dget_nth simp: in_set_enumerate_eq simp del: pyval.size)

definition validate_spec :: "string list option \<Rightarrow> 'o pyval \<Rightarrow> string list" where
  "validate_spec allowed data = collect_spec_errors allowed ''<root>'' data"

section \<open>Building\<close>

text \<open>\<^verbatim>\<open>conditions[0]\<close>.\<close>

definition first_item :: "'o pyval \<Rightarrow> exn + 'o pyval" where
  "first_item v =
     (case v of
        PList (x # _) \<Rightarrow> Inr x
      | PList [] \<Rightarrow> Inl IndexError
      | PStr (c # _) \<Rightarrow> Inr (PStr [c])
      | PStr [] \<Rightarrow> Inl IndexError
      | PDict _ \<Rightarrow> Inl (KeyError ''0'')
      | _ \<Rightarrow> Inl (TypeError (quoted (type_name v) @ '' object is not subscriptable'')))"

text \<open>\<^verbatim>\<open>data.get("conditions", [])\<close>: the default counts only if the key is absent.\<close>

definition conditions_of :: "(string \<times> 'o pyval) list \<Rightarrow> 'o pyval" where
  "conditions_of d = (case map_of d ''conditions'' of None \<Rightarrow> PList [] | Some v \<Rightarrow> v)"

definition build_leaf ::
  "'o host \<Rightarrow> string \<Rightarrow> (string \<times> 'o pyval) list \<Rightarrow> exn + 'o spec" where
  "build_leaf h op_str d =
     (case map_of d ''attr'' of
        None \<Rightarrow> Inl (KeyError ''attr'')
      | Some attr \<Rightarrow>
          (case (if dget d ''value_type'' = PNone then Inr (dget d ''val'')
                 else cast_value h (dget d ''value_type'') (dget d ''val'')) of
             Inl x \<Rightarrow> Inl x
           | Inr val \<Rightarrow>
               (case operator_of op_str of Inl x \<Rightarrow> Inl x | Inr op \<Rightarrow> Inr (AttributeSpecification attr op val))))"

definition no_attr :: "'o pyval \<Rightarrow> string \<Rightarrow> exn" where
  "no_attr v name = AttributeError (quoted (type_name v) @ '' object has no attribute '' @ quoted name)"

lemma size_conditions_of:
  assumes "conditions_of d = PList cs" "c \<in> set cs"
  shows "size c < size (PDict d)"
proof -
  have "dget d ''conditions'' = PList cs"
    using assms by (auto simp: conditions_of_def dget_def split: option.splits)
  then show ?thesis using assms(2) by (rule size_dget_child)
qed

text \<open>
  The children of a logical node: a list is built element by element; iterating a string or a dictionary
  gives strings, on which \<^verbatim>\<open>.get\<close> fails.
\<close>

function build_spec :: "'o host \<Rightarrow> 'o pyval \<Rightarrow> exn + 'o spec" where
  "build_spec h data =
     (case data of
        PDict d \<Rightarrow>
          (case (case map_of d ''op'' of None \<Rightarrow> PStr [] | Some v \<Rightarrow> v) of
             PStr s \<Rightarrow>
               if lower s = ''and'' \<or> lower s = ''or'' then
                 map_sum id (if lower s = ''and'' then AndSpecification else OrSpecification)
                   (case conditions_of d of
                      PList cs \<Rightarrow> traverse (\<lambda>c. build_spec h c) cs
                    | v \<Rightarrow> (case py_iter v of Inl x \<Rightarrow> Inl x
                        | Inr [] \<Rightarrow> Inr [] | Inr (c # _) \<Rightarrow> Inl (no_attr c ''get'')))
               else if lower s = ''not'' then
                 (if \<not> py_truthy (conditions_of d) \<and> map_of d ''condition'' \<noteq> None
                  then map_sum id NotSpecification (case map_of d ''condition'' of
                      Some c \<Rightarrow> build_spec h c | None \<Rightarrow> Inl (KeyError ''condition''))
                  else case conditions_of d of
                      PList (c # _) \<Rightarrow> map_sum id NotSpecification (build_spec h c)
                    | v \<Rightarrow> (case first_item v of Inl x \<Rightarrow> Inl x | Inr c \<Rightarrow> Inl (no_attr c ''get'')))
               else build_leaf h (lower s) d
           | v \<Rightarrow> Inl (no_attr v ''lower''))
      | _ \<Rightarrow> Inl (no_attr data ''get''))"
  by pat_completeness auto
termination
  by (relation "measure (\<lambda>(h, data). size data)")
    (auto dest: size_dict_lookup size_conditions_of simp del: pyval.size)

definition from_dict :: "'o host \<Rightarrow> string list option \<Rightarrow> 'o pyval \<Rightarrow> exn + 'o spec" where
  "from_dict h allowed data =
     (case validate_node allowed ''<root>'' data of Inl x \<Rightarrow> Inl x | Inr _ \<Rightarrow> build_spec h data)"

text \<open>\<open>loads\<close> is \<^verbatim>\<open>json.loads\<close>; \<^const>\<open>None\<close> stands for \<^verbatim>\<open>JSONDecodeError\<close>.\<close>

definition from_json :: "'o host \<Rightarrow> (string \<Rightarrow> 'o pyval option) \<Rightarrow> string list option \<Rightarrow> string \<Rightarrow> exn + 'o spec" where
  "from_json h loads allowed text =
     (case loads text of
        None \<Rightarrow> Inl (SpecValidationError ''Invalid JSON'' ''<root>'')
      | Some (PDict d) \<Rightarrow> from_dict h allowed (PDict d)
      | Some _ \<Rightarrow> Inl (SpecValidationError ''Top-level JSON value must be an object'' ''<root>''))"

declare validate_node.simps [simp del] collect_spec_errors.simps [simp del] build_spec.simps [simp del]

section \<open>The builder\<close>

text \<open>The head of \<open>sb_stack\<close> is the group that is open; its conditions come after the operator.\<close>

record 'o spec_builder =
  sb_specs :: "'o spec list"
  sb_stack :: "(string \<times> 'o spec list) list"

definition new_builder :: "'o spec_builder" where
  "new_builder = \<lparr>sb_specs = [], sb_stack = []\<rparr>"

definition append_current :: "'o spec \<Rightarrow> 'o spec_builder \<Rightarrow> 'o spec_builder" where
  "append_current s b =
     (case sb_stack b of
        [] \<Rightarrow> b\<lparr>sb_specs := sb_specs b @ [s]\<rparr>
      | (group_op, specs) # stack \<Rightarrow> b\<lparr>sb_stack := (group_op, specs @ [s]) # stack\<rparr>)"

definition sb_where :: "string \<Rightarrow> string \<Rightarrow> 'o pyval \<Rightarrow> 'o spec_builder \<Rightarrow> exn + 'o spec_builder" where
  "sb_where attr op val b =
     (case operator_of op of
        Inl x \<Rightarrow> Inl x
      | Inr m \<Rightarrow> Inr (append_current (AttributeSpecification (PStr attr) m val) b))"

definition sb_add :: "'o spec \<Rightarrow> 'o spec_builder \<Rightarrow> 'o spec_builder" where
  "sb_add s b = append_current s b"

definition open_group :: "string \<Rightarrow> 'o spec_builder \<Rightarrow> 'o spec_builder" where
  "open_group group_op b = b\<lparr>sb_stack := (group_op, []) # sb_stack b\<rparr>"

definition combine_specs :: "string \<Rightarrow> 'o spec list \<Rightarrow> exn + 'o spec" where
  "combine_specs op specs =
     (case specs of
        [] \<Rightarrow> Inl (ValueError ''Cannot create an empty group'')
      | s # rest \<Rightarrow>
          if op = ''and'' then Inr (if rest = [] then s else AndSpecification specs)
          else if op = ''or'' then Inr (if rest = [] then s else OrSpecification specs)
          else if op = ''not'' then
            (if rest \<noteq> [] then Inl (ValueError ''NOT group must contain exactly one condition'')
             else Inr (NotSpecification s))
          else Inl (ValueError (''Unknown group operator: '' @ op)))"

text \<open>A group that cannot be combined has been taken off the stack when the error is raised.\<close>

definition end_group :: "'o spec_builder \<Rightarrow> 'o spec_builder \<times> exn option" where
  "end_group b =
     (case sb_stack b of
        [] \<Rightarrow> (b, Some (ValueError ''No open group to close''))
      | (group_op, specs) # stack \<Rightarrow>
          (let b = b\<lparr>sb_stack := stack\<rparr>
           in case combine_specs group_op specs of
                Inl x \<Rightarrow> (b, Some x)
              | Inr s \<Rightarrow> (append_current s b, None)))"

definition sb_build :: "'o spec_builder \<Rightarrow> exn + 'o spec" where
  "sb_build b =
     (if sb_stack b \<noteq> [] then Inl (ValueError (show_nat (length (sb_stack b)) @ '' group(s) still open''))
      else if sb_specs b = [] then Inl (ValueError ''No conditions added to builder'')
      else combine_specs ''and'' (sb_specs b))"

definition sb_reset :: "'o spec_builder \<Rightarrow> 'o spec_builder" where
  "sb_reset b = b\<lparr>sb_specs := [], sb_stack := []\<rparr>"

section \<open>Query options\<close>

record 'o query_options =
  qo_specification :: "'o spec option"
  qo_limit :: "int option"
  qo_offset :: "int option"
  qo_order_by :: "string list"
  qo_distinct :: bool
  qo_group_by :: "string list"
  qo_select_fields :: "string list"

definition new_options :: "'o query_options" where
  "new_options = \<lparr>qo_specification = None, qo_limit = None, qo_offset = None, qo_order_by = [],
     qo_distinct = False, qo_group_by = [], qo_select_fields = []\<rparr>"

definition with_specification :: "'o spec \<Rightarrow> 'o query_options \<Rightarrow> 'o query_options" where
  "with_specification s q = q\<lparr>qo_specification := Some s\<rparr>"

definition or_old :: "'a option \<Rightarrow> 'a option \<Rightarrow> 'a option" where
  "or_old new old = (case new of None \<Rightarrow> old | Some _ \<Rightarrow> new)"

definition with_pagination :: "int option \<Rightarrow> int option \<Rightarrow> 'o query_options \<Rightarrow> 'o query_options" where
  "with_pagination limit offset q =
     q\<lparr>qo_limit := or_old limit (qo_limit q), qo_offset := or_old offset (qo_offset q)\<rparr>"

definition with_ordering :: "string list \<Rightarrow> 'o query_options \<Rightarrow> 'o query_options" where
  "with_ordering names q = q\<lparr>qo_order_by := names\<rparr>"

definition with_select_fields :: "string list \<Rightarrow> 'o query_options \<Rightarrow> 'o query_options" where
  "with_select_fields names q = q\<lparr>qo_select_fields := names\<rparr>"

definition with_distinct :: "bool \<Rightarrow> 'o query_options \<Rightarrow> 'o query_options" where
  "with_distinct d q = q\<lparr>qo_distinct := d\<rparr>"

definition with_group_by :: "string list \<Rightarrow> 'o query_options \<Rightarrow> 'o query_options" where
  "with_group_by names q = q\<lparr>qo_group_by := names\<rparr>"

definition merge_options :: "'o query_options \<Rightarrow> 'o query_options \<Rightarrow> 'o query_options" where
  "merge_options q other =
     \<lparr>qo_specification =
        (case qo_specification other of
           None \<Rightarrow> qo_specification q
         | Some t \<Rightarrow> Some (case qo_specification q of None \<Rightarrow> t | Some s \<Rightarrow> AndSpecification [s, t])),
      qo_limit = or_old (qo_limit other) (qo_limit q),
      qo_offset = or_old (qo_offset other) (qo_offset q),
      qo_order_by = qo_order_by q @ qo_order_by other,
      qo_distinct = (qo_distinct other \<or> qo_distinct q),
      qo_group_by = qo_group_by q @ qo_group_by other,
      qo_select_fields = qo_select_fields q @ qo_select_fields other\<rparr>"

definition names_entry :: "string \<Rightarrow> string list \<Rightarrow> (string \<times> 'o pyval) list" where
  "names_entry key names = (if names = [] then [] else [(key, PList (map PStr names))])"

definition opt_entry :: "string \<Rightarrow> 'o pyval option \<Rightarrow> (string \<times> 'o pyval) list" where
  "opt_entry key v = (case v of None \<Rightarrow> [] | Some v \<Rightarrow> [(key, v)])"

definition options_to_dict :: "'o query_options \<Rightarrow> (string \<times> 'o pyval) list" where
  "options_to_dict q =
     opt_entry ''specification'' (map_option spec_to_dict (qo_specification q))
     @ opt_entry ''limit'' (map_option PInt (qo_limit q))
     @ opt_entry ''offset'' (map_option PInt (qo_offset q))
     @ names_entry ''order_by'' (qo_order_by q)
     @ (if qo_distinct q then [(''distinct'', PBool True)] else [])
     @ names_entry ''group_by'' (qo_group_by q)
     @ names_entry ''select_fields'' (qo_select_fields q)"

section \<open>Operators as values\<close>

lemma op_value_simps [simp]:
  "op_value EQ = ''=''" "op_value AND_OP = ''and''" "op_value OR_OP = ''or''" "op_value NOT_OP = ''not''"
  by (simp_all add: op_value_def operator_values_def)

lemma operator_table:
  "distinct (map snd operator_values)"
  "list_all (\<lambda>v. lower v = v \<and> v \<noteq> []) (map snd operator_values)"
  by code_simp+

lemma operator_listed: "(m, op_value m) \<in> set operator_values"
  by (cases m) (simp_all add: op_value_def operator_values_def)

lemma op_value_facts [simp]:
  "lower (op_value m) = op_value m" "op_value m \<noteq> []" "op_value m \<in> set valid_operators"
  using operator_table(2) operator_listed [of m] by (force simp: list_all_iff valid_operators_def)+

lemma find_unique:
  "distinct (map snd es) \<Longrightarrow> (m, v) \<in> set es \<Longrightarrow> find (\<lambda>e. snd e = v) es = Some (m, v)"
  by (induction es) (auto simp: image_iff)

lemma operator_of_value [simp]: "operator_of (op_value m) = Inr m"
  using find_unique [OF operator_table(1) operator_listed] by (simp add: operator_of_def)

lemma op_value_inj: "op_value m = op_value n \<longleftrightarrow> m = n"
  by (metis operator_of_value sum.inject(2))

lemma op_value_logical: "op_value m \<in> set logical_operators \<longleftrightarrow> m \<in> {AND_OP, OR_OP, NOT_OP}"
  using op_value_inj [of m AND_OP] op_value_inj [of m OR_OP] op_value_inj [of m NOT_OP]
  by (auto simp: logical_operators_def)

section \<open>Algebra of specifications\<close>

lemma not_all_of: "map_sum id Not (all_of rs) = any_of (map (map_sum id Not) rs)"
  by (induction rs) (auto split: sum.splits)

lemma not_any_of: "map_sum id Not (any_of rs) = all_of (map (map_sum id Not) rs)"
  by (induction rs) (auto split: sum.splits)

lemma all_of_append: "all_of (rs @ qs) = (case all_of rs of Inr True \<Rightarrow> all_of qs | r \<Rightarrow> r)"
  by (induction rs) (auto split: sum.splits bool.splits)

lemma any_of_append: "any_of (rs @ qs) = (case any_of rs of Inr False \<Rightarrow> any_of qs | r \<Rightarrow> r)"
  by (induction rs) (auto split: sum.splits bool.splits)

lemma not_not_result: "map_sum id Not (map_sum id Not r) = r"
  by (cases r) auto

text \<open>
  Specifications obey the laws of Boolean algebra exactly, exceptions of leaves and the order of
  evaluation included: De Morgan's laws, double negation, and the flattening of nested conjunctions and
  disjunctions.
\<close>

theorem specification_algebra:
  "is_satisfied_by h reg x (NotSpecification (AndSpecification ss)) =
     is_satisfied_by h reg x (OrSpecification (map NotSpecification ss))
   \<and> is_satisfied_by h reg x (NotSpecification (OrSpecification ss)) =
     is_satisfied_by h reg x (AndSpecification (map NotSpecification ss))
   \<and> is_satisfied_by h reg x (NotSpecification (NotSpecification s)) = is_satisfied_by h reg x s
   \<and> is_satisfied_by h reg x (AndSpecification (ss @ AndSpecification ts # us)) =
     is_satisfied_by h reg x (AndSpecification (ss @ ts @ us))
   \<and> is_satisfied_by h reg x (OrSpecification (ss @ OrSpecification ts # us)) =
     is_satisfied_by h reg x (OrSpecification (ss @ ts @ us))"
  by (simp add: not_all_of not_any_of comp_def not_not_result all_of_append any_of_append
      split: sum.splits bool.splits)

section \<open>Round trip through dictionaries\<close>

definition field_allowed :: "string list option \<Rightarrow> string \<Rightarrow> bool" where
  "field_allowed allowed f = (case allowed of None \<Rightarrow> True | Some names \<Rightarrow> f \<in> set names)"

text \<open>Trees that a client can write: groups are not empty, leaves have a comparison operator and a field.\<close>

primrec spec_ok :: "string list option \<Rightarrow> 'o spec \<Rightarrow> bool" where
  "spec_ok allowed (AttributeSpecification attr op val) =
     ((case attr of PStr f \<Rightarrow> f \<noteq> [] \<and> field_allowed allowed f | _ \<Rightarrow> False) \<and> op \<notin> {AND_OP, OR_OP, NOT_OP})"
| "spec_ok allowed (AndSpecification specs) = (specs \<noteq> [] \<and> list_all id (map (spec_ok allowed) specs))"
| "spec_ok allowed (OrSpecification specs) = (specs \<noteq> [] \<and> list_all id (map (spec_ok allowed) specs))"
| "spec_ok allowed (NotSpecification s) = spec_ok allowed s"

lemma dget_simps [simp]: "dget [] k = PNone" "dget ((k', v) # d) k = (if k = k' then v else dget d k)"
  by (simp_all add: dget_def)

lemma lower_logical [simp]: "lower ''and'' = ''and''" "lower ''or'' = ''or''" "lower ''not'' = ''not''"
  by code_simp+

lemma logical_members [simp]:
  "''and'' \<in> set logical_operators" "''or'' \<in> set logical_operators" "''not'' \<in> set logical_operators"
  by (simp_all add: logical_operators_def)

lemma traverse_unit_ok:
  "(case traverse f xs of Inl x \<Rightarrow> Inl x | Inr _ \<Rightarrow> Inr ()) = Inr () \<longleftrightarrow> (\<forall>x \<in> set xs. f x = Inr ())"
  for f :: "'a \<Rightarrow> exn + unit"
  by (induction xs) (auto split: sum.splits)

lemma validate_spec_to_dict: "spec_ok allowed s \<Longrightarrow> validate_node allowed path (spec_to_dict s) = Inr ()"
proof (induction s arbitrary: path)
  case (AttributeSpecification attr op val)
  then show ?case
    by (auto simp: validate_node.simps op_value_logical validate_leaf_node_def field_allowed_def
        split: pyval.splits option.splits)
next
  case (AndSpecification specs)
  then have "validate_node allowed p (spec_to_dict s) = Inr ()" if "s \<in> set specs" for p s
    using that by (auto simp: list_all_iff)
  then show ?case using AndSpecification.prems
    by (subst validate_node.simps) (auto simp: traverse_unit_ok in_set_enumerate_eq)
next
  case (OrSpecification specs)
  then have "validate_node allowed p (spec_to_dict s) = Inr ()" if "s \<in> set specs" for p s
    using that by (auto simp: list_all_iff)
  then show ?case using OrSpecification.prems
    by (subst validate_node.simps) (auto simp: traverse_unit_ok in_set_enumerate_eq)
next
  case (NotSpecification s)
  then show ?case by (subst validate_node.simps) simp
qed

lemma build_spec_to_dict: "spec_ok allowed s \<Longrightarrow> build_spec h (spec_to_dict s) = Inr s"
proof (induction s)
  case (AttributeSpecification attr op val)
  then have "op_value op \<noteq> ''and'' \<and> op_value op \<noteq> ''or'' \<and> op_value op \<noteq> ''not''"
    using op_value_logical [of op] by (auto simp: logical_operators_def)
  then show ?case by (simp add: build_spec.simps build_leaf_def)
next
  case (AndSpecification specs)
  then have "traverse (\<lambda>s. build_spec h (spec_to_dict s)) specs = Inr (map id specs)"
    by (intro traverse_all_Inr) (auto simp: list_all_iff)
  then show ?case by (subst build_spec.simps) (simp add: conditions_of_def)
next
  case (OrSpecification specs)
  then have "traverse (\<lambda>s. build_spec h (spec_to_dict s)) specs = Inr (map id specs)"
    by (intro traverse_all_Inr) (auto simp: list_all_iff)
  then show ?case by (subst build_spec.simps) (simp add: conditions_of_def)
next
  case (NotSpecification s)
  then show ?case by (subst build_spec.simps) (simp add: conditions_of_def)
qed

text \<open>
  C30: Specifications survive transport: a tree of non-empty groups over allowed fields that is written
  to a dictionary passes validation and is rebuilt exactly.
\<close>

theorem specification_roundtrip:
  "spec_ok allowed s \<Longrightarrow> from_dict h allowed (spec_to_dict s) = Inr s"
  by (simp add: from_dict_def validate_spec_to_dict build_spec_to_dict)

definition ex_host :: "unit host" where
  "ex_host = \<lparr>ho_getattr = (\<lambda>_ _. PNone), ho_cmp = (\<lambda>_ _ _. None), ho_str = (\<lambda>_. []), ho_search = (\<lambda>_ _ _. Inr False),
     ho_match = (\<lambda>_ _ _. Inr False), ho_float = (\<lambda>_. None), ho_cast = (\<lambda>_ _. Inr None)\<rparr>"

theorem specification_roundtrip_witness:
  "from_dict ex_host (Some [''age'', ''name'']) (spec_to_dict (AndSpecification
      [AttributeSpecification (PStr ''age'') GE (PInt 18),
       NotSpecification (AttributeSpecification (PStr ''name'') IS_NULL PNone)])) =
   Inr (AndSpecification
      [AttributeSpecification (PStr ''age'') GE (PInt 18),
       NotSpecification (AttributeSpecification (PStr ''name'') IS_NULL PNone)])"
  by (rule specification_roundtrip) (simp add: field_allowed_def)

section \<open>Fail-fast validation and error collection\<close>

lemma leaf_validators_agree:
  "collect_leaf_errors allowed path op d = [] \<longleftrightarrow> validate_leaf_node allowed path op d = Inr ()"
  by (cases "dget d ''attr''") (auto simp: validate_leaf_node_def collect_leaf_errors_def Let_def split: option.splits)

text \<open>
  The two validators agree: \<^verbatim>\<open>validate\<close> reports no error exactly for the data that the fail-fast
  validation of \<^verbatim>\<open>from_dict\<close> accepts.
\<close>

theorem validators_agree:
  "validate_spec allowed data = [] \<longleftrightarrow> validate_node allowed ''<root>'' data = Inr ()"
proof -
  have "collect_spec_errors allowed path data = [] \<longleftrightarrow> validate_node allowed path data = Inr ()" for path
  proof (induction allowed path data rule: validate_node.induct)
    case (1 allowed path data)
    show ?case
    proof (cases data)
      case (PDict d)
      show ?thesis
      proof (cases "dget d ''op''")
        case (PStr s)
        show ?thesis
        proof (cases "s = [] \<or> lower s \<notin> set logical_operators \<or>
            \<not> py_truthy (dget d ''conditions'') \<and> map_of d ''condition'' = None")
          case True
          then show ?thesis
            by (elim disjE; simp add: validate_node.simps [of _ _ "PDict d"] collect_spec_errors.simps [of _ _ "PDict d"]
                PDict PStr leaf_validators_agree)
        next
          case False
          then have ok: "s \<noteq> []" "lower s \<in> set logical_operators"
            "\<not> (\<not> py_truthy (dget d ''conditions'') \<and> map_of d ''condition'' = None)" by blast+
          note IH = 1 [OF PDict PStr ok]
          show ?thesis
          proof (cases "dget d ''conditions''")
            case PNone
            then obtain c where "map_of d ''condition'' = Some c" using ok(3) by auto
            with PNone show ?thesis
              using IH(1) by (simp add: validate_node.simps [of _ _ "PDict d"] collect_spec_errors.simps [of _ _ "PDict d"] PDict PStr ok)
          next
            case (PList cs)
            have "collect_spec_errors allowed (condition_path path i) c = [] \<longleftrightarrow>
                validate_node allowed (condition_path path i) c = Inr ()" if "(i, c) \<in> set (enumerate 0 cs)" for i c
              using IH(2) [OF PList that] by simp
            then show ?thesis
              using ok PList by (auto simp: validate_node.simps [of _ _ "PDict d"] collect_spec_errors.simps [of _ _ "PDict d"]
                  PDict PStr traverse_unit_ok simp del: in_set_enumerate_eq)
          qed (use ok in \<open>simp_all add: validate_node.simps [of _ _ "PDict d"] collect_spec_errors.simps [of _ _ "PDict d"] PDict PStr\<close>)
        qed
      qed (simp_all add: validate_node.simps [of _ _ "PDict d"] collect_spec_errors.simps [of _ _ "PDict d"] PDict)
    qed (simp_all add: validate_node.simps collect_spec_errors.simps)
  qed
  then show ?thesis by (simp add: validate_spec_def)
qed

end
