(* ===== verification/SpecLaws.thy ===== *)
theory SpecLaws
  imports Specification
begin

text \<open>
  Theorems on the specifications package that need more preparation: what the field whitelist of
  \<^verbatim>\<open>from_dict\<close> guarantees and where it does not apply, the trees the fluent builder makes, JSON
  containment, and missing values under the default operators.
\<close>

section \<open>The field whitelist\<close>

primrec spec_fields :: "'o spec \<Rightarrow> 'o pyval set" where
  "spec_fields (AttributeSpecification attr op val) = {attr}"
| "spec_fields (AndSpecification specs) = \<Union> (set (map spec_fields specs))"
| "spec_fields (OrSpecification specs) = \<Union> (set (map spec_fields specs))"
| "spec_fields (NotSpecification s) = spec_fields s"

text \<open>The nodes of a specification dictionary.\<close>

inductive subnode :: "'o pyval \<Rightarrow> 'o pyval \<Rightarrow> bool" where
  self: "subnode x x"
| child: "map_of d ''conditions'' = Some (PList cs) \<Longrightarrow> c \<in> set cs \<Longrightarrow> subnode x c \<Longrightarrow> subnode x (PDict d)"
| single: "map_of d ''condition'' = Some c \<Longrightarrow> subnode x c \<Longrightarrow> subnode x (PDict d)"

inductive_simps subnode_dict: "subnode x (PDict d)"

text \<open>A node that hides its \<^verbatim>\<open>condition\<close> from validation behind an empty list of \<^verbatim>\<open>conditions\<close>.\<close>

definition hides_condition :: "(string \<times> 'o pyval) list \<Rightarrow> bool" where
  "hides_condition d = (map_of d ''conditions'' = Some (PList []) \<and> map_of d ''condition'' \<noteq> None)"

definition transparent :: "'o pyval \<Rightarrow> bool" where
  "transparent data = (\<forall>d. subnode (PDict d) data \<longrightarrow> \<not> hides_condition d)"

lemma transparent_child:
  "transparent (PDict d) \<Longrightarrow> map_of d ''conditions'' = Some (PList cs) \<Longrightarrow> c \<in> set cs \<Longrightarrow> transparent c"
  by (auto simp: transparent_def intro: subnode.child)

lemma transparent_single: "transparent (PDict d) \<Longrightarrow> map_of d ''condition'' = Some c \<Longrightarrow> transparent c"
  by (auto simp: transparent_def intro: subnode.single)

lemma validated_leaf:
  assumes "validate_leaf_node (Some names) path op d = Inr ()" "build_leaf h op d = Inr s"
  shows "spec_fields s \<subseteq> PStr ` set names"
  using assms
  by (auto simp: validate_leaf_node_def build_leaf_def dget_def split: if_splits option.splits pyval.splits sum.splits)

lemma traverse_set: "traverse f xs = Inr ys \<Longrightarrow> y \<in> set ys \<Longrightarrow> \<exists>x \<in> set xs. f x = Inr y"
  by (drule traverse_InrD) (force simp: list_all2_conv_all_nth in_set_conv_nth)

lemma map_sum_Inr: "map_sum id f r = Inr s \<longleftrightarrow> (\<exists>y. r = Inr y \<and> s = f y)"
  by (cases r) auto

lemma group_fields:
  assumes "traverse (\<lambda>c. build_spec h c) cs = Inr specs" "s = AndSpecification specs \<or> s = OrSpecification specs"
    and "\<And>c t. c \<in> set cs \<Longrightarrow> build_spec h c = Inr t \<Longrightarrow> spec_fields t \<subseteq> A"
  shows "spec_fields s \<subseteq> A"
proof -
  have "spec_fields t \<subseteq> A" if "t \<in> set specs" for t
    using traverse_set [OF assms(1) that] assms(3) by blast
  then show ?thesis using assms(2) by fastforce
qed

lemma dget_PList: "dget d k = PList cs \<longleftrightarrow> map_of d k = Some (PList cs)"
  by (auto simp: dget_def split: option.splits)

lemma build_logical:
  assumes "build_spec h (PDict d) = Inr s" "dget d ''op'' = PStr op" "lower op \<in> set logical_operators"
  shows "(\<exists>specs cs. conditions_of d = PList cs \<and> traverse (\<lambda>c. build_spec h c) cs = Inr specs \<and>
            (s = AndSpecification specs \<or> s = OrSpecification specs))
    \<or> (\<exists>v. conditions_of d = v \<and> py_iter v = Inr [] \<and> spec_fields s = {})
    \<or> (\<exists>c t. s = NotSpecification t \<and> build_spec h c = Inr t \<and>
        (\<not> py_truthy (conditions_of d) \<and> map_of d ''condition'' = Some c \<or>
         (\<exists>cs. conditions_of d = PList (c # cs))))"
proof -
  have op: "(case map_of d ''op'' of None \<Rightarrow> PStr [] | Some v \<Rightarrow> v) = PStr op"
    using assms(2) by (auto simp: dget_def split: option.splits)
  consider "lower op = ''and'' \<or> lower op = ''or''" | "lower op = ''not''"
    using assms(3) by (auto simp: logical_operators_def)
  then show ?thesis
  proof cases
    case 1
    then have "build_spec h (PDict d) = map_sum id (if lower op = ''and'' then AndSpecification else OrSpecification)
        (case conditions_of d of
           PList cs \<Rightarrow> traverse (\<lambda>c. build_spec h c) cs
         | v \<Rightarrow> (case py_iter v of Inl x \<Rightarrow> Inl x | Inr [] \<Rightarrow> Inr [] | Inr (c # _) \<Rightarrow> Inl (no_attr c ''get'')))"
      by (subst build_spec.simps) (simp add: op)
    with assms(1) show ?thesis
      by (cases "conditions_of d") (auto simp: map_sum_Inr split: sum.splits list.splits if_splits)
  next
    case 2
    then have "build_spec h (PDict d) =
        (if \<not> py_truthy (conditions_of d) \<and> map_of d ''condition'' \<noteq> None
         then map_sum id NotSpecification (case map_of d ''condition'' of
             Some c \<Rightarrow> build_spec h c | None \<Rightarrow> Inl (KeyError ''condition''))
         else case conditions_of d of
             PList (c # _) \<Rightarrow> map_sum id NotSpecification (build_spec h c)
           | v \<Rightarrow> (case first_item v of Inl x \<Rightarrow> Inl x | Inr c \<Rightarrow> Inl (no_attr c ''get'')))"
      by (subst build_spec.simps) (simp add: op)
    with assms(1) show ?thesis
      by (auto simp: map_sum_Inr split: pyval.splits sum.splits list.splits if_splits)
  qed
qed

lemma validated_logical:
  assumes "validate_node allowed path (PDict d) = Inr ()" "dget d ''op'' = PStr op" "lower op \<in> set logical_operators"
  shows "op \<noteq> [] \<and> (py_truthy (dget d ''conditions'') \<or> map_of d ''condition'' \<noteq> None) \<and>
    (dget d ''conditions'' = PNone \<and>
       (\<exists>c. map_of d ''condition'' = Some c \<and> validate_node allowed (path @ ''.condition'') c = Inr ())
     \<or> (\<exists>cs. dget d ''conditions'' = PList cs \<and>
         (\<forall>(i, c) \<in> set (enumerate 0 cs). validate_node allowed (condition_path path i) c = Inr ())))"
proof -
  have ok: "op \<noteq> []" "py_truthy (dget d ''conditions'') \<or> map_of d ''condition'' \<noteq> None"
    using assms by (auto simp: validate_node.simps [of _ _ "PDict d"] split: if_splits)
  then show ?thesis using assms
    by (cases "dget d ''conditions''")
      (auto simp: validate_node.simps [of _ _ "PDict d"] traverse_unit_ok split_beta split: option.splits
        simp del: in_set_enumerate_eq)
qed

lemma build_conditions_None:
  assumes "dget d ''conditions'' = PNone"
  shows "\<not> py_truthy (conditions_of d)" "conditions_of d = PList cs \<Longrightarrow> cs = []"
  using assms by (auto simp: dget_def conditions_of_def split: option.splits)

lemma build_conditions_list: "dget d ''conditions'' = PList cs \<Longrightarrow> conditions_of d = PList cs"
  by (auto simp: dget_def conditions_of_def split: option.splits)

lemma in_enumerate: "c \<in> set cs \<Longrightarrow> \<exists>i. (i, c) \<in> set (enumerate 0 cs)"
proof -
  assume "c \<in> set cs"
  then obtain i where "i < length cs" "cs ! i = c" by (auto simp: in_set_conv_nth)
  then have "(i, c) \<in> set (enumerate 0 cs)" by (auto simp: in_set_enumerate_eq)
  then show ?thesis ..
qed

lemma validated_fields:
  assumes "validate_node (Some names) path data = Inr ()" "build_spec h data = Inr s" "transparent data"
  shows "spec_fields s \<subseteq> PStr ` set names"
  using assms
proof (induction "Some names" path data arbitrary: s rule: validate_node.induct)
  case (1 path data)
  from "1.prems"(1) obtain d where d: "data = PDict d"
    by (cases data) (auto simp: validate_node.simps)
  from "1.prems"(1) obtain op where op: "dget d ''op'' = PStr op" "op \<noteq> []"
    unfolding d by (cases "dget d ''op''") (auto simp: validate_node.simps [of _ _ "PDict d"] split: if_splits)
  show ?case
  proof (cases "lower op \<in> set logical_operators")
    case False
    have "(case map_of d ''op'' of None \<Rightarrow> PStr [] | Some v \<Rightarrow> v) = PStr op"
      using op(1) by (auto simp: dget_def split: option.splits)
    with False have "build_leaf h (lower op) d = Inr s"
      using "1.prems"(2) by (auto simp: d build_spec.simps [of h "PDict d"] logical_operators_def)
    moreover have "validate_leaf_node (Some names) path (lower op) d = Inr ()"
      using "1.prems"(1) False op by (simp add: d validate_node.simps [of _ _ "PDict d"])
    ultimately show ?thesis by (rule validated_leaf [rotated])
  next
    case True
    note v = validated_logical [OF "1.prems"(1) [unfolded d] op(1) True]
    then have ok: "\<not> (\<not> py_truthy (dget d ''conditions'') \<and> map_of d ''condition'' = None)" by blast
    note IH = "1.hyps" [OF d op(1,2) True ok]
    have tr: "transparent (PDict d)" using "1.prems"(3) d by simp
    from v consider
      (single) c where "dget d ''conditions'' = PNone" "map_of d ''condition'' = Some c"
        "validate_node (Some names) (path @ ''.condition'') c = Inr ()"
    | (many) cs where "dget d ''conditions'' = PList cs"
        "\<forall>(i, c) \<in> set (enumerate 0 cs). validate_node (Some names) (condition_path path i) c = Inr ()"
      by blast
    then show ?thesis
    proof cases
      case single
      have "spec_fields t \<subseteq> PStr ` set names" if "build_spec h c = Inr t" for t
        by (rule IH(1) [OF single that transparent_single [OF tr single(2)]])
      then show ?thesis
        using build_logical [OF "1.prems"(2) [unfolded d] op(1) True] build_conditions_None [OF single(1)] single(2)
        by auto
    next
      case many
      note cs = build_conditions_list [OF many(1)]
      have child: "spec_fields t \<subseteq> PStr ` set names" if c: "c \<in> set cs" "build_spec h c = Inr t" for c t
      proof -
        obtain i where i: "(i, c) \<in> set (enumerate 0 cs)" using in_enumerate [OF c(1)] by blast
        have "map_of d ''conditions'' = Some (PList cs)" using many(1) by (simp add: dget_PList)
        from IH(2) [OF many(1) i refl _ c(2) transparent_child [OF tr this c(1)]] many(2) i
        show ?thesis by blast
      qed
      have "cs \<noteq> [] \<or> map_of d ''condition'' = None"
        using tr many(1) by (auto simp: transparent_def hides_condition_def dget_PList intro: subnode.self)
      then show ?thesis
        using build_logical [OF "1.prems"(2) [unfolded d] op(1) True] cs child
          group_fields [where cs = cs and A = "PStr ` set names" and s = s and h = h]
        by (auto; blast)
    qed
  qed
qed

text \<open>
  The field whitelist holds: a specification that \<^verbatim>\<open>from_dict\<close> builds with \<^verbatim>\<open>allowed_fields\<close> refers to allowed
  fields only, provided that no node of the data carries both an empty list of \<^verbatim>\<open>conditions\<close> and a
  \<^verbatim>\<open>condition\<close>.
\<close>

theorem whitelist_respected:
  assumes "from_dict h (Some names) data = Inr s" "transparent data"
  shows "spec_fields s \<subseteq> PStr ` set names"
  using assms validated_fields [of names "''<root>''" data h s]
  by (auto simp: from_dict_def split: sum.splits)

definition ex_spec :: "unit spec" where
  "ex_spec = NotSpecification (AttributeSpecification (PStr ''age'') EQ (PInt 3))"

theorem whitelist_respected_witness:
  "from_dict ex_host (Some [''age'']) (spec_to_dict ex_spec) = Inr ex_spec \<and> spec_fields ex_spec \<subseteq> PStr ` set [''age'']"
proof -
  have "spec_ok (Some [''age'']) ex_spec" by (simp add: ex_spec_def field_allowed_def)
  then have f: "from_dict ex_host (Some [''age'']) (spec_to_dict ex_spec) = Inr ex_spec"
    by (simp only: from_dict_def validate_spec_to_dict build_spec_to_dict sum.case)
  have "transparent (spec_to_dict ex_spec)"
    unfolding transparent_def hides_condition_def ex_spec_def
    by (auto simp: subnode_dict)
  with f show ?thesis by (intro conjI whitelist_respected [OF f])
qed

text \<open>
  Such a node bypasses the whitelist: whatever fields are allowed, a \<^verbatim>\<open>not\<close> node with an empty
  list of \<^verbatim>\<open>conditions\<close> and a \<^verbatim>\<open>condition\<close> is accepted and filters on any field.
\<close>

lemma whitelist_bypassed:
  "from_dict h (Some names) (PDict [(''op'', PStr ''not''), (''conditions'', PList []),
      (''condition'', PDict [(''op'', PStr ''=''), (''attr'', PStr field), (''val'', v)])]) =
   Inr (NotSpecification (AttributeSpecification (PStr field) EQ v))"
proof -
  have "lower ''='' = ''=''" "operator_of ''='' = Inr EQ"
    using op_value_facts(1) [of EQ] operator_of_value [of EQ] by simp_all
  then have "build_spec h (PDict [(''op'', PStr ''=''), (''attr'', PStr field), (''val'', v)]) =
      Inr (AttributeSpecification (PStr field) EQ v)"
    by (subst build_spec.simps) (simp add: build_leaf_def)
  then show ?thesis
    by (subst from_dict_def, subst validate_node.simps, subst build_spec.simps) (simp add: conditions_of_def)
qed

section \<open>The builder\<close>

datatype 'o builder_call = Where string string "'o pyval" | Add "'o spec" | OpenGroup string | EndGroup

fun run_call :: "'o builder_call \<Rightarrow> 'o spec_builder \<Rightarrow> exn + 'o spec_builder" where
  "run_call (Where attr op val) b = sb_where attr op val b"
| "run_call (Add s) b = Inr (sb_add s b)"
| "run_call (OpenGroup op) b = Inr (open_group op b)"
| "run_call EndGroup b = (case end_group b of (b, None) \<Rightarrow> Inr b | (_, Some x) \<Rightarrow> Inl x)"

fun run_calls :: "'o builder_call list \<Rightarrow> 'o spec_builder \<Rightarrow> exn + 'o spec_builder" where
  "run_calls [] b = Inr b"
| "run_calls (c # cs) b = (case run_call c b of Inl x \<Rightarrow> Inl x | Inr b \<Rightarrow> run_calls cs b)"

text \<open>The chain of calls that spells out a tree, and the tree with its groups of one collapsed.\<close>

primrec emit :: "'o spec \<Rightarrow> 'o builder_call list" where
  "emit (AttributeSpecification attr op val) =
     (case attr of PStr f \<Rightarrow> [Where f (op_value op) val] | _ \<Rightarrow> [Add (AttributeSpecification attr op val)])"
| "emit (AndSpecification specs) = OpenGroup ''and'' # concat (map emit specs) @ [EndGroup]"
| "emit (OrSpecification specs) = OpenGroup ''or'' # concat (map emit specs) @ [EndGroup]"
| "emit (NotSpecification s) = OpenGroup ''not'' # emit s @ [EndGroup]"

primrec collapse :: "'o spec \<Rightarrow> 'o spec" where
  "collapse (AttributeSpecification attr op val) = AttributeSpecification attr op val"
| "collapse (AndSpecification specs) =
     (case map collapse specs of [s] \<Rightarrow> s | ss \<Rightarrow> AndSpecification ss)"
| "collapse (OrSpecification specs) =
     (case map collapse specs of [s] \<Rightarrow> s | ss \<Rightarrow> OrSpecification ss)"
| "collapse (NotSpecification s) = NotSpecification (collapse s)"

primrec groups_filled :: "'o spec \<Rightarrow> bool" where
  "groups_filled (AttributeSpecification attr op val) = True"
| "groups_filled (AndSpecification specs) = (specs \<noteq> [] \<and> list_all id (map groups_filled specs))"
| "groups_filled (OrSpecification specs) = (specs \<noteq> [] \<and> list_all id (map groups_filled specs))"
| "groups_filled (NotSpecification s) = groups_filled s"

lemma run_calls_append:
  "run_calls (cs @ ds) b = (case run_calls cs b of Inl x \<Rightarrow> Inl x | Inr b \<Rightarrow> run_calls ds b)"
  by (induction cs arbitrary: b) (auto split: sum.splits)

lemma run_calls_concat:
  "(\<And>t b. t \<in> set ts \<Longrightarrow> run_calls (emit t) b = Inr (append_current (f t) b)) \<Longrightarrow>
   run_calls (concat (map emit ts)) b = Inr (fold append_current (map f ts) b)"
  by (induction ts arbitrary: b) (auto simp: run_calls_append)

lemma fold_append_open:
  "fold append_current ss (b\<lparr>sb_stack := (g, ps) # st\<rparr>) = b\<lparr>sb_stack := (g, ps @ ss) # st\<rparr>"
  by (induction ss arbitrary: ps) (auto simp: append_current_def)

lemma fold_append_top: "sb_stack b = [] \<Longrightarrow> fold append_current ss b = b\<lparr>sb_specs := sb_specs b @ ss\<rparr>"
  by (induction ss arbitrary: b) (auto simp: append_current_def)

lemma run_group:
  assumes "\<And>t b. t \<in> set ts \<Longrightarrow> run_calls (emit t) b = Inr (append_current (f t) b)"
    and "combine_specs op (map f ts) = Inr s"
  shows "run_calls (OpenGroup op # concat (map emit ts) @ [EndGroup]) b = Inr (append_current s b)"
  using run_calls_concat [OF assms(1)] assms(2)
  by (simp add: run_calls_append open_group_def fold_append_open [where ps = "[]"] end_group_def)

lemma combine_collapse:
  assumes "ts \<noteq> []"
  shows "combine_specs ''and'' (map collapse ts) = Inr (collapse (AndSpecification ts))"
    "combine_specs ''or'' (map collapse ts) = Inr (collapse (OrSpecification ts))"
  using assms by (auto simp: combine_specs_def split: list.splits)

lemma run_emit: "groups_filled t \<Longrightarrow> run_calls (emit t) b = Inr (append_current (collapse t) b)"
proof (induction t arbitrary: b)
  case (AttributeSpecification attr op val)
  then show ?case by (auto simp: sb_where_def sb_add_def split: pyval.split)
next
  case (AndSpecification ts)
  then show ?case
    using run_group [of ts collapse "''and''", OF _ combine_collapse(1)] by (auto simp: list_all_iff)
next
  case (OrSpecification ts)
  then show ?case
    using run_group [of ts collapse "''or''", OF _ combine_collapse(2)] by (auto simp: list_all_iff)
next
  case (NotSpecification s)
  then show ?case using run_group [of "[s]" collapse "''not''" "NotSpecification (collapse s)"]
    by (auto simp: combine_specs_def)
qed

lemma single_group_sat:
  "is_satisfied_by h reg x (case ss of [s] \<Rightarrow> s | ss \<Rightarrow> AndSpecification ss) = all_of (map (is_satisfied_by h reg x) ss)"
  "is_satisfied_by h reg x (case ss of [s] \<Rightarrow> s | ss \<Rightarrow> OrSpecification ss) =
     any_of (map (is_satisfied_by h reg x) ss)"
  by (auto split: list.splits sum.splits)

lemma collapse_sat: "is_satisfied_by h reg x (collapse s) = is_satisfied_by h reg x s"
proof (induction s)
  case (AndSpecification ts)
  then have "map (is_satisfied_by h reg x) (map collapse ts) = map (is_satisfied_by h reg x) ts" by simp
  then show ?case unfolding collapse.simps is_satisfied_by.simps single_group_sat by (rule arg_cong)
next
  case (OrSpecification ts)
  then have "map (is_satisfied_by h reg x) (map collapse ts) = map (is_satisfied_by h reg x) ts" by simp
  then show ?case unfolding collapse.simps is_satisfied_by.simps single_group_sat by (rule arg_cong)
qed auto

text \<open>
  The fluent builder builds what is spelled out: for conditions with no empty group, the chain of
  calls that opens, fills and closes each group succeeds, and \<^verbatim>\<open>build\<close> returns a specification that
  accepts, rejects and raises exactly like the conjunction of the conditions.
\<close>

theorem builder_builds:
  assumes "ts \<noteq> []" "list_all groups_filled ts"
  shows "\<exists>b t. run_calls (concat (map emit ts)) new_builder = Inr b \<and> sb_build b = Inr t \<and>
    is_satisfied_by h reg x t = is_satisfied_by h reg x (AndSpecification ts)"
proof -
  have "run_calls (concat (map emit ts)) new_builder = Inr (fold append_current (map collapse ts) new_builder)"
    using assms(2) by (intro run_calls_concat run_emit) (auto simp: list_all_iff)
  moreover have "sb_build (fold append_current (map collapse ts) new_builder) = Inr (collapse (AndSpecification ts))"
    using assms(1) combine_collapse(1) [OF assms(1)]
    by (simp add: fold_append_top new_builder_def sb_build_def del: collapse.simps)
  ultimately show ?thesis using collapse_sat [of h reg x "AndSpecification ts"] by blast
qed

theorem builder_builds_witness:
  "\<exists>b t. run_calls [OpenGroup ''or'', Where ''role'' ''='' (PStr ''admin''), Where ''role'' ''='' (PStr ''root''), EndGroup,
        Where ''active'' ''='' (PBool True)] new_builder = Inr b \<and> sb_build b = Inr t \<and>
      is_satisfied_by ex_host [(EQ, equal_op)] (PDict [(''role'', PStr ''root''), (''active'', PBool True)]) t = Inr True"
proof -
  let ?ts = "[OrSpecification [AttributeSpecification (PStr ''role'') EQ (PStr ''admin''),
      AttributeSpecification (PStr ''role'') EQ (PStr ''root'')], AttributeSpecification (PStr ''active'') EQ (PBool True)] :: unit spec list"
  have "is_satisfied_by ex_host [(EQ, equal_op)] (PDict [(''role'', PStr ''root''), (''active'', PBool True)])
      (AndSpecification ?ts) = Inr True"
    by (simp add: reg_evaluate_def resolve_field_def equal_op_def num_eq_def float_eq_def)
  with builder_builds [of ?ts ex_host "[(EQ, equal_op)]" "PDict [(''role'', PStr ''root''), (''active'', PBool True)]"]
  show ?thesis by simp
qed

section \<open>JSON containment\<close>

lemma num_eq_trans: "num_eq x y \<Longrightarrow> num_eq y z \<Longrightarrow> num_eq x z"
  by (auto simp: num_eq_def float_eq_def split: option.splits)

lemma num_eq_scalar: "num_eq x y \<Longrightarrow> num_of x \<noteq> None \<and> num_of y \<noteq> None"
  by (auto simp: num_eq_def split: option.splits)

fun plain :: "'o pyval \<Rightarrow> bool" where
  "plain (PList _) = False" | "plain (PDict _) = False" | "plain _ = True"

lemma py_eq_plain: "py_eq a b \<Longrightarrow> plain a \<Longrightarrow> plain b"
  by (cases a; cases b) (auto dest: num_eq_scalar)

lemma py_eq_plain_trans: "py_eq a b \<Longrightarrow> py_eq b c \<Longrightarrow> plain a \<Longrightarrow> py_eq a c"
  by (cases a; cases b) (auto dest: num_eq_scalar intro: num_eq_trans)

lemma contains_plain: "plain a \<Longrightarrow> dict_contains a b = py_eq a b"
  by (cases a) auto

lemma contains_trans_plain: "dict_contains a b \<Longrightarrow> dict_contains b c \<Longrightarrow> plain a \<Longrightarrow> dict_contains a c"
  using py_eq_plain_trans by (metis contains_plain py_eq_plain)

lemma contains_PDict: "dict_contains (PDict d) b \<Longrightarrow> \<exists>e. b = PDict e"
  by (cases b) auto

lemma contains_PList: "dict_contains (PList d) b \<Longrightarrow> \<exists>e. b = PList e"
  by (cases b) auto

lemma contains_trans: "dict_contains a b \<Longrightarrow> dict_contains b c \<Longrightarrow> dict_contains a c"
proof (induction "size a" arbitrary: a b c rule: less_induct)
  case less
  show ?case
  proof (cases a)
    case (PDict d)
    then obtain e f where bc: "b = PDict e" "c = PDict f" using less.prems contains_PDict by blast
    have "\<exists>w. map_of d k = Some w \<and> dict_contains w v" if "(k, v) \<in> set f" for k v
    proof -
      from less.prems(2) that bc obtain u where u: "map_of e k = Some u" "dict_contains u v"
        by (fastforce simp: list_all_iff split: option.splits)
      from map_of_SomeD [OF u(1)] less.prems(1) PDict bc obtain w where w: "map_of d k = Some w" "dict_contains w u"
        by (fastforce simp: list_all_iff split: option.splits)
      from less.hyps [OF _ w(2) u(2)] size_dict_lookup [OF w(1)] w(1) PDict show ?thesis by blast
    qed
    then show ?thesis by (fastforce simp: PDict bc list_all_iff split: option.splits)
  next
    case (PList hs)
    then obtain ns ms where bc: "b = PList ns" "c = PList ms" using less.prems contains_PList by blast
    have "\<exists>h \<in> set hs. dict_contains h m" if "m \<in> set ms" for m
    proof -
      from less.prems(2) that bc obtain n where n: "n \<in> set ns" "dict_contains n m"
        by (auto simp: list_all_iff list_ex_iff)
      with less.prems(1) bc PList obtain h where h: "h \<in> set hs" "dict_contains h n"
        by (auto simp: list_all_iff list_ex_iff)
      from less.hyps [OF _ h(2) n(2)] size_list_member [OF h(1)] h(1) PList show ?thesis by blast
    qed
    then show ?thesis by (auto simp: PList bc list_all_iff list_ex_iff)
  qed (use less.prems in \<open>simp_all only: contains_trans_plain plain.simps\<close>)
qed

text \<open>Values without \<^verbatim>\<open>NaN\<close> in which keys are not repeated.\<close>

primrec regular :: "'o pyval \<Rightarrow> bool" where
  "regular PNone = True"
| "regular (PBool _) = True"
| "regular (PInt _) = True"
| "regular (PFloat f) = (f \<noteq> NaN)"
| "regular (PStr _) = True"
| "regular (PList xs) = list_all id (map regular xs)"
| "regular (PDict d) = (distinct (map fst d) \<and> list_all snd (map (map_prod id regular) d))"
| "regular (PObj _) = True"

lemma contains_refl: "regular a \<Longrightarrow> dict_contains a a"
proof (induction a)
  case (PDict d)
  have "dict_contains v v" "map_of d k = Some v" if "(k, v) \<in> set d" for k v
    using that PDict by (fastforce simp: list_all_iff map_prod_def split_beta)+
  then show ?case by (auto simp: list_all_iff)
qed (auto simp: list_all_iff list_ex_iff num_eq_def float_eq_def)

text \<open>
  JSON containment is a preorder, as the containment of PostgreSQL that it mirrors: what a contained
  value contains is contained, and a value without \<^verbatim>\<open>NaN\<close> contains itself.
\<close>

theorem json_containment_preorder:
  "(dict_contains a b \<and> dict_contains b c \<longrightarrow> dict_contains a c) \<and> (regular a \<longrightarrow> dict_contains a a)"
  using contains_trans contains_refl by blast

theorem json_containment_preorder_witness:
  "dict_contains (PDict [(''a'', PInt 1), (''b'', PList [PInt 2, PDict [(''c'', PNone)]])] :: unit pyval)
     (PDict [(''b'', PList [PDict []])])"
proof -
  let ?a = "PDict [(''a'', PInt 1), (''b'', PList [PInt 2, PDict [(''c'', PNone)]])] :: unit pyval"
  let ?b = "PDict [(''b'', PList [PDict [(''c'', PNone)], PInt 2])] :: unit pyval"
  have "dict_contains ?a ?b" "dict_contains ?b (PDict [(''b'', PList [PDict []])])"
    by (simp_all add: num_eq_def float_eq_def)
  with json_containment_preorder [of ?a ?b "PDict [(''b'', PList [PDict []])]"] show ?thesis by blast
qed

section \<open>Missing values\<close>

lemma register_all_lookup:
  "map_of (register_all mos reg) k = (case map_of (rev mos) k of None \<Rightarrow> map_of reg k | Some f \<Rightarrow> Some f)"
  by (induction mos rule: rev_induct) (auto simp: register_all_def register_operator_def)

lemma default_lookup:
  assumes "k \<notin> fst ` set geometry" "map_of (rev (builtin_operators h)) k = Some f"
  shows "reg_evaluate (build_default_registry h geometry) k = f"
proof -
  have "map_of (rev geometry) k = None" using assms(1) by (simp add: map_of_eq_None_iff)
  then show ?thesis
    using assms(2) by (auto simp: reg_evaluate_def build_default_registry_def register_all_lookup map_add_def intro!: ext)
qed

end
