(* ===== verification/Filtering.thy ===== *)
theory Filtering
  imports SpecLaws
begin

text \<open>
  The filtering package (features/filtering): colon and JSON filter syntax, field whitelists, the
  filter parser, pagination, security constraints and query strings for links.  Request parameters are
  a dictionary of Python values.
\<close>

section \<open>Filter syntax\<close>

definition op_aliases :: "(string, string) dict" where
  "op_aliases =
    [(''eq'', ''=''), (''='', ''=''), (''ne'', ''!=''), (''!='', ''!=''), (''gt'', ''>''), (''>'', ''>''),
     (''gte'', ''>=''), (''>='', ''>=''), (''lt'', ''<''), (''<'', ''<''), (''lte'', ''<=''), (''<='', ''<=''),
     (''in'', ''in''), (''not_in'', ''not_in''), (''contains'', ''contains''), (''icontains'', ''icontains''),
     (''like'', ''like''), (''ilike'', ''ilike''), (''startswith'', ''startswith''), (''starts_with'', ''startswith''),
     (''endswith'', ''endswith''), (''ends_with'', ''endswith''), (''is_null'', ''is_null''), (''null'', ''is_null''),
     (''is_not_null'', ''is_not_null''), (''not_null'', ''is_not_null''), (''between'', ''between''),
     (''not_between'', ''not_between'')]"

definition resolve_alias :: "string \<Rightarrow> string" where
  "resolve_alias op = (case map_of op_aliases op of None \<Rightarrow> op | Some v \<Rightarrow> v)"

text \<open>\<^verbatim>\<open>s.split(sep, n)\<close>: at most \<open>n\<close> cuts.\<close>

fun split_max :: "nat \<Rightarrow> char \<Rightarrow> string \<Rightarrow> string list" where
  "split_max n c [] = [[]]"
| "split_max n c (x # xs) =
     (if n = 0 then [x # xs]
      else if x = c then [] # split_max (n - 1) c xs
      else (case split_max n c xs of [] \<Rightarrow> [[x]] | p # ps \<Rightarrow> (x # p) # ps))"

definition parse_simple_value :: "'o host \<Rightarrow> string \<Rightarrow> 'o pyval" where
  "parse_simple_value h s =
     (case int_of_text s of Some i \<Rightarrow> PInt i | None \<Rightarrow>
       (case ho_float h s of Some f \<Rightarrow> PFloat f | None \<Rightarrow> PStr s))"

definition parse_value :: "'o host \<Rightarrow> string \<Rightarrow> string \<Rightarrow> 'o pyval" where
  "parse_value h s op =
     (if lower s = ''true'' then PBool True
      else if lower s = ''false'' then PBool False
      else if lower s = ''null'' then PNone
      else if op \<in> {''in'', ''not_in'', ''between'', ''not_between''} \<and> CHR '','' \<in> set s
      then PList (map (\<lambda>v. parse_simple_value h (strip v)) (split_on (CHR '','') s))
      else parse_simple_value h s)"

fun smart_split_loop :: "string list \<Rightarrow> string list \<Rightarrow> string list" where
  "smart_split_loop clauses [] = clauses"
| "smart_split_loop clauses (raw # segments) =
     (let segment = strip raw
      in if segment = [] then smart_split_loop clauses segments
         else if 2 \<le> count_list segment (CHR '':'') \<or> clauses = []
         then smart_split_loop (clauses @ [segment]) segments
         else smart_split_loop (butlast clauses @ [last clauses @ CHR '','' # segment]) segments)"

definition smart_split :: "string \<Rightarrow> string list" where
  "smart_split raw = smart_split_loop [] (split_on (CHR '','') raw)"

text \<open>One part of the loop of \<^verbatim>\<open>parse_filter\<close>; an empty part gives no clause.\<close>

definition parse_clause :: "'o host \<Rightarrow> string \<Rightarrow> exn + 'o pyval list" where
  "parse_clause h part =
     (if strip part = [] then Inr []
      else case split_max 2 (CHR '':'') (strip part) of
        [a, b, c] \<Rightarrow>
          (let op_str = resolve_alias (lower (strip b))
           in Inr [PDict [(''op'', PStr op_str), (''attr'', PStr (strip a)), (''val'', parse_value h (strip c) op_str)]])
      | _ \<Rightarrow> Inl (FilterParseError (''Expected field:op:value, got: '' @ strip part)))"

definition colon_parse_filter :: "'o host \<Rightarrow> 'o pyval \<Rightarrow> exn + 'o pyval" where
  "colon_parse_filter h raw =
     (case raw of
        PStr text \<Rightarrow>
          if text = [] then Inr (PDict [])
          else (case traverse (parse_clause h) (smart_split text) of
              Inl x \<Rightarrow> Inl x
            | Inr parts \<Rightarrow>
                (case concat parts of
                   [] \<Rightarrow> Inr (PDict [])
                 | [clause] \<Rightarrow> Inr clause
                 | clauses \<Rightarrow> Inr (PDict [(''op'', PStr ''and''), (''conditions'', PList clauses)])))
      | _ \<Rightarrow> Inr (PDict []))"

text \<open>
  \<^verbatim>\<open>_normalise\<close> on something that is not a dictionary: membership tests succeed or fail as for any container,
  but no key can be read.
\<close>

definition normalise_other :: "'o pyval \<Rightarrow> exn + 'o pyval" where
  "normalise_other c =
     (case (py_in (PStr ''attr'') c, py_in (PStr ''op'') c, py_in (PStr ''and'') c, py_in (PStr ''or'') c, py_in (PStr ''field'') c) of
        (Inr attr, Inr op, Inr con, Inr dis, Inr field) \<Rightarrow>
          if attr \<and> op then Inl (ValueError ''dictionary update sequence'')
          else if con \<or> dis \<or> field \<and> op then Inl (TypeError (type_name c @ '' indices must be integers''))
          else Inr c
      | (Inl x, _) \<Rightarrow> Inl x
      | _ \<Rightarrow> Inl (TypeError ''argument''))"

function normalise :: "'o pyval \<Rightarrow> exn + 'o pyval" where
  "normalise data =
     (case data of
        PDict d \<Rightarrow>
          if map_of d ''attr'' \<noteq> None \<and> map_of d ''op'' \<noteq> None then
            Inr (PDict (case map_of d ''value'' of
                Some v \<Rightarrow> if map_of d ''val'' = None then AList.delete ''value'' d @ [(''val'', v)] else d
              | None \<Rightarrow> d))
          else if map_of d ''and'' \<noteq> None \<or> map_of d ''or'' \<noteq> None then
            (let op = (if map_of d ''and'' \<noteq> None then ''and'' else ''or'')
             in map_sum id (\<lambda>cs. PDict [(''op'', PStr op), (''conditions'', PList cs)])
               (case dget d op of
                  PList cs \<Rightarrow> traverse (\<lambda>c. normalise c) cs
                | v \<Rightarrow> (case py_iter v of Inl x \<Rightarrow> Inl x | Inr ks \<Rightarrow> traverse normalise_other ks)))
          else if map_of d ''field'' \<noteq> None \<and> map_of d ''op'' \<noteq> None then
            (case dget d ''op'' of
               PStr op \<Rightarrow>
                 if resolve_alias op \<in> set valid_operators
                 then Inr (PDict [(''op'', PStr (resolve_alias op)), (''attr'', dget d ''field''),
                   (''val'', case map_of d ''value'' of Some v \<Rightarrow> v | None \<Rightarrow> dget d ''val'')])
                 else Inl (FilterParseError (''Unknown operator '' @ quoted op))
             | v \<Rightarrow> if hashable v then Inl (FilterParseError ''Unknown operator'')
                    else Inl (TypeError (''unhashable type: '' @ quoted (type_name v))))
          else Inr data
      | _ \<Rightarrow> normalise_other data)"
  by pat_completeness auto
termination
  by (relation "measure size") (auto dest: size_dget_child simp: Let_def simp del: pyval.size)

declare normalise.simps [simp del]

text \<open>\<open>loads\<close> is \<^verbatim>\<open>json.loads\<close>, \<^const>\<open>None\<close> on malformed text.\<close>

definition json_parse_filter :: "(string \<Rightarrow> 'o pyval option) \<Rightarrow> 'o pyval \<Rightarrow> exn + 'o pyval" where
  "json_parse_filter loads raw =
     (case raw of
        PDict d \<Rightarrow> normalise (PDict d)
      | PStr text \<Rightarrow>
          (case loads text of
             None \<Rightarrow> Inl (FilterParseError ''invalid JSON'')
           | Some (PDict d) \<Rightarrow> normalise (PDict d)
           | Some _ \<Rightarrow> Inr (PDict []))
      | _ \<Rightarrow> Inr (PDict []))"

section \<open>Whitelists\<close>

record field_whitelist =
  wl_filterable_fields :: "(string, string list) dict"
  wl_sortable_fields :: "string list"
  wl_projectable_fields :: "string list"

definition op_to_alias :: "(string, string) dict" where
  "op_to_alias = [(''='', ''eq''), (''!='', ''ne''), (''>'', ''gt''), (''>='', ''gte''), (''<'', ''lt''), (''<='', ''lte'')]"

definition allow_filter :: "field_whitelist \<Rightarrow> string \<Rightarrow> string \<Rightarrow> exn + unit" where
  "allow_filter wl field op =
     (case map_of (wl_filterable_fields wl) field of
        None \<Rightarrow> Inl (FieldNotAllowedError (''Field '' @ quoted field @ '' is not filterable''))
      | Some allowed_ops \<Rightarrow>
          (let op_normalized = (case map_of op_to_alias op of None \<Rightarrow> op | Some a \<Rightarrow> a)
           in if op_normalized \<notin> set allowed_ops \<and> op \<notin> set allowed_ops
              then Inl (FieldNotAllowedError (''Operator '' @ quoted op @ '' not allowed for field '' @ quoted field))
              else Inr ()))"

definition allow_sort :: "field_whitelist \<Rightarrow> string \<Rightarrow> exn + unit" where
  "allow_sort wl field =
     (if field \<in> set (wl_sortable_fields wl) then Inr ()
      else Inl (FieldNotAllowedError (''Field '' @ quoted field @ '' is not sortable'')))"

definition allow_project :: "field_whitelist \<Rightarrow> string \<Rightarrow> exn + unit" where
  "allow_project wl field =
     (if field \<in> set (wl_projectable_fields wl) then Inr ()
      else Inl (FieldNotAllowedError (''Field '' @ quoted field @ '' is not projectable'')))"

section \<open>The filter parser\<close>

datatype filter_syntax = ColonSeparatedSyntax | JsonFilterSyntax

record 'o parsed_options =
  po_offset :: "'o pyval option"
  po_limit :: "'o pyval option"
  po_sort :: "('o pyval \<times> 'o pyval) list"
  po_fields :: "'o pyval list option"
  po_cursor :: "'o pyval"

text \<open>The name of a field as a key of the whitelist; other values are never in it.\<close>

definition with_name :: "('o pyval \<Rightarrow> exn) \<Rightarrow> (string \<Rightarrow> exn + unit) \<Rightarrow> 'o pyval \<Rightarrow> exn + unit" where
  "with_name bad check v =
     (case v of
        PStr s \<Rightarrow> check s
      | _ \<Rightarrow> if hashable v then Inl (bad v) else Inl (TypeError (''unhashable type: '' @ quoted (type_name v))))"

definition not_allowed :: "'o pyval \<Rightarrow> exn" where
  "not_allowed v = FieldNotAllowedError (''Field of type '' @ type_name v)"

function validate_spec_dict :: "'o host \<Rightarrow> field_whitelist \<Rightarrow> 'o pyval \<Rightarrow> exn + unit" where
  "validate_spec_dict h wl data =
     (case data of
        PDict d \<Rightarrow>
          (case map_of d ''attr'' of
             Some attr \<Rightarrow>
               with_name not_allowed
                 (\<lambda>f. allow_filter wl f (case map_of d ''op'' of None \<Rightarrow> [] | Some op \<Rightarrow> py_str h op)) attr
           | None \<Rightarrow>
               (case conditions_of d of
                  PList cs \<Rightarrow> (case traverse (\<lambda>c. validate_spec_dict h wl c) cs of Inl x \<Rightarrow> Inl x | Inr _ \<Rightarrow> Inr ())
                | v \<Rightarrow> (case py_iter v of
                    Inl x \<Rightarrow> Inl x
                  | Inr [] \<Rightarrow> Inr ()
                  | Inr (c # _) \<Rightarrow> Inl (no_attr c ''get''))))
      | _ \<Rightarrow>
          (case py_in (PStr ''attr'') data of
             Inl x \<Rightarrow> Inl x
           | Inr found \<Rightarrow> if found then Inl (TypeError (type_name data @ '' indices must be integers''))
                          else Inl (no_attr data ''get'')))"
  by pat_completeness auto
termination
  by (relation "measure (\<lambda>(h, wl, data). size data)") (auto dest: size_conditions_of simp del: pyval.size)

declare validate_spec_dict.simps [simp del]

definition int_param :: "'o host \<Rightarrow> 'o pyval \<Rightarrow> exn + 'o pyval option" where
  "int_param h v =
     (if v = PNone then Inr None
      else case py_int h v of
        Inr i \<Rightarrow> Inr (Some i)
      | Inl x \<Rightarrow> (case x of TypeError _ \<Rightarrow> Inr None | ValueError _ \<Rightarrow> Inr None | _ \<Rightarrow> Inl x))"

definition sort_text :: "string \<Rightarrow> 'o pyval \<times> 'o pyval" where
  "sort_text item =
     (case item of
        [] \<Rightarrow> (PStr [], PStr ''asc'')
      | c # rest \<Rightarrow> if c = CHR ''-'' then (PStr rest, PStr ''desc'') else (PStr item, PStr ''asc''))"

definition parse_sort_item :: "'o pyval \<Rightarrow> ('o pyval \<times> 'o pyval) option" where
  "parse_sort_item item =
     (case item of
        PDict d \<Rightarrow> Some ((case map_of d ''field'' of None \<Rightarrow> PStr [] | Some v \<Rightarrow> v),
                         (case map_of d ''dir'' of None \<Rightarrow> PStr ''asc'' | Some v \<Rightarrow> v))
      | PStr s \<Rightarrow> Some (sort_text s)
      | _ \<Rightarrow> None)"

fun parse_sort_list :: "field_whitelist option \<Rightarrow> 'o pyval list \<Rightarrow> exn + ('o pyval \<times> 'o pyval) list" where
  "parse_sort_list wl [] = Inr []"
| "parse_sort_list wl (item # raw) =
     (case parse_sort_item item of
        None \<Rightarrow> parse_sort_list wl raw
      | Some (field, direction) \<Rightarrow>
          (case (case wl of None \<Rightarrow> Inr () | Some w \<Rightarrow> with_name not_allowed (allow_sort w) field) of
             Inl x \<Rightarrow> Inl x
           | Inr _ \<Rightarrow> map_sum id ((#) (field, direction)) (parse_sort_list wl raw)))"

definition parse_sort_string :: "string \<Rightarrow> ('o pyval \<times> 'o pyval) list" where
  "parse_sort_string raw = map (\<lambda>part. sort_text (strip part)) (split_on (CHR '','') raw)"

definition parse_sort :: "'o pyval \<Rightarrow> field_whitelist option \<Rightarrow> exn + ('o pyval \<times> 'o pyval) list" where
  "parse_sort raw wl =
     (if \<not> py_truthy raw then Inr []
      else case raw of PList items \<Rightarrow> parse_sort_list wl items | PStr s \<Rightarrow> Inr (parse_sort_string s) | _ \<Rightarrow> Inr [])"

definition parse_fields :: "'o pyval \<Rightarrow> field_whitelist option \<Rightarrow> exn + 'o pyval list option" where
  "parse_fields raw wl =
     (if \<not> py_truthy raw then Inr None
      else let checked = (\<lambda>names. case wl of
                 None \<Rightarrow> Inr (Some names)
               | Some w \<Rightarrow> (case traverse (with_name not_allowed (allow_project w)) names of
                     Inl x \<Rightarrow> Inl x | Inr _ \<Rightarrow> Inr (Some names)))
           in case raw of
                PStr s \<Rightarrow> checked (map PStr (filter (\<lambda>f. f \<noteq> []) (map strip (split_on (CHR '','') s))))
              | PList items \<Rightarrow> checked items
              | _ \<Rightarrow> Inr None)"

definition parse_filter ::
  "'o host \<Rightarrow> (string \<Rightarrow> 'o pyval option) \<Rightarrow> filter_syntax \<Rightarrow> 'o pyval \<Rightarrow> exn + 'o pyval" where
  "parse_filter h loads syntax raw =
     (case syntax of ColonSeparatedSyntax \<Rightarrow> colon_parse_filter h raw | JsonFilterSyntax \<Rightarrow> json_parse_filter loads raw)"

definition parse_params ::
  "'o host \<Rightarrow> (string \<Rightarrow> 'o pyval option) \<Rightarrow> filter_syntax \<Rightarrow> (string, 'o pyval) dict \<Rightarrow> field_whitelist option
   \<Rightarrow> exn + 'o spec option \<times> 'o parsed_options" where
  "parse_params h loads syntax query_params wl =
     (let raw_filter = dget query_params ''filter''
      in case (if py_truthy raw_filter then parse_filter h loads syntax raw_filter else Inr (PDict [])) of
        Inl x \<Rightarrow> Inl x
      | Inr spec_dict \<Rightarrow>
        (case (case wl of
                 Some w \<Rightarrow> if py_truthy spec_dict then validate_spec_dict h w spec_dict else Inr ()
               | None \<Rightarrow> Inr ()) of
           Inl x \<Rightarrow> Inl x
         | Inr _ \<Rightarrow>
        (case (if py_truthy spec_dict
               then map_sum id Some (from_dict h (map_option (\<lambda>w. dkeys (wl_filterable_fields w)) wl) spec_dict)
               else Inr None) of
           Inl x \<Rightarrow> Inl x
         | Inr spec \<Rightarrow>
        (case parse_sort (dget query_params ''sort'') wl of
           Inl x \<Rightarrow> Inl x
         | Inr sort_list \<Rightarrow>
        (case int_param h (dget query_params ''limit'') of
           Inl x \<Rightarrow> Inl x
         | Inr limit \<Rightarrow>
        (case int_param h (dget query_params ''offset'') of
           Inl x \<Rightarrow> Inl x
         | Inr offset \<Rightarrow>
        (case parse_fields (dget query_params ''fields'') wl of
           Inl x \<Rightarrow> Inl x
         | Inr names \<Rightarrow>
            Inr (spec, \<lparr>po_offset = offset, po_limit = limit, po_sort = sort_list, po_fields = names,
              po_cursor = dget query_params ''cursor''\<rparr>))))))))"

section \<open>Security constraints\<close>

text \<open>\<open>get_tenant_id\<close> and \<open>get_owner_id\<close> are what the callbacks return, \<^const>\<open>None\<close> where there is no callback.\<close>

record injector =
  in_get_tenant_id :: "string option option"
  in_get_owner_id :: "string option option"
  in_tenant_field :: string
  in_owner_field :: string
  in_require_tenant :: bool

definition and_with :: "'o spec option \<Rightarrow> 'o spec \<Rightarrow> 'o spec option" where
  "and_with result c = Some (case result of None \<Rightarrow> c | Some r \<Rightarrow> AndSpecification [r, c])"

definition inject :: "injector \<Rightarrow> 'o spec option \<Rightarrow> exn + 'o spec option" where
  "inject i spec =
     (let constraint = (\<lambda>field v. AttributeSpecification (PStr field) EQ (PStr v));
          owner = (case in_get_owner_id i of Some (Some v) \<Rightarrow> [constraint (in_owner_field i) v] | _ \<Rightarrow> [])
      in case in_get_tenant_id i of
           Some None \<Rightarrow>
             if in_require_tenant i then Inl (SecurityConstraintError ''Tenant context is required'')
             else Inr (foldl and_with spec owner)
         | Some (Some t) \<Rightarrow> Inr (foldl and_with spec (constraint (in_tenant_field i) t # owner))
         | None \<Rightarrow> Inr (foldl and_with spec owner))"

section \<open>Pagination and links\<close>

record 'o pagination =
  pg_offset :: "int option"
  pg_limit :: int
  pg_cursor :: "'o pyval"

text \<open>\<^verbatim>\<open>int(v)\<close> with a fallback on \<^verbatim>\<open>TypeError\<close> and \<^verbatim>\<open>ValueError\<close>.\<close>

definition int_or :: "'o host \<Rightarrow> int \<Rightarrow> (int \<Rightarrow> int) \<Rightarrow> 'o pyval \<Rightarrow> exn + int" where
  "int_or h fallback clamp v =
     (case py_int h v of
        Inr (PInt i) \<Rightarrow> Inr (clamp i)
      | Inr _ \<Rightarrow> Inr fallback
      | Inl x \<Rightarrow> (case x of TypeError _ \<Rightarrow> Inr fallback | ValueError _ \<Rightarrow> Inr fallback | _ \<Rightarrow> Inl x))"

text \<open>\<open>decode\<close> is the decoding of a cursor, with its exceptions suppressed.\<close>

definition parse_pagination ::
  "'o host \<Rightarrow> ('o pyval \<Rightarrow> 'o pyval option) \<Rightarrow> int \<Rightarrow> int \<Rightarrow> (string, 'o pyval) dict \<Rightarrow> exn + 'o pagination" where
  "parse_pagination h decode default_limit max_limit query_params =
     (case (if dget query_params ''offset'' = PNone then Inr None
            else map_sum id Some (int_or h 0 (max 0) (dget query_params ''offset''))) of
        Inl x \<Rightarrow> Inl x
      | Inr offset \<Rightarrow>
        (case (if dget query_params ''limit'' = PNone then Inr default_limit
               else int_or h default_limit (\<lambda>i. min max_limit (max 1 i)) (dget query_params ''limit'')) of
           Inl x \<Rightarrow> Inl x
         | Inr limit \<Rightarrow>
            (let raw = dget query_params ''cursor''
             in Inr \<lparr>pg_offset = offset, pg_limit = limit,
                  pg_cursor = (if py_truthy raw then case decode raw of None \<Rightarrow> PNone | Some c \<Rightarrow> c else PNone)\<rparr>)))"

text \<open>The parameters of a link, before URL encoding.\<close>

definition sort_param :: "(string \<times> string) list \<Rightarrow> string" where
  "sort_param entries = join_with (CHR '','') (map (\<lambda>(f, d). if d = ''desc'' then CHR ''-'' # f else f) entries)"

definition link_params ::
  "int option \<Rightarrow> int option \<Rightarrow> (string \<times> string) list \<Rightarrow> string list option \<Rightarrow> (string \<times> 'o pyval) list" where
  "link_params limit offset entries names =
     opt_entry ''limit'' (map_option PInt limit)
     @ opt_entry ''offset'' (map_option PInt offset)
     @ (if entries = [] then [] else [(''sort'', PStr (sort_param entries))])
     @ (case names of
          Some (n # ns) \<Rightarrow> [(''fields'', PStr (join_with (CHR '','') (n # ns)))]
        | _ \<Rightarrow> [])"

section \<open>Lemmas on text\<close>

definition tight :: "string \<Rightarrow> bool" where
  "tight s = (s \<noteq> [] \<and> \<not> is_space (hd s) \<and> \<not> is_space (last s))"

lemma strip_tight [simp]: "tight s \<Longrightarrow> strip s = s"
proof -
  assume "tight s"
  then have "s \<noteq> []" "dropWhile is_space s = s" "dropWhile is_space (rev s) = rev s"
    by (auto simp: tight_def hd_rev dropWhile_eq_self_iff)
  then show ?thesis by (simp add: strip_def)
qed

lemma tight_append: "tight p \<Longrightarrow> tight q \<Longrightarrow> tight (p @ c # q)"
  by (auto simp: tight_def)

lemma tight_join: "ps \<noteq> [] \<Longrightarrow> list_all tight ps \<Longrightarrow> tight (join_with c ps)"
  by (induction ps rule: induct_list012) (auto intro: tight_append)

lemma split_max_pair: "c \<notin> set p \<Longrightarrow> split_max (Suc n) c (p @ c # s) = p # split_max n c s"
  by (induction p) (auto split: list.splits)

lemma split_max_0 [simp]: "split_max 0 c s = [s]"
  by (cases s) auto

lemma join_Cons: "ps \<noteq> [] \<Longrightarrow> join_with c (p # ps) = p @ c # join_with c ps"
  by (cases ps) auto

lemma join_append: "ps \<noteq> [] \<Longrightarrow> qs \<noteq> [] \<Longrightarrow> join_with c (ps @ qs) = join_with c ps @ c # join_with c qs"
  by (induction ps rule: induct_list012) (auto simp: join_Cons)

lemma join_join:
  "list_all (\<lambda>ps. ps \<noteq> []) pss \<Longrightarrow> pss \<noteq> [] \<Longrightarrow> join_with c (map (join_with c) pss) = join_with c (concat pss)"
  by (induction pss rule: induct_list012) (auto simp: join_append)

lemma lower_char_idem: "lower_char (lower_char c) = lower_char c"
  using nat_of_char_less_256 [of c] by (auto simp: lower_char_def Let_def)

lemma lower_lower [simp]: "lower (lower s) = lower s"
  by (simp add: lower_def lower_char_idem)

lemma lower_alias: "lower (resolve_alias (lower s)) = resolve_alias (lower s)"
proof (cases "map_of op_aliases (lower s)")
  case (Some v)
  have "list_all (\<lambda>v. lower v = v) (map snd op_aliases)" by code_simp
  then show ?thesis using Some map_of_dvalues [OF Some] by (auto simp: resolve_alias_def list_all_iff)
qed (simp add: resolve_alias_def)

section \<open>Colon syntax\<close>

text \<open>A clause: its field, its operator and the comma-separated pieces of its value.\<close>

type_synonym clause = "string \<times> string \<times> string list"

definition piece :: "string \<Rightarrow> bool" where
  "piece s = (tight s \<and> CHR '','' \<notin> set s)"

fun clause_ok :: "clause \<Rightarrow> bool" where
  "clause_ok (f, op, vs) = (piece f \<and> CHR '':'' \<notin> set f \<and> piece op \<and> CHR '':'' \<notin> set op \<and> vs \<noteq> [] \<and>
     list_all piece vs \<and> list_all (\<lambda>v. count_list v (CHR '':'') < 2) (tl vs))"

fun clause_segments :: "clause \<Rightarrow> string list" where
  "clause_segments (f, op, vs) = (f @ CHR '':'' # op @ CHR '':'' # hd vs) # tl vs"

definition clause_text :: "clause \<Rightarrow> string" where
  "clause_text c = join_with (CHR '','') (clause_segments c)"

fun clause_dict :: "'o host \<Rightarrow> clause \<Rightarrow> 'o pyval" where
  "clause_dict h (f, op, vs) =
     PDict [(''op'', PStr (resolve_alias (lower op))), (''attr'', PStr f),
       (''val'', parse_value h (join_with (CHR '','') vs) (resolve_alias (lower op)))]"

lemma segments_pieces: "clause_ok c \<Longrightarrow> list_all piece (clause_segments c)"
  by (cases c; cases "snd (snd c)") (auto simp: piece_def intro!: tight_append)

lemma segments_colons:
  "clause_ok c \<Longrightarrow> 2 \<le> count_list (hd (clause_segments c)) (CHR '':'') \<and>
    list_all (\<lambda>s. count_list s (CHR '':'') < 2) (tl (clause_segments c))"
  by (cases c) auto

lemma join_snoc: "ps \<noteq> [] \<Longrightarrow> join_with c (ps @ [q]) = join_with c ps @ c # q"
  by (simp add: join_append)

lemma smart_split_values:
  assumes "list_all piece ss" "list_all (\<lambda>s. count_list s (CHR '':'') < 2) ss" "ps \<noteq> []"
  shows "smart_split_loop (cs @ [join_with (CHR '','') ps]) (ss @ rest) =
    smart_split_loop (cs @ [join_with (CHR '','') (ps @ ss)]) rest"
  using assms
proof (induction ss arbitrary: ps)
  case (Cons s ss)
  then have "strip s = s" "s \<noteq> []" "\<not> 2 \<le> count_list s (CHR '':'')" by (auto simp: piece_def tight_def)
  then show ?case using Cons.IH [of "ps @ [s]"] Cons.prems
    by (simp add: Let_def join_snoc)
qed simp

lemma smart_split_clauses:
  "list_all clause_ok cls \<Longrightarrow>
   smart_split_loop cs (concat (map clause_segments cls)) = cs @ map clause_text cls"
proof (induction cls arbitrary: cs)
  case (Cons c cls)
  obtain s ss where ss: "clause_segments c = s # ss" by (cases c) auto
  have pieces: "piece s" "list_all piece ss" using segments_pieces [of c] Cons.prems ss by auto
  have colons: "2 \<le> count_list s (CHR '':'')" "list_all (\<lambda>s. count_list s (CHR '':'') < 2) ss"
    using segments_colons [of c] Cons.prems ss by auto
  have "strip s = s" "s \<noteq> []" using pieces(1) by (auto simp: piece_def tight_def)
  then have "smart_split_loop cs (concat (map clause_segments (c # cls))) =
      smart_split_loop (cs @ [join_with (CHR '','') [s]]) (ss @ concat (map clause_segments cls))"
    using colons(1) by (simp add: ss Let_def)
  also have "\<dots> = smart_split_loop (cs @ [clause_text c]) (concat (map clause_segments cls))"
    by (subst smart_split_values [OF pieces(2) colons(2)]) (simp_all add: clause_text_def ss)
  finally show ?case using Cons by simp
qed simp

lemma tight_clause: "clause_ok c \<Longrightarrow> tight (clause_text c)"
  unfolding clause_text_def
  using segments_pieces [of c] by (intro tight_join) (auto simp: piece_def list_all_iff elim: clause_segments.elims)

lemma parse_clause_text: "clause_ok c \<Longrightarrow> parse_clause h (clause_text c) = Inr [clause_dict h c]"
proof -
  assume ok: "clause_ok c"
  obtain f op v vs where c: "c = (f, op, v # vs)" using ok by (cases c; cases "snd (snd c)") auto
  have shape: "clause_text c = f @ CHR '':'' # op @ CHR '':'' # join_with (CHR '','') (v # vs)"
    by (cases vs) (simp_all add: clause_text_def c)
  have "tight (clause_text c)" using ok by (rule tight_clause)
  moreover have "tight f" "tight op" "tight (join_with (CHR '','') (v # vs))"
    using ok by (auto simp: c piece_def list_all_iff intro!: tight_join simp del: join_with.simps)
  moreover have "split_max 2 (CHR '':'') (clause_text c) = [f, op, join_with (CHR '','') (v # vs)]"
    using ok unfolding shape by (simp add: c numeral_2_eq_2 split_max_pair del: join_with.simps)
  ultimately show ?thesis
    by (auto simp: parse_clause_def c Let_def tight_def simp del: join_with.simps split_max.simps)
qed

lemma smart_split_text:
  assumes "cls \<noteq> []" "list_all clause_ok cls"
  shows "smart_split (join_with (CHR '','') (map clause_text cls)) = map clause_text cls"
proof -
  have ne: "list_all (\<lambda>ps. ps \<noteq> []) (map clause_segments cls)" by (auto simp: list_all_iff elim: clause_segments.elims)
  have shape: "join_with (CHR '','') (map clause_text cls) = join_with (CHR '','') (concat (map clause_segments cls))"
    using join_join [OF ne, of "CHR '',''"] assms(1) by (simp add: clause_text_def [abs_def] comp_def)
  have "list_all (\<lambda>s. CHR '','' \<notin> set s) (concat (map clause_segments cls))"
    unfolding list_all_iff
  proof
    fix s assume "s \<in> set (concat (map clause_segments cls))"
    then obtain c where "c \<in> set cls" "s \<in> set (clause_segments c)" by auto
    then have "piece s" using assms(2) segments_pieces [of c] unfolding list_all_iff by blast
    then show "CHR '','' \<notin> set s" by (simp add: piece_def)
  qed
  moreover have "concat (map clause_segments cls) \<noteq> []" using assms(1) ne by (cases cls) auto
  ultimately show ?thesis
    using smart_split_clauses [OF assms(2), of "[]"] by (simp add: smart_split_def shape split_on_join)
qed

text \<open>
  The colon syntax reads back what is written: for clauses \<^verbatim>\<open>field:op:v1,v2\<close> joined by commas, where
  no later piece of a value has two colons, the filter is the conjunction of the clauses, each value
  keeping its commas.
\<close>

theorem colon_syntax_roundtrip:
  assumes "list_all clause_ok (c # c' # cls)"
  shows "colon_parse_filter h (PStr (join_with (CHR '','') (map clause_text (c # c' # cls)))) =
    Inr (PDict [(''op'', PStr ''and''), (''conditions'', PList (map (clause_dict h) (c # c' # cls)))])"
proof -
  let ?cls = "c # c' # cls"
  have parsed: "traverse (parse_clause h) (map clause_text ?cls) = Inr (map (\<lambda>c. [clause_dict h c]) ?cls)"
    using assms by (simp only: traverse_map) (intro traverse_all_Inr parse_clause_text, auto simp: list_all_iff)
  have "list_all tight (map clause_text ?cls)" using assms tight_clause by (simp add: list_all_iff)
  then have "tight (join_with (CHR '','') (map clause_text ?cls))" by (intro tight_join) simp_all
  then have "join_with (CHR '','') (map clause_text ?cls) \<noteq> []" by (auto simp: tight_def)
  then show ?thesis
    using smart_split_text [of ?cls] parsed assms
    by (simp add: colon_parse_filter_def del: list.map join_with.simps traverse_map) simp
qed

theorem colon_syntax_roundtrip_witness:
  "colon_parse_filter ex_host (PStr ''age:between:1,5,name:eq:bob'') =
    Inr (PDict [(''op'', PStr ''and''), (''conditions'', PList
      [PDict [(''op'', PStr ''between''), (''attr'', PStr ''age''), (''val'', PList [PInt 1, PInt 5])],
       PDict [(''op'', PStr ''=''), (''attr'', PStr ''name''), (''val'', PStr ''bob'')]])])"
  using colon_syntax_roundtrip [of "(''age'', ''between'', [''1'', ''5''])" "(''name'', ''eq'', [''bob''])" "[]" ex_host]
  by (simp add: clause_text_def piece_def tight_def is_space_def parse_value_def parse_simple_value_def lower_def
      lower_char_def resolve_alias_def op_aliases_def int_of_text_def strip_def ex_host_def Let_def)

section \<open>Whitelisting of filters\<close>

primrec spec_leaves :: "'o spec \<Rightarrow> ('o pyval \<times> spec_operator) list" where
  "spec_leaves (AttributeSpecification attr op val) = [(attr, op)]"
| "spec_leaves (AndSpecification specs) = concat (map spec_leaves specs)"
| "spec_leaves (OrSpecification specs) = concat (map spec_leaves specs)"
| "spec_leaves (NotSpecification s) = spec_leaves s"

definition leaf_permitted :: "field_whitelist \<Rightarrow> 'o pyval \<times> spec_operator \<Rightarrow> bool" where
  "leaf_permitted wl leaf = (case leaf of
     (PStr f, op) \<Rightarrow>
       (case map_of (wl_filterable_fields wl) f of
          None \<Rightarrow> False
        | Some ops \<Rightarrow> list_ex (\<lambda>a. a = op_value op \<or> map_of op_to_alias (op_value op) = Some a) ops)
   | _ \<Rightarrow> False)"

lemma allow_filter_permits: "allow_filter wl f (op_value op) = Inr () \<Longrightarrow> leaf_permitted wl (PStr f, op)"
  by (auto simp: allow_filter_def leaf_permitted_def Let_def list_ex_iff split: option.splits if_splits)

definition is_clause :: "'o pyval \<Rightarrow> bool" where
  "is_clause c = (\<exists>op f v. c = PDict [(''op'', PStr op), (''attr'', PStr f), (''val'', v)] \<and> lower op = op)"

lemma parse_clause_shape: "parse_clause h part = Inr cs \<Longrightarrow> c \<in> set cs \<Longrightarrow> is_clause c"
  using lower_alias
  by (auto simp: parse_clause_def is_clause_def Let_def split: if_splits list.splits)

lemma colon_shape:
  assumes "colon_parse_filter h raw = Inr r"
  shows "r = PDict [] \<or> is_clause r \<or>
    (\<exists>cs. r = PDict [(''op'', PStr ''and''), (''conditions'', PList cs)] \<and> (\<forall>c \<in> set cs. is_clause c))"
proof (cases raw)
  case (PStr t)
  show ?thesis
  proof (cases "t = []")
    case False
    then obtain parts where p: "traverse (parse_clause h) (smart_split t) = Inr parts"
      using assms PStr by (auto simp: colon_parse_filter_def split: sum.splits)
    have all: "\<forall>c \<in> set (concat parts). is_clause c"
      using traverse_set [OF p] parse_clause_shape by fastforce
    then show ?thesis using assms PStr False p
      by (cases "concat parts"; cases "tl (concat parts)") (auto simp: colon_parse_filter_def)
  qed (use assms PStr in \<open>simp add: colon_parse_filter_def\<close>)
qed (use assms in \<open>simp_all add: colon_parse_filter_def\<close>)

lemma operator_of_sound: "operator_of v = Inr op \<Longrightarrow> op_value op = v"
proof -
  assume "operator_of v = Inr op"
  then obtain e where "find (\<lambda>e. snd e = v) operator_values = Some e" "op = fst e"
    by (auto simp: operator_of_def split: option.splits)
  then have e: "e \<in> set operator_values" "snd e = v" "op = fst e"
    by (auto simp: find_Some_iff)
  have "distinct (map fst operator_values)" by code_simp
  then have "map_of operator_values op = Some v" using e by (cases e) (simp add: map_of_eq_Some_iff)
  then show ?thesis by (simp add: op_value_def)
qed

lemma clause_permitted:
  assumes "is_clause c" "validate_spec_dict h wl c = Inr ()" "validate_node allowed path c = Inr ()"
    "build_spec h c = Inr s"
  shows "list_all (leaf_permitted wl) (spec_leaves s)"
proof -
  obtain op f v where c: "c = PDict [(''op'', PStr op), (''attr'', PStr f), (''val'', v)]" "lower op = op"
    using assms(1) by (auto simp: is_clause_def)
  have allowed: "allow_filter wl f op = Inr ()"
    using assms(2) by (simp add: c validate_spec_dict.simps with_name_def py_str_def)
  have "op \<notin> set logical_operators"
    using assms(3) c(2) by (auto simp: c(1) validate_node.simps split: if_splits)
  then have "build_leaf h op [(''op'', PStr op), (''attr'', PStr f), (''val'', v)] = Inr s"
    using assms(4) c(2) by (auto simp: c(1) build_spec.simps logical_operators_def)
  then show ?thesis
    using allowed by (auto simp: build_leaf_def allow_filter_permits dest: operator_of_sound split: sum.splits)
qed

lemma conjunction_permitted:
  assumes r: "r = PDict [(''op'', PStr ''and''), (''conditions'', PList cs)]" and cs: "\<forall>c \<in> set cs. is_clause c"
    and "validate_spec_dict h wl r = Inr ()" "validate_node allowed path r = Inr ()" "build_spec h r = Inr s"
  shows "list_all (leaf_permitted wl) (spec_leaves s)"
proof -
  obtain specs where specs: "traverse (\<lambda>c. build_spec h c) cs = Inr specs" "s = AndSpecification specs"
    using assms(5) by (auto simp: r build_spec.simps [of h "PDict _"] conditions_of_def map_sum_Inr)
  have "list_all (leaf_permitted wl) (spec_leaves t)" if t: "t \<in> set specs" for t
  proof -
    obtain c where c: "c \<in> set cs" "build_spec h c = Inr t" using traverse_set [OF specs(1) t] by blast
    have "validate_spec_dict h wl c = Inr ()"
      using assms(3) c(1) by (auto simp: r validate_spec_dict.simps [of h wl "PDict _"] conditions_of_def traverse_unit_ok)
    moreover obtain i where "(i, c) \<in> set (enumerate 0 cs)" using in_enumerate [OF c(1)] by blast
    then have "validate_node allowed (condition_path path i) c = Inr ()"
      using validated_logical [OF assms(4) [unfolded r], of "''and''"] by auto
    ultimately show ?thesis using clause_permitted cs c by blast
  qed
  then show ?thesis by (auto simp: specs(2) list_all_iff)
qed

lemma parse_params_steps:
  assumes "parse_params h loads syntax params (Some wl) = Inr (Some s, opts)"
  shows "\<exists>r. parse_filter h loads syntax (dget params ''filter'') = Inr r \<and> r \<noteq> PDict [] \<and>
    validate_spec_dict h wl r = Inr () \<and> from_dict h (Some (dkeys (wl_filterable_fields wl))) r = Inr s \<and>
    parse_fields (dget params ''fields'') (Some wl) = Inr (po_fields opts)"
  using assms
  by (auto simp: parse_params_def Let_def map_sum_Inr split: if_splits sum.splits)

lemma traverse_each: "traverse f xs = Inr ys \<Longrightarrow> x \<in> set xs \<Longrightarrow> \<exists>y. f x = Inr y"
  by (drule traverse_InrD) (auto simp: list_all2_conv_all_nth in_set_conv_nth)

lemma project_permitted:
  "with_name not_allowed (allow_project wl) n = Inr u \<Longrightarrow> n \<in> PStr ` set (wl_projectable_fields wl)"
  by (cases n) (auto simp: with_name_def allow_project_def hashable_def split: if_splits)

lemma fields_permitted:
  assumes "parse_fields raw (Some wl) = Inr (Some names)"
  shows "set names \<subseteq> PStr ` set (wl_projectable_fields wl)"
proof -
  from assms obtain us where us: "traverse (with_name not_allowed (allow_project wl)) names = Inr us"
    by (cases raw) (auto simp: parse_fields_def Let_def split: if_splits sum.splits)
  show ?thesis using traverse_each [OF us] project_permitted by blast
qed

text \<open>
  C28: Colon filters obey the whitelist: every condition of the parsed specification is on a filterable
  field with an operator that is allowed for that field, and every requested field is projectable.
\<close>

theorem colon_filters_whitelisted:
  assumes "parse_params h loads ColonSeparatedSyntax params (Some wl) = Inr (Some s, opts)"
  shows "list_all (leaf_permitted wl) (spec_leaves s) \<and>
    set (case po_fields opts of None \<Rightarrow> [] | Some names \<Rightarrow> names) \<subseteq> PStr ` set (wl_projectable_fields wl)"
proof -
  obtain r where r: "colon_parse_filter h (dget params ''filter'') = Inr r" "r \<noteq> PDict []"
    "validate_spec_dict h wl r = Inr ()" "from_dict h (Some (dkeys (wl_filterable_fields wl))) r = Inr s"
    "parse_fields (dget params ''fields'') (Some wl) = Inr (po_fields opts)"
    using parse_params_steps [OF assms] by (auto simp: parse_filter_def)
  from r(4) have built: "validate_node (Some (dkeys (wl_filterable_fields wl))) ''<root>'' r = Inr ()" "build_spec h r = Inr s"
    by (auto simp: from_dict_def split: sum.splits)
  have "list_all (leaf_permitted wl) (spec_leaves s)"
    using colon_shape [OF r(1)] r(2,3) built clause_permitted conjunction_permitted by blast
  then show ?thesis using fields_permitted [of _ wl] r(5) by (cases "po_fields opts") auto
qed

text \<open>
  A sort parameter that is a string is not checked: whatever the whitelist allows, sorting by any field is
  accepted, while the same fields as a list are refused unless they are sortable.
\<close>

theorem sort_string_unchecked:
  "parse_sort (PStr (c # cs)) (Some wl) = Inr (parse_sort_string (c # cs)) \<and>
   parse_sort_list (Some wl) [PStr (c # cs)] =
     (case sort_text (c # cs) of (PStr f, d) \<Rightarrow> map_sum id (\<lambda>_. [(PStr f, d)]) (allow_sort wl f) | _ \<Rightarrow> Inr [])"
  by (auto simp: parse_sort_def parse_sort_item_def sort_text_def with_name_def split: sum.splits)

definition ex_whitelist :: field_whitelist where
  "ex_whitelist = \<lparr>wl_filterable_fields = [(''age'', [''gt'']), (''name'', [''eq''])], wl_sortable_fields = [''age''],
     wl_projectable_fields = [''id'']\<rparr>"

definition ex_params :: "(string, unit pyval) dict" where
  "ex_params = [(''filter'', PStr ''age:gt:5''), (''fields'', PStr ''id'')]"

lemma op_value_GT [simp]: "op_value GT = ''>''"
  by (simp add: op_value_def operator_values_def)

lemma ex_parse:
  "\<exists>opts. parse_params ex_host (\<lambda>_. None) ColonSeparatedSyntax ex_params (Some ex_whitelist) =
     Inr (Some (AttributeSpecification (PStr ''age'') GT (PInt 5)), opts) \<and> po_fields opts = Some [PStr ''id'']"
proof -
  have f: "colon_parse_filter ex_host (PStr ''age:gt:5'') = Inr (spec_to_dict (AttributeSpecification (PStr ''age'') GT (PInt 5)))"
    by (simp add: colon_parse_filter_def smart_split_def parse_clause_def strip_def is_space_def parse_value_def
        parse_simple_value_def lower_def lower_char_def resolve_alias_def op_aliases_def int_of_text_def Let_def
        eval_nat_numeral)
  have ok: "spec_ok (Some [''age'', ''name'']) (AttributeSpecification (PStr ''age'') GT (PInt 5))"
    by (simp add: field_allowed_def)
  have "from_dict ex_host (Some [''age'', ''name'']) (spec_to_dict (AttributeSpecification (PStr ''age'') GT (PInt 5))) =
      Inr (AttributeSpecification (PStr ''age'') GT (PInt 5))"
    by (simp only: from_dict_def validate_spec_to_dict [OF ok] build_spec_to_dict [OF ok] sum.case)
  then show ?thesis
    using f by (simp add: parse_params_def ex_params_def parse_filter_def ex_whitelist_def validate_spec_dict.simps
        with_name_def py_str_def allow_filter_def op_to_alias_def parse_sort_def int_param_def parse_fields_def
        allow_project_def strip_def is_space_def Let_def)
qed

theorem colon_filters_whitelisted_witness:
  "list_all (leaf_permitted ex_whitelist) (spec_leaves (AttributeSpecification (PStr ''age'') GT (PInt 5) :: unit spec)) \<and>
   set [PStr ''id'' :: unit pyval] \<subseteq> PStr ` set (wl_projectable_fields ex_whitelist)"
proof -
  obtain opts where p: "parse_params ex_host (\<lambda>_. None) ColonSeparatedSyntax ex_params (Some ex_whitelist) =
      Inr (Some (AttributeSpecification (PStr ''age'') GT (PInt 5)), opts)" "po_fields opts = Some [PStr ''id'']"
    using ex_parse by blast
  from colon_filters_whitelisted [OF p(1)] p(2) show ?thesis by simp
qed

text \<open>
  JSON filters escape the whitelist: a request that puts its condition behind an empty list of
  conditions is accepted and filters on a field and with an operator that the whitelist does not allow.
\<close>

theorem json_filter_escapes_whitelist:
  "parse_params h loads JsonFilterSyntax [(''filter'', PDict [(''op'', PStr ''not''), (''conditions'', PList []),
      (''condition'', PDict [(''op'', PStr ''=''), (''attr'', PStr field), (''val'', v)])])] (Some wl) =
   Inr (Some (NotSpecification (AttributeSpecification (PStr field) EQ v)),
     \<lparr>po_offset = None, po_limit = None, po_sort = [], po_fields = None, po_cursor = PNone\<rparr>)"
proof -
  have "normalise (PDict [(''op'', PStr ''not''), (''conditions'', PList []),
      (''condition'', PDict [(''op'', PStr ''=''), (''attr'', PStr field), (''val'', v)])]) =
    Inr (PDict [(''op'', PStr ''not''), (''conditions'', PList []),
      (''condition'', PDict [(''op'', PStr ''=''), (''attr'', PStr field), (''val'', v)])])"
    by (subst normalise.simps) simp
  then show ?thesis
    by (simp add: parse_params_def parse_filter_def json_parse_filter_def validate_spec_dict.simps conditions_of_def
        whitelist_bypassed parse_sort_def int_param_def parse_fields_def)
qed

section \<open>Security constraints and pagination\<close>

text \<open>
  C29: Security constraints cannot be filtered away: when a tenant is known, the injected specification
  accepts a candidate exactly if it carries the tenant's id, and the owner's id where an owner is known, and
  meets the client's specification.
\<close>

theorem tenant_constraint_enforced:
  assumes "map_of reg EQ = Some equal_op" "in_get_tenant_id i = Some (Some t)"
  shows "\<exists>s. inject i spec = Inr (Some s) \<and>
    (is_satisfied_by h reg x s = Inr True \<longleftrightarrow>
       (case spec of None \<Rightarrow> True | Some c \<Rightarrow> is_satisfied_by h reg x c = Inr True) \<and>
       resolve_field h x (in_tenant_field i) = PStr t \<and>
       (case in_get_owner_id i of Some (Some ow) \<Rightarrow> resolve_field h x (in_owner_field i) = PStr ow | _ \<Rightarrow> True))"
proof -
  have eq: "py_eq v (PStr w) \<longleftrightarrow> v = PStr w" for v :: "'a pyval" and w
    by (cases v) (auto simp: num_eq_def split: option.splits)
  then have leaf: "reg_evaluate reg EQ v (PStr w) = Inr (v = PStr w)" for v w
    using assms(1) by (simp add: reg_evaluate_def equal_op_def)
  show ?thesis using assms(2)
    by (cases spec; cases "in_get_owner_id i"; cases "the (in_get_owner_id i)")
      (auto simp: inject_def Let_def and_with_def leaf split: sum.splits)
qed

theorem tenant_constraint_enforced_witness:
  "\<exists>s. inject \<lparr>in_get_tenant_id = Some (Some ''t1''), in_get_owner_id = None, in_tenant_field = ''tenant_id'',
       in_owner_field = ''owner_id'', in_require_tenant = True\<rparr> (Some (AttributeSpecification (PStr ''age'') EQ (PInt 3))) =
     Inr (Some s) \<and>
     is_satisfied_by ex_host [(EQ, equal_op)] (PDict [(''tenant_id'', PStr ''t2''), (''age'', PInt 3)]) s \<noteq> Inr True"
  using tenant_constraint_enforced [of "[(EQ, equal_op)]" "\<lparr>in_get_tenant_id = Some (Some ''t1''), in_get_owner_id = None,
      in_tenant_field = ''tenant_id'', in_owner_field = ''owner_id'', in_require_tenant = True\<rparr>" "''t1''"
      "Some (AttributeSpecification (PStr ''age'') EQ (PInt 3))" ex_host "PDict [(''tenant_id'', PStr ''t2''), (''age'', PInt 3)]"]
  by (auto simp: resolve_field_def)

lemma int_or_cases: "int_or h d clamp v = Inr k \<Longrightarrow> k = d \<or> (\<exists>i. k = clamp i)"
proof (cases "py_int h v")
  case (Inl x)
  assume "int_or h d clamp v = Inr k"
  then show ?thesis using Inl by (cases x) (simp_all add: int_or_def)
next
  case (Inr r)
  assume "int_or h d clamp v = Inr k"
  then show ?thesis using Inr by (cases r) (auto simp: int_or_def)
qed

text \<open>
  Pagination is bounded: whatever the request says, the page size lies between one and the maximum
  and the offset is not negative.
\<close>

theorem pagination_bounded:
  assumes "parse_pagination h decode default_limit max_limit params = Inr p"
    and "1 \<le> default_limit" "default_limit \<le> max_limit"
  shows "1 \<le> pg_limit p \<and> pg_limit p \<le> max_limit \<and> (case pg_offset p of None \<Rightarrow> True | Some k \<Rightarrow> 0 \<le> k)"
proof -
  have clamp: "1 \<le> l \<and> l \<le> max_limit" if "int_or h default_limit (\<lambda>i. min max_limit (max 1 i)) v = Inr l" for v l
    using int_or_cases [OF that] assms(2,3) by auto
  have nonneg: "0 \<le> k" if "int_or h 0 (max 0) v = Inr k" for v k
    using int_or_cases [OF that] by auto
  from assms(1) obtain off lim where
    off: "(if dget params ''offset'' = PNone then Inr None
       else map_sum id Some (int_or h 0 (max 0) (dget params ''offset''))) = Inr off" and
    lim: "(if dget params ''limit'' = PNone then Inr default_limit
       else int_or h default_limit (\<lambda>i. min max_limit (max 1 i)) (dget params ''limit'')) = Inr lim" and
    p: "pg_offset p = off" "pg_limit p = lim"
    unfolding parse_pagination_def Let_def by (auto split: sum.splits)
  have "1 \<le> lim \<and> lim \<le> max_limit" using lim clamp [of "dget params ''limit''" lim] assms(2,3) by (auto split: if_splits)
  moreover have "case off of None \<Rightarrow> True | Some k \<Rightarrow> 0 \<le> k"
    using off nonneg [of "dget params ''offset''" "the off"] by (auto simp: map_sum_Inr split: if_splits)
  ultimately show ?thesis by (simp add: p)
qed

theorem pagination_bounded_witness:
  "\<exists>p. parse_pagination ex_host (\<lambda>_. None) 20 100 [(''offset'', PStr ''-3''), (''limit'', PInt 5000)] = Inr p \<and>
     1 \<le> pg_limit p \<and> pg_limit p \<le> 100 \<and> pg_offset p = Some 0"
proof -
  have p: "parse_pagination ex_host (\<lambda>_. None) 20 100 [(''offset'', PStr ''-3''), (''limit'', PInt 5000)] =
      Inr \<lparr>pg_offset = Some 0, pg_limit = 100, pg_cursor = PNone\<rparr>"
    by (simp add: parse_pagination_def int_or_def py_int_def int_of_text_def strip_def is_space_def)
  from pagination_bounded [OF p] p show ?thesis by simp
qed

section \<open>Links\<close>

lemma digits_show_nat:
  "digits acc b (show_nat n @ rest) = digits (acc * 10 ^ length (show_nat n) + int n) True rest"
proof (induction n arbitrary: acc b rest rule: show_nat.induct)
  case (1 n)
  have digit: "digits a b (char_of (48 + k) # r) = digits (10 * a + int k) True r" if "k < 10" for a b k r
  proof -
    have n: "of_char (char_of (48 + k)) = 48 + k" using that by simp
    then have "(of_char (char_of (48 + k)) :: int) = 48 + int k"
      using of_nat_of_char [of "char_of (48 + k)", where ?'a = int] by simp
    with n show ?thesis using that by (simp add: less_eq_char_def)
  qed
  show ?case
  proof (cases "n < 10")
    case True
    then show ?thesis using digit [of n acc b rest] by (simp add: show_nat.simps [of n] mult.commute)
  next
    case False
    then have "digits acc b (show_nat n @ rest) =
        digits (acc * 10 ^ length (show_nat (n div 10)) + int (n div 10)) True (char_of (48 + n mod 10) # rest)"
      using "1.IH" by (simp add: show_nat.simps [of n])
    also have "\<dots> = digits (10 * (acc * 10 ^ length (show_nat (n div 10)) + int (n div 10)) + int (n mod 10)) True rest"
      by (rule digit) simp
    also have "10 * int (n div 10) + int (n mod 10) = int n" by presburger
    then have "10 * (acc * 10 ^ length (show_nat (n div 10)) + int (n div 10)) + int (n mod 10) =
        acc * 10 ^ length (show_nat n) + int n"
      using False by (simp add: show_nat.simps [of n])
    finally show ?thesis .
  qed
qed

lemma show_nat_chars: "list_all (\<lambda>c. CHR ''0'' \<le> c \<and> c \<le> CHR ''9'') (show_nat n) \<and> show_nat n \<noteq> []"
proof (induction n rule: show_nat.induct)
  case (1 n)
  have "CHR ''0'' \<le> char_of (48 + k) \<and> char_of (48 + k) \<le> CHR ''9''" if "k < 10" for k :: nat
    using that by (simp add: less_eq_char_def)
  then show ?case using 1 by (subst (1 2) show_nat.simps) auto
qed

lemma digit_plain: "CHR ''0'' \<le> c \<Longrightarrow> c \<le> CHR ''9'' \<Longrightarrow> \<not> is_space c \<and> c \<noteq> CHR ''-'' \<and> c \<noteq> CHR ''+'' \<and> c \<noteq> CHR '','' "
  by (auto simp: less_eq_char_def is_space_def Let_def)

lemma int_of_show: "int_of_text (show_int i) = Some i"
proof -
  have hd_last: "CHR ''0'' \<le> hd (show_nat n)" "hd (show_nat n) \<le> CHR ''9''" "CHR ''0'' \<le> last (show_nat n)" "last (show_nat n) \<le> CHR ''9''" for n
    using show_nat_chars [of n] hd_in_set last_in_set unfolding list_all_iff by blast+
  have tight: "tight (show_nat n)" "hd (show_nat n) \<noteq> CHR ''-''" "hd (show_nat n) \<noteq> CHR ''+''" for n
    using show_nat_chars [of n] digit_plain [OF hd_last(1,2)] digit_plain [OF hd_last(3,4)] by (auto simp: tight_def)
  have val: "digits 0 False (show_nat n) = Some (int n)" for n using digits_show_nat [of 0 False n "[]"] by simp
  show ?thesis
  proof (cases "i < 0")
    case True
    have "tight (show_int i)"
      using True show_nat_chars [of "nat (- i)"] tight(1) [of "nat (- i)"] by (auto simp: show_int_def tight_def is_space_def)
    then show ?thesis using True val [of "nat (- i)"] by (simp add: int_of_text_def show_int_def)
  next
    case False
    obtain c cs where cs: "show_nat (nat i) = c # cs" using show_nat_chars [of "nat i"] by (cases "show_nat (nat i)") auto
    then show ?thesis using False tight [of "nat i"] val [of "nat i"] by (simp add: int_of_text_def show_int_def)
  qed
qed

definition sort_entry_ok :: "string \<times> string \<Rightarrow> bool" where
  "sort_entry_ok e = (piece (fst e) \<and> hd (fst e) \<noteq> CHR ''-'' \<and> snd e \<in> {''asc'', ''desc''})"

lemma sort_param_roundtrip:
  assumes "es \<noteq> []" "list_all sort_entry_ok es"
  shows "parse_sort_string (sort_param es) = map (\<lambda>(f, d). (PStr f, PStr d)) es"
proof -
  let ?item = "\<lambda>(f, d). if d = ''desc'' then CHR ''-'' # f else f"
  have item: "strip (?item e) = ?item e" "CHR '','' \<notin> set (?item e)"
    "sort_text (?item e) = (PStr (fst e), PStr (snd e))" if "e \<in> set es" for e
  proof -
    have ok: "sort_entry_ok e" using that assms(2) by (simp add: list_all_iff)
    then have "tight (?item e)" by (auto simp: sort_entry_ok_def piece_def tight_def is_space_def split: prod.splits)
    then show "strip (?item e) = ?item e" by simp
    show "CHR '','' \<notin> set (?item e)" using ok by (auto simp: sort_entry_ok_def piece_def split: prod.splits)
    show "sort_text (?item e) = (PStr (fst e), PStr (snd e))"
      using ok by (cases "fst e") (auto simp: sort_entry_ok_def piece_def tight_def sort_text_def split: prod.splits)
  qed
  have "split_on (CHR '','') (sort_param es) = map ?item es"
    unfolding sort_param_def using assms(1) item(2) by (intro split_on_join) (auto simp: list_all_iff)
  moreover have "sort_text (strip (?item e)) = (case e of (f, d) \<Rightarrow> (PStr f, PStr d))" if "e \<in> set es" for e
    unfolding item(1) [OF that] item(3) [OF that] by (simp add: split_beta)
  ultimately show ?thesis by (simp only: parse_sort_string_def map_map comp_def) (rule map_cong [OF refl])
qed

text \<open>
  Pagination links lead back: the parameters of a link, sent as text, are parsed to the limit, offset,
  sort order and fields the link was built from, if names are free of commas and surrounding space and
  no sort field starts with a minus sign.
\<close>

theorem link_roundtrip:
  assumes "list_all sort_entry_ok es" "list_all piece names"
  shows "parse_params h loads syntax
      (map (\<lambda>(k, v). (k, PStr (py_str h v))) (link_params limit offset es (if names = [] then None else Some names))) None =
    Inr (None, \<lparr>po_offset = map_option PInt offset, po_limit = map_option PInt limit,
      po_sort = map (\<lambda>(f, d). (PStr f, PStr d)) es,
      po_fields = (if names = [] then None else Some (map PStr names)), po_cursor = PNone\<rparr>)"
proof -
  let ?sent = "map (\<lambda>(k, v). (k, PStr (py_str h v))) (link_params limit offset es (if names = [] then None else Some names))"
  have vals: "dget ?sent ''filter'' = PNone" "dget ?sent ''cursor'' = PNone"
    "dget ?sent ''limit'' = (case limit of None \<Rightarrow> PNone | Some i \<Rightarrow> PStr (show_int i))"
    "dget ?sent ''offset'' = (case offset of None \<Rightarrow> PNone | Some i \<Rightarrow> PStr (show_int i))"
    "dget ?sent ''sort'' = (if es = [] then PNone else PStr (sort_param es))"
    "dget ?sent ''fields'' = (if names = [] then PNone else PStr (join_with (CHR '','') names))"
    by (auto simp: link_params_def opt_entry_def dget_def py_str_def split: option.splits list.splits)
  have ints: "int_param h (case k of None \<Rightarrow> PNone | Some i \<Rightarrow> PStr (show_int i)) = Inr (map_option PInt k)" for k
    by (auto simp: int_param_def py_int_def int_of_show split: option.splits)
  have "sort_param es \<noteq> []" if "es \<noteq> []"
    using that assms(1) by (cases es; cases "tl es") (auto simp: sort_param_def sort_entry_ok_def piece_def tight_def)
  then have sorted: "parse_sort (if es = [] then PNone else PStr (sort_param es)) None = Inr (map (\<lambda>(f, d). (PStr f, PStr d)) es)"
    using sort_param_roundtrip [OF _ assms(1)] by (cases "es = []") (simp_all add: parse_sort_def)
  have names: "parse_fields (if names = [] then PNone else PStr (join_with (CHR '','') names)) None =
      Inr (if names = [] then None else Some (map PStr names))"
  proof (cases "names = []")
    case False
    have split: "split_on (CHR '','') (join_with (CHR '','') names) = names"
      using False assms(2) by (intro split_on_join) (auto simp: list_all_iff piece_def)
    have "map strip names = names" "filter (\<lambda>f. f \<noteq> []) names = names"
      using assms(2) by (auto simp: list_all_iff piece_def tight_def intro!: map_idI filter_id_conv')
    moreover have "tight (join_with (CHR '','') names)"
      using False assms(2) by (intro tight_join) (auto simp: list_all_iff piece_def)
    ultimately show ?thesis using False by (auto simp: parse_fields_def split tight_def)
  qed (simp add: parse_fields_def)
  show ?thesis by (simp add: parse_params_def vals ints sorted names)
qed

theorem link_roundtrip_witness:
  "parse_params ex_host (\<lambda>_. None) ColonSeparatedSyntax
     (map (\<lambda>(k, v). (k, PStr (py_str ex_host v))) (link_params (Some 20) (Some 40) [(''age'', ''desc'')] (Some [''id'']))) None =
   Inr (None, \<lparr>po_offset = Some (PInt 40), po_limit = Some (PInt 20), po_sort = [(PStr ''age'', PStr ''desc'')],
     po_fields = Some [PStr ''id''], po_cursor = PNone\<rparr>)"
  using link_roundtrip [of "[(''age'', ''desc'')]" "[''id'']" ex_host "\<lambda>_. None" ColonSeparatedSyntax "Some 20" "Some 40"]
  by (simp add: sort_entry_ok_def piece_def tight_def is_space_def)

end
