(* ===== verification/Projections.thy ===== *)
theory Projections
  imports EventSourcing Locking
begin

text \<open>
  The projections engine (engines/projections/src/cqrs_ddd_projections): checkpoint.py, registry.py,
  handler.py, error_handling.py, worker.py, partitioning.py, replay.py and sink.py.

  The read models that the handlers write are a value of type \<^typ>\<open>'s\<close>; a handler, a dead-letter
  callback and a progress callback map it to the next value and may raise.  An event class is its name,
  and \<open>isa\<close> is \<^verbatim>\<open>isinstance\<close> on event classes.  One round of the worker loop is a step in which the
  surroundings act at fixed places: a signal per place of the batch says whether the flag \<^verbatim>\<open>_running\<close> is
  found cleared there, or \<^verbatim>\<open>stop\<close> cancels the task while it awaits at that place, the last place
  being the write of the checkpoint.  Sleeping between rounds has no effect on the state.
\<close>

section \<open>Checkpoints\<close>

type_synonym checkpoints = "(string, int) dict"

definition get_position :: "checkpoints \<Rightarrow> string \<Rightarrow> int option" where
  "get_position cp name = map_of cp name"

definition save_position :: "checkpoints \<Rightarrow> string \<Rightarrow> int \<Rightarrow> checkpoints" where
  "save_position cp name position = AList.update name position cp"

definition clear_positions :: "checkpoints \<Rightarrow> checkpoints" where
  "clear_positions cp = []"

section \<open>Projection handlers and their registry\<close>

type_synonym 's effect = "domain_event \<Rightarrow> 's \<Rightarrow> 's \<times> exn option"
type_synonym 's projection_handler = "(string, 's effect) dict"

definition add_projection_handler ::
  "string \<Rightarrow> 's effect \<Rightarrow> 's projection_handler \<Rightarrow> 's projection_handler" where
  "add_projection_handler event_type f ph = AList.update event_type f ph"

definition handles :: "'s projection_handler \<Rightarrow> string list" where
  "handles ph = dkeys ph"

definition handle_projection ::
  "(string \<Rightarrow> string \<Rightarrow> bool) \<Rightarrow> 's projection_handler \<Rightarrow> 's effect" where
  "handle_projection isa ph event s =
     (let handler = (case map_of ph (de_class event) of
                       Some f \<Rightarrow> Some f
                     | None \<Rightarrow> map_option snd (List.find (\<lambda>(ty, f). isa (de_class event) ty) ph))
      in case handler of None \<Rightarrow> (s, None) | Some f \<Rightarrow> f event s)"

type_synonym 's projection_registry = "(string, 's projection_handler list) dict"

text \<open>\<^verbatim>\<open>setdefault(name, []).append(handler)\<close> for every event class of the handler.\<close>

definition register_for :: "'s projection_handler \<Rightarrow> string \<Rightarrow> 's projection_registry \<Rightarrow> 's projection_registry" where
  "register_for ph name reg =
     (case map_of reg name of
        None \<Rightarrow> AList.update name [ph] reg
      | Some hs \<Rightarrow> AList.update name (hs @ [ph]) reg)"

definition register_projection :: "'s projection_handler \<Rightarrow> 's projection_registry \<Rightarrow> 's projection_registry" where
  "register_projection ph reg = fold (register_for ph) (handles ph) reg"

definition get_projection_handlers :: "'s projection_registry \<Rightarrow> string \<Rightarrow> 's projection_handler list" where
  "get_projection_handlers reg event_type = (case map_of reg event_type of None \<Rightarrow> [] | Some hs \<Rightarrow> hs)"

section \<open>Error policies\<close>

datatype 's policy_handler =
    HandleSkip
  | HandleRetry
  | HandleDeadLetter
  | HandleRetryThenDeadLetter
  | Custom "domain_event \<Rightarrow> exn \<Rightarrow> int \<Rightarrow> 's \<Rightarrow> 's \<times> exn option"

record 's error_policy =
  ep_policy :: string
  ep_max_retries :: int
  ep_dead_letter_callback :: "(domain_event \<Rightarrow> exn \<Rightarrow> 's \<Rightarrow> 's \<times> exn option) option"
  ep_policies :: "(string, 's policy_handler) dict"

definition register_policy :: "string \<Rightarrow> 's policy_handler \<Rightarrow> 's error_policy \<Rightarrow> 's error_policy" where
  "register_policy name h p = p\<lparr>ep_policies := AList.update name h (ep_policies p)\<rparr>"

definition register_builtin_policies :: "'s error_policy \<Rightarrow> 's error_policy" where
  "register_builtin_policies p =
     register_policy ''retry_then_dead_letter'' HandleRetryThenDeadLetter
       (register_policy ''dead_letter'' HandleDeadLetter
         (register_policy ''retry'' HandleRetry
           (register_policy ''skip'' HandleSkip p)))"

definition new_error_policy ::
  "string \<Rightarrow> int \<Rightarrow> (domain_event \<Rightarrow> exn \<Rightarrow> 's \<Rightarrow> 's \<times> exn option) option \<Rightarrow> 's error_policy" where
  "new_error_policy policy max_retries callback =
     register_builtin_policies
       \<lparr>ep_policy = policy, ep_max_retries = max_retries, ep_dead_letter_callback = callback, ep_policies = []\<rparr>"

definition invoke_dead_letter :: "'s error_policy \<Rightarrow> domain_event \<Rightarrow> exn \<Rightarrow> 's \<Rightarrow> 's \<times> exn option" where
  "invoke_dead_letter p event error s =
     (case ep_dead_letter_callback p of None \<Rightarrow> (s, None) | Some f \<Rightarrow> f event error s)"

text \<open>An exception of the callback leaves the policy before its own is raised.\<close>

definition dead_letter_and_raise :: "'s error_policy \<Rightarrow> domain_event \<Rightarrow> exn \<Rightarrow> 's \<Rightarrow> 's \<times> exn option" where
  "dead_letter_and_raise p event error s =
     (case invoke_dead_letter p event error s of
        (s, Some x) \<Rightarrow> (s, Some x)
      | (s, None) \<Rightarrow> (s, Some (ProjectionHandlerError error)))"

fun run_policy ::
  "'s error_policy \<Rightarrow> 's policy_handler \<Rightarrow> domain_event \<Rightarrow> exn \<Rightarrow> int \<Rightarrow> 's \<Rightarrow> 's \<times> exn option" where
  "run_policy p HandleSkip event error attempt s = (s, None)"
| "run_policy p HandleRetry event error attempt s =
     (if attempt < ep_max_retries p then (s, Some (ProjectionHandlerError error))
      else (s, Some (ProjectionHandlerError error)))"
| "run_policy p HandleDeadLetter event error attempt s = dead_letter_and_raise p event error s"
| "run_policy p HandleRetryThenDeadLetter event error attempt s =
     (if attempt < ep_max_retries p then (s, Some (ProjectionHandlerError error))
      else dead_letter_and_raise p event error s)"
| "run_policy p (Custom f) event error attempt s = f event error attempt s"

definition handle_failure ::
  "'s error_policy \<Rightarrow> domain_event \<Rightarrow> exn \<Rightarrow> int \<Rightarrow> 's \<Rightarrow> 's \<times> exn option" where
  "handle_failure p event error attempt s =
     (case map_of (ep_policies p) (ep_policy p) of
        None \<Rightarrow> (s, Some (UnknownErrorPolicy (ep_policy p)))
      | Some h \<Rightarrow> run_policy p h event error attempt s)"

section \<open>The polling worker\<close>

record 's projection_worker =
  pw_registry :: "'s projection_registry"
  pw_isa :: "string \<Rightarrow> string \<Rightarrow> bool"
  pw_name :: string
  pw_event_registry :: "event_type_registry option"
  pw_batch_size :: int
  pw_policy :: "'s error_policy"
  pw_partition_filter :: "(stored_event \<Rightarrow> exn + bool) option"

definition hydrate_stored :: "event_type_registry option \<Rightarrow> stored_event \<Rightarrow> exn + domain_event option" where
  "hydrate_stored reg stored =
     (case reg of None \<Rightarrow> Inr None | Some r \<Rightarrow> hydrate_event r (se_event_type stored) (se_payload stored))"

fun dispatch_loop ::
  "(string \<Rightarrow> string \<Rightarrow> bool) \<Rightarrow> 's error_policy \<Rightarrow> domain_event \<Rightarrow> int \<Rightarrow> 's projection_handler list \<Rightarrow>
     's \<Rightarrow> 's \<times> exn option" where
  "dispatch_loop isa p event attempt [] s = (s, None)"
| "dispatch_loop isa p event attempt (h # hs) s =
     (case handle_projection isa h event s of
        (s, None) \<Rightarrow> dispatch_loop isa p event attempt hs s
      | (s, Some e) \<Rightarrow>
          (case handle_failure p event e attempt s of
             (s, None) \<Rightarrow> dispatch_loop isa p event attempt hs s
           | (s, Some x) \<Rightarrow> (s, Some x)))"

definition dispatch_projection ::
  "'s projection_worker \<Rightarrow> domain_event \<Rightarrow> stored_event \<Rightarrow> int \<Rightarrow> 's \<Rightarrow> 's \<times> exn option" where
  "dispatch_projection w event stored retry_count s =
     dispatch_loop (pw_isa w) (pw_policy w) event retry_count
       (get_projection_handlers (pw_registry w) (se_event_type stored)) s"

definition process_attempt ::
  "'s projection_worker \<Rightarrow> stored_event \<Rightarrow> int \<Rightarrow> 's \<Rightarrow> 's \<times> exn option" where
  "process_attempt w stored retry_count s =
     (case hydrate_stored (pw_event_registry w) stored of
        Inl x \<Rightarrow> (s, Some x)
      | Inr None \<Rightarrow> (s, None)
      | Inr (Some event) \<Rightarrow> dispatch_projection w event stored retry_count s)"

function process_event_loop :: "'s projection_worker \<Rightarrow> stored_event \<Rightarrow> int \<Rightarrow> 's \<Rightarrow> 's" where
  "process_event_loop w stored retry_count s =
     (if retry_count \<le> ep_max_retries (pw_policy w)
      then (case process_attempt w stored retry_count s of
              (s, None) \<Rightarrow> s
            | (s, Some e) \<Rightarrow>
                if retry_count = ep_max_retries (pw_policy w) then s
                else process_event_loop w stored (retry_count + 1) s)
      else s)"
  by pat_completeness auto
termination
  by (relation "measure (\<lambda>(w, stored, n, s). nat (ep_max_retries (pw_policy w) + 1 - n))") auto

declare process_event_loop.simps [simp del]

definition process_event_with_retry :: "'s projection_worker \<Rightarrow> stored_event \<Rightarrow> 's \<Rightarrow> 's" where
  "process_event_with_retry w stored s = process_event_loop w stored 0 s"

definition should_process :: "'s projection_worker \<Rightarrow> stored_event \<Rightarrow> exn + bool" where
  "should_process w stored = (case pw_partition_filter w of None \<Rightarrow> Inr True | Some f \<Rightarrow> f stored)"

text \<open>
  \<^verbatim>\<open>stop\<close> clears the flag, which the loop reads before each event, and cancels the task, which
  raises \<^verbatim>\<open>CancelledError\<close> where the task awaits: while it processes an event, of which the part \<open>f\<close> has
  been done by then, or while it saves the checkpoint.
\<close>

datatype 's signal = Runs | Stops | Cancels "'s \<Rightarrow> 's"

fun is_stop :: "'s signal \<Rightarrow> bool" where
  "is_stop Stops = True"
| "is_stop _ = False"

fun cancelled_part :: "'s signal \<Rightarrow> ('s \<Rightarrow> 's) option" where
  "cancelled_part (Cancels f) = Some f"
| "cancelled_part _ = None"

definition cancelled_error :: exn where
  "cancelled_error = Other ''CancelledError''"

text \<open>The loop over a batch: \<open>i\<close> is the place in the batch, \<open>lastp\<close> the position to save at its end.\<close>

fun batch_loop ::
  "'s projection_worker \<Rightarrow> (nat \<Rightarrow> 's signal) \<Rightarrow> nat \<Rightarrow> stored_event list \<Rightarrow> int \<Rightarrow> 's \<Rightarrow> 's \<times> (exn + int)" where
  "batch_loop w signal i [] lastp s = (s, Inr lastp)"
| "batch_loop w signal i (stored # rest) lastp s =
     (if is_stop (signal i) then (s, Inr lastp)
      else case should_process w stored of
             Inl x \<Rightarrow> (s, Inl x)
           | Inr mine \<Rightarrow>
               if \<not> mine then batch_loop w signal (Suc i) rest lastp s
               else case se_position stored of
                      None \<Rightarrow> batch_loop w signal (Suc i) rest lastp s
                    | Some p \<Rightarrow>
                        (case cancelled_part (signal i) of
                           Some f \<Rightarrow> (f s, Inl cancelled_error)
                         | None \<Rightarrow> batch_loop w signal (Suc i) rest p (process_event_with_retry w stored s)))"

definition process_event_batch ::
  "'s projection_worker \<Rightarrow> (nat \<Rightarrow> 's signal) \<Rightarrow> int \<Rightarrow> stored_event list \<Rightarrow> checkpoints \<times> 's \<Rightarrow>
     (checkpoints \<times> 's) \<times> exn option" where
  "process_event_batch w signal position batch st =
     (case batch_loop w signal 0 batch position (snd st) of
        (s, Inl x) \<Rightarrow> ((fst st, s), Some x)
      | (s, Inr lastp) \<Rightarrow>
          (case cancelled_part (signal (length batch)) of
             Some _ \<Rightarrow> ((fst st, s), Some cancelled_error)
           | None \<Rightarrow> ((save_position (fst st) (pw_name w) lastp, s), None)))"

definition checkpoint_position :: "'s projection_worker \<Rightarrow> checkpoints \<Rightarrow> int" where
  "checkpoint_position w cp = (case get_position cp (pw_name w) of None \<Rightarrow> 0 | Some p \<Rightarrow> p)"

text \<open>
  One round of \<^verbatim>\<open>_run\<close>: whether the loop goes on is the second component.  \<^verbatim>\<open>CancelledError\<close> ends it;
  any other exception is logged and the next round begins.
\<close>

definition worker_iteration ::
  "'s projection_worker \<Rightarrow> (nat \<Rightarrow> 's signal) \<Rightarrow> event_store \<Rightarrow> checkpoints \<times> 's \<Rightarrow> (checkpoints \<times> 's) \<times> bool" where
  "worker_iteration w signal es st =
     (let position = checkpoint_position w (fst st);
          batch = get_events_after es position (pw_batch_size w) None
      in if batch = [] then (st, True)
         else case process_event_batch w signal position batch st of
                (st, x) \<Rightarrow> (st, x \<noteq> Some cancelled_error))"

abbreviation worker_round ::
  "'s projection_worker \<Rightarrow> (nat \<Rightarrow> 's signal) \<Rightarrow> event_store \<Rightarrow> checkpoints \<times> 's \<Rightarrow> checkpoints \<times> 's" where
  "worker_round w signal es st \<equiv> fst (worker_iteration w signal es st)"

section \<open>Partitions\<close>

text \<open>\<open>digest\<close> is SHA-256 of the encoded text read as a number.\<close>

definition partition_filter :: "(string \<Rightarrow> nat) \<Rightarrow> int \<Rightarrow> int \<Rightarrow> stored_event \<Rightarrow> exn + bool" where
  "partition_filter digest index n stored =
     (if n = 0 then Inl ZeroDivisionError
      else Inr (int (digest (se_aggregate_id stored)) mod n = index))"

definition partition_worker ::
  "(string \<Rightarrow> nat) \<Rightarrow> int \<Rightarrow> int \<Rightarrow> 's projection_worker \<Rightarrow> 's projection_worker" where
  "partition_worker digest index n w =
     w\<lparr>pw_name := pw_name w @ ''_p'' @ show_int index,
       pw_partition_filter := Some (partition_filter digest index n)\<rparr>"

definition partition_resource :: "int \<Rightarrow> resource" where
  "partition_resource index =
     \<lparr>res_type = ''projection'', res_id = ''partition_'' @ show_int index, res_mode = WriteMode\<rparr>"

text \<open>The lock token and whether the inner worker has been started.\<close>

record partition_state =
  ps_token :: "string option"
  ps_running :: bool

definition partition_start ::
  "('l \<Rightarrow> resource \<Rightarrow> string option \<Rightarrow> 'l \<times> (exn + string)) \<Rightarrow> int \<Rightarrow> 'l \<times> partition_state \<Rightarrow>
     ('l \<times> partition_state) \<times> exn option" where
  "partition_start acquire index st =
     (case acquire (fst st) (partition_resource index) None of
        (l, Inl x) \<Rightarrow> ((l, snd st), Some x)
      | (l, Inr t) \<Rightarrow> ((l, (snd st)\<lparr>ps_token := Some t, ps_running := True\<rparr>), None))"

definition partition_stop ::
  "('l \<Rightarrow> resource \<Rightarrow> string \<Rightarrow> 'l \<times> exn option) \<Rightarrow> int \<Rightarrow> 'l \<times> partition_state \<Rightarrow>
     ('l \<times> partition_state) \<times> exn option" where
  "partition_stop release index st =
     (let p = (snd st)\<lparr>ps_running := False\<rparr>
      in if truthy (ps_token p)
         then (case release (fst st) (partition_resource index) (the (ps_token p)) of
                 (l, Some x) \<Rightarrow> ((l, p), Some x)
               | (l, None) \<Rightarrow> ((l, p\<lparr>ps_token := None\<rparr>), None))
         else ((fst st, p), None))"

section \<open>Replay\<close>

record 's replay_engine =
  re_registry :: "'s projection_registry"
  re_isa :: "string \<Rightarrow> string \<Rightarrow> bool"
  re_event_registry :: "event_type_registry option"
  re_batch_size :: int
  re_policy :: "'s error_policy"

fun replay_events ::
  "'s replay_engine \<Rightarrow> (nat \<Rightarrow> 's \<Rightarrow> 's \<times> exn option) option \<Rightarrow> nat \<Rightarrow> stored_event list \<Rightarrow> 's \<Rightarrow>
     's \<times> (exn + nat)" where
  "replay_events r progress processed [] s = (s, Inr processed)"
| "replay_events r progress processed (stored # rest) s =
     (case hydrate_stored (re_event_registry r) stored of
        Inl x \<Rightarrow> (s, Inl x)
      | Inr ev \<Rightarrow>
          (case (case ev of None \<Rightarrow> (s, None)
                 | Some e \<Rightarrow> dispatch_loop (re_isa r) (re_policy r) e 1
                               (get_projection_handlers (re_registry r) (se_event_type stored)) s) of
             (s, Some x) \<Rightarrow> (s, Inl x)
           | (s, None) \<Rightarrow>
               (case (case progress of None \<Rightarrow> (s, None) | Some f \<Rightarrow> f (Suc processed) s) of
                  (s, Some x) \<Rightarrow> (s, Inl x)
                | (s, None) \<Rightarrow> replay_events r progress (Suc processed) rest s)))"

fun replay_batches ::
  "'s replay_engine \<Rightarrow> string \<Rightarrow> (nat \<Rightarrow> 's \<Rightarrow> 's \<times> exn option) option \<Rightarrow> int \<Rightarrow> nat \<Rightarrow> stored_event list list \<Rightarrow>
     checkpoints \<times> 's \<Rightarrow> (checkpoints \<times> 's) \<times> exn option" where
  "replay_batches r name progress position processed [] st = (st, None)"
| "replay_batches r name progress position processed (batch # batches) st =
     (case replay_events r progress processed batch (snd st) of
        (s, Inl x) \<Rightarrow> ((fst st, s), Some x)
      | (s, Inr processed) \<Rightarrow>
          let position = position + int (length batch)
          in replay_batches r name progress position processed batches
               (save_position (fst st) name position, s))"

definition replay_internal ::
  "nat \<Rightarrow> 's replay_engine \<Rightarrow> event_store \<Rightarrow> string \<Rightarrow> int \<Rightarrow> ('s \<Rightarrow> 's \<times> exn option) option \<Rightarrow>
     (nat \<Rightarrow> 's \<Rightarrow> 's \<times> exn option) option \<Rightarrow> checkpoints \<times> 's \<Rightarrow> ((checkpoints \<times> 's) \<times> exn option) option" where
  "replay_internal fuel r es name from_position on_drop progress st =
     (case (case on_drop of None \<Rightarrow> (snd st, None) | Some f \<Rightarrow> f (snd st)) of
        (s, Some x) \<Rightarrow> Some ((fst st, s), Some x)
      | (s, None) \<Rightarrow>
          let cp = save_position (fst st) name from_position
          in (case get_all_streaming fuel es (re_batch_size r) None of
                None \<Rightarrow> None
              | Some batches \<Rightarrow> Some (replay_batches r name progress from_position 0 batches (cp, s))))"

section \<open>The event sink\<close>

record 's event_sink =
  sk_registry :: "'s projection_registry"
  sk_isa :: "string \<Rightarrow> string \<Rightarrow> bool"
  sk_name :: string
  sk_event_registry :: "event_type_registry option"
  sk_policy :: "'s error_policy"

definition sink_start :: "'s event_sink \<Rightarrow> checkpoints \<Rightarrow> int" where
  "sink_start k cp = (case get_position cp (sk_name k) of None \<Rightarrow> 0 | Some p \<Rightarrow> p)"

text \<open>
  \<^verbatim>\<open>kwargs.get("event_type") or payload.get("event_type")\<close>.  Only texts are keys of the registries, so
  any other true value fails to hydrate, and one that cannot be hashed raises.
\<close>

definition sink_event_type :: "string option \<Rightarrow> json \<Rightarrow> json" where
  "sink_event_type kw payload =
     (if truthy kw then JStr (the kw)
      else case payload of JDict d \<Rightarrow> (case map_of d ''event_type'' of None \<Rightarrow> JNull | Some v \<Rightarrow> v) | _ \<Rightarrow> JNull)"

definition sink_hydrate :: "'s event_sink \<Rightarrow> json \<Rightarrow> json \<Rightarrow> exn + domain_event option" where
  "sink_hydrate k event_type payload =
     (case (sk_event_registry k, payload) of
        (Some reg, JDict d) \<Rightarrow>
          (case event_type of
             JStr ty \<Rightarrow> hydrate_event reg ty d
           | JList _ \<Rightarrow> Inl (TypeError ''unhashable type: list'')
           | JDict _ \<Rightarrow> Inl (TypeError ''unhashable type: dict'')
           | _ \<Rightarrow> Inr None)
      | _ \<Rightarrow> Inr None)"

definition on_message ::
  "'s event_sink \<Rightarrow> string option \<Rightarrow> json \<Rightarrow> int \<times> checkpoints \<times> 's \<Rightarrow> (int \<times> checkpoints \<times> 's) \<times> exn option" where
  "on_message k kw payload st =
     (case st of (offset, cp, s) \<Rightarrow>
        let event_type = sink_event_type kw payload
        in if \<not> json_truthy event_type then (st, None)
           else case sink_hydrate k event_type payload of
                  Inl x \<Rightarrow> (st, Some x)
                | Inr None \<Rightarrow> (st, None)
                | Inr (Some event) \<Rightarrow>
                    (let hs = (case event_type of JStr ty \<Rightarrow> get_projection_handlers (sk_registry k) ty | _ \<Rightarrow> [])
                     in case dispatch_loop (sk_isa k) (sk_policy k) event 1 hs s of
                          (s, Some x) \<Rightarrow> ((offset, cp, s), Some x)
                        | (s, None) \<Rightarrow>
                            ((offset + 1, save_position cp (sk_name k) (offset + 1), s), None)))"

definition sink_stop :: "'s event_sink \<Rightarrow> int \<Rightarrow> checkpoints \<Rightarrow> checkpoints" where
  "sink_stop k offset cp = save_position cp (sk_name k) offset"

section \<open>Registration\<close>

lemma get_register_for:
  "get_projection_handlers (register_for ph name reg) ty =
     get_projection_handlers reg ty @ (if ty = name then [ph] else [])"
  by (auto simp: get_projection_handlers_def register_for_def split: option.splits)

lemma get_register_projection:
  assumes "dict_ok ph"
  shows "get_projection_handlers (register_projection ph reg) ty =
           get_projection_handlers reg ty @ (if ty \<in> set (handles ph) then [ph] else [])"
proof -
  have "get_projection_handlers (fold (register_for ph) names reg) ty =
          get_projection_handlers reg ty @ (if ty \<in> set names then [ph] else [])" if "distinct names" for names reg
    using that by (induction names arbitrary: reg) (auto simp: get_register_for)
  then show ?thesis using assms by (simp add: register_projection_def handles_def)
qed

lemma checkpoint_save [simp]: "checkpoint_position w (save_position cp (pw_name w) p) = p"
  by (simp add: checkpoint_position_def get_position_def save_position_def)

lemma policies_new [simp]:
  "map_of (ep_policies (new_error_policy p m cb)) ''skip'' = Some HandleSkip"
  "map_of (ep_policies (new_error_policy p m cb)) ''retry'' = Some HandleRetry"
  "map_of (ep_policies (new_error_policy p m cb)) ''dead_letter'' = Some HandleDeadLetter"
  "map_of (ep_policies (new_error_policy p m cb)) ''retry_then_dead_letter'' = Some HandleRetryThenDeadLetter"
  "ep_policy (new_error_policy p m cb) = p" "ep_max_retries (new_error_policy p m cb) = m"
  "ep_dead_letter_callback (new_error_policy p m cb) = cb"
  by (simp_all add: new_error_policy_def register_builtin_policies_def register_policy_def)

section \<open>The worker\<close>

text \<open>The events a worker takes for its own, and one that can decide this without an exception.\<close>

definition mine :: "'s projection_worker \<Rightarrow> stored_event \<Rightarrow> bool" where
  "mine w stored \<longleftrightarrow> should_process w stored = Inr True"

definition decides :: "'s projection_worker \<Rightarrow> bool" where
  "decides w \<longleftrightarrow> (\<forall>stored. is_ok (should_process w stored))"

definition project_all :: "'s projection_worker \<Rightarrow> stored_event list \<Rightarrow> 's \<Rightarrow> 's" where
  "project_all w evs s = fold (process_event_with_retry w) (filter (mine w) evs) s"

lemma project_all_simps [simp]:
  "project_all w [] s = s"
  "project_all w (e # evs) s = project_all w evs (if mine w e then process_event_with_retry w e s else s)"
  "project_all w (evs @ evs') s = project_all w evs' (project_all w evs s)"
  by (simp_all add: project_all_def)

lemma unpartitioned [simp]:
  "pw_partition_filter w = None \<Longrightarrow> decides w" "pw_partition_filter w = None \<Longrightarrow> mine w e"
  by (simp_all add: decides_def mine_def should_process_def)

lemma should_process_cases:
  assumes "decides w"
  shows "should_process w e = Inr (mine w e)"
proof -
  have "is_ok (should_process w e)" using assms by (simp add: decides_def)
  then show ?thesis by (cases "should_process w e") (auto simp: mine_def)
qed

lemma project_foreign: "list_all (\<lambda>e. \<not> mine w e) evs \<Longrightarrow> project_all w evs s = s"
  by (induction evs) auto

text \<open>
  What a batch does: either nothing, or it has projected everything up to the event whose position it
  saves; a cancelled one has projected the events before the place of the cancellation.
\<close>

lemma batch_loop_projects:
  assumes "decides w" "list_all (\<lambda>e. se_position e \<noteq> None) batch"
  shows "(\<exists>s' q'. batch_loop w signal i batch q s = (s', Inr q') \<and>
           (q' = q \<and> s' = s \<or>
            (\<exists>j<length batch. se_position (batch ! j) = Some q' \<and> s' = project_all w (take (Suc j) batch) s))) \<or>
         (\<exists>j f. batch_loop w signal i batch q s = (f (project_all w (take j batch) s), Inl cancelled_error))"
    (is "?P i batch q s \<or> ?C i batch q s")
  using assms(2)
proof (induction batch arbitrary: i q s)
  case (Cons e batch)
  obtain p where p: "se_position e = Some p" using Cons.prems by auto
  have sp: "should_process w e = Inr (mine w e)" by (rule should_process_cases [OF assms(1)])
  let ?q = "if mine w e then p else q" and ?s = "if mine w e then process_event_with_retry w e s else s"
  have IH: "?P (Suc i) batch ?q ?s \<or> ?C (Suc i) batch ?q ?s" using Cons by simp
  consider "signal i = Stops" | f where "signal i = Cancels f" "mine w e"
    | "batch_loop w signal i (e # batch) q s = batch_loop w signal (Suc i) batch ?q ?s"
    by (cases "signal i"; cases "mine w e") (auto simp: sp p)
  then show ?case
  proof cases
    case 1
    then show ?thesis by simp
  next
    case (2 f)
    then have "batch_loop w signal i (e # batch) q s = (f (project_all w (take 0 (e # batch)) s), Inl cancelled_error)"
      by (simp add: sp p)
    then show ?thesis by blast
  next
    case 3
    from IH show ?thesis
    proof
      assume "?C (Suc i) batch ?q ?s"
      then obtain j f where
        "batch_loop w signal (Suc i) batch ?q ?s = (f (project_all w (take j batch) ?s), Inl cancelled_error)" by blast
      then have "batch_loop w signal i (e # batch) q s = (f (project_all w (take (Suc j) (e # batch)) s), Inl cancelled_error)"
        unfolding 3 by simp
      then show ?thesis by blast
    next
      assume "?P (Suc i) batch ?q ?s"
      then obtain s' q' where step: "batch_loop w signal i (e # batch) q s = (s', Inr q')"
        and r: "q' = ?q \<and> s' = ?s \<or>
          (\<exists>j<length batch. se_position (batch ! j) = Some q' \<and> s' = project_all w (take (Suc j) batch) ?s)"
        unfolding 3 by blast
      from r have "q' = q \<and> s' = s \<or> (\<exists>j<length (e # batch). se_position ((e # batch) ! j) = Some q' \<and>
          s' = project_all w (take (Suc j) (e # batch)) s)"
      proof
        assume "q' = ?q \<and> s' = ?s"
        then show ?thesis using p by (cases "mine w e") (auto intro: exI [of _ 0])
      next
        assume "\<exists>j<length batch. se_position (batch ! j) = Some q' \<and> s' = project_all w (take (Suc j) batch) ?s"
        then obtain j where "j < length batch" "se_position (batch ! j) = Some q'"
            "s' = project_all w (take (Suc j) batch) ?s" by blast
        then show ?thesis by (intro disjI2 exI [of _ "Suc j"]) simp
      qed
      with step show ?thesis by blast
    qed
  qed
qed simp

lemma process_event_batch_projects:
  assumes "decides w" "list_all (\<lambda>e. se_position e \<noteq> None) batch"
  obtains (unmoved) "process_event_batch w signal q batch st = ((save_position (fst st) (pw_name w) q, snd st), None)"
  | (moved) j p where "j < length batch" "se_position (batch ! j) = Some p"
      "process_event_batch w signal q batch st =
         ((save_position (fst st) (pw_name w) p, project_all w (take (Suc j) batch) (snd st)), None)"
  | (cancelled) j f where "process_event_batch w signal q batch st =
      ((fst st, f (project_all w (take j batch) (snd st))), Some cancelled_error)"
proof (cases "\<exists>f. signal (length batch) = Cancels f")
  case True
  then obtain f where f: "signal (length batch) = Cancels f" by blast
  from batch_loop_projects [OF assms, of signal 0 q "snd st"] show thesis
  proof (elim disjE exE conjE)
    fix s' q' assume "batch_loop w signal 0 batch q (snd st) = (s', Inr q')" "s' = snd st"
    then show thesis using f by (intro cancelled [of id 0]) (simp add: process_event_batch_def)
  next
    fix s' q' j assume "batch_loop w signal 0 batch q (snd st) = (s', Inr q')"
      "s' = project_all w (take (Suc j) batch) (snd st)"
    then show thesis using f by (intro cancelled [of id "Suc j"]) (simp add: process_event_batch_def)
  next
    fix j g assume "batch_loop w signal 0 batch q (snd st) = (g (project_all w (take j batch) (snd st)), Inl cancelled_error)"
    then show thesis by (intro cancelled [of g j]) (simp add: process_event_batch_def)
  qed
next
  case False
  then have save: "process_event_batch w signal q batch st = ((save_position (fst st) (pw_name w) q', s'), None)"
    if "batch_loop w signal 0 batch q (snd st) = (s', Inr q')" for s' q'
    using that by (cases "signal (length batch)") (simp_all add: process_event_batch_def)
  from batch_loop_projects [OF assms, of signal 0 q "snd st"] show thesis
  proof (elim disjE exE conjE)
    fix s' q' assume "batch_loop w signal 0 batch q (snd st) = (s', Inr q')" "q' = q" "s' = snd st"
    then show thesis using save by (intro unmoved) simp
  next
    fix s' q' j assume "batch_loop w signal 0 batch q (snd st) = (s', Inr q')" "j < length batch"
      "se_position (batch ! j) = Some q'" "s' = project_all w (take (Suc j) batch) (snd st)"
    then show thesis using save by (intro moved) simp_all
  next
    fix j g assume "batch_loop w signal 0 batch q (snd st) = (g (project_all w (take j batch) (snd st)), Inl cancelled_error)"
    then show thesis by (intro cancelled [of g j]) (simp add: process_event_batch_def)
  qed
qed

lemma batch_loop_running:
  assumes "pw_partition_filter w = None" "list_all (\<lambda>e. se_position e \<noteq> None) batch" "\<And>j. signal j = Runs"
  shows "batch_loop w signal i batch q s =
           (project_all w batch s, Inr (if batch = [] then q else pos_of (last batch)))"
  using assms(2)
proof (induction batch arbitrary: i q s)
  case (Cons e batch)
  obtain p where "se_position e = Some p" using Cons.prems by auto
  with Cons assms(1) show ?case
    by (simp add: assms(3) should_process_cases [of w] pos_of_def)
qed simp

text \<open>The batch a worker reads in a dense store.\<close>

lemma dense_after:
  assumes "dense es" "0 \<le> c"
  shows "get_events_after es c bs None = take (nat (max 1 bs)) (drop (Suc (nat c)) es)"
  using get_events_after_take [OF dense_positions_ok [OF assms(1)], of c bs None]
    dense_wanted_None [OF assms(1), of "nat c"] assms(2) by simp

lemma dense_all_positions: "dense es \<Longrightarrow> list_all (\<lambda>e. se_position e \<noteq> None) (take m (drop k es))"
  using dense_positions_ok [of es]
  by (auto simp: positions_ok_def list_all_iff dest: in_set_takeD in_set_dropD)

text \<open>
  The history of a worker that started without a checkpoint: a segment per round with the events it
  has projected, in order.  A segment is settled when the round saved its checkpoint; otherwise the
  round was cancelled, with some last part of its effect.
\<close>

type_synonym 's segment = "stored_event list \<times> ('s \<Rightarrow> 's) option"

definition run_segment :: "'s projection_worker \<Rightarrow> 's segment \<Rightarrow> 's \<Rightarrow> 's" where
  "run_segment w seg s = (case snd seg of None \<Rightarrow> id | Some f \<Rightarrow> f) (fold (process_event_with_retry w) (fst seg) s)"

definition settled :: "'s segment list \<Rightarrow> stored_event list" where
  "settled segs = concat (map fst (filter (\<lambda>seg. snd seg = None) segs))"

definition cancellations :: "'s segment list \<Rightarrow> nat" where
  "cancellations segs = length (filter (\<lambda>seg. snd seg \<noteq> None) segs)"

text \<open>A cancelled round projected the next events after those settled before it.\<close>

definition resumes :: "stored_event list \<Rightarrow> 's segment list \<Rightarrow> bool" where
  "resumes evs segs \<longleftrightarrow>
     (\<forall>before seg after. segs = before @ seg # after \<longrightarrow> (\<exists>rest. evs = settled before @ fst seg @ rest))"

lemma segment_simps [simp]:
  "settled [] = []" "settled (xs @ ys) = settled xs @ settled ys" "settled [(evs, None)] = evs" "settled [(evs, Some f)] = []"
  "cancellations [] = 0" "cancellations (xs @ ys) = cancellations xs + cancellations ys"
  "cancellations [(evs, None)] = 0" "cancellations [(evs, Some f)] = 1"
  by (simp_all add: settled_def cancellations_def)

lemma fold_settled:
  "cancellations segs = 0 \<Longrightarrow> fold (run_segment w) segs s = fold (process_event_with_retry w) (settled segs) s"
  by (induction segs arbitrary: s) (auto simp: cancellations_def settled_def run_segment_def split: if_splits)

lemma resumes_snoc:
  assumes "resumes evs segs" "evs = settled segs @ fst seg @ rest"
  shows "resumes evs (segs @ [seg])"
  unfolding resumes_def
proof (intro allI impI)
  fix before s after assume split: "segs @ [seg] = before @ s # after"
  show "\<exists>rest. evs = settled before @ fst s @ rest"
  proof (cases after rule: rev_cases)
    case Nil
    then show ?thesis using split assms(2) by auto
  next
    case (snoc ys y)
    then have "segs = before @ s # ys" using split by simp
    then show ?thesis using assms(1) unfolding resumes_def by blast
  qed
qed

lemma resumes_more: "resumes evs segs \<Longrightarrow> resumes (evs @ added) segs"
  unfolding resumes_def by (metis append.assoc)

definition projected_to ::
  "'s projection_worker \<Rightarrow> 's \<Rightarrow> event_store \<Rightarrow> checkpoints \<times> 's \<Rightarrow> 's segment list \<Rightarrow> bool" where
  "projected_to w s0 es st segs \<longleftrightarrow>
     (let c = checkpoint_position w (fst st)
      in 0 \<le> c \<and> (c = 0 \<or> c < int (length es)) \<and> snd st = fold (run_segment w) segs s0 \<and>
         settled segs = filter (mine w) (take (nat c) (tl es)) \<and> resumes (filter (mine w) (tl es)) segs)"

lemma worker_round_cases:
  assumes "dense es" "0 \<le> checkpoint_position w (fst st)"
    and batch: "batch = take (nat (max 1 (pw_batch_size w))) (drop (Suc (nat (checkpoint_position w (fst st)))) es)"
  shows "worker_iteration w signal es st =
    (if batch = [] then (st, True)
     else case process_event_batch w signal (checkpoint_position w (fst st)) batch st of
            (st, x) \<Rightarrow> (st, x \<noteq> Some cancelled_error))"
  using dense_after [OF assms(1,2)] by (simp add: worker_iteration_def Let_def batch)

lemma worker_round_projected:
  assumes "decides w" "dense es" "projected_to w s0 es st segs" "worker_iteration w signal es st = (st', go)"
  shows "\<exists>seg. projected_to w s0 es st' (segs @ [seg]) \<and> (snd seg = None \<longleftrightarrow> go)"
proof -
  define c where "c = nat (checkpoint_position w (fst st))"
  have c: "checkpoint_position w (fst st) = int c" "c = 0 \<or> c < length es" "snd st = fold (run_segment w) segs s0"
      "settled segs = filter (mine w) (take c (tl es))" "resumes (filter (mine w) (tl es)) segs"
    using assms(3) by (auto simp: projected_to_def Let_def c_def)
  define m where "m = nat (max 1 (pw_batch_size w))"
  define batch where "batch = take m (drop (Suc c) es)"
  have rd: "(st', go) = (if batch = [] then (st, True)
      else case process_event_batch w signal (int c) batch st of (st, x) \<Rightarrow> (st, x \<noteq> Some cancelled_error))"
    using worker_round_cases [OF assms(2), of w st batch signal] by (simp add: assms(4) c(1) batch_def m_def)
  have next_batch: "drop c (tl es) = take j batch @ drop j (drop c (tl es))" if "j \<le> m" for j
  proof -
    have "take j batch = take j (drop c (tl es))" using that by (simp add: batch_def drop_Suc min_def)
    then show ?thesis by (metis append_take_drop_id)
  qed
  have onward: "resumes (filter (mine w) (tl es)) (segs @ [(filter (mine w) (take j batch), x)])" for j x
  proof -
    have "take j batch = take (min j m) batch" by (simp add: batch_def)
    then have "tl es = take c (tl es) @ take j batch @ drop (min j m) (drop c (tl es))"
      using next_batch [of "min j m"] by (metis append_take_drop_id min.cobounded2)
    then have "filter (mine w) (tl es) = settled segs @ fst (filter (mine w) (take j batch), x) @
        filter (mine w) (drop (min j m) (drop c (tl es)))"
      unfolding c(4) fst_conv by (metis filter_append)
    with c(5) show ?thesis by (rule resumes_snoc)
  qed
  have kept: "projected_to w s0 es st (segs @ [([], None)])"
    using c onward [of 0] by (simp add: projected_to_def run_segment_def)
  show ?thesis
  proof (cases "batch = []")
    case True
    then show ?thesis using rd kept by (intro exI [of _ "([], None)"]) simp
  next
    case False
    have "list_all (\<lambda>e. se_position e \<noteq> None) batch" unfolding batch_def by (rule dense_all_positions [OF assms(2)])
    from assms(1) this show ?thesis
    proof (cases rule: process_event_batch_projects [of w batch signal "int c" st])
      case unmoved
      then have "st' = (save_position (fst st) (pw_name w) (int c), snd st)" "go" using rd False by (simp_all add: cancelled_error_def)
      then show ?thesis using kept c(1) by (intro exI [of _ "([], None)"]) (simp add: projected_to_def)
    next
      case (moved j p)
      then have st': "st' = (save_position (fst st) (pw_name w) p, project_all w (take (Suc j) batch) (snd st))" "go"
        using rd False by (simp_all add: cancelled_error_def)
      have len: "Suc c + j < length es" "j < m" using moved(1) by (auto simp: batch_def)
      then have p: "p = int (Suc c + j)" using moved(2) dense_nth [OF assms(2) len(1)] by (simp add: batch_def)
      have "take (Suc c + j) (tl es) = take c (tl es) @ take (Suc j) batch"
        using len(2) take_add [of c "Suc j" "tl es"] by (simp add: batch_def drop_Suc min_def)
      then have "settled (segs @ [(filter (mine w) (take (Suc j) batch), None)]) = filter (mine w) (take (nat p) (tl es))"
        using c(4) by (simp add: p nat_add_distrib)
      then have "projected_to w s0 es st' (segs @ [(filter (mine w) (take (Suc j) batch), None)])"
        using c onward [of "Suc j"] len(1) st' p
        by (simp add: projected_to_def run_segment_def project_all_def del: segment_simps)
      then show ?thesis using st'(2) by (intro exI [of _ "(filter (mine w) (take (Suc j) batch), None)"]) simp
    next
      case (cancelled j f)
      then have st': "st' = (fst st, f (project_all w (take j batch) (snd st)))" "\<not> go" using rd False by simp_all
      then have "projected_to w s0 es st' (segs @ [(filter (mine w) (take j batch), Some f)])"
        using c onward [of j] by (simp add: projected_to_def run_segment_def project_all_def)
      then show ?thesis using st'(2) by (intro exI [of _ "(filter (mine w) (take j batch), Some f)"]) simp
    qed
  qed
qed

lemma append_batch_prefix: "\<exists>rest. append_batch es evs = es @ rest"
  unfolding append_batch_fold
proof (induction evs arbitrary: es)
  case (Cons e evs)
  obtain rest where "fold (\<lambda>e es. append_internal es e) evs (append_internal es e) = append_internal es e @ rest"
    using Cons.IH by blast
  then show ?case by (auto simp: append_internal_def)
qed simp

lemma projected_to_append:
  assumes "projected_to w s0 es st segs"
  shows "projected_to w s0 (append_batch es evs) st segs"
proof -
  obtain rest where rest: "append_batch es evs = es @ rest" using append_batch_prefix by blast
  let ?c = "nat (checkpoint_position w (fst st))"
  have "take ?c (tl (es @ rest)) = take ?c (tl es)"
    using assms by (cases es) (auto simp: projected_to_def Let_def)
  moreover have "\<exists>added. tl (es @ rest) = tl es @ added" by (cases es) auto
  then have "resumes (filter (mine w) (tl (es @ rest))) segs"
    using assms resumes_more unfolding projected_to_def Let_def by (metis filter_append)
  ultimately show ?thesis using assms by (auto simp: projected_to_def Let_def rest)
qed

section \<open>Runs of the worker\<close>

text \<open>
  Events are appended and rounds are run in any order; a round may be stopped or cancelled anywhere
  in its batch, and a worker that was cancelled may be started again.  The number counts the
  cancelled rounds.
\<close>

inductive worker_run :: "'s projection_worker \<Rightarrow> 's \<Rightarrow> event_store \<Rightarrow> checkpoints \<times> 's \<Rightarrow> nat \<Rightarrow> bool"
  for w :: "'s projection_worker" and s0 :: 's where
  start: "get_position cp (pw_name w) = None \<Longrightarrow> worker_run w s0 [] (cp, s0) 0"
| events: "worker_run w s0 es st k \<Longrightarrow> list_all (\<lambda>e. se_position e = None) evs \<Longrightarrow>
     worker_run w s0 (append_batch es evs) st k"
| round: "worker_run w s0 es st k \<Longrightarrow> worker_iteration w signal es st = (st', go) \<Longrightarrow>
     worker_run w s0 es st' (if go then k else Suc k)"

lemma worker_run_projected:
  assumes "worker_run w s0 es st k" "decides w"
  shows "dense es \<and> (\<exists>segs. projected_to w s0 es st segs \<and> cancellations segs = k)"
  using assms
proof induction
  case (start cp)
  have "projected_to w s0 [] (cp, s0) []" using start by (simp add: projected_to_def checkpoint_position_def resumes_def)
  then show ?case by (auto simp: dense_def intro!: exI [of _ "[]"])
next
  case (events es st k evs)
  then show ?case by (auto intro: dense_append_batch projected_to_append)
next
  case (round es st k signal st' go)
  then obtain segs where segs: "projected_to w s0 es st segs" "cancellations segs = k" and d: "dense es" by blast
  from worker_round_projected [OF round.prems d segs(1) round.hyps(2)] obtain seg where
    "projected_to w s0 es st' (segs @ [seg])" "snd seg = None \<longleftrightarrow> go" by blast
  then show ?case using d segs(2) by (intro conjI exI [of _ "segs @ [seg]"]) (cases seg, cases "snd seg", auto)+
qed

lemma worker_rounds_running:
  assumes "pw_partition_filter w = None" "dense es" "get_position cp (pw_name w) = None" "\<And>j. signal j = Runs"
  defines "m \<equiv> nat (max 1 (pw_batch_size w))"
  shows "checkpoint_position w (fst ((worker_round w signal es ^^ n) (cp, s))) = int (min (n * m) (length es - 1)) \<and>
         snd ((worker_round w signal es ^^ n) (cp, s)) = project_all w (take (n * m) (tl es)) s"
proof (induction n)
  case 0
  then show ?case using assms(3) by (simp add: checkpoint_position_def)
next
  case (Suc n)
  define st where "st = (worker_round w signal es ^^ n) (cp, s)"
  define c where "c = min (n * m) (length es - 1)"
  have IH: "checkpoint_position w (fst st) = int c" "snd st = project_all w (take (n * m) (tl es)) s"
    using Suc by (simp_all add: st_def c_def)
  define batch where "batch = take m (drop (Suc c) es)"
  have rd: "worker_round w signal es st =
      (if batch = [] then st else fst (process_event_batch w signal (int c) batch st))"
    using worker_round_cases [OF assms(2), of w st batch signal] by (simp add: IH(1) batch_def m_def case_prod_beta)
  have m: "0 < m" by (simp add: m_def)
  have runs: "cancelled_part (signal k) = None" for k using assms(4) [of k] by simp
  show ?case
  proof (cases "batch = []")
    case True
    then have "length es \<le> Suc c" using m by (simp add: batch_def)
    then have "length es - 1 \<le> n * m" by (auto simp: c_def)
    then show ?thesis using True rd IH by (simp add: st_def [symmetric] c_def min_def)
  next
    case False
    then have lt: "Suc c < length es" by (simp add: batch_def)
    then have c: "c = n * m" by (auto simp: c_def)
    have "last batch = es ! (c + length batch)"
      using False by (subst last_conv_nth) (auto simp: batch_def)
    moreover have k: "c + length batch = min (Suc n * m) (length es - 1)"
      using lt by (auto simp: batch_def c min_def)
    moreover have "c + length batch < length es" using lt by (auto simp: batch_def)
    ultimately have "pos_of (last batch) = int (min (Suc n * m) (length es - 1))"
      using dense_nth [OF assms(2)] by (simp add: pos_of_def)
    then have "fst (process_event_batch w signal (int c) batch st) =
        (save_position (fst st) (pw_name w) (int (min (Suc n * m) (length es - 1))), project_all w batch (snd st))"
      using batch_loop_running [OF assms(1) dense_all_positions [OF assms(2), of m "Suc c"] assms(4)] False
      by (simp add: process_event_batch_def batch_def runs)
    moreover have "take (Suc n * m) (tl es) = take (n * m) (tl es) @ batch"
      using take_add [of "n * m" m "tl es"] by (simp add: batch_def c drop_Suc add.commute)
    ultimately show ?thesis using False rd IH(2) by (simp add: st_def [symmetric])
  qed
qed

text \<open>
  C9: Whatever the interleaving of appends and rounds, and wherever rounds are stopped or cancelled, the
  read models of a worker that began without a checkpoint are the result of one segment of events
  per round.  The segments of the rounds that were not cancelled together hold each of its events
  between the second of the log and its checkpoint exactly once and in the order of the log; the
  very first event of the log is never projected.  A round cancelled by \<^verbatim>\<open>stop\<close> saves no checkpoint: its
  segment holds the next events after the settled ones, and they are projected again by the next round.
  So a worker none of whose rounds was cancelled has projected its events up to the checkpoint once and
  in order, and one with cancelled rounds has projected each of them at least once.
\<close>

theorem worker_projects_once_in_order:
  assumes "worker_run w s0 es (cp, s) k" "decides w"
  shows "(\<exists>segs. s = fold (run_segment w) segs s0 \<and> cancellations segs = k \<and>
            settled segs = filter (mine w) (take (nat (checkpoint_position w cp)) (drop 1 es)) \<and>
            resumes (filter (mine w) (drop 1 es)) segs) \<and>
         (k = 0 \<longrightarrow> s = fold (process_event_with_retry w)
            (filter (mine w) (take (nat (checkpoint_position w cp)) (drop 1 es))) s0)"
proof -
  obtain segs where segs: "s = fold (run_segment w) segs s0" "cancellations segs = k"
      "settled segs = filter (mine w) (take (nat (checkpoint_position w cp)) (drop 1 es))"
      "resumes (filter (mine w) (drop 1 es)) segs"
    using worker_run_projected [OF assms] by (auto simp: projected_to_def Let_def drop_Suc)
  moreover have "s = fold (process_event_with_retry w)
      (filter (mine w) (take (nat (checkpoint_position w cp)) (drop 1 es))) s0" if "k = 0"
    using segs fold_settled [of segs w s0] that by simp
  ultimately show ?thesis by blast
qed

text \<open>
  A worker without partitions that keeps running catches up: after enough rounds it has projected
  every event of the log but the first, and its checkpoint is the position of the last one.
\<close>

theorem worker_catches_up:
  assumes "pw_partition_filter w = None" "dense es" "get_position cp (pw_name w) = None" "\<And>j. signal j = Runs"
    and "length es \<le> n * nat (max 1 (pw_batch_size w)) + 1"
  shows "(case (worker_round w signal es ^^ n) (cp, s) of (cp', s') \<Rightarrow>
           checkpoint_position w cp' = int (length es - 1) \<and>
           s' = fold (process_event_with_retry w) (drop 1 es) s)"
proof -
  have "take (n * nat (max 1 (pw_batch_size w))) (tl es) = tl es" using assms(5) by simp
  moreover have "filter (mine w) evs = evs" for evs using assms(1) by (simp add: filter_id_conv)
  ultimately show ?thesis
    using worker_rounds_running [OF assms(1-4), where n = n and s = s] assms(5)
    by (auto simp: case_prod_beta project_all_def drop_Suc min_def)
qed

text \<open>
  A partition starves: when the next full batch after its checkpoint holds foreign events only,
  no number of rounds and no later event makes the worker of that partition project anything again.
\<close>

theorem partition_starves:
  assumes "decides w" "dense es" "0 \<le> checkpoint_position w cp" "list_all (\<lambda>e. se_position e = None) evs"
    and "length (get_events_after es (checkpoint_position w cp) (pw_batch_size w) None) = nat (max 1 (pw_batch_size w))"
    and "list_all (\<lambda>e. \<not> mine w e) (get_events_after es (checkpoint_position w cp) (pw_batch_size w) None)"
  shows "(case (worker_round w signal (append_batch es evs) ^^ n) (cp, s) of (cp', s') \<Rightarrow>
           s' = s \<and> checkpoint_position w cp' = checkpoint_position w cp)"
proof -
  let ?es = "append_batch es evs" and ?c = "checkpoint_position w cp" and ?m = "nat (max 1 (pw_batch_size w))"
  define batch where "batch = take ?m (drop (Suc (nat ?c)) es)"
  have old: "get_events_after es ?c (pw_batch_size w) None = batch"
    using dense_after [OF assms(2,3)] by (simp add: batch_def)
  have d: "dense ?es" by (rule dense_append_batch [OF assms(2,4)])
  obtain rest where rest: "?es = es @ rest" using append_batch_prefix by blast
  have len: "length batch = ?m" using assms(5) old by simp
  then have "?m \<le> length es - Suc (nat ?c)" by (simp add: batch_def min_def split: if_splits)
  then have "take ?m (drop (Suc (nat ?c)) ?es) = batch" by (simp add: batch_def rest)
  moreover have foreign: "batch_loop w signal i evs q s = (s, Inr q)" if "list_all (\<lambda>e. \<not> mine w e) evs" for i q s evs
    using that by (induction evs arbitrary: i) (simp_all add: should_process_cases [OF assms(1)])
  moreover have "batch \<noteq> []" using len by auto
  ultimately have rd: "checkpoint_position w (fst (worker_round w signal ?es st)) = ?c \<and> snd (worker_round w signal ?es st) = snd st"
    if "checkpoint_position w (fst st) = ?c" for st
    using worker_round_cases [OF d, of w st batch signal] that assms(3) foreign [OF assms(6) [unfolded old]]
    by (cases "cancelled_part (signal (length batch))") (simp_all add: process_event_batch_def)
  have "checkpoint_position w (fst ((worker_round w signal ?es ^^ n) (cp, s))) = ?c \<and>
        snd ((worker_round w signal ?es ^^ n) (cp, s)) = s"
    by (induction n) (simp_all add: rd)
  then show ?thesis by (simp add: case_prod_beta)
qed

section \<open>Retries\<close>

lemma process_event_loop_repeats:
  assumes m: "ep_max_retries (pw_policy w) = int m"
    and retry: "\<And>k s. k < m \<Longrightarrow> fst (process_attempt w stored (int k) s) = F s \<and>
                                snd (process_attempt w stored (int k) s) \<noteq> None"
    and final: "\<And>s. fst (process_attempt w stored (int m) s) = G s"
  shows "process_event_with_retry w stored s = G ((F ^^ m) s)"
proof -
  have "process_event_loop w stored (int m - int d) s = G ((F ^^ d) s)" if "d \<le> m" for d s
    using that
  proof (induction d arbitrary: s)
    case 0
    then show ?case using final [of s] m
      by (subst process_event_loop.simps) (auto split: prod.splits option.splits)
  next
    case (Suc d)
    define k where "k = m - Suc d"
    have k: "int m - int (Suc d) = int k" "k < m" "int k + 1 = int m - int d" using Suc.prems by (auto simp: k_def)
    obtain x where at: "process_attempt w stored (int k) s = (F s, Some x)"
      using retry [OF k(2), of s] by (cases "process_attempt w stored (int k) s") auto
    have "process_event_loop w stored (int k) s = process_event_loop w stored (int k + 1) (F s)"
      using k(2) by (subst process_event_loop.simps) (simp add: m at)
    then show ?case using Suc.IH [of "F s"] Suc.prems k(3) by (simp add: k(1) [simplified] funpow_swap1)
  qed
  from this [of m s] show ?thesis by (simp add: process_event_with_retry_def)
qed

lemma process_event_ok:
  assumes "ep_max_retries (pw_policy w) = int m" "process_attempt w stored 0 s = (s', None)"
  shows "process_event_with_retry w stored s = s'"
  using assms by (simp add: process_event_with_retry_def process_event_loop.simps)

text \<open>One event, one handler for it, and the handler always fails after changing the read model by \<open>f\<close>.\<close>

definition failing_worker ::
  "'s projection_worker \<Rightarrow> stored_event \<Rightarrow> domain_event \<Rightarrow> ('s \<Rightarrow> 's) \<Rightarrow> exn \<Rightarrow> bool" where
  "failing_worker w stored event f e \<longleftrightarrow>
     hydrate_stored (pw_event_registry w) stored = Inr (Some event) \<and>
     (\<exists>h. get_projection_handlers (pw_registry w) (se_event_type stored) = [h] \<and>
          (\<forall>s. handle_projection (pw_isa w) h event s = (f s, Some e)))"

lemma failing_attempt:
  assumes "failing_worker w stored event f e"
  shows "process_attempt w stored k s = handle_failure (pw_policy w) event e k (f s)"
  using assms by (auto simp: failing_worker_def process_attempt_def dispatch_projection_def split: prod.splits option.splits)

text \<open>
  C32: What the four built-in policies do with an event whose handler keeps failing: \<^verbatim>\<open>skip\<close> runs the handler
  once; \<^verbatim>\<open>retry\<close> runs it \<^verbatim>\<open>max_retries + 1\<close> times; \<^verbatim>\<open>retry_then_dead_letter\<close> does so too and calls the
  dead-letter callback once, at the end; \<^verbatim>\<open>dead_letter\<close> retries as well, and calls the callback
  after every attempt.
\<close>

theorem failing_event_policies:
  assumes "failing_worker (w\<lparr>pw_policy := new_error_policy p (int m) (Some (\<lambda>ev x s. (g s, None)))\<rparr>) stored event f e"
  shows "process_event_with_retry (w\<lparr>pw_policy := new_error_policy p (int m) (Some (\<lambda>ev x s. (g s, None)))\<rparr>) stored s =
    (if p = ''skip'' then f s
     else if p = ''retry'' then (f ^^ Suc m) s
     else if p = ''dead_letter'' then ((\<lambda>s. g (f s)) ^^ Suc m) s
     else if p = ''retry_then_dead_letter'' then g ((f ^^ Suc m) s)
     else (f ^^ Suc m) s)"
    (is "process_event_with_retry ?w stored s = _")
proof -
  note at = failing_attempt [OF assms]
  have mx: "ep_max_retries (pw_policy ?w) = int m" by simp
  have run: "process_event_with_retry ?w stored s = G ((F ^^ m) s)"
    if "\<And>k s. k < m \<Longrightarrow> handle_failure (pw_policy ?w) event e (int k) (f s) = (F s, Some (x k))"
      "\<And>s. fst (handle_failure (pw_policy ?w) event e (int m) (f s)) = G s" for F G x
    by (rule process_event_loop_repeats [OF mx]) (simp_all only: at that fst_conv snd_conv, simp)
  have dead: "dead_letter_and_raise (pw_policy ?w) event e s = (g s, Some (ProjectionHandlerError e))" for s
    by (simp add: dead_letter_and_raise_def invoke_dead_letter_def)
  consider "p = ''skip''" | "p = ''retry''" | "p = ''dead_letter''" | "p = ''retry_then_dead_letter''"
    | "p \<notin> {''skip'', ''retry'', ''dead_letter'', ''retry_then_dead_letter''}" by blast
  then show ?thesis
  proof cases
    case 1
    then have "process_attempt ?w stored 0 s = (f s, None)" unfolding at by (simp add: handle_failure_def)
    from process_event_ok [OF mx this] show ?thesis using 1 by simp
  next
    case 2
    then show ?thesis using run [of f "\<lambda>k. ProjectionHandlerError e" f] by (simp add: handle_failure_def)
  next
    case 3
    then show ?thesis using run [of "\<lambda>s. g (f s)" "\<lambda>k. ProjectionHandlerError e" "\<lambda>s. g (f s)"] dead
      by (simp add: handle_failure_def)
  next
    case 4
    then show ?thesis using run [of f "\<lambda>k. ProjectionHandlerError e" "\<lambda>s. g (f s)"] dead
      by (simp add: handle_failure_def)
  next
    case 5
    then have "map_of (ep_policies (pw_policy ?w)) p = None"
      by (simp add: new_error_policy_def register_builtin_policies_def register_policy_def)
    then show ?thesis using run [of f "\<lambda>k. UnknownErrorPolicy p" f] 5 by (simp add: handle_failure_def)
  qed
qed

section \<open>Replay\<close>

definition replay_step :: "'s replay_engine \<Rightarrow> stored_event \<Rightarrow> 's \<Rightarrow> 's" where
  "replay_step r stored s =
     (case hydrate_stored (re_event_registry r) stored of
        Inr (Some e) \<Rightarrow> fst (dispatch_loop (re_isa r) (re_policy r) e 1
                              (get_projection_handlers (re_registry r) (se_event_type stored)) s)
      | _ \<Rightarrow> s)"

lemma skip_never_raises:
  "snd (dispatch_loop isa (new_error_policy ''skip'' m cb) event attempt hs s) = None"
  by (induction hs arbitrary: s) (auto simp: handle_failure_def split: prod.splits option.splits)

lemma replay_events_fold:
  assumes "re_policy r = new_error_policy ''skip'' m cb"
    and "list_all (\<lambda>stored. is_ok (hydrate_stored (re_event_registry r) stored)) evs"
  shows "replay_events r None k evs s = (fold (replay_step r) evs s, Inr (k + length evs))"
  using assms(2)
proof (induction evs arbitrary: k s)
  case (Cons e evs)
  obtain ev where ev: "hydrate_stored (re_event_registry r) e = Inr ev"
    using Cons.prems by (cases "hydrate_stored (re_event_registry r) e") auto
  show ?case
  proof (cases ev)
    case None
    with ev Cons show ?thesis by (simp add: replay_step_def)
  next
    case (Some x)
    obtain s' where "dispatch_loop (re_isa r) (re_policy r) x 1
        (get_projection_handlers (re_registry r) (se_event_type e)) s = (s', None)"
      using skip_never_raises [of "re_isa r" m cb x 1 _ s] assms(1) by (metis prod.collapse)
    with ev Some Cons show ?thesis by (simp add: replay_step_def)
  qed
qed simp

lemma replay_batches_fold:
  assumes "re_policy r = new_error_policy ''skip'' m cb"
    and "list_all (\<lambda>stored. is_ok (hydrate_stored (re_event_registry r) stored)) (concat batches)"
    and "get_position (fst st) name = Some p"
  shows "\<exists>cp'. replay_batches r name None p k batches st = ((cp', fold (replay_step r) (concat batches) (snd st)), None) \<and>
           get_position cp' name = Some (p + int (length (concat batches)))"
  using assms(2,3)
proof (induction batches arbitrary: p k st)
  case Nil
  then show ?case by (cases st) simp
next
  case (Cons b bs)
  let ?st = "(save_position (fst st) name (p + int (length b)), fold (replay_step r) b (snd st))"
  have "get_position (fst ?st) name = Some (p + int (length b))" by (simp add: get_position_def save_position_def)
  with Cons.IH [of ?st "p + int (length b)"] Cons.prems(1)
  obtain cp' where "replay_batches r name None (p + int (length b)) (k + length b) bs ?st =
        ((cp', fold (replay_step r) (concat bs) (snd ?st)), None)"
      "get_position cp' name = Some (p + int (length b) + int (length (concat bs)))" by auto
  then show ?case
    using replay_events_fold [OF assms(1), of b k "snd st"] Cons.prems(1)
    by (simp add: Let_def add.assoc)
qed

lemma replay_all:
  assumes "dense es" "length es < fuel" "re_policy r = new_error_policy ''skip'' m cb"
    and "list_all (\<lambda>stored. is_ok (hydrate_stored (re_event_registry r) stored)) es"
  obtains cp' where
    "replay_internal fuel r es name from_position None None (cp, s) = Some ((cp', fold (replay_step r) es s), None)"
    "get_position cp' name = Some (from_position + int (length es))"
proof -
  have all: "filter (wanted (-1) None) es = es"
    using dense_nth [OF assms(1)] by (auto simp: filter_id_conv in_set_conv_nth pos_of_def)
  then obtain bs where bs: "get_all_streaming fuel es (re_batch_size r) None = Some bs" "concat bs = es"
    using get_all_streaming_loop_complete [OF dense_positions_ok [OF assms(1)], of "-1" None fuel "re_batch_size r"]
      assms(2) unfolding get_all_streaming_def by auto
  have "get_position (save_position cp name from_position) name = Some from_position"
    by (simp add: get_position_def save_position_def)
  with replay_batches_fold [OF assms(3), of bs "(save_position cp name from_position, s)"] assms(4) bs(2)
  obtain cp' where "replay_batches r name None from_position 0 bs (save_position cp name from_position, s) =
        ((cp', fold (replay_step r) es s), None)"
      "get_position cp' name = Some (from_position + int (length es))" by fastforce
  with bs(1) show thesis by (auto intro!: that simp: replay_internal_def)
qed

text \<open>
  A replay under the skipping policy ends, runs every event of the log once and in order, whatever
  \<^verbatim>\<open>from_position\<close> it is given, and leaves \<^verbatim>\<open>from_position\<close> plus the number of events as the checkpoint.
\<close>

theorem replay_runs_whole_log:
  assumes "dense es" "length es < fuel" "re_policy r = new_error_policy ''skip'' m cb"
    and "list_all (\<lambda>stored. is_ok (hydrate_stored (re_event_registry r) stored)) es"
  shows "\<exists>cp'. replay_internal fuel r es name from_position None None (cp, s) =
             Some ((cp', fold (replay_step r) es s), None) \<and>
           get_position cp' name = Some (from_position + int (length es))"
  using replay_all [OF assms, of name from_position cp s] by blast

text \<open>
  A worker that takes over after a replay never projects the next event: the replay leaves the number
  of events as the checkpoint, which is the position of the next event, and the worker reads only beyond it.
\<close>

theorem event_after_replay_is_lost:
  assumes "dense es" "length es < fuel" "re_policy r = new_error_policy ''skip'' m cb"
    and "list_all (\<lambda>stored. is_ok (hydrate_stored (re_event_registry r) stored)) es" "se_position e = None"
  shows "(case replay_internal fuel r es (pw_name w) 0 None None (cp, s) of
            None \<Rightarrow> False
          | Some (st, x) \<Rightarrow> worker_round w signal (append_batch es [e]) st = st)"
proof -
  obtain cp' where rp: "replay_internal fuel r es (pw_name w) 0 None None (cp, s) =
        Some ((cp', fold (replay_step r) es s), None)" "get_position cp' (pw_name w) = Some (int (length es))"
    using replay_all [OF assms(1-4), of "pw_name w" 0 cp s] unfolding add_0 by metis
  have d: "dense (append_batch es [e])" using dense_append_batch [OF assms(1)] assms(5) by simp
  have "length (append_batch es [e]) = Suc (length es)" by (simp add: append_batch_fold)
  then have "worker_round w signal (append_batch es [e]) (cp', s') = (cp', s')" for s'
    using worker_round_cases [OF d, of w "(cp', s')" "[]" signal] rp(2)
    by (simp add: checkpoint_position_def)
  with rp(1) show ?thesis by simp
qed

section \<open>Partitions\<close>

lemma one_partition_per_event:
  assumes "0 < n"
  shows "\<exists>!i. 0 \<le> i \<and> i < n \<and> partition_filter digest i n e = Inr True"
  using assms by (intro ex1I [of _ "int (digest (se_aggregate_id e)) mod n"]) (auto simp: partition_filter_def)

text \<open>
  Of the workers that share a lock strategy at most one runs a partition: once a worker has started,
  any other start on the same partition index is refused and leaves its worker as it was, and the
  locks are back to what they were when the first has stopped.
\<close>

theorem partition_claimed_once:
  assumes "lm_ok (fst l)" "\<And>k. uuid k \<noteq> []"
    and "partition_start (mem_acquire uuid tmo) i (l, p) = ((l', p'), None)"
  shows "ps_running p' \<and>
         (case partition_start (mem_acquire uuid tmo) i (l', q) of ((l'', q'), x) \<Rightarrow> x \<noteq> None \<and> q' = q) \<and>
         (case partition_stop mem_release i (l', p') of ((l'', p''), x) \<Rightarrow>
            x = None \<and> \<not> ps_running p'' \<and> ps_token p'' = None \<and> mem_held (fst l'') = mem_held (fst l))"
proof -
  let ?r = "partition_resource i"
  obtain t where t: "mem_acquire uuid tmo l ?r None = (l', Inr t)" and p': "p' = p\<lparr>ps_token := Some t, ps_running := True\<rparr>"
    using assms(3) by (auto simp: partition_start_def split: prod.splits sum.splits)
  obtain n where n: "mem_held (fst l') (res_key ?r) = Some (t, None, n)" and ok: "lm_ok (fst l')"
    using mem_locks.acquire_held [OF assms(1) t] by metis
  have "\<not> is_ok (snd (mem_acquire uuid tmo l' ?r None))"
    by (rule mem_locks.acquire_excludes [OF ok n]) simp
  then have refused: "case partition_start (mem_acquire uuid tmo) i (l', q) of ((l'', q'), x) \<Rightarrow> x \<noteq> None \<and> q' = q"
    by (cases "mem_acquire uuid tmo l' ?r None") (auto simp: partition_start_def split: sum.splits)
  have "t \<noteq> []"
    using mem_acquire_cases [OF assms(1), of ?r uuid tmo None] t assms(2) by (metis Inl_Inr_False Inr_inject prod.inject)
  moreover note mem_locks.acquire_release [OF assms(1) t refl ok]
  ultimately have "case partition_stop mem_release i (l', p') of ((l'', p''), x) \<Rightarrow>
      x = None \<and> \<not> ps_running p'' \<and> ps_token p'' = None \<and> mem_held (fst l'') = mem_held (fst l)"
    by (cases "mem_release l' ?r t") (simp add: partition_stop_def p' truthy_def)
  with refused p' show ?thesis by simp
qed

section \<open>Witnesses\<close>

text \<open>A read model that counts events; the handler of the failing worker counts and raises.\<close>

definition ex_created :: domain_event where
  "ex_created = (ex_added ''e1'')\<lparr>de_class := ''OrderCreated''\<rparr>"

definition counting_worker :: "nat error_policy \<Rightarrow> (exn option) \<Rightarrow> nat projection_worker" where
  "counting_worker policy outcome =
     \<lparr>pw_registry = register_projection
        (add_projection_handler ''OrderCreated'' (\<lambda>event s. (Suc s, outcome)) []) [],
      pw_isa = (=), pw_name = ''orders'',
      pw_event_registry = Some (register_event_type ''OrderCreated'' (\<lambda>d. Inr ex_created) []),
      pw_batch_size = 2, pw_policy = policy, pw_partition_filter = None\<rparr>"

abbreviation ex_worker :: "nat projection_worker" where
  "ex_worker \<equiv> counting_worker (new_error_policy ''skip'' 3 None) None"

definition ex_engine :: "nat replay_engine" where
  "ex_engine = \<lparr>re_registry = pw_registry ex_worker, re_isa = (=), re_event_registry = pw_event_registry ex_worker,
     re_batch_size = 2, re_policy = new_error_policy ''skip'' 3 None\<rparr>"

lemma no_projections: "get_projection_handlers [] ty = []"
  by (simp add: get_projection_handlers_def)

lemma sample_event_simps [simp]:
  "se_event_type (sample_event a v) = ''OrderCreated''" "se_position (sample_event a v) = None"
  "se_aggregate_id (sample_event a v) = a" "se_payload (sample_event a v) = []"
  by (simp_all add: sample_event_def)

lemma counting_dispatch:
  assumes "se_event_type e = ''OrderCreated''"
  shows "process_attempt (counting_worker p x) e k s = dispatch_loop (=) p ex_created k
      [add_projection_handler ''OrderCreated'' (\<lambda>event s. (Suc s, x)) []] s"
  using assms
  by (simp add: counting_worker_def process_attempt_def hydrate_stored_def hydrate_event_def register_event_type_def
      dispatch_projection_def get_register_projection add_projection_handler_def handles_def no_projections)

lemma ex_process [simp]:
  "se_event_type e = ''OrderCreated'' \<Longrightarrow> process_event_with_retry ex_worker e s = Suc s"
  by (rule process_event_ok [where m = 3])
    (simp_all add: counting_dispatch, simp_all add: counting_worker_def handle_projection_def add_projection_handler_def ex_created_def)

lemma ex_unpartitioned [simp]:
  "pw_partition_filter (counting_worker p x) = None" "pw_name (counting_worker p x) = ''orders''"
  "pw_batch_size (counting_worker p x) = 2" "pw_policy (counting_worker p x) = p"
  by (simp_all add: counting_worker_def)

lemma counting_worker_policy [simp]: "(counting_worker p x)\<lparr>pw_policy := q\<rparr> = counting_worker q x"
  by (simp add: counting_worker_def)

lemma sample_store_dense [simp]: "dense sample_store"
  by (rule dense_append_batch) (simp_all add: dense_def)

lemma sample_store_types [simp]:
  "sample_store = [(sample_event ''a'' 1)\<lparr>se_position := Some 0\<rparr>, (sample_event ''b'' 1)\<lparr>se_position := Some 1\<rparr>,
     (sample_event ''a'' 2)\<lparr>se_position := Some 2\<rparr>]"
  by (simp add: append_batch_def append_batch_internal_def place_def)

theorem worker_catches_up_witness:
  "snd ((worker_round ex_worker (\<lambda>j. Runs) sample_store ^^ 1) ([], 0)) = 2"
  using worker_catches_up [of ex_worker sample_store "[]" "\<lambda>j. Runs" 1, where s = 0] sample_store_dense
  by (simp add: get_position_def case_prod_beta)

text \<open>A worker cancelled at the second event of its batch, and started again.\<close>

definition ex_cancelled :: "checkpoints \<times> nat" where
  "ex_cancelled = worker_round ex_worker (\<lambda>j. if j = 1 then Cancels id else Runs) sample_store ([], 0)"

theorem worker_projects_once_in_order_witness:
  "\<exists>segs. snd (worker_round ex_worker (\<lambda>j. Runs) sample_store ex_cancelled) =
       fold (run_segment ex_worker) segs 0 \<and> cancellations segs = 1 \<and> length (settled segs) = 2"
proof -
  let ?st = "worker_round ex_worker (\<lambda>j. Runs) sample_store ex_cancelled"
  have c: "worker_iteration ex_worker (\<lambda>j. if j = 1 then Cancels id else Runs) sample_store ([], 0) = (([], 1), False)"
    by (simp add: worker_iteration_def checkpoint_position_def get_position_def get_events_after_def cursor_def
        process_event_batch_def should_process_def cancelled_error_def)
  have r: "worker_iteration ex_worker (\<lambda>j. Runs) sample_store ([], 1) = (([(''orders'', 2)], 3), True)"
    by (simp add: worker_iteration_def checkpoint_position_def get_position_def get_events_after_def cursor_def
        process_event_batch_def save_position_def should_process_def cancelled_error_def)
  have "worker_run ex_worker 0 sample_store ([], 0) 0"
    by (intro worker_run.intros) (simp_all add: get_position_def)
  from worker_run.round [OF worker_run.round [OF this c] r]
  have run: "worker_run ex_worker 0 sample_store ([(''orders'', 2)], 3) 1" by simp
  have st: "?st = ([(''orders'', 2)], 3)" using r c by (simp add: ex_cancelled_def del: sample_store_types)
  from worker_projects_once_in_order [OF run] show ?thesis
    unfolding st by (auto simp: checkpoint_position_def get_position_def)
qed

theorem partition_starves_witness:
  "snd ((worker_round (partition_worker (\<lambda>a. if a = ''a'' then 0 else 1) 0 2 (ex_worker\<lparr>pw_batch_size := 1\<rparr>)) (\<lambda>j. Runs)
     (append_batch sample_store [sample_event ''a'' 3]) ^^ 7) ([], 0)) = 0"
proof -
  let ?w = "partition_worker (\<lambda>a. if a = ''a'' then 0 else 1) 0 2 (ex_worker\<lparr>pw_batch_size := 1\<rparr>)"
  have pos: "checkpoint_position ?w [] = 0" by (simp add: checkpoint_position_def get_position_def)
  have batch: "get_events_after sample_store 0 (pw_batch_size ?w) None = [(sample_event ''b'' 1)\<lparr>se_position := Some 1\<rparr>]"
    by (simp add: partition_worker_def get_events_after_def cursor_def)
  have foreign: "\<not> mine ?w ((sample_event ''b'' 1)\<lparr>se_position := Some 1\<rparr>)" and dec: "decides ?w"
    by (simp_all add: mine_def decides_def should_process_def partition_worker_def partition_filter_def)
  have "pw_batch_size ?w = 1" by (simp add: partition_worker_def)
  with partition_starves [where w = ?w and es = sample_store and cp = "[]" and evs = "[sample_event ''a'' 3]" and
      signal = "\<lambda>j. Runs" and n = 7 and s = 0] pos batch foreign dec sample_store_dense
  show ?thesis by (simp add: case_prod_beta del: sample_store_types)
qed

theorem failing_event_policies_witness:
  "process_event_with_retry (counting_worker (new_error_policy ''dead_letter'' (int 3) (Some (\<lambda>ev x s. (s + 10, None)))) (Some IndexError))
     (sample_event ''a'' 1) 0 = 44"
proof -
  let ?p = "new_error_policy ''dead_letter'' (int 3) (Some (\<lambda>ev x s. (s + 10, None)))"
  let ?w = "counting_worker ?p (Some IndexError)"
  have "failing_worker ?w (sample_event ''a'' 1) ex_created Suc IndexError"
    by (simp add: failing_worker_def counting_worker_def hydrate_stored_def hydrate_event_def register_event_type_def
        get_register_projection add_projection_handler_def handles_def no_projections handle_projection_def ex_created_def)
  moreover have "((\<lambda>s. Suc s + 10) ^^ Suc 3) 0 = (44 :: nat)" by (simp add: numeral_3_eq_3)
  ultimately show ?thesis
    using failing_event_policies [where w = ?w and p = "''dead_letter''" and m = 3 and g = "\<lambda>s. s + 10" and
      stored = "sample_event ''a'' 1" and event = ex_created and f = Suc and e = IndexError and s = 0]
    by simp
qed

lemma ex_engine_policy [simp]: "re_policy ex_engine = new_error_policy ''skip'' 3 None"
  by (simp add: ex_engine_def)

lemma ex_hydrates [simp]: "list_all (\<lambda>stored. is_ok (hydrate_stored (re_event_registry ex_engine) stored)) es"
  by (induction es) (simp_all add: ex_engine_def counting_worker_def hydrate_stored_def hydrate_event_def register_event_type_def)

theorem replay_runs_whole_log_witness:
  "\<exists>cp'. replay_internal 4 ex_engine sample_store ''orders'' 7 None None ([], 0) = Some ((cp', 3), None) \<and>
     get_position cp' ''orders'' = Some 10"
proof -
  have "replay_step ex_engine e s = Suc s" if "se_event_type e = ''OrderCreated''" for e s
    using that by (simp add: replay_step_def ex_engine_def counting_worker_def hydrate_stored_def hydrate_event_def
        register_event_type_def get_register_projection add_projection_handler_def handles_def no_projections
        handle_projection_def ex_created_def)
  with replay_runs_whole_log [of sample_store 4 ex_engine 3 None "''orders''" 7 "[]" 0] sample_store_dense
  show ?thesis by (simp add: eval_nat_numeral)
qed

theorem event_after_replay_is_lost_witness:
  "(case replay_internal 4 ex_engine sample_store ''orders'' 0 None None ([], 0) of
      None \<Rightarrow> False
    | Some (st, x) \<Rightarrow> worker_round ex_worker (\<lambda>j. Runs) (append_batch sample_store [sample_event ''a'' 3]) st = st)"
  using event_after_replay_is_lost [where es = sample_store and fuel = 4 and r = ex_engine and m = 3 and cb = None and
      e = "sample_event ''a'' 3" and w = ex_worker and cp = "[]" and s = 0 and signal = "\<lambda>j. Runs"] sample_store_dense
  by simp

theorem partition_claimed_once_witness:
  "\<exists>l' p' x l''. partition_start (mem_acquire (\<lambda>k. ''t'') ''1'') 0 ((no_locks, 0), \<lparr>ps_token = None, ps_running = False\<rparr>) =
      ((l', p'), None) \<and>
     partition_start (mem_acquire (\<lambda>k. ''t'') ''1'') 0 (l', \<lparr>ps_token = None, ps_running = False\<rparr>) =
       ((l'', \<lparr>ps_token = None, ps_running = False\<rparr>), Some x)"
proof -
  let ?p = "\<lparr>ps_token = None, ps_running = False\<rparr>"
  have "is_ok (snd (mem_acquire (\<lambda>k. ''t'') ''1'' (no_locks, 0) (partition_resource 0) None))"
    by (rule mem_eager.acquire_free) (simp add: lm_ok_no_locks, simp add: mem_held_def no_locks_def)
  then obtain l' p' where s: "partition_start (mem_acquire (\<lambda>k. ''t'') ''1'') 0 ((no_locks, 0), ?p) = ((l', p'), None)"
    by (cases "mem_acquire (\<lambda>k. ''t'') ''1'' (no_locks, 0) (partition_resource 0) None";
        cases "snd (mem_acquire (\<lambda>k. ''t'') ''1'' (no_locks, 0) (partition_resource 0) None)")
      (auto simp: partition_start_def)
  then show ?thesis
    using partition_claimed_once [of "(no_locks, 0)" "\<lambda>k. ''t''" "''1''" 0 ?p l' p' ?p] lm_ok_no_locks
    by (auto split: prod.splits)
qed

end
