(* ===== verification/Access.thy ===== *)
theory Access
  imports Prelude "HOL-Library.Sublist"
begin

text \<open>
  Authorisation decisions (features/access/src/cqrs_ddd_access_control): the evaluators
  (evaluators/rbac.py, acl.py, abac.py, ownership.py), the policy enforcement point (pep.py), the decision
  cache (cache.py), the filters and batch results of models.py and the elevation check (elevation.py), over the
  \<^verbatim>\<open>Principal\<close> of features/identity/src/cqrs_ddd_identity/principal.py.

  A set of strings is a list whose order is the iteration order of the set.  The authorisation engine
  behind \<^verbatim>\<open>IAuthorizationPort\<close> and the ownership resolver are application code: the calls made on them
  are parameters.  The decision cache keeps its entries in a cache service; a model of that service is
  the dictionary of entries that have not expired, and \<^verbatim>\<open>clear_namespace\<close> removes the keys with a
  given prefix, as the port documents.
\<close>

section \<open>Principals\<close>

record principal =
  pr_user_id :: string
  pr_username :: string
  pr_roles :: "string list"
  pr_permissions :: "string list"
  pr_tenant_id :: "string option"
  pr_mfa_verified :: bool
  pr_expires_at :: "time option"
  pr_auth_method :: string
  pr_session_id :: "string option"
  pr_claims :: payload

definition anonymous_principal :: principal where
  "anonymous_principal = \<lparr>pr_user_id = ''anonymous'', pr_username = ''anonymous'', pr_roles = [], pr_permissions = [],
     pr_tenant_id = None, pr_mfa_verified = False, pr_expires_at = None, pr_auth_method = ''jwt'', pr_session_id = None, pr_claims = []\<rparr>"

definition system_principal :: principal where
  "system_principal = \<lparr>pr_user_id = ''system'', pr_username = ''system'', pr_roles = [''*''], pr_permissions = [''*''],
     pr_tenant_id = None, pr_mfa_verified = False, pr_expires_at = None, pr_auth_method = ''jwt'', pr_session_id = None, pr_claims = []\<rparr>"

definition is_authenticated :: "principal \<Rightarrow> bool" where
  "is_authenticated p \<longleftrightarrow> pr_user_id p \<notin> {''anonymous'', ''system''}"

definition is_expired :: "time \<Rightarrow> principal \<Rightarrow> bool" where
  "is_expired now p = (case pr_expires_at p of None \<Rightarrow> False | Some t \<Rightarrow> t < now)"

definition has_role :: "principal \<Rightarrow> string \<Rightarrow> bool" where
  "has_role p role \<longleftrightarrow> role \<in> set (pr_roles p) \<or> ''*'' \<in> set (pr_roles p)"

definition has_any_role :: "principal \<Rightarrow> string list \<Rightarrow> bool" where
  "has_any_role p roles = list_ex (has_role p) roles"

definition has_all_roles :: "principal \<Rightarrow> string list \<Rightarrow> bool" where
  "has_all_roles p roles = list_all (has_role p) roles"

definition has_permission :: "principal \<Rightarrow> string \<Rightarrow> bool" where
  "has_permission p perm \<longleftrightarrow> perm \<in> set (pr_permissions p) \<or> ''*'' \<in> set (pr_permissions p)"

definition has_any_permission :: "principal \<Rightarrow> string list \<Rightarrow> bool" where
  "has_any_permission p perms = list_ex (has_permission p) perms"

definition has_all_permissions :: "principal \<Rightarrow> string list \<Rightarrow> bool" where
  "has_all_permissions p perms = list_all (has_permission p) perms"

definition set_union :: "string list \<Rightarrow> string list \<Rightarrow> string list" where
  "set_union xs ys = xs @ filter (\<lambda>y. y \<notin> set xs) (remdups ys)"

definition with_roles :: "string list \<Rightarrow> principal \<Rightarrow> principal" where
  "with_roles roles p = p\<lparr>pr_roles := set_union (pr_roles p) roles\<rparr>"

definition with_permissions :: "string list \<Rightarrow> principal \<Rightarrow> principal" where
  "with_permissions perms p = p\<lparr>pr_permissions := set_union (pr_permissions p) perms\<rparr>"

definition with_mfa_verified :: "principal \<Rightarrow> principal" where
  "with_mfa_verified p = p\<lparr>pr_mfa_verified := True\<rparr>"

section \<open>Contexts and decisions\<close>

record auth_context =
  ax_resource_type :: string
  ax_action :: string
  ax_resource_ids :: "string list option"
  ax_resource_attributes :: payload
  ax_auth_context :: payload

record decision =
  ad_allowed :: bool
  ad_reason :: string
  ad_evaluator :: string

definition decide :: "bool \<Rightarrow> string \<Rightarrow> string \<Rightarrow> decision" where
  "decide allowed reason evaluator = \<lparr>ad_allowed = allowed, ad_reason = reason, ad_evaluator = evaluator\<rparr>"

type_synonym evaluator = "principal \<Rightarrow> auth_context \<Rightarrow> exn + decision"

text \<open>\<^verbatim>\<open>_resolve_bypass_roles\<close>; \<open>env\<close> is the value of \<^verbatim>\<open>AUTH_BYPASS_ROLES\<close>, already split and stripped.\<close>

definition resolve_bypass_roles :: "string list \<Rightarrow> string list option \<Rightarrow> string list" where
  "resolve_bypass_roles env bypass_roles =
     (case bypass_roles of Some r \<Rightarrow> r | None \<Rightarrow> remdups (filter (\<lambda>r. r \<noteq> []) env))"

section \<open>Evaluators\<close>

subsection \<open>Roles\<close>

type_synonym role_hierarchy = "(string, string list) dict"

definition children :: "role_hierarchy \<Rightarrow> string \<Rightarrow> string list" where
  "children h role = (case map_of h role of None \<Rightarrow> [] | Some cs \<Rightarrow> cs)"

text \<open>The inner loop over the children of one role: what it appends to the queue and to the set.\<close>

definition new_children :: "role_hierarchy \<Rightarrow> string list \<Rightarrow> string \<Rightarrow> string list" where
  "new_children h expanded role = filter (\<lambda>c. c \<notin> set expanded) (remdups (children h role))"

definition hierarchy_roles :: "role_hierarchy \<Rightarrow> string set" where
  "hierarchy_roles h = (\<Union>cs\<in>set (dvalues h). set cs)"

function expand_loop :: "role_hierarchy \<Rightarrow> string list \<Rightarrow> string list \<Rightarrow> string list" where
  "expand_loop h queue expanded =
     (if queue = [] then expanded
      else let new = new_children h expanded (last queue)
           in expand_loop h (butlast queue @ new) (expanded @ new))"
  by pat_completeness auto
termination
proof (relation "inv_image (less_than <*lex*> less_than)
    (\<lambda>(h, queue, expanded). (card (hierarchy_roles h - set expanded), length queue))")
  fix h :: role_hierarchy and queue expanded new
  assume ne: "queue \<noteq> []" and new: "new = new_children h expanded (last queue)"
  let ?U = "hierarchy_roles h"
  have fin: "finite ?U" by (simp add: hierarchy_roles_def)
  have "set (children h role) \<subseteq> ?U" for role
    by (cases "map_of h role") (auto simp: children_def hierarchy_roles_def dest!: map_of_SomeD)
  then have sub: "set new \<subseteq> ?U - set expanded" by (auto simp: new new_children_def)
  have "card (?U - set (expanded @ new)) < card (?U - set expanded)" if "new \<noteq> []"
    using sub that by (intro psubset_card_mono) (auto simp: fin neq_Nil_conv)
  moreover have "length (butlast queue @ new) < length queue" if "new = []" using ne that by simp
  ultimately show "((h, butlast queue @ new, expanded @ new), (h, queue, expanded))
      \<in> inv_image (less_than <*lex*> less_than)
          (\<lambda>(h, queue, expanded). (card (hierarchy_roles h - set expanded), length queue))"
    by (cases "new = []") auto
qed (auto intro!: wf_inv_image)

declare expand_loop.simps [simp del]

definition expand_roles :: "role_hierarchy \<Rightarrow> string list \<Rightarrow> string list" where
  "expand_roles h roles = expand_loop h roles roles"

definition permission_key :: "auth_context \<Rightarrow> string" where
  "permission_key ctx = ax_resource_type ctx @ '':'' @ ax_action ctx"

definition rbac_evaluate :: "(string, string list) dict \<Rightarrow> role_hierarchy \<Rightarrow> evaluator" where
  "rbac_evaluate role_permissions h p ctx =
     Inr (if list_ex (\<lambda>role. permission_key ctx \<in> set (case map_of role_permissions role of None \<Rightarrow> [] | Some ps \<Rightarrow> ps))
               (expand_roles h (pr_roles p))
          then decide True (''Role permission match: '' @ permission_key ctx) ''rbac''
          else decide False ''abstain'' ''rbac'')"

subsection \<open>Access control lists and external engines\<close>

text \<open>\<open>check\<close> is \<^verbatim>\<open>check_access\<close> with the caller's token: type, action, resource ids, context.\<close>

type_synonym check_access = "string \<Rightarrow> string \<Rightarrow> string list option \<Rightarrow> payload \<Rightarrow> exn + string list"

definition acl_evaluate :: "check_access \<Rightarrow> (string list \<Rightarrow> string) \<Rightarrow> evaluator" where
  "acl_evaluate check show_set p ctx =
     (case check (ax_resource_type ctx) (ax_action ctx) (ax_resource_ids ctx) (ax_auth_context ctx) of
        Inl x \<Rightarrow> Inl x
      | Inr authorized_ids \<Rightarrow>
          Inr (case ax_resource_ids ctx of
                 None \<Rightarrow> if authorized_ids \<noteq> [] then decide True ''Type-level ACL granted'' ''acl''
                         else decide False ''abstain'' ''acl''
               | Some ids \<Rightarrow>
                   if set ids \<subseteq> set authorized_ids
                   then decide True ''ACL grant for all requested resources'' ''acl''
                   else let denied = filter (\<lambda>i. i \<notin> set authorized_ids) (remdups ids)
                        in if denied \<noteq> [] then decide False (''ACL denied for resources: '' @ show_set denied) ''acl''
                           else decide False ''abstain'' ''acl''))"

definition abac_evaluate :: "check_access \<Rightarrow> evaluator" where
  "abac_evaluate check p ctx =
     (case check (ax_resource_type ctx) (ax_action ctx) (ax_resource_ids ctx) (ax_auth_context ctx) of
        Inl x \<Rightarrow> Inl x
      | Inr authorized_ids \<Rightarrow>
          Inr (case ax_resource_ids ctx of
                 None \<Rightarrow> if authorized_ids \<noteq> [] then decide True ''ABAC engine granted type-level access'' ''abac''
                         else decide False ''ABAC engine denied type-level access'' ''abac''
               | Some ids \<Rightarrow>
                   if set ids \<subseteq> set authorized_ids then decide True ''ABAC engine granted access'' ''abac''
                   else decide False ''ABAC engine denied access'' ''abac''))"

subsection \<open>Ownership\<close>

text \<open>\<^verbatim>\<open>get_owner\<close> returns nothing, one owner or a list of owners.\<close>

datatype owner = NoOwner | OneOwner string | Owners "string list"

type_synonym get_owner = "string \<Rightarrow> string \<Rightarrow> exn + owner"

fun owners_of :: "owner \<Rightarrow> string list" where
  "owners_of NoOwner = []"
| "owners_of (OneOwner u) = [u]"
| "owners_of (Owners us) = us"

fun owns_all :: "get_owner \<Rightarrow> string \<Rightarrow> string \<Rightarrow> string list \<Rightarrow> exn + bool" where
  "owns_all get_owner ty user [] = Inr True"
| "owns_all get_owner ty user (i # ids) =
     (case get_owner ty i of
        Inl x \<Rightarrow> Inl x
      | Inr NoOwner \<Rightarrow> Inr False
      | Inr ow \<Rightarrow> if user \<notin> set (owners_of ow) then Inr False else owns_all get_owner ty user ids)"

definition ownership_evaluate :: "get_owner \<Rightarrow> string list option \<Rightarrow> evaluator" where
  "ownership_evaluate get_owner owner_actions p ctx =
     (case ax_resource_ids ctx of
        None \<Rightarrow> Inr (decide False ''abstain'' ''ownership'')
      | Some [] \<Rightarrow> Inr (decide False ''abstain'' ''ownership'')
      | Some ids \<Rightarrow>
          (case owns_all get_owner (ax_resource_type ctx) (pr_user_id p) ids of
             Inl x \<Rightarrow> Inl x
           | Inr False \<Rightarrow> Inr (decide False ''abstain'' ''ownership'')
           | Inr True \<Rightarrow>
               Inr (if (case owner_actions of None \<Rightarrow> False | Some acts \<Rightarrow> ax_action ctx \<notin> set acts)
                    then decide False ''abstain'' ''ownership''
                    else decide True ''Owner access granted'' ''ownership'')))"

section \<open>The decision cache\<close>

type_synonym decision_cache = "(string, decision) dict"

definition cache_key :: "string \<Rightarrow> string \<Rightarrow> string option \<Rightarrow> string \<Rightarrow> string" where
  "cache_key principal_id resource_type resource_id action =
     ''authz:'' @ principal_id @ '':'' @ resource_type @ '':'' @
       (if truthy resource_id then the resource_id else ''*'') @ '':'' @ action"

definition cache_get :: "decision_cache \<Rightarrow> string \<Rightarrow> string \<Rightarrow> string option \<Rightarrow> string \<Rightarrow> decision option" where
  "cache_get c pid ty rid act = map_of c (cache_key pid ty rid act)"

definition cache_set :: "string \<Rightarrow> string \<Rightarrow> string option \<Rightarrow> string \<Rightarrow> decision \<Rightarrow> decision_cache \<Rightarrow> decision_cache" where
  "cache_set pid ty rid act d c = AList.update (cache_key pid ty rid act) d c"

definition clear_namespace :: "string \<Rightarrow> decision_cache \<Rightarrow> decision_cache" where
  "clear_namespace pre c = filter (\<lambda>(k, d). \<not> prefix pre k) c"

definition cache_invalidate :: "string \<Rightarrow> string option \<Rightarrow> decision_cache \<Rightarrow> decision_cache" where
  "cache_invalidate ty rid c =
     clear_namespace (''authz:*:'' @ ty @ '':'' @ (if truthy rid then the rid else ''*'')) c"

section \<open>The policy enforcement point\<close>

definition first_resource :: "auth_context \<Rightarrow> string option" where
  "first_resource ctx = (case ax_resource_ids ctx of Some (i # ids) \<Rightarrow> Some i | _ \<Rightarrow> None)"

definition store_cache :: "principal \<Rightarrow> auth_context \<Rightarrow> decision \<Rightarrow> decision_cache option \<Rightarrow> decision_cache option" where
  "store_cache p ctx d cache =
     map_option (cache_set (pr_user_id p) (ax_resource_type ctx) (first_resource ctx) (ax_action ctx) d) cache"

fun evaluate_loop ::
  "evaluator list \<Rightarrow> principal \<Rightarrow> auth_context \<Rightarrow> decision option \<Rightarrow> exn + decision" where
  "evaluate_loop [] p ctx candidate =
     Inr (case candidate of Some d \<Rightarrow> d | None \<Rightarrow> decide False ''No evaluator granted access'' ''pep'')"
| "evaluate_loop (e # es) p ctx candidate =
     (case e p ctx of
        Inl x \<Rightarrow> Inl x
      | Inr d \<Rightarrow>
          if ad_reason d \<noteq> ''abstain'' \<and> \<not> ad_allowed d then Inr d
          else evaluate_loop es p ctx (if ad_allowed d \<and> candidate = None then Some d else candidate))"

definition pep_evaluate ::
  "evaluator list \<Rightarrow> string list \<Rightarrow> principal \<Rightarrow> auth_context \<Rightarrow> decision_cache option \<Rightarrow>
     decision_cache option \<times> (exn + decision)" where
  "pep_evaluate es bypass p ctx cache =
     (if bypass \<noteq> [] \<and> set (pr_roles p) \<inter> set bypass \<noteq> {}
      then (cache, Inr (decide True ''Bypass role'' ''pep''))
      else case (case cache of None \<Rightarrow> None
                 | Some c \<Rightarrow> cache_get c (pr_user_id p) (ax_resource_type ctx) (first_resource ctx) (ax_action ctx)) of
             Some d \<Rightarrow> (cache, Inr d)
           | None \<Rightarrow> (case evaluate_loop es p ctx None of
                 Inl x \<Rightarrow> (cache, Inl x)
               | Inr d \<Rightarrow> (store_cache p ctx d cache, Inr d)))"

fun pep_evaluate_batch ::
  "evaluator list \<Rightarrow> string list \<Rightarrow> principal \<Rightarrow> auth_context list \<Rightarrow> decision_cache option \<Rightarrow>
     decision_cache option \<times> (exn + decision list)" where
  "pep_evaluate_batch es bypass p [] cache = (cache, Inr [])"
| "pep_evaluate_batch es bypass p (ctx # ctxs) cache =
     (case pep_evaluate es bypass p ctx cache of
        (cache, Inl x) \<Rightarrow> (cache, Inl x)
      | (cache, Inr d) \<Rightarrow>
          (case pep_evaluate_batch es bypass p ctxs cache of
             (cache, Inl x) \<Rightarrow> (cache, Inl x)
           | (cache, Inr ds) \<Rightarrow> (cache, Inr (d # ds))))"

section \<open>Elevation\<close>

definition verify_elevation :: "check_access \<Rightarrow> string \<Rightarrow> bool \<Rightarrow> exn + bool" where
  "verify_elevation check action raise_on_fail =
     (case check ''elevation'' action None [] of
        Inl x \<Rightarrow> Inl x
      | Inr ids \<Rightarrow> if ids = [] then (if raise_on_fail then Inl (ElevationRequiredError action) else Inr False)
                   else Inr True)"

section \<open>Role expansion\<close>

definition inherits :: "role_hierarchy \<Rightarrow> (string \<times> string) set" where
  "inherits h = {(r, c). c \<in> set (children h r)}"

lemma set_new_children: "set (new_children h expanded r) = {c. (r, c) \<in> inherits h} - set expanded"
  by (auto simp: new_children_def inherits_def)

text \<open>
  The loop keeps a work list: whatever is reachable from the expanded set is expanded already or
  reachable from the queue.
\<close>

lemma expand_loop_closure:
  assumes "set queue \<subseteq> set expanded" "inherits h `` (set expanded - set queue) \<subseteq> set expanded"
  shows "set (expand_loop h queue expanded) = (inherits h)\<^sup>* `` set expanded"
  using assms
proof (induction h queue expanded rule: expand_loop.induct)
  case (1 h queue expanded)
  show ?case
  proof (cases "queue = []")
    case True
    then have "inherits h `` set expanded \<subseteq> set expanded" using 1(3) by simp
    then have "(inherits h)\<^sup>* `` set expanded = set expanded"
      by (rule Image_closed_trancl)
    with True show ?thesis by (simp add: expand_loop.simps)
  next
    case False
    let ?r = "last queue"
    define new where "new = new_children h expanded ?r"
    have q: "set queue = insert ?r (set (butlast queue))" using False by (cases queue rule: rev_cases) auto
    have n: "set new = {c. (?r, c) \<in> inherits h} - set expanded" by (simp add: new_def set_new_children)
    have r: "?r \<in> set expanded" using 1(2) q by blast
    have IH: "set (expand_loop h (butlast queue @ new) (expanded @ new)) = (inherits h)\<^sup>* `` set (expanded @ new)"
    proof (rule 1(1) [OF False new_def])
      show "set (butlast queue @ new) \<subseteq> set (expanded @ new)" using 1(2) q by auto
      show "inherits h `` (set (expanded @ new) - set (butlast queue @ new)) \<subseteq> set (expanded @ new)"
        using 1(3) n q by fastforce
    qed
    have "(inherits h)\<^sup>* `` set (expanded @ new) = (inherits h)\<^sup>* `` set expanded"
      using n r by (auto intro: converse_rtrancl_into_rtrancl)
    with IH False show ?thesis by (simp add: expand_loop.simps [of h queue] new_def Let_def)
  qed
qed

text \<open>
  C33: Role expansion ends on every hierarchy, cyclic ones included, and yields exactly the roles that
  the given ones inherit through any number of levels.
\<close>

theorem expand_roles_closure:
  "set (expand_roles h roles) = (inherits h)\<^sup>* `` set roles"
  using expand_loop_closure [of roles roles h] by (simp add: expand_roles_def)

text \<open>
  The role evaluator grants a request exactly when some inherited role has the permission
  \<^verbatim>\<open>type:action\<close>; otherwise it abstains, and it never denies.
\<close>

theorem rbac_grants_inherited_permissions:
  "(case rbac_evaluate perms h p ctx of
      Inl x \<Rightarrow> False
    | Inr d \<Rightarrow>
        (ad_allowed d \<longleftrightarrow> (\<exists>role \<in> (inherits h)\<^sup>* `` set (pr_roles p). \<exists>ps. map_of perms role = Some ps \<and> permission_key ctx \<in> set ps)) \<and>
        (ad_allowed d \<or> ad_reason d = ''abstain''))"
proof -
  have "set (expand_roles h (pr_roles p)) = (inherits h)\<^sup>* `` set (pr_roles p)"
    using expand_loop_closure [of "pr_roles p" "pr_roles p" h] by (simp add: expand_roles_def)
  moreover have "permission_key ctx \<in> set (case map_of perms role of None \<Rightarrow> [] | Some ps \<Rightarrow> ps) \<longleftrightarrow>
      (\<exists>ps. map_of perms role = Some ps \<and> permission_key ctx \<in> set ps)" for role
    by (cases "map_of perms role") auto
  ultimately show ?thesis by (simp add: rbac_evaluate_def decide_def list_ex_iff)
qed

section \<open>Deny wins\<close>

definition denies :: "decision \<Rightarrow> bool" where
  "denies d \<longleftrightarrow> ad_reason d \<noteq> ''abstain'' \<and> \<not> ad_allowed d"

text \<open>The decision that a list of verdicts amounts to.\<close>

definition verdict :: "decision list \<Rightarrow> decision" where
  "verdict ds =
     (case List.find denies ds of
        Some d \<Rightarrow> d
      | None \<Rightarrow> (case List.find ad_allowed ds of
                  Some d \<Rightarrow> d
                | None \<Rightarrow> decide False ''No evaluator granted access'' ''pep''))"

lemma evaluate_loop_verdict:
  assumes "list_all2 (\<lambda>e d. e p ctx = Inr d) es ds"
  shows "evaluate_loop es p ctx candidate =
    Inr (case List.find denies ds of
           Some d \<Rightarrow> d
         | None \<Rightarrow> (case candidate of Some d \<Rightarrow> d | None \<Rightarrow> verdict ds))"
  using assms
proof (induction arbitrary: candidate rule: list_all2_induct)
  case Nil
  then show ?case by (simp add: verdict_def split: option.split)
next
  case (Cons e es d ds)
  show ?case
  proof (cases "denies d")
    case True
    then show ?thesis using Cons(1) by (simp add: denies_def)
  next
    case False
    then have "evaluate_loop (e # es) p ctx candidate =
        evaluate_loop es p ctx (if ad_allowed d \<and> candidate = None then Some d else candidate)"
      using Cons(1) by (auto simp: denies_def)
    then show ?thesis using Cons(3) False by (auto simp: verdict_def split: option.splits)
  qed
qed

lemma pep_uncached:
  assumes "list_all2 (\<lambda>e d. e p ctx = Inr d) es ds" "set (pr_roles p) \<inter> set bypass = {}"
  shows "pep_evaluate es bypass p ctx None = (None, Inr (verdict ds))"
  using evaluate_loop_verdict [OF assms(1), of None] assms(2)
  by (simp add: pep_evaluate_def store_cache_def verdict_def split: option.splits)

lemma find_None_all: "List.find P xs = None \<longleftrightarrow> list_all (\<lambda>x. \<not> P x) xs"
  by (induction xs) auto

lemma find_Some_D: "List.find P xs = Some x \<Longrightarrow> P x \<and> x \<in> set xs"
  by (induction xs) (auto split: if_splits)

text \<open>
  C10: Deny wins: without a bypass role and a cache, the enforcement point allows a request exactly when
  no evaluator denies it and some evaluator allows it; the decision is the first denial, else the
  first grant, else a refusal.
\<close>

theorem pep_deny_wins:
  assumes "list_all2 (\<lambda>e d. e p ctx = Inr d) es ds" "set (pr_roles p) \<inter> set bypass = {}"
  shows "pep_evaluate es bypass p ctx None = (None, Inr (verdict ds)) \<and>
         (ad_allowed (verdict ds) \<longleftrightarrow> list_all (\<lambda>d. \<not> denies d) ds \<and> list_ex ad_allowed ds)"
proof -
  have "ad_allowed (verdict ds) \<longleftrightarrow> list_all (\<lambda>d. \<not> denies d) ds \<and> list_ex ad_allowed ds"
  proof (cases "List.find denies ds")
    case None
    then show ?thesis
      using find_None_all [of denies ds] find_None_all [of ad_allowed ds] find_Some_D [of ad_allowed ds]
      by (auto simp: verdict_def decide_def list_ex_iff list_all_iff split: option.splits)
  next
    case (Some d)
    then show ?thesis using find_Some_D [OF Some] by (auto simp: verdict_def denies_def list_all_iff)
  qed
  with pep_uncached [OF assms] show ?thesis by simp
qed

text \<open>
  A list evaluator or an external engine that is asked about an empty list of resources grants
  access, whatever the lists say; alone in the enforcement point it lets the request pass.
\<close>

theorem empty_resource_list_is_granted:
  assumes "ax_resource_ids ctx = Some []"
    "check (ax_resource_type ctx) (ax_action ctx) (Some []) (ax_auth_context ctx) = Inr ids"
    and "e = acl_evaluate check show_set \<or> e = abac_evaluate check"
  shows "\<exists>d. snd (pep_evaluate [e] bypass p ctx None) = Inr d \<and> ad_allowed d"
  using assms by (auto simp: pep_evaluate_def acl_evaluate_def abac_evaluate_def decide_def)

section \<open>The cache\<close>

definition request_key :: "principal \<Rightarrow> auth_context \<Rightarrow> string" where
  "request_key p ctx = cache_key (pr_user_id p) (ax_resource_type ctx) (first_resource ctx) (ax_action ctx)"

lemma pep_cached:
  assumes "set (pr_roles p) \<inter> set bypass = {}"
  shows "pep_evaluate es bypass p ctx (Some c) =
    (case map_of c (request_key p ctx) of
       Some d \<Rightarrow> (Some c, Inr d)
     | None \<Rightarrow> (case evaluate_loop es p ctx None of
           Inl x \<Rightarrow> (Some c, Inl x)
         | Inr d \<Rightarrow> (Some (AList.update (request_key p ctx) d c), Inr d)))"
  using assms by (auto simp: pep_evaluate_def cache_get_def request_key_def store_cache_def cache_set_def split: option.splits sum.splits)

text \<open>
  A run of requests through one enforcement point: each with the principal and the context, the cache
  passed along.
\<close>

fun pep_run ::
  "evaluator list \<Rightarrow> string list \<Rightarrow> (principal \<times> auth_context) list \<Rightarrow> decision_cache option \<Rightarrow> (exn + decision) list" where
  "pep_run es bypass [] cache = []"
| "pep_run es bypass ((p, ctx) # reqs) cache =
     (case pep_evaluate es bypass p ctx cache of (cache, r) \<Rightarrow> r # pep_run es bypass reqs cache)"

definition cache_sound :: "evaluator list \<Rightarrow> (principal \<times> auth_context) list \<Rightarrow> decision_cache \<Rightarrow> bool" where
  "cache_sound es reqs c \<longleftrightarrow>
     list_all (\<lambda>(p, ctx). \<forall>d. map_of c (request_key p ctx) = Some d \<longrightarrow> evaluate_loop es p ctx None = Inr d) reqs"

lemma pep_run_sound:
  assumes "\<And>p ctx p' ctx'. (p, ctx) \<in> set all \<Longrightarrow> (p', ctx') \<in> set all \<Longrightarrow>
      request_key p ctx = request_key p' ctx' \<Longrightarrow> evaluate_loop es p ctx None = evaluate_loop es p' ctx' None"
    and "cache_sound es all c" "set reqs \<subseteq> set all"
  shows "pep_run es bypass reqs (Some c) = pep_run es bypass reqs None"
  using assms(2,3)
proof (induction reqs arbitrary: c)
  case (Cons req reqs)
  obtain p ctx where req: "req = (p, ctx)" by (cases req)
  have in_all: "(p, ctx) \<in> set all" "set reqs \<subseteq> set all" using Cons.prems(2) req by auto
  show ?case
  proof (cases "set (pr_roles p) \<inter> set bypass = {}")
    case False
    then have "bypass \<noteq> []" by auto
    with False Cons.IH [OF Cons.prems(1) in_all(2)] show ?thesis by (simp add: req pep_evaluate_def)
  next
    case True
    note cached = pep_cached [OF True, of es ctx c]
    have un: "pep_evaluate es bypass p ctx None = (None, evaluate_loop es p ctx None)"
      using True by (auto simp: pep_evaluate_def store_cache_def split: sum.splits)
    have hit: "evaluate_loop es p ctx None = Inr d" if "map_of c (request_key p ctx) = Some d" for d
      using Cons.prems(1) in_all(1) that by (auto simp: cache_sound_def list_all_iff)
    have upd: "cache_sound es all (AList.update (request_key p ctx) d c)" if "evaluate_loop es p ctx None = Inr d" for d
      using Cons.prems(1) assms(1) [OF in_all(1)] that
      unfolding cache_sound_def list_all_iff by (auto split: if_splits) 
    show ?thesis
      using cached un hit upd Cons.IH [OF _ in_all(2)] Cons.prems(1)
      by (cases "map_of c (request_key p ctx)"; cases "evaluate_loop es p ctx None") (auto simp: req)
  qed
qed simp

text \<open>
  The decision cache is transparent as long as requests with the same cache key get the same
  answer from the evaluators: then every request of a run is answered as without a cache.
\<close>

theorem decision_cache_transparent:
  assumes "\<And>p ctx p' ctx'. (p, ctx) \<in> set reqs \<Longrightarrow> (p', ctx') \<in> set reqs \<Longrightarrow>
      request_key p ctx = request_key p' ctx' \<Longrightarrow> evaluate_loop es p ctx None = evaluate_loop es p' ctx' None"
  shows "pep_run es bypass reqs (Some []) = pep_run es bypass reqs None"
proof (rule pep_run_sound [where all = reqs])
  show "cache_sound es reqs []" by (simp add: cache_sound_def list_all_iff)
  show "set reqs \<subseteq> set reqs" by (rule subset_refl)
qed (rule assms)

text \<open>
  The key holds the first resource only: once a principal has been allowed an action on one resource,
  the cached decision allows the same action on any list of resources that begins with it, without an
  evaluator being asked about the others.
\<close>

theorem cached_grant_covers_other_resources:
  assumes "evaluate_loop es p ctx None = Inr d" "set (pr_roles p) \<inter> set bypass = {}"
    and "ax_resource_ids ctx = Some [i]" "map_of c (request_key p ctx) = None"
  shows "(case pep_evaluate es bypass p ctx (Some c) of (c', r) \<Rightarrow>
            r = Inr d \<and> snd (pep_evaluate es' bypass p (ctx\<lparr>ax_resource_ids := Some (i # others)\<rparr>) c') = Inr d)"
proof -
  have key: "request_key p (ctx\<lparr>ax_resource_ids := Some (i # others)\<rparr>) = request_key p ctx"
    using assms(3) by (simp add: request_key_def first_resource_def)
  show ?thesis
    using pep_cached [OF assms(2), of es ctx c] assms(1,4)
      pep_cached [OF assms(2), of es' "ctx\<lparr>ax_resource_ids := Some (i # others)\<rparr>" "AList.update (request_key p ctx) d c"]
    by (simp add: key)
qed

text \<open>
  Invalidation asks the cache service to clear the prefix \<^verbatim>\<open>authz:*:...\<close>.  No key of a principal whose id
  does not begin with a star has that prefix: a service that takes it literally clears nothing.
\<close>

lemma invalidation_by_prefix_keeps_entries:
  assumes "\<not> prefix ''*'' pid"  "pid \<noteq> []"
  shows "cache_get (cache_invalidate ty' rid' c) pid ty rid act = cache_get c pid ty rid act"
proof -
  have "\<not> prefix (''authz:*:'' @ x) (cache_key pid ty rid act)" for x
    using assms by (cases pid) (auto simp: cache_key_def)
  then have "map_of (filter (\<lambda>(k, d). \<not> prefix (''authz:*:'' @ x) k) c) (cache_key pid ty rid act) =
      map_of c (cache_key pid ty rid act)" for x
    by (induction c) auto
  then show ?thesis by (simp add: cache_get_def cache_invalidate_def clear_namespace_def)
qed

section \<open>Witnesses\<close>

definition ex_principal :: principal where
  "ex_principal = anonymous_principal\<lparr>pr_user_id := ''u1'', pr_username := ''ann'', pr_roles := [''editor'']\<rparr>"

definition ex_request :: "string list \<Rightarrow> auth_context" where
  "ex_request ids = \<lparr>ax_resource_type = ''order'', ax_action = ''read'', ax_resource_ids = Some ids,
     ax_resource_attributes = [], ax_auth_context = []\<rparr>"

abbreviation ex_engine_a :: check_access where
  "ex_engine_a \<equiv> (\<lambda>ty act ids c. Inr [''a''])"

lemmas ex_access_defs = ex_principal_def ex_request_def anonymous_principal_def decide_def

theorem pep_deny_wins_witness:
  "snd (pep_evaluate [rbac_evaluate [(''editor'', [''order:read''])] [], abac_evaluate ex_engine_a] [''root'']
      ex_principal (ex_request [''a'', ''b'']) None) =
   Inr (decide False ''ABAC engine denied access'' ''abac'')"
proof -
  let ?ds = "[decide True ''Role permission match: order:read'' ''rbac'', decide False ''ABAC engine denied access'' ''abac'']"
  have "expand_roles [] [''editor''] = [''editor'']"
    by (simp add: expand_roles_def expand_loop.simps new_children_def children_def)
  then have "list_all2 (\<lambda>e d. e ex_principal (ex_request [''a'', ''b'']) = Inr d)
      [rbac_evaluate [(''editor'', [''order:read''])] [], abac_evaluate ex_engine_a] ?ds"
    by (simp add: rbac_evaluate_def abac_evaluate_def permission_key_def ex_access_defs)
  from pep_deny_wins [OF this, of "[''root'']"] show ?thesis
    by (simp add: ex_access_defs verdict_def denies_def)
qed

theorem empty_resource_list_is_granted_witness:
  "\<exists>d. snd (pep_evaluate [abac_evaluate (\<lambda>ty act ids c. Inr [])] [] ex_principal (ex_request []) None) = Inr d \<and> ad_allowed d"
  by (rule empty_resource_list_is_granted [where check = "\<lambda>ty act ids c. Inr []" and ids = "[]"])
    (simp_all add: ex_request_def)

theorem decision_cache_transparent_witness:
  "pep_run [abac_evaluate ex_engine_a] [] [(ex_principal, ex_request [''a'']), (ex_principal, ex_request [''b''])] (Some []) =
     [Inr (decide True ''ABAC engine granted access'' ''abac''), Inr (decide False ''ABAC engine denied access'' ''abac'')]"
proof -
  have "request_key ex_principal (ex_request [''a'']) \<noteq> request_key ex_principal (ex_request [''b''])"
    by (simp add: request_key_def cache_key_def first_resource_def ex_access_defs)
  then have "pep_run [abac_evaluate ex_engine_a] [] [(ex_principal, ex_request [''a'']), (ex_principal, ex_request [''b''])] (Some []) =
      pep_run [abac_evaluate ex_engine_a] [] [(ex_principal, ex_request [''a'']), (ex_principal, ex_request [''b''])] None"
    by (intro decision_cache_transparent) auto
  then show ?thesis by (simp add: pep_evaluate_def abac_evaluate_def store_cache_def ex_access_defs)
qed

theorem cached_grant_covers_other_resources_witness:
  "snd (pep_evaluate [abac_evaluate ex_engine_a] [] ex_principal (ex_request [''a'', ''b''])
     (fst (pep_evaluate [abac_evaluate ex_engine_a] [] ex_principal (ex_request [''a'']) (Some [])))) =
   Inr (decide True ''ABAC engine granted access'' ''abac'')"
proof -
  have "(ex_request [''a''])\<lparr>ax_resource_ids := Some [''a'', ''b'']\<rparr> = ex_request [''a'', ''b'']" by (simp add: ex_request_def)
  with cached_grant_covers_other_resources [where es = "[abac_evaluate ex_engine_a]" and p = ex_principal and
      ctx = "ex_request [''a'']" and d = "decide True ''ABAC engine granted access'' ''abac''" and bypass = "[]" and i = "''a''" and
      c = "[]" and es' = "[abac_evaluate ex_engine_a]" and others = "[''b'']"]
  show ?thesis by (simp add: abac_evaluate_def ex_access_defs case_prod_beta)
qed

end
