(* ===== verification/AccessMiddleware.thy ===== *)
theory AccessMiddleware
  imports Access Specification
begin

text \<open>
  Where authorisation is enforced (features/access/src/cqrs_ddd_access_control): the middlewares
  authorization.py, specification.py and decorator_middleware.py with their configuration (models.py,
  decorators.py), and the handlers that write access rules to the engine (acl_handlers.py), with the
  provisioning service (sync.py).

  A middleware receives the current principal, the message and the next handler, a function from a
  state to the next state and a result.  Messages, results and entities are application classes: reading
  and writing their attributes are parameters, bundled in the record \<open>accessors\<close>.  So are the calls on
  the authorisation engine, made with the caller's token.
\<close>

section \<open>Batch results, filters and field mappings\<close>

record batch_result =
  br_access_map :: "(string \<times> string, string list) dict"
  br_global_permissions :: "string list"

definition is_allowed :: "batch_result \<Rightarrow> string \<Rightarrow> string \<Rightarrow> string list \<Rightarrow> bool \<Rightarrow> bool" where
  "is_allowed br ty rid actions all_quantifier =
     (let resource_actions = (case map_of (br_access_map br) (ty, rid) of None \<Rightarrow> [] | Some xs \<Rightarrow> xs) @ br_global_permissions br
      in if all_quantifier then list_all (\<lambda>a. a \<in> set resource_actions) actions
         else list_ex (\<lambda>a. a \<in> set resource_actions) actions)"

record 'o auth_filter =
  af_granted_all :: bool
  af_denied_all :: bool
  af_specification :: "'o spec option"

definition has_filter :: "'o auth_filter \<Rightarrow> bool" where
  "has_filter f \<longleftrightarrow> af_specification f \<noteq> None \<and> \<not> af_granted_all f \<and> \<not> af_denied_all f"

definition filter_bool :: "'o auth_filter \<Rightarrow> bool" where
  "filter_bool f \<longleftrightarrow> af_granted_all f \<or> has_filter f"

definition grant_all :: "'o auth_filter" where
  "grant_all = \<lparr>af_granted_all = True, af_denied_all = False, af_specification = None\<rparr>"

definition deny_all :: "'o auth_filter" where
  "deny_all = \<lparr>af_granted_all = False, af_denied_all = True, af_specification = None\<rparr>"

definition from_specification :: "'o spec \<Rightarrow> 'o auth_filter" where
  "from_specification s = \<lparr>af_granted_all = False, af_denied_all = False, af_specification = Some s\<rparr>"

type_synonym field_mapping = "(string, string) dict"

definition get_field :: "field_mapping \<Rightarrow> string \<Rightarrow> string" where
  "get_field m abac_attr = (case map_of (fold (\<lambda>(k, v). AList.update v k) m []) abac_attr of None \<Rightarrow> abac_attr | Some f \<Rightarrow> f)"

definition get_abac_attr :: "field_mapping \<Rightarrow> string \<Rightarrow> string" where
  "get_abac_attr m app_field = (case map_of m app_field of None \<Rightarrow> app_field | Some a \<Rightarrow> a)"

section \<open>The authorisation middleware\<close>

text \<open>
  What \<^verbatim>\<open>_extract_resource_ids\<close> finds, with \<^verbatim>\<open>str\<close> applied, and the id of an entity: no such attribute, the
  attribute is \<^verbatim>\<open>None\<close>, or a value.
\<close>

datatype attr_value = NoValue | OneValue string | ManyValues "string list"

datatype entity_id = MissingId | NoneId | HasId string

record ('m, 'r, 'e) accessors =
  xs_type_attr :: "'m \<Rightarrow> string \<Rightarrow> exn + string option"
  xs_id_attr :: "'m \<Rightarrow> string \<Rightarrow> exn + attr_value"
  xs_entities :: "'r \<Rightarrow> string \<Rightarrow> exn + 'e list option"
  xs_set_entities :: "'r \<Rightarrow> string \<Rightarrow> 'e list \<Rightarrow> exn + 'r"
  xs_entity_id :: "'e \<Rightarrow> string \<Rightarrow> entity_id"

record 'm auth_config =
  ac_resource_type :: "string option"
  ac_resource_type_attr :: "string option"
  ac_required_actions :: "string list"
  ac_action_all :: bool
  ac_resource_id_attr :: "string option"
  ac_result_entities_attr :: "string option"
  ac_entity_id_attr :: string
  ac_fail_silently :: bool
  ac_deny_anonymous :: bool
  ac_auth_context_provider :: "('m \<Rightarrow> exn + payload option) option"

text \<open>\<^verbatim>\<open>check_access_batch\<close>: items (type, action, ids), context, role names.\<close>

type_synonym check_batch =
  "(string \<times> string \<times> string list) list \<Rightarrow> payload option \<Rightarrow> string list option \<Rightarrow> exn + batch_result"

type_synonym ('m, 's, 'r) next_handler = "'m \<Rightarrow> 's \<Rightarrow> 's \<times> (exn + 'r)"

definition bypassed :: "string list \<Rightarrow> principal option \<Rightarrow> bool" where
  "bypassed bypass p = (case p of None \<Rightarrow> False | Some q \<Rightarrow> bypass \<noteq> [] \<and> has_any_role q bypass)"

definition role_names :: "principal option \<Rightarrow> string list option" where
  "role_names p = map_option pr_roles p"

definition resolve_resource_type :: "('m, 'r, 'e) accessors \<Rightarrow> 'm auth_config \<Rightarrow> 'm \<Rightarrow> exn + string option" where
  "resolve_resource_type xs cfg m =
     (if truthy (ac_resource_type cfg) then Inr (ac_resource_type cfg)
      else if truthy (ac_resource_type_attr cfg) then xs_type_attr xs m (the (ac_resource_type_attr cfg))
      else Inr None)"

definition extract_resource_ids :: "('m, 'r, 'e) accessors \<Rightarrow> 'm auth_config \<Rightarrow> 'm \<Rightarrow> exn + string list option" where
  "extract_resource_ids xs cfg m =
     (if \<not> truthy (ac_resource_id_attr cfg) then Inr None
      else case xs_id_attr xs m (the (ac_resource_id_attr cfg)) of
             Inl x \<Rightarrow> Inl x
           | Inr NoValue \<Rightarrow> Inr None
           | Inr (OneValue i) \<Rightarrow> Inr (Some [i])
           | Inr (ManyValues ids) \<Rightarrow> Inr (Some ids))"

definition resolve_auth_context :: "'m auth_config \<Rightarrow> 'm \<Rightarrow> exn + payload option" where
  "resolve_auth_context cfg m = (case ac_auth_context_provider cfg of None \<Rightarrow> Inr None | Some f \<Rightarrow> f m)"

definition access_items :: "'m auth_config \<Rightarrow> string \<Rightarrow> string list \<Rightarrow> (string \<times> string \<times> string list) list" where
  "access_items cfg ty ids = map (\<lambda>a. (ty, a, ids)) (ac_required_actions cfg)"

definition run_pre_check ::
  "'m auth_config \<Rightarrow> check_batch \<Rightarrow> string option \<Rightarrow> string list \<Rightarrow> payload option \<Rightarrow> principal option \<Rightarrow> exn + unit" where
  "run_pre_check cfg check ty ids actx p =
     (if \<not> (ids \<noteq> [] \<and> ac_required_actions cfg \<noteq> [] \<and> truthy ty) then Inr ()
      else case check (access_items cfg (the ty) ids) actx (role_names p) of
             Inl x \<Rightarrow> Inl x
           | Inr br \<Rightarrow>
               (case List.find (\<lambda>rid. \<not> is_allowed br (the ty) rid (ac_required_actions cfg) (ac_action_all cfg) \<and>
                                      \<not> ac_fail_silently cfg) ids of
                  None \<Rightarrow> Inr ()
                | Some rid \<Rightarrow> Inl (PermissionDeniedError ty (join_with (CHR '','') (ac_required_actions cfg)) (Some [rid])
                                     ''Access denied by pre-check'')))"

fun known_ids :: "('m, 'r, 'e) accessors \<Rightarrow> string \<Rightarrow> 'e list \<Rightarrow> string list" where
  "known_ids xs attr [] = []"
| "known_ids xs attr (e # es) =
     (case xs_entity_id xs e attr of HasId i \<Rightarrow> i # known_ids xs attr es | _ \<Rightarrow> known_ids xs attr es)"

fun filter_entities ::
  "('m, 'r, 'e) accessors \<Rightarrow> string \<Rightarrow> (string \<Rightarrow> bool) \<Rightarrow> 'e list \<Rightarrow> exn + 'e list" where
  "filter_entities xs attr ok [] = Inr []"
| "filter_entities xs attr ok (e # es) =
     (case (case xs_entity_id xs e attr of MissingId \<Rightarrow> None | NoneId \<Rightarrow> Some ''None'' | HasId i \<Rightarrow> Some i) of
        None \<Rightarrow> Inl (AttributeError attr)
      | Some i \<Rightarrow> map_sum id (\<lambda>rest. if ok i then e # rest else rest) (filter_entities xs attr ok es))"

definition filter_result ::
  "('m, 'r, 'e) accessors \<Rightarrow> 'm auth_config \<Rightarrow> check_batch \<Rightarrow> string \<Rightarrow> payload option \<Rightarrow> principal option \<Rightarrow> 'r \<Rightarrow> exn + 'r" where
  "filter_result xs cfg check ty actx p result =
     (case ac_result_entities_attr cfg of
        None \<Rightarrow> Inr result
      | Some attr \<Rightarrow>
          (case xs_entities xs result attr of
             Inl (AttributeError n) \<Rightarrow> Inr result
           | Inl x \<Rightarrow> Inl x
           | Inr None \<Rightarrow> Inr result
           | Inr (Some entities) \<Rightarrow>
               (let ids = known_ids xs (ac_entity_id_attr cfg) entities
                in if entities = [] \<or> ids = [] then Inr result
                   else case check (access_items cfg ty ids) actx (role_names p) of
                          Inl x \<Rightarrow> Inl x
                        | Inr br \<Rightarrow>
                            (case filter_entities xs (ac_entity_id_attr cfg)
                                    (\<lambda>i. is_allowed br ty i (ac_required_actions cfg) (ac_action_all cfg)) entities of
                               Inl x \<Rightarrow> Inl x
                             | Inr kept \<Rightarrow> xs_set_entities xs result attr kept))))"

definition authorization_middleware ::
  "('m, 'r, 'e) accessors \<Rightarrow> 'm auth_config \<Rightarrow> check_batch \<Rightarrow> string list \<Rightarrow> principal option \<Rightarrow>
     ('m, 's, 'r) next_handler \<Rightarrow> ('m, 's, 'r) next_handler" where
  "authorization_middleware xs cfg check bypass p next m s =
     (if bypassed bypass p then next m s
      else case resolve_resource_type xs cfg m of
        Inl x \<Rightarrow> (s, Inl x)
      | Inr ty \<Rightarrow>
          if p = None \<and> ac_deny_anonymous cfg
          then (s, Inl (PermissionDeniedError ty (join_with (CHR '','') (ac_required_actions cfg)) None ''Anonymous access denied''))
          else (case extract_resource_ids xs cfg m of
            Inl x \<Rightarrow> (s, Inl x)
          | Inr ids \<Rightarrow> (case resolve_auth_context cfg m of
              Inl x \<Rightarrow> (s, Inl x)
            | Inr actx \<Rightarrow>
                (case run_pre_check cfg check ty (case ids of None \<Rightarrow> [] | Some is \<Rightarrow> is) actx p of
                   Inl x \<Rightarrow> (s, Inl x)
                 | Inr _ \<Rightarrow> (case next m s of
                       (s, Inl x) \<Rightarrow> (s, Inl x)
                     | (s, Inr result) \<Rightarrow>
                         if truthy (ac_result_entities_attr cfg) \<and> truthy ty
                         then (s, filter_result xs cfg check (the ty) actx p result)
                         else (s, Inr result))))))"

section \<open>The specification middleware\<close>

text \<open>
  \<open>get_filter\<close> is \<^verbatim>\<open>get_authorization_filter\<close> for the configured type and action; \<open>options\<close> and
  \<open>with_options\<close> read and replace the query options of a message.
\<close>

definition merge_auth :: "'o spec \<Rightarrow> 'o query_options \<Rightarrow> 'o query_options" where
  "merge_auth auth q =
     with_specification (case qo_specification q of Some s \<Rightarrow> AndSpecification [s, auth] | None \<Rightarrow> auth) q"

definition specification_middleware ::
  "('m \<Rightarrow> 'o query_options option) \<Rightarrow> ('o query_options \<Rightarrow> 'm \<Rightarrow> 'm) \<Rightarrow> string \<Rightarrow> string \<Rightarrow>
     ('m \<Rightarrow> exn + payload option) option \<Rightarrow> (payload option \<Rightarrow> string list option \<Rightarrow> exn + 'o auth_filter) \<Rightarrow>
     string list \<Rightarrow> principal option \<Rightarrow> ('m, 's, 'r) next_handler \<Rightarrow> ('m, 's, 'r) next_handler" where
  "specification_middleware options with_options ty action provider get_filter bypass p next m s =
     (if bypassed bypass p then next m s
      else case (case provider of None \<Rightarrow> Inr None | Some f \<Rightarrow> f m) of
        Inl x \<Rightarrow> (s, Inl x)
      | Inr actx \<Rightarrow>
          (case get_filter actx (role_names p) of
             Inl x \<Rightarrow> (s, Inl x)
           | Inr f \<Rightarrow>
               if af_denied_all f
               then (s, Inl (PermissionDeniedError (Some ty) action None ''Access denied - all conditions denied''))
               else if has_filter f
               then (case options m of
                       None \<Rightarrow> next m s
                     | Some q \<Rightarrow> next (with_options (merge_auth (the (af_specification f)) q) m) s)
               else next m s))"

section \<open>Decorators\<close>

datatype qualifier = QAll | QAny | QNot

record requirement =
  rq_names :: "string list"
  rq_qualifier :: qualifier

record 'm handler_metadata =
  hm_permission :: "requirement option"
  hm_role :: "requirement option"
  hm_owner :: "(string \<times> ('m \<Rightarrow> string option)) option"
  hm_authorization :: "'m auth_config option"

definition requires_permission :: "string list \<Rightarrow> qualifier \<Rightarrow> 'm handler_metadata \<Rightarrow> 'm handler_metadata" where
  "requires_permission perms q hm = hm\<lparr>hm_permission := Some \<lparr>rq_names = perms, rq_qualifier = q\<rparr>\<rparr>"

definition requires_role :: "string list \<Rightarrow> qualifier \<Rightarrow> 'm handler_metadata \<Rightarrow> 'm handler_metadata" where
  "requires_role roles q hm = hm\<lparr>hm_role := Some \<lparr>rq_names = roles, rq_qualifier = q\<rparr>\<rparr>"

definition requires_owner :: "string \<Rightarrow> ('m \<Rightarrow> string option) \<Rightarrow> 'm handler_metadata \<Rightarrow> 'm handler_metadata" where
  "requires_owner ty id_field hm = hm\<lparr>hm_owner := Some (ty, id_field)\<rparr>"

definition requires_authorization :: "'m auth_config \<Rightarrow> 'm handler_metadata \<Rightarrow> 'm handler_metadata" where
  "requires_authorization cfg hm = hm\<lparr>hm_authorization := Some cfg\<rparr>"

fun comma_join :: "string list \<Rightarrow> string" where
  "comma_join [] = []"
| "comma_join [p] = p"
| "comma_join (p # q # ps) = p @ '', '' @ comma_join (q # ps)"

definition anonymous_denied :: exn where
  "anonymous_denied = PermissionDeniedError None [] None ''Anonymous access denied''"

definition enforce_permission :: "principal option \<Rightarrow> requirement \<Rightarrow> exn + unit" where
  "enforce_permission p rq =
     (case p of None \<Rightarrow> Inl anonymous_denied
      | Some q \<Rightarrow>
          (let perms = remdups (rq_names rq);
               missing = filter (\<lambda>x. \<not> has_permission q x) perms;
               has = filter (has_permission q) perms;
               refuse = (\<lambda>msg. Inl (PermissionDeniedError None (comma_join perms) None msg))
           in case rq_qualifier rq of
                QAll \<Rightarrow> if missing \<noteq> [] then refuse (''Missing permissions: '' @ comma_join missing) else Inr ()
              | QAny \<Rightarrow> if \<not> list_ex (has_permission q) perms then refuse (''Requires any of: '' @ comma_join perms) else Inr ()
              | QNot \<Rightarrow> if has \<noteq> [] then refuse (''Denied permissions present: '' @ comma_join has) else Inr ()))"

definition enforce_role :: "principal option \<Rightarrow> requirement \<Rightarrow> exn + unit" where
  "enforce_role p rq =
     (case p of None \<Rightarrow> Inl anonymous_denied
      | Some q \<Rightarrow>
          (let roles = remdups (rq_names rq);
               missing = filter (\<lambda>r. r \<notin> set (pr_roles q)) roles;
               has = filter (\<lambda>r. r \<in> set (pr_roles q)) roles
           in case rq_qualifier rq of
                QAll \<Rightarrow> if missing \<noteq> [] then Inl (InsufficientRoleError (comma_join (sort missing))) else Inr ()
              | QAny \<Rightarrow> if \<not> has_any_role q roles then Inl (InsufficientRoleError (comma_join (sort roles))) else Inr ()
              | QNot \<Rightarrow> if has \<noteq> [] then Inl (InsufficientRoleError (comma_join (sort has))) else Inr ()))"

text \<open>\<^verbatim>\<open>owner_id != principal.user_id\<close> compares a list of owners with a string: they always differ.\<close>

definition owner_is :: "owner \<Rightarrow> string \<Rightarrow> bool" where
  "owner_is ow user \<longleftrightarrow> ow = OneOwner user"

definition enforce_ownership ::
  "get_owner option \<Rightarrow> principal option \<Rightarrow> 'm \<Rightarrow> string \<times> ('m \<Rightarrow> string option) \<Rightarrow> exn + unit" where
  "enforce_ownership resolver p m rq =
     (case p of None \<Rightarrow> Inl anonymous_denied
      | Some q \<Rightarrow>
          (case resolver of None \<Rightarrow> Inr ()
           | Some get_owner \<Rightarrow>
               (case snd rq m of None \<Rightarrow> Inr ()
                | Some rid \<Rightarrow>
                    (case get_owner (fst rq) rid of
                       Inl x \<Rightarrow> Inl x
                     | Inr ow \<Rightarrow>
                         if owner_is ow (pr_user_id q) then Inr ()
                         else Inl (PermissionDeniedError (Some (fst rq)) [] (Some [rid]) ''Ownership check failed'')))))"

definition when_some :: "('a \<Rightarrow> exn + unit) \<Rightarrow> 'a option \<Rightarrow> exn + unit" where
  "when_some f v = (case v of None \<Rightarrow> Inr () | Some a \<Rightarrow> f a)"

definition enforce_all ::
  "get_owner option \<Rightarrow> principal option \<Rightarrow> 'm \<Rightarrow> 'm handler_metadata \<Rightarrow> exn + unit" where
  "enforce_all resolver p m hm =
     (case when_some (enforce_permission p) (hm_permission hm) of
        Inl x \<Rightarrow> Inl x
      | Inr _ \<Rightarrow>
          (case when_some (enforce_role p) (hm_role hm) of
             Inl x \<Rightarrow> Inl x
           | Inr _ \<Rightarrow> when_some (enforce_ownership resolver p m) (hm_owner hm)))"

text \<open>\<open>handler_of\<close> resolves the handler class of a message; \<open>check\<close> is the authorisation port, if any.\<close>

definition decorator_middleware ::
  "('m, 'r, 'e) accessors \<Rightarrow> ('m \<Rightarrow> 'm handler_metadata option) \<Rightarrow> check_batch option \<Rightarrow> get_owner option \<Rightarrow>
     string list \<Rightarrow> principal option \<Rightarrow> ('m, 's, 'r) next_handler \<Rightarrow> ('m, 's, 'r) next_handler" where
  "decorator_middleware xs handler_of check resolver bypass p next m s =
     (if bypassed bypass p then next m s
      else case handler_of m of
        None \<Rightarrow> next m s
      | Some hm \<Rightarrow>
          (case enforce_all resolver p m hm of
             Inl x \<Rightarrow> (s, Inl x)
           | Inr _ \<Rightarrow>
               (case (hm_authorization hm, check) of
                  (Some cfg, Some port) \<Rightarrow> authorization_middleware xs cfg port bypass p next m s
                | _ \<Rightarrow> next m s)))"

section \<open>Access rules\<close>

record access_rule =
  ar_principal_name :: "string option"
  ar_role_name :: "string option"
  ar_action :: string
  ar_resource_id :: "string option"
  ar_conditions :: "payload option"
  ar_specification_dsl :: "payload option"

text \<open>The calls on the administration port.\<close>

datatype admin_call =
    CreateAcl string access_rule "string option" "payload option"
  | CreateAclFromSpecification string access_rule "string option" payload
  | DeleteAcl string string "string option" "string option" "string option"
  | SetPublic string bool
  | CreateResourceType string bool
  | CreateAction string
  | RegisterResource string string payload
  | DeleteResource string string

type_synonym 's admin_port = "admin_call \<Rightarrow> 's \<Rightarrow> 's \<times> (exn + payload)"

record acl_granted =
  ag_resource_type :: string
  ag_rule :: access_rule
  ag_resource_id :: "string option"
  ag_acl_id :: json
  ag_conditions :: "payload option"
  ag_previous_state :: json

definition tenant_condition :: payload where
  "tenant_condition = [(''op'', JStr ''=''), (''source'', JStr ''resource''), (''attr'', JStr ''tenant_id''),
     (''val'', JStr ''$context.tenant_id'')]"

definition payload_truthy :: "payload option \<Rightarrow> bool" where
  "payload_truthy d = (case d of None \<Rightarrow> False | Some x \<Rightarrow> x \<noteq> [])"

definition merge_tenant_condition :: "bool \<Rightarrow> payload option \<Rightarrow> payload option" where
  "merge_tenant_condition enforce raw =
     (let conditions = (if payload_truthy raw then raw else None)
      in if \<not> enforce then conditions
         else case conditions of
                None \<Rightarrow> Some tenant_condition
              | Some c \<Rightarrow> Some [(''op'', JStr ''and''), (''conditions'', JList [JDict c, JDict tenant_condition])])"

definition admin_call_for :: "string \<Rightarrow> string option \<Rightarrow> access_rule \<Rightarrow> payload option \<Rightarrow> admin_call" where
  "admin_call_for ty event_resource rule conditions =
     (let rid = py_or (ar_resource_id rule) event_resource
      in if payload_truthy (ar_specification_dsl rule)
         then CreateAclFromSpecification ty rule rid (the (ar_specification_dsl rule))
         else CreateAcl ty rule rid conditions)"

definition jget :: "payload \<Rightarrow> string \<Rightarrow> json" where
  "jget d k = (case map_of d k of None \<Rightarrow> JNull | Some v \<Rightarrow> v)"

definition build_granted_event ::
  "string \<Rightarrow> string option \<Rightarrow> access_rule \<Rightarrow> payload \<Rightarrow> payload option \<Rightarrow> acl_granted" where
  "build_granted_event ty event_resource rule result conditions =
     \<lparr>ag_resource_type = ty, ag_rule = rule, ag_resource_id = py_or (ar_resource_id rule) event_resource,
      ag_acl_id = jget result ''id'', ag_conditions = conditions, ag_previous_state = jget result ''previous_state''\<rparr>"

fun wrap_acl_error :: "string \<Rightarrow> exn \<Rightarrow> exn" where
  "wrap_acl_error what (ACLError w e) = ACLError w e"
| "wrap_acl_error what e = ACLError what e"

text \<open>\<open>store\<close> is the event store of the handler, if it has one.\<close>

fun grant_rules ::
  "bool \<Rightarrow> 's admin_port \<Rightarrow> (acl_granted \<Rightarrow> 's \<Rightarrow> 's \<times> exn option) option \<Rightarrow> string \<Rightarrow> string option \<Rightarrow>
     access_rule list \<Rightarrow> 's \<Rightarrow> 's \<times> exn option" where
  "grant_rules enforce admin store ty rid [] s = (s, None)"
| "grant_rules enforce admin store ty rid (rule # rules) s =
     (let conditions = merge_tenant_condition enforce (ar_conditions rule);
          failed = wrap_acl_error (''ACL grant failed for '' @ ty @ '':'' @ ar_action rule)
      in case admin (admin_call_for ty rid rule conditions) s of
           (s, Inl x) \<Rightarrow> (s, Some (failed x))
         | (s, Inr result) \<Rightarrow>
             (case (case store of None \<Rightarrow> (s, None)
                    | Some f \<Rightarrow> f (build_granted_event ty rid rule result conditions) s) of
                (s, Some x) \<Rightarrow> (s, Some (failed x))
              | (s, None) \<Rightarrow> grant_rules enforce admin store ty rid rules s))"

definition revoke_rule ::
  "'s admin_port \<Rightarrow> (json \<Rightarrow> 's \<Rightarrow> 's \<times> exn option) option \<Rightarrow> string \<Rightarrow> string \<Rightarrow> string option \<Rightarrow> string option \<Rightarrow>
     string option \<Rightarrow> 's \<Rightarrow> 's \<times> exn option" where
  "revoke_rule admin store ty action pname rname rid s =
     (let failed = ACLError (''ACL revoke failed for '' @ ty @ '':'' @ action)
      in case admin (DeleteAcl ty action pname rname rid) s of
           (s, Inl x) \<Rightarrow> (s, Some (failed x))
         | (s, Inr result) \<Rightarrow>
             (case (case store of None \<Rightarrow> (s, None) | Some f \<Rightarrow> f (jget result ''previous_state'') s) of
                (s, Some x) \<Rightarrow> (s, Some (failed x))
              | (s, None) \<Rightarrow> (s, None)))"

definition set_public ::
  "'s admin_port \<Rightarrow> (json \<Rightarrow> 's \<Rightarrow> 's \<times> exn option) option \<Rightarrow> string \<Rightarrow> bool \<Rightarrow> 's \<Rightarrow> 's \<times> exn option" where
  "set_public admin store ty is_public s =
     (let failed = ACLError (''Set public failed for '' @ ty)
      in case admin (SetPublic ty is_public) s of
           (s, Inl x) \<Rightarrow> (s, Some (failed x))
         | (s, Inr result) \<Rightarrow>
             (case (case store of None \<Rightarrow> (s, None) | Some f \<Rightarrow> f (jget result ''previous_public'') s) of
                (s, Some x) \<Rightarrow> (s, Some (failed x))
              | (s, None) \<Rightarrow> (s, None)))"

section \<open>Provisioning\<close>

record resource_type_config =
  rc_field_mapping :: field_mapping
  rc_is_public :: bool
  rc_actions :: "string list"

type_synonym type_registry = "(string, resource_type_config) dict"

fun create_actions :: "'s admin_port \<Rightarrow> string list \<Rightarrow> 's \<Rightarrow> 's" where
  "create_actions admin [] s = s"
| "create_actions admin (a # as) s = create_actions admin as (fst (admin (CreateAction a) s))"

definition ensure_resource_type ::
  "type_registry \<Rightarrow> 's admin_port \<Rightarrow> string \<Rightarrow> string list \<times> 's \<Rightarrow> (string list \<times> 's) \<times> exn option" where
  "ensure_resource_type reg admin ty st =
     (if ty \<in> set (fst st) then (st, None)
      else (let config = map_of reg ty
            in case admin (CreateResourceType ty (case config of None \<Rightarrow> False | Some c \<Rightarrow> rc_is_public c)) (snd st) of
                 (s, Inl x) \<Rightarrow> ((fst st, s), Some x)
               | (s, Inr _) \<Rightarrow>
                   ((fst st @ [ty], case config of None \<Rightarrow> s | Some c \<Rightarrow> create_actions admin (rc_actions c) s), None)))"

definition transform_attributes :: "type_registry \<Rightarrow> string \<Rightarrow> payload \<Rightarrow> payload" where
  "transform_attributes reg ty attributes =
     (case map_of reg ty of
        None \<Rightarrow> attributes
      | Some c \<Rightarrow> if rc_field_mapping c = [] then attributes
                  else fold (\<lambda>(f, v) d. AList.update (get_abac_attr (rc_field_mapping c) f) v d) attributes [])"

definition sync_resource ::
  "type_registry \<Rightarrow> 's admin_port \<Rightarrow> string \<Rightarrow> string \<Rightarrow> payload \<Rightarrow> string list \<times> 's \<Rightarrow> (string list \<times> 's) \<times> exn option" where
  "sync_resource reg admin ty rid attributes st =
     (case ensure_resource_type reg admin ty st of
        (st, Some x) \<Rightarrow> (st, Some x)
      | (st, None) \<Rightarrow>
          (case admin (RegisterResource ty rid (transform_attributes reg ty attributes)) (snd st) of
             (s, Inl x) \<Rightarrow> ((fst st, s), Some x)
           | (s, Inr _) \<Rightarrow> ((fst st, s), None)))"

fun sync_types ::
  "type_registry \<Rightarrow> 's admin_port \<Rightarrow> string list \<Rightarrow> string list \<times> 's \<Rightarrow> (string list \<times> 's) \<times> exn option" where
  "sync_types reg admin [] st = (st, None)"
| "sync_types reg admin (ty # tys) st =
     (case ensure_resource_type reg admin ty st of
        (st, Some x) \<Rightarrow> (st, Some x)
      | (st, None) \<Rightarrow> sync_types reg admin tys st)"

definition sync_all_resource_types ::
  "type_registry \<Rightarrow> 's admin_port \<Rightarrow> string list \<times> 's \<Rightarrow> (string list \<times> 's) \<times> exn option" where
  "sync_all_resource_types reg admin st = sync_types reg admin (dkeys reg) st"

definition delete_resource :: "'s admin_port \<Rightarrow> string \<Rightarrow> string \<Rightarrow> 's \<Rightarrow> 's \<times> exn option" where
  "delete_resource admin ty rid s =
     (case admin (DeleteResource ty rid) s of (s, Inl x) \<Rightarrow> (s, Some x) | (s, Inr _) \<Rightarrow> (s, None))"

section \<open>What the authorisation middleware lets through\<close>

text \<open>The guards that are evaluated before the pre-check: no bypass, and type, ids and context are known.\<close>

definition guarded ::
  "('m, 'r, 'e) accessors \<Rightarrow> 'm auth_config \<Rightarrow> string list \<Rightarrow> principal option \<Rightarrow> 'm \<Rightarrow> string \<Rightarrow> string list \<Rightarrow> payload option \<Rightarrow> bool" where
  "guarded xs cfg bypass p m ty ids actx \<longleftrightarrow>
     \<not> bypassed bypass p \<and> (p \<noteq> None \<or> \<not> ac_deny_anonymous cfg) \<and>
     resolve_resource_type xs cfg m = Inr (Some ty) \<and> ty \<noteq> [] \<and>
     extract_resource_ids xs cfg m = Inr (Some ids) \<and> ids \<noteq> [] \<and>
     resolve_auth_context cfg m = Inr actx \<and> ac_required_actions cfg \<noteq> []"

lemma find_first_denied:
  "List.find (\<lambda>x. \<not> P x) xs = Some x \<Longrightarrow> x \<in> set xs \<and> \<not> P x"
  "List.find (\<lambda>x. \<not> P x) xs = None \<longleftrightarrow> list_all P xs"
  by (induction xs) (auto split: if_splits)


lemma filter_entities_ids:
  assumes "list_all (\<lambda>e. \<exists>i. xs_entity_id xs e attr = HasId i) es"
  shows "filter_entities xs attr ok es =
    Inr (filter (\<lambda>e. case xs_entity_id xs e attr of HasId i \<Rightarrow> ok i | _ \<Rightarrow> False) es)"
  using assms by (induction es) auto

lemma known_ids_all:
  assumes "list_all (\<lambda>e. \<exists>i. xs_entity_id xs e attr = HasId i) es"
  shows "map HasId (known_ids xs attr es) = map (\<lambda>e. xs_entity_id xs e attr) es"
  using assms by (induction es) auto

text \<open>
  When the entities of a result have ids, the middleware asks about exactly these ids and keeps,
  in their order, the entities on which the required actions are allowed.
\<close>

theorem result_keeps_allowed_entities:
  assumes "ac_result_entities_attr cfg = Some attr" "xs_entities xs result attr = Inr (Some es)" "es \<noteq> []"
    and "list_all (\<lambda>e. \<exists>i. xs_entity_id xs e (ac_entity_id_attr cfg) = HasId i) es"
    and "check (access_items cfg ty (known_ids xs (ac_entity_id_attr cfg) es)) actx (role_names p) = Inr br"
  shows "filter_result xs cfg check ty actx p result =
    xs_set_entities xs result attr
      (filter (\<lambda>e. case xs_entity_id xs e (ac_entity_id_attr cfg) of
                 HasId i \<Rightarrow> is_allowed br ty i (ac_required_actions cfg) (ac_action_all cfg) | _ \<Rightarrow> False) es)"
proof -
  have "known_ids xs (ac_entity_id_attr cfg) es \<noteq> []"
    using known_ids_all [OF assms(4)] assms(3) by (metis list.map_disc_iff)
  then show ?thesis
    using assms(1-3,5) by (simp add: filter_result_def Let_def filter_entities_ids [OF assms(4)])
qed

text \<open>Entities without ids are not filtered at all.\<close>

lemma entities_without_ids_unfiltered:
  assumes "xs_entities xs result attr = Inr (Some es)" "ac_result_entities_attr cfg = Some attr"
    and "list_all (\<lambda>e. xs_entity_id xs e (ac_entity_id_attr cfg) \<in> {MissingId, NoneId}) es"
  shows "filter_result xs cfg check ty actx p result = Inr result"
proof -
  have "known_ids xs (ac_entity_id_attr cfg) es = []" using assms(3) by (induction es) auto
  then show ?thesis using assms(1,2) by (simp add: filter_result_def Let_def)
qed

section \<open>The specification middleware narrows queries\<close>

text \<open>
  With a filter from the engine and query options in the message, the handler is called with options
  whose specification accepts a candidate exactly when the client's specification and the engine's
  filter both accept it.
\<close>

theorem query_narrowed_to_authorized:
  assumes "\<not> bypassed bypass p" "get_filter None (role_names p) = Inr f" "has_filter f" "options m = Some q"
    and "\<And>q m. options (with_options q m) = Some q"
  shows "\<exists>m' t. specification_middleware options with_options ty action None get_filter bypass p run m s = run m' s \<and>
           options m' = Some (with_specification t q) \<and>
           (\<forall>h reg c. is_satisfied_by h reg c t = Inr True \<longleftrightarrow>
              (case qo_specification q of None \<Rightarrow> True | Some cs \<Rightarrow> is_satisfied_by h reg c cs = Inr True) \<and>
              is_satisfied_by h reg c (the (af_specification f)) = Inr True)"
proof -
  let ?a = "the (af_specification f)"
  let ?t = "case qo_specification q of Some cs \<Rightarrow> AndSpecification [cs, ?a] | None \<Rightarrow> ?a"
  have "\<not> af_denied_all f" using assms(3) by (simp add: has_filter_def)
  then have "specification_middleware options with_options ty action None get_filter bypass p run m s =
      run (with_options (with_specification ?t q) m) s"
    using assms(1-4) by (simp add: specification_middleware_def merge_auth_def)
  moreover have "is_satisfied_by h reg c ?t = Inr True \<longleftrightarrow>
      (case qo_specification q of None \<Rightarrow> True | Some cs \<Rightarrow> is_satisfied_by h reg c cs = Inr True) \<and>
      is_satisfied_by h reg c ?a = Inr True" for h reg c
    by (auto split: option.split sum.split)
  ultimately show ?thesis using assms(5) by blast
qed

text \<open>
  A message without query options reaches its handler unrestricted although the engine answered with
  a filter: the middleware neither refuses it nor applies the filter.
\<close>

theorem filter_dropped_without_query_options:
  assumes "\<not> bypassed bypass p" "get_filter None (role_names p) = Inr (from_specification a)" "options m = None"
  shows "specification_middleware options with_options ty action None get_filter bypass p run m s = run m s"
  using assms by (simp add: specification_middleware_def from_specification_def has_filter_def)

section \<open>Decorated handlers\<close>

definition permission_met :: "principal \<Rightarrow> requirement \<Rightarrow> bool" where
  "permission_met q rq = (case rq_qualifier rq of
     QAll \<Rightarrow> has_all_permissions q (rq_names rq)
   | QAny \<Rightarrow> has_any_permission q (rq_names rq)
   | QNot \<Rightarrow> \<not> has_any_permission q (rq_names rq))"

definition role_met :: "principal \<Rightarrow> requirement \<Rightarrow> bool" where
  "role_met q rq = (case rq_qualifier rq of
     QAll \<Rightarrow> set (rq_names rq) \<subseteq> set (pr_roles q)
   | QAny \<Rightarrow> has_any_role q (rq_names rq)
   | QNot \<Rightarrow> set (rq_names rq) \<inter> set (pr_roles q) = {})"

definition owner_met :: "get_owner option \<Rightarrow> principal \<Rightarrow> 'm \<Rightarrow> string \<times> ('m \<Rightarrow> string option) \<Rightarrow> bool" where
  "owner_met resolver q m rq =
     (case (resolver, snd rq m) of
        (Some get_owner, Some rid) \<Rightarrow> get_owner (fst rq) rid = Inr (OneOwner (pr_user_id q))
      | _ \<Rightarrow> True)"

lemma enforce_permission_iff: "is_ok (enforce_permission (Some q) rq) \<longleftrightarrow> permission_met q rq"
  by (cases "rq_qualifier rq")
    (auto simp: enforce_permission_def permission_met_def has_all_permissions_def has_any_permission_def
      filter_empty_conv list_all_iff list_ex_iff Let_def)

lemma enforce_role_iff: "is_ok (enforce_role (Some q) rq) \<longleftrightarrow> role_met q rq"
  by (cases "rq_qualifier rq")
    (auto simp: enforce_role_def role_met_def has_any_role_def filter_empty_conv list_ex_iff Let_def)

lemma enforce_ownership_iff: "is_ok (enforce_ownership resolver (Some q) m rq) \<longleftrightarrow> owner_met resolver q m rq"
  by (auto simp: enforce_ownership_def owner_met_def owner_is_def split: option.splits sum.splits)

lemma is_ok_unit: "is_ok r \<longleftrightarrow> r = Inr ()"
  by (cases r) auto

lemma when_some_ok: "is_ok (when_some f v) \<longleftrightarrow> (case v of None \<Rightarrow> True | Some a \<Rightarrow> is_ok (f a))"
  by (cases v) (simp_all add: when_some_def)

lemma enforce_all_ok:
  "is_ok (enforce_all resolver p m hm) \<longleftrightarrow>
     is_ok (when_some (enforce_permission p) (hm_permission hm)) \<and> is_ok (when_some (enforce_role p) (hm_role hm)) \<and>
     is_ok (when_some (enforce_ownership resolver p m) (hm_owner hm))"
  by (auto simp: enforce_all_def split: sum.splits)

text \<open>
  A decorated handler runs exactly when the principal meets every requirement declared on it; otherwise
  the call is refused and nothing has happened.  An anonymous caller meets no requirement.
\<close>

theorem decorated_handler_guarded:
  assumes "\<not> bypassed bypass p" "handler_of m = Some hm" "hm_authorization hm = None"
  shows "if (case p of
              None \<Rightarrow> hm_permission hm = None \<and> hm_role hm = None \<and> hm_owner hm = None
            | Some q \<Rightarrow> pred_option (permission_met q) (hm_permission hm) \<and> pred_option (role_met q) (hm_role hm) \<and>
                        pred_option (owner_met resolver q m) (hm_owner hm))
         then decorator_middleware xs handler_of check resolver bypass p run m s = run m s
         else (\<exists>x. decorator_middleware xs handler_of check resolver bypass p run m s = (s, Inl x))"
proof -
  have steps: "decorator_middleware xs handler_of check resolver bypass p run m s =
      (case enforce_all resolver p m hm of Inl x \<Rightarrow> (s, Inl x) | Inr _ \<Rightarrow> run m s)"
    using assms by (simp add: decorator_middleware_def split: sum.split)
  have "is_ok (enforce_all resolver p m hm) \<longleftrightarrow> (case p of
              None \<Rightarrow> hm_permission hm = None \<and> hm_role hm = None \<and> hm_owner hm = None
            | Some q \<Rightarrow> pred_option (permission_met q) (hm_permission hm) \<and> pred_option (role_met q) (hm_role hm) \<and>
                        pred_option (owner_met resolver q m) (hm_owner hm))"
  proof (cases p)
    case None
    then show ?thesis
      by (auto simp: enforce_all_ok when_some_ok enforce_permission_def enforce_role_def enforce_ownership_def split: option.splits)
  next
    case (Some q)
    then show ?thesis
      by (auto simp: enforce_all_ok when_some_ok enforce_permission_iff enforce_role_iff enforce_ownership_iff
          split: option.splits)
  qed
  with steps show ?thesis by (cases "enforce_all resolver p m hm") auto
qed

text \<open>
  The wildcard role counts for \<^verbatim>\<open>has_role\<close> and for the bypass of the middlewares, but neither for a required
  role nor for the bypass of the enforcement point: the system principal is refused there.
\<close>

theorem wildcard_role_inconsistent:
  "bypassed [''admin''] (Some system_principal) \<and> has_all_roles system_principal [''admin''] \<and>
   enforce_role (Some system_principal) \<lparr>rq_names = [''admin''], rq_qualifier = QAll\<rparr> = Inl (InsufficientRoleError ''admin'') \<and>
   (\<exists>d. snd (pep_evaluate [] [''admin''] system_principal ctx None) = Inr d \<and> \<not> ad_allowed d)"
  by (simp add: bypassed_def has_any_role_def has_all_roles_def has_role_def system_principal_def enforce_role_def
      pep_evaluate_def decide_def)

section \<open>Access rules reach the engine\<close>

text \<open>A port that records the calls made on it, and a store that leaves the record alone.\<close>

definition recording :: "'s admin_port \<Rightarrow> (admin_call list \<times> 's) admin_port" where
  "recording admin c st = (case admin c (snd st) of (s, r) \<Rightarrow> ((fst st @ [c], s), r))"

definition beside_log :: "(acl_granted \<Rightarrow> 's \<Rightarrow> 's \<times> exn option) \<Rightarrow> acl_granted \<Rightarrow> admin_call list \<times> 's \<Rightarrow> (admin_call list \<times> 's) \<times> exn option" where
  "beside_log f ev st = (case f ev (snd st) of (s, r) \<Rightarrow> ((fst st, s), r))"

definition tenant_scoped :: "payload \<Rightarrow> bool" where
  "tenant_scoped c \<longleftrightarrow> c = tenant_condition \<or>
     (\<exists>d. c = [(''op'', JStr ''and''), (''conditions'', JList [JDict d, JDict tenant_condition])])"

definition scoped_call :: "admin_call \<Rightarrow> bool" where
  "scoped_call call = (case call of CreateAcl ty rule rid (Some c) \<Rightarrow> tenant_scoped c | _ \<Rightarrow> False)"

lemma recording_apply:
  "recording admin c (calls, s) = (case admin c s of (s', r) \<Rightarrow> ((calls @ [c], s'), r))"
  "beside_log f ev (calls, s) = (case f ev s of (s', r) \<Rightarrow> ((calls, s'), r))"
  by (simp_all add: recording_def beside_log_def)

lemma merge_tenant_scoped: "\<exists>c. merge_tenant_condition True raw = Some c \<and> tenant_scoped c"
  by (auto simp: merge_tenant_condition_def tenant_scoped_def Let_def split: option.split)

lemma scoped_grant_rules:
  assumes "list_all (\<lambda>r. \<not> payload_truthy (ar_specification_dsl r)) rules" "list_all scoped_call (fst st)"
  shows "list_all scoped_call
    (fst (fst (grant_rules True (recording admin) (map_option beside_log store) ty rid rules st)))"
  using assms
proof (induction rules arbitrary: st)
  case (Cons rule rules)
  obtain c where c: "merge_tenant_condition True (ar_conditions rule) = Some c" "tenant_scoped c"
    using merge_tenant_scoped by blast
  let ?call = "admin_call_for ty rid rule (Some c)"
  obtain calls s where st: "st = (calls, s)" by fastforce
  have ok: "scoped_call ?call"
    using Cons.prems(1) c(2) by (simp add: admin_call_for_def scoped_call_def Let_def)
  obtain s' r where a: "admin ?call s = (s', r)" by fastforce
  have IH: "list_all scoped_call
      (fst (fst (grant_rules True (recording admin) (map_option beside_log store) ty rid rules (calls @ [?call], s''))))" for s''
    using Cons.IH [of "(calls @ [?call], s'')"] Cons.prems ok st by simp
  show ?case
  proof (cases r)
    case (Inl x)
    then show ?thesis using a c(1) Cons.prems(2) ok by (simp add: st recording_apply Let_def)
  next
    case (Inr result)
    show ?thesis
    proof (cases store)
      case None
      with Inr a c(1) IH show ?thesis by (simp add: st recording_apply Let_def)
    next
      case (Some f)
      obtain s2 x where "f (build_granted_event ty rid rule result (Some c)) s' = (s2, x)" by fastforce
      with Some Inr a c(1) IH Cons.prems(2) ok show ?thesis
        by (cases x) (simp_all add: st recording_apply Let_def)
    qed
  qed
qed simp

text \<open>
  With tenant isolation enforced, every rule that is granted through conditions reaches the engine with
  the tenant condition, alone or in a conjunction with the conditions of the rule, whatever the engine
  and the event store answer.
\<close>

theorem condition_grants_tenant_scoped:
  assumes "list_all (\<lambda>r. \<not> payload_truthy (ar_specification_dsl r)) rules"
  shows "list_all scoped_call
    (fst (fst (grant_rules True (recording admin) (map_option beside_log store) ty rid rules ([], s))))"
  using scoped_grant_rules [OF assms, of "([], s)"] by simp

text \<open>
  A rule granted through a specification escapes tenant isolation: the call that reaches the engine
  carries no tenant condition, although the completion event says that it does.
\<close>

theorem specification_grants_escape_tenant:
  assumes "ar_specification_dsl rule = Some dsl" "dsl \<noteq> []"
  shows "fst (grant_rules True (recording (\<lambda>c evs. (evs, Inr [])))
           (Some (\<lambda>ev st. ((fst st, snd st @ [ev]), None))) ty rid [rule] ([], [])) =
         ([CreateAclFromSpecification ty rule (py_or (ar_resource_id rule) rid) dsl],
          [build_granted_event ty rid rule [] (merge_tenant_condition True (ar_conditions rule))]) \<and>
         (\<exists>c. merge_tenant_condition True (ar_conditions rule) = Some c \<and> tenant_scoped c)"
  using assms merge_tenant_scoped [of "ar_conditions rule"]
  by (simp add: recording_def admin_call_for_def payload_truthy_def Let_def)

section \<open>Field mappings\<close>

lemma reverse_mapping:
  assumes "distinct (dvalues m)"
  shows "map_of (fold (\<lambda>(k, v). AList.update v k) m d) a =
    (case map_of (map (\<lambda>(k, v). (v, k)) m) a of Some k \<Rightarrow> Some k | None \<Rightarrow> map_of d a)"
  using assms
proof (induction m arbitrary: d)
  case (Cons kv m)
  obtain k v where kv: "kv = (k, v)" by fastforce
  have "v \<notin> set (dvalues m)" using Cons.prems kv by simp
  then have "map_of (map (\<lambda>(k, v). (v, k)) m) v = None"
    by (auto simp: map_of_eq_None_iff image_iff)
  with Cons kv show ?case by (auto split: option.splits)
qed simp

text \<open>
  A field mapping without two fields for one attribute is undone by its reverse on every mapped
  field, and on every other field whose name is not used as an attribute.
\<close>

theorem field_mapping_roundtrip:
  assumes "dict_ok m" "distinct (dvalues m)" "f \<in> set (dkeys m) \<or> f \<notin> set (dvalues m)"
  shows "get_field m (get_abac_attr m f) = f"
proof (cases "map_of m f")
  case None
  then have "f \<notin> set (dkeys m)" by (simp add: map_of_eq_None_iff)
  then have "f \<notin> set (dvalues m)" using assms(3) by simp
  then have "map_of (map (\<lambda>(k, v). (v, k)) m) f = None" by (auto simp: map_of_eq_None_iff image_iff)
  with None show ?thesis by (simp add: get_field_def get_abac_attr_def reverse_mapping [OF assms(2)])
next
  case (Some a)
  have "distinct (map fst (map (\<lambda>(k, v). (v, k)) m))" using assms(2) by (simp add: case_prod_beta comp_def)
  moreover have "(a, f) \<in> set (map (\<lambda>(k, v). (v, k)) m)" using map_of_SomeD [OF Some] by force
  ultimately have "map_of (map (\<lambda>(k, v). (v, k)) m) a = Some f" by (rule map_of_is_SomeI)
  with Some show ?thesis by (simp add: get_field_def get_abac_attr_def reverse_mapping [OF assms(2)])
qed

section \<open>Witnesses\<close>

text \<open>Messages are lists of resource ids, results lists of ids, entities ids.\<close>

definition ex_accessors :: "(string list, string list, string) accessors" where
  "ex_accessors = \<lparr>xs_type_attr = (\<lambda>m a. Inr None), xs_id_attr = (\<lambda>m a. Inr (ManyValues m)),
     xs_entities = (\<lambda>r a. Inr (Some r)), xs_set_entities = (\<lambda>r a es. Inr es), xs_entity_id = (\<lambda>e a. HasId e)\<rparr>"

definition ex_config :: "string list auth_config" where
  "ex_config = \<lparr>ac_resource_type = Some ''order'', ac_resource_type_attr = None, ac_required_actions = [''read''],
     ac_action_all = True, ac_resource_id_attr = Some ''ids'', ac_result_entities_attr = Some ''items'', ac_entity_id_attr = ''id'',
     ac_fail_silently = False, ac_deny_anonymous = True, ac_auth_context_provider = None\<rparr>"

definition ex_batch :: batch_result where
  "ex_batch = \<lparr>br_access_map = [((''order'', ''a''), [''read''])], br_global_permissions = []\<rparr>"

lemma ex_allowed: "is_allowed ex_batch ''order'' i [''read''] True \<longleftrightarrow> i = ''a''"
  by (simp add: is_allowed_def ex_batch_def)


theorem result_keeps_allowed_entities_witness:
  "filter_result ex_accessors ex_config (\<lambda>items c r. Inr ex_batch) ''order'' None (Some ex_principal) [''b'', ''a'', ''c''] =
     Inr [''a'']"
  using result_keeps_allowed_entities [where cfg = ex_config and attr = "''items''" and xs = ex_accessors and
      result = "[''b'', ''a'', ''c'']" and es = "[''b'', ''a'', ''c'']" and check = "\<lambda>items c r. Inr ex_batch" and
      ty = "''order''" and actx = None and p = "Some ex_principal" and br = ex_batch]
  by (simp add: ex_config_def ex_accessors_def ex_allowed)

theorem query_narrowed_to_authorized_witness:
  "\<exists>m' t. specification_middleware Some (\<lambda>q m. q) ''order'' ''read'' None
      (\<lambda>c r. Inr (from_specification (AttributeSpecification (PStr ''owner'') EQ (PStr ''u1'')))) [] (Some ex_principal)
      (\<lambda>m s. (m, Inr ())) (new_options :: unit query_options) new_options = (m', Inr ()) \<and>
    m' = with_specification t new_options \<and>
    (\<forall>h reg c. is_satisfied_by h reg c t = Inr True \<longleftrightarrow>
       is_satisfied_by h reg c (AttributeSpecification (PStr ''owner'') EQ (PStr ''u1'')) = Inr True)"
  using query_narrowed_to_authorized [where bypass = "[]" and p = "Some ex_principal" and options = Some and
      with_options = "\<lambda>q m. q" and m = "new_options :: unit query_options" and q = new_options and ty = "''order''" and
      action = "''read''" and s = new_options and run = "\<lambda>m s. (m, Inr ())" and
      get_filter = "\<lambda>c r. Inr (from_specification (AttributeSpecification (PStr ''owner'') EQ (PStr ''u1'')))"]
  by (simp add: bypassed_def from_specification_def has_filter_def new_options_def del: is_satisfied_by.simps)

theorem filter_dropped_without_query_options_witness:
  "specification_middleware (\<lambda>m. None) (\<lambda>q m. m) ''order'' ''read'' None
      (\<lambda>c r. Inr (from_specification (AttributeSpecification (PStr ''owner'') EQ (PStr ''u1'') :: unit spec))) []
      (Some ex_principal) (\<lambda>m s. (Suc s, Inr ''all orders'')) () (0 :: nat) = (1, Inr ''all orders'')"
  using filter_dropped_without_query_options [where bypass = "[]" and p = "Some ex_principal" and options = "\<lambda>m. None" and
      m = "()" and s = "0 :: nat" and run = "\<lambda>m s. (Suc s, Inr ''all orders'')" and with_options = "\<lambda>q m. m" and
      a = "AttributeSpecification (PStr ''owner'') EQ (PStr ''u1'') :: unit spec" and ty = "''order''" and action = "''read''" and
      get_filter = "\<lambda>c r. Inr (from_specification (AttributeSpecification (PStr ''owner'') EQ (PStr ''u1'')))"]
  by (simp add: bypassed_def)

theorem decorated_handler_guarded_witness:
  "\<exists>x. decorator_middleware ex_accessors
      (\<lambda>m. Some (requires_role [''admin'', ''editor''] QAll \<lparr>hm_permission = None, hm_role = None, hm_owner = None, hm_authorization = None\<rparr>))
      None None [] (Some ex_principal) (\<lambda>m s. (Suc s, Inr m)) [] (0 :: nat) = (0, Inl x)"
  using decorated_handler_guarded [where bypass = "[]" and p = "Some ex_principal" and m = "[]" and xs = ex_accessors and
      handler_of = "\<lambda>m. Some (requires_role [''admin'', ''editor''] QAll \<lparr>hm_permission = None, hm_role = None, hm_owner = None, hm_authorization = None\<rparr>)" and
      hm = "requires_role [''admin'', ''editor''] QAll \<lparr>hm_permission = None, hm_role = None, hm_owner = None, hm_authorization = None\<rparr>" and
      resolver = None and check = None and run = "\<lambda>m s. (Suc s, Inr m)" and s = "0 :: nat"]
  by (simp add: bypassed_def requires_role_def role_met_def ex_principal_def)

definition ex_rule :: access_rule where
  "ex_rule = \<lparr>ar_principal_name = Some ''ann'', ar_role_name = None, ar_action = ''read'', ar_resource_id = Some ''a'',
     ar_conditions = None, ar_specification_dsl = None\<rparr>"

theorem condition_grants_tenant_scoped_witness:
  "list_all scoped_call (fst (fst (grant_rules True (recording (\<lambda>c s. (s, Inr []))) (map_option beside_log None)
      ''order'' None [ex_rule] ([], ()))))"
  by (rule condition_grants_tenant_scoped) (simp add: ex_rule_def payload_truthy_def)

theorem specification_grants_escape_tenant_witness:
  "fst (fst (grant_rules True (recording (\<lambda>c evs. (evs, Inr []))) (Some (\<lambda>ev st. ((fst st, snd st @ [ev]), None)))
      ''order'' None [ex_rule\<lparr>ar_specification_dsl := Some [(''op'', JStr ''='')]\<rparr>] ([], []))) =
    [CreateAclFromSpecification ''order'' (ex_rule\<lparr>ar_specification_dsl := Some [(''op'', JStr ''='')]\<rparr>) (Some ''a'') [(''op'', JStr ''='')]]"
  using specification_grants_escape_tenant [of "ex_rule\<lparr>ar_specification_dsl := Some [(''op'', JStr ''='')]\<rparr>" "[(''op'', JStr ''='')]" "''order''" None]
  by (simp add: ex_rule_def)

theorem field_mapping_roundtrip_witness:
  "get_field [(''owner'', ''owner_id''), (''area'', ''region'')] (get_abac_attr [(''owner'', ''owner_id''), (''area'', ''region'')] ''area'') = ''area''"
  by (rule field_mapping_roundtrip) simp_all

end
