(* ===== verification/Tenancy.thy ===== *)
theory Tenancy
  imports SpecLaws
begin

text \<open>
  Tenant context of the multitenancy package (features/multitenancy/src/cqrs_ddd_multitenancy):
  context.py, resolver.py, the two request middlewares (middleware.py, contrib/fastapi/middleware.py), the
  propagation through job workers, brokers and projections (workers/context.py,
  infrastructure/messaging.py, projections/), isolation.py, domain/mixins.py and specification.py.

  The context variable \<^verbatim>\<open>_tenant_context\<close> is an optional string.  A token remembers the value it replaced,
  and \<^verbatim>\<open>reset\<close> writes that value back.  Code that runs under a context is an action: it maps the
  variable and the rest of the program's state to their next values and returns or raises; it may
  leave any value in the variable.  Error texts that embed the \<^verbatim>\<open>repr\<close> of a value are cut before it.
\<close>

section \<open>The context variable\<close>

type_synonym tenant_ctx = "string option"
type_synonym token = "string option"
type_synonym ('w, 'a) action = "tenant_ctx \<Rightarrow> 'w \<Rightarrow> tenant_ctx \<times> 'w \<times> (exn + 'a)"

definition SYSTEM_TENANT :: string where
  "SYSTEM_TENANT = ''__system__''"

definition get_current_tenant :: "tenant_ctx \<Rightarrow> exn + string" where
  "get_current_tenant ctx =
     (case ctx of
        None \<Rightarrow> Inl (TenantContextMissingError
          ''No tenant context set. Ensure TenantMiddleware is configured or set_tenant() was called.'')
      | Some t \<Rightarrow> Inr t)"

definition get_current_tenant_or_none :: "tenant_ctx \<Rightarrow> string option" where
  "get_current_tenant_or_none ctx = ctx"

text \<open>\<^verbatim>\<open>str.isalnum\<close> on one character: ASCII and Latin-1 letters, digits, superscripts and fractions.\<close>

definition isalnum :: "char \<Rightarrow> bool" where
  "isalnum c =
     (let n = of_char c :: nat
      in 48 \<le> n \<and> n \<le> 57 \<or> 65 \<le> n \<and> n \<le> 90 \<or> 97 \<le> n \<and> n \<le> 122
         \<or> n \<in> {170, 178, 179, 181, 185, 186, 188, 189, 190}
         \<or> 192 \<le> n \<and> n \<noteq> 215 \<and> n \<noteq> 247)"

definition tenant_char :: "char \<Rightarrow> bool" where
  "tenant_char c \<longleftrightarrow> isalnum c \<or> c = CHR ''-'' \<or> c = CHR ''_''"

definition set_tenant :: "string \<Rightarrow> tenant_ctx \<Rightarrow> exn + tenant_ctx \<times> token" where
  "set_tenant tenant_id ctx =
     (if tenant_id = [] then Inl (ValueError ''tenant_id cannot be empty'')
      else if tenant_id \<noteq> SYSTEM_TENANT \<and> \<not> list_all tenant_char tenant_id
      then Inl (ValueError ''Invalid tenant_id format'')
      else if tenant_id \<noteq> SYSTEM_TENANT \<and> 128 < length tenant_id
      then Inl (ValueError ''tenant_id too long (max 128 characters)'')
      else Inr (Some tenant_id, ctx))"

definition reset_tenant :: "token \<Rightarrow> tenant_ctx \<Rightarrow> tenant_ctx" where
  "reset_tenant tok ctx = tok"

definition clear_tenant :: "tenant_ctx \<Rightarrow> tenant_ctx" where
  "clear_tenant ctx = None"

definition require_tenant :: "tenant_ctx \<Rightarrow> exn + string" where
  "require_tenant ctx = get_current_tenant ctx"

definition is_system_tenant :: "tenant_ctx \<Rightarrow> bool" where
  "is_system_tenant ctx \<longleftrightarrow> ctx = Some SYSTEM_TENANT"

definition is_tenant_context_set :: "tenant_ctx \<Rightarrow> bool" where
  "is_tenant_context_set ctx \<longleftrightarrow> ctx \<noteq> None"

text \<open>\<^verbatim>\<open>token = set_tenant(t)\<close>, then \<^verbatim>\<open>try: ... finally: reset_tenant(token)\<close>.\<close>

definition set_run_reset :: "string \<Rightarrow> ('w, 'a) action \<Rightarrow> ('w, 'a) action" where
  "set_run_reset t act ctx w =
     (case set_tenant t ctx of
        Inl e \<Rightarrow> (ctx, w, Inl e)
      | Inr (ctx', tok) \<Rightarrow> (case act ctx' w of (c, w', r) \<Rightarrow> (reset_tenant tok c, w', r)))"

definition system_operation :: "('w, 'a) action \<Rightarrow> ('w, 'a) action" where
  "system_operation func = set_run_reset SYSTEM_TENANT func"

definition with_tenant_context :: "string \<Rightarrow> (string \<Rightarrow> ('w, 'a) action) \<Rightarrow> ('w, 'a) action" where
  "with_tenant_context tenant_id body = set_run_reset tenant_id (body tenant_id)"

definition get_tenant_context_vars :: "tenant_ctx \<Rightarrow> (string, string option) dict" where
  "get_tenant_context_vars ctx = [(''tenant_id'', get_current_tenant_or_none ctx)]"

text \<open>\<^verbatim>\<open>propagate_tenant_context\<close> reads the context \<open>ctx0\<close> when it wraps the function.\<close>

definition propagate_tenant_context ::
  "tenant_ctx \<Rightarrow> ('w, 'a) action \<Rightarrow> string option \<Rightarrow> ('w, 'a) action" where
  "propagate_tenant_context ctx0 func tenant_id =
     (case (case tenant_id of Some t \<Rightarrow> Some t | None \<Rightarrow> get_current_tenant_or_none ctx0) of
        None \<Rightarrow> func
      | Some captured_tenant \<Rightarrow> set_run_reset captured_tenant func)"

text \<open>\<^verbatim>\<open>run_in_tenant_context\<close> works on a copy of the context: the caller's variable is never written.\<close>

definition run_in_tenant_context :: "string \<Rightarrow> ('w, 'a) action \<Rightarrow> ('w, 'a) action" where
  "run_in_tenant_context tenant_id func ctx w =
     (case set_tenant tenant_id ctx of
        Inl e \<Rightarrow> (ctx, w, Inl e)
      | Inr (copy, tok) \<Rightarrow> (case func copy w of (c, w', r) \<Rightarrow> (ctx, w', r)))"

section \<open>Resolvers\<close>

text \<open>
  A message is any Python value.  \<open>rh_attr\<close> is attribute access (\<^const>\<open>None\<close>: \<^verbatim>\<open>hasattr\<close> is false), \<open>rh_get\<close>
  is the \<^verbatim>\<open>get\<close> method of an object, if it has one, and \<open>rh_host\<close> renders values.
\<close>

record 'o request_host =
  rh_attr :: "'o pyval \<Rightarrow> string \<Rightarrow> 'o pyval option"
  rh_get :: "'o \<Rightarrow> (string \<Rightarrow> 'o pyval) option"
  rh_host :: "'o host"

type_synonym 'm resolver = "'m \<Rightarrow> exn + string option"

text \<open>The \<^verbatim>\<open>get\<close> method of a value, and \<^verbatim>\<open>getattr(x, name, None)\<close>.\<close>

definition getter_of :: "'o request_host \<Rightarrow> 'o pyval \<Rightarrow> (string \<Rightarrow> 'o pyval) option" where
  "getter_of rh v = (case v of PDict d \<Rightarrow> Some (dget d) | PObj x \<Rightarrow> rh_get rh x | _ \<Rightarrow> None)"

definition attr_or_none :: "'o request_host \<Rightarrow> 'o pyval \<Rightarrow> string \<Rightarrow> 'o pyval" where
  "attr_or_none rh v name = (case rh_attr rh v name of None \<Rightarrow> PNone | Some x \<Rightarrow> x)"

definition extract_headers :: "'o request_host \<Rightarrow> 'o pyval \<Rightarrow> 'o pyval" where
  "extract_headers rh message =
     (case rh_attr rh message ''headers'' of
        Some headers \<Rightarrow> headers
      | None \<Rightarrow> (case message of
          PDict d \<Rightarrow> (let headers = dget d ''headers'' in if headers \<noteq> PNone then headers else message)
        | _ \<Rightarrow> (case rh_attr rh message ''metadata'' of Some (PDict md) \<Rightarrow> PDict md | _ \<Rightarrow> PNone)))"

definition get_header_value :: "'o request_host \<Rightarrow> 'o pyval \<Rightarrow> string \<Rightarrow> string option" where
  "get_header_value rh headers name =
     (case getter_of rh headers of
        None \<Rightarrow> None
      | Some get \<Rightarrow>
          if get name \<noteq> PNone then Some (py_str (rh_host rh) (get name))
          else if get (lower name) \<noteq> PNone then Some (py_str (rh_host rh) (get (lower name)))
          else None)"

definition header_resolve :: "'o request_host \<Rightarrow> string \<Rightarrow> 'o pyval resolver" where
  "header_resolve rh header_name message =
     (let headers = extract_headers rh message
      in if headers = PNone then Inr None
         else case get_header_value rh headers header_name of
                None \<Rightarrow> Inr None
              | Some tenant_id \<Rightarrow> if tenant_id \<noteq> [] then Inr (Some (strip tenant_id)) else Inr None)"

definition get_principal :: "'o request_host \<Rightarrow> string \<Rightarrow> 'o pyval \<Rightarrow> 'o pyval" where
  "get_principal rh principal_attribute message =
     (if rh_attr rh message principal_attribute \<noteq> None then message
      else case rh_attr rh message ''principal'' of
             Some p \<Rightarrow> p
           | None \<Rightarrow> (case message of PDict d \<Rightarrow> dget d ''principal'' | _ \<Rightarrow> PNone))"

definition get_claims :: "'o request_host \<Rightarrow> string \<Rightarrow> 'o pyval \<Rightarrow> (string \<times> 'o pyval) list option" where
  "get_claims rh claim_name message =
     (let attr_claims = (case rh_attr rh message ''claims'' of Some (PDict c) \<Rightarrow> Some c | _ \<Rightarrow> None)
      in case message of
           PDict d \<Rightarrow> if list_ex (\<lambda>k. k \<in> set (dkeys d)) [''sub'', ''iss'', ''aud'', ''tenant_id'', claim_name]
                      then Some d else attr_claims
         | _ \<Rightarrow> attr_claims)"

definition jwt_resolve :: "'o request_host \<Rightarrow> string \<Rightarrow> string \<Rightarrow> 'o pyval resolver" where
  "jwt_resolve rh claim_name principal_attribute message =
     (let principal = get_principal rh principal_attribute message;
          from_principal = attr_or_none rh principal principal_attribute
      in if principal \<noteq> PNone \<and> from_principal \<noteq> PNone then Inr (Some (py_str (rh_host rh) from_principal))
         else case get_claims rh claim_name message of
                None \<Rightarrow> Inr None
              | Some claims \<Rightarrow>
                  (let tenant_id = (if py_truthy (dget claims claim_name) then dget claims claim_name
                                    else dget claims ''tenant'')
                   in if tenant_id \<noteq> PNone then Inr (Some (py_str (rh_host rh) tenant_id)) else Inr None))"

text \<open>\<^verbatim>\<open>host.split(":")[0]\<close>; only strings have that method.\<close>

definition before_port :: "'o pyval \<Rightarrow> exn + string option" where
  "before_port host =
     (case host of PStr s \<Rightarrow> Inr (Some (hd (split_on (CHR '':'') s))) | _ \<Rightarrow> Inl (AttributeError ''split''))"

definition get_either :: "(string \<Rightarrow> 'o pyval) \<Rightarrow> string \<Rightarrow> string \<Rightarrow> 'o pyval" where
  "get_either get a b = (if py_truthy (get a) then get a else get b)"

definition host_from_headers_obj :: "'o request_host \<Rightarrow> 'o pyval \<Rightarrow> exn + string option" where
  "host_from_headers_obj rh headers =
     (case getter_of rh headers of
        None \<Rightarrow> Inl (AttributeError ''get'')
      | Some get \<Rightarrow>
          let host = get_either get ''Host'' ''host''
          in if py_truthy host then before_port host else Inr None)"

definition host_from_dict :: "'o request_host \<Rightarrow> (string \<times> 'o pyval) list \<Rightarrow> exn + string option" where
  "host_from_dict rh d =
     (case getter_of rh (case map_of d ''headers'' of None \<Rightarrow> PDict [] | Some h \<Rightarrow> h) of
        None \<Rightarrow> Inl (AttributeError ''get'')
      | Some get \<Rightarrow>
          let host = get_either get ''Host'' ''host''
          in if py_truthy host then before_port host
             else let host = get_either (dget d) ''host'' ''Host''
                  in if py_truthy host then before_port host else Inr None)"

text \<open>The host of a message, or the exception of a value that is no string where one is needed.\<close>

definition as_host :: "'o pyval \<Rightarrow> exn + string option" where
  "as_host v = (case v of PStr s \<Rightarrow> Inr (Some s) | _ \<Rightarrow> Inl (TypeError ''expected string or bytes-like object''))"

definition host_of_plain :: "'o request_host \<Rightarrow> 'o pyval \<Rightarrow> exn + string option" where
  "host_of_plain rh message = (case message of PDict d \<Rightarrow> host_from_dict rh d | _ \<Rightarrow> Inr None)"

definition extract_host :: "'o request_host \<Rightarrow> 'o pyval \<Rightarrow> exn + string option" where
  "extract_host rh message =
     (let url = attr_or_none rh message ''url''; hostname = attr_or_none rh url ''hostname''
      in if url \<noteq> PNone \<and> py_truthy hostname then as_host hostname
         else let host = attr_or_none rh message ''host''
         in if host \<noteq> PNone then as_host host
         else case rh_attr rh message ''headers'' of
                None \<Rightarrow> host_of_plain rh message
              | Some headers \<Rightarrow>
                  (case host_from_headers_obj rh headers of
                     Inl e \<Rightarrow> Inl e
                   | Inr (Some h) \<Rightarrow> if h \<noteq> [] then Inr (Some h) else host_of_plain rh message
                   | Inr None \<Rightarrow> host_of_plain rh message))"

text \<open>
  The default pattern \<^verbatim>\<open>^([a-zA-Z0-9][-a-zA-Z0-9]*)\.\<close>: the run of letters, digits and hyphens at the start,
  if it starts with no hyphen and a dot follows it.
\<close>

definition ascii_alnum :: "char \<Rightarrow> bool" where
  "ascii_alnum c =
     (let n = of_char c :: nat in 48 \<le> n \<and> n \<le> 57 \<or> 65 \<le> n \<and> n \<le> 90 \<or> 97 \<le> n \<and> n \<le> 122)"

definition default_subdomain :: "string \<Rightarrow> string option" where
  "default_subdomain host =
     (let label = takeWhile (\<lambda>c. ascii_alnum c \<or> c = CHR ''-'') host
      in if label \<noteq> [] \<and> ascii_alnum (hd label) \<and> drop (length label) host \<noteq> []
            \<and> host ! length label = CHR ''.''
         then Some label else None)"

text \<open>A configured pattern is the function that \<^verbatim>\<open>re.match(...).group(1)\<close> computes with it.\<close>

definition subdomain_resolve ::
  "'o request_host \<Rightarrow> string option \<Rightarrow> (string \<Rightarrow> exn + string option) option \<Rightarrow> 'o pyval resolver" where
  "subdomain_resolve rh domain_suffix pattern message =
     (case extract_host rh message of
        Inl e \<Rightarrow> Inl e
      | Inr None \<Rightarrow> Inr None
      | Inr (Some host) \<Rightarrow>
          if truthy domain_suffix \<and> \<not> suffix (the domain_suffix) host then Inr None
          else (case (case pattern of None \<Rightarrow> Inr (default_subdomain host) | Some p \<Rightarrow> p host) of
                  Inl e \<Rightarrow> Inl e
                | Inr None \<Rightarrow> Inr None
                | Inr (Some subdomain) \<Rightarrow>
                    if subdomain \<notin> set [''www'', ''api'', ''app'', ''admin'', ''mail'', ''ftp'']
                    then Inr (Some subdomain) else Inr None))"

text \<open>The default pattern of a path, \<^verbatim>\<open>prefix([^/]+)\<close>, searched for from the left.\<close>

fun path_search :: "string \<Rightarrow> string \<Rightarrow> string option" where
  "path_search pre [] = None"
| "path_search pre (c # cs) =
     (let segment = takeWhile (\<lambda>x. x \<noteq> CHR ''/'') (drop (length pre) (c # cs))
      in if prefix pre (c # cs) \<and> segment \<noteq> [] then Some segment else path_search pre cs)"

definition extract_path :: "'o request_host \<Rightarrow> 'o pyval \<Rightarrow> exn + 'o pyval" where
  "extract_path rh message =
     (case rh_attr rh message ''url'' of
        Some url \<Rightarrow> (case rh_attr rh url ''path'' of None \<Rightarrow> Inl (AttributeError ''path'') | Some p \<Rightarrow> Inr p)
      | None \<Rightarrow> (case rh_attr rh message ''path'' of
          Some p \<Rightarrow> Inr p
        | None \<Rightarrow> (case message of PDict d \<Rightarrow> Inr (dget d ''path'') | _ \<Rightarrow> Inr PNone)))"

definition path_resolve ::
  "'o request_host \<Rightarrow> string \<Rightarrow> (string \<Rightarrow> string option) option \<Rightarrow> 'o pyval resolver" where
  "path_resolve rh pre pattern message =
     (case extract_path rh message of
        Inl e \<Rightarrow> Inl e
      | Inr PNone \<Rightarrow> Inr None
      | Inr (PStr p) \<Rightarrow> Inr ((case pattern of None \<Rightarrow> path_search pre | Some f \<Rightarrow> f) p)
      | Inr _ \<Rightarrow> Inl (TypeError ''expected string or bytes-like object''))"

definition new_composite :: "'m resolver list \<Rightarrow> exn + 'm resolver list" where
  "new_composite rs =
     (if rs = [] then Inl (ValueError ''CompositeResolver requires at least one resolver'') else Inr rs)"

fun composite_resolve :: "'m resolver list \<Rightarrow> 'm resolver" where
  "composite_resolve [] message = Inr None"
| "composite_resolve (r # rs) message =
     (case r message of
        Inl e \<Rightarrow> composite_resolve rs message
      | Inr None \<Rightarrow> composite_resolve rs message
      | Inr (Some tenant_id) \<Rightarrow> Inr (Some tenant_id))"

definition add_resolver :: "'m resolver \<Rightarrow> 'm resolver list \<Rightarrow> exn + 'm resolver list" where
  "add_resolver r rs = new_composite (rs @ [r])"

definition new_static :: "string \<Rightarrow> exn + string" where
  "new_static tenant_id =
     (if tenant_id = [] then Inl (ValueError ''tenant_id cannot be empty'') else Inr tenant_id)"

definition static_resolve :: "string \<Rightarrow> 'm resolver" where
  "static_resolve tenant_id message = Inr (Some tenant_id)"

datatype called = Awaitable "exn + string option" | Plain "string option"

definition callable_resolve :: "('m \<Rightarrow> exn + called) \<Rightarrow> 'm resolver" where
  "callable_resolve f message =
     (case f message of Inl e \<Rightarrow> Inl e | Inr (Awaitable r) \<Rightarrow> r | Inr (Plain t) \<Rightarrow> Inr t)"

section \<open>Request middlewares\<close>

text \<open>
  \<^verbatim>\<open>TenantMiddleware\<close> of the CQRS pipeline.  The two ways to copy a message with a tenant, \<^verbatim>\<open>model_copy\<close> and
  rebuilding it from its \<^verbatim>\<open>__dict__\<close>, are parameters; \<^const>\<open>None\<close>: the message has no such attribute.
\<close>

record 'm tenant_middleware =
  tm_resolver :: "'m resolver"
  tm_resolver_name :: string
  tm_allow_anonymous :: bool
  tm_inject :: bool
  tm_model_copy :: "'m \<Rightarrow> (string \<Rightarrow> exn + 'm) option"
  tm_rebuild :: "'m \<Rightarrow> (string \<Rightarrow> exn + 'm) option"

definition resolve_tenant :: "'m resolver \<Rightarrow> 'm \<Rightarrow> string option" where
  "resolve_tenant r message = (case r message of Inl e \<Rightarrow> None | Inr t \<Rightarrow> t)"

definition try_copy :: "(string \<Rightarrow> exn + 'm) option \<Rightarrow> string \<Rightarrow> 'm option" where
  "try_copy f t = (case f of None \<Rightarrow> None | Some g \<Rightarrow> (case g t of Inl e \<Rightarrow> None | Inr m \<Rightarrow> Some m))"

definition inject_tenant :: "'m tenant_middleware \<Rightarrow> 'm \<Rightarrow> string option \<Rightarrow> 'm" where
  "inject_tenant mw message tenant_id =
     (case tenant_id of
        None \<Rightarrow> message
      | Some t \<Rightarrow>
          if \<not> tm_inject mw then message
          else (case try_copy (tm_model_copy mw message) t of
                  Some m \<Rightarrow> m
                | None \<Rightarrow> (case try_copy (tm_rebuild mw message) t of Some m \<Rightarrow> m | None \<Rightarrow> message)))"

definition tenant_middleware_call ::
  "'m tenant_middleware \<Rightarrow> 'm \<Rightarrow> ('m \<Rightarrow> ('w, 'a) action) \<Rightarrow> ('w, 'a) action" where
  "tenant_middleware_call mw message next_handler ctx w =
     (let tenant_id = resolve_tenant (tm_resolver mw) message;
          body = next_handler (inject_tenant mw message tenant_id)
      in case tenant_id of
           None \<Rightarrow>
             if \<not> tm_allow_anonymous mw
             then (ctx, w, Inl (TenantContextMissingError
               (''Tenant could not be resolved from message. Resolver: '' @ tm_resolver_name mw)))
             else body ctx w
         | Some t \<Rightarrow> set_run_reset t body ctx w)"

definition injection_middleware :: "'m tenant_middleware \<Rightarrow> 'm tenant_middleware" where
  "injection_middleware mw = mw\<lparr>tm_inject := True\<rparr>"

text \<open>The middlewares of the web application answer with a response.\<close>

datatype 'r web_response = JSONResponse nat string | Passed 'r

record 'q web_middleware =
  wm_resolver :: "'q resolver"
  wm_public_paths :: "string list"
  wm_allow_anonymous :: bool

definition is_public :: "string list \<Rightarrow> string \<Rightarrow> bool" where
  "is_public public_paths path \<longleftrightarrow>
     path \<in> set public_paths \<or>
     list_ex (\<lambda>p. suffix ''*'' p \<and> prefix (butlast p) path) public_paths"

definition error_response :: "(exn \<Rightarrow> string) \<Rightarrow> exn \<Rightarrow> 'r web_response" where
  "error_response str e =
     (case e of TenantContextMissingError m \<Rightarrow> JSONResponse 400 (str e)
      | _ \<Rightarrow> JSONResponse 500 ''Internal server error'')"

text \<open>What \<^verbatim>\<open>call_next\<close> raises is turned into a response inside the \<^verbatim>\<open>try\<close>, before the token is reset.\<close>

definition web_dispatch ::
  "(exn \<Rightarrow> string) \<Rightarrow> 'q web_middleware \<Rightarrow> ('q \<Rightarrow> string) \<Rightarrow> 'q \<Rightarrow> ('q \<Rightarrow> ('w, 'r) action) \<Rightarrow>
     ('w, 'r web_response) action" where
  "web_dispatch str mw path request call_next ctx w =
     (if is_public (wm_public_paths mw) (path request)
      then (case call_next request ctx w of (c, w', r) \<Rightarrow> (c, w', map_sum id Passed r))
      else
        let answer = (\<lambda>r. case r of Inl e \<Rightarrow> Inr (error_response str e) | Inr x \<Rightarrow> Inr (Passed x))
        in case resolve_tenant (wm_resolver mw) request of
             None \<Rightarrow>
               if \<not> wm_allow_anonymous mw then (ctx, w, Inr (JSONResponse 400 ''Tenant context required''))
               else (case call_next request ctx w of (c, w', r) \<Rightarrow> (c, w', answer r))
           | Some t \<Rightarrow> (case set_run_reset t (call_next request) ctx w of (c, w', r) \<Rightarrow> (c, w', answer r)))"

text \<open>\<^verbatim>\<open>TenantContextMiddleware\<close>: exceptions pass, and the variable is cleared at the end.\<close>

definition simple_dispatch ::
  "'q web_middleware \<Rightarrow> ('q \<Rightarrow> string) \<Rightarrow> 'q \<Rightarrow> ('q \<Rightarrow> ('w, 'r) action) \<Rightarrow> ('w, 'r web_response) action" where
  "simple_dispatch mw path request call_next ctx w =
     (if is_public (wm_public_paths mw) (path request)
      then (case call_next request ctx w of (c, w', r) \<Rightarrow> (c, w', map_sum id Passed r))
      else case wm_resolver mw request of
             Inl e \<Rightarrow> (clear_tenant ctx, w, Inl e)
           | Inr None \<Rightarrow>
               if \<not> wm_allow_anonymous mw
               then (clear_tenant ctx, w, Inr (JSONResponse 400 ''Tenant context required''))
               else (case call_next request ctx w of (c, w', r) \<Rightarrow> (clear_tenant c, w', map_sum id Passed r))
           | Inr (Some t) \<Rightarrow>
               (case set_tenant t ctx of
                  Inl e \<Rightarrow> (clear_tenant ctx, w, Inl e)
                | Inr (ctx', tok) \<Rightarrow>
                    (case call_next request ctx' w of (c, w', r) \<Rightarrow> (clear_tenant c, w', map_sum id Passed r))))"

definition current_tenant_dep :: "tenant_ctx \<Rightarrow> string web_response" where
  "current_tenant_dep ctx =
     (case get_current_tenant ctx of Inl e \<Rightarrow> JSONResponse 400 ''Tenant context required'' | Inr t \<Rightarrow> Passed t)"

section \<open>Workers, brokers and projections\<close>

definition tenant_job_worker ::
  "('j \<Rightarrow> (string, string) dict) \<Rightarrow> string \<Rightarrow> ('j \<Rightarrow> ('w, 'a) action) \<Rightarrow> 'j \<Rightarrow> ('w, 'a) action" where
  "tenant_job_worker metadata key handler job ctx w =
     (case map_of (metadata job) key of
        None \<Rightarrow> handler job ctx w
      | Some tenant_id \<Rightarrow> set_run_reset tenant_id (handler job) ctx w)"

definition inject_tenant_to_message ::
  "tenant_ctx \<Rightarrow> 'b \<Rightarrow> (string, string) dict option \<Rightarrow> string \<Rightarrow> 'b \<times> (string, string) dict" where
  "inject_tenant_to_message ctx message headers tenant_header =
     (let hs = (case headers of None \<Rightarrow> [] | Some hs \<Rightarrow> hs)
      in case get_current_tenant_or_none ctx of
           None \<Rightarrow> (message, hs)
         | Some tenant_id \<Rightarrow> (message, AList.update tenant_header tenant_id hs))"

definition extract_tenant_from_message :: "(string, string) dict \<Rightarrow> string \<Rightarrow> string option" where
  "extract_tenant_from_message headers tenant_header = map_of headers tenant_header"

definition with_tenant_from_message ::
  "string \<Rightarrow> ('b \<Rightarrow> (string, string) dict \<Rightarrow> ('w, 'a) action) \<Rightarrow> 'b \<Rightarrow> (string, string) dict \<Rightarrow> ('w, 'a) action" where
  "with_tenant_from_message tenant_header func message headers ctx w =
     (case extract_tenant_from_message headers tenant_header of
        None \<Rightarrow> func message headers ctx w
      | Some tenant_id \<Rightarrow> set_run_reset tenant_id (func message headers) ctx w)"

text \<open>
  The projection wrappers save the value and write it back with \<^verbatim>\<open>set_tenant\<close> or \<^verbatim>\<open>clear_tenant\<close>; a
  \<^verbatim>\<open>set_tenant\<close> that raises in the \<^verbatim>\<open>finally\<close> replaces the result.
\<close>

definition set_run_restore :: "string \<Rightarrow> ('w, 'a) action \<Rightarrow> ('w, 'a) action" where
  "set_run_restore t act ctx w =
     (case set_tenant t ctx of
        Inl e \<Rightarrow> (ctx, w, Inl e)
      | Inr (ctx', tok) \<Rightarrow>
          (case act ctx' w of (c, w', r) \<Rightarrow>
             (case get_current_tenant_or_none ctx of
                None \<Rightarrow> (clear_tenant c, w', r)
              | Some p \<Rightarrow> (case set_tenant p c of Inl e \<Rightarrow> (c, w', Inl e) | Inr (c', _) \<Rightarrow> (c', w', r)))))"

text \<open>An event, as the wrappers see it: its attribute and its metadata entry, with \<^verbatim>\<open>str\<close> applied.\<close>

record tenant_event =
  te_attr :: "string option"
  te_metadata :: "string option"

definition extract_tenant_from_event :: "tenant_event \<Rightarrow> string option" where
  "extract_tenant_from_event e = (case te_attr e of Some t \<Rightarrow> Some t | None \<Rightarrow> te_metadata e)"

definition projection_handle :: "bool \<Rightarrow> (tenant_event \<Rightarrow> ('w, 'a) action) \<Rightarrow> tenant_event \<Rightarrow> ('w, 'a) action" where
  "projection_handle skip_system_events inner event ctx w =
     (case extract_tenant_from_event event of
        None \<Rightarrow> inner event ctx w
      | Some t \<Rightarrow> if skip_system_events \<and> t = SYSTEM_TENANT then inner event ctx w
                  else set_run_restore t (inner event) ctx w)"

definition registry_handlers ::
  "bool \<Rightarrow> (string \<Rightarrow> (tenant_event \<Rightarrow> ('w, 'a) action) list) \<Rightarrow> string \<Rightarrow> (tenant_event \<Rightarrow> ('w, 'a) action) list" where
  "registry_handlers skip inner event_type = map (projection_handle skip) (inner event_type)"

definition worker_dispatch ::
  "(tenant_event \<Rightarrow> tenant_event \<Rightarrow> ('w, 'a) action) \<Rightarrow> tenant_event \<Rightarrow> tenant_event \<Rightarrow> ('w, 'a) action" where
  "worker_dispatch dispatch event stored ctx w =
     (case (case extract_tenant_from_event stored of Some t \<Rightarrow> Some t | None \<Rightarrow> extract_tenant_from_event event) of
        None \<Rightarrow> dispatch event stored ctx w
      | Some t \<Rightarrow> set_run_restore t (dispatch event stored) ctx w)"

definition replay_dispatch ::
  "(tenant_event \<Rightarrow> tenant_event \<Rightarrow> ('w, 'a) action) \<Rightarrow> tenant_event \<Rightarrow> tenant_event \<Rightarrow> ('w, 'a) action" where
  "replay_dispatch dispatch stored domain_event ctx w =
     (case (case extract_tenant_from_event stored of Some t \<Rightarrow> Some t | None \<Rightarrow> extract_tenant_from_event domain_event) of
        None \<Rightarrow> dispatch stored domain_event ctx w
      | Some t \<Rightarrow> set_run_restore t (dispatch stored domain_event) ctx w)"

section \<open>Isolation strategies\<close>

datatype isolation_strategy = DISCRIMINATOR_COLUMN | SCHEMA_PER_TENANT | DATABASE_PER_TENANT

definition requires_postgresql :: "isolation_strategy \<Rightarrow> bool" where
  "requires_postgresql s \<longleftrightarrow> s = SCHEMA_PER_TENANT"

definition requires_connection_routing :: "isolation_strategy \<Rightarrow> bool" where
  "requires_connection_routing s \<longleftrightarrow> s = SCHEMA_PER_TENANT \<or> s = DATABASE_PER_TENANT"

record isolation_config =
  ic_strategy :: isolation_strategy
  ic_tenant_column :: string
  ic_schema_prefix :: string
  ic_database_prefix :: string
  ic_default_schema :: string
  ic_allow_cross_tenant :: bool

definition default_isolation :: isolation_config where
  "default_isolation =
     \<lparr>ic_strategy = DISCRIMINATOR_COLUMN, ic_tenant_column = ''tenant_id'', ic_schema_prefix = ''tenant_'',
      ic_database_prefix = ''tenant_'', ic_default_schema = ''public'', ic_allow_cross_tenant = False\<rparr>"

definition get_schema_name :: "isolation_config \<Rightarrow> string \<Rightarrow> string" where
  "get_schema_name cfg tenant_id = ic_schema_prefix cfg @ tenant_id"

definition get_database_name :: "isolation_config \<Rightarrow> string \<Rightarrow> string" where
  "get_database_name cfg tenant_id = ic_database_prefix cfg @ tenant_id"

definition get_search_path :: "isolation_config \<Rightarrow> string \<Rightarrow> string" where
  "get_search_path cfg tenant_id = get_schema_name cfg tenant_id @ '', '' @ ic_default_schema cfg"

definition validate_for_strategy :: "isolation_config \<Rightarrow> exn + unit" where
  "validate_for_strategy cfg =
     (case ic_strategy cfg of
        DISCRIMINATOR_COLUMN \<Rightarrow>
          if ic_tenant_column cfg = []
          then Inl (ValueError ''tenant_column must be specified for DISCRIMINATOR_COLUMN strategy'') else Inr ()
      | SCHEMA_PER_TENANT \<Rightarrow>
          if ic_schema_prefix cfg = []
          then Inl (ValueError ''schema_prefix must be specified for SCHEMA_PER_TENANT strategy'') else Inr ()
      | DATABASE_PER_TENANT \<Rightarrow>
          if ic_database_prefix cfg = []
          then Inl (ValueError ''database_prefix must be specified for DATABASE_PER_TENANT strategy'') else Inr ())"

record routing_info =
  ri_tenant_id :: string
  ri_strategy :: isolation_strategy
  ri_schema_name :: "string option"
  ri_database_name :: "string option"
  ri_search_path :: "string option"

definition routing_from_config :: "string \<Rightarrow> isolation_config \<Rightarrow> routing_info" where
  "routing_from_config tenant_id cfg =
     (let base = \<lparr>ri_tenant_id = tenant_id, ri_strategy = ic_strategy cfg, ri_schema_name = None,
                  ri_database_name = None, ri_search_path = None\<rparr>
      in case ic_strategy cfg of
           SCHEMA_PER_TENANT \<Rightarrow> base\<lparr>ri_schema_name := Some (get_schema_name cfg tenant_id),
                                     ri_search_path := Some (get_search_path cfg tenant_id)\<rparr>
         | DATABASE_PER_TENANT \<Rightarrow> base\<lparr>ri_database_name := Some (get_database_name cfg tenant_id)\<rparr>
         | DISCRIMINATOR_COLUMN \<Rightarrow> base)"

text \<open>\<^verbatim>\<open>MultitenantMixin\<close>: the field constraint and the ownership check.\<close>

definition tenant_field_ok :: "string \<Rightarrow> bool" where
  "tenant_field_ok tenant_id \<longleftrightarrow> 1 \<le> length tenant_id \<and> length tenant_id \<le> 128"

definition validate_tenant :: "string \<Rightarrow> string \<Rightarrow> exn + unit" where
  "validate_tenant tenant_id expected_tenant =
     (if tenant_id \<noteq> expected_tenant
      then Inl (ValueError (''Entity tenant_id '' @ quoted tenant_id @ '' does not match expected tenant '' @ quoted expected_tenant))
      else Inr ())"

section \<open>Tenant specifications\<close>

definition create_tenant_specification :: "string \<Rightarrow> string \<Rightarrow> 'o spec" where
  "create_tenant_specification tenant_id tenant_column = AttributeSpecification (PStr tenant_column) EQ (PStr tenant_id)"

definition for_current_tenant :: "tenant_ctx \<Rightarrow> string \<Rightarrow> exn + 'o spec" where
  "for_current_tenant ctx tenant_column =
     map_sum id (\<lambda>t. create_tenant_specification t tenant_column) (get_current_tenant ctx)"

definition for_current_tenant_or_none :: "tenant_ctx \<Rightarrow> string \<Rightarrow> 'o spec option" where
  "for_current_tenant_or_none ctx tenant_column =
     map_option (\<lambda>t. create_tenant_specification t tenant_column) (get_current_tenant_or_none ctx)"

text \<open>\<open>Inr None\<close> is the pass-through specification, which every candidate satisfies.\<close>

definition with_tenant_filter ::
  "tenant_ctx \<Rightarrow> 'o spec option \<Rightarrow> string \<Rightarrow> string option \<Rightarrow> exn + 'o spec option" where
  "with_tenant_filter ctx spec tenant_column tenant_id =
     (if is_system_tenant ctx then Inr spec
      else case (case tenant_id of Some t \<Rightarrow> Inr t | None \<Rightarrow> get_current_tenant ctx) of
             Inl e \<Rightarrow> Inl e
           | Inr t \<Rightarrow>
               (let tenant_spec = create_tenant_specification t tenant_column
                in case spec of None \<Rightarrow> Inr (Some tenant_spec) | Some s \<Rightarrow> Inr (Some (AndSpecification [tenant_spec, s]))))"

definition build_tenant_filter_dict :: "tenant_ctx \<Rightarrow> string option \<Rightarrow> string \<Rightarrow> (string \<times> 'o pyval) list" where
  "build_tenant_filter_dict ctx tenant_id tenant_column =
     (case (case tenant_id of Some t \<Rightarrow> Some t | None \<Rightarrow> get_current_tenant_or_none ctx) of
        None \<Rightarrow> []
      | Some t \<Rightarrow> [(''attr'', PStr tenant_column), (''op'', PStr ''=''), (''val'', PStr t)])"

text \<open>\<^verbatim>\<open>MetadataTenantSpecification.is_satisfied_by\<close>: the attribute, \<^verbatim>\<open>metadata\<close>, then \<^verbatim>\<open>_metadata\<close>.\<close>

definition metadata_tenant :: "'o request_host \<Rightarrow> 'o pyval \<Rightarrow> string \<Rightarrow> string \<Rightarrow> 'o pyval" where
  "metadata_tenant rh candidate name key =
     (case attr_or_none rh candidate name of PDict md \<Rightarrow> dget md key | _ \<Rightarrow> PNone)"

definition metadata_spec_satisfied :: "'o request_host \<Rightarrow> string \<Rightarrow> string \<Rightarrow> string option \<Rightarrow> 'o pyval \<Rightarrow> bool" where
  "metadata_spec_satisfied rh tenant_id tenant_column metadata_key candidate =
     (let key = (if truthy metadata_key then the metadata_key else tenant_column);
          val = attr_or_none rh candidate tenant_column;
          mval = metadata_tenant rh candidate ''metadata'' key;
          pval = metadata_tenant rh candidate ''_metadata'' key
      in if val \<noteq> PNone then py_eq val (PStr tenant_id)
         else if mval \<noteq> PNone then py_eq mval (PStr tenant_id)
         else if pval \<noteq> PNone then py_eq pval (PStr tenant_id)
         else False)"

definition metadata_spec_to_dict :: "string \<Rightarrow> string \<Rightarrow> (string \<times> 'o pyval) list" where
  "metadata_spec_to_dict tenant_id tenant_column =
     [(''attr'', PStr tenant_column), (''op'', PStr ''eq''), (''val'', PStr tenant_id)]"

section \<open>Valid tenants\<close>

definition valid_tenant :: "string \<Rightarrow> bool" where
  "valid_tenant t \<longleftrightarrow> 1 \<le> length t \<and> length t \<le> 128 \<and> list_all tenant_char t"

definition ctx_ok :: "tenant_ctx \<Rightarrow> bool" where
  "ctx_ok ctx \<longleftrightarrow> (case ctx of None \<Rightarrow> True | Some t \<Rightarrow> valid_tenant t)"

lemma system_tenant_valid [simp]: "valid_tenant SYSTEM_TENANT"
  by (simp add: valid_tenant_def SYSTEM_TENANT_def tenant_char_def isalnum_def)

lemma set_tenant_valid: "valid_tenant t \<Longrightarrow> set_tenant t ctx = Inr (Some t, ctx)"
  by (auto simp: set_tenant_def valid_tenant_def)

lemma set_tenant_invalid:
  assumes "\<not> valid_tenant t" obtains m where "set_tenant t ctx = Inl (ValueError m)"
proof -
  have "t \<noteq> SYSTEM_TENANT" using assms system_tenant_valid by blast
  then have "\<exists>m. set_tenant t ctx = Inl (ValueError m)"
    using assms by (cases t) (auto simp: set_tenant_def valid_tenant_def)
  then show thesis using that by blast
qed

lemma valid_tenant_ne [simp]: "valid_tenant t \<Longrightarrow> t \<noteq> []"
  by (auto simp: valid_tenant_def)

lemma valid_tenant_chars: "valid_tenant t \<Longrightarrow> c \<in> set t \<Longrightarrow> tenant_char c"
  by (auto simp: valid_tenant_def list_all_iff)

lemma separator_not_in_tenant:
  assumes "valid_tenant t" shows "CHR '':'' \<notin> set t" "CHR '','' \<notin> set t" "CHR ''.'' \<notin> set t" "CHR ''/'' \<notin> set t"
  using assms
  by (auto dest!: valid_tenant_chars simp: tenant_char_def isalnum_def)

lemma tenant_char_code:
  "tenant_char c \<longleftrightarrow> of_char c \<in> {45, 95} \<union> {48..57} \<union> {65..90} \<union> {97..122} \<union> {170, 178, 179, 181, 185, 186, 188, 189, 190 :: nat}
     \<union> ({192..255} - {215, 247})"
proof -
  have "of_char c < (256 :: nat)" by simp
  then have "of_char c \<le> (255 :: nat)" by linarith
  moreover have "of_char (CHR ''-'') = (45 :: nat)" "of_char (CHR ''_'') = (95 :: nat)" by simp_all
  then have "c = CHR ''-'' \<longleftrightarrow> of_char c = (45 :: nat)" "c = CHR ''_'' \<longleftrightarrow> of_char c = (95 :: nat)"
    by (metis of_char_eq_iff)+
  ultimately show ?thesis by (auto simp: tenant_char_def isalnum_def Let_def)
qed

text \<open>
  C35: which tenant identifiers the context accepts: those of 1 to 128 characters, each of them a hyphen, an underscore or, by its
  code point, one of the digits, ASCII and Latin-1 letters, ordinals, superscripts and fractions that \<^verbatim>\<open>str.isalnum\<close> takes.  The
  identifier becomes the context and the context of before the token; everything else is a \<^verbatim>\<open>ValueError\<close>.  The exemption of the
  system tenant from the checks changes nothing.
\<close>

theorem set_tenant_bounds:
  "if 1 \<le> length t \<and> length t \<le> 128 \<and>
      list_all (\<lambda>c. of_char c \<in> {45, 95} \<union> {48..57} \<union> {65..90} \<union> {97..122} \<union> {170, 178, 179, 181, 185, 186, 188, 189, 190 :: nat}
         \<union> ({192..255} - {215, 247})) t
   then set_tenant t ctx = Inr (Some t, ctx)
   else (\<exists>m. set_tenant t ctx = Inl (ValueError m))"
  unfolding tenant_char_code [symmetric] valid_tenant_def [symmetric]
  using set_tenant_valid [of t ctx] set_tenant_invalid [of t ctx] by metis

section \<open>Scopes\<close>

text \<open>
  A tenant scope runs an action under a tenant: it enters with a valid tenant and shows the action that
  tenant, whatever the caller's context is; it refuses any other identifier before the action runs; and it
  leaves the caller's context as it was.
\<close>

locale tenant_scope =
  fixes scope :: "string \<Rightarrow> ('w, 'a) action \<Rightarrow> ('w, 'a) action"
  assumes enter: "valid_tenant t \<Longrightarrow> ctx_ok ctx \<Longrightarrow> scope t act ctx w = (ctx, snd (act (Some t) w))"
    and refuse: "\<not> valid_tenant t \<Longrightarrow> ctx_ok ctx \<Longrightarrow> \<exists>m. scope t act ctx w = (ctx, w, Inl (ValueError m))"
begin

lemma restores: "ctx_ok ctx \<Longrightarrow> fst (scope t act ctx w) = ctx"
  by (cases "valid_tenant t") (auto simp: enter dest: refuse [where act = act and w = w])

lemma caller_context_hidden:
  assumes "valid_tenant t" "ctx_ok ctx" "ctx_ok ctx'"
  shows "snd (scope t act ctx w) = snd (scope t act ctx' w)"
  using assms by (simp add: enter)

lemma innermost_wins:
  assumes "valid_tenant t" "valid_tenant u" "ctx_ok ctx"
  shows "scope t (scope u act) ctx w = scope u act ctx w"
  using assms by (simp add: enter ctx_ok_def)

end

lemma reset_after_run: "valid_tenant t \<Longrightarrow> set_run_reset t act ctx w = (ctx, snd (act (Some t) w))"
  by (simp add: set_run_reset_def set_tenant_valid reset_tenant_def split: prod.split)

lemma copy_after_run: "valid_tenant t \<Longrightarrow> run_in_tenant_context t act ctx w = (ctx, snd (act (Some t) w))"
  by (simp add: run_in_tenant_context_def set_tenant_valid split: prod.split)

lemma restore_after_run:
  assumes "valid_tenant t" "ctx_ok ctx"
  shows "set_run_restore t act ctx w = (ctx, snd (act (Some t) w))"
  using assms
  by (cases ctx)
    (simp_all add: set_run_restore_def set_tenant_valid get_current_tenant_or_none_def clear_tenant_def ctx_ok_def
      split: prod.split)

lemma scopes_refuse:
  assumes "\<not> valid_tenant t"
  shows "\<exists>m. set_run_reset t act ctx w = (ctx, w, Inl (ValueError m))"
    and "\<exists>m. set_run_restore t act ctx w = (ctx, w, Inl (ValueError m))"
    and "\<exists>m. run_in_tenant_context t act ctx w = (ctx, w, Inl (ValueError m))"
  by (rule set_tenant_invalid [OF assms, of ctx];
      simp add: set_run_reset_def set_run_restore_def run_in_tenant_context_def)+

interpretation reset_scope: tenant_scope set_run_reset
  by unfold_locales (simp_all add: reset_after_run scopes_refuse)

interpretation restore_scope: tenant_scope set_run_restore
  by unfold_locales (simp_all add: restore_after_run scopes_refuse)

interpretation copy_scope: tenant_scope run_in_tenant_context
  by unfold_locales (simp_all add: copy_after_run scopes_refuse)

lemmas scope_defs =
  system_operation_def with_tenant_context_def propagate_tenant_context_def tenant_middleware_call_def
  tenant_job_worker_def with_tenant_from_message_def projection_handle_def worker_dispatch_def replay_dispatch_def

text \<open>
  C13: the wrappers around tenant-scoped code (the message middleware, system operations, the context manager, the
  copied context, the propagating wrapper, the job worker, the message consumer, the projection handler, worker and replay) run the
  code under their tenant and give the caller its own context back, whatever the code did to the variable
  and whether it returned or raised.  The HTTP middleware is none of them: it clears the context at its end.
\<close>

theorem scoped_code_sees_its_tenant:
  assumes "valid_tenant t" "ctx_ok ctx"
    and "resolve_tenant (tm_resolver mw) m = Some t" "map_of (metadata job) key = Some t"
    and "map_of headers tenant_header = Some t" "extract_tenant_from_event e = Some t"
  shows "tenant_middleware_call mw m next_handler ctx w = (ctx, snd (next_handler (inject_tenant mw m (Some t)) (Some t) w))
    \<and> system_operation func ctx w = (ctx, snd (func (Some SYSTEM_TENANT) w))
    \<and> with_tenant_context t body ctx w = (ctx, snd (body t (Some t) w))
    \<and> run_in_tenant_context t func ctx w = (ctx, snd (func (Some t) w))
    \<and> propagate_tenant_context (Some t) func None ctx w = (ctx, snd (func (Some t) w))
    \<and> tenant_job_worker metadata key handler job ctx w = (ctx, snd (handler job (Some t) w))
    \<and> with_tenant_from_message tenant_header consumer msg headers ctx w = (ctx, snd (consumer msg headers (Some t) w))
    \<and> (projection_handle skip inner e ctx w =
         (if skip \<and> t = SYSTEM_TENANT then inner e ctx w else (ctx, snd (inner e (Some t) w))))
    \<and> worker_dispatch dispatch d e ctx w = (ctx, snd (dispatch d e (Some t) w))
    \<and> replay_dispatch redispatch e d ctx w = (ctx, snd (redispatch e d (Some t) w))"
  using assms
  by (simp add: scope_defs reset_scope.enter restore_scope.enter copy_scope.enter get_current_tenant_or_none_def
      extract_tenant_from_message_def Let_def)

text \<open>A handler that records the tenant it sees and leaves another one in the variable.\<close>

definition leaky :: "'x \<Rightarrow> (string option list, unit) action" where
  "leaky x ctx seen = (Some ''other'', seen @ [ctx], Inl (Other ''boom''))"

definition ex_middleware :: "string tenant_middleware" where
  "ex_middleware = \<lparr>tm_resolver = (\<lambda>m. Inr (Some m)), tm_resolver_name = ''CallableResolver'',
     tm_allow_anonymous = False, tm_inject = False, tm_model_copy = (\<lambda>_. None), tm_rebuild = (\<lambda>_. None)\<rparr>"

lemma valid_acme: "valid_tenant ''acme'' \<and> ctx_ok (Some ''acme'') \<and> ctx_ok None"
  by (simp add: valid_tenant_def ctx_ok_def tenant_char_def isalnum_def)

theorem scoped_code_sees_its_tenant_witness:
  "tenant_middleware_call ex_middleware ''acme'' leaky (Some ''acme'') [] = (Some ''acme'', [Some ''acme''], Inl (Other ''boom''))"
proof -
  have "tenant_middleware_call ex_middleware ''acme'' leaky (Some ''acme'') [] =
      (Some ''acme'', snd (leaky (inject_tenant ex_middleware ''acme'' (Some ''acme'')) (Some ''acme'') []))"
    by (rule conjunct1 [OF scoped_code_sees_its_tenant
      [where metadata = "\<lambda>_. [(''tenant_id'', ''acme'')]" and job = "()" and key = "''tenant_id''"
        and headers = "[(''x-tenant-id'', ''acme'')]" and tenant_header = "''x-tenant-id''"
        and e = "\<lparr>te_attr = None, te_metadata = Some ''acme''\<rparr>"]])
      (simp_all add: valid_acme ex_middleware_def resolve_tenant_def extract_tenant_from_event_def)
  then show ?thesis by (simp add: leaky_def)
qed

section \<open>Resolution\<close>

lemma map_filter_Cons: "List.map_filter f (x # xs) = (case f x of None \<Rightarrow> [] | Some y \<Rightarrow> [y]) @ List.map_filter f xs"
  by (simp add: List.map_filter_def split: option.splits)

text \<open>
  a composite resolver never raises: it answers with the first tenant that one of its resolvers finds,
  in their order, and skips those that raise.
\<close>

theorem composite_first_answer:
  "composite_resolve rs m =
     Inr (case List.map_filter (\<lambda>r. resolve_tenant r m) rs of [] \<Rightarrow> None | t # ts \<Rightarrow> Some t)"
  by (induction rs)
    (auto simp: map_filter_Cons resolve_tenant_def List.map_filter_def split: sum.splits option.splits)

lemma header_resolve_header:
  assumes "extract_headers rh m = headers" "headers \<noteq> PNone" "getter_of rh headers = Some g"
    and "g name = PStr s" "s \<noteq> []"
  shows "header_resolve rh name m = Inr (Some (strip s))"
  using assms by (simp add: header_resolve_def get_header_value_def py_str_def Let_def)

text \<open>
  nothing stops a request from naming the system tenant: with a header resolver, a request whose
  tenant header is \<^verbatim>\<open>__system__\<close> runs its handler in the system context, which every tenant filter lets pass.
\<close>

theorem header_selects_system_tenant:
  assumes "tm_resolver mw = header_resolve rh name" "extract_headers rh m = headers" "headers \<noteq> PNone"
    and "getter_of rh headers = Some g" "g name = PStr ''__system__''"
  shows "tenant_middleware_call mw m next_handler ctx w =
           (ctx, snd (next_handler (inject_tenant mw m (Some SYSTEM_TENANT)) (Some SYSTEM_TENANT) w))
         \<and> is_system_tenant (Some SYSTEM_TENANT)"
proof -
  have "strip ''__system__'' = SYSTEM_TENANT" by (simp add: strip_def is_space_def SYSTEM_TENANT_def)
  then have "resolve_tenant (tm_resolver mw) m = Some SYSTEM_TENANT"
    using header_resolve_header [OF assms(2-5)] assms(1) by (simp add: resolve_tenant_def)
  then show ?thesis
    by (simp add: tenant_middleware_call_def Let_def reset_after_run is_system_tenant_def)
qed

definition ex_request_host :: "unit request_host" where
  "ex_request_host = \<lparr>rh_attr = (\<lambda>_ _. None), rh_get = (\<lambda>_. None), rh_host = ex_host\<rparr>"

definition ex_header_middleware :: "unit pyval tenant_middleware" where
  "ex_header_middleware =
     \<lparr>tm_resolver = header_resolve ex_request_host ''X-Tenant-ID'', tm_resolver_name = ''HeaderResolver'',
      tm_allow_anonymous = True, tm_inject = False, tm_model_copy = (\<lambda>_. None), tm_rebuild = (\<lambda>_. None)\<rparr>"

theorem header_selects_system_tenant_witness:
  "tenant_middleware_call ex_header_middleware
     (PDict [(''headers'', PDict [(''X-Tenant-ID'', PStr ''__system__'')])]) leaky (Some ''acme'') [] =
   (Some ''acme'', [Some ''__system__''], Inl (Other ''boom''))"
proof -
  let ?hs = "[(''X-Tenant-ID'', PStr ''__system__'')] :: (string \<times> unit pyval) list"
  have "tenant_middleware_call ex_header_middleware (PDict [(''headers'', PDict ?hs)]) leaky (Some ''acme'') [] =
      (Some ''acme'', snd (leaky (inject_tenant ex_header_middleware (PDict [(''headers'', PDict ?hs)]) (Some SYSTEM_TENANT))
         (Some SYSTEM_TENANT) []))"
    using header_selects_system_tenant
      [where mw = ex_header_middleware and rh = ex_request_host and name = "''X-Tenant-ID''"
        and m = "PDict [(''headers'', PDict ?hs)]" and headers = "PDict ?hs" and g = "dget ?hs"
        and next_handler = leaky and ctx = "Some ''acme''" and w = "[]"]
    by (simp add: ex_header_middleware_def ex_request_host_def extract_headers_def getter_of_def dget_def Let_def)
  then show ?thesis by (simp add: leaky_def SYSTEM_TENANT_def)
qed

text \<open>
  a header of spaces resolves to the empty string, which is not \<^verbatim>\<open>None\<close>: the middleware raises the
  \<^verbatim>\<open>ValueError\<close> of the context even when it is configured to let requests without a tenant pass.
\<close>

theorem blank_header_is_no_anonymous_request:
  assumes "tm_resolver mw = header_resolve rh name" "extract_headers rh m = headers" "headers \<noteq> PNone"
    and "getter_of rh headers = Some g" "g name = PStr s" "s \<noteq> []" "strip s = []"
  shows "tenant_middleware_call mw m next_handler ctx w = (ctx, w, Inl (ValueError ''tenant_id cannot be empty''))"
proof -
  have "resolve_tenant (tm_resolver mw) m = Some []"
    using header_resolve_header [OF assms(2-6)] assms(1,7) by (simp add: resolve_tenant_def)
  then show ?thesis
    by (simp add: tenant_middleware_call_def Let_def set_run_reset_def set_tenant_def)
qed

theorem blank_header_is_no_anonymous_request_witness:
  "tenant_middleware_call ex_header_middleware (PDict [(''X-Tenant-ID'', PStr '' '')]) leaky None [] =
   (None, [], Inl (ValueError ''tenant_id cannot be empty''))"
  by (rule blank_header_is_no_anonymous_request
      [where rh = ex_request_host and name = "''X-Tenant-ID''" and headers = "PDict [(''X-Tenant-ID'', PStr '' '')]"
        and g = "dget [(''X-Tenant-ID'', PStr '' '')]" and s = "'' ''"])
    (simp_all add: ex_header_middleware_def ex_request_host_def extract_headers_def getter_of_def dget_def Let_def
      strip_def is_space_def)

text \<open>
  the broker header carries the tenant: what a producer publishes in a tenant's context is
  consumed in that tenant's context, whatever other headers it has, and the consumer's own context comes back.
\<close>

theorem tenant_crosses_broker:
  assumes "valid_tenant t" "ctx_ok ctx"
  shows "with_tenant_from_message key consumer (fst (inject_tenant_to_message (Some t) body hs key))
           (snd (inject_tenant_to_message (Some t) body hs key)) ctx w =
         (ctx, snd (consumer body (AList.update key t (case hs of None \<Rightarrow> [] | Some d \<Rightarrow> d)) (Some t) w))"
  using assms
  by (simp add: with_tenant_from_message_def inject_tenant_to_message_def extract_tenant_from_message_def
      get_current_tenant_or_none_def reset_after_run Let_def AList.update_conv')

theorem tenant_crosses_broker_witness:
  "with_tenant_from_message ''x-tenant-id'' (\<lambda>_. leaky) (fst (inject_tenant_to_message (Some ''acme'') () None ''x-tenant-id''))
     (snd (inject_tenant_to_message (Some ''acme'') () None ''x-tenant-id'')) None [] =
   (None, [Some ''acme''], Inl (Other ''boom''))"
  using tenant_crosses_broker [where t = "''acme''" and ctx = None and key = "''x-tenant-id''" and consumer = "\<lambda>_. leaky"
      and body = "()" and hs = None and w = "[]"] valid_acme
  by (simp add: leaky_def)

section \<open>Specifications and routing\<close>

lemma py_eq_PStr [simp]: "py_eq x (PStr t) \<longleftrightarrow> x = PStr t"
  by (cases x) (auto simp: num_eq_def)

lemma tenant_spec_eval:
  assumes "EQ \<notin> fst ` set geometry"
  shows "is_satisfied_by h (build_default_registry h geometry) x (create_tenant_specification t col) =
           Inr (resolve_field h x col = PStr t)"
proof -
  have "reg_evaluate (build_default_registry h geometry) EQ = equal_op"
    by (rule default_lookup [OF assms]) (simp add: builtin_operators_def)
  then show ?thesis by (simp add: create_tenant_specification_def equal_op_def)
qed

text \<open>
  the specification that a query is filtered by: outside the system context it is the caller's own
  specification narrowed to the objects whose tenant column is the current tenant; without a context
  there is none, and the query raises.
\<close>

theorem tenant_filter_narrows:
  assumes "\<not> is_system_tenant ctx" "EQ \<notin> fst ` set geometry"
  shows "case ctx of
           None \<Rightarrow> \<exists>m. with_tenant_filter ctx spec col None = Inl (TenantContextMissingError m)
         | Some t \<Rightarrow> \<exists>s. with_tenant_filter ctx spec col None = Inr (Some s) \<and>
             (\<forall>x. is_satisfied_by h (build_default_registry h geometry) x s = Inr True \<longleftrightarrow>
                resolve_field h x col = PStr t \<and>
                (case spec of None \<Rightarrow> True | Some q \<Rightarrow> is_satisfied_by h (build_default_registry h geometry) x q = Inr True))"
  using assms
  by (auto simp: with_tenant_filter_def get_current_tenant_def tenant_spec_eval Let_def
      split: option.splits sum.splits if_splits)

theorem tenant_filter_narrows_witness:
  "\<exists>s. with_tenant_filter (Some ''acme'') None ''tenant_id'' None = Inr (Some s) \<and>
     (\<forall>x. is_satisfied_by ex_host (build_default_registry ex_host []) x s = Inr True \<longleftrightarrow>
        resolve_field ex_host x ''tenant_id'' = PStr ''acme'')"
  using tenant_filter_narrows [where ctx = "Some ''acme''" and spec = None and col = "''tenant_id''" and h = ex_host
      and geometry = "[]"]
  by (simp add: is_system_tenant_def SYSTEM_TENANT_def)

text \<open>
  tenant identifiers stay one name inside the names built from them: the search path of a valid
  tenant has exactly two entries, its own schema and the default one, and two tenants never share a
  schema or a database.
\<close>

theorem tenant_routes_disjoint:
  assumes "valid_tenant t" "valid_tenant u" "CHR '','' \<notin> set (ic_schema_prefix cfg)" "CHR '','' \<notin> set (ic_default_schema cfg)"
  shows "split_on (CHR '','') (get_search_path cfg t) = [get_schema_name cfg t, CHR '' '' # ic_default_schema cfg]
    \<and> (get_schema_name cfg t = get_schema_name cfg u \<longleftrightarrow> t = u)
    \<and> (get_database_name cfg t = get_database_name cfg u \<longleftrightarrow> t = u)"
proof -
  have c: "CHR '','' \<notin> set (get_schema_name cfg t)"
    using assms separator_not_in_tenant(2) [OF assms(1)] by (simp add: get_schema_name_def)
  show ?thesis
    using split_on_append [OF c, of "CHR '' '' # ic_default_schema cfg"] assms(4)
    by (simp add: get_search_path_def get_database_name_def get_schema_name_def split_on_no_sep)
qed

theorem tenant_routes_disjoint_witness:
  "split_on (CHR '','') (get_search_path default_isolation ''acme'') = [''tenant_acme'', '' public'']"
  using tenant_routes_disjoint [where t = "''acme''" and u = "''acme''" and cfg = default_isolation] valid_acme
  by (simp add: default_isolation_def get_schema_name_def)

end
