(* ===== verification/Scheduling.thy ===== *)
theory Scheduling
  imports Prelude
begin

text \<open>
  Command scheduling (advanced: adapters/memory/scheduling.py, scheduling/service.py and worker.py).

  The scheduler is a dictionary from schedule ids to entries.  Commands are values of type \<^typ>\<open>'c\<close>; the
  \<^verbatim>\<open>_metadata\<close> dictionary that user code may attach to one is a parameter.  Instants are UTC.  Sending a command
  through the mediator maps the rest of the program's state to its next value and may raise.
\<close>

section \<open>InMemoryCommandScheduler\<close>

record 'c scheduled_entry =
  sc_command :: 'c
  sc_execute_at :: time
  sc_description :: "string option"
  sc_tenant_id :: "string option"

type_synonym 'c scheduler = "(string, 'c scheduled_entry) dict"

text \<open>\<open>metadata\<close> is \<^verbatim>\<open>getattr(command, "_metadata", None) or {}\<close>.\<close>

definition schedule ::
  "('c \<Rightarrow> (string, string) dict) \<Rightarrow> string \<Rightarrow> 'c \<Rightarrow> time \<Rightarrow> string option \<Rightarrow> 'c scheduler \<Rightarrow> 'c scheduler \<times> string" where
  "schedule metadata fresh command execute_at description s =
     (let tenant_id = py_or (map_of (metadata command) ''_tenant_id'') (map_of (metadata command) ''tenant_id'')
      in (AList.update fresh
            \<lparr>sc_command = command, sc_execute_at = execute_at, sc_description = description, sc_tenant_id = tenant_id\<rparr> s,
          fresh))"

definition due_entries :: "time \<Rightarrow> 'c scheduled_entry spec_opt \<Rightarrow> 'c scheduler \<Rightarrow> 'c scheduler" where
  "due_entries now spec s =
     sort_key (\<lambda>(sid, e). sc_execute_at e) (filter (\<lambda>(sid, e). sc_execute_at e \<le> now \<and> satisfies spec e) s)"

definition get_due_commands :: "time \<Rightarrow> 'c scheduled_entry spec_opt \<Rightarrow> 'c scheduler \<Rightarrow> (string \<times> 'c) list" where
  "get_due_commands now spec s = map (\<lambda>(sid, e). (sid, sc_command e)) (due_entries now spec s)"

definition cancel_scheduled :: "string \<Rightarrow> 'c scheduler \<Rightarrow> 'c scheduler \<times> bool" where
  "cancel_scheduled schedule_id s =
     (if schedule_id \<in> set (dkeys s) then (AList.delete schedule_id s, True) else (s, False))"

definition delete_executed :: "string \<Rightarrow> 'c scheduler \<Rightarrow> 'c scheduler" where
  "delete_executed schedule_id s = AList.delete schedule_id s"

definition clear_schedule :: "'c scheduler \<Rightarrow> 'c scheduler" where
  "clear_schedule s = []"

definition scheduled_count :: "'c scheduler \<Rightarrow> nat" where
  "scheduled_count s = length s"

section \<open>CommandSchedulerService and CommandSchedulerWorker\<close>

type_synonym ('c, 'w) send_fn = "'c \<Rightarrow> 'w \<Rightarrow> 'w \<times> exn option"

text \<open>The loop of \<^verbatim>\<open>_process_due_commands_internal\<close>: an exception leaves the entry in the schedule.\<close>

fun dispatch_due :: "('c, 'w) send_fn \<Rightarrow> (string \<times> 'c) list \<Rightarrow> 'c scheduler \<Rightarrow> 'w \<Rightarrow> nat \<Rightarrow> 'c scheduler \<times> 'w \<times> nat" where
  "dispatch_due send [] s w n = (s, w, n)"
| "dispatch_due send ((schedule_id, command) # due) s w n =
     (case send command w of
        (w', None) \<Rightarrow> dispatch_due send due (delete_executed schedule_id s) w' (n + 1)
      | (w', Some e) \<Rightarrow> dispatch_due send due s w' n)"

definition process_due_commands :: "time \<Rightarrow> ('c, 'w) send_fn \<Rightarrow> 'c scheduler \<Rightarrow> 'w \<Rightarrow> 'c scheduler \<times> 'w \<times> nat" where
  "process_due_commands now send s w =
     (let due = get_due_commands now None s in if due = [] then (s, w, 0) else dispatch_due send due s w 0)"

record scheduler_worker =
  sw_running :: bool
  sw_trigger :: bool

definition worker_trigger :: "scheduler_worker \<Rightarrow> scheduler_worker" where
  "worker_trigger k = k\<lparr>sw_trigger := True\<rparr>"

definition worker_start :: "scheduler_worker \<Rightarrow> scheduler_worker" where
  "worker_start k = (if sw_running k then k else k\<lparr>sw_running := True\<rparr>)"

definition worker_stop :: "scheduler_worker \<Rightarrow> scheduler_worker" where
  "worker_stop k = k\<lparr>sw_running := False, sw_trigger := True\<rparr>"

text \<open>One turn of \<^verbatim>\<open>_run_loop\<close>, from the moment the wait ended, whether by the trigger or by the poll interval.\<close>

definition worker_turn ::
  "time \<Rightarrow> ('c, 'w) send_fn \<Rightarrow> scheduler_worker \<times> 'c scheduler \<times> 'w \<Rightarrow> scheduler_worker \<times> 'c scheduler \<times> 'w" where
  "worker_turn now send st =
     (case st of (k, s, w) \<Rightarrow>
        if \<not> sw_running k then (k, s, w)
        else (case process_due_commands now send s w of (s', w', n) \<Rightarrow> (k\<lparr>sw_trigger := False\<rparr>, s', w')))"

section \<open>What one round does\<close>

text \<open>What the mediator answers to each of a list of commands, sent one after the other.\<close>

fun send_outcomes :: "('c, 'w) send_fn \<Rightarrow> 'w \<Rightarrow> (string \<times> 'c) list \<Rightarrow> (string \<times> bool) list" where
  "send_outcomes send w [] = []"
| "send_outcomes send w ((i, c) # due) =
     (i, snd (send c w) = None) # send_outcomes send (fst (send c w)) due"

definition send_in_order :: "('c, 'w) send_fn \<Rightarrow> 'w \<Rightarrow> 'c list \<Rightarrow> 'w" where
  "send_in_order send w cs = fold (\<lambda>c w. fst (send c w)) cs w"

definition succeeded :: "(string \<times> bool) list \<Rightarrow> string list" where
  "succeeded out = map fst (filter snd out)"

lemma dispatch_due_settles:
  "dispatch_due send due s w n =
     (fold AList.delete (succeeded (send_outcomes send w due)) s, send_in_order send w (map snd due),
      n + length (succeeded (send_outcomes send w due)))"
  by (induction send due s w n rule: dispatch_due.induct)
    (auto simp: succeeded_def send_in_order_def delete_executed_def split: prod.splits option.splits)

lemma process_due_settles:
  "process_due_commands now send s w =
     (let out = send_outcomes send w (get_due_commands now None s)
      in (fold AList.delete (succeeded out) s, send_in_order send w (map snd (get_due_commands now None s)),
          length (succeeded out)))"
  by (cases "get_due_commands now None s")
    (simp_all add: process_due_commands_def Let_def dispatch_due_settles succeeded_def send_in_order_def del: dispatch_due.simps)

lemma map_of_fold_delete: "map_of (fold AList.delete ks d) k = (if k \<in> set ks then None else map_of d k)"
  by (induction ks arbitrary: d) (auto simp: AList.delete_conv')

lemma send_outcomes_keys: "map fst (send_outcomes send w due) = map fst due"
  by (induction send w due rule: send_outcomes.induct) auto

lemma due_entries_iff:
  assumes "dict_ok s"
  shows "(i, e) \<in> set (due_entries now spec s) \<longleftrightarrow> map_of s i = Some e \<and> sc_execute_at e \<le> now \<and> satisfies spec e"
  using assms by (auto simp: due_entries_def map_of_is_SomeI dest: map_of_SomeD)

lemma distinct_sort_keys: "distinct (map fst (sort_key f xs)) \<longleftrightarrow> distinct (map fst xs)"
  by (rule mset_eq_imp_distinct_iff) (simp add: mset_map)

lemma distinct_due: "dict_ok s \<Longrightarrow> distinct (map fst (due_entries now spec s))"
  using dict_ok_filter [of s] by (simp add: due_entries_def distinct_sort_keys)

text \<open>
  one round sends every due command once, in the order of their execution times, and settles the
  schedule: an entry leaves it exactly when its command was sent without an exception; a failing
  command stays scheduled for the next round and holds back no other; the count is what was removed.
\<close>

theorem due_commands_settled:
  assumes "dict_ok s" and due: "due = due_entries now None s"
    and out: "out = send_outcomes send w (map (\<lambda>(i, e). (i, sc_command e)) due)"
  shows "(\<forall>i e. (i, e) \<in> set due \<longleftrightarrow> map_of s i = Some e \<and> sc_execute_at e \<le> now)
    \<and> distinct (map fst due) \<and> sorted (map (\<lambda>(i, e). sc_execute_at e) due)
    \<and> (\<exists>s'. process_due_commands now send s w =
            (s', send_in_order send w (map (\<lambda>(i, e). sc_command e) due), length (filter snd out))
         \<and> (\<forall>i. map_of s' i = (if (i, True) \<in> set out then None else map_of s i)))"
proof -
  have cmds: "get_due_commands now None s = map (\<lambda>(i, e). (i, sc_command e)) due"
    by (simp add: get_due_commands_def due)
  have run: "process_due_commands now send s w =
      (fold AList.delete (succeeded out) s, send_in_order send w (map (\<lambda>(i, e). sc_command e) due), length (filter snd out))"
    by (simp add: process_due_settles Let_def out cmds comp_def case_prod_unfold succeeded_def)
  have "i \<in> set (succeeded out) \<longleftrightarrow> (i, True) \<in> set out" for i
    by (force simp: succeeded_def)
  then have "map_of (fold AList.delete (succeeded out) s) i = (if (i, True) \<in> set out then None else map_of s i)" for i
    by (simp add: map_of_fold_delete)
  moreover have "sorted (map (\<lambda>(i, e). sc_execute_at e) due)" by (simp add: due due_entries_def)
  moreover have "(i, e) \<in> set due \<longleftrightarrow> map_of s i = Some e \<and> sc_execute_at e \<le> now" for i e
    using due_entries_iff [OF assms(1)] by (simp add: due satisfies_def)
  ultimately show ?thesis
    using run distinct_due [OF assms(1)] unfolding due by blast
qed

definition ex_send :: "(string, string list) send_fn" where
  "ex_send c w = (w @ [c], if c = ''bad'' then Some (Other ''bad'') else None)"

definition ex_entry :: "string \<Rightarrow> time \<Rightarrow> string scheduled_entry" where
  "ex_entry c at = \<lparr>sc_command = c, sc_execute_at = at, sc_description = None, sc_tenant_id = None\<rparr>"

theorem due_commands_settled_witness:
  "\<exists>s'. process_due_commands 5 ex_send [(''a'', ex_entry ''late'' 4), (''b'', ex_entry ''bad'' 1), (''c'', ex_entry ''soon'' 9)] [] =
      (s', [''bad'', ''late''], 1) \<and> map_of s' ''a'' = None \<and> map_of s' ''b'' = Some (ex_entry ''bad'' 1)"
proof -
  let ?s = "[(''a'', ex_entry ''late'' 4), (''b'', ex_entry ''bad'' 1), (''c'', ex_entry ''soon'' 9)]"
  have due: "due_entries 5 None ?s = [(''b'', ex_entry ''bad'' 1), (''a'', ex_entry ''late'' 4)]"
    by (simp add: due_entries_def ex_entry_def satisfies_def)
  have "dict_ok ?s" by simp
  from due_commands_settled [OF this due [symmetric] refl, of ex_send "[]"] obtain s'
    where "process_due_commands 5 ex_send ?s [] = (s', [''bad'', ''late''], 1)"
      and "\<forall>i. map_of s' i = (if (i, True) \<in> {(''b'', False), (''a'', True)} then None else map_of ?s i)"
    by (auto simp: ex_send_def ex_entry_def send_in_order_def)
  then show ?thesis by auto
qed

end
