(* ===== verification/TenantStores.thy ===== *)
theory TenantStores
  imports Tenancy Scheduling Repository Outbox SagaManager JobService EventSourcing Projections
begin

text \<open>
  The tenant mixins (features/multitenancy: mixins/, infrastructure/redis/cache.py and locks.py), each composed
  with the in-memory store it is placed before in the method resolution order: event store, repository,
  outbox, saga repository, background jobs, snapshots, upcasters, scheduler, projection positions.

  A mixin method reads the tenant context and calls the same method of the store with a tenant
  specification.  \<open>AttributeSpecification("tenant_id", EQ, t)\<close> holds of a stored object whose field is
  \<open>t\<close> (\<^verbatim>\<open>tenant_spec_eval\<close>): on a row with the field \<open>f\<close> it is the predicate \<^prop>\<open>f e = Some t\<close>.
\<close>

section \<open>Shared methods of the mixins\<close>

definition require_tenant_context :: "string \<Rightarrow> tenant_ctx \<Rightarrow> exn + string" where
  "require_tenant_context what ctx =
     (case get_current_tenant_or_none ctx of
        None \<Rightarrow>
          if \<not> is_system_tenant ctx
          then Inl (TenantContextMissingError (''Tenant context required for '' @ what @
            '' operation. Ensure TenantMiddleware is configured or use @system_operation.''))
          else Inr ''__system__''
      | Some t \<Rightarrow> Inr (if t \<noteq> [] then t else ''__system__''))"

text \<open>
  A caller's specification either composes with \<^verbatim>\<open>&\<close>, or has no \<^verbatim>\<open>__and__\<close> (or one that raises), in which
  case \<^verbatim>\<open>_compose_specs\<close> answers with the tenant specification alone.
\<close>

datatype 'e any_spec = Composable "'e \<Rightarrow> bool" | Opaque "'e \<Rightarrow> bool"

fun spec_pred :: "'e any_spec \<Rightarrow> 'e \<Rightarrow> bool" where
  "spec_pred (Composable p) = p"
| "spec_pred (Opaque p) = p"

definition build_tenant_specification :: "('e \<Rightarrow> string option) \<Rightarrow> string \<Rightarrow> 'e \<Rightarrow> bool" where
  "build_tenant_specification tid t e \<longleftrightarrow> tid e = Some t"

definition compose_specs :: "('e \<Rightarrow> bool) \<Rightarrow> 'e any_spec option \<Rightarrow> 'e \<Rightarrow> bool" where
  "compose_specs tenant_spec other =
     (case other of
        None \<Rightarrow> tenant_spec
      | Some (Composable p) \<Rightarrow> (\<lambda>e. tenant_spec e \<and> p e)
      | Some (Opaque p) \<Rightarrow> tenant_spec)"

text \<open>The shape of every filtered read: the system tenant passes the caller's specification on.\<close>

definition tenant_query ::
  "string \<Rightarrow> ('e \<Rightarrow> string option) \<Rightarrow> tenant_ctx \<Rightarrow> 'e any_spec option \<Rightarrow> ('e spec_opt \<Rightarrow> 'r) \<Rightarrow> exn + 'r" where
  "tenant_query what tid ctx specification read =
     (if is_system_tenant ctx then Inr (read (map_option spec_pred specification))
      else case require_tenant_context what ctx of
             Inl e \<Rightarrow> Inl e
           | Inr t \<Rightarrow> Inr (read (Some (compose_specs (build_tenant_specification tid t) specification))))"

text \<open>A write that the mixin only guards: \<open>f\<close> receives \<^const>\<open>None\<close> from the system tenant, else the tenant.\<close>

definition tenant_write :: "string \<Rightarrow> tenant_ctx \<Rightarrow> 's \<Rightarrow> (string option \<Rightarrow> 's \<times> (exn + 'r)) \<Rightarrow> 's \<times> (exn + 'r)" where
  "tenant_write what ctx s f =
     (if is_system_tenant ctx then f None
      else case require_tenant_context what ctx of Inl e \<Rightarrow> (s, Inl e) | Inr t \<Rightarrow> f (Some t))"

section \<open>Event store\<close>

definition inject_tenant_into_event :: "stored_event \<Rightarrow> string \<Rightarrow> stored_event" where
  "inject_tenant_into_event e t = e\<lparr>se_tenant_id := Some t\<rparr>"

definition mt_append :: "tenant_ctx \<Rightarrow> stored_event \<Rightarrow> event_store \<Rightarrow> event_store \<times> (exn + unit)" where
  "mt_append ctx e es =
     tenant_write ''event store'' ctx es
       (\<lambda>t. (append_internal es (case t of None \<Rightarrow> e | Some t \<Rightarrow> inject_tenant_into_event e t), Inr ()))"

definition mt_append_batch :: "tenant_ctx \<Rightarrow> stored_event list \<Rightarrow> event_store \<Rightarrow> event_store \<times> (exn + unit)" where
  "mt_append_batch ctx evs es =
     tenant_write ''event store'' ctx es
       (\<lambda>t. (append_batch es (case t of None \<Rightarrow> evs | Some t \<Rightarrow> map (\<lambda>e. inject_tenant_into_event e t) evs), Inr ()))"

type_synonym event_spec = "stored_event any_spec option"

definition mt_get_events :: "tenant_ctx \<Rightarrow> string \<Rightarrow> int \<Rightarrow> event_spec \<Rightarrow> event_store \<Rightarrow> exn + stored_event list" where
  "mt_get_events ctx aggregate_id after_version spec es =
     tenant_query ''event store'' se_tenant_id ctx spec (get_events es aggregate_id after_version)"

definition mt_get_by_aggregate :: "tenant_ctx \<Rightarrow> string \<Rightarrow> string option \<Rightarrow> event_spec \<Rightarrow> event_store \<Rightarrow> exn + stored_event list" where
  "mt_get_by_aggregate ctx aggregate_id aggregate_type spec es =
     tenant_query ''event store'' se_tenant_id ctx spec (get_by_aggregate es aggregate_id aggregate_type)"

definition mt_get_all :: "tenant_ctx \<Rightarrow> event_spec \<Rightarrow> event_store \<Rightarrow> exn + stored_event list" where
  "mt_get_all ctx spec es = tenant_query ''event store'' se_tenant_id ctx spec (get_all es)"

definition mt_get_events_after :: "tenant_ctx \<Rightarrow> int \<Rightarrow> int \<Rightarrow> event_spec \<Rightarrow> event_store \<Rightarrow> exn + stored_event list" where
  "mt_get_events_after ctx position limit spec es =
     tenant_query ''event store'' se_tenant_id ctx spec (get_events_after es position limit)"

definition mt_get_events_from_position ::
  "nat \<Rightarrow> tenant_ctx \<Rightarrow> int \<Rightarrow> int option \<Rightarrow> event_spec \<Rightarrow> event_store \<Rightarrow> exn + (stored_event list \<times> exn option) option" where
  "mt_get_events_from_position fuel ctx position limit spec es =
     tenant_query ''event store'' se_tenant_id ctx spec (get_events_from_position fuel es position limit)"

definition mt_get_all_streaming ::
  "nat \<Rightarrow> tenant_ctx \<Rightarrow> int \<Rightarrow> event_spec \<Rightarrow> event_store \<Rightarrow> exn + stored_event list list option" where
  "mt_get_all_streaming fuel ctx batch_size spec es =
     tenant_query ''event store'' se_tenant_id ctx spec (get_all_streaming fuel es batch_size)"

definition mt_get_latest_position :: "tenant_ctx \<Rightarrow> event_spec \<Rightarrow> event_store \<Rightarrow> exn + int option" where
  "mt_get_latest_position ctx spec es = tenant_query ''event store'' se_tenant_id ctx spec (get_latest_position es)"

section \<open>Repository\<close>

text \<open>
  How the mixin reads and writes the tenant column of an entity: \<open>en_set\<close> answers \<^const>\<open>None\<close> when neither
  \<^verbatim>\<open>setattr\<close> nor \<^verbatim>\<open>model_copy\<close> works, and the entity is then stored as it is.
\<close>

record ('i, 'a) entity_class =
  en_id :: "'a \<Rightarrow> 'i"
  en_tenant :: "'a \<Rightarrow> string option"
  en_set :: "string \<Rightarrow> 'a \<Rightarrow> 'a option"
  en_type :: string
  en_show_id :: "'i \<Rightarrow> string"

definition set_tenant_id_on_entity :: "('i, 'a) entity_class \<Rightarrow> 'a \<Rightarrow> string \<Rightarrow> 'a" where
  "set_tenant_id_on_entity k x t = (case en_set k t x of None \<Rightarrow> x | Some x' \<Rightarrow> x')"

definition mt_repo_add :: "('i, 'a) entity_class \<Rightarrow> tenant_ctx \<Rightarrow> 'a \<Rightarrow> ('i, 'a) mem_repo \<Rightarrow> ('i, 'a) mem_repo \<times> (exn + 'i)" where
  "mt_repo_add k ctx x r =
     tenant_write ''repository'' ctx r (\<lambda>t. case t of
        None \<Rightarrow> (case repo_add (en_id k) r x of (r', i) \<Rightarrow> (r', Inr i))
      | Some t \<Rightarrow>
          (case en_tenant k x of
             Some u \<Rightarrow> if u \<noteq> t then (r, Inl (CrossTenantAccessError t u (en_type k) None))
                       else (case repo_add (en_id k) r (set_tenant_id_on_entity k x t) of (r', i) \<Rightarrow> (r', Inr i))
           | None \<Rightarrow> (case repo_add (en_id k) r (set_tenant_id_on_entity k x t) of (r', i) \<Rightarrow> (r', Inr i))))"

definition mt_repo_get :: "('i, 'a) entity_class \<Rightarrow> tenant_ctx \<Rightarrow> 'i \<Rightarrow> 'a any_spec option \<Rightarrow> ('i, 'a) mem_repo \<Rightarrow> exn + 'a option" where
  "mt_repo_get k ctx i spec r = tenant_query ''repository'' (en_tenant k) ctx spec (repo_get r i)"

definition mt_repo_delete ::
  "('i, 'a) entity_class \<Rightarrow> tenant_ctx \<Rightarrow> 'i \<Rightarrow> 'a any_spec option \<Rightarrow> ('i, 'a) mem_repo \<Rightarrow> ('i, 'a) mem_repo \<times> (exn + 'i)" where
  "mt_repo_delete k ctx i spec r =
     (case tenant_query ''repository'' (en_tenant k) ctx spec (repo_delete r i) of
        Inl e \<Rightarrow> (r, Inl e)
      | Inr (r', i) \<Rightarrow> (r', Inr i))"

definition mt_repo_list_all ::
  "('i, 'a) entity_class \<Rightarrow> tenant_ctx \<Rightarrow> 'i list option \<Rightarrow> 'a any_spec option \<Rightarrow> ('i, 'a) mem_repo \<Rightarrow> exn + 'a list" where
  "mt_repo_list_all k ctx ids spec r = tenant_query ''repository'' (en_tenant k) ctx spec (repo_list_all r ids)"

text \<open>
  The criteria of a search: a specification with \<^verbatim>\<open>__and__\<close>; a dictionary, with the specification that the
  factory builds from it, if it does; nothing; or another object, such as query options, which has no \<^verbatim>\<open>&\<close>.
  A dictionary that the factory refuses becomes a dictionary the in-memory store cannot evaluate.
\<close>

datatype 'a criteria = SpecCriteria "'a \<Rightarrow> bool" | DictCriteria "('a \<Rightarrow> bool) option" | NoCriteria | OtherCriteria "'a \<Rightarrow> bool"

fun compose_tenant_filter :: "('a \<Rightarrow> bool) \<Rightarrow> 'a criteria \<Rightarrow> exn + ('a \<Rightarrow> bool)" where
  "compose_tenant_filter tenant_spec (SpecCriteria p) = Inr (\<lambda>x. tenant_spec x \<and> p x)"
| "compose_tenant_filter tenant_spec (DictCriteria (Some p)) = Inr (\<lambda>x. tenant_spec x \<and> p x)"
| "compose_tenant_filter tenant_spec (DictCriteria None) = Inl (AttributeError ''is_satisfied_by'')"
| "compose_tenant_filter tenant_spec NoCriteria = Inr tenant_spec"
| "compose_tenant_filter tenant_spec (OtherCriteria p) = Inr p"

fun criteria_pred :: "'a criteria \<Rightarrow> exn + ('a \<Rightarrow> bool)" where
  "criteria_pred (SpecCriteria p) = Inr p"
| "criteria_pred (OtherCriteria p) = Inr p"
| "criteria_pred c = Inl (AttributeError ''is_satisfied_by'')"

definition mt_repo_search ::
  "('i, 'a) entity_class \<Rightarrow> tenant_ctx \<Rightarrow> 'a criteria \<Rightarrow> ('i, 'a) mem_repo \<Rightarrow> exn + 'a list" where
  "mt_repo_search k ctx c r =
     (if is_system_tenant ctx then map_sum id (repo_search r) (criteria_pred c)
      else case require_tenant_context ''repository'' ctx of
             Inl e \<Rightarrow> Inl e
           | Inr t \<Rightarrow> map_sum id (repo_search r)
                        (compose_tenant_filter (build_tenant_specification (en_tenant k) t) c))"

text \<open>\<^verbatim>\<open>StrictMultitenantRepositoryMixin.get\<close> checks what the filtered read returned.\<close>

definition strict_repo_get :: "('i, 'a) entity_class \<Rightarrow> tenant_ctx \<Rightarrow> 'i \<Rightarrow> 'a any_spec option \<Rightarrow> ('i, 'a) mem_repo \<Rightarrow> exn + 'a option" where
  "strict_repo_get k ctx i spec r =
     (case mt_repo_get k ctx i spec r of
        Inl e \<Rightarrow> Inl e
      | Inr None \<Rightarrow> Inr None
      | Inr (Some x) \<Rightarrow>
          if is_system_tenant ctx then Inr (Some x)
          else (case (en_tenant k x, get_current_tenant_or_none ctx) of
                  (Some u, Some t) \<Rightarrow>
                    if u \<noteq> t then Inl (CrossTenantAccessError t u (en_type k) (Some (en_show_id k i))) else Inr (Some x)
                | _ \<Rightarrow> Inr (Some x)))"

section \<open>Outbox\<close>

definition inject_tenant_into_message :: "string \<Rightarrow> outbox_message \<Rightarrow> outbox_message" where
  "inject_tenant_into_message t m =
     m\<lparr>om_metadata := AList.update ''tenant_id'' (JStr t) (om_metadata m), om_tenant_id := Some t\<rparr>"

definition get_tenant_from_message :: "outbox_message \<Rightarrow> json option" where
  "get_tenant_from_message m =
     (case om_tenant_id m of Some t \<Rightarrow> Some (JStr t) | None \<Rightarrow> map_of (om_metadata m) ''tenant_id'')"

definition mt_save_messages :: "tenant_ctx \<Rightarrow> outbox_message list \<Rightarrow> outbox \<Rightarrow> outbox \<times> (exn + unit)" where
  "mt_save_messages ctx ms ob =
     tenant_write ''outbox'' ctx ob
       (\<lambda>t. (save_messages ob (case t of None \<Rightarrow> ms | Some t \<Rightarrow> map (inject_tenant_into_message t) ms), Inr ()))"

definition mt_get_pending :: "tenant_ctx \<Rightarrow> int \<Rightarrow> outbox \<Rightarrow> exn + outbox_message list" where
  "mt_get_pending ctx limit ob = tenant_query ''outbox'' om_tenant_id ctx None (get_pending ob limit)"

definition mt_mark_published :: "time \<Rightarrow> tenant_ctx \<Rightarrow> string list \<Rightarrow> outbox \<Rightarrow> outbox \<times> (exn + unit)" where
  "mt_mark_published now ctx ids ob = tenant_write ''outbox'' ctx ob (\<lambda>t. (mark_published now ids ob, Inr ()))"

definition mt_mark_failed :: "tenant_ctx \<Rightarrow> string \<Rightarrow> string \<Rightarrow> outbox \<Rightarrow> outbox \<times> (exn + unit)" where
  "mt_mark_failed ctx i error ob = tenant_write ''outbox'' ctx ob (\<lambda>t. (mark_failed i error ob, Inr ()))"

text \<open>A tenant entry that is no string has no text in the exception.\<close>

definition tenant_text :: "json \<Rightarrow> string" where
  "tenant_text v = (case v of JStr s \<Rightarrow> s | _ \<Rightarrow> [])"

definition message_owned :: "string \<Rightarrow> outbox_message list \<Rightarrow> string \<Rightarrow> exn option" where
  "message_owned t pending i =
     (case map_of (map (\<lambda>m. (om_id m, m)) (rev pending)) i of
        None \<Rightarrow> None
      | Some m \<Rightarrow>
          (case get_tenant_from_message m of
             None \<Rightarrow> None
           | Some u \<Rightarrow> if u \<noteq> JNull \<and> u \<noteq> JStr t
                       then Some (CrossTenantAccessError t (tenant_text u) ''OutboxMessage'' (Some i)) else None))"

definition strict_mark_published :: "time \<Rightarrow> tenant_ctx \<Rightarrow> string list \<Rightarrow> outbox \<Rightarrow> outbox \<times> (exn + unit)" where
  "strict_mark_published now ctx ids ob =
     tenant_write ''outbox'' ctx ob (\<lambda>t. case t of
        None \<Rightarrow> mt_mark_published now ctx ids ob
      | Some t \<Rightarrow>
          (case mt_get_pending ctx (int (length ids) * 2) ob of
             Inl e \<Rightarrow> (ob, Inl e)
           | Inr pending \<Rightarrow>
               (case List.find (\<lambda>i. message_owned t pending i \<noteq> None) ids of
                  None \<Rightarrow> mt_mark_published now ctx ids ob
                | Some i \<Rightarrow> (ob, Inl (the (message_owned t pending i))))))"

section \<open>Sagas and background jobs\<close>

text \<open>
  Both repositories keep a dedicated field and a metadata entry.  The base repositories delete by id and have
  no \<^verbatim>\<open>update\<close>: the mixins hand \<^verbatim>\<open>delete\<close> the object itself, which has no hash, and call an \<^verbatim>\<open>update\<close> that does
  not exist.
\<close>

definition tenant_entry :: "string option \<Rightarrow> payload \<Rightarrow> json option" where
  "tenant_entry field md =
     (case field of
        Some t \<Rightarrow> Some (JStr t)
      | None \<Rightarrow> (case map_of md ''tenant_id'' of Some JNull \<Rightarrow> None | v \<Rightarrow> v))"

definition get_tenant_id_from_saga :: "saga_state \<Rightarrow> json option" where
  "get_tenant_id_from_saga s = tenant_entry (ss_tenant_id s) (ss_metadata s)"

definition get_tenant_id_from_job :: "background_job \<Rightarrow> json option" where
  "get_tenant_id_from_job j = tenant_entry (bj_tenant_id j) (bj_metadata j)"

text \<open>\<open>foreign t entry\<close>: the object names a tenant other than \<open>t\<close>.\<close>

definition foreign :: "string \<Rightarrow> json option \<Rightarrow> bool" where
  "foreign t entry \<longleftrightarrow> entry \<noteq> None \<and> entry \<noteq> Some (JStr t)"

definition access_error :: "string \<Rightarrow> json option \<Rightarrow> string \<Rightarrow> string \<Rightarrow> exn" where
  "access_error t entry ty i = CrossTenantAccessError t (tenant_text (the entry)) ty (Some i)"

definition stamp_metadata :: "string \<Rightarrow> payload \<Rightarrow> payload" where
  "stamp_metadata t md = (if ''tenant_id'' \<notin> set (dkeys md) then AList.update ''tenant_id'' (JStr t) md else md)"

definition inject_tenant_to_saga :: "string \<Rightarrow> saga_state \<Rightarrow> exn + saga_state" where
  "inject_tenant_to_saga t s =
     (if foreign t (get_tenant_id_from_saga s) then Inl (access_error t (get_tenant_id_from_saga s) ''SagaState'' (ss_id s))
      else Inr (s\<lparr>ss_tenant_id := (case ss_tenant_id s of None \<Rightarrow> Some t | u \<Rightarrow> u),
                  ss_metadata := stamp_metadata t (ss_metadata s)\<rparr>))"

definition inject_tenant_to_job :: "string \<Rightarrow> background_job \<Rightarrow> exn + background_job" where
  "inject_tenant_to_job t j =
     (if foreign t (get_tenant_id_from_job j)
      then Inl (access_error t (get_tenant_id_from_job j) ''BaseBackgroundJob'' (bj_id j))
      else Inr (j\<lparr>bj_tenant_id := (case bj_tenant_id j of None \<Rightarrow> Some t | u \<Rightarrow> u),
                  bj_metadata := stamp_metadata t (bj_metadata j)\<rparr>))"

definition mt_saga_add :: "tenant_ctx \<Rightarrow> saga_state \<Rightarrow> saga_repo \<Rightarrow> saga_repo \<times> (exn + unit)" where
  "mt_saga_add ctx s r =
     tenant_write ''saga'' ctx r (\<lambda>t. case t of
        None \<Rightarrow> (fst (sagas_add r s), Inr ())
      | Some t \<Rightarrow> (case inject_tenant_to_saga t s of Inl e \<Rightarrow> (r, Inl e) | Inr s' \<Rightarrow> (fst (sagas_add r s'), Inr ())))"

definition mt_job_add :: "tenant_ctx \<Rightarrow> background_job \<Rightarrow> job_repo \<Rightarrow> job_repo \<times> (exn + unit)" where
  "mt_job_add ctx j r =
     tenant_write ''background job'' ctx r (\<lambda>t. case t of
        None \<Rightarrow> (fst (jobs_add r j), Inr ())
      | Some t \<Rightarrow> (case inject_tenant_to_job t j of Inl e \<Rightarrow> (r, Inl e) | Inr j' \<Rightarrow> (fst (jobs_add r j'), Inr ())))"

text \<open>A read by key, denied silently when the object found names another tenant.\<close>

definition own_or_none :: "string \<Rightarrow> tenant_ctx \<Rightarrow> ('e \<Rightarrow> json option) \<Rightarrow> 'e option \<Rightarrow> exn + 'e option" where
  "own_or_none what ctx entry found =
     (if is_system_tenant ctx then Inr found
      else case require_tenant_context what ctx of
             Inl e \<Rightarrow> Inl e
           | Inr t \<Rightarrow> (case found of None \<Rightarrow> Inr None | Some x \<Rightarrow> if foreign t (entry x) then Inr None else Inr (Some x)))"

definition mt_saga_get :: "tenant_ctx \<Rightarrow> string \<Rightarrow> saga_repo \<Rightarrow> exn + saga_state option" where
  "mt_saga_get ctx i r = own_or_none ''saga'' ctx get_tenant_id_from_saga (sagas_get r i None)"

definition mt_job_get :: "tenant_ctx \<Rightarrow> string \<Rightarrow> job_repo \<Rightarrow> exn + background_job option" where
  "mt_job_get ctx i r = own_or_none ''background job'' ctx get_tenant_id_from_job (jobs_get r i None)"

definition mt_find_by_correlation_id :: "tenant_ctx \<Rightarrow> string \<Rightarrow> string \<Rightarrow> saga_repo \<Rightarrow> exn + saga_state option" where
  "mt_find_by_correlation_id ctx correlation_id saga_type r =
     own_or_none ''saga'' ctx get_tenant_id_from_saga (find_by_correlation_id r correlation_id saga_type)"

definition mt_is_cancellation_requested :: "tenant_ctx \<Rightarrow> string \<Rightarrow> job_repo \<Rightarrow> exn + bool" where
  "mt_is_cancellation_requested ctx i r =
     (if is_system_tenant ctx then Inr (is_cancellation_requested r i)
      else case mt_job_get ctx i r of
             Inl e \<Rightarrow> Inl e
           | Inr None \<Rightarrow> Inr False
           | Inr (Some j) \<Rightarrow> Inr (bj_status j = JOB_CANCELLED))"

text \<open>What \<^verbatim>\<open>update\<close> and \<^verbatim>\<open>delete\<close> of both mixins do once their check has passed.\<close>

definition checked_call :: "string \<Rightarrow> tenant_ctx \<Rightarrow> json option \<Rightarrow> string \<Rightarrow> string \<Rightarrow> exn \<Rightarrow> exn" where
  "checked_call what ctx entry ty i base_error =
     (if is_system_tenant ctx then base_error
      else case require_tenant_context what ctx of
             Inl e \<Rightarrow> e
           | Inr t \<Rightarrow> if foreign t entry then access_error t entry ty i else base_error)"

definition mt_saga_update :: "tenant_ctx \<Rightarrow> saga_state \<Rightarrow> saga_repo \<Rightarrow> saga_repo \<times> exn" where
  "mt_saga_update ctx s r =
     (r, checked_call ''saga'' ctx (get_tenant_id_from_saga s) ''SagaState'' (ss_id s)
           (AttributeError ''update''))"

definition mt_saga_delete :: "tenant_ctx \<Rightarrow> saga_state \<Rightarrow> saga_repo \<Rightarrow> saga_repo \<times> exn" where
  "mt_saga_delete ctx s r =
     (r, checked_call ''saga'' ctx (get_tenant_id_from_saga s) ''SagaState'' (ss_id s)
           (TypeError ''unhashable type''))"

definition mt_job_update :: "tenant_ctx \<Rightarrow> background_job \<Rightarrow> job_repo \<Rightarrow> job_repo \<times> exn" where
  "mt_job_update ctx j r =
     (r, checked_call ''background job'' ctx (get_tenant_id_from_job j) ''BaseBackgroundJob'' (bj_id j)
           (AttributeError ''update''))"

definition mt_job_delete :: "tenant_ctx \<Rightarrow> background_job \<Rightarrow> job_repo \<Rightarrow> job_repo \<times> exn" where
  "mt_job_delete ctx j r =
     (r, checked_call ''background job'' ctx (get_tenant_id_from_job j) ''BaseBackgroundJob'' (bj_id j)
           (TypeError ''unhashable type''))"

text \<open>\<^verbatim>\<open>tenant_spec & specification if specification else tenant_spec\<close>: every specification composes.\<close>

definition all_compose :: "('e \<Rightarrow> bool) option \<Rightarrow> 'e any_spec option" where
  "all_compose = map_option Composable"

type_synonym saga_spec = "saga_state spec_opt"
type_synonym job_spec = "background_job spec_opt"

definition mt_saga_list_all :: "tenant_ctx \<Rightarrow> string list option \<Rightarrow> saga_spec \<Rightarrow> saga_repo \<Rightarrow> exn + saga_state list" where
  "mt_saga_list_all ctx ids spec r = tenant_query ''saga'' ss_tenant_id ctx (all_compose spec) (sagas_list_all r ids)"

text \<open>A search with criteria that are missing or have no \<^verbatim>\<open>&\<close> runs with the tenant specification alone.\<close>

definition mt_saga_search :: "tenant_ctx \<Rightarrow> saga_state any_spec option \<Rightarrow> saga_repo \<Rightarrow> exn + saga_state list" where
  "mt_saga_search ctx c r =
     (if is_system_tenant ctx \<and> c = None then Inl (AttributeError ''is_satisfied_by'')
      else tenant_query ''saga'' ss_tenant_id ctx c (\<lambda>spec. sagas_search r (satisfies spec)))"

definition mt_find_stalled_sagas :: "tenant_ctx \<Rightarrow> int \<Rightarrow> saga_spec \<Rightarrow> saga_repo \<Rightarrow> exn + saga_state list" where
  "mt_find_stalled_sagas ctx limit spec r =
     tenant_query ''saga'' ss_tenant_id ctx (all_compose spec) (find_stalled_sagas r limit)"

definition mt_find_suspended_sagas :: "tenant_ctx \<Rightarrow> int \<Rightarrow> saga_spec \<Rightarrow> saga_repo \<Rightarrow> exn + saga_state list" where
  "mt_find_suspended_sagas ctx limit spec r =
     tenant_query ''saga'' ss_tenant_id ctx (all_compose spec) (find_suspended_sagas r limit)"

definition mt_find_expired_suspended_sagas :: "time \<Rightarrow> tenant_ctx \<Rightarrow> int \<Rightarrow> saga_spec \<Rightarrow> saga_repo \<Rightarrow> exn + saga_state list" where
  "mt_find_expired_suspended_sagas now ctx limit spec r =
     tenant_query ''saga'' ss_tenant_id ctx (all_compose spec) (find_expired_suspended_sagas now r limit)"

definition mt_find_running_sagas_with_tcc_steps :: "tenant_ctx \<Rightarrow> int \<Rightarrow> saga_spec \<Rightarrow> saga_repo \<Rightarrow> exn + saga_state list" where
  "mt_find_running_sagas_with_tcc_steps ctx limit spec r =
     tenant_query ''saga'' ss_tenant_id ctx (all_compose spec) (find_running_sagas_with_tcc_steps r limit)"

definition mt_job_list_all :: "tenant_ctx \<Rightarrow> string list option \<Rightarrow> job_spec \<Rightarrow> job_repo \<Rightarrow> exn + background_job list" where
  "mt_job_list_all ctx ids spec r = tenant_query ''background job'' bj_tenant_id ctx (all_compose spec) (jobs_list_all r ids)"

definition mt_get_stale_jobs :: "time \<Rightarrow> tenant_ctx \<Rightarrow> int option \<Rightarrow> job_spec \<Rightarrow> job_repo \<Rightarrow> exn + background_job list" where
  "mt_get_stale_jobs now ctx timeout spec r =
     tenant_query ''background job'' bj_tenant_id ctx (all_compose spec) (get_stale_jobs now r timeout)"

definition mt_find_by_status ::
  "tenant_ctx \<Rightarrow> job_status list \<Rightarrow> int \<Rightarrow> int \<Rightarrow> job_spec \<Rightarrow> job_repo \<Rightarrow> exn + background_job list" where
  "mt_find_by_status ctx statuses limit offset spec r =
     tenant_query ''background job'' bj_tenant_id ctx (all_compose spec) (find_by_status r statuses limit offset)"

definition mt_count_by_status :: "tenant_ctx \<Rightarrow> job_spec \<Rightarrow> job_repo \<Rightarrow> exn + (string, nat) dict" where
  "mt_count_by_status ctx spec r = tenant_query ''background job'' bj_tenant_id ctx (all_compose spec) (count_by_status r)"

definition mt_purge_completed :: "tenant_ctx \<Rightarrow> time \<Rightarrow> job_spec \<Rightarrow> job_repo \<Rightarrow> job_repo \<times> (exn + nat)" where
  "mt_purge_completed ctx before spec r =
     (case tenant_query ''background job'' bj_tenant_id ctx (all_compose spec) (purge_completed r before) of
        Inl e \<Rightarrow> (r, Inl e)
      | Inr (r', n) \<Rightarrow> (r', Inr n))"

section \<open>Snapshots and upcasting\<close>

text \<open>The in-memory snapshot store receives the tenant specification and ignores it.\<close>

definition mt_save_snapshot ::
  "time \<Rightarrow> tenant_ctx \<Rightarrow> string \<Rightarrow> string \<Rightarrow> payload \<Rightarrow> int \<Rightarrow> snapshot_store \<Rightarrow> snapshot_store \<times> (exn + unit)" where
  "mt_save_snapshot now ctx aggregate_type aggregate_id data version st =
     tenant_write ''snapshot'' ctx st (\<lambda>t.
       (save_snapshot now aggregate_type aggregate_id
          (case t of None \<Rightarrow> data | Some t \<Rightarrow> stamp_metadata t data) version st, Inr ()))"

definition mt_get_latest_snapshot :: "tenant_ctx \<Rightarrow> string \<Rightarrow> string \<Rightarrow> snapshot_store \<Rightarrow> exn + snapshot option" where
  "mt_get_latest_snapshot ctx aggregate_type aggregate_id st =
     snd (tenant_write ''snapshot'' ctx st (\<lambda>t. (st, Inr (get_latest_snapshot st aggregate_type aggregate_id))))"

definition mt_delete_snapshot :: "tenant_ctx \<Rightarrow> string \<Rightarrow> string \<Rightarrow> snapshot_store \<Rightarrow> snapshot_store \<times> (exn + unit)" where
  "mt_delete_snapshot ctx aggregate_type aggregate_id st =
     tenant_write ''snapshot'' ctx st (\<lambda>t. (delete_snapshot aggregate_type aggregate_id st, Inr ()))"

text \<open>\<^verbatim>\<open>MultitenantUpcasterMixin\<close> around the transformation of an upcaster.\<close>

definition reinject_tenant :: "payload \<Rightarrow> payload \<Rightarrow> payload" where
  "reinject_tenant event_data upcasted =
     (case map_of event_data ''tenant_id'' of
        None \<Rightarrow> upcasted
      | Some JNull \<Rightarrow> upcasted
      | Some t \<Rightarrow> if map_of upcasted ''tenant_id'' \<noteq> Some t then AList.update ''tenant_id'' t upcasted else upcasted)"

definition mt_upcast :: "(payload \<Rightarrow> exn + payload) \<Rightarrow> payload \<Rightarrow> exn + payload" where
  "mt_upcast f event_data = map_sum id (reinject_tenant event_data) (f event_data)"

definition mt_upcaster :: "upcaster \<Rightarrow> upcaster" where
  "mt_upcaster u = u\<lparr>up_fn := mt_upcast (up_fn u)\<rparr>"

section \<open>Scheduler\<close>

text \<open>
  \<open>inject\<close> sets the attribute and the metadata entry \<^verbatim>\<open>_tenant_id\<close> of a command, keeping an entry it already has.
\<close>

definition mt_schedule ::
  "('c \<Rightarrow> (string, string) dict) \<Rightarrow> (string \<Rightarrow> 'c \<Rightarrow> 'c) \<Rightarrow> tenant_ctx \<Rightarrow> string \<Rightarrow> 'c \<Rightarrow> time \<Rightarrow> string option \<Rightarrow>
     'c scheduler \<Rightarrow> 'c scheduler \<times> (exn + string)" where
  "mt_schedule metadata inject ctx fresh command execute_at description s =
     tenant_write ''scheduling'' ctx s (\<lambda>t.
       (case schedule metadata fresh (case t of None \<Rightarrow> command | Some t \<Rightarrow> inject t command) execute_at description s of
          (s', i) \<Rightarrow> (s', Inr i)))"

definition mt_get_due_commands ::
  "time \<Rightarrow> tenant_ctx \<Rightarrow> 'c scheduled_entry spec_opt \<Rightarrow> 'c scheduler \<Rightarrow> exn + (string \<times> 'c) list" where
  "mt_get_due_commands now ctx spec s =
     tenant_query ''scheduling'' sc_tenant_id ctx (all_compose spec) (\<lambda>p. get_due_commands now p s)"

definition mt_cancel :: "tenant_ctx \<Rightarrow> string \<Rightarrow> 'c scheduler \<Rightarrow> 'c scheduler \<times> (exn + bool)" where
  "mt_cancel ctx schedule_id s =
     tenant_write ''scheduling'' ctx s (\<lambda>t. case cancel_scheduled schedule_id s of (s', b) \<Rightarrow> (s', Inr b))"

definition mt_delete_executed :: "tenant_ctx \<Rightarrow> string \<Rightarrow> 'c scheduler \<Rightarrow> 'c scheduler \<times> (exn + unit)" where
  "mt_delete_executed ctx schedule_id s =
     tenant_write ''scheduling'' ctx s (\<lambda>t. (delete_executed schedule_id s, Inr ()))"

section \<open>Keys with a tenant prefix\<close>

text \<open>Cache keys, lock resources, projection documents and projection positions: \<^verbatim>\<open>f"{tenant}:{key}"\<close>.\<close>

definition tenant_key :: "string \<Rightarrow> string \<Rightarrow> string" where
  "tenant_key t key = t @ CHR '':'' # key"

definition build_tenant_aware_key :: "string \<Rightarrow> tenant_ctx \<Rightarrow> string \<Rightarrow> exn + string" where
  "build_tenant_aware_key what ctx key = map_sum id (\<lambda>t. tenant_key t key) (require_tenant_context what ctx)"

definition tenant_projection_name :: "tenant_ctx \<Rightarrow> string \<Rightarrow> exn + string" where
  "tenant_projection_name ctx name = map_sum id (\<lambda>t. tenant_key t name) (require_tenant ctx)"

definition mt_get_position :: "tenant_ctx \<Rightarrow> string \<Rightarrow> checkpoints \<Rightarrow> exn + int option" where
  "mt_get_position ctx name cp = map_sum id (get_position cp) (tenant_projection_name ctx name)"

definition mt_save_position :: "tenant_ctx \<Rightarrow> string \<Rightarrow> int \<Rightarrow> checkpoints \<Rightarrow> checkpoints \<times> (exn + unit)" where
  "mt_save_position ctx name position cp =
     (case tenant_projection_name ctx name of
        Inl e \<Rightarrow> (cp, Inl e)
      | Inr n \<Rightarrow> (save_position cp n position, Inr ()))"

text \<open>A cache service with tenant keys, over a cache that is a dictionary (time-to-live is not modelled).\<close>

type_synonym 'v cache_store = "(string, 'v) dict"

definition mt_cache_get :: "tenant_ctx \<Rightarrow> string \<Rightarrow> 'v cache_store \<Rightarrow> exn + 'v option" where
  "mt_cache_get ctx key c = map_sum id (map_of c) (build_tenant_aware_key ''cache'' ctx key)"

definition mt_cache_set :: "tenant_ctx \<Rightarrow> string \<Rightarrow> 'v \<Rightarrow> 'v cache_store \<Rightarrow> 'v cache_store \<times> (exn + unit)" where
  "mt_cache_set ctx key v c =
     (case build_tenant_aware_key ''cache'' ctx key of Inl e \<Rightarrow> (c, Inl e) | Inr k \<Rightarrow> (AList.update k v c, Inr ()))"

definition mt_cache_delete :: "tenant_ctx \<Rightarrow> string \<Rightarrow> 'v cache_store \<Rightarrow> 'v cache_store \<times> (exn + unit)" where
  "mt_cache_delete ctx key c =
     (case build_tenant_aware_key ''cache'' ctx key of Inl e \<Rightarrow> (c, Inl e) | Inr k \<Rightarrow> (AList.delete k c, Inr ()))"

text \<open>\<^verbatim>\<open>clear\<close> scans for the keys that match \<^verbatim>\<open>{tenant}:*\<close>.\<close>

definition mt_cache_clear :: "tenant_ctx \<Rightarrow> 'v cache_store \<Rightarrow> 'v cache_store \<times> (exn + unit)" where
  "mt_cache_clear ctx c =
     (case require_tenant_context ''cache'' ctx of
        Inl e \<Rightarrow> (c, Inl e)
      | Inr t \<Rightarrow> (filter (\<lambda>(k, v). \<not> prefix (t @ '':'') k) c, Inr ()))"

text \<open>The batch methods are inherited unchanged from the cache service: their keys carry no tenant.\<close>

definition mt_cache_get_batch :: "tenant_ctx \<Rightarrow> string list \<Rightarrow> 'v cache_store \<Rightarrow> 'v option list" where
  "mt_cache_get_batch ctx keys c = map (map_of c) keys"

definition mt_cache_set_batch :: "tenant_ctx \<Rightarrow> (string \<times> 'v) list \<Rightarrow> 'v cache_store \<Rightarrow> 'v cache_store" where
  "mt_cache_set_batch ctx items c = fold (\<lambda>(k, v). AList.update k v) items c"

section \<open>Reads see the rows of their tenant only\<close>

text \<open>A tenant context: valid, and not the system tenant.\<close>

definition acts_for :: "tenant_ctx \<Rightarrow> string \<Rightarrow> bool" where
  "acts_for ctx t \<longleftrightarrow> ctx = Some t \<and> valid_tenant t \<and> t \<noteq> SYSTEM_TENANT"

lemma acts_forD:
  assumes "acts_for ctx t"
  shows "\<not> is_system_tenant ctx" "require_tenant_context what ctx = Inr t" "require_tenant ctx = Inr t" "valid_tenant t"
  using assms
  by (auto simp: acts_for_def is_system_tenant_def require_tenant_context_def get_current_tenant_or_none_def
      require_tenant_def get_current_tenant_def)

lemma no_context [simp]:
  "\<not> is_system_tenant None"
  "\<exists>m. require_tenant_context what None = Inl (TenantContextMissingError m)"
  by (simp_all add: is_system_tenant_def require_tenant_context_def get_current_tenant_or_none_def)

abbreviation owned :: "('e \<Rightarrow> string option) \<Rightarrow> string \<Rightarrow> 'e \<Rightarrow> bool" where
  "owned tid t e \<equiv> tid e = Some t"

lemma tenant_query_own:
  assumes "acts_for ctx t"
  shows "tenant_query what tid ctx spec read =
           Inr (read (Some (compose_specs (build_tenant_specification tid t) spec)))"
  using acts_forD [OF assms] by (simp add: tenant_query_def)

lemma compose_specs_owned: "compose_specs (build_tenant_specification tid t) spec e \<Longrightarrow> owned tid t e"
  by (auto simp: compose_specs_def build_tenant_specification_def split: option.splits any_spec.splits)

lemma compose_specs_foreign [simp]:
  "tid e \<noteq> Some t \<Longrightarrow> compose_specs (build_tenant_specification tid t) spec e = False"
  using compose_specs_owned by metis

lemma build_tenant_spec_eq: "build_tenant_specification tid t = owned tid t"
  by (simp add: fun_eq_iff build_tenant_specification_def)

lemma compose_specs_filter:
  assumes "filter (owned tid t) xs = filter (owned tid t) ys"
  shows "filter (compose_specs (build_tenant_specification tid t) spec) xs =
         filter (compose_specs (build_tenant_specification tid t) spec) ys"
proof -
  have "filter (compose_specs (build_tenant_specification tid t) spec) zs =
      filter (compose_specs (build_tenant_specification tid t) spec) (filter (owned tid t) zs)" for zs
    by (induction zs) (auto dest: compose_specs_owned)
  then show ?thesis using assms by metis
qed

text \<open>
  A filtered read: what it returns under a specification depends on the rows that satisfy it, and on no
  others.  Then the tenant that calls it through a mixin cannot tell two stores apart that hold the same
  rows of its own.
\<close>

locale filtered_read =
  fixes rows :: "'s \<Rightarrow> 'e list"
    and ok :: "'s \<Rightarrow> bool"
    and read :: "'s \<Rightarrow> 'e spec_opt \<Rightarrow> 'r"
  assumes read_cong: "ok s \<Longrightarrow> ok s' \<Longrightarrow> filter p (rows s) = filter p (rows s') \<Longrightarrow> read s (Some p) = read s' (Some p)"
begin

lemma blind_to_other_tenants:
  assumes "ok s" "ok s'" "filter (owned tid t) (rows s) = filter (owned tid t) (rows s')" "ctx = Some t \<or> ctx = None"
    and "t \<noteq> SYSTEM_TENANT" "t \<noteq> []"
  shows "tenant_query what tid ctx spec (read s) = tenant_query what tid ctx spec (read s')"
proof (cases ctx)
  case (Some u)
  then have "u = t" using assms(4) by simp
  then show ?thesis
    using assms Some read_cong [OF assms(1,2) compose_specs_filter [OF assms(3)]]
    by (simp add: tenant_query_def is_system_tenant_def require_tenant_context_def get_current_tenant_or_none_def)
qed (simp add: tenant_query_def is_system_tenant_def require_tenant_context_def get_current_tenant_or_none_def)

end

text \<open>A filtered listing returns stored rows that satisfy the specification.\<close>

locale filtered_listing = filtered_read rows ok read
  for rows :: "'s \<Rightarrow> 'e list" and ok :: "'s \<Rightarrow> bool" and read :: "'s \<Rightarrow> 'e spec_opt \<Rightarrow> 'e list" +
  assumes read_sound: "ok s \<Longrightarrow> e \<in> set (read s (Some p)) \<Longrightarrow> p e \<and> e \<in> set (rows s)"
begin

lemma lists_own_rows:
  assumes "ok s" "acts_for ctx t" "tenant_query what tid ctx spec (read s) = Inr es" "e \<in> set es"
  shows "owned tid t e \<and> e \<in> set (rows s)"
  using assms tenant_query_own [OF assms(2), of what tid spec "read s"] read_sound compose_specs_owned by fastforce

end

subsection \<open>Event store reads\<close>

lemma filter_comm: "filter p (filter q xs) = filter q (filter p xs)"
  by (induction xs) auto

lemma get_events_filter: "get_events es a v (Some p) = filter (\<lambda>e. se_aggregate_id e = a \<and> v < se_version e) (filter p es)"
  by (simp add: get_events_def apply_specification_def conj_commute)

interpretation events_read: filtered_listing id "\<lambda>_. True" "\<lambda>es. get_events es a v" for a v
  by unfold_locales (auto simp: get_events_filter)

lemma get_by_aggregate_filter:
  "get_by_aggregate es a ty (Some p) =
     filter (\<lambda>e. se_aggregate_id e = a \<and> (case ty of None \<Rightarrow> True | Some t \<Rightarrow> se_aggregate_type e = t)) (filter p es)"
  by (cases ty) (auto simp: get_by_aggregate_def apply_specification_def Let_def intro: filter_cong)

interpretation aggregate_read: filtered_listing id "\<lambda>_. True" "\<lambda>es. get_by_aggregate es a ty" for a ty
  by unfold_locales (auto simp: get_by_aggregate_filter)

interpretation all_read: filtered_listing id "\<lambda>_. True" get_all
  by unfold_locales (auto simp: get_all_def apply_specification_def)

lemma get_events_after_filter:
  "positions_ok es \<Longrightarrow> get_events_after es p limit (Some q) = take (nat (max 1 limit)) (filter (\<lambda>e. p < pos_of e) (filter q es))"
  by (simp add: get_events_after_take satisfies_def conj_commute)

interpretation after_read: filtered_listing id positions_ok "\<lambda>es. get_events_after es p limit" for p limit
  by unfold_locales (auto simp: get_events_after_filter dest!: in_set_takeD)

lemma from_position_cong:
  assumes "positions_ok es" "positions_ok es'" "filter q es = filter q es'"
  shows "get_events_from_position fuel es p limit (Some q) = get_events_from_position fuel es' p limit (Some q)"
proof (induction fuel arbitrary: p)
  case (Suc fuel)
  have "get_events_after es p b (Some q) = get_events_after es' p b (Some q)" for b
    using assms by (simp add: get_events_after_filter)
  then show ?case by (simp add: Let_def Suc.IH)
qed simp

interpretation stream_read: filtered_read id positions_ok "\<lambda>es. get_events_from_position fuel es p limit" for fuel p limit
  by unfold_locales (rule from_position_cong, simp_all)

lemma streaming_cong:
  assumes "positions_ok es" "positions_ok es'" "filter q es = filter q es'"
  shows "get_all_streaming_loop fuel es p b (Some q) = get_all_streaming_loop fuel es' p b (Some q)"
proof (induction fuel arbitrary: p)
  case (Suc fuel)
  have "get_events_after es p b (Some q) = get_events_after es' p b (Some q)"
    using assms by (simp add: get_events_after_filter)
  then show ?case by (simp add: Let_def Suc.IH)
qed simp

interpretation batches_read: filtered_read id positions_ok "\<lambda>es. get_all_streaming fuel es b" for fuel b
  by unfold_locales (unfold get_all_streaming_def, rule streaming_cong, simp_all)

lemma positions_of_filtered:
  assumes "positions_ok es" "filter q es \<noteq> []"
  shows "List.map_filter se_position (filter q es) \<noteq> []"
proof -
  obtain e where "e \<in> set (filter q es)" using assms(2) by (meson list.set_sel(1))
  moreover from this obtain p where "se_position e = Some p"
    using assms(1) by (auto simp: positions_ok_def list_all_iff)
  ultimately have "p \<in> set (List.map_filter se_position (filter q es))"
    by (force simp: List.map_filter_def)
  then show ?thesis by force
qed

interpretation latest_read: filtered_read id positions_ok get_latest_position
  by unfold_locales (auto simp: get_latest_position_def Let_def dest: positions_of_filtered)

subsection \<open>Appends of other tenants\<close>

lemma place_tenant [simp]: "se_tenant_id (place i e) = se_tenant_id e"
  by (simp add: place_def)

lemma append_batch_tenants:
  "\<exists>new. append_batch es evs = es @ new \<and> map se_tenant_id new = map se_tenant_id evs"
proof -
  have "\<exists>new. fold (\<lambda>e es. append_internal es e) evs es = es @ new \<and> map se_tenant_id new = map se_tenant_id evs"
  proof (induction evs arbitrary: es)
    case (Cons e evs)
    from Cons.IH [of "append_internal es e"] show ?case by (fastforce simp: append_internal_def)
  qed simp
  then show ?thesis by (simp add: append_batch_fold)
qed

lemma filter_none: "map f new = map (\<lambda>_. Some u) xs \<Longrightarrow> u \<noteq> t \<Longrightarrow> filter (owned f t) new = []"
  by (induction new arbitrary: xs) (auto simp: map_eq_Cons_conv split: list.splits)

lemma filter_all: "map f new = map (\<lambda>_. Some t) xs \<Longrightarrow> filter (owned f t) new = new"
  by (induction new arbitrary: xs) (auto simp: map_eq_Cons_conv split: list.splits)

lemma inject_tenant_ids: "map se_tenant_id (map (\<lambda>e. inject_tenant_into_event e u) evs) = map (\<lambda>_. Some u) evs"
  by (simp add: inject_tenant_into_event_def comp_def)

lemma foreign_append_batch_invisible:
  assumes "acts_for ctx u \<or> ctx = None" "u \<noteq> t"
  shows "filter (owned se_tenant_id t) (fst (mt_append_batch ctx evs es)) = filter (owned se_tenant_id t) es"
proof (cases ctx)
  case None
  then show ?thesis by (simp add: mt_append_batch_def tenant_write_def is_system_tenant_def require_tenant_context_def get_current_tenant_or_none_def)
next
  case (Some v)
  then have a: "acts_for ctx u" using assms(1) by simp
  obtain new where new: "append_batch es (map (\<lambda>e. inject_tenant_into_event e u) evs) = es @ new"
      "map se_tenant_id new = map (\<lambda>_. Some u) evs"
    using append_batch_tenants [of es "map (\<lambda>e. inject_tenant_into_event e u) evs"] unfolding inject_tenant_ids by blast
  have "fst (mt_append_batch ctx evs es) = es @ new"
    using acts_forD [OF a] new(1) by (simp add: mt_append_batch_def tenant_write_def)
  then show ?thesis using filter_none [OF new(2) assms(2)] by simp
qed

text \<open>What several callers append, one batch after the other; a batch without a context raises and adds nothing.\<close>

definition run_appends :: "(tenant_ctx \<times> stored_event list) list \<Rightarrow> event_store \<Rightarrow> event_store" where
  "run_appends ops es = fold (\<lambda>(ctx, evs) es. fst (mt_append_batch ctx evs es)) ops es"

definition not_of :: "string \<Rightarrow> tenant_ctx \<Rightarrow> bool" where
  "not_of t ctx \<longleftrightarrow> ctx = None \<or> (\<exists>u. acts_for ctx u \<and> u \<noteq> t)"

lemma dense_mt_append_batch:
  assumes "dense es" "list_all (\<lambda>e. se_position e = None) evs"
  shows "dense (fst (mt_append_batch ctx evs es))"
proof -
  have "list_all (\<lambda>e. se_position e = None) (map (\<lambda>e. inject_tenant_into_event e u) evs)" for u
    using assms(2) by (simp add: list_all_iff inject_tenant_into_event_def)
  then show ?thesis
    using assms by (auto simp: mt_append_batch_def tenant_write_def dense_append_batch split: sum.splits)
qed

lemma run_appends_Cons: "run_appends ((ctx, evs) # ops) es = run_appends ops (fst (mt_append_batch ctx evs es))"
  by (simp add: run_appends_def)

lemma run_appends_invisible:
  assumes "dense es" "list_all (\<lambda>(ctx, evs). not_of t ctx \<and> list_all (\<lambda>e. se_position e = None) evs) ops"
  shows "dense (run_appends ops es) \<and> filter (owned se_tenant_id t) (run_appends ops es) = filter (owned se_tenant_id t) es"
  using assms
proof (induction ops arbitrary: es)
  case (Cons op ops)
  obtain ctx evs where op: "op = (ctx, evs)" by (cases op)
  have "not_of t ctx" using Cons.prems(2) op by simp
  then have "filter (owned se_tenant_id t) (fst (mt_append_batch ctx evs es)) = filter (owned se_tenant_id t) es"
    unfolding not_of_def using foreign_append_batch_invisible [of ctx _ t evs es] by auto
  moreover have "dense (fst (mt_append_batch ctx evs es))"
    using Cons.prems op by (intro dense_mt_append_batch) auto
  ultimately show ?case using Cons.IH [of "fst (mt_append_batch ctx evs es)"] Cons.prems(2)
    by (simp add: op run_appends_Cons)
qed (simp add: run_appends_def)

text \<open>
  C12: no read of a tenant depends on what others write to the shared event store: after any sequence of
  batches of other tenants, the five listings, the stream and the latest position that the
  tenant reads, with any further specification and any bounds, are what they were before.
\<close>

theorem tenant_reads_noninterference:
  assumes "dense es" "acts_for ctx t"
    and "list_all (\<lambda>(c, evs). not_of t c \<and> list_all (\<lambda>e. se_position e = None) evs) ops"
  shows "mt_get_events ctx a v spec (run_appends ops es) = mt_get_events ctx a v spec es
    \<and> mt_get_by_aggregate ctx a ty spec (run_appends ops es) = mt_get_by_aggregate ctx a ty spec es
    \<and> mt_get_all ctx spec (run_appends ops es) = mt_get_all ctx spec es
    \<and> mt_get_events_after ctx p limit spec (run_appends ops es) = mt_get_events_after ctx p limit spec es
    \<and> mt_get_events_from_position fuel ctx p batch spec (run_appends ops es) = mt_get_events_from_position fuel ctx p batch spec es
    \<and> mt_get_all_streaming fuel ctx chunk spec (run_appends ops es) = mt_get_all_streaming fuel ctx chunk spec es
    \<and> mt_get_latest_position ctx spec (run_appends ops es) = mt_get_latest_position ctx spec es"
proof -
  note inv = run_appends_invisible [OF assms(1,3)]
  have ok: "positions_ok (run_appends ops es)" "positions_ok es" using inv assms(1) dense_positions_ok by blast+
  have same: "filter (owned se_tenant_id t) (id (run_appends ops es)) = filter (owned se_tenant_id t) (id es)"
    using inv by simp
  have ctx: "ctx = Some t \<or> ctx = None" "t \<noteq> SYSTEM_TENANT" "t \<noteq> []" using assms(2) by (auto simp: acts_for_def)
  show ?thesis
    unfolding mt_get_events_def mt_get_by_aggregate_def mt_get_all_def mt_get_events_after_def
      mt_get_events_from_position_def mt_get_all_streaming_def mt_get_latest_position_def
    by (intro conjI events_read.blind_to_other_tenants [OF TrueI TrueI same ctx]
        aggregate_read.blind_to_other_tenants [OF TrueI TrueI same ctx]
        all_read.blind_to_other_tenants [OF TrueI TrueI same ctx]
        after_read.blind_to_other_tenants [OF ok same ctx] stream_read.blind_to_other_tenants [OF ok same ctx]
        batches_read.blind_to_other_tenants [OF ok same ctx] latest_read.blind_to_other_tenants [OF ok same ctx])
qed

definition ex_stored :: "string \<Rightarrow> stored_event" where
  "ex_stored i = \<lparr>se_event_id = i, se_event_type = ''E'', se_aggregate_id = ''a'', se_aggregate_type = ''A'', se_version = 1,
     se_schema_version = 1, se_payload = [], se_metadata = [], se_occurred_at = 0, se_correlation_id = None,
     se_causation_id = None, se_position = None, se_tenant_id = None\<rparr>"

lemma acts_for_acme: "acts_for (Some ''acme'') ''acme''"
  using valid_acme by (simp add: acts_for_def SYSTEM_TENANT_def)

lemma acts_for_beta: "acts_for (Some ''beta'') ''beta''"
  by (simp add: acts_for_def SYSTEM_TENANT_def valid_tenant_def tenant_char_def isalnum_def)

lemma not_of_acme: "not_of ''acme'' (Some ''beta'')"
  using acts_for_beta by (auto simp: not_of_def)

theorem tenant_reads_noninterference_witness:
  "mt_get_events (Some ''acme'') ''a'' 0 None
     (run_appends [(Some ''beta'', [ex_stored ''x'']), (None, [ex_stored ''y''])] (fst (mt_append_batch (Some ''acme'') [ex_stored ''e''] []))) =
   mt_get_events (Some ''acme'') ''a'' 0 None (fst (mt_append_batch (Some ''acme'') [ex_stored ''e''] []))"
proof -
  have "dense (fst (mt_append_batch (Some ''acme'') [ex_stored ''e''] []))"
    by (rule dense_mt_append_batch) (simp_all add: dense_def ex_stored_def)
  from conjunct1 [OF tenant_reads_noninterference [OF this acts_for_acme, of "[(Some ''beta'', [ex_stored ''x'']), (None, [ex_stored ''y''])]"]]
  show ?thesis using not_of_acme by (simp add: not_of_def ex_stored_def)
qed

text \<open>
  a tenant reads what it wrote and nothing else: every event that its listings return carries its
  tenant, and a batch it appends is read back, stamped with it, at the end of its events.
\<close>

theorem tenant_reads_own_events:
  assumes "acts_for ctx t"
  shows "mt_get_all ctx None (fst (mt_append_batch ctx evs es)) =
           Inr (filter (owned se_tenant_id t) es @ drop (length es) (append_batch es (map (\<lambda>e. inject_tenant_into_event e t) evs)))
    \<and> (mt_get_all ctx spec es = Inr found \<longrightarrow> (\<forall>e \<in> set found. se_tenant_id e = Some t \<and> e \<in> set es))"
proof -
  obtain new where new: "append_batch es (map (\<lambda>e. inject_tenant_into_event e t) evs) = es @ new"
      "map se_tenant_id new = map (\<lambda>_. Some t) evs"
    using append_batch_tenants [of es "map (\<lambda>e. inject_tenant_into_event e t) evs"] unfolding inject_tenant_ids by blast
  have "filter (owned se_tenant_id t) new = new"
    by (rule filter_all [OF new(2)])
  then have "mt_get_all ctx None (fst (mt_append_batch ctx evs es)) = Inr (filter (owned se_tenant_id t) es @ new)"
    using acts_forD [OF assms] new(1)
    by (simp add: mt_get_all_def tenant_query_def mt_append_batch_def tenant_write_def get_all_def apply_specification_def
        compose_specs_def build_tenant_spec_eq)
  moreover have "mt_get_all ctx spec es = Inr found \<longrightarrow> (\<forall>e \<in> set found. se_tenant_id e = Some t \<and> e \<in> set es)"
    using all_read.lists_own_rows [OF TrueI assms, of "''event store''" se_tenant_id spec es] by (auto simp: mt_get_all_def)
  ultimately show ?thesis using new(1) by simp
qed

theorem tenant_reads_own_events_witness:
  "mt_get_all (Some ''acme'') None (fst (mt_append_batch (Some ''acme'') [ex_stored ''e''] [ex_stored ''x''])) =
   Inr [(ex_stored ''e'')\<lparr>se_tenant_id := Some ''acme'', se_position := Some 1\<rparr>]"
  using conjunct1 [OF tenant_reads_own_events [OF acts_for_acme, of "[ex_stored ''e'']" "[ex_stored ''x'']"]]
  by (simp add: ex_stored_def append_batch_def append_batch_internal_def place_def inject_tenant_into_event_def)

section \<open>Repository\<close>

text \<open>Writing the tenant column sets it and keeps the identity.\<close>

definition class_ok :: "('i, 'a) entity_class \<Rightarrow> bool" where
  "class_ok k \<longleftrightarrow> (\<forall>t x x'. en_set k t x = Some x' \<longrightarrow> en_tenant k x' = Some t \<and> en_id k x' = en_id k x)"

lemma set_tenant_id_ident: "class_ok k \<Longrightarrow> en_id k (set_tenant_id_on_entity k x t) = en_id k x"
  by (auto simp: class_ok_def set_tenant_id_on_entity_def split: option.splits)

lemma set_tenant_id_other:
  "class_ok k \<Longrightarrow> en_tenant k x = None \<or> en_tenant k x = Some u \<Longrightarrow> u \<noteq> t \<Longrightarrow> en_tenant k (set_tenant_id_on_entity k x u) \<noteq> Some t"
  by (auto simp: class_ok_def set_tenant_id_on_entity_def split: option.splits)

lemma mt_repo_get_own:
  assumes "acts_for ctx t"
  shows "mt_repo_get k ctx i spec r =
    Inr (case map_of r i of None \<Rightarrow> None
         | Some x \<Rightarrow> if compose_specs (build_tenant_specification (en_tenant k) t) spec x then Some x else None)"
  by (simp add: mt_repo_get_def tenant_query_own [OF assms] repo_get_def satisfies_def split: option.splits)

lemma option_eqI: "(\<And>y. a = Some y \<longleftrightarrow> b = Some y) \<Longrightarrow> a = b"
  by (cases a; cases b) auto

lemma mt_repo_get_cong:
  assumes "acts_for ctx t"
    and "\<And>x. en_tenant k x = Some t \<Longrightarrow> map_of r' i = Some x \<longleftrightarrow> map_of r i = Some x"
  shows "mt_repo_get k ctx i spec r' = mt_repo_get k ctx i spec r"
proof -
  let ?C = "compose_specs (build_tenant_specification (en_tenant k) t) spec"
  let ?f = "\<lambda>s. case map_of s i of None \<Rightarrow> None | Some x \<Rightarrow> if ?C x then Some x else None"
  have some: "?f s = Some y \<longleftrightarrow> map_of s i = Some y \<and> ?C y" for s y
    by (auto split: option.splits if_splits)
  have "?f r' = Some y \<longleftrightarrow> ?f r = Some y" for y
    unfolding some using assms(2) [of y] compose_specs_owned [of "en_tenant k" t spec y] by blast
  then have "?f r' = ?f r" by (rule option_eqI)
  then show ?thesis unfolding mt_repo_get_own [OF assms(1)] by simp
qed

lemma mt_repo_delete_map_of:
  assumes "acts_for cu u"
  shows "map_of (fst (mt_repo_delete k cu j spec r)) i =
    (if i = j \<and> (\<forall>x. map_of r j = Some x \<longrightarrow> compose_specs (build_tenant_specification (en_tenant k) u) spec x) then None
     else map_of r i)"
  by (auto simp: mt_repo_delete_def tenant_query_own [OF assms] repo_delete_def AList.delete_conv' split: option.splits)

lemma mt_repo_add_own:
  assumes "acts_for cu u" "en_tenant k x = None \<or> en_tenant k x = Some u"
  shows "mt_repo_add k cu x r =
    (let x' = set_tenant_id_on_entity k x u in (AList.update (en_id k x') x' r, Inr (en_id k x')))"
  using acts_forD [OF assms(1)] assms(2) by (auto simp: mt_repo_add_def tenant_write_def repo_add_def Let_def)

text \<open>The entries of one tenant, in the order of the dictionary; what a read filtered for the tenant sees.\<close>

definition own_entries :: "('i, 'a) entity_class \<Rightarrow> string \<Rightarrow> ('i, 'a) mem_repo \<Rightarrow> ('i, 'a) mem_repo" where
  "own_entries k t r = filter (\<lambda>(i, y). en_tenant k y = Some t) r"

lemma own_entries_delete:
  assumes "dict_ok r" "\<And>y. map_of r j = Some y \<Longrightarrow> en_tenant k y \<noteq> Some t"
  shows "own_entries k t (AList.delete j r) = own_entries k t r"
proof -
  have "(j, y) \<in> set r \<Longrightarrow> en_tenant k y \<noteq> Some t" for y using assms by simp
  then show ?thesis by (auto simp: own_entries_def AList.delete_eq intro!: filter_cong)
qed

lemma own_entries_update:
  assumes "dict_ok r" "\<And>y. map_of r j = Some y \<Longrightarrow> en_tenant k y \<noteq> Some t" "en_tenant k x \<noteq> Some t"
  shows "own_entries k t (AList.update j x r) = own_entries k t r"
  using assms
proof (induction r)
  case (Cons e r)
  obtain i y where e: "e = (i, y)" by (rule prod.exhaust)
  show ?case
  proof (cases "i = j")
    case True
    then show ?thesis using Cons.prems(2) [of y] Cons.prems(3) e by (simp add: own_entries_def)
  next
    case False
    then have "own_entries k t (AList.update j x r) = own_entries k t r"
      using Cons.prems e by (intro Cons.IH) simp_all
    then show ?thesis using False e by (simp add: own_entries_def)
  qed
qed (simp add: own_entries_def)

lemma own_entries_search:
  assumes "\<And>y. C y \<Longrightarrow> en_tenant k y = Some t" "own_entries k t r' = own_entries k t r"
  shows "filter C (dvalues (filter Q r')) = filter C (dvalues (filter Q r))"
proof -
  have "filter C (dvalues (filter Q s)) = filter C (dvalues (filter Q (own_entries k t s)))" for s
    using assms(1) by (induction s) (auto simp: own_entries_def)
  then show ?thesis using assms(2) by metis
qed

lemma mt_repo_list_own:
  assumes "acts_for ctx t"
  shows "mt_repo_list_all k ctx ids spec r =
    Inr (filter (compose_specs (build_tenant_specification (en_tenant k) t) spec)
           (dvalues (filter (\<lambda>(i, y). case ids of None \<Rightarrow> True | Some js \<Rightarrow> i \<in> set js) r)))"
  by (cases ids) (simp_all add: mt_repo_list_all_def tenant_query_own [OF assms] repo_list_all_def)

lemma mt_repo_search_own:
  assumes "acts_for ctx t" "\<nexists>p. c = OtherCriteria p"
  obtains (refused) e where "\<And>r. mt_repo_search k ctx c r = Inl e"
  | (found) C where "\<And>r. mt_repo_search k ctx c r = Inr (filter C (dvalues r))" "\<And>y. C y \<Longrightarrow> en_tenant k y = Some t"
proof -
  let ?T = "build_tenant_specification (en_tenant k) t"
  have run: "mt_repo_search k ctx c r = map_sum id (\<lambda>C. filter C (dvalues r)) (compose_tenant_filter ?T c)" for r
    using acts_forD [OF assms(1)] by (simp add: mt_repo_search_def repo_search_def [abs_def])
  have own: "compose_tenant_filter ?T c = Inr C \<Longrightarrow> C y \<Longrightarrow> en_tenant k y = Some t" for C y
    using assms(2) by (cases "(?T, c)" rule: compose_tenant_filter.cases) (auto simp: build_tenant_specification_def)
  show thesis
    using refused found run own by (cases "compose_tenant_filter ?T c") auto
qed

text \<open>A write by a tenant \<open>u\<close>: a deletion, or an entity under an id that is not one of the tenant \<open>t\<close>.\<close>

inductive foreign_write :: "('i, 'a) entity_class \<Rightarrow> string \<Rightarrow> tenant_ctx \<Rightarrow> ('i, 'a) mem_repo \<Rightarrow> ('i, 'a) mem_repo \<Rightarrow> bool"
  for k t cu r where
  delete: "foreign_write k t cu r (fst (mt_repo_delete k cu j dspec r))"
| store: "(\<And>y. map_of r (en_id k x) = Some y \<Longrightarrow> en_tenant k y \<noteq> Some t) \<Longrightarrow> foreign_write k t cu r (fst (mt_repo_add k cu x r))"

lemma foreign_write_keeps_own:
  assumes "foreign_write k t cu r r'" "acts_for cu u" "u \<noteq> t" "class_ok k" "dict_ok r"
  shows "own_entries k t r' = own_entries k t r \<and> dict_ok r'"
  using assms(1)
proof cases
  case (delete j dspec)
  let ?C = "compose_specs (build_tenant_specification (en_tenant k) u) dspec"
  have "r' = r \<or> r' = AList.delete j r \<and> (\<forall>y. map_of r j = Some y \<longrightarrow> ?C y)"
    by (auto simp: delete mt_repo_delete_def tenant_query_own [OF assms(2)] repo_delete_def split: option.splits)
  then show ?thesis
    using own_entries_delete [OF assms(5), of j k t] compose_specs_owned [of "en_tenant k" u dspec] assms(3,5) by auto
next
  case (store x)
  show ?thesis
  proof (cases "en_tenant k x = None \<or> en_tenant k x = Some u")
    case True
    then show ?thesis
      using store(2) set_tenant_id_other [OF assms(4) True assms(3)] set_tenant_id_ident [OF assms(4)] assms(5)
      by (auto simp: store(1) mt_repo_add_own [OF assms(2) True] Let_def intro!: own_entries_update)
  next
    case False
    then have "r' = r"
      using acts_forD [OF assms(2)] by (auto simp: store(1) mt_repo_add_def tenant_write_def split: option.splits)
    then show ?thesis using assms(5) by simp
  qed
qed

text \<open>
  C14: tenants share a repository without touching each other's entities.  When another tenant has deleted under any
  id and any specification, or stored an entity under an id that the first tenant does not use, then the first tenant still gets,
  lists and searches what it did before; what it lists and finds is its own; and an entity that names a third tenant is
  refused.  Searches are by specification, by dictionary or by nothing: criteria of another class, such as query options, are not
  filtered.
\<close>

theorem repository_isolates_tenants:
  assumes "acts_for ctx t" "acts_for cu u" "u \<noteq> t" "class_ok k" "dict_ok r" "foreign_write k t cu r r'" "\<nexists>p. c = OtherCriteria p"
  shows "mt_repo_get k ctx i spec r' = mt_repo_get k ctx i spec r
    \<and> mt_repo_list_all k ctx ids spec r' = mt_repo_list_all k ctx ids spec r
    \<and> mt_repo_search k ctx c r' = mt_repo_search k ctx c r
    \<and> (\<forall>found. mt_repo_list_all k ctx ids spec r = Inr found \<or> mt_repo_search k ctx c r = Inr found \<longrightarrow>
         (\<forall>y \<in> set found. en_tenant k y = Some t))
    \<and> (\<forall>v. en_tenant k x = Some v \<longrightarrow> v \<noteq> u \<longrightarrow>
         mt_repo_add k cu x r = (r, Inl (CrossTenantAccessError u v (en_type k) None)))"
proof (intro conjI impI allI)
  let ?C = "compose_specs (build_tenant_specification (en_tenant k) t) spec"
  note own = foreign_write_keeps_own [OF assms(6,2,3,4,5)]
  have C: "?C y \<Longrightarrow> en_tenant k y = Some t" for y using compose_specs_owned [of "en_tenant k" t spec y] by blast
  have "(i, y) \<in> set r' \<longleftrightarrow> (i, y) \<in> set r" if "en_tenant k y = Some t" for y
  proof -
    have "(i, y) \<in> set s \<longleftrightarrow> (i, y) \<in> set (own_entries k t s)" for s using that by (simp add: own_entries_def)
    then show ?thesis using own by metis
  qed
  then show "mt_repo_get k ctx i spec r' = mt_repo_get k ctx i spec r"
    using own assms(5) by (intro mt_repo_get_cong [OF assms(1)]) simp
  show "mt_repo_list_all k ctx ids spec r' = mt_repo_list_all k ctx ids spec r"
    unfolding mt_repo_list_own [OF assms(1)] using own_entries_search [OF C] own by metis
  show "mt_repo_search k ctx c r' = mt_repo_search k ctx c r"
    using own_entries_search [where Q = "\<lambda>_. True" and r = r and r' = r' and k = k and t = t] own
    by (cases rule: mt_repo_search_own [OF assms(1,7), of k]) auto
  fix found assume "mt_repo_list_all k ctx ids spec r = Inr found \<or> mt_repo_search k ctx c r = Inr found"
  then show "\<forall>y \<in> set found. en_tenant k y = Some t"
    using C by (cases rule: mt_repo_search_own [OF assms(1,7), of k]) (auto simp: mt_repo_list_own [OF assms(1)])
next
  fix v assume "en_tenant k x = Some v" "v \<noteq> u"
  then show "mt_repo_add k cu x r = (r, Inl (CrossTenantAccessError u v (en_type k) None))"
    using acts_forD [OF assms(2)] by (simp add: mt_repo_add_def tenant_write_def)
qed

definition ex_class :: "(string, string \<times> string option) entity_class" where
  "ex_class = \<lparr>en_id = fst, en_tenant = snd, en_set = (\<lambda>t x. Some (fst x, Some t)), en_type = ''Order'', en_show_id = id\<rparr>"

lemma ex_class_ok: "class_ok ex_class"
  by (simp add: class_ok_def ex_class_def)

theorem repository_isolates_tenants_witness:
  "mt_repo_get ex_class (Some ''acme'') ''o1'' None
     (fst (mt_repo_delete ex_class (Some ''beta'') ''o1'' None [(''o1'', (''o1'', Some ''acme''))])) =
   Inr (Some (''o1'', Some ''acme''))"
proof -
  let ?r = "[(''o1'', (''o1'', Some ''acme''))]"
  have "mt_repo_get ex_class (Some ''acme'') ''o1'' None (fst (mt_repo_delete ex_class (Some ''beta'') ''o1'' None ?r)) =
    mt_repo_get ex_class (Some ''acme'') ''o1'' None ?r"
    by (rule conjunct1 [OF repository_isolates_tenants [OF acts_for_acme acts_for_beta _ ex_class_ok _ foreign_write.delete,
          where c = NoCriteria]]) simp_all
  then show ?thesis
    by (simp add: mt_repo_get_own [OF acts_for_acme] compose_specs_def build_tenant_specification_def ex_class_def)
qed

text \<open>
  the isolation of a repository does not cover ids: an entity stored under an id of another tenant
  replaces that tenant's entity, which it then no longer finds.
\<close>

theorem repository_add_replaces_foreign_entity:
  assumes "acts_for ctx t" "acts_for cu u" "u \<noteq> t" "class_ok k" "en_tenant k x = None"
    and "map_of r (en_id k x) = Some y" "en_tenant k y = Some t"
  shows "mt_repo_get k ctx (en_id k x) None r = Inr (Some y)
    \<and> snd (mt_repo_add k cu x r) = Inr (en_id k x)
    \<and> mt_repo_get k ctx (en_id k x) None (fst (mt_repo_add k cu x r)) = Inr None"
proof -
  have free: "en_tenant k x = None \<or> en_tenant k x = Some u" using assms(5) by simp
  show ?thesis
    using assms set_tenant_id_other [OF assms(4) free assms(3)] set_tenant_id_ident [OF assms(4)]
    by (simp add: mt_repo_add_own [OF assms(2) free] mt_repo_get_own [OF assms(1)] Let_def compose_specs_def
        build_tenant_specification_def AList.update_conv')
qed

theorem repository_add_replaces_foreign_entity_witness:
  "mt_repo_get ex_class (Some ''acme'') ''o1'' None [(''o1'', (''o1'', Some ''acme''))] = Inr (Some (''o1'', Some ''acme'')) \<and>
   mt_repo_get ex_class (Some ''acme'') ''o1'' None
     (fst (mt_repo_add ex_class (Some ''beta'') (''o1'', None) [(''o1'', (''o1'', Some ''acme''))])) = Inr None"
  using repository_add_replaces_foreign_entity [OF acts_for_acme acts_for_beta _ ex_class_ok,
      of "(''o1'', None)" "[(''o1'', (''o1'', Some ''acme''))]" "(''o1'', Some ''acme'')"]
  by (simp add: ex_class_def)

text \<open>
  query options are searched without a tenant filter: criteria that are neither a specification nor a
  dictionary reach the store as they are, and the search returns the entities of every tenant.
\<close>

theorem search_with_options_unfiltered:
  assumes "acts_for ctx t"
  shows "mt_repo_search k ctx (OtherCriteria p) r = Inr (repo_search r p)
    \<and> mt_repo_search k ctx (SpecCriteria p) r = Inr (filter (owned (en_tenant k) t) (repo_search r p))"
  using acts_forD [OF assms]
  by (auto simp: mt_repo_search_def repo_search_def build_tenant_specification_def conj_commute intro: filter_cong)

theorem search_with_options_unfiltered_witness:
  "mt_repo_search ex_class (Some ''acme'') (OtherCriteria (\<lambda>_. True)) [(''o1'', (''o1'', Some ''beta''))] = Inr [(''o1'', Some ''beta'')]
   \<and> mt_repo_search ex_class (Some ''acme'') (SpecCriteria (\<lambda>_. True)) [(''o1'', (''o1'', Some ''beta''))] = Inr []"
  using search_with_options_unfiltered [OF acts_for_acme, of ex_class "\<lambda>_. True" "[(''o1'', (''o1'', Some ''beta''))]"]
  by (simp add: repo_search_def ex_class_def)

section \<open>Outbox\<close>

lemma get_pending_filter:
  "get_pending ob limit (Some p) = py_take limit (sort_key om_created_at (filter (\<lambda>m. om_published_at m = None) (filter p ob)))"
  by (simp add: get_pending_def conj_commute)

lemma set_py_take: "set (py_take n xs) \<subseteq> set xs"
  by (auto simp: py_take_def dest: in_set_takeD)

interpretation pending_read: filtered_listing id "\<lambda>_. True" "\<lambda>ob. get_pending ob limit" for limit
  by unfold_locales (auto simp: get_pending_filter dest!: subsetD [OF set_py_take])

text \<open>
  a tenant's relay sees its own messages: the pending messages of a tenant are those saved in its
  context, and messages that other tenants save are not among them.
\<close>

theorem outbox_pending_per_tenant:
  assumes "acts_for ctx t" "acts_for cu u" "u \<noteq> t"
  shows "mt_get_pending ctx limit (fst (mt_save_messages cu ms ob)) = mt_get_pending ctx limit ob
    \<and> (mt_get_pending ctx limit ob = Inr found \<longrightarrow> list_all (\<lambda>m. om_tenant_id m = Some t) found)"
proof -
  have "filter (owned om_tenant_id t) (map (inject_tenant_into_message u) ms) = []"
    using assms(3) by (simp add: filter_empty_conv inject_tenant_into_message_def)
  then have "filter (owned om_tenant_id t) (id (fst (mt_save_messages cu ms ob))) = filter (owned om_tenant_id t) (id ob)"
    using acts_forD [OF assms(2)] by (simp add: mt_save_messages_def tenant_write_def save_messages_def)
  moreover have "ctx = Some t \<or> ctx = None" "t \<noteq> SYSTEM_TENANT" "t \<noteq> []" using assms(1) by (auto simp: acts_for_def)
  ultimately have "mt_get_pending ctx limit (fst (mt_save_messages cu ms ob)) = mt_get_pending ctx limit ob"
    unfolding mt_get_pending_def by (rule pending_read.blind_to_other_tenants [OF TrueI TrueI])
  moreover have "om_tenant_id m = Some t" if "mt_get_pending ctx limit ob = Inr found" "m \<in> set found" for m
    using pending_read.lists_own_rows [OF TrueI assms(1) that(1) [unfolded mt_get_pending_def] that(2)] by simp
  ultimately show ?thesis by (simp add: list_all_iff)
qed

theorem outbox_pending_per_tenant_witness:
  "mt_get_pending (Some ''acme'') 10 (fst (mt_save_messages (Some ''beta'') [sample_message ''m'' 1] [])) = Inr []"
  using conjunct1 [OF outbox_pending_per_tenant [OF acts_for_acme acts_for_beta, of 10 "[sample_message ''m'' 1]" "[]"]]
  by (simp add: mt_get_pending_def tenant_query_own [OF acts_for_acme] get_pending_def py_take_def)

text \<open>
  the strict outbox never refuses: the messages it checks come from the read that is already
  filtered by tenant, so the check finds no foreign message, and the ids of other tenants' messages are
  marked published like the tenant's own.
\<close>

theorem strict_outbox_marks_foreign_messages:
  assumes "acts_for ctx t"
  shows "strict_mark_published now ctx ids ob = (mark_published now ids ob, Inr ())"
proof -
  obtain pending where p: "mt_get_pending ctx (int (length ids) * 2) ob = Inr pending"
    by (simp add: mt_get_pending_def tenant_query_own [OF assms])
  have own: "om_tenant_id m = Some t" if "m \<in> set pending" for m
    using pending_read.lists_own_rows [OF TrueI assms _ that] p by (auto simp: mt_get_pending_def)
  have "message_owned t pending i = None" for i
    using own by (auto simp: message_owned_def get_tenant_from_message_def dest!: map_of_SomeD split: option.splits)
  then have "List.find (\<lambda>i. message_owned t pending i \<noteq> None) ids = None" by (simp add: find_None_iff)
  then show ?thesis
    using acts_forD [OF assms] p by (simp add: strict_mark_published_def tenant_write_def mt_mark_published_def)
qed

theorem strict_outbox_marks_foreign_messages_witness:
  "strict_mark_published 9 (Some ''acme'') [''m''] (fst (mt_save_messages (Some ''beta'') [sample_message ''m'' 1] [])) =
   (mark_published 9 [''m''] (fst (mt_save_messages (Some ''beta'') [sample_message ''m'' 1] [])), Inr ())"
  by (rule strict_outbox_marks_foreign_messages [OF acts_for_acme])

section \<open>Sagas and jobs\<close>

lemma collect_limited_filter:
  "collect_limited limit P (Some q) xs out = collect_limited limit P (Some q) (filter q xs) out"
  by (induction limit P "Some q" xs out rule: collect_limited.induct) (auto simp: satisfies_def Let_def)

lemma collect_limited_set: "set (collect_limited limit P spec xs out) \<subseteq> set out \<union> {x \<in> set xs. satisfies spec x}"
  by (induction limit P spec xs out rule: collect_limited.induct) (auto simp: Let_def)

lemma collect_limited_cong:
  "filter q xs = filter q ys \<Longrightarrow> collect_limited limit P (Some q) xs out = collect_limited limit P (Some q) ys out"
  by (metis collect_limited_filter)

lemma collect_limited_sound: "e \<in> set (collect_limited limit P (Some p) xs []) \<Longrightarrow> p e \<and> e \<in> set xs"
  using collect_limited_set [of limit P "Some p" xs "[]"] by (auto simp: satisfies_def)

lemma filter_conj_cong: "filter p xs = filter p ys \<Longrightarrow> filter (\<lambda>x. q x \<and> p x) xs = filter (\<lambda>x. q x \<and> p x) ys"
  by (metis filter_comm filter_filter)

lemma collect_listing:
  "filtered_listing dvalues (\<lambda>_. True) (\<lambda>r spec. collect_limited limit P spec (dvalues r) [])"
  by unfold_locales (auto dest: collect_limited_sound intro: collect_limited_cong)

interpretation stalled_read: filtered_listing dvalues "\<lambda>_. True" "\<lambda>r. find_stalled_sagas r limit" for limit
  unfolding find_stalled_sagas_def [abs_def] by (rule collect_listing)

interpretation suspended_read: filtered_listing dvalues "\<lambda>_. True" "\<lambda>r. find_suspended_sagas r limit" for limit
  unfolding find_suspended_sagas_def [abs_def] by (rule collect_listing)

interpretation tcc_read: filtered_listing dvalues "\<lambda>_. True" "\<lambda>r. find_running_sagas_with_tcc_steps r limit" for limit
  unfolding find_running_sagas_with_tcc_steps_def [abs_def] by (rule collect_listing)

interpretation stale_read: filtered_listing dvalues "\<lambda>_. True" "\<lambda>r. get_stale_jobs now r timeout" for now timeout
  by unfold_locales (auto simp: get_stale_jobs_def satisfies_def intro: filter_conj_cong)

lemma find_by_status_cong:
  assumes "filter p (dvalues r) = filter p (dvalues r')"
  shows "find_by_status r statuses limit offset (Some p) = find_by_status r' statuses limit offset (Some p)"
  using filter_conj_cong [OF assms, of "\<lambda>j. bj_status j \<in> set statuses"] by (simp add: find_by_status_def satisfies_def)

interpretation status_read: filtered_read dvalues "\<lambda>_. True" "\<lambda>r. find_by_status r statuses limit offset" for statuses limit offset
  by unfold_locales (rule find_by_status_cong)

text \<open>
  the recovery queries of a tenant find its own work: every stalled, suspended or unconfirmed saga and
  every stale job they return is stored with the caller's tenant.
\<close>

theorem recovery_queries_per_tenant:
  assumes "acts_for ctx t"
    and "mt_find_stalled_sagas ctx limit sspec sagas = Inr stalled" "mt_find_suspended_sagas ctx limit sspec sagas = Inr suspended"
    and "mt_find_running_sagas_with_tcc_steps ctx limit sspec sagas = Inr tcc" "mt_get_stale_jobs now ctx timeout jspec jobs = Inr stale"
  shows "list_all (\<lambda>s. ss_tenant_id s = Some t \<and> s \<in> set (dvalues sagas)) (stalled @ suspended @ tcc)
    \<and> list_all (\<lambda>j. bj_tenant_id j = Some t \<and> j \<in> set (dvalues jobs)) stale"
  using stalled_read.lists_own_rows [OF TrueI assms(1) assms(2) [unfolded mt_find_stalled_sagas_def]]
    suspended_read.lists_own_rows [OF TrueI assms(1) assms(3) [unfolded mt_find_suspended_sagas_def]]
    tcc_read.lists_own_rows [OF TrueI assms(1) assms(4) [unfolded mt_find_running_sagas_with_tcc_steps_def]]
    stale_read.lists_own_rows [OF TrueI assms(1) assms(5) [unfolded mt_get_stale_jobs_def]]
  by (simp add: list_all_iff ball_Un)

definition ex_saga :: "string \<Rightarrow> string option \<Rightarrow> saga_state" where
  "ex_saga i t = (initial_saga_state 0 i ''S'' ''c'')\<lparr>ss_status := SAGA_SUSPENDED, ss_tenant_id := t\<rparr>"

theorem recovery_queries_per_tenant_witness:
  "list_all (\<lambda>s. ss_tenant_id s = Some ''acme'' \<and> s \<in> set (dvalues [(''1'', ex_saga ''1'' (Some ''beta'')), (''2'', ex_saga ''2'' (Some ''acme''))]))
     [ex_saga ''2'' (Some ''acme'')]"
proof -
  let ?r = "[(''1'', ex_saga ''1'' (Some ''beta'')), (''2'', ex_saga ''2'' (Some ''acme''))]"
  have q: "mt_find_stalled_sagas (Some ''acme'') 10 None ?r = Inr []"
    "mt_find_suspended_sagas (Some ''acme'') 10 None ?r = Inr [ex_saga ''2'' (Some ''acme'')]"
    "mt_find_running_sagas_with_tcc_steps (Some ''acme'') 10 None ?r = Inr []"
    "mt_get_stale_jobs 0 (Some ''acme'') None None [] = Inr []"
    by (simp_all add: mt_find_stalled_sagas_def mt_find_suspended_sagas_def mt_find_running_sagas_with_tcc_steps_def
        mt_get_stale_jobs_def tenant_query_own [OF acts_for_acme] all_compose_def find_stalled_sagas_def
        find_suspended_sagas_def find_running_sagas_with_tcc_steps_def get_stale_jobs_def satisfies_def compose_specs_def
        build_tenant_specification_def ex_saga_def initial_saga_state_def)
  from recovery_queries_per_tenant [OF acts_for_acme q] show ?thesis by simp
qed

lemma own_or_none_own:
  assumes "acts_for ctx t"
  shows "own_or_none what ctx entry found = Inr (case found of None \<Rightarrow> None | Some x \<Rightarrow> if foreign t (entry x) then None else Some x)"
  using acts_forD [OF assms] by (simp add: own_or_none_def split: option.splits)

text \<open>
  a saga of another tenant hides the caller's: the lookup by correlation id takes the first saga of
  any tenant and then checks its owner, so a tenant whose saga was stored later does not find it and the
  answer is that there is none.
\<close>

theorem correlation_lookup_hidden_by_other_tenant:
  assumes "acts_for ctx t" "acts_for (Some u) u" "u \<noteq> t"
    and "ss_tenant_id s = Some u" "ss_correlation_id s = Some c" "ss_saga_type s = ty"
    and "ss_tenant_id own = Some t" "ss_correlation_id own = Some c" "ss_saga_type own = ty"
  shows "mt_find_by_correlation_id ctx c ty [(i, own)] = Inr (Some own)
    \<and> mt_find_by_correlation_id ctx c ty ((j, s) # [(i, own)]) = Inr None"
  using assms(3-9)
  by (simp add: mt_find_by_correlation_id_def own_or_none_own [OF assms(1)] find_by_correlation_id_def foreign_def
      get_tenant_id_from_saga_def tenant_entry_def)

theorem correlation_lookup_hidden_by_other_tenant_witness:
  "mt_find_by_correlation_id (Some ''acme'') ''c'' ''S'' [(''2'', ex_saga ''2'' (Some ''acme''))] = Inr (Some (ex_saga ''2'' (Some ''acme''))) \<and>
   mt_find_by_correlation_id (Some ''acme'') ''c'' ''S'' [(''1'', ex_saga ''1'' (Some ''beta'')), (''2'', ex_saga ''2'' (Some ''acme''))] = Inr None"
proof -
  have f: "ss_saga_type (ex_saga i t) = ''S''" "ss_correlation_id (ex_saga i t) = Some ''c''" "ss_tenant_id (ex_saga i t) = t" for i t
    by (simp_all add: ex_saga_def initial_saga_state_def)
  show ?thesis
    using correlation_lookup_hidden_by_other_tenant [OF acts_for_acme acts_for_beta _ f(3) f(2) f(1) f(3) f(2) f(1), where j = "''1''" and i = "''2''"]
    by simp
qed

section \<open>Snapshots\<close>

text \<open>
  snapshots are not separated: over the in-memory store, which ignores the specification it is given,
  a tenant's latest snapshot of an aggregate is whatever any tenant saved last under that aggregate
  type and id.
\<close>

theorem snapshot_read_crosses_tenants:
  assumes "acts_for ctx t" "acts_for cu u" "''tenant_id'' \<notin> set (dkeys data)"
  shows "mt_get_latest_snapshot ctx ty i (fst (mt_save_snapshot now cu ty i data v st)) =
    Inr (Some \<lparr>sn_data = AList.update ''tenant_id'' (JStr u) data, sn_version = v, sn_created_at = now\<rparr>)"
  using acts_forD [OF assms(1)] acts_forD [OF assms(2)] assms(3)
  by (simp add: mt_get_latest_snapshot_def mt_save_snapshot_def tenant_write_def save_snapshot_def get_latest_snapshot_def
      stamp_metadata_def AList.update_conv')

theorem snapshot_read_crosses_tenants_witness:
  "mt_get_latest_snapshot (Some ''acme'') ''Order'' ''1'' (fst (mt_save_snapshot 0 (Some ''beta'') ''Order'' ''1'' [] 3 [])) =
   Inr (Some \<lparr>sn_data = [(''tenant_id'', JStr ''beta'')], sn_version = 3, sn_created_at = 0\<rparr>)"
  using snapshot_read_crosses_tenants [OF acts_for_acme acts_for_beta, of "[]"] by simp

section \<open>Upcasting\<close>

lemma reinject_tenant_kept:
  assumes "map_of d ''tenant_id'' = Some t" "t \<noteq> JNull"
  shows "map_of (reinject_tenant d d') ''tenant_id'' = Some t"
  using assms by (cases t) (auto simp: reinject_tenant_def AList.update_conv')

lemma mt_upcaster_simps [simp]:
  "up_event_type (mt_upcaster u) = up_event_type u" "up_source_version (mt_upcaster u) = up_source_version u"
  "up_target_version (mt_upcaster u) = up_target_version u" "up_fn (mt_upcaster u) = mt_upcast (up_fn u)"
  by (simp_all add: mt_upcaster_def)

text \<open>
  no schema migration changes the tenant of an event: whatever the upcasters of a chain do to the
  event data, the chain of their tenant-preserving versions returns data with the tenant it was given.
\<close>

theorem upcasting_keeps_tenant:
  assumes "map_of d ''tenant_id'' = Some t" "t \<noteq> JNull" "chain_upcast (map mt_upcaster us) ty d v = Inr (d', v')"
  shows "map_of d' ''tenant_id'' = Some t"
  using assms
proof (induction us arbitrary: d v)
  case (Cons u us)
  show ?case
  proof (cases "up_event_type u = ty \<and> up_source_version u = v")
    case True
    then obtain e where e: "up_fn u d = Inr e"
      and run: "chain_upcast (map mt_upcaster us) ty (reinject_tenant d e) (up_target_version u) = Inr (d', v')"
      using Cons.prems(3) by (cases "up_fn u d") (auto simp: mt_upcast_def)
    show ?thesis by (rule Cons.IH [OF reinject_tenant_kept [OF Cons.prems(1,2)] Cons.prems(2) run])
  next
    case False
    then show ?thesis
      using Cons.IH [OF Cons.prems(1,2), of v] Cons.prems(3) by (auto split: if_splits)
  qed
qed simp

theorem upcasting_keeps_tenant_witness:
  "chain_upcast [mt_upcaster (new_upcaster ''E'' 1 2 (\<lambda>d. Inr []))] ''E'' [(''tenant_id'', JStr ''acme'')] 1 = Inr ([(''tenant_id'', JStr ''acme'')], 2) \<and>
   map_of [(''tenant_id'', JStr ''acme'')] ''tenant_id'' = Some (JStr ''acme'')"
proof -
  have "chain_upcast (map mt_upcaster [new_upcaster ''E'' 1 2 (\<lambda>d. Inr [])]) ''E'' [(''tenant_id'', JStr ''acme'')] 1 =
      Inr ([(''tenant_id'', JStr ''acme'')], 2)"
    by (simp add: mt_upcaster_def new_upcaster_def mt_upcast_def reinject_tenant_def)
  with upcasting_keeps_tenant [OF _ _ this] show ?thesis by simp
qed

section \<open>Keys\<close>

lemma tenant_key_eq:
  assumes "valid_tenant t" "valid_tenant u"
  shows "tenant_key t a = tenant_key u b \<longleftrightarrow> t = u \<and> a = b"
proof
  assume "tenant_key t a = tenant_key u b"
  then have "takeWhile (\<lambda>c. c \<noteq> CHR '':'') (t @ CHR '':'' # a) = takeWhile (\<lambda>c. c \<noteq> CHR '':'') (u @ CHR '':'' # b)"
    by (simp add: tenant_key_def)
  then have "t = u"
    using separator_not_in_tenant(1) [OF assms(1)] separator_not_in_tenant(1) [OF assms(2)]
    by (subst (asm) (1 2) takeWhile_append2) auto
  with \<open>tenant_key t a = tenant_key u b\<close> show "t = u \<and> a = b" by (simp add: tenant_key_def)
qed simp

lemma tenant_names:
  assumes "acts_for ctx t"
  shows "build_tenant_aware_key what ctx key = Inr (tenant_key t key)" "tenant_projection_name ctx name = Inr (tenant_key t name)"
  using acts_forD [OF assms] by (simp_all add: build_tenant_aware_key_def tenant_projection_name_def)

text \<open>
  prefixed keys never meet: a projection position or a cache entry of one tenant is untouched by
  what another tenant saves, deletes or clears, also under the same name, because no tenant identifier
  contains the separator.
\<close>

theorem prefixed_keys_separate_tenants:
  assumes "acts_for ctx t" "acts_for cu u" "u \<noteq> t"
  shows "mt_get_position ctx n (fst (mt_save_position cu m p cp)) = mt_get_position ctx n cp
    \<and> mt_cache_get ctx n (fst (mt_cache_set cu m v c)) = mt_cache_get ctx n c
    \<and> mt_cache_get ctx n (fst (mt_cache_delete cu m c)) = mt_cache_get ctx n c
    \<and> mt_cache_get ctx n (fst (mt_cache_clear cu c)) = mt_cache_get ctx n c
    \<and> mt_get_position ctx n (fst (mt_save_position ctx n p cp)) = Inr (Some p)
    \<and> mt_cache_get ctx n (fst (mt_cache_set ctx n v c)) = Inr (Some v)"
proof -
  have ne: "tenant_key t n \<noteq> tenant_key u m"
    using tenant_key_eq [OF acts_forD(4) [OF assms(1)] acts_forD(4) [OF assms(2)]] assms(3) by blast
  have "\<not> prefix (u @ '':'') (tenant_key t n)"
  proof
    assume "prefix (u @ '':'') (tenant_key t n)"
    then obtain k where "tenant_key t n = tenant_key u k" by (auto simp: prefix_def tenant_key_def)
    then show False using tenant_key_eq [OF acts_forD(4) [OF assms(1)] acts_forD(4) [OF assms(2)]] assms(3) by blast
  qed
  then have "map_of (filter (\<lambda>(k, v). \<not> prefix (u @ '':'') k) c) (tenant_key t n) = map_of c (tenant_key t n)"
    by (induction c) auto
  with ne show ?thesis
    using acts_forD(2) [OF assms(2)]
    by (simp add: mt_get_position_def mt_save_position_def mt_cache_get_def mt_cache_set_def mt_cache_delete_def
        mt_cache_clear_def tenant_names [OF assms(1)] tenant_names [OF assms(2)] get_position_def save_position_def
        AList.update_conv' AList.delete_conv')
qed

theorem prefixed_keys_separate_tenants_witness:
  "mt_cache_get (Some ''acme'') ''k'' (fst (mt_cache_clear (Some ''beta'') (fst (mt_cache_set (Some ''acme'') ''k'' (1::nat) [])))) = Inr (Some 1)"
proof -
  have "mt_cache_get (Some ''acme'') ''k'' (fst (mt_cache_clear (Some ''beta'') (fst (mt_cache_set (Some ''acme'') ''k'' (1::nat) [])))) =
      mt_cache_get (Some ''acme'') ''k'' (fst (mt_cache_set (Some ''acme'') ''k'' (1::nat) []))"
    using prefixed_keys_separate_tenants [OF acts_for_acme acts_for_beta, where n = "''k''" and c = "fst (mt_cache_set (Some ''acme'') ''k'' 1 [])"]
    by blast
  then show ?thesis
    by (simp add: mt_cache_get_def mt_cache_set_def tenant_names [OF acts_for_acme])
qed

text \<open>
  the batch methods of the cache are shared: what one tenant stores with \<^verbatim>\<open>set_batch\<close> another
  reads with \<^verbatim>\<open>get_batch\<close> under the same key.
\<close>

theorem cache_batches_cross_tenants:
  "mt_cache_get_batch ctx [k] (mt_cache_set_batch cu [(k, v)] c) = [Some v]"
  by (simp add: mt_cache_get_batch_def mt_cache_set_batch_def)

section \<open>Scheduled commands\<close>

text \<open>
  cancelling needs a tenant but checks no owner: any tenant cancels any scheduled command by its id,
  although it never sees it among its due commands.
\<close>

theorem cancel_crosses_tenants:
  assumes "acts_for ctx t" "map_of s i = Some e" "sc_tenant_id e = Some u" "u \<noteq> t"
  shows "mt_cancel ctx i s = (AList.delete i s, Inr True)
    \<and> (\<exists>due. mt_get_due_commands now ctx None [(i, e)] = Inr due \<and> due = [])"
proof -
  have "i \<in> set (dkeys s)" using assms(2) by (metis domI dom_map_of_conv_image_fst image_set)
  then show ?thesis
    using acts_forD [OF assms(1)] assms(3,4)
    by (simp add: mt_cancel_def tenant_write_def cancel_scheduled_def mt_get_due_commands_def tenant_query_own [OF assms(1)]
        get_due_commands_def due_entries_def satisfies_def all_compose_def)
qed

theorem cancel_crosses_tenants_witness:
  "mt_cancel (Some ''acme'') ''1'' [(''1'', (ex_entry ''pay'' 5)\<lparr>sc_tenant_id := Some ''beta''\<rparr>)] = ([], Inr True)"
  using cancel_crosses_tenants [OF acts_for_acme, where i = "''1''" and s = "[(''1'', (ex_entry ''pay'' 5)\<lparr>sc_tenant_id := Some ''beta''\<rparr>)]"
      and u = "''beta''"] by simp

end
