(* ===== verification/TenantAdmin.thy ===== *)
theory TenantAdmin
  imports Tenancy
begin

text \<open>
  Tenant administration (features/multitenancy admin.py): tenant records, the in-memory registry and the
  operations of \<^verbatim>\<open>TenantAdmin\<close>, each behind \<^verbatim>\<open>_require_system_tenant\<close>.

  The provisioning, deactivation and deletion callbacks create or drop schemas, databases and access
  outside the registry: they map that outside state to its next value and may raise.
\<close>

section \<open>Records and registry\<close>

datatype tenant_status = TENANT_ACTIVE | TENANT_DEACTIVATED | TENANT_SUSPENDED | TENANT_PROVISIONING

record tenant_info =
  ti_tenant_id :: string
  ti_name :: string
  ti_status :: tenant_status
  ti_strategy :: isolation_strategy
  ti_created_at :: time
  ti_updated_at :: time
  ti_deactivated_at :: "time option"
  ti_metadata :: payload

type_synonym tenant_registry = "(string, tenant_info) dict"

definition registry_get :: "tenant_registry \<Rightarrow> string \<Rightarrow> tenant_info option" where
  "registry_get r tenant_id = map_of r tenant_id"

definition registry_list_all :: "bool \<Rightarrow> tenant_registry \<Rightarrow> tenant_info list" where
  "registry_list_all include_deactivated r =
     (if \<not> include_deactivated then filter (\<lambda>t. ti_status t \<noteq> TENANT_DEACTIVATED) (dvalues r) else dvalues r)"

definition registry_save :: "tenant_info \<Rightarrow> tenant_registry \<Rightarrow> tenant_registry" where
  "registry_save t r = AList.update (ti_tenant_id t) t r"

definition registry_delete :: "string \<Rightarrow> tenant_registry \<Rightarrow> tenant_registry" where
  "registry_delete tenant_id r = AList.delete tenant_id r"

section \<open>TenantAdmin\<close>

type_synonym 'w callback = "tenant_info \<Rightarrow> 'w \<Rightarrow> 'w \<times> exn option"
type_synonym 'w admin_state = "tenant_registry \<times> 'w"

definition require_system_tenant :: "tenant_ctx \<Rightarrow> ('w admin_state \<Rightarrow> 'w admin_state \<times> (exn + 'a)) \<Rightarrow> 'w admin_state \<Rightarrow> 'w admin_state \<times> (exn + 'a)" where
  "require_system_tenant ctx func st =
     (if \<not> is_system_tenant ctx
      then (st, Inl (CrossTenantAccessError (case get_current_tenant_or_none ctx of None \<Rightarrow> ''None'' | Some t \<Rightarrow> t)
                       SYSTEM_TENANT ''TenantAdmin'' (Some ''*'')))
      else func st)"

definition run_callback :: "'w callback option \<Rightarrow> tenant_info \<Rightarrow> 'w \<Rightarrow> 'w \<times> exn option" where
  "run_callback cb t w = (case cb of None \<Rightarrow> (w, None) | Some f \<Rightarrow> f t w)"

text \<open>
  \<^verbatim>\<open>provision_tenant\<close>: the record is saved as provisioning, the callback runs, the record is saved as active; an
  exception of the callback removes the record.  \<open>now\<close> and \<open>later\<close> are the two readings of the clock.
\<close>

definition provision_tenant ::
  "(exn \<Rightarrow> string) \<Rightarrow> time \<Rightarrow> time \<Rightarrow> isolation_config \<Rightarrow> 'w callback option \<Rightarrow> tenant_ctx \<Rightarrow> string \<Rightarrow> string \<Rightarrow> payload option \<Rightarrow>
     'w admin_state \<Rightarrow> 'w admin_state \<times> (exn + tenant_info)" where
  "provision_tenant str now later cfg on_provision ctx tenant_id name metadata =
     require_system_tenant ctx (\<lambda>(r, w).
       case registry_get r tenant_id of
         Some existing \<Rightarrow>
           if ti_status existing = TENANT_DEACTIVATED
           then ((r, w), Inl (TenantProvisioningError ''Tenant exists but is deactivated. Use reactivate_tenant() instead.''))
           else ((r, w), Inl (TenantProvisioningError ''Tenant already exists''))
       | None \<Rightarrow>
           let tenant = \<lparr>ti_tenant_id = tenant_id, ti_name = name, ti_status = TENANT_PROVISIONING,
                         ti_strategy = ic_strategy cfg, ti_created_at = now, ti_updated_at = now,
                         ti_deactivated_at = None, ti_metadata = (case metadata of None \<Rightarrow> [] | Some m \<Rightarrow> m)\<rparr>;
               r = registry_save tenant r
           in case run_callback on_provision tenant w of
                (w, None) \<Rightarrow>
                  (let tenant = tenant\<lparr>ti_status := TENANT_ACTIVE, ti_updated_at := later\<rparr>
                   in ((registry_save tenant r, w), Inr tenant))
              | (w, Some e) \<Rightarrow>
                  ((registry_delete tenant_id r, w),
                   Inl (case e of TenantProvisioningError m \<Rightarrow> e
                        | _ \<Rightarrow> TenantProvisioningError (''Provisioning failed: '' @ str e))))"

definition deactivate_tenant ::
  "time \<Rightarrow> 'w callback option \<Rightarrow> tenant_ctx \<Rightarrow> string \<Rightarrow> string option \<Rightarrow> 'w admin_state \<Rightarrow> 'w admin_state \<times> (exn + tenant_info)" where
  "deactivate_tenant now on_deactivate ctx tenant_id reason =
     require_system_tenant ctx (\<lambda>(r, w).
       case registry_get r tenant_id of
         None \<Rightarrow> ((r, w), Inl (TenantNotFoundError tenant_id))
       | Some tenant \<Rightarrow>
           if ti_status tenant = TENANT_DEACTIVATED then ((r, w), Inr tenant)
           else
             let md = (if truthy reason then AList.update ''deactivation_reason'' (JStr (the reason)) (ti_metadata tenant)
                       else ti_metadata tenant);
                 updated = tenant\<lparr>ti_status := TENANT_DEACTIVATED, ti_updated_at := now, ti_deactivated_at := Some now,
                                  ti_metadata := md\<rparr>;
                 r = registry_save updated r
             in case run_callback on_deactivate updated w of
                  (w, None) \<Rightarrow> ((r, w), Inr updated)
                | (w, Some e) \<Rightarrow> ((r, w), Inl e))"

definition reactivate_tenant :: "time \<Rightarrow> tenant_ctx \<Rightarrow> string \<Rightarrow> 'w admin_state \<Rightarrow> 'w admin_state \<times> (exn + tenant_info)" where
  "reactivate_tenant now ctx tenant_id =
     require_system_tenant ctx (\<lambda>(r, w).
       case registry_get r tenant_id of
         None \<Rightarrow> ((r, w), Inl (TenantNotFoundError tenant_id))
       | Some tenant \<Rightarrow>
           if ti_status tenant \<noteq> TENANT_DEACTIVATED then ((r, w), Inr tenant)
           else let updated = tenant\<lparr>ti_status := TENANT_ACTIVE, ti_updated_at := now, ti_deactivated_at := None\<rparr>
                in ((registry_save updated r, w), Inr updated))"

definition list_tenants :: "tenant_ctx \<Rightarrow> bool \<Rightarrow> 'w admin_state \<Rightarrow> 'w admin_state \<times> (exn + tenant_info list)" where
  "list_tenants ctx include_deactivated =
     require_system_tenant ctx (\<lambda>(r, w). ((r, w), Inr (registry_list_all include_deactivated r)))"

definition get_tenant :: "tenant_ctx \<Rightarrow> string \<Rightarrow> 'w admin_state \<Rightarrow> 'w admin_state \<times> (exn + tenant_info)" where
  "get_tenant ctx tenant_id =
     require_system_tenant ctx (\<lambda>(r, w).
       case registry_get r tenant_id of
         None \<Rightarrow> ((r, w), Inl (TenantNotFoundError tenant_id))
       | Some tenant \<Rightarrow>
           if ti_status tenant = TENANT_DEACTIVATED then ((r, w), Inl (TenantDeactivatedError tenant_id))
           else ((r, w), Inr tenant))"

definition update_tenant_metadata ::
  "time \<Rightarrow> tenant_ctx \<Rightarrow> string \<Rightarrow> payload \<Rightarrow> bool \<Rightarrow> 'w admin_state \<Rightarrow> 'w admin_state \<times> (exn + tenant_info)" where
  "update_tenant_metadata now ctx tenant_id metadata merge =
     require_system_tenant ctx (\<lambda>(r, w).
       case registry_get r tenant_id of
         None \<Rightarrow> ((r, w), Inl (TenantNotFoundError tenant_id))
       | Some tenant \<Rightarrow>
           let md = fold (\<lambda>(k, v). AList.update k v) metadata (if merge then ti_metadata tenant else []);
               updated = tenant\<lparr>ti_updated_at := now, ti_metadata := md\<rparr>
           in ((registry_save updated r, w), Inr updated))"

definition delete_tenant :: "'w callback option \<Rightarrow> tenant_ctx \<Rightarrow> string \<Rightarrow> 'w admin_state \<Rightarrow> 'w admin_state \<times> (exn + unit)" where
  "delete_tenant on_delete ctx tenant_id =
     require_system_tenant ctx (\<lambda>(r, w).
       case registry_get r tenant_id of
         None \<Rightarrow> ((r, w), Inl (TenantNotFoundError tenant_id))
       | Some tenant \<Rightarrow>
           (case run_callback on_delete tenant w of
              (w, None) \<Rightarrow> ((registry_delete tenant_id r, w), Inr ())
            | (w, Some e) \<Rightarrow> ((r, w), Inl e)))"

section \<open>The life of a tenant\<close>

lemmas admin_defs = require_system_tenant_def registry_get_def registry_save_def registry_delete_def run_callback_def

text \<open>The steps an administrator takes, with their arguments and callbacks.\<close>

datatype 'w admin_step =
    Provision "exn \<Rightarrow> string" time time isolation_config "'w callback option" string string "payload option"
  | Deactivate time "'w callback option" string "string option"
  | Reactivate time string
  | UpdateMetadata time string payload bool
  | Delete "'w callback option" string

fun admin_run :: "tenant_ctx \<Rightarrow> 'w admin_step \<Rightarrow> 'w admin_state \<Rightarrow> 'w admin_state" where
  "admin_run ctx (Provision str now later cfg cb t n md) st = fst (provision_tenant str now later cfg cb ctx t n md st)"
| "admin_run ctx (Deactivate now cb t reason) st = fst (deactivate_tenant now cb ctx t reason st)"
| "admin_run ctx (Reactivate now t) st = fst (reactivate_tenant now ctx t st)"
| "admin_run ctx (UpdateMetadata now t md merge) st = fst (update_tenant_metadata now ctx t md merge st)"
| "admin_run ctx (Delete cb t) st = fst (delete_tenant cb ctx t st)"

text \<open>
  A registry between operations: every record is stored under its id, is active or deactivated (a
  record is provisioning only while its callback runs), and carries a deactivation time exactly when it
  is deactivated.
\<close>

definition tenant_ok :: "string \<Rightarrow> tenant_info \<Rightarrow> bool" where
  "tenant_ok i t \<longleftrightarrow> ti_tenant_id t = i \<and> ti_status t \<in> {TENANT_ACTIVE, TENANT_DEACTIVATED}
     \<and> (ti_deactivated_at t \<noteq> None \<longleftrightarrow> ti_status t = TENANT_DEACTIVATED)"

definition registry_ok :: "tenant_registry \<Rightarrow> bool" where
  "registry_ok r \<longleftrightarrow> (\<forall>i t. map_of r i = Some t \<longrightarrow> tenant_ok i t)"

lemma registry_ok_save: "registry_ok r \<Longrightarrow> tenant_ok i t \<Longrightarrow> registry_ok (AList.update i t r)"
  by (auto simp: registry_ok_def AList.update_conv')

lemma registry_ok_cycle: "registry_ok r \<Longrightarrow> registry_ok (AList.delete i (AList.update i t r))"
  by (auto simp: registry_ok_def AList.update_conv' AList.delete_conv')

lemma registry_ok_overwrite: "registry_ok r \<Longrightarrow> tenant_ok i t \<Longrightarrow> registry_ok (AList.update i t (AList.update i u r))"
  by (auto simp: registry_ok_def AList.update_conv')

lemma registry_ok_delete: "registry_ok r \<Longrightarrow> registry_ok (AList.delete i r)"
  by (auto simp: registry_ok_def AList.delete_conv')

lemma registry_okD: "registry_ok r \<Longrightarrow> map_of r i = Some t \<Longrightarrow> tenant_ok i t"
  by (simp add: registry_ok_def)

lemma admin_run_ok:
  assumes "registry_ok (fst st)"
  shows "registry_ok (fst (admin_run ctx step st))"
proof (cases step)
  case (Provision str now later cfg cb t n md)
  then show ?thesis using assms
    by (cases st) (auto simp: provision_tenant_def admin_defs Let_def tenant_ok_def
        intro!: registry_ok_save registry_ok_cycle split: option.splits prod.splits)
next
  case (Deactivate now cb t reason)
  then show ?thesis using assms
    by (cases st) (auto simp: deactivate_tenant_def admin_defs Let_def tenant_ok_def dest: registry_okD
        intro!: registry_ok_save split: option.splits prod.splits)
next
  case (Reactivate now t)
  then show ?thesis using assms
    by (cases st) (auto simp: reactivate_tenant_def admin_defs Let_def tenant_ok_def dest: registry_okD
        intro!: registry_ok_save split: option.splits)
next
  case (UpdateMetadata now t md merge)
  then show ?thesis using assms
    by (cases st) (auto simp: update_tenant_metadata_def admin_defs Let_def tenant_ok_def dest: registry_okD
        intro!: registry_ok_save split: option.splits)
next
  case (Delete cb t)
  then show ?thesis using assms
    by (cases st) (auto simp: delete_tenant_def admin_defs intro!: registry_ok_delete split: option.splits prod.splits)
qed

lemma admin_run_denied: "\<not> is_system_tenant ctx \<Longrightarrow> admin_run ctx step st = st"
  by (cases step)
    (simp_all add: provision_tenant_def deactivate_tenant_def reactivate_tenant_def update_tenant_metadata_def
      delete_tenant_def require_system_tenant_def)

definition admin_runs :: "(tenant_ctx \<times> 'w admin_step) list \<Rightarrow> 'w admin_state \<Rightarrow> 'w admin_state" where
  "admin_runs steps st = fold (\<lambda>(ctx, step) st. admin_run ctx step st) steps st"

lemma admin_runs_Cons: "admin_runs ((ctx, step) # steps) st = admin_runs steps (admin_run ctx step st)"
  by (simp add: admin_runs_def)

text \<open>
  the tenant registry stays consistent under every sequence of operations by any callers, with
  callbacks that may raise at any point: each record lies under its own id and is active, or deactivated
  with the time of its deactivation; none is left half provisioned.  Callers outside the system
  context change nothing.
\<close>

theorem tenant_registry_consistent:
  assumes "registry_ok (fst st)"
  shows "registry_ok (fst (admin_runs steps st))
    \<and> admin_runs steps st = admin_runs (filter (\<lambda>(ctx, step). is_system_tenant ctx) steps) st"
  using assms
proof (induction steps arbitrary: st)
  case (Cons s steps)
  obtain ctx step where s: "s = (ctx, step)" by (cases s)
  have IH: "registry_ok (fst (admin_runs steps (admin_run ctx step st)))
      \<and> admin_runs steps (admin_run ctx step st) =
        admin_runs (filter (\<lambda>(ctx, step). is_system_tenant ctx) steps) (admin_run ctx step st)"
    by (rule Cons.IH [OF admin_run_ok [OF Cons.prems]])
  show ?case
  proof (cases "is_system_tenant ctx")
    case True
    with IH show ?thesis unfolding s by (simp only: filter.simps admin_runs_Cons prod.case if_True) metis
  next
    case False
    with IH admin_run_denied [OF False, of step st] show ?thesis
      unfolding s by (simp only: filter.simps admin_runs_Cons prod.case if_False) metis
  qed
qed (simp add: admin_runs_def)

definition failing :: "nat callback" where
  "failing t w = (Suc w, Some (Other ''no database''))"

theorem tenant_registry_consistent_witness:
  "admin_runs [(Some ''__system__'', Provision (\<lambda>_. []) 1 2 default_isolation (Some failing) ''acme'' ''Acme'' None),
      (Some ''acme'', Delete None ''acme'')] ([], 0) = ([], 1) \<and>
   registry_ok (fst (admin_runs [(Some ''__system__'', Provision (\<lambda>_. []) 1 2 default_isolation (Some failing) ''acme'' ''Acme'' None),
      (Some ''acme'', Delete None ''acme'')] ([], 0)))"
proof
  have ok: "registry_ok (fst ([], 0 :: nat))" by (simp add: registry_ok_def)
  show "registry_ok (fst (admin_runs [(Some ''__system__'', Provision (\<lambda>_. []) 1 2 default_isolation (Some failing) ''acme'' ''Acme'' None),
      (Some ''acme'', Delete None ''acme'')] ([], 0)))"
    using tenant_registry_consistent [OF ok] by blast
  show "admin_runs [(Some ''__system__'', Provision (\<lambda>_. []) 1 2 default_isolation (Some failing) ''acme'' ''Acme'' None),
      (Some ''acme'', Delete None ''acme'')] ([], 0) = ([], 1)"
    by (simp add: admin_runs_def provision_tenant_def delete_tenant_def admin_defs failing_def is_system_tenant_def
        SYSTEM_TENANT_def Let_def)
qed

text \<open>
  deactivating and reactivating a tenant restores it: name, strategy, creation time and status come
  back, the deactivation time is gone, and the metadata keep the reason that was given.
\<close>

theorem reactivation_restores_tenant:
  assumes "map_of r i = Some t" "ti_tenant_id t = i" "ti_status t = TENANT_ACTIVE" "ti_deactivated_at t = None"
  shows "snd (reactivate_tenant now2 (Some SYSTEM_TENANT) i
           (fst (deactivate_tenant now1 None (Some SYSTEM_TENANT) i (Some reason) (r, w)))) =
         Inr (t\<lparr>ti_updated_at := now2,
                ti_metadata := (if reason \<noteq> [] then AList.update ''deactivation_reason'' (JStr reason) (ti_metadata t) else ti_metadata t)\<rparr>)"
  using assms
  by (simp add: reactivate_tenant_def deactivate_tenant_def admin_defs is_system_tenant_def Let_def truthy_def AList.update_conv')

theorem reactivation_restores_tenant_witness:
  "let t = \<lparr>ti_tenant_id = ''a'', ti_name = ''A'', ti_status = TENANT_ACTIVE, ti_strategy = DISCRIMINATOR_COLUMN, ti_created_at = 0,
       ti_updated_at = 0, ti_deactivated_at = None, ti_metadata = []\<rparr>
   in snd (reactivate_tenant 9 (Some SYSTEM_TENANT) ''a'' (fst (deactivate_tenant 5 None (Some SYSTEM_TENANT) ''a'' (Some ''late'') ([(''a'', t)], ())))) =
        Inr (t\<lparr>ti_updated_at := 9, ti_metadata := [(''deactivation_reason'', JStr ''late'')]\<rparr>)"
  unfolding Let_def
  by (subst reactivation_restores_tenant [where t = "\<lparr>ti_tenant_id = ''a'', ti_name = ''A'', ti_status = TENANT_ACTIVE,
        ti_strategy = DISCRIMINATOR_COLUMN, ti_created_at = 0, ti_updated_at = 0, ti_deactivated_at = None, ti_metadata = []\<rparr>"])
    simp_all

end
