(* ===== verification/Conflict.thy ===== *)
theory Conflict
  imports PyValue
begin

text \<open>
  Merging of concurrent edits (advanced: conflict/resolution.py): the merge strategies and their registry.

  The merged values are JSON data; a Pydantic model is merged as the dictionary that \<^verbatim>\<open>model_dump\<close> makes of
  it.  The identity of a list item is the value of its key field or, failing that, \<^verbatim>\<open>id(item)\<close>: \<open>obj_id\<close>
  answers it for an item of the existing (\<^const>\<open>False\<close>) or incoming (\<^const>\<open>True\<close>) list at its index.
\<close>

section \<open>Field-level merge\<close>

record field_merge =
  fm_ignore_conflicts :: bool
  fm_include :: "string list option"
  fm_exclude :: "string list option"

text \<open>An empty set of names is false, like a missing one.\<close>

definition names_set :: "string list option \<Rightarrow> bool" where
  "names_set ns \<longleftrightarrow> (case ns of None \<Rightarrow> False | Some xs \<Rightarrow> xs \<noteq> [])"

definition field_skipped :: "field_merge \<Rightarrow> string \<Rightarrow> bool" where
  "field_skipped m key \<longleftrightarrow>
     names_set (fm_include m) \<and> key \<notin> set (the (fm_include m)) \<or>
     names_set (fm_exclude m) \<and> key \<in> set (the (fm_exclude m))"

fun field_merge_loop :: "field_merge \<Rightarrow> payload \<Rightarrow> payload \<Rightarrow> payload" where
  "field_merge_loop m [] merged = merged"
| "field_merge_loop m ((key, v) # incoming) merged =
     (if field_skipped m key then field_merge_loop m incoming merged
      else if key \<in> set (dkeys merged) \<and> fm_ignore_conflicts m then field_merge_loop m incoming merged
      else field_merge_loop m incoming (AList.update key v merged))"

definition field_level_merge_with :: "field_merge \<Rightarrow> payload \<Rightarrow> payload \<Rightarrow> payload" where
  "field_level_merge_with m existing incoming = field_merge_loop m incoming existing"

definition field_level_merge :: "payload \<Rightarrow> payload \<Rightarrow> payload" where
  "field_level_merge existing incoming =
     field_level_merge_with \<lparr>fm_ignore_conflicts = False, fm_include = None, fm_exclude = None\<rparr> existing incoming"

section \<open>Identity of list items\<close>

datatype identity_key = NoKey | FieldKey string | FunKey "json \<Rightarrow> exn + json"

text \<open>What a dictionary key hashes to: \<^verbatim>\<open>True\<close> and \<^verbatim>\<open>1\<close> are the same key; lists and dictionaries are no keys.\<close>

definition hash_key :: "json \<Rightarrow> exn + json" where
  "hash_key v =
     (case v of
        JBool b \<Rightarrow> Inr (JInt (if b then 1 else 0))
      | JList _ \<Rightarrow> Inl (TypeError (''unhashable type: '' @ quoted ''list''))
      | JDict _ \<Rightarrow> Inl (TypeError (''unhashable type: '' @ quoted ''dict''))
      | _ \<Rightarrow> Inr v)"

type_synonym object_ids = "bool \<Rightarrow> nat \<Rightarrow> json \<Rightarrow> int"

definition get_identity :: "object_ids \<Rightarrow> identity_key \<Rightarrow> bool \<Rightarrow> nat \<Rightarrow> json \<Rightarrow> exn + json" where
  "get_identity obj_id key side i item =
     (case key of
        FunKey f \<Rightarrow> (case f item of Inl e \<Rightarrow> Inl e | Inr v \<Rightarrow> hash_key v)
      | FieldKey name \<Rightarrow>
          (case item of
             JDict d \<Rightarrow> (case map_of d name of
                           None \<Rightarrow> Inr (JInt (obj_id side i item))
                         | Some v \<Rightarrow> if json_truthy v then hash_key v else Inr (JInt (obj_id side i item)))
           | _ \<Rightarrow> Inr (JInt (obj_id side i item)))
      | NoKey \<Rightarrow> Inr (JInt (obj_id side i item)))"

text \<open>\<^verbatim>\<open>not self.list_identity_key\<close>: no key, or the empty name.\<close>

definition keyless :: "identity_key \<Rightarrow> bool" where
  "keyless key \<longleftrightarrow> key = NoKey \<or> key = FieldKey []"

fun identity_map :: "object_ids \<Rightarrow> identity_key \<Rightarrow> bool \<Rightarrow> nat \<Rightarrow> json list \<Rightarrow> (json, json) dict \<Rightarrow> exn + (json, json) dict" where
  "identity_map obj_id key side i [] m = Inr m"
| "identity_map obj_id key side i (x # xs) m =
     (case get_identity obj_id key side i x of
        Inl e \<Rightarrow> Inl e
      | Inr k \<Rightarrow> identity_map obj_id key side (Suc i) xs (AList.update k x m))"

section \<open>Deep merge\<close>

record deep_strategy =
  dm_append_lists :: bool
  dm_key :: identity_key

text \<open>
  The three methods \<^verbatim>\<open>merge\<close>, \<^verbatim>\<open>_merge_dicts\<close> and the loop of \<^verbatim>\<open>_merge_lists\<close> call each other on parts of
  the incoming value.
\<close>

function deep_merge :: "object_ids \<Rightarrow> deep_strategy \<Rightarrow> json \<Rightarrow> json \<Rightarrow> exn + json"
  and merge_dicts :: "object_ids \<Rightarrow> deep_strategy \<Rightarrow> payload \<Rightarrow> payload \<Rightarrow> exn + payload"
  and merge_items :: "object_ids \<Rightarrow> deep_strategy \<Rightarrow> nat \<Rightarrow> (json, json) dict \<Rightarrow> json list \<Rightarrow> exn + (json, json) dict" where
  "deep_merge obj_id s existing incoming =
     (case (existing, incoming) of
        (JDict d1, JDict d2) \<Rightarrow> map_sum id JDict (merge_dicts obj_id s d1 d2)
      | (JList l1, JList l2) \<Rightarrow>
          if keyless (dm_key s) then Inr (JList (if dm_append_lists s then l1 @ l2 else l2))
          else (case identity_map obj_id (dm_key s) False 0 l1 [] of
                  Inl e \<Rightarrow> Inl e
                | Inr m \<Rightarrow> map_sum id (\<lambda>m. JList (dvalues m)) (merge_items obj_id s 0 m l2))
      | _ \<Rightarrow> Inr incoming)"
| "merge_dicts obj_id s result [] = Inr result"
| "merge_dicts obj_id s result ((k, v) # d2) =
     (case map_of result k of
        None \<Rightarrow> merge_dicts obj_id s (AList.update k v result) d2
      | Some old \<Rightarrow>
          (case deep_merge obj_id s old v of
             Inl e \<Rightarrow> Inl e
           | Inr new \<Rightarrow> merge_dicts obj_id s (AList.update k new result) d2))"
| "merge_items obj_id s i m [] = Inr m"
| "merge_items obj_id s i m (x # xs) =
     (case get_identity obj_id (dm_key s) True i x of
        Inl e \<Rightarrow> Inl e
      | Inr k \<Rightarrow>
          (case map_of m k of
             None \<Rightarrow> merge_items obj_id s (Suc i) (AList.update k x m) xs
           | Some old \<Rightarrow>
               (case deep_merge obj_id s old x of
                  Inl e \<Rightarrow> Inl e
                | Inr new \<Rightarrow> merge_items obj_id s (Suc i) (AList.update k new m) xs)))"
  by pat_completeness auto
termination
  by (relation "measure (\<lambda>p. case p of
       Inl (_, _, _, v) \<Rightarrow> size v
     | Inr (Inl (_, _, _, d)) \<Rightarrow> size_list (size_prod (\<lambda>_. 0) size) d
     | Inr (Inr (_, _, _, _, xs)) \<Rightarrow> size_list size xs)") auto

declare deep_merge.simps [simp del]

section \<open>The other strategies\<close>

definition last_wins_merge :: "json \<Rightarrow> json \<Rightarrow> json" where
  "last_wins_merge existing incoming = incoming"

text \<open>A timestamp is naive or aware of its zone; comparing the two kinds raises.\<close>

datatype timestamp_field = TsField string | TsFun "json \<Rightarrow> json option"

record timestamp_strategy =
  ts_field :: timestamp_field
  ts_fallback :: bool
  ts_parse :: "string \<Rightarrow> (bool \<times> time) option"

definition parse_timestamp :: "timestamp_strategy \<Rightarrow> json option \<Rightarrow> (bool \<times> time) option" where
  "parse_timestamp s v = (case v of Some (JStr t) \<Rightarrow> ts_parse s t | _ \<Rightarrow> None)"

definition extract_timestamp :: "timestamp_strategy \<Rightarrow> json \<Rightarrow> (bool \<times> time) option" where
  "extract_timestamp s obj =
     (case ts_field s of
        TsFun f \<Rightarrow> parse_timestamp s (f obj)
      | TsField name \<Rightarrow> (case obj of JDict d \<Rightarrow> parse_timestamp s (map_of d name) | _ \<Rightarrow> None))"

definition timestamp_merge :: "timestamp_strategy \<Rightarrow> json \<Rightarrow> json \<Rightarrow> exn + json" where
  "timestamp_merge s existing incoming =
     (case (extract_timestamp s existing, extract_timestamp s incoming) of
        (Some (ez, e), Some (iz, i)) \<Rightarrow>
          if ez \<noteq> iz then Inl (TypeError ''can't compare offset-naive and offset-aware datetimes'')
          else Inr (if e \<le> i then incoming else existing)
      | _ \<Rightarrow> Inr (if ts_fallback s then incoming else existing))"

text \<open>\<^verbatim>\<open>list(dict.fromkeys(xs))\<close> keeps the first of equal items; lists with an item that is no key are compared item by item.\<close>

fun from_keys :: "json list \<Rightarrow> json list \<Rightarrow> json list" where
  "from_keys [] seen = []"
| "from_keys (x # xs) seen =
     (case hash_key x of
        Inl e \<Rightarrow> from_keys xs seen
      | Inr k \<Rightarrow> if k \<in> set seen then from_keys xs seen else x # from_keys xs (k # seen))"

definition all_hashable :: "json list \<Rightarrow> bool" where
  "all_hashable xs \<longleftrightarrow> list_all (\<lambda>x. \<exists>k. hash_key x = Inr k) xs"

definition union_merge :: "(json \<Rightarrow> json \<Rightarrow> bool) \<Rightarrow> object_ids \<Rightarrow> identity_key \<Rightarrow> json \<Rightarrow> json \<Rightarrow> exn + json" where
  "union_merge eq obj_id key existing incoming =
     (case (existing, incoming) of
        (JList l1, JList l2) \<Rightarrow>
          if keyless key
          then Inr (JList (if all_hashable (l1 @ l2) then from_keys (l1 @ l2) []
                           else l1 @ filter (\<lambda>x. \<not> list_ex (eq x) l1) l2))
          else (case identity_map obj_id key False 0 l1 [] of
                  Inl e \<Rightarrow> Inl e
                | Inr m \<Rightarrow> map_sum id (\<lambda>m. JList (dvalues m)) (identity_map obj_id key True 0 l2 m))
      | _ \<Rightarrow> Inr incoming)"

section \<open>Registry and resolver\<close>

datatype strategy_class = LastWinsStrategy | FieldLevelMergeStrategy | DeepMergeStrategy | TimestampLastWinsStrategy
  | UnionListMergeStrategy | CustomStrategy string

type_synonym merge_registry = "(string, strategy_class) dict"

definition register_merge_strategy :: "string \<Rightarrow> strategy_class \<Rightarrow> merge_registry \<Rightarrow> merge_registry" where
  "register_merge_strategy name c r = AList.update (lower name) c r"

definition get_strategy_class :: "merge_registry \<Rightarrow> string \<Rightarrow> strategy_class option" where
  "get_strategy_class r name = map_of r (lower name)"

definition get_stock_registry :: merge_registry where
  "get_stock_registry =
     register_merge_strategy ''union'' UnionListMergeStrategy (register_merge_strategy ''timestamp'' TimestampLastWinsStrategy
       (register_merge_strategy ''deep'' DeepMergeStrategy (register_merge_strategy ''field'' FieldLevelMergeStrategy
         (register_merge_strategy ''last_wins'' LastWinsStrategy []))))"

text \<open>\<^verbatim>\<open>ConflictResolver\<close>: without a strategy, the incoming change wins; the hooks it fires do not change the result.\<close>

definition resolver_merge :: "(json \<Rightarrow> json \<Rightarrow> exn + json) option \<Rightarrow> json \<Rightarrow> json \<Rightarrow> exn + json" where
  "resolver_merge strategy existing incoming =
     (case strategy of None \<Rightarrow> Inr (last_wins_merge existing incoming) | Some f \<Rightarrow> f existing incoming)"

section \<open>Field-level merge keeps or takes each field\<close>

lemma field_merge_loop_lookup:
  assumes "dict_ok incoming"
  shows "map_of (field_merge_loop m incoming merged) k =
    (case map_of incoming k of
       None \<Rightarrow> map_of merged k
     | Some v \<Rightarrow> if field_skipped m k \<or> (map_of merged k \<noteq> None \<and> fm_ignore_conflicts m) then map_of merged k else Some v)"
  using assms
proof (induction m incoming merged rule: field_merge_loop.induct)
  case (2 m key v incoming merged)
  have "key \<in> set (dkeys merged) \<longleftrightarrow> map_of merged key \<noteq> None" by (simp add: map_of_eq_None_iff)
  moreover have "key = k \<Longrightarrow> map_of incoming k = None" using "2.prems" by (simp add: map_of_eq_None_iff)
  ultimately show ?case
    using 2 by (cases "key = k") (auto simp: AList.update_conv' split: option.splits)
qed simp

text \<open>
  what a field-level merge does to each field: the incoming value if the field is in scope and, with
  \<^verbatim>\<open>ignore_conflicts\<close>, not there yet; the existing value otherwise; no field is lost.
\<close>

theorem field_merge_per_field:
  assumes "dict_ok incoming"
  shows "map_of (field_level_merge_with m existing incoming) k =
    (if map_of incoming k = None \<or> field_skipped m k \<or> (map_of existing k \<noteq> None \<and> fm_ignore_conflicts m)
     then map_of existing k else map_of incoming k)"
  using field_merge_loop_lookup [OF assms, of m existing k]
  by (auto simp: field_level_merge_with_def split: option.splits)

theorem field_merge_per_field_witness:
  "map_of (field_level_merge_with \<lparr>fm_ignore_conflicts = False, fm_include = None, fm_exclude = Some [''b'']\<rparr>
      [(''a'', JInt 1), (''b'', JInt 2)] [(''a'', JInt 3), (''b'', JInt 4)]) ''b'' = Some (JInt 2)"
  by (subst field_merge_per_field) (simp_all add: field_skipped_def names_set_def)

section \<open>Deep merge\<close>

text \<open>
  Values in which every list item is found again by its key: dictionaries with a hashable, true value of
  the key field, and no two of one list with the same.
\<close>

definition item_key :: "string \<Rightarrow> json \<Rightarrow> json option" where
  "item_key name x =
     (case x of JDict d \<Rightarrow> (case map_of d name of
         Some v \<Rightarrow> if json_truthy v then (case hash_key v of Inl e \<Rightarrow> None | Inr k \<Rightarrow> Some k) else None
       | None \<Rightarrow> None) | _ \<Rightarrow> None)"

inductive keyed :: "string \<Rightarrow> json \<Rightarrow> bool" for name where
  atom: "(\<And>d. v \<noteq> JDict d) \<Longrightarrow> (\<And>l. v \<noteq> JList l) \<Longrightarrow> keyed name v"
| dictionary: "dict_ok d \<Longrightarrow> (\<And>k v. (k, v) \<in> set d \<Longrightarrow> keyed name v) \<Longrightarrow> keyed name (JDict d)"
| items: "(\<And>x. x \<in> set l \<Longrightarrow> keyed name x \<and> item_key name x \<noteq> None) \<Longrightarrow> distinct (map (item_key name) l) \<Longrightarrow>
    keyed name (JList l)"

lemma item_key_identity: "item_key name x = Some k \<Longrightarrow> get_identity obj_id (FieldKey name) side i x = Inr k"
  by (auto simp: item_key_def get_identity_def split: json.splits option.splits sum.splits if_splits)

lemma update_fresh: "k \<notin> fst ` set m \<Longrightarrow> AList.update k x m = m @ [(k, x)]"
  by (induction m) auto

lemma identity_map_keyed:
  assumes "\<And>x. x \<in> set l \<Longrightarrow> item_key name x \<noteq> None" "distinct (map (item_key name) l)"
    and "fst ` set m \<inter> the ` item_key name ` set l = {}"
  shows "identity_map obj_id (FieldKey name) side i l m = Inr (m @ map (\<lambda>x. (the (item_key name x), x)) l)"
  using assms
proof (induction l arbitrary: i m)
  case (Cons x l)
  obtain k where k: "item_key name x = Some k" using Cons.prems(1) by auto
  have fresh: "k \<notin> fst ` set m" using Cons.prems(3) k by auto
  then have upd: "AList.update k x m = m @ [(k, x)]" by (rule update_fresh)
  have "k \<notin> the ` item_key name ` set l"
    using Cons.prems(1,2) k by (auto simp: image_iff)
  then have "fst ` set (m @ [(k, x)]) \<inter> the ` item_key name ` set l = {}" using Cons.prems(3) by auto
  then show ?case using Cons.IH [of "m @ [(k, x)]"] Cons.prems k upd by (simp add: item_key_identity [OF k])
qed simp

lemma merge_dicts_same:
  assumes "dict_ok d" "set d2 \<subseteq> set d" "\<And>k v. (k, v) \<in> set d2 \<Longrightarrow> deep_merge obj_id s v v = Inr v"
  shows "merge_dicts obj_id s d d2 = Inr d"
  using assms(2,3)
proof (induction d2)
  case (Cons e d2)
  obtain k v where e: "e = (k, v)" by (cases e)
  have "map_of d k = Some v" using assms(1) Cons.prems(1) e by auto
  moreover have "deep_merge obj_id s v v = Inr v" by (rule Cons.prems(2) [of k v]) (simp add: e)
  moreover have "merge_dicts obj_id s d d2 = Inr d"
  proof (rule Cons.IH)
    show "set d2 \<subseteq> set d" using Cons.prems(1) by simp
    show "deep_merge obj_id s v v = Inr v" if "(k, v) \<in> set d2" for k v
      using Cons.prems(2) [of k v] that by simp
  qed
  ultimately show ?case by (simp add: e AList.update_triv)
qed simp

lemma merge_items_same:
  assumes "\<And>x. x \<in> set xs \<Longrightarrow> \<exists>k. item_key name x = Some k \<and> map_of m k = Some x \<and> deep_merge obj_id s x x = Inr x"
    and "dm_key s = FieldKey name"
  shows "merge_items obj_id s i m xs = Inr m"
  using assms(1)
proof (induction xs arbitrary: i)
  case (Cons x xs)
  obtain k where k: "item_key name x = Some k" "map_of m k = Some x" "deep_merge obj_id s x x = Inr x"
    using Cons.prems [of x] by auto
  then show ?case
    using Cons.IH [of "Suc i"] Cons.prems by (simp add: assms(2) item_key_identity AList.update_triv)
qed simp

lemma map_of_items:
  assumes "\<And>x. x \<in> set l \<Longrightarrow> item_key name x \<noteq> None" "distinct (map (item_key name) l)" "x \<in> set l"
  shows "map_of (map (\<lambda>x. (the (item_key name x), x)) l) (the (item_key name x)) = Some x"
proof -
  have "inj_on (\<lambda>x. the (item_key name x)) (set l)"
  proof (rule inj_onI)
    fix x y assume xy: "x \<in> set l" "y \<in> set l" "the (item_key name x) = the (item_key name y)"
    then have "item_key name x = item_key name y"
      using assms(1) [of x] assms(1) [of y] by (metis option.expand)
    then show "x = y" using assms(2) xy(1,2) by (auto simp: distinct_map inj_on_def)
  qed
  moreover have "distinct l" using assms(2) by (simp add: distinct_map)
  ultimately have "distinct (map fst (map (\<lambda>x. (the (item_key name x), x)) l))" by (simp add: comp_def distinct_map)
  then show ?thesis using assms(3) by (auto simp: map_of_eq_Some_iff)
qed

text \<open>
  applying an edit twice is applying it once, where every list item is found by its key: a deep merge
  of a value with itself, with lists merged by the key field, returns the value.
\<close>

theorem deep_merge_idempotent:
  assumes "keyed name v" "dm_key s = FieldKey name" "name \<noteq> []"
  shows "deep_merge obj_id s v v = Inr v"
  using assms(1)
proof induction
  case (atom v)
  then show ?case by (cases v) (auto simp: deep_merge.simps)
next
  case (dictionary d)
  then show ?case using merge_dicts_same [of d d obj_id s] by (simp add: deep_merge.simps)
next
  case (items l)
  let ?m = "map (\<lambda>x. (the (item_key name x), x)) l"
  have im: "identity_map obj_id (dm_key s) False 0 l [] = Inr ?m"
    using identity_map_keyed [of l name "[]"] items assms(2) by simp
  have "merge_items obj_id s 0 ?m l = Inr ?m"
  proof (rule merge_items_same [OF _ assms(2)])
    fix x assume x: "x \<in> set l"
    have "item_key name x \<noteq> None" "deep_merge obj_id s x x = Inr x" using items x by auto
    moreover have "map_of ?m (the (item_key name x)) = Some x" using map_of_items [of l name x] items x by auto
    ultimately show "\<exists>k. item_key name x = Some k \<and> map_of ?m k = Some x \<and> deep_merge obj_id s x x = Inr x" by auto
  qed
  then show ?case using im assms(2,3) by (simp add: deep_merge.simps keyless_def comp_def)
qed

theorem deep_merge_idempotent_witness:
  "deep_merge (\<lambda>_ _ _. 0) \<lparr>dm_append_lists = False, dm_key = FieldKey ''id''\<rparr>
     (JDict [(''items'', JList [JDict [(''id'', JInt 1)], JDict [(''id'', JInt 2)]])])
     (JDict [(''items'', JList [JDict [(''id'', JInt 1)], JDict [(''id'', JInt 2)]])]) =
   Inr (JDict [(''items'', JList [JDict [(''id'', JInt 1)], JDict [(''id'', JInt 2)]])])"
proof (rule deep_merge_idempotent [where name = "''id''"])
  have a: "keyed ''id'' (JInt i)" for i by (rule keyed.atom) auto
  have d: "keyed ''id'' (JDict [(''id'', JInt i)])" for i using a by (intro keyed.dictionary) auto
  have "keyed ''id'' (JList [JDict [(''id'', JInt 1)], JDict [(''id'', JInt 2)]])"
    using d by (intro keyed.items) (auto simp: item_key_def hash_key_def)
  then show "keyed ''id'' (JDict [(''items'', JList [JDict [(''id'', JInt 1)], JDict [(''id'', JInt 2)]])])"
    by (intro keyed.dictionary) auto
qed simp_all

text \<open>
  lists are not replaced by default: with the default key and without \<^verbatim>\<open>append_lists\<close>, two lists of
  numbers are joined, since numbers have no key field and each counts as an item of its own.
\<close>

theorem default_deep_merge_joins_lists:
  assumes "obj_id False 0 (JInt a) \<noteq> obj_id True 0 (JInt b)"
  shows "deep_merge obj_id \<lparr>dm_append_lists = False, dm_key = FieldKey ''id''\<rparr> (JList [JInt a]) (JList [JInt b]) =
    Inr (JList [JInt a, JInt b])"
  using assms by (simp add: deep_merge.simps keyless_def get_identity_def)

theorem default_deep_merge_joins_lists_witness:
  "deep_merge (\<lambda>side i x. if side then 1 else 0) \<lparr>dm_append_lists = False, dm_key = FieldKey ''id''\<rparr> (JList [JInt 7]) (JList [JInt 8]) =
   Inr (JList [JInt 7, JInt 8])"
  by (rule default_deep_merge_joins_lists) simp

text \<open>
  the later of two timestamped versions wins whichever side it comes from, and the incoming one when
  they are equally old; so merging in either order gives the same version unless the times are equal.
\<close>

theorem timestamp_merge_newest:
  assumes "extract_timestamp s x = Some (z, tx)" "extract_timestamp s y = Some (z, ty)"
  shows "timestamp_merge s x y = Inr (if tx \<le> ty then y else x)
    \<and> (tx \<noteq> ty \<longrightarrow> timestamp_merge s x y = timestamp_merge s y x)"
  using assms by (simp add: timestamp_merge_def)

definition ex_timestamps :: timestamp_strategy where
  "ex_timestamps = \<lparr>ts_field = TsField ''modified_at'', ts_fallback = False, ts_parse = (\<lambda>t. Some (True, int (length t)))\<rparr>"

theorem timestamp_merge_newest_witness:
  "timestamp_merge ex_timestamps (JDict [(''modified_at'', JStr ''xx'')]) (JDict [(''modified_at'', JStr ''x'')]) =
   Inr (JDict [(''modified_at'', JStr ''xx'')])"
  using timestamp_merge_newest [where s = ex_timestamps and x = "JDict [(''modified_at'', JStr ''xx'')]"
      and y = "JDict [(''modified_at'', JStr ''x'')]" and z = True and tx = 2 and ty = 1]
  by (simp add: extract_timestamp_def parse_timestamp_def ex_timestamps_def)

end
