(* ===== verification/Resilience.thy ===== *)
theory Resilience
  imports Conflict
begin

text \<open>
  Command handlers with behaviours around their \<^verbatim>\<open>process\<close> method (advanced: cqrs/handlers.py, cqrs/mixins.py):
  the pipeline, retrying with back-off, and conflict resolution by merging.

  A stage handles a command in a world (the state of the stores and of whoever else works on them) and
  returns a response or raises.  Sleeping between attempts is the function \<open>sleep\<close> on the world, in milliseconds:
  others may act meanwhile; \<^verbatim>\<open>random.random()\<close> answers \<open>draw n\<close> before the \<open>n\<close>-th retry.  The hooks that the handlers fire do
  not take part.
\<close>

section \<open>Pipeline\<close>

type_synonym ('c, 'r, 'w) stage = "'c \<Rightarrow> 'w \<Rightarrow> 'w \<times> (exn + 'r)"
type_synonym ('c, 'r, 'w) behavior = "('c, 'r, 'w) stage \<Rightarrow> ('c, 'r, 'w) stage"

definition add_behavior :: "('c, 'r, 'w) behavior \<Rightarrow> ('c, 'r, 'w) behavior list \<Rightarrow> ('c, 'r, 'w) behavior list" where
  "add_behavior b behaviors = behaviors @ [b]"

definition get_pipeline :: "('c, 'r, 'w) stage \<Rightarrow> ('c, 'r, 'w) behavior list \<Rightarrow> ('c, 'r, 'w) stage" where
  "get_pipeline process behaviors = fold (\<lambda>behavior pipeline. behavior pipeline) (rev behaviors) process"

section \<open>Retry policies\<close>

text \<open>Floating point is read as exact arithmetic; \<^verbatim>\<open>int()\<close> cuts towards zero.\<close>

definition trunc :: "rat \<Rightarrow> int" where
  "trunc x = (if 0 \<le> x then \<lfloor>x\<rfloor> else \<lceil>x\<rceil>)"

datatype delay_policy = FixedRetryPolicy int | ExponentialBackoffPolicy int rat int

record retry_policy =
  rp_max_retries :: int
  rp_jitter :: bool
  rp_delay :: delay_policy

fun calculate_delay :: "delay_policy \<Rightarrow> nat \<Rightarrow> int" where
  "calculate_delay (FixedRetryPolicy delay_ms) attempt = delay_ms"
| "calculate_delay (ExponentialBackoffPolicy initial_delay_ms multiplier max_delay_ms) attempt =
     min (trunc (of_int initial_delay_ms * multiplier ^ attempt)) max_delay_ms"

definition default_backoff :: retry_policy where
  "default_backoff = \<lparr>rp_max_retries = 3, rp_jitter = True, rp_delay = ExponentialBackoffPolicy 100 2 5000\<rparr>"

definition retry_delay :: "(nat \<Rightarrow> rat) \<Rightarrow> retry_policy \<Rightarrow> nat \<Rightarrow> int" where
  "retry_delay draw p attempt =
     (let delay = calculate_delay (rp_delay p) attempt
      in if rp_jitter p then trunc (of_int delay * (1 / 2 + draw attempt)) else delay)"

section \<open>Retry behaviour\<close>

record 'w clock =
  cl_sleep :: "int \<Rightarrow> 'w \<Rightarrow> 'w"
  cl_draw :: "nat \<Rightarrow> rat"

definition handle_retry_attempt :: "'w clock \<Rightarrow> retry_policy \<Rightarrow> nat \<Rightarrow> exn \<Rightarrow> 'w \<Rightarrow> 'w \<times> (exn + nat)" where
  "handle_retry_attempt cl p attempt e w =
     (if int attempt < rp_max_retries p
      then (cl_sleep cl (retry_delay (cl_draw cl) p (attempt + 1)) w, Inr (attempt + 1))
      else (w, Inl e))"

function retry_loop :: "'w clock \<Rightarrow> retry_policy \<Rightarrow> ('c, 'r, 'w) stage \<Rightarrow> 'c \<Rightarrow> nat \<Rightarrow> 'w \<Rightarrow> 'w \<times> (exn + 'r)" where
  "retry_loop cl p next_fn command attempt w =
     (case next_fn command w of
        (w', Inr r) \<Rightarrow> (w', Inr r)
      | (w', Inl e) \<Rightarrow>
          if is_concurrency_error e then (w', Inl e)
          else (case handle_retry_attempt cl p attempt e w' of
                  (w'', Inl e) \<Rightarrow> (w'', Inl e)
                | (w'', Inr attempt') \<Rightarrow> retry_loop cl p next_fn command attempt' w''))"
  by pat_completeness auto
termination
  by (relation "measure (\<lambda>(cl, p, next_fn, command, attempt, w). nat (rp_max_retries p - int attempt))")
     (auto simp: handle_retry_attempt_def split: if_splits)

declare retry_loop.simps [simp del]

text \<open>\<open>policy\<close> reads the policy of a command that is \<^verbatim>\<open>Retryable\<close>.\<close>

definition retry_behavior :: "'w clock \<Rightarrow> ('c \<Rightarrow> retry_policy option) \<Rightarrow> ('c, 'r, 'w) behavior" where
  "retry_behavior cl policy next_fn command w =
     (case policy command of None \<Rightarrow> next_fn command w | Some p \<Rightarrow> retry_loop cl p next_fn command 0 w)"

section \<open>Choice of a merge strategy\<close>

datatype conflict_policy = FIRST_WINS | LAST_WINS | MERGE | CUSTOM

text \<open>
  The states that are merged are dictionaries.  Keyword arguments for a strategy are given or not
  (\<^const>\<open>None\<close>); \<open>kw_unknown\<close> lists the names no strategy of the package has.
\<close>

record strategy_kwargs =
  kw_append_lists :: "bool option"
  kw_list_identity_key :: "identity_key option"
  kw_ignore_conflicts :: "bool option"
  kw_include_fields :: "string list option option"
  kw_exclude_fields :: "string list option option"
  kw_timestamp_field :: "timestamp_field option"
  kw_fallback_to_incoming :: "bool option"
  kw_identity_key :: "identity_key option"
  kw_unknown :: "string list"

record conflict_config =
  cc_policy :: conflict_policy
  cc_strategy_name :: "string option"
  cc_ignore_conflicts :: bool
  cc_include_fields :: "string list option"
  cc_exclude_fields :: "string list option"
  cc_append_lists :: bool
  cc_list_identity_key :: identity_key
  cc_timestamp_field :: timestamp_field
  cc_fallback_to_incoming :: bool
  cc_strategy_kwargs :: strategy_kwargs

definition no_kwargs :: strategy_kwargs where
  "no_kwargs = \<lparr>kw_append_lists = None, kw_list_identity_key = None, kw_ignore_conflicts = None, kw_include_fields = None,
     kw_exclude_fields = None, kw_timestamp_field = None, kw_fallback_to_incoming = None, kw_identity_key = None, kw_unknown = []\<rparr>"

definition default_conflict_config :: conflict_config where
  "default_conflict_config = \<lparr>cc_policy = FIRST_WINS, cc_strategy_name = None, cc_ignore_conflicts = False, cc_include_fields = None,
     cc_exclude_fields = None, cc_append_lists = False, cc_list_identity_key = FieldKey ''id'',
     cc_timestamp_field = TsField ''modified_at'', cc_fallback_to_incoming = True, cc_strategy_kwargs = no_kwargs\<rparr>"

type_synonym merge_fn = "payload \<Rightarrow> payload \<Rightarrow> exn + payload"

text \<open>What the strategies need of Python: object identities, equality of values, date parsing, and classes of the application.\<close>

record merge_host =
  mh_obj_id :: object_ids
  mh_eq :: "json \<Rightarrow> json \<Rightarrow> bool"
  mh_parse :: "string \<Rightarrow> (bool \<times> time) option"
  mh_custom :: "string \<Rightarrow> strategy_kwargs \<Rightarrow> exn + merge_fn"

definition dict_result :: "(exn + json) \<Rightarrow> exn + payload" where
  "dict_result r = (case r of Inl e \<Rightarrow> Inl e | Inr (JDict d) \<Rightarrow> Inr d | Inr _ \<Rightarrow> Inl (TypeError ''dict expected''))"

definition field_strategy :: "field_merge \<Rightarrow> merge_fn" where
  "field_strategy m existing incoming = Inr (field_level_merge_with m existing incoming)"

definition deep_strategy_fn :: "merge_host \<Rightarrow> deep_strategy \<Rightarrow> merge_fn" where
  "deep_strategy_fn h s existing incoming = dict_result (deep_merge (mh_obj_id h) s (JDict existing) (JDict incoming))"

definition given_kwargs :: "strategy_kwargs \<Rightarrow> string list" where
  "given_kwargs kw =
     (if kw_append_lists kw = None then [] else [''append_lists'']) @
     (if kw_list_identity_key kw = None then [] else [''list_identity_key'']) @
     (if kw_ignore_conflicts kw = None then [] else [''ignore_conflicts'']) @
     (if kw_include_fields kw = None then [] else [''include_fields'']) @
     (if kw_exclude_fields kw = None then [] else [''exclude_fields'']) @
     (if kw_timestamp_field kw = None then [] else [''timestamp_field'']) @
     (if kw_fallback_to_incoming kw = None then [] else [''fallback_to_incoming'']) @
     (if kw_identity_key kw = None then [] else [''identity_key'']) @ kw_unknown kw"

text \<open>A class called with keyword arguments: those it does not declare are refused, missing ones take the default.\<close>

definition with_params :: "string list \<Rightarrow> strategy_kwargs \<Rightarrow> merge_fn \<Rightarrow> exn + merge_fn" where
  "with_params params kw f =
     (if set (given_kwargs kw) \<subseteq> set params then Inr f else Inl (TypeError ''unexpected keyword argument''))"

fun new_strategy :: "merge_host \<Rightarrow> strategy_class \<Rightarrow> strategy_kwargs \<Rightarrow> exn + merge_fn" where
  "new_strategy h LastWinsStrategy kw = with_params [] kw (\<lambda>existing incoming. Inr incoming)"
| "new_strategy h FieldLevelMergeStrategy kw =
     with_params [''ignore_conflicts'', ''include_fields'', ''exclude_fields''] kw
       (field_strategy \<lparr>fm_ignore_conflicts = case_option False id (kw_ignore_conflicts kw),
                        fm_include = case_option None id (kw_include_fields kw),
                        fm_exclude = case_option None id (kw_exclude_fields kw)\<rparr>)"
| "new_strategy h DeepMergeStrategy kw =
     with_params [''append_lists'', ''list_identity_key''] kw
       (deep_strategy_fn h \<lparr>dm_append_lists = case_option False id (kw_append_lists kw),
                            dm_key = case_option (FieldKey ''id'') id (kw_list_identity_key kw)\<rparr>)"
| "new_strategy h TimestampLastWinsStrategy kw =
     with_params [''timestamp_field'', ''fallback_to_incoming''] kw
       (\<lambda>existing incoming. dict_result (timestamp_merge
          \<lparr>ts_field = case_option (TsField ''modified_at'') id (kw_timestamp_field kw),
           ts_fallback = case_option False id (kw_fallback_to_incoming kw), ts_parse = mh_parse h\<rparr>
          (JDict existing) (JDict incoming)))"
| "new_strategy h UnionListMergeStrategy kw =
     with_params [''identity_key''] kw
       (\<lambda>existing incoming. dict_result (union_merge (mh_eq h) (mh_obj_id h)
          (case_option (FieldKey ''id'') id (kw_identity_key kw)) (JDict existing) (JDict incoming)))"
| "new_strategy h (CustomStrategy c) kw = mh_custom h c kw"

definition create_strategy :: "merge_host \<Rightarrow> merge_registry \<Rightarrow> string \<Rightarrow> strategy_kwargs \<Rightarrow> exn + merge_fn option" where
  "create_strategy h r name kw =
     (case get_strategy_class r name of None \<Rightarrow> Inr None | Some cls \<Rightarrow> map_sum id Some (new_strategy h cls kw))"

text \<open>\<^verbatim>\<open>kwargs.setdefault\<close>.\<close>

definition setdefault :: "'a option \<Rightarrow> 'a \<Rightarrow> 'a option" where
  "setdefault v d = (case v of None \<Rightarrow> Some d | Some x \<Rightarrow> Some x)"

definition populate_strategy_kwargs :: "conflict_config \<Rightarrow> strategy_kwargs \<Rightarrow> strategy_kwargs" where
  "populate_strategy_kwargs cfg kw =
     (let name = cc_strategy_name cfg in
      if name = Some ''deep'' then
        kw\<lparr>kw_append_lists := setdefault (kw_append_lists kw) (cc_append_lists cfg),
           kw_list_identity_key := setdefault (kw_list_identity_key kw) (cc_list_identity_key cfg)\<rparr>
      else if name = Some ''field'' then
        kw\<lparr>kw_ignore_conflicts := setdefault (kw_ignore_conflicts kw) (cc_ignore_conflicts cfg),
           kw_include_fields := setdefault (kw_include_fields kw) (cc_include_fields cfg),
           kw_exclude_fields := setdefault (kw_exclude_fields kw) (cc_exclude_fields cfg)\<rparr>
      else if name = Some ''timestamp'' then
        kw\<lparr>kw_timestamp_field := setdefault (kw_timestamp_field kw) (cc_timestamp_field cfg),
           kw_fallback_to_incoming := setdefault (kw_fallback_to_incoming kw) (cc_fallback_to_incoming cfg)\<rparr>
      else if name = Some ''union'' then
        kw\<lparr>kw_identity_key := setdefault (kw_identity_key kw) (cc_list_identity_key cfg)\<rparr>
      else kw)"

definition create_strategy_from_registry :: "merge_host \<Rightarrow> merge_registry option \<Rightarrow> conflict_config \<Rightarrow> exn + merge_fn option" where
  "create_strategy_from_registry h registry cfg =
     (case registry of
        None \<Rightarrow> Inl (MergeStrategyRegistryMissingError (the (cc_strategy_name cfg)))
      | Some r \<Rightarrow> create_strategy h r (the (cc_strategy_name cfg)) (populate_strategy_kwargs cfg (cc_strategy_kwargs cfg)))"

definition infer_strategy_from_policy :: "merge_host \<Rightarrow> conflict_config \<Rightarrow> merge_fn option" where
  "infer_strategy_from_policy h cfg =
     (case cc_policy cfg of
        MERGE \<Rightarrow>
          if cc_append_lists cfg \<or> cc_strategy_name cfg = Some ''deep''
          then Some (deep_strategy_fn h \<lparr>dm_append_lists = cc_append_lists cfg, dm_key = cc_list_identity_key cfg\<rparr>)
          else Some (field_strategy \<lparr>fm_ignore_conflicts = cc_ignore_conflicts cfg,
                                     fm_include = cc_include_fields cfg, fm_exclude = cc_exclude_fields cfg\<rparr>)
      | LAST_WINS \<Rightarrow> Some (deep_strategy_fn h \<lparr>dm_append_lists = False, dm_key = FieldKey ''id''\<rparr>)
      | _ \<Rightarrow> None)"

section \<open>Conflict resolution\<close>

text \<open>The handler: what it reads off its commands, and the strategy and registry it was given.\<close>

record ('c, 'w) conflict_handler =
  ch_config :: "'c \<Rightarrow> conflict_config option"
  ch_fetch_latest_state :: "'c \<Rightarrow> 'w \<Rightarrow> 'w \<times> (exn + payload option)"
  ch_get_incoming_state :: "'c \<Rightarrow> exn + payload"
  ch_update_command :: "'c \<Rightarrow> payload \<Rightarrow> exn + 'c"
  ch_merge_strategy :: "merge_fn option"
  ch_strategy_registry :: "merge_registry option"
  ch_host :: merge_host

definition get_merge_strategy :: "('c, 'w) conflict_handler \<Rightarrow> conflict_config \<Rightarrow> exn + merge_fn option" where
  "get_merge_strategy h cfg =
     (case ch_merge_strategy h of
        Some s \<Rightarrow> Inr (Some s)
      | None \<Rightarrow>
          if truthy (cc_strategy_name cfg)
          then (case create_strategy_from_registry (ch_host h) (ch_strategy_registry h) cfg of
                  Inl e \<Rightarrow> Inl e
                | Inr (Some s) \<Rightarrow> Inr (Some s)
                | Inr None \<Rightarrow> Inr (infer_strategy_from_policy (ch_host h) cfg))
          else Inr (infer_strategy_from_policy (ch_host h) cfg))"

definition resolve_conflict :: "('c, 'w) conflict_handler \<Rightarrow> 'c \<Rightarrow> ('c, 'r, 'w) stage \<Rightarrow> 'w \<Rightarrow> 'w \<times> (exn + 'r)" where
  "resolve_conflict h command next_fn w =
     (case ch_config h command of
        None \<Rightarrow> next_fn command w
      | Some cfg \<Rightarrow>
          (case ch_fetch_latest_state h command w of
             (w', Inl e) \<Rightarrow> (w', Inl e)
           | (w', Inr None) \<Rightarrow> next_fn command w'
           | (w', Inr (Some current_state)) \<Rightarrow>
               (case ch_get_incoming_state h command of
                  Inl e \<Rightarrow> (w', Inl e)
                | Inr incoming_state \<Rightarrow>
                    (case get_merge_strategy h cfg of
                       Inl e \<Rightarrow> (w', Inl e)
                     | Inr None \<Rightarrow> next_fn command w'
                     | Inr (Some strategy) \<Rightarrow>
                         (case strategy current_state incoming_state of
                            Inl e \<Rightarrow> (w', Inl e)
                          | Inr merged_state \<Rightarrow>
                              (case ch_update_command h command merged_state of
                                 Inl e \<Rightarrow> (w', Inl e)
                               | Inr new_command \<Rightarrow> next_fn new_command w'))))))"

definition max_conflict_retries :: nat where
  "max_conflict_retries = 3"

definition conflicts_exhausted :: exn where
  "conflicts_exhausted = ConcurrencyError ''Max conflict resolution attempts reached''"

fun conflict_loop :: "('c, 'w) conflict_handler \<Rightarrow> ('c, 'r, 'w) stage \<Rightarrow> 'c \<Rightarrow> nat list \<Rightarrow> 'w \<Rightarrow> 'w \<times> (exn + 'r)" where
  "conflict_loop h next_fn command [] w = (w, Inl conflicts_exhausted)"
| "conflict_loop h next_fn command (attempt # attempts) w =
     (case next_fn command w of
        (w', Inr r) \<Rightarrow> (w', Inr r)
      | (w', Inl e) \<Rightarrow>
          if \<not> is_concurrency_error e then (w', Inl e)
          else if attempt < max_conflict_retries - 1
          then (case resolve_conflict h command next_fn w' of
                  (w'', Inr r) \<Rightarrow> (w'', Inr r)
                | (w'', Inl e) \<Rightarrow>
                    if is_concurrency_error e then conflict_loop h next_fn command attempts w'' else (w'', Inl e))
          else (w', Inl conflicts_exhausted))"

definition conflict_resolution_behavior :: "('c, 'w) conflict_handler \<Rightarrow> ('c, 'r, 'w) behavior" where
  "conflict_resolution_behavior h next_fn command w =
     (case ch_config h command of
        None \<Rightarrow> next_fn command w
      | Some cfg \<Rightarrow>
          if cc_policy cfg = FIRST_WINS then next_fn command w
          else conflict_loop h next_fn command [0..<max_conflict_retries] w)"

section \<open>The three handlers\<close>

definition retryable_handler :: "'w clock \<Rightarrow> ('c \<Rightarrow> retry_policy option) \<Rightarrow> ('c, 'r, 'w) stage \<Rightarrow> ('c, 'r, 'w) stage" where
  "retryable_handler cl policy process = get_pipeline process (add_behavior (retry_behavior cl policy) [])"

definition conflict_command_handler :: "('c, 'w) conflict_handler \<Rightarrow> ('c, 'r, 'w) stage \<Rightarrow> ('c, 'r, 'w) stage" where
  "conflict_command_handler h process = get_pipeline process (add_behavior (conflict_resolution_behavior h) [])"

definition resilient_handler ::
  "'w clock \<Rightarrow> ('c \<Rightarrow> retry_policy option) \<Rightarrow> ('c, 'w) conflict_handler \<Rightarrow> ('c, 'r, 'w) stage \<Rightarrow> ('c, 'r, 'w) stage" where
  "resilient_handler cl policy h process =
     get_pipeline process (add_behavior (retry_behavior cl policy) (add_behavior (conflict_resolution_behavior h) []))"

section \<open>Order of the pipeline\<close>

lemma get_pipeline_foldr: "get_pipeline process behaviors = foldr (\<lambda>b p. b p) behaviors process"
  by (simp add: get_pipeline_def foldr_conv_fold)

lemma resilient_handler_nests:
  "resilient_handler cl policy h process = conflict_resolution_behavior h (retry_behavior cl policy process)"
  by (simp add: resilient_handler_def add_behavior_def get_pipeline_foldr)

section \<open>Retrying\<close>

text \<open>An outcome that is tried again, and the world before the \<open>n\<close>-th attempt if all attempts before it were.\<close>

definition worth_retry :: "(exn + 'r) \<Rightarrow> bool" where
  "worth_retry r \<longleftrightarrow> (case r of Inl e \<Rightarrow> \<not> is_concurrency_error e | Inr _ \<Rightarrow> False)"

primrec before_attempt :: "'w clock \<Rightarrow> retry_policy \<Rightarrow> ('c, 'r, 'w) stage \<Rightarrow> 'c \<Rightarrow> 'w \<Rightarrow> nat \<Rightarrow> 'w" where
  "before_attempt cl p next_fn c w 0 = w"
| "before_attempt cl p next_fn c w (Suc n) =
     cl_sleep cl (retry_delay (cl_draw cl) p (Suc n)) (fst (next_fn c (before_attempt cl p next_fn c w n)))"

lemma retry_loop_step:
  "retry_loop cl p next_fn c n w =
     (if worth_retry (snd (next_fn c w)) \<and> int n < rp_max_retries p
      then retry_loop cl p next_fn c (Suc n) (cl_sleep cl (retry_delay (cl_draw cl) p (Suc n)) (fst (next_fn c w)))
      else next_fn c w)"
  by (subst retry_loop.simps)
     (auto simp: worth_retry_def handle_retry_attempt_def split: prod.splits sum.splits)

lemma retry_loop_first_decisive:
  assumes "n \<le> nat (rp_max_retries p)"
  shows "\<exists>k \<ge> n. k \<le> nat (rp_max_retries p) \<and>
     retry_loop cl p next_fn c n (before_attempt cl p next_fn c w n) = next_fn c (before_attempt cl p next_fn c w k) \<and>
     (\<forall>i. n \<le> i \<and> i < k \<longrightarrow> worth_retry (snd (next_fn c (before_attempt cl p next_fn c w i)))) \<and>
     (k < nat (rp_max_retries p) \<longrightarrow> \<not> worth_retry (snd (next_fn c (before_attempt cl p next_fn c w k))))"
  (is "\<exists>k \<ge> n. ?P n k")
  using assms
proof (induction "nat (rp_max_retries p) - n" arbitrary: n)
  case 0
  then have "n = nat (rp_max_retries p)" by simp
  then have "?P n n" by (subst retry_loop_step) auto
  then show ?case by blast
next
  case (Suc m)
  then have more: "int n < rp_max_retries p" by linarith
  show ?case
  proof (cases "worth_retry (snd (next_fn c (before_attempt cl p next_fn c w n)))")
    case True
    have "m = nat (rp_max_retries p) - Suc n" "Suc n \<le> nat (rp_max_retries p)" using Suc.hyps(2) by linarith+
    then obtain k where k: "k \<ge> Suc n" "?P (Suc n) k" using Suc.hyps(1) [of "Suc n"] by blast
    have "\<forall>i. n \<le> i \<and> i < k \<longrightarrow> worth_retry (snd (next_fn c (before_attempt cl p next_fn c w i)))"
      using k True by (metis Suc_leI le_neq_implies_less)
    then have "?P n k"
      using k True more by (subst retry_loop_step) simp
    then show ?thesis using k(1) by (metis Suc_leD)
  next
    case False
    then have "?P n n" using Suc.prems by (subst retry_loop_step) auto
    then show ?thesis by blast
  qed
qed

text \<open>
  a retried command gives the outcome of its first attempt that is final (a response or a concurrency
  error), of at most \<^verbatim>\<open>max_retries\<close> + 1 attempts, each in the world that the attempt and the pause
  before it left; when none is final, the last exception.
\<close>

theorem retry_first_final_attempt:
  assumes "policy c = Some p"
  shows "\<exists>k \<le> nat (rp_max_retries p).
     retry_behavior cl policy next_fn c w = next_fn c (before_attempt cl p next_fn c w k) \<and>
     (\<forall>i < k. worth_retry (snd (next_fn c (before_attempt cl p next_fn c w i)))) \<and>
     (k < nat (rp_max_retries p) \<longrightarrow> \<not> worth_retry (snd (next_fn c (before_attempt cl p next_fn c w k))))"
  using retry_loop_first_decisive [of 0 p cl next_fn c w] assms by (auto simp: retry_behavior_def)

section \<open>How often a command is processed\<close>

text \<open>
  \<open>n\<close> counts the calls of \<^verbatim>\<open>process\<close> in the world: a call adds at most one; reading the latest state and sleeping
  add none.
\<close>

definition calls_at_most :: "('w \<Rightarrow> nat) \<Rightarrow> nat \<Rightarrow> ('c, 'r, 'w) stage \<Rightarrow> bool" where
  "calls_at_most n b s \<longleftrightarrow> (\<forall>c w. n (fst (s c w)) \<le> n w + b)"

lemma calls_at_mostD: "calls_at_most n b s \<Longrightarrow> s c w = (w', r) \<Longrightarrow> n w' \<le> n w + b"
  by (metis calls_at_most_def fst_conv)

lemma before_attempt_within:
  assumes "calls_at_most n b next_fn" "\<And>d w. n (cl_sleep cl d w) = n w"
  shows "n (before_attempt cl p next_fn c w k) \<le> n w + k * b"
proof (induction k)
  case (Suc k)
  have "n (fst (next_fn c (before_attempt cl p next_fn c w k))) \<le> n (before_attempt cl p next_fn c w k) + b"
    using assms(1) by (simp add: calls_at_most_def)
  then show ?case using Suc assms(2) by simp
qed simp

lemma retry_within:
  assumes "calls_at_most n b next_fn" "\<And>d w. n (cl_sleep cl d w) = n w" "\<And>c p. policy c = Some p \<Longrightarrow> nat (rp_max_retries p) \<le> m"
  shows "calls_at_most n ((m + 1) * b) (retry_behavior cl policy next_fn)"
  unfolding calls_at_most_def
proof (intro allI)
  fix c w
  show "n (fst (retry_behavior cl policy next_fn c w)) \<le> n w + (m + 1) * b"
  proof (cases "policy c")
    case None
    have "n (fst (next_fn c w)) \<le> n w + b" using assms(1) by (simp add: calls_at_most_def)
    then show ?thesis using None by (simp add: retry_behavior_def)
  next
    case (Some p)
    obtain k where k: "k \<le> nat (rp_max_retries p)"
      "retry_behavior cl policy next_fn c w = next_fn c (before_attempt cl p next_fn c w k)"
      using retry_loop_first_decisive [of 0 p cl next_fn c w] Some by (auto simp: retry_behavior_def)
    have "n (fst (next_fn c (before_attempt cl p next_fn c w k))) \<le> n (before_attempt cl p next_fn c w k) + b"
      using assms(1) by (simp add: calls_at_most_def)
    also have "\<dots> \<le> n w + (k + 1) * b" using before_attempt_within [OF assms(1,2), where k = k] by simp
    also have "\<dots> \<le> n w + (m + 1) * b"
      using k(1) assms(3) [OF Some] by (simp add: mult_le_mono1)
    finally show ?thesis by (simp add: k(2))
  qed
qed

lemma resolve_within:
  assumes "calls_at_most n b next_fn" "\<And>c w. n (fst (ch_fetch_latest_state h c w)) = n w"
  shows "n (fst (resolve_conflict h c next_fn w)) \<le> n w + b"
proof (cases "ch_fetch_latest_state h c w")
  case (Pair w' r)
  have same: "n w' = n w" using assms(2) [of c w] Pair by simp
  have run: "n (fst (next_fn c' v)) \<le> n v + b" for c' v using assms(1) by (simp add: calls_at_most_def)
  show ?thesis
    using run [of c w] run [of _ w'] same Pair
    by (auto simp: resolve_conflict_def split: option.splits sum.splits)
qed

lemma conflict_loop_within:
  assumes "calls_at_most n b next_fn" "\<And>c w. n (fst (ch_fetch_latest_state h c w)) = n w"
  shows "n (fst (conflict_loop h next_fn c attempts w)) \<le>
    n w + (\<Sum>a\<leftarrow>attempts. if a < max_conflict_retries - 1 then 2 * b else b)"
proof (induction attempts arbitrary: w)
  case (Cons a attempts)
  obtain w' r where nx: "next_fn c w = (w', r)" by fastforce
  then have one: "n w' \<le> n w + b" using calls_at_mostD [OF assms(1)] by blast
  obtain w'' r' where res: "resolve_conflict h c next_fn w' = (w'', r')" by fastforce
  then have two: "n w'' \<le> n w' + b" using resolve_within [OF assms, where w = w' and c = c] by simp
  show ?case using one two Cons.IH [of w''] by (auto simp: nx res split: sum.splits)
qed simp

lemma conflict_within:
  assumes "calls_at_most n b next_fn" "\<And>c w. n (fst (ch_fetch_latest_state h c w)) = n w"
  shows "calls_at_most n (5 * b) (conflict_resolution_behavior h next_fn)"
  unfolding calls_at_most_def
proof (intro allI)
  fix c w
  have "n (fst (next_fn c w)) \<le> n w + b" using assms(1) by (simp add: calls_at_most_def)
  moreover have "n (fst (conflict_loop h next_fn c [0..<max_conflict_retries] w)) \<le> n w + 5 * b"
    using conflict_loop_within [OF assms, where attempts = "[0..<max_conflict_retries]" and w = w and c = c]
    by (simp add: max_conflict_retries_def numeral_3_eq_3 upt_rec)
  ultimately show "n (fst (conflict_resolution_behavior h next_fn c w)) \<le> n w + 5 * b"
    by (auto simp: conflict_resolution_behavior_def split: option.splits)
qed

text \<open>
  C36: a resilient handler calls \<^verbatim>\<open>process\<close> at most 5 (\<open>m\<close> + 1) times for one command, where no retry policy allows
  more than \<open>m\<close> retries: three conflict attempts, two of them followed by a merged one, each retried.
\<close>

theorem resilient_calls_bounded:
  assumes "calls_at_most n 1 process" "\<And>d w. n (cl_sleep cl d w) = n w"
    and "\<And>c w. n (fst (ch_fetch_latest_state h c w)) = n w"
    and "\<And>c p. policy c = Some p \<Longrightarrow> nat (rp_max_retries p) \<le> m"
  shows "n (fst (resilient_handler cl policy h process c w)) \<le> n w + 5 * (m + 1)"
proof -
  have "calls_at_most n (m + 1) (retry_behavior cl policy process)"
    using retry_within [where n = n and b = 1, OF assms(1,2,4)] by simp
  then have "calls_at_most n (5 * (m + 1)) (resilient_handler cl policy h process)"
    unfolding resilient_handler_nests by (rule conflict_within) (rule assms(3))
  then show ?thesis by (simp add: calls_at_most_def)
qed

section \<open>Merging after a conflict\<close>

text \<open>
  when a command conflicts and is not under FIRST_WINS, the handler processes the command it makes of the
  merged states, and its response is the response to the caller: the first conflict is never reported.
\<close>

theorem conflict_resolved_by_merge:
  assumes config: "ch_config h c = Some cfg" "cc_policy cfg \<noteq> FIRST_WINS"
    and conflict: "process c w = (w1, Inl e)" "is_concurrency_error e"
    and states: "ch_fetch_latest_state h c w1 = (w2, Inr (Some current))" "ch_get_incoming_state h c = Inr incoming"
    and merged: "get_merge_strategy h cfg = Inr (Some strategy)" "strategy current incoming = Inr both"
    and retried: "ch_update_command h c both = Inr c'" "process c' w2 = (w3, Inr r)"
  shows "conflict_command_handler h process c w = (w3, Inr r)"
proof -
  have "resolve_conflict h c process w1 = (w3, Inr r)"
    using config(1) states merged retried by (simp add: resolve_conflict_def)
  then have "conflict_loop h process c [0..<max_conflict_retries] w = (w3, Inr r)"
    using conflict by (simp add: max_conflict_retries_def upt_rec)
  then show ?thesis
    using config by (simp add: conflict_command_handler_def add_behavior_def get_pipeline_foldr conflict_resolution_behavior_def)
qed

text \<open>A conflict is not retried as it is: the retry behaviour passes it on to the conflict behaviour around it.\<close>

lemma retry_passes_conflicts:
  assumes "process c w = (w', Inl e)" "is_concurrency_error e"
  shows "retry_behavior cl policy process c w = (w', Inl e)"
  using assms by (auto simp: retry_behavior_def retry_loop_step [of cl _ process] worth_retry_def split: option.splits)

section \<open>What the last-wins policy merges\<close>

lemma merge_dicts_absent:
  assumes "merge_dicts obj_id s d1 d2 = Inr m" "map_of d2 k = None"
  shows "map_of m k = map_of d1 k"
  using assms
proof (induction d2 arbitrary: d1)
  case (Cons e d2)
  obtain k' v where e: "e = (k', v)" by (cases e)
  then have "k' \<noteq> k" "map_of d2 k = None" using Cons.prems(2) by (auto split: if_splits)
  then show ?case
    using Cons.prems(1) Cons.IH
    by (auto simp: e AList.update_conv' split: option.splits sum.splits)
qed simp

lemma deep_strategy_dicts: "deep_strategy_fn h s d1 d2 = merge_dicts (mh_obj_id h) s d1 d2"
  by (cases "merge_dicts (mh_obj_id h) s d1 d2") (simp_all add: deep_strategy_fn_def dict_result_def deep_merge.simps)

text \<open>
  LAST_WINS without a strategy of its own merges: a field that the incoming state does not have keeps its
  stored value, so the most recent update does not overwrite the previous one.
\<close>

theorem last_wins_keeps_fields:
  assumes "ch_merge_strategy h = None" "cc_strategy_name cfg = None" "cc_policy cfg = LAST_WINS"
    and "map_of incoming k = None"
  shows "\<exists>strategy. get_merge_strategy h cfg = Inr (Some strategy) \<and>
    (\<forall>both. strategy current incoming = Inr both \<longrightarrow> map_of both k = map_of current k)"
proof (intro exI conjI allI impI)
  let ?s = "deep_strategy_fn (ch_host h) \<lparr>dm_append_lists = False, dm_key = FieldKey ''id''\<rparr>"
  show "get_merge_strategy h cfg = Inr (Some ?s)"
    using assms(1-3) by (simp add: get_merge_strategy_def infer_strategy_from_policy_def)
  fix both assume "?s current incoming = Inr both"
  then have "merge_dicts (mh_obj_id (ch_host h)) \<lparr>dm_append_lists = False, dm_key = FieldKey ''id''\<rparr> current incoming = Inr both"
    by (simp add: deep_strategy_dicts)
  then show "map_of both k = map_of current k" using assms(4) by (rule merge_dicts_absent)
qed

section \<open>Delays\<close>

lemma trunc_bounds: "0 \<le> x \<Longrightarrow> 0 \<le> trunc x \<and> of_int (trunc x) \<le> x"
  by (simp add: trunc_def)

lemma trunc_mono: "0 \<le> x \<Longrightarrow> x \<le> y \<Longrightarrow> trunc x \<le> trunc y"
  by (simp add: trunc_def floor_mono)

lemma backoff_bounds:
  assumes "0 \<le> i" "0 \<le> m" "0 \<le> d"
  shows "0 \<le> calculate_delay (ExponentialBackoffPolicy i m d) n" "calculate_delay (ExponentialBackoffPolicy i m d) n \<le> d"
  using assms trunc_bounds [of "of_int i * m ^ n"] by simp_all

text \<open>
  the pauses of exponential back-off: without jitter they grow with the attempt up to the maximum; with
  jitter they lie between nothing and one and a half times the maximum.
\<close>

theorem backoff_pauses:
  assumes "rp_delay p = ExponentialBackoffPolicy i m d" "0 \<le> i" "1 \<le> m" "0 \<le> d"
    and "\<And>n. 0 \<le> draw n \<and> draw n < 1"
  shows "0 \<le> retry_delay draw p n \<and> 2 * retry_delay draw p n \<le> 3 * d \<and>
    (\<not> rp_jitter p \<longrightarrow> retry_delay draw p n \<le> d \<and> (\<forall>k \<le> n. retry_delay draw p k \<le> retry_delay draw p n))"
proof -
  let ?c = "\<lambda>n. calculate_delay (ExponentialBackoffPolicy i m d) n"
  have c: "0 \<le> ?c n" "?c n \<le> d" using backoff_bounds [of i m d n] assms by simp_all
  have "?c k \<le> ?c n" if "k \<le> n" for k
    using that assms(2,3) trunc_mono [of "of_int i * m ^ k" "of_int i * m ^ n"]
    by (simp add: mult_left_mono power_increasing min.coboundedI1 min_le_iff_disj)
  moreover have "0 \<le> (of_int (?c n) :: rat) * (1 / 2 + draw n)" using c assms(5) [of n] by simp
  moreover have "(of_int (?c n) :: rat) * (1 / 2 + draw n) \<le> of_int d * (3 / 2)"
    using c assms(4) assms(5) [of n] by (intro mult_mono) simp_all
  ultimately show ?thesis
    using c assms(1) trunc_bounds [of "of_int (?c n) * (1 / 2 + draw n)"]
    by (auto simp: retry_delay_def Let_def simp del: calculate_delay.simps)
qed

text \<open>Jitter is applied after the cap: with a maximum of 5000 ms the sixth retry may wait 6250 ms.\<close>

lemma jitter_exceeds_maximum:
  "retry_delay (\<lambda>_. 3 / 4) (default_backoff\<lparr>rp_max_retries := 7\<rparr>) 6 = 6250"
  by (simp add: retry_delay_def default_backoff_def trunc_def)

section \<open>Witnesses\<close>

text \<open>A store that counts attempts: the first two fail, the third is answered.\<close>

definition ex_clock :: "nat clock" where
  "ex_clock = \<lparr>cl_sleep = (\<lambda>d w. w), cl_draw = (\<lambda>n. 1 / 4)\<rparr>"

definition ex_flaky :: "(payload, nat, nat) stage" where
  "ex_flaky c w = (w + 1, if w < 2 then Inl (Other ''timeout'') else Inr w)"

definition ex_merge_host :: merge_host where
  "ex_merge_host = \<lparr>mh_obj_id = (\<lambda>side i v. int i), mh_eq = (=), mh_parse = (\<lambda>s. None),
     mh_custom = (\<lambda>c kw. Inl (KeyError c))\<rparr>"

definition ex_merging :: "(payload, nat) conflict_handler" where
  "ex_merging = \<lparr>ch_config = (\<lambda>c. Some (default_conflict_config\<lparr>cc_policy := MERGE\<rparr>)),
     ch_fetch_latest_state = (\<lambda>c w. (w, Inr (Some [(''qty'', JInt 2), (''note'', JStr ''old'')]))),
     ch_get_incoming_state = Inr, ch_update_command = (\<lambda>c m. Inr m),
     ch_merge_strategy = None, ch_strategy_registry = None, ch_host = ex_merge_host\<rparr>"

text \<open>A process that accepts a command only when it carries the note.\<close>

definition ex_strict :: "(payload, nat, nat) stage" where
  "ex_strict c w = (w + 1, if map_of c ''note'' = None then Inl (ConcurrencyError ''stale'') else Inr w)"

theorem retry_first_final_attempt_witness:
  "\<exists>k \<le> 3. retry_behavior ex_clock (\<lambda>c. Some default_backoff) ex_flaky [] 0 =
     ex_flaky [] (before_attempt ex_clock default_backoff ex_flaky [] 0 k)"
  using retry_first_final_attempt [of "\<lambda>c. Some default_backoff" "[]" default_backoff ex_clock ex_flaky 0]
  by (auto simp: default_backoff_def)

theorem resilient_calls_bounded_witness:
  "fst (resilient_handler ex_clock (\<lambda>c. Some default_backoff) ex_merging ex_flaky [] 0) \<le> 20"
  using resilient_calls_bounded [where n = "\<lambda>w. w" and process = ex_flaky and cl = ex_clock and h = ex_merging
      and policy = "\<lambda>c. Some default_backoff" and m = 3 and c = "[]" and w = 0]
  by (simp add: calls_at_most_def ex_flaky_def ex_clock_def ex_merging_def default_backoff_def)

theorem conflict_resolved_by_merge_witness:
  "conflict_command_handler ex_merging ex_strict [(''qty'', JInt 5)] 0 = (2, Inr 1)"
proof (rule conflict_resolved_by_merge)
  show "ex_strict [(''qty'', JInt 5)] 0 = (1, Inl (ConcurrencyError ''stale''))" by (simp add: ex_strict_def)
  show "get_merge_strategy ex_merging (default_conflict_config\<lparr>cc_policy := MERGE\<rparr>) =
    Inr (Some (field_strategy \<lparr>fm_ignore_conflicts = False, fm_include = None, fm_exclude = None\<rparr>))"
    by (simp add: get_merge_strategy_def ex_merging_def default_conflict_config_def infer_strategy_from_policy_def)
  show "field_strategy \<lparr>fm_ignore_conflicts = False, fm_include = None, fm_exclude = None\<rparr>
     [(''qty'', JInt 2), (''note'', JStr ''old'')] [(''qty'', JInt 5)] = Inr [(''qty'', JInt 5), (''note'', JStr ''old'')]"
    by (simp add: field_strategy_def field_level_merge_with_def field_skipped_def names_set_def)
  show "ex_strict [(''qty'', JInt 5), (''note'', JStr ''old'')] 1 = (2, Inr 1)" by (simp add: ex_strict_def)
qed (simp_all add: ex_merging_def default_conflict_config_def)

theorem last_wins_keeps_fields_witness:
  "\<exists>strategy. get_merge_strategy ex_merging (default_conflict_config\<lparr>cc_policy := LAST_WINS\<rparr>) = Inr (Some strategy) \<and>
    (\<forall>both. strategy [(''note'', JStr ''old'')] [(''qty'', JInt 5)] = Inr both \<longrightarrow> map_of both ''note'' = Some (JStr ''old''))"
  using last_wins_keeps_fields [where h = ex_merging and cfg = "default_conflict_config\<lparr>cc_policy := LAST_WINS\<rparr>"
      and incoming = "[(''qty'', JInt 5)]" and current = "[(''note'', JStr ''old'')]" and k = "''note''"]
  by (simp add: ex_merging_def default_conflict_config_def)

theorem backoff_pauses_witness:
  "0 \<le> retry_delay (\<lambda>n. 1 / 4) default_backoff 2 \<and> retry_delay (\<lambda>n. 1 / 4) default_backoff 2 \<le> 7500"
  using backoff_pauses [where p = default_backoff and i = 100 and m = 2 and d = 5000 and draw = "\<lambda>n. 1 / 4" and n = 2]
  by (simp add: default_backoff_def)

end
