(* ===== verification/Undo.thy ===== *)
theory Undo
  imports Prelude
begin

text \<open>
  Undo and redo (advanced: undo/registry.py, undo/service.py) and its use for access rules (features/access:
  undo.py, handlers.py, commands.py, events.py).

  An executor is three functions on the outside world: the check \<^verbatim>\<open>can_undo\<close>, \<^verbatim>\<open>undo\<close> and \<^verbatim>\<open>redo\<close>.  The
  executors for access rules send commands through a mediator, which is a parameter.
\<close>

section \<open>Registry and service\<close>

record ('e, 'w) undo_executor =
  ux_event_type :: string
  ux_can_undo :: "'e \<Rightarrow> 'w \<Rightarrow> 'w \<times> (exn + bool)"
  ux_undo :: "'e \<Rightarrow> 'w \<Rightarrow> 'w \<times> (exn + 'e list)"
  ux_redo :: "'e \<Rightarrow> 'e \<Rightarrow> 'w \<Rightarrow> 'w \<times> (exn + 'e list)"

type_synonym ('e, 'w) undo_registry = "(string, ('e, 'w) undo_executor) dict"

definition register_executor :: "('e, 'w) undo_executor \<Rightarrow> ('e, 'w) undo_registry \<Rightarrow> ('e, 'w) undo_registry" where
  "register_executor x r = AList.update (ux_event_type x) x r"

definition get_executor :: "('e, 'w) undo_registry \<Rightarrow> string \<Rightarrow> ('e, 'w) undo_executor option" where
  "get_executor r event_type = map_of r event_type"

definition has_executor :: "('e, 'w) undo_registry \<Rightarrow> string \<Rightarrow> bool" where
  "has_executor r event_type \<longleftrightarrow> event_type \<in> set (dkeys r)"

definition list_executors :: "('e, 'w) undo_registry \<Rightarrow> ('e, 'w) undo_registry" where
  "list_executors r = r"

definition clear_executors :: "('e, 'w) undo_registry \<Rightarrow> ('e, 'w) undo_registry" where
  "clear_executors r = []"

definition no_executor :: "string \<Rightarrow> exn" where
  "no_executor event_type = ValueError (''No UndoExecutor registered for event type '' @ quoted event_type)"

text \<open>\<open>ty\<close> is the class name of an event.\<close>

definition undo_event :: "('e \<Rightarrow> string) \<Rightarrow> ('e, 'w) undo_registry \<Rightarrow> 'e \<Rightarrow> 'w \<Rightarrow> 'w \<times> (exn + 'e list)" where
  "undo_event ty r event w =
     (case get_executor r (ty event) of
        None \<Rightarrow> (w, Inl (no_executor (ty event)))
      | Some x \<Rightarrow>
          (case ux_can_undo x event w of
             (w', Inl e) \<Rightarrow> (w', Inl e)
           | (w', Inr can) \<Rightarrow> if \<not> can then (w', Inr []) else ux_undo x event w'))"

definition redo_event :: "('e \<Rightarrow> string) \<Rightarrow> ('e, 'w) undo_registry \<Rightarrow> 'e \<Rightarrow> 'e \<Rightarrow> 'w \<Rightarrow> 'w \<times> (exn + 'e list)" where
  "redo_event ty r event undone w =
     (case get_executor r (ty event) of
        None \<Rightarrow> (w, Inl (no_executor (ty event)))
      | Some x \<Rightarrow> ux_redo x event undone w)"

section \<open>Commands and events for access rules\<close>

record acl_key =
  ak_resource_type :: string
  ak_action :: string
  ak_principal_name :: "string option"
  ak_role_name :: "string option"
  ak_resource_id :: "string option"

datatype acl_command =
    GrantACL acl_key "payload option" "payload option"
  | RevokeACL acl_key
  | SetResourcePublic string bool
  | GrantOwnershipACL string string "string list"

datatype acl_event =
    ACLGrantRequested string "string option" "(acl_key \<times> payload option \<times> payload option) list"
  | ACLRevokeRequested acl_key
  | ResourceTypePublicSetRequested string bool
  | ACLGranted acl_key "payload option" "payload option"
  | ACLRevoked acl_key "payload option"
  | ResourceTypePublicSet string bool "bool option"

fun acl_event_type :: "acl_event \<Rightarrow> string" where
  "acl_event_type (ACLGrantRequested _ _ _) = ''ACLGrantRequested''"
| "acl_event_type (ACLRevokeRequested _) = ''ACLRevokeRequested''"
| "acl_event_type (ResourceTypePublicSetRequested _ _) = ''ResourceTypePublicSetRequested''"
| "acl_event_type (ACLGranted _ _ _) = ''ACLGranted''"
| "acl_event_type (ACLRevoked _ _) = ''ACLRevoked''"
| "acl_event_type (ResourceTypePublicSet _ _ _) = ''ResourceTypePublicSet''"

text \<open>The command handlers: each answers with one request event.  \<open>username\<close> is the name of the current principal.\<close>

definition grant_acl_handler :: "acl_key \<Rightarrow> payload option \<Rightarrow> payload option \<Rightarrow> acl_event list" where
  "grant_acl_handler k conditions dsl =
     [ACLGrantRequested (ak_resource_type k) (ak_resource_id k) [(k, conditions, dsl)]]"

definition revoke_acl_handler :: "acl_key \<Rightarrow> acl_event list" where
  "revoke_acl_handler k = [ACLRevokeRequested k]"

definition set_resource_public_handler :: "string \<Rightarrow> bool \<Rightarrow> acl_event list" where
  "set_resource_public_handler ty is_public = [ResourceTypePublicSetRequested ty is_public]"

definition grant_ownership_handler :: "string \<Rightarrow> string \<Rightarrow> string \<Rightarrow> string list \<Rightarrow> acl_event list" where
  "grant_ownership_handler username ty rid actions =
     [ACLGrantRequested ty (Some rid)
        (map (\<lambda>a. (\<lparr>ak_resource_type = ty, ak_action = a, ak_principal_name = Some username, ak_role_name = None,
                    ak_resource_id = Some rid\<rparr>, None, None)) actions)]"

definition acl_handle :: "string \<Rightarrow> acl_command \<Rightarrow> acl_event list" where
  "acl_handle username c =
     (case c of
        GrantACL k conditions dsl \<Rightarrow> grant_acl_handler k conditions dsl
      | RevokeACL k \<Rightarrow> revoke_acl_handler k
      | SetResourcePublic ty p \<Rightarrow> set_resource_public_handler ty p
      | GrantOwnershipACL ty rid actions \<Rightarrow> grant_ownership_handler username ty rid actions)"

section \<open>Executors for access rules\<close>

type_synonym 'w acl_mediator = "acl_command \<Rightarrow> 'w \<Rightarrow> 'w \<times> (exn + acl_event list)"

text \<open>An executor is only called with events of its type; with others it has no attribute to read.\<close>

definition wrong_event :: "'w \<Rightarrow> 'w \<times> (exn + 'a)" where
  "wrong_event w = (w, Inl (AttributeError ''previous_state''))"

text \<open>An entry of the previous state as a field of \<^verbatim>\<open>GrantACL\<close>: a dictionary or nothing.\<close>

definition prev_entry :: "payload \<Rightarrow> string \<Rightarrow> exn + payload option" where
  "prev_entry prev name =
     (case map_of prev name of
        None \<Rightarrow> Inr None
      | Some JNull \<Rightarrow> Inr None
      | Some (JDict d) \<Rightarrow> Inr (Some d)
      | Some _ \<Rightarrow> Inl (ValidationError [(name, [''Input should be a valid dictionary''])]))"

definition granted_executor :: "'w acl_mediator \<Rightarrow> (acl_event, 'w) undo_executor" where
  "granted_executor send =
     \<lparr>ux_event_type = ''ACLGranted'',
      ux_can_undo = (\<lambda>event w. (w, Inr True)),
      ux_undo = (\<lambda>event w. case event of ACLGranted k conditions dsl \<Rightarrow> send (RevokeACL k) w | _ \<Rightarrow> wrong_event w),
      ux_redo = (\<lambda>event undone w. case event of
         ACLGranted k conditions dsl \<Rightarrow> send (GrantACL k conditions dsl) w | _ \<Rightarrow> wrong_event w)\<rparr>"

definition revoked_executor :: "'w acl_mediator \<Rightarrow> (acl_event, 'w) undo_executor" where
  "revoked_executor send =
     \<lparr>ux_event_type = ''ACLRevoked'',
      ux_can_undo = (\<lambda>event w. case event of ACLRevoked k prev \<Rightarrow> (w, Inr (prev \<noteq> None)) | _ \<Rightarrow> wrong_event w),
      ux_undo = (\<lambda>event w. case event of
         ACLRevoked k prev \<Rightarrow>
           (let prev = (case prev of None \<Rightarrow> [] | Some p \<Rightarrow> p)
            in case (prev_entry prev ''conditions'', prev_entry prev ''specification_dsl'') of
                 (Inl e, _) \<Rightarrow> (w, Inl e)
               | (_, Inl e) \<Rightarrow> (w, Inl e)
               | (Inr conditions, Inr dsl) \<Rightarrow> send (GrantACL k conditions dsl) w)
       | _ \<Rightarrow> wrong_event w),
      ux_redo = (\<lambda>event undone w. case event of ACLRevoked k prev \<Rightarrow> send (RevokeACL k) w | _ \<Rightarrow> wrong_event w)\<rparr>"

definition public_set_executor :: "'w acl_mediator \<Rightarrow> (acl_event, 'w) undo_executor" where
  "public_set_executor send =
     \<lparr>ux_event_type = ''ResourceTypePublicSet'',
      ux_can_undo = (\<lambda>event w. case event of ResourceTypePublicSet ty p prev \<Rightarrow> (w, Inr (prev \<noteq> None)) | _ \<Rightarrow> wrong_event w),
      ux_undo = (\<lambda>event w. case event of
         ResourceTypePublicSet ty p prev \<Rightarrow>
           send (SetResourcePublic ty (case prev of None \<Rightarrow> \<not> p | Some b \<Rightarrow> b)) w
       | _ \<Rightarrow> wrong_event w),
      ux_redo = (\<lambda>event undone w. case event of
         ResourceTypePublicSet ty p prev \<Rightarrow> send (SetResourcePublic ty p) w | _ \<Rightarrow> wrong_event w)\<rparr>"

definition register_acl_undo_executors :: "'w acl_mediator \<Rightarrow> (acl_event, 'w) undo_registry \<Rightarrow> (acl_event, 'w) undo_registry" where
  "register_acl_undo_executors send r =
     register_executor (public_set_executor send)
       (register_executor (revoked_executor send) (register_executor (granted_executor send) r))"

section \<open>What the service runs\<close>

text \<open>
  the service runs the executor registered last for the type of an event: it raises without one, runs
  nothing when the executor declines, and otherwise answers what the executor answers; a redo is not
  checked.
\<close>

theorem undo_runs_last_executor:
  "undo_event ty (register_executor x r) event w =
     (if ux_event_type x = ty event
      then (case ux_can_undo x event w of
              (w', Inl e) \<Rightarrow> (w', Inl e)
            | (w', Inr can) \<Rightarrow> if can then ux_undo x event w' else (w', Inr []))
      else undo_event ty r event w) \<and>
   redo_event ty (register_executor x r) event undone w =
     (if ux_event_type x = ty event then ux_redo x event undone w else redo_event ty r event undone w) \<and>
   undo_event ty (clear_executors r) event w = (w, Inl (no_executor (ty event)))"
  by (auto simp: undo_event_def redo_event_def register_executor_def get_executor_def clear_executors_def AList.update_conv'
      split: prod.splits sum.splits)

section \<open>Undoing changes of access rules\<close>

text \<open>
  A mediator that carries the commands out: \<open>rules\<close> reads the rules of the world and \<open>public\<close> the types that
  are public.  The request events are handled in the same transaction, so the world after \<^verbatim>\<open>send\<close> shows
  the change.
\<close>

definition performs ::
  "'w acl_mediator \<Rightarrow> ('w \<Rightarrow> acl_key \<Rightarrow> (payload option \<times> payload option) option) \<Rightarrow> ('w \<Rightarrow> string \<Rightarrow> bool) \<Rightarrow> bool" where
  "performs send rules public \<longleftrightarrow>
     (\<forall>w k c d. rules (fst (send (GrantACL k c d) w)) = (rules w)(k \<mapsto> (c, d)) \<and> public (fst (send (GrantACL k c d) w)) = public w) \<and>
     (\<forall>w k. rules (fst (send (RevokeACL k) w)) = (rules w)(k := None) \<and> public (fst (send (RevokeACL k) w)) = public w) \<and>
     (\<forall>w ty p. rules (fst (send (SetResourcePublic ty p) w)) = rules w \<and>
       public (fst (send (SetResourcePublic ty p) w)) = (public w)(ty := p))"

lemma performsD:
  assumes "performs send rules public"
  shows "rules (fst (send (GrantACL k c d) w)) = (rules w)(k \<mapsto> (c, d))" "public (fst (send (GrantACL k c d) w)) = public w"
    and "rules (fst (send (RevokeACL k) w)) = (rules w)(k := None)" "public (fst (send (RevokeACL k) w)) = public w"
    and "rules (fst (send (SetResourcePublic ty p) w)) = rules w"
    and "public (fst (send (SetResourcePublic ty p) w)) = (public w)(ty := p)"
  using assms by (simp_all add: performs_def)

text \<open>The entry that a revocation records of the rule it removes.\<close>

definition json_of :: "payload option \<Rightarrow> json" where
  "json_of v = (case v of None \<Rightarrow> JNull | Some d \<Rightarrow> JDict d)"

definition previous_of :: "payload option \<Rightarrow> payload option \<Rightarrow> payload" where
  "previous_of c d = [(''conditions'', json_of c), (''specification_dsl'', json_of d)]"

lemma prev_entries [simp]:
  "prev_entry (previous_of c d) ''conditions'' = Inr c" "prev_entry (previous_of c d) ''specification_dsl'' = Inr d"
  by (simp_all add: prev_entry_def previous_of_def json_of_def split: option.splits)

lemma acl_executors:
  "get_executor (register_acl_undo_executors send r) ''ACLGranted'' = Some (granted_executor send)"
  "get_executor (register_acl_undo_executors send r) ''ACLRevoked'' = Some (revoked_executor send)"
  "get_executor (register_acl_undo_executors send r) ''ResourceTypePublicSet'' = Some (public_set_executor send)"
  by (simp_all add: register_acl_undo_executors_def register_executor_def get_executor_def AList.update_conv'
      granted_executor_def revoked_executor_def public_set_executor_def)

lemma acl_undo_redo:
  defines "reg send \<equiv> register_acl_undo_executors send []"
  shows "undo_event acl_event_type (reg send) (ACLGranted k c d) w = send (RevokeACL k) w"
    and "redo_event acl_event_type (reg send) (ACLGranted k c d) u w = send (GrantACL k c d) w"
    and "undo_event acl_event_type (reg send) (ACLRevoked k (Some (previous_of c d))) w = send (GrantACL k c d) w"
    and "redo_event acl_event_type (reg send) (ACLRevoked k p) u w = send (RevokeACL k) w"
    and "undo_event acl_event_type (reg send) (ResourceTypePublicSet ty b (Some b')) w = send (SetResourcePublic ty b') w"
    and "redo_event acl_event_type (reg send) (ResourceTypePublicSet ty b q) u w = send (SetResourcePublic ty b) w"
  by (simp_all add: reg_def undo_event_def redo_event_def acl_executors)
     (simp_all add: granted_executor_def revoked_executor_def public_set_executor_def)

text \<open>
  undoing a change of access rules restores the rules from before it, and redoing it restores the
  change: granting a rule that was not there, revoking a rule whose state was recorded, and switching a
  type to public and back.
\<close>

theorem acl_changes_undone:
  assumes "performs send rules public"
  defines "undo \<equiv> undo_event acl_event_type (register_acl_undo_executors send [])"
    and "redo \<equiv> redo_event acl_event_type (register_acl_undo_executors send [])"
  shows "(rules w k = None \<longrightarrow>
      (let w1 = fst (send (GrantACL k c d) w); w2 = fst (undo (ACLGranted k c d) w1)
       in rules w2 = rules w \<and> rules (fst (redo (ACLGranted k c d) u w2)) = rules w1)) \<and>
    (rules w k = Some (c, d) \<longrightarrow>
      (let w1 = fst (send (RevokeACL k) w); e = ACLRevoked k (Some (previous_of c d)); w2 = fst (undo e w1)
       in rules w2 = rules w \<and> rules (fst (redo e u w2)) = rules w1)) \<and>
    (let w1 = fst (send (SetResourcePublic ty b) w); e = ResourceTypePublicSet ty b (Some (public w ty)); w2 = fst (undo e w1)
     in public w2 = public w \<and> public (fst (redo e u w2)) = public w1)"
  by (auto simp: undo_def redo_def acl_undo_redo Let_def performsD [OF assms(1)] fun_upd_idem)

text \<open>
  undoing a grant that replaced a rule removes the rule altogether: the executor does not look at the
  previous state that the event carries.
\<close>

theorem undone_grant_loses_replaced_rule:
  assumes "performs send rules public" "rules w k = Some old"
  shows "rules (fst (undo_event acl_event_type (register_acl_undo_executors send []) (ACLGranted k c d)
      (fst (send (GrantACL k c d) w)))) k = None"
  by (simp add: acl_undo_redo performsD [OF assms(1)])

text \<open>A mediator over a world that is the rules and the public types.\<close>

definition acl_store_send :: "((acl_key \<Rightarrow> (payload option \<times> payload option) option) \<times> (string \<Rightarrow> bool)) acl_mediator" where
  "acl_store_send c w =
     (case c of
        GrantACL k cs d \<Rightarrow> (((fst w)(k \<mapsto> (cs, d)), snd w), Inr (acl_handle ''ann'' c))
      | RevokeACL k \<Rightarrow> (((fst w)(k := None), snd w), Inr (acl_handle ''ann'' c))
      | SetResourcePublic ty p \<Rightarrow> ((fst w, (snd w)(ty := p)), Inr (acl_handle ''ann'' c))
      | _ \<Rightarrow> (w, Inr (acl_handle ''ann'' c)))"

lemma acl_store_performs: "performs acl_store_send fst snd"
  by (simp add: performs_def acl_store_send_def)

definition ex_acl_key :: acl_key where
  "ex_acl_key = \<lparr>ak_resource_type = ''order'', ak_action = ''read'', ak_principal_name = Some ''ann'', ak_role_name = None,
     ak_resource_id = None\<rparr>"

theorem acl_changes_undone_witness:
  "fst (fst (undo_event acl_event_type (register_acl_undo_executors acl_store_send []) (ACLGranted ex_acl_key None None)
     (fst (acl_store_send (GrantACL ex_acl_key None None) (Map.empty, \<lambda>_. False))))) = Map.empty"
  using acl_changes_undone [OF acl_store_performs, where w = "(Map.empty, \<lambda>_. False)" and k = ex_acl_key and c = None and d = None]
  by (simp add: Let_def)

theorem undone_grant_loses_replaced_rule_witness:
  "fst (fst (undo_event acl_event_type (register_acl_undo_executors acl_store_send []) (ACLGranted ex_acl_key None None)
     (fst (acl_store_send (GrantACL ex_acl_key None None) (Map.empty(ex_acl_key \<mapsto> (Some [], None)), \<lambda>_. False))))) ex_acl_key = None"
  by (rule undone_grant_loses_replaced_rule [OF acl_store_performs]) simp

end
