(* ===== verification/Sessions.thy ===== *)
theory Sessions
  imports PyValue
begin

text \<open>
  Short-lived secrets (features/identity): the in-memory session store (session.py), OAuth state parameters
  (oauth2/state.py), PKCE (oauth2/pkce.py), one-time passwords by mail and SMS (mfa/otp.py), authenticator
  codes (mfa/totp.py) and backup codes (mfa/backup_codes.py).

  Randomness, hashing, base64 and \<^verbatim>\<open>pyotp\<close> are parameters; time is in seconds, and every call gets the time at
  which it runs.
\<close>

section \<open>Session store\<close>

type_synonym session_store = "(string, payload \<times> time option) dict"

definition expired :: "time \<Rightarrow> time option \<Rightarrow> bool" where
  "expired now expires_at \<longleftrightarrow> (case expires_at of None \<Rightarrow> False | Some t \<Rightarrow> t < now)"

definition session_put :: "time \<Rightarrow> string \<Rightarrow> payload \<Rightarrow> int option \<Rightarrow> session_store \<Rightarrow> session_store" where
  "session_put now key data ttl s =
     AList.update key (data, case ttl of None \<Rightarrow> None | Some t \<Rightarrow> if t > 0 then Some (now + t) else None) s"

definition session_get :: "time \<Rightarrow> string \<Rightarrow> session_store \<Rightarrow> session_store \<times> payload option" where
  "session_get now key s =
     (case map_of s key of
        None \<Rightarrow> (s, None)
      | Some (data, expires_at) \<Rightarrow> if expired now expires_at then (AList.delete key s, None) else (s, Some data))"

definition session_delete :: "string \<Rightarrow> session_store \<Rightarrow> session_store" where
  "session_delete key s = AList.delete key s"

definition session_exists :: "time \<Rightarrow> string \<Rightarrow> session_store \<Rightarrow> session_store \<times> bool" where
  "session_exists now key s = (case session_get now key s of (s', d) \<Rightarrow> (s', d \<noteq> None))"

definition session_clear_all :: "session_store \<Rightarrow> session_store" where
  "session_clear_all s = []"

section \<open>OAuth state\<close>

text \<open>
  The fields are JSON values, \<^const>\<open>JNull\<close> for \<^verbatim>\<open>None\<close>; the creation time is a time, or what was stored instead of
  one.  \<open>fmt\<close> and \<open>parse\<close> are \<^verbatim>\<open>isoformat\<close> and \<^verbatim>\<open>fromisoformat\<close>.
\<close>

datatype stamp = At time | Raw json

record oauth_state =
  os_state :: json
  os_pkce_verifier :: json
  os_redirect_uri :: json
  os_nonce :: json
  os_created_at :: stamp
  os_provider :: json
  os_extra :: json

definition put_truthy :: "string \<Rightarrow> json \<Rightarrow> payload \<Rightarrow> payload" where
  "put_truthy k v d = (if json_truthy v then AList.update k v d else d)"

definition oauth_to_dict :: "(time \<Rightarrow> string) \<Rightarrow> oauth_state \<Rightarrow> exn + payload" where
  "oauth_to_dict fmt st =
     (case (case os_created_at st of
              At t \<Rightarrow> Inr (JStr (fmt t))
            | Raw v \<Rightarrow> if json_truthy v then Inl (AttributeError ''isoformat'') else Inr JNull) of
        Inl e \<Rightarrow> Inl e
      | Inr created \<Rightarrow>
          Inr (put_truthy ''extra'' (os_extra st) (put_truthy ''provider'' (os_provider st)
            (put_truthy ''nonce'' (os_nonce st) (put_truthy ''redirect_uri'' (os_redirect_uri st)
            (put_truthy ''pkce_verifier'' (os_pkce_verifier st)
            [(''state'', os_state st), (''created_at'', created)]))))))"

definition jentry :: "payload \<Rightarrow> string \<Rightarrow> json" where
  "jentry d k = (case map_of d k of None \<Rightarrow> JNull | Some v \<Rightarrow> v)"

definition oauth_from_dict :: "(string \<Rightarrow> exn + time) \<Rightarrow> time \<Rightarrow> payload \<Rightarrow> exn + oauth_state" where
  "oauth_from_dict parse now data =
     (if jentry data ''state'' = JNull then Inl (ValueError ''Missing required 'state' in OAuth state data'')
      else case (case jentry data ''created_at'' of
                   JStr s \<Rightarrow> map_sum id At (parse s) | JNull \<Rightarrow> Inr (At now) | v \<Rightarrow> Inr (Raw v)) of
             Inl e \<Rightarrow> Inl e
           | Inr created \<Rightarrow>
               Inr \<lparr>os_state = jentry data ''state'', os_pkce_verifier = jentry data ''pkce_verifier'',
                    os_redirect_uri = jentry data ''redirect_uri'', os_nonce = jentry data ''nonce'', os_created_at = created,
                    os_provider = jentry data ''provider'', os_extra = jentry data ''extra''\<rparr>)"

definition create_state ::
  "time \<Rightarrow> string \<Rightarrow> json \<Rightarrow> json \<Rightarrow> json \<Rightarrow> json \<Rightarrow> json \<Rightarrow> oauth_state" where
  "create_state now fresh provider pkce_verifier redirect_uri nonce extra =
     \<lparr>os_state = JStr fresh, os_pkce_verifier = pkce_verifier, os_redirect_uri = redirect_uri, os_nonce = nonce,
      os_created_at = At now, os_provider = provider, os_extra = extra\<rparr>"

text \<open>\<open>text_of\<close> renders the state value in the key.\<close>

definition state_key :: "string \<Rightarrow> string" where
  "state_key state = ''oauth_state:'' @ state"

definition store_state ::
  "(time \<Rightarrow> string) \<Rightarrow> (json \<Rightarrow> string) \<Rightarrow> int \<Rightarrow> time \<Rightarrow> oauth_state \<Rightarrow> session_store \<Rightarrow> session_store \<times> exn option" where
  "store_state fmt text_of state_ttl now st s =
     (case oauth_to_dict fmt st of
        Inl e \<Rightarrow> (s, Some e)
      | Inr d \<Rightarrow> (session_put now (state_key (text_of (os_state st))) d (Some state_ttl) s, None))"

definition get_state :: "(string \<Rightarrow> exn + time) \<Rightarrow> time \<Rightarrow> string \<Rightarrow> session_store \<Rightarrow> session_store \<times> (exn + oauth_state option)" where
  "get_state parse now state s =
     (case session_get now (state_key state) s of
        (s', None) \<Rightarrow> (s', Inr None)
      | (s', Some data) \<Rightarrow> (s', map_sum id Some (oauth_from_dict parse now data)))"

definition delete_state :: "string \<Rightarrow> session_store \<Rightarrow> session_store" where
  "delete_state state s = session_delete (state_key state) s"

definition validate_state :: "(string \<Rightarrow> exn + time) \<Rightarrow> time \<Rightarrow> string \<Rightarrow> session_store \<Rightarrow> session_store \<times> (exn + oauth_state option)" where
  "validate_state parse now state s =
     (case get_state parse now state s of
        (s', Inl e) \<Rightarrow> (s', Inl e)
      | (s', Inr None) \<Rightarrow> (s', Inr None)
      | (s', Inr (Some st)) \<Rightarrow> (delete_state state s', Inr (Some st)))"

section \<open>PKCE\<close>

text \<open>\<open>token\<close> is the base64 text of random bytes; \<open>s256\<close> is the S256 hash of a verifier.\<close>

record pkce_data =
  pk_code_verifier :: string
  pk_code_challenge :: string

definition generate_pkce_verifier :: "(nat \<Rightarrow> string) \<Rightarrow> nat \<Rightarrow> exn + string" where
  "generate_pkce_verifier token len =
     (if len < 43 \<or> 128 < len
      then Inl (ValueError ''code_verifier length must be between 43 and 128 characters'')
      else Inr (take len (token len)))"

definition create_pkce_data :: "(nat \<Rightarrow> string) \<Rightarrow> (string \<Rightarrow> string) \<Rightarrow> nat \<Rightarrow> exn + pkce_data" where
  "create_pkce_data token s256 len =
     map_sum id (\<lambda>v. \<lparr>pk_code_verifier = v, pk_code_challenge = s256 v\<rparr>) (generate_pkce_verifier token len)"

definition verify_pkce_challenge :: "(string \<Rightarrow> string) \<Rightarrow> string \<Rightarrow> string \<Rightarrow> bool" where
  "verify_pkce_challenge s256 verifier challenge \<longleftrightarrow>
     verifier \<noteq> [] \<and> challenge \<noteq> [] \<and> \<not> (length verifier < 43 \<or> 128 < length verifier) \<and> s256 verifier = challenge"

section \<open>One-time passwords\<close>

record otp_config =
  oc_code_length :: nat
  oc_ttl_seconds :: int
  oc_max_attempts :: nat
  oc_cooldown_seconds :: int

definition default_otp_config :: otp_config where
  "default_otp_config = \<lparr>oc_code_length = 6, oc_ttl_seconds = 300, oc_max_attempts = 3, oc_cooldown_seconds = 60\<rparr>"

type_synonym challenges = "(string, string \<times> time) dict"

definition challenge_create :: "time \<Rightarrow> string \<Rightarrow> string \<Rightarrow> int \<Rightarrow> challenges \<Rightarrow> challenges" where
  "challenge_create now identifier code ttl s = AList.update identifier (code, now + ttl) s"

definition challenge_verify :: "time \<Rightarrow> string \<Rightarrow> string \<Rightarrow> challenges \<Rightarrow> challenges \<times> bool" where
  "challenge_verify now identifier code s =
     (case map_of s identifier of
        None \<Rightarrow> (s, False)
      | Some (stored_code, expires_at) \<Rightarrow>
          if expires_at < now then (AList.delete identifier s, False)
          else if stored_code = code then (AList.delete identifier s, True)
          else (s, False))"

definition challenge_delete :: "string \<Rightarrow> challenges \<Rightarrow> challenges" where
  "challenge_delete identifier s = AList.delete identifier s"

record otp_state =
  ot_challenges :: challenges
  ot_last_sent :: "(string, time) dict"

definition record_send :: "time \<Rightarrow> string \<Rightarrow> otp_state \<Rightarrow> otp_state" where
  "record_send now identifier s = s\<lparr>ot_last_sent := AList.update identifier now (ot_last_sent s)\<rparr>"

definition seconds_since_last_send :: "time \<Rightarrow> string \<Rightarrow> otp_state \<Rightarrow> int option" where
  "seconds_since_last_send now identifier s = map_option (\<lambda>t. now - t) (map_of (ot_last_sent s) identifier)"

text \<open>\<^verbatim>\<open>str(code).zfill(n)\<close> of a random number.\<close>

definition generate_otp :: "nat \<Rightarrow> nat \<Rightarrow> string" where
  "generate_otp len number = replicate (len - length (show_nat number)) (CHR ''0'') @ show_nat number"

text \<open>\<open>deliver\<close> is the application's delivery hook.\<close>

definition otp_send ::
  "otp_config \<Rightarrow> (string \<Rightarrow> string \<Rightarrow> 'w \<Rightarrow> 'w \<times> exn option) \<Rightarrow> time \<Rightarrow> nat \<Rightarrow> string \<Rightarrow> otp_state \<times> 'w \<Rightarrow> (otp_state \<times> 'w) \<times> (exn + string)" where
  "otp_send cfg deliver now number address sw =
     (case sw of (s, w) \<Rightarrow>
        let code = generate_otp (oc_code_length cfg) number;
            s = s\<lparr>ot_challenges := challenge_create now address code (oc_ttl_seconds cfg) (ot_challenges s)\<rparr>;
            s = record_send now address s
        in case deliver address code w of
             (w', None) \<Rightarrow> ((s, w'), Inr code)
           | (w', Some e) \<Rightarrow> ((s, w'), Inl e))"

definition otp_verify :: "time \<Rightarrow> string \<Rightarrow> string \<Rightarrow> otp_state \<Rightarrow> otp_state \<times> (exn + bool)" where
  "otp_verify now address code s =
     (case challenge_verify now address code (ot_challenges s) of
        (c, is_valid) \<Rightarrow>
          (s\<lparr>ot_challenges := c\<rparr>,
           if \<not> is_valid then Inl (IdentityError ''MfaInvalidError'' ''Invalid or expired OTP code'') else Inr True))"

definition otp_resend ::
  "otp_config \<Rightarrow> (string \<Rightarrow> string \<Rightarrow> 'w \<Rightarrow> 'w \<times> exn option) \<Rightarrow> time \<Rightarrow> nat \<Rightarrow> string \<Rightarrow> otp_state \<times> 'w \<Rightarrow> (otp_state \<times> 'w) \<times> (exn + string)" where
  "otp_resend cfg deliver now number address sw =
     (case sw of (s, w) \<Rightarrow>
        (case seconds_since_last_send now address s of
           Some since \<Rightarrow>
             if since < oc_cooldown_seconds cfg
             then ((s, w), Inl (IdentityError ''MfaSetupError'' (''Please wait '' @ show_int (oc_cooldown_seconds cfg - since) @
               '' seconds before requesting a new code'')))
             else otp_send cfg deliver now number address (s\<lparr>ot_challenges := challenge_delete address (ot_challenges s)\<rparr>, w)
         | None \<Rightarrow> otp_send cfg deliver now number address (s\<lparr>ot_challenges := challenge_delete address (ot_challenges s)\<rparr>, w)))"

text \<open>The SMS service has the same methods with its own hook and stores.\<close>

definition sms_send ::
  "otp_config \<Rightarrow> (string \<Rightarrow> string \<Rightarrow> 'w \<Rightarrow> 'w \<times> exn option) \<Rightarrow> time \<Rightarrow> nat \<Rightarrow> string \<Rightarrow> otp_state \<times> 'w \<Rightarrow> (otp_state \<times> 'w) \<times> (exn + string)" where
  "sms_send cfg send_sms_otp now number phone sw = otp_send cfg send_sms_otp now number phone sw"

definition sms_verify :: "time \<Rightarrow> string \<Rightarrow> string \<Rightarrow> otp_state \<Rightarrow> otp_state \<times> (exn + bool)" where
  "sms_verify now phone code s = otp_verify now phone code s"

definition sms_resend ::
  "otp_config \<Rightarrow> (string \<Rightarrow> string \<Rightarrow> 'w \<Rightarrow> 'w \<times> exn option) \<Rightarrow> time \<Rightarrow> nat \<Rightarrow> string \<Rightarrow> otp_state \<times> 'w \<Rightarrow> (otp_state \<times> 'w) \<times> (exn + string)" where
  "sms_resend cfg send_sms_otp now number phone sw = otp_resend cfg send_sms_otp now number phone sw"

section \<open>Authenticator codes\<close>

text \<open>
  The secrets of users, and \<^verbatim>\<open>pyotp\<close>: \<open>valid secret code now\<close> is its verification within the window.  The
  setup receives the random secret and the URI.
\<close>

type_synonym totp_secrets = "(string, string) dict"

definition rstrip_pad :: "string \<Rightarrow> string" where
  "rstrip_pad s = rev (dropWhile (\<lambda>c. c = CHR ''='') (rev s))"

fun groups_of_4 :: "string \<Rightarrow> string list" where
  "groups_of_4 [] = []"
| "groups_of_4 (a # b # c # d # s) = [a, b, c, d] # groups_of_4 s"
| "groups_of_4 s = [s]"

definition format_secret :: "string \<Rightarrow> string" where
  "format_secret secret = join_with (CHR '' '') (groups_of_4 (rstrip_pad secret))"

record totp_setup =
  tp_secret :: string
  tp_qr_uri :: string
  tp_manual_key :: string

definition setup_totp :: "string \<Rightarrow> (string \<Rightarrow> string) \<Rightarrow> string \<Rightarrow> totp_secrets option \<Rightarrow> totp_secrets option \<times> (exn + totp_setup)" where
  "setup_totp random_secret uri user_id store =
     (case store of
        None \<Rightarrow> (store, Inl (IdentityError ''MfaSetupError'' ''TotpService requires a secret_store for setup and verification.''))
      | Some s \<Rightarrow>
          (Some (AList.update user_id random_secret s),
           Inr \<lparr>tp_secret = random_secret, tp_qr_uri = uri random_secret, tp_manual_key = format_secret random_secret\<rparr>))"

definition verify_totp :: "(string \<Rightarrow> string \<Rightarrow> time \<Rightarrow> bool) \<Rightarrow> time \<Rightarrow> string \<Rightarrow> string \<Rightarrow> totp_secrets option \<Rightarrow> exn + bool" where
  "verify_totp valid now user_id code store =
     (case store of
        None \<Rightarrow> Inl (IdentityError ''MfaSetupError'' ''TOTP secret store not configured.'')
      | Some s \<Rightarrow>
          if \<not> truthy (map_of s user_id) then Inl (IdentityError ''MfaSetupError'' (''TOTP is not enabled for user '' @ user_id))
          else if \<not> valid (the (map_of s user_id)) code now then Inl (IdentityError ''MfaInvalidError'' ''Invalid TOTP code'')
          else Inr True)"

definition is_enabled_totp :: "string \<Rightarrow> totp_secrets option \<Rightarrow> bool" where
  "is_enabled_totp user_id store = (case store of None \<Rightarrow> False | Some s \<Rightarrow> map_of s user_id \<noteq> None)"

definition disable_totp :: "string \<Rightarrow> totp_secrets option \<Rightarrow> totp_secrets option" where
  "disable_totp user_id store = map_option (AList.delete user_id) store"

section \<open>Backup codes\<close>

text \<open>A set of codes is a list; the random codes are given, in the alphabet of the service.\<close>

definition ALPHABET :: string where
  "ALPHABET = ''ABCDEFGHJKLMNPQRSTUVWXYZ'' @ ''23456789''"

definition format_code :: "string \<Rightarrow> string" where
  "format_code code = join_with (CHR ''-'') (groups_of_4 code)"

definition generate_count :: "int \<Rightarrow> nat \<Rightarrow> nat" where
  "generate_count n default_count = (if n \<noteq> 0 then nat n else default_count)"

definition generate_codes :: "nat \<Rightarrow> (nat \<Rightarrow> string) \<Rightarrow> int \<Rightarrow> string list" where
  "generate_codes default_count random_code n = map (\<lambda>i. format_code (random_code i)) [0..<generate_count n default_count]"

type_synonym backup_codes = "(string, string list) dict"

definition backup_generate ::
  "nat \<Rightarrow> (nat \<Rightarrow> string) \<Rightarrow> string \<Rightarrow> int \<Rightarrow> backup_codes \<Rightarrow> backup_codes \<times> string list" where
  "backup_generate default_count random_code user_id n s =
     (let codes = generate_codes default_count random_code n;
          old = (case map_of s user_id of None \<Rightarrow> [] | Some cs \<Rightarrow> cs)
      in (AList.update user_id (remdups (old @ codes)) s, codes))"

text \<open>\<^verbatim>\<open>upper()\<close>; two characters whose capital has no code below 256 are left alone.\<close>

definition upper_char :: "char \<Rightarrow> string" where
  "upper_char c =
     (let n = of_char c :: nat
      in if 97 \<le> n \<and> n \<le> 122 \<or> 224 \<le> n \<and> n \<le> 254 \<and> n \<noteq> 247 then [char_of (n - 32)]
         else if n = 223 then ''SS'' else [c])"

definition upper :: "string \<Rightarrow> string" where
  "upper s = concat (map upper_char s)"

definition normalize_code :: "string \<Rightarrow> string" where
  "normalize_code code =
     (let code = upper (strip code)
      in if length code = 8 \<and> CHR ''-'' \<notin> set code then take 4 code @ ''-'' @ drop 4 code else code)"

definition backup_consume :: "string \<Rightarrow> string \<Rightarrow> backup_codes \<Rightarrow> backup_codes \<times> bool" where
  "backup_consume user_id code s =
     (case map_of s user_id of
        None \<Rightarrow> (s, False)
      | Some cs \<Rightarrow>
          if normalize_code code \<notin> set cs then (s, False)
          else (AList.update user_id (filter (\<lambda>c. c \<noteq> normalize_code code) cs) s, True))"

definition backup_revoke :: "string \<Rightarrow> backup_codes \<Rightarrow> backup_codes" where
  "backup_revoke user_id s = AList.update user_id [] s"

definition get_remaining_count :: "string \<Rightarrow> backup_codes \<Rightarrow> nat" where
  "get_remaining_count user_id s = (case map_of s user_id of None \<Rightarrow> 0 | Some cs \<Rightarrow> length cs)"

section \<open>Stores whose entries expire\<close>

text \<open>
  What the services rely on: \<open>look now s k\<close> is what is stored under \<open>k\<close> and alive at \<open>now\<close>; reading answers it
  and may drop an expired entry, removing forgets an entry, and what is gone stays gone.
\<close>

locale expiring_store =
  fixes look :: "time \<Rightarrow> 's \<Rightarrow> string \<Rightarrow> 'v option"
    and read :: "time \<Rightarrow> string \<Rightarrow> 's \<Rightarrow> 's \<times> 'v option"
    and remove :: "string \<Rightarrow> 's \<Rightarrow> 's"
  assumes read_result: "snd (read now k s) = look now s k"
    and read_keeps: "now \<le> n \<Longrightarrow> look n (fst (read now k s)) k' = look n s k'"
    and remove_key: "look n (remove k s) k = None"
    and remove_other: "k' \<noteq> k \<Longrightarrow> look n (remove k s) k' = look n s k'"
    and expiry: "look n s k = None \<Longrightarrow> n \<le> m \<Longrightarrow> look m s k = None"
begin

lemma taken_is_gone: "snd (read n k (remove k s)) = None"
  by (simp add: read_result remove_key)

lemma gone_after_reads:
  assumes "look now s k = None" "now \<le> n"
  shows "look n (fst (read now k' s)) k = None"
  using read_keeps [OF assms(2)] expiry [OF assms] by simp

lemma gone_after_read_all:
  assumes "look now s k = None" "sorted (now # map fst reads)"
  shows "look (last (now # map fst reads)) (fold (\<lambda>(n, k') s. fst (read n k' s)) reads s) k = None"
  using assms
proof (induction reads arbitrary: now s)
  case (Cons r reads)
  obtain n k' where r: "r = (n, k')" by (cases r)
  have "look n s k = None" using Cons.prems r by (auto intro: expiry)
  then have "look n (fst (read n k' s)) k = None" by (rule gone_after_reads) simp
  then show ?case using Cons.IH [of n "fst (read n k' s)"] Cons.prems(2) r by simp
qed simp

end

text \<open>The session store, and the challenges of the one-time passwords, are such stores.\<close>

definition session_look :: "time \<Rightarrow> session_store \<Rightarrow> string \<Rightarrow> payload option" where
  "session_look now s key =
     (case map_of s key of Some (d, e) \<Rightarrow> if expired now e then None else Some d | None \<Rightarrow> None)"

lemma session_laws:
  "snd (session_get now k s) = session_look now s k"
  "now \<le> n \<Longrightarrow> session_look n (fst (session_get now k s)) k' = session_look n s k'"
  "session_look n (session_delete k s) k = None"
  "k' \<noteq> k \<Longrightarrow> session_look n (session_delete k s) k' = session_look n s k'"
  "session_look n s k = None \<Longrightarrow> n \<le> m \<Longrightarrow> session_look m s k = None"
  by (auto simp: session_get_def session_look_def session_delete_def expired_def delete_conv' split: option.splits prod.splits)

interpretation session_entries: expiring_store session_look session_get session_delete
  by unfold_locales (rule session_laws; assumption?)+

definition challenge_look :: "time \<Rightarrow> challenges \<Rightarrow> string \<Rightarrow> string option" where
  "challenge_look now s identifier =
     (case map_of s identifier of Some (code, t) \<Rightarrow> if t < now then None else Some code | None \<Rightarrow> None)"

text \<open>Reading a challenge is verifying a code that is not the stored one.\<close>

definition challenge_read :: "time \<Rightarrow> string \<Rightarrow> challenges \<Rightarrow> challenges \<times> string option" where
  "challenge_read now identifier s =
     (fst (challenge_verify now identifier (case map_of s identifier of None \<Rightarrow> [] | Some (code, _) \<Rightarrow> code @ ''!'') s),
      challenge_look now s identifier)"

lemma challenge_laws:
  "snd (challenge_read now k s) = challenge_look now s k"
  "now \<le> n \<Longrightarrow> challenge_look n (fst (challenge_read now k s)) k' = challenge_look n s k'"
  "challenge_look n (challenge_delete k s) k = None"
  "k' \<noteq> k \<Longrightarrow> challenge_look n (challenge_delete k s) k' = challenge_look n s k'"
  "challenge_look n s k = None \<Longrightarrow> n \<le> m \<Longrightarrow> challenge_look m s k = None"
  by (auto simp: challenge_read_def challenge_look_def challenge_delete_def challenge_verify_def delete_conv' split: option.splits prod.splits)

interpretation challenge_entries: expiring_store challenge_look challenge_read challenge_delete
  by unfold_locales (rule challenge_laws; assumption?)+

section \<open>OAuth state\<close>

lemma get_state_look:
  "snd (get_state parse now st s) =
     (case session_look now s (state_key st) of None \<Rightarrow> Inr None | Some d \<Rightarrow> map_sum id Some (oauth_from_dict parse now d))"
  using session_laws(1) [of now "state_key st" s] by (auto simp: get_state_def split: prod.splits option.splits)

lemma validate_state_look:
  assumes "validate_state parse now st s = (s', Inr (Some d))"
  shows "s' = delete_state st (fst (session_get now (state_key st) s))"
  using assms
  by (auto simp: validate_state_def get_state_def split: prod.splits option.splits sum.splits)

text \<open>
  an OAuth state is accepted once: after a validation that succeeded, the same state is refused at every
  time, while every other state is still there.
\<close>

theorem oauth_state_single_use:
  assumes "validate_state parse now st s = (s', Inr (Some d))"
  shows "snd (validate_state parse n st s') = Inr None \<and>
    (st' \<noteq> st \<and> now \<le> n \<longrightarrow> session_look n s' (state_key st') = session_look n s (state_key st'))"
proof -
  have s': "s' = session_delete (state_key st) (fst (session_get now (state_key st) s))"
    using validate_state_look [OF assms] by (simp add: delete_state_def)
  have "session_look n s' (state_key st) = None" by (simp add: s' session_laws)
  then have "snd (get_state parse n st s') = Inr None" by (simp add: get_state_look)
  then have "snd (validate_state parse n st s') = Inr None"
    by (auto simp: validate_state_def split: prod.splits sum.splits option.splits)
  moreover have "session_look n s' (state_key st') = session_look n s (state_key st')" if "st' \<noteq> st" "now \<le> n"
    using that by (simp add: s' session_laws state_key_def)
  ultimately show ?thesis by blast
qed

text \<open>The data that survive a round through the store: optional fields are missing or true.\<close>

definition storable :: "oauth_state \<Rightarrow> bool" where
  "storable st \<longleftrightarrow> (\<exists>t. os_created_at st = At t) \<and> os_state st \<noteq> JNull \<and>
     (\<forall>v \<in> {os_pkce_verifier st, os_redirect_uri st, os_nonce st, os_provider st, os_extra st}. v = JNull \<or> json_truthy v)"

lemma jget_put_truthy:
  "jentry (put_truthy k v d) k' = (if k = k' \<and> json_truthy v then v else jentry d k')"
  by (simp add: jentry_def put_truthy_def AList.update_conv')

lemma oauth_dict_roundtrip:
  assumes "storable st" "\<And>t. parse (fmt t) = Inr t"
  shows "\<exists>d. oauth_to_dict fmt st = Inr d \<and> oauth_from_dict parse now d = Inr st"
proof -
  obtain t where t: "os_created_at st = At t" using assms(1) by (auto simp: storable_def)
  then obtain d where d: "oauth_to_dict fmt st = Inr d" by (simp add: oauth_to_dict_def)
  have opt: "jentry d ''pkce_verifier'' = os_pkce_verifier st" "jentry d ''redirect_uri'' = os_redirect_uri st" "jentry d ''nonce'' = os_nonce st"
    "jentry d ''provider'' = os_provider st" "jentry d ''extra'' = os_extra st"
    "jentry d ''state'' = os_state st" "jentry d ''created_at'' = JStr (fmt t)"
    using d t assms(1)
    by (auto simp: oauth_to_dict_def storable_def jget_put_truthy jentry_def [of "[_, _]"] split: if_splits)
  have "oauth_from_dict parse now d = Inr st"
    using assms t by (cases st) (simp add: oauth_from_dict_def opt storable_def)
  with d show ?thesis by blast
qed

text \<open>
  the data of a state come back from the store on the callback, up to its time to live, and never after it.
\<close>

theorem oauth_state_roundtrip:
  assumes "storable st" "os_state st = JStr key" "text_of (JStr key) = key" "\<And>t. parse (fmt t) = Inr t" "0 < ttl"
  shows "snd (validate_state parse now key (fst (store_state fmt text_of ttl start st s))) =
    Inr (if now \<le> start + ttl then Some st else None)"
proof -
  obtain d where d: "oauth_to_dict fmt st = Inr d" "oauth_from_dict parse now d = Inr st"
    using oauth_dict_roundtrip [OF assms(1,4)] by blast
  have "session_look now (fst (store_state fmt text_of ttl start st s)) (state_key key) =
      (if now \<le> start + ttl then Some d else None)"
    using d(1) assms(2,3,5) by (simp add: store_state_def session_put_def session_look_def expired_def AList.update_conv')
  then have "snd (get_state parse now key (fst (store_state fmt text_of ttl start st s))) =
      Inr (if now \<le> start + ttl then Some st else None)"
    using d(2) by (simp add: get_state_look)
  then show ?thesis by (auto simp: validate_state_def split: prod.splits sum.splits option.splits if_splits)
qed

section \<open>PKCE\<close>

text \<open>
  a verifier has the requested length between 43 and 128, and it verifies against its own challenge only.
\<close>

theorem pkce_roundtrip:
  assumes "create_pkce_data token s256 len = Inr d" "len \<le> length (token len)" "\<And>v. s256 v \<noteq> []"
  shows "43 \<le> len \<and> len \<le> 128 \<and> length (pk_code_verifier d) = len \<and>
    (verify_pkce_challenge s256 (pk_code_verifier d) challenge \<longleftrightarrow> challenge = pk_code_challenge d)"
proof -
  have len: "43 \<le> len" "len \<le> 128" and d: "d = \<lparr>pk_code_verifier = take len (token len), pk_code_challenge = s256 (take len (token len))\<rparr>"
    using assms(1) by (auto simp: create_pkce_data_def generate_pkce_verifier_def split: if_splits)
  have "length (take len (token len)) = len" using assms(2) by simp
  moreover from this have "take len (token len) \<noteq> []" using len(1) by force
  ultimately show ?thesis using len assms(3) by (auto simp: d verify_pkce_challenge_def)
qed

section \<open>One-time passwords\<close>

definition is_digit :: "char \<Rightarrow> bool" where
  "is_digit c \<longleftrightarrow> (48 :: nat) \<le> of_char c \<and> of_char c \<le> (57 :: nat)"

lemma show_nat_digits: "list_all is_digit (show_nat n)"
proof (induction n rule: show_nat.induct)
  case (1 n)
  have "is_digit (char_of (48 + k))" if "k < 10" for k :: nat using that by (simp add: is_digit_def)
  then show ?case using 1 by (subst show_nat.simps) simp
qed

lemma show_nat_length: "0 < k \<Longrightarrow> n < 10 ^ k \<Longrightarrow> length (show_nat n) \<le> k"
proof (induction n arbitrary: k rule: show_nat.induct)
  case (1 n)
  show ?case
  proof (cases "n < 10")
    case False
    then obtain j where j: "k = Suc j" "0 < j" using "1.prems" by (cases k; cases "k - 1") auto
    then have "n div 10 < 10 ^ j" using "1.prems"(2) by (simp add: less_mult_imp_div_less mult.commute)
    then have "length (show_nat (n div 10)) \<le> j" using "1.IH" [OF False, of j] j by simp
    then show ?thesis using False j by (subst show_nat.simps) simp
  qed (use "1.prems" in \<open>subst show_nat.simps, simp\<close>)
qed

text \<open>
  a generated code has exactly the configured number of digits, whatever number was drawn below ten to
  that power.
\<close>

theorem otp_code_shape:
  assumes "0 < len" "number < 10 ^ len"
  shows "length (generate_otp len number) = len \<and> list_all is_digit (generate_otp len number)"
  using show_nat_length [OF assms] show_nat_digits [of number]
  by (auto simp: generate_otp_def list_all_iff is_digit_def)

lemma otp_verify_iff:
  "is_ok (snd (otp_verify now a code s)) \<longleftrightarrow> challenge_look now (ot_challenges s) a = Some code"
  by (auto simp: otp_verify_def challenge_verify_def challenge_look_def split: option.splits prod.splits)

lemma otp_verify_ok:
  assumes "is_ok (snd (otp_verify now a code s))"
  shows "ot_challenges (fst (otp_verify now a code s)) = challenge_delete a (ot_challenges s)"
  using assms
  by (auto simp: otp_verify_def challenge_verify_def challenge_delete_def split: option.splits prod.splits if_splits)

lemma otp_verify_wrong:
  assumes "challenge_look now (ot_challenges s) a = Some right" "code \<noteq> right"
  shows "fst (otp_verify now a code s) = s"
  using assms
  by (auto simp: otp_verify_def challenge_verify_def challenge_look_def split: option.splits prod.splits if_splits)

text \<open>
  a one-time password is accepted once: exactly the code last sent to the address is accepted while it
  lives, and after it no code is until the next one is sent.
\<close>

theorem otp_accepted_once:
  assumes "otp_send cfg deliver sent number a (s, w) = ((s1, w1), r)"
  shows "(is_ok (snd (otp_verify now a code s1)) \<longleftrightarrow>
      code = generate_otp (oc_code_length cfg) number \<and> now \<le> sent + oc_ttl_seconds cfg) \<and>
    (is_ok (snd (otp_verify now a code s1)) \<longrightarrow> \<not> is_ok (snd (otp_verify later a code' (fst (otp_verify now a code s1)))))"
proof (intro conjI impI)
  have "ot_challenges s1 = challenge_create sent a (generate_otp (oc_code_length cfg) number) (oc_ttl_seconds cfg) (ot_challenges s)"
    using assms by (auto simp: otp_send_def record_send_def Let_def split: prod.splits option.splits)
  then show "is_ok (snd (otp_verify now a code s1)) \<longleftrightarrow>
      code = generate_otp (oc_code_length cfg) number \<and> now \<le> sent + oc_ttl_seconds cfg"
    by (auto simp: otp_verify_iff challenge_create_def challenge_look_def AList.update_conv')
  assume ok: "is_ok (snd (otp_verify now a code s1))"
  show "\<not> is_ok (snd (otp_verify later a code' (fst (otp_verify now a code s1))))"
    by (simp add: otp_verify_iff otp_verify_ok [OF ok] challenge_laws)
qed

text \<open>
  guessing is not limited: however many wrong codes were tried while the challenge lives, the right one
  is still accepted, although the configuration has a maximum number of attempts.
\<close>

theorem otp_guesses_unlimited:
  assumes "challenge_look now (ot_challenges s) a = Some right" "right \<notin> set guesses"
  shows "is_ok (snd (otp_verify now a right (fold (\<lambda>g s. fst (otp_verify now a g s)) guesses s)))"
  using assms(2)
proof (induction guesses)
  case Nil
  then show ?case using assms(1) by (simp add: otp_verify_iff)
next
  case (Cons g guesses)
  have "fst (otp_verify now a g s) = s" by (rule otp_verify_wrong [OF assms(1)]) (use Cons.prems in auto)
  then show ?case using Cons by simp
qed

text \<open>
  a code is not sent again within the cooldown, and a refused request changes nothing.
\<close>

theorem otp_resend_cooldown:
  assumes "otp_send cfg deliver sent number a (s, w) = ((s1, w1), r)" "now < sent + oc_cooldown_seconds cfg"
  shows "\<exists>m. otp_resend cfg deliver now number' a (s1, w1) = ((s1, w1), Inl (IdentityError ''MfaSetupError'' m))"
proof -
  have "map_of (ot_last_sent s1) a = Some sent"
    using assms(1) by (auto simp: otp_send_def record_send_def Let_def AList.update_conv' split: prod.splits option.splits)
  then show ?thesis using assms(2) by (simp add: otp_resend_def seconds_since_last_send_def)
qed

section \<open>Backup codes\<close>

lemma alphabet_char:
  assumes "c \<in> set ALPHABET"
  shows "upper_char c = [c] \<and> \<not> is_space c \<and> c \<noteq> CHR ''-''"
proof -
  have "list_all (\<lambda>c. upper_char c = [c] \<and> \<not> is_space c \<and> c \<noteq> CHR ''-'') ALPHABET"
    by (simp add: ALPHABET_def upper_char_def is_space_def)
  then show ?thesis using assms by (simp add: list_all_iff)
qed

lemma strip_no_space:
  assumes "\<And>c. c \<in> set s \<Longrightarrow> \<not> is_space c"
  shows "strip s = s"
proof -
  have none: "dropWhile is_space t = t" if "set t = set s" for t using that assms by (cases t) auto
  show ?thesis by (simp add: strip_def none)
qed

lemma upper_plain: "(\<And>c. c \<in> set s \<Longrightarrow> upper_char c = [c]) \<Longrightarrow> upper s = s"
  by (induction s) (auto simp: upper_def)

lemma format_code_8: "length c = 8 \<Longrightarrow> format_code c = take 4 c @ ''-'' @ drop 4 c"
  by (auto simp: format_code_def numeral_eq_Suc length_Suc_conv)

lemma normalize_backup_code:
  assumes "length c = 8" "set c \<subseteq> set ALPHABET"
  shows "normalize_code c = format_code c" "normalize_code (format_code c) = format_code c"
proof -
  have plain: "upper_char x = [x] \<and> \<not> is_space x \<and> x \<noteq> CHR ''-''" if "x \<in> set c" for x
    using that assms(2) alphabet_char by blast
  have dash: "upper_char (CHR ''-'') = ''-''" "\<not> is_space (CHR ''-'')" by (simp_all add: upper_char_def is_space_def)
  have chars: "x \<in> set c \<or> x = CHR ''-''" if "x \<in> set (format_code c)" for x
    using that assms(1) by (auto simp: format_code_8 dest: in_set_takeD in_set_dropD)
  have "strip c = c" "upper c = c" using plain by (auto intro: strip_no_space upper_plain)
  then show "normalize_code c = format_code c"
    using plain assms(1) by (auto simp: normalize_code_def format_code_8)
  have "strip (format_code c) = format_code c" "upper (format_code c) = format_code c"
    using plain dash chars by (auto intro!: strip_no_space upper_plain)
  then show "normalize_code (format_code c) = format_code c"
    using assms(1) by (simp add: normalize_code_def format_code_8)
qed

text \<open>
  a backup code of eight characters is accepted with and without its dash, and only once.
\<close>

theorem backup_code_single_use:
  assumes "length c = 8" "set c \<subseteq> set ALPHABET" "map_of s user = Some codes" "format_code c \<in> set codes"
    and "typed \<in> {c, format_code c}" "typed' \<in> {c, format_code c}"
  shows "snd (backup_consume user typed s) \<and> \<not> snd (backup_consume user typed' (fst (backup_consume user typed s)))"
proof -
  have "normalize_code typed = format_code c" "normalize_code typed' = format_code c"
    using assms(5,6) normalize_backup_code [OF assms(1,2)] by auto
  then show ?thesis using assms(3,4) by (simp add: backup_consume_def AList.update_conv')
qed

text \<open>A code of another length is not recognised without its dashes.\<close>

lemma longer_code_needs_dashes:
  "normalize_code ''ABCDEFGHJKLM'' \<noteq> format_code ''ABCDEFGHJKLM''"
  by (simp add: normalize_code_def format_code_def upper_def upper_char_def strip_def is_space_def)

section \<open>Witnesses\<close>

text \<open>Times written in digits, read back.\<close>

definition ex_fmt :: "time \<Rightarrow> string" where
  "ex_fmt t = replicate (nat t) (CHR ''|'') @ replicate (nat (- t)) (CHR ''-'')"

definition ex_parse_time :: "string \<Rightarrow> exn + time" where
  "ex_parse_time s = Inr (int (length (filter (\<lambda>c. c = CHR ''|'') s)) - int (length (filter (\<lambda>c. c = CHR ''-'') s)))"

lemma ex_times: "ex_parse_time (ex_fmt t) = Inr t"
  by (simp add: ex_parse_time_def ex_fmt_def)

definition ex_oauth :: oauth_state where
  "ex_oauth = create_state 5 ''xyz'' (JStr ''keycloak'') (JStr ''abc'') (JStr ''/cb'') JNull JNull"

definition ex_text :: "json \<Rightarrow> string" where
  "ex_text v = (case v of JStr s \<Rightarrow> s | _ \<Rightarrow> [])"

lemma ex_oauth_storable: "storable ex_oauth"
  by (simp add: storable_def ex_oauth_def create_state_def)

theorem oauth_state_roundtrip_witness:
  "snd (validate_state ex_parse_time 100 ''xyz'' (fst (store_state ex_fmt ex_text 600 10 ex_oauth []))) = Inr (Some ex_oauth)"
  using oauth_state_roundtrip [where st = ex_oauth and key = "''xyz''" and text_of = ex_text and parse = ex_parse_time and fmt = ex_fmt
      and ttl = 600 and start = 10 and now = 100 and s = "[]"] ex_times ex_oauth_storable
  by (simp add: ex_oauth_def create_state_def ex_text_def)

theorem oauth_state_single_use_witness:
  "snd (validate_state ex_parse_time 200 ''xyz''
     [(''oauth_state:uvw'', [(''state'', JStr ''uvw'')], None)]) = Inr None"
proof -
  have "validate_state ex_parse_time 100 ''xyz''
      [(''oauth_state:xyz'', [(''state'', JStr ''xyz'')], None), (''oauth_state:uvw'', [(''state'', JStr ''uvw'')], None)] =
    ([(''oauth_state:uvw'', [(''state'', JStr ''uvw'')], None)],
      Inr (Some \<lparr>os_state = JStr ''xyz'', os_pkce_verifier = JNull, os_redirect_uri = JNull, os_nonce = JNull, os_created_at = At 100,
        os_provider = JNull, os_extra = JNull\<rparr>))"
    by (simp add: validate_state_def get_state_def session_get_def state_key_def expired_def oauth_from_dict_def jentry_def
        delete_state_def session_delete_def)
  from conjunct1 [OF oauth_state_single_use [OF this]] show ?thesis .
qed

theorem pkce_roundtrip_witness:
  "length (pk_code_verifier \<lparr>pk_code_verifier = replicate 43 (CHR ''a''), pk_code_challenge = ''h''\<rparr>) = 43"
proof -
  have "create_pkce_data (\<lambda>n. replicate n (CHR ''a'')) (\<lambda>v. ''h'') 43 =
      Inr \<lparr>pk_code_verifier = replicate 43 (CHR ''a''), pk_code_challenge = ''h''\<rparr>"
    by (simp add: create_pkce_data_def generate_pkce_verifier_def)
  from pkce_roundtrip [OF this] show ?thesis by simp
qed

theorem otp_code_shape_witness: "length (generate_otp 6 42) = 6 \<and> list_all is_digit (generate_otp 6 42)"
  by (rule otp_code_shape) simp_all

definition ex_otp :: otp_state where
  "ex_otp = \<lparr>ot_challenges = [(''a@b'', ''000042'', 310)], ot_last_sent = [(''a@b'', 10)]\<rparr>"

lemma ex_code: "generate_otp 6 42 = ''000042''"
  by code_simp

lemma ex_otp_sent:
  "otp_send default_otp_config (\<lambda>a c w. (w, None)) 10 42 ''a@b'' (\<lparr>ot_challenges = [], ot_last_sent = []\<rparr>, ()) =
     ((ex_otp, ()), Inr ''000042'')"
  by (simp add: otp_send_def record_send_def challenge_create_def ex_code default_otp_config_def ex_otp_def Let_def)

theorem otp_accepted_once_witness:
  "is_ok (snd (otp_verify 100 ''a@b'' ''000042'' ex_otp)) \<and>
   \<not> is_ok (snd (otp_verify 101 ''a@b'' ''000042'' (fst (otp_verify 100 ''a@b'' ''000042'' ex_otp))))"
  using otp_accepted_once [OF ex_otp_sent, of 100 "''000042''" 101 "''000042''"] by (simp add: default_otp_config_def ex_code)

theorem otp_guesses_unlimited_witness:
  "is_ok (snd (otp_verify 100 ''a@b'' ''000042'' (fold (\<lambda>g s. fst (otp_verify 100 ''a@b'' g s)) [''1'', ''2'', ''3'', ''4''] ex_otp)))"
  by (rule otp_guesses_unlimited) (simp_all add: ex_otp_def challenge_look_def)

theorem otp_resend_cooldown_witness:
  "\<exists>m. otp_resend default_otp_config (\<lambda>a c w. (w, None)) 60 7 ''a@b'' (ex_otp, ()) = ((ex_otp, ()), Inl (IdentityError ''MfaSetupError'' m))"
  by (rule otp_resend_cooldown [OF ex_otp_sent]) (simp add: default_otp_config_def)

theorem backup_code_single_use_witness:
  "snd (backup_consume ''ann'' ''ABCDEFGH'' [(''ann'', [''ABCD-EFGH''])]) \<and>
   \<not> snd (backup_consume ''ann'' ''ABCD-EFGH'' (fst (backup_consume ''ann'' ''ABCDEFGH'' [(''ann'', [''ABCD-EFGH''])])))"
  by (rule backup_code_single_use [where c = "''ABCDEFGH''" and codes = "[''ABCD-EFGH'']"]) (simp_all add: ALPHABET_def format_code_def)

end
