(* ===== verification/DbIdentity.thy ===== *)
theory DbIdentity
  imports Sessions Access
begin

text \<open>
  Signing in with a password or an API key (features/identity: db/provider.py, db/hasher.py, api_key/provider.py)
  over the session store of \<^verbatim>\<open>Sessions\<close>.

  The user repository, the lockout store and the API key repository are ports that an application
  implements: their methods are parameters on a world.  Hash functions, random tokens and the text form of times
  are parameters too.  All clock readings of one call are the same time.
\<close>

section \<open>Password hasher\<close>

datatype hash_algorithm = Bcrypt | Argon2id

record hasher =
  ph_algorithm :: hash_algorithm
  ph_rounds :: int
  ph_bcrypt_check :: "string \<Rightarrow> string \<Rightarrow> exn + bool"
  ph_argon2_verify :: "string \<Rightarrow> string \<Rightarrow> exn + unit"
  ph_argon2_outdated :: "string \<Rightarrow> exn + bool"
  ph_bcrypt_hash :: "string \<Rightarrow> string"
  ph_argon2_hash :: "string \<Rightarrow> string"
  ph_int :: "string \<Rightarrow> int option"

definition hash_password :: "hasher \<Rightarrow> string \<Rightarrow> string" where
  "hash_password h password = (if ph_algorithm h = Argon2id then ph_argon2_hash h password else ph_bcrypt_hash h password)"

text \<open>\<^verbatim>\<open>checkpw\<close> raises \<^verbatim>\<open>ValueError\<close> only; any exception of \<^verbatim>\<open>argon2\<close> is a refusal.\<close>

definition verify_password :: "hasher \<Rightarrow> string \<Rightarrow> string \<Rightarrow> bool" where
  "verify_password h hashed password =
     (if prefix ''$argon2'' hashed
      then (case ph_argon2_verify h hashed password of Inl e \<Rightarrow> False | Inr _ \<Rightarrow> True)
      else (case ph_bcrypt_check h hashed password of Inl e \<Rightarrow> False | Inr b \<Rightarrow> b))"

definition needs_rehash :: "hasher \<Rightarrow> string \<Rightarrow> bool" where
  "needs_rehash h hashed =
     (if prefix ''$argon2'' hashed
      then if ph_algorithm h \<noteq> Argon2id then True
           else (case ph_argon2_outdated h hashed of Inl e \<Rightarrow> False | Inr b \<Rightarrow> b)
      else if ph_algorithm h \<noteq> Bcrypt then True
      else let parts = split_on (CHR ''$'') hashed
           in if 3 \<le> length parts
              then (case ph_int h (parts ! 2) of Some rounds \<Rightarrow> rounds < ph_rounds h | None \<Rightarrow> False)
              else False)"

section \<open>Database provider\<close>

record user_credentials =
  uc_user_id :: string
  uc_username :: string
  uc_email :: "string option"
  uc_password_hash :: "string option"
  uc_roles :: "string list"
  uc_permissions :: "string list"
  uc_is_active :: bool
  uc_is_locked :: bool
  uc_tenant_id :: "string option"
  uc_mfa_enabled :: bool

record 'w lockout =
  lk_is_locked :: "string \<Rightarrow> 'w \<Rightarrow> bool"
  lk_record_failure :: "string \<Rightarrow> 'w \<Rightarrow> 'w \<times> int"
  lk_clear :: "string \<Rightarrow> 'w \<Rightarrow> 'w"
  lk_set_lockout :: "string \<Rightarrow> int \<Rightarrow> 'w \<Rightarrow> 'w"

record 'w db_provider =
  db_get_by_username :: "string \<Rightarrow> 'w \<Rightarrow> user_credentials option"
  db_get_by_email :: "string \<Rightarrow> 'w \<Rightarrow> user_credentials option"
  db_update_password_hash :: "string \<Rightarrow> string \<Rightarrow> 'w \<Rightarrow> 'w"
  db_update_last_login :: "string \<Rightarrow> 'w \<Rightarrow> 'w"
  db_hasher :: hasher
  db_lockout :: "'w lockout option"
  db_max_failed_attempts :: int
  db_lockout_duration :: int
  db_session_ttl :: int
  db_refresh_ttl :: int
  db_fmt :: "time \<Rightarrow> string"
  db_parse :: "string \<Rightarrow> exn + time"
  db_as_bool :: "json \<Rightarrow> exn + bool"

type_synonym 'w db_state = "session_store \<times> 'w"

definition session_key :: "string \<Rightarrow> string" where
  "session_key token = ''session:'' @ token"

definition refresh_key :: "string \<Rightarrow> string" where
  "refresh_key token = ''refresh:'' @ token"

record token_response =
  tk_access_token :: string
  tk_refresh_token :: "string option"
  tk_expires_in :: int
  tk_expires_at :: "time option"

definition opt_json :: "string option \<Rightarrow> json" where
  "opt_json v = (case v of None \<Rightarrow> JNull | Some s \<Rightarrow> JStr s)"

definition session_data :: "(time \<Rightarrow> string) \<Rightarrow> user_credentials \<Rightarrow> time \<Rightarrow> string \<Rightarrow> payload" where
  "session_data fmt user expires_at refresh_token =
     [(''user_id'', JStr (uc_user_id user)), (''username'', JStr (uc_username user)),
      (''roles'', JList (map JStr (uc_roles user))), (''permissions'', JList (map JStr (uc_permissions user))),
      (''claims'', JDict (if truthy (uc_email user) then [(''email'', JStr (the (uc_email user)))] else [])),
      (''tenant_id'', opt_json (uc_tenant_id user)), (''mfa_verified'', JBool False),
      (''expires_at'', JStr (fmt expires_at)), (''refresh_token'', JStr refresh_token)]"

text \<open>\<^verbatim>\<open>_create_session\<close>, with the two random tokens.\<close>

definition create_session :: "'w db_provider \<Rightarrow> time \<Rightarrow> string \<Rightarrow> string \<Rightarrow> user_credentials \<Rightarrow> session_store \<Rightarrow> session_store \<times> token_response" where
  "create_session db now access_token refresh_token user s =
     (let access_expires_at = now + db_session_ttl db;
          refresh_expires_at = now + db_refresh_ttl db;
          s = session_put now (session_key access_token) (session_data (db_fmt db) user access_expires_at refresh_token)
                (Some (db_session_ttl db)) s;
          s = session_put now (refresh_key refresh_token)
                [(''user_id'', JStr (uc_user_id user)), (''access_token'', JStr access_token),
                 (''expires_at'', JStr (db_fmt db refresh_expires_at))]
                (Some (db_refresh_ttl db)) s
      in (s, \<lparr>tk_access_token = access_token, tk_refresh_token = Some refresh_token, tk_expires_in = db_session_ttl db,
              tk_expires_at = Some access_expires_at\<rparr>))"

definition record_login_failure :: "'w db_provider \<Rightarrow> string \<Rightarrow> 'w \<Rightarrow> 'w" where
  "record_login_failure db identifier w =
     (case db_lockout db of
        None \<Rightarrow> w
      | Some lk \<Rightarrow>
          (case lk_record_failure lk identifier w of
             (w', n) \<Rightarrow> if db_max_failed_attempts db \<le> n then lk_set_lockout lk identifier (db_lockout_duration db) w' else w'))"

definition invalid_credentials :: "string \<Rightarrow> exn" where
  "invalid_credentials m = IdentityError ''InvalidCredentialsError'' m"

definition account_locked :: "'w db_provider \<Rightarrow> string \<Rightarrow> 'w \<Rightarrow> bool" where
  "account_locked db username w = (case db_lockout db of None \<Rightarrow> False | Some lk \<Rightarrow> lk_is_locked lk username w)"

definition find_user :: "'w db_provider \<Rightarrow> string \<Rightarrow> 'w \<Rightarrow> user_credentials option" where
  "find_user db username w =
     (case db_get_by_username db username w of Some u \<Rightarrow> Some u | None \<Rightarrow> db_get_by_email db username w)"

definition password_ok :: "'w db_provider \<Rightarrow> user_credentials \<Rightarrow> string \<Rightarrow> bool" where
  "password_ok db user password \<longleftrightarrow>
     truthy (uc_password_hash user) \<and> verify_password (db_hasher db) (the (uc_password_hash user)) password"

definition login_effects :: "'w db_provider \<Rightarrow> string \<Rightarrow> user_credentials \<Rightarrow> string \<Rightarrow> 'w \<Rightarrow> 'w" where
  "login_effects db username user password w =
     (let w = (case db_lockout db of None \<Rightarrow> w | Some lk \<Rightarrow> lk_clear lk username w);
          w = (if truthy (uc_password_hash user) \<and> needs_rehash (db_hasher db) (the (uc_password_hash user))
               then db_update_password_hash db (uc_user_id user) (hash_password (db_hasher db) password) w else w)
      in db_update_last_login db (uc_user_id user) w)"

definition authenticate ::
  "'w db_provider \<Rightarrow> time \<Rightarrow> string \<Rightarrow> string \<Rightarrow> bool \<Rightarrow> string \<Rightarrow> string \<Rightarrow> 'w db_state \<Rightarrow> 'w db_state \<times> (exn + token_response)" where
  "authenticate db now access_token refresh_token require_mfa username password st =
     (case st of (s, w) \<Rightarrow>
        if account_locked db username w then ((s, w), Inl (IdentityError ''AccountLockedError'' ''Account is locked''))
        else case find_user db username w of
               None \<Rightarrow> ((s, record_login_failure db username w), Inl (invalid_credentials ''Invalid username or password''))
             | Some user \<Rightarrow>
                 if \<not> uc_is_active user \<or> uc_is_locked user
                 then ((s, w), Inl (invalid_credentials ''Account is disabled or locked''))
                 else if \<not> password_ok db user password
                 then ((s, record_login_failure db username w), Inl (invalid_credentials ''Invalid username or password''))
                 else let w = login_effects db username user password w
                      in if require_mfa \<and> uc_mfa_enabled user
                         then ((s, w), Inl (IdentityError ''MfaRequiredError'' (uc_user_id user)))
                         else (case create_session db now access_token refresh_token user s of (s', t) \<Rightarrow> ((s', w), Inr t)))"

text \<open>A field of a session; \<^verbatim>\<open>session_data["x"]\<close> of a missing key raises, and Pydantic wants strings.\<close>

definition need_str :: "payload \<Rightarrow> string \<Rightarrow> exn + string" where
  "need_str d k =
     (case map_of d k of
        None \<Rightarrow> Inl (KeyError k)
      | Some (JStr s) \<Rightarrow> Inr s
      | Some _ \<Rightarrow> Inl (ValidationError [(k, [''Input should be a valid string''])]))"

definition str_list :: "payload \<Rightarrow> string \<Rightarrow> exn + string list" where
  "str_list d k =
     (case map_of d k of
        None \<Rightarrow> Inr []
      | Some (JList vs) \<Rightarrow>
          if list_all (\<lambda>v. case v of JStr s \<Rightarrow> True | _ \<Rightarrow> False) vs
          then Inr (map (\<lambda>v. case v of JStr s \<Rightarrow> s | _ \<Rightarrow> []) vs)
          else Inl (ValidationError [(k, [''Input should be a valid string''])])
      | Some _ \<Rightarrow> Inl (TypeError ''object is not iterable''))"

definition opt_str :: "payload \<Rightarrow> string \<Rightarrow> exn + string option" where
  "opt_str d k =
     (case jentry d k of
        JNull \<Rightarrow> Inr None
      | JStr s \<Rightarrow> Inr (Some s)
      | _ \<Rightarrow> Inl (ValidationError [(k, [''Input should be a valid string''])]))"

definition session_expiry :: "'w db_provider \<Rightarrow> payload \<Rightarrow> exn + time option" where
  "session_expiry db d =
     (case jentry d ''expires_at'' of
        JStr s \<Rightarrow> if s = [] then Inr None else map_sum id Some (db_parse db s)
      | v \<Rightarrow> if json_truthy v then Inl (TypeError ''fromisoformat: argument must be str'') else Inr None)"

definition and_then :: "exn + 'a \<Rightarrow> ('a \<Rightarrow> exn + 'b) \<Rightarrow> exn + 'b" where
  "and_then r f = (case r of Inl e \<Rightarrow> Inl e | Inr x \<Rightarrow> f x)"

text \<open>Values of \<^verbatim>\<open>mfa_verified\<close> that are no Boolean are left to Pydantic's coercion, \<open>db_as_bool\<close>.\<close>

definition flag :: "'w db_provider \<Rightarrow> payload \<Rightarrow> string \<Rightarrow> exn + bool" where
  "flag db d k = (case map_of d k of None \<Rightarrow> Inr False | Some (JBool b) \<Rightarrow> Inr b | Some v \<Rightarrow> db_as_bool db v)"

definition dict_field :: "payload \<Rightarrow> string \<Rightarrow> exn + payload" where
  "dict_field d k =
     (case map_of d k of
        None \<Rightarrow> Inr []
      | Some (JDict c) \<Rightarrow> Inr c
      | Some _ \<Rightarrow> Inl (ValidationError [(k, [''Input should be a valid dictionary''])]))"

definition session_principal :: "'w db_provider \<Rightarrow> payload \<Rightarrow> string \<Rightarrow> time option \<Rightarrow> exn + principal" where
  "session_principal db d token expires_at =
     and_then (need_str d ''user_id'') (\<lambda>i.
     and_then (need_str d ''username'') (\<lambda>n.
     and_then (str_list d ''roles'') (\<lambda>rs.
     and_then (str_list d ''permissions'') (\<lambda>ps.
     and_then (dict_field d ''claims'') (\<lambda>c.
     and_then (opt_str d ''tenant_id'') (\<lambda>t.
     and_then (flag db d ''mfa_verified'') (\<lambda>mfa.
       Inr \<lparr>pr_user_id = i, pr_username = n, pr_roles = rs, pr_permissions = ps, pr_tenant_id = t, pr_mfa_verified = mfa,
            pr_expires_at = expires_at, pr_auth_method = ''db'', pr_session_id = Some token, pr_claims = c\<rparr>)))))))"

definition invalid_token :: "string \<Rightarrow> exn" where
  "invalid_token m = IdentityError ''InvalidTokenError'' m"

definition resolve_session :: "'w db_provider \<Rightarrow> time \<Rightarrow> string \<Rightarrow> session_store \<Rightarrow> session_store \<times> (exn + principal)" where
  "resolve_session db now token s =
     (if token = [] then (s, Inl (invalid_token ''Session token is required''))
      else case session_get now (session_key token) s of
             (s, None) \<Rightarrow> (s, Inl (invalid_token ''Invalid or expired session token''))
           | (s, Some d) \<Rightarrow>
               (case session_expiry db d of
                  Inl e \<Rightarrow> (s, Inl e)
                | Inr expires_at \<Rightarrow>
                    if expired now expires_at
                    then (session_delete (session_key token) s, Inl (IdentityError ''ExpiredTokenError'' ''Session has expired''))
                    else (s, session_principal db d token expires_at)))"

definition token_of :: "payload \<Rightarrow> string \<Rightarrow> string option" where
  "token_of d k = (case jentry d k of JStr t \<Rightarrow> Some t | _ \<Rightarrow> None)"

definition cleanup_session :: "string option \<Rightarrow> string \<Rightarrow> session_store \<Rightarrow> session_store" where
  "cleanup_session access_token refresh_token s =
     session_delete (refresh_key refresh_token)
       (if truthy access_token then session_delete (session_key (the access_token)) s else s)"

text \<open>The user that \<^verbatim>\<open>refresh\<close> rebuilds from an old session (one that \<^verbatim>\<open>_create_session\<close> wrote), active by default.\<close>

definition session_user :: "payload \<Rightarrow> exn + user_credentials" where
  "session_user d =
     and_then (need_str d ''user_id'') (\<lambda>i.
     and_then (need_str d ''username'') (\<lambda>n.
     and_then (str_list d ''roles'') (\<lambda>rs.
     and_then (str_list d ''permissions'') (\<lambda>ps.
     and_then (dict_field d ''claims'') (\<lambda>c.
     and_then (opt_str d ''tenant_id'') (\<lambda>t.
       Inr \<lparr>uc_user_id = i, uc_username = n, uc_email = token_of c ''email'', uc_password_hash = None, uc_roles = rs,
            uc_permissions = ps, uc_is_active = True, uc_is_locked = False, uc_tenant_id = t, uc_mfa_enabled = False\<rparr>))))))"

definition refresh_user :: "'w db_provider \<Rightarrow> time \<Rightarrow> payload \<Rightarrow> 'w db_state \<Rightarrow> session_store \<times> (exn + user_credentials)" where
  "refresh_user db now d st =
     (case st of (s, w) \<Rightarrow>
        (case need_str d ''user_id'' of
           Inl e \<Rightarrow> (s, Inl e)
         | Inr user_id \<Rightarrow>
             (case db_get_by_username db user_id w of
                Some user \<Rightarrow> (s, Inr user)
              | None \<Rightarrow>
                  (case session_get now (session_key (case token_of d ''access_token'' of None \<Rightarrow> ''None'' | Some t \<Rightarrow> t)) s of
                     (s, None) \<Rightarrow> (s, Inl (invalid_token ''User not found''))
                   | (s, Some old) \<Rightarrow> (s, session_user old)))))"

definition refresh_session ::
  "'w db_provider \<Rightarrow> time \<Rightarrow> string \<Rightarrow> string \<Rightarrow> string \<Rightarrow> 'w db_state \<Rightarrow> session_store \<times> (exn + token_response)" where
  "refresh_session db now new_access new_refresh refresh_token st =
     (case st of (s, w) \<Rightarrow>
        if refresh_token = [] then (s, Inl (invalid_token ''Refresh token is required''))
        else case session_get now (refresh_key refresh_token) s of
               (s, None) \<Rightarrow> (s, Inl (invalid_token ''Invalid refresh token''))
             | (s, Some d) \<Rightarrow>
                 (case session_expiry db d of
                    Inl e \<Rightarrow> (s, Inl e)
                  | Inr expires_at \<Rightarrow>
                      let old = token_of d ''access_token''
                      in if expired now expires_at
                         then (cleanup_session old refresh_token s, Inl (IdentityError ''ExpiredTokenError'' ''Refresh token has expired''))
                         else (case refresh_user db now d (s, w) of
                                 (s, Inl e) \<Rightarrow> (s, Inl e)
                               | (s, Inr user) \<Rightarrow>
                                   if \<not> uc_is_active user
                                   then (cleanup_session old refresh_token s, Inl (invalid_token ''Account is disabled''))
                                   else (case create_session db now new_access new_refresh user (cleanup_session old refresh_token s) of
                                           (s, t) \<Rightarrow> (s, Inr t)))))"

definition logout_session :: "time \<Rightarrow> string \<Rightarrow> session_store \<Rightarrow> session_store" where
  "logout_session now token s =
     (if token = [] then s
      else case session_get now (session_key token) s of
             (s, None) \<Rightarrow> session_delete (session_key token) s
           | (s, Some d) \<Rightarrow>
               session_delete (session_key token)
                 (if d \<noteq> [] \<and> truthy (token_of d ''refresh_token'')
                  then session_delete (refresh_key (the (token_of d ''refresh_token''))) s else s))"

section \<open>API keys\<close>

record api_key_record =
  ky_key_id :: string
  ky_key_hash :: string
  ky_name :: string
  ky_user_id :: string
  ky_roles :: "string list"
  ky_permissions :: "string list"
  ky_is_active :: bool
  ky_expires_at :: "time option"

definition get_api_key_prefix :: "string \<Rightarrow> string" where
  "get_api_key_prefix api_key = take 8 api_key"

definition resolve_api_key ::
  "(string \<Rightarrow> string) \<Rightarrow> (string \<Rightarrow> 'w \<Rightarrow> api_key_record option) \<Rightarrow> (string \<Rightarrow> 'w \<Rightarrow> 'w) \<Rightarrow> time \<Rightarrow> string \<Rightarrow> 'w \<Rightarrow> 'w \<times> (exn + principal)" where
  "resolve_api_key sha get_by_prefix record_usage now token w =
     (let invalid = (\<lambda>m. (w, Inl (IdentityError ''InvalidApiKeyError'' m)))
      in if token = [] then invalid ''API key is required''
         else case get_by_prefix (get_api_key_prefix token) w of
                None \<Rightarrow> invalid ''Invalid API key''
              | Some k \<Rightarrow>
                  if sha token \<noteq> ky_key_hash k then invalid ''Invalid API key''
                  else if \<not> ky_is_active k then invalid ''API key is disabled''
                  else if expired now (ky_expires_at k) then (w, Inl (IdentityError ''ExpiredApiKeyError'' ''API key has expired''))
                  else (record_usage (ky_key_id k) w,
                        Inr \<lparr>pr_user_id = ky_user_id k, pr_username = ''apikey:'' @ ky_name k, pr_roles = ky_roles k,
                             pr_permissions = ky_permissions k, pr_tenant_id = None, pr_mfa_verified = False,
                             pr_expires_at = ky_expires_at k, pr_auth_method = ''apikey'', pr_session_id = None,
                             pr_claims = [(''api_key_id'', JStr (ky_key_id k)), (''api_key_name'', JStr (ky_name k))]\<rparr>))"

section \<open>What a session holds\<close>

lemma and_then_simps [simp]: "and_then (Inl e) f = Inl e" "and_then (Inr x) f = f x"
  by (simp_all add: and_then_def)

lemma keys_distinct [simp]: "session_key a \<noteq> refresh_key b" "refresh_key b \<noteq> session_key a"
  by (simp_all add: session_key_def refresh_key_def)

lemma keys_inj [simp]: "session_key a = session_key b \<longleftrightarrow> a = b" "refresh_key a = refresh_key b \<longleftrightarrow> a = b"
  by (simp_all add: session_key_def refresh_key_def)

lemma session_look_put:
  "session_look n (session_put now k d (Some ttl) s) k' =
     (if k' = k then (if 0 < ttl \<and> now + ttl < n then None else Some d) else session_look n s k')"
  by (auto simp: session_look_def session_put_def expired_def AList.update_conv')

definition refresh_data :: "(time \<Rightarrow> string) \<Rightarrow> user_credentials \<Rightarrow> string \<Rightarrow> time \<Rightarrow> payload" where
  "refresh_data fmt user access_token expires_at =
     [(''user_id'', JStr (uc_user_id user)), (''access_token'', JStr access_token), (''expires_at'', JStr (fmt expires_at))]"

text \<open>The principal of a session.\<close>

definition principal_of :: "user_credentials \<Rightarrow> string \<Rightarrow> time \<Rightarrow> principal" where
  "principal_of u token expires_at =
     \<lparr>pr_user_id = uc_user_id u, pr_username = uc_username u, pr_roles = uc_roles u, pr_permissions = uc_permissions u,
      pr_tenant_id = uc_tenant_id u, pr_mfa_verified = False, pr_expires_at = Some expires_at, pr_auth_method = ''db'',
      pr_session_id = Some token, pr_claims = (if truthy (uc_email u) then [(''email'', JStr (the (uc_email u)))] else [])\<rparr>"

text \<open>Lifetimes are positive, and the text of a time is read back.\<close>

definition provider_ok :: "'w db_provider \<Rightarrow> bool" where
  "provider_ok db \<longleftrightarrow> 0 < db_session_ttl db \<and> 0 < db_refresh_ttl db \<and> (\<forall>t. db_parse db (db_fmt db t) = Inr t \<and> db_fmt db t \<noteq> [])"

lemma create_session_look:
  assumes "provider_ok db"
  shows "session_look n (fst (create_session db now a r u s)) k =
    (if k = refresh_key r then if now + db_refresh_ttl db < n then None else Some (refresh_data (db_fmt db) u a (now + db_refresh_ttl db))
     else if k = session_key a then if now + db_session_ttl db < n then None else Some (session_data (db_fmt db) u (now + db_session_ttl db) r)
     else session_look n s k)"
  using assms by (simp add: create_session_def session_look_put refresh_data_def provider_ok_def Let_def)

lemma session_data_principal:
  "session_principal db (session_data fmt u t r) token (Some x) = Inr (principal_of u token x)"
proof -
  have strs: "list_all (\<lambda>v. case v of JStr s \<Rightarrow> True | _ \<Rightarrow> False) (map JStr xs)"
    "map (\<lambda>v. case v of JStr s \<Rightarrow> s | _ \<Rightarrow> []) (map JStr xs) = xs" for xs
    by (induction xs) simp_all
  show ?thesis
    by (simp add: session_principal_def session_data_def principal_of_def need_str_def str_list_def dict_field_def opt_str_def
        flag_def jentry_def opt_json_def strs del: map_map split: option.splits)
qed

lemma stored_expiry:
  assumes "provider_ok db"
  shows "session_expiry db (session_data (db_fmt db) u t r) = Inr (Some t)" "session_expiry db (refresh_data (db_fmt db) u a t) = Inr (Some t)"
  using assms by (simp_all add: session_expiry_def session_data_def refresh_data_def jentry_def provider_ok_def)

lemma stored_tokens:
  "token_of (session_data fmt u t r) ''refresh_token'' = Some r" "token_of (refresh_data fmt u a t) ''access_token'' = Some a"
  "need_str (refresh_data fmt u a t) ''user_id'' = Inr (uc_user_id u)"
  by (simp_all add: token_of_def session_data_def refresh_data_def jentry_def need_str_def)

lemma resolve_session_look:
  "snd (resolve_session db now token s) =
     (if token = [] then Inl (invalid_token ''Session token is required'')
      else case session_look now s (session_key token) of
             None \<Rightarrow> Inl (invalid_token ''Invalid or expired session token'')
           | Some d \<Rightarrow> and_then (session_expiry db d) (\<lambda>e. if expired now e then Inl (IdentityError ''ExpiredTokenError'' ''Session has expired'')
                        else session_principal db d token e))"
  using session_laws(1) [of now "session_key token" s]
  by (auto simp: resolve_session_def and_then_def split: prod.splits option.splits sum.splits)

section \<open>Signing in\<close>

text \<open>
  C25: a session comes from a valid password of an active account: a token that \<^verbatim>\<open>authenticate\<close> issued belongs to the
  user found under the name, resolves to that user's principal up to its lifetime, and is refused after it.
\<close>

theorem issued_token_resolves:
  assumes "provider_ok db" "a \<noteq> []"
    and "authenticate db start a r mfa name pw (s, w) = ((s1, w1), Inr t)"
  shows "\<exists>u. find_user db name w = Some u \<and> uc_is_active u \<and> \<not> uc_is_locked u \<and> password_ok db u pw \<and>
    \<not> account_locked db name w \<and> \<not> (mfa \<and> uc_mfa_enabled u) \<and>
    snd (resolve_session db now a s1) =
      (if now \<le> start + db_session_ttl db then Inr (principal_of u a (start + db_session_ttl db))
       else Inl (invalid_token ''Invalid or expired session token''))"
proof -
  obtain u where u: "find_user db name w = Some u" "uc_is_active u" "\<not> uc_is_locked u" "password_ok db u pw"
      "\<not> account_locked db name w" "\<not> (mfa \<and> uc_mfa_enabled u)" and s1: "s1 = fst (create_session db start a r u s)"
    using assms(3) by (auto simp: authenticate_def Let_def split: if_splits option.splits prod.splits)
  have "snd (resolve_session db now a s1) =
      (if now \<le> start + db_session_ttl db then Inr (principal_of u a (start + db_session_ttl db))
       else Inl (invalid_token ''Invalid or expired session token''))"
    using assms(2)
    by (simp add: s1 resolve_session_look create_session_look [OF assms(1)] stored_expiry [OF assms(1)] session_data_principal expired_def)
  with u show ?thesis by blast
qed

section \<open>Signing out\<close>

lemma refresh_session_none:
  assumes "session_look now s (refresh_key r) = None"
  shows "\<exists>m. snd (refresh_session db now a' r' r (s, w)) = Inl (invalid_token m)"
  using assms session_laws(1) [of now "refresh_key r" s]
  by (auto simp: refresh_session_def split: prod.splits option.splits)

lemma resolve_session_none:
  assumes "session_look now s (session_key a) = None"
  shows "\<exists>m. snd (resolve_session db now a s) = Inl (invalid_token m)"
  using assms by (auto simp: resolve_session_look)

lemma logout_session_look:
  assumes "session_look now s (session_key a) = Some (session_data fmt u t r)" "a \<noteq> []" "now \<le> n"
  shows "session_look n (logout_session now a s) k =
    (if k = session_key a \<or> (r \<noteq> [] \<and> k = refresh_key r) then None else session_look n s k)"
proof -
  obtain s' where s': "session_get now (session_key a) s = (s', Some (session_data fmt u t r))" "s' = fst (session_get now (session_key a) s)"
    using session_laws(1) [of now "session_key a" s] assms(1) by (metis prod.collapse)
  have keep: "session_look n s' k' = session_look n s k'" for k' using session_laws(2) [OF assms(3)] s'(2) by simp
  have del: "session_look n (session_delete k'' x) k' = (if k' = k'' then None else session_look n x k')" for k' k'' x
    using session_laws(3,4) by auto
  have "session_data fmt u t r \<noteq> []" by (simp add: session_data_def)
  then show ?thesis
    using assms(2)
    by (auto simp: logout_session_def s'(1) stored_tokens del keep truthy_def split: list.splits)
qed

text \<open>
  signing out ends the session: from then on its access token and its refresh token are refused, and all
  other sessions stay.
\<close>

theorem logout_revokes_both_tokens:
  assumes "session_look now s (session_key a) = Some (session_data fmt u t r)" "a \<noteq> []" "now \<le> n"
  shows "(\<exists>m. snd (resolve_session db n a (logout_session now a s)) = Inl (invalid_token m)) \<and>
    (\<exists>m. snd (refresh_session db n a' r' r (logout_session now a s, w)) = Inl (invalid_token m)) \<and>
    (k \<noteq> session_key a \<and> k \<noteq> refresh_key r \<longrightarrow> session_look n (logout_session now a s) k = session_look n s k)"
proof (intro conjI impI)
  show "\<exists>m. snd (resolve_session db n a (logout_session now a s)) = Inl (invalid_token m)"
    by (rule resolve_session_none) (simp add: logout_session_look [OF assms])
  show "\<exists>m. snd (refresh_session db n a' r' r (logout_session now a s, w)) = Inl (invalid_token m)"
  proof (cases "r = []")
    case False
    then show ?thesis by (intro refresh_session_none) (simp add: logout_session_look [OF assms])
  qed (auto simp: refresh_session_def)
qed (simp add: logout_session_look [OF assms])

section \<open>Refreshing\<close>

lemma cleanup_session_look:
  "session_look n (cleanup_session (Some a) r s) k =
     (if k = refresh_key r \<or> (a \<noteq> [] \<and> k = session_key a) then None else session_look n s k)"
  using session_laws(3,4) by (auto simp: cleanup_session_def truthy_def)

lemma refresh_session_success:
  assumes "provider_ok db" "session_look now s (refresh_key r) = Some (refresh_data (db_fmt db) u a t)"
    and "refresh_session db now a' r' r (s, w) = (s1, Inr tok)"
  obtains u' s2 where "uc_is_active u'" "now \<le> t" "s1 = fst (create_session db now a' r' u' (cleanup_session (Some a) r s2))"
    "\<And>n k. now \<le> n \<Longrightarrow> session_look n s2 k = session_look n s k"
proof -
  obtain s' where s': "session_get now (refresh_key r) s = (s', Some (refresh_data (db_fmt db) u a t))" "s' = fst (session_get now (refresh_key r) s)"
    using session_laws(1) [of now "refresh_key r" s] assms(2) by (metis prod.collapse)
  obtain s2 u' where r: "refresh_user db now (refresh_data (db_fmt db) u a t) (s', w) = (s2, Inr u')" "uc_is_active u'" "now \<le> t"
      "s1 = fst (create_session db now a' r' u' (cleanup_session (Some a) r s2))"
    using assms(3) s'(1)
    by (auto simp: refresh_session_def stored_expiry [OF assms(1)] stored_tokens expired_def Let_def split: if_splits prod.splits sum.splits)
  have "s2 = s' \<or> (\<exists>k. s2 = fst (session_get now k s'))"
    using r(1) by (auto simp: refresh_user_def stored_tokens split: option.splits prod.splits) (metis fst_conv)+
  then have "session_look n s2 k = session_look n s k" if "now \<le> n" for n k
    using session_laws(2) [OF that] s'(2) by auto
  with that [OF r(2-4)] show ?thesis by blast
qed

text \<open>
  C26: a refresh rotates the tokens: the refresh token that was used and the access token that belonged to it are refused from
  then on, and the new access token resolves to an active account up to its lifetime.
\<close>

theorem refresh_rotates:
  assumes "provider_ok db" "session_look now s (refresh_key r) = Some (refresh_data (db_fmt db) u a t)"
    and "refresh_session db now a' r' r (s, w) = (s1, Inr tok)" "r' \<noteq> r" "a' \<noteq> a" "a \<noteq> []" "a' \<noteq> []" "now \<le> n"
  shows "(\<exists>m. snd (refresh_session db n a'' r'' r (s1, w')) = Inl (invalid_token m)) \<and>
    (\<exists>m. snd (resolve_session db n a s1) = Inl (invalid_token m)) \<and>
    (\<exists>u'. uc_is_active u' \<and> snd (resolve_session db n a' s1) =
      (if n \<le> now + db_session_ttl db then Inr (principal_of u' a' (now + db_session_ttl db))
       else Inl (invalid_token ''Invalid or expired session token'')))"
proof -
  obtain u' s2 where u': "uc_is_active u'" and s1: "s1 = fst (create_session db now a' r' u' (cleanup_session (Some a) r s2))"
    using refresh_session_success [OF assms(1-3)] by blast
  have look: "session_look n s1 k =
      (if k = refresh_key r' then if now + db_refresh_ttl db < n then None else Some (refresh_data (db_fmt db) u' a' (now + db_refresh_ttl db))
       else if k = session_key a' then if now + db_session_ttl db < n then None else Some (session_data (db_fmt db) u' (now + db_session_ttl db) r')
       else if k = refresh_key r \<or> k = session_key a then None else session_look n s2 k)" for k
    using assms(6) by (simp add: s1 create_session_look [OF assms(1)] cleanup_session_look)
  have "\<exists>m. snd (refresh_session db n a'' r'' r (s1, w')) = Inl (invalid_token m)"
    using assms(4) by (intro refresh_session_none) (simp add: look)
  moreover have "\<exists>m. snd (resolve_session db n a s1) = Inl (invalid_token m)"
    using assms(5) by (intro resolve_session_none) (simp add: look)
  moreover have "snd (resolve_session db n a' s1) =
      (if n \<le> now + db_session_ttl db then Inr (principal_of u' a' (now + db_session_ttl db))
       else Inl (invalid_token ''Invalid or expired session token''))"
    using assms(7) by (simp add: resolve_session_look look stored_expiry [OF assms(1)] session_data_principal expired_def)
  ultimately show ?thesis using u' by blast
qed

text \<open>
  \<^verbatim>\<open>refresh\<close> looks the account up by its user name but with the user id.  Where ids are no user names, a refresh
  token works only while the access token lives: after \<open>start + db_session_ttl\<close> it is answered with
  \<^verbatim>\<open>User not found\<close>, though it is valid up to \<open>start + db_refresh_ttl\<close>.
\<close>

theorem refresh_needs_live_session:
  assumes "provider_ok db" "r \<noteq> []" "s1 = fst (create_session db start a r u s)"
    and "start + db_session_ttl db < now" "now \<le> start + db_refresh_ttl db" "db_get_by_username db (uc_user_id u) w = None"
  shows "snd (refresh_session db now a' r' r (s1, w)) = Inl (invalid_token ''User not found'')"
proof -
  have look: "session_look now s1 (refresh_key r) = Some (refresh_data (db_fmt db) u a (start + db_refresh_ttl db))"
      "session_look now s1 (session_key a) = None"
    using assms(3-5) by (simp_all add: create_session_look [OF assms(1)])
  obtain s' where s': "session_get now (refresh_key r) s1 = (s', Some (refresh_data (db_fmt db) u a (start + db_refresh_ttl db)))"
      "s' = fst (session_get now (refresh_key r) s1)"
    using session_laws(1) [of now "refresh_key r" s1] look(1) by (metis prod.collapse)
  have "session_look now s' (session_key a) = None" using look(2) session_laws(2) [of now now] s'(2) by simp
  then obtain s'' where "session_get now (session_key a) s' = (s'', None)"
    using session_laws(1) [of now "session_key a" s'] by (metis prod.collapse)
  then show ?thesis
    using assms(2,5,6) s'(1)
    by (simp add: refresh_session_def stored_expiry [OF assms(1)] stored_tokens expired_def refresh_user_def Let_def)
qed

section \<open>Lockout\<close>

text \<open>
  What the documentation of the lockout store promises: failures are counted per identifier, a lockout that was set holds,
  and neither changes what the user repository finds.
\<close>

definition lockout_counts :: "'w db_provider \<Rightarrow> 'w lockout \<Rightarrow> (string \<Rightarrow> 'w \<Rightarrow> int) \<Rightarrow> bool" where
  "lockout_counts db lk failures \<longleftrightarrow> db_lockout db = Some lk \<and>
     (\<forall>i w. snd (lk_record_failure lk i w) = failures i w + 1 \<and> failures i (fst (lk_record_failure lk i w)) = failures i w + 1) \<and>
     (\<forall>i d w. lk_is_locked lk i (lk_set_lockout lk i d w)) \<and>
     (\<forall>i w. lk_is_locked lk i (fst (lk_record_failure lk i w)) = lk_is_locked lk i w) \<and>
     (\<forall>i j d w. find_user db j (fst (lk_record_failure lk i w)) = find_user db j w \<and> find_user db j (lk_set_lockout lk i d w) = find_user db j w)"

definition login_attempts :: "'w db_provider \<Rightarrow> time \<Rightarrow> string \<Rightarrow> string list \<Rightarrow> 'w db_state \<Rightarrow> 'w db_state" where
  "login_attempts db now name pws st = fold (\<lambda>pw st. fst (authenticate db now [] [] False name pw st)) pws st"

lemma locked_attempts:
  assumes "account_locked db name w"
  shows "login_attempts db now name pws (s, w) = (s, w)"
  using assms by (induction pws) (simp_all add: login_attempts_def authenticate_def)

lemma failing_attempts:
  assumes "lockout_counts db lk failures"
    and "\<And>u pw. find_user db name w = Some u \<Longrightarrow> pw \<in> set pws \<Longrightarrow> uc_is_active u \<and> \<not> uc_is_locked u \<and> \<not> password_ok db u pw"
    and "db_max_failed_attempts db \<le> failures name w + int (length pws)" "pws \<noteq> []"
  shows "\<exists>w'. login_attempts db now name pws (s, w) = (s, w') \<and> account_locked db name w'"
  using assms
proof (induction pws arbitrary: w)
  case (Cons pw pws)
  note lk = Cons.prems(1) [unfolded lockout_counts_def]
  show ?case
  proof (cases "account_locked db name w")
    case True
    then show ?thesis by (simp add: locked_attempts)
  next
    case False
    have step: "authenticate db now [] [] False name pw (s, w) = ((s, record_login_failure db name w), Inl (invalid_credentials ''Invalid username or password''))"
      using False Cons.prems(2) by (cases "find_user db name w") (auto simp: authenticate_def)
    then have unfold: "login_attempts db now name (pw # pws) (s, w) = login_attempts db now name pws (s, record_login_failure db name w)"
      by (simp add: login_attempts_def)
    show ?thesis
    proof (cases "db_max_failed_attempts db \<le> failures name w + 1")
      case True
      then have "account_locked db name (record_login_failure db name w)"
        using lk by (auto simp: account_locked_def record_login_failure_def split: prod.splits) (metis snd_conv)
      then show ?thesis by (simp add: unfold locked_attempts)
    next
      case more: False
      then have w': "record_login_failure db name w = fst (lk_record_failure lk name w)"
        using lk by (auto simp: record_login_failure_def split: prod.splits) (metis snd_conv)
      have "\<exists>w'. login_attempts db now name pws (s, record_login_failure db name w) = (s, w') \<and> account_locked db name w'"
      proof (rule Cons.IH [OF Cons.prems(1)])
        show "uc_is_active u \<and> \<not> uc_is_locked u \<and> \<not> password_ok db u pw'"
          if "find_user db name (record_login_failure db name w) = Some u" "pw' \<in> set pws" for u pw'
          using that(1) lk Cons.prems(2) [of u pw'] that(2) by (simp add: w')
        show "db_max_failed_attempts db \<le> failures name (record_login_failure db name w) + int (length pws)"
          using Cons.prems(3) lk by (simp add: w')
        show "pws \<noteq> []" using Cons.prems(3) more by auto
      qed
      then show ?thesis by (simp add: unfold)
    qed
  qed
qed simp

text \<open>
  guessing passwords ends in a lockout: once the failures under a name, earlier ones and these wrong passwords
  together, reach the limit, every further attempt is refused, also one with the right password, and no session was made.
\<close>

theorem failures_lock_the_account:
  assumes "lockout_counts db lk failures" "pws \<noteq> []"
    and "\<And>u pw. find_user db name w = Some u \<Longrightarrow> pw \<in> set pws \<Longrightarrow> uc_is_active u \<and> \<not> uc_is_locked u \<and> \<not> password_ok db u pw"
    and "db_max_failed_attempts db \<le> failures name w + int (length pws)"
  shows "fst (login_attempts db now name pws (s, w)) = s \<and>
    authenticate db later a r mfa name pw (login_attempts db now name pws (s, w)) =
      (login_attempts db now name pws (s, w), Inl (IdentityError ''AccountLockedError'' ''Account is locked''))"
  using failing_attempts [OF assms(1,3,4,2), of now s] by (auto simp: authenticate_def)

section \<open>Witnesses\<close>

definition ex_hasher :: hasher where
  "ex_hasher = \<lparr>ph_algorithm = Bcrypt, ph_rounds = 12, ph_bcrypt_check = (\<lambda>h p. Inr (h = ''#'' @ p)), ph_argon2_verify = (\<lambda>h p. Inr ()),
     ph_argon2_outdated = (\<lambda>h. Inr False), ph_bcrypt_hash = (\<lambda>p. ''#'' @ p), ph_argon2_hash = (\<lambda>p. p), ph_int = (\<lambda>s. None)\<rparr>"

definition ex_account :: user_credentials where
  "ex_account = \<lparr>uc_user_id = ''u1'', uc_username = ''ann'', uc_email = Some ''a@b'', uc_password_hash = Some ''#pw'', uc_roles = [''admin''],
     uc_permissions = [], uc_is_active = True, uc_is_locked = False, uc_tenant_id = None, uc_mfa_enabled = False\<rparr>"

text \<open>The world: the failures and the lockouts of each identifier.\<close>

definition ex_lockout :: "((string \<Rightarrow> int) \<times> (string \<Rightarrow> bool)) lockout" where
  "ex_lockout = \<lparr>lk_is_locked = (\<lambda>i w. snd w i), lk_record_failure = (\<lambda>i w. (((fst w)(i := fst w i + 1), snd w), fst w i + 1)),
     lk_clear = (\<lambda>i w. ((fst w)(i := 0), snd w)), lk_set_lockout = (\<lambda>i d w. (fst w, (snd w)(i := True)))\<rparr>"

definition ex_db :: "((string \<Rightarrow> int) \<times> (string \<Rightarrow> bool)) db_provider" where
  "ex_db = \<lparr>db_get_by_username = (\<lambda>n w. if n = ''ann'' then Some ex_account else None),
     db_get_by_email = (\<lambda>n w. if n = ''a@b'' then Some ex_account else None),
     db_update_password_hash = (\<lambda>i h w. w), db_update_last_login = (\<lambda>i w. w), db_hasher = ex_hasher, db_lockout = Some ex_lockout,
     db_max_failed_attempts = 3, db_lockout_duration = 900, db_session_ttl = 5, db_refresh_ttl = 20,
     db_fmt = (\<lambda>t. ''T'' @ ex_fmt t), db_parse = ex_parse_time, db_as_bool = (\<lambda>v. Inr (json_truthy v))\<rparr>"

lemma ex_db_sel [simp]:
  "db_session_ttl ex_db = 5" "db_refresh_ttl ex_db = 20" "db_lockout ex_db = Some ex_lockout" "db_max_failed_attempts ex_db = 3"
  "db_get_by_username ex_db n w = (if n = ''ann'' then Some ex_account else None)"
  by (simp_all add: ex_db_def)

lemma ex_db_ok: "provider_ok ex_db"
  using ex_times by (simp add: provider_ok_def ex_db_def ex_parse_time_def ex_fmt_def)

lemma ex_verify: "password_ok ex_db ex_account pw \<longleftrightarrow> pw = ''pw''"
  by (auto simp: password_ok_def ex_db_def ex_account_def truthy_def verify_password_def ex_hasher_def)

lemma ex_find: "find_user ex_db ''ann'' w = Some ex_account"
  by (simp add: find_user_def ex_db_def)

definition ex_world :: "(string \<Rightarrow> int) \<times> (string \<Rightarrow> bool)" where
  "ex_world = ((\<lambda>i. 0), (\<lambda>i. False))"

lemma ex_login:
  "authenticate ex_db 1 ''A'' ''R'' False ''ann'' ''pw'' ([], ex_world) =
     ((fst (create_session ex_db 1 ''A'' ''R'' ex_account []), login_effects ex_db ''ann'' ex_account ''pw'' ex_world),
      Inr (snd (create_session ex_db 1 ''A'' ''R'' ex_account [])))"
  using ex_verify [of "''pw''"]
  by (simp add: authenticate_def ex_find account_locked_def ex_account_def ex_world_def ex_lockout_def Let_def split: prod.splits)

theorem issued_token_resolves_witness:
  "snd (resolve_session ex_db 6 ''A'' (fst (create_session ex_db 1 ''A'' ''R'' ex_account []))) = Inr (principal_of ex_account ''A'' 6) \<and>
   \<not> is_ok (snd (resolve_session ex_db 7 ''A'' (fst (create_session ex_db 1 ''A'' ''R'' ex_account []))))"
  using issued_token_resolves [OF ex_db_ok _ ex_login, of 6] issued_token_resolves [OF ex_db_ok _ ex_login, of 7]
  by (simp add: ex_find)

lemma ex_login_stored:
  "session_look 3 (fst (create_session ex_db 1 ''A'' ''R'' ex_account [])) (session_key ''A'') =
     Some (session_data (db_fmt ex_db) ex_account 6 ''R'')"
  "session_look 3 (fst (create_session ex_db 1 ''A'' ''R'' ex_account [])) (refresh_key ''R'') =
     Some (refresh_data (db_fmt ex_db) ex_account ''A'' 21)"
  by (simp_all add: create_session_look [OF ex_db_ok])

theorem logout_revokes_both_tokens_witness:
  "\<exists>m. snd (refresh_session ex_db 4 ''A2'' ''R2'' ''R'' (logout_session 3 ''A'' (fst (create_session ex_db 1 ''A'' ''R'' ex_account [])), ex_world)) =
     Inl (invalid_token m)"
  using logout_revokes_both_tokens [OF ex_login_stored(1), of 4 ex_db "''A2''" "''R2''" ex_world "[]"] by simp

lemma ex_refresh:
  "refresh_session ex_db 3 ''A2'' ''R2'' ''R'' (fst (create_session ex_db 1 ''A'' ''R'' ex_account []), ex_world) =
     (fst (refresh_session ex_db 3 ''A2'' ''R2'' ''R'' (fst (create_session ex_db 1 ''A'' ''R'' ex_account []), ex_world)),
      Inr \<lparr>tk_access_token = ''A2'', tk_refresh_token = Some ''R2'', tk_expires_in = 5, tk_expires_at = Some 8\<rparr>)"
  by code_simp

theorem refresh_rotates_witness:
  "\<exists>m. snd (refresh_session ex_db 4 ''A3'' ''R3'' ''R''
     (fst (refresh_session ex_db 3 ''A2'' ''R2'' ''R'' (fst (create_session ex_db 1 ''A'' ''R'' ex_account []), ex_world)), ex_world)) =
     Inl (invalid_token m)"
  using refresh_rotates [OF ex_db_ok ex_login_stored(2) ex_refresh, of 4 "''A3''" "''R3''" ex_world] by simp

theorem refresh_needs_live_session_witness:
  "snd (refresh_session ex_db 15 ''A2'' ''R2'' ''R'' (fst (create_session ex_db 1 ''A'' ''R'' ex_account []), ex_world)) =
     Inl (invalid_token ''User not found'')"
  by (rule refresh_needs_live_session [OF ex_db_ok _ refl]) (simp_all add: ex_account_def)

lemma ex_lockout_counts: "lockout_counts ex_db ex_lockout (\<lambda>i w. fst w i)"
  by (simp add: lockout_counts_def ex_lockout_def find_user_def ex_db_def)

theorem failures_lock_the_account_witness:
  "snd (authenticate ex_db 20 ''A'' ''R'' False ''ann'' ''pw'' (login_attempts ex_db 10 ''ann'' [''x'', ''y'', ''z''] ([], ex_world))) =
     Inl (IdentityError ''AccountLockedError'' ''Account is locked'')"
proof -
  have "uc_is_active u \<and> \<not> uc_is_locked u \<and> \<not> password_ok ex_db u pw"
    if "find_user ex_db ''ann'' ex_world = Some u" "pw \<in> set [''x'', ''y'', ''z'']" for u pw
    using that ex_verify [of pw] by (auto simp: ex_find) (simp_all add: ex_account_def)
  from failures_lock_the_account [where pws = "[''x'', ''y'', ''z'']" and name = "''ann''" and w = ex_world, OF ex_lockout_counts _ this]
  show ?thesis by (simp add: ex_world_def)
qed

end
