(* ===== verification/SagaBuilder.thy ===== *)
theory SagaBuilder
  imports SagaManager Mediator
begin

text \<open>
  The declarative front end of sagas: \<^verbatim>\<open>SagaBuilder\<close> (sagas/builder.py) and \<^verbatim>\<open>bootstrap_sagas\<close>
  (sagas/bootstrap.py), over \<^verbatim>\<open>Saga\<close> and \<^verbatim>\<open>SagaManager\<close>.

  An event type is its name.  A custom handler of the builder receives the event only, so that on the saga it can
  only succeed or raise.  \<open>attr\<close> reads a text attribute of an event.  All clock readings of one call are the same time,
  and \<open>str\<close> renders an exception, as in \<^verbatim>\<open>Saga\<close>.  The messages of
  configuration errors are shortened.
\<close>

section \<open>Actions of an event mapping\<close>

record on_config =
  oc_handler :: "(saga_event \<Rightarrow> exn option) option"
  oc_send :: "(saga_event \<Rightarrow> exn + command) option"
  oc_send_all :: "(saga_event \<Rightarrow> exn + command list) option"
  oc_step :: "string option"
  oc_compensate :: "(saga_event \<Rightarrow> exn + command) option"
  oc_compensate_description :: string
  oc_complete :: bool
  oc_suspend :: "string option"
  oc_suspend_timeout :: "int option"
  oc_resume :: bool
  oc_fail :: "string option"

definition no_config :: on_config where
  "no_config = \<lparr>oc_handler = None, oc_send = None, oc_send_all = None, oc_step = None, oc_compensate = None,
     oc_compensate_description = [], oc_complete = False, oc_suspend = None, oc_suspend_timeout = None,
     oc_resume = False, oc_fail = None\<rparr>"

definition resume_action :: "time \<Rightarrow> saga_handler" where
  "resume_action now ev sg = (resume_saga now sg, None)"

definition step_action :: "string \<Rightarrow> saga_handler" where
  "step_action step ev sg = (upd_state (\<lambda>s. s\<lparr>ss_current_step := step\<rparr>) sg, None)"

definition send_action :: "(saga_event \<Rightarrow> exn + command) \<Rightarrow> saga_handler" where
  "send_action send_fn ev sg = (case send_fn ev of Inl e \<Rightarrow> (sg, Some e) | Inr c \<Rightarrow> (dispatch c sg, None))"

definition send_all_action :: "(saga_event \<Rightarrow> exn + command list) \<Rightarrow> saga_handler" where
  "send_all_action send_all_fn ev sg = (case send_all_fn ev of Inl e \<Rightarrow> (sg, Some e) | Inr cs \<Rightarrow> (fold dispatch cs sg, None))"

definition compensate_action :: "(saga_event \<Rightarrow> exn + command) \<Rightarrow> string \<Rightarrow> saga_handler" where
  "compensate_action compensate_fn desc ev sg =
     (case compensate_fn ev of Inl e \<Rightarrow> (sg, Some e) | Inr c \<Rightarrow> (add_compensation c desc sg, None))"

definition suspend_action :: "time \<Rightarrow> string \<Rightarrow> int option \<Rightarrow> saga_handler" where
  "suspend_action now reason timeout ev sg = (suspend_saga now reason timeout sg, None)"

definition fail_action :: "(exn \<Rightarrow> string) \<Rightarrow> time \<Rightarrow> string \<Rightarrow> saga_handler" where
  "fail_action str now reason ev sg = fail_saga str now reason True sg"

definition complete_action :: "time \<Rightarrow> saga_handler" where
  "complete_action now ev sg = (complete_saga now sg, None)"

definition maybe_add_action :: "saga_handler option \<Rightarrow> saga_handler list \<Rightarrow> saga_handler list" where
  "maybe_add_action action actions = (case action of None \<Rightarrow> actions | Some a \<Rightarrow> actions @ [a])"

definition build_handler_actions :: "(exn \<Rightarrow> string) \<Rightarrow> time \<Rightarrow> on_config \<Rightarrow> saga_handler list" where
  "build_handler_actions str now config =
     (let actions = [];
          actions = maybe_add_action (if oc_resume config then Some (resume_action now) else None) actions;
          actions = maybe_add_action (map_option step_action (oc_step config)) actions;
          actions = maybe_add_action (map_option send_action (oc_send config)) actions;
          actions = maybe_add_action (map_option send_all_action (oc_send_all config)) actions;
          actions = maybe_add_action (map_option (\<lambda>f. compensate_action f (oc_compensate_description config)) (oc_compensate config)) actions;
          actions = maybe_add_action (map_option (\<lambda>r. suspend_action now r (oc_suspend_timeout config)) (oc_suspend config)) actions;
          actions = maybe_add_action (map_option (fail_action str now) (oc_fail config)) actions;
          actions = maybe_add_action (if oc_complete config then Some (complete_action now) else None) actions
      in actions)"

fun run_actions :: "saga_handler list \<Rightarrow> saga_handler" where
  "run_actions [] ev sg = (sg, None)"
| "run_actions (a # as) ev sg = (case a ev sg of (sg', Some e) \<Rightarrow> (sg', Some e) | (sg', None) \<Rightarrow> run_actions as ev sg')"

definition create_mapped_handler :: "(exn \<Rightarrow> string) \<Rightarrow> time \<Rightarrow> on_config \<Rightarrow> saga_handler" where
  "create_mapped_handler str now config = run_actions (build_handler_actions str now config)"

definition config_handler :: "(exn \<Rightarrow> string) \<Rightarrow> time \<Rightarrow> on_config \<Rightarrow> saga_handler" where
  "config_handler str now config =
     (case oc_handler config of Some h \<Rightarrow> (\<lambda>ev sg. (sg, h ev)) | None \<Rightarrow> create_mapped_handler str now config)"

text \<open>\<^verbatim>\<open>saga.on(event_type, handler=h)\<close>.\<close>

definition on_handler :: "string \<Rightarrow> saga_handler \<Rightarrow> saga_handlers \<Rightarrow> saga_handlers" where
  "on_handler event_type h hs = AList.update event_type h hs"

definition register_on_mapping :: "(exn \<Rightarrow> string) \<Rightarrow> time \<Rightarrow> string \<Rightarrow> on_config \<Rightarrow> saga_handlers \<Rightarrow> saga_handlers" where
  "register_on_mapping str now event_type config hs = on_handler event_type (config_handler str now config) hs"

section \<open>Wiring of Try-Confirm/Cancel events\<close>

definition begin_handler :: "time \<Rightarrow> saga_handler" where
  "begin_handler now ev sg = begin_tcc now sg"

definition tried_handler :: "time \<Rightarrow> string \<Rightarrow> saga_handler" where
  "tried_handler now step_name ev sg = mark_step_tried now step_name sg"

definition confirmed_handler :: "time \<Rightarrow> string \<Rightarrow> saga_handler" where
  "confirmed_handler now step_name ev sg = (mark_step_confirmed now step_name sg, None)"

definition failure_reason :: "(saga_event \<Rightarrow> string \<Rightarrow> string option) \<Rightarrow> saga_event \<Rightarrow> string" where
  "failure_reason attr ev =
     (let reason = (case attr ev ''reason'' of None \<Rightarrow> [] | Some r \<Rightarrow> r)
      in if reason \<noteq> [] then reason else (case attr ev ''error'' of None \<Rightarrow> [] | Some r \<Rightarrow> r))"

definition failed_handler :: "(saga_event \<Rightarrow> string \<Rightarrow> string option) \<Rightarrow> time \<Rightarrow> string \<Rightarrow> saga_handler" where
  "failed_handler attr now step_name ev sg = mark_step_failed now step_name (failure_reason attr ev) sg"

definition cancelled_handler :: "time \<Rightarrow> string \<Rightarrow> saga_handler" where
  "cancelled_handler now step_name ev sg = (mark_step_cancelled now step_name sg, None)"

definition wire_handlers :: "(string \<Rightarrow> saga_handler) \<Rightarrow> (string \<times> string) list \<Rightarrow> saga_handlers \<Rightarrow> saga_handlers" where
  "wire_handlers h entries hs = fold (\<lambda>(step_name, event_type). on_handler event_type (h step_name)) entries hs"

section \<open>The builder\<close>

record saga_builder =
  sb_name :: string
  sb_on :: "(string \<times> on_config) list"
  sb_tcc_steps :: "tcc_step list"
  sb_state_class :: string
  sb_max_retries :: "int option"
  sb_on_timeout :: "(time \<Rightarrow> saga \<Rightarrow> saga \<times> exn option) option"
  sb_tcc_begin :: "string option"
  sb_tcc_tried :: "(string \<times> string) list"
  sb_tcc_confirmed :: "(string \<times> string) list"
  sb_tcc_failed :: "(string \<times> string) list"
  sb_tcc_cancelled :: "(string \<times> string) list"

definition new_saga_builder :: "string \<Rightarrow> saga_builder" where
  "new_saga_builder name = \<lparr>sb_name = name, sb_on = [], sb_tcc_steps = [], sb_state_class = ''SagaState'', sb_max_retries = None,
     sb_on_timeout = None, sb_tcc_begin = None, sb_tcc_tried = [], sb_tcc_confirmed = [], sb_tcc_failed = [],
     sb_tcc_cancelled = []\<rparr>"

text \<open>Functions are true in a Boolean context; the empty text is not.\<close>

definition validate_on :: "on_config \<Rightarrow> exn option" where
  "validate_on c =
     (let sends = oc_send c \<noteq> None \<or> oc_send_all c \<noteq> None
      in if oc_handler c \<noteq> None then
           (if sends \<or> oc_complete c \<or> truthy (oc_suspend c) \<or> truthy (oc_fail c) \<or> oc_resume c
            then Some (SagaConfigurationError ''handler is mutually exclusive with all other action parameters.'') else None)
         else if oc_send c \<noteq> None \<and> oc_send_all c \<noteq> None
         then Some (SagaConfigurationError ''send and send_all are mutually exclusive.'')
         else if oc_suspend c \<noteq> None \<and> (sends \<or> oc_complete c \<or> truthy (oc_fail c))
         then Some (SagaConfigurationError ''suspend is mutually exclusive with send, send_all, complete, and fail.'')
         else if oc_fail c \<noteq> None \<and> (sends \<or> oc_complete c \<or> truthy (oc_suspend c))
         then Some (SagaConfigurationError ''fail is mutually exclusive with send, send_all, complete, and suspend.'')
         else if oc_suspend_timeout c \<noteq> None \<and> oc_suspend c = None
         then Some (SagaConfigurationError ''suspend_timeout requires suspend.'')
         else if \<not> (sends \<or> oc_complete c \<or> truthy (oc_suspend c) \<or> truthy (oc_fail c) \<or> oc_resume c)
         then Some (SagaConfigurationError ''At least one action is required'')
         else None)"

definition builder_on :: "string \<Rightarrow> on_config \<Rightarrow> saga_builder \<Rightarrow> exn + saga_builder" where
  "builder_on event_type config b =
     (case validate_on config of Some e \<Rightarrow> Inl e | None \<Rightarrow> Inr (b\<lparr>sb_on := sb_on b @ [(event_type, config)]\<rparr>))"

definition with_handler :: "string \<Rightarrow> (saga_event \<Rightarrow> exn option) \<Rightarrow> saga_builder \<Rightarrow> exn + saga_builder" where
  "with_handler event_type h b = builder_on event_type (no_config\<lparr>oc_handler := Some h\<rparr>) b"

definition with_tcc_step :: "tcc_step \<Rightarrow> saga_builder \<Rightarrow> saga_builder" where
  "with_tcc_step step b = b\<lparr>sb_tcc_steps := sb_tcc_steps b @ [step]\<rparr>"

definition on_tcc_begin :: "string \<Rightarrow> saga_builder \<Rightarrow> exn + saga_builder" where
  "on_tcc_begin event_type b =
     (if sb_tcc_begin b \<noteq> None then Inl (SagaConfigurationError ''on_tcc_begin() can only be called once.'')
      else Inr (b\<lparr>sb_tcc_begin := Some event_type\<rparr>))"

definition on_tcc_tried :: "string \<Rightarrow> string \<Rightarrow> saga_builder \<Rightarrow> saga_builder" where
  "on_tcc_tried step_name event_type b = b\<lparr>sb_tcc_tried := sb_tcc_tried b @ [(step_name, event_type)]\<rparr>"

definition on_tcc_confirmed :: "string \<Rightarrow> string \<Rightarrow> saga_builder \<Rightarrow> saga_builder" where
  "on_tcc_confirmed step_name event_type b = b\<lparr>sb_tcc_confirmed := sb_tcc_confirmed b @ [(step_name, event_type)]\<rparr>"

definition on_tcc_failed :: "string \<Rightarrow> string \<Rightarrow> saga_builder \<Rightarrow> saga_builder" where
  "on_tcc_failed step_name event_type b = b\<lparr>sb_tcc_failed := sb_tcc_failed b @ [(step_name, event_type)]\<rparr>"

definition on_tcc_cancelled :: "string \<Rightarrow> string \<Rightarrow> saga_builder \<Rightarrow> saga_builder" where
  "on_tcc_cancelled step_name event_type b = b\<lparr>sb_tcc_cancelled := sb_tcc_cancelled b @ [(step_name, event_type)]\<rparr>"

definition with_state_class :: "string \<Rightarrow> saga_builder \<Rightarrow> saga_builder" where
  "with_state_class cls b = b\<lparr>sb_state_class := cls\<rparr>"

definition with_max_retries :: "int \<Rightarrow> saga_builder \<Rightarrow> saga_builder" where
  "with_max_retries n b = b\<lparr>sb_max_retries := Some n\<rparr>"

definition builder_on_timeout :: "(time \<Rightarrow> saga \<Rightarrow> saga \<times> exn option) \<Rightarrow> saga_builder \<Rightarrow> saga_builder" where
  "builder_on_timeout fn b = b\<lparr>sb_on_timeout := Some fn\<rparr>"

section \<open>Building\<close>

definition validate_tcc_consistency :: "saga_builder \<Rightarrow> exn option" where
  "validate_tcc_consistency b =
     (if sb_tcc_steps b \<noteq> [] \<and> sb_tcc_begin b = None
      then Some (SagaConfigurationError ''TCC steps are registered but on_tcc_begin() was not called.'')
      else if sb_tcc_begin b \<noteq> None \<and> sb_tcc_steps b = []
      then Some (SagaConfigurationError ''on_tcc_begin() was called but no TCC steps are registered.'')
      else None)"

definition tcc_step_names :: "saga_builder \<Rightarrow> string list" where
  "tcc_step_names b = map ts_name (sb_tcc_steps b)"

definition wired :: "saga_builder \<Rightarrow> (string \<times> string) list" where
  "wired b = sb_tcc_tried b @ sb_tcc_confirmed b @ sb_tcc_failed b @ sb_tcc_cancelled b"

definition validate_tcc_step_names :: "saga_builder \<Rightarrow> exn option" where
  "validate_tcc_step_names b =
     (case find (\<lambda>(step_name, _). step_name \<notin> set (tcc_step_names b)) (wired b) of
        None \<Rightarrow> None
      | Some (step_name, _) \<Rightarrow> Some (SagaConfigurationError (quoted step_name @ '' references unknown TCC step.'')))"

definition collect_all_events :: "saga_builder \<Rightarrow> string list" where
  "collect_all_events b =
     map fst (sb_on b) @ (case sb_tcc_begin b of None \<Rightarrow> [] | Some et \<Rightarrow> [et]) @ map snd (sb_tcc_tried b) @
     map snd (sb_tcc_confirmed b) @ map snd (sb_tcc_failed b) @ map snd (sb_tcc_cancelled b)"

fun validate_no_duplicate_events :: "string list \<Rightarrow> string list \<Rightarrow> exn option" where
  "validate_no_duplicate_events seen [] = None"
| "validate_no_duplicate_events seen (et # ets) =
     (if et \<in> set seen then Some (SagaConfigurationError (''Duplicate event registration for '' @ et))
      else validate_no_duplicate_events (et # seen) ets)"

definition validate_build :: "saga_builder \<Rightarrow> exn option" where
  "validate_build b =
     (case validate_tcc_consistency b of
        Some e \<Rightarrow> Some e
      | None \<Rightarrow> (case validate_tcc_step_names b of
                   Some e \<Rightarrow> Some e | None \<Rightarrow> validate_no_duplicate_events [] (collect_all_events b)))"

definition collect_listened_events :: "saga_builder \<Rightarrow> string list" where
  "collect_listened_events b =
     fold (\<lambda>et events. if et \<notin> set events then events @ [et] else events) (collect_all_events b) []"

text \<open>The handlers that the generated constructor registers.\<close>

definition built_handlers :: "(exn \<Rightarrow> string) \<Rightarrow> (saga_event \<Rightarrow> string \<Rightarrow> string option) \<Rightarrow> time \<Rightarrow> saga_builder \<Rightarrow> saga_handlers" where
  "built_handlers str attr now b =
     (let hs = fold (\<lambda>(et, config). register_on_mapping str now et config) (sb_on b) [];
          hs = (case sb_tcc_begin b of None \<Rightarrow> hs | Some et \<Rightarrow> on_handler et (begin_handler now) hs);
          hs = wire_handlers (tried_handler now) (sb_tcc_tried b) hs;
          hs = wire_handlers (confirmed_handler now) (sb_tcc_confirmed b) hs;
          hs = wire_handlers (failed_handler attr now) (sb_tcc_failed b) hs
      in wire_handlers (cancelled_handler now) (sb_tcc_cancelled b) hs)"

fun add_tcc_steps :: "tcc_step list \<Rightarrow> saga \<Rightarrow> exn + saga" where
  "add_tcc_steps [] sg = Inr sg"
| "add_tcc_steps (st # sts) sg = (case add_tcc_step st sg of Inl e \<Rightarrow> Inl e | Inr sg \<Rightarrow> add_tcc_steps sts sg)"

text \<open>\<^verbatim>\<open>__init__\<close> of the generated class.\<close>

definition built_init :: "saga_builder \<Rightarrow> saga_state \<Rightarrow> hydrator option \<Rightarrow> exn + saga" where
  "built_init b s reg =
     (let sg = new_saga s reg;
          sg = (case sb_max_retries b of None \<Rightarrow> sg | Some n \<Rightarrow> upd_state (\<lambda>s. s\<lparr>ss_max_retries := n\<rparr>) sg)
      in add_tcc_steps (sb_tcc_steps b) sg)"

record built_class =
  bc_name :: string
  bc_listens_to :: "string list"
  bc_state_class :: string
  bc_init :: "saga_state \<Rightarrow> hydrator option \<Rightarrow> exn + saga"
  bc_handlers :: "(exn \<Rightarrow> string) \<Rightarrow> (saga_event \<Rightarrow> string \<Rightarrow> string option) \<Rightarrow> time \<Rightarrow> saga_handlers"
  bc_on_timeout :: "(exn \<Rightarrow> string) \<Rightarrow> time \<Rightarrow> saga \<Rightarrow> saga \<times> exn option"

definition timeout_override :: "saga_builder \<Rightarrow> (exn \<Rightarrow> string) \<Rightarrow> time \<Rightarrow> saga \<Rightarrow> saga \<times> exn option" where
  "timeout_override b str = (case sb_on_timeout b of None \<Rightarrow> on_timeout str | Some fn \<Rightarrow> fn)"

definition build :: "saga_builder \<Rightarrow> exn + built_class" where
  "build b =
     (case validate_build b of
        Some e \<Rightarrow> Inl e
      | None \<Rightarrow>
          Inr \<lparr>bc_name = sb_name b, bc_listens_to = collect_listened_events b, bc_state_class = sb_state_class b,
               bc_init = built_init b, bc_handlers = (\<lambda>str attr now. built_handlers str attr now b),
               bc_on_timeout = timeout_override b\<rparr>)"

section \<open>Bootstrap\<close>

record ('c, 'i) saga_bootstrap =
  bt_registry :: "'c saga_registry"
  bt_dispatcher :: "'i event_dispatcher option"
  bt_poll_interval :: "int option"

definition saga_event_types :: "'c saga_registry \<Rightarrow> string list" where
  "saga_event_types rg = dkeys (rg_event_map rg)"

definition bind_to :: "'c saga_registry \<Rightarrow> 'i \<Rightarrow> 'i event_dispatcher \<Rightarrow> 'i event_dispatcher" where
  "bind_to rg manager d = fold (\<lambda>et. dispatcher_register et manager) (saga_event_types rg) d"

definition new_saga_registry :: "'c saga_registry" where
  "new_saga_registry = \<lparr>rg_event_map = [], rg_type_map = []\<rparr>"

text \<open>The worker is its poll interval; the manager is the handler \<open>manager\<close>.\<close>

definition bootstrap_sagas ::
  "'c saga_class_info \<Rightarrow> 'i \<Rightarrow> 'c list \<Rightarrow> 'i event_dispatcher option \<Rightarrow> 'c saga_registry option \<Rightarrow> int option \<Rightarrow> ('c, 'i) saga_bootstrap" where
  "bootstrap_sagas info manager sagas dispatcher registry recovery_interval =
     (let rg = fold (register_saga info) sagas (case registry of None \<Rightarrow> new_saga_registry | Some rg \<Rightarrow> rg)
      in \<lparr>bt_registry = rg, bt_dispatcher = map_option (bind_to rg manager) dispatcher, bt_poll_interval = recovery_interval\<rparr>)"

section \<open>What a valid mapping may combine\<close>

lemma build_handler_actions_eq:
  "build_handler_actions str now c =
     (if oc_resume c then [resume_action now] else []) @ map step_action (opt_list (oc_step c)) @ map send_action (opt_list (oc_send c)) @
     map send_all_action (opt_list (oc_send_all c)) @
     map (\<lambda>f. compensate_action f (oc_compensate_description c)) (opt_list (oc_compensate c)) @
     map (\<lambda>r. suspend_action now r (oc_suspend_timeout c)) (opt_list (oc_suspend c)) @
     map (fail_action str now) (opt_list (oc_fail c)) @ (if oc_complete c then [complete_action now] else [])"
  by (auto simp: build_handler_actions_def maybe_add_action_def opt_list_def Let_def split: option.splits)

lemma run_actions_append:
  "run_actions (as @ bs) ev sg = (case run_actions as ev sg of (sg', Some e) \<Rightarrow> (sg', Some e) | (sg', None) \<Rightarrow> run_actions bs ev sg')"
  by (induction as arbitrary: sg) (auto split: prod.splits option.splits)

lemma builder_send_eq:
  assumes "oc_handler c = None" "oc_send c = Some f" "oc_send_all c = None" "oc_suspend c = None" "oc_fail c = None" "\<not> oc_resume c"
  shows "config_handler str now c ev sg =
    mapped_handler now f (oc_step c) (oc_compensate c) (oc_compensate_description c) (oc_complete c) ev sg"
  using assms
  by (auto simp: config_handler_def create_mapped_handler_def build_handler_actions_eq opt_list_def run_actions_append mapped_handler_def
      step_action_def send_action_def compensate_action_def complete_action_def Let_def split: option.splits sum.splits)

text \<open>
  the builder agrees with \<^verbatim>\<open>Saga.on\<close>: a mapping to one command, with or without step, compensation and completion, is
  handled as by the handler that a hand-written saga registers with the same parameters.
\<close>

theorem builder_send_is_saga_on:
  assumes "oc_handler c = None" "oc_send c = Some f" "oc_send_all c = None" "oc_suspend c = None" "oc_fail c = None" "\<not> oc_resume c"
  shows "config_handler str now c ev sg =
    mapped_handler now f (oc_step c) (oc_compensate c) (oc_compensate_description c) (oc_complete c) ev sg"
  by (rule builder_send_eq [OF assms])

text \<open>The status that a fail leaves.\<close>

lemma fail_saga_status:
  assumes "fail_saga str now reason True sg = (sg', None)"
  shows "ss_status (sg_state sg') \<in> {SAGA_FAILED, SAGA_COMPENSATED}"
  using assms
  by (auto simp: fail_saga_def execute_compensations_def upd_state_def ss_touch_def Let_def split: if_splits option.splits prod.splits)

lemma run_actions_status:
  assumes "run_actions as ev sg = (sg', None)"
    and "\<And>a sg sg'. a \<in> set as \<Longrightarrow> a ev sg = (sg', None) \<Longrightarrow> ss_status (sg_state sg') = ss_status (sg_state sg)"
  shows "ss_status (sg_state sg') = ss_status (sg_state sg)"
  using assms
proof (induction as arbitrary: sg)
  case (Cons a as)
  then obtain sg1 where sg1: "a ev sg = (sg1, None)" "run_actions as ev sg1 = (sg', None)"
    by (auto split: prod.splits option.splits)
  have "ss_status (sg_state sg') = ss_status (sg_state sg1)"
  proof (rule Cons.IH [OF sg1(2)])
    show "ss_status (sg_state y) = ss_status (sg_state x)" if "b \<in> set as" "b ev x = (y, None)" for b x y
      using Cons.prems(2) [of b x y] that by simp
  qed
  with Cons.prems(2) [of a sg sg1] sg1(1) show ?case by simp
qed simp

lemma fold_dispatch_state: "sg_state (fold dispatch cs sg) = sg_state sg"
  by (induction cs arbitrary: sg) (simp_all add: dispatch_def)

text \<open>Only resuming, suspending, failing and completing touch the status.\<close>

lemma plain_action_status:
  assumes "a \<in> set (map step_action ss @ map send_action fs @ map send_all_action gs @ map (\<lambda>f. compensate_action f d) hs)"
    and "a ev sg = (sg', None)"
  shows "ss_status (sg_state sg') = ss_status (sg_state sg)"
  using assms
  by (auto simp: step_action_def send_action_def send_all_action_def compensate_action_def upd_state_def dispatch_def add_compensation_def
      fold_dispatch_state split: sum.splits)

lemma action_status_chain:
  assumes "run_actions (rs @ ps @ ts) ev sg = (sg', None)"
    and "\<And>a sg sg'. a \<in> set ps \<Longrightarrow> a ev sg = (sg', None) \<Longrightarrow> ss_status (sg_state sg') = ss_status (sg_state sg)"
  obtains sg1 sg2 where "run_actions rs ev sg = (sg1, None)" "run_actions ts ev sg2 = (sg', None)"
    "ss_status (sg_state sg2) = ss_status (sg_state sg1)"
proof -
  from assms(1) obtain sg1 where 1: "run_actions rs ev sg = (sg1, None)" "run_actions (ps @ ts) ev sg1 = (sg', None)"
    by (auto simp: run_actions_append [of rs] split: prod.splits option.splits)
  from 1(2) obtain sg2 where 2: "run_actions ps ev sg1 = (sg2, None)" "run_actions ts ev sg2 = (sg', None)"
    by (auto simp: run_actions_append [of ps] split: prod.splits option.splits)
  show ?thesis by (rule that [OF 1(1) 2(2) run_actions_status [OF 2(1) assms(2)]])
qed

text \<open>
  the outcome of a mapping is unambiguous.  For a mapping that the builder accepted (and whose reasons are not empty texts), a
  handler that succeeds leaves the saga completed exactly when the mapping completes it, suspended when it suspends,
  failed or compensated when it fails, and otherwise in its status, with a suspended saga running again if it resumes.
\<close>

theorem mapping_decides_status:
  assumes "validate_on c = None" "oc_handler c = None" "oc_suspend c \<noteq> Some []" "oc_fail c \<noteq> Some []"
    and "config_handler str now c ev sg = (sg', None)"
  shows "ss_status (sg_state sg') \<in>
    (if oc_complete c then {SAGA_COMPLETED} else if oc_suspend c \<noteq> None then {SAGA_SUSPENDED}
     else if oc_fail c \<noteq> None then {SAGA_FAILED, SAGA_COMPENSATED}
     else if oc_resume c \<and> ss_status (sg_state sg) = SAGA_SUSPENDED then {SAGA_RUNNING} else {ss_status (sg_state sg)})"
proof -
  let ?rs = "if oc_resume c then [resume_action now] else []"
  let ?ps = "map step_action (opt_list (oc_step c)) @ map send_action (opt_list (oc_send c)) @ map send_all_action (opt_list (oc_send_all c)) @
     map (\<lambda>f. compensate_action f (oc_compensate_description c)) (opt_list (oc_compensate c))"
  let ?ts = "map (\<lambda>r. suspend_action now r (oc_suspend_timeout c)) (opt_list (oc_suspend c)) @
     map (fail_action str now) (opt_list (oc_fail c)) @ (if oc_complete c then [complete_action now] else [])"
  have "run_actions (?rs @ ?ps @ ?ts) ev sg = (sg', None)"
    using assms(2,5) by (simp add: config_handler_def create_mapped_handler_def build_handler_actions_eq)
  then obtain sg1 sg2 where r: "run_actions ?rs ev sg = (sg1, None)" "run_actions ?ts ev sg2 = (sg', None)"
      "ss_status (sg_state sg2) = ss_status (sg_state sg1)"
    by (rule action_status_chain [OF _ plain_action_status])
  have excl: "oc_suspend c \<noteq> None \<Longrightarrow> \<not> oc_complete c \<and> oc_fail c = None" "oc_fail c \<noteq> None \<Longrightarrow> \<not> oc_complete c"
    using assms(1-4) by (auto simp: validate_on_def Let_def truthy_def split: if_splits option.splits)
  have sg1: "ss_status (sg_state sg1) =
      (if oc_resume c \<and> ss_status (sg_state sg) = SAGA_SUSPENDED then SAGA_RUNNING else ss_status (sg_state sg))"
    using r(1) by (auto simp: resume_action_def resume_saga_def upd_state_def ss_touch_def split: if_splits)
  show ?thesis
    using r(2) excl sg1 r(3) fail_saga_status
    by (auto simp: opt_list_def suspend_action_def suspend_saga_def fail_action_def complete_action_def complete_saga_def upd_state_def ss_touch_def
        split: if_splits option.splits prod.splits)
qed

text \<open>
  A custom handler silently discards the step and the compensation given with it, although all other action parameters
  are documented as refused.
\<close>

theorem handler_drops_step:
  assumes "oc_handler c = Some h" "validate_on c = None"
  shows "validate_on (c\<lparr>oc_step := Some st, oc_compensate := Some f\<rparr>) = None \<and>
    config_handler str now (c\<lparr>oc_step := Some st, oc_compensate := Some f\<rparr>) ev sg = (sg, h ev)"
  using assms by (simp add: validate_on_def config_handler_def Let_def)

section \<open>What build accepts, and what it wires\<close>

lemma validate_no_duplicate_events_iff:
  "validate_no_duplicate_events seen ets = None \<longleftrightarrow> distinct ets \<and> set ets \<inter> set seen = {}"
  by (induction ets arbitrary: seen) auto

text \<open>
  \<^verbatim>\<open>build\<close> succeeds exactly for configurations in which every event type is registered once, every wired step exists, and
  steps and the begin event come together.
\<close>

theorem build_accepts:
  "is_ok (build b) \<longleftrightarrow> distinct (collect_all_events b) \<and> fst ` set (wired b) \<subseteq> set (tcc_step_names b) \<and>
     (sb_tcc_steps b = [] \<longleftrightarrow> sb_tcc_begin b = None)"
proof -
  have "validate_tcc_step_names b = None \<longleftrightarrow> fst ` set (wired b) \<subseteq> set (tcc_step_names b)"
  proof -
    have "validate_tcc_step_names b = None \<longleftrightarrow> find (\<lambda>(step_name, _). step_name \<notin> set (tcc_step_names b)) (wired b) = None"
      by (auto simp: validate_tcc_step_names_def split: option.splits)
    then show ?thesis by (auto simp: find_None_iff)
  qed
  moreover have "validate_tcc_consistency b = None \<longleftrightarrow> (sb_tcc_steps b = [] \<longleftrightarrow> sb_tcc_begin b = None)"
    by (auto simp: validate_tcc_consistency_def)
  moreover have "is_ok (build b) \<longleftrightarrow> validate_tcc_consistency b = None \<and> validate_tcc_step_names b = None \<and>
      validate_no_duplicate_events [] (collect_all_events b) = None"
    by (auto simp: build_def validate_build_def is_ok_def split: option.splits)
  ultimately show ?thesis by (auto simp: validate_no_duplicate_events_iff)
qed

lemma fold_collect_distinct:
  assumes "distinct (acc @ ets)"
  shows "fold (\<lambda>et events. if et \<notin> set events then events @ [et] else events) ets acc = acc @ ets"
  using assms by (induction ets arbitrary: acc) auto

lemma map_of_on_handler: "map_of (on_handler et h hs) et' = (if et' = et then Some h else map_of hs et')"
  by (simp add: on_handler_def update_conv')

text \<open>A table of registrations, the later ones first.\<close>

definition registrations :: "(exn \<Rightarrow> string) \<Rightarrow> (saga_event \<Rightarrow> string \<Rightarrow> string option) \<Rightarrow> time \<Rightarrow> saga_builder \<Rightarrow> (string \<times> saga_handler) list" where
  "registrations str attr now b =
     map (\<lambda>(et, c). (et, config_handler str now c)) (sb_on b) @
     map (\<lambda>et. (et, begin_handler now)) (opt_list (sb_tcc_begin b)) @
     map (\<lambda>(n, et). (et, tried_handler now n)) (sb_tcc_tried b) @
     map (\<lambda>(n, et). (et, confirmed_handler now n)) (sb_tcc_confirmed b) @
     map (\<lambda>(n, et). (et, failed_handler attr now n)) (sb_tcc_failed b) @
     map (\<lambda>(n, et). (et, cancelled_handler now n)) (sb_tcc_cancelled b)"

lemma registrations_keys: "map fst (registrations str attr now b) = collect_all_events b"
  by (auto simp: registrations_def collect_all_events_def opt_list_def comp_def case_prod_beta split: option.splits)

lemma fold_on_handler:
  "map_of (fold (\<lambda>(et, h). on_handler et h) regs hs) et = (case map_of (rev regs) et of None \<Rightarrow> map_of hs et | Some h \<Rightarrow> Some h)"
  by (induction regs arbitrary: hs) (auto simp: map_of_on_handler map_add_def split: option.splits)

lemma wire_handlers_eq: "wire_handlers h es hs = fold (\<lambda>(et, h). on_handler et h) (map (\<lambda>(n, et). (et, h n)) es) hs"
  unfolding wire_handlers_def by (induction es arbitrary: hs) auto

lemma on_mappings_eq:
  "fold (\<lambda>(et, c). register_on_mapping str now et c) cs hs = fold (\<lambda>(et, h). on_handler et h) (map (\<lambda>(et, c). (et, config_handler str now c)) cs) hs"
  by (induction cs arbitrary: hs) (auto simp: register_on_mapping_def)

lemma built_handlers_eq: "built_handlers str attr now b = fold (\<lambda>(et, h). on_handler et h) (registrations str attr now b) []"
  unfolding built_handlers_def registrations_def wire_handlers_eq on_mappings_eq
  by (simp add: opt_list_def Let_def split: option.splits)

lemma map_of_rev_distinct:
  assumes "distinct (map fst xs)"
  shows "map_of (rev xs) = map_of xs"
  using assms by (subst map_of_inject_set) (simp_all add: rev_map [symmetric])

lemma built_class_events:
  assumes "build b = Inr cls"
  shows "bc_listens_to cls = collect_all_events b \<and>
    (\<forall>et h. (et, h) \<in> set (registrations str attr now b) \<longleftrightarrow> map_of (bc_handlers cls str attr now) et = Some h) \<and>
    (\<forall>et. et \<in> set (bc_listens_to cls) \<longleftrightarrow> map_of (bc_handlers cls str attr now) et \<noteq> None)"
proof -
  have ok: "distinct (collect_all_events b)" using build_accepts [of b] assms by (simp add: is_ok_def)
  have cls: "bc_listens_to cls = collect_listened_events b" "bc_handlers cls str attr now = built_handlers str attr now b"
    using assms by (auto simp: build_def split: option.splits)
  have l: "bc_listens_to cls = collect_all_events b"
    using fold_collect_distinct [of "[]"] ok by (simp add: cls collect_listened_events_def)
  have d: "distinct (map fst (registrations str attr now b))" using ok by (simp add: registrations_keys)
  have "map_of (built_handlers str attr now b) et = map_of (registrations str attr now b) et" for et
    using map_of_rev_distinct [OF d] by (simp add: built_handlers_eq fold_on_handler split: option.splits)
  moreover have "et \<in> set (collect_all_events b) \<longleftrightarrow> map_of (registrations str attr now b) et \<noteq> None" for et
    using arg_cong [OF registrations_keys [of str attr now b], of set] by (simp add: map_of_eq_None_iff)
  ultimately show ?thesis using l d by (auto simp: cls map_of_eq_Some_iff)
qed

text \<open>
  a built class handles exactly the events it listens to, and each registration has its handler: \<open>registrations\<close> pairs every
  event type of the configuration with the handler of its mapping.
\<close>

theorem built_class_handles_its_events:
  assumes "build b = Inr cls"
  shows "bc_listens_to cls = collect_all_events b \<and>
    (\<forall>et h. (et, h) \<in> set (registrations str attr now b) \<longleftrightarrow> map_of (bc_handlers cls str attr now) et = Some h) \<and>
    (\<forall>et. et \<in> set (bc_listens_to cls) \<longleftrightarrow> map_of (bc_handlers cls str attr now) et \<noteq> None)"
  by (rule built_class_events [OF assms])

lemma add_tcc_steps_eq:
  assumes "distinct (map ts_name (sg_tcc_steps sg @ sts))"
  shows "add_tcc_steps sts sg = Inr (sg\<lparr>sg_tcc_steps := sg_tcc_steps sg @ sts\<rparr>)"
  using assms by (induction sts arbitrary: sg) (auto simp: add_tcc_step_def)

lemma add_tcc_steps_ok:
  assumes "is_ok (add_tcc_steps sts sg)"
  shows "distinct (map ts_name sts) \<and> set (map ts_name sts) \<inter> set (map ts_name (sg_tcc_steps sg)) = {}"
  using assms
proof (induction sts arbitrary: sg)
  case (Cons st sts)
  then have new: "ts_name st \<notin> set (map ts_name (sg_tcc_steps sg))" and
      rest: "is_ok (add_tcc_steps sts (sg\<lparr>sg_tcc_steps := sg_tcc_steps sg @ [st]\<rparr>))"
    by (auto simp: add_tcc_step_def is_ok_def split: if_splits)
  from Cons.IH [OF rest] new show ?case by auto
qed simp

text \<open>
  The names of steps are checked only when a saga is created: a class with a repeated step name is built, and none of its
  sagas can be.
\<close>

theorem duplicate_step_fails_at_creation:
  assumes "is_ok (build b)" "\<not> distinct (tcc_step_names b)"
  shows "\<not> is_ok (built_init b s reg)"
  using assms(2) add_tcc_steps_ok by (auto simp: built_init_def tcc_step_names_def Let_def)

section \<open>Built sagas under the manager\<close>

text \<open>A built class as the manager sees it; its constructor succeeds when the names of its steps are distinct.\<close>

definition builder_info :: "(exn \<Rightarrow> string) \<Rightarrow> (saga_event \<Rightarrow> string \<Rightarrow> string option) \<Rightarrow> time \<Rightarrow> saga_builder saga_class_info" where
  "builder_info str attr now =
     \<lparr>sc_name = sb_name, sc_listens_to = collect_listened_events,
      sc_setup = (\<lambda>b sg. case built_init b (sg_state sg) (sg_registry sg) of Inr sg' \<Rightarrow> sg' | Inl e \<Rightarrow> sg),
      sc_handlers = built_handlers str attr now, sc_on_timeout = (\<lambda>b. timeout_override b str)\<rparr>"

definition with_retries :: "saga_builder \<Rightarrow> saga_state \<Rightarrow> saga_state" where
  "with_retries b s = (case sb_max_retries b of None \<Rightarrow> s | Some n \<Rightarrow> s\<lparr>ss_max_retries := n\<rparr>)"

lemma build_saga_built:
  assumes "distinct (tcc_step_names b)"
  shows "build_saga (builder_info str attr now) hyd b s = (new_saga (with_retries b s) (Some hyd))\<lparr>sg_tcc_steps := sb_tcc_steps b\<rparr>"
  using assms add_tcc_steps_eq
  by (auto simp: build_saga_def builder_info_def built_init_def new_saga_def with_retries_def upd_state_def tcc_step_names_def Let_def
      split: option.splits)

lemma with_retries_simps [simp]:
  "is_terminal (with_retries b s) = is_terminal s" "is_event_processed (with_retries b s) i = is_event_processed s i"
  "ss_id (with_retries b s) = ss_id s"
  by (auto simp: with_retries_def is_terminal_def is_event_processed_def split: option.splits)

lemma upd_state_commands [simp]: "sg_commands (upd_state f sg) = sg_commands sg"
  by (simp add: upd_state_def)

lemma mapped_handler_send:
  assumes "f ev = Inr cmd"
  shows "\<exists>sg'. mapped_handler now f st None desc compl ev sg = (sg', None) \<and> sg_commands sg' = sg_commands sg @ [cmd] \<and>
    ss_id (sg_state sg') = ss_id (sg_state sg)"
  using assms
  by (auto simp: mapped_handler_def dispatch_def complete_saga_def upd_state_def ss_touch_def Let_def split: option.splits)

lemma saga_handle_commands:
  assumes "map_of hs (ev_type ev) = Some h" "\<not> is_terminal (sg_state sg)" "\<not> is_event_processed (sg_state sg) (ev_id ev)"
    and "\<And>sg. \<exists>sg'. h ev sg = (sg', None) \<and> sg_commands sg' = sg_commands sg @ cs \<and> ss_id (sg_state sg') = ss_id (sg_state sg)"
  shows "\<exists>sg'. saga_handle now hs ev sg = (sg', None) \<and> sg_commands sg' = sg_commands sg @ cs \<and> ss_id (sg_state sg') = ss_id (sg_state sg)"
proof -
  let ?sg = "if ss_status (sg_state sg) = SAGA_PENDING then upd_state (\<lambda>s. s\<lparr>ss_status := SAGA_RUNNING\<rparr>) (sg\<lparr>sg_tcc_cache := None\<rparr>)
    else sg\<lparr>sg_tcc_cache := None\<rparr>"
  obtain sg' where "h ev ?sg = (sg', None)" "sg_commands sg' = sg_commands ?sg @ cs" "ss_id (sg_state sg') = ss_id (sg_state ?sg)"
    using assms(4) [of ?sg] by blast
  then show ?thesis
    using assms(1-3)
    by (auto simp: saga_handle_def handle_event_def Let_def upd_state_def mark_event_processed_def record_step_def ss_touch_def split: if_splits)
qed

text \<open>
  C24: from the declaration to the bus: when a class was built with a mapping from an event type to a command, and its saga, neither
  finished nor past this event, receives such an event through the manager, the bus receives exactly the command that the
  mapping makes of the event.
\<close>

theorem built_saga_sends_its_command:
  assumes "build b = Inr cls" "(ev_type ev, c) \<in> set (sb_on b)" "distinct (tcc_step_names b)"
    and "oc_handler c = None" "oc_send c = Some f" "oc_send_all c = None" "oc_suspend c = None" "oc_fail c = None" "\<not> oc_resume c"
    and "oc_compensate c = None" "f ev = Inr cmd"
    and "find_by_correlation_id r corr (sb_name b) = Some s" "\<not> is_terminal s" "\<not> is_event_processed s (ev_id ev)"
    and "deliver bus cmd = (bus', None)"
  shows "snd (fst (process_saga (builder_info str attr now) hyd deliver tr now fresh b corr (Some ev) (r, bus))) = bus'"
proof -
  have "(ev_type ev, config_handler str now c) \<in> set (registrations str attr now b)"
    using assms(2) by (force simp: registrations_def)
  moreover have "bc_handlers cls str attr now = built_handlers str attr now b"
    using assms(1) by (auto simp: build_def split: option.splits)
  ultimately have h: "map_of (sc_handlers (builder_info str attr now) b) (ev_type ev) = Some (config_handler str now c)"
    using built_class_events [OF assms(1), of str attr now] by (simp add: builder_info_def)
  have mapped: "config_handler str now c ev sg = mapped_handler now f (oc_step c) None (oc_compensate_description c) (oc_complete c) ev sg" for sg
    using assms(4-10) by (simp add: builder_send_eq)
  let ?sg = "build_saga (builder_info str attr now) hyd b s"
  have "\<exists>sg'. saga_handle now (sc_handlers (builder_info str attr now) b) ev ?sg = (sg', None) \<and> sg_commands sg' = sg_commands ?sg @ [cmd] \<and>
      ss_id (sg_state sg') = ss_id (sg_state ?sg)"
    by (rule saga_handle_commands [OF h])
      (use assms(13,14) mapped_handler_send [where f = f and ev = ev, OF assms(11)] in \<open>simp_all add: mapped build_saga_built [OF assms(3)] new_saga_def\<close>)
  then obtain sg' where sg': "saga_handle now (sc_handlers (builder_info str attr now) b) ev ?sg = (sg', None)" "sg_commands sg' = [cmd]"
    by (auto simp: build_saga_built [OF assms(3)] new_saga_def)
  have "process_saga (builder_info str attr now) hyd deliver tr now fresh b corr (Some ev) (r, bus) = persist_and_dispatch deliver tr now sg' (r, bus)"
    by (rule process_saga_handled [OF _ assms(13) sg'(1)]) (simp add: builder_info_def assms(12))
  moreover have "send_all deliver bus (sg_commands sg') = (bus', 1, None)" using assms(15) by (simp add: sg'(2))
  ultimately show ?thesis using persist_and_dispatch_spec [of deliver bus sg' bus' 1 None tr now r] by auto
qed

section \<open>What bootstrapping connects\<close>

lemma fold_register_routes:
  "set (get_sagas_for_event (fold (register_saga info) cs rg) et) =
     set (get_sagas_for_event rg et) \<union> {c \<in> set cs. et \<in> set (sc_listens_to info c)}"
  by (induction cs arbitrary: rg) (auto simp: register_saga_routes)

lemma routed_event_type:
  assumes "c \<in> set (get_sagas_for_event rg et)"
  shows "et \<in> set (saga_event_types rg)"
proof (rule ccontr)
  assume "et \<notin> set (saga_event_types rg)"
  then have "map_of (rg_event_map rg) et = None" by (simp add: saga_event_types_def map_of_eq_None_iff)
  with assms show False by (simp add: get_sagas_for_event_def)
qed

definition handlers_of :: "'i event_dispatcher \<Rightarrow> string \<Rightarrow> 'i list" where
  "handlers_of d et = (case map_of d et of None \<Rightarrow> [] | Some hs \<Rightarrow> hs)"

lemma handlers_of_register: "set (handlers_of (dispatcher_register et h d) et') = set (handlers_of d et') \<union> (if et' = et then {h} else {})"
  by (auto simp: handlers_of_def dispatcher_register_def add_to_group_def Let_def update_conv' split: option.splits if_splits)

lemma handlers_of_bind: "set (handlers_of (bind_to rg h d) et) = set (handlers_of d et) \<union> (if et \<in> set (saga_event_types rg) then {h} else {})"
proof -
  have "set (handlers_of (fold (\<lambda>et. dispatcher_register et h) ets d) et) = set (handlers_of d et) \<union> (if et \<in> set ets then {h} else {})" for ets
    by (induction ets arbitrary: d) (auto simp: handlers_of_register)
  then show ?thesis by (simp add: bind_to_def)
qed

text \<open>
  after the bootstrap every saga class is reached: for each event type a class listens to, the manager is among the handlers
  of the dispatcher, and the registry that the manager asks names the class; the handlers that the dispatcher had stay.
\<close>

theorem bootstrap_connects_sagas:
  assumes "bootstrap_sagas info manager sagas (Some d) rg0 interval = bt" "c \<in> set sagas" "et \<in> set (sc_listens_to info c)"
  shows "\<exists>d'. bt_dispatcher bt = Some d' \<and> manager \<in> set (handlers_of d' et) \<and> set (handlers_of d et') \<subseteq> set (handlers_of d' et') \<and>
    c \<in> set (get_sagas_for_event (bt_registry bt) et)"
proof -
  let ?rg = "fold (register_saga info) sagas (case rg0 of None \<Rightarrow> new_saga_registry | Some rg \<Rightarrow> rg)"
  have c: "c \<in> set (get_sagas_for_event ?rg et)" using assms(2,3) by (auto simp: fold_register_routes)
  then have "et \<in> set (saga_event_types ?rg)"
    by (rule routed_event_type)
  with c show ?thesis using assms(1) by (auto simp: bootstrap_sagas_def Let_def handlers_of_bind)
qed

section \<open>Witnesses\<close>

definition ship :: on_config where
  "ship = no_config\<lparr>oc_send := Some (\<lambda>ev. Inr \<lparr>cmd_type = ''Ship'', cmd_module = ''app'', cmd_data = []\<rparr>), oc_step := Some ''shipping''\<rparr>"

definition order_builder :: saga_builder where
  "order_builder = (new_saga_builder ''OrderSaga'')\<lparr>sb_on := [(''OrderCreated'', ship), (''Shipped'', no_config\<lparr>oc_complete := True\<rparr>)]\<rparr>"

lemma order_builder_built: "is_ok (build order_builder)"
  by (simp add: build_accepts order_builder_def new_saga_builder_def collect_all_events_def wired_def)

theorem builder_send_is_saga_on_witness:
  "config_handler (\<lambda>_. []) 1 ship (order_created ''e'') (new_saga sample_state None) =
     mapped_handler 1 (\<lambda>ev. Inr \<lparr>cmd_type = ''Ship'', cmd_module = ''app'', cmd_data = []\<rparr>) (Some ''shipping'') None [] False
       (order_created ''e'') (new_saga sample_state None)"
  using builder_send_is_saga_on [of ship] by (simp add: ship_def no_config_def)

theorem mapping_decides_status_witness:
  "ss_status (sg_state (fst (config_handler (\<lambda>_. []) 1 (no_config\<lparr>oc_suspend := Some ''review''\<rparr>) (order_created ''e'') (new_saga sample_state None)))) =
     SAGA_SUSPENDED"
proof -
  let ?c = "no_config\<lparr>oc_suspend := Some ''review''\<rparr>" and ?sg = "new_saga sample_state None"
  have "config_handler (\<lambda>_. []) 1 ?c (order_created ''e'') ?sg = (fst (config_handler (\<lambda>_. []) 1 ?c (order_created ''e'') ?sg), None)"
    by (simp add: config_handler_def create_mapped_handler_def build_handler_actions_eq no_config_def opt_list_def suspend_action_def)
  from mapping_decides_status [OF _ _ _ _ this] show ?thesis
    by (simp add: no_config_def validate_on_def truthy_def Let_def)
qed

theorem handler_drops_step_witness:
  "config_handler (\<lambda>_. []) 1 (no_config\<lparr>oc_handler := Some (\<lambda>ev. None), oc_step := Some ''s'', oc_compensate := Some (\<lambda>ev. Inr (sample_command ''C''))\<rparr>)
     (order_created ''e'') (new_saga sample_state None) = (new_saga sample_state None, None)"
  using handler_drops_step [of "no_config\<lparr>oc_handler := Some (\<lambda>ev. None)\<rparr>"] by (simp add: no_config_def validate_on_def Let_def)

theorem built_class_handles_its_events_witness:
  "\<exists>cls. build order_builder = Inr cls \<and> bc_listens_to cls = [''OrderCreated'', ''Shipped'']"
proof -
  obtain cls where "build order_builder = Inr cls" using order_builder_built by (auto simp: is_ok_def split: sum.splits)
  with built_class_handles_its_events [OF this] show ?thesis by (simp add: order_builder_def new_saga_builder_def collect_all_events_def)
qed

definition twice_builder :: saga_builder where
  "twice_builder = (new_saga_builder ''T'')\<lparr>sb_tcc_steps := replicate 2 \<lparr>ts_name = ''a'', ts_try = sample_command ''T'', ts_confirm = sample_command ''C'',
     ts_cancel = sample_command ''X'', ts_reservation_type = RESOURCE, ts_timeout = None\<rparr>, sb_tcc_begin := Some ''B''\<rparr>"

theorem duplicate_step_fails_at_creation_witness: "is_ok (build twice_builder) \<and> \<not> is_ok (built_init twice_builder sample_state None)"
proof -
  have ok: "is_ok (build twice_builder)"
    by (simp add: build_accepts twice_builder_def new_saga_builder_def collect_all_events_def wired_def numeral_2_eq_2)
  moreover have "\<not> distinct (tcc_step_names twice_builder)" by (simp add: twice_builder_def tcc_step_names_def numeral_2_eq_2)
  ultimately show ?thesis using duplicate_step_fails_at_creation by blast
qed

theorem built_saga_sends_its_command_witness:
  "snd (fst (process_saga (builder_info (\<lambda>_. []) (\<lambda>_ _. None) 1) plain_hydrator log_send False 1 ''u'' order_builder ''c'' (Some (order_created ''e''))
     ([(''s'', sample_state\<lparr>ss_pending_commands := []\<rparr>)], []))) = [\<lparr>cmd_type = ''Ship'', cmd_module = ''app'', cmd_data = []\<rparr>]"
proof -
  obtain cls where cls: "build order_builder = Inr cls" using order_builder_built by (auto simp: is_ok_def split: sum.splits)
  show ?thesis
    by (rule built_saga_sends_its_command [OF cls, where c = ship and s = "sample_state\<lparr>ss_pending_commands := []\<rparr>"])
      (simp_all add: order_builder_def new_saga_builder_def ship_def no_config_def order_created_def tcc_step_names_def find_by_correlation_id_def
        sample_state_def is_terminal_def is_event_processed_def log_send_def)
qed

theorem bootstrap_connects_sagas_witness:
  "\<exists>d'. bt_dispatcher (bootstrap_sagas (builder_info (\<lambda>_. []) (\<lambda>_ _. None) 1) ''manager'' [order_builder] (Some [(''Shipped'', [''mailer''])]) None (Some 60)) = Some d' \<and>
     ''manager'' \<in> set (handlers_of d' ''Shipped'') \<and> ''mailer'' \<in> set (handlers_of d' ''Shipped'')"
proof -
  have "''Shipped'' \<in> set (sc_listens_to (builder_info (\<lambda>_. []) (\<lambda>_ _. None) 1) order_builder)"
    by (simp add: builder_info_def order_builder_def new_saga_builder_def collect_listened_events_def collect_all_events_def)
  from bootstrap_connects_sagas [OF refl _ this, of "[order_builder]" "''manager''" "[(''Shipped'', [''mailer''])]" None "Some 60" "''Shipped''"]
  show ?thesis by (auto simp: handlers_of_def split: if_splits)
qed

end
