(* ===== verification/RedisLocks.thy ===== *)
theory RedisLocks
  imports Locking PyValue
begin

text \<open>
  Distributed locks over Redis (infrastructure/redis): \<^verbatim>\<open>FifoRedisLockStrategy\<close> (fifo_redis_locking.py) with its Lua
  scripts, and \<^verbatim>\<open>RedlockLockStrategy\<close> (redlock_locking.py).

  The commands of the server that the scripts call are the fields of a record, a parameter of the model; \<open>redis_laws\<close> states
  their documented behaviour over the stored values with their expiry times and the sorted sets.  A script runs without
  interruption.  Times are in milliseconds, and a lifetime is a whole number of them.  \<open>up\<close> tells whether the client
  gets an answer to its call, \<open>sent\<close> is the time a script runs on the server, and \<open>now\<close> the time the client reads the answer.
  Both are on one clock: a client compares only its own readings with each other, so a constant difference between the clocks
  does not matter.  Resource types are other than \<^verbatim>\<open>queue\<close>, so that keys of locks and of queues differ.
\<close>

section \<open>The server\<close>

record 'r redis =
  rd_get :: "time \<Rightarrow> string \<Rightarrow> 'r \<Rightarrow> string option"
  rd_set_nx_px :: "time \<Rightarrow> string \<Rightarrow> string \<Rightarrow> int \<Rightarrow> 'r \<Rightarrow> 'r \<times> bool"
  rd_del :: "string \<Rightarrow> 'r \<Rightarrow> 'r"
  rd_pexpire :: "time \<Rightarrow> string \<Rightarrow> int \<Rightarrow> 'r \<Rightarrow> 'r \<times> bool"
  rd_zadd_nx :: "string \<Rightarrow> time \<Rightarrow> string \<Rightarrow> 'r \<Rightarrow> 'r"
  rd_zrank :: "string \<Rightarrow> string \<Rightarrow> 'r \<Rightarrow> nat option"
  rd_zrem :: "string \<Rightarrow> string \<Rightarrow> 'r \<Rightarrow> 'r"

type_synonym 'r entries = "'r \<Rightarrow> string \<Rightarrow> (string \<times> time) option"
type_synonym 'r queues = "'r \<Rightarrow> string \<Rightarrow> (time \<times> string) list"

text \<open>A value is there before its expiry time; members of a sorted set are ordered by score, then by name.\<close>

definition live_value :: "time \<Rightarrow> (string \<times> time) option \<Rightarrow> string option" where
  "live_value now x = (case x of None \<Rightarrow> None | Some (v, e) \<Rightarrow> if now < e then Some v else None)"

fun rank_of :: "string \<Rightarrow> (time \<times> string) list \<Rightarrow> nat option" where
  "rank_of m [] = None"
| "rank_of m ((s, n) # q) = (if n = m then Some 0 else map_option Suc (rank_of m q))"

definition redis_laws :: "'r redis \<Rightarrow> 'r entries \<Rightarrow> 'r queues \<Rightarrow> bool" where
  "redis_laws rd entry queue \<longleftrightarrow>
     (\<forall>now k r. rd_get rd now k r = live_value now (entry r k)) \<and>
     (\<forall>now k v ttl r. snd (rd_set_nx_px rd now k v ttl r) \<longleftrightarrow> live_value now (entry r k) = None) \<and>
     (\<forall>now k v ttl r. entry (fst (rd_set_nx_px rd now k v ttl r)) =
        (if live_value now (entry r k) = None then (entry r)(k := Some (v, now + ttl)) else entry r)) \<and>
     (\<forall>now k v ttl r. queue (fst (rd_set_nx_px rd now k v ttl r)) = queue r) \<and>
     (\<forall>k r. entry (rd_del rd k r) = (entry r)(k := None) \<and> queue (rd_del rd k r) = queue r) \<and>
     (\<forall>now k ttl r. snd (rd_pexpire rd now k ttl r) \<longleftrightarrow> live_value now (entry r k) \<noteq> None) \<and>
     (\<forall>now k ttl r. entry (fst (rd_pexpire rd now k ttl r)) =
        (case live_value now (entry r k) of None \<Rightarrow> entry r | Some v \<Rightarrow> (entry r)(k := Some (v, now + ttl)))) \<and>
     (\<forall>now k ttl r. queue (fst (rd_pexpire rd now k ttl r)) = queue r) \<and>
     (\<forall>k s m r. queue (rd_zadd_nx rd k s m r) =
        (if m \<in> snd ` set (queue r k) then queue r else (queue r)(k := insort (s, m) (queue r k))) \<and>
        entry (rd_zadd_nx rd k s m r) = entry r) \<and>
     (\<forall>k m r. rd_zrank rd k m r = rank_of m (queue r k)) \<and>
     (\<forall>k m r. queue (rd_zrem rd k m r) = (queue r)(k := filter (\<lambda>x. snd x \<noteq> m) (queue r k)) \<and> entry (rd_zrem rd k m r) = entry r)"

section \<open>FifoRedisLockStrategy\<close>

record lock_meta =
  me_acquired_at :: time
  me_ttl :: int
  me_session :: "string option"
  me_token :: string
  me_ref_count :: int

type_synonym fifo_client = "(string, lock_meta) dict"

definition mode_text :: "lock_mode \<Rightarrow> string" where
  "mode_text m = (case m of ReadMode \<Rightarrow> ''read'' | WriteMode \<Rightarrow> ''write'')"

definition fifo_lock_key :: "string \<Rightarrow> resource \<Rightarrow> string" where
  "fifo_lock_key pre r = pre @ '':'' @ res_type r @ '':'' @ res_id r @ '':'' @ mode_text (res_mode r)"

definition fifo_queue_key :: "string \<Rightarrow> resource \<Rightarrow> string" where
  "fifo_queue_key pre r = pre @ '':queue:'' @ res_type r @ '':'' @ res_id r @ '':'' @ mode_text (res_mode r)"

definition meta_live :: "time \<Rightarrow> lock_meta \<Rightarrow> bool" where
  "meta_live now m \<longleftrightarrow> now < me_acquired_at m + me_ttl m"

definition prune_expired_metadata :: "time \<Rightarrow> fifo_client \<Rightarrow> fifo_client" where
  "prune_expired_metadata now c = filter (\<lambda>(k, m). \<not> me_acquired_at m + me_ttl m < now) c"

text \<open>The three Lua scripts.\<close>

definition fair_acquire_script :: "'r redis \<Rightarrow> time \<Rightarrow> string \<Rightarrow> string \<Rightarrow> string \<Rightarrow> int \<Rightarrow> 'r \<Rightarrow> 'r \<times> bool" where
  "fair_acquire_script rd now queue_key lock_key token ttl r =
     (let r = rd_zadd_nx rd queue_key now token r
      in if rd_zrank rd queue_key token r = Some 0
         then (case rd_set_nx_px rd now lock_key token ttl r of
                 (r, acquired) \<Rightarrow> if acquired then (rd_zrem rd queue_key token r, True) else (r, False))
         else (r, False))"

definition release_script :: "'r redis \<Rightarrow> time \<Rightarrow> string \<Rightarrow> string \<Rightarrow> string \<Rightarrow> 'r \<Rightarrow> 'r" where
  "release_script rd now lock_key queue_key token r =
     rd_zrem rd queue_key token (if rd_get rd now lock_key r = Some token then rd_del rd lock_key r else r)"

definition extend_script :: "'r redis \<Rightarrow> time \<Rightarrow> string \<Rightarrow> string \<Rightarrow> int \<Rightarrow> 'r \<Rightarrow> 'r \<times> bool" where
  "extend_script rd now lock_key token ttl r =
     (if rd_get rd now lock_key r = Some token then rd_pexpire rd now lock_key ttl r else (r, False))"

definition fifo_extend :: "'r redis \<Rightarrow> bool \<Rightarrow> time \<Rightarrow> time \<Rightarrow> string \<Rightarrow> string \<Rightarrow> int \<Rightarrow> fifo_client \<times> 'r \<Rightarrow> (fifo_client \<times> 'r) \<times> bool" where
  "fifo_extend rd up sent now lock_key token ttl st =
     (case st of (c, r) \<Rightarrow>
        if \<not> up then ((c, r), False)
        else case extend_script rd sent lock_key token ttl r of
               (r, True) \<Rightarrow>
                 ((case map_of c lock_key of
                     None \<Rightarrow> c
                   | Some m \<Rightarrow> AList.update lock_key (m\<lparr>me_acquired_at := now, me_ttl := ttl\<rparr>) c, r), True)
             | (r, False) \<Rightarrow> ((c, r), False))"

definition try_reentrant_acquire ::
  "'r redis \<Rightarrow> bool \<Rightarrow> time \<Rightarrow> time \<Rightarrow> time \<Rightarrow> string \<Rightarrow> string option \<Rightarrow> int \<Rightarrow> fifo_client \<times> 'r \<Rightarrow> (fifo_client \<times> 'r) \<times> string option" where
  "try_reentrant_acquire rd up start sent now lock_key session ttl st =
     (case st of (c, r) \<Rightarrow>
        (case map_of c lock_key of
           None \<Rightarrow> (st, None)
         | Some m \<Rightarrow>
             if \<not> truthy session \<or> me_session m \<noteq> session \<or> \<not> meta_live start m then (st, None)
             else (case fifo_extend rd up sent now lock_key (me_token m) ttl (c, r) of
                     ((c, r), True) \<Rightarrow>
                       ((AList.update lock_key ((the (map_of c lock_key))\<lparr>me_ref_count := me_ref_count m + 1\<rparr>) c, r), Some (me_token m))
                   | (st, False) \<Rightarrow> (st, None))))"

text \<open>The first part of \<^verbatim>\<open>_acquire_internal\<close>, begun at \<open>start\<close>.  No result means that the caller polls.\<close>

definition fifo_begin ::
  "'r redis \<Rightarrow> bool \<Rightarrow> time \<Rightarrow> time \<Rightarrow> time \<Rightarrow> string \<Rightarrow> string option \<Rightarrow> int \<Rightarrow> fifo_client \<times> 'r \<Rightarrow> (fifo_client \<times> 'r) \<times> string option" where
  "fifo_begin rd up start sent now lock_key session ttl st =
     try_reentrant_acquire rd up start sent now lock_key session ttl (prune_expired_metadata start (fst st), snd st)"

text \<open>One round of the polling loop.\<close>

definition fifo_poll ::
  "'r redis \<Rightarrow> bool \<Rightarrow> time \<Rightarrow> time \<Rightarrow> string \<Rightarrow> string \<Rightarrow> string \<Rightarrow> string option \<Rightarrow> int \<Rightarrow> fifo_client \<times> 'r \<Rightarrow>
     (fifo_client \<times> 'r) \<times> (exn + string option)" where
  "fifo_poll rd up sent now lock_key queue_key token session ttl st =
     (case st of (c, r) \<Rightarrow>
        if \<not> up then (st, Inl (Other ''RedisLockError''))
        else case fair_acquire_script rd sent queue_key lock_key token ttl r of
               (r, True) \<Rightarrow>
                 ((AList.update lock_key \<lparr>me_acquired_at = now, me_ttl = ttl, me_session = session, me_token = token, me_ref_count = 1\<rparr> c, r),
                  Inr (Some token))
             | (r, False) \<Rightarrow> ((c, r), Inr None))"

definition fifo_give_up :: "'r redis \<Rightarrow> resource \<Rightarrow> string \<Rightarrow> string \<Rightarrow> fifo_client \<times> 'r \<Rightarrow> (fifo_client \<times> 'r) \<times> exn" where
  "fifo_give_up rd resource queue_key token st =
     ((fst st, rd_zrem rd queue_key token (snd st)), LockAcquisitionError (resource_str resource) ''Fair lock acquisition timed out'')"

text \<open>
  A whole \<^verbatim>\<open>acquire\<close>: the loop polls at the given times, and \<open>env\<close> is what other clients do to the server before
  a poll.  \<^const>\<open>None\<close> means that it still waits after the last of them.
\<close>

fun fair_acquire_loop ::
  "'r redis \<Rightarrow> resource \<Rightarrow> string \<Rightarrow> string \<Rightarrow> string \<Rightarrow> string option \<Rightarrow> int \<Rightarrow> int \<Rightarrow> time \<Rightarrow> (bool \<times> time \<times> time \<times> ('r \<Rightarrow> 'r)) list \<Rightarrow>
     fifo_client \<times> 'r \<Rightarrow> (fifo_client \<times> 'r) \<times> (exn + string) option" where
  "fair_acquire_loop rd resource lock_key queue_key token session ttl timeout start [] st = (st, None)"
| "fair_acquire_loop rd resource lock_key queue_key token session ttl timeout start ((up, sent, now, env) # polls) (c, r) =
     (if timeout \<le> sent - start
      then (case fifo_give_up rd resource queue_key token (c, env r) of (st, e) \<Rightarrow> (st, Some (Inl e)))
      else case fifo_poll rd up sent now lock_key queue_key token session ttl (c, env r) of
             (st, Inl e) \<Rightarrow> (st, Some (Inl e))
           | (st, Inr (Some t)) \<Rightarrow> (st, Some (Inr t))
           | (st, Inr None) \<Rightarrow> fair_acquire_loop rd resource lock_key queue_key token session ttl timeout start polls st)"

definition fifo_acquire_lock ::
  "'r redis \<Rightarrow> string \<Rightarrow> resource \<Rightarrow> string \<Rightarrow> string option \<Rightarrow> int \<Rightarrow> int \<Rightarrow> time \<Rightarrow> bool \<Rightarrow> (bool \<times> time \<times> time \<times> ('r \<Rightarrow> 'r)) list \<Rightarrow>
     fifo_client \<times> 'r \<Rightarrow> (fifo_client \<times> 'r) \<times> (exn + string) option" where
  "fifo_acquire_lock rd pre resource token session ttl timeout start up polls st =
     (case fifo_begin rd up start start start (fifo_lock_key pre resource) session ttl st of
        (st, Some t) \<Rightarrow> (st, Some (Inr t))
      | (st, None) \<Rightarrow>
          fair_acquire_loop rd resource (fifo_lock_key pre resource) (fifo_queue_key pre resource) token session ttl timeout start polls st)"

definition fifo_release_lock :: "'r redis \<Rightarrow> bool \<Rightarrow> time \<Rightarrow> string \<Rightarrow> string \<Rightarrow> string \<Rightarrow> fifo_client \<times> 'r \<Rightarrow> fifo_client \<times> 'r" where
  "fifo_release_lock rd up now lock_key queue_key token st =
     (case st of (c, r) \<Rightarrow>
        let own = (case map_of c lock_key of None \<Rightarrow> False | Some m \<Rightarrow> me_token m = token);
            m = the (map_of c lock_key);
            c = (if own then AList.update lock_key (m\<lparr>me_ref_count := me_ref_count m - 1\<rparr>) c else c)
        in if own \<and> 0 < me_ref_count m - 1 then (c, r)
           else if up then (AList.delete lock_key c, release_script rd now lock_key queue_key token r)
           else (c, r))"

record active_lock =
  al_resource_type :: string
  al_resource_id :: string
  al_token :: string
  al_acquired_at :: time
  al_ttl :: int
  al_session :: "string option"

text \<open>The last four parts of a key are taken as prefix, type, id and mode.\<close>

definition fifo_active_locks :: "time \<Rightarrow> fifo_client \<Rightarrow> fifo_client \<times> active_lock list" where
  "fifo_active_locks now c =
     (let c = prune_expired_metadata now c
      in (c, concat (map (\<lambda>(k, m). let parts = split_on (CHR '':'') k; n = length parts
               in if 4 \<le> n
                  then [\<lparr>al_resource_type = parts ! (n - 3), al_resource_id = parts ! (n - 2), al_token = me_token m,
                         al_acquired_at = me_acquired_at m, al_ttl = me_ttl m, al_session = me_session m\<rparr>]
                  else []) c)))"

section \<open>RedlockLockStrategy\<close>

text \<open>
  The library behind \<^verbatim>\<open>AsyncRedlock\<close> is a parameter: acquiring a key may time out, give no lock, give a lock with its id
  and validity, or raise; unlocking may raise.  The state is the list of servers.
\<close>

datatype redlock_reply = TimedOut | NoLock | LockReply string bool | RedlockRaised exn

record 'r redlock =
  rl_acquire :: "time \<Rightarrow> string \<Rightarrow> int \<Rightarrow> int \<Rightarrow> 'r list \<Rightarrow> 'r list \<times> redlock_reply"
  rl_unlock :: "time \<Rightarrow> string \<Rightarrow> string \<Rightarrow> 'r list \<Rightarrow> 'r list \<times> exn option"

definition redlock_key :: "resource \<Rightarrow> string" where
  "redlock_key r = ''lock:'' @ res_type r @ '':'' @ res_id r @ '':'' @ mode_text (res_mode r)"

text \<open>\<^verbatim>\<open>token.rsplit(":", 1)\<close>.\<close>

definition rsplit_colon :: "string \<Rightarrow> (string \<times> string) option" where
  "rsplit_colon s =
     (if CHR '':'' \<in> set s
      then Some (rev (tl (dropWhile (\<lambda>x. x \<noteq> CHR '':'') (rev s))), rev (takeWhile (\<lambda>x. x \<noteq> CHR '':'') (rev s)))
      else None)"

definition extend_nodes :: "'r redis \<Rightarrow> time \<Rightarrow> string \<Rightarrow> string \<Rightarrow> int \<Rightarrow> bool list \<Rightarrow> 'r list \<Rightarrow> ('r \<times> bool) list" where
  "extend_nodes rd now key redlock_id ttl ups nodes =
     map (\<lambda>(up, r). if up then extend_script rd now key redlock_id ttl r else (r, False)) (zip ups nodes)"

definition redlock_extend ::
  "'r redis \<Rightarrow> nat \<Rightarrow> bool list \<Rightarrow> time \<Rightarrow> string \<Rightarrow> int \<Rightarrow> fifo_client \<times> 'r list \<Rightarrow> (fifo_client \<times> 'r list) \<times> bool" where
  "redlock_extend rd urls ups now token ttl st =
     (case st of (c, nodes) \<Rightarrow>
        (case rsplit_colon token of
           None \<Rightarrow> (st, False)
         | Some (key, redlock_id) \<Rightarrow>
             let replies = extend_nodes rd now key redlock_id ttl ups nodes;
                 nodes = map fst replies
             in if urls div 2 < length (filter snd replies)
                then ((case map_of c key of
                         None \<Rightarrow> c | Some m \<Rightarrow> AList.update key (m\<lparr>me_acquired_at := now, me_ttl := ttl\<rparr>) c, nodes), True)
                else ((c, nodes), False)))"

definition handle_reentrant_lock ::
  "'r redis \<Rightarrow> nat \<Rightarrow> bool list \<Rightarrow> time \<Rightarrow> string \<Rightarrow> string \<Rightarrow> int \<Rightarrow> fifo_client \<times> 'r list \<Rightarrow> (fifo_client \<times> 'r list) \<times> string option" where
  "handle_reentrant_lock rd urls ups now key session ttl st =
     (case map_of (fst st) key of
        None \<Rightarrow> (st, None)
      | Some m \<Rightarrow>
          if me_session m \<noteq> Some session \<or> \<not> meta_live now m then (st, None)
          else (case redlock_extend rd urls ups now (key @ '':'' @ me_token m) ttl st of
                  ((c, nodes), True) \<Rightarrow>
                    ((AList.update key ((the (map_of c key))\<lparr>me_ref_count := me_ref_count m + 1\<rparr>) c, nodes), Some (key @ '':'' @ me_token m))
                | ((c, nodes), False) \<Rightarrow> ((AList.delete key c, nodes), None)))"

definition acquire_new_lock ::
  "'r redlock \<Rightarrow> time \<Rightarrow> string \<Rightarrow> resource \<Rightarrow> int \<Rightarrow> int \<Rightarrow> 'r list \<Rightarrow> 'r list \<times> (exn + string)" where
  "acquire_new_lock rl now key resource timeout ttl nodes =
     (case rl_acquire rl now key ttl timeout nodes of
        (nodes, TimedOut) \<Rightarrow> (nodes, Inl (LockAcquisitionError (resource_str resource) ''Acquisition timed out''))
      | (nodes, RedlockRaised e) \<Rightarrow> (nodes, Inl e)
      | (nodes, NoLock) \<Rightarrow> (nodes, Inl (LockAcquisitionError (resource_str resource) ''Quorum not reached or lock busy''))
      | (nodes, LockReply i valid) \<Rightarrow>
          (nodes, if valid then Inr i else Inl (LockAcquisitionError (resource_str resource) ''Quorum not reached or lock busy'')))"

definition redlock_acquire ::
  "'r redis \<Rightarrow> 'r redlock \<Rightarrow> nat \<Rightarrow> bool list \<Rightarrow> time \<Rightarrow> resource \<Rightarrow> int \<Rightarrow> int \<Rightarrow> string option \<Rightarrow> fifo_client \<times> 'r list \<Rightarrow>
     (fifo_client \<times> 'r list) \<times> (exn + string)" where
  "redlock_acquire rd rl urls ups now resource timeout ttl session st =
     (let key = redlock_key resource;
          st = (prune_expired_metadata now (fst st), snd st)
      in case (if truthy session then handle_reentrant_lock rd urls ups now key (the session) ttl st else (st, None)) of
           (st, Some token) \<Rightarrow> (st, Inr token)
         | ((c, nodes), None) \<Rightarrow>
             (case acquire_new_lock rl now key resource timeout ttl nodes of
                (nodes, Inl e) \<Rightarrow> ((c, nodes), Inl (if is_concurrency_error e then e else Other ''RedisLockError''))
              | (nodes, Inr i) \<Rightarrow>
                  ((AList.update key \<lparr>me_acquired_at = now, me_ttl = ttl, me_session = session, me_token = i, me_ref_count = 1\<rparr> c, nodes),
                   Inr (key @ '':'' @ i))))"

definition redlock_release :: "'r redlock \<Rightarrow> time \<Rightarrow> string \<Rightarrow> fifo_client \<times> 'r list \<Rightarrow> fifo_client \<times> 'r list" where
  "redlock_release rl now token st =
     (case st of (c, nodes) \<Rightarrow>
        (case rsplit_colon token of
           None \<Rightarrow> st
         | Some (key, redlock_id) \<Rightarrow>
             let held = map_of c key;
                 c = (case held of None \<Rightarrow> c | Some m \<Rightarrow> AList.update key (m\<lparr>me_ref_count := me_ref_count m - 1\<rparr>) c)
             in if (case held of None \<Rightarrow> False | Some m \<Rightarrow> 0 < me_ref_count m - 1) then (c, nodes)
                else (AList.delete key c, fst (rl_unlock rl now key redlock_id nodes))))"

definition redlock_health_check :: "nat \<Rightarrow> bool list \<Rightarrow> bool" where
  "redlock_health_check urls pings \<longleftrightarrow> urls div 2 < length (filter id pings)"

definition redlock_active_locks :: "time \<Rightarrow> fifo_client \<Rightarrow> fifo_client \<times> active_lock list" where
  "redlock_active_locks now c =
     (let c = prune_expired_metadata now c
      in (c, concat (map (\<lambda>(k, m). let parts = split_on (CHR '':'') k
               in if 4 \<le> length parts
                  then [\<lparr>al_resource_type = parts ! 1, al_resource_id = parts ! 2, al_token = k @ '':'' @ me_token m,
                         al_acquired_at = me_acquired_at m, al_ttl = me_ttl m, al_session = me_session m\<rparr>]
                  else []) c)))"

section \<open>Laws of the server, one by one\<close>

lemma redis_law:
  assumes "redis_laws rd entry queue"
  shows "rd_get rd now k r = live_value now (entry r k)"
    "snd (rd_set_nx_px rd now k v ttl r) \<longleftrightarrow> live_value now (entry r k) = None"
    "entry (fst (rd_set_nx_px rd now k v ttl r)) =
       (if live_value now (entry r k) = None then (entry r)(k := Some (v, now + ttl)) else entry r)"
    "queue (fst (rd_set_nx_px rd now k v ttl r)) = queue r"
    "entry (rd_del rd k r) = (entry r)(k := None)" "queue (rd_del rd k r) = queue r"
    "snd (rd_pexpire rd now k ttl r) \<longleftrightarrow> live_value now (entry r k) \<noteq> None"
    "entry (fst (rd_pexpire rd now k ttl r)) =
       (case live_value now (entry r k) of None \<Rightarrow> entry r | Some v \<Rightarrow> (entry r)(k := Some (v, now + ttl)))"
    "queue (fst (rd_pexpire rd now k ttl r)) = queue r"
    "queue (rd_zadd_nx rd k s m r) = (if m \<in> snd ` set (queue r k) then queue r else (queue r)(k := insort (s, m) (queue r k)))"
    "entry (rd_zadd_nx rd k s m r) = entry r" "rd_zrank rd k m r = rank_of m (queue r k)"
    "queue (rd_zrem rd k m r) = (queue r)(k := filter (\<lambda>x. snd x \<noteq> m) (queue r k))" "entry (rd_zrem rd k m r) = entry r"
  using assms by (simp_all add: redis_laws_def)

lemma rank_of_head: "rank_of m q = Some 0 \<longleftrightarrow> q \<noteq> [] \<and> snd (hd q) = m"
  by (cases q) (auto split: prod.splits if_splits)

text \<open>What the scripts do to the values.\<close>

lemma fair_acquire_script_effect:
  assumes "redis_laws rd entry queue" "fair_acquire_script rd now qk lk token ttl r = (r', b)"
  shows "if b then live_value now (entry r lk) = None \<and> entry r' = (entry r)(lk := Some (token, now + ttl)) else entry r' = entry r"
proof -
  note law = redis_law [OF assms(1)]
  define r1 where "r1 = rd_zadd_nx rd qk now token r"
  have e1: "entry r1 = entry r" by (simp add: r1_def law)
  obtain r2 a where s: "rd_set_nx_px rd now lk token ttl r1 = (r2, a)" by force
  with law(2,3) [of now lk token ttl r1] have "a \<longleftrightarrow> live_value now (entry r lk) = None"
    "entry r2 = (if a then (entry r)(lk := Some (token, now + ttl)) else entry r)" by (auto simp: e1)
  then show ?thesis
    using assms(2) e1 by (auto simp: fair_acquire_script_def r1_def [symmetric] s law(14) Let_def split: if_splits)
qed

lemma extend_script_effect:
  assumes "redis_laws rd entry queue" "extend_script rd now lk token ttl r = (r', b)"
  shows "(b \<longleftrightarrow> live_value now (entry r lk) = Some token) \<and>
    entry r' = (if b then (entry r)(lk := Some (token, now + ttl)) else entry r)"
  using assms(2) redis_law(7,8) [OF assms(1), of now lk ttl r] redis_law(1) [OF assms(1)]
  by (auto simp: extend_script_def split: if_splits)

lemma release_script_effect:
  assumes "redis_laws rd entry queue"
  shows "entry (release_script rd now lk qk token r) =
    (if live_value now (entry r lk) = Some token then (entry r)(lk := None) else entry r)"
  by (simp add: release_script_def redis_law [OF assms])

section \<open>Clients and servers as a state machine\<close>

text \<open>
  Any number of clients share a server.  A client is a strategy object used by one task: it awaits the answer of a call before
  it makes the next one.  Each token belongs to the client that drew it, \<open>owner\<close>, and a client only uses tokens of its own.
\<close>

datatype fifo_call =
    BeginCall time string "string option" int
  | PollCall string string string "string option" int
  | GiveUpCall resource string string
  | ReleaseCall string string string
  | ExtendCall string string int

text \<open>The call as a whole: its script runs at \<open>sent\<close>, and the client reads the answer at \<open>now\<close>, or gets an exception.\<close>

fun run_call :: "'r redis \<Rightarrow> bool \<Rightarrow> time \<Rightarrow> time \<Rightarrow> fifo_call \<Rightarrow> fifo_client \<times> 'r \<Rightarrow> fifo_client \<times> 'r" where
  "run_call rd up sent now (BeginCall start lk session ttl) st = fst (fifo_begin rd up start sent now lk session ttl st)"
| "run_call rd up sent now (PollCall lk qk token session ttl) st = fst (fifo_poll rd up sent now lk qk token session ttl st)"
| "run_call rd up sent now (GiveUpCall resource qk token) st = fst (fifo_give_up rd resource qk token st)"
| "run_call rd up sent now (ReleaseCall lk qk token) st = fifo_release_lock rd up sent lk qk token st"
| "run_call rd up sent now (ExtendCall lk token ttl) st = fst (fifo_extend rd up sent now lk token ttl st)"

fun call_key :: "fifo_call \<Rightarrow> string option" where
  "call_key (BeginCall start lk session ttl) = Some lk"
| "call_key (PollCall lk qk token session ttl) = Some lk"
| "call_key (GiveUpCall resource qk token) = None"
| "call_key (ReleaseCall lk qk token) = Some lk"
| "call_key (ExtendCall lk token ttl) = Some lk"

fun own_call :: "(string \<Rightarrow> nat) \<Rightarrow> nat \<Rightarrow> fifo_call \<Rightarrow> bool" where
  "own_call owner p (BeginCall start lk session ttl) \<longleftrightarrow> True"
| "own_call owner p (PollCall lk qk token session ttl) \<longleftrightarrow> owner token = p"
| "own_call owner p (GiveUpCall resource qk token) \<longleftrightarrow> owner token = p"
| "own_call owner p (ReleaseCall lk qk token) \<longleftrightarrow> owner token = p"
| "own_call owner p (ExtendCall lk token ttl) \<longleftrightarrow> owner token = p"

text \<open>The lock of the client's session that an acquisition extends.\<close>

definition reentered :: "time \<Rightarrow> fifo_client \<Rightarrow> string \<Rightarrow> string option \<Rightarrow> lock_meta option" where
  "reentered start c lk session =
     (case map_of (prune_expired_metadata start c) lk of
        None \<Rightarrow> None
      | Some m \<Rightarrow> if truthy session \<and> me_session m = session \<and> meta_live start m then Some m else None)"

text \<open>The lock, token and lifetime that the script of a call sets when it runs on the server's state \<open>r\<close>.\<close>

fun call_grants :: "'r redis \<Rightarrow> time \<Rightarrow> 'r \<Rightarrow> fifo_client \<Rightarrow> fifo_call \<Rightarrow> (string \<times> string \<times> int) option" where
  "call_grants rd sent r c (BeginCall start lk session ttl) =
     (case reentered start c lk session of
        None \<Rightarrow> None
      | Some m \<Rightarrow> if snd (extend_script rd sent lk (me_token m) ttl r) then Some (lk, me_token m, ttl) else None)"
| "call_grants rd sent r c (PollCall lk qk token session ttl) =
     (if snd (fair_acquire_script rd sent qk lk token ttl r) then Some (lk, token, ttl) else None)"
| "call_grants rd sent r c (ExtendCall lk token ttl) =
     (if snd (extend_script rd sent lk token ttl r) then Some (lk, token, ttl) else None)"
| "call_grants rd sent r c _ = None"

text \<open>
  A call is neutral when it does not give up or renew a lock of the client: a poll, a nested release, an acquisition that is
  not reentrant.
\<close>

fun neutral :: "fifo_client \<Rightarrow> fifo_call \<Rightarrow> bool" where
  "neutral c (BeginCall start lk session ttl) \<longleftrightarrow> reentered start c lk session = None"
| "neutral c (ReleaseCall lk qk token) \<longleftrightarrow>
     (case map_of c lk of None \<Rightarrow> False | Some m \<Rightarrow> me_token m = token \<and> 1 < me_ref_count m)"
| "neutral c (ExtendCall lk token ttl) \<longleftrightarrow> False"
| "neutral c _ \<longleftrightarrow> True"

text \<open>
  Whether the client has been told that the lock it remembers under the key of the call is its own, after the call: it has when
  the call was answered with a grant of that lock, and it still has after a neutral call; not after a release, and not
  when an extension was refused or its answer lost.
\<close>

definition told_after :: "'r redis \<Rightarrow> bool \<Rightarrow> time \<Rightarrow> 'r \<Rightarrow> fifo_client \<Rightarrow> fifo_call \<Rightarrow> bool \<Rightarrow> bool" where
  "told_after rd answered sent r c call told \<longleftrightarrow>
     neutral c call \<and> told \<or>
     answered \<and> (case call_grants rd sent r c call of
        None \<Rightarrow> False
      | Some (lk, token, ttl) \<Rightarrow>
          (case call of ExtendCall _ _ _ \<Rightarrow> (case map_of c lk of None \<Rightarrow> False | Some m \<Rightarrow> me_token m = token) | _ \<Rightarrow> True))"

text \<open>A call whose answer is awaited: when its script ran and on which state of the server, if the request arrived at all.\<close>

record 'r pending_call =
  pn_call :: fifo_call
  pn_sent :: time
  pn_redis :: 'r
  pn_reached :: bool

record 'r fifo_world =
  fw_now :: time
  fw_redis :: 'r
  fw_clients :: "nat \<Rightarrow> fifo_client"
  fw_pending :: "nat \<Rightarrow> 'r pending_call option"
  fw_told :: "nat \<Rightarrow> string \<Rightarrow> bool"

definition issued :: "'r redis \<Rightarrow> nat \<Rightarrow> fifo_call \<Rightarrow> bool \<Rightarrow> 'r fifo_world \<Rightarrow> 'r fifo_world" where
  "issued rd p call reached w =
     w\<lparr>fw_redis := (if reached then snd (run_call rd True (fw_now w) (fw_now w) call (fw_clients w p, fw_redis w)) else fw_redis w),
       fw_pending := (fw_pending w)(p := Some \<lparr>pn_call = call, pn_sent = fw_now w, pn_redis = fw_redis w, pn_reached = reached\<rparr>)\<rparr>"

definition delivered :: "'r redis \<Rightarrow> nat \<Rightarrow> 'r pending_call \<Rightarrow> bool \<Rightarrow> 'r fifo_world \<Rightarrow> 'r fifo_world" where
  "delivered rd p d answered w =
     w\<lparr>fw_clients := (fw_clients w)(p := fst (run_call rd answered (pn_sent d) (fw_now w) (pn_call d) (fw_clients w p, pn_redis d))),
       fw_pending := (fw_pending w)(p := None),
       fw_told := (case call_key (pn_call d) of
         None \<Rightarrow> fw_told w
       | Some k \<Rightarrow> (fw_told w)(p := (fw_told w p)
           (k := told_after rd answered (pn_sent d) (pn_redis d) (fw_clients w p) (pn_call d) (fw_told w p k))))\<rparr>"

text \<open>
  Time passes; a request runs on the server, or is lost on the way; an answer is read at most \<open>delay\<close> after the script ran, or
  is lost too, whatever the script did.
\<close>

inductive fifo_step :: "'r redis \<Rightarrow> (string \<Rightarrow> nat) \<Rightarrow> int \<Rightarrow> 'r fifo_world \<Rightarrow> 'r fifo_world \<Rightarrow> bool" for rd owner delay where
  Pass: "0 \<le> t \<Longrightarrow> fifo_step rd owner delay w (w\<lparr>fw_now := fw_now w + t\<rparr>)"
| Issue: "fw_pending w p = None \<Longrightarrow> own_call owner p call \<Longrightarrow> fifo_step rd owner delay w (issued rd p call reached w)"
| Deliver: "fw_pending w p = Some d \<Longrightarrow> (answered \<Longrightarrow> pn_reached d \<and> fw_now w \<le> pn_sent d + delay) \<Longrightarrow>
    fifo_step rd owner delay w (delivered rd p d answered w)"

abbreviation fifo_reach :: "'r redis \<Rightarrow> (string \<Rightarrow> nat) \<Rightarrow> int \<Rightarrow> 'r fifo_world \<Rightarrow> 'r fifo_world \<Rightarrow> bool" where
  "fifo_reach rd owner delay \<equiv> (fifo_step rd owner delay)\<^sup>*\<^sup>*"

text \<open>
  A client counts on a lock that it remembers when it has been told that the lock is its own, awaits no answer about it, and the
  recorded lifetime has more than the delay left.
\<close>

definition counts_on :: "int \<Rightarrow> 'r fifo_world \<Rightarrow> nat \<Rightarrow> string \<Rightarrow> lock_meta \<Rightarrow> bool" where
  "counts_on delay w p k m \<longleftrightarrow>
     map_of (fw_clients w p) k = Some m \<and> fw_told w p k \<and>
     (case fw_pending w p of None \<Rightarrow> True | Some d \<Rightarrow> call_key (pn_call d) \<noteq> Some k) \<and>
     fw_now w + delay < me_acquired_at m + me_ttl m"

section \<open>What the scripts change\<close>

text \<open>A write to a value by client \<open>p\<close>: where nobody else's token lives, and leaving at most a token of \<open>p\<close>.\<close>

definition own_write :: "'r entries \<Rightarrow> (string \<Rightarrow> nat) \<Rightarrow> time \<Rightarrow> nat \<Rightarrow> string option \<Rightarrow> 'r \<Rightarrow> 'r \<Rightarrow> bool" where
  "own_write entry owner now p key r r' \<longleftrightarrow> entry r' = entry r \<or>
     (\<exists>k x. key = Some k \<and> entry r' = (entry r)(k := x) \<and> (\<forall>tok. live_value now (entry r k) = Some tok \<longrightarrow> owner tok = p))"

lemma own_write_keeps:
  assumes "own_write entry owner now p key r r'" "entry r k = Some (tok, e)" "key \<noteq> Some k \<or> owner tok \<noteq> p \<and> now < e"
  shows "entry r' k = Some (tok, e)"
proof (cases "key = Some k")
  case True
  then show ?thesis using assms by (auto simp: own_write_def live_value_def)
next
  case False
  from assms(1) have "entry r' k = entry r k" unfolding own_write_def
  proof (elim disjE exE conjE)
    fix k' x assume "key = Some k'" "entry r' = (entry r)(k' := x)"
    then show ?thesis using False by auto
  qed simp
  then show ?thesis using assms(2) by simp
qed

definition tokens_ok :: "(string \<Rightarrow> nat) \<Rightarrow> nat \<Rightarrow> fifo_client \<Rightarrow> bool" where
  "tokens_ok owner p c \<longleftrightarrow> dict_ok c \<and> (\<forall>k m. map_of c k = Some m \<longrightarrow> owner (me_token m) = p)"

lemma map_of_filter_distinct:
  assumes "distinct (map fst c)" "map_of (filter P c) k = Some m"
  shows "map_of c k = Some m"
  using assms by (auto simp: distinct_map_filter dest!: map_of_SomeD)

lemma map_of_prune: "dict_ok c \<Longrightarrow> map_of (prune_expired_metadata now c) k = Some m \<Longrightarrow> map_of c k = Some m"
  unfolding prune_expired_metadata_def by (rule map_of_filter_distinct)

lemma tokens_ok_prune: "tokens_ok owner p c \<Longrightarrow> tokens_ok owner p (prune_expired_metadata now c)"
  unfolding tokens_ok_def using map_of_prune by (auto simp: prune_expired_metadata_def distinct_map_filter)

lemma reentered_meta:
  assumes "tokens_ok owner p c" "reentered start c lk session = Some m"
  shows "map_of (prune_expired_metadata start c) lk = Some m" "map_of c lk = Some m" "owner (me_token m) = p"
proof -
  show m: "map_of (prune_expired_metadata start c) lk = Some m"
    using assms(2) by (auto simp: reentered_def split: option.splits if_splits)
  show "map_of c lk = Some m" using map_of_prune [OF _ m] assms(1) by (simp only: tokens_ok_def)
  then show "owner (me_token m) = p" using assms(1) unfolding tokens_ok_def by blast
qed

lemma fifo_extend_parts:
  "snd (fst (fifo_extend rd True sent now lk token ttl (c, r))) = fst (extend_script rd sent lk token ttl r)"
  "fst (fst (fifo_extend rd up sent now lk token ttl (c, r))) =
     (case map_of c lk of
        None \<Rightarrow> c
      | Some m \<Rightarrow> if up \<and> snd (extend_script rd sent lk token ttl r)
                  then AList.update lk (m\<lparr>me_acquired_at := now, me_ttl := ttl\<rparr>) c else c)"
  "snd (fifo_extend rd up sent now lk token ttl (c, r)) = (up \<and> snd (extend_script rd sent lk token ttl r))"
  by (auto simp: fifo_extend_def split: prod.splits bool.splits option.splits)

lemma fifo_begin_parts:
  assumes "reentered start c lk session = Some m" and e: "e = extend_script rd sent lk (me_token m) ttl r"
  shows "snd (fst (fifo_begin rd True start sent now lk session ttl (c, r))) = fst e"
    "map_of (fst (fst (fifo_begin rd up start sent now lk session ttl (c, r)))) k =
       (if k = lk \<and> up \<and> snd e
        then Some (m\<lparr>me_acquired_at := now, me_ttl := ttl, me_ref_count := me_ref_count m + 1\<rparr>)
        else map_of (prune_expired_metadata start c) k)"
proof -
  have m: "map_of (prune_expired_metadata start c) lk = Some m" "truthy session" "me_session m = session" "meta_live start m"
    using assms(1) by (auto simp: reentered_def split: option.splits if_splits)
  obtain r' b where e': "extend_script rd sent lk (me_token m) ttl r = (r', b)" by force
  show "snd (fst (fifo_begin rd True start sent now lk session ttl (c, r))) = fst e"
    using m e' by (cases b) (simp_all add: e fifo_begin_def try_reentrant_acquire_def fifo_extend_def)
  show "map_of (fst (fst (fifo_begin rd up start sent now lk session ttl (c, r)))) k =
       (if k = lk \<and> up \<and> snd e
        then Some (m\<lparr>me_acquired_at := now, me_ttl := ttl, me_ref_count := me_ref_count m + 1\<rparr>)
        else map_of (prune_expired_metadata start c) k)"
    using m e' by (cases b; cases up) (simp_all add: e fifo_begin_def try_reentrant_acquire_def fifo_extend_def update_conv')
qed

lemma fifo_begin_plain:
  assumes "reentered start c lk session = None"
  shows "fifo_begin rd up start sent now lk session ttl (c, r) = ((prune_expired_metadata start c, r), None)"
  using assms by (auto simp: fifo_begin_def try_reentrant_acquire_def reentered_def split: option.splits if_splits)

lemma fifo_poll_parts:
  "snd (fst (fifo_poll rd True sent now lk qk token session ttl (c, r))) = fst (fair_acquire_script rd sent qk lk token ttl r)"
  "fst (fst (fifo_poll rd up sent now lk qk token session ttl (c, r))) =
     (if up \<and> snd (fair_acquire_script rd sent qk lk token ttl r)
      then AList.update lk \<lparr>me_acquired_at = now, me_ttl = ttl, me_session = session, me_token = token, me_ref_count = 1\<rparr> c else c)"
  by (auto simp: fifo_poll_def split: prod.splits bool.splits)

lemma own_extend:
  assumes "redis_laws rd entry queue" "owner token = p"
  shows "own_write entry owner now p (Some lk) r (fst (extend_script rd now lk token ttl r))"
    and "snd (extend_script rd now lk token ttl r) \<Longrightarrow>
      entry (fst (extend_script rd now lk token ttl r)) lk = Some (token, now + ttl)"
proof -
  obtain r' b where e: "extend_script rd now lk token ttl r = (r', b)" by force
  note effect = extend_script_effect [OF assms(1) e]
  show "own_write entry owner now p (Some lk) r (fst (extend_script rd now lk token ttl r))"
    using effect assms(2) by (cases b) (auto simp: e own_write_def)
  show "entry (fst (extend_script rd now lk token ttl r)) lk = Some (token, now + ttl)"
    if "snd (extend_script rd now lk token ttl r)" using effect that by (simp add: e)
qed

text \<open>The script of a call writes under its key only, over no live token of another client, and sets what it grants.\<close>

lemma call_writes:
  assumes laws: "redis_laws rd entry queue" and c: "tokens_ok owner p c" and own: "own_call owner p call"
    and r'_def: "r' = snd (run_call rd True now now call (c, r))"
  shows "own_write entry owner now p (call_key call) r r'"
    and "call_grants rd now r c call = Some (lk, token, ttl) \<Longrightarrow> entry r' lk = Some (token, now + ttl)"
    and "call_grants rd now r c call = Some (lk, token, ttl) \<Longrightarrow> owner token = p \<and> call_key call = Some lk"
    and "neutral c call \<Longrightarrow> entry r' = entry r \<or> (\<exists>k. call_key call = Some k \<and> live_value now (entry r k) = None)"
proof -
  have "own_write entry owner now p (call_key call) r r' \<and>
    (call_grants rd now r c call = Some (lk, token, ttl) \<longrightarrow>
       entry r' lk = Some (token, now + ttl) \<and> owner token = p \<and> call_key call = Some lk) \<and>
    (neutral c call \<longrightarrow> entry r' = entry r \<or> (\<exists>k. call_key call = Some k \<and> live_value now (entry r k) = None))"
  proof (cases call)
    case (BeginCall start k session t)
    show ?thesis
    proof (cases "reentered start c k session")
      case None
      then show ?thesis by (simp add: BeginCall r'_def fifo_begin_plain own_write_def)
    next
      case (Some m)
      note m = reentered_meta [OF c Some]
      from own_extend [where owner = owner and token = "me_token m" and p = p and now = now and lk = k and r = r and ttl = t, OF laws m(3)]
      show ?thesis
        using m(3) by (auto simp: BeginCall r'_def Some fifo_begin_parts(1) [OF Some refl])
    qed
  next
    case (PollCall k qk tok session t)
    obtain r1 b where s: "fair_acquire_script rd now qk k tok t r = (r1, b)" by force
    note effect = fair_acquire_script_effect [OF laws s]
    have "r' = r1" by (simp add: PollCall r'_def fifo_poll_parts(1) s)
    with effect own show ?thesis by (cases b) (auto simp: PollCall s own_write_def)
  next
    case (GiveUpCall resource qk tok)
    then show ?thesis by (simp add: r'_def fifo_give_up_def redis_law(14) [OF laws] own_write_def)
  next
    case (ReleaseCall k qk tok)
    have e: "entry r' = entry r \<or> (entry r' = (entry r)(k := None) \<and> live_value now (entry r k) = Some tok)"
      using release_script_effect [OF laws, of now k qk tok r]
      by (auto simp: ReleaseCall r'_def fifo_release_lock_def Let_def split: if_splits)
    have n: "neutral c call \<longrightarrow> r' = r"
      by (auto simp: ReleaseCall r'_def fifo_release_lock_def Let_def split: option.splits)
    show ?thesis using e n own by (auto simp: ReleaseCall own_write_def)
  next
    case (ExtendCall k tok t)
    then show ?thesis using own_extend [where owner = owner and token = tok and p = p and now = now and lk = k and r = r and ttl = t, OF laws] own
      by (auto simp: r'_def fifo_extend_parts(1))
  qed
  then show "own_write entry owner now p (call_key call) r r'"
    "call_grants rd now r c call = Some (lk, token, ttl) \<Longrightarrow> entry r' lk = Some (token, now + ttl)"
    "call_grants rd now r c call = Some (lk, token, ttl) \<Longrightarrow> owner token = p \<and> call_key call = Some lk"
    "neutral c call \<Longrightarrow> entry r' = entry r \<or> (\<exists>k. call_key call = Some k \<and> live_value now (entry r k) = None)"
    by blast+
qed

section \<open>The invariant of the clients\<close>

text \<open>The server holds a remembered lock at least until the delay before the end of the recorded lifetime.\<close>

definition backed :: "'r entries \<Rightarrow> int \<Rightarrow> time \<Rightarrow> 'r \<Rightarrow> string \<Rightarrow> lock_meta \<Rightarrow> bool" where
  "backed entry delay now r k m \<longleftrightarrow> (now + delay < me_acquired_at m + me_ttl m \<longrightarrow>
     (\<exists>e. entry r k = Some (me_token m, e) \<and> me_acquired_at m + me_ttl m \<le> e + delay))"

definition unsettled :: "'r pending_call option \<Rightarrow> fifo_client \<Rightarrow> string \<Rightarrow> bool" where
  "unsettled pending c k \<longleftrightarrow> (case pending of None \<Rightarrow> False | Some d \<Rightarrow> call_key (pn_call d) = Some k \<and> \<not> neutral c (pn_call d))"

text \<open>While the answer of a call is awaited, the server keeps what the call was granted until it expires.\<close>

definition pending_ok ::
  "'r redis \<Rightarrow> 'r entries \<Rightarrow> (string \<Rightarrow> nat) \<Rightarrow> time \<Rightarrow> 'r \<Rightarrow> nat \<Rightarrow> fifo_client \<Rightarrow> 'r pending_call \<Rightarrow> bool" where
  "pending_ok rd entry owner now r p c d \<longleftrightarrow> own_call owner p (pn_call d) \<and>
     (\<forall>lk token ttl. pn_reached d \<and> call_grants rd (pn_sent d) (pn_redis d) c (pn_call d) = Some (lk, token, ttl) \<longrightarrow>
        owner token = p \<and> call_key (pn_call d) = Some lk \<and>
        (now < pn_sent d + ttl \<longrightarrow> entry r lk = Some (token, pn_sent d + ttl)))"

definition client_ok ::
  "'r redis \<Rightarrow> 'r entries \<Rightarrow> (string \<Rightarrow> nat) \<Rightarrow> int \<Rightarrow> time \<Rightarrow> 'r \<Rightarrow> nat \<Rightarrow> fifo_client \<Rightarrow> (string \<Rightarrow> bool) \<Rightarrow> 'r pending_call option \<Rightarrow> bool" where
  "client_ok rd entry owner delay now r p c told pending \<longleftrightarrow> tokens_ok owner p c \<and>
     (\<forall>k m. map_of c k = Some m \<and> told k \<and> \<not> unsettled pending c k \<longrightarrow> backed entry delay now r k m) \<and>
     (\<forall>d. pending = Some d \<longrightarrow> pending_ok rd entry owner now r p c d)"

definition fifo_inv :: "'r redis \<Rightarrow> 'r entries \<Rightarrow> (string \<Rightarrow> nat) \<Rightarrow> int \<Rightarrow> 'r fifo_world \<Rightarrow> bool" where
  "fifo_inv rd entry owner delay w \<longleftrightarrow>
     (\<forall>p. client_ok rd entry owner delay (fw_now w) (fw_redis w) p (fw_clients w p) (fw_told w p) (fw_pending w p))"

lemma client_ok_later:
  assumes "client_ok rd entry owner delay now r p c told pending" "now \<le> now'"
  shows "client_ok rd entry owner delay now' r p c told pending"
proof -
  have "backed entry delay now' r k m" if "backed entry delay now r k m" for k m
    using that assms(2) unfolding backed_def by (meson add_right_mono le_less_trans)
  moreover have "pending_ok rd entry owner now' r p c d" if "pending_ok rd entry owner now r p c d" for d
    using that assms(2) unfolding pending_ok_def by (meson le_less_trans)
  ultimately show ?thesis using assms(1) unfolding client_ok_def by blast
qed

lemma client_ok_foreign_write:
  assumes "client_ok rd entry owner delay now r q c told pending" "own_write entry owner now p key r r'" "q \<noteq> p" "0 \<le> delay"
  shows "client_ok rd entry owner delay now r' q c told pending"
proof -
  have keep: "entry r' k = Some (tok, e)" if "entry r k = Some (tok, e)" "owner tok = q" "now < e" for k tok e
    using own_write_keeps [OF assms(2) that(1)] that(2,3) assms(3) by blast
  have "backed entry delay now r' k m" if b: "backed entry delay now r k m" and q: "owner (me_token m) = q" for k m
    unfolding backed_def
  proof
    assume live: "now + delay < me_acquired_at m + me_ttl m"
    then obtain e where e: "entry r k = Some (me_token m, e)" "me_acquired_at m + me_ttl m \<le> e + delay"
      using b unfolding backed_def by blast
    then have "now < e" using live by linarith
    then show "\<exists>e. entry r' k = Some (me_token m, e) \<and> me_acquired_at m + me_ttl m \<le> e + delay"
      using keep [OF e(1) q] e(2) by blast
  qed
  moreover have "pending_ok rd entry owner now r' q c d" if "pending_ok rd entry owner now r q c d" for d
    using that keep unfolding pending_ok_def by metis
  ultimately show ?thesis using assms(1) unfolding client_ok_def tokens_ok_def by blast
qed

lemma client_ok_issue:
  assumes laws: "redis_laws rd entry queue" and c: "client_ok rd entry owner delay now r p c told None"
    and own: "own_call owner p call" and delay: "0 \<le> delay"
    and r': "r' = (if reached then snd (run_call rd True now now call (c, r)) else r)"
  shows "client_ok rd entry owner delay now r' p c told
    (Some \<lparr>pn_call = call, pn_sent = now, pn_redis = r, pn_reached = reached\<rparr>)"
proof -
  have tok: "tokens_ok owner p c" using c by (simp add: client_ok_def)
  note writes = call_writes [OF laws tok own refl, where now = now and r = r]
  have "backed entry delay now r' k m" if m: "map_of c k = Some m" "told k" and s: "call_key call = Some k \<longrightarrow> neutral c call" for k m
  proof (cases "entry r' k = entry r k")
    case True
    then show ?thesis using c m by (simp add: client_ok_def unsettled_def backed_def)
  next
    case False
    then have reached: "reached" and k: "call_key call = Some k"
      using r' writes(1) by (auto simp: own_write_def split: if_splits)
    then have "live_value now (entry r k) = None" using writes(4) s False r' by auto
    moreover have "backed entry delay now r k m" using c m by (simp add: client_ok_def unsettled_def)
    ultimately have "\<not> now + delay < me_acquired_at m + me_ttl m" by (auto simp: backed_def live_value_def)
    then show ?thesis by (simp add: backed_def)
  qed
  then show ?thesis using tok own writes(2,3) r' by (auto simp: client_ok_def unsettled_def pending_ok_def)
qed

text \<open>What the client remembers after a call: nothing new under other keys.\<close>

lemma fifo_begin_dict: "dict_ok c \<Longrightarrow> dict_ok (fst (fst (fifo_begin rd up start sent now lk session ttl (c, r))))"
  by (auto simp: fifo_begin_def try_reentrant_acquire_def fifo_extend_def prune_expired_metadata_def distinct_map_filter distinct_update
      split: option.splits prod.splits bool.splits)

lemma tokens_ok_update: "tokens_ok owner p c \<Longrightarrow> owner (me_token m) = p \<Longrightarrow> tokens_ok owner p (AList.update k m c)"
  by (auto simp: tokens_ok_def update_conv' distinct_update)

lemma tokens_ok_delete: "tokens_ok owner p c \<Longrightarrow> tokens_ok owner p (AList.delete k c)"
  by (auto simp: tokens_ok_def delete_conv' distinct_delete split: if_splits)

lemma call_remembers:
  assumes c: "tokens_ok owner p c" and own: "own_call owner p call"
    and c'_def: "c' = fst (run_call rd up sent now call (c, r))"
  shows "tokens_ok owner p c' \<and> (\<forall>k m. map_of c' k = Some m \<and> call_key call \<noteq> Some k \<longrightarrow> map_of c k = Some m)"
proof (cases call)
  case (BeginCall start lk session ttl)
  have d: "dict_ok c" using c by (simp add: tokens_ok_def)
  show ?thesis
  proof (cases "reentered start c lk session")
    case None
    then have "c' = prune_expired_metadata start c" by (simp add: BeginCall c'_def fifo_begin_plain)
    then show ?thesis using tokens_ok_prune [OF c] map_of_prune [OF d] by blast
  next
    case (Some m)
    note m = reentered_meta [OF c Some]
    have at: "map_of c' k = (if k = lk \<and> up \<and> snd (extend_script rd sent lk (me_token m) ttl r)
        then Some (m\<lparr>me_acquired_at := now, me_ttl := ttl, me_ref_count := me_ref_count m + 1\<rparr>)
        else map_of (prune_expired_metadata start c) k)" for k
      unfolding BeginCall c'_def run_call.simps by (rule fifo_begin_parts(2) [OF Some refl])
    have "dict_ok c'" using fifo_begin_dict [OF d] by (simp add: BeginCall c'_def)
    moreover have "owner (me_token m') = p" if "map_of c' k = Some m'" for k m'
      using that m(3) tokens_ok_prune [OF c] by (auto simp: at tokens_ok_def split: if_splits)
    ultimately show ?thesis using map_of_prune [OF d] by (auto simp: tokens_ok_def at BeginCall split: if_splits)
  qed
next
  case (PollCall lk qk token session ttl)
  then show ?thesis using c own
    by (auto simp: c'_def fifo_poll_parts(2) update_conv' intro!: tokens_ok_update split: if_splits)
next
  case (GiveUpCall resource qk token)
  then show ?thesis using c by (simp add: c'_def fifo_give_up_def)
next
  case (ReleaseCall lk qk token)
  have cnt: "tokens_ok owner p (AList.update lk (m\<lparr>me_ref_count := n\<rparr>) c)" if "map_of c lk = Some m" for m n
    using that c by (intro tokens_ok_update) (auto simp: tokens_ok_def)
  show ?thesis
    using c cnt tokens_ok_delete [OF c] tokens_ok_delete [OF cnt]
    by (auto simp: ReleaseCall c'_def fifo_release_lock_def Let_def update_conv' delete_conv' split: option.splits if_splits)
next
  case (ExtendCall lk token ttl)
  have "tokens_ok owner p (AList.update lk (m\<lparr>me_acquired_at := now, me_ttl := ttl\<rparr>) c)" if "map_of c lk = Some m" for m
    using that c by (intro tokens_ok_update) (auto simp: tokens_ok_def)
  then show ?thesis
    using c by (auto simp: ExtendCall c'_def fifo_extend_parts(2) update_conv' split: option.splits if_splits)
qed

lemma grant_backed:
  assumes "pending_ok rd entry owner now r p c d" "pn_reached d" "now \<le> pn_sent d + delay"
    and "call_grants rd (pn_sent d) (pn_redis d) c (pn_call d) = Some (k, me_token m, me_ttl m)" "me_acquired_at m = now"
  shows "backed entry delay now r k m"
  unfolding backed_def
proof
  assume "now + delay < me_acquired_at m + me_ttl m"
  then have "now < pn_sent d + me_ttl m" using assms(3,5) by linarith
  then have "entry r k = Some (me_token m, pn_sent d + me_ttl m)" using assms(1,2,4) by (auto simp: pending_ok_def)
  then show "\<exists>e. entry r k = Some (me_token m, e) \<and> me_acquired_at m + me_ttl m \<le> e + delay" using assms(3,5) by auto
qed

lemma deliver_backed:
  assumes c: "client_ok rd entry owner delay now r p c told (Some d)"
    and answered: "answered \<Longrightarrow> pn_reached d \<and> now \<le> pn_sent d + delay"
    and k: "call_key (pn_call d) = Some k"
    and m: "map_of (fst (run_call rd answered (pn_sent d) now (pn_call d) (c, pn_redis d))) k = Some m"
    and t: "told_after rd answered (pn_sent d) (pn_redis d) c (pn_call d) (told k)"
  shows "backed entry delay now r k m"
proof -
  have tok: "tokens_ok owner p c" and pend: "pending_ok rd entry owner now r p c d" using c by (simp_all add: client_ok_def)
  have old: "backed entry delay now r k m0" if "neutral c (pn_call d)" "told k" "map_of c k = Some m0" for m0
    using c that by (auto simp: client_ok_def unsettled_def)
  have new: "backed entry delay now r k m"
    if "answered" "call_grants rd (pn_sent d) (pn_redis d) c (pn_call d) = Some (k, me_token m, me_ttl m)" "me_acquired_at m = now"
    using grant_backed [OF pend _ _ that(2,3)] answered [OF that(1)] by blast
  show ?thesis
  proof (cases "pn_call d")
    case (BeginCall start lk session ttl)
    show ?thesis
    proof (cases "reentered start c lk session")
      case None
      then have "map_of c k = Some m" using m k map_of_prune [of c] tok by (auto simp: BeginCall fifo_begin_plain tokens_ok_def)
      then show ?thesis using old t None by (auto simp: BeginCall told_after_def)
    next
      case (Some m0)
      then have "answered" "snd (extend_script rd (pn_sent d) lk (me_token m0) ttl (pn_redis d))"
        using t by (auto simp: BeginCall told_after_def split: if_splits)
      then show ?thesis
        using new m k fifo_begin_parts(2) [OF Some refl, of rd answered "pn_sent d" now ttl "pn_redis d" lk]
        by (auto simp: BeginCall Some)
    qed
  next
    case (PollCall lk qk token session ttl)
    show ?thesis
    proof (cases "answered \<and> snd (fair_acquire_script rd (pn_sent d) qk lk token ttl (pn_redis d))")
      case True
      then show ?thesis using new m k by (auto simp: PollCall fifo_poll_parts(2) update_conv')
    next
      case False
      then have "map_of c k = Some m" "told k" using m t by (auto simp: PollCall fifo_poll_parts(2) told_after_def)
      then show ?thesis using old by (simp add: PollCall)
    qed
  next
    case (GiveUpCall resource qk token)
    then show ?thesis using k by simp
  next
    case (ReleaseCall lk qk token)
    then have n: "neutral c (pn_call d)" "told k" using t by (simp_all add: told_after_def)
    then obtain m0 where m0: "map_of c k = Some m0" "me_token m0 = token" "1 < me_ref_count m0"
      using k by (auto simp: ReleaseCall split: option.splits)
    then have "m = m0\<lparr>me_ref_count := me_ref_count m0 - 1\<rparr>"
      using m k by (auto simp: ReleaseCall fifo_release_lock_def Let_def update_conv')
    then show ?thesis using old [OF n m0(1)] by (simp add: backed_def)
  next
    case (ExtendCall lk token ttl)
    then obtain m0 where m0: "answered" "snd (extend_script rd (pn_sent d) lk token ttl (pn_redis d))"
        "map_of c k = Some m0" "me_token m0 = token"
      using t k by (auto simp: told_after_def split: option.splits if_splits)
    then have "m = m0\<lparr>me_acquired_at := now, me_ttl := ttl\<rparr>" using m k by (auto simp: ExtendCall fifo_extend_parts(2) update_conv')
    then show ?thesis using new m0 k by (auto simp: ExtendCall)
  qed
qed

lemma fifo_step_inv:
  assumes laws: "redis_laws rd entry queue" and delay: "0 \<le> delay"
    and step: "fifo_step rd owner delay w w'" and inv: "fifo_inv rd entry owner delay w"
  shows "fifo_inv rd entry owner delay w'"
proof -
  have ok: "client_ok rd entry owner delay (fw_now w) (fw_redis w) q (fw_clients w q) (fw_told w q) (fw_pending w q)" for q
    using inv by (simp add: fifo_inv_def)
  from step show ?thesis
  proof cases
    case (Pass t)
    then show ?thesis using client_ok_later [OF ok] by (simp add: fifo_inv_def)
  next
    case (Issue p call reached)
    let ?r = "fw_redis w'"
    have r': "?r = (if reached then snd (run_call rd True (fw_now w) (fw_now w) call (fw_clients w p, fw_redis w)) else fw_redis w)"
      using Issue(1) by (simp add: issued_def)
    have tok: "tokens_ok owner p (fw_clients w p)" using ok [of p] by (simp add: client_ok_def)
    have w: "own_write entry owner (fw_now w) p (call_key call) (fw_redis w) ?r"
      using call_writes(1) [OF laws tok Issue(3) refl] r' by (auto simp: own_write_def)
    have "client_ok rd entry owner delay (fw_now w') ?r q (fw_clients w' q) (fw_told w' q) (fw_pending w' q)" for q
      using client_ok_issue [OF laws _ Issue(3) delay r', of "fw_told w p"] ok [of p] Issue(2)
        client_ok_foreign_write [OF ok [of q] w _ delay] Issue(1)
      by (cases "q = p") (simp_all add: issued_def)
    then show ?thesis by (simp add: fifo_inv_def)
  next
    case (Deliver p d answered)
    let ?c = "fw_clients w p" and ?c' = "fw_clients w' p"
    have c: "client_ok rd entry owner delay (fw_now w) (fw_redis w) p ?c (fw_told w p) (Some d)" using ok [of p] Deliver(2) by simp
    then have tok: "tokens_ok owner p ?c" and own: "own_call owner p (pn_call d)" by (simp_all add: client_ok_def pending_ok_def)
    have c': "?c' = fst (run_call rd answered (pn_sent d) (fw_now w) (pn_call d) (?c, pn_redis d))"
      using Deliver(1) by (simp add: delivered_def)
    note keeps = call_remembers [OF tok own c']
    have "backed entry delay (fw_now w) (fw_redis w) k m" if m: "map_of ?c' k = Some m" "fw_told w' p k" for k m
    proof (cases "call_key (pn_call d) = Some k")
      case True
      have "told_after rd answered (pn_sent d) (pn_redis d) ?c (pn_call d) (fw_told w p k)"
        using m(2) True Deliver(1) by (simp add: delivered_def)
      from deliver_backed [OF c _ True m(1) [unfolded c'] this] Deliver(3) show ?thesis by blast
    next
      case False
      then have "fw_told w p k" "map_of ?c k = Some m"
        using m keeps Deliver(1) by (auto simp: delivered_def split: option.splits)
      then show ?thesis using c False by (simp add: client_ok_def unsettled_def)
    qed
    then have "client_ok rd entry owner delay (fw_now w) (fw_redis w) p ?c' (fw_told w' p) None"
      using keeps by (simp add: client_ok_def)
    moreover have "fw_told w' q = fw_told w q" if "q \<noteq> p" for q
      using that Deliver(1) by (auto simp: delivered_def split: option.splits)
    ultimately have "client_ok rd entry owner delay (fw_now w') (fw_redis w') q (fw_clients w' q) (fw_told w' q) (fw_pending w' q)" for q
      using ok [of q] Deliver(1) by (cases "q = p") (simp_all add: delivered_def)
    then show ?thesis by (simp add: fifo_inv_def)
  qed
qed

text \<open>
  C23: mutual exclusion: starting without locks, two clients never count on the same lock at the same time, and the server holds
  the token of the one that does.  Acquisitions, reentrant ones, polls, time-outs, releases and extensions interleave in any
  way; requests and answers may be lost, and an answer may be read up to \<open>delay\<close> after its script ran.  A
  client counts on a lock when it was told that it has it, awaits no answer about it, and the lifetime it recorded has
  more than \<open>delay\<close> left: the lifetime counts from the moment the answer was read, so that without this
  margin the server may already have let the lock go.
\<close>

theorem fifo_lock_exclusion:
  assumes "redis_laws rd entry queue" "0 \<le> delay" "\<forall>p. fw_clients w0 p = [] \<and> fw_pending w0 p = None"
    and "fifo_reach rd owner delay w0 w" "counts_on delay w p k m" "counts_on delay w q k m'"
  shows "p = q \<and> rd_get rd (fw_now w) k (fw_redis w) = Some (me_token m)"
proof -
  have "fifo_inv rd entry owner delay w0" using assms(3) by (simp add: fifo_inv_def client_ok_def tokens_ok_def)
  with assms(4) have inv: "fifo_inv rd entry owner delay w"
    by (induction rule: rtranclp_induct) (use fifo_step_inv [OF assms(1,2)] in blast)+
  have held: "owner (me_token x) = i \<and> (\<exists>e. entry (fw_redis w) k = Some (me_token x, e) \<and> fw_now w < e)" if "counts_on delay w i k x" for i x
  proof -
    have ok: "client_ok rd entry owner delay (fw_now w) (fw_redis w) i (fw_clients w i) (fw_told w i) (fw_pending w i)"
      using inv by (simp add: fifo_inv_def)
    have x: "map_of (fw_clients w i) k = Some x" "fw_told w i k" "\<not> unsettled (fw_pending w i) (fw_clients w i) k"
        "fw_now w + delay < me_acquired_at x + me_ttl x"
      using that by (auto simp: counts_on_def unsettled_def split: option.splits)
    have "backed entry delay (fw_now w) (fw_redis w) k x" "owner (me_token x) = i"
      using ok x(1-3) unfolding client_ok_def tokens_ok_def by blast+
    then obtain e where "entry (fw_redis w) k = Some (me_token x, e)" "me_acquired_at x + me_ttl x \<le> e + delay" "owner (me_token x) = i"
      using x(4) unfolding backed_def by blast
    then show ?thesis using x(4) by auto
  qed
  from held [OF assms(5)] held [OF assms(6)] show ?thesis
    by (auto simp: redis_law(1) [OF assms(1)] live_value_def)
qed

section \<open>Order of service\<close>

text \<open>
  first come, first served: a poll that obtains the lock has its token at the head of the queue, so that everyone else waiting
  joined later, or at the same time with a larger token; and the lock was free.
\<close>

theorem fifo_serves_head:
  assumes "redis_laws rd entry queue" "sorted (queue r qk)" "distinct (map snd (queue r qk))"
    and "fair_acquire_script rd now qk lk token ttl r = (r', True)" "(s, other) \<in> set (queue r' qk)"
  shows "other \<noteq> token \<and> rd_get rd now lk r = None \<and>
    (\<exists>s'. (s', token) \<le> (s, other) \<and> ((s', token) \<in> set (queue r qk) \<or> s' = now))"
proof -
  note law = redis_law [OF assms(1)]
  define r1 where "r1 = rd_zadd_nx rd qk now token r"
  have rank: "rank_of token (queue r1 qk) = Some 0"
    using assms(4) by (auto simp: fair_acquire_script_def r1_def [symmetric] law(12) Let_def split: if_splits)
  then obtain s' q where q: "queue r1 qk = (s', token) # q" by (cases "queue r1 qk") (auto simp: rank_of_head)
  have sorted1: "sorted (queue r1 qk)" and mem: "set (queue r1 qk) \<subseteq> insert (now, token) (set (queue r qk))"
    using assms(2) by (auto simp: r1_def law(10) sorted_insort set_insort_key)
  have r': "queue r' qk = filter (\<lambda>x. snd x \<noteq> token) (queue r1 qk)"
    using assms(4) law(4) [of now lk token ttl r1] rank
    by (auto simp: fair_acquire_script_def r1_def [symmetric] law(12,13) Let_def split: if_splits prod.splits)
  have "other \<noteq> token" "(s, other) \<in> set q" using assms(5) by (auto simp: r' q)
  moreover have "(s', token) \<le> (s, other)" using sorted1 \<open>(s, other) \<in> set q\<close> by (auto simp: q)
  moreover have "(s', token) \<in> set (queue r qk) \<or> s' = now" using mem by (auto simp: q)
  moreover have "rd_get rd now lk r = None" using fair_acquire_script_effect [OF assms(1,4)] by (simp add: law(1))
  ultimately show ?thesis by blast
qed

lemma fair_acquire_behind_head:
  assumes "redis_laws rd entry queue" "queue r qk = (s, dead) # q" "token \<noteq> dead" "s \<le> now" "s = now \<Longrightarrow> dead < token"
  shows "\<exists>r' q'. fair_acquire_script rd now qk lk token ttl r = (r', False) \<and> queue r' qk = (s, dead) # q' \<and> (\<forall>k. k \<noteq> qk \<longrightarrow> queue r' k = queue r k)"
proof -
  note law = redis_law [OF assms(1)]
  define r1 where "r1 = rd_zadd_nx rd qk now token r"
  have less: "(s, dead) < (now, token)" using assms(4,5) by (cases "s = now") (auto simp: less_prod_def)
  have "\<exists>q'. queue r1 qk = (s, dead) # q'" using less assms(2) by (auto simp: r1_def law(10) less_le)
  then obtain q' where q': "queue r1 qk = (s, dead) # q'" by blast
  have "rank_of token (queue r1 qk) \<noteq> Some 0" using assms(3) by (simp add: rank_of_head q')
  then have "fair_acquire_script rd now qk lk token ttl r = (r1, False)"
    by (simp add: fair_acquire_script_def r1_def [symmetric] law(12) Let_def)
  moreover have "queue r1 k = queue r k" if "k \<noteq> qk" for k using that by (simp add: r1_def law(10))
  ultimately show ?thesis using q' by blast
qed

text \<open>Polls of other clients, one after the other.\<close>

definition fair_polls :: "'r redis \<Rightarrow> string \<Rightarrow> string \<Rightarrow> (time \<times> string \<times> int) list \<Rightarrow> 'r \<Rightarrow> 'r \<times> bool list" where
  "fair_polls rd qk lk polls r =
     fold (\<lambda>(now, token, ttl) (r, bs). case fair_acquire_script rd now qk lk token ttl r of (r, b) \<Rightarrow> (r, bs @ [b])) polls (r, [])"

text \<open>
  An entry of the queue has no lifetime: once a client has died, lost its connection or was cancelled while it stood at the
  head, no later poll of anyone else ever obtains the lock, although it is free.
\<close>

theorem dead_waiter_blocks_queue:
  assumes "redis_laws rd entry queue" "queue r qk = (s, dead) # q"
    and "\<forall>(now, token, ttl) \<in> set polls. s < now \<and> token \<noteq> dead"
  shows "True \<notin> set (snd (fair_polls rd qk lk polls r))"
proof -
  have "True \<notin> set (snd (fold (\<lambda>(now, token, ttl) (r, bs). case fair_acquire_script rd now qk lk token ttl r of (r, b) \<Rightarrow> (r, bs @ [b])) polls (r, bs)))"
    if "True \<notin> set bs" "queue r qk = (s, dead) # q" for r bs q
    using assms(3) that
  proof (induction polls arbitrary: r bs q)
    case (Cons p polls)
    obtain now token ttl where p: "p = (now, token, ttl)" by (cases p)
    obtain r' q' where "fair_acquire_script rd now qk lk token ttl r = (r', False)" "queue r' qk = (s, dead) # q'"
      using fair_acquire_behind_head [OF assms(1) Cons.prems(3), of token now lk ttl] Cons.prems(1) by (auto simp: p)
    with Cons.IH [of "bs @ [False]" r' q'] Cons.prems show ?case by (simp add: p)
  qed simp
  from this [of "[]"] assms(2) show ?thesis by (simp add: fair_polls_def)
qed

section \<open>Reentrant locks\<close>

text \<open>
  nested sections of one session: each further acquisition returns the same token and counts up, and each release but the last
  counts down and leaves the lock on the server; so as many releases as acquisitions are needed.
\<close>

theorem reentrant_lock_counts:
  assumes "redis_laws rd entry queue" "map_of c lk = Some m" "dict_ok c" "me_session m = Some s" "s \<noteq> []" "meta_live now m"
    and "rd_get rd now lk r = Some (me_token m)" "0 < me_ref_count m"
  shows "\<exists>c' r' m'. fifo_begin rd True now now now lk (Some s) ttl (c, r) = ((c', r'), Some (me_token m)) \<and> map_of c' lk = Some m' \<and>
      me_ref_count m' = me_ref_count m + 1 \<and> entry r' = (entry r)(lk := Some (me_token m, now + ttl)) \<and>
      (\<exists>c'' m''. fifo_release_lock rd True now lk qk (me_token m) (c', r') = (c'', r') \<and> map_of c'' lk = Some m'' \<and> me_ref_count m'' = me_ref_count m)"
proof -
  let ?c = "prune_expired_metadata now c"
  have c: "map_of ?c lk = Some m"
  proof -
    have "(lk, m) \<in> set c" using map_of_SomeD [OF assms(2)] .
    then have "(lk, m) \<in> set ?c" using assms(6) by (simp add: prune_expired_metadata_def meta_live_def)
    moreover have "distinct (map fst ?c)" using assms(3) by (simp add: prune_expired_metadata_def distinct_map_filter)
    ultimately show ?thesis by simp
  qed
  obtain r' b where x: "extend_script rd now lk (me_token m) ttl r = (r', b)" by force
  have e: "b" "entry r' = (entry r)(lk := Some (me_token m, now + ttl))"
    using extend_script_effect [OF assms(1) x] assms(7) by (auto simp: redis_law(1) [OF assms(1)])
  let ?m = "m\<lparr>me_acquired_at := now, me_ttl := ttl, me_ref_count := me_ref_count m + 1\<rparr>"
  let ?c' = "AList.update lk ?m (AList.update lk (m\<lparr>me_acquired_at := now, me_ttl := ttl\<rparr>) ?c)"
  have "fifo_begin rd True now now now lk (Some s) ttl (c, r) = ((?c', r'), Some (me_token m))"
    using c x e(1) assms(4-6) by (simp add: fifo_begin_def try_reentrant_acquire_def fifo_extend_def truthy_def update_conv')
  moreover have "fifo_release_lock rd True now lk qk (me_token m) (?c', r') =
      (AList.update lk (?m\<lparr>me_ref_count := me_ref_count m\<rparr>) ?c', r')"
    using assms(8) by (simp add: fifo_release_lock_def update_conv' Let_def)
  ultimately show ?thesis using e(2) by (intro exI conjI) (assumption | simp add: update_conv')+
qed

section \<open>Where the strategies go wrong\<close>

text \<open>
  The mode is part of the key: while one client holds the write lock on a resource, another one obtains the read lock on it.
\<close>

theorem reader_and_writer_hold_together:
  assumes "redis_laws rd entry queue" "rd_get rd now (fifo_lock_key pre (res\<lparr>res_mode := WriteMode\<rparr>)) r = Some w"
    and "rd_get rd now (fifo_lock_key pre (res\<lparr>res_mode := ReadMode\<rparr>)) r = None"
    and "queue r (fifo_queue_key pre (res\<lparr>res_mode := ReadMode\<rparr>)) = []"
  shows "\<exists>r'. fair_acquire_script rd now (fifo_queue_key pre (res\<lparr>res_mode := ReadMode\<rparr>)) (fifo_lock_key pre (res\<lparr>res_mode := ReadMode\<rparr>))
      token ttl r = (r', True) \<and> rd_get rd now (fifo_lock_key pre (res\<lparr>res_mode := WriteMode\<rparr>)) r' = Some w"
proof -
  note law = redis_law [OF assms(1)]
  let ?qk = "fifo_queue_key pre (res\<lparr>res_mode := ReadMode\<rparr>)" and ?lk = "fifo_lock_key pre (res\<lparr>res_mode := ReadMode\<rparr>)"
  define r1 where "r1 = rd_zadd_nx rd ?qk now token r"
  have "queue r1 ?qk = [(now, token)]" using assms(4) by (simp add: r1_def law(10))
  then have rank: "rd_zrank rd ?qk token r1 = Some 0" by (simp add: law(12))
  have "entry r1 = entry r" by (simp add: r1_def law(11))
  then have "snd (rd_set_nx_px rd now ?lk token ttl r1)" using assms(3) by (simp add: law(1,2))
  then obtain r2 where "rd_set_nx_px rd now ?lk token ttl r1 = (r2, True)" by (metis prod.collapse)
  with rank have "fair_acquire_script rd now ?qk ?lk token ttl r = (rd_zrem rd ?qk token r2, True)"
    by (simp add: fair_acquire_script_def r1_def [symmetric] Let_def)
  then obtain r' where r': "fair_acquire_script rd now ?qk ?lk token ttl r = (r', True)" by blast
  have "?lk \<noteq> fifo_lock_key pre (res\<lparr>res_mode := WriteMode\<rparr>)" by (simp add: fifo_lock_key_def mode_text_def)
  with fair_acquire_script_effect [OF assms(1) r'] assms(2) have "rd_get rd now (fifo_lock_key pre (res\<lparr>res_mode := WriteMode\<rparr>)) r' = Some w"
    by (simp add: law(1))
  with r' show ?thesis by blast
qed

text \<open>
  A release with another token than the current one forgets the lock that the client holds: the server keeps it, but the session
  is no longer recognised and its next acquisition waits for itself.
\<close>

theorem foreign_release_forgets_lock:
  assumes "redis_laws rd entry queue" "map_of c lk = Some m" "me_token m \<noteq> token" "rd_get rd now lk r = Some (me_token m)"
  shows "\<exists>r'. fifo_release_lock rd True now lk qk token (c, r) = (AList.delete lk c, r') \<and> rd_get rd now lk r' = Some (me_token m) \<and>
    snd (fifo_begin rd True now now now lk session ttl (AList.delete lk c, r')) = None"
proof -
  have gone: "map_of (prune_expired_metadata now (AList.delete lk c)) lk = None"
    using AList.map_of_delete by (auto simp: prune_expired_metadata_def map_of_eq_None_iff AList.delete_eq)
  have "fifo_release_lock rd True now lk qk token (c, r) = (AList.delete lk c, release_script rd now lk qk token r)"
    using assms(2,3) by (simp add: fifo_release_lock_def)
  moreover have "rd_get rd now lk (release_script rd now lk qk token r) = Some (me_token m)"
    using assms(3,4) release_script_effect [OF assms(1), of now lk qk token r] by (simp add: redis_law(1) [OF assms(1)])
  ultimately show ?thesis using gone by (simp add: fifo_begin_def try_reentrant_acquire_def)
qed

text \<open>
  The lifetime that a client records starts when it reads the answer, the one on the server when the script ran: with any delay in
  between, the client still counts the lock as its own when the server has already let it go.
\<close>

theorem belief_outlives_lock:
  assumes "redis_laws rd entry queue" "fifo_poll rd True sent now lk qk token session ttl (c, r) = ((c', r'), Inr (Some token))" "sent < now"
  shows "\<exists>m. map_of c' lk = Some m \<and> meta_live (sent + ttl) m \<and> rd_get rd (sent + ttl) lk r' = None"
proof -
  have s: "fair_acquire_script rd sent qk lk token ttl r = (r', True)"
    and c': "map_of c' lk = Some \<lparr>me_acquired_at = now, me_ttl = ttl, me_session = session, me_token = token, me_ref_count = 1\<rparr>"
    using assms(2) by (auto simp: fifo_poll_def update_conv' split: prod.splits bool.splits)
  have "rd_get rd (sent + ttl) lk r' = None"
    using fair_acquire_script_effect [OF assms(1) s] by (simp add: redis_law(1) [OF assms(1)] live_value_def)
  with c' assms(3) show ?thesis by (simp add: meta_live_def)
qed

section \<open>Majorities\<close>

lemma rsplit_colon_token:
  assumes "CHR '':'' \<notin> set i"
  shows "rsplit_colon (key @ CHR '':'' # i) = Some (key, i)"
proof -
  have t: "takeWhile (\<lambda>x. x \<noteq> CHR '':'') (rev i @ CHR '':'' # rev key) = rev i" "dropWhile (\<lambda>x. x \<noteq> CHR '':'') (rev i @ CHR '':'' # rev key) = CHR '':'' # rev key"
    using assms by (subst takeWhile_append2 dropWhile_append2; auto)+
  show ?thesis using t by (simp add: rsplit_colon_def)
qed

lemma extend_nodes_holders:
  assumes "redis_laws rd entry queue"
  shows "length (filter snd (extend_nodes rd now key i ttl ups nodes)) \<le> length (filter (\<lambda>r. rd_get rd now key r = Some i) nodes)"
proof (induction nodes arbitrary: ups)
  case (Cons r nodes)
  show ?case
  proof (cases ups)
    case (Cons u us)
    have "snd (extend_script rd now key i ttl r) \<Longrightarrow> rd_get rd now key r = Some i" by (auto simp: extend_script_def split: if_splits)
    then show ?thesis using Cons.IH [of us] Cons by (auto simp: extend_nodes_def)
  qed (simp add: extend_nodes_def)
qed (simp add: extend_nodes_def)

lemma filter_two_values:
  assumes "x \<noteq> y"
  shows "length (filter (\<lambda>r. f r = x) rs) + length (filter (\<lambda>r. f r = y) rs) \<le> length rs"
  using assms by (induction rs) auto

text \<open>
  only one lock id has a majority: when two extensions for the same key succeed on the same servers, whichever of them answer
  each time, they are for the same id.
\<close>

theorem redlock_extension_exclusive:
  assumes "redis_laws rd entry queue" "length nodes \<le> urls" "CHR '':'' \<notin> set i" "CHR '':'' \<notin> set j"
    and "snd (redlock_extend rd urls ups now (key @ '':'' @ i) ttl (c, nodes))"
    and "snd (redlock_extend rd urls ups' now (key @ '':'' @ j) ttl' (c', nodes))"
  shows "i = j"
proof (rule ccontr)
  assume "i \<noteq> j"
  have maj: "urls div 2 < length (filter (\<lambda>r. rd_get rd now key r = Some x) nodes)"
    if "snd (redlock_extend rd urls us now (key @ '':'' @ x) t (d, nodes))" "CHR '':'' \<notin> set x" for us x t d
    using that extend_nodes_holders [OF assms(1), of now key x t us nodes]
    by (auto simp: redlock_extend_def rsplit_colon_token Let_def split: if_splits)
  have "length (filter (\<lambda>r. rd_get rd now key r = Some i) nodes) + length (filter (\<lambda>r. rd_get rd now key r = Some j) nodes) \<le> length nodes"
    using filter_two_values [of "Some i" "Some j" "rd_get rd now key" nodes] \<open>i \<noteq> j\<close> by simp
  with maj [OF assms(5,3)] maj [OF assms(6,4)] assms(2) show False by linarith
qed

text \<open>
  A release counts down whatever lock the key has, without comparing ids: the late release of an expired lock makes the first of two
  releases of the current, nested holder free the lock on the servers.
\<close>

theorem stale_release_opens_lock:
  assumes "map_of c key = Some m" "me_ref_count m = 2" "me_token m = i" "i \<noteq> j" "CHR '':'' \<notin> set i" "CHR '':'' \<notin> set j"
    and "redlock_release rl now (key @ '':'' @ j) (c, nodes) = (c1, nodes1)"
  shows "nodes1 = nodes \<and> map_option me_token (map_of c1 key) = Some i \<and>
    redlock_release rl now' (key @ '':'' @ i) (c1, nodes1) = (AList.delete key c1, fst (rl_unlock rl now' key i nodes))"
proof -
  have "c1 = AList.update key (m\<lparr>me_ref_count := 1\<rparr>) c" "nodes1 = nodes"
    using assms(1,2,7) by (auto simp: redlock_release_def rsplit_colon_token [OF assms(6)] Let_def)
  then show ?thesis using assms(3) by (simp add: redlock_release_def rsplit_colon_token [OF assms(5)] update_conv' delete_update_same Let_def)
qed

section \<open>Witnesses\<close>

text \<open>A server that keeps its values and sorted sets as functions.\<close>

type_synonym mem_redis_state = "(string \<Rightarrow> (string \<times> time) option) \<times> (string \<Rightarrow> (time \<times> string) list)"

definition mem_redis :: "mem_redis_state redis" where
  "mem_redis =
     \<lparr>rd_get = (\<lambda>now k r. live_value now (fst r k)),
      rd_set_nx_px = (\<lambda>now k v ttl r. if live_value now (fst r k) = None then (((fst r)(k := Some (v, now + ttl)), snd r), True) else (r, False)),
      rd_del = (\<lambda>k r. ((fst r)(k := None), snd r)),
      rd_pexpire = (\<lambda>now k ttl r. case live_value now (fst r k) of None \<Rightarrow> (r, False) | Some v \<Rightarrow> (((fst r)(k := Some (v, now + ttl)), snd r), True)),
      rd_zadd_nx = (\<lambda>k s m r. if m \<in> snd ` set (snd r k) then r else (fst r, (snd r)(k := insort (s, m) (snd r k)))),
      rd_zrank = (\<lambda>k m r. rank_of m (snd r k)),
      rd_zrem = (\<lambda>k m r. (fst r, (snd r)(k := filter (\<lambda>x. snd x \<noteq> m) (snd r k))))\<rparr>"

lemma mem_redis_laws: "redis_laws mem_redis fst snd"
  by (auto simp: redis_laws_def mem_redis_def split: option.splits)

definition empty_redis :: mem_redis_state where
  "empty_redis = ((\<lambda>k. None), (\<lambda>k. []))"

definition ex_held :: mem_redis_state where
  "ex_held = ((\<lambda>k. None)(''K'' := Some (''t1'', 130)), (\<lambda>k. []))"

definition ex_meta :: lock_meta where
  "ex_meta = \<lparr>me_acquired_at = 100, me_ttl = 30, me_session = Some ''s'', me_token = ''t1'', me_ref_count = 1\<rparr>"

lemma ex_held_get: "rd_get mem_redis 110 ''K'' ex_held = Some ''t1''"
  by (simp add: mem_redis_def ex_held_def live_value_def)

definition ex_granted :: mem_redis_state where
  "ex_granted = ((\<lambda>k. if k = ''K'' then Some (''t1'', 130) else None), (\<lambda>k. []))"

definition ex_w0 :: "mem_redis_state fifo_world" where
  "ex_w0 = \<lparr>fw_now = 100, fw_redis = empty_redis, fw_clients = (\<lambda>p. []), fw_pending = (\<lambda>p. None), fw_told = (\<lambda>p k. False)\<rparr>"

text \<open>The script runs at 100, its answer is read at 104, and at 110 the client counts on the lock.\<close>

definition ex_w1 :: "mem_redis_state fifo_world" where
  "ex_w1 = issued mem_redis 0 (PollCall ''K'' ''Q'' ''t1'' (Some ''s'') 30) True ex_w0"

definition ex_w2 :: "mem_redis_state fifo_world" where
  "ex_w2 = ex_w1\<lparr>fw_now := fw_now ex_w1 + 4\<rparr>"

definition ex_w3 :: "mem_redis_state fifo_world" where
  "ex_w3 = delivered mem_redis 0 (the (fw_pending ex_w2 0)) True ex_w2"

definition ex_w4 :: "mem_redis_state fifo_world" where
  "ex_w4 = ex_w3\<lparr>fw_now := fw_now ex_w3 + 6\<rparr>"

lemma ex_script: "fair_acquire_script mem_redis 100 ''Q'' ''K'' ''t1'' 30 empty_redis = (ex_granted, True)"
  by (auto simp: fair_acquire_script_def mem_redis_def empty_redis_def ex_granted_def live_value_def Let_def fun_eq_iff)

lemma ex_w1_state: "fw_now ex_w1 = 100" "fw_redis ex_w1 = ex_granted" "fw_clients ex_w1 = (\<lambda>p. [])"
  "fw_pending ex_w1 = (\<lambda>p. None)(0 := Some \<lparr>pn_call = PollCall ''K'' ''Q'' ''t1'' (Some ''s'') 30, pn_sent = 100, pn_redis = empty_redis, pn_reached = True\<rparr>)"
  by (simp_all add: ex_w1_def issued_def ex_w0_def fifo_poll_parts(1) ex_script)

lemma ex_reach: "fifo_reach mem_redis (\<lambda>t. 0) 5 ex_w0 ex_w4"
proof -
  have "fifo_step mem_redis (\<lambda>t. 0) 5 ex_w0 ex_w1" unfolding ex_w1_def by (rule fifo_step.Issue) (simp_all add: ex_w0_def)
  moreover have "fifo_step mem_redis (\<lambda>t. 0) 5 ex_w1 ex_w2" unfolding ex_w2_def by (rule fifo_step.Pass) simp
  moreover have "fifo_step mem_redis (\<lambda>t. 0) 5 ex_w2 ex_w3"
    unfolding ex_w3_def by (rule fifo_step.Deliver) (simp_all add: ex_w2_def ex_w1_state)
  moreover have "fifo_step mem_redis (\<lambda>t. 0) 5 ex_w3 ex_w4" unfolding ex_w4_def by (rule fifo_step.Pass) simp
  ultimately show ?thesis by (meson converse_rtranclp_into_rtranclp rtranclp.rtrancl_refl)
qed

theorem fifo_lock_exclusion_witness: "rd_get mem_redis 110 ''K'' ex_granted = Some ''t1''"
proof -
  let ?m = "\<lparr>me_acquired_at = 104, me_ttl = 30, me_session = Some ''s'', me_token = ''t1'', me_ref_count = 1\<rparr>"
  have state: "fw_now ex_w4 = 110" "fw_redis ex_w4 = ex_granted" "fw_clients ex_w4 0 = [(''K'', ?m)]"
    "fw_pending ex_w4 0 = None" "fw_told ex_w4 0 ''K''"
    by (simp_all add: ex_w4_def ex_w3_def ex_w2_def delivered_def ex_w1_state fifo_poll_parts(2) ex_script told_after_def)
  then have h: "counts_on 5 ex_w4 0 ''K'' ?m" by (simp add: counts_on_def)
  have "\<forall>p. fw_clients ex_w0 p = [] \<and> fw_pending ex_w0 p = None" by (simp add: ex_w0_def)
  from fifo_lock_exclusion [OF mem_redis_laws _ this ex_reach h h] show ?thesis by (simp add: state)
qed

theorem belief_outlives_lock_witness:
  "\<exists>m. map_of (fst (fst (fifo_poll mem_redis True 100 105 ''K'' ''Q'' ''t1'' None 30 ([], empty_redis)))) ''K'' = Some m \<and> meta_live 130 m"
proof -
  have "fifo_poll mem_redis True 100 105 ''K'' ''Q'' ''t1'' None 30 ([], empty_redis) =
      ((fst (fst (fifo_poll mem_redis True 100 105 ''K'' ''Q'' ''t1'' None 30 ([], empty_redis))),
        snd (fst (fifo_poll mem_redis True 100 105 ''K'' ''Q'' ''t1'' None 30 ([], empty_redis)))), Inr (Some ''t1''))"
    by (simp add: fifo_poll_def fair_acquire_script_def mem_redis_def empty_redis_def live_value_def Let_def)
  from belief_outlives_lock [OF mem_redis_laws this] show ?thesis by auto
qed

theorem fifo_serves_head_witness:
  "\<exists>r'. fair_acquire_script mem_redis 20 ''Q'' ''K'' ''t1'' 30 ((\<lambda>k. None), (\<lambda>k. [(5, ''t1''), (7, ''t2'')])) = (r', True) \<and>
     rd_get mem_redis 20 ''K'' ((\<lambda>k. None), (\<lambda>k. [(5, ''t1''), (7, ''t2'')])) = None"
proof -
  let ?r = "((\<lambda>k. None), (\<lambda>k. [(5, ''t1''), (7, ''t2'')]))"
  have s: "fair_acquire_script mem_redis 20 ''Q'' ''K'' ''t1'' 30 ?r =
      (((\<lambda>k. None)(''K'' := Some (''t1'', 50)), (\<lambda>k. [(5, ''t1''), (7, ''t2'')])(''Q'' := [(7, ''t2'')])), True)"
    by (simp add: fair_acquire_script_def mem_redis_def live_value_def Let_def)
  from fifo_serves_head [OF mem_redis_laws _ _ s, of 7 "''t2''"] show ?thesis by (simp add: s)
qed

theorem dead_waiter_blocks_queue_witness:
  "True \<notin> set (snd (fair_polls mem_redis ''Q'' ''K'' [(10, ''t2'', 30), (20, ''t3'', 30), (1000, ''t2'', 30)] ((\<lambda>k. None), (\<lambda>k. [(5, ''t1'')]))))"
  by (rule dead_waiter_blocks_queue [OF mem_redis_laws]) auto

theorem reentrant_lock_counts_witness:
  "\<exists>c' r' m'. fifo_begin mem_redis True 110 110 110 ''K'' (Some ''s'') 30 ([(''K'', ex_meta)], ex_held) = ((c', r'), Some ''t1'') \<and>
     map_of c' ''K'' = Some m' \<and> me_ref_count m' = 2"
  using reentrant_lock_counts [OF mem_redis_laws, of "[(''K'', ex_meta)]" "''K''" ex_meta "''s''" 110 ex_held 30 "''Q''"]
    ex_held_get
  by (auto simp: ex_meta_def meta_live_def)

theorem reader_and_writer_hold_together_witness:
  "\<exists>r'. snd (fair_acquire_script mem_redis 110 ''L:queue:A:1:read'' ''L:A:1:read'' ''t2'' 30 ((\<lambda>k. None)(''L:A:1:write'' := Some (''t1'', 130)), (\<lambda>k. []))) \<and>
     rd_get mem_redis 110 ''L:A:1:write'' r' = Some ''t1''"
  using reader_and_writer_hold_together [OF mem_redis_laws, where pre = "''L''" and res = "\<lparr>res_type = ''A'', res_id = ''1'', res_mode = WriteMode\<rparr>"
      and now = 110 and w = "''t1''" and r = "((\<lambda>k. None)(''L:A:1:write'' := Some (''t1'', 130)), (\<lambda>k. []))" and token = "''t2''" and ttl = 30]
  by (auto simp: fifo_lock_key_def fifo_queue_key_def mode_text_def mem_redis_def live_value_def)

theorem foreign_release_forgets_lock_witness:
  "\<exists>r'. fifo_release_lock mem_redis True 110 ''K'' ''Q'' ''t0'' ([(''K'', ex_meta)], ex_held) = ([], r') \<and> rd_get mem_redis 110 ''K'' r' = Some ''t1''"
  using foreign_release_forgets_lock [OF mem_redis_laws, of "[(''K'', ex_meta)]" "''K''" ex_meta "''t0''" 110 ex_held "''Q''" None 1] ex_held_get
  by (auto simp: ex_meta_def)

theorem redlock_extension_exclusive_witness:
  "snd (redlock_extend mem_redis 3 [True, True, True] 110 ''K:t1'' 30 ([], [ex_held, ex_held, empty_redis])) \<and>
   (snd (redlock_extend mem_redis 3 [True, True, True] 110 ''K:t2'' 30 ([], [ex_held, ex_held, empty_redis])) \<longrightarrow> ''t1'' = ''t2'')"
proof -
  have "snd (redlock_extend mem_redis 3 [True, True, True] 110 (''K'' @ '':'' @ ''t1'') 30 ([], [ex_held, ex_held, empty_redis]))"
    by (simp add: redlock_extend_def rsplit_colon_def extend_nodes_def extend_script_def mem_redis_def ex_held_def empty_redis_def live_value_def)
  from redlock_extension_exclusive [OF mem_redis_laws _ _ _ this, of "''t2''" "[True, True, True]" 30 "[]"] this
  show ?thesis by auto
qed

theorem stale_release_opens_lock_witness:
  "redlock_release \<lparr>rl_acquire = (\<lambda>now k t to n. (n, NoLock)), rl_unlock = (\<lambda>now k i n. ([], None))\<rparr> 120 ''K:t1''
     (redlock_release \<lparr>rl_acquire = (\<lambda>now k t to n. (n, NoLock)), rl_unlock = (\<lambda>now k i n. ([], None))\<rparr> 110 ''K:t0''
        ([(''K'', ex_meta\<lparr>me_ref_count := 2\<rparr>)], [empty_redis])) = ([], [])"
proof -
  let ?rl = "\<lparr>rl_acquire = (\<lambda>now k t to n. (n, NoLock)), rl_unlock = (\<lambda>now k i n. ([], None))\<rparr>"
  have s: "redlock_release ?rl 110 (''K'' @ '':'' @ ''t0'') ([(''K'', ex_meta\<lparr>me_ref_count := 2\<rparr>)], [empty_redis]) =
      ([(''K'', ex_meta\<lparr>me_ref_count := 1\<rparr>)], [empty_redis])"
    by (simp add: redlock_release_def rsplit_colon_def)
  from stale_release_opens_lock [OF _ _ _ _ _ _ s, where i = "''t1''" and m = "ex_meta\<lparr>me_ref_count := 2\<rparr>" and now' = 120] s
  show ?thesis by (simp add: ex_meta_def)
qed

end
