(* ===== verification/Persistence.thy ===== *)
theory Persistence
  imports Repository
begin

text \<open>
  Choosing the handler for an entity, and caching in front of stores: \<^verbatim>\<open>PersistenceRegistry\<close> and
  \<^verbatim>\<open>PersistenceDispatcher\<close> (persistence/dispatcher.py), \<^verbatim>\<open>CachingPersistenceDispatcher\<close> (persistence/caching.py) and
  \<^verbatim>\<open>CachingRepository\<close> (core adapters/decorators/caching_repository.py).

  Handlers, units of work and the cache are ports: their methods are parameters.  Entities and read models are values
  with an id; a class is its name.  The instrumentation around the calls runs them unchanged.
\<close>

section \<open>Registry\<close>

record handler_entry =
  he_handler :: string
  he_source :: string
  he_priority :: int

record persistence_registry =
  pg_operations :: "(string, handler_entry list) dict"
  pg_retrievals :: "(string, handler_entry) dict"
  pg_queries :: "(string, handler_entry) dict"
  pg_query_specs :: "(string, handler_entry) dict"

definition new_persistence_registry :: persistence_registry where
  "new_persistence_registry = \<lparr>pg_operations = [], pg_retrievals = [], pg_queries = [], pg_query_specs = []\<rparr>"

definition get_operation_entries :: "persistence_registry \<Rightarrow> string \<Rightarrow> handler_entry list" where
  "get_operation_entries rg ty = (case map_of (pg_operations rg) ty of None \<Rightarrow> [] | Some es \<Rightarrow> es)"

text \<open>\<^verbatim>\<open>list.sort(reverse=True)\<close> keeps the order of equal elements.\<close>

definition register_operation :: "string \<Rightarrow> string \<Rightarrow> string \<Rightarrow> int \<Rightarrow> persistence_registry \<Rightarrow> persistence_registry" where
  "register_operation ty cls source priority rg =
     (let es = get_operation_entries rg ty
      in if cls \<in> set (map he_handler es) then rg
         else rg\<lparr>pg_operations := AList.update ty
                (sort_key (\<lambda>e. - he_priority e) (es @ [\<lparr>he_handler = cls, he_source = source, he_priority = priority\<rparr>])) (pg_operations rg)\<rparr>)"

definition register_retrieval :: "string \<Rightarrow> string \<Rightarrow> string \<Rightarrow> persistence_registry \<Rightarrow> persistence_registry" where
  "register_retrieval ty cls source rg =
     rg\<lparr>pg_retrievals := AList.update ty \<lparr>he_handler = cls, he_source = source, he_priority = 0\<rparr> (pg_retrievals rg)\<rparr>"

definition register_query_entry :: "string \<Rightarrow> string \<Rightarrow> string \<Rightarrow> persistence_registry \<Rightarrow> persistence_registry" where
  "register_query_entry ty cls source rg =
     rg\<lparr>pg_queries := AList.update ty \<lparr>he_handler = cls, he_source = source, he_priority = 0\<rparr> (pg_queries rg)\<rparr>"

definition register_query_spec :: "string \<Rightarrow> string \<Rightarrow> string \<Rightarrow> persistence_registry \<Rightarrow> persistence_registry" where
  "register_query_spec ty cls source rg =
     rg\<lparr>pg_query_specs := AList.update ty \<lparr>he_handler = cls, he_source = source, he_priority = 0\<rparr> (pg_query_specs rg)\<rparr>"

definition get_retrieval_entry :: "persistence_registry \<Rightarrow> string \<Rightarrow> handler_entry option" where
  "get_retrieval_entry rg ty = map_of (pg_retrievals rg) ty"

definition get_query_entry :: "persistence_registry \<Rightarrow> string \<Rightarrow> handler_entry option" where
  "get_query_entry rg ty = map_of (pg_queries rg) ty"

definition get_query_spec_entry :: "persistence_registry \<Rightarrow> string \<Rightarrow> handler_entry option" where
  "get_query_spec_entry rg ty = map_of (pg_query_specs rg) ty"

section \<open>Dispatcher\<close>

text \<open>A unit of work as a context manager: what entering makes, and what leaving does with an exception or without.\<close>

record ('u, 'w) uow_factory =
  uf_enter :: "'w \<Rightarrow> 'w \<times> 'u"
  uf_exit :: "'u \<Rightarrow> exn option \<Rightarrow> 'w \<Rightarrow> 'w \<times> exn option"

definition in_uow :: "('u, 'w) uow_factory \<Rightarrow> ('u \<Rightarrow> 'w \<Rightarrow> 'w \<times> (exn + 'a)) \<Rightarrow> 'w \<Rightarrow> 'w \<times> (exn + 'a)" where
  "in_uow f body w =
     (case uf_enter f w of (w, u) \<Rightarrow>
        case body u w of (w, r) \<Rightarrow>
          (case uf_exit f u (case r of Inl e \<Rightarrow> Some e | Inr _ \<Rightarrow> None) w of
             (w, Some x) \<Rightarrow> (w, Inl x)
           | (w, None) \<Rightarrow> (w, r)))"

text \<open>The methods of handler objects, by handler class.  \<open>'q\<close> are specifications and query options.\<close>

record ('e, 'u, 'ev, 'q, 'w) persistence_dispatcher =
  pd_registry :: persistence_registry
  pd_uow_factories :: "(string, ('u, 'w) uow_factory) dict"
  pd_type_of :: "'e \<Rightarrow> string"
  pd_persist :: "string \<Rightarrow> 'e \<Rightarrow> 'u \<Rightarrow> 'ev list option \<Rightarrow> 'w \<Rightarrow> 'w \<times> (exn + string)"
  pd_retrieve :: "string \<Rightarrow> string list \<Rightarrow> 'u \<Rightarrow> 'q option \<Rightarrow> 'w \<Rightarrow> 'w \<times> (exn + 'e list)"
  pd_fetch_ids :: "string \<Rightarrow> string list \<Rightarrow> 'u \<Rightarrow> 'q option \<Rightarrow> 'w \<Rightarrow> 'w \<times> (exn + 'e list)"
  pd_fetch_spec :: "string \<Rightarrow> 'q \<Rightarrow> 'u \<Rightarrow> 'w \<Rightarrow> 'w \<times> (exn + 'e list)"
  pd_stream_spec :: "string \<Rightarrow> 'q \<Rightarrow> 'u \<Rightarrow> int option \<Rightarrow> 'w \<Rightarrow> 'w \<times> 'e list \<times> exn option"

definition no_handler_for :: "string \<Rightarrow> string \<Rightarrow> exn" where
  "no_handler_for what ty = HandlerNotRegisteredError (''No '' @ what @ '' handler for '' @ ty)"

definition no_source :: "string \<Rightarrow> exn" where
  "no_source source = SourceNotRegisteredError (''No UnitOfWork factory registered for source '' @ quoted source)"

text \<open>A call with the given unit of work, or in a new one of the source.\<close>

definition with_uow ::
  "('e, 'u, 'ev, 'q, 'w) persistence_dispatcher \<Rightarrow> string \<Rightarrow> 'u option \<Rightarrow> ('u \<Rightarrow> 'w \<Rightarrow> 'w \<times> (exn + 'a)) \<Rightarrow> 'w \<Rightarrow> 'w \<times> (exn + 'a)" where
  "with_uow pd source uow call w =
     (case uow of
        Some u \<Rightarrow> call u w
      | None \<Rightarrow> (case map_of (pd_uow_factories pd) source of
                   None \<Rightarrow> (w, Inl (no_source source)) | Some f \<Rightarrow> in_uow f call w))"

definition pd_apply :: "('e, 'u, 'ev, 'q, 'w) persistence_dispatcher \<Rightarrow> 'e \<Rightarrow> 'u option \<Rightarrow> 'ev list option \<Rightarrow> 'w \<Rightarrow> 'w \<times> (exn + string)" where
  "pd_apply pd entity uow events w =
     (case get_operation_entries (pd_registry pd) (pd_type_of pd entity) of
        [] \<Rightarrow> (w, Inl (no_handler_for ''IOperationPersistence'' (''entity '' @ pd_type_of pd entity)))
      | e # _ \<Rightarrow> with_uow pd (he_source e) uow (\<lambda>u. pd_persist pd (he_handler e) entity u events) w)"

definition fetch_domain ::
  "('e, 'u, 'ev, 'q, 'w) persistence_dispatcher \<Rightarrow> string \<Rightarrow> string list \<Rightarrow> 'u option \<Rightarrow> 'q option \<Rightarrow> 'w \<Rightarrow> 'w \<times> (exn + 'e list)" where
  "fetch_domain pd ty ids uow spec w =
     (case get_retrieval_entry (pd_registry pd) ty of
        None \<Rightarrow> (w, Inl (no_handler_for ''IRetrievalPersistence'' ty))
      | Some e \<Rightarrow> with_uow pd (he_source e) uow (\<lambda>u. pd_retrieve pd (he_handler e) ids u spec) w)"

definition fetch_by_ids ::
  "('e, 'u, 'ev, 'q, 'w) persistence_dispatcher \<Rightarrow> string \<Rightarrow> string list \<Rightarrow> 'u option \<Rightarrow> 'q option \<Rightarrow> 'w \<Rightarrow> 'w \<times> (exn + 'e list)" where
  "fetch_by_ids pd ty ids uow spec w =
     (case get_query_entry (pd_registry pd) ty of
        None \<Rightarrow> (w, Inl (no_handler_for ''ID-based IQueryPersistence'' ty))
      | Some e \<Rightarrow> with_uow pd (he_source e) uow (\<lambda>u. pd_fetch_ids pd (he_handler e) ids u spec) w)"

text \<open>A generator: what it yielded, and the exception that ended it, if any.\<close>

fun yield_batches :: "(string list \<Rightarrow> 'w \<Rightarrow> 'w \<times> (exn + 'e list)) \<Rightarrow> nat \<Rightarrow> string list \<Rightarrow> 'w \<Rightarrow> 'w \<times> 'e list \<times> exn option" where
  "yield_batches f n [] w = (w, [], None)"
| "yield_batches f n (x # xs) w =
     (case f (take (Suc n) (x # xs)) w of
        (w, Inl e) \<Rightarrow> (w, [], Some e)
      | (w, Inr items) \<Rightarrow> (case yield_batches f n (drop n xs) w of (w, rest, e) \<Rightarrow> (w, items @ rest, e)))"

definition yield_all :: "'w \<times> (exn + 'e list) \<Rightarrow> 'w \<times> 'e list \<times> exn option" where
  "yield_all r = (case r of (w, Inl e) \<Rightarrow> (w, [], Some e) | (w, Inr items) \<Rightarrow> (w, items, None))"

definition ids_as_stream ::
  "('e, 'u, 'ev, 'q, 'w) persistence_dispatcher \<Rightarrow> string \<Rightarrow> string list \<Rightarrow> 'u option \<Rightarrow> int option \<Rightarrow> 'q option \<Rightarrow> 'w \<Rightarrow> 'w \<times> 'e list \<times> exn option" where
  "ids_as_stream pd ty ids uow batch_size spec w =
     (case batch_size of
        Some b \<Rightarrow> if 0 < b then yield_batches (\<lambda>batch. fetch_by_ids pd ty batch uow spec) (nat b - 1) ids w
                  else yield_all (fetch_by_ids pd ty ids uow spec w)
      | None \<Rightarrow> yield_all (fetch_by_ids pd ty ids uow spec w))"

record ('e, 'w) search_result =
  rs_list :: "'w \<Rightarrow> 'w \<times> (exn + 'e list)"
  rs_stream :: "int option \<Rightarrow> 'w \<Rightarrow> 'w \<times> 'e list \<times> exn option"

definition search_result_for_specification ::
  "('e, 'u, 'ev, 'q, 'w) persistence_dispatcher \<Rightarrow> string \<Rightarrow> 'q \<Rightarrow> 'u option \<Rightarrow> exn + ('e, 'w) search_result" where
  "search_result_for_specification pd ty spec uow =
     (case get_query_spec_entry (pd_registry pd) ty of
        None \<Rightarrow> Inl (no_handler_for ''Specification-based IQueryPersistence'' ty)
      | Some e \<Rightarrow>
          Inr \<lparr>rs_list = with_uow pd (he_source e) uow (\<lambda>u. pd_fetch_spec pd (he_handler e) spec u),
               rs_stream = (\<lambda>batch_size w. case uow of
                  Some u \<Rightarrow> pd_stream_spec pd (he_handler e) spec u batch_size w
                | None \<Rightarrow> (w, [], Some (ValueError ''Streaming requires an explicit UnitOfWork to keep the session alive for the duration of iteration.'')))\<rparr>)"

text \<open>
  Criteria of a query: ids, one id that is a text (in Python a sequence of its characters), another id, a specification, or
  query options (which have a specification but are none).  Where options are taken for an id, the id is their text.
\<close>

datatype 'q fetch_criteria = Ids "string list" | TextId string | OtherId string | BySpec 'q | ByOptions 'q

definition fetch ::
  "('e, 'u, 'ev, 'q, 'w) persistence_dispatcher \<Rightarrow> string \<Rightarrow> 'q fetch_criteria \<Rightarrow> 'u option \<Rightarrow> 'q option \<Rightarrow> exn + ('e, 'w) search_result" where
  "fetch pd ty criteria uow spec =
     (let by_ids = (\<lambda>ids. Inr \<lparr>rs_list = fetch_by_ids pd ty ids uow spec, rs_stream = (\<lambda>b. ids_as_stream pd ty ids uow b spec)\<rparr>)
      in case criteria of
           BySpec q \<Rightarrow> search_result_for_specification pd ty q uow
         | ByOptions q \<Rightarrow> search_result_for_specification pd ty q uow
         | Ids ids \<Rightarrow> by_ids ids
         | TextId s \<Rightarrow> by_ids (map (\<lambda>c. [c]) s)
         | OtherId i \<Rightarrow> by_ids [i])"

section \<open>Caching dispatcher\<close>

record ('v, 'w) cache_service =
  ca_get :: "string \<Rightarrow> 'w \<Rightarrow> 'w \<times> (exn + 'v option)"
  ca_set :: "string \<Rightarrow> 'v \<Rightarrow> int \<Rightarrow> 'w \<Rightarrow> 'w \<times> exn option"
  ca_delete :: "string \<Rightarrow> 'w \<Rightarrow> 'w \<times> exn option"
  ca_get_batch :: "string list \<Rightarrow> 'w \<Rightarrow> 'w \<times> (exn + 'v option list)"
  ca_set_batch :: "(string \<times> 'v) list \<Rightarrow> int \<Rightarrow> 'w \<Rightarrow> 'w \<times> exn option"
  ca_delete_batch :: "string list \<Rightarrow> 'w \<Rightarrow> 'w \<times> exn option"

definition get_cached_values :: "('v, 'w) cache_service \<Rightarrow> string list \<Rightarrow> 'w \<Rightarrow> 'w \<times> 'v option list" where
  "get_cached_values ca keys w = (case ca_get_batch ca keys w of (w, Inr vs) \<Rightarrow> (w, vs) | (w, Inl e) \<Rightarrow> (w, replicate (length keys) None))"

definition cached_present :: "'v option list \<Rightarrow> 'v list" where
  "cached_present vs = map the (filter (\<lambda>v. v \<noteq> None) vs)"

definition missing_ids :: "string list \<Rightarrow> 'v option list \<Rightarrow> string list" where
  "missing_ids ids vs = map fst (filter (\<lambda>(i, v). v = None) (zip ids vs))"

definition prepare_cache_entries :: "('v \<Rightarrow> string option) \<Rightarrow> string \<Rightarrow> 'v list \<Rightarrow> (string \<times> 'v) list" where
  "prepare_cache_entries ident key_part items =
     map (\<lambda>v. (key_part @ '':'' @ the (ident v), v)) (filter (\<lambda>v. truthy (ident v)) items)"

definition update_cache :: "('v, 'w) cache_service \<Rightarrow> int \<Rightarrow> (string \<times> 'v) list \<Rightarrow> 'w \<Rightarrow> 'w" where
  "update_cache ca ttl to_cache w = (if to_cache = [] then w else fst (ca_set_batch ca to_cache ttl w))"

definition read_through ::
  "('v, 'w) cache_service \<Rightarrow> ('v \<Rightarrow> string option) \<Rightarrow> int \<Rightarrow> string \<Rightarrow> string \<Rightarrow> string list \<Rightarrow> (string list \<Rightarrow> 'w \<Rightarrow> 'w \<times> (exn + 'v list)) \<Rightarrow>
     'w \<Rightarrow> 'w \<times> (exn + 'v list)" where
  "read_through ca ident ttl name sfx ids fetch_func w =
     (case get_cached_values ca (map (\<lambda>i. name @ sfx @ '':'' @ i) ids) w of (w, vs) \<Rightarrow>
        if length vs \<noteq> length ids then (w, Inl (ValueError ''zip() argument 2 has another length than argument 1''))
        else if missing_ids ids vs = [] then (w, Inr (cached_present vs))
        else (case fetch_func (missing_ids ids vs) w of
                (w, Inl e) \<Rightarrow> (w, Inl e)
              | (w, Inr fresh) \<Rightarrow>
                  (update_cache ca ttl (prepare_cache_entries ident (name @ sfx) fresh) w, Inr (cached_present vs @ fresh))))"

definition cached_apply ::
  "('e, 'u, 'ev, 'q, 'w) persistence_dispatcher \<Rightarrow> ('e, 'w) cache_service \<Rightarrow> 'e \<Rightarrow> 'u option \<Rightarrow> 'ev list option \<Rightarrow> 'w \<Rightarrow> 'w \<times> (exn + string)" where
  "cached_apply pd ca entity uow events w =
     (case pd_apply pd entity uow events w of
        (w, Inl e) \<Rightarrow> (w, Inl e)
      | (w, Inr i) \<Rightarrow>
          (fst (ca_delete_batch ca [pd_type_of pd entity @ '':'' @ i, pd_type_of pd entity @ '':query:'' @ i] w), Inr i))"

definition cached_fetch_domain ::
  "('e, 'u, 'ev, 'q, 'w) persistence_dispatcher \<Rightarrow> ('e, 'w) cache_service \<Rightarrow> ('e \<Rightarrow> string option) \<Rightarrow> int \<Rightarrow> string \<Rightarrow> string list \<Rightarrow> 'u option \<Rightarrow>
     'q option \<Rightarrow> 'w \<Rightarrow> 'w \<times> (exn + 'e list)" where
  "cached_fetch_domain pd ca ident ttl ty ids uow spec =
     read_through ca ident ttl ty [] ids (\<lambda>missing. fetch_domain pd ty missing uow spec)"

text \<open>
  The function that should fetch the missing read models hands \<^verbatim>\<open>coroutine.__await__()\<close> to \<^verbatim>\<open>await\<close>, which refuses such an
  iterator.
\<close>

definition unawaitable :: exn where
  "unawaitable = TypeError ''object coroutine_wrapper cannot be used in await expression''"

definition criteria_ids :: "('q \<Rightarrow> string) \<Rightarrow> 'q fetch_criteria \<Rightarrow> string list" where
  "criteria_ids show_q criteria =
     (case criteria of
        Ids ids \<Rightarrow> ids | TextId s \<Rightarrow> map (\<lambda>c. [c]) s | OtherId i \<Rightarrow> [i] | BySpec q \<Rightarrow> [] | ByOptions q \<Rightarrow> [show_q q])"

definition stream_in_batches ::
  "(string list \<Rightarrow> 'w \<Rightarrow> 'w \<times> (exn + 'e list)) \<Rightarrow> nat \<Rightarrow> string list \<Rightarrow> 'w \<Rightarrow> 'w \<times> 'e list \<times> exn option" where
  "stream_in_batches f n ids w = yield_batches f n ids w"

definition cached_fetch ::
  "('e, 'u, 'ev, 'q, 'w) persistence_dispatcher \<Rightarrow> ('e, 'w) cache_service \<Rightarrow> ('e \<Rightarrow> string option) \<Rightarrow> int \<Rightarrow> ('q \<Rightarrow> string) \<Rightarrow> string \<Rightarrow>
     'q fetch_criteria \<Rightarrow> 'u option \<Rightarrow> 'q option \<Rightarrow> exn + ('e, 'w) search_result" where
  "cached_fetch pd ca ident ttl show_q ty criteria uow spec =
     (case criteria of
        BySpec q \<Rightarrow> fetch pd ty criteria uow spec
      | _ \<Rightarrow>
          (let ids = criteria_ids show_q criteria;
               list_fn = read_through ca ident ttl ty '':query'' ids (\<lambda>missing w. (w, Inl unawaitable))
           in Inr \<lparr>rs_list = list_fn,
                   rs_stream = (\<lambda>b w. case b of
                      Some n \<Rightarrow> if 0 < n then stream_in_batches (\<lambda>batch. fetch_by_ids pd ty batch uow spec) (nat n - 1) ids w
                                else yield_all (list_fn w)
                    | None \<Rightarrow> yield_all (list_fn w))\<rparr>))"

section \<open>CachingRepository\<close>

text \<open>Around the in-memory repository, with the state of the cache beside it.\<close>

type_synonym ('a, 'k) cached_repo = "(string, 'a) mem_repo \<times> 'k"

definition entity_key :: "string \<Rightarrow> string \<Rightarrow> string" where
  "entity_key name i = name @ '':'' @ i"

definition caching_get :: "('a, 'k) cache_service \<Rightarrow> string \<Rightarrow> int \<Rightarrow> string \<Rightarrow> 'a spec_opt \<Rightarrow> ('a, 'k) cached_repo \<Rightarrow> ('a, 'k) cached_repo \<times> 'a option" where
  "caching_get ca name ttl i spec st =
     (case st of (r, k) \<Rightarrow>
        (case ca_get ca (entity_key name i) k of
           (k, Inr (Some v)) \<Rightarrow> ((r, k), Some v)
         | (k, _) \<Rightarrow>
             (case repo_get r i spec of
                None \<Rightarrow> ((r, k), None)
              | Some x \<Rightarrow> ((r, fst (ca_set ca (entity_key name i) x ttl k)), Some x))))"

definition caching_add :: "('a, 'k) cache_service \<Rightarrow> string \<Rightarrow> ('a \<Rightarrow> string) \<Rightarrow> 'a \<Rightarrow> ('a, 'k) cached_repo \<Rightarrow> ('a, 'k) cached_repo \<times> string" where
  "caching_add ca name ident x st =
     (case st of (r, k) \<Rightarrow>
        (case repo_add ident r x of (r, i) \<Rightarrow> ((r, fst (ca_delete ca (entity_key name i) k)), i)))"

definition caching_delete :: "('a, 'k) cache_service \<Rightarrow> string \<Rightarrow> string \<Rightarrow> 'a spec_opt \<Rightarrow> ('a, 'k) cached_repo \<Rightarrow> ('a, 'k) cached_repo \<times> string" where
  "caching_delete ca name i spec st =
     (case st of (r, k) \<Rightarrow>
        (case repo_delete r i spec of (r, i) \<Rightarrow> ((r, fst (ca_delete ca (entity_key name i) k)), i)))"

definition add_results :: "(string \<times> 'a) list \<Rightarrow> (string, 'a) dict \<Rightarrow> (string, 'a) dict" where
  "add_results ps d = fold (\<lambda>(i, v). AList.update i v) ps d"

definition cached_pairs :: "string list \<Rightarrow> 'a option list \<Rightarrow> (string \<times> 'a) list" where
  "cached_pairs ids vs = map (\<lambda>(i, v). (i, the v)) (filter (\<lambda>(i, v). v \<noteq> None) (zip ids vs))"

definition fetch_and_cache_missing ::
  "('a, 'k) cache_service \<Rightarrow> string \<Rightarrow> ('a \<Rightarrow> string) \<Rightarrow> int \<Rightarrow> string list \<Rightarrow> 'a spec_opt \<Rightarrow> (string, 'a) dict \<Rightarrow> ('a, 'k) cached_repo \<Rightarrow>
     ('a, 'k) cached_repo \<times> (string, 'a) dict" where
  "fetch_and_cache_missing ca name ident ttl missing spec results st =
     (case st of (r, k) \<Rightarrow>
        let fresh = repo_list_all r (Some missing) spec;
            to_cache = map (\<lambda>x. (entity_key name (ident x), x)) fresh
        in ((r, update_cache ca ttl to_cache k), add_results (map (\<lambda>x. (ident x, x)) fresh) results))"

definition caching_list_all ::
  "('a, 'k) cache_service \<Rightarrow> string \<Rightarrow> ('a \<Rightarrow> string) \<Rightarrow> int \<Rightarrow> string list option \<Rightarrow> 'a spec_opt \<Rightarrow> ('a, 'k) cached_repo \<Rightarrow>
     ('a, 'k) cached_repo \<times> 'a list" where
  "caching_list_all ca name ident ttl ids spec st =
     (case ids of
        None \<Rightarrow> (st, repo_list_all (fst st) None spec)
      | Some ids \<Rightarrow>
          if ids = [] then (st, [])
          else (case get_cached_values ca (map (entity_key name) ids) (snd st) of (k, vs) \<Rightarrow>
                  let results = add_results (cached_pairs ids vs) [];
                      missing = missing_ids ids vs
                  in case (if missing = [] then ((fst st, k), results)
                           else fetch_and_cache_missing ca name ident ttl missing spec results (fst st, k)) of
                       (st, results) \<Rightarrow> (st, List.map_filter (map_of results) ids)))"

definition caching_search :: "('a \<Rightarrow> bool) \<Rightarrow> ('a, 'k) cached_repo \<Rightarrow> 'a list" where
  "caching_search p st = repo_search (fst st) p"

section \<open>The cache is transparent\<close>

text \<open>
  What the cache promises, over what it holds (\<open>look\<close>): a value that it returns is held, and entries may vanish at any time; a
  deletion that succeeds removes the entry.
\<close>

definition cache_laws :: "('a, 'k) cache_service \<Rightarrow> ('k \<Rightarrow> string \<Rightarrow> 'a option) \<Rightarrow> bool" where
  "cache_laws ca look \<longleftrightarrow>
     (\<forall>key c. look (fst (ca_get ca key c)) \<subseteq>\<^sub>m look c \<and> (\<forall>v. snd (ca_get ca key c) = Inr (Some v) \<longrightarrow> look c key = Some v)) \<and>
     (\<forall>key v t c. look (fst (ca_set ca key v t c)) \<subseteq>\<^sub>m (look c)(key \<mapsto> v)) \<and>
     (\<forall>key c. snd (ca_delete ca key c) = None \<longrightarrow> look (fst (ca_delete ca key c)) \<subseteq>\<^sub>m (look c)(key := None)) \<and>
     (\<forall>key c. look (fst (ca_delete ca key c)) \<subseteq>\<^sub>m look c) \<and>
     (\<forall>keys c. look (fst (ca_get_batch ca keys c)) \<subseteq>\<^sub>m look c \<and>
        (\<forall>vs. snd (ca_get_batch ca keys c) = Inr vs \<longrightarrow> list_all2 (\<lambda>key v. v \<noteq> None \<longrightarrow> look c key = v) keys vs)) \<and>
     (\<forall>kvs t c. look (fst (ca_set_batch ca kvs t c)) \<subseteq>\<^sub>m look c ++ map_of (rev kvs))"

definition coherent :: "('k \<Rightarrow> string \<Rightarrow> 'a option) \<Rightarrow> string \<Rightarrow> ('a, 'k) cached_repo \<Rightarrow> bool" where
  "coherent look name st \<longleftrightarrow> (\<forall>i v. look (snd st) (entity_key name i) = Some v \<longrightarrow> map_of (fst st) i = Some v)"

lemma entity_key_inj [simp]: "entity_key name i = entity_key name j \<longleftrightarrow> i = j"
  by (simp add: entity_key_def)

lemma cache_law:
  assumes "cache_laws ca look"
  shows "look (fst (ca_get ca key c)) \<subseteq>\<^sub>m look c" "snd (ca_get ca key c) = Inr (Some v) \<Longrightarrow> look c key = Some v"
    "look (fst (ca_set ca key v t c)) \<subseteq>\<^sub>m (look c)(key \<mapsto> v)"
    "snd (ca_delete ca key c) = None \<Longrightarrow> look (fst (ca_delete ca key c)) \<subseteq>\<^sub>m (look c)(key := None)"
    "look (fst (ca_get_batch ca keys c)) \<subseteq>\<^sub>m look c"
    "snd (ca_get_batch ca keys c) = Inr vs \<Longrightarrow> list_all2 (\<lambda>key v. v \<noteq> None \<longrightarrow> look c key = v) keys vs"
    "look (fst (ca_set_batch ca kvs t c)) \<subseteq>\<^sub>m look c ++ map_of (rev kvs)"
  using assms unfolding cache_laws_def by simp_all

lemma coherent_write:
  assumes "look k' \<subseteq>\<^sub>m f" "\<And>i v. f (entity_key name i) = Some v \<Longrightarrow> map_of r i = Some v"
  shows "coherent look name (r, k')"
proof -
  have "f x = Some v" if "look k' x = Some v" for x v using assms(1) that unfolding map_le_def by (metis domI)
  with assms(2) show ?thesis by (simp add: coherent_def)
qed

lemma coherentD: "coherent look name (r, k) \<Longrightarrow> look k (entity_key name i) = Some v \<Longrightarrow> map_of r i = Some v"
  by (simp add: coherent_def)

lemma coherent_le:
  assumes "look k' \<subseteq>\<^sub>m look k" "coherent look name (r, k)"
  shows "coherent look name (r, k')"
  by (rule coherent_write [where look = look, OF assms(1)]) (rule coherentD [OF assms(2)])

lemma coherent_get:
  assumes "cache_laws ca look" "coherent look name (r, k)"
  shows "coherent look name (fst (caching_get ca name ttl i spec (r, k))) \<and> fst (fst (caching_get ca name ttl i spec (r, k))) = r \<and>
    (spec = None \<longrightarrow> snd (caching_get ca name ttl i spec (r, k)) = repo_get r i None)"
proof -
  obtain k1 x where g: "ca_get ca (entity_key name i) k = (k1, x)" by force
  have k1: "coherent look name (r, k1)" using coherent_le [OF cache_law(1) [OF assms(1), of "entity_key name i" k] assms(2)] g by simp
  have hit: "x = Inr (Some v) \<Longrightarrow> map_of r i = Some v" for v
    using cache_law(2) [OF assms(1), of "entity_key name i" k v] g coherentD [OF assms(2)] by simp
  have set: "coherent look name (r, fst (ca_set ca (entity_key name i) v ttl k1))" if "map_of r i = Some v" for v
    by (rule coherent_write [where look = look, OF cache_law(3) [OF assms(1)]]) (use that coherentD [OF k1] in \<open>auto split: if_splits\<close>)
  show ?thesis
    using k1 hit set by (auto simp: caching_get_def g repo_get_def split: sum.splits option.splits)
qed

lemma coherent_invalidate:
  assumes "cache_laws ca look" "coherent look name (r, k)" "snd (ca_delete ca (entity_key name i) k) = None" "\<And>j. j \<noteq> i \<Longrightarrow> map_of r' j = map_of r j"
  shows "coherent look name (r', fst (ca_delete ca (entity_key name i) k))"
  by (rule coherent_write [where look = look, OF cache_law(4) [OF assms(1,3)]]) (use assms(4) coherentD [OF assms(2)] in \<open>auto split: if_splits\<close>)

lemma map_of_add_results: "map_of (add_results ps d) = map_of d ++ map_of (rev ps)"
proof -
  have "map_of (fold (\<lambda>(i, v). AList.update i v) ps d) = map_of d ++ map_of (rev ps)"
    by (induction ps arbitrary: d) (auto simp: update_conv' map_add_def fun_eq_iff split: option.splits)
  then show ?thesis by (simp add: add_results_def)
qed

lemma map_of_rev_le:
  assumes "\<And>i v. (i, v) \<in> set ps \<Longrightarrow> f i = Some v" "map_of (rev ps) i = Some v"
  shows "f i = Some v"
  using assms by (metis map_of_SomeD set_rev)

lemma listed_values:
  assumes "repo_ok ident r" "x \<in> set (repo_list_all r (Some js) None)"
  shows "map_of r (ident x) = Some x" "ident x \<in> set js"
proof -
  obtain i where "(i, x) \<in> set r" "i \<in> set js" using assms(2) by (auto simp: repo_list_all_def)
  then show "map_of r (ident x) = Some x" "ident x \<in> set js" using assms(1) by (auto simp: repo_ok_def list_all_iff)
qed

lemma listed_complete:
  assumes "map_of r i = Some x" "i \<in> set js"
  shows "x \<in> set (repo_list_all r (Some js) None)"
  using map_of_SomeD [OF assms(1)] assms(2) by (force simp: repo_list_all_def)

lemma coherent_list:
  assumes "cache_laws ca look" "coherent look name (r, k)" "repo_ok ident r"
  shows "coherent look name (fst (caching_list_all ca name ident ttl (Some ids) None (r, k))) \<and>
    fst (fst (caching_list_all ca name ident ttl (Some ids) None (r, k))) = r \<and>
    snd (caching_list_all ca name ident ttl (Some ids) None (r, k)) = List.map_filter (map_of r) ids"
proof (cases "ids = []")
  case True
  then show ?thesis using assms(2) by (simp add: caching_list_all_def List.map_filter_def)
next
  case False
  obtain k1 vs where g: "get_cached_values ca (map (entity_key name) ids) k = (k1, vs)" by force
  have k1: "coherent look name (r, k1)"
    using coherent_le [OF cache_law(5) [OF assms(1), of "map (entity_key name) ids" k] assms(2)] g
    by (auto simp: get_cached_values_def split: prod.splits sum.splits)
  have vs: "list_all2 (\<lambda>i v. v \<noteq> None \<longrightarrow> map_of r i = v) ids vs"
  proof (cases "snd (ca_get_batch ca (map (entity_key name) ids) k)")
    case (Inl e)
    then have "vs = replicate (length ids) None" using g by (auto simp: get_cached_values_def split: prod.splits)
    then show ?thesis by (simp add: list_all2_conv_all_nth)
  next
    case (Inr us)
    then have "us = vs" using g by (auto simp: get_cached_values_def split: prod.splits)
    with cache_law(6) [OF assms(1) Inr] show ?thesis
      using coherentD [OF assms(2)] by (auto simp: list_all2_conv_all_nth)
  qed
  then have len: "length vs = length ids" by (simp add: list_all2_lengthD)
  define cached where "cached = cached_pairs ids vs"
  have cached: "map_of r i = Some v" if "(i, v) \<in> set cached" for i v
    using that vs by (auto simp: cached_def cached_pairs_def list_all2_iff)
  define missing where "missing = missing_ids ids vs"
  define fresh where "fresh = repo_list_all r (Some missing) None"
  have split: "i \<in> fst ` set cached \<or> i \<in> set missing" if i: "i \<in> set ids" for i
  proof -
    obtain v where "(i, v) \<in> set (zip ids vs)" by (rule in_set_impl_in_set_zip1 [OF len [symmetric] i])
    then show ?thesis by (cases v) (force simp: cached_def cached_pairs_def missing_def missing_ids_def)+
  qed
  have sub: "set missing \<subseteq> set ids" by (auto simp: missing_def missing_ids_def dest: set_zip_leftD)
  define ps where "ps = cached @ (if missing = [] then [] else map (\<lambda>x. (ident x, x)) fresh)"
  have ps: "map_of r i = Some v" if "(i, v) \<in> set ps" for i v
    using that cached listed_values [OF assms(3)] by (auto simp: ps_def fresh_def split: if_splits)
  have all: "map_of (rev ps) i = map_of r i" if i: "i \<in> set ids" for i
  proof (cases "map_of (rev ps) i")
    case (Some v)
    then show ?thesis using map_of_rev_le [of ps "map_of r", OF ps] by simp
  next
    case None
    then have none: "i \<notin> fst ` set ps" by (simp add: map_of_eq_None_iff)
    then have m: "i \<in> set missing" using split [OF i] by (auto simp: ps_def)
    have "map_of r i = None"
    proof (rule ccontr)
      assume "map_of r i \<noteq> None"
      then obtain x where x: "map_of r i = Some x" by auto
      then have "x \<in> set fresh" "ident x = i" using listed_complete [OF x m] repo_ok_get [OF assms(3) x] by (simp_all add: fresh_def)
      then have "(i, x) \<in> set ps" using m by (auto simp: ps_def)
      with none show False by force
    qed
    with None show ?thesis by simp
  qed
  have stored: "coherent look name (r, update_cache ca ttl (map (\<lambda>x. (entity_key name (ident x), x)) fresh) k1)"
  proof (cases "fresh = []")
    case False
    have "map_of r i = Some v"
      if "(look k1 ++ map_of (rev (map (\<lambda>x. (entity_key name (ident x), x)) fresh))) (entity_key name i) = Some v" for i v
    proof (cases "map_of (rev (map (\<lambda>x. (entity_key name (ident x), x)) fresh)) (entity_key name i)")
      case None
      then show ?thesis using that coherentD [OF k1] by (simp add: map_add_def)
    next
      case (Some u)
      then have "u = v" "(entity_key name i, v) \<in> set (map (\<lambda>x. (entity_key name (ident x), x)) fresh)"
        using that map_of_SomeD [OF Some] by (auto simp: map_add_def)
      then show ?thesis using listed_values [OF assms(3)] by (auto simp: fresh_def)
    qed
    from coherent_write [where look = look, OF cache_law(7) [OF assms(1)] this] False show ?thesis by (simp add: update_cache_def)
  qed (simp add: update_cache_def k1)
  have res: "map_of (add_results ps []) i = map_of (rev ps) i" for i by (simp add: map_of_add_results)
  have join: "add_results xs (add_results ys []) = add_results (ys @ xs) []" for xs ys :: "(string \<times> 'a) list"
    by (simp add: add_results_def)
  show ?thesis
    using False g k1 stored all res
    by (auto simp: caching_list_all_def fetch_and_cache_missing_def cached_def [symmetric] missing_def [symmetric] fresh_def [symmetric]
        join ps_def Let_def List.map_filter_def intro!: map_cong filter_cong split: if_splits)
qed

text \<open>The calls of a client, and what an entity map answers to them.\<close>

datatype 'a repo_call = GetCall string | AddCall 'a | DeleteCall string "'a spec_opt" | ListCall "string list"

fun caching_call ::
  "('a, 'k) cache_service \<Rightarrow> string \<Rightarrow> ('a \<Rightarrow> string) \<Rightarrow> int \<Rightarrow> 'a repo_call \<Rightarrow> ('a, 'k) cached_repo \<Rightarrow> ('a, 'k) cached_repo \<times> 'a list" where
  "caching_call ca name ident ttl (GetCall i) st =
     (case caching_get ca name ttl i None st of (st, x) \<Rightarrow> (st, case x of None \<Rightarrow> [] | Some v \<Rightarrow> [v]))"
| "caching_call ca name ident ttl (AddCall x) st = (fst (caching_add ca name ident x st), [])"
| "caching_call ca name ident ttl (DeleteCall i spec) st = (fst (caching_delete ca name i spec st), [])"
| "caching_call ca name ident ttl (ListCall ids) st = caching_list_all ca name ident ttl (Some ids) None st"

fun map_call :: "('a \<Rightarrow> string) \<Rightarrow> 'a repo_call \<Rightarrow> (string \<Rightarrow> 'a option) \<Rightarrow> (string \<Rightarrow> 'a option) \<times> 'a list" where
  "map_call ident (GetCall i) m = (m, case m i of None \<Rightarrow> [] | Some v \<Rightarrow> [v])"
| "map_call ident (AddCall x) m = (m(ident x \<mapsto> x), [])"
| "map_call ident (DeleteCall i spec) m =
     (case (spec, m i) of (Some p, Some x) \<Rightarrow> if \<not> p x then (m, []) else (m(i := None), []) | _ \<Rightarrow> (m(i := None), []))"
| "map_call ident (ListCall ids) m = (m, List.map_filter m ids)"

fun answer_calls :: "('c \<Rightarrow> 's \<Rightarrow> 's \<times> 'o) \<Rightarrow> 'c list \<Rightarrow> 's \<Rightarrow> 's \<times> 'o list" where
  "answer_calls f [] s = (s, [])"
| "answer_calls f (c # cs) s = (case f c s of (s, x) \<Rightarrow> case answer_calls f cs s of (s, xs) \<Rightarrow> (s, x # xs))"

definition cached_ok :: "('k \<Rightarrow> string \<Rightarrow> 'a option) \<Rightarrow> string \<Rightarrow> ('a \<Rightarrow> string) \<Rightarrow> ('a, 'k) cached_repo \<Rightarrow> bool" where
  "cached_ok look name ident st \<longleftrightarrow> coherent look name st \<and> repo_ok ident (fst st)"

lemma caching_call_refines:
  assumes "cache_laws ca look" "\<And>key k. snd (ca_delete ca key k) = None" "cached_ok look name ident st"
  shows "cached_ok look name ident (fst (caching_call ca name ident ttl c st)) \<and>
    map_call ident c (map_of (fst st)) = (map_of (fst (fst (caching_call ca name ident ttl c st))), snd (caching_call ca name ident ttl c st))"
proof -
  obtain r k where st: "st = (r, k)" by (cases st)
  have ok: "coherent look name (r, k)" "repo_ok ident r" using assms(3) by (simp_all add: cached_ok_def st)
  have other: "map_of (fst (repo_delete r i spec)) j = map_of r j" if "j \<noteq> i" for i spec j
    using that by (auto simp: repo_delete_def delete_conv' split: option.splits)
  show ?thesis
  proof (cases c)
    case (GetCall i)
    then show ?thesis using coherent_get [OF assms(1) ok(1), of ttl i None] ok(2)
      by (auto simp: st cached_ok_def repo_get_def split: prod.splits option.splits)
  next
    case (AddCall x)
    have "coherent look name (AList.update (ident x) x r, fst (ca_delete ca (entity_key name (ident x)) k))"
      by (rule coherent_invalidate [OF assms(1) ok(1) assms(2)]) (simp add: update_conv')
    then show ?thesis using AddCall repo_ok_update [OF ok(2)] by (simp add: st caching_add_def repo_add_def cached_ok_def update_conv')
  next
    case (DeleteCall i spec)
    have "coherent look name (fst (repo_delete r i spec), fst (ca_delete ca (entity_key name i) k))"
      by (rule coherent_invalidate [OF assms(1) ok(1) assms(2) other])
    then show ?thesis using DeleteCall repo_ok_delete [OF ok(2)] ok(2)
      by (auto simp: st caching_delete_def repo_delete_def cached_ok_def delete_conv' split: option.splits)
  next
    case (ListCall ids)
    then show ?thesis using coherent_list [OF assms(1) ok, of ttl ids] ok(2) by (simp add: st cached_ok_def)
  qed
qed

text \<open>
  C17: the cache is transparent for reads without a specification: any sequence of gets and lists by ids that carry none, of additions,
  and of deletions with or without a specification is answered as a map from ids to entities would answer it, as long as
  deleting a cache entry does not fail; entries that expire or are lost, and failing reads and writes of the cache, make no
  difference.  A get or list by ids that carries a specification is not covered: a cached entity is returned without testing it.
\<close>

theorem caching_repository_refines_map:
  assumes "cache_laws ca look" "\<And>key k. snd (ca_delete ca key k) = None" "cached_ok look name ident st"
    and "answer_calls (caching_call ca name ident ttl) cs st = (st', outs)"
  shows "answer_calls (map_call ident) cs (map_of (fst st)) = (map_of (fst st'), outs) \<and> cached_ok look name ident st'"
  using assms(3,4)
proof (induction cs arbitrary: st outs)
  case (Cons c cs)
  obtain st1 x where c: "caching_call ca name ident ttl c st = (st1, x)" by (metis surj_pair)
  obtain xs where cs: "answer_calls (caching_call ca name ident ttl) cs st1 = (st', xs)" "outs = x # xs"
    using Cons.prems(2) c by (auto split: prod.splits)
  from caching_call_refines [OF assms(1,2) Cons.prems(1), of ttl c] c
  have "cached_ok look name ident st1" "map_call ident c (map_of (fst st)) = (map_of (fst st1), x)" by auto
  with Cons.IH [OF _ cs(1)] cs(2) show ?case by simp
qed simp

text \<open>
  A hit in the cache is returned whatever the specification says: an entity that the specification excludes, such as one of
  another tenant, is handed out.
\<close>

theorem cached_get_ignores_specification:
  assumes "ca_get ca (entity_key name i) k = (k', Inr (Some v))" "\<not> p v" "map_of r i = Some v"
  shows "snd (caching_get ca name ttl i (Some p) (r, k)) = Some v \<and> repo_get r i (Some p) = None"
  using assms by (simp add: caching_get_def repo_get_def satisfies_def)

section \<open>Which handler runs\<close>

text \<open>The head of a stable sort is the first of the least elements.\<close>

lemma hd_sort_key:
  fixes g :: "'a \<Rightarrow> int"
  assumes "xs \<noteq> []"
  shows "\<exists>pre x post. xs = pre @ x # post \<and> hd (sort_key g xs) = x \<and> (\<forall>y \<in> set pre. g x < g y) \<and> (\<forall>y \<in> set post. g x \<le> g y)"
  using assms
proof (induction xs)
  case (Cons a xs)
  show ?case
  proof (cases "xs = []")
    case True
    then show ?thesis by (intro exI [of _ "[]"]) simp
  next
    case False
    then obtain pre x post where x: "xs = pre @ x # post" "hd (sort_key g xs) = x" "\<forall>y \<in> set pre. g x < g y" "\<forall>y \<in> set post. g x \<le> g y"
      using Cons.IH by blast
    obtain z zs where z: "sort_key g xs = z # zs" using False by (cases "sort_key g xs") (auto dest: arg_cong [of _ _ length])
    show ?thesis
    proof (cases "g a \<le> g x")
      case True
      then have "hd (sort_key g (a # xs)) = a" using x(2) z by simp
      moreover have "\<forall>y \<in> set xs. g a \<le> g y" using x True by auto
      ultimately show ?thesis by (intro exI [of _ "[]"] exI [of _ a] exI [of _ xs]) simp
    next
      case False
      then have "hd (sort_key g (a # xs)) = x" using x(2) z by simp
      then show ?thesis using False x by (intro exI [of _ "a # pre"] exI [of _ x] exI [of _ post]) simp
    qed
  qed
qed simp

text \<open>Registrations for one entity type, as class, source and priority.\<close>

definition register_operations :: "string \<Rightarrow> (string \<times> string \<times> int) list \<Rightarrow> persistence_registry \<Rightarrow> persistence_registry" where
  "register_operations ty regs rg = fold (\<lambda>(cls, source, priority). register_operation ty cls source priority) regs rg"

lemma sort_key_append1:
  "sort_key f (sort_key f xs @ [x]) = sort_key f (xs @ [x])"
proof -
  have stable: "filter (\<lambda>z. f k = f z) (sort_key f ys) = filter (\<lambda>z. f k = f z) ys" for k ys
    using sort_key_stable [of f "f k" ys] by (simp only: eq_commute)
  show ?thesis
    by (rule properties_for_sort_key [symmetric]) (simp_all add: stable)
qed

lemma register_operation_entries:
  assumes "cls \<notin> set (map he_handler es)" "get_operation_entries rg ty = sort_key (\<lambda>e. - he_priority e) es"
  shows "get_operation_entries (register_operation ty cls source priority rg) ty =
    sort_key (\<lambda>e. - he_priority e) (es @ [\<lparr>he_handler = cls, he_source = source, he_priority = priority\<rparr>])"
  using assms by (simp add: register_operation_def get_operation_entries_def sort_key_append1 update_conv' Let_def)

text \<open>
  the handler with the highest priority writes: after any registrations of distinct handler classes for a type, the first entry is one
  of highest priority, and of those the one registered first.
\<close>

theorem highest_priority_first:
  assumes "distinct (map fst regs)" "regs \<noteq> []" "map_of (pg_operations rg) ty = None"
  shows "\<exists>pre cls source priority post. regs = pre @ (cls, source, priority) # post \<and>
    hd (get_operation_entries (register_operations ty regs rg) ty) = \<lparr>he_handler = cls, he_source = source, he_priority = priority\<rparr> \<and>
    (\<forall>(_, _, p) \<in> set pre. p < priority) \<and> (\<forall>(_, _, p) \<in> set post. p \<le> priority)"
proof -
  let ?e = "\<lambda>(cls, source, priority). \<lparr>he_handler = cls, he_source = source, he_priority = priority\<rparr>"
  have entries: "get_operation_entries (fold (\<lambda>(cls, source, priority). register_operation ty cls source priority) rs rg') ty =
      sort_key (\<lambda>e. - he_priority e) (es @ map ?e rs)"
    if "get_operation_entries rg' ty = sort_key (\<lambda>e. - he_priority e) es" "distinct (map he_handler (es @ map ?e rs))" for rs rg' es
    using that
  proof (induction rs arbitrary: rg' es)
    case (Cons x rs)
    obtain cls source priority where x: "x = (cls, source, priority)" by (cases x)
    have "get_operation_entries (register_operation ty cls source priority rg') ty = sort_key (\<lambda>e. - he_priority e) (es @ [?e x])"
      using register_operation_entries [OF _ Cons.prems(1)] Cons.prems(2) by (auto simp: x)
    from Cons.IH [OF this] Cons.prems(2) show ?case by (simp add: x)
  qed simp
  have names: "map he_handler (map ?e regs) = map fst regs" by (induction regs) auto
  have all: "get_operation_entries (register_operations ty regs rg) ty = sort_key (\<lambda>e. - he_priority e) (map ?e regs)"
    unfolding register_operations_def
  proof (rule entries [of rg "[]" regs, unfolded append_Nil])
    show "get_operation_entries rg ty = sort_key (\<lambda>e. - he_priority e) []" using assms(3) by (simp add: get_operation_entries_def)
    show "distinct (map he_handler (map ?e regs))" unfolding names by (rule assms(1))
  qed
  obtain pre x post where x: "map ?e regs = pre @ x # post" "hd (sort_key (\<lambda>e. - he_priority e) (map ?e regs)) = x"
      "\<forall>y \<in> set pre. - he_priority x < - he_priority y" "\<forall>y \<in> set post. - he_priority x \<le> - he_priority y"
    using hd_sort_key [of "map ?e regs" "\<lambda>e. - he_priority e"] assms(2) by auto
  then obtain rs1 q rs2 where r: "regs = rs1 @ q # rs2" "map ?e rs1 = pre" "?e q = x" "map ?e rs2 = post"
    by (auto simp: map_eq_append_conv map_eq_Cons_conv)
  obtain cls source priority where q: "q = (cls, source, priority)" by (cases q)
  have p: "he_priority x = priority" using r(3) by (auto simp: q)
  have "\<forall>(_, _, p) \<in> set rs1. p < priority" using x(3) p by (auto simp: r(2) [symmetric])
  moreover have "\<forall>(_, _, p) \<in> set rs2. p \<le> priority" using x(4) p by (auto simp: r(4) [symmetric])
  ultimately show ?thesis
    using all x(2) r(1,3) by (intro exI [of _ rs1] exI [of _ cls] exI [of _ source] exI [of _ priority] exI [of _ rs2]) (auto simp: q)
qed

text \<open>
  streaming yields what listing returns: when fetching ids in two parts gives the two parts of the result (and fetching does not
  change the store), the batches of a stream together are the list.
\<close>

theorem batches_equal_list:
  assumes "\<And>xs ys. f (xs @ ys) = f xs @ f ys" "f [] = []" "\<And>ids. fetch_by_ids pd ty ids uow spec w = (w, Inr (f ids))"
  shows "ids_as_stream pd ty ids uow batch_size spec w = (w, f ids, None)"
proof -
  have "w' = w \<Longrightarrow> yield_batches (\<lambda>batch. fetch_by_ids pd ty batch uow spec) n ids w' = (w, f ids, None)" for n w'
  proof (induction "\<lambda>batch. fetch_by_ids pd ty batch uow spec" n ids w' rule: yield_batches.induct)
    case (2 n x xs w')
    have "f (x # xs) = f (x # take n xs) @ f (drop n xs)" using assms(1) [of "x # take n xs" "drop n xs"] by simp
    then show ?case using 2 assms(3) by simp
  qed (simp add: assms(2))
  then show ?thesis using assms(3) by (auto simp: ids_as_stream_def yield_all_def split: option.splits)
qed

section \<open>Witnesses\<close>

text \<open>A cache that keeps everything in a dict.\<close>

definition dict_cache :: "('v, (string, 'v) dict) cache_service" where
  "dict_cache = \<lparr>ca_get = (\<lambda>key c. (c, Inr (map_of c key))), ca_set = (\<lambda>key v ttl c. (AList.update key v c, None)),
     ca_delete = (\<lambda>key c. (AList.delete key c, None)), ca_get_batch = (\<lambda>keys c. (c, Inr (map (map_of c) keys))),
     ca_set_batch = (\<lambda>kvs ttl c. (rev kvs @ c, None)), ca_delete_batch = (\<lambda>keys c. (fold AList.delete keys c, None))\<rparr>"

lemma dict_cache_laws: "cache_laws dict_cache map_of"
  by (auto simp: cache_laws_def dict_cache_def update_conv' delete_conv' list_all2_map2 list_all2_same map_le_def)

theorem caching_repository_refines_map_witness:
  "cached_ok map_of ''Order'' (\<lambda>x. x) ([(''a'', ''a'')], []) \<and>
   (\<exists>st' outs. answer_calls (caching_call dict_cache ''Order'' (\<lambda>x. x) 60) [GetCall ''a'', AddCall ''b'', ListCall [''b'', ''a'']]
       ([(''a'', ''a'')], []) = (st', outs) \<and> outs = [[''a''], [], [''b'', ''a'']] \<and>
     answer_calls (map_call (\<lambda>x. x)) [GetCall ''a'', AddCall ''b'', ListCall [''b'', ''a'']] (map_of [(''a'', ''a'')]) = (map_of (fst st'), outs))"
proof -
  let ?cs = "[GetCall ''a'', AddCall ''b'', ListCall [''b'', ''a'']]"
  have ok: "cached_ok map_of ''Order'' (\<lambda>x. x) ([(''a'', ''a'')], [])" by (simp add: cached_ok_def coherent_def repo_ok_def)
  obtain st' outs where run: "answer_calls (caching_call dict_cache ''Order'' (\<lambda>x. x) 60) ?cs ([(''a'', ''a'')], []) = (st', outs)" by (metis surj_pair)
  have "snd (answer_calls (caching_call dict_cache ''Order'' (\<lambda>x. x) 60) ?cs ([(''a'', ''a'')], [])) = [[''a''], [], [''b'', ''a'']]"
    by code_simp
  then have "outs = [[''a''], [], [''b'', ''a'']]" using run by simp
  moreover have "answer_calls (map_call (\<lambda>x. x)) ?cs (map_of (fst ([(''a'', ''a'')], []))) = (map_of (fst st'), outs)"
    using caching_repository_refines_map [OF dict_cache_laws _ ok run] by (simp add: dict_cache_def)
  ultimately show ?thesis using ok run by auto
qed

theorem cached_get_ignores_specification_witness:
  "snd (caching_get dict_cache ''Order'' 60 ''a'' (Some (\<lambda>x. x = ''b'')) ([(''a'', ''a'')], [(''Order:a'', ''a'')])) = Some ''a'' \<and>
   repo_get [(''a'', ''a'')] ''a'' (Some (\<lambda>x. x = ''b'')) = None"
  by (rule cached_get_ignores_specification [of _ _ _ _ "[(''Order:a'', ''a'')]"]) (simp_all add: dict_cache_def entity_key_def)

theorem highest_priority_first_witness:
  "distinct (map fst [(''Slow'', ''pg'', 1), (''Fast'', ''redis'', 5 :: int)]) \<and>
   (\<exists>pre cls source priority post. [(''Slow'', ''pg'', 1), (''Fast'', ''redis'', 5)] = pre @ (cls, source, priority) # post \<and>
    hd (get_operation_entries (register_operations ''Order'' [(''Slow'', ''pg'', 1), (''Fast'', ''redis'', 5)] new_persistence_registry) ''Order'') =
      \<lparr>he_handler = cls, he_source = source, he_priority = priority\<rparr> \<and>
    (\<forall>(_, _, p) \<in> set pre. p < priority) \<and> (\<forall>(_, _, p) \<in> set post. p \<le> priority))"
  using highest_priority_first [of "[(''Slow'', ''pg'', 1), (''Fast'', ''redis'', 5)]" new_persistence_registry "''Order''"]
  by (simp add: new_persistence_registry_def)

text \<open>A dispatcher over a dict of read models: one query handler for one type.\<close>

definition dict_dispatcher :: "(string, unit, unit, unit, (string, string) dict) persistence_dispatcher" where
  "dict_dispatcher =
     \<lparr>pd_registry = register_query_entry ''OrderView'' ''OrderQuery'' ''main'' new_persistence_registry,
      pd_uow_factories = [(''main'', \<lparr>uf_enter = (\<lambda>w. (w, ())), uf_exit = (\<lambda>_ e w. (w, e))\<rparr>)],
      pd_type_of = (\<lambda>_. ''Order''),
      pd_persist = (\<lambda>_ x _ _ w. (AList.update x x w, Inr x)),
      pd_retrieve = (\<lambda>_ ids _ _ w. (w, Inr (List.map_filter (map_of w) ids))),
      pd_fetch_ids = (\<lambda>_ ids _ _ w. (w, Inr (List.map_filter (map_of w) ids))),
      pd_fetch_spec = (\<lambda>_ _ _ w. (w, Inr (map snd w))),
      pd_stream_spec = (\<lambda>_ _ _ _ w. (w, map snd w, None))\<rparr>"

lemma dict_dispatcher_fetch:
  "fetch_by_ids dict_dispatcher ''OrderView'' ids None spec w = (w, Inr (List.map_filter (map_of w) ids))"
  by (simp add: fetch_by_ids_def dict_dispatcher_def get_query_entry_def register_query_entry_def new_persistence_registry_def
      with_uow_def in_uow_def)

theorem batches_equal_list_witness:
  "ids_as_stream dict_dispatcher ''OrderView'' [''a'', ''b'', ''c''] None (Some 2) None [(''a'', ''A''), (''c'', ''C'')] =
     ([(''a'', ''A''), (''c'', ''C'')], [''A'', ''C''], None)"
proof -
  have "ids_as_stream dict_dispatcher ''OrderView'' [''a'', ''b'', ''c''] None (Some 2) None [(''a'', ''A''), (''c'', ''C'')] =
     ([(''a'', ''A''), (''c'', ''C'')], List.map_filter (map_of [(''a'', ''A''), (''c'', ''C'')]) [''a'', ''b'', ''c''], None)"
    by (rule batches_equal_list) (simp_all add: map_filter_def dict_dispatcher_fetch)
  then show ?thesis by (simp add: List.map_filter_def)
qed

section \<open>What the caching dispatcher does not do\<close>

text \<open>
  The caching dispatcher never fetches a read model that the cache lacks: listing raises a type error on every miss.
\<close>

theorem cached_fetch_never_fills:
  assumes "ca_get_batch ca (map (\<lambda>i. ty @ '':query'' @ '':'' @ i) ids) w = (w', Inr vs)" "length vs = length ids" "None \<in> set vs"
  shows "\<exists>rs. cached_fetch pd ca ident ttl show_q ty (Ids ids) uow spec = Inr rs \<and> rs_list rs w = (w', Inl unawaitable)"
proof -
  have "missing_ids ids vs \<noteq> []"
  proof -
    obtain i where "i < length vs" "vs ! i = None" using assms(3) by (metis in_set_conv_nth)
    then have "(ids ! i, None) \<in> set (zip ids vs)" using assms(2) by (metis in_set_zip fst_conv snd_conv)
    then show ?thesis by (force simp: missing_ids_def filter_empty_conv)
  qed
  then show ?thesis using assms(1,2) by (simp add: cached_fetch_def criteria_ids_def read_through_def get_cached_values_def Let_def)
qed

theorem cached_fetch_never_fills_witness:
  "\<exists>rs. cached_fetch dict_dispatcher dict_cache Some 60 (\<lambda>_. ''spec'') ''OrderView'' (Ids [''a'']) None None = Inr rs \<and>
     rs_list rs [(''a'', ''A'')] = ([(''a'', ''A'')], Inl unawaitable)"
  by (rule cached_fetch_never_fills [of _ _ _ _ _ "[None]"]) (simp_all add: dict_cache_def)

end
