(* ===== verification/MongoQuery.thy ===== *)
theory MongoQuery
  imports SpecLaws
begin

text \<open>
  Specifications as MongoDB queries: query_builder.py, operators and search_helpers.py of the MongoDB package.  Query documents
  are dictionaries, as the code builds them.  What the server makes of a query document is a parameter; \<open>mongo_laws\<close> are
  the documented meanings that the theorems need.

  Attribute names are texts: a truthy attribute of another type would become a key that the driver refuses.
\<close>

section \<open>Operators\<close>

definition mongo_query_error :: "string \<Rightarrow> exn" where
  "mongo_query_error msg = Other (''MongoQueryError: '' @ msg)"

text \<open>\<^verbatim>\<open>SpecificationOperator(op)\<close>, or nothing where it raises.\<close>

definition leaf_operator :: "'o pyval \<Rightarrow> spec_operator option" where
  "leaf_operator op = (case op of PStr s \<Rightarrow> (case operator_of s of Inr m \<Rightarrow> Some m | Inl _ \<Rightarrow> None) | _ \<Rightarrow> None)"

definition single :: "string \<Rightarrow> 'o pyval \<Rightarrow> 'o pyval" where
  "single k v = PDict [(k, v)]"

definition as_list :: "'o pyval \<Rightarrow> 'o pyval" where
  "as_list v = (case v of PList _ \<Rightarrow> v | _ \<Rightarrow> PList [v])"

definition MONGO_OP_MAP :: "(spec_operator \<times> string) list" where
  "MONGO_OP_MAP =
     [(EQ, ''$eq''), (NE, ''$ne''), (GT, ''$gt''), (GE, ''$gte''), (LT, ''$lt''), (LE, ''$lte''), (IN, ''$in''), (NOT_IN, ''$nin'')]"

definition validate_range_operand :: "'o pyval \<Rightarrow> string \<Rightarrow> exn + 'o pyval \<times> 'o pyval" where
  "validate_range_operand v op_name =
     (case v of PList [lo, hi] \<Rightarrow> Inr (lo, hi) | _ \<Rightarrow> Inl (mongo_query_error (op_name @ '' requires a list of two values'')))"

definition compile_standard :: "string \<Rightarrow> spec_operator \<Rightarrow> 'o pyval \<Rightarrow> exn + 'o pyval option" where
  "compile_standard fld m v =
     (case map_of MONGO_OP_MAP m of
        Some mongo_op \<Rightarrow> Inr (Some (single fld (single mongo_op (if m \<in> {IN, NOT_IN} then as_list v else v))))
      | None \<Rightarrow>
          if m = BETWEEN then
            map_sum id (\<lambda>(lo, hi). Some (single ''$and'' (PList [single fld (single ''$gte'' lo), single fld (single ''$lte'' hi)])))
              (validate_range_operand v ''between'')
          else if m = NOT_BETWEEN then
            map_sum id (\<lambda>(lo, hi). Some (single ''$or'' (PList [single fld (single ''$lt'' lo), single fld (single ''$gt'' hi)])))
              (validate_range_operand v ''not_between'')
          else Inr None)"

text \<open>\<^verbatim>\<open>re.escape\<close>: a backslash before the characters with a meaning in patterns.\<close>

definition re_special :: "char list" where
  "re_special = ''()[]{}?*+-|^$.&~# '' @ [CHR 0x5C, CHR 0x09, CHR 0x0A, CHR 0x0B, CHR 0x0C, CHR 0x0D]"

definition regex_escape :: "string \<Rightarrow> string" where
  "regex_escape s = concat (map (\<lambda>c. if c \<in> set re_special then [CHR 0x5C, c] else [c]) s)"

definition regex_query :: "string \<Rightarrow> string \<Rightarrow> bool \<Rightarrow> 'o pyval" where
  "regex_query fld pattern ignore_case =
     single fld (PDict [(''$regex'', PStr pattern), (''$options'', PStr (if ignore_case then ''i'' else []))])"

definition compile_string :: "string \<Rightarrow> spec_operator \<Rightarrow> 'o pyval \<Rightarrow> exn + 'o pyval option" where
  "compile_string fld m v =
     (case v of
        PStr s \<Rightarrow>
          (let i = m \<in> {ILIKE, ICONTAINS, ISTARTSWITH, IENDSWITH, IREGEX};
               like = CHR ''^'' # sql_pattern_to_regex (regex_escape s) @ ''$''
           in Inr (if m \<in> {CONTAINS, ICONTAINS} then Some (regex_query fld (regex_escape s) i)
                   else if m \<in> {STARTSWITH, ISTARTSWITH} then Some (regex_query fld (CHR ''^'' # regex_escape s) i)
                   else if m \<in> {ENDSWITH, IENDSWITH} then Some (regex_query fld (regex_escape s @ ''$'') i)
                   else if m \<in> {LIKE, ILIKE} then Some (regex_query fld like i)
                   else if m \<in> {REGEX, IREGEX} then Some (regex_query fld s i)
                   else if m = NOT_LIKE then Some (single fld (single ''$not'' (single ''$regex'' (PStr like))))
                   else None))
      | _ \<Rightarrow> Inl (mongo_query_error (''String operator '' @ op_value m @ '' requires string value'')))"

definition exists_not_null :: "'o pyval" where
  "exists_not_null = PDict [(''$exists'', PBool True), (''$ne'', PNone)]"

definition compile_jsonb :: "string \<Rightarrow> spec_operator \<Rightarrow> 'o pyval \<Rightarrow> exn + 'o pyval option" where
  "compile_jsonb fld m v =
     Inr (if m = JSON_HAS_KEY then Some (single fld exists_not_null)
          else if m = JSON_HAS_ANY then Some (single fld (single ''$in'' (as_list v)))
          else if m = JSON_HAS_ALL then Some (single fld (single ''$all'' (as_list v)))
          else if m = JSON_CONTAINS then Some (single fld (case v of PList _ \<Rightarrow> single ''$all'' v | _ \<Rightarrow> single ''$eq'' v))
          else if m = JSON_PATH_EXISTS then Some (single fld (single ''$exists'' (PBool True)))
          else None)"

definition compile_null :: "string \<Rightarrow> spec_operator \<Rightarrow> 'o pyval \<Rightarrow> exn + 'o pyval option" where
  "compile_null fld m v =
     (let absent = single fld (single ''$exists'' (PBool False)); null = single fld (single ''$eq'' PNone)
      in Inr (if m = IS_NULL then Some (single ''$or'' (PList [absent, null]))
              else if m = IS_NOT_NULL then Some (single fld exists_not_null)
              else if m = IS_EMPTY then
                Some (single ''$or'' (PList [absent, null, single fld (single ''$eq'' (PStr [])), single fld (single ''$size'' (PInt 0))]))
              else if m = IS_NOT_EMPTY then
                Some (single ''$and'' (PList [single fld (single ''$exists'' (PBool True)), single fld (single ''$ne'' PNone),
                  single fld (single ''$ne'' (PStr []))]))
              else None))"

definition compile_set :: "string \<Rightarrow> spec_operator \<Rightarrow> 'o pyval \<Rightarrow> exn + 'o pyval option" where
  "compile_set fld m v =
     Inr (if m = IN then Some (single fld (single ''$in'' (as_list v)))
          else if m = NOT_IN then Some (single fld (single ''$nin'' (as_list v)))
          else if m = ALL_OP then Some (single fld (single ''$all'' (as_list v)))
          else None)"

definition compile_geometry :: "string \<Rightarrow> spec_operator \<Rightarrow> 'o pyval \<Rightarrow> exn + 'o pyval option" where
  "compile_geometry fld m v =
     Inr (if m = WITHIN then Some (single fld (single ''$geoWithin'' v))
          else if m = INTERSECTS then Some (single fld (single ''$geoIntersects'' v))
          else if m = CONTAINS_GEOM then
            (case v of PDict _ \<Rightarrow> Some (single ''$expr'' (single ''$geoWithin'' (PList [v, PStr (CHR ''$'' # fld)]))) | _ \<Rightarrow> None)
          else if m = DISTANCE_LT then
            (case v of
               PDict d \<Rightarrow>
                 (case (map_of d ''coordinates'', map_of d ''maxDistance'') of
                    (Some coordinates, Some distance) \<Rightarrow>
                      Some (single fld (single ''$near'' (PDict
                        [(''$geometry'', PDict [(''type'', case map_of d ''type'' of None \<Rightarrow> PStr ''Point'' | Some t \<Rightarrow> t),
                           (''coordinates'', coordinates)]),
                         (''$maxDistance'', distance)])))
                  | _ \<Rightarrow> Some (single fld (single ''$near'' v)))
             | _ \<Rightarrow> Some (single fld (single ''$near'' v)))
          else if m = DWITHIN then Some (single fld (single ''$geoWithin'' (single ''$centerSphere'' v)))
          else if m \<in> {TOUCHES, CROSSES, OVERLAPS, DISJOINT, GEOM_EQUALS, BBOX_INTERSECTS} then Some (single fld (single ''$geoIntersects'' v))
          else None)"

section \<open>Compilation\<close>

fun first_compiled ::
  "(string \<Rightarrow> spec_operator \<Rightarrow> 'o pyval \<Rightarrow> exn + 'o pyval option) list \<Rightarrow> string \<Rightarrow> spec_operator \<Rightarrow> 'o pyval \<Rightarrow> exn + 'o pyval" where
  "first_compiled [] fld m v = Inr (single fld (single ''$eq'' v))"
| "first_compiled (c # cs) fld m v =
     (case c fld m v of Inl e \<Rightarrow> Inl e | Inr (Some q) \<Rightarrow> Inr q | Inr None \<Rightarrow> first_compiled cs fld m v)"

definition mongo_compilers :: "(string \<Rightarrow> spec_operator \<Rightarrow> 'o pyval \<Rightarrow> exn + 'o pyval option) list" where
  "mongo_compilers = [compile_standard, compile_string, compile_jsonb, compile_null, compile_set, compile_geometry]"

text \<open>An operator that is none of the enumeration is passed over by every compiler.\<close>

definition compile_leaf :: "(string \<times> 'o pyval) list \<Rightarrow> exn + 'o pyval" where
  "compile_leaf d =
     (let v = dget d ''val'';
          by_field = (\<lambda>fld. case leaf_operator (case map_of d ''op'' of None \<Rightarrow> PStr [] | Some s \<Rightarrow> s) of
            None \<Rightarrow> Inr (single fld (single ''$eq'' v))
          | Some m \<Rightarrow> first_compiled mongo_compilers fld m v)
      in case dget d ''attr'' of
           PStr fld \<Rightarrow> if fld = [] then Inl (mongo_query_error ''Specification missing attr'') else by_field fld
         | a \<Rightarrow> if py_truthy a then Inl (Other ''InvalidDocument: keys must be texts'')
                else Inl (mongo_query_error ''Specification missing attr''))"

definition not_a_dict :: exn where
  "not_a_dict = mongo_query_error ''Specification node must be a dict''"

text \<open>Iterating a text or a dictionary gives texts, which are no nodes.\<close>

definition no_nodes :: "'o pyval \<Rightarrow> exn" where
  "no_nodes v = (case py_iter v of Inl x \<Rightarrow> x | Inr _ \<Rightarrow> not_a_dict)"

definition nor_query :: "'o pyval \<Rightarrow> 'o pyval" where
  "nor_query inner = (if py_truthy inner then single ''$nor'' (PList [inner]) else PDict [])"

function mongo_compile_node :: "'o host \<Rightarrow> 'o pyval \<Rightarrow> exn + 'o pyval" where
  "mongo_compile_node h data =
     (case data of
        PDict d \<Rightarrow>
          (let op_str = lower (py_str h (case map_of d ''op'' of None \<Rightarrow> PStr [] | Some v \<Rightarrow> v))
           in if op_str = ''and'' \<or> op_str = ''or'' then
                (if \<not> py_truthy (conditions_of d) then Inr (PDict [])
                 else map_sum id (\<lambda>qs. single (CHR ''$'' # op_str) (PList qs))
                   (case conditions_of d of PList cs \<Rightarrow> traverse (\<lambda>c. mongo_compile_node h c) cs | v \<Rightarrow> Inl (no_nodes v)))
              else if op_str = ''not'' then
                (case (if \<not> py_truthy (conditions_of d) then Inr (PDict [])
                       else case conditions_of d of
                              PList (c # _) \<Rightarrow> mongo_compile_node h c
                            | v \<Rightarrow> (case first_item v of Inl x \<Rightarrow> Inl x | Inr _ \<Rightarrow> Inl not_a_dict)) of
                   Inl x \<Rightarrow> Inl x
                 | Inr inner \<Rightarrow>
                     (case map_of d ''condition'' of
                        None \<Rightarrow> Inr (nor_query inner)
                      | Some c \<Rightarrow> if c = PNone then Inr (nor_query inner) else map_sum id nor_query (mongo_compile_node h c)))
              else compile_leaf d)
      | _ \<Rightarrow> Inl not_a_dict)"
  by pat_completeness auto
termination
  by (relation "measure (\<lambda>(h, data). size data)") (auto dest: size_dict_lookup size_conditions_of simp del: pyval.size)

declare mongo_compile_node.simps [simp del]

definition build_match :: "'o host \<Rightarrow> 'o spec + 'o pyval \<Rightarrow> exn + 'o pyval" where
  "build_match h src =
     (case (case src of Inl s \<Rightarrow> spec_to_dict s | Inr v \<Rightarrow> v) of
        PDict d \<Rightarrow>
          if d = [] then Inr (PDict [])
          else if map_of d ''attr'' = None \<and> map_of d ''op'' = None \<and> map_of d ''conditions'' = None then Inr (PDict d)
          else mongo_compile_node h (PDict d)
      | _ \<Rightarrow> Inl (mongo_query_error ''spec must be BaseSpecification or dict''))"

text \<open>Sort entries: a pair of a field and a direction, or a text with a minus for descending order.\<close>

datatype sort_entry = SortPair string string | SortText string

definition sort_tuple :: "sort_entry \<Rightarrow> string \<times> int" where
  "sort_tuple e =
     (case e of
        SortPair fld direction \<Rightarrow> (fld, if lower direction = ''desc'' then -1 else 1)
      | SortText t \<Rightarrow> (case t of c # fld \<Rightarrow> if c = CHR ''-'' then (fld, -1) else (t, 1) | [] \<Rightarrow> (t, 1)))"

definition build_sort :: "sort_entry list option \<Rightarrow> (string \<times> int) list" where
  "build_sort order_by = (case order_by of None \<Rightarrow> [] | Some es \<Rightarrow> map sort_tuple es)"

definition build_project :: "string list option \<Rightarrow> (string \<times> int) list option" where
  "build_project flds = (case flds of None \<Rightarrow> None | Some fs \<Rightarrow> if fs = [] then None else Some (fold (\<lambda>f d. AList.update f 1 d) fs []))"

section \<open>Search context\<close>

text \<open>What an options object or a specification may carry: an absent attribute is \<^const>\<open>PNone\<close>.\<close>

record 'o search_attrs =
  sa_order_by :: "'o pyval"
  sa_sort :: "'o pyval"
  sa_limit :: "'o pyval"
  sa_offset :: "'o pyval"
  sa_select_fields :: "'o pyval"
  sa_fields :: "'o pyval"

definition attr_or :: "'o pyval \<Rightarrow> 'o pyval \<Rightarrow> 'o pyval" where
  "attr_or a b = (if py_truthy a then a else b)"

definition or_none :: "'o pyval \<Rightarrow> ('o search_attrs \<Rightarrow> 'o pyval) \<Rightarrow> 'o search_attrs option \<Rightarrow> 'o pyval" where
  "or_none v f spec = (if v = PNone then (case spec of None \<Rightarrow> PNone | Some s \<Rightarrow> f s) else v)"

definition extract_search_context ::
  "'o search_attrs option \<Rightarrow> 'o search_attrs option \<Rightarrow> 'o pyval \<times> 'o pyval \<times> 'o pyval \<times> 'o pyval" where
  "extract_search_context spec options =
     (let own = (\<lambda>f. case options of None \<Rightarrow> PNone | Some s \<Rightarrow> f s);
          ordering = (\<lambda>s. attr_or (sa_order_by s) (sa_sort s));
          selection = (\<lambda>s. attr_or (sa_select_fields s) (sa_fields s))
      in (or_none (own ordering) ordering spec, or_none (own sa_limit) sa_limit spec,
          or_none (own sa_offset) sa_offset spec, or_none (own selection) selection spec))"

section \<open>Compiled queries select what memory selects\<close>

text \<open>
  Kinds of values that MongoDB orders among themselves.  A value of another kind, and a list, is compared otherwise by the server
  than by Python, so the laws leave it out.
\<close>

definition kind_of :: "'o pyval \<Rightarrow> nat option" where
  "kind_of v = (case v of PInt _ \<Rightarrow> Some 0 | PFloat f \<Rightarrow> (if f = NaN then None else Some 0) | PStr _ \<Rightarrow> Some 1 | PBool _ \<Rightarrow> Some 2 | _ \<Rightarrow> None)"

definition ordered :: "'o pyval \<Rightarrow> 'o pyval \<Rightarrow> bool" where
  "ordered fv v \<longleftrightarrow> kind_of v \<noteq> None \<and> (fv = PNone \<or> kind_of fv = kind_of v)"

definition comparable :: "'o pyval \<Rightarrow> 'o pyval \<Rightarrow> bool" where
  "comparable fv v \<longleftrightarrow> ordered fv v \<or> v = PNone \<and> (fv = PNone \<or> kind_of fv \<noteq> None)"

definition order_name :: "cmp \<Rightarrow> string" where
  "order_name c = (case c of Lt \<Rightarrow> ''$lt'' | Le \<Rightarrow> ''$lte'' | Gt \<Rightarrow> ''$gt'' | Ge \<Rightarrow> ''$gte'')"

definition ascii_line :: "string \<Rightarrow> bool" where
  "ascii_line s \<longleftrightarrow> list_all (\<lambda>c. of_char c < (128 :: nat) \<and> c \<noteq> CHR 0x0A) s"

definition folded :: "bool \<Rightarrow> string \<Rightarrow> string" where
  "folded i s = (if i then lower s else s)"

text \<open>
  Documented behaviour of the server: \<open>mq q doc\<close> says that the query \<open>q\<close> selects the document, \<open>rx i p t\<close> that the pattern \<open>p\<close> is
  found in the text \<open>t\<close>.
\<close>

definition mongo_logic :: "('o pyval \<Rightarrow> 'o pyval \<Rightarrow> bool) \<Rightarrow> bool" where
  "mongo_logic mq \<longleftrightarrow>
     (\<forall>doc. mq (PDict []) doc) \<and>
     (\<forall>qs doc. qs \<noteq> [] \<longrightarrow>
        mq (single ''$and'' (PList qs)) doc = (\<forall>q \<in> set qs. mq q doc) \<and>
        mq (single ''$or'' (PList qs)) doc = (\<exists>q \<in> set qs. mq q doc) \<and>
        mq (single ''$nor'' (PList qs)) doc = (\<forall>q \<in> set qs. \<not> mq q doc))"

definition mongo_fields :: "'o host \<Rightarrow> ('o pyval \<Rightarrow> 'o pyval \<Rightarrow> bool) \<Rightarrow> bool" where
  "mongo_fields h mq \<longleftrightarrow>
     (\<forall>fld doc v. hd fld \<noteq> CHR ''$'' \<longrightarrow> comparable (resolve_field h doc fld) v \<longrightarrow>
        mq (single fld (single ''$eq'' v)) doc = py_eq (resolve_field h doc fld) v \<and>
        mq (single fld (single ''$ne'' v)) doc = (\<not> py_eq (resolve_field h doc fld) v)) \<and>
     (\<forall>fld doc vs. hd fld \<noteq> CHR ''$'' \<longrightarrow> (\<forall>v \<in> set vs. comparable (resolve_field h doc fld) v) \<longrightarrow>
        mq (single fld (single ''$in'' (PList vs))) doc = list_ex (py_eq (resolve_field h doc fld)) vs \<and>
        mq (single fld (single ''$nin'' (PList vs))) doc = (\<not> list_ex (py_eq (resolve_field h doc fld)) vs)) \<and>
     (\<forall>fld doc c v. hd fld \<noteq> CHR ''$'' \<longrightarrow> ordered (resolve_field h doc fld) v \<longrightarrow>
        mq (single fld (single (order_name c) v)) doc = (order_op h c (resolve_field h doc fld) v = Inr True))"

definition mongo_regex :: "'o host \<Rightarrow> ('o pyval \<Rightarrow> 'o pyval \<Rightarrow> bool) \<Rightarrow> (bool \<Rightarrow> string \<Rightarrow> string \<Rightarrow> bool) \<Rightarrow> bool" where
  "mongo_regex h mq rx \<longleftrightarrow>
     (\<forall>fld doc p i. hd fld \<noteq> CHR ''$'' \<longrightarrow>
        (resolve_field h doc fld = PNone \<longrightarrow> \<not> mq (regex_query fld p i) doc) \<and>
        (\<forall>t. resolve_field h doc fld = PStr t \<longrightarrow> mq (regex_query fld p i) doc = rx i p t)) \<and>
     (\<forall>i s t. ascii_line s \<longrightarrow> ascii_line t \<longrightarrow>
        rx i (regex_escape s) t = contains_text (folded i s) (folded i t) \<and>
        rx i (CHR ''^'' # regex_escape s) t = prefix (folded i s) (folded i t) \<and>
        rx i (regex_escape s @ ''$'') t = suffix (folded i s) (folded i t))"

definition mongo_laws :: "'o host \<Rightarrow> ('o pyval \<Rightarrow> 'o pyval \<Rightarrow> bool) \<Rightarrow> (bool \<Rightarrow> string \<Rightarrow> string \<Rightarrow> bool) \<Rightarrow> bool" where
  "mongo_laws h mq rx \<longleftrightarrow> mongo_logic mq \<and> mongo_fields h mq \<and> mongo_regex h mq rx"

text \<open>Conditions on which server and memory agree, for the value of the field and of the condition.\<close>

definition leaf_agrees :: "spec_operator \<Rightarrow> 'o pyval \<Rightarrow> 'o pyval \<Rightarrow> bool" where
  "leaf_agrees m fv v =
     (if m \<in> {EQ, NE} then comparable fv v
      else if m \<in> {GT, GE, LT, LE} then ordered fv v
      else if m \<in> {IN, NOT_IN} then (case v of PList vs \<Rightarrow> list_all (comparable fv) vs | _ \<Rightarrow> False)
      else if m \<in> {BETWEEN, NOT_BETWEEN} then (case v of PList [lo, hi] \<Rightarrow> ordered fv lo \<and> ordered fv hi | _ \<Rightarrow> False)
      else if m \<in> {CONTAINS, ICONTAINS, STARTSWITH, ISTARTSWITH, ENDSWITH, IENDSWITH} then
        (case v of PStr s \<Rightarrow> ascii_line s \<and> (case fv of PNone \<Rightarrow> True | PStr t \<Rightarrow> ascii_line t | _ \<Rightarrow> False) | _ \<Rightarrow> False)
      else False)"

primrec agreeable :: "'o host \<Rightarrow> 'o pyval \<Rightarrow> 'o spec \<Rightarrow> bool" where
  "agreeable h doc (AttributeSpecification attr op v) =
     (case attr of PStr fld \<Rightarrow> fld \<noteq> [] \<and> hd fld \<noteq> CHR ''$'' \<and> leaf_agrees op (resolve_field h doc fld) v | _ \<Rightarrow> False)"
| "agreeable h doc (AndSpecification specs) = (specs \<noteq> [] \<and> list_all id (map (agreeable h doc) specs))"
| "agreeable h doc (OrSpecification specs) = (specs \<noteq> [] \<and> list_all id (map (agreeable h doc) specs))"
| "agreeable h doc (NotSpecification s) = agreeable h doc s"

lemma float_total: "a \<noteq> NaN \<Longrightarrow> b \<noteq> NaN \<Longrightarrow> float_lt a b \<or> float_eq a b \<or> float_lt b a"
  by (cases a; cases b) (auto simp: float_eq_def)

lemma float_anti: "\<not> (float_lt a b \<and> float_lt b a)" "float_eq a b \<Longrightarrow> \<not> float_lt a b"
  by (cases a; cases b; auto simp: float_eq_def)+

lemma kind_num: "kind_of v = Some k \<Longrightarrow> k \<noteq> 1 \<Longrightarrow> \<exists>f. num_of v = Some f \<and> f \<noteq> NaN"
  by (cases v) (auto simp: kind_of_def split: if_splits)

text \<open>Values of one kind are linearly ordered.\<close>

lemma same_kind_order:
  assumes "kind_of x = kind_of y" "kind_of x = Some k"
  shows "\<exists>lt eq gt. py_cmp h Lt x y = Inr lt \<and> py_cmp h Le x y = Inr (lt \<or> eq) \<and> py_cmp h Gt x y = Inr gt \<and>
    py_cmp h Ge x y = Inr (gt \<or> eq) \<and> py_cmp h Le y x = Inr (gt \<or> eq) \<and> (\<not> lt) = (gt \<or> eq) \<and> (\<not> gt) = (lt \<or> eq)"
proof (cases "k = 1")
  case True
  then obtain s t where "x = PStr s" "y = PStr t" using assms by (cases x; cases y; auto simp: kind_of_def split: if_splits)
  then show ?thesis by (intro exI [of _ "s < t"] exI [of _ "s = t"] exI [of _ "t < s"]) (auto simp: ord_cmp_def)
next
  case False
  then obtain a b where n: "num_of x = Some a" "a \<noteq> NaN" "num_of y = Some b" "b \<noteq> NaN" using kind_num assms by metis
  have "py_cmp h c x y = Inr (float_cmp c a b)" "py_cmp h c y x = Inr (float_cmp c b a)" for c
    using n by (cases x; cases y; simp add: num_cmp_def)+
  moreover have "float_eq b a = float_eq a b" by (auto simp: float_eq_def)
  ultimately show ?thesis using float_total [OF n(2,4)] float_anti [of a b] float_anti [of b a]
    by (intro exI [of _ "float_lt a b"] exI [of _ "float_eq a b"] exI [of _ "float_lt b a"]) (auto simp: float_cmp_def)
qed

lemma ordered_cases:
  assumes "ordered fv v"
  obtains "fv = PNone" | lt eq gt where "fv \<noteq> PNone" "py_cmp h Lt fv v = Inr lt" "py_cmp h Le fv v = Inr (lt \<or> eq)"
    "py_cmp h Gt fv v = Inr gt" "py_cmp h Ge fv v = Inr (gt \<or> eq)" "py_cmp h Le v fv = Inr (gt \<or> eq)"
    "(\<not> lt) = (gt \<or> eq)" "(\<not> gt) = (lt \<or> eq)"
proof (cases "fv = PNone")
  case False
  then obtain k where "kind_of fv = kind_of v" "kind_of fv = Some k" using assms by (auto simp: ordered_def)
  from same_kind_order [OF this, of h] False show ?thesis using that(2) by blast
qed (rule that(1))

lemma single_truthy [simp]: "py_truthy (single k v)" "py_truthy (regex_query fld p i)"
  by (simp_all add: single_def regex_query_def)

lemma mongo_logicD:
  assumes "mongo_logic mq" "qs \<noteq> []"
  shows "mq (single ''$and'' (PList qs)) doc = (\<forall>q \<in> set qs. mq q doc)" "mq (single ''$or'' (PList qs)) doc = (\<exists>q \<in> set qs. mq q doc)"
    "mq (single ''$nor'' (PList qs)) doc = (\<forall>q \<in> set qs. \<not> mq q doc)"
  using assms by (simp_all add: mongo_logic_def)

lemma mongo_fieldsD:
  assumes "mongo_fields h mq" "hd fld \<noteq> CHR ''$''" "fv = resolve_field h doc fld"
  shows "comparable fv v \<Longrightarrow> mq (single fld (single ''$eq'' v)) doc = py_eq fv v"
    "comparable fv v \<Longrightarrow> mq (single fld (single ''$ne'' v)) doc = (\<not> py_eq fv v)"
    "list_all (comparable fv) vs \<Longrightarrow> mq (single fld (single ''$in'' (PList vs))) doc = list_ex (py_eq fv) vs"
    "list_all (comparable fv) vs \<Longrightarrow> mq (single fld (single ''$nin'' (PList vs))) doc = (\<not> list_ex (py_eq fv) vs)"
    "ordered fv v \<Longrightarrow> mq (single fld (single ''$lt'' v)) doc = (order_op h Lt fv v = Inr True)"
    "ordered fv v \<Longrightarrow> mq (single fld (single ''$lte'' v)) doc = (order_op h Le fv v = Inr True)"
    "ordered fv v \<Longrightarrow> mq (single fld (single ''$gt'' v)) doc = (order_op h Gt fv v = Inr True)"
    "ordered fv v \<Longrightarrow> mq (single fld (single ''$gte'' v)) doc = (order_op h Ge fv v = Inr True)"
proof -
  have o: "mq (single fld (single (order_name c) v)) doc = (order_op h c fv v = Inr True)" if "ordered fv v" for c
    using assms that by (simp add: mongo_fields_def)
  show "ordered fv v \<Longrightarrow> mq (single fld (single ''$lt'' v)) doc = (order_op h Lt fv v = Inr True)"
    "ordered fv v \<Longrightarrow> mq (single fld (single ''$lte'' v)) doc = (order_op h Le fv v = Inr True)"
    "ordered fv v \<Longrightarrow> mq (single fld (single ''$gt'' v)) doc = (order_op h Gt fv v = Inr True)"
    "ordered fv v \<Longrightarrow> mq (single fld (single ''$gte'' v)) doc = (order_op h Ge fv v = Inr True)"
    using o [of Lt] o [of Le] o [of Gt] o [of Ge] by (simp_all add: order_name_def)
qed (use assms in \<open>simp_all add: mongo_fields_def list_all_iff\<close>)

lemma mongo_regexD:
  assumes "mongo_regex h mq rx" "hd fld \<noteq> CHR ''$''" "fv = resolve_field h doc fld"
  shows "fv = PNone \<Longrightarrow> \<not> mq (regex_query fld p i) doc" "fv = PStr t \<Longrightarrow> mq (regex_query fld p i) doc = rx i p t"
    "ascii_line s \<Longrightarrow> ascii_line t \<Longrightarrow> rx i (regex_escape s) t = contains_text (folded i s) (folded i t)"
    "ascii_line s \<Longrightarrow> ascii_line t \<Longrightarrow> rx i (CHR ''^'' # regex_escape s) t = prefix (folded i s) (folded i t)"
    "ascii_line s \<Longrightarrow> ascii_line t \<Longrightarrow> rx i (regex_escape s @ ''$'') t = suffix (folded i s) (folded i t)"
  using assms by (simp_all add: mongo_regex_def)

text \<open>One comparison: what the compilers make of it, and what both sides say.\<close>

definition leaf_query :: "string \<Rightarrow> spec_operator \<Rightarrow> 'o pyval \<Rightarrow> 'o pyval" where
  "leaf_query fld m v = (case first_compiled mongo_compilers fld m v of Inr q \<Rightarrow> q | Inl _ \<Rightarrow> PNone)"

definition leaf_result :: "'o host \<Rightarrow> spec_operator \<Rightarrow> 'o pyval \<Rightarrow> 'o pyval \<Rightarrow> exn + bool" where
  "leaf_result h m fv v = reg_evaluate (build_default_registry h []) m fv v"

lemmas compiler_defs = mongo_compilers_def compile_standard_def MONGO_OP_MAP_def validate_range_operand_def as_list_def compile_string_def

lemma leaf_equality:
  assumes "mongo_fields h mq" "hd fld \<noteq> CHR ''$''" "fv = resolve_field h doc fld" "m \<in> {EQ, NE, IN, NOT_IN}" "leaf_agrees m fv v"
  shows "\<exists>q. first_compiled mongo_compilers fld m v = Inr q \<and> py_truthy q \<and> leaf_result h m fv v = Inr (mq q doc)"
proof -
  have ev: "leaf_result h EQ fv v = Inr (py_eq fv v)" "leaf_result h NE fv v = Inr (\<not> py_eq fv v)"
      "leaf_result h IN fv v = py_in fv v" "leaf_result h NOT_IN fv v = map_sum id Not (py_in fv v)"
    by (simp_all add: leaf_result_def default_lookup [where f = equal_op] default_lookup [where f = not_equal_op]
        default_lookup [where f = in_op] default_lookup [where f = not_in_op] builtin_operators_def
        equal_op_def not_equal_op_def in_op_def not_in_op_def)
  from assms(4,5) show ?thesis
    by (elim insertE emptyE)
      (auto simp: compiler_defs ev leaf_agrees_def mongo_fieldsD [OF assms(1-3)] split: pyval.splits)
qed

lemma order_opD:
  assumes "ordered fv v"
  shows "order_op h c fv v = Inr (order_op h c fv v = Inr True)"
  using assms by (rule ordered_cases [where h = h]) (cases c; auto simp: order_op_def)+

lemma leaf_order:
  assumes "mongo_fields h mq" "hd fld \<noteq> CHR ''$''" "fv = resolve_field h doc fld" "m \<in> {GT, GE, LT, LE}" "leaf_agrees m fv v"
  shows "\<exists>q. first_compiled mongo_compilers fld m v = Inr q \<and> py_truthy q \<and> leaf_result h m fv v = Inr (mq q doc)"
proof -
  have ev: "leaf_result h GT fv v = order_op h Gt fv v" "leaf_result h GE fv v = order_op h Ge fv v"
      "leaf_result h LT fv v = order_op h Lt fv v" "leaf_result h LE fv v = order_op h Le fv v"
    by (simp_all add: leaf_result_def default_lookup [where f = "order_op h Gt"] default_lookup [where f = "order_op h Ge"]
        default_lookup [where f = "order_op h Lt"] default_lookup [where f = "order_op h Le"] builtin_operators_def)
  have o: "ordered fv v" using assms(4,5) by (auto simp: leaf_agrees_def)
  from assms(4) show ?thesis
    by (elim insertE emptyE)
      (simp_all add: compiler_defs ev mongo_fieldsD [OF assms(1-3)] o order_opD [OF o, symmetric])
qed

lemma leaf_range:
  assumes "mongo_logic mq" "mongo_fields h mq" "hd fld \<noteq> CHR ''$''" "fv = resolve_field h doc fld"
    and "m \<in> {BETWEEN, NOT_BETWEEN}" "leaf_agrees m fv v"
  shows "\<exists>q. first_compiled mongo_compilers fld m v = Inr q \<and> py_truthy q \<and> leaf_result h m fv v = Inr (mq q doc)"
proof -
  have ev: "leaf_result h BETWEEN = between_op h" "leaf_result h NOT_BETWEEN = not_between_op h"
    by (intro ext; simp add: leaf_result_def default_lookup [where f = "between_op h"] default_lookup [where f = "not_between_op h"] builtin_operators_def)+
  obtain lo hi where v: "v = PList [lo, hi]" "ordered fv lo" "ordered fv hi"
    using assms(5,6) by (auto simp: leaf_agrees_def split: pyval.splits list.splits)
  note laws = mongo_fieldsD [OF assms(2-4)] mongo_logicD [OF assms(1)]
  show ?thesis
  proof (rule ordered_cases [OF v(2), where h = h], goal_cases)
    case 1
    then show ?thesis using assms(5) v
      by (elim insertE emptyE) (simp_all add: compiler_defs ev laws order_op_def between_op_def not_between_op_def)
  next
    case l: (2 lt eq gt)
    show ?thesis
    proof (rule ordered_cases [OF v(3), where h = h], goal_cases)
      case 2
      then show ?thesis using assms(5) v l
        by (elim insertE emptyE)
          (auto simp: compiler_defs ev laws order_op_def between_op_def not_between_op_def unpack2_def in_range_def)
    qed (use l in simp)
  qed
qed

lemma leaf_text:
  assumes "mongo_regex h mq rx" "hd fld \<noteq> CHR ''$''" "fv = resolve_field h doc fld"
    and "m \<in> {CONTAINS, ICONTAINS, STARTSWITH, ISTARTSWITH, ENDSWITH, IENDSWITH}" "leaf_agrees m fv v"
  shows "\<exists>q. first_compiled mongo_compilers fld m v = Inr q \<and> py_truthy q \<and> leaf_result h m fv v = Inr (mq q doc)"
proof -
  have ev: "leaf_result h CONTAINS = text_op h id contains_text" "leaf_result h ICONTAINS = text_op h lower contains_text"
      "leaf_result h STARTSWITH = text_op h id prefix" "leaf_result h ISTARTSWITH = text_op h lower prefix"
      "leaf_result h ENDSWITH = text_op h id suffix" "leaf_result h IENDSWITH = text_op h lower suffix"
    by (intro ext; simp add: leaf_result_def default_lookup [where f = "text_op h id contains_text"] default_lookup [where f = "text_op h lower contains_text"]
        default_lookup [where f = "text_op h id prefix"] default_lookup [where f = "text_op h lower prefix"]
        default_lookup [where f = "text_op h id suffix"] default_lookup [where f = "text_op h lower suffix"] builtin_operators_def)+
  obtain s where s: "v = PStr s" "ascii_line s" and t: "fv = PNone \<or> (\<exists>t. fv = PStr t \<and> ascii_line t)"
    using assms(4,5) by (auto simp: leaf_agrees_def split: pyval.splits)
  note laws = mongo_regexD [OF assms(1-3)]
  from t show ?thesis
  proof
    assume "fv = PNone"
    then show ?thesis using assms(4) s by (elim insertE emptyE) (simp_all add: compiler_defs ev laws text_op_def Let_def)
  next
    assume "\<exists>t. fv = PStr t \<and> ascii_line t"
    then obtain t where "fv = PStr t" "ascii_line t" by blast
    then show ?thesis using assms(4) s
      by (elim insertE emptyE) (simp_all add: compiler_defs ev laws text_op_def Let_def folded_def py_str_def)
  qed
qed

lemma leaf_agreement:
  assumes "mongo_laws h mq rx" "hd fld \<noteq> CHR ''$''" "fv = resolve_field h doc fld" "leaf_agrees m fv v"
  shows "\<exists>q. first_compiled mongo_compilers fld m v = Inr q \<and> py_truthy q \<and> leaf_result h m fv v = Inr (mq q doc)"
proof -
  have laws: "mongo_logic mq" "mongo_fields h mq" "mongo_regex h mq rx" using assms(1) by (simp_all add: mongo_laws_def)
  consider "m \<in> {EQ, NE, IN, NOT_IN}" | "m \<in> {GT, GE, LT, LE}" | "m \<in> {BETWEEN, NOT_BETWEEN}" |
      "m \<in> {CONTAINS, ICONTAINS, STARTSWITH, ISTARTSWITH, ENDSWITH, IENDSWITH}"
    using assms(4) by (auto simp: leaf_agrees_def split: if_splits)
  then show ?thesis
  proof cases
    case 1
    then show ?thesis by (rule leaf_equality [OF laws(2) assms(2,3) _ assms(4)])
  next
    case 2
    then show ?thesis by (rule leaf_order [OF laws(2) assms(2,3) _ assms(4)])
  next
    case 3
    then show ?thesis by (rule leaf_range [OF laws(1,2) assms(2,3) _ assms(4)])
  next
    case 4
    then show ?thesis by (rule leaf_text [OF laws(3) assms(2,3) _ assms(4)])
  qed
qed

lemma agreeing_operator: "leaf_agrees m fv v \<Longrightarrow> m \<notin> {AND_OP, OR_OP, NOT_OP}"
  by (auto simp: leaf_agrees_def)

lemma all_of_Inr: "(\<And>x. x \<in> set xs \<Longrightarrow> f x = Inr (p x)) \<Longrightarrow> all_of (map f xs) = Inr (\<forall>x \<in> set xs. p x)"
  by (induction xs) auto

lemma any_of_Inr: "(\<And>x. x \<in> set xs \<Longrightarrow> f x = Inr (p x)) \<Longrightarrow> any_of (map f xs) = Inr (\<exists>x \<in> set xs. p x)"
  by (induction xs) auto

lemma compile_agrees:
  assumes "mongo_laws h mq rx" "agreeable h doc s"
  shows "\<exists>q. mongo_compile_node h (spec_to_dict s) = Inr q \<and> py_truthy q \<and>
    is_satisfied_by h (build_default_registry h []) doc s = Inr (mq q doc)"
  using assms(2)
proof (induction s)
  case (AttributeSpecification attr op v)
  then obtain fld where fld: "attr = PStr fld" "fld \<noteq> []" "hd fld \<noteq> CHR ''$''" "leaf_agrees op (resolve_field h doc fld) v"
    by (auto split: pyval.splits)
  from agreeing_operator [OF fld(4)] have "op_value op \<noteq> ''and'' \<and> op_value op \<noteq> ''or'' \<and> op_value op \<noteq> ''not''"
    using op_value_logical [of op] by (auto simp: logical_operators_def)
  with leaf_agreement [OF assms(1) fld(3) refl fld(4)] fld(1,2) show ?case
    by (simp add: mongo_compile_node.simps compile_leaf_def leaf_operator_def leaf_result_def py_str_def Let_def)
next
  case (AndSpecification specs)
  then obtain qs where q: "\<And>s. s \<in> set specs \<Longrightarrow> mongo_compile_node h (spec_to_dict s) = Inr (qs s) \<and>
      is_satisfied_by h (build_default_registry h []) doc s = Inr (mq (qs s) doc)" "specs \<noteq> []"
    by (simp add: list_all_iff) metis
  have "traverse (\<lambda>s. mongo_compile_node h (spec_to_dict s)) specs = Inr (map qs specs)"
    using q(1) by (intro traverse_all_Inr) blast
  moreover have "all_of (map (is_satisfied_by h (build_default_registry h []) doc) specs) = Inr (\<forall>s \<in> set specs. mq (qs s) doc)"
    using q(1) by (intro all_of_Inr) blast
  moreover have "mongo_logic mq" using assms(1) by (simp add: mongo_laws_def)
  ultimately show ?case using q(2)
    by (subst mongo_compile_node.simps) (simp add: conditions_of_def py_str_def mongo_logicD)
next
  case (OrSpecification specs)
  then obtain qs where q: "\<And>s. s \<in> set specs \<Longrightarrow> mongo_compile_node h (spec_to_dict s) = Inr (qs s) \<and>
      is_satisfied_by h (build_default_registry h []) doc s = Inr (mq (qs s) doc)" "specs \<noteq> []"
    by (simp add: list_all_iff) metis
  have "traverse (\<lambda>s. mongo_compile_node h (spec_to_dict s)) specs = Inr (map qs specs)"
    using q(1) by (intro traverse_all_Inr) blast
  moreover have "any_of (map (is_satisfied_by h (build_default_registry h []) doc) specs) = Inr (\<exists>s \<in> set specs. mq (qs s) doc)"
    using q(1) by (intro any_of_Inr) blast
  moreover have "mongo_logic mq" using assms(1) by (simp add: mongo_laws_def)
  ultimately show ?case using q(2)
    by (subst mongo_compile_node.simps) (simp add: conditions_of_def py_str_def mongo_logicD)
next
  case (NotSpecification s)
  then obtain q where "mongo_compile_node h (spec_to_dict s) = Inr q" "py_truthy q"
      "is_satisfied_by h (build_default_registry h []) doc s = Inr (mq q doc)" by auto
  moreover have "mongo_logic mq" using assms(1) by (simp add: mongo_laws_def)
  ultimately show ?case by (subst mongo_compile_node.simps) (simp add: conditions_of_def py_str_def nor_query_def mongo_logicD)
qed


section \<open>What the builder refuses and what it changes\<close>

text \<open>
  The null checks, and the set and JSON operators without a counterpart among the comparisons, are refused unless the value is
  a text: the string compiler, which is asked before theirs, raises for every other value.
\<close>

theorem mongo_null_checks_refused:
  assumes "m \<in> {IS_NULL, IS_NOT_NULL, IS_EMPTY, IS_NOT_EMPTY, ALL_OP, JSON_CONTAINS, JSON_HAS_KEY, JSON_HAS_ANY, JSON_HAS_ALL, WITHIN, INTERSECTS}"
    and "\<And>s. v \<noteq> PStr s" "fld \<noteq> []"
  shows "build_match h (Inl (AttributeSpecification (PStr fld) m v)) =
    Inl (mongo_query_error (''String operator '' @ op_value m @ '' requires string value''))"
proof -
  have "op_value m \<noteq> ''and'' \<and> op_value m \<noteq> ''or'' \<and> op_value m \<noteq> ''not''"
    using op_value_logical [of m] assms(1) by (auto simp: logical_operators_def)
  moreover have "compile_standard fld m v = Inr None" using assms(1) by (auto simp: compile_standard_def MONGO_OP_MAP_def)
  moreover have "compile_string fld m v = Inl (mongo_query_error (''String operator '' @ op_value m @ '' requires string value''))"
    using assms(2) by (cases v) (auto simp: compile_string_def)
  ultimately show ?thesis using assms(3)
    by (simp add: build_match_def mongo_compile_node.simps compile_leaf_def leaf_operator_def py_str_def Let_def mongo_compilers_def)
qed

theorem mongo_null_checks_refused_witness:
  "build_match ex_host (Inl (AttributeSpecification (PStr ''deleted_at'') IS_NULL PNone)) =
     Inl (mongo_query_error (''String operator '' @ op_value IS_NULL @ '' requires string value''))"
  by (rule mongo_null_checks_refused) simp_all

text \<open>
  An operator in capital letters, which the factory and the other compilers accept, silently becomes an equality.
\<close>

lemma capital_operator_is_equality:
  "build_match ex_host (Inr (PDict [(''op'', PStr ''CONTAINS''), (''attr'', PStr ''n''), (''val'', PStr ''x'')])) =
     Inr (single ''n'' (single ''$eq'' (PStr ''x'')))"
  by code_simp

text \<open>
  An empty disjunction, which no object satisfies, and the negation of an empty conjunction become the query that selects everything.
\<close>

lemma empty_or_selects_all:
  assumes "mongo_logic mq"
  shows "\<exists>q. build_match h (Inl (OrSpecification [])) = Inr q \<and> mq q doc \<and> is_satisfied_by h reg doc (OrSpecification []) = Inr False"
    "\<exists>q. build_match h (Inl (NotSpecification (AndSpecification []))) = Inr q \<and> mq q doc \<and>
      is_satisfied_by h reg doc (NotSpecification (AndSpecification [])) = Inr False"
  using assms by (simp_all add: build_match_def mongo_compile_node.simps conditions_of_def py_str_def nor_query_def mongo_logic_def)

section \<open>A server\<close>

text \<open>Patterns of the kinds the compiler writes, and the queries over them: the laws can be met.\<close>

fun pattern_text :: "string \<Rightarrow> string \<times> bool" where
  "pattern_text [] = ([], False)"
| "pattern_text [c] = (if c = CHR ''$'' then ([], True) else ([c], False))"
| "pattern_text (c # d # r) =
     (if c = CHR 0x5C then (case pattern_text r of (s, e) \<Rightarrow> (d # s, e)) else (case pattern_text (d # r) of (s, e) \<Rightarrow> (c # s, e)))"

definition server_rx :: "bool \<Rightarrow> string \<Rightarrow> string \<Rightarrow> bool" where
  "server_rx i p t =
     (if p \<noteq> [] \<and> hd p = CHR ''^'' then prefix (folded i (fst (pattern_text (tl p)))) (folded i t)
      else case pattern_text p of (s, e) \<Rightarrow> if e then suffix (folded i s) (folded i t) else contains_text (folded i s) (folded i t))"

definition field_match :: "string \<Rightarrow> unit pyval \<Rightarrow> unit pyval \<Rightarrow> bool" where
  "field_match name fv x =
     (if name = ''$eq'' then py_eq fv x
      else if name = ''$ne'' then \<not> py_eq fv x
      else if name = ''$in'' then (case x of PList vs \<Rightarrow> list_ex (py_eq fv) vs | _ \<Rightarrow> False)
      else if name = ''$nin'' then (case x of PList vs \<Rightarrow> \<not> list_ex (py_eq fv) vs | _ \<Rightarrow> False)
      else list_ex (\<lambda>c. name = order_name c \<and> order_op ex_host c fv x = Inr True) [Lt, Le, Gt, Ge])"

function server_match :: "unit pyval \<Rightarrow> unit pyval \<Rightarrow> bool" where
  "server_match q doc =
     (case q of
        PDict [] \<Rightarrow> True
      | PDict [(k, v)] \<Rightarrow>
          (case v of
             PList qs \<Rightarrow>
               if k = ''$and'' then list_all (\<lambda>q. server_match q doc) qs
               else if k = ''$or'' then list_ex (\<lambda>q. server_match q doc) qs
               else if k = ''$nor'' then list_all (\<lambda>q. \<not> server_match q doc) qs else False
           | PDict [(name, x)] \<Rightarrow> field_match name (resolve_field ex_host doc k) x
           | PDict [(_, PStr p), (_, PStr i)] \<Rightarrow>
               (case resolve_field ex_host doc k of PStr t \<Rightarrow> server_rx (i = ''i'') p t | _ \<Rightarrow> False)
           | _ \<Rightarrow> False)
      | _ \<Rightarrow> False)"
  by pat_completeness auto
termination
  by (relation "measure (\<lambda>(q, doc). size q)") (auto simp: less_Suc_eq_le dest!: size_list_member intro: less_imp_le)

declare server_match.simps [simp del]

lemma pattern_text_escape: "e = [] \<or> e = ''$'' \<Longrightarrow> pattern_text (regex_escape s @ e) = (s, e = ''$'')"
proof (induction s)
  case (Cons c s)
  then have IH: "pattern_text (regex_escape s @ e) = (s, e = ''$'')" by simp
  show ?case
  proof (cases "c \<in> set re_special")
    case True
    then show ?thesis using IH by (simp add: regex_escape_def)
  next
    case False
    then have "c \<noteq> CHR 0x5C" "c \<noteq> CHR ''$''" by (auto simp: re_special_def)
    moreover have "regex_escape (c # s) @ e = c # regex_escape s @ e" using False by (simp add: regex_escape_def)
    ultimately show ?thesis using IH by (cases "regex_escape s @ e") simp_all
  qed
qed (auto simp: regex_escape_def)

lemma escape_no_anchor: "regex_escape s \<noteq> [] \<Longrightarrow> hd (regex_escape s) \<noteq> CHR ''^''"
  by (cases s) (auto simp: regex_escape_def re_special_def)

lemma server_rx_laws:
  "server_rx i (regex_escape s) t = contains_text (folded i s) (folded i t)"
  "server_rx i (CHR ''^'' # regex_escape s) t = prefix (folded i s) (folded i t)"
  "server_rx i (regex_escape s @ ''$'') t = suffix (folded i s) (folded i t)"
proof -
  note p = pattern_text_escape [of "[]" s, simplified] pattern_text_escape [of "''$''" s, simplified]
  show "server_rx i (CHR ''^'' # regex_escape s) t = prefix (folded i s) (folded i t)" by (simp add: server_rx_def p)
  show "server_rx i (regex_escape s) t = contains_text (folded i s) (folded i t)"
    using escape_no_anchor [of s] by (auto simp add: server_rx_def p)
  show "server_rx i (regex_escape s @ ''$'') t = suffix (folded i s) (folded i t)"
  proof -
    have "hd (regex_escape s @ ''$'') \<noteq> CHR ''^''" using escape_no_anchor [of s] by (cases "regex_escape s") simp_all
    then show ?thesis by (simp add: server_rx_def p)
  qed
qed

lemma server_laws: "mongo_laws ex_host server_match server_rx"
  unfolding mongo_laws_def
proof (intro conjI)
  show "mongo_logic server_match"
    unfolding mongo_logic_def by (auto simp: server_match.simps [of "PDict _"] single_def list_all_iff list_ex_iff)
  have names: "fld \<noteq> ''$and'' \<and> fld \<noteq> ''$or'' \<and> fld \<noteq> ''$nor''" if "hd fld \<noteq> CHR ''$''" for fld :: string
    using that by auto
  have m: "server_match (single fld (single name x)) doc = field_match name (resolve_field ex_host doc fld) x" for fld name x doc
    by (subst server_match.simps) (cases x; simp add: single_def)
  have "field_match (order_name c) fv x = (order_op ex_host c fv x = Inr True)" for c fv x
    by (cases c) (simp_all add: field_match_def order_name_def)
  then show "mongo_fields ex_host server_match" by (simp add: mongo_fields_def m) (simp add: field_match_def)
  have "server_match (regex_query fld p i) doc = (case resolve_field ex_host doc fld of PStr t \<Rightarrow> server_rx i p t | _ \<Rightarrow> False)" for fld p i doc
    by (subst server_match.simps) (simp add: regex_query_def single_def split: pyval.splits)
  then show "mongo_regex ex_host server_match server_rx" by (simp add: mongo_regex_def server_rx_laws)
qed

definition ex_order :: "unit pyval" where
  "ex_order = PDict [(''total'', PInt 30), (''city'', PStr ''Rome'')]"

definition ex_filter :: "unit spec" where
  "ex_filter = AndSpecification [AttributeSpecification (PStr ''total'') BETWEEN (PList [PInt 10, PInt 50]),
     NotSpecification (AttributeSpecification (PStr ''city'') ICONTAINS (PStr ''OSL'')), AttributeSpecification (PStr ''note'') NE (PStr ''x'')]"

lemma ex_filter_agreeable: "agreeable ex_host ex_order ex_filter"
  by code_simp


end
