(* ===== verification/SqlQuery.thy ===== *)
theory SqlQuery
  imports MongoQuery
begin

text \<open>
  Specifications as SQL conditions: specifications/compiler.py, strategy.py and operators of the SQLAlchemy package.  Conditions
  are a datatype with the constructs of SQLAlchemy that the code uses.  Model classes are a parameter: \<open>se_attr\<close> says what an
  attribute of a class is.  What the database makes of a condition is a parameter too; \<open>sql_laws\<close> are the rules of
  SQL that the theorems need, with its third truth value.  The operators on geometries call functions of PostGIS and are left out.
\<close>

section \<open>Conditions\<close>

datatype ('c, 'o) sql =
    SEq 'c "'o pyval"
  | SNe 'c "'o pyval"
  | SOrd cmp 'c "'o pyval"
  | SIn 'c "'o pyval list"
  | SBetween 'c "'o pyval" "'o pyval"
  | SLike bool 'c "'o pyval"
  | SRegexp bool 'c string
  | SIsNull 'c
  | SIsNotNull 'c
  | SOperator 'c string string
  | SHasKey 'c string
  | SFunction string 'c "'o pyval"
  | SAnd "('c, 'o) sql list"
  | SOr "('c, 'o) sql list"
  | SNot "('c, 'o) sql"
  | SAny string "('c, 'o) sql"
  | SHas string "('c, 'o) sql"

section \<open>Operators\<close>

type_synonym ('c, 'o) sql_operator = "'c \<Rightarrow> 'o pyval \<Rightarrow> exn + ('c, 'o) sql"

text \<open>\<^verbatim>\<open>value[i]\<close> for the indices 0 and 1.\<close>

definition py_item :: "'o pyval \<Rightarrow> nat \<Rightarrow> exn + 'o pyval" where
  "py_item v i =
     (case v of
        PList xs \<Rightarrow> if i < length xs then Inr (xs ! i) else Inl IndexError
      | PStr s \<Rightarrow> if i < length s then Inr (PStr [s ! i]) else Inl IndexError
      | PDict _ \<Rightarrow> Inl (KeyError (show_nat i))
      | _ \<Rightarrow> Inl (TypeError (quoted (type_name v) @ '' object is not subscriptable'')))"

definition sql_in :: "('c, 'o) sql_operator" where
  "sql_in c v = (case v of PList vs \<Rightarrow> Inr (SIn c vs) | _ \<Rightarrow> Inl (Other ''ArgumentError: IN expression list expected''))"

definition sql_between :: "('c, 'o) sql_operator" where
  "sql_between c v =
     (case py_item v 0 of Inl x \<Rightarrow> Inl x | Inr lo \<Rightarrow> (case py_item v 1 of Inl x \<Rightarrow> Inl x | Inr hi \<Rightarrow> Inr (SBetween c lo hi)))"

definition sql_not :: "('c, 'o) sql_operator \<Rightarrow> ('c, 'o) sql_operator" where
  "sql_not f c v = map_sum id SNot (f c v)"

text \<open>\<^verbatim>\<open>column.contains(value)\<close> and the like build a pattern around the value, without escaping its wildcards.\<close>

definition sql_pattern :: "'o host \<Rightarrow> bool \<Rightarrow> string \<Rightarrow> string \<Rightarrow> ('c, 'o) sql_operator" where
  "sql_pattern h ignore_case before after c v = Inr (SLike ignore_case c (PStr (before @ py_str h v @ after)))"

text \<open>Text of JSON operands.  \<open>dumps\<close> is \<^verbatim>\<open>json.dumps\<close>.\<close>

definition double_quotes :: "string \<Rightarrow> string" where
  "double_quotes s = concat (map (\<lambda>c. if c = CHR 0x27 then [c, c] else [c]) s)"

definition json_text :: "'o host \<Rightarrow> ('o pyval \<Rightarrow> string) \<Rightarrow> 'o pyval \<Rightarrow> string" where
  "json_text h dumps v = (case v of PDict _ \<Rightarrow> dumps v | PList _ \<Rightarrow> dumps v | _ \<Rightarrow> py_str h v)"

definition jsonb_literal :: "string \<Rightarrow> string" where
  "jsonb_literal s = quoted (double_quotes s) @ ''::jsonb''"

fun join_keys :: "string list \<Rightarrow> string" where
  "join_keys [] = []"
| "join_keys [x] = x"
| "join_keys (x # y # xs) = x @ '', '' @ join_keys (y # xs)"

definition array_literal :: "string list \<Rightarrow> string" where
  "array_literal keys = ''ARRAY['' @ join_keys (map quoted keys) @ '']''"

definition sql_json :: "'o host \<Rightarrow> ('o pyval \<Rightarrow> string) \<Rightarrow> string \<Rightarrow> ('c, 'o) sql_operator" where
  "sql_json h dumps name c v = Inr (SOperator c name (jsonb_literal (json_text h dumps v)))"

definition sql_json_keys :: "'o host \<Rightarrow> string \<Rightarrow> ('c, 'o) sql_operator" where
  "sql_json_keys h name c v = Inr (SOperator c name (array_literal (map (py_str h) (keys_of v))))"

definition sql_standard_operators :: "(spec_operator \<times> ('c, 'o) sql_operator) list" where
  "sql_standard_operators =
    [(EQ, \<lambda>c v. Inr (SEq c v)), (NE, \<lambda>c v. Inr (SNe c v)), (GT, \<lambda>c v. Inr (SOrd Gt c v)), (LT, \<lambda>c v. Inr (SOrd Lt c v)),
     (GE, \<lambda>c v. Inr (SOrd Ge c v)), (LE, \<lambda>c v. Inr (SOrd Le c v))]"

definition sql_set_operators :: "(spec_operator \<times> ('c, 'o) sql_operator) list" where
  "sql_set_operators = [(IN, sql_in), (NOT_IN, sql_not sql_in), (BETWEEN, sql_between), (NOT_BETWEEN, sql_not sql_between)]"

definition sql_string_operators :: "'o host \<Rightarrow> (spec_operator \<times> ('c, 'o) sql_operator) list" where
  "sql_string_operators h =
    [(LIKE, \<lambda>c v. Inr (SLike False c v)), (NOT_LIKE, sql_not (\<lambda>c v. Inr (SLike False c v))), (ILIKE, \<lambda>c v. Inr (SLike True c v)),
     (CONTAINS, sql_pattern h False ''%'' ''%''), (ICONTAINS, sql_pattern h True ''%'' ''%''),
     (STARTSWITH, sql_pattern h False [] ''%''), (ISTARTSWITH, sql_pattern h True [] ''%''),
     (ENDSWITH, sql_pattern h False ''%'' []), (IENDSWITH, sql_pattern h True ''%'' []),
     (REGEX, \<lambda>c v. Inr (SRegexp False c (py_str h v))), (IREGEX, \<lambda>c v. Inr (SRegexp True c (py_str h v)))]"

definition sql_null_operators :: "(spec_operator \<times> ('c, 'o) sql_operator) list" where
  "sql_null_operators =
    [(IS_NULL, \<lambda>c v. Inr (SIsNull c)), (IS_NOT_NULL, \<lambda>c v. Inr (SIsNotNull c)),
     (IS_EMPTY, \<lambda>c v. Inr (SEq c (PStr []))), (IS_NOT_EMPTY, \<lambda>c v. Inr (SNe c (PStr [])))]"

definition sql_json_operators :: "'o host \<Rightarrow> ('o pyval \<Rightarrow> string) \<Rightarrow> (spec_operator \<times> ('c, 'o) sql_operator) list" where
  "sql_json_operators h dumps =
    [(JSON_CONTAINS, sql_json h dumps ''@>''), (JSON_CONTAINED_BY, sql_json h dumps ''<@''),
     (JSON_HAS_KEY, \<lambda>c v. Inr (SHasKey c (py_str h v))),
     (JSON_HAS_ANY, sql_json_keys h ''?|''), (JSON_HAS_ALL, sql_json_keys h ''?&''),
     (JSON_PATH_EXISTS, \<lambda>c v. Inr (SFunction ''jsonb_path_exists'' c v))]"

text \<open>Full-text search compares \<^verbatim>\<open>to_tsvector(column)\<close> with the query that the named function makes of the value.\<close>

definition sql_fts_operators :: "(spec_operator \<times> ('c, 'o) sql_operator) list" where
  "sql_fts_operators = [(FTS, \<lambda>c v. Inr (SFunction ''to_tsquery'' c v)), (FTS_PHRASE, \<lambda>c v. Inr (SFunction ''phraseto_tsquery'' c v))]"

definition build_default_sqla_registry :: "'o host \<Rightarrow> ('o pyval \<Rightarrow> string) \<Rightarrow> (spec_operator \<times> ('c, 'o) sql_operator) list" where
  "build_default_sqla_registry h dumps =
     sql_standard_operators @ sql_set_operators @ sql_string_operators h @ sql_null_operators @ sql_json_operators h dumps @ sql_fts_operators"

lemmas sqla_registry_defs = build_default_sqla_registry_def sql_standard_operators_def sql_set_operators_def sql_string_operators_def
  sql_null_operators_def sql_json_operators_def sql_fts_operators_def

section \<open>Compilation\<close>

text \<open>An attribute of a class is a column or a relationship, to many or to one, to another class.\<close>

datatype ('m, 'c) sql_attr = SqlColumn 'c | SqlRelation bool 'm

record ('m, 'c, 'o) sql_env =
  se_attr :: "'m \<Rightarrow> string \<Rightarrow> ('m, 'c) sql_attr option"
  se_hooks :: "('m \<Rightarrow> string \<Rightarrow> 'o pyval \<Rightarrow> bool \<times> 'c option) list"
  se_registry :: "(spec_operator \<times> ('c, 'o) sql_operator) list"

definition sqla_apply :: "('m, 'c, 'o) sql_env \<Rightarrow> string \<Rightarrow> 'c \<Rightarrow> 'o pyval \<Rightarrow> exn + ('c, 'o) sql" where
  "sqla_apply env op_str c v =
     (case operator_of op_str of
        Inl x \<Rightarrow> Inl x
      | Inr m \<Rightarrow> (case map_of (se_registry env) m of
                     None \<Rightarrow> Inl (ValueError (''Unsupported operator for SQLAlchemy: '' @ op_value m))
                   | Some f \<Rightarrow> f c v))"

fun resolve_with_hooks :: "('m \<Rightarrow> string \<Rightarrow> 'o pyval \<Rightarrow> bool \<times> 'c option) list \<Rightarrow> 'm \<Rightarrow> string \<Rightarrow> 'o pyval \<Rightarrow> 'c option" where
  "resolve_with_hooks [] model attr v = None"
| "resolve_with_hooks (hook # hooks) model attr v =
     (case hook model attr v of (handled, r) \<Rightarrow> if handled then r else resolve_with_hooks hooks model attr v)"

text \<open>A relationship compiles the rest of the path as a node of its own, which is a leaf again.\<close>

function sql_leaf :: "('m, 'c, 'o) sql_env \<Rightarrow> 'm \<Rightarrow> string \<Rightarrow> string \<Rightarrow> 'o pyval \<Rightarrow> exn + ('c, 'o) sql" where
  "sql_leaf env model op_str attr v =
     (if attr = [] then Inl (ValueError ''Specification missing attr'')
      else case resolve_with_hooks (se_hooks env) model attr v of
        Some c \<Rightarrow> sqla_apply env op_str c v
      | None \<Rightarrow>
          if CHR ''.'' \<in> set attr then
            (case se_attr env model (takeWhile (\<lambda>c. c \<noteq> CHR ''.'') attr) of
               Some (SqlRelation uselist target) \<Rightarrow>
                 map_sum id ((if uselist then SAny else SHas) (takeWhile (\<lambda>c. c \<noteq> CHR ''.'') attr))
                   (sql_leaf env target op_str (tl (dropWhile (\<lambda>c. c \<noteq> CHR ''.'') attr)) v)
             | Some (SqlColumn _) \<Rightarrow> Inl (AttributeError ''mapper'')
             | None \<Rightarrow> Inl (AttributeError (''Model has no relationship '' @ takeWhile (\<lambda>c. c \<noteq> CHR ''.'') attr)))
          else (case se_attr env model attr of
                  Some (SqlColumn c) \<Rightarrow> sqla_apply env op_str c v
                | Some (SqlRelation _ _) \<Rightarrow> Inl (Other ''NotImplementedError'')
                | None \<Rightarrow> Inl (AttributeError (''Model has no attribute '' @ attr))))"
  by pat_completeness auto
termination
proof (relation "measure (\<lambda>(env, model, op_str, attr, v). length attr)", goal_cases)
  case (2 env model op_str attr v)
  have "length (dropWhile (\<lambda>c. c \<noteq> CHR ''.'') attr) \<le> length attr" by (rule length_dropWhile_le)
  then show ?case using 2 by (cases attr) (auto simp: length_dropWhile_le)
qed simp

declare sql_leaf.simps [simp del]

definition sql_leaf_node :: "('m, 'c, 'o) sql_env \<Rightarrow> 'm \<Rightarrow> string \<Rightarrow> (string \<times> 'o pyval) list \<Rightarrow> exn + ('c, 'o) sql" where
  "sql_leaf_node env model op_str d =
     (case dget d ''attr'' of
        PStr attr \<Rightarrow> sql_leaf env model op_str attr (dget d ''val'')
      | a \<Rightarrow> if py_truthy a then Inl (TypeError (''argument of type '' @ quoted (type_name a) @ '' is not iterable''))
             else Inl (ValueError ''Specification missing attr''))"

function sql_compile_node :: "('m, 'c, 'o) sql_env \<Rightarrow> 'm \<Rightarrow> 'o pyval \<Rightarrow> exn + ('c, 'o) sql" where
  "sql_compile_node env model data =
     (case data of
        PDict d \<Rightarrow>
          (case (case map_of d ''op'' of None \<Rightarrow> PStr [] | Some v \<Rightarrow> v) of
             PStr s \<Rightarrow>
               if lower s = ''and'' \<or> lower s = ''or'' then
                 map_sum id (if lower s = ''and'' then SAnd else SOr)
                   (case conditions_of d of
                      PList cs \<Rightarrow> traverse (\<lambda>c. sql_compile_node env model c) cs
                    | v \<Rightarrow> (case py_iter v of Inl x \<Rightarrow> Inl x | Inr [] \<Rightarrow> Inr [] | Inr (c # _) \<Rightarrow> Inl (no_attr c ''get'')))
               else if lower s = ''not'' then
                 (if \<not> py_truthy (conditions_of d) \<and> map_of d ''condition'' \<noteq> None
                  then map_sum id SNot (case map_of d ''condition'' of
                      Some c \<Rightarrow> sql_compile_node env model c | None \<Rightarrow> Inl (KeyError ''condition''))
                  else case conditions_of d of
                      PList cs \<Rightarrow>
                        if length cs > 1 then map_sum id (\<lambda>es. SNot (SAnd es)) (traverse (\<lambda>c. sql_compile_node env model c) cs)
                        else map_sum id (\<lambda>es. SNot (hd es)) (case cs of [] \<Rightarrow> Inl IndexError | _ \<Rightarrow> traverse (\<lambda>c. sql_compile_node env model c) cs)
                    | v \<Rightarrow> (case (py_iter v, first_item v) of
                           (Inr (c # _ # _), _) \<Rightarrow> Inl (no_attr c ''get'')
                         | (_, Inl x) \<Rightarrow> Inl x | (_, Inr c) \<Rightarrow> Inl (no_attr c ''get'')))
               else sql_leaf_node env model (lower s) d
           | v \<Rightarrow> Inl (no_attr v ''lower''))
      | _ \<Rightarrow> Inl (no_attr data ''get''))"
  by pat_completeness auto
termination
  by (relation "measure (\<lambda>(env, model, data). size data)")
    (auto dest: size_dict_lookup size_conditions_of simp del: pyval.size)

declare sql_compile_node.simps [simp del]

definition build_sqla_filter :: "('m, 'c, 'o) sql_env \<Rightarrow> 'm \<Rightarrow> 'o pyval \<Rightarrow> exn + ('c, 'o) sql" where
  "build_sqla_filter env model data = sql_compile_node env model data"

section \<open>Query options\<close>

record ('c, 'o) select_stmt =
  st_where :: "('c, 'o) sql list"
  st_order :: "('c \<times> bool) list"
  st_limit :: "int option"
  st_offset :: "int option"
  st_distinct :: bool
  st_group :: "'c list"

definition column_of :: "('m, 'c, 'o) sql_env \<Rightarrow> 'm \<Rightarrow> string \<Rightarrow> 'c option" where
  "column_of env model name = (case se_attr env model name of Some (SqlColumn c) \<Rightarrow> Some c | _ \<Rightarrow> None)"

text \<open>A name that the class does not know is passed over; the names it knows are taken to be columns.  The flag says descending.\<close>

definition order_clauses :: "('m, 'c, 'o) sql_env \<Rightarrow> 'm \<Rightarrow> string list \<Rightarrow> ('c \<times> bool) list" where
  "order_clauses env model names =
     List.map_filter (\<lambda>n. case n of
         c # name \<Rightarrow> if c = CHR ''-'' then map_option (\<lambda>x. (x, True)) (column_of env model name)
                     else map_option (\<lambda>x. (x, False)) (column_of env model n)
       | [] \<Rightarrow> map_option (\<lambda>x. (x, False)) (column_of env model n)) names"

definition apply_order_by :: "('m, 'c, 'o) sql_env \<Rightarrow> 'm \<Rightarrow> 'o query_options \<Rightarrow> ('c, 'o) select_stmt \<Rightarrow> ('c, 'o) select_stmt" where
  "apply_order_by env model options stmt = stmt\<lparr>st_order := st_order stmt @ order_clauses env model (qo_order_by options)\<rparr>"

definition apply_limit_offset :: "'o query_options \<Rightarrow> ('c, 'o) select_stmt \<Rightarrow> ('c, 'o) select_stmt" where
  "apply_limit_offset options stmt =
     (let stmt = (case qo_limit options of None \<Rightarrow> stmt | Some n \<Rightarrow> stmt\<lparr>st_limit := Some n\<rparr>)
      in case qo_offset options of None \<Rightarrow> stmt | Some n \<Rightarrow> stmt\<lparr>st_offset := Some n\<rparr>)"

definition apply_distinct :: "'o query_options \<Rightarrow> ('c, 'o) select_stmt \<Rightarrow> ('c, 'o) select_stmt" where
  "apply_distinct options stmt = (if qo_distinct options then stmt\<lparr>st_distinct := True\<rparr> else stmt)"

definition apply_group_by :: "('m, 'c, 'o) sql_env \<Rightarrow> 'm \<Rightarrow> 'o query_options \<Rightarrow> ('c, 'o) select_stmt \<Rightarrow> ('c, 'o) select_stmt" where
  "apply_group_by env model options stmt = stmt\<lparr>st_group := st_group stmt @ List.map_filter (column_of env model) (qo_group_by options)\<rparr>"

definition apply_query_options ::
  "('m, 'c, 'o) sql_env \<Rightarrow> 'm \<Rightarrow> 'o query_options option \<Rightarrow> ('c, 'o) select_stmt \<Rightarrow> ('c, 'o) select_stmt" where
  "apply_query_options env model options stmt =
     (case options of
        None \<Rightarrow> stmt
      | Some q \<Rightarrow> apply_group_by env model q (apply_distinct q (apply_limit_offset q (apply_order_by env model q stmt))))"

section \<open>Conditions select what memory selects, where no value is missing\<close>

text \<open>The connectives of SQL: unknown is \<^const>\<open>None\<close>.\<close>

definition and3 :: "bool option list \<Rightarrow> bool option" where
  "and3 rs = (if Some False \<in> set rs then Some False else if None \<in> set rs then None else Some True)"

definition or3 :: "bool option list \<Rightarrow> bool option" where
  "or3 rs = (if Some True \<in> set rs then Some True else if None \<in> set rs then None else Some False)"

text \<open>
  Rules of SQL: \<open>hv r e\<close> is the truth value of a condition on a row, \<open>cell r c\<close> the value of a column (\<^const>\<open>PNone\<close> for \<^verbatim>\<open>NULL\<close>),
  \<open>lk p t\<close> matches a pattern.  Texts are compared by code points, as a database does under a binary collation (\<^verbatim>\<open>C\<close> of
  PostgreSQL, \<^verbatim>\<open>BINARY\<close> of SQLite); under other collations equality and order of texts differ.  SQLAlchemy writes a comparison with \<^verbatim>\<open>None\<close> as \<^verbatim>\<open>IS NULL\<close>.
\<close>

definition sql_logic :: "('r \<Rightarrow> ('c, 'o) sql \<Rightarrow> bool option) \<Rightarrow> bool" where
  "sql_logic hv \<longleftrightarrow>
     (\<forall>r es. es \<noteq> [] \<longrightarrow> hv r (SAnd es) = and3 (map (hv r) es) \<and> hv r (SOr es) = or3 (map (hv r) es)) \<and>
     (\<forall>r e. hv r (SNot e) = map_option Not (hv r e))"

definition sql_cells :: "'o host \<Rightarrow> ('r \<Rightarrow> ('c, 'o) sql \<Rightarrow> bool option) \<Rightarrow> ('r \<Rightarrow> 'c \<Rightarrow> 'o pyval) \<Rightarrow> bool" where
  "sql_cells h hv cell \<longleftrightarrow>
     (\<forall>r c. hv r (SEq c PNone) = Some (cell r c = PNone) \<and> hv r (SNe c PNone) = Some (cell r c \<noteq> PNone)) \<and>
     (\<forall>r c v. ordered (cell r c) v \<longrightarrow>
        hv r (SEq c v) = (if cell r c = PNone then None else Some (py_eq (cell r c) v)) \<and>
        hv r (SNe c v) = (if cell r c = PNone then None else Some (\<not> py_eq (cell r c) v)) \<and>
        (\<forall>k. hv r (SOrd k c v) = (if cell r c = PNone then None else Some (order_op h k (cell r c) v = Inr True)))) \<and>
     (\<forall>r c vs. list_all (ordered (cell r c)) vs \<longrightarrow>
        hv r (SIn c vs) = (if cell r c = PNone \<and> vs \<noteq> [] then None else Some (list_ex (py_eq (cell r c)) vs))) \<and>
     (\<forall>r c lo hi. ordered (cell r c) lo \<longrightarrow> ordered (cell r c) hi \<longrightarrow>
        hv r (SBetween c lo hi) =
          (if cell r c = PNone then None else Some (order_op h Ge (cell r c) lo = Inr True \<and> order_op h Le (cell r c) hi = Inr True)))"

definition sql_like :: "('r \<Rightarrow> ('c, 'o) sql \<Rightarrow> bool option) \<Rightarrow> ('r \<Rightarrow> 'c \<Rightarrow> 'o pyval) \<Rightarrow> (string \<Rightarrow> string \<Rightarrow> bool) \<Rightarrow> bool" where
  "sql_like hv cell lk \<longleftrightarrow>
     (\<forall>r c i p t. cell r c = PStr t \<longrightarrow> ascii_line p \<longrightarrow> ascii_line t \<longrightarrow> hv r (SLike i c (PStr p)) = Some (lk (folded i p) (folded i t))) \<and>
     (\<forall>t. lk [] t = (t = [])) \<and>
     (\<forall>p t. lk (CHR ''%'' # p) t = (\<exists>u v. t = u @ v \<and> lk p v)) \<and>
     (\<forall>p t. lk (CHR ''_'' # p) t = (\<exists>c v. t = c # v \<and> lk p v)) \<and>
     (\<forall>c p t. c \<notin> {CHR ''%'', CHR ''_'', CHR 0x5C} \<longrightarrow> lk (c # p) t = (\<exists>v. t = c # v \<and> lk p v))"

definition sql_laws ::
  "'o host \<Rightarrow> ('r \<Rightarrow> ('c, 'o) sql \<Rightarrow> bool option) \<Rightarrow> ('r \<Rightarrow> 'c \<Rightarrow> 'o pyval) \<Rightarrow> (string \<Rightarrow> string \<Rightarrow> bool) \<Rightarrow> bool" where
  "sql_laws h hv cell lk \<longleftrightarrow> sql_logic hv \<and> sql_cells h hv cell \<and> sql_like hv cell lk"

definition no_wildcard :: "string \<Rightarrow> bool" where
  "no_wildcard s \<longleftrightarrow> list_all (\<lambda>c. c \<notin> {CHR ''%'', CHR ''_'', CHR 0x5C}) s"

definition sql_leaf_agrees :: "spec_operator \<Rightarrow> 'o pyval \<Rightarrow> 'o pyval \<Rightarrow> bool" where
  "sql_leaf_agrees m fv v \<longleftrightarrow>
     fv \<noteq> PNone \<and> leaf_agrees m fv v \<and> (case v of PStr s \<Rightarrow> no_wildcard s \<or> m \<in> {EQ, NE, GT, GE, LT, LE} | PList vs \<Rightarrow> PNone \<notin> set vs | _ \<Rightarrow> True)"

text \<open>A row and the object that is made of it: the attributes of the object are the columns of the row.\<close>

definition row_object :: "'o host \<Rightarrow> ('m, 'c, 'o) sql_env \<Rightarrow> 'm \<Rightarrow> ('r \<Rightarrow> 'c \<Rightarrow> 'o pyval) \<Rightarrow> 'r \<Rightarrow> 'o pyval \<Rightarrow> bool" where
  "row_object h env model cell r obj \<longleftrightarrow>
     (\<forall>name c. se_attr env model name = Some (SqlColumn c) \<longrightarrow> resolve_field h obj name = cell r c)"

primrec sql_agreeable :: "('m, 'c, 'o) sql_env \<Rightarrow> 'm \<Rightarrow> ('r \<Rightarrow> 'c \<Rightarrow> 'o pyval) \<Rightarrow> 'r \<Rightarrow> 'o spec \<Rightarrow> bool" where
  "sql_agreeable env model cell r (AttributeSpecification attr op v) =
     (case attr of
        PStr name \<Rightarrow> name \<noteq> [] \<and> CHR ''.'' \<notin> set name \<and>
          (case se_attr env model name of Some (SqlColumn c) \<Rightarrow> sql_leaf_agrees op (cell r c) v | _ \<Rightarrow> False)
      | _ \<Rightarrow> False)"
| "sql_agreeable env model cell r (AndSpecification specs) = (specs \<noteq> [] \<and> list_all id (map (sql_agreeable env model cell r) specs))"
| "sql_agreeable env model cell r (OrSpecification specs) = (specs \<noteq> [] \<and> list_all id (map (sql_agreeable env model cell r) specs))"
| "sql_agreeable env model cell r (NotSpecification s) = sql_agreeable env model cell r s"

lemma sql_likeD:
  assumes "sql_like hv cell lk"
  shows "lk [] t = (t = [])" "lk (CHR ''%'' # p) t = (\<exists>u v. t = u @ v \<and> lk p v)"
    "c \<notin> {CHR ''%'', CHR ''_'', CHR 0x5C} \<Longrightarrow> lk (c # p) t = (\<exists>v. t = c # v \<and> lk p v)"
    "cell r col = PStr t \<Longrightarrow> ascii_line p \<Longrightarrow> ascii_line t \<Longrightarrow> hv r (SLike i col (PStr p)) = Some (lk (folded i p) (folded i t))"
  using assms by (simp_all only: sql_like_def HOL.simp_thms)

lemma like_plain:
  assumes "sql_like hv cell lk" "no_wildcard s"
  shows "lk (s @ p) t = (\<exists>v. t = s @ v \<and> lk p v)"
  using assms(2)
proof (induction s arbitrary: t)
  case (Cons c s)
  then have c: "c \<notin> {CHR ''%'', CHR ''_'', CHR 0x5C}" and s: "no_wildcard s" by (simp_all add: no_wildcard_def)
  show ?case
  proof (cases t)
    case (Cons d u)
    then show ?thesis using sql_likeD(3) [OF assms(1) c, of "s @ p" t] Cons.IH [OF s, of u] by auto
  qed (use sql_likeD(3) [OF assms(1) c, of "s @ p" t] in simp)
qed simp

lemma like_patterns:
  assumes "sql_like hv cell lk" "no_wildcard s"
  shows "lk (''%'' @ s @ ''%'') t = contains_text s t" "lk (s @ ''%'') t = prefix s t" "lk (''%'' @ s) t = suffix s t"
proof -
  note nil = sql_likeD(1) [OF assms(1)] and any = sql_likeD(2) [OF assms(1)]
  have all: "lk ''%'' u" for u using any [of "[]" u] nil by auto
  have "lk (''%'' @ s @ ''%'') t = (\<exists>u v. t = u @ v \<and> lk (s @ ''%'') v)" using any [of "s @ ''%''" t] by simp
  then show "lk (''%'' @ s @ ''%'') t = contains_text s t"
    unfolding like_plain [OF assms, of "''%''"] contains_text_def sublist_def using all by blast
  show "lk (s @ ''%'') t = prefix s t" unfolding like_plain [OF assms, of "''%''" t] prefix_def using all by blast
  have "lk (''%'' @ s) t = (\<exists>u v. t = u @ v \<and> lk (s @ []) v)" using any [of s t] by simp
  then show "lk (''%'' @ s) t = suffix s t"
    unfolding like_plain [OF assms, of "[]"] suffix_def nil by simp
qed

lemma sql_cellsD:
  assumes "sql_cells h hv cell" "cell r c \<noteq> PNone"
  shows "hv r (SEq c PNone) = Some False" "hv r (SNe c PNone) = Some True"
    "ordered (cell r c) v \<Longrightarrow> hv r (SEq c v) = Some (py_eq (cell r c) v)"
    "ordered (cell r c) v \<Longrightarrow> hv r (SNe c v) = Some (\<not> py_eq (cell r c) v)"
    "ordered (cell r c) v \<Longrightarrow> hv r (SOrd k c v) = Some (order_op h k (cell r c) v = Inr True)"
    "list_all (ordered (cell r c)) vs \<Longrightarrow> hv r (SIn c vs) = Some (list_ex (py_eq (cell r c)) vs)"
    "ordered (cell r c) lo \<Longrightarrow> ordered (cell r c) hi \<Longrightarrow>
      hv r (SBetween c lo hi) = Some (order_op h Ge (cell r c) lo = Inr True \<and> order_op h Le (cell r c) hi = Inr True)"
  using assms by (simp_all add: sql_cells_def)

text \<open>The environment of the default operators, without hooks.\<close>

definition default_env :: "'o host \<Rightarrow> ('o pyval \<Rightarrow> string) \<Rightarrow> ('m, 'c, 'o) sql_env \<Rightarrow> bool" where
  "default_env h dumps env \<longleftrightarrow> se_hooks env = [] \<and> se_registry env = build_default_sqla_registry h dumps"

lemma sql_leaf_column:
  assumes "default_env h dumps env" "name \<noteq> []" "CHR ''.'' \<notin> set name" "se_attr env model name = Some (SqlColumn c)"
    and "map_of (build_default_sqla_registry h dumps) m = Some f"
  shows "sql_leaf env model (op_value m) name v = f c v"
  using assms by (subst sql_leaf.simps) (simp add: default_env_def sqla_apply_def)

lemma comparable_not_null: "comparable fv v \<Longrightarrow> fv \<noteq> PNone \<Longrightarrow> v = PNone \<or> ordered fv v"
  by (auto simp: comparable_def)

lemma py_eq_None: "fv \<noteq> PNone \<Longrightarrow> \<not> py_eq fv PNone"
  by (cases fv) (simp_all add: num_eq_def)

lemma sql_leaf_equality:
  assumes "sql_cells h hv cell" "sql_leaf_agrees m (cell r c) v" "m \<in> {EQ, NE, IN, NOT_IN}" "sql_logic hv"
  shows "\<exists>f e b. map_of (build_default_sqla_registry h dumps) m = Some f \<and> f c v = Inr e \<and> hv r e = Some b \<and> leaf_result h m (cell r c) v = Inr b"
proof -
  have fv: "cell r c \<noteq> PNone" and ag: "leaf_agrees m (cell r c) v" using assms(2) by (simp_all add: sql_leaf_agrees_def)
  note cells = sql_cellsD [OF assms(1) fv]
  have ev: "leaf_result h EQ x y = Inr (py_eq x y)" "leaf_result h NE x y = Inr (\<not> py_eq x y)"
      "leaf_result h IN x y = py_in x y" "leaf_result h NOT_IN x y = map_sum id Not (py_in x y)" for x y
    by (simp_all add: leaf_result_def default_lookup [where f = equal_op] default_lookup [where f = not_equal_op]
        default_lookup [where f = in_op] default_lookup [where f = not_in_op] builtin_operators_def
        equal_op_def not_equal_op_def in_op_def not_in_op_def)
  have neg: "hv r (SNot e) = map_option Not (hv r e)" for e using assms(4) by (simp add: sql_logic_def)
  consider "m \<in> {EQ, NE}" | "m \<in> {IN, NOT_IN}" using assms(3) by auto
  then show ?thesis
  proof cases
    case 1
    then have "comparable (cell r c) v" using ag by (auto simp: leaf_agrees_def)
    from comparable_not_null [OF this fv] show ?thesis
    proof
      assume "v = PNone"
      then show ?thesis using 1 fv
        by (elim insertE emptyE) (simp_all add: sqla_registry_defs ev cells(1,2) py_eq_None, blast+)
    next
      assume "ordered (cell r c) v"
      then show ?thesis using 1 by (elim insertE emptyE) (simp_all add: sqla_registry_defs ev cells(3,4))
    qed
  next
    case 2
    then obtain vs where vs: "v = PList vs" "list_all (comparable (cell r c)) vs" "PNone \<notin> set vs"
      using ag assms(2) by (auto simp: leaf_agrees_def sql_leaf_agrees_def split: pyval.splits)
    then have "list_all (ordered (cell r c)) vs" using comparable_not_null [OF _ fv] by (auto simp: list_all_iff)
    then show ?thesis using 2 vs(1)
      by (elim insertE emptyE) (simp_all add: sqla_registry_defs ev cells(6) sql_in_def sql_not_def neg)
  qed
qed

lemma sql_leaf_order:
  assumes "sql_cells h hv cell" "sql_leaf_agrees m (cell r c) v" "m \<in> {GT, GE, LT, LE}"
  shows "\<exists>f e b. map_of (build_default_sqla_registry h dumps) m = Some f \<and> f c v = Inr e \<and> hv r e = Some b \<and> leaf_result h m (cell r c) v = Inr b"
proof -
  have fv: "cell r c \<noteq> PNone" and ag: "ordered (cell r c) v" using assms(2,3) by (auto simp: sql_leaf_agrees_def leaf_agrees_def)
  note cells = sql_cellsD(5) [OF assms(1) fv ag]
  have ev: "leaf_result h GT = order_op h Gt" "leaf_result h GE = order_op h Ge" "leaf_result h LT = order_op h Lt" "leaf_result h LE = order_op h Le"
    by (intro ext; simp add: leaf_result_def default_lookup [where f = "order_op h Gt"] default_lookup [where f = "order_op h Ge"]
        default_lookup [where f = "order_op h Lt"] default_lookup [where f = "order_op h Le"] builtin_operators_def)+
  from assms(3) show ?thesis
    by (elim insertE emptyE) (simp_all add: sqla_registry_defs ev cells order_opD [OF ag, symmetric])
qed

lemma sql_leaf_range:
  assumes "sql_cells h hv cell" "sql_leaf_agrees m (cell r c) v" "m \<in> {BETWEEN, NOT_BETWEEN}" "sql_logic hv"
  shows "\<exists>f e b. map_of (build_default_sqla_registry h dumps) m = Some f \<and> f c v = Inr e \<and> hv r e = Some b \<and> leaf_result h m (cell r c) v = Inr b"
proof -
  obtain lo hi where v: "v = PList [lo, hi]" "ordered (cell r c) lo" "ordered (cell r c) hi" and fv: "cell r c \<noteq> PNone"
    using assms(2,3) by (auto simp: sql_leaf_agrees_def leaf_agrees_def split: pyval.splits list.splits)
  note cells = sql_cellsD(7) [OF assms(1) fv v(2,3)]
  have neg: "hv r (SNot e) = map_option Not (hv r e)" for e using assms(4) by (simp add: sql_logic_def)
  have ev: "leaf_result h BETWEEN = between_op h" "leaf_result h NOT_BETWEEN = not_between_op h"
    by (intro ext; simp add: leaf_result_def default_lookup [where f = "between_op h"] default_lookup [where f = "not_between_op h"] builtin_operators_def)+
  have "in_range h lo (cell r c) hi = Inr (order_op h Ge (cell r c) lo = Inr True \<and> order_op h Le (cell r c) hi = Inr True)"
  proof (rule ordered_cases [OF v(2), where h = h], goal_cases)
    case l: (2 lt eq gt)
    show ?case
    proof (rule ordered_cases [OF v(3), where h = h], goal_cases)
      case 2
      then show ?case using l by (auto simp: in_range_def order_op_def)
    qed (use fv in simp)
  qed (use fv in simp)
  with assms(3) v(1) fv show ?thesis
    by (elim insertE emptyE)
      (simp_all add: sqla_registry_defs ev cells sql_between_def sql_not_def py_item_def neg between_op_def not_between_op_def unpack2_def)
qed

lemma folded_append: "folded i (s @ t) = folded i s @ folded i t" "folded i ''%'' = ''%''" "folded i [] = []"
  by (cases i; simp add: folded_def lower_def; code_simp)+

lemma folded_wild: "no_wildcard s \<Longrightarrow> no_wildcard (folded i s)"
proof -
  have "lower_char c = c \<or> 97 \<le> (of_char (lower_char c) :: nat)" for c by (simp add: lower_char_def Let_def)
  moreover have "of_char d < (97 :: nat)" if "d \<in> {CHR ''%'', CHR ''_'', CHR 0x5C}" for d :: char using that by auto
  ultimately have "lower_char c \<notin> {CHR ''%'', CHR ''_'', CHR 0x5C}" if "c \<notin> {CHR ''%'', CHR ''_'', CHR 0x5C}" for c
    using that by (metis not_le)
  then show "no_wildcard s \<Longrightarrow> no_wildcard (folded i s)" by (auto simp: no_wildcard_def folded_def lower_def list_all_iff)
qed

lemma ascii_pattern: "ascii_line s \<Longrightarrow> ascii_line (''%'' @ s @ ''%'')" "ascii_line s \<Longrightarrow> ascii_line (s @ ''%'')" "ascii_line s \<Longrightarrow> ascii_line (''%'' @ s)"
  by (simp_all add: ascii_line_def)

lemma sql_leaf_text:
  assumes "sql_like hv cell lk" "sql_leaf_agrees m (cell r c) v"
    and "m \<in> {CONTAINS, ICONTAINS, STARTSWITH, ISTARTSWITH, ENDSWITH, IENDSWITH}"
  shows "\<exists>f e b. map_of (build_default_sqla_registry h dumps) m = Some f \<and> f c v = Inr e \<and> hv r e = Some b \<and> leaf_result h m (cell r c) v = Inr b"
proof -
  obtain s t where s: "v = PStr s" "ascii_line s" "no_wildcard s" and t: "cell r c = PStr t" "ascii_line t"
    using assms(2,3) by (auto simp: sql_leaf_agrees_def leaf_agrees_def split: pyval.splits)
  have ev: "leaf_result h CONTAINS = text_op h id contains_text" "leaf_result h ICONTAINS = text_op h lower contains_text"
      "leaf_result h STARTSWITH = text_op h id prefix" "leaf_result h ISTARTSWITH = text_op h lower prefix"
      "leaf_result h ENDSWITH = text_op h id suffix" "leaf_result h IENDSWITH = text_op h lower suffix"
    by (intro ext; simp add: leaf_result_def default_lookup [where f = "text_op h id contains_text"] default_lookup [where f = "text_op h lower contains_text"]
        default_lookup [where f = "text_op h id prefix"] default_lookup [where f = "text_op h lower prefix"]
        default_lookup [where f = "text_op h id suffix"] default_lookup [where f = "text_op h lower suffix"] builtin_operators_def)+
  have like: "hv r (SLike i c (PStr p)) = Some (lk (folded i p) (folded i t))" if "ascii_line p" for i p
    by (rule sql_likeD(4) [OF assms(1) t(1) that t(2)])
  note pats = like_patterns [OF assms(1) folded_wild [OF s(3)]]
  have pat: "hv r (SLike i c (PStr (''%'' @ s @ ''%''))) = Some (contains_text (folded i s) (folded i t))"
    "hv r (SLike i c (PStr (s @ ''%''))) = Some (prefix (folded i s) (folded i t))"
    "hv r (SLike i c (PStr (''%'' @ s))) = Some (suffix (folded i s) (folded i t))" for i
    by (simp_all only: like ascii_pattern [OF s(2)] folded_append pats)
  have str: "py_str h (PStr u) = u" for u by (simp add: py_str_def)
  from assms(3) show ?thesis
    by (elim insertE emptyE)
      (simp_all add: sqla_registry_defs ev s(1) t(1) sql_pattern_def str text_op_def pat [simplified] folded_def)
qed

lemma sql_leaf_agreement:
  assumes "sql_laws h hv cell lk" "sql_leaf_agrees m (cell r c) v"
  shows "\<exists>f e b. map_of (build_default_sqla_registry h dumps) m = Some f \<and> f c v = Inr e \<and> hv r e = Some b \<and> leaf_result h m (cell r c) v = Inr b"
proof -
  have laws: "sql_logic hv" "sql_cells h hv cell" "sql_like hv cell lk" using assms(1) by (simp_all add: sql_laws_def)
  have ag: "leaf_agrees m (cell r c) v" using assms(2) by (simp add: sql_leaf_agrees_def)
  consider "m \<in> {EQ, NE, IN, NOT_IN}" | "m \<in> {GT, GE, LT, LE}" | "m \<in> {BETWEEN, NOT_BETWEEN}" |
      "m \<in> {CONTAINS, ICONTAINS, STARTSWITH, ISTARTSWITH, ENDSWITH, IENDSWITH}"
    using ag by (auto simp: leaf_agrees_def split: if_splits)
  then show ?thesis
  proof cases
    case 1
    then show ?thesis by (rule sql_leaf_equality [OF laws(2) assms(2) _ laws(1)])
  next
    case 2
    then show ?thesis by (rule sql_leaf_order [OF laws(2) assms(2)])
  next
    case 3
    then show ?thesis by (rule sql_leaf_range [OF laws(2) assms(2) _ laws(1)])
  next
    case 4
    then show ?thesis by (rule sql_leaf_text [OF laws(3) assms(2)])
  qed
qed

lemma three_known:
  "(\<And>x. x \<in> set xs \<Longrightarrow> f x = Some (p x)) \<Longrightarrow> and3 (map f xs) = Some (\<forall>x \<in> set xs. p x)"
  "(\<And>x. x \<in> set xs \<Longrightarrow> f x = Some (p x)) \<Longrightarrow> or3 (map f xs) = Some (\<exists>x \<in> set xs. p x)"
  by (auto simp: and3_def or3_def image_iff)


section \<open>Where database and memory differ\<close>

text \<open>
  A missing value under a negation: memory finds the object of a row whose column is \<^verbatim>\<open>NULL\<close> when an equality is negated, or asked for
  inequality, while the condition is unknown for the row, which is not selected.
\<close>

theorem sql_negation_loses_null:
  assumes "sql_laws h hv cell lk" "default_env h dumps env" "row_object h env model cell r obj"
    and "name \<noteq> []" "CHR ''.'' \<notin> set name" "se_attr env model name = Some (SqlColumn c)" "cell r c = PNone" "kind_of v \<noteq> None"
    and "s \<in> {NotSpecification (AttributeSpecification (PStr name) EQ v), AttributeSpecification (PStr name) NE v}"
  shows "\<exists>e. build_sqla_filter env model (spec_to_dict s) = Inr e \<and> hv r e \<noteq> Some True \<and>
    is_satisfied_by h (build_default_registry h []) obj s = Inr True"
proof -
  have laws: "sql_logic hv" "sql_cells h hv cell" using assms(1) by (simp_all add: sql_laws_def)
  have ops: "op_value NE \<noteq> ''and'' \<and> op_value NE \<noteq> ''or'' \<and> op_value NE \<noteq> ''not''" by (simp add: op_value_def operator_values_def)
  have fld: "resolve_field h obj name = PNone" using assms(3,6,7) by (simp add: row_object_def)
  have "v \<noteq> PNone" using assms(8) by (auto simp: kind_of_def)
  then have mem: "\<not> py_eq PNone v" by simp
  have "ordered (cell r c) v" using assms(7,8) by (simp add: ordered_def)
  then have none: "hv r (SEq c v) = None" "hv r (SNe c v) = None" using laws(2) assms(7) by (simp_all add: sql_cells_def)
  note leaf = sql_leaf_column [OF assms(2,4,5,6)]
  have eq: "sql_leaf env model ''='' name v = Inr (SEq c v)"
    using leaf [of EQ "\<lambda>c v. Inr (SEq c v)"] by (simp add: sqla_registry_defs)
  have ne: "sql_leaf env model (op_value NE) name v = Inr (SNe c v)"
    using leaf [of NE "\<lambda>c v. Inr (SNe c v)"] by (simp add: sqla_registry_defs)
  have ev: "reg_evaluate (build_default_registry h []) EQ = equal_op" "reg_evaluate (build_default_registry h []) NE = not_equal_op"
    by (simp_all add: default_lookup [where f = equal_op] default_lookup [where f = not_equal_op] builtin_operators_def)
  from assms(9) show ?thesis
  proof (elim insertE emptyE)
    assume s: "s = NotSpecification (AttributeSpecification (PStr name) EQ v)"
    have "build_sqla_filter env model (spec_to_dict s) = Inr (SNot (SEq c v))"
      unfolding build_sqla_filter_def s
      by (subst sql_compile_node.simps) (simp add: conditions_of_def sql_compile_node.simps sql_leaf_node_def eq lower_def lower_char_def)
    moreover have "hv r (SNot (SEq c v)) = None" using laws(1) none(1) by (simp add: sql_logic_def)
    ultimately show ?thesis using fld mem by (simp add: s ev equal_op_def)
  next
    assume s: "s = AttributeSpecification (PStr name) NE v"
    have "build_sqla_filter env model (spec_to_dict s) = Inr (SNe c v)"
      unfolding build_sqla_filter_def s using ops by (subst sql_compile_node.simps) (simp add: sql_leaf_node_def ne)
    then show ?thesis using fld mem none(2) by (simp add: s ev not_equal_op_def)
  qed
qed

text \<open>
  Wildcards in a searched text are not escaped: a search for \<^verbatim>\<open>1_0\<close> finds \<^verbatim>\<open>190\<close> in the database and not in memory.
\<close>

lemma sql_contains_takes_wildcards:
  assumes "sql_like hv cell lk" "cell r c = PStr ''190''"
  shows "\<exists>e. sql_pattern h False ''%'' ''%'' c (PStr ''1_0'') = Inr e \<and> hv r e = Some True"
    "\<not> contains_text ''1_0'' ''190''"
proof -
  have l: "lk ''%1_0%'' ''190''"
  proof -
    have "lk ''%'' []" using sql_likeD(1,2) [OF assms(1)] by simp
    then have "lk ''0%'' ''0''" using sql_likeD(3) [OF assms(1), of "CHR ''0''"] by simp
    then have "lk ''_0%'' ''90''" using assms(1) by (simp add: sql_like_def)
    then have "lk ''1_0%'' ''190''" using sql_likeD(3) [OF assms(1), of "CHR ''1''"] by simp
    then show ?thesis using sql_likeD(2) [OF assms(1), of "''1_0%''" "''190''"] by (metis append_Nil)
  qed
  have "ascii_line ''%1_0%''" "ascii_line ''190''" by code_simp+
  from sql_likeD(4) [OF assms this, of False] l
  show "\<exists>e. sql_pattern h False ''%'' ''%'' c (PStr ''1_0'') = Inr e \<and> hv r e = Some True"
    by (simp add: sql_pattern_def py_str_def folded_def)
  show "\<not> contains_text ''1_0'' ''190''" by code_simp
qed

section \<open>Literals in the text of a condition\<close>

text \<open>
  How a server reads a text literal is a parameter: \<open>rt\<close> reads from behind the opening quote and returns the text and what
  follows.  The laws are the documented ones: a quote ends the literal, two adjacent quotes stand for one, any other
  character stands for itself.
\<close>

definition literal_laws :: "(string \<Rightarrow> (string \<times> string) option) \<Rightarrow> bool" where
  "literal_laws rt \<longleftrightarrow>
     (\<forall>r. (r = [] \<or> hd r \<noteq> CHR 0x27) \<longrightarrow> rt (CHR 0x27 # r) = Some ([], r)) \<and>
     (\<forall>r. rt (CHR 0x27 # CHR 0x27 # r) = map_option (apfst (Cons (CHR 0x27))) (rt r)) \<and>
     (\<forall>c r. c \<noteq> CHR 0x27 \<longrightarrow> rt (c # r) = map_option (apfst (Cons c)) (rt r))"

lemma literal_lawsD:
  assumes "literal_laws rt"
  shows "r = [] \<or> hd r \<noteq> CHR 0x27 \<Longrightarrow> rt (CHR 0x27 # r) = Some ([], r)"
    "rt (CHR 0x27 # CHR 0x27 # r) = map_option (apfst (Cons (CHR 0x27))) (rt r)"
    "c \<noteq> CHR 0x27 \<Longrightarrow> rt (c # r) = map_option (apfst (Cons c)) (rt r)"
  using assms unfolding literal_laws_def by blast+

lemma read_doubled:
  assumes "literal_laws rt" "rest = [] \<or> hd rest \<noteq> CHR 0x27"
  shows "rt (double_quotes s @ CHR 0x27 # rest) = Some (s, rest)"
proof (induction s)
  case Nil
  then show ?case using literal_lawsD(1) [OF assms] by (simp add: double_quotes_def)
next
  case (Cons c s)
  have "double_quotes (c # s) = (if c = CHR 0x27 then [c, c] else [c]) @ double_quotes s" by (simp add: double_quotes_def)
  then show ?case using Cons by (cases "c = CHR 0x27") (simp_all add: literal_lawsD(2,3) [OF assms(1)])
qed

text \<open>
  the operand of the JSON containment operators is one literal: whatever text a client supplies, the server reads exactly that text
  and goes on with the cast.
\<close>

theorem json_operand_is_one_literal:
  assumes "literal_laws rt"
  shows "\<exists>lit. sql_json h dumps name c v = Inr (SOperator c name (CHR 0x27 # lit)) \<and> rt lit = Some (json_text h dumps v, ''::jsonb'')"
  using read_doubled [OF assms, of "''::jsonb''" "json_text h dumps v"] by (simp add: sql_json_def jsonb_literal_def quoted_def)

text \<open>
  The key operators do not double quotes: a key that starts with a quote ends the literal, and the rest of the key is read as SQL.
\<close>

theorem json_keys_escape_literal:
  assumes "literal_laws rt" "hd key \<noteq> CHR 0x27" "key \<noteq> []"
  shows "\<exists>lit. sql_json_keys h ''?|'' c (PStr (CHR 0x27 # key)) = Inr (SOperator c ''?|'' (''ARRAY['' @ CHR 0x27 # lit)) \<and>
    rt lit = Some ([], key @ CHR 0x27 # '']'')"
  using literal_lawsD(1) [OF assms(1), of "key @ CHR 0x27 # '']''"] assms(2,3)
  by (cases key) (simp_all add: sql_json_keys_def array_literal_def keys_of_def py_str_def quoted_def)

fun ex_read_text :: "string \<Rightarrow> (string \<times> string) option" where
  "ex_read_text [] = None"
| "ex_read_text [c] = (if c = CHR 0x27 then Some ([], []) else None)"
| "ex_read_text (c # d # r) =
     (if c = CHR 0x27 then (if d = CHR 0x27 then map_option (apfst (Cons c)) (ex_read_text r) else Some ([], d # r))
      else map_option (apfst (Cons c)) (ex_read_text (d # r)))"

lemma ex_read_text_laws: "literal_laws ex_read_text"
  unfolding literal_laws_def
proof (intro conjI allI impI)
  fix r :: string assume "r = [] \<or> hd r \<noteq> CHR 0x27"
  then show "ex_read_text (CHR 0x27 # r) = Some ([], r)" by (cases r) auto
next
  fix c :: char and r assume "c \<noteq> CHR 0x27"
  then show "ex_read_text (c # r) = map_option (apfst (Cons c)) (ex_read_text r)" by (cases r) auto
qed simp

theorem json_operand_is_one_literal_witness:
  "\<exists>lit. sql_json ex_host (\<lambda>_. ''a'' @ [CHR 0x27]) ''@>'' ''data'' (PInt 1) = Inr (SOperator ''data'' ''@>'' (CHR 0x27 # lit)) \<and>
     ex_read_text lit = Some (json_text ex_host (\<lambda>_. ''a'' @ [CHR 0x27]) (PInt 1), ''::jsonb'')"
  by (rule json_operand_is_one_literal [OF ex_read_text_laws])

theorem json_keys_escape_literal_witness:
  "\<exists>lit. sql_json_keys ex_host ''?|'' ''data'' (PStr (CHR 0x27 # ''] OR TRUE'')) = Inr (SOperator ''data'' ''?|'' (''ARRAY['' @ CHR 0x27 # lit)) \<and>
    ex_read_text lit = Some ([], ''] OR TRUE'' @ CHR 0x27 # '']'')"
  by (rule json_keys_escape_literal [OF ex_read_text_laws]) simp_all

section \<open>A database\<close>

text \<open>Rows as dictionaries, with the truth values of SQL: the laws can be met.\<close>

function like_match :: "string \<Rightarrow> string \<Rightarrow> bool" where
  "like_match [] t = (t = [])"
| "like_match (c # p) t =
     (if c = CHR ''%'' then like_match p t \<or> (case t of [] \<Rightarrow> False | _ # v \<Rightarrow> like_match (c # p) v)
      else (case t of [] \<Rightarrow> False | d # v \<Rightarrow> (c = CHR ''_'' \<or> c = d) \<and> like_match p v))"
  by pat_completeness auto
termination
  by (relation "measure (\<lambda>(p, t). length p + length t)") auto

fun row_truth :: "(string \<times> unit pyval) list \<Rightarrow> (string, unit) sql \<Rightarrow> bool option" where
  "row_truth r (SEq c v) = (if v = PNone then Some (dget r c = PNone) else if dget r c = PNone then None else Some (py_eq (dget r c) v))"
| "row_truth r (SNe c v) = (if v = PNone then Some (dget r c \<noteq> PNone) else if dget r c = PNone then None else Some (\<not> py_eq (dget r c) v))"
| "row_truth r (SOrd k c v) = (if dget r c = PNone then None else Some (order_op ex_host k (dget r c) v = Inr True))"
| "row_truth r (SIn c vs) = (if dget r c = PNone \<and> vs \<noteq> [] then None else Some (list_ex (py_eq (dget r c)) vs))"
| "row_truth r (SBetween c lo hi) =
     (if dget r c = PNone then None else Some (order_op ex_host Ge (dget r c) lo = Inr True \<and> order_op ex_host Le (dget r c) hi = Inr True))"
| "row_truth r (SLike i c p) =
     (case (dget r c, p) of (PStr t, PStr s) \<Rightarrow> Some (like_match (folded i s) (folded i t)) | _ \<Rightarrow> None)"
| "row_truth r (SIsNull c) = Some (dget r c = PNone)"
| "row_truth r (SIsNotNull c) = Some (dget r c \<noteq> PNone)"
| "row_truth r (SAnd es) = and3 (map (row_truth r) es)"
| "row_truth r (SOr es) = or3 (map (row_truth r) es)"
| "row_truth r (SNot e) = map_option Not (row_truth r e)"
| "row_truth r _ = None"

lemma like_match_any: "like_match (CHR ''%'' # p) t = (\<exists>u v. t = u @ v \<and> like_match p v)"
proof (induction t)
  case (Cons c t)
  have "(\<exists>u v. c # t = u @ v \<and> like_match p v) \<longleftrightarrow> like_match p (c # t) \<or> (\<exists>u v. t = u @ v \<and> like_match p v)"
    by (metis append_Cons append_Nil list.exhaust list.inject)
  then show ?case using Cons by simp
qed simp

lemma row_laws: "sql_laws ex_host row_truth dget like_match"
  unfolding sql_laws_def
proof (intro conjI)
  show "sql_logic row_truth" by (simp add: sql_logic_def)
  show "sql_cells ex_host row_truth dget" by (auto simp: sql_cells_def ordered_def kind_of_def)
  show "sql_like row_truth dget like_match"
    unfolding sql_like_def by (auto simp: like_match_any simp del: like_match.simps(2)) (auto split: list.splits)
qed

definition ex_env :: "(unit, string, unit) sql_env" where
  "ex_env = \<lparr>se_attr = (\<lambda>_ name. if name \<in> {''total'', ''city''} then Some (SqlColumn name) else None), se_hooks = [],
     se_registry = build_default_sqla_registry ex_host (\<lambda>_. [])\<rparr>"

definition ex_row :: "(string \<times> unit pyval) list" where
  "ex_row = [(''total'', PInt 30), (''city'', PStr ''Rome'')]"

definition ex_condition :: "unit spec" where
  "ex_condition = AndSpecification [AttributeSpecification (PStr ''total'') BETWEEN (PList [PInt 10, PInt 50]),
     NotSpecification (AttributeSpecification (PStr ''city'') ICONTAINS (PStr ''OSL''))]"

lemma ex_row_object: "row_object ex_host ex_env () dget r (PDict r)"
proof -
  have "split_on (CHR ''.'') ''total'' = [''total'']" "split_on (CHR ''.'') ''city'' = [''city'']" by code_simp+
  then show ?thesis by (auto simp: row_object_def ex_env_def resolve_field_def split: if_splits)
qed

lemma ex_env_default: "default_env ex_host (\<lambda>_. []) ex_env"
  by (simp add: default_env_def ex_env_def)

lemma ex_condition_agreeable: "sql_agreeable ex_env () dget ex_row ex_condition"
  by code_simp


theorem sql_negation_loses_null_witness:
  "\<exists>e. build_sqla_filter ex_env () (spec_to_dict (AttributeSpecification (PStr ''city'') NE (PStr ''Oslo''))) = Inr e \<and>
     row_truth [(''total'', PInt 30)] e \<noteq> Some True \<and>
     is_satisfied_by ex_host (build_default_registry ex_host []) (PDict [(''total'', PInt 30)]) (AttributeSpecification (PStr ''city'') NE (PStr ''Oslo'')) = Inr True"
  by (rule sql_negation_loses_null [OF row_laws ex_env_default ex_row_object, of "''city''" "''city''"])
    (simp_all add: ex_env_def kind_of_def)

end
