(* ===== verification/DbStores.thy ===== *)
theory DbStores
  imports EventStore Outbox
begin

text \<open>
  Stores over database tables: the event store, the outbox and the repository of the MongoDB package
  (core/event_store.py, core/outbox.py, core/repository.py, core/versioning.py) and the event store and the outbox of the SQLAlchemy
  package (core/event_store.py, core/outbox.py).

  A table, or collection, of rows is a parameter with the operations the code calls; \<open>table_laws\<close> are what databases document of
  them.  Rows that a session has added are written before the session reads.  A specification is the predicate that its
  compiled form selects.
\<close>

section \<open>Tables\<close>

text \<open>
  \<open>tb_select p key limit\<close> reads the rows with \<open>p\<close> in the order of \<open>key\<close>, \<open>tb_update p f\<close> changes the rows with \<open>p\<close> and says how
  many there were, \<open>tb_next\<close> draws the next number of the sequence.
\<close>

record ('r, 'd) table =
  tb_select :: "('r \<Rightarrow> bool) \<Rightarrow> ('r \<Rightarrow> int) \<Rightarrow> int option \<Rightarrow> 'd \<Rightarrow> 'r list"
  tb_insert :: "'r list \<Rightarrow> 'd \<Rightarrow> 'd"
  tb_update :: "('r \<Rightarrow> bool) \<Rightarrow> ('r \<Rightarrow> 'r) \<Rightarrow> 'd \<Rightarrow> 'd \<times> nat"
  tb_delete :: "('r \<Rightarrow> bool) \<Rightarrow> 'd \<Rightarrow> 'd"
  tb_next :: "'d \<Rightarrow> 'd \<times> int"

section \<open>Event stores\<close>

fun assign_positions :: "(stored_event, 'd) table \<Rightarrow> stored_event list \<Rightarrow> 'd \<Rightarrow> 'd \<times> stored_event list" where
  "assign_positions tb [] d = (d, [])"
| "assign_positions tb (e # evs) d =
     (case tb_next tb d of (d, p) \<Rightarrow> case assign_positions tb evs d of (d, out) \<Rightarrow> (d, e\<lparr>se_position := Some p\<rparr> # out))"

definition db_append :: "(stored_event, 'd) table \<Rightarrow> stored_event \<Rightarrow> 'd \<Rightarrow> 'd" where
  "db_append tb e d = (case tb_next tb d of (d, p) \<Rightarrow> tb_insert tb [e\<lparr>se_position := Some p\<rparr>] d)"

definition db_append_batch :: "(stored_event, 'd) table \<Rightarrow> stored_event list \<Rightarrow> 'd \<Rightarrow> 'd" where
  "db_append_batch tb evs d = (if evs = [] then d else case assign_positions tb evs d of (d, out) \<Rightarrow> tb_insert tb out d)"

definition db_get_events :: "(stored_event, 'd) table \<Rightarrow> 'd \<Rightarrow> string \<Rightarrow> int \<Rightarrow> stored_event spec_opt \<Rightarrow> stored_event list" where
  "db_get_events tb d aggregate_id after_version spec =
     tb_select tb (\<lambda>e. se_aggregate_id e = aggregate_id \<and> after_version < se_version e \<and> satisfies spec e) se_version None d"

definition mongo_get_by_aggregate ::
  "(stored_event, 'd) table \<Rightarrow> 'd \<Rightarrow> string \<Rightarrow> string option \<Rightarrow> stored_event spec_opt \<Rightarrow> stored_event list" where
  "mongo_get_by_aggregate tb d aggregate_id aggregate_type spec =
     tb_select tb (\<lambda>e. se_aggregate_id e = aggregate_id \<and> (case aggregate_type of None \<Rightarrow> True | Some t \<Rightarrow> se_aggregate_type e = t) \<and> satisfies spec e)
       se_version None d"

definition sql_get_by_aggregate ::
  "(stored_event, 'd) table \<Rightarrow> 'd \<Rightarrow> string \<Rightarrow> string option \<Rightarrow> stored_event spec_opt \<Rightarrow> stored_event list" where
  "sql_get_by_aggregate tb d aggregate_id aggregate_type spec =
     mongo_get_by_aggregate tb d aggregate_id (if truthy aggregate_type then aggregate_type else None) spec"

definition mongo_get_all :: "(stored_event, 'd) table \<Rightarrow> 'd \<Rightarrow> stored_event spec_opt \<Rightarrow> stored_event list" where
  "mongo_get_all tb d spec = tb_select tb (satisfies spec) pos_of None d"

definition sql_get_all :: "(stored_event, 'd) table \<Rightarrow> 'd \<Rightarrow> stored_event spec_opt \<Rightarrow> stored_event list" where
  "sql_get_all tb d spec = tb_select tb (satisfies spec) se_occurred_at None d"

definition db_get_events_after :: "(stored_event, 'd) table \<Rightarrow> 'd \<Rightarrow> int \<Rightarrow> int \<Rightarrow> stored_event spec_opt \<Rightarrow> stored_event list" where
  "db_get_events_after tb d position limit spec =
     tb_select tb (\<lambda>e. position < pos_of e \<and> satisfies spec e) pos_of (Some limit) d"

text \<open>The loops read until a short batch, or an empty one; \<^const>\<open>None\<close> is that the fuel is used up.\<close>

fun db_get_events_from_position ::
  "nat \<Rightarrow> (stored_event, 'd) table \<Rightarrow> 'd \<Rightarrow> int \<Rightarrow> int option \<Rightarrow> stored_event spec_opt \<Rightarrow> (stored_event list \<times> exn option) option" where
  "db_get_events_from_position 0 tb d current limit spec = None"
| "db_get_events_from_position (Suc fuel) tb d current limit spec =
     (let batch_size = (case limit of None \<Rightarrow> 1000 | Some l \<Rightarrow> l);
          batch = db_get_events_after tb d current batch_size spec
      in if int (length batch) < batch_size then Some (batch, None)
         else if batch = [] then Some ([], Some IndexError)
         else (case db_get_events_from_position fuel tb d (next_cursor current batch) limit spec of
                 None \<Rightarrow> None
               | Some (rest, e) \<Rightarrow> Some (batch @ rest, e)))"

fun sql_streaming_loop ::
  "nat \<Rightarrow> (stored_event, 'd) table \<Rightarrow> 'd \<Rightarrow> int \<Rightarrow> int \<Rightarrow> stored_event spec_opt \<Rightarrow> stored_event list list option" where
  "sql_streaming_loop 0 tb d offset batch_size spec = None"
| "sql_streaming_loop (Suc fuel) tb d offset batch_size spec =
     (let batch = db_get_events_after tb d offset batch_size spec
      in if batch = [] then Some []
         else map_option (Cons batch) (sql_streaming_loop fuel tb d (offset + int (length batch)) batch_size spec))"

definition sql_get_all_streaming ::
  "nat \<Rightarrow> (stored_event, 'd) table \<Rightarrow> 'd \<Rightarrow> int \<Rightarrow> stored_event spec_opt \<Rightarrow> stored_event list list option" where
  "sql_get_all_streaming fuel tb d batch_size spec = sql_streaming_loop fuel tb d 0 batch_size spec"

text \<open>The MongoDB store cuts what one cursor yields into batches.\<close>

fun cut_batches :: "int \<Rightarrow> 'a list \<Rightarrow> 'a list \<Rightarrow> 'a list list" where
  "cut_batches n batch [] = (if batch = [] then [] else [batch])"
| "cut_batches n batch (x # xs) =
     (if n \<le> int (length (batch @ [x])) then (batch @ [x]) # cut_batches n [] xs else cut_batches n (batch @ [x]) xs)"

definition mongo_get_all_streaming :: "(stored_event, 'd) table \<Rightarrow> 'd \<Rightarrow> int \<Rightarrow> stored_event spec_opt \<Rightarrow> stored_event list list" where
  "mongo_get_all_streaming tb d batch_size spec = cut_batches batch_size [] (mongo_get_all tb d spec)"

definition mongo_stream_events :: "(stored_event, 'd) table \<Rightarrow> 'd \<Rightarrow> int \<Rightarrow> stored_event list" where
  "mongo_stream_events tb d position = tb_select tb (\<lambda>e. position < pos_of e) pos_of None d"

definition db_get_latest_position :: "(stored_event, 'd) table \<Rightarrow> 'd \<Rightarrow> stored_event spec_opt \<Rightarrow> int option" where
  "db_get_latest_position tb d spec =
     (case tb_select tb (satisfies spec) (\<lambda>e. - pos_of e) (Some 1) d of [] \<Rightarrow> None | e # _ \<Rightarrow> Some (pos_of e))"

text \<open>The SQL store has the same appends and reads, apart from those named above.\<close>

definition sql_append :: "(stored_event, 'd) table \<Rightarrow> stored_event \<Rightarrow> 'd \<Rightarrow> 'd" where
  "sql_append = db_append"

definition sql_append_batch :: "(stored_event, 'd) table \<Rightarrow> stored_event list \<Rightarrow> 'd \<Rightarrow> 'd" where
  "sql_append_batch tb evs d = (case assign_positions tb evs d of (d, out) \<Rightarrow> tb_insert tb out d)"

definition sql_get_events :: "(stored_event, 'd) table \<Rightarrow> 'd \<Rightarrow> string \<Rightarrow> int \<Rightarrow> stored_event spec_opt \<Rightarrow> stored_event list" where
  "sql_get_events = db_get_events"

definition sql_get_events_after :: "(stored_event, 'd) table \<Rightarrow> 'd \<Rightarrow> int \<Rightarrow> int \<Rightarrow> stored_event spec_opt \<Rightarrow> stored_event list" where
  "sql_get_events_after = db_get_events_after"

definition sql_get_events_from_position ::
  "nat \<Rightarrow> (stored_event, 'd) table \<Rightarrow> 'd \<Rightarrow> int \<Rightarrow> int option \<Rightarrow> stored_event spec_opt \<Rightarrow> (stored_event list \<times> exn option) option" where
  "sql_get_events_from_position = db_get_events_from_position"

definition sql_get_latest_position :: "(stored_event, 'd) table \<Rightarrow> 'd \<Rightarrow> stored_event spec_opt \<Rightarrow> int option" where
  "sql_get_latest_position tb d spec =
     (case map pos_of (tb_select tb (satisfies spec) pos_of None d) of [] \<Rightarrow> None | p # ps \<Rightarrow> Some (fold max ps p))"

section \<open>Outboxes\<close>

datatype outbox_status = OutboxPending | OutboxPublished | OutboxFailed

record message_row =
  mr_message :: outbox_message
  mr_status :: outbox_status

definition db_save_messages :: "(message_row, 'd) table \<Rightarrow> outbox_message list \<Rightarrow> 'd \<Rightarrow> 'd" where
  "db_save_messages tb ms d =
     tb_insert tb (map (\<lambda>m. \<lparr>mr_message = m\<lparr>om_published_at := None\<rparr>, mr_status = OutboxPending\<rparr>) ms) d"

definition db_get_pending :: "(message_row, 'd) table \<Rightarrow> 'd \<Rightarrow> int \<Rightarrow> outbox_message spec_opt \<Rightarrow> outbox_message list" where
  "db_get_pending tb d limit spec =
     map mr_message (tb_select tb (\<lambda>m. mr_status m = OutboxPending \<and> satisfies spec (mr_message m)) (\<lambda>m. om_created_at (mr_message m)) (Some limit) d)"

definition mongo_mark_published :: "(message_row, 'd) table \<Rightarrow> time \<Rightarrow> string list \<Rightarrow> 'd \<Rightarrow> 'd" where
  "mongo_mark_published tb now ids d =
     (if ids = [] then d
      else fst (tb_update tb (\<lambda>m. om_id (mr_message m) \<in> set ids)
        (\<lambda>m. m\<lparr>mr_status := OutboxPublished, mr_message := (mr_message m)\<lparr>om_published_at := Some now\<rparr>\<rparr>) d))"

definition sql_mark_published :: "(message_row, 'd) table \<Rightarrow> string list \<Rightarrow> 'd \<Rightarrow> 'd" where
  "sql_mark_published tb ids d = fst (tb_update tb (\<lambda>m. om_id (mr_message m) \<in> set ids) (\<lambda>m. m\<lparr>mr_status := OutboxPublished\<rparr>) d)"

definition db_mark_failed :: "(message_row, 'd) table \<Rightarrow> string \<Rightarrow> string \<Rightarrow> 'd \<Rightarrow> 'd" where
  "db_mark_failed tb i err d =
     fst (tb_update tb (\<lambda>m. om_id (mr_message m) = i)
       (\<lambda>m. m\<lparr>mr_status := OutboxFailed,
               mr_message := (mr_message m)\<lparr>om_error := Some err, om_retry_count := om_retry_count (mr_message m) + 1\<rparr>\<rparr>) d)"

text \<open>The SQL outbox saves, reads and fails messages alike.\<close>

definition sql_save_messages :: "(message_row, 'd) table \<Rightarrow> outbox_message list \<Rightarrow> 'd \<Rightarrow> 'd" where
  "sql_save_messages = db_save_messages"

definition sql_get_pending :: "(message_row, 'd) table \<Rightarrow> 'd \<Rightarrow> int \<Rightarrow> outbox_message spec_opt \<Rightarrow> outbox_message list" where
  "sql_get_pending = db_get_pending"

definition sql_mark_failed :: "(message_row, 'd) table \<Rightarrow> string \<Rightarrow> string \<Rightarrow> 'd \<Rightarrow> 'd" where
  "sql_mark_failed = db_mark_failed"

section \<open>MongoDB repository\<close>

text \<open>
  An aggregate is its id, its version and its fields; a document has no version where the class has none.  The version of an
  aggregate is a private attribute: it is not among the fields of a document, and the constructor reads it from the
  entry \<^verbatim>\<open>_version\<close>, which documents do not have.
\<close>

record 'a mongo_doc =
  md_id :: string
  md_version :: "int option"
  md_fields :: 'a

record 'a aggregate_object =
  ao_id :: string
  ao_version :: int
  ao_fields :: 'a

definition from_doc :: "'a mongo_doc \<Rightarrow> 'a aggregate_object" where
  "from_doc r = \<lparr>ao_id = md_id r, ao_version = 0, ao_fields = md_fields r\<rparr>"

definition version_conflict :: "int \<Rightarrow> int \<Rightarrow> exn" where
  "version_conflict expected actual =
     ConcurrencyError (''Concurrent modification detected: expected version '' @ show_int expected @ '', but document has version '' @ show_int actual)"

definition check_document_version :: "'a mongo_doc \<Rightarrow> int \<Rightarrow> exn option" where
  "check_document_version r expected =
     (let actual = (case md_version r of None \<Rightarrow> 0 | Some v \<Rightarrow> v) in if actual \<noteq> expected then Some (version_conflict expected actual) else None)"

definition increment_document_version :: "'a mongo_doc \<Rightarrow> 'a mongo_doc \<times> int" where
  "increment_document_version r = (let v = (case md_version r of None \<Rightarrow> 0 | Some v \<Rightarrow> v) + 1 in (r\<lparr>md_version := Some v\<rparr>, v))"

definition mongo_repo_add :: "('a mongo_doc, 'd) table \<Rightarrow> 'a aggregate_object \<Rightarrow> 'd \<Rightarrow> 'd \<times> (exn + string)" where
  "mongo_repo_add tb x d =
     (case tb_update tb (\<lambda>r. md_id r = ao_id x \<and> md_version r = Some (ao_version x))
          (\<lambda>r. r\<lparr>md_fields := ao_fields x, md_version := map_option (\<lambda>v. v + 1) (md_version r)\<rparr>) d of
        (d, n) \<Rightarrow>
          if n = 0 then
            (case tb_select tb (\<lambda>r. md_id r = ao_id x) (\<lambda>_. 0) (Some 1) d of
               r # _ \<Rightarrow> (d, Inl (version_conflict (ao_version x) (case md_version r of None \<Rightarrow> 0 | Some v \<Rightarrow> v)))
             | [] \<Rightarrow> (tb_insert tb [\<lparr>md_id = ao_id x, md_version = Some 1, md_fields = ao_fields x\<rparr>] d, Inr (ao_id x)))
          else (d, Inr (ao_id x)))"

definition mongo_repo_get :: "('a mongo_doc, 'd) table \<Rightarrow> string \<Rightarrow> 'a mongo_doc spec_opt \<Rightarrow> 'd \<Rightarrow> 'a aggregate_object option" where
  "mongo_repo_get tb i spec d =
     (case tb_select tb (\<lambda>r. md_id r = i \<and> satisfies spec r) (\<lambda>_. 0) (Some 1) d of [] \<Rightarrow> None | r # _ \<Rightarrow> Some (from_doc r))"

definition mongo_repo_delete :: "('a mongo_doc, 'd) table \<Rightarrow> string \<Rightarrow> 'a mongo_doc spec_opt \<Rightarrow> 'd \<Rightarrow> 'd \<times> string" where
  "mongo_repo_delete tb i spec d = (tb_delete tb (\<lambda>r. md_id r = i \<and> satisfies spec r) d, i)"

definition mongo_repo_list_all ::
  "('a mongo_doc, 'd) table \<Rightarrow> string list option \<Rightarrow> 'a mongo_doc spec_opt \<Rightarrow> 'd \<Rightarrow> 'a aggregate_object list" where
  "mongo_repo_list_all tb ids spec d =
     map from_doc (tb_select tb (\<lambda>r. (case ids of None \<Rightarrow> True | Some js \<Rightarrow> js = [] \<or> md_id r \<in> set js) \<and> satisfies spec r) (\<lambda>_. 0) None d)"

section \<open>What databases document\<close>

text \<open>\<open>rows d\<close> are the rows in any order, \<open>num d\<close> the last number that was drawn.\<close>

definition table_laws :: "('r, 'd) table \<Rightarrow> ('d \<Rightarrow> 'r list) \<Rightarrow> ('d \<Rightarrow> int) \<Rightarrow> bool" where
  "table_laws tb rows num \<longleftrightarrow>
     (\<forall>p key lim d. (\<forall>n. lim = Some n \<longrightarrow> 1 \<le> n) \<longrightarrow>
        (\<exists>full. mset full = mset (filter p (rows d)) \<and> sorted (map key full) \<and>
           tb_select tb p key lim d = (case lim of None \<Rightarrow> full | Some n \<Rightarrow> take (nat n) full))) \<and>
     (\<forall>rs d. mset (rows (tb_insert tb rs d)) = mset (rows d) + mset rs \<and> num (tb_insert tb rs d) = num d) \<and>
     (\<forall>p f d. mset (rows (fst (tb_update tb p f d))) = mset (map (\<lambda>r. if p r then f r else r) (rows d)) \<and>
        snd (tb_update tb p f d) = length (filter p (rows d)) \<and> num (fst (tb_update tb p f d)) = num d) \<and>
     (\<forall>p d. mset (rows (tb_delete tb p d)) = mset (filter (\<lambda>r. \<not> p r) (rows d)) \<and> num (tb_delete tb p d) = num d) \<and>
     (\<forall>d. mset (rows (fst (tb_next tb d))) = mset (rows d) \<and> snd (tb_next tb d) = num d + 1 \<and> num (fst (tb_next tb d)) = num d + 1)"

lemma table_selectE:
  assumes "table_laws tb rows num" "\<forall>n. lim = Some n \<longrightarrow> 1 \<le> n"
  obtains full where "mset full = mset (filter p (rows d))" "sorted (map key full)"
    "tb_select tb p key lim d = (case lim of None \<Rightarrow> full | Some n \<Rightarrow> take (nat n) full)"
  using assms unfolding table_laws_def by metis

lemma table_lawsD:
  assumes "table_laws tb rows num"
  shows "mset (rows (tb_insert tb rs d)) = mset (rows d) + mset rs" "num (tb_insert tb rs d) = num d"
    "mset (rows (fst (tb_update tb p f d))) = mset (map (\<lambda>r. if p r then f r else r) (rows d))"
    "snd (tb_update tb p f d) = length (filter p (rows d))"
    "mset (rows (fst (tb_next tb d))) = mset (rows d)" "snd (tb_next tb d) = num d + 1" "num (fst (tb_next tb d)) = num d + 1"
  using assms by (simp_all add: table_laws_def)

lemma select_set:
  assumes "table_laws tb rows num"
  shows "set (tb_select tb p key None d) = {r \<in> set (rows d). p r}"
    "1 \<le> n \<Longrightarrow> set (tb_select tb p key (Some n) d) \<subseteq> {r \<in> set (rows d). p r}"
proof -
  obtain full where "mset full = mset (filter p (rows d))" "tb_select tb p key None d = full"
    using table_selectE [OF assms, where lim = None] by (metis option.case(1) option.distinct(1))
  then show "set (tb_select tb p key None d) = {r \<in> set (rows d). p r}" by (metis set_filter set_mset_mset)
  show "set (tb_select tb p key (Some n) d) \<subseteq> {r \<in> set (rows d). p r}" if n: "1 \<le> n"
  proof -
    obtain full where full: "mset full = mset (filter p (rows d))" "tb_select tb p key (Some n) d = take (nat n) full"
      by (rule table_selectE [OF assms, where lim = "Some n"]) (use n in auto)
    have "set full = {r \<in> set (rows d). p r}" using full(1) by (metis set_filter set_mset_mset)
    then show ?thesis using full(2) by (auto dest: in_set_takeD)
  qed
qed

text \<open>Where the keys are distinct, the order is determined.\<close>

lemma sorted_rows_unique:
  fixes key :: "'r \<Rightarrow> int"
  assumes "mset full = mset xs" "sorted (map key full)" "sorted_wrt (<) (map key xs)"
  shows "full = xs"
proof (rule map_sorted_distinct_set_unique [of key])
  have d: "distinct (map key xs)" "sorted (map key xs)" using assms(3) by (simp_all add: strict_sorted_iff)
  show "set full = set xs" using assms(1) by (metis set_mset_mset)
  moreover have "distinct (map key full)" using d(1) assms(1) by (metis distinct_map mset_eq_imp_distinct_iff mset_map)
  ultimately show "distinct (map key full)" by simp
  show "inj_on key (set full \<union> set xs)" using d(1) \<open>set full = set xs\<close> by (simp add: distinct_map)
qed (use assms in \<open>simp_all add: strict_sorted_iff\<close>)

lemma select_unique:
  assumes "table_laws tb rows num" "mset (rows d) = mset xs" "sorted_wrt (<) (map key (filter p xs))" "\<forall>n. lim = Some n \<longrightarrow> 1 \<le> n"
  shows "tb_select tb p key lim d = (case lim of None \<Rightarrow> filter p xs | Some n \<Rightarrow> take (nat n) (filter p xs))"
proof -
  obtain full where f: "mset full = mset (filter p (rows d))" "sorted (map key full)"
      "tb_select tb p key lim d = (case lim of None \<Rightarrow> full | Some n \<Rightarrow> take (nat n) full)"
    by (rule table_selectE [OF assms(1,4)])
  have "mset full = mset (filter p xs)" using f(1) assms(2) by simp
  from sorted_rows_unique [OF this f(2) assms(3)] have "full = filter p xs" .
  then show ?thesis using f(3) by (cases lim) simp_all
qed

section \<open>Database and memory answer alike\<close>

lemma sorted_filter: "sorted_wrt P (map f xs) \<Longrightarrow> sorted_wrt P (map f (filter p xs))"
  by (induction xs) auto

lemma db_after:
  assumes "table_laws tb rows num" "mset (rows d) = mset es" "positions_ok es" "1 \<le> limit"
  shows "db_get_events_after tb d position limit spec = get_events_after es position limit spec"
proof -
  have "db_get_events_after tb d position limit spec = take (nat limit) (filter (\<lambda>e. position < pos_of e \<and> satisfies spec e) es)"
    unfolding db_get_events_after_def using assms(3,4)
    by (subst select_unique [OF assms(1,2)]) (auto simp: positions_ok_def intro: sorted_filter)
  also have "\<dots> = get_events_after es position limit spec"
    using assms(4) by (simp add: get_events_after_take [OF assms(3)] max_def)
  finally show ?thesis .
qed

lemma db_from_position:
  assumes "table_laws tb rows num" "mset (rows d) = mset es" "positions_ok es" "1 \<le> (case limit of None \<Rightarrow> 1000 | Some l \<Rightarrow> l)"
  shows "db_get_events_from_position fuel tb d current limit spec = get_events_from_position fuel es current limit spec"
proof (induction fuel arbitrary: current)
  case (Suc fuel)
  then show ?case unfolding db_get_events_from_position.simps get_events_from_position.simps Let_def db_after [OF assms] by simp
qed simp

lemma fold_max_Max: "fold max ps p = Max (set (p # ps))" for p :: int
proof (induction ps arbitrary: p)
  case (Cons q ps)
  have "fold max ps (max q p) = Max (insert (max q p) (set ps))" using Cons by simp
  also have "\<dots> = Max (insert p (insert q (set ps)))" by (cases "ps = []") (simp_all add: max.assoc max.commute)
  finally show ?case by simp
qed simp

lemma latest_Max:
  assumes "positions_ok es"
  shows "get_latest_position es spec =
    (if filter (satisfies spec) es = [] then None else Some (Max (pos_of ` set (filter (satisfies spec) es))))"
proof -
  have f: "(case spec of None \<Rightarrow> es | Some p \<Rightarrow> filter p es) = filter (satisfies spec) es" by (cases spec) (simp_all add: satisfies_def [abs_def])
  have pos: "List.map_filter se_position xs = map pos_of xs" if "set xs \<subseteq> set es" for xs
    using that assms by (induction xs) (auto simp: List.map_filter_def positions_ok_def list_all_iff pos_of_def)
  have "List.map_filter se_position (filter (satisfies spec) es) = map pos_of (filter (satisfies spec) es)"
    by (rule pos) auto
  then have latest: "get_latest_position es spec = (if filter (satisfies spec) es = [] then None
      else Some (fold max (tl (map pos_of (filter (satisfies spec) es))) (hd (map pos_of (filter (satisfies spec) es)))))"
    by (simp only: get_latest_position_def f Let_def) auto
  show ?thesis
  proof (cases "filter (satisfies spec) es")
    case (Cons e rest)
    then show ?thesis unfolding latest by (simp add: fold_max_Max del: fold_simps)
  qed (simp add: latest)
qed

lemma db_latest:
  assumes "table_laws tb rows num" "mset (rows d) = mset es" "positions_ok es"
  shows "db_get_latest_position tb d spec = get_latest_position es spec" "sql_get_latest_position tb d spec = get_latest_position es spec"
proof -
  have same: "mset full = mset (filter (satisfies spec) (rows d)) \<Longrightarrow> set full = set (filter (satisfies spec) es)" for full
    using assms(2) by (metis mset_filter set_mset_mset)
  obtain full where full: "mset full = mset (filter (satisfies spec) (rows d))" "sorted (map (\<lambda>e. - pos_of e) full)"
    "tb_select tb (satisfies spec) (\<lambda>e. - pos_of e) (Some 1) d = take 1 full"
    using table_selectE [OF assms(1), of "Some 1" "satisfies spec" d "\<lambda>e. - pos_of e"] by auto
  have hd: "full = e # rest \<Longrightarrow> pos_of e = Max (pos_of ` set full)" for e rest
    using full(2) by (intro Max_eqI [symmetric]) auto
  show "db_get_latest_position tb d spec = get_latest_position es spec"
  proof (cases full)
    case Nil
    then have "filter (satisfies spec) es = []" using same [OF full(1)] by (simp add: filter_empty_conv)
    then show ?thesis using Nil by (simp add: db_get_latest_position_def full(3) latest_Max [OF assms(3)])
  next
    case (Cons e rest)
    then have "filter (satisfies spec) es \<noteq> []" using same [OF full(1)] by (metis list.set_intros(1) empty_iff list.set(1))
    then show ?thesis using hd [OF Cons] same [OF full(1)] Cons
      by (simp only: db_get_latest_position_def full(3) latest_Max [OF assms(3)]) simp
  qed
  obtain all where all: "mset all = mset (filter (satisfies spec) (rows d))" "tb_select tb (satisfies spec) pos_of None d = all"
    using table_selectE [OF assms(1), of None "satisfies spec" d pos_of] by auto
  have "sql_get_latest_position tb d spec = (if all = [] then None else Some (Max (pos_of ` set all)))"
    by (cases all) (simp_all add: sql_get_latest_position_def all(2) fold_max_Max)
  then show "sql_get_latest_position tb d spec = get_latest_position es spec"
    using same [OF all(1)] by (simp only: latest_Max [OF assms(3)]) (metis list.set(1) set_empty)
qed

text \<open>
  C20: the database stores read like the store in memory: when the table holds the events of a log with increasing positions, and the
  versions of each aggregate increase along it, then reading an aggregate, a page after a position, a stream
  from a position or the latest position gives what the in-memory store of that log gives, for both databases; for MongoDB so do reading
  an aggregate by its type and reading everything.  Reading everything from SQL is not among them: it orders by time.
\<close>

theorem db_event_store_refines_memory:
  assumes "table_laws tb rows num" "mset (rows d) = mset es" "positions_ok es"
    and "\<And>i. sorted_wrt (<) (map se_version (filter (\<lambda>e. se_aggregate_id e = i) es))"
    and "1 \<le> limit"
  shows "db_get_events tb d i v spec = get_events es i v spec \<and> mongo_get_by_aggregate tb d i ty spec = get_by_aggregate es i ty spec \<and>
    mongo_get_all tb d spec = get_all es spec \<and> db_get_events_after tb d p limit spec = get_events_after es p limit spec \<and>
    db_get_events_from_position fuel tb d p (Some limit) spec = get_events_from_position fuel es p (Some limit) spec \<and>
    db_get_latest_position tb d spec = get_latest_position es spec \<and> sql_get_latest_position tb d spec = get_latest_position es spec"
proof (intro conjI)
  have vs: "sorted_wrt (<) (map se_version (filter (\<lambda>e. se_aggregate_id e = i \<and> q e) es))" for q
    using sorted_filter [OF assms(4), of q i] by (simp add: conj_commute)
  show "db_get_events tb d i v spec = get_events es i v spec"
    unfolding db_get_events_def by (subst select_unique [OF assms(1,2) vs]) (auto simp: get_events_def apply_specification_def satisfies_def conj_ac intro: filter_cong split: option.splits)
  show "mongo_get_by_aggregate tb d i ty spec = get_by_aggregate es i ty spec"
    unfolding mongo_get_by_aggregate_def
    by (subst select_unique [OF assms(1,2) vs])
      (auto simp: get_by_aggregate_def apply_specification_def satisfies_def Let_def conj_ac intro: filter_cong split: option.splits)
  show "mongo_get_all tb d spec = get_all es spec"
    unfolding mongo_get_all_def using assms(3)
    by (subst select_unique [OF assms(1,2)])
      (auto simp: get_all_def apply_specification_def satisfies_def positions_ok_def intro: sorted_filter filter_cong split: option.splits)
qed (use assms(5) in \<open>simp_all add: db_after [OF assms(1-3)] db_from_position [OF assms(1-3)] db_latest [OF assms(1-3)]\<close>)

section \<open>Positions\<close>

lemma assign_positions_spec:
  assumes "table_laws tb rows num" "assign_positions tb evs d = (d', out)"
  shows "mset (rows d') = mset (rows d) \<and> num d' = num d + int (length evs) \<and>
    out = map2 (\<lambda>i e. e\<lparr>se_position := Some (num d + 1 + int i)\<rparr>) [0..<length evs] evs"
  using assms(2)
proof (induction evs arbitrary: d out)
  case (Cons e evs)
  obtain d1 p where n: "tb_next tb d = (d1, p)" by (metis surj_pair)
  obtain out1 where r: "assign_positions tb evs d1 = (d', out1)" "out = e\<lparr>se_position := Some p\<rparr> # out1"
    using Cons.prems by (auto simp: n split: prod.splits)
  have law: "mset (rows d1) = mset (rows d)" "p = num d + 1" "num d1 = num d + 1"
    using table_lawsD(5-7) [OF assms(1), of d] by (simp_all add: n)
  have "map2 (\<lambda>i e. e\<lparr>se_position := Some (num d + 1 + int i)\<rparr>) [Suc 0..<Suc (length evs)] evs =
      map2 (\<lambda>i e. e\<lparr>se_position := Some (num d1 + 1 + int i)\<rparr>) [0..<length evs] evs"
    by (rule nth_equalityI) (auto simp: law(3) algebra_simps simp flip: upt_Suc)
  then show ?case using Cons.IH [OF r(1)] law r(2) by (simp add: upt_conv_Cons del: upt_Suc)
qed simp

text \<open>
  C21: appended events come after all stored ones: where the sequence has passed every position in use, a batch that is appended to a log
  with increasing positions makes the log that continues it with the events in order, again with increasing positions.
\<close>

theorem db_append_extends_log:
  assumes "table_laws tb rows num" "mset (rows d) = mset es" "positions_ok es" "list_all (\<lambda>e. pos_of e \<le> num d) es"
  shows "\<exists>new. mset (rows (db_append_batch tb evs d)) = mset (es @ new) \<and> positions_ok (es @ new) \<and>
    list_all (\<lambda>e. pos_of e \<le> num (db_append_batch tb evs d)) (es @ new) \<and>
    map (\<lambda>e. e\<lparr>se_position := None\<rparr>) new = map (\<lambda>e. e\<lparr>se_position := None\<rparr>) evs"
proof (cases "evs = []")
  case True
  then show ?thesis using assms by (intro exI [of _ "[]"]) (simp add: db_append_batch_def)
next
  case False
  obtain d' out where a: "assign_positions tb evs d = (d', out)" by (metis surj_pair)
  note sp = assign_positions_spec [OF assms(1) a]
  have out: "out ! i = (evs ! i)\<lparr>se_position := Some (num d + 1 + int i)\<rparr>" if "i < length evs" for i using sp that by simp
  have len: "length out = length evs" using sp by simp
  have ps: "map pos_of out = map (\<lambda>i. num d + 1 + int i) [0..<length evs]"
    by (rule nth_equalityI) (simp_all add: len out pos_of_def)
  have inc: "sorted_wrt (<) (map pos_of out)" unfolding ps by (simp add: sorted_wrt_map strict_sorted_iff sorted_wrt_mono_rel [OF _ sorted_wrt_upt])
  have above: "num d < pos_of e" "pos_of e \<le> num d + int (length evs)" if "e \<in> set out" for e
    using that ps by (auto simp: in_set_conv_nth len out pos_of_def)
  have ok: "positions_ok (es @ out)"
    using assms(3,4) inc above(1) by (fastforce simp: positions_ok_def sorted_wrt_append list_all_iff in_set_conv_nth len out)
  have "mset (rows (tb_insert tb out d')) = mset (es @ out)" "num (tb_insert tb out d') = num d + int (length evs)"
    using table_lawsD(1,2) [OF assms(1)] sp assms(2) by simp_all
  moreover have "map (\<lambda>e. e\<lparr>se_position := None\<rparr>) out = map (\<lambda>e. e\<lparr>se_position := None\<rparr>) evs"
    by (rule nth_equalityI) (simp_all add: len out)
  ultimately show ?thesis using False a ok above(2) assms(4)
    by (intro exI [of _ out]) (auto simp: db_append_batch_def list_all_iff)
qed

text \<open>
  An event that is written late is skipped: a position is drawn before the event is inserted, so a reader that meanwhile reads an event
  of another writer, which drew a later position, and goes on from there, never reads the first event.
\<close>

theorem late_event_is_skipped:
  assumes "table_laws tb rows num" "tb_next tb d = (d1, p)" "tb_next tb d1 = (d2, q)"
    and "d3 = tb_insert tb [b\<lparr>se_position := Some q\<rparr>] d2" "d4 = tb_insert tb [a\<lparr>se_position := Some p\<rparr>] d3"
    and "1 \<le> limit" "\<forall>e \<in> set (rows d). pos_of e \<le> num d"
  shows "b\<lparr>se_position := Some q\<rparr> \<in> set (mongo_stream_events tb d3 (num d)) \<and>
    a\<lparr>se_position := Some p\<rparr> \<in> set (rows d4) \<and> db_get_events_after tb d4 q limit spec = []"
proof (intro conjI)
  have n: "p = num d + 1" "mset (rows d1) = mset (rows d)" "num d1 = num d + 1" "q = num d + 2" "mset (rows d2) = mset (rows d1)"
    using table_lawsD(5-7) [OF assms(1), of d] table_lawsD(5-7) [OF assms(1), of d1] assms(2,3) by simp_all
  have "mset (rows d3) = mset (rows d) + {#b\<lparr>se_position := Some q\<rparr>#}" using table_lawsD(1) [OF assms(1)] n by (simp add: assms(4))
  then have r3: "set (rows d3) = insert (b\<lparr>se_position := Some q\<rparr>) (set (rows d))" by (metis add_mset_add_single set_mset_add_mset_insert set_mset_mset)
  have "mset (rows d4) = mset (rows d3) + {#a\<lparr>se_position := Some p\<rparr>#}" using table_lawsD(1) [OF assms(1)] by (simp add: assms(5))
  then have r4: "set (rows d4) = insert (a\<lparr>se_position := Some p\<rparr>) (set (rows d3))" by (metis add_mset_add_single set_mset_add_mset_insert set_mset_mset)
  show "a\<lparr>se_position := Some p\<rparr> \<in> set (rows d4)" by (simp add: r4)
  show "b\<lparr>se_position := Some q\<rparr> \<in> set (mongo_stream_events tb d3 (num d))"
    unfolding mongo_stream_events_def select_set(1) [OF assms(1)] by (simp add: r3 n pos_of_def)
  have le: "pos_of e \<le> q" if "e \<in> set (rows d4)" for e
  proof -
    from that consider "e = a\<lparr>se_position := Some p\<rparr>" | "e = b\<lparr>se_position := Some q\<rparr>" | "e \<in> set (rows d)" by (auto simp: r4 r3)
    then show ?thesis
    proof cases
      case 3
      then show ?thesis using assms(7) n(4) by fastforce
    qed (simp_all add: n pos_of_def)
  qed
  have "set (db_get_events_after tb d4 q limit spec) \<subseteq> {e \<in> set (rows d4). q < pos_of e \<and> satisfies spec e}"
    unfolding db_get_events_after_def by (rule select_set(2) [OF assms(1,6)])
  also have "\<dots> = {}" by (auto dest!: le)
  finally show "db_get_events_after tb d4 q limit spec = []" by simp
qed

section \<open>Streaming everything\<close>

lemma take_filter_subset:
  assumes "x \<in> set (take n (filter p xs))" "\<And>y. q y \<Longrightarrow> p y" "q x"
  shows "x \<in> set (take n (filter q xs))"
  using assms(1)
proof (induction xs arbitrary: n)
  case (Cons y ys)
  show ?case
  proof (cases n)
    case (Suc m)
    have mono: "x \<in> set (take m zs) \<Longrightarrow> x \<in> set (take (Suc m) zs)" for m zs using set_take_subset_set_take [of m "Suc m" zs] by auto
    show ?thesis
    proof (cases "p y")
      case True
      then have "x = y \<or> x \<in> set (take m (filter p ys))" using Cons.prems Suc by auto
      then show ?thesis
      proof
        assume "x = y"
        then show ?thesis using assms(3) Suc by simp
      next
        assume "x \<in> set (take m (filter p ys))"
        then have "x \<in> set (take m (filter q ys))" by (rule Cons.IH)
        then show ?thesis using Suc mono by auto
      qed
    next
      case False
      then have "x \<in> set (take n (filter p ys))" "\<not> q y" using Cons.prems assms(2) by auto
      then show ?thesis using Cons.IH by simp
    qed
  qed (use Cons.prems in simp)
qed simp

text \<open>
  The stream of the SQL store repeats events: it counts what it has yielded and takes the count for the last position, so where a
  position of the first batch is greater than the length of the batch, since the sequence has gaps, the event with it is yielded
  again.
\<close>

theorem sql_streaming_repeats_events:
  assumes "table_laws tb rows num" "mset (rows d) = mset es" "positions_ok es" "1 \<le> n"
    and "e \<in> set batch" "batch = db_get_events_after tb d 0 n spec" "int (length batch) < pos_of e"
    and "sql_get_all_streaming fuel tb d n spec = Some bs"
  shows "\<exists>second rest. bs = batch # second # rest \<and> e \<in> set second"
proof -
  have take: "db_get_events_after tb d p n spec = take (nat n) (filter (\<lambda>e. p < pos_of e \<and> satisfies spec e) es)" for p
    using db_after [OF assms(1-4)] assms(4) by (simp add: get_events_after_take [OF assms(3)] max_def)
  let ?second = "db_get_events_after tb d (int (length batch)) n spec"
  have "e \<in> set (take (nat n) (filter (\<lambda>e. 0 < pos_of e \<and> satisfies spec e) es))" using assms(5) unfolding assms(6) take .
  then have mem: "e \<in> set (take (nat n) (filter (\<lambda>e. 0 < pos_of e \<and> satisfies spec e) es))" .
  have "satisfies spec e" using in_set_takeD [OF mem] by simp
  then have e: "e \<in> set ?second" unfolding take using assms(7) by (intro take_filter_subset [OF mem]) auto
  then have ne: "batch \<noteq> []" "?second \<noteq> []" using assms(5) by auto
  obtain f where "fuel = Suc f" using assms(8) by (cases fuel) (simp_all add: sql_get_all_streaming_def)
  then obtain bs1 where 1: "bs = batch # bs1" "sql_streaming_loop f tb d (int (length batch)) n spec = Some bs1"
    using assms(8) ne(1) by (auto simp: sql_get_all_streaming_def Let_def simp flip: assms(6))
  then obtain g where "f = Suc g" by (cases f) simp_all
  then obtain bs2 where "bs1 = ?second # bs2" using 1(2) ne(2) by (auto simp: Let_def)
  then show ?thesis using 1(1) e by blast
qed

section \<open>Failed messages\<close>

text \<open>What applications and the outbox service do to the table.  Messages are saved without an error.\<close>

inductive outbox_run :: "(message_row, 'd) table \<Rightarrow> 'd \<Rightarrow> 'd \<Rightarrow> bool" for tb where
  Start: "outbox_run tb d d"
| Save: "outbox_run tb d d1 \<Longrightarrow> list_all (\<lambda>m. om_error m = None) ms \<Longrightarrow> outbox_run tb d (db_save_messages tb ms d1)"
| Publish: "outbox_run tb d d1 \<Longrightarrow> outbox_run tb d (mongo_mark_published tb now ids d1)"
| PublishSql: "outbox_run tb d d1 \<Longrightarrow> outbox_run tb d (sql_mark_published tb ids d1)"
| Fail: "outbox_run tb d d1 \<Longrightarrow> outbox_run tb d (db_mark_failed tb i err d1)"

definition pending_clean :: "message_row list \<Rightarrow> bool" where
  "pending_clean rs \<longleftrightarrow> (\<forall>m \<in> set rs. mr_status m = OutboxPending \<longrightarrow> om_error (mr_message m) = None)"

lemma table_sets:
  assumes "table_laws tb rows num"
  shows "set (rows (tb_insert tb rs d)) = set (rows d) \<union> set rs"
    "set (rows (fst (tb_update tb p f d))) = (\<lambda>r. if p r then f r else r) ` set (rows d)"
proof -
  show "set (rows (tb_insert tb rs d)) = set (rows d) \<union> set rs"
    using table_lawsD(1) [OF assms, of rs d] by (metis set_mset_mset set_mset_union)
  show "set (rows (fst (tb_update tb p f d))) = (\<lambda>r. if p r then f r else r) ` set (rows d)"
    using table_lawsD(3) [OF assms, of p f d] by (metis set_map set_mset_mset)
qed

lemma outbox_run_clean:
  assumes "table_laws tb rows num"
  shows "outbox_run tb d d' \<Longrightarrow> pending_clean (rows d) \<Longrightarrow> pending_clean (rows d')"
proof (induction rule: outbox_run.induct)
  case (Save d d1 ms)
  then show ?case by (auto simp: pending_clean_def db_save_messages_def table_sets [OF assms] list_all_iff)
qed (auto simp: pending_clean_def mongo_mark_published_def sql_mark_published_def db_mark_failed_def table_sets [OF assms] split: if_splits)

text \<open>
  A failed message is never sent again: a failure takes the message out of the pending ones, among which the outbox service looks
  for messages to retry, so that its retry finds none, however messages are saved, published or failed.
\<close>

theorem db_outbox_never_retries:
  assumes "table_laws tb rows num" "pending_clean (rows d0)" "outbox_run tb d0 d" "1 \<le> limit"
  shows "filter (retryable max_retries) (db_get_pending tb d limit spec) = []"
proof -
  have clean: "pending_clean (rows d)" by (rule outbox_run_clean [OF assms(1,3,2)])
  have "om_error m = None" if "m \<in> set (db_get_pending tb d limit spec)" for m
  proof -
    from that obtain r where "r \<in> set (tb_select tb (\<lambda>m. mr_status m = OutboxPending \<and> satisfies spec (mr_message m))
        (\<lambda>m. om_created_at (mr_message m)) (Some limit) d)" "m = mr_message r"
      by (auto simp: db_get_pending_def)
    then show ?thesis using select_set(2) [OF assms(1,4)] clean by (fastforce simp: pending_clean_def)
  qed
  then show ?thesis by (auto simp: filter_empty_conv retryable_def)
qed

text \<open>In memory a failed message stays pending and is retried.\<close>

lemma memory_outbox_retries:
  assumes "om_published_at m = None" "om_retry_count m + 1 < max_retries"
  shows "\<exists>m'. om_id m' = om_id m \<and> m' \<in> set (filter (retryable max_retries) (get_pending (mark_failed (om_id m) err [m]) 1 None))"
  using assms by (auto simp: get_pending_def retryable_def py_take_def)

section \<open>Loaded aggregates\<close>

definition versions_set :: "'a mongo_doc list \<Rightarrow> bool" where
  "versions_set rs \<longleftrightarrow> (\<forall>r \<in> set rs. \<exists>v. md_version r = Some v \<and> 1 \<le> v)"

lemma mongo_repo_add_versions:
  assumes "table_laws tb rows num" "versions_set (rows d)"
  shows "versions_set (rows (fst (mongo_repo_add tb x d)))"
proof -
  obtain d1 n where u: "tb_update tb (\<lambda>r. md_id r = ao_id x \<and> md_version r = Some (ao_version x))
      (\<lambda>r. r\<lparr>md_fields := ao_fields x, md_version := map_option (\<lambda>v. v + 1) (md_version r)\<rparr>) d = (d1, n)" by (rule prod.exhaust)
  have d1: "set (rows d1) = (\<lambda>r. if md_id r = ao_id x \<and> md_version r = Some (ao_version x)
      then r\<lparr>md_fields := ao_fields x, md_version := map_option (\<lambda>v. v + 1) (md_version r)\<rparr> else r) ` set (rows d)"
    using table_sets(2) [OF assms(1), of "\<lambda>r. md_id r = ao_id x \<and> md_version r = Some (ao_version x)"
        "\<lambda>r. r\<lparr>md_fields := ao_fields x, md_version := map_option (\<lambda>v. v + 1) (md_version r)\<rparr>" d] unfolding u fst_conv .
  have "\<exists>v. md_version (if md_id r = ao_id x \<and> md_version r = Some (ao_version x)
      then r\<lparr>md_fields := ao_fields x, md_version := map_option (\<lambda>v. v + 1) (md_version r)\<rparr> else r) = Some v \<and> 1 \<le> v" if "r \<in> set (rows d)" for r
    using that assms(2) by (auto simp: versions_set_def)
  then have "versions_set (rows d1)" unfolding versions_set_def d1 by blast
  then show ?thesis
    by (auto simp: mongo_repo_add_def u versions_set_def table_sets(1) [OF assms(1)] split: list.splits)
qed

text \<open>
  An aggregate that was loaded cannot be saved: a loaded aggregate has version 0 whatever its document says, and stored documents have
  version 1 or more, so that saving it, changed or not, reports a concurrent modification and changes nothing.
\<close>

theorem loaded_aggregate_cannot_be_saved:
  assumes "table_laws tb rows num" "versions_set (rows d)" "mongo_repo_get tb i spec d = Some x"
  shows "\<exists>v d'. mongo_repo_add tb (x\<lparr>ao_fields := new\<rparr>) d = (d', Inl (version_conflict 0 v)) \<and> mset (rows d') = mset (rows d)"
proof -
  obtain r rest where sel: "tb_select tb (\<lambda>r. md_id r = i \<and> satisfies spec r) (\<lambda>_. 0) (Some 1) d = r # rest" and x: "x = from_doc r"
    using assms(3) by (auto simp: mongo_repo_get_def split: list.splits)
  have one: "(1 :: int) \<le> 1" by simp
  have "r \<in> set (rows d)" "md_id r = i" using select_set(2) [OF assms(1) one, of "\<lambda>r. md_id r = i \<and> satisfies spec r" "\<lambda>_. 0" d] by (auto simp: sel)
  let ?p = "\<lambda>r. md_id r = i \<and> md_version r = Some 0" and ?f = "\<lambda>r. r\<lparr>md_fields := new, md_version := map_option (\<lambda>v. v + 1) (md_version r)\<rparr>"
  have none: "\<not> ?p q" if "q \<in> set (rows d)" for q using that assms(2) by (auto simp: versions_set_def)
  obtain d1 n where u: "tb_update tb ?p ?f d = (d1, n)" by (rule prod.exhaust)
  have n: "n = 0" using table_lawsD(4) [OF assms(1), of ?p ?f d] none by (simp add: u filter_empty_conv)
  have "map (\<lambda>r. if ?p r then ?f r else r) (rows d) = rows d" by (rule map_idI) (use none in auto)
  then have same: "mset (rows d1) = mset (rows d)" using table_lawsD(3) [OF assms(1), of ?p ?f d] by (simp add: u)
  obtain full where full: "mset full = mset (filter (\<lambda>r. md_id r = i) (rows d1))" "tb_select tb (\<lambda>r. md_id r = i) (\<lambda>_. 0) (Some 1) d1 = take 1 full"
    by (rule table_selectE [OF assms(1), where lim = "Some 1" and p = "\<lambda>r. md_id r = i" and key = "\<lambda>_. 0" and d = d1]) simp_all
  have "r \<in> set (rows d1)" using same \<open>r \<in> set (rows d)\<close> by (metis set_mset_mset)
  then have "r \<in> set full" using mset_eq_setD [OF full(1)] \<open>md_id r = i\<close> by simp
  then have "full \<noteq> []" by auto
  then obtain q qs where "tb_select tb (\<lambda>r. md_id r = i) (\<lambda>_. 0) (Some 1) d1 = [q]" using full(2) by (cases full) simp_all
  then have "mongo_repo_add tb (x\<lparr>ao_fields := new\<rparr>) d = (d1, Inl (version_conflict 0 (case md_version q of None \<Rightarrow> 0 | Some v \<Rightarrow> v)))"
    using n \<open>md_id r = i\<close> by (simp add: mongo_repo_add_def x from_doc_def u)
  with same show ?thesis by blast
qed

text \<open>An empty list of ids lists every document.\<close>

lemma mongo_empty_ids_list_all:
  assumes "table_laws tb rows num"
  shows "set (mongo_repo_list_all tb (Some []) None d) = from_doc ` set (rows d)"
  using select_set(1) [OF assms, of "\<lambda>_. True" "\<lambda>_. 0" d] by (simp add: mongo_repo_list_all_def)

section \<open>A table\<close>

text \<open>Rows in a list with the last number: the laws can be met.\<close>

definition list_table :: "('r, 'r list \<times> int) table" where
  "list_table = \<lparr>tb_select = (\<lambda>p key lim d. case lim of None \<Rightarrow> sort_key key (filter p (fst d)) | Some n \<Rightarrow> take (nat n) (sort_key key (filter p (fst d)))),
     tb_insert = (\<lambda>rs d. (fst d @ rs, snd d)),
     tb_update = (\<lambda>p f d. ((map (\<lambda>r. if p r then f r else r) (fst d), snd d), length (filter p (fst d)))),
     tb_delete = (\<lambda>p d. (filter (\<lambda>r. \<not> p r) (fst d), snd d)),
     tb_next = (\<lambda>d. ((fst d, snd d + 1), snd d + 1))\<rparr>"

lemma list_table_laws: "table_laws list_table fst snd"
proof -
  have "\<exists>full. mset full = mset (filter p (fst d)) \<and> sorted (map key full) \<and>
      tb_select list_table p key lim d = (case lim of None \<Rightarrow> full | Some n \<Rightarrow> take (nat n) full)"
    for p :: "'r \<Rightarrow> bool" and key :: "'r \<Rightarrow> int" and lim d
    by (intro exI [of _ "sort_key key (filter p (fst d))"]) (auto simp: list_table_def split: option.splits)
  then show ?thesis unfolding table_laws_def by (auto simp: list_table_def)
qed

definition db_event :: "string \<Rightarrow> int \<Rightarrow> int \<Rightarrow> stored_event" where
  "db_event i v p = \<lparr>se_event_id = i, se_event_type = ''Paid'', se_aggregate_id = ''o1'', se_aggregate_type = ''Order'', se_version = v, se_schema_version = 1,
     se_payload = [], se_metadata = [], se_occurred_at = 0, se_correlation_id = None, se_causation_id = None, se_position = Some p, se_tenant_id = None\<rparr>"

definition db_log :: "stored_event list" where
  "db_log = [db_event ''a'' 1 5, db_event ''b'' 2 6]"

lemma db_log_ok: "positions_ok db_log" "sorted_wrt (<) (map se_version (filter (\<lambda>e. se_aggregate_id e = i) db_log))"
  by (simp_all add: db_log_def db_event_def positions_ok_def pos_of_def)

theorem db_event_store_refines_memory_witness:
  "db_get_events list_table (db_log, 6) ''o1'' 1 None = get_events db_log ''o1'' 1 None \<and>
   mongo_get_by_aggregate list_table (db_log, 6) ''o1'' None None = get_by_aggregate db_log ''o1'' None None \<and>
   mongo_get_all list_table (db_log, 6) None = get_all db_log None \<and>
   db_get_events_after list_table (db_log, 6) 5 10 None = get_events_after db_log 5 10 None \<and>
   db_get_events_from_position 9 list_table (db_log, 6) 5 (Some 10) None = get_events_from_position 9 db_log 5 (Some 10) None \<and>
   db_get_latest_position list_table (db_log, 6) None = get_latest_position db_log None \<and>
   sql_get_latest_position list_table (db_log, 6) None = get_latest_position db_log None"
  by (rule db_event_store_refines_memory [OF list_table_laws]) (simp_all add: db_log_ok)

theorem db_append_extends_log_witness:
  "\<exists>new. mset (fst (db_append_batch list_table [db_event ''c'' 3 0] (db_log, 6))) = mset (db_log @ new) \<and> positions_ok (db_log @ new) \<and>
     list_all (\<lambda>e. pos_of e \<le> snd (db_append_batch list_table [db_event ''c'' 3 0] (db_log, 6))) (db_log @ new) \<and>
     map (\<lambda>e. e\<lparr>se_position := None\<rparr>) new = map (\<lambda>e. e\<lparr>se_position := None\<rparr>) [db_event ''c'' 3 0]"
  by (rule db_append_extends_log [OF list_table_laws]) (simp_all add: db_log_ok, simp add: db_log_def db_event_def pos_of_def)

theorem late_event_is_skipped_witness:
  "let d3 = tb_insert list_table [(db_event ''b'' 2 0)\<lparr>se_position := Some 2\<rparr>] ([], 2);
       d4 = tb_insert list_table [(db_event ''a'' 1 0)\<lparr>se_position := Some 1\<rparr>] d3
   in (db_event ''b'' 2 0)\<lparr>se_position := Some 2\<rparr> \<in> set (mongo_stream_events list_table d3 0) \<and>
      (db_event ''a'' 1 0)\<lparr>se_position := Some 1\<rparr> \<in> set (fst d4) \<and> db_get_events_after list_table d4 2 10 None = []"
  using late_event_is_skipped [OF list_table_laws, of "([], 0)" "([], 1)" 1 "([], 2)" 2 _ "db_event ''b'' 2 0" _ "db_event ''a'' 1 0" 10 None]
  by (simp add: Let_def list_table_def)

theorem sql_streaming_repeats_events_witness:
  "\<exists>second rest. sql_get_all_streaming 9 list_table (db_log, 6) 2 None = Some (db_log # second # rest) \<and> db_event ''a'' 1 5 \<in> set second"
proof -
  have batch: "db_log = db_get_events_after list_table (db_log, 6) 0 2 None"
    by (simp add: db_get_events_after_def list_table_def db_log_def db_event_def pos_of_def)
  obtain bs where bs: "sql_get_all_streaming 9 list_table (db_log, 6) 2 None = Some bs"
    by (simp add: sql_get_all_streaming_def eval_nat_numeral db_get_events_after_def list_table_def db_log_def db_event_def pos_of_def Let_def)
  have "\<exists>second rest. bs = db_log # second # rest \<and> db_event ''a'' 1 5 \<in> set second"
    by (rule sql_streaming_repeats_events [OF list_table_laws _ db_log_ok(1) _ _ batch _ bs]) (simp_all add: db_log_def db_event_def pos_of_def)
  with bs show ?thesis by blast
qed

definition db_message :: outbox_message where
  "db_message = \<lparr>om_id = ''m'', om_event_type = ''Paid'', om_payload = [], om_metadata = [], om_created_at = 0, om_published_at = None, om_error = None,
     om_retry_count = 0, om_correlation_id = None, om_causation_id = None, om_tenant_id = None\<rparr>"

theorem db_outbox_never_retries_witness:
  "filter (retryable 5) (db_get_pending list_table (db_mark_failed list_table ''m'' ''down'' (db_save_messages list_table [db_message] ([], 0))) 10 None) = []"
  by (rule db_outbox_never_retries [OF list_table_laws, of "([], 0)"])
    (auto simp: pending_clean_def db_message_def intro!: outbox_run.intros)

theorem loaded_aggregate_cannot_be_saved_witness:
  "\<exists>v d'. mongo_repo_add list_table ((from_doc \<lparr>md_id = ''o1'', md_version = Some 1, md_fields = ''old''\<rparr>)\<lparr>ao_fields := ''new''\<rparr>)
       ([\<lparr>md_id = ''o1'', md_version = Some 1, md_fields = ''old''\<rparr>], 0) = (d', Inl (version_conflict 0 v)) \<and>
     mset (fst d') = mset [\<lparr>md_id = ''o1'', md_version = Some 1, md_fields = ''old''\<rparr>]"
  using loaded_aggregate_cannot_be_saved [OF list_table_laws, of "([\<lparr>md_id = ''o1'', md_version = Some 1, md_fields = ''old''\<rparr>], 0)" "''o1''" None
      "from_doc \<lparr>md_id = ''o1'', md_version = Some 1, md_fields = ''old''\<rparr>" "''new''"]
  by (simp add: versions_set_def mongo_repo_get_def list_table_def)

end
