(* ===== verification/TenantRouting.thy ===== *)
theory TenantRouting
  imports Tenancy
begin

text \<open>
  Routing of database work to the tenants' databases and schemas (features/multitenancy/src/cqrs_ddd_multitenancy):
  the pool of engines and the router of database_routing.py, and the search path router of
  schema_routing.py.

  Engines and connections belong to SQLAlchemy and are parameters.  Creating and disposing of an engine
  changes a world of type \<open>'w\<close> and may raise.  A connection executes a statement with named
  arguments and answers its scalar.  An \<^verbatim>\<open>OrderedDict\<close> is an association list in its order.  Logging,
  metrics and spans have no effect and are left out; a lock serialises the operations of a pool, so each is one
  step.
\<close>

section \<open>The pool of engines\<close>

record db_config =
  dc_database_url :: string
  dc_pool_size :: int
  dc_max_overflow :: int
  dc_pool_timeout :: int
  dc_echo :: bool

definition new_db_config :: "string \<Rightarrow> db_config" where
  "new_db_config url = \<lparr>dc_database_url = url, dc_pool_size = 5, dc_max_overflow = 10, dc_pool_timeout = 30, dc_echo = False\<rparr>"

text \<open>\<open>ps_create\<close> is \<^verbatim>\<open>create_async_engine\<close>, given the url and the configuration.\<close>

record ('e, 'w) pool_settings =
  ps_url :: "string \<Rightarrow> string"
  ps_max_pools :: int
  ps_default_config :: "db_config option"
  ps_engine_factory :: "(string \<Rightarrow> db_config \<Rightarrow> 'w \<Rightarrow> 'w \<times> (exn + 'e)) option"
  ps_create :: "string \<Rightarrow> db_config \<Rightarrow> 'w \<Rightarrow> 'w \<times> (exn + 'e)"
  ps_dispose :: "'e \<Rightarrow> 'w \<Rightarrow> 'w \<times> exn option"
  ps_select_1 :: "'e \<Rightarrow> 'w \<Rightarrow> 'w \<times> exn option"

datatype 'e session_factory = SessionFactory (bound_engine: 'e)

record 'e engine_pool =
  ep_engines :: "(string, 'e) dict"
  ep_factories :: "(string, 'e session_factory) dict"

definition new_pool :: "'e engine_pool" where
  "new_pool = \<lparr>ep_engines = [], ep_factories = []\<rparr>"

definition to_end :: "string \<Rightarrow> 'v \<Rightarrow> (string, 'v) dict \<Rightarrow> (string, 'v) dict" where
  "to_end k v d = AList.delete k d @ [(k, v)]"

definition move_to_end :: "string \<Rightarrow> (string, 'v) dict \<Rightarrow> exn + (string, 'v) dict" where
  "move_to_end k d = (case map_of d k of None \<Rightarrow> Inl (KeyError k) | Some v \<Rightarrow> Inr (to_end k v d))"

definition create_engine :: "('e, 'w) pool_settings \<Rightarrow> string \<Rightarrow> 'w \<Rightarrow> 'w \<times> (exn + 'e)" where
  "create_engine ps tenant_id w =
     (let database_url = ps_url ps tenant_id;
          config = (case ps_default_config ps of Some c \<Rightarrow> c | None \<Rightarrow> new_db_config database_url)
      in case ps_engine_factory ps of
           Some f \<Rightarrow> f tenant_id config w
         | None \<Rightarrow> ps_create ps database_url config w)"

text \<open>
  \<^verbatim>\<open>_evict_if_needed\<close>: the oldest engines go until the pool is below its capacity; an error of \<^verbatim>\<open>dispose\<close> is
  logged only.  On an empty pool \<^verbatim>\<open>next\<close> raises \<^verbatim>\<open>StopIteration\<close>, which a coroutine turns into \<^verbatim>\<open>RuntimeError\<close>.
\<close>

fun evict_loop ::
  "('e, 'w) pool_settings \<Rightarrow> (string, 'e) dict \<Rightarrow> (string, 'e session_factory) dict \<Rightarrow> 'w \<Rightarrow> 'e engine_pool \<times> 'w \<times> (exn + unit)" where
  "evict_loop ps [] fs w =
     (\<lparr>ep_engines = [], ep_factories = fs\<rparr>, w,
      if ps_max_pools ps \<le> 0 then Inl (Other ''RuntimeError: coroutine raised StopIteration'') else Inr ())"
| "evict_loop ps ((t, e) # es) fs w =
     (if ps_max_pools ps \<le> int (length ((t, e) # es))
      then evict_loop ps es (AList.delete t fs) (fst (ps_dispose ps e w))
      else (\<lparr>ep_engines = (t, e) # es, ep_factories = fs\<rparr>, w, Inr ()))"

definition evict_if_needed :: "('e, 'w) pool_settings \<Rightarrow> 'e engine_pool \<Rightarrow> 'w \<Rightarrow> 'e engine_pool \<times> 'w \<times> (exn + unit)" where
  "evict_if_needed ps p w = evict_loop ps (ep_engines p) (ep_factories p) w"

definition pool_get_engine :: "('e, 'w) pool_settings \<Rightarrow> string \<Rightarrow> 'e engine_pool \<Rightarrow> 'w \<Rightarrow> 'e engine_pool \<times> 'w \<times> (exn + 'e)" where
  "pool_get_engine ps tenant_id p w =
     (case map_of (ep_engines p) tenant_id of
        Some e \<Rightarrow>
          (p\<lparr>ep_engines := to_end tenant_id e (ep_engines p),
             ep_factories := (case move_to_end tenant_id (ep_factories p) of Inl _ \<Rightarrow> ep_factories p | Inr fs \<Rightarrow> fs)\<rparr>, w, Inr e)
      | None \<Rightarrow>
          (case evict_if_needed ps p w of
             (p, w, Inl x) \<Rightarrow> (p, w, Inl x)
           | (p, w, Inr _) \<Rightarrow>
               (case create_engine ps tenant_id w of
                  (w, Inl x) \<Rightarrow> (p, w, Inl x)
                | (w, Inr e) \<Rightarrow> (p\<lparr>ep_engines := AList.update tenant_id e (ep_engines p)\<rparr>, w, Inr e))))"

definition pool_get_session_factory ::
  "('e, 'w) pool_settings \<Rightarrow> string \<Rightarrow> 'e engine_pool \<Rightarrow> 'w \<Rightarrow> 'e engine_pool \<times> 'w \<times> (exn + 'e session_factory)" where
  "pool_get_session_factory ps tenant_id p w =
     (case map_of (ep_factories p) tenant_id of
        Some f \<Rightarrow>
          (case move_to_end tenant_id (ep_engines p) of
             Inl x \<Rightarrow> (p, w, Inl x)
           | Inr es \<Rightarrow>
               (p\<lparr>ep_engines := es, ep_factories := to_end tenant_id f (ep_factories p)\<rparr>, w, Inr f))
      | None \<Rightarrow>
          (case evict_if_needed ps p w of
             (p, w, Inl x) \<Rightarrow> (p, w, Inl x)
           | (p, w, Inr _) \<Rightarrow>
               (case map_of (ep_engines p) tenant_id of
                  Some e \<Rightarrow>
                    (p\<lparr>ep_factories := AList.update tenant_id (SessionFactory e) (ep_factories p)\<rparr>, w, Inr (SessionFactory e))
                | None \<Rightarrow>
                    (case create_engine ps tenant_id w of
                       (w, Inl x) \<Rightarrow> (p, w, Inl x)
                     | (w, Inr e) \<Rightarrow>
                         (p\<lparr>ep_engines := AList.update tenant_id e (ep_engines p),
                            ep_factories := AList.update tenant_id (SessionFactory e) (ep_factories p)\<rparr>,
                          w, Inr (SessionFactory e))))))"

definition close_engine :: "('e, 'w) pool_settings \<Rightarrow> string \<Rightarrow> 'e engine_pool \<Rightarrow> 'w \<Rightarrow> 'e engine_pool \<times> 'w \<times> (exn + unit)" where
  "close_engine ps tenant_id p w =
     (case map_of (ep_engines p) tenant_id of
        None \<Rightarrow> (p, w, Inr ())
      | Some e \<Rightarrow>
          (case ps_dispose ps e w of
             (w, r) \<Rightarrow>
               (p\<lparr>ep_engines := AList.delete tenant_id (ep_engines p), ep_factories := AList.delete tenant_id (ep_factories p)\<rparr>, w,
                case r of None \<Rightarrow> Inr () | Some x \<Rightarrow> Inl x)))"

fun dispose_all :: "('e, 'w) pool_settings \<Rightarrow> (string, 'e) dict \<Rightarrow> 'w \<Rightarrow> 'w" where
  "dispose_all ps [] w = w"
| "dispose_all ps ((t, e) # es) w = dispose_all ps es (fst (ps_dispose ps e w))"

definition close_all :: "('e, 'w) pool_settings \<Rightarrow> 'e engine_pool \<Rightarrow> 'w \<Rightarrow> 'e engine_pool \<times> 'w" where
  "close_all ps p w = (\<lparr>ep_engines = [], ep_factories = []\<rparr>, dispose_all ps (ep_engines p) w)"

definition pool_health_check :: "('e, 'w) pool_settings \<Rightarrow> string \<Rightarrow> 'e engine_pool \<Rightarrow> 'w \<Rightarrow> 'e engine_pool \<times> 'w \<times> bool" where
  "pool_health_check ps tenant_id p w =
     (case pool_get_engine ps tenant_id p w of
        (p, w, Inl _) \<Rightarrow> (p, w, False)
      | (p, w, Inr e) \<Rightarrow> (case ps_select_1 ps e w of (w, r) \<Rightarrow> (p, w, r = None)))"

section \<open>The database router\<close>

record ('e, 'w) database_router =
  dr_config :: isolation_config
  dr_base_url :: string
  dr_pool :: "('e, 'w) pool_settings"

definition rstrip_slash :: "string \<Rightarrow> string" where
  "rstrip_slash s = rev (dropWhile (\<lambda>c. c = CHR ''/'') (rev s))"

definition router_database_url :: "isolation_config \<Rightarrow> string \<Rightarrow> string \<Rightarrow> string" where
  "router_database_url cfg base_url tenant_id = base_url @ CHR ''/'' # get_database_name cfg tenant_id"

text \<open>\<open>base\<close> holds what belongs to SQLAlchemy; without a pool of the caller the router makes one with defaults.\<close>

definition new_database_router ::
  "isolation_config \<Rightarrow> string \<Rightarrow> ('e, 'w) pool_settings option \<Rightarrow> int \<Rightarrow> ('e, 'w) pool_settings \<Rightarrow> exn + ('e, 'w) database_router" where
  "new_database_router cfg base_url connection_pool max_pools base =
     (if ic_strategy cfg \<noteq> DATABASE_PER_TENANT then Inl (ValueError ''DatabaseRouter requires DATABASE_PER_TENANT strategy'')
      else Inr \<lparr>dr_config = cfg, dr_base_url = rstrip_slash base_url,
                dr_pool = (case connection_pool of
                  Some ps \<Rightarrow> ps
                | None \<Rightarrow> base\<lparr>ps_url := router_database_url cfg (rstrip_slash base_url), ps_max_pools := max_pools,
                               ps_default_config := None, ps_engine_factory := None\<rparr>)\<rparr>)"

text \<open>\<^verbatim>\<open>tenant_id or get_current_tenant_or_none()\<close>\<close>

definition effective_tenant :: "string option \<Rightarrow> tenant_ctx \<Rightarrow> string option" where
  "effective_tenant tenant_id ctx = py_or tenant_id (get_current_tenant_or_none ctx)"

text \<open>The body of the block gets the engine its session is bound to.\<close>

definition session_for_tenant ::
  "('e, 'w) database_router \<Rightarrow> string option \<Rightarrow> ('e \<Rightarrow> ('e engine_pool \<times> 'w, 'a) action) \<Rightarrow> ('e engine_pool \<times> 'w, 'a) action" where
  "session_for_tenant r tenant_id body ctx pw =
     (case effective_tenant tenant_id ctx of
        None \<Rightarrow>
          (ctx, pw, Inl (TenantIsolationError
             (if is_system_tenant ctx then ''System tenant requires explicit tenant_id for database routing''
              else ''Cannot route to database: no tenant in context'')))
      | Some t \<Rightarrow>
          (case pool_get_session_factory (dr_pool r) t (fst pw) (snd pw) of
             (p, w, Inl x) \<Rightarrow> (ctx, (p, w), Inl x)
           | (p, w, Inr f) \<Rightarrow> body (bound_engine f) ctx (p, w)))"

definition session_for_current_tenant ::
  "('e, 'w) database_router \<Rightarrow> ('e \<Rightarrow> ('e engine_pool \<times> 'w, 'a) action) \<Rightarrow> ('e engine_pool \<times> 'w, 'a) action" where
  "session_for_current_tenant r body = session_for_tenant r None body"

definition with_tenant_database ::
  "('e, 'w) database_router \<Rightarrow> string option \<Rightarrow> ('e \<Rightarrow> ('e engine_pool \<times> 'w, 'a) action) \<Rightarrow> ('e engine_pool \<times> 'w, 'a) action" where
  "with_tenant_database r tenant_id body = session_for_tenant r tenant_id body"

section \<open>The schema router\<close>

record 'w db_connection =
  cn_execute :: "string \<Rightarrow> (string \<times> string) list \<Rightarrow> 'w \<Rightarrow> 'w \<times> (exn + string option)"
  cn_commit :: "'w \<Rightarrow> 'w \<times> exn option"
  cn_rollback :: "'w \<Rightarrow> 'w \<times> exn option"

record schema_router =
  sr_config :: isolation_config
  sr_default_search_path :: string

definition new_schema_router :: "isolation_config \<Rightarrow> string option \<Rightarrow> exn + schema_router" where
  "new_schema_router cfg default_search_path =
     (if ic_strategy cfg \<noteq> SCHEMA_PER_TENANT then Inl (ValueError ''SchemaRouter requires SCHEMA_PER_TENANT strategy'')
      else Inr \<lparr>sr_config = cfg,
                sr_default_search_path = (if truthy default_search_path then the default_search_path else ic_default_schema cfg)\<rparr>)"

definition path_ok :: "string \<Rightarrow> bool" where
  "path_ok path \<longleftrightarrow> list_all (\<lambda>c. isalnum c \<or> c \<in> set ''_, '') path"

definition invalid_path :: "string \<Rightarrow> exn" where
  "invalid_path path = TenantIsolationError (''Invalid schema name format: '' @ path
     @ ''. Schema names must contain only alphanumeric characters, underscores, and commas.'')"

definition SHOW_PATH :: string where
  "SHOW_PATH = ''SHOW search_path''"

definition SET_PATH :: string where
  "SET_PATH = ''SET search_path TO :search_path''"

definition set_search_path :: "schema_router \<Rightarrow> 'w db_connection \<Rightarrow> string \<Rightarrow> 'w \<Rightarrow> 'w \<times> (exn + string)" where
  "set_search_path r cn tenant_id w =
     (let search_path = get_search_path (sr_config r) tenant_id
      in if \<not> path_ok search_path then (w, Inl (invalid_path search_path))
         else case cn_execute cn SHOW_PATH [] w of
             (w, Inl x) \<Rightarrow> (w, Inl x)
           | (w, Inr previous_path) \<Rightarrow>
               (case cn_execute cn SET_PATH [(''search_path'', search_path)] w of
                  (w, Inl x) \<Rightarrow> (w, Inl x)
                | (w, Inr _) \<Rightarrow> (w, Inr (if truthy previous_path then the previous_path else sr_default_search_path r))))"

definition reset_search_path :: "schema_router \<Rightarrow> 'w db_connection \<Rightarrow> string option \<Rightarrow> 'w \<Rightarrow> 'w \<times> (exn + unit)" where
  "reset_search_path r cn previous_path w =
     (let path = (if truthy previous_path then the previous_path else sr_default_search_path r)
      in if \<not> path_ok path then (w, Inl (invalid_path path))
         else case cn_execute cn SET_PATH [(''search_path'', path)] w of (w, res) \<Rightarrow> (w, map_sum id (\<lambda>_. ()) res))"

text \<open>
  In \<^verbatim>\<open>with_schema\<close> the assignment of \<^verbatim>\<open>previous_path\<close> stands inside the \<^verbatim>\<open>try\<close>: when it raises, the \<^verbatim>\<open>finally\<close> clause
  reads a variable without a value.
\<close>

definition with_schema ::
  "schema_router \<Rightarrow> 'w db_connection \<Rightarrow> string option \<Rightarrow> (string \<Rightarrow> ('w, 'a) action) \<Rightarrow> ('w, 'a) action" where
  "with_schema r cn tenant_id body ctx w =
     (case effective_tenant tenant_id ctx of
        None \<Rightarrow>
          if is_system_tenant ctx then body (sr_default_search_path r) ctx w
          else (ctx, w, Inl (TenantIsolationError ''Cannot set schema: no tenant in context''))
      | Some t \<Rightarrow>
          (case set_search_path r cn t w of
             (w, Inl x) \<Rightarrow> (ctx, w, Inl (Other ''UnboundLocalError: previous_path''))
           | (w, Inr previous_path) \<Rightarrow>
               (case body (get_schema_name (sr_config r) t) ctx w of
                  (ctx, w, res) \<Rightarrow>
                    (case reset_search_path r cn (Some previous_path) w of
                       (w, Inl x) \<Rightarrow> (ctx, w, Inl x)
                     | (w, Inr _) \<Rightarrow> (ctx, w, res)))))"

definition get_schema_translate_map :: "schema_router \<Rightarrow> string option \<Rightarrow> tenant_ctx \<Rightarrow> (string \<times> string) list" where
  "get_schema_translate_map r tenant_id ctx =
     (case effective_tenant tenant_id ctx of None \<Rightarrow> [] | Some t \<Rightarrow> [(''tenant'', get_schema_name (sr_config r) t)])"

definition provisioning_failed :: "'w db_connection \<Rightarrow> string \<Rightarrow> string \<Rightarrow> 'w \<Rightarrow> 'w \<times> (exn + unit)" where
  "provisioning_failed cn verb schema_name w =
     (case cn_rollback cn w of
        (w, Some x) \<Rightarrow> (w, Inl x)
      | (w, None) \<Rightarrow> (w, Inl (TenantProvisioningError (''Failed to '' @ verb @ '' schema '' @ quoted schema_name))))"

definition SCHEMA_QUERY :: string where
  "SCHEMA_QUERY = ''SELECT 1 FROM information_schema.schemata WHERE schema_name = :name''"

definition double_quoted :: "string \<Rightarrow> string" where
  "double_quoted s = CHR 0x22 # s @ [CHR 0x22]"

definition create_tenant_schema :: "schema_router \<Rightarrow> 'w db_connection \<Rightarrow> string \<Rightarrow> 'w \<Rightarrow> 'w \<times> (exn + unit)" where
  "create_tenant_schema r cn tenant_id w =
     (let schema_name = get_schema_name (sr_config r) tenant_id
      in case cn_execute cn SCHEMA_QUERY [(''name'', schema_name)] w of
           (w, Inl x) \<Rightarrow> provisioning_failed cn ''create'' schema_name w
         | (w, Inr (Some _)) \<Rightarrow> (w, Inr ())
         | (w, Inr None) \<Rightarrow>
             (case cn_execute cn (''CREATE SCHEMA '' @ double_quoted schema_name) [] w of
                (w, Inl x) \<Rightarrow> provisioning_failed cn ''create'' schema_name w
              | (w, Inr _) \<Rightarrow>
                  (case cn_commit cn w of
                     (w, Some x) \<Rightarrow> provisioning_failed cn ''create'' schema_name w
                   | (w, None) \<Rightarrow> (w, Inr ()))))"

definition drop_tenant_schema :: "schema_router \<Rightarrow> 'w db_connection \<Rightarrow> string \<Rightarrow> bool \<Rightarrow> 'w \<Rightarrow> 'w \<times> (exn + unit)" where
  "drop_tenant_schema r cn tenant_id cascade w =
     (let schema_name = get_schema_name (sr_config r) tenant_id
      in case cn_execute cn (''DROP SCHEMA IF EXISTS '' @ double_quoted schema_name @ (if cascade then '' CASCADE'' else [])) [] w of
           (w, Inl x) \<Rightarrow> provisioning_failed cn ''drop'' schema_name w
         | (w, Inr _) \<Rightarrow>
             (case cn_commit cn w of
                (w, Some x) \<Rightarrow> provisioning_failed cn ''drop'' schema_name w
              | (w, None) \<Rightarrow> (w, Inr ())))"

definition schema_exists :: "schema_router \<Rightarrow> 'w db_connection \<Rightarrow> string \<Rightarrow> 'w \<Rightarrow> 'w \<times> (exn + bool)" where
  "schema_exists r cn tenant_id w =
     (case cn_execute cn SCHEMA_QUERY [(''name'', get_schema_name (sr_config r) tenant_id)] w of
        (w, Inl x) \<Rightarrow> (w, Inl x)
      | (w, Inr found) \<Rightarrow> (w, Inr (found \<noteq> None)))"

text \<open>The functions of the module build a router for each call.\<close>

definition module_set_search_path :: "isolation_config option \<Rightarrow> 'w db_connection \<Rightarrow> string \<Rightarrow> 'w \<Rightarrow> 'w \<times> (exn + string)" where
  "module_set_search_path cfg cn tenant_id w =
     (case new_schema_router (case cfg of None \<Rightarrow> default_isolation | Some c \<Rightarrow> c) None of
        Inl x \<Rightarrow> (w, Inl x)
      | Inr r \<Rightarrow> set_search_path r cn tenant_id w)"

definition module_reset_search_path ::
  "isolation_config option \<Rightarrow> 'w db_connection \<Rightarrow> string option \<Rightarrow> 'w \<Rightarrow> 'w \<times> (exn + unit)" where
  "module_reset_search_path cfg cn previous_path w =
     (case new_schema_router (case cfg of None \<Rightarrow> default_isolation | Some c \<Rightarrow> c) None of
        Inl x \<Rightarrow> (w, Inl x)
      | Inr r \<Rightarrow> reset_search_path r cn previous_path w)"

definition with_tenant_schema ::
  "isolation_config option \<Rightarrow> 'w db_connection \<Rightarrow> string option \<Rightarrow> (string \<Rightarrow> ('w, 'a) action) \<Rightarrow> ('w, 'a) action" where
  "with_tenant_schema cfg cn tenant_id body ctx w =
     (case new_schema_router (case cfg of None \<Rightarrow> default_isolation | Some c \<Rightarrow> c) None of
        Inl x \<Rightarrow> (ctx, w, Inl x)
      | Inr r \<Rightarrow> with_schema r cn tenant_id body ctx w)"

section \<open>What the pool keeps\<close>

text \<open>
  \<open>url_of\<close> tells the database an engine connects to.  Every engine of the pool belongs to the tenant it is
  filed under, and a session factory is bound to the engine beside it.
\<close>

definition pool_ok :: "('e \<Rightarrow> string) \<Rightarrow> ('e, 'w) pool_settings \<Rightarrow> 'e engine_pool \<Rightarrow> bool" where
  "pool_ok url_of ps p \<longleftrightarrow>
     dict_ok (ep_engines p) \<and> dict_ok (ep_factories p)
     \<and> (\<forall>t f. map_of (ep_factories p) t = Some f \<longrightarrow> map_of (ep_engines p) t = Some (bound_engine f))
     \<and> (\<forall>t e. map_of (ep_engines p) t = Some e \<longrightarrow> url_of e = ps_url ps t)"

definition creates_for :: "('e \<Rightarrow> string) \<Rightarrow> ('e, 'w) pool_settings \<Rightarrow> bool" where
  "creates_for url_of ps \<longleftrightarrow> (\<forall>t w w' e. create_engine ps t w = (w', Inr e) \<longrightarrow> url_of e = ps_url ps t)"

declare map_of_eq_Some_iff [simp del]

named_theorems pool_defs \<open>operations of the pool\<close>

lemmas pool_ops [pool_defs] = pool_get_engine_def pool_get_session_factory_def close_engine_def close_all_def
  pool_health_check_def move_to_end_def

lemma dkeys_delete [simp]: "dkeys (AList.delete k d) = filter (\<lambda>x. x \<noteq> k) (dkeys d)"
  by (induction d) auto

lemma delete_fresh: "k \<notin> fst ` set d \<Longrightarrow> AList.delete k d = d"
  by (simp add: delete_id)

lemma map_of_to_end [simp]: "map_of (to_end k v d) k' = (if k' = k then Some v else map_of d k')"
  by (auto simp: to_end_def map_add_def split: option.splits)

lemma dict_ok_to_end [simp]: "dict_ok d \<Longrightarrow> dict_ok (to_end k v d)"
  by (simp add: to_end_def del: set_map)

lemma length_to_end: "dict_ok d \<Longrightarrow> map_of d k = Some v \<Longrightarrow> length (to_end k v d) = length d"
  by (induction d) (auto simp: to_end_def delete_fresh split: if_splits)

lemma evict_suffix: "\<exists>n. ep_engines (fst (evict_loop ps es fs w)) = drop n es"
proof (induction ps es fs w rule: evict_loop.induct)
  case (2 ps t e es fs w)
  show ?case
  proof (cases "ps_max_pools ps \<le> int (length ((t, e) # es))")
    case True
    with 2 obtain n where "ep_engines (fst (evict_loop ps ((t, e) # es) fs w)) = drop n es" by auto
    then show ?thesis by (metis drop_Suc_Cons)
  next
    case False
    then show ?thesis by (auto intro: exI [of _ 0])
  qed
qed simp

lemma evict_keys: "evict_if_needed ps p w = (q, w', r) \<Longrightarrow> map_of (ep_engines p) t = None \<Longrightarrow> map_of (ep_engines q) t = None"
  using evict_suffix [of ps "ep_engines p" "ep_factories p" w]
  by (fastforce simp: evict_if_needed_def map_of_eq_None_iff dest: in_set_dropD)

lemma evict_loop_ok:
  assumes "pool_ok url_of ps \<lparr>ep_engines = es, ep_factories = fs\<rparr>" "evict_loop ps es fs w = (q, w', r)"
  shows "pool_ok url_of ps q \<and> length (ep_engines q) \<le> length es \<and> (is_ok r \<longrightarrow> int (length (ep_engines q)) < ps_max_pools ps)"
  using assms
proof (induction ps es fs w rule: evict_loop.induct)
  case (2 ps t e es fs w)
  have k: "map_of es t = None" using "2.prems"(1) by (auto simp: pool_ok_def map_of_eq_None_iff)
  have "pool_ok url_of ps \<lparr>ep_engines = es, ep_factories = AList.delete t fs\<rparr>"
    unfolding pool_ok_def
  proof (intro conjI allI impI)
    fix u f assume "map_of (ep_factories \<lparr>ep_engines = es, ep_factories = AList.delete t fs\<rparr>) u = Some f"
    then have "u \<noteq> t" "map_of fs u = Some f" by (auto split: if_splits)
    then show "map_of (ep_engines \<lparr>ep_engines = es, ep_factories = AList.delete t fs\<rparr>) u = Some (bound_engine f)"
      using "2.prems"(1) unfolding pool_ok_def by (metis engine_pool.select_convs fun_upd_other map_of.simps(2) fst_conv)
  next
    fix u y assume "map_of (ep_engines \<lparr>ep_engines = es, ep_factories = AList.delete t fs\<rparr>) u = Some y"
    then have "map_of ((t, e) # es) u = Some y" using k by auto
    then show "url_of y = ps_url ps u" using "2.prems"(1) unfolding pool_ok_def by (metis engine_pool.select_convs(1))
  qed (use "2.prems"(1) in \<open>simp_all add: pool_ok_def\<close>)
  then show ?case using 2 by (auto split: if_splits)
qed (auto split: if_splits)

lemma evict_if_needed_ok:
  assumes "pool_ok url_of ps p" "evict_if_needed ps p w = (q, w', r)"
  shows "pool_ok url_of ps q" "length (ep_engines q) \<le> length (ep_engines p)"
    "is_ok r \<Longrightarrow> int (length (ep_engines q)) < ps_max_pools ps"
proof -
  have "p = \<lparr>ep_engines = ep_engines p, ep_factories = ep_factories p\<rparr>" by simp
  then have "pool_ok url_of ps \<lparr>ep_engines = ep_engines p, ep_factories = ep_factories p\<rparr>" using assms(1) by metis
  note e = evict_loop_ok [OF this, of w q w' r]
  show "pool_ok url_of ps q" "length (ep_engines q) \<le> length (ep_engines p)"
    "is_ok r \<Longrightarrow> int (length (ep_engines q)) < ps_max_pools ps"
    using e assms(2) by (simp_all add: evict_if_needed_def)
qed

lemma pool_ok_add:
  assumes "pool_ok url_of ps p" "url_of e = ps_url ps t" "map_of (ep_engines p) t = None"
  shows "pool_ok url_of ps (p\<lparr>ep_engines := AList.update t e (ep_engines p)\<rparr>)"
    "pool_ok url_of ps (p\<lparr>ep_engines := AList.update t e (ep_engines p),
                          ep_factories := AList.update t (SessionFactory e) (ep_factories p)\<rparr>)"
  using assms by (auto simp: pool_ok_def)

lemma pool_ok_factory:
  "pool_ok url_of ps p \<Longrightarrow> map_of (ep_engines p) t = Some e
   \<Longrightarrow> pool_ok url_of ps (p\<lparr>ep_factories := AList.update t (SessionFactory e) (ep_factories p)\<rparr>)"
  by (auto simp: pool_ok_def)

lemma pool_ok_factory_engine:
  "pool_ok url_of ps p \<Longrightarrow> map_of (ep_factories p) t = Some f \<Longrightarrow> map_of (ep_engines p) t = Some (bound_engine f)"
  by (simp add: pool_ok_def)

lemma update_length_le:
  "length (AList.update k v d) \<le> Suc (length d)"
  by (induction d) auto

text \<open>One operation: the pool stays well formed and within its capacity, and what it returns is the tenant's.\<close>

definition pool_good :: "('e \<Rightarrow> string) \<Rightarrow> ('e, 'w) pool_settings \<Rightarrow> 'e engine_pool \<Rightarrow> bool" where
  "pool_good url_of ps p \<longleftrightarrow> pool_ok url_of ps p \<and> int (length (ep_engines p)) \<le> ps_max_pools ps"

lemma created_good:
  assumes "creates_for url_of ps" "pool_ok url_of ps p" "int (length (ep_engines p)) < ps_max_pools ps"
    "map_of (ep_engines p) t = None" "create_engine ps t w = (w', Inr e)"
  shows "pool_good url_of ps (p\<lparr>ep_engines := AList.update t e (ep_engines p)\<rparr>)"
    "pool_good url_of ps (p\<lparr>ep_engines := AList.update t e (ep_engines p),
                            ep_factories := AList.update t (SessionFactory e) (ep_factories p)\<rparr>)"
    "url_of e = ps_url ps t"
proof -
  show u: "url_of e = ps_url ps t" using assms(1,5) unfolding creates_for_def by blast
  have "int (length (AList.update t e (ep_engines p))) \<le> ps_max_pools ps"
    using assms(3) update_length_le [of t e "ep_engines p"] by linarith
  then show "pool_good url_of ps (p\<lparr>ep_engines := AList.update t e (ep_engines p)\<rparr>)"
    "pool_good url_of ps (p\<lparr>ep_engines := AList.update t e (ep_engines p),
                            ep_factories := AList.update t (SessionFactory e) (ep_factories p)\<rparr>)"
    using pool_ok_add [OF assms(2) u assms(4)] by (simp_all add: pool_good_def)
qed

lemma pool_ok_to_end:
  assumes "pool_ok url_of ps p" "map_of (ep_engines p) t = Some e"
  shows "pool_ok url_of ps (p\<lparr>ep_engines := to_end t e (ep_engines p)\<rparr>)"
    "map_of (ep_factories p) t = Some f
     \<Longrightarrow> pool_ok url_of ps (p\<lparr>ep_engines := to_end t e (ep_engines p), ep_factories := to_end t f (ep_factories p)\<rparr>)"
  using assms by (auto simp: pool_ok_def split: if_splits)

lemma moved_good:
  assumes "pool_good url_of ps p" "map_of (ep_engines p) t = Some e"
  shows "pool_good url_of ps (p\<lparr>ep_engines := to_end t e (ep_engines p)\<rparr>)"
    "map_of (ep_factories p) t = Some f
     \<Longrightarrow> pool_good url_of ps (p\<lparr>ep_engines := to_end t e (ep_engines p), ep_factories := to_end t f (ep_factories p)\<rparr>)"
    "url_of e = ps_url ps t"
proof -
  have ok: "pool_ok url_of ps p" using assms(1) by (simp add: pool_good_def)
  have "length (to_end t e (ep_engines p)) = length (ep_engines p)"
    using ok assms(2) by (intro length_to_end) (simp_all add: pool_ok_def)
  then show "pool_good url_of ps (p\<lparr>ep_engines := to_end t e (ep_engines p)\<rparr>)"
    "map_of (ep_factories p) t = Some f
     \<Longrightarrow> pool_good url_of ps (p\<lparr>ep_engines := to_end t e (ep_engines p), ep_factories := to_end t f (ep_factories p)\<rparr>)"
    using pool_ok_to_end [OF ok assms(2)] assms(1) by (simp_all add: pool_good_def)
  show "url_of e = ps_url ps t" using ok assms(2) by (simp add: pool_ok_def)
qed

text \<open>Eviction leaves a good pool with room for one more engine.\<close>

lemma evicted_good:
  assumes "pool_good url_of ps p" "evict_if_needed ps p w = (q, w', r)"
  shows "pool_good url_of ps q" "pool_ok url_of ps q" "r = Inr u \<Longrightarrow> int (length (ep_engines q)) < ps_max_pools ps"
  using assms evict_if_needed_ok [of url_of ps p w q w' r] by (auto simp: pool_good_def)

lemma get_engine_good:
  assumes "pool_good url_of ps p" "creates_for url_of ps" "pool_get_engine ps t p w = (q, w', r)"
  shows "pool_good url_of ps q \<and> (\<forall>e. r = Inr e \<longrightarrow> url_of e = ps_url ps t)"
proof (cases "map_of (ep_engines p) t")
  case (Some e)
  then show ?thesis
    using assms(3) moved_good [OF assms(1) Some]
    by (auto simp: pool_get_engine_def move_to_end_def split: option.splits)
next
  case None
  obtain p1 w1 r1 where ev: "evict_if_needed ps p w = (p1, w1, r1)" by (rule prod_cases3)
  note e = evicted_good [OF assms(1) ev] and none = evict_keys [OF ev None]
  obtain w2 r2 where cr: "create_engine ps t w1 = (w2, r2)" by (rule prod.exhaust)
  show ?thesis
    using assms(3) None ev cr e(1) created_good [OF assms(2) e(2) e(3) none]
    by (cases r1; cases r2) (auto simp: pool_get_engine_def)
qed

lemma get_factory_good:
  assumes "pool_good url_of ps p" "creates_for url_of ps" "pool_get_session_factory ps t p w = (q, w', r)"
  shows "pool_good url_of ps q \<and> (\<forall>f. r = Inr f \<longrightarrow> url_of (bound_engine f) = ps_url ps t)"
proof (cases "map_of (ep_factories p) t")
  case (Some f)
  have "map_of (ep_engines p) t = Some (bound_engine f)"
    using pool_ok_factory_engine [of url_of ps p t f] assms(1) Some by (simp add: pool_good_def)
  then show ?thesis
    using assms(3) Some moved_good [OF assms(1), of t "bound_engine f"]
    by (auto simp: pool_get_session_factory_def move_to_end_def)
next
  case None
  obtain p1 w1 r1 where ev: "evict_if_needed ps p w = (p1, w1, r1)" by (rule prod_cases3)
  note e = evicted_good [OF assms(1) ev]
  show ?thesis
  proof (cases "map_of (ep_engines p1) t")
    case (Some e1)
    then show ?thesis
      using assms(3) None ev e pool_ok_factory [OF e(2) Some]
      by (cases r1) (auto simp: pool_get_session_factory_def pool_good_def pool_ok_def)
  next
    case none: None
    obtain w2 r2 where cr: "create_engine ps t w1 = (w2, r2)" by (rule prod.exhaust)
    show ?thesis
      using assms(3) None ev cr none e(1) created_good [OF assms(2) e(2) e(3) none]
      by (cases r1; cases r2) (auto simp: pool_get_session_factory_def)
  qed
qed

lemma close_engine_good:
  assumes "pool_good url_of ps p"
  shows "pool_good url_of ps (fst (close_engine ps t p w))"
proof -
  have "length (AList.delete t (ep_engines p)) \<le> length (ep_engines p)" by (rule length_delete_le)
  then show ?thesis using assms by (auto simp: close_engine_def pool_good_def pool_ok_def split: option.splits prod.splits)
qed

text \<open>Any sequence of calls of the pool.\<close>

datatype pool_call = GetEngine string | GetFactory string | CloseEngine string | CloseAll | HealthCheck string

fun pool_call_effect :: "('e, 'w) pool_settings \<Rightarrow> pool_call \<Rightarrow> 'e engine_pool \<times> 'w \<Rightarrow> 'e engine_pool \<times> 'w" where
  "pool_call_effect ps (GetEngine t) (p, w) = (case pool_get_engine ps t p w of (p, w, _) \<Rightarrow> (p, w))"
| "pool_call_effect ps (GetFactory t) (p, w) = (case pool_get_session_factory ps t p w of (p, w, _) \<Rightarrow> (p, w))"
| "pool_call_effect ps (CloseEngine t) (p, w) = (case close_engine ps t p w of (p, w, _) \<Rightarrow> (p, w))"
| "pool_call_effect ps CloseAll (p, w) = close_all ps p w"
| "pool_call_effect ps (HealthCheck t) (p, w) = (case pool_health_check ps t p w of (p, w, _) \<Rightarrow> (p, w))"

definition after_calls :: "('e, 'w) pool_settings \<Rightarrow> pool_call list \<Rightarrow> 'w \<Rightarrow> 'e engine_pool \<times> 'w" where
  "after_calls ps calls w = fold (pool_call_effect ps) calls (new_pool, w)"

lemma new_pool_good: "0 \<le> ps_max_pools ps \<Longrightarrow> pool_good url_of ps new_pool"
  by (simp add: new_pool_def pool_good_def pool_ok_def)

lemma call_good:
  assumes "creates_for url_of ps" "pool_good url_of ps (fst s)"
  shows "pool_good url_of ps (fst (pool_call_effect ps c s))"
proof (cases s)
  case (Pair p w)
  then have g: "pool_good url_of ps p" using assms(2) by simp
  have m: "0 \<le> ps_max_pools ps" using g by (simp add: pool_good_def)
  show ?thesis
  proof (cases c)
    case (CloseEngine t)
    then show ?thesis using close_engine_good [OF g, of t w] Pair by (auto split: prod.splits)
  next
    case CloseAll
    then show ?thesis using new_pool_good [OF m, of url_of] Pair by (simp add: close_all_def new_pool_def)
  qed (use get_engine_good [OF g assms(1)] get_factory_good [OF g assms(1)] Pair in
        \<open>auto simp: pool_health_check_def split: prod.splits sum.splits\<close>)
qed

lemma after_calls_good:
  assumes "creates_for url_of ps" "0 \<le> ps_max_pools ps"
  shows "pool_good url_of ps (fst (after_calls ps calls w))"
proof -
  have "pool_good url_of ps (fst s) \<Longrightarrow> pool_good url_of ps (fst (fold (pool_call_effect ps) calls s))" for s
    by (induction calls arbitrary: s) (simp_all add: call_good assms(1))
  then show ?thesis by (simp add: after_calls_def new_pool_good assms(2))
qed

lemma own_factory_creates:
  assumes "ps_engine_factory ps = None" "\<forall>url c w w' e. ps_create ps url c w = (w', Inr e) \<longrightarrow> url_of e = url"
  shows "creates_for url_of ps"
  using assms by (auto simp: creates_for_def create_engine_def Let_def)

text \<open>
  C15: whatever calls the pool of a router has seen, it holds at most \<open>max_pools\<close> engines, and a block that asks for a
  tenant either runs with a session on that tenant's database or is not run at all.
\<close>

theorem sessions_reach_own_database:
  assumes "new_database_router cfg base_url None max_pools base = Inr r" "0 \<le> max_pools"
    and "\<forall>url c w w' e. ps_create base url c w = (w', Inr e) \<longrightarrow> url_of e = url"
    and "effective_tenant tenant_id ctx = Some t"
  shows "int (length (ep_engines (fst (after_calls (dr_pool r) calls w)))) \<le> max_pools
    \<and> (\<exists>s. (\<exists>e. session_for_tenant r tenant_id body ctx (after_calls (dr_pool r) calls w) = body e ctx s
               \<and> url_of e = rstrip_slash base_url @ ''/'' @ ic_database_prefix cfg @ t)
          \<or> (\<exists>x. session_for_tenant r tenant_id body ctx (after_calls (dr_pool r) calls w) = (ctx, s, Inl x)))"
proof -
  let ?ps = "base\<lparr>ps_url := router_database_url cfg (rstrip_slash base_url), ps_max_pools := max_pools,
                  ps_default_config := None, ps_engine_factory := None\<rparr>"
  have r: "dr_pool r = ?ps" using assms(1) by (auto simp: new_database_router_def split: if_splits)
  have cf: "creates_for url_of ?ps" using assms(3) by (intro own_factory_creates) simp_all
  have g: "pool_good url_of ?ps (fst (after_calls ?ps calls w))" using after_calls_good [OF cf] assms(2) by simp
  obtain p w1 where s: "after_calls ?ps calls w = (p, w1)" by (rule prod.exhaust)
  obtain q w2 res where f: "pool_get_session_factory ?ps t p w1 = (q, w2, res)" by (rule prod_cases3)
  note own = get_factory_good [OF _ cf f]
  have "res = Inr y \<Longrightarrow> url_of (bound_engine y) = rstrip_slash base_url @ ''/'' @ ic_database_prefix cfg @ t" for y
    using own g s by (simp add: router_database_url_def get_database_name_def)
  then show ?thesis
    using g s f assms(4) unfolding r by (cases res) (auto simp: session_for_tenant_def pool_good_def r)
qed

section \<open>Least recent use\<close>

text \<open>The \<open>n\<close> tenants that were asked for most recently, in the order of their last use.\<close>

definition most_recent :: "nat \<Rightarrow> string list \<Rightarrow> string list" where
  "most_recent n ts = (let r = remdups ts in drop (length r - n) r)"

lemma remdups_snoc: "remdups (ts @ [t]) = filter (\<lambda>x. x \<noteq> t) (remdups ts) @ [t]"
  by (induction ts) auto

lemma most_recent_snoc:
  assumes "0 < n"
  shows "most_recent n (ts @ [t]) =
    (let ks = most_recent n ts
     in if t \<in> set ks then filter (\<lambda>x. x \<noteq> t) ks @ [t] else (if length ks = n then tl ks else ks) @ [t])"
proof -
  define r where "r = remdups ts"
  define a where "a = take (length r - n) r"
  define ks where "ks = drop (length r - n) r"
  have r: "r = a @ ks" "distinct r" by (simp_all add: a_def ks_def r_def)
  have len: "length a = length r - n" "length ks = min n (length r)" by (auto simp: a_def ks_def)
  have keep: "t \<notin> set xs \<Longrightarrow> filter (\<lambda>x. x \<noteq> t) xs = xs" for xs by (rule filter_id_conv') auto
  have one: "distinct xs \<Longrightarrow> t \<in> set xs \<Longrightarrow> Suc (length (filter (\<lambda>x. x \<noteq> t) xs)) = length xs" for xs :: "string list"
    by (induction xs) (auto simp: keep)
  have new: "most_recent n (ts @ [t]) = drop (Suc (length (filter (\<lambda>x. x \<noteq> t) r)) - n) (filter (\<lambda>x. x \<noteq> t) r @ [t])"
    by (simp add: most_recent_def remdups_snoc r_def Let_def)
  consider "t \<in> set ks" "t \<notin> set a" | "t \<notin> set ks" "t \<in> set a" | "t \<notin> set r" using r by auto
  then have "most_recent n (ts @ [t]) =
     (if t \<in> set ks then filter (\<lambda>x. x \<noteq> t) ks @ [t] else (if length ks = n then tl ks else ks) @ [t])"
  proof cases
    case 1
    have "t \<in> set r" using 1 by (simp add: r(1))
    then have d: "Suc (length (filter (\<lambda>x. x \<noteq> t) r)) - n = length a" using one [OF r(2)] len(1) by simp
    show ?thesis unfolding new d using 1 by (simp add: r(1) keep)
  next
    case 2
    have k: "length ks = n" "ks \<noteq> []" using len 2 assms by (auto simp: min_def a_def split: if_splits)
    have m: "t \<in> set r" "distinct a" using 2 r(2) by (simp_all add: r(1))
    have d: "Suc (length (filter (\<lambda>x. x \<noteq> t) r)) - n = Suc (length (filter (\<lambda>x. x \<noteq> t) a))"
      using one [OF r(2) m(1)] one [OF m(2) 2(2)] len(1) by simp
    show ?thesis unfolding new d using 2 k by (cases ks) (auto simp: r(1) keep)
  next
    case 3
    have f: "filter (\<lambda>x. x \<noteq> t) r = r" using 3 by (rule keep)
    show ?thesis
    proof (cases "length r < n")
      case True
      then show ?thesis unfolding new f using 3 by (simp add: ks_def)
    next
      case False
      then have k: "length ks = n" "ks \<noteq> []" "Suc (length r) - n = Suc (length a)"
        using len assms by (auto simp: Suc_diff_le)
      have "t \<notin> set ks" using 3 r(1) by auto
      then show ?thesis unfolding new f k(3) using k(1,2) by (cases ks) (simp_all add: r(1))
    qed
  qed
  then show ?thesis by (simp add: ks_def r_def most_recent_def Let_def)
qed

lemma evict_loop_exact:
  assumes "0 < ps_max_pools ps" "int (length es) \<le> ps_max_pools ps"
  shows "\<exists>fs' w'. evict_loop ps es fs w =
    (\<lparr>ep_engines = (if int (length es) = ps_max_pools ps then tl es else es), ep_factories = fs'\<rparr>, w', Inr ())"
proof -
  have stop: "int (length xs) < ps_max_pools ps \<Longrightarrow> evict_loop ps xs fs w = (\<lparr>ep_engines = xs, ep_factories = fs\<rparr>, w, Inr ())" for xs fs w
    by (cases xs) auto
  show ?thesis using assms stop by (cases es) auto
qed

lemma get_engine_keys:
  assumes "0 < ps_max_pools ps" "int (length (ep_engines p)) \<le> ps_max_pools ps" "\<forall>w. is_ok (snd (create_engine ps t w))"
  shows "dkeys (ep_engines (fst (pool_get_engine ps t p w))) =
    (let ks = dkeys (ep_engines p)
     in if t \<in> set ks then filter (\<lambda>x. x \<noteq> t) ks @ [t] else (if int (length ks) = ps_max_pools ps then tl ks else ks) @ [t])"
proof (cases "map_of (ep_engines p) t")
  case (Some e)
  then have "t \<in> fst ` set (ep_engines p)" by (metis domI dom_map_of_conv_image_fst)
  then show ?thesis using Some by (simp add: pool_get_engine_def to_end_def Let_def)
next
  case None
  let ?es = "if int (length (ep_engines p)) = ps_max_pools ps then tl (ep_engines p) else ep_engines p"
  obtain fs w1 where ev: "evict_if_needed ps p w = (\<lparr>ep_engines = ?es, ep_factories = fs\<rparr>, w1, Inr ())"
    using evict_loop_exact [OF assms(1,2)] unfolding evict_if_needed_def by blast
  obtain w2 r2 where cr: "create_engine ps t w1 = (w2, r2)" by (rule prod.exhaust)
  then obtain e where e: "r2 = Inr e" using assms(3) by (cases r2) (auto simp: is_ok_def dest: spec [of _ w1])
  have fresh: "t \<notin> fst ` set (ep_engines p)" using None by (simp add: map_of_eq_None_iff)
  have "set ?es \<subseteq> set (ep_engines p)" by (cases "ep_engines p") auto
  then have "t \<notin> set (dkeys ?es)" using fresh by auto
  then have "AList.update t e ?es = ?es @ [(t, e)]" by (rule dkeys_update_new)
  then show ?thesis using None ev cr e fresh by (simp add: pool_get_engine_def Let_def map_tl)
qed

text \<open>
  the pool keeps the engines of the \<open>max_pools\<close> tenants that were asked for last and drops the one that was
  not used for the longest time.
\<close>

theorem pool_keeps_most_recent:
  assumes "ps_max_pools ps = int (Suc n)" "\<forall>t w. is_ok (snd (create_engine ps t w))"
  shows "dkeys (ep_engines (fst (after_calls ps (map GetEngine ts) w))) = most_recent (Suc n) ts"
proof (induction ts rule: rev_induct)
  case Nil
  show ?case by (simp add: after_calls_def new_pool_def most_recent_def)
next
  case (snoc t ts)
  obtain p w1 where s: "after_calls ps (map GetEngine ts) w = (p, w1)" by (rule prod.exhaust)
  have k: "dkeys (ep_engines p) = most_recent (Suc n) ts" using snoc s by simp
  have "length (dkeys (ep_engines p)) \<le> Suc n" unfolding k by (simp add: most_recent_def Let_def)
  then have len: "int (length (ep_engines p)) \<le> ps_max_pools ps" using assms(1) by simp
  have step: "fst (after_calls ps (map GetEngine (ts @ [t])) w) = fst (pool_get_engine ps t p w1)"
    using s by (simp add: after_calls_def split: prod.splits)
  show ?case
    unfolding step
    using get_engine_keys [OF _ len, of t w1] assms k most_recent_snoc [of "Suc n" ts t] by (simp add: Let_def)
qed

text \<open>
  a session factory for the oldest tenant of a full pool that has an engine and no factory yet: the pool disposes of
  the tenant's own engine to make room and creates a second one.
\<close>

theorem own_engine_evicted:
  assumes "ep_engines p = (t, e) # es" "dict_ok (ep_engines p)" "map_of (ep_factories p) t = None"
    and "int (length (ep_engines p)) = ps_max_pools ps"
    and "create_engine ps t (fst (ps_dispose ps e w)) = (w', Inr e')"
  shows "pool_get_session_factory ps t p w =
    (\<lparr>ep_engines = es @ [(t, e')], ep_factories = AList.update t (SessionFactory e') (ep_factories p)\<rparr>, w', Inr (SessionFactory e'))"
proof -
  have k: "t \<notin> set (dkeys es)" using assms(1,2) by simp
  have d: "AList.delete t (ep_factories p) = ep_factories p" using assms(3) by (intro delete_fresh) (simp add: map_of_eq_None_iff)
  have "evict_loop ps es (ep_factories p) v = (\<lparr>ep_engines = es, ep_factories = ep_factories p\<rparr>, v, Inr ())" for v
    using assms(1,4) by (cases es) auto
  then have ev: "evict_if_needed ps p w = (\<lparr>ep_engines = es, ep_factories = ep_factories p\<rparr>, fst (ps_dispose ps e w), Inr ())"
    using assms(1,4) d by (simp add: evict_if_needed_def)
  have "map_of es t = None" using k by (simp add: map_of_eq_None_iff)
  then show ?thesis using ev assms(3,5) dkeys_update_new [OF k] by (simp add: pool_get_session_factory_def)
qed

lemma shared_default_config:
  assumes "ps_default_config ps = Some c" "ps_engine_factory ps = Some f"
  shows "create_engine ps t w = f t c w"
  using assms by (simp add: create_engine_def Let_def)

section \<open>Search paths\<close>

lemma path_ok_chars: "path_ok s \<Longrightarrow> c \<in> set s \<Longrightarrow> isalnum c \<or> c \<in> set ''_, ''"
  by (simp add: path_ok_def list_all_iff)

lemma path_bad_chars: "\<not> isalnum CHR 0x22" "\<not> isalnum CHR ''-''"
  by (simp_all add: isalnum_def)

text \<open>
  The server: \<open>path\<close> is the search path that \<^verbatim>\<open>SHOW\<close> prints, \<open>shown\<close> is how a path that was set is printed (a name
  with special characters comes back in quotes).
\<close>

definition path_server :: "'w db_connection \<Rightarrow> ('w \<Rightarrow> string) \<Rightarrow> (string \<Rightarrow> string) \<Rightarrow> bool" where
  "path_server cn path shown \<longleftrightarrow>
     (\<forall>w. cn_execute cn SHOW_PATH [] w = (w, Inr (Some (path w))))
     \<and> (\<forall>p w. \<exists>w'. cn_execute cn SET_PATH [(''search_path'', p)] w = (w', Inr None) \<and> path w' = shown p)"

lemma set_path:
  assumes "path_server cn path shown"
  obtains w' where "cn_execute cn SET_PATH [(''search_path'', p)] w = (w', Inr None)" "path w' = shown p"
  using assms unfolding path_server_def by blast

lemma set_search_path_ok:
  assumes "path_server cn path shown" "path_ok (get_search_path (sr_config r) t)" "path w \<noteq> []"
  obtains w1 where "set_search_path r cn t w = (w1, Inr (path w))" "path w1 = shown (get_search_path (sr_config r) t)"
proof -
  obtain w1 where w1: "cn_execute cn SET_PATH [(''search_path'', get_search_path (sr_config r) t)] w = (w1, Inr None)"
    "path w1 = shown (get_search_path (sr_config r) t)" by (rule set_path [OF assms(1)])
  have "cn_execute cn SHOW_PATH [] w = (w, Inr (Some (path w)))" using assms(1) by (simp add: path_server_def)
  then have "set_search_path r cn t w = (w1, Inr (path w))"
    using w1 assms(2,3) by (simp add: set_search_path_def Let_def truthy_def)
  then show thesis using that w1(2) by blast
qed

text \<open>
  on a connection whose search path is made of plain names, the block runs with the tenant's path set and leaves the
  connection with the path it had, whatever the body does and whether it returns or raises.
\<close>

theorem with_schema_restores_path:
  assumes "path_server cn path shown" "effective_tenant tenant_id ctx = Some t"
    and "path_ok (get_search_path (sr_config r) t)" "path_ok (path w)" "path w \<noteq> []" "shown (path w) = path w"
  shows "\<exists>w1. path w1 = shown (get_search_path (sr_config r) t)
    \<and> (case body (get_schema_name (sr_config r) t) ctx w1 of
         (c, w2, res) \<Rightarrow> \<exists>w3. with_schema r cn tenant_id body ctx w = (c, w3, res) \<and> path w3 = path w)"
proof -
  obtain w1 where w1: "set_search_path r cn t w = (w1, Inr (path w))" "path w1 = shown (get_search_path (sr_config r) t)"
    by (rule set_search_path_ok [OF assms(1,3,5)])
  obtain c w2 res where b: "body (get_schema_name (sr_config r) t) ctx w1 = (c, w2, res)" by (rule prod_cases3)
  obtain w3 where w3: "cn_execute cn SET_PATH [(''search_path'', path w)] w2 = (w3, Inr None)" "path w3 = shown (path w)"
    by (rule set_path [OF assms(1)])
  have "reset_search_path r cn (Some (path w)) w2 = (w3, Inr ())"
    using w3 assms(4,5) by (simp add: reset_search_path_def Let_def truthy_def)
  then have "with_schema r cn tenant_id body ctx w = (c, w3, res)" using w1 b assms(2) by (simp add: with_schema_def)
  then show ?thesis using w1(2) b w3(2) assms(6) by auto
qed

text \<open>
  the default search path of PostgreSQL, \<^verbatim>\<open>"$user", public\<close>, fails the check of names: on such a connection the body
  runs, then the reset raises in place of the body's result, and the connection keeps the path the body left, which is
  the tenant's.
\<close>

theorem fresh_connection_keeps_tenant_path:
  assumes "path_server cn path shown" "effective_tenant tenant_id ctx = Some t"
    and "path_ok (get_search_path (sr_config r) t)" "CHR 0x22 \<in> set (path w)"
  shows "\<exists>w1. path w1 = shown (get_search_path (sr_config r) t)
    \<and> (case body (get_schema_name (sr_config r) t) ctx w1 of
         (c, w2, res) \<Rightarrow> with_schema r cn tenant_id body ctx w = (c, w2, Inl (invalid_path (path w))))"
proof -
  have ne: "path w \<noteq> []" and bad: "\<not> path_ok (path w)"
    using assms(4) path_ok_chars [of "path w" "CHR 0x22"] path_bad_chars(1) by auto
  obtain w1 where w1: "set_search_path r cn t w = (w1, Inr (path w))" "path w1 = shown (get_search_path (sr_config r) t)"
    by (rule set_search_path_ok [OF assms(1,3) ne])
  obtain c w2 res where b: "body (get_schema_name (sr_config r) t) ctx w1 = (c, w2, res)" by (rule prod_cases3)
  have "reset_search_path r cn (Some (path w)) w2 = (w2, Inl (invalid_path (path w)))"
    using bad ne by (simp add: reset_search_path_def Let_def truthy_def)
  then show ?thesis using w1 b assms(2) by (auto simp: with_schema_def)
qed

text \<open>
  a tenant identifier with a dash, which the context accepts, is refused by the check of the search path, and the
  caller sees an unbound variable instead of the error of the check.
\<close>

theorem dashed_tenant_has_no_schema:
  assumes "effective_tenant tenant_id ctx = Some t" "CHR ''-'' \<in> set t"
  shows "with_schema r cn tenant_id body ctx w = (ctx, w, Inl (Other ''UnboundLocalError: previous_path''))"
proof -
  have "\<not> path_ok (get_search_path (sr_config r) t)"
    using assms(2) path_ok_chars [of "get_search_path (sr_config r) t" "CHR ''-''"] path_bad_chars(2)
    by (auto simp: get_search_path_def get_schema_name_def)
  then show ?thesis using assms(1) by (simp add: with_schema_def set_search_path_def)
qed

text \<open>
  the branch for the system tenant is never taken: where no tenant is in effect the context is not the system
  tenant's, and code of the system tenant runs in a schema and on a database of its own.
\<close>

theorem system_tenant_is_routed_as_tenant:
  shows "(effective_tenant tenant_id ctx = None \<longrightarrow> \<not> is_system_tenant ctx)
    \<and> get_schema_translate_map r None (Some SYSTEM_TENANT) = [(''tenant'', ic_schema_prefix (sr_config r) @ ''__system__'')]
    \<and> with_schema r cn None body (Some SYSTEM_TENANT) w = with_schema r cn (Some SYSTEM_TENANT) body (Some SYSTEM_TENANT) w"
  by (auto simp: effective_tenant_def get_current_tenant_or_none_def is_system_tenant_def get_schema_translate_map_def
      get_schema_name_def with_schema_def SYSTEM_TENANT_def py_or_def)

lemma module_functions_need_config:
  "module_set_search_path None cn t w = (w, Inl (ValueError ''SchemaRouter requires SCHEMA_PER_TENANT strategy''))"
  "module_reset_search_path None cn p w = (w, Inl (ValueError ''SchemaRouter requires SCHEMA_PER_TENANT strategy''))"
  "with_tenant_schema None cn tid body ctx w = (ctx, w, Inl (ValueError ''SchemaRouter requires SCHEMA_PER_TENANT strategy''))"
  by (simp_all add: module_set_search_path_def module_reset_search_path_def with_tenant_schema_def new_schema_router_def
      default_isolation_def)

section \<open>Schemas of tenants\<close>

text \<open>
  The server keeps a set of schemas.  Names without a quote and of at most 63 characters are taken as they are; a
  longer one is cut.
\<close>

definition plain_name :: "string \<Rightarrow> bool" where
  "plain_name n \<longleftrightarrow> CHR 0x22 \<notin> set n \<and> length n \<le> 63"

definition schema_server :: "'w db_connection \<Rightarrow> ('w \<Rightarrow> string set) \<Rightarrow> bool" where
  "schema_server cn schemas \<longleftrightarrow>
     (\<forall>n w. cn_execute cn SCHEMA_QUERY [(''name'', n)] w = (w, Inr (if n \<in> schemas w then Some ''1'' else None)))
     \<and> (\<forall>n w. plain_name n \<longrightarrow> n \<notin> schemas w
          \<longrightarrow> (\<exists>w'. cn_execute cn (''CREATE SCHEMA '' @ double_quoted n) [] w = (w', Inr None) \<and> schemas w' = insert n (schemas w)))
     \<and> (\<forall>n w. plain_name n
          \<longrightarrow> (\<exists>w'. cn_execute cn (''DROP SCHEMA IF EXISTS '' @ double_quoted n @ '' CASCADE'') [] w = (w', Inr None)
                \<and> schemas w' = schemas w - {n}))
     \<and> (\<forall>w. \<exists>w'. cn_commit cn w = (w', None) \<and> schemas w' = schemas w)"

lemma schema_serverD:
  assumes "schema_server cn schemas"
  shows "plain_name n \<Longrightarrow> n \<notin> schemas w
      \<Longrightarrow> \<exists>w'. cn_execute cn (''CREATE SCHEMA '' @ double_quoted n) [] w = (w', Inr None) \<and> schemas w' = insert n (schemas w)"
    "plain_name n \<Longrightarrow> \<exists>w'. cn_execute cn (''DROP SCHEMA IF EXISTS '' @ double_quoted n @ '' CASCADE'') [] w = (w', Inr None)
      \<and> schemas w' = schemas w - {n}"
    "\<exists>w'. cn_commit cn w = (w', None) \<and> schemas w' = schemas w"
  using assms unfolding schema_server_def by simp_all

lemma schema_exists_iff:
  "schema_server cn schemas \<Longrightarrow> schema_exists r cn t w = (w, Inr (get_schema_name (sr_config r) t \<in> schemas w))"
  by (simp add: schema_exists_def schema_server_def)

lemma create_schema_adds:
  assumes "schema_server cn schemas" "plain_name (get_schema_name (sr_config r) t)"
  obtains w' where "create_tenant_schema r cn t w = (w', Inr ())" "schemas w' = insert (get_schema_name (sr_config r) t) (schemas w)"
proof (cases "get_schema_name (sr_config r) t \<in> schemas w")
  case True
  then have "create_tenant_schema r cn t w = (w, Inr ())" using assms(1) by (simp add: create_tenant_schema_def schema_server_def)
  then show thesis using that True by (metis insert_absorb)
next
  case False
  obtain w1 where w1: "cn_execute cn (''CREATE SCHEMA '' @ double_quoted (get_schema_name (sr_config r) t)) [] w = (w1, Inr None)"
    "schemas w1 = insert (get_schema_name (sr_config r) t) (schemas w)"
    using schema_serverD(1) [OF assms False] by blast
  obtain w2 where w2: "cn_commit cn w1 = (w2, None)" "schemas w2 = schemas w1" using schema_serverD(3) [OF assms(1), of w1] by blast
  have "cn_execute cn SCHEMA_QUERY [(''name'', get_schema_name (sr_config r) t)] w = (w, Inr None)"
    using assms(1) False by (simp add: schema_server_def)
  then have "create_tenant_schema r cn t w = (w2, Inr ())" using w1(1) w2(1) by (simp add: create_tenant_schema_def Let_def)
  then show thesis using that w1(2) w2(2) by metis
qed

lemma drop_schema_removes:
  assumes "schema_server cn schemas" "plain_name (get_schema_name (sr_config r) t)"
  obtains w' where "drop_tenant_schema r cn t True w = (w', Inr ())" "schemas w' = schemas w - {get_schema_name (sr_config r) t}"
proof -
  obtain w1 where w1: "cn_execute cn (''DROP SCHEMA IF EXISTS '' @ double_quoted (get_schema_name (sr_config r) t) @ '' CASCADE'') [] w = (w1, Inr None)"
    "schemas w1 = schemas w - {get_schema_name (sr_config r) t}"
    using schema_serverD(2) [OF assms, of w] by blast
  obtain w2 where w2: "cn_commit cn w1 = (w2, None)" "schemas w2 = schemas w1" using schema_serverD(3) [OF assms(1), of w1] by blast
  have "drop_tenant_schema r cn t True w = (w2, Inr ())" using w1(1) w2(1) by (simp add: drop_tenant_schema_def Let_def)
  then show thesis using that w1(2) w2(2) by metis
qed

text \<open>
  creating the schema of a tenant succeeds, also when it exists already, and changes the answer of
  \<^verbatim>\<open>schema_exists\<close> for that tenant only; dropping it undoes that.
\<close>

theorem tenant_schema_lifecycle:
  assumes "schema_server cn schemas" "plain_name (get_schema_name (sr_config r) t)"
  shows "\<exists>w1 w2. create_tenant_schema r cn t w = (w1, Inr ()) \<and> drop_tenant_schema r cn t True w1 = (w2, Inr ())
    \<and> (\<forall>u. snd (schema_exists r cn u w1) = (if u = t then Inr True else snd (schema_exists r cn u w)))
    \<and> (\<forall>u. snd (schema_exists r cn u w2) = (if u = t then Inr False else snd (schema_exists r cn u w)))"
proof -
  obtain w1 where w1: "create_tenant_schema r cn t w = (w1, Inr ())" "schemas w1 = insert (get_schema_name (sr_config r) t) (schemas w)"
    by (rule create_schema_adds [OF assms])
  obtain w2 where w2: "drop_tenant_schema r cn t True w1 = (w2, Inr ())" "schemas w2 = schemas w1 - {get_schema_name (sr_config r) t}"
    by (rule drop_schema_removes [OF assms])
  have "get_schema_name (sr_config r) u = get_schema_name (sr_config r) t \<longleftrightarrow> u = t" for u by (simp add: get_schema_name_def)
  then show ?thesis using w1 w2 by (intro exI [of _ w1] exI [of _ w2]) (simp add: schema_exists_iff [OF assms(1)])
qed

section \<open>Concrete databases\<close>

text \<open>Engines are numbered urls; the world counts them and lists the ones that were disposed of.\<close>

definition ex_pool :: "int \<Rightarrow> (string \<times> nat, nat \<times> (string \<times> nat) list) pool_settings" where
  "ex_pool n =
     \<lparr>ps_url = id, ps_max_pools = n, ps_default_config = None, ps_engine_factory = None,
      ps_create = (\<lambda>url c (k, gone). ((Suc k, gone), Inr (url, k))),
      ps_dispose = (\<lambda>e (k, gone). ((k, gone @ [e]), None)), ps_select_1 = (\<lambda>e w. (w, None))\<rparr>"

definition ex_database_isolation :: isolation_config where
  "ex_database_isolation = default_isolation\<lparr>ic_strategy := DATABASE_PER_TENANT\<rparr>"

definition ex_schema_router :: schema_router where
  "ex_schema_router = \<lparr>sr_config = default_isolation\<lparr>ic_strategy := SCHEMA_PER_TENANT\<rparr>, sr_default_search_path = ''public''\<rparr>"

lemma ex_pool_creates [simp]: "create_engine (ex_pool n) t (k, gone) = ((Suc k, gone), Inr (t, k))"
  by (simp add: create_engine_def ex_pool_def)

theorem sessions_reach_own_database_witness:
  "\<exists>s e. session_for_tenant
       \<lparr>dr_config = ex_database_isolation, dr_base_url = ''pg://h'',
        dr_pool = (ex_pool 5)\<lparr>ps_url := router_database_url ex_database_isolation ''pg://h'', ps_max_pools := 2\<rparr>\<rparr>
       (Some ''acme'') (\<lambda>e c s. (c, s, Inr (fst e))) None (new_pool, (0, [])) = (None, s, Inr ''pg://h/tenant_acme'')"
proof -
  let ?ps = "(ex_pool 5)\<lparr>ps_url := router_database_url ex_database_isolation ''pg://h'', ps_max_pools := 2\<rparr>"
  let ?r = "\<lparr>dr_config = ex_database_isolation, dr_base_url = ''pg://h'', dr_pool = ?ps\<rparr>"
  let ?s = "session_for_tenant ?r (Some ''acme'') (\<lambda>e c s. (c, s, Inr (fst e))) None (new_pool, (0, []))"
  have r: "new_database_router ex_database_isolation ''pg://h/'' None 2 (ex_pool 5) = Inr ?r"
    by (simp add: new_database_router_def ex_database_isolation_def default_isolation_def rstrip_slash_def ex_pool_def)
  have "\<exists>s. (\<exists>e. ?s = (None, s, Inr (fst e)) \<and> fst e = ''pg://h/tenant_acme'') \<or> (\<exists>x. ?s = (None, s, Inl x))"
    using sessions_reach_own_database [OF r, where url_of = fst and tenant_id = "Some ''acme''" and ctx = None and t = "''acme''"
        and calls = "[]" and w = "(0, [])" and body = "\<lambda>e c s. (c, s, Inr (fst e))"]
    by (auto simp: after_calls_def effective_tenant_def rstrip_slash_def ex_database_isolation_def default_isolation_def ex_pool_def)
  moreover have "is_ok (snd (snd ?s))"
    by (simp add: session_for_tenant_def effective_tenant_def pool_get_session_factory_def new_pool_def evict_if_needed_def
        ex_pool_def create_engine_def Let_def)
  ultimately show ?thesis by force
qed

theorem pool_keeps_most_recent_witness:
  "dkeys (ep_engines (fst (after_calls (ex_pool 2) (map GetEngine [''a'', ''b'', ''a'', ''c'']) (0, [])))) = [''a'', ''c'']"
proof -
  have "is_ok (snd (create_engine (ex_pool 2) t w))" for t w by (cases w) simp
  then show ?thesis
    using pool_keeps_most_recent [of "ex_pool 2" 1 "[''a'', ''b'', ''a'', ''c'']" "(0, [])"]
    by (simp add: most_recent_def Let_def ex_pool_def)
qed

theorem own_engine_evicted_witness:
  "pool_get_session_factory (ex_pool 1) ''a'' \<lparr>ep_engines = [(''a'', (''a'', 0))], ep_factories = []\<rparr> (1, []) =
     (\<lparr>ep_engines = [(''a'', (''a'', 1))], ep_factories = [(''a'', SessionFactory (''a'', 1))]\<rparr>, (2, [(''a'', 0)]),
      Inr (SessionFactory (''a'', 1)))"
  using own_engine_evicted [where ps = "ex_pool 1" and p = "\<lparr>ep_engines = [(''a'', (''a'', 0))], ep_factories = []\<rparr>"
      and t = "''a''" and e = "(''a'', 0)" and es = "[]" and w = "(1, [])" and w' = "(2, [(''a'', 0)])" and e' = "(''a'', 1)"]
  by (simp add: ex_pool_def create_engine_def)

text \<open>A server whose state is its search path, and one whose state is its list of schemas.\<close>

definition ex_shown :: "string \<Rightarrow> string" where
  "ex_shown p = (if list_all (\<lambda>c. isalnum c \<or> c = CHR ''_'') p then p else double_quoted p)"

definition ex_path_connection :: "string db_connection" where
  "ex_path_connection =
     \<lparr>cn_execute = (\<lambda>sql args w. if sql = SHOW_PATH then (w, Inr (Some w)) else (ex_shown (snd (hd args)), Inr None)),
      cn_commit = (\<lambda>w. (w, None)), cn_rollback = (\<lambda>w. (w, None))\<rparr>"

lemma ex_path_server: "path_server ex_path_connection id ex_shown"
  by (simp add: path_server_def ex_path_connection_def SHOW_PATH_def SET_PATH_def)

lemma ex_path_facts:
  "get_search_path (sr_config ex_schema_router) ''acme'' = ''tenant_acme, public''"
  "path_ok ''tenant_acme, public''" "path_ok ''public''" "ex_shown ''public'' = ''public''"
  "effective_tenant None (Some ''acme'') = Some ''acme''" "effective_tenant None (Some ''acme-1'') = Some ''acme-1''"
  by (simp_all add: ex_schema_router_def default_isolation_def get_search_path_def get_schema_name_def path_ok_def isalnum_def
      ex_shown_def effective_tenant_def get_current_tenant_or_none_def)

theorem with_schema_restores_path_witness:
  "\<exists>w3. with_schema ex_schema_router ex_path_connection None (\<lambda>n c w. (c, ''other'', Inl RecursionError)) (Some ''acme'') ''public''
     = (Some ''acme'', w3, Inl RecursionError :: exn + unit) \<and> w3 = ''public''"
  using with_schema_restores_path [OF ex_path_server, where tenant_id = None and ctx = "Some ''acme''" and t = "''acme''"
      and r = ex_schema_router and w = "''public''" and body = "\<lambda>n c w. (c, ''other'', Inl RecursionError :: exn + unit)"]
  by (simp add: ex_path_facts)

theorem fresh_connection_keeps_tenant_path_witness:
  "with_schema ex_schema_router ex_path_connection None (\<lambda>n c w. (c, w, Inr ())) (Some ''acme'') (double_quoted ''$user'' @ '', public'')
     = (Some ''acme'', ex_shown ''tenant_acme, public'', Inl (invalid_path (double_quoted ''$user'' @ '', public'')))"
  using fresh_connection_keeps_tenant_path [OF ex_path_server, where tenant_id = None and ctx = "Some ''acme''" and t = "''acme''"
      and r = ex_schema_router and w = "double_quoted ''$user'' @ '', public''" and body = "\<lambda>n c w. (c, w, Inr ())"]
  by (auto simp: ex_path_facts double_quoted_def)

theorem dashed_tenant_has_no_schema_witness:
  "set_tenant ''acme-1'' None = Inr (Some ''acme-1'', None)
   \<and> with_schema ex_schema_router ex_path_connection None (\<lambda>n c w. (c, w, Inr ())) (Some ''acme-1'') ''public''
     = (Some ''acme-1'', ''public'', Inl (Other ''UnboundLocalError: previous_path''))"
  using dashed_tenant_has_no_schema [OF ex_path_facts(6), where r = ex_schema_router and cn = ex_path_connection
      and body = "\<lambda>n c w. (c, w, Inr ())" and w = "''public''"]
  by (simp add: set_tenant_def tenant_char_def isalnum_def SYSTEM_TENANT_def)

theorem system_tenant_is_routed_as_tenant_witness:
  "get_schema_translate_map ex_schema_router None (Some SYSTEM_TENANT) = [(''tenant'', ''tenant___system__'')]"
  using system_tenant_is_routed_as_tenant [where r = ex_schema_router and tenant_id = None and ctx = None and cn = ex_path_connection
      and body = "\<lambda>n c w. (c, w, Inr ())" and w = "''public''"]
  by (simp add: ex_schema_router_def default_isolation_def)

definition ex_schema_connection :: "string list db_connection" where
  "ex_schema_connection =
     \<lparr>cn_execute = (\<lambda>sql args w.
        if sql = SCHEMA_QUERY then (w, Inr (if snd (hd args) \<in> set w then Some ''1'' else None))
        else if take 14 sql = ''CREATE SCHEMA '' then (butlast (drop 15 sql) # w, Inr None)
        else (filter (\<lambda>n. n \<noteq> takeWhile (\<lambda>c. c \<noteq> CHR 0x22) (drop 23 sql)) w, Inr None)),
      cn_commit = (\<lambda>w. (w, None)), cn_rollback = (\<lambda>w. (w, None))\<rparr>"

lemma ex_schema_server: "schema_server ex_schema_connection set"
  by (auto simp: schema_server_def ex_schema_connection_def SCHEMA_QUERY_def double_quoted_def plain_name_def takeWhile_append)

theorem tenant_schema_lifecycle_witness:
  "\<exists>w1. create_tenant_schema ex_schema_router ex_schema_connection ''acme'' [''public''] = (w1, Inr ())
     \<and> snd (schema_exists ex_schema_router ex_schema_connection ''acme'' w1) = Inr True"
proof -
  have "plain_name (get_schema_name (sr_config ex_schema_router) ''acme'')"
    by (simp add: plain_name_def get_schema_name_def ex_schema_router_def default_isolation_def)
  from tenant_schema_lifecycle [OF ex_schema_server this, of "[''public'']"] show ?thesis by force
qed

end
