(* ===== verification/TenantPersistence.thy ===== *)
theory TenantPersistence
  imports TenantStores Persistence
begin

text \<open>
  The tenant mixins of the persistence dispatcher and of its handlers (features/multitenancy: mixins/dispatcher.py
  and mixins/persistence.py), over the dispatcher of theory \<^verbatim>\<open>Persistence\<close>.

  The handlers stay ports.  An entity may lack the field \<^verbatim>\<open>tenant_id\<close>, and setting it (with \<^verbatim>\<open>model_copy\<close> or by
  assignment) may raise; the metadata of an event is a dictionary, something else, or missing.
\<close>

section \<open>Stamping\<close>

record 'e tenanted_class =
  ec_has_tenant_id :: "'e \<Rightarrow> bool"
  ec_with_tenant :: "string \<Rightarrow> 'e \<Rightarrow> exn + 'e"

datatype event_metadata = NoMetadata | MetadataDict payload | OtherMetadata

text \<open>\<open>vc_put\<close> changes the dictionary in place, \<open>vc_assign\<close> assigns the attribute, which may raise.\<close>

record 'ev stamped_class =
  vc_metadata :: "'ev \<Rightarrow> event_metadata"
  vc_put :: "payload \<Rightarrow> 'ev \<Rightarrow> 'ev"
  vc_assign :: "payload \<Rightarrow> 'ev \<Rightarrow> exn + 'ev"

definition is_attribute_or_type_error :: "exn \<Rightarrow> bool" where
  "is_attribute_or_type_error x \<longleftrightarrow> (case x of AttributeError _ \<Rightarrow> True | TypeError _ \<Rightarrow> True | _ \<Rightarrow> False)"

definition set_tenant_on_entity :: "'e tenanted_class \<Rightarrow> string \<Rightarrow> 'e \<Rightarrow> exn + 'e" where
  "set_tenant_on_entity ec tenant_id entity =
     (case ec_with_tenant ec tenant_id entity of
        Inr e \<Rightarrow> Inr e
      | Inl x \<Rightarrow> if is_attribute_or_type_error x then Inr entity else Inl x)"

definition tenant_metadata :: "string \<Rightarrow> payload" where
  "tenant_metadata tenant_id = [(''tenant_id'', JStr tenant_id)]"

definition inject_tenant_into_one :: "'ev stamped_class \<Rightarrow> string \<Rightarrow> 'ev \<Rightarrow> exn + 'ev" where
  "inject_tenant_into_one vc tenant_id ev =
     (case vc_metadata vc ev of
        MetadataDict d \<Rightarrow> Inr (vc_put vc (AList.update ''tenant_id'' (JStr tenant_id) d) ev)
      | OtherMetadata \<Rightarrow> vc_assign vc (tenant_metadata tenant_id) ev
      | NoMetadata \<Rightarrow>
          (case vc_assign vc (tenant_metadata tenant_id) ev of
             Inr ev \<Rightarrow> Inr ev
           | Inl x \<Rightarrow> if is_attribute_or_type_error x then Inr ev else Inl x))"

definition inject_tenant_into_events :: "'ev stamped_class \<Rightarrow> string \<Rightarrow> 'ev list \<Rightarrow> exn + 'ev list" where
  "inject_tenant_into_events vc tenant_id events = traverse (inject_tenant_into_one vc tenant_id) events"

text \<open>The mixin of the handlers stamps events without the tests of the dispatcher.\<close>

definition stamp_event :: "'ev stamped_class \<Rightarrow> string \<Rightarrow> 'ev \<Rightarrow> exn + 'ev" where
  "stamp_event vc tenant_id ev =
     (case vc_metadata vc ev of
        MetadataDict d \<Rightarrow> Inr (vc_put vc (AList.update ''tenant_id'' (JStr tenant_id) d) ev)
      | OtherMetadata \<Rightarrow> Inl (TypeError ''object does not support item assignment'')
      | NoMetadata \<Rightarrow> vc_assign vc (tenant_metadata tenant_id) ev)"

definition missing_tenant_field :: exn where
  "missing_tenant_field = ValueError ''Entity must have a tenant_id field. Use MultitenantMixin from cqrs_ddd_multitenancy.domain.''"

definition stamp_and_write ::
  "'e tenanted_class \<Rightarrow> (string \<Rightarrow> 'ev list \<Rightarrow> exn + 'ev list) \<Rightarrow> tenant_ctx \<Rightarrow> ('e \<Rightarrow> 'ev list option \<Rightarrow> 'w \<Rightarrow> 'w \<times> (exn + string)) \<Rightarrow>
     'e \<Rightarrow> 'ev list option \<Rightarrow> 'w \<Rightarrow> 'w \<times> (exn + string)" where
  "stamp_and_write ec stamp ctx write_entity entity events w =
     (case require_tenant ctx of
        Inl x \<Rightarrow> (w, Inl x)
      | Inr tenant_id \<Rightarrow>
          if \<not> ec_has_tenant_id ec entity then (w, Inl missing_tenant_field)
          else case set_tenant_on_entity ec tenant_id entity of
              Inl x \<Rightarrow> (w, Inl x)
            | Inr entity \<Rightarrow>
                (case (case events of None \<Rightarrow> Inr None | Some evs \<Rightarrow> map_sum id Some (stamp tenant_id evs)) of
                   Inl x \<Rightarrow> (w, Inl x)
                 | Inr events \<Rightarrow> write_entity entity events w))"

section \<open>Dispatcher mixin\<close>

definition mt_pd_apply ::
  "'e tenanted_class \<Rightarrow> 'ev stamped_class \<Rightarrow> tenant_ctx \<Rightarrow> ('e, 'u, 'ev, 'q, 'w) persistence_dispatcher \<Rightarrow> 'e \<Rightarrow> 'u option \<Rightarrow> 'ev list option \<Rightarrow>
     'w \<Rightarrow> 'w \<times> (exn + string)" where
  "mt_pd_apply ec vc ctx pd entity uow events w =
     stamp_and_write ec (inject_tenant_into_events vc) ctx (\<lambda>e evs. pd_apply pd e uow evs) entity events w"

definition combined_spec :: "('e \<Rightarrow> string option) \<Rightarrow> string \<Rightarrow> 'e any_spec option \<Rightarrow> 'e any_spec" where
  "combined_spec tid tenant_id specification = Composable (compose_specs (build_tenant_specification tid tenant_id) specification)"

definition mt_fetch_domain ::
  "('e \<Rightarrow> string option) \<Rightarrow> tenant_ctx \<Rightarrow> ('e, 'u, 'ev, 'e any_spec, 'w) persistence_dispatcher \<Rightarrow> string \<Rightarrow> string list \<Rightarrow> 'u option \<Rightarrow>
     'e any_spec option \<Rightarrow> 'w \<Rightarrow> 'w \<times> (exn + 'e list)" where
  "mt_fetch_domain tid ctx pd ty ids uow specification w =
     (if is_system_tenant ctx then fetch_domain pd ty ids uow specification w
      else case require_tenant ctx of
          Inl x \<Rightarrow> (w, Inl x)
        | Inr t \<Rightarrow> fetch_domain pd ty ids uow (Some (combined_spec tid t specification)) w)"

definition mt_fetch ::
  "('e \<Rightarrow> string option) \<Rightarrow> tenant_ctx \<Rightarrow> ('e, 'u, 'ev, 'e any_spec, 'w) persistence_dispatcher \<Rightarrow> string \<Rightarrow> 'e any_spec fetch_criteria \<Rightarrow>
     'u option \<Rightarrow> 'e any_spec option \<Rightarrow> exn + ('e, 'w) search_result" where
  "mt_fetch tid ctx pd ty criteria uow specification =
     (if is_system_tenant ctx then fetch pd ty criteria uow specification
      else case require_tenant ctx of
          Inl x \<Rightarrow> Inl x
        | Inr t \<Rightarrow> fetch pd ty criteria uow (Some (combined_spec tid t specification)))"

section \<open>Handler mixins\<close>

definition mt_persist ::
  "'e tenanted_class \<Rightarrow> 'ev stamped_class \<Rightarrow> tenant_ctx \<Rightarrow> ('e \<Rightarrow> 'u \<Rightarrow> 'ev list option \<Rightarrow> 'w \<Rightarrow> 'w \<times> (exn + string)) \<Rightarrow>
     'e \<Rightarrow> 'u \<Rightarrow> 'ev list option \<Rightarrow> 'w \<Rightarrow> 'w \<times> (exn + string)" where
  "mt_persist ec vc ctx persist_entity entity uow events w =
     stamp_and_write ec (\<lambda>t. traverse (stamp_event vc t)) ctx (\<lambda>e evs. persist_entity e uow evs) entity events w"

definition mt_retrieve ::
  "('e \<Rightarrow> string option) \<Rightarrow> tenant_ctx \<Rightarrow> (string list \<Rightarrow> 'u \<Rightarrow> 'e any_spec option \<Rightarrow> 'w \<Rightarrow> 'w \<times> (exn + 'e list)) \<Rightarrow>
     string list \<Rightarrow> 'u \<Rightarrow> 'e any_spec option \<Rightarrow> 'w \<Rightarrow> 'w \<times> (exn + 'e list)" where
  "mt_retrieve tid ctx retrieve_base ids uow specification w =
     (if is_system_tenant ctx then retrieve_base ids uow specification w
      else case require_tenant ctx of
          Inl x \<Rightarrow> (w, Inl x)
        | Inr t \<Rightarrow> retrieve_base ids uow (Some (combined_spec tid t specification)) w)"

definition mt_fetch_ids ::
  "('e \<Rightarrow> string option) \<Rightarrow> tenant_ctx \<Rightarrow> (string list \<Rightarrow> 'u \<Rightarrow> 'e any_spec option \<Rightarrow> 'w \<Rightarrow> 'w \<times> (exn + 'e list)) \<Rightarrow>
     string list \<Rightarrow> 'u \<Rightarrow> 'e any_spec option \<Rightarrow> 'w \<Rightarrow> 'w \<times> (exn + 'e list)" where
  "mt_fetch_ids tid ctx fetch_ids ids uow specification w = mt_retrieve tid ctx fetch_ids ids uow specification w"

text \<open>
  Criteria that do not compose with \<^verbatim>\<open>&\<close>, query options among them, end up in a dictionary beside the tenant
  specification.
\<close>

datatype 'e spec_criteria = OneSpec "'e any_spec" | AndDict "'e \<Rightarrow> bool" "'e any_spec"

definition compose_specifications :: "('e \<Rightarrow> bool) \<Rightarrow> 'e any_spec option \<Rightarrow> 'e spec_criteria" where
  "compose_specifications tenant_spec user_criteria =
     (case user_criteria of
        None \<Rightarrow> OneSpec (Composable tenant_spec)
      | Some (Composable p) \<Rightarrow> OneSpec (Composable (\<lambda>e. tenant_spec e \<and> p e))
      | Some (Opaque p) \<Rightarrow> AndDict tenant_spec (Opaque p))"

definition mt_fetch_spec ::
  "('e \<Rightarrow> string option) \<Rightarrow> tenant_ctx \<Rightarrow> ('e spec_criteria \<Rightarrow> 'u \<Rightarrow> exn + 'r) \<Rightarrow> 'e any_spec \<Rightarrow> 'u \<Rightarrow> exn + 'r" where
  "mt_fetch_spec tid ctx fetch_spec criteria uow =
     (if is_system_tenant ctx then fetch_spec (OneSpec criteria) uow
      else case require_tenant ctx of
          Inl x \<Rightarrow> Inl x
        | Inr t \<Rightarrow> fetch_spec (compose_specifications (build_tenant_specification tid t) (Some criteria)) uow)"

section \<open>Isolation of reads\<close>

text \<open>The demand on handlers that the mixins state: a given specification is applied to the query.\<close>

definition honours_spec :: "('e, 'u, 'ev, 'e any_spec, 'w) persistence_dispatcher \<Rightarrow> bool" where
  "honours_spec pd \<longleftrightarrow>
     (\<forall>h ids u q w w' es. pd_retrieve pd h ids u (Some q) w = (w', Inr es) \<longrightarrow> list_all (spec_pred q) es)
     \<and> (\<forall>h ids u q w w' es. pd_fetch_ids pd h ids u (Some q) w = (w', Inr es) \<longrightarrow> list_all (spec_pred q) es)"

lemma in_uow_result:
  assumes "in_uow f body w = (w', Inr r)"
  obtains u w1 w2 where "body u w1 = (w2, Inr r)"
proof -
  obtain w1 u where en: "uf_enter f w = (w1, u)" by (rule prod.exhaust)
  obtain w2 res where b: "body u w1 = (w2, res)" by (rule prod.exhaust)
  have "res = Inr r" using assms en b by (auto simp: in_uow_def split: prod.splits option.splits)
  then show thesis using that b by blast
qed

lemma with_uow_result:
  assumes "with_uow pd src uow call w = (w', Inr r)"
  obtains u w1 w2 where "call u w1 = (w2, Inr r)"
proof (cases uow)
  case None
  then obtain f where "in_uow f call w = (w', Inr r)" using assms by (auto simp: with_uow_def split: option.splits)
  then show thesis by (rule in_uow_result) (rule that)
next
  case (Some u)
  then show thesis using assms that [of u w w'] by (simp add: with_uow_def)
qed

lemma fetch_domain_honours:
  assumes "honours_spec pd" "fetch_domain pd ty ids uow (Some q) w = (w', Inr es)"
  shows "list_all (spec_pred q) es"
proof -
  obtain h :: handler_entry where "with_uow pd (he_source h) uow (\<lambda>u. pd_retrieve pd (he_handler h) ids u (Some q)) w = (w', Inr es)"
    using assms(2) by (auto simp: fetch_domain_def split: option.splits)
  then obtain u w1 w2 where "pd_retrieve pd (he_handler h) ids u (Some q) w1 = (w2, Inr es)" by (rule with_uow_result)
  then show ?thesis using assms(1) unfolding honours_spec_def by blast
qed

lemma fetch_by_ids_honours:
  assumes "honours_spec pd" "fetch_by_ids pd ty ids uow (Some q) w = (w', Inr es)"
  shows "list_all (spec_pred q) es"
proof -
  obtain h :: handler_entry where "with_uow pd (he_source h) uow (\<lambda>u. pd_fetch_ids pd (he_handler h) ids u (Some q)) w = (w', Inr es)"
    using assms(2) by (auto simp: fetch_by_ids_def split: option.splits)
  then obtain u w1 w2 where "pd_fetch_ids pd (he_handler h) ids u (Some q) w1 = (w2, Inr es)" by (rule with_uow_result)
  then show ?thesis using assms(1) unfolding honours_spec_def by blast
qed

lemma yield_batches_all:
  assumes "\<And>xs w w' es. f xs w = (w', Inr es) \<Longrightarrow> list_all P es"
  shows "list_all P (fst (snd (yield_batches f n ids w)))"
  using assms
proof (induction f n ids w rule: yield_batches.induct)
  case (2 f n x xs w)
  show ?case
  proof (cases "f (take (Suc n) (x # xs)) w")
    case (Pair w1 r)
    then show ?thesis using 2(1) [OF Pair [symmetric]] 2(2) by (cases r) (auto split: prod.splits)
  qed
qed simp

lemma combined_spec_owned: "spec_pred (combined_spec tid t spec) e \<Longrightarrow> tid e = Some t"
  using compose_specs_owned [of tid t spec e] by (simp add: combined_spec_def)

lemma ids_as_stream_honours:
  assumes "honours_spec pd"
  shows "list_all (spec_pred q) (fst (snd (ids_as_stream pd ty ids uow b (Some q) w)))"
proof -
  have one: "list_all (spec_pred q) (fst (snd (yield_all (fetch_by_ids pd ty ids uow (Some q) w))))"
    using fetch_by_ids_honours [OF assms, of ty ids uow q w]
    by (cases "fetch_by_ids pd ty ids uow (Some q) w"; cases "snd (fetch_by_ids pd ty ids uow (Some q) w)") (auto simp: yield_all_def)
  have "list_all (spec_pred q) (fst (snd (yield_batches (\<lambda>batch. fetch_by_ids pd ty batch uow (Some q)) n ids w)))" for n
    by (rule yield_batches_all) (rule fetch_by_ids_honours [OF assms])
  then show ?thesis using one by (auto simp: ids_as_stream_def split: option.splits)
qed

text \<open>
  under a tenant's context the dispatcher returns entities and, for ids, read models of that tenant only, as a list and
  as a stream, provided the handlers apply the specification they are given.
\<close>

theorem dispatcher_reads_isolated:
  assumes "honours_spec pd" "t \<noteq> SYSTEM_TENANT"
  shows "(\<forall>w' es. mt_fetch_domain tid (Some t) pd ty ids uow spec w = (w', Inr es) \<longrightarrow> (\<forall>e \<in> set es. tid e = Some t))
    \<and> (\<forall>sr. mt_fetch tid (Some t) pd ty (Ids ids) uow spec = Inr sr
         \<longrightarrow> (\<forall>w' es. rs_list sr w = (w', Inr es) \<longrightarrow> (\<forall>e \<in> set es. tid e = Some t))
           \<and> (\<forall>e \<in> set (fst (snd (rs_stream sr b w))). tid e = Some t))"
proof -
  let ?q = "combined_spec tid t spec"
  have own: "list_all (spec_pred ?q) es \<Longrightarrow> \<forall>e \<in> set es. tid e = Some t" for es
    by (auto simp: list_all_iff dest: combined_spec_owned)
  have r: "\<not> is_system_tenant (Some t)" "require_tenant (Some t) = Inr t"
    using assms(2) by (simp_all add: is_system_tenant_def require_tenant_def get_current_tenant_def)
  show ?thesis
    using own [OF fetch_domain_honours [OF assms(1)]] own [OF fetch_by_ids_honours [OF assms(1)]]
      own [OF ids_as_stream_honours [OF assms(1)]]
    by (simp add: mt_fetch_domain_def mt_fetch_def fetch_def r Let_def)
qed

text \<open>
  criteria that are a specification or query options: the dispatcher drops the tenant specification, so that every
  tenant gets what the query handler answers without it.
\<close>

theorem dispatcher_specification_unfiltered:
  assumes "ctx \<noteq> None"
  shows "mt_fetch tid ctx pd ty (BySpec q) uow spec = fetch pd ty (BySpec q) uow None
    \<and> mt_fetch tid ctx pd ty (ByOptions q) uow spec = fetch pd ty (ByOptions q) uow None"
  using assms by (auto simp: mt_fetch_def fetch_def require_tenant_def get_current_tenant_def)

text \<open>A dispatcher whose query handlers carry the mixin of the handlers; \<open>base\<close> is their class without it.\<close>

definition with_handler_mixin ::
  "('e \<Rightarrow> string option) \<Rightarrow> tenant_ctx \<Rightarrow> (string \<Rightarrow> 'e spec_criteria \<Rightarrow> 'u \<Rightarrow> 'w \<Rightarrow> 'w \<times> (exn + 'e list)) \<Rightarrow>
     ('e, 'u, 'ev, 'e any_spec, 'w) persistence_dispatcher \<Rightarrow> ('e, 'u, 'ev, 'e any_spec, 'w) persistence_dispatcher" where
  "with_handler_mixin tid ctx base pd = pd\<lparr>pd_fetch_spec :=
     (\<lambda>h q u w. case mt_fetch_spec tid ctx (\<lambda>c u. Inr (base h c u)) q u of Inl x \<Rightarrow> (w, Inl x) | Inr run \<Rightarrow> run w)\<rparr>"

text \<open>
  C16: a query handler with the mixin closes that gap for specifications that compose: the result holds read models of the
  tenant that satisfy the caller's specification, and no others.
\<close>

theorem handler_mixin_filters_specification:
  assumes "\<forall>h q u w w' es. base h (OneSpec q) u w = (w', Inr es) \<longrightarrow> list_all (spec_pred q) es" "t \<noteq> SYSTEM_TENANT"
    and "mt_fetch tid (Some t) (with_handler_mixin tid (Some t) base pd) ty (BySpec (Composable p)) uow spec = Inr sr"
    and "rs_list sr w = (w', Inr es)"
  shows "\<forall>e \<in> set es. tid e = Some t \<and> p e"
proof -
  let ?pd = "with_handler_mixin tid (Some t) base pd"
  have r: "\<not> is_system_tenant (Some t)" "require_tenant (Some t) = Inr t"
    using assms(2) by (simp_all add: is_system_tenant_def require_tenant_def get_current_tenant_def)
  obtain h :: handler_entry where "with_uow ?pd (he_source h) uow (\<lambda>u. pd_fetch_spec ?pd (he_handler h) (Composable p) u) w = (w', Inr es)"
    using assms(3,4) by (auto simp: mt_fetch_def r fetch_def search_result_for_specification_def split: option.splits)
  then obtain u w1 w2 where "pd_fetch_spec ?pd (he_handler h) (Composable p) u w1 = (w2, Inr es)" by (rule with_uow_result)
  then have "base (he_handler h) (OneSpec (Composable (\<lambda>e. build_tenant_specification tid t e \<and> p e))) u w1 = (w2, Inr es)"
    by (simp add: with_handler_mixin_def mt_fetch_spec_def r compose_specifications_def)
  then have "list_all (spec_pred (Composable (\<lambda>e. build_tenant_specification tid t e \<and> p e))) es" using assms(1) by blast
  then show ?thesis by (simp add: list_all_iff build_tenant_specification_def)
qed

section \<open>Ownership of writes\<close>

text \<open>
  a write stamps the entity and the metadata of every event with the tenant of the context before the dispatcher of
  the base class gets them.
\<close>

theorem apply_stamps_tenant:
  assumes "ec_has_tenant_id ec entity" "ec_with_tenant ec t entity = Inr entity'"
    and "\<forall>ev \<in> set evs. vc_metadata vc ev = MetadataDict (meta ev)"
  shows "mt_pd_apply ec vc (Some t) pd entity uow (Some evs) w =
    pd_apply pd entity' uow (Some (map (\<lambda>ev. vc_put vc (AList.update ''tenant_id'' (JStr t) (meta ev)) ev) evs)) w"
proof -
  have "inject_tenant_into_events vc t evs = Inr (map (\<lambda>ev. vc_put vc (AList.update ''tenant_id'' (JStr t) (meta ev)) ev) evs)"
    unfolding inject_tenant_into_events_def using assms(3) by (intro traverse_all_Inr) (simp add: inject_tenant_into_one_def)
  then show ?thesis
    using assms by (simp add: mt_pd_apply_def stamp_and_write_def require_tenant_def get_current_tenant_def set_tenant_on_entity_def)
qed

text \<open>
  a write of the system tenant takes the entity away from its owner: it is stored under the name of the system tenant
  and no specification of the former owner finds it.
\<close>

theorem system_write_takes_ownership:
  assumes "ec_has_tenant_id ec entity" "ec_with_tenant ec SYSTEM_TENANT entity = Inr entity'" "tid entity' = Some SYSTEM_TENANT"
    and "t \<noteq> SYSTEM_TENANT"
  shows "mt_pd_apply ec vc (Some SYSTEM_TENANT) pd entity uow None w = pd_apply pd entity' uow None w
    \<and> \<not> spec_pred (combined_spec tid t spec) entity'"
  using assms combined_spec_owned [of tid t spec entity']
  by (auto simp: mt_pd_apply_def stamp_and_write_def require_tenant_def get_current_tenant_def set_tenant_on_entity_def)

lemma unsettable_entity_keeps_owner:
  assumes "ec_has_tenant_id ec entity" "ec_with_tenant ec t entity = Inl (AttributeError m)"
  shows "mt_pd_apply ec vc (Some t) pd entity uow None w = pd_apply pd entity uow None w"
  using assms by (simp add: mt_pd_apply_def stamp_and_write_def require_tenant_def get_current_tenant_def set_tenant_on_entity_def
      is_attribute_or_type_error_def)

lemma handler_mixin_refuses_other_metadata:
  assumes "ec_has_tenant_id ec entity" "ec_with_tenant ec t entity = Inr entity'" "vc_metadata vc ev = OtherMetadata"
  shows "mt_persist ec vc (Some t) persist_entity entity uow (Some [ev]) w = (w, Inl (TypeError ''object does not support item assignment''))"
  using assms by (simp add: mt_persist_def stamp_and_write_def require_tenant_def get_current_tenant_def set_tenant_on_entity_def
      stamp_event_def)

text \<open>Both mixins together filter once more by the same tenant, which changes nothing.\<close>

lemma mixins_compose:
  "spec_pred (combined_spec tid t (Some (combined_spec tid t spec))) = spec_pred (combined_spec tid t spec)"
  by (auto simp: combined_spec_def compose_specs_def split: option.splits any_spec.splits)

section \<open>A concrete dispatcher\<close>

text \<open>Entities are pairs of an id and an owner, the world is the list of stored entities.\<close>

type_synonym ex_order_entity = "string \<times> string option"

definition ex_select :: "string list \<Rightarrow> ex_order_entity any_spec option \<Rightarrow> ex_order_entity list \<Rightarrow> ex_order_entity list \<times> (exn + ex_order_entity list)" where
  "ex_select ids q w = (w, Inr (filter (\<lambda>e. fst e \<in> set ids \<and> (case q of None \<Rightarrow> True | Some q \<Rightarrow> spec_pred q e)) w))"

definition ex_tenant_dispatcher :: "(ex_order_entity, unit, payload, ex_order_entity any_spec, ex_order_entity list) persistence_dispatcher" where
  "ex_tenant_dispatcher =
     \<lparr>pd_registry = register_query_spec ''Order'' ''H'' ''db'' (register_query_entry ''Order'' ''H'' ''db''
        (register_retrieval ''Order'' ''H'' ''db'' (register_operation ''Order'' ''H'' ''db'' 0 new_persistence_registry))),
      pd_uow_factories = [], pd_type_of = (\<lambda>_. ''Order''),
      pd_persist = (\<lambda>h e u evs w. (w @ [e], Inr (fst e))), pd_retrieve = (\<lambda>h ids u. ex_select ids), pd_fetch_ids = (\<lambda>h ids u. ex_select ids),
      pd_fetch_spec = (\<lambda>h q u w. (w, Inr (filter (spec_pred q) w))), pd_stream_spec = (\<lambda>h q u b w. (w, filter (spec_pred q) w, None))\<rparr>"

definition ex_orders :: "ex_order_entity list" where
  "ex_orders = [(''1'', Some ''acme''), (''2'', Some ''zeta'')]"

definition ex_tenanted :: "ex_order_entity tenanted_class" where
  "ex_tenanted = \<lparr>ec_has_tenant_id = (\<lambda>e. True), ec_with_tenant = (\<lambda>t e. Inr (fst e, Some t))\<rparr>"

definition ex_stamped :: "payload stamped_class" where
  "ex_stamped = \<lparr>vc_metadata = MetadataDict, vc_put = (\<lambda>d ev. d), vc_assign = (\<lambda>d ev. Inr d)\<rparr>"

lemma ex_tenant_dispatcher_honours: "honours_spec ex_tenant_dispatcher"
  by (auto simp: honours_spec_def ex_tenant_dispatcher_def ex_select_def list_all_iff)

lemmas ex_dispatcher_defs = ex_tenant_dispatcher_def ex_select_def register_query_spec_def register_query_entry_def
  register_retrieval_def register_operation_def new_persistence_registry_def get_operation_entries_def get_retrieval_entry_def
  get_query_entry_def get_query_spec_entry_def with_uow_def fetch_domain_def fetch_by_ids_def fetch_def pd_apply_def
  search_result_for_specification_def

theorem dispatcher_reads_isolated_witness:
  "\<forall>w' es. mt_fetch_domain snd (Some ''acme'') ex_tenant_dispatcher ''Order'' [''1'', ''2''] (Some ()) None ex_orders = (w', Inr es)
     \<longrightarrow> (\<forall>e \<in> set es. snd e = Some ''acme'')"
  using dispatcher_reads_isolated [OF ex_tenant_dispatcher_honours, of "''acme''" snd "''Order''" "[''1'', ''2'']" "Some ()" None ex_orders None]
  by (simp add: SYSTEM_TENANT_def)

theorem dispatcher_specification_unfiltered_witness:
  "\<exists>sr. mt_fetch snd (Some ''acme'') ex_tenant_dispatcher ''Order'' (BySpec (Composable (\<lambda>e. True))) (Some ()) None = Inr sr
     \<and> rs_list sr ex_orders = (ex_orders, Inr [(''1'', Some ''acme''), (''2'', Some ''zeta'')])"
  using dispatcher_specification_unfiltered [where ctx = "Some ''acme''" and tid = snd and pd = ex_tenant_dispatcher and ty = "''Order''"
      and q = "Composable (\<lambda>e. True)" and uow = "Some ()" and spec = None]
  by (simp add: ex_dispatcher_defs ex_orders_def)

theorem handler_mixin_filters_specification_witness:
  "\<exists>sr w' es. mt_fetch snd (Some ''acme'')
       (with_handler_mixin snd (Some ''acme'')
         (\<lambda>h c u w. (w, Inr (filter (case c of OneSpec q \<Rightarrow> spec_pred q | AndDict t q \<Rightarrow> t) w))) ex_tenant_dispatcher)
       ''Order'' (BySpec (Composable (\<lambda>e. True))) (Some ()) None = Inr sr
     \<and> rs_list sr ex_orders = (w', Inr es) \<and> (\<forall>e \<in> set es. snd e = Some ''acme'' \<and> True)"
proof -
  let ?base = "\<lambda>h c u w. (w, Inr (filter (case c of OneSpec q \<Rightarrow> spec_pred q | AndDict t q \<Rightarrow> t) w)) :: ex_order_entity list \<times> (exn + ex_order_entity list)"
  let ?pd = "with_handler_mixin snd (Some ''acme'') ?base ex_tenant_dispatcher"
  obtain sr where sr: "mt_fetch snd (Some ''acme'') ?pd ''Order'' (BySpec (Composable (\<lambda>e. True))) (Some ()) None = Inr sr"
    "rs_list sr ex_orders = (ex_orders, Inr [(''1'', Some ''acme'')])"
    by (simp add: mt_fetch_def is_system_tenant_def SYSTEM_TENANT_def require_tenant_def get_current_tenant_def ex_dispatcher_defs
        with_handler_mixin_def mt_fetch_spec_def compose_specifications_def build_tenant_specification_def ex_orders_def)
  have "\<forall>e \<in> set [(''1'', Some ''acme'')]. snd e = Some ''acme'' \<and> True"
    by (rule handler_mixin_filters_specification [OF _ _ sr]) (auto simp: list_all_iff SYSTEM_TENANT_def)
  then show ?thesis using sr by blast
qed

theorem apply_stamps_tenant_witness:
  "mt_pd_apply ex_tenanted ex_stamped (Some ''acme'') ex_tenant_dispatcher (''3'', None) (Some ()) (Some [[]]) ex_orders
     = pd_apply ex_tenant_dispatcher (''3'', Some ''acme'') (Some ()) (Some [[(''tenant_id'', JStr ''acme'')]]) ex_orders"
  using apply_stamps_tenant [where ec = ex_tenanted and vc = ex_stamped and t = "''acme''" and entity = "(''3'', None)"
      and entity' = "(''3'', Some ''acme'')" and evs = "[[]]" and meta = id and pd = ex_tenant_dispatcher and uow = "Some ()" and w = ex_orders]
  by (simp add: ex_tenanted_def ex_stamped_def)

theorem system_write_takes_ownership_witness:
  "mt_pd_apply ex_tenanted ex_stamped (Some SYSTEM_TENANT) ex_tenant_dispatcher (''1'', Some ''acme'') (Some ()) None []
     = ([(''1'', Some ''__system__'')], Inr ''1'')"
  using system_write_takes_ownership [where ec = ex_tenanted and vc = ex_stamped and entity = "(''1'', Some ''acme'')" and tid = snd
      and entity' = "(''1'', Some SYSTEM_TENANT)" and t = "''acme''" and pd = ex_tenant_dispatcher and uow = "Some ()" and w = "[]" and spec = None]
  by (simp add: ex_tenanted_def SYSTEM_TENANT_def ex_dispatcher_defs)

end
