(* ===== verification/ProjectionStores.thy ===== *)
theory ProjectionStores
  imports PyValue
begin

text \<open>
  The stores that projections write their read models to: \<^verbatim>\<open>MongoProjectionStore\<close>
  (persistence/mongo, advanced/projection_store.py) and \<^verbatim>\<open>SQLAlchemyProjectionStore\<close> (persistence/sqlalchemy,
  advanced/projection_store.py).

  The database is a parameter: the operations of a collection, and for SQL the execution of statements.  A statement is
  kept as its parts (table, columns, conflict columns, updated columns), from which the code prints the text.
  Documents are dictionaries of JSON values; \<^verbatim>\<open>model_dump\<close> of a Pydantic model, a dictionary, has happened before.
\<close>

section \<open>Document keys\<close>

datatype doc_id = SimpleId json | KeyId payload | OtherDocId

definition invalid_doc_id :: exn where
  "invalid_doc_id = ValueError ''Invalid doc_id type''"

definition doc_has :: "string \<Rightarrow> payload \<Rightarrow> bool" where
  "doc_has k d \<longleftrightarrow> map_of d k \<noteq> None"

text \<open>\<^verbatim>\<open>d.get("_version", 0)\<close>, compared with an integer.\<close>

definition version_of :: "payload \<Rightarrow> exn + int" where
  "version_of d =
     (case map_of d ''_version'' of
        None \<Rightarrow> Inr 0
      | Some (JInt n) \<Rightarrow> Inr n
      | Some (JBool b) \<Rightarrow> Inr (if b then 1 else 0)
      | Some _ \<Rightarrow> Inl (TypeError ''>= not supported''))"

definition json_of_text :: "string option \<Rightarrow> json" where
  "json_of_text s = (case s of None \<Rightarrow> JNull | Some t \<Rightarrow> JStr t)"

section \<open>MongoDB\<close>

record 'd doc_collection =
  co_find_one :: "payload \<Rightarrow> 'd \<Rightarrow> payload option"
  co_find_ids :: "json list \<Rightarrow> 'd \<Rightarrow> payload list"
  co_find :: "payload \<Rightarrow> int \<Rightarrow> int \<Rightarrow> 'd \<Rightarrow> payload list"
  co_replace_one :: "payload \<Rightarrow> payload \<Rightarrow> 'd \<Rightarrow> 'd \<times> (exn + bool)"
  co_bulk_replace :: "payload list \<Rightarrow> 'd \<Rightarrow> 'd \<times> exn option"
  co_delete_one :: "payload \<Rightarrow> 'd \<Rightarrow> 'd"
  co_delete_all :: "'d \<Rightarrow> 'd"

definition normalize_doc_id :: "doc_id \<Rightarrow> exn + payload" where
  "normalize_doc_id i = (case i of SimpleId v \<Rightarrow> Inr [(''_id'', v)] | KeyId d \<Rightarrow> Inr d | OtherDocId \<Rightarrow> Inl invalid_doc_id)"

definition add_id :: "payload \<Rightarrow> payload" where
  "add_id f = (if \<not> doc_has ''_id'' f \<and> doc_has ''id'' f then AList.update ''_id'' (the (map_of f ''id'')) f else f)"

definition mongo_get :: "'d doc_collection \<Rightarrow> doc_id \<Rightarrow> 'd \<Rightarrow> exn + payload option" where
  "mongo_get co i d = map_sum id (\<lambda>f. co_find_one co (add_id f) d) (normalize_doc_id i)"

definition simple_ids :: "doc_id list \<Rightarrow> json list option" where
  "simple_ids is = (if list_all (\<lambda>i. case i of SimpleId _ \<Rightarrow> True | _ \<Rightarrow> False) is
                    then Some (map (\<lambda>i. case i of SimpleId v \<Rightarrow> v | _ \<Rightarrow> JNull) is) else None)"

text \<open>The rows found, by their key: of several with one key the last.\<close>

definition row_with :: "string \<Rightarrow> payload list \<Rightarrow> json \<Rightarrow> payload option" where
  "row_with key rows v = map_of (rev (map (\<lambda>r. (the (map_of r key), r)) rows)) v"

definition mongo_get_batch :: "'d doc_collection \<Rightarrow> doc_id list \<Rightarrow> 'd \<Rightarrow> exn + payload option list" where
  "mongo_get_batch co is d =
     (if is = [] then Inr []
      else case simple_ids is of
          Some vs \<Rightarrow> (let rows = co_find_ids co vs d in Inr (map (row_with ''_id'' rows) vs))
        | None \<Rightarrow> traverse (\<lambda>i. mongo_get co i d) is)"

definition mongo_find :: "'d doc_collection \<Rightarrow> payload \<Rightarrow> int \<Rightarrow> int \<Rightarrow> 'd \<Rightarrow> payload list" where
  "mongo_find co filter_dict limit offset d = co_find co filter_dict offset limit d"

definition truncate_collection :: "'d doc_collection \<Rightarrow> 'd \<Rightarrow> 'd" where
  "truncate_collection co d = co_delete_all co d"

definition is_duplicate_event :: "'d doc_collection \<Rightarrow> string \<Rightarrow> 'd \<Rightarrow> bool" where
  "is_duplicate_event co event_id d \<longleftrightarrow> co_find_one co [(''_last_event_id'', JStr event_id)] d \<noteq> None"

text \<open>An existing document that is empty is false.\<close>

definition stale_against :: "payload option \<Rightarrow> int \<Rightarrow> exn + bool" where
  "stale_against existing event_position =
     (case existing of
        None \<Rightarrow> Inr False
      | Some doc \<Rightarrow> if doc = [] then Inr False else map_sum id (\<lambda>v. event_position \<le> v) (version_of doc))"

definition mongo_should_skip_stale :: "'d doc_collection \<Rightarrow> payload \<Rightarrow> int \<Rightarrow> 'd \<Rightarrow> exn + bool" where
  "mongo_should_skip_stale co f event_position d = stale_against (co_find_one co f d) event_position"

definition normalize_id_field :: "string \<Rightarrow> payload \<Rightarrow> payload \<Rightarrow> payload" where
  "normalize_id_field id_field f data =
     (let data =
        (if \<not> doc_has ''_id'' data \<and> doc_has ''_id'' f then AList.update ''_id'' (the (map_of f ''_id'')) data
         else if doc_has id_field data \<and> \<not> doc_has ''_id'' data
         then AList.update ''_id'' (the (map_of data id_field)) (AList.delete id_field data)
         else if doc_has ''id'' data \<and> \<not> doc_has ''_id'' data then AList.update ''_id'' (the (map_of data ''id'')) data
         else data)
      in if doc_has id_field data \<and> map_of data ''_id'' \<notin> {None, Some JNull} then AList.delete id_field data else data)"

definition event_metadata_fields :: "int \<Rightarrow> string option \<Rightarrow> payload \<Rightarrow> payload" where
  "event_metadata_fields event_position event_id data =
     AList.update ''_last_event_position'' (JInt event_position)
       (AList.update ''_last_event_id'' (json_of_text event_id) (AList.update ''_version'' (JInt event_position) data))"

definition mongo_upsert ::
  "'d doc_collection \<Rightarrow> string \<Rightarrow> doc_id \<Rightarrow> payload \<Rightarrow> int option \<Rightarrow> string option \<Rightarrow> 'd \<Rightarrow> 'd \<times> (exn + bool)" where
  "mongo_upsert co id_field i data event_position event_id d =
     (case normalize_doc_id i of
        Inl x \<Rightarrow> (d, Inl x)
      | Inr f0 \<Rightarrow>
          (let f = add_id f0
           in if truthy event_id \<and> is_duplicate_event co (the event_id) d then (d, Inr False)
              else case event_position of
                  None \<Rightarrow> co_replace_one co f (normalize_id_field id_field f data) d
                | Some p \<Rightarrow>
                    (case mongo_should_skip_stale co f p d of
                       Inl x \<Rightarrow> (d, Inl x)
                     | Inr True \<Rightarrow> (d, Inr False)
                     | Inr False \<Rightarrow>
                         co_replace_one co f (normalize_id_field id_field f (event_metadata_fields p event_id data)) d)))"

text \<open>A document of a batch: \<^verbatim>\<open>doc.pop(id_field, doc.get("_id"))\<close>.\<close>

definition batch_document :: "string \<Rightarrow> payload \<Rightarrow> exn + payload" where
  "batch_document id_field doc =
     (case (if doc_has id_field doc then map_of doc id_field else map_of doc ''_id'') of
        None \<Rightarrow> Inl (Other ''MongoPersistenceError: Each document must have an id'')
      | Some v \<Rightarrow> if v = JNull then Inl (Other ''MongoPersistenceError: Each document must have an id'')
                  else Inr (AList.update ''_id'' v (AList.delete id_field doc)))"

fun replace_each :: "'d doc_collection \<Rightarrow> payload list \<Rightarrow> 'd \<Rightarrow> 'd \<times> exn option" where
  "replace_each co [] d = (d, None)"
| "replace_each co (doc # docs) d =
     (case co_replace_one co [(''_id'', the (map_of doc ''_id''))] doc d of
        (d, Inl x) \<Rightarrow> (d, Some x)
      | (d, Inr _) \<Rightarrow> replace_each co docs d)"

definition falls_back :: "exn \<Rightarrow> bool" where
  "falls_back x \<longleftrightarrow> x = Other ''NotImplementedError'' \<or> (case x of AttributeError _ \<Rightarrow> True | TypeError _ \<Rightarrow> True | _ \<Rightarrow> False)"

definition mongo_upsert_batch :: "'d doc_collection \<Rightarrow> string \<Rightarrow> payload list \<Rightarrow> 'd \<Rightarrow> 'd \<times> exn option" where
  "mongo_upsert_batch co id_field docs d =
     (case traverse (batch_document id_field) docs of
        Inl x \<Rightarrow> (d, Some x)
      | Inr [] \<Rightarrow> (d, None)
      | Inr ns \<Rightarrow>
          (case co_bulk_replace co ns d of
             (d, None) \<Rightarrow> (d, None)
           | (d, Some x) \<Rightarrow> if falls_back x then replace_each co ns d else (d, Some x)))"

definition mongo_delete :: "'d doc_collection \<Rightarrow> doc_id \<Rightarrow> 'd \<Rightarrow> 'd \<times> exn option" where
  "mongo_delete co i d = (case normalize_doc_id i of Inl x \<Rightarrow> (d, Some x) | Inr f \<Rightarrow> (co_delete_one co f d, None))"

section \<open>SQL\<close>

text \<open>
  \<^verbatim>\<open>^[a-zA-Z_][a-zA-Z0-9_]*$\<close> with \<^verbatim>\<open>match\<close>: the dollar also matches before a newline at the end.
\<close>

definition letter_or_underscore :: "char \<Rightarrow> bool" where
  "letter_or_underscore c \<longleftrightarrow>
     (let n = of_char c :: nat in 65 \<le> n \<and> n \<le> 90 \<or> 97 \<le> n \<and> n \<le> 122 \<or> c = CHR ''_'')"

definition word_char :: "char \<Rightarrow> bool" where
  "word_char c \<longleftrightarrow> letter_or_underscore c \<or> (let n = of_char c :: nat in 48 \<le> n \<and> n \<le> 57)"

definition valid_identifier :: "string \<Rightarrow> bool" where
  "valid_identifier s \<longleftrightarrow>
     (let s = (if s \<noteq> [] \<and> last s = CHR 0x0A then butlast s else s)
      in s \<noteq> [] \<and> letter_or_underscore (hd s) \<and> list_all word_char s)"

definition validate_identifier :: "string \<Rightarrow> string \<Rightarrow> exn + string" where
  "validate_identifier ctx name = (if valid_identifier name then Inr name else Inl (ValueError (''Invalid SQL '' @ ctx)))"

fun validate_columns :: "string list \<Rightarrow> exn + unit" where
  "validate_columns [] = Inr ()"
| "validate_columns (k # ks) = (case validate_identifier ''column name'' k of Inl x \<Rightarrow> Inl x | Inr _ \<Rightarrow> validate_columns ks)"

record sql_statement =
  st_table :: string
  st_columns :: "string list"
  st_rows :: "json option list list"
  st_conflict :: "string list"
  st_updates :: "string list"

text \<open>\<open>sd_close c d d'\<close> closes a session that was opened at \<open>d\<close> and has done work up to \<open>d'\<close>; \<open>c\<close> tells whether it committed.\<close>

record 'd sql_database =
  sd_select :: "string \<Rightarrow> payload \<Rightarrow> int option \<Rightarrow> int \<Rightarrow> 'd \<Rightarrow> payload list"
  sd_select_in :: "string \<Rightarrow> string \<Rightarrow> json list \<Rightarrow> 'd \<Rightarrow> payload list"
  sd_insert :: "sql_statement \<Rightarrow> 'd \<Rightarrow> 'd \<times> exn option"
  sd_delete :: "string \<Rightarrow> payload \<Rightarrow> 'd \<Rightarrow> 'd"
  sd_close :: "bool \<Rightarrow> 'd \<Rightarrow> 'd \<Rightarrow> 'd"

text \<open>The key of a row: the columns and their values.\<close>

definition where_from_doc_id :: "string \<Rightarrow> doc_id \<Rightarrow> exn + payload" where
  "where_from_doc_id id_column i =
     (case i of
        SimpleId v \<Rightarrow> map_sum id (\<lambda>_. [(id_column, v)]) (validate_columns [id_column])
      | KeyId d \<Rightarrow> map_sum id (\<lambda>_. d) (validate_columns (dkeys d))
      | OtherDocId \<Rightarrow> Inl invalid_doc_id)"

definition sql_get :: "'d sql_database \<Rightarrow> string \<Rightarrow> string \<Rightarrow> doc_id \<Rightarrow> 'd \<Rightarrow> exn + payload option" where
  "sql_get sd id_column tbl i d =
     (case validate_identifier ''table name'' tbl of
        Inl x \<Rightarrow> Inl x
      | Inr _ \<Rightarrow>
          map_sum id (\<lambda>key. case sd_select sd tbl key None 0 d of [] \<Rightarrow> None | r # _ \<Rightarrow> if r = [] then None else Some r)
            (where_from_doc_id id_column i))"

definition sql_get_batch :: "'d sql_database \<Rightarrow> string \<Rightarrow> string \<Rightarrow> doc_id list \<Rightarrow> 'd \<Rightarrow> exn + payload option list" where
  "sql_get_batch sd id_column tbl is d =
     (case validate_identifier ''table name'' tbl of
        Inl x \<Rightarrow> Inl x
      | Inr _ \<Rightarrow>
          if is = [] then Inr []
          else case validate_columns [id_column] of
              Inl x \<Rightarrow> Inl x
            | Inr _ \<Rightarrow>
                (case simple_ids is of
                   Some vs \<Rightarrow> (let rows = sd_select_in sd tbl id_column vs d in Inr (map (row_with id_column rows) vs))
                 | None \<Rightarrow> traverse (\<lambda>i. sql_get sd id_column tbl i d) is))"

definition sql_find :: "'d sql_database \<Rightarrow> string \<Rightarrow> payload \<Rightarrow> int \<Rightarrow> int \<Rightarrow> 'd \<Rightarrow> exn + payload list" where
  "sql_find sd tbl filter_dict limit offset d =
     (case validate_identifier ''table name'' tbl of
        Inl x \<Rightarrow> Inl x
      | Inr _ \<Rightarrow> map_sum id (\<lambda>_. sd_select sd tbl filter_dict (Some limit) offset d) (validate_columns (dkeys filter_dict)))"

definition prepare_upsert_data :: "payload \<Rightarrow> doc_id \<Rightarrow> payload" where
  "prepare_upsert_data data i =
     (case i of KeyId d \<Rightarrow> fold (\<lambda>(k, v) acc. AList.update k v acc) d data | _ \<Rightarrow> data)"

definition sql_should_skip ::
  "'d sql_database \<Rightarrow> string \<Rightarrow> string \<Rightarrow> doc_id \<Rightarrow> string option \<Rightarrow> int option \<Rightarrow> 'd \<Rightarrow> exn + bool" where
  "sql_should_skip sd id_column tbl i event_id event_position d =
     (let stale = (case event_position of
            None \<Rightarrow> Inr False
          | Some p \<Rightarrow> (case sql_get sd id_column tbl i d of Inl x \<Rightarrow> Inl x | Inr existing \<Rightarrow> stale_against existing p))
      in if truthy event_id
         then case sql_get sd id_column tbl i d of
             Inl x \<Rightarrow> Inl x
           | Inr (Some row) \<Rightarrow> if map_of row ''_last_event_id'' = Some (JStr (the event_id)) then Inr True else stale
           | Inr None \<Rightarrow> stale
         else stale)"

definition add_event_metadata :: "int option \<Rightarrow> string option \<Rightarrow> payload \<Rightarrow> payload" where
  "add_event_metadata event_position event_id data =
     (let data = (case event_position of None \<Rightarrow> data | Some p \<Rightarrow> AList.update ''_version'' (JInt p) data);
          data = (case event_id of None \<Rightarrow> data | Some e \<Rightarrow> AList.update ''_last_event_id'' (JStr e) data)
      in case event_position of None \<Rightarrow> data | Some p \<Rightarrow> AList.update ''_last_event_position'' (JInt p) data)"

definition version_columns :: "string list" where
  "version_columns = [''_version'', ''_last_event_id'', ''_last_event_position'']"

definition sql_upsert_impl :: "'d sql_database \<Rightarrow> string \<Rightarrow> string \<Rightarrow> doc_id \<Rightarrow> payload \<Rightarrow> 'd \<Rightarrow> 'd \<times> (exn + bool)" where
  "sql_upsert_impl sd id_column tbl i data d =
     (case validate_columns (dkeys data) of
        Inl x \<Rightarrow> (d, Inl x)
      | Inr _ \<Rightarrow>
          (case where_from_doc_id id_column i of
             Inl x \<Rightarrow> (d, Inl x)
           | Inr key \<Rightarrow>
               (case sd_insert sd
                  \<lparr>st_table = tbl, st_columns = dkeys data, st_rows = [map Some (dvalues data)], st_conflict = dkeys key,
                   st_updates = filter (\<lambda>k. k \<notin> set (dkeys key) \<and> k \<notin> set version_columns) (dkeys data)\<rparr> d of
                  (d, Some x) \<Rightarrow> (d, Inl x)
                | (d, None) \<Rightarrow> (d, Inr True))))"

text \<open>\<open>own\<close>: the caller's unit of work has a session; otherwise a new session is opened for the statement.\<close>

definition sql_upsert ::
  "'d sql_database \<Rightarrow> string \<Rightarrow> string \<Rightarrow> bool \<Rightarrow> doc_id \<Rightarrow> payload \<Rightarrow> int option \<Rightarrow> string option \<Rightarrow> 'd \<Rightarrow> 'd \<times> (exn + bool)" where
  "sql_upsert sd id_column tbl own i data event_position event_id d =
     (case validate_identifier ''table name'' tbl of
        Inl x \<Rightarrow> (d, Inl x)
      | Inr _ \<Rightarrow>
          (case sql_should_skip sd id_column tbl i event_id event_position d of
             Inl x \<Rightarrow> (d, Inl x)
           | Inr True \<Rightarrow> (d, Inr False)
           | Inr False \<Rightarrow>
               (let data = add_event_metadata event_position event_id (prepare_upsert_data data i)
                in case sql_upsert_impl sd id_column tbl i data d of
                     (d', r) \<Rightarrow> (if own then d' else sd_close sd False d d', r))))"

fun validate_documents :: "payload list \<Rightarrow> exn + unit" where
  "validate_documents [] = Inr ()"
| "validate_documents (doc # docs) = (case validate_columns (dkeys doc) of Inl x \<Rightarrow> Inl x | Inr _ \<Rightarrow> validate_documents docs)"

definition sql_upsert_batch :: "'d sql_database \<Rightarrow> string \<Rightarrow> bool \<Rightarrow> string \<Rightarrow> payload list \<Rightarrow> 'd \<Rightarrow> 'd \<times> exn option" where
  "sql_upsert_batch sd tbl own id_field docs d =
     (case validate_identifier ''table name'' tbl of
        Inl x \<Rightarrow> (d, Some x)
      | Inr _ \<Rightarrow>
          (case validate_columns [id_field] of
             Inl x \<Rightarrow> (d, Some x)
           | Inr _ \<Rightarrow>
               if docs = [] then (d, None)
               else case validate_documents docs of
                   Inl x \<Rightarrow> (d, Some x)
                 | Inr _ \<Rightarrow>
                     (let cols = dkeys (hd docs)
                      in case sd_insert sd
                           \<lparr>st_table = tbl, st_columns = cols, st_rows = map (\<lambda>doc. map (map_of doc) cols) docs, st_conflict = [id_field],
                            st_updates = filter (\<lambda>k. k \<notin> set version_columns \<and> k \<noteq> id_field) cols\<rparr> d of
                           (d', r) \<Rightarrow> (if own then d' else sd_close sd (r = None) d d', r))))"

definition sql_delete :: "'d sql_database \<Rightarrow> string \<Rightarrow> string \<Rightarrow> bool \<Rightarrow> doc_id \<Rightarrow> 'd \<Rightarrow> 'd \<times> exn option" where
  "sql_delete sd id_column tbl own i d =
     (case validate_identifier ''table name'' tbl of
        Inl x \<Rightarrow> (d, Some x)
      | Inr _ \<Rightarrow>
          (case where_from_doc_id id_column i of
             Inl x \<Rightarrow> (d, Some x)
           | Inr key \<Rightarrow>
               (let d' = sd_delete sd tbl key d in (if own then d' else sd_close sd True d d', None))))"

section \<open>Deliveries in any order\<close>

text \<open>The server as a map from document ids to documents.\<close>

definition mongo_docs :: "'d doc_collection \<Rightarrow> ('d \<Rightarrow> json \<rightharpoonup> payload) \<Rightarrow> bool" where
  "mongo_docs co view \<longleftrightarrow>
     (\<forall>i d. co_find_one co [(''_id'', i)] d = view d i)
     \<and> (\<forall>i doc d. map_of doc ''_id'' = Some i
          \<longrightarrow> (\<exists>d'. co_replace_one co [(''_id'', i)] doc d = (d', Inr True) \<and> view d' = (view d)(i \<mapsto> doc)))
     \<and> (\<forall>e d. co_find_one co [(''_last_event_id'', JStr e)] d \<noteq> None
          \<longleftrightarrow> (\<exists>i doc. view d i = Some doc \<and> map_of doc ''_last_event_id'' = Some (JStr e)))"

lemma mongo_docsD:
  assumes "mongo_docs co view"
  shows "co_find_one co [(''_id'', i)] d = view d i"
    "map_of doc ''_id'' = Some i \<Longrightarrow> \<exists>d'. co_replace_one co [(''_id'', i)] doc d = (d', Inr True) \<and> view d' = (view d)(i \<mapsto> doc)"
    "is_duplicate_event co e d \<longleftrightarrow> (\<exists>i doc. view d i = Some doc \<and> map_of doc ''_last_event_id'' = Some (JStr e))"
  using assms unfolding mongo_docs_def is_duplicate_event_def by simp_all

text \<open>What is stored for a delivery of position, event id and data to the document \<open>i\<close>.\<close>

definition stored_form :: "string \<Rightarrow> json \<Rightarrow> int \<times> string \<times> payload \<Rightarrow> payload" where
  "stored_form id_field i x = normalize_id_field id_field [(''_id'', i)] (event_metadata_fields (fst x) (Some (fst (snd x))) (snd (snd x)))"

definition plain_data :: "string \<Rightarrow> payload \<Rightarrow> bool" where
  "plain_data id_field data \<longleftrightarrow> \<not> doc_has ''_id'' data \<and> id_field \<notin> {''_id'', ''_version'', ''_last_event_id'', ''_last_event_position''}"

lemma stored_form_fields:
  assumes "plain_data id_field data" "i \<noteq> JNull"
  shows "map_of (stored_form id_field i (p, e, data)) ''_id'' = Some i"
    "map_of (stored_form id_field i (p, e, data)) ''_version'' = Some (JInt p)"
    "map_of (stored_form id_field i (p, e, data)) ''_last_event_id'' = Some (JStr e)"
    "k \<notin> {''_id'', ''_version'', ''_last_event_id'', ''_last_event_position'', id_field}
     \<Longrightarrow> map_of (stored_form id_field i (p, e, data)) k = map_of data k"
  using assms
  by (auto simp: stored_form_def normalize_id_field_def event_metadata_fields_def plain_data_def doc_has_def json_of_text_def Let_def)

definition deliver_to :: "'d doc_collection \<Rightarrow> string \<Rightarrow> json \<Rightarrow> int \<times> string \<times> payload \<Rightarrow> 'd \<Rightarrow> 'd" where
  "deliver_to co id_field i x d = fst (mongo_upsert co id_field (SimpleId i) (snd (snd x)) (Some (fst x)) (Some (fst (snd x))) d)"

lemma deliver_to_step:
  assumes "mongo_docs co view" "e \<noteq> []"
  shows "deliver_to co id_field i (p, e, data) d =
    (if is_duplicate_event co e d then d
     else case stale_against (view d i) p of
         Inl x \<Rightarrow> d
       | Inr b \<Rightarrow> if b then d else fst (co_replace_one co [(''_id'', i)] (stored_form id_field i (p, e, data)) d))"
proof -
  have "truthy (Some e)" using assms(2) by (simp add: truthy_def)
  then show ?thesis
    by (simp add: deliver_to_def mongo_upsert_def normalize_doc_id_def add_id_def doc_has_def mongo_should_skip_stale_def
        mongo_docsD(1) [OF assms(1)] stored_form_def Let_def split: sum.splits bool.splits)
qed

text \<open>The state of the collection after some deliveries to document \<open>i\<close>: it is the newest of them.\<close>

definition holds_newest ::
  "('d \<Rightarrow> json \<rightharpoonup> payload) \<Rightarrow> string \<Rightarrow> json \<Rightarrow> (int \<times> string \<times> payload) list \<Rightarrow> 'd \<Rightarrow> 'd \<Rightarrow> bool" where
  "holds_newest view id_field i ds d d' \<longleftrightarrow>
     (\<forall>j. j \<noteq> i \<longrightarrow> view d' j = view d j)
     \<and> (if ds = [] then view d' i = None
        else \<exists>x \<in> set ds. (\<forall>y \<in> set ds. fst y \<le> fst x) \<and> view d' i = Some (stored_form id_field i x))"

lemma deliver_newest:
  assumes m: "mongo_docs co view" and h: "holds_newest view id_field i ds d d'" and i: "i \<noteq> JNull"
    and p: "\<forall>x \<in> set (ds @ [(p, e, data)]). plain_data id_field (snd (snd x)) \<and> fst (snd x) \<noteq> []"
    and u: "\<forall>x \<in> set ds. fst (snd x) = e \<longrightarrow> fst x = p"
    and o: "\<forall>j doc. view d j = Some doc \<and> j \<noteq> i \<longrightarrow> map_of doc ''_last_event_id'' \<noteq> Some (JStr e)"
  shows "holds_newest view id_field i (ds @ [(p, e, data)]) d (deliver_to co id_field i (p, e, data) d')"
proof -
  let ?x = "(p, e, data)"
  have e: "e \<noteq> []" and pd: "plain_data id_field data" using p by auto
  have others: "\<forall>j. j \<noteq> i \<longrightarrow> view d' j = view d j" using h by (simp add: holds_newest_def)
  obtain d'' where w: "co_replace_one co [(''_id'', i)] (stored_form id_field i ?x) d' = (d'', Inr True)"
    "view d'' = (view d')(i \<mapsto> stored_form id_field i ?x)"
    using mongo_docsD(2) [OF m stored_form_fields(1) [OF pd i, where p = p and e = e], of d'] by blast
  have dup: "is_duplicate_event co e d' \<longleftrightarrow> (\<exists>doc. view d' i = Some doc \<and> map_of doc ''_last_event_id'' = Some (JStr e))"
    unfolding mongo_docsD(3) [OF m] using o others by metis
  show ?thesis
  proof (cases "ds = []")
    case True
    then have n: "view d' i = None" using h by (simp add: holds_newest_def)
    then have "deliver_to co id_field i ?x d' = d''" using dup w(1) by (simp add: deliver_to_step [OF m e] stale_against_def)
    then show ?thesis using True w(2) others by (simp add: holds_newest_def)
  next
    case False
    then obtain y where y: "y \<in> set ds" "\<forall>z \<in> set ds. fst z \<le> fst y" "view d' i = Some (stored_form id_field i y)"
      using h by (auto simp: holds_newest_def)
    obtain q e' data' where yq: "y = (q, e', data')" by (rule prod_cases3)
    have pd': "plain_data id_field data'" using p y(1) yq by fastforce
    note f = stored_form_fields [OF pd' i, where p = q and e = e']
    have ne: "stored_form id_field i y \<noteq> []" using f(1) yq by auto
    have st: "stale_against (view d' i) p = Inr (p \<le> q)" using ne f(2) y(3) yq by (simp add: stale_against_def version_of_def)
    have "is_duplicate_event co e d' \<longleftrightarrow> e' = e" using dup f(3) y(3) yq by auto
    moreover have "e' = e \<Longrightarrow> q = p" using u y(1) yq by fastforce
    ultimately have "deliver_to co id_field i ?x d' = (if p \<le> q then d' else d'')"
      using st w(1) by (auto simp: deliver_to_step [OF m e])
    then have dv: "p \<le> q \<Longrightarrow> deliver_to co id_field i ?x d' = d'" "q < p \<Longrightarrow> deliver_to co id_field i ?x d' = d''" by auto
    show ?thesis
    proof (cases "p \<le> q")
      case True
      have "y \<in> set (ds @ [?x])" "\<forall>z \<in> set (ds @ [?x]). fst z \<le> fst y" using y(1,2) True yq by auto
      then show ?thesis using dv(1) [OF True] y(3) others unfolding holds_newest_def by auto
    next
      case False
      then have "\<forall>z \<in> set (ds @ [?x]). fst z \<le> fst ?x" using y(2) yq by force
      then show ?thesis using dv(2) False w(2) others unfolding holds_newest_def by auto
    qed
  qed
qed

lemma deliveries_newest:
  assumes "mongo_docs co view" "view d i = None" "i \<noteq> JNull"
    and "\<forall>x \<in> set ds. plain_data id_field (snd (snd x)) \<and> fst (snd x) \<noteq> []"
    and "\<forall>x \<in> set ds. \<forall>y \<in> set ds. fst (snd x) = fst (snd y) \<longrightarrow> fst x = fst y"
    and "\<forall>j doc. \<forall>x \<in> set ds. view d j = Some doc \<longrightarrow> map_of doc ''_last_event_id'' \<noteq> Some (JStr (fst (snd x)))"
  shows "holds_newest view id_field i ds d (fold (deliver_to co id_field i) ds d)"
  using assms(4-6)
proof (induction ds rule: rev_induct)
  case Nil
  then show ?case using assms(2) by (simp add: holds_newest_def)
next
  case (snoc x ds)
  obtain p e data where x: "x = (p, e, data)" by (rule prod_cases3)
  have "holds_newest view id_field i ds d (fold (deliver_to co id_field i) ds d)"
  proof (rule snoc.IH)
    show "\<forall>x \<in> set ds. plain_data id_field (snd (snd x)) \<and> fst (snd x) \<noteq> []" using snoc.prems(1) by simp
    show "\<forall>x \<in> set ds. \<forall>y \<in> set ds. fst (snd x) = fst (snd y) \<longrightarrow> fst x = fst y"
      by (intro ballI impI) (rule snoc.prems(2) [rule_format], simp_all)
    show "\<forall>j doc. \<forall>x \<in> set ds. view d j = Some doc \<longrightarrow> map_of doc ''_last_event_id'' \<noteq> Some (JStr (fst (snd x)))"
      using snoc.prems(3) by simp
  qed
  then have "holds_newest view id_field i (ds @ [(p, e, data)]) d
      (deliver_to co id_field i (p, e, data) (fold (deliver_to co id_field i) ds d))"
  proof (rule deliver_newest [OF assms(1) _ assms(3)])
    show "\<forall>x \<in> set (ds @ [(p, e, data)]). plain_data id_field (snd (snd x)) \<and> fst (snd x) \<noteq> []"
      using snoc.prems(1) x by simp
    show "\<forall>x \<in> set ds. fst (snd x) = e \<longrightarrow> fst x = p"
      by (intro ballI impI) (use snoc.prems(2) [rule_format, of _ x] x in \<open>simp\<close>)
    show "\<forall>j doc. view d j = Some doc \<and> j \<noteq> i \<longrightarrow> map_of doc ''_last_event_id'' \<noteq> Some (JStr e)"
      using snoc.prems(3) x by auto
  qed
  then show ?case by (simp add: x)
qed

text \<open>
  C22: versioned deliveries to one document of MongoDB may come in any order and any number of times: the document ends up as
  the delivery of the highest position, and no other document is touched.  The events are distinct per position, and no
  other document was last written by one of them.
\<close>

theorem deliveries_converge:
  assumes "mongo_docs co view" "view d i = None" "i \<noteq> JNull" "ds \<noteq> []"
    and "\<forall>x \<in> set ds. plain_data id_field (snd (snd x)) \<and> fst (snd x) \<noteq> []"
    and "\<forall>x \<in> set ds. \<forall>y \<in> set ds. fst (snd x) = fst (snd y) \<longrightarrow> fst x = fst y"
    and "\<forall>j doc. \<forall>x \<in> set ds. view d j = Some doc \<longrightarrow> map_of doc ''_last_event_id'' \<noteq> Some (JStr (fst (snd x)))"
  shows "\<exists>x \<in> set ds. (\<forall>y \<in> set ds. fst y \<le> fst x)
    \<and> view (fold (deliver_to co id_field i) ds d) = (view d)(i \<mapsto> stored_form id_field i x)"
proof -
  note h = deliveries_newest [OF assms(1-3,5-7)]
  then obtain x where x: "x \<in> set ds" "\<forall>y \<in> set ds. fst y \<le> fst x"
    "view (fold (deliver_to co id_field i) ds d) i = Some (stored_form id_field i x)"
    using assms(4) by (auto simp: holds_newest_def)
  have "view (fold (deliver_to co id_field i) ds d) = (view d)(i \<mapsto> stored_form id_field i x)"
    using h x(3) by (auto simp: holds_newest_def)
  then show ?thesis using x(1,2) by blast
qed

text \<open>
  an event that updates two documents of one collection: the check for duplicates looks at the whole collection, so the
  second update is taken for a repetition and dropped.
\<close>

theorem second_document_of_event_dropped:
  assumes "mongo_docs co view" "view d j = Some doc" "map_of doc ''_last_event_id'' = Some (JStr e)" "e \<noteq> []"
  shows "mongo_upsert co id_field (SimpleId i) data event_position (Some e) d = (d, Inr False)"
proof -
  have "is_duplicate_event co e d" unfolding mongo_docsD(3) [OF assms(1)] using assms(2,3) by blast
  then show ?thesis using assms(4) by (simp add: mongo_upsert_def normalize_doc_id_def truthy_def)
qed

text \<open>A key of one field \<^verbatim>\<open>id\<close> asks for a field that upserts remove.\<close>

lemma key_by_id_never_found:
  assumes "\<forall>f d doc. co_find_one co f d = Some doc \<longrightarrow> (\<forall>kv \<in> set f. map_of doc (fst kv) = Some (snd kv))"
    and "\<forall>f doc. co_find_one co f d = Some doc \<longrightarrow> \<not> doc_has ''id'' doc"
  shows "mongo_get co (KeyId [(''id'', v)]) d = Inr None"
proof -
  have "co_find_one co [(''id'', v), (''_id'', v)] d = None"
    using assms by (cases "co_find_one co [(''id'', v), (''_id'', v)] d") (fastforce simp: doc_has_def)+
  then show ?thesis by (simp add: mongo_get_def normalize_doc_id_def add_id_def doc_has_def)
qed

section \<open>Versions in SQL\<close>

text \<open>
  The server keeps the rows of the table \<open>tbl\<close> by their key column.  On a conflict the statement copies the named columns
  of the new row and leaves the others.
\<close>

definition sql_rows :: "'d sql_database \<Rightarrow> string \<Rightarrow> string \<Rightarrow> ('d \<Rightarrow> json \<rightharpoonup> payload) \<Rightarrow> bool" where
  "sql_rows sd tbl idc rows \<longleftrightarrow>
     (\<forall>v d. sd_select sd tbl [(idc, v)] None 0 d = (case rows d v of None \<Rightarrow> [] | Some r \<Rightarrow> [r]))
     \<and> (\<forall>data upd v d. map_of data idc = Some v \<longrightarrow> set upd \<subseteq> set (dkeys data)
          \<longrightarrow> (\<exists>d' r. sd_insert sd \<lparr>st_table = tbl, st_columns = dkeys data, st_rows = [map Some (dvalues data)], st_conflict = [idc],
                               st_updates = upd\<rparr> d = (d', None)
                \<and> rows d' = (rows d)(v \<mapsto> r)
                \<and> (case rows d v of
                     None \<Rightarrow> (\<forall>k \<in> set (dkeys data). map_of r k = map_of data k)
                   | Some old \<Rightarrow> (\<forall>k. map_of r k = (if k \<in> set upd then map_of data k else map_of old k)))))"

lemma sql_rowsD:
  assumes "sql_rows sd tbl idc rows"
  shows "sd_select sd tbl [(idc, v)] None 0 d = (case rows d v of None \<Rightarrow> [] | Some r \<Rightarrow> [r])"
    "map_of data idc = Some v \<Longrightarrow> set upd \<subseteq> set (dkeys data)
     \<Longrightarrow> \<exists>d' r. sd_insert sd \<lparr>st_table = tbl, st_columns = dkeys data, st_rows = [map Some (dvalues data)], st_conflict = [idc],
                       st_updates = upd\<rparr> d = (d', None)
        \<and> rows d' = (rows d)(v \<mapsto> r)
        \<and> (case rows d v of
             None \<Rightarrow> (\<forall>k \<in> set (dkeys data). map_of r k = map_of data k)
           | Some old \<Rightarrow> (\<forall>k. map_of r k = (if k \<in> set upd then map_of data k else map_of old k)))"
  using assms unfolding sql_rows_def by simp_all

text \<open>A row of a projection: its key, valid column names, and none of the version columns.\<close>

definition row_data :: "string \<Rightarrow> json \<Rightarrow> payload \<Rightarrow> bool" where
  "row_data idc v data \<longleftrightarrow>
     map_of data idc = Some v \<and> (\<forall>k \<in> set (dkeys data). valid_identifier k) \<and> set (dkeys data) \<inter> set version_columns = {}"

definition written :: "payload \<Rightarrow> int \<Rightarrow> string \<Rightarrow> payload" where
  "written data p e = add_event_metadata (Some p) (Some e) data"

lemma validate_columns_ok: "(\<forall>k \<in> set ks. valid_identifier k) \<Longrightarrow> validate_columns ks = Inr ()"
  by (induction ks) (simp_all add: validate_identifier_def)

lemma version_columns_valid: "k \<in> set version_columns \<Longrightarrow> valid_identifier k"
  by (auto simp: version_columns_def valid_identifier_def letter_or_underscore_def word_char_def)

lemma written_fields:
  assumes "row_data idc v data"
  shows "map_of (written data p e) idc = Some v" "map_of (written data p e) ''_version'' = Some (JInt p)"
    "map_of (written data p e) ''_last_event_id'' = Some (JStr e)"
    "set (dkeys (written data p e)) = set (dkeys data) \<union> set version_columns"
    "k \<in> set (dkeys data) \<Longrightarrow> map_of (written data p e) k = map_of data k"
proof -
  have "map_of data idc = Some v" using assms by (simp add: row_data_def)
  then have v: "idc \<in> set (dkeys data)" by (metis fst_conv image_eqI list.set_map map_of_SomeD)
  then have n: "idc \<notin> set version_columns" using assms by (auto simp: row_data_def)
  show "map_of (written data p e) ''_version'' = Some (JInt p)" "map_of (written data p e) ''_last_event_id'' = Some (JStr e)"
    "set (dkeys (written data p e)) = set (dkeys data) \<union> set version_columns"
    by (auto simp: written_def add_event_metadata_def version_columns_def)
  show k: "map_of (written data p e) k = map_of data k" if "k \<in> set (dkeys data)" for k
  proof -
    have "k \<notin> set version_columns" using assms that by (auto simp: row_data_def)
    then show ?thesis by (simp add: written_def add_event_metadata_def version_columns_def)
  qed
  show "map_of (written data p e) idc = Some v" using k [OF v] assms by (simp add: row_data_def)
qed

text \<open>The statement that an accepted upsert runs.\<close>

lemma sql_upsert_impl_runs:
  assumes "sql_rows sd tbl idc rows" "row_data idc v data" "valid_identifier idc"
  obtains d' r where "sql_upsert_impl sd idc tbl (SimpleId v) (written data p e) d = (d', Inr True)" "rows d' = (rows d)(v \<mapsto> r)"
    "\<And>k. k \<in> set (dkeys data) \<Longrightarrow> k \<noteq> idc \<Longrightarrow> map_of r k = map_of data k"
    "\<And>k. rows d v = None \<Longrightarrow> k \<in> set version_columns \<Longrightarrow> map_of r k = map_of (written data p e) k"
    "\<And>k old. rows d v = Some old \<Longrightarrow> k \<in> set version_columns \<Longrightarrow> map_of r k = map_of old k"
proof -
  let ?w = "written data p e"
  let ?upd = "filter (\<lambda>k. k \<notin> set [idc] \<and> k \<notin> set version_columns) (dkeys ?w)"
  note f = written_fields [OF assms(2), where p = p and e = e]
  have vc: "validate_columns (dkeys ?w) = Inr ()"
    by (rule validate_columns_ok) (use assms(2) f(4) version_columns_valid in \<open>auto simp: row_data_def\<close>)
  have vi: "validate_columns [idc] = Inr ()" using assms(3) by (intro validate_columns_ok) simp
  have sub: "set ?upd \<subseteq> set (dkeys ?w)" by (rule filter_is_subset)
  obtain d' r where ins: "sd_insert sd \<lparr>st_table = tbl, st_columns = dkeys ?w, st_rows = [map Some (dvalues ?w)], st_conflict = [idc],
                             st_updates = ?upd\<rparr> d = (d', None)" "rows d' = (rows d)(v \<mapsto> r)"
    and r: "case rows d v of None \<Rightarrow> (\<forall>k \<in> set (dkeys ?w). map_of r k = map_of ?w k)
         | Some old \<Rightarrow> (\<forall>k. map_of r k = (if k \<in> set ?upd then map_of ?w k else map_of old k))"
    using sql_rowsD(2) [OF assms(1) f(1) sub, of d] by blast
  have "sql_upsert_impl sd idc tbl (SimpleId v) ?w d = (d', Inr True)"
    using ins(1) vc vi by (simp add: sql_upsert_impl_def where_from_doc_id_def)
  moreover have "map_of r k = map_of data k" if "k \<in> set (dkeys data)" "k \<noteq> idc" for k
  proof -
    have "k \<in> set (dkeys ?w)" "k \<in> set ?upd" using that f(4) assms(2) by (auto simp: row_data_def)
    then show ?thesis using r f(5) [OF that(1)] by (auto split: option.splits)
  qed
  ultimately show thesis
    using that [of d' r] ins(2) r f(4) by (auto split: option.splits)
qed

lemma sql_upsert_accepts:
  assumes "sql_rows sd tbl idc rows" "row_data idc v data" "valid_identifier idc" "valid_identifier tbl" "e \<noteq> []"
    and "\<forall>old. rows d v = Some old \<longrightarrow> old \<noteq> [] \<and> map_of old ''_last_event_id'' \<noteq> Some (JStr e)
          \<and> (\<exists>q. map_of old ''_version'' = Some (JInt q) \<and> q < p)"
  shows "sql_upsert sd idc tbl True (SimpleId v) data (Some p) (Some e) d = sql_upsert_impl sd idc tbl (SimpleId v) (written data p e) d"
proof -
  have g: "sql_get sd idc tbl (SimpleId v) d = Inr (rows d v)"
    using assms(3,4,6) by (auto simp: sql_get_def validate_identifier_def where_from_doc_id_def sql_rowsD(1) [OF assms(1)]
        split: option.splits)
  have "stale_against (rows d v) p = Inr False"
    using assms(6) by (auto simp: stale_against_def version_of_def split: option.splits)
  then have "sql_should_skip sd idc tbl (SimpleId v) (Some e) (Some p) d = Inr False"
    using g assms(6) by (auto simp: sql_should_skip_def Let_def split: option.splits)
  then show ?thesis
    using assms(4) by (simp add: sql_upsert_def validate_identifier_def prepare_upsert_data_def written_def Let_def
        split: prod.splits)
qed

text \<open>
  the update of an existing row leaves its version columns as the first event wrote them, so that later versions are not
  remembered: after events at positions \<open>p1\<close> and \<open>p2\<close> an event at a position between them is accepted and its data
  replace the newer ones.
\<close>

theorem sql_stale_event_overwrites_newer:
  assumes "sql_rows sd tbl idc rows" "valid_identifier idc" "valid_identifier tbl" "rows d v = None"
    and "row_data idc v a" "row_data idc v b" "row_data idc v c" "p1 < p3" "p3 < p2"
    and "e1 \<noteq> []" "e2 \<noteq> []" "e3 \<noteq> []" "e2 \<noteq> e1" "e3 \<noteq> e1"
  shows "\<exists>d1 d2 d3 r. sql_upsert sd idc tbl True (SimpleId v) a (Some p1) (Some e1) d = (d1, Inr True)
    \<and> sql_upsert sd idc tbl True (SimpleId v) b (Some p2) (Some e2) d1 = (d2, Inr True)
    \<and> sql_upsert sd idc tbl True (SimpleId v) c (Some p3) (Some e3) d2 = (d3, Inr True)
    \<and> rows d3 v = Some r \<and> (\<forall>k \<in> set (dkeys c). k \<noteq> idc \<longrightarrow> map_of r k = map_of c k) \<and> map_of r ''_version'' = Some (JInt p1)"
proof -
  have vk: "''_version'' \<in> set version_columns" "''_last_event_id'' \<in> set version_columns" by (simp_all add: version_columns_def)
  obtain d1 r1 where 1: "sql_upsert_impl sd idc tbl (SimpleId v) (written a p1 e1) d = (d1, Inr True)" "rows d1 = (rows d)(v \<mapsto> r1)"
    "\<And>k. k \<in> set version_columns \<Longrightarrow> map_of r1 k = map_of (written a p1 e1) k"
    by (rule sql_upsert_impl_runs [OF assms(1,5,2), of p1 e1 d]) (use assms(4) in blast)
  have v1: "map_of r1 ''_version'' = Some (JInt p1)" "map_of r1 ''_last_event_id'' = Some (JStr e1)"
    using 1(3) [OF vk(1)] 1(3) [OF vk(2)] written_fields [OF assms(5), where p = p1 and e = e1] by simp_all
  obtain d2 r2 where 2: "sql_upsert_impl sd idc tbl (SimpleId v) (written b p2 e2) d1 = (d2, Inr True)" "rows d2 = (rows d1)(v \<mapsto> r2)"
    "\<And>k. k \<in> set version_columns \<Longrightarrow> map_of r2 k = map_of r1 k"
    by (rule sql_upsert_impl_runs [OF assms(1,6,2), of p2 e2 d1]) (use 1(2) in \<open>simp\<close>)
  obtain d3 r3 where 3: "sql_upsert_impl sd idc tbl (SimpleId v) (written c p3 e3) d2 = (d3, Inr True)" "rows d3 = (rows d2)(v \<mapsto> r3)"
    "\<And>k. k \<in> set (dkeys c) \<Longrightarrow> k \<noteq> idc \<Longrightarrow> map_of r3 k = map_of c k" "\<And>k. k \<in> set version_columns \<Longrightarrow> map_of r3 k = map_of r2 k"
    by (rule sql_upsert_impl_runs [OF assms(1,7,2), of p3 e3 d2]) (use 2(2) in \<open>simp\<close>)
  have v2: "map_of r2 ''_version'' = Some (JInt p1)" "map_of r2 ''_last_event_id'' = Some (JStr e1)" using 2(3) vk v1 by simp_all
  have u1: "sql_upsert sd idc tbl True (SimpleId v) a (Some p1) (Some e1) d = (d1, Inr True)"
    unfolding 1(1) [symmetric] by (rule sql_upsert_accepts [OF assms(1,5,2,3,10)]) (simp add: assms(4))
  have u2: "sql_upsert sd idc tbl True (SimpleId v) b (Some p2) (Some e2) d1 = (d2, Inr True)"
    unfolding 2(1) [symmetric]
    by (rule sql_upsert_accepts [OF assms(1,6,2,3,11)]) (use 1(2) v1 assms(8,9,13) in \<open>auto\<close>)
  have u3: "sql_upsert sd idc tbl True (SimpleId v) c (Some p3) (Some e3) d2 = (d3, Inr True)"
    unfolding 3(1) [symmetric]
    by (rule sql_upsert_accepts [OF assms(1,7,2,3,12)]) (use 2(2) v2 assms(8,14) in \<open>auto\<close>)
  have "map_of r3 ''_version'' = Some (JInt p1)" using 3(4) [OF vk(1)] v2(1) by simp
  then show ?thesis using u1 u2 u3 3(2,3) by auto
qed

text \<open>
  an upsert outside a unit of work opens a session of its own and never commits it: it reports success and the database
  stays as it was.
\<close>

theorem sql_upsert_without_uow_is_lost:
  assumes "\<forall>d d'. sd_close sd False d d' = d"
  shows "fst (sql_upsert sd idc tbl False i data p e d) = d"
  using assms by (auto simp: sql_upsert_def Let_def split: sum.splits bool.splits prod.splits)

section \<open>Names in SQL\<close>

definition names_ok :: "sql_statement \<Rightarrow> bool" where
  "names_ok st \<longleftrightarrow> valid_identifier (st_table st) \<and> (\<forall>k \<in> set (st_columns st @ st_conflict st @ st_updates st). valid_identifier k)"

definition key_ok :: "string \<Rightarrow> payload \<Rightarrow> bool" where
  "key_ok tbl key \<longleftrightarrow> valid_identifier tbl \<and> (\<forall>k \<in> set (dkeys key). valid_identifier k)"

text \<open>A database that refuses every statement with a name that is no identifier.\<close>

definition refusing :: "'d sql_database \<Rightarrow> 'd sql_database" where
  "refusing sd = sd\<lparr>sd_select := (\<lambda>tbl key l n d. if key_ok tbl key then sd_select sd tbl key l n d else []),
     sd_select_in := (\<lambda>tbl c vs d. if key_ok tbl [(c, JNull)] then sd_select_in sd tbl c vs d else []),
     sd_insert := (\<lambda>st d. if names_ok st then sd_insert sd st d else (d, Some (Other ''refused''))),
     sd_delete := (\<lambda>tbl key d. if key_ok tbl key then sd_delete sd tbl key d else d)\<rparr>"

lemma validate_columns_iff: "validate_columns ks = Inr u \<longleftrightarrow> (\<forall>k \<in> set ks. valid_identifier k)"
  by (induction ks) (auto simp: validate_identifier_def)

lemma validate_columns_Inl: "validate_columns ks = Inl x \<Longrightarrow> \<exists>k \<in> set ks. \<not> valid_identifier k"
  using validate_columns_ok [of ks] by auto

lemma map_sum_Inr_iff: "map_sum id f r = Inr y \<longleftrightarrow> (\<exists>x. r = Inr x \<and> y = f x)"
  by (cases r) auto

lemma where_key_ok: "valid_identifier tbl \<Longrightarrow> where_from_doc_id idc i = Inr key \<Longrightarrow> key_ok tbl key"
  by (cases i) (auto simp: where_from_doc_id_def key_ok_def map_sum_Inr_iff validate_columns_iff simp del: validate_columns.simps)

lemma sql_get_refusing [simp]: "sql_get (refusing sd) idc tbl i d = sql_get sd idc tbl i d"
  using where_key_ok [of tbl idc i]
  by (auto simp: sql_get_def validate_identifier_def refusing_def split: sum.splits) (cases "where_from_doc_id idc i"; simp)

lemma validate_documents_iff:
  "validate_documents docs = Inr u \<longleftrightarrow> (\<forall>doc \<in> set docs. \<forall>k \<in> set (dkeys doc). valid_identifier k)"
  by (induction docs) (auto simp: validate_columns_iff dest!: validate_columns_Inl split: sum.splits)

text \<open>
  only valid identifiers get into the text of statements: on a database that refuses all others every operation of the
  store behaves the same.
\<close>

theorem only_valid_names_reach_sql:
  "sql_get (refusing sd) idc tbl i d = sql_get sd idc tbl i d
   \<and> sql_find (refusing sd) tbl flt l n d = sql_find sd tbl flt l n d
   \<and> sql_upsert (refusing sd) idc tbl own i data p e d = sql_upsert sd idc tbl own i data p e d
   \<and> sql_upsert_batch (refusing sd) tbl own idf docs d = sql_upsert_batch sd tbl own idf docs d
   \<and> sql_delete (refusing sd) idc tbl own i d = sql_delete sd idc tbl own i d"
proof -
  have close: "sd_close (refusing sd) = sd_close sd" by (simp add: refusing_def)
  have skip: "sql_should_skip (refusing sd) idc tbl i e p d = sql_should_skip sd idc tbl i e p d"
    by (simp add: sql_should_skip_def Let_def cong: option.case_cong sum.case_cong)
  have impl: "valid_identifier tbl \<Longrightarrow> sql_upsert_impl (refusing sd) idc tbl i x d = sql_upsert_impl sd idc tbl i x d" for x
    using where_key_ok [of tbl idc i]
    by (auto simp: sql_upsert_impl_def refusing_def names_ok_def key_ok_def validate_columns_iff dest!: validate_columns_Inl split: sum.splits)
  have find: "sql_find (refusing sd) tbl flt l n d = sql_find sd tbl flt l n d"
    by (cases "validate_columns (dkeys flt)")
      (auto simp: sql_find_def validate_identifier_def refusing_def key_ok_def validate_columns_iff)
  have up: "sql_upsert (refusing sd) idc tbl own i data p e d = sql_upsert sd idc tbl own i data p e d"
    by (cases "valid_identifier tbl") (simp_all add: sql_upsert_def validate_identifier_def skip impl close Let_def split: sum.splits bool.splits prod.splits)
  have batch: "sql_upsert_batch (refusing sd) tbl own idf docs d = sql_upsert_batch sd tbl own idf docs d"
    by (cases docs) (auto simp: sql_upsert_batch_def validate_identifier_def names_ok_def refusing_def validate_columns_iff
        validate_documents_iff Let_def dest!: validate_columns_Inl split: sum.splits)
  have del: "sql_delete (refusing sd) idc tbl own i d = sql_delete sd idc tbl own i d"
    using where_key_ok [of tbl idc i] by (auto simp: sql_delete_def validate_identifier_def refusing_def Let_def split: sum.splits)
  show ?thesis using find up batch del by simp
qed

lemma valid_identifier_chars: "valid_identifier s \<Longrightarrow> c \<in> set s \<Longrightarrow> word_char c \<or> c = CHR 0x0A"
  by (cases s rule: rev_cases) (auto simp: valid_identifier_def list_all_iff Let_def split: if_splits)

section \<open>Concrete databases\<close>

text \<open>A collection as a map from ids to documents; a table of one key column \<^verbatim>\<open>id\<close> as a map from keys to rows.\<close>

definition map_collection :: "(json \<rightharpoonup> payload) doc_collection" where
  "map_collection =
     \<lparr>co_find_one = (\<lambda>f d. case f of
         [(k, v)] \<Rightarrow> if k = ''_id'' then d v
                    else if \<exists>i doc. d i = Some doc \<and> map_of doc k = Some v then Some [] else None
       | _ \<Rightarrow> None),
      co_find_ids = (\<lambda>vs d. []), co_find = (\<lambda>f n l d. []),
      co_replace_one = (\<lambda>f doc d. (d(the (map_of doc ''_id'') \<mapsto> doc), Inr True)),
      co_bulk_replace = (\<lambda>docs d. (d, Some (TypeError ''bulk''))), co_delete_one = (\<lambda>f d. d), co_delete_all = (\<lambda>d. Map.empty)\<rparr>"

lemma map_collection_docs: "mongo_docs map_collection id"
  by (simp add: mongo_docs_def map_collection_def)

definition ex_delivery :: "nat \<Rightarrow> int \<times> string \<times> payload" where
  "ex_delivery p = (int p, replicate p (CHR ''e''), [(''total'', JInt (10 * int p))])"

theorem deliveries_converge_witness:
  "\<exists>x \<in> set [ex_delivery 2, ex_delivery 3, ex_delivery 1, ex_delivery 3]. (\<forall>y \<in> set [ex_delivery 2, ex_delivery 3, ex_delivery 1, ex_delivery 3]. fst y \<le> fst x)
     \<and> fold (deliver_to map_collection ''id'' (JStr ''a'')) [ex_delivery 2, ex_delivery 3, ex_delivery 1, ex_delivery 3] Map.empty
       = [JStr ''a'' \<mapsto> stored_form ''id'' (JStr ''a'') x]"
  using deliveries_converge [OF map_collection_docs, where d = Map.empty and i = "JStr ''a''" and id_field = "''id''"
      and ds = "[ex_delivery 2, ex_delivery 3, ex_delivery 1, ex_delivery 3]"]
  by (simp add: ex_delivery_def plain_data_def doc_has_def numeral_eq_Suc)

theorem second_document_of_event_dropped_witness:
  "mongo_upsert map_collection ''id'' (SimpleId (JStr ''b'')) [(''total'', JInt 5)] (Some 7) (Some ''e'')
     [JStr ''a'' \<mapsto> [(''_id'', JStr ''a''), (''_last_event_id'', JStr ''e'')]]
   = ([JStr ''a'' \<mapsto> [(''_id'', JStr ''a''), (''_last_event_id'', JStr ''e'')]], Inr False)"
  using second_document_of_event_dropped [OF map_collection_docs, where j = "JStr ''a''" and i = "JStr ''b''" and e = "''e''"
      and d = "[JStr ''a'' \<mapsto> [(''_id'', JStr ''a''), (''_last_event_id'', JStr ''e'')]]"
      and doc = "[(''_id'', JStr ''a''), (''_last_event_id'', JStr ''e'')]" and id_field = "''id''"
      and data = "[(''total'', JInt 5)]" and event_position = "Some 7"]
  by simp

fun copy_columns :: "string list \<Rightarrow> payload \<Rightarrow> payload \<Rightarrow> payload" where
  "copy_columns [] data r = r"
| "copy_columns (k # ks) data r = copy_columns ks data (case map_of data k of None \<Rightarrow> r | Some v \<Rightarrow> AList.update k v r)"

lemma map_of_copy_columns:
  "set ks \<subseteq> set (dkeys data) \<Longrightarrow> map_of (copy_columns ks data r) k = (if k \<in> set ks then map_of data k else map_of r k)"
proof (induction ks data r rule: copy_columns.induct)
  case (2 a ks data r)
  have "map_of data a \<noteq> None" using 2(2) by (simp add: map_of_eq_None_iff)
  then obtain v where "map_of data a = Some v" by blast
  then show ?case using 2 by auto
qed simp

definition map_table :: "(json \<rightharpoonup> payload) sql_database" where
  "map_table =
     \<lparr>sd_select = (\<lambda>tbl key l n d. case key of [(k, v)] \<Rightarrow> (case d v of None \<Rightarrow> [] | Some r \<Rightarrow> [r]) | _ \<Rightarrow> []),
      sd_select_in = (\<lambda>tbl c vs d. []),
      sd_insert = (\<lambda>st d. let data = zip (st_columns st) (map the (hd (st_rows st))); v = the (map_of data ''id'')
        in (d(v \<mapsto> (case d v of None \<Rightarrow> data | Some old \<Rightarrow> copy_columns (st_updates st) data old)), None)),
      sd_delete = (\<lambda>tbl key d. d), sd_close = (\<lambda>c d d'. if c then d' else d)\<rparr>"

lemma zip_dict: "zip (map fst d) (map snd d) = d"
  by (simp add: zip_map_fst_snd)

lemma map_table_rows: "sql_rows map_table ''totals'' ''id'' id"
  by (auto simp: sql_rows_def map_table_def Let_def zip_dict comp_def map_of_copy_columns split: option.splits)

definition ex_total :: "int \<Rightarrow> payload" where
  "ex_total n = [(''id'', JStr ''a''), (''total'', JInt n)]"

lemma ex_total_data: "row_data ''id'' (JStr ''a'') (ex_total n)"
  by (simp add: row_data_def ex_total_def version_columns_def valid_identifier_def letter_or_underscore_def word_char_def)

theorem sql_stale_event_overwrites_newer_witness:
  "\<exists>d1 d2 d3 r. sql_upsert map_table ''id'' ''totals'' True (SimpleId (JStr ''a'')) (ex_total 1) (Some 1) (Some ''e1'') Map.empty = (d1, Inr True)
    \<and> sql_upsert map_table ''id'' ''totals'' True (SimpleId (JStr ''a'')) (ex_total 3) (Some 3) (Some ''e3'') d1 = (d2, Inr True)
    \<and> sql_upsert map_table ''id'' ''totals'' True (SimpleId (JStr ''a'')) (ex_total 2) (Some 2) (Some ''e2'') d2 = (d3, Inr True)
    \<and> d3 (JStr ''a'') = Some r \<and> map_of r ''total'' = Some (JInt 2)"
proof -
  have v: "valid_identifier ''id''" "valid_identifier ''totals''"
    by (simp_all add: valid_identifier_def letter_or_underscore_def word_char_def)
  have k: "''total'' \<in> set (dkeys (ex_total 2))" "map_of (ex_total 2) ''total'' = Some (JInt 2)" by (simp_all add: ex_total_def)
  show ?thesis
    using sql_stale_event_overwrites_newer [OF map_table_rows v, of Map.empty "JStr ''a''" "ex_total 1" "ex_total 3" "ex_total 2" 1 2 3 "''e1''" "''e3''" "''e2''"]
      k by (fastforce simp: ex_total_data)
qed

theorem sql_upsert_without_uow_is_lost_witness:
  "sql_upsert map_table ''id'' ''totals'' False (SimpleId (JStr ''a'')) (ex_total 1) (Some 1) (Some ''e1'') Map.empty = (Map.empty, Inr True)"
proof -
  have v: "valid_identifier ''id''" "valid_identifier ''totals''" "valid_identifier ''total''"
    by (simp_all add: valid_identifier_def letter_or_underscore_def word_char_def)
  have "snd (sql_upsert map_table ''id'' ''totals'' False (SimpleId (JStr ''a'')) (ex_total 1) (Some 1) (Some ''e1'') Map.empty) = Inr True"
    using version_columns_valid
    by (simp add: sql_upsert_def sql_should_skip_def sql_get_def sql_upsert_impl_def where_from_doc_id_def validate_identifier_def v
        map_table_def stale_against_def add_event_metadata_def prepare_upsert_data_def ex_total_def version_columns_def Let_def)
  then show ?thesis
    using sql_upsert_without_uow_is_lost [of map_table "''id''" "''totals''" "SimpleId (JStr ''a'')" "ex_total 1" "Some 1" "Some ''e1''" Map.empty]
    by (simp add: map_table_def prod_eq_iff)
qed

end
