(* ===== verification/ProjectionSchemas.thy ===== *)
theory ProjectionSchemas
  imports PyValue
begin

text \<open>
  Declarative schemas of projections and their registry (advanced, projections/schema.py): columns, relationships, JSON
  form, foreign keys and the order in which schemas are initialised.

  A SQLAlchemy column is a record of the attributes that the code sets or reads.  Reading and writing of files and the
  rendering of DDL by SQLAlchemy are left out; a directory of files is the list of their parsed contents.
\<close>

section \<open>Columns and schemas\<close>

datatype column_type = StringType "int option" | IntegerType | DateTimeType bool | OtherType string

record column =
  cl_name :: string
  cl_type :: column_type
  cl_primary_key :: bool
  cl_nullable :: bool
  cl_default :: "string option"
  cl_server_now :: bool
  cl_index :: bool

datatype relationship_type = ONE_TO_MANY | MANY_TO_ONE | MANY_TO_MANY

record projection_relationship =
  rl_name :: string
  rl_type :: relationship_type
  rl_target_schema :: string
  rl_foreign_key :: "string option"
  rl_back_populates :: "string option"
  rl_cascade :: bool

record projection_schema =
  sc_name :: string
  sc_columns :: "column list"
  sc_relationships :: "projection_relationship list"
  sc_indexes :: "json list"
  sc_srid :: int

section \<open>JSON\<close>

definition type_class_name :: "column_type \<Rightarrow> string" where
  "type_class_name ty = (case ty of StringType _ \<Rightarrow> ''String'' | IntegerType \<Rightarrow> ''Integer'' | DateTimeType _ \<Rightarrow> ''DateTime'' | OtherType n \<Rightarrow> n)"

definition nullable_text :: "string option \<Rightarrow> json" where
  "nullable_text s = (case s of None \<Rightarrow> JNull | Some t \<Rightarrow> JStr t)"

definition column_to_json :: "column \<Rightarrow> json" where
  "column_to_json c = JDict
     [(''name'', JStr (cl_name c)), (''type'', JStr (type_class_name (cl_type c))), (''primary_key'', JBool (cl_primary_key c)),
      (''nullable'', JBool (cl_nullable c)), (''default'', nullable_text (cl_default c))]"

definition relationship_value :: "relationship_type \<Rightarrow> string" where
  "relationship_value ty = (case ty of ONE_TO_MANY \<Rightarrow> ''one_to_many'' | MANY_TO_ONE \<Rightarrow> ''many_to_one'' | MANY_TO_MANY \<Rightarrow> ''many_to_many'')"

definition relationship_to_json :: "projection_relationship \<Rightarrow> json" where
  "relationship_to_json r = JDict
     [(''name'', JStr (rl_name r)), (''type'', JStr (relationship_value (rl_type r))), (''target_schema'', JStr (rl_target_schema r)),
      (''foreign_key'', nullable_text (rl_foreign_key r)), (''back_populates'', nullable_text (rl_back_populates r)), (''cascade'', JBool (rl_cascade r))]"

definition schema_to_json :: "projection_schema \<Rightarrow> json" where
  "schema_to_json s = JDict
     [(''name'', JStr (sc_name s)), (''columns'', JList (map column_to_json (sc_columns s))),
      (''relationships'', JList (map relationship_to_json (sc_relationships s))), (''indexes'', JList (sc_indexes s)), (''srid'', JInt (sc_srid s))]"

text \<open>
  Reading back.  A missing mandatory key raises \<^verbatim>\<open>KeyError\<close>.  Documents in which a value has another JSON type than the
  writer gives it are outside the model, which answers an \<^verbatim>\<open>ArgumentError\<close> for them.
\<close>

definition wrong_type :: exn where
  "wrong_type = Other ''ArgumentError''"

definition text_of :: "json \<Rightarrow> exn + string" where
  "text_of j = (case j of JStr s \<Rightarrow> Inr s | _ \<Rightarrow> Inl wrong_type)"

definition opt_text_of :: "json option \<Rightarrow> exn + string option" where
  "opt_text_of j = (case j of None \<Rightarrow> Inr None | Some JNull \<Rightarrow> Inr None | Some (JStr s) \<Rightarrow> Inr (Some s) | Some _ \<Rightarrow> Inl wrong_type)"

definition flag_of :: "json option \<Rightarrow> bool \<Rightarrow> bool" where
  "flag_of j dflt = (case j of None \<Rightarrow> dflt | Some v \<Rightarrow> json_truthy v)"

definition mandatory :: "string \<Rightarrow> payload \<Rightarrow> exn + json" where
  "mandatory k d = (case map_of d k of None \<Rightarrow> Inl (KeyError k) | Some v \<Rightarrow> Inr v)"

definition column_from_json :: "json \<Rightarrow> exn + column" where
  "column_from_json j =
     (case j of
        JDict d \<Rightarrow>
          (case mandatory ''name'' d of
             Inl x \<Rightarrow> Inl x
           | Inr n \<Rightarrow>
               map_sum id (\<lambda>name.
                 \<lparr>cl_name = name,
                  cl_type = (case map_of d ''type'' of
                      Some (JStr t) \<Rightarrow> if t = ''Integer'' then IntegerType else if t = ''DateTime'' then DateTimeType True else StringType (Some 255)
                    | _ \<Rightarrow> StringType (Some 255)),
                  cl_primary_key = flag_of (map_of d ''primary_key'') False, cl_nullable = flag_of (map_of d ''nullable'') True,
                  cl_default = None, cl_server_now = (map_of d ''type'' = Some (JStr ''DateTime'')), cl_index = False\<rparr>) (text_of n))
      | _ \<Rightarrow> Inl wrong_type)"

definition relationship_type_of :: "json \<Rightarrow> exn + relationship_type" where
  "relationship_type_of j =
     (if j = JStr ''one_to_many'' then Inr ONE_TO_MANY else if j = JStr ''many_to_one'' then Inr MANY_TO_ONE
      else if j = JStr ''many_to_many'' then Inr MANY_TO_MANY else Inl (ValueError ''not a valid RelationshipType''))"

definition relationship_from_json :: "json \<Rightarrow> exn + projection_relationship" where
  "relationship_from_json j =
     (case j of
        JDict d \<Rightarrow>
          (case (mandatory ''name'' d, mandatory ''type'' d, mandatory ''target_schema'' d) of
             (Inl x, _, _) \<Rightarrow> Inl x
           | (Inr _, Inl x, _) \<Rightarrow> Inl x
           | (Inr n, Inr ty, target) \<Rightarrow>
               (case relationship_type_of ty of
                  Inl x \<Rightarrow> Inl x
                | Inr ty \<Rightarrow>
                    (case target of
                       Inl x \<Rightarrow> Inl x
                     | Inr t \<Rightarrow>
                         (case (text_of n, text_of t, opt_text_of (map_of d ''foreign_key''), opt_text_of (map_of d ''back_populates'')) of
                            (Inr n, Inr t, Inr fk, Inr bp) \<Rightarrow>
                              Inr \<lparr>rl_name = n, rl_type = ty, rl_target_schema = t, rl_foreign_key = fk, rl_back_populates = bp,
                                   rl_cascade = flag_of (map_of d ''cascade'') False\<rparr>
                          | _ \<Rightarrow> Inl wrong_type))))
      | _ \<Rightarrow> Inl wrong_type)"

definition list_of :: "json option \<Rightarrow> exn + json list" where
  "list_of j = (case j of None \<Rightarrow> Inr [] | Some (JList xs) \<Rightarrow> Inr xs | Some _ \<Rightarrow> Inl wrong_type)"

definition schema_from_json :: "json \<Rightarrow> exn + projection_schema" where
  "schema_from_json j =
     (case j of
        JDict d \<Rightarrow>
          (case mandatory ''name'' d of
             Inl x \<Rightarrow> Inl x
           | Inr n \<Rightarrow>
               (case list_of (map_of d ''columns'') of
                  Inl x \<Rightarrow> Inl x
                | Inr cs \<Rightarrow>
                    (case traverse column_from_json cs of
                       Inl x \<Rightarrow> Inl x
                     | Inr columns \<Rightarrow>
                         (case list_of (map_of d ''relationships'') of
                            Inl x \<Rightarrow> Inl x
                          | Inr rs \<Rightarrow>
                              (case traverse relationship_from_json rs of
                                 Inl x \<Rightarrow> Inl x
                               | Inr relationships \<Rightarrow>
                                   (case (text_of n, list_of (map_of d ''indexes''), map_of d ''srid'') of
                                      (Inr name, Inr indexes, srid) \<Rightarrow>
                                        (case srid of
                                           None \<Rightarrow> Inr \<lparr>sc_name = name, sc_columns = columns, sc_relationships = relationships, sc_indexes = indexes, sc_srid = 4326\<rparr>
                                         | Some (JInt i) \<Rightarrow>
                                             Inr \<lparr>sc_name = name, sc_columns = columns, sc_relationships = relationships, sc_indexes = indexes, sc_srid = i\<rparr>
                                         | Some _ \<Rightarrow> Inl wrong_type)
                                    | _ \<Rightarrow> Inl wrong_type))))))
      | _ \<Rightarrow> Inl wrong_type)"

definition drop_ddl :: "projection_schema \<Rightarrow> string" where
  "drop_ddl s = ''DROP TABLE IF EXISTS '' @ sc_name s @ '' CASCADE;''"

section \<open>Registry\<close>

type_synonym schema_registry = "(string, projection_schema) dict"

definition register_schema :: "projection_schema \<Rightarrow> schema_registry \<Rightarrow> schema_registry" where
  "register_schema s reg = AList.update (sc_name s) s reg"

definition fk_column_of :: "string \<Rightarrow> column" where
  "fk_column_of name =
     \<lparr>cl_name = name, cl_type = StringType (Some 255), cl_primary_key = False, cl_nullable = False, cl_default = None,
      cl_server_now = False, cl_index = True\<rparr>"

definition add_foreign_key :: "string \<Rightarrow> projection_schema \<Rightarrow> projection_schema" where
  "add_foreign_key fk_column s =
     (if fk_column \<in> set (map cl_name (sc_columns s)) then s else s\<lparr>sc_columns := sc_columns s @ [fk_column_of fk_column]\<rparr>)"

definition foreign_keys :: "projection_schema \<Rightarrow> string list" where
  "foreign_keys s = map (the \<circ> rl_foreign_key) (filter (\<lambda>r. rl_type r = MANY_TO_ONE \<and> truthy (rl_foreign_key r)) (sc_relationships s))"

text \<open>The schemas are registered under their names, so that the lookup in \<^verbatim>\<open>_add_foreign_key\<close> finds the schema itself.\<close>

definition resolve_relationships :: "schema_registry \<Rightarrow> schema_registry" where
  "resolve_relationships reg = map (\<lambda>(n, s). (n, fold add_foreign_key (foreign_keys s) s)) reg"

definition targets_of :: "schema_registry \<Rightarrow> string \<Rightarrow> string list" where
  "targets_of reg name =
     (case map_of reg name of
        None \<Rightarrow> []
      | Some s \<Rightarrow> map rl_target_schema (filter (\<lambda>r. rl_type r = MANY_TO_ONE) (sc_relationships s)))"

text \<open>\<open>n\<close> bounds the depth of the recursion, as the interpreter does.\<close>

fun visit_each :: "(string \<Rightarrow> 's \<Rightarrow> exn + 's) \<Rightarrow> string list \<Rightarrow> 's \<Rightarrow> exn + 's" where
  "visit_each f [] st = Inr st"
| "visit_each f (x # xs) st = (case f x st of Inl e \<Rightarrow> Inl e | Inr st \<Rightarrow> visit_each f xs st)"

fun visit_schema :: "nat \<Rightarrow> schema_registry \<Rightarrow> string \<Rightarrow> string set \<times> string list \<Rightarrow> exn + string set \<times> string list" where
  "visit_schema 0 reg name st = Inl RecursionError"
| "visit_schema (Suc n) reg name (visited, result) =
     (if name \<in> visited then Inr (visited, result)
      else case visit_each (visit_schema n reg) (targets_of reg name) (insert name visited, result) of
          Inl e \<Rightarrow> Inl e
        | Inr (visited, result) \<Rightarrow> Inr (visited, result @ [name]))"

definition get_initialization_order :: "nat \<Rightarrow> schema_registry \<Rightarrow> exn + string list" where
  "get_initialization_order n reg = map_sum id snd (visit_each (visit_schema n reg) (dkeys reg) ({}, []))"

definition registry_to_json :: "nat \<Rightarrow> schema_registry \<Rightarrow> exn + json" where
  "registry_to_json n reg =
     map_sum id (\<lambda>order. JDict [(''schemas'', JList (map schema_to_json (dvalues reg))), (''initialization_order'', JList (map JStr order))])
       (get_initialization_order n reg)"

definition register_documents :: "json list \<Rightarrow> exn + schema_registry" where
  "register_documents docs = map_sum id (\<lambda>ss. fold register_schema ss []) (traverse schema_from_json docs)"

definition registry_from_json :: "json \<Rightarrow> exn + schema_registry" where
  "registry_from_json j =
     (case j of JDict d \<Rightarrow> (case list_of (map_of d ''schemas'') of Inl x \<Rightarrow> Inl x | Inr docs \<Rightarrow> register_documents docs) | _ \<Rightarrow> Inl wrong_type)"

definition load_from_directory :: "json list \<Rightarrow> exn + schema_registry" where
  "load_from_directory docs = map_sum id resolve_relationships (register_documents docs)"

text \<open>\<open>ensure\<close> is \<^verbatim>\<open>writer.ensure_collection\<close>.\<close>

fun ensure_each :: "(string \<Rightarrow> projection_schema \<Rightarrow> 'w \<Rightarrow> 'w \<times> exn option) \<Rightarrow> schema_registry \<Rightarrow> string list \<Rightarrow> 'w \<Rightarrow> 'w \<times> exn option" where
  "ensure_each ensure reg [] w = (w, None)"
| "ensure_each ensure reg (n # ns) w =
     (case map_of reg n of
        None \<Rightarrow> ensure_each ensure reg ns w
      | Some s \<Rightarrow> (case ensure n s w of (w, Some x) \<Rightarrow> (w, Some x) | (w, None) \<Rightarrow> ensure_each ensure reg ns w))"

definition initialize_all ::
  "nat \<Rightarrow> (string \<Rightarrow> projection_schema \<Rightarrow> 'w \<Rightarrow> 'w \<times> exn option) \<Rightarrow> schema_registry \<Rightarrow> 'w \<Rightarrow> 'w \<times> exn option" where
  "initialize_all n ensure reg w = (case get_initialization_order n reg of Inl x \<Rightarrow> (w, Some x) | Inr order \<Rightarrow> ensure_each ensure reg order w)"

definition PROJECTION_VERSION_COLUMNS :: "column list" where
  "PROJECTION_VERSION_COLUMNS =
     [\<lparr>cl_name = ''_version'', cl_type = IntegerType, cl_primary_key = False, cl_nullable = False, cl_default = Some ''ScalarElementColumnDefault(0)'', cl_server_now = False, cl_index = True\<rparr>,
      \<lparr>cl_name = ''_last_event_id'', cl_type = StringType (Some 255), cl_primary_key = False, cl_nullable = True, cl_default = None, cl_server_now = False, cl_index = True\<rparr>,
      \<lparr>cl_name = ''_last_event_position'', cl_type = IntegerType, cl_primary_key = False, cl_nullable = True, cl_default = None, cl_server_now = False, cl_index = False\<rparr>,
      \<lparr>cl_name = ''_updated_at'', cl_type = DateTimeType False, cl_primary_key = False, cl_nullable = True, cl_default = None, cl_server_now = True, cl_index = False\<rparr>]"

definition create_schema ::
  "string \<Rightarrow> column list \<Rightarrow> projection_relationship list option \<Rightarrow> json list option \<Rightarrow> int \<Rightarrow> projection_schema" where
  "create_schema name columns relationships indexes srid =
     \<lparr>sc_name = name, sc_columns = columns @ PROJECTION_VERSION_COLUMNS, sc_relationships = (case relationships of None \<Rightarrow> [] | Some rs \<Rightarrow> rs),
      sc_indexes = (case indexes of None \<Rightarrow> [] | Some is \<Rightarrow> is), sc_srid = srid\<rparr>"

section \<open>Order of initialisation\<close>

definition depends :: "schema_registry \<Rightarrow> (string \<times> string) set" where
  "depends reg = {(n, t). t \<in> set (targets_of reg n)}"

text \<open>Every schema comes after the targets of its many-to-one relationships.\<close>

fun dependencies_first :: "schema_registry \<Rightarrow> string set \<Rightarrow> string list \<Rightarrow> bool" where
  "dependencies_first reg before [] = True"
| "dependencies_first reg before (n # ns) = (set (targets_of reg n) \<subseteq> before \<and> dependencies_first reg (insert n before) ns)"

lemma dependencies_first_append:
  "dependencies_first reg b (xs @ ys) \<longleftrightarrow> dependencies_first reg b xs \<and> dependencies_first reg (b \<union> set xs) ys"
  by (induction xs arbitrary: b) auto

text \<open>A state of the search: the result is in order and the nodes that are visited but not finished lead to the current one.\<close>

definition search_ok :: "schema_registry \<Rightarrow> string set \<times> string list \<Rightarrow> bool" where
  "search_ok reg st \<longleftrightarrow> distinct (snd st) \<and> set (snd st) \<subseteq> fst st \<and> dependencies_first reg {} (snd st)"

definition open_nodes :: "string set \<times> string list \<Rightarrow> string set" where
  "open_nodes st = fst st - set (snd st)"

definition extends :: "string set \<times> string list \<Rightarrow> string set \<times> string list \<Rightarrow> bool" where
  "extends st st' \<longleftrightarrow> open_nodes st' = open_nodes st \<and> set (snd st) \<subseteq> set (snd st') \<and> fst st \<subseteq> fst st'"

lemma extends_refl [simp]: "extends st st"
  by (simp add: extends_def)

lemma extends_trans: "extends a b \<Longrightarrow> extends b c \<Longrightarrow> extends a c"
  by (auto simp: extends_def)

lemma visit_each_search:
  assumes "\<And>x st st'. x \<in> set xs \<Longrightarrow> search_ok reg st \<Longrightarrow> open_nodes st = G \<Longrightarrow> f x st = Inr st'
      \<Longrightarrow> search_ok reg st' \<and> extends st st' \<and> x \<in> set (snd st')"
    and "search_ok reg st" "open_nodes st = G" "visit_each f xs st = Inr st'"
  shows "search_ok reg st' \<and> extends st st' \<and> set xs \<subseteq> set (snd st')"
  using assms
proof (induction xs arbitrary: st)
  case (Cons x xs)
  obtain st1 where 1: "f x st = Inr st1" "visit_each f xs st1 = Inr st'" using Cons.prems(4) by (auto split: sum.splits)
  have a: "search_ok reg st1" "extends st st1" "x \<in> set (snd st1)" using Cons.prems(1) [OF _ Cons.prems(2,3) 1(1)] by simp_all
  have g: "open_nodes st1 = G" using a(2) Cons.prems(3) by (simp add: extends_def)
  have "search_ok reg st' \<and> extends st1 st' \<and> set xs \<subseteq> set (snd st')"
    by (rule Cons.IH [OF _ a(1) g 1(2)]) (rule Cons.prems(1), simp_all)
  then have b: "search_ok reg st'" "extends st1 st'" "set xs \<subseteq> set (snd st')" by simp_all
  have "x \<in> set (snd st')" using a(3) b(2) unfolding extends_def by blast
  then show ?case using b extends_trans [OF a(2) b(2)] by simp
qed simp

lemma visit_schema_search:
  assumes "acyclic (depends reg)" "\<forall>g \<in> open_nodes st. (g, name) \<in> (depends reg)\<^sup>+" "search_ok reg st"
    and "visit_schema n reg name st = Inr st'"
  shows "search_ok reg st' \<and> extends st st' \<and> name \<in> set (snd st')"
  using assms(2-4)
proof (induction n arbitrary: name st st')
  case (Suc n)
  obtain v r where st: "st = (v, r)" by (rule prod.exhaust)
  show ?case
  proof (cases "name \<in> v")
    case True
    have "name \<notin> open_nodes st" using Suc.prems(1) assms(1) by (auto simp: acyclic_def)
    then show ?thesis using True Suc.prems st by (auto simp: open_nodes_def)
  next
    case False
    let ?st = "(insert name v, r)"
    obtain v' r' where in1: "visit_each (visit_schema n reg) (targets_of reg name) ?st = Inr (v', r')" and out: "st' = (v', r' @ [name])"
      using Suc.prems(3) st False by (auto split: sum.splits)
    have ok: "search_ok reg ?st" using Suc.prems(2) st by (auto simp: search_ok_def)
    have nr: "name \<notin> set r" using Suc.prems(2) st False by (auto simp: search_ok_def)
    have op: "open_nodes ?st = insert name (open_nodes st)" using nr by (auto simp: open_nodes_def st)
    have "search_ok reg (v', r') \<and> extends ?st (v', r') \<and> set (targets_of reg name) \<subseteq> set (snd (v', r'))"
    proof (rule visit_each_search [OF _ ok refl in1])
      fix t s s' assume t: "t \<in> set (targets_of reg name)" and s: "search_ok reg s" "open_nodes s = open_nodes ?st" "visit_schema n reg t s = Inr s'"
      have e: "(name, t) \<in> depends reg" using t by (simp add: depends_def)
      have "\<forall>g \<in> open_nodes s. (g, t) \<in> (depends reg)\<^sup>+"
        using Suc.prems(1) e s(2) op by (auto intro: trancl_into_trancl)
      then show "search_ok reg s' \<and> extends s s' \<and> t \<in> set (snd s')" by (rule Suc.IH [OF _ s(1,3)])
    qed
    then have i: "distinct r'" "set r' \<subseteq> v'" "dependencies_first reg {} r'" "v' - set r' = insert name (open_nodes st)"
      "set r \<subseteq> set r'" "insert name v \<subseteq> v'" "set (targets_of reg name) \<subseteq> set r'"
      using op by (auto simp: search_ok_def extends_def open_nodes_def)
    have n: "name \<notin> set r'" using i(4) by auto
    have nv: "name \<notin> open_nodes st" using False by (simp add: open_nodes_def st)
    have "search_ok reg st'" using i n by (auto simp: out search_ok_def dependencies_first_append)
    moreover have "open_nodes st' = open_nodes st" using i(4) nv by (auto simp: out open_nodes_def)
    then have "extends st st'" using i(5,6) by (auto simp: out extends_def st)
    ultimately show ?thesis by (simp add: out)
  qed
qed simp

text \<open>The bound on the depth: each level of the recursion below a registered schema visits one more of them.\<close>

definition unvisited :: "schema_registry \<Rightarrow> string set \<Rightarrow> nat" where
  "unvisited reg visited = card (set (dkeys reg) - visited)"

lemma unvisited_mono: "v \<subseteq> v' \<Longrightarrow> unvisited reg v' \<le> unvisited reg v"
  unfolding unvisited_def by (intro card_mono) auto

lemma unvisited_insert: "name \<in> set (dkeys reg) \<Longrightarrow> name \<notin> v \<Longrightarrow> Suc (unvisited reg (insert name v)) = unvisited reg v"
proof -
  assume a: "name \<in> set (dkeys reg)" "name \<notin> v"
  have e: "set (dkeys reg) - v = insert name (set (dkeys reg) - insert name v)" using a by auto
  show ?thesis unfolding unvisited_def e by (subst card_insert_disjoint) simp_all
qed

lemma targets_unregistered: "name \<notin> set (dkeys reg) \<Longrightarrow> targets_of reg name = []"
  by (simp add: targets_of_def map_of_eq_None_iff [THEN iffD2])

lemma visit_each_total:
  assumes "\<And>x st. x \<in> set xs \<Longrightarrow> v \<subseteq> fst st \<Longrightarrow> \<exists>st'. f x st = Inr st' \<and> fst st \<subseteq> fst st'" "v \<subseteq> fst st"
  shows "\<exists>st'. visit_each f xs st = Inr st' \<and> fst st \<subseteq> fst st'"
  using assms
proof (induction xs arbitrary: st)
  case (Cons x xs)
  obtain st1 where 1: "f x st = Inr st1" "fst st \<subseteq> fst st1" using Cons.prems by (meson list.set_intros(1))
  have "\<exists>st'. visit_each f xs st1 = Inr st' \<and> fst st1 \<subseteq> fst st'" using Cons 1(2) by (meson list.set_intros(2) subset_trans)
  then show ?case using 1 by auto
qed auto

lemma visit_schema_total:
  "unvisited reg (fst st) < n \<Longrightarrow> \<exists>st'. visit_schema n reg name st = Inr st' \<and> fst st \<subseteq> fst st'"
proof (induction n arbitrary: name st)
  case (Suc n)
  obtain v r where st: "st = (v, r)" by (rule prod.exhaust)
  show ?case
  proof (cases "name \<in> v")
    case False
    have "\<exists>st'. visit_each (visit_schema n reg) (targets_of reg name) (insert name v, r) = Inr st' \<and> insert name v \<subseteq> fst st'"
    proof (cases "name \<in> set (dkeys reg)")
      case True
      have "unvisited reg (insert name v) < n" using unvisited_insert [OF True False] Suc.prems st by simp
      then have "\<exists>st'. visit_schema n reg x s = Inr st' \<and> fst s \<subseteq> fst st'" if "insert name v \<subseteq> fst s" for x s
        using Suc.IH [of s x] unvisited_mono [OF that, of reg] by simp
      then show ?thesis using visit_each_total [of "targets_of reg name" "insert name v" "visit_schema n reg" "(insert name v, r)"] by simp
    qed (auto simp: targets_unregistered)
    then show ?thesis using False st by (auto split: sum.splits)
  qed (simp add: st)
qed simp

lemma unvisited_small: "length reg < n \<Longrightarrow> unvisited reg v < n"
  using card_mono [of "set (dkeys reg)" "set (dkeys reg) - v"] card_length [of "dkeys reg"] by (simp add: unvisited_def)

lemma visit_order_exists:
  assumes "length reg < n"
  obtains st where "visit_each (visit_schema n reg) (dkeys reg) ({}, []) = Inr st" "get_initialization_order n reg = Inr (snd st)"
proof -
  obtain st where "visit_each (visit_schema n reg) (dkeys reg) ({}, []) = Inr st"
    using visit_each_total [of "dkeys reg" "{}" "visit_schema n reg" "({}, [])"] visit_schema_total [OF unvisited_small [OF assms]] by auto
  then show thesis using that by (simp add: get_initialization_order_def)
qed

text \<open>With or without cycles, the search finishes every node it opens, once.\<close>

definition closes :: "string set \<times> string list \<Rightarrow> string set \<times> string list \<Rightarrow> bool" where
  "closes st st' \<longleftrightarrow>
     (distinct (snd st) \<and> set (snd st) \<subseteq> fst st \<longrightarrow> distinct (snd st') \<and> set (snd st') \<subseteq> fst st' \<and> extends st st')"

lemma closes_trans: "closes a b \<Longrightarrow> closes b c \<Longrightarrow> closes a c"
  unfolding closes_def by (blast intro: extends_trans)

lemma visit_each_closes:
  assumes "\<And>x st st'. x \<in> set xs \<Longrightarrow> f x st = Inr st' \<Longrightarrow> closes st st' \<and> insert x (fst st) \<subseteq> fst st'" "visit_each f xs st = Inr st'"
  shows "closes st st' \<and> set xs \<union> fst st \<subseteq> fst st'"
  using assms
proof (induction xs arbitrary: st)
  case (Cons x xs)
  obtain st1 where 1: "f x st = Inr st1" "visit_each f xs st1 = Inr st'" using Cons.prems(2) by (auto split: sum.splits)
  have "closes st st1 \<and> insert x (fst st) \<subseteq> fst st1" using Cons.prems(1) [OF _ 1(1)] by simp
  moreover have "closes st1 st' \<and> set xs \<union> fst st1 \<subseteq> fst st'" by (rule Cons.IH [OF _ 1(2)]) (rule Cons.prems(1), simp_all)
  ultimately show ?case by (auto intro: closes_trans [of st st1 st'])
qed (simp add: closes_def)

lemma visit_schema_closes: "visit_schema n reg name st = Inr st' \<Longrightarrow> closes st st' \<and> insert name (fst st) \<subseteq> fst st'"
proof (induction n arbitrary: name st st')
  case (Suc n)
  obtain v r where st: "st = (v, r)" by (rule prod.exhaust)
  show ?case
  proof (cases "name \<in> v")
    case True
    then show ?thesis using Suc.prems st by (auto simp: closes_def)
  next
    case False
    obtain v' r' where in1: "visit_each (visit_schema n reg) (targets_of reg name) (insert name v, r) = Inr (v', r')"
      and out: "st' = (v', r' @ [name])" using Suc.prems st False by (auto split: sum.splits)
    have "closes (insert name v, r) (v', r')" "insert name v \<subseteq> v'" using visit_each_closes [OF _ in1] Suc.IH by auto
    then show ?thesis using False by (auto simp: closes_def out st extends_def open_nodes_def)
  qed
qed simp

text \<open>
  C38: the order of initialisation exists as soon as the stack holds one frame more than there are schemas, names every registered
  schema and names none twice, cycles or not.  Where the many-to-one relationships have no cycle it puts the targets of a schema
  before it.
\<close>

theorem initialization_order_topological:
  assumes "length reg < n"
  shows "\<exists>order. get_initialization_order n reg = Inr order \<and> distinct order \<and> set (dkeys reg) \<subseteq> set order
    \<and> (acyclic (depends reg) \<longrightarrow> (\<forall>ys m zs. order = ys @ m # zs \<longrightarrow> set (targets_of reg m) \<subseteq> set ys))"
proof -
  obtain st where st: "visit_each (visit_schema n reg) (dkeys reg) ({}, []) = Inr st" and order: "get_initialization_order n reg = Inr (snd st)"
    by (rule visit_order_exists [OF assms])
  have r: "distinct (snd st)" "set (dkeys reg) \<subseteq> set (snd st)"
    using visit_each_closes [OF _ st] visit_schema_closes by (auto simp: closes_def extends_def open_nodes_def)
  have "dependencies_first reg {} (snd st)" if acyclic: "acyclic (depends reg)"
  proof -
    have "search_ok reg st \<and> extends ({}, []) st \<and> set (dkeys reg) \<subseteq> set (snd st)"
    proof (rule visit_each_search [OF _ _ _ st, where G = "{}"])
      fix x s s' assume "search_ok reg s" "open_nodes s = {}" "visit_schema n reg x s = Inr s'"
      then show "search_ok reg s' \<and> extends s s' \<and> x \<in> set (snd s')" by (intro visit_schema_search [OF acyclic]) simp_all
    qed (simp_all add: search_ok_def open_nodes_def)
    then show ?thesis by (simp add: search_ok_def)
  qed
  then have "acyclic (depends reg) \<longrightarrow> (\<forall>ys m zs. snd st = ys @ m # zs \<longrightarrow> set (targets_of reg m) \<subseteq> set ys)"
    by (auto simp: dependencies_first_append)
  then show ?thesis using order r by (intro exI [of _ "snd st"]) simp
qed

text \<open>
  a cycle is not reported: two schemas that point at each other are ordered so that the first is initialised before its
  target.
\<close>

theorem cyclic_schemas_ordered_silently:
  assumes "targets_of reg a = [b]" "targets_of reg b = [a]" "dkeys reg = [a, b]" "a \<noteq> b" "2 < n"
  shows "get_initialization_order n reg = Inr [b, a]"
proof -
  obtain k where "n = Suc (Suc (Suc k))" using assms(5) by (metis add_2_eq_Suc less_imp_Suc_add)
  then show ?thesis using assms by (simp add: get_initialization_order_def)
qed

section \<open>JSON round trips\<close>

text \<open>Columns that survive: the three types with the parameters that reading gives them, and nothing that JSON drops.\<close>

definition json_column :: "column \<Rightarrow> bool" where
  "json_column c \<longleftrightarrow>
     cl_type c \<in> {StringType (Some 255), IntegerType, DateTimeType True} \<and> cl_default c = None \<and> \<not> cl_index c
     \<and> (cl_server_now c \<longleftrightarrow> cl_type c = DateTimeType True)"

lemma column_roundtrip: "json_column c \<Longrightarrow> column_from_json (column_to_json c) = Inr c"
  by (cases c) (auto simp: json_column_def column_to_json_def column_from_json_def mandatory_def text_of_def type_class_name_def flag_of_def)

lemma relationship_roundtrip: "relationship_from_json (relationship_to_json r) = Inr r"
  by (cases r) (auto simp: relationship_to_json_def relationship_from_json_def mandatory_def relationship_type_of_def relationship_value_def
      text_of_def opt_text_of_def nullable_text_def flag_of_def split: relationship_type.splits option.splits)

lemma schema_json_roundtrip: "\<forall>c \<in> set (sc_columns s). json_column c \<Longrightarrow> schema_from_json (schema_to_json s) = Inr s"
  using traverse_all_Inr [of "sc_columns s" "\<lambda>c. column_from_json (column_to_json c)" id]
    traverse_all_Inr [of "sc_relationships s" "\<lambda>r. relationship_from_json (relationship_to_json r)" id]
  by (cases s) (simp add: schema_to_json_def schema_from_json_def mandatory_def text_of_def list_of_def column_roundtrip relationship_roundtrip)

definition registered_ok :: "schema_registry \<Rightarrow> bool" where
  "registered_ok reg \<longleftrightarrow> dict_ok reg \<and> (\<forall>(n, s) \<in> set reg. sc_name s = n)"

lemma register_all_again: "registered_ok (acc @ reg) \<Longrightarrow> fold register_schema (dvalues reg) acc = acc @ reg"
proof (induction reg arbitrary: acc)
  case (Cons x reg)
  obtain n s where x: "x = (n, s)" by (rule prod.exhaust)
  have "sc_name s = n" "n \<notin> set (dkeys acc)" using Cons.prems x by (auto simp: registered_ok_def)
  then have "register_schema s acc = acc @ [x]" using x dkeys_update_new [of n acc s] by (simp add: register_schema_def)
  then show ?case using Cons.IH [of "acc @ [x]"] Cons.prems x by simp
qed simp

text \<open>
  a registry that is written to JSON and read back is the same registry, when its columns
  have the types that JSON keeps.
\<close>

theorem registry_json_roundtrip:
  assumes "registered_ok reg" "length reg < n" "\<forall>s \<in> set (dvalues reg). \<forall>c \<in> set (sc_columns s). json_column c"
  shows "\<exists>j. registry_to_json n reg = Inr j \<and> registry_from_json j = Inr reg"
proof -
  obtain order where order: "get_initialization_order n reg = Inr order"
    using visit_order_exists [OF assms(2)] by blast
  have "traverse (\<lambda>s. schema_from_json (schema_to_json s)) (dvalues reg) = Inr (map id (dvalues reg))"
    by (rule traverse_all_Inr) (use assms(3) in \<open>auto intro!: schema_json_roundtrip\<close>)
  then have "register_documents (map schema_to_json (dvalues reg)) = Inr reg"
    using register_all_again [of "[]" reg] assms(1) by (simp add: register_documents_def)
  then show ?thesis using order by (simp add: registry_to_json_def registry_from_json_def list_of_def)
qed

text \<open>
  a column of any other type comes back as a text of 255 characters: numbers, long texts and shorter texts change their type.
\<close>

theorem other_column_types_become_text:
  assumes "type_class_name (cl_type c) \<notin> {''Integer'', ''DateTime''}"
  shows "\<exists>c'. column_from_json (column_to_json c) = Inr c' \<and> cl_name c' = cl_name c \<and> cl_type c' = StringType (Some 255)"
  using assms by (simp add: column_to_json_def column_from_json_def mandatory_def text_of_def)

section \<open>Foreign keys\<close>

lemma add_foreign_key_facts:
  "sc_relationships (add_foreign_key k s) = sc_relationships s" "sc_name (add_foreign_key k s) = sc_name s"
  "k \<in> set (map cl_name (sc_columns (add_foreign_key k s)))" "set (sc_columns s) \<subseteq> set (sc_columns (add_foreign_key k s))"
  "k \<in> set (map cl_name (sc_columns s)) \<Longrightarrow> add_foreign_key k s = s"
  by (auto simp: add_foreign_key_def fk_column_of_def)

lemma add_foreign_keys_facts:
  "sc_relationships (fold add_foreign_key ks s) = sc_relationships s"
  "set (sc_columns s) \<subseteq> set (sc_columns (fold add_foreign_key ks s))"
  "set ks \<subseteq> set (map cl_name (sc_columns (fold add_foreign_key ks s)))"
proof (induction ks arbitrary: s)
  case (Cons k ks)
  { case 1 show ?case using Cons.IH(1) by (simp add: add_foreign_key_facts(1)) }
  { case 2 show ?case using Cons.IH(2) [of "add_foreign_key k s"] add_foreign_key_facts(4) [of s k] by simp }
  { case 3 show ?case using Cons.IH(2,3) [of "add_foreign_key k s"] add_foreign_key_facts(3) [of k s] by auto }
qed simp_all

lemma add_foreign_keys_present: "set ks \<subseteq> set (map cl_name (sc_columns s)) \<Longrightarrow> fold add_foreign_key ks s = s"
  by (induction ks) (simp_all add: add_foreign_key_facts(5))

text \<open>
  resolving the relationships gives every schema the foreign key columns of its many-to-one relationships, keeps all columns, and
  changes nothing when it is repeated.
\<close>

theorem resolve_relationships_adds_keys:
  shows "resolve_relationships (resolve_relationships reg) = resolve_relationships reg
    \<and> (\<forall>(n, s) \<in> set (resolve_relationships reg). set (foreign_keys s) \<subseteq> set (map cl_name (sc_columns s)))
    \<and> list_all2 (\<lambda>(n, s) (n', s'). n' = n \<and> sc_relationships s' = sc_relationships s \<and> set (sc_columns s) \<subseteq> set (sc_columns s'))
        reg (resolve_relationships reg)"
proof -
  have fk: "foreign_keys (fold add_foreign_key ks s) = foreign_keys s" for ks s
    by (simp add: foreign_keys_def add_foreign_keys_facts(1))
  have has: "set (foreign_keys s) \<subseteq> set (map cl_name (sc_columns (fold add_foreign_key (foreign_keys s) s)))" for s
    by (rule add_foreign_keys_facts(3))
  have idem: "resolve_relationships (resolve_relationships reg) = resolve_relationships reg"
    by (auto simp: resolve_relationships_def fk intro!: add_foreign_keys_present [OF has])
  have keys: "\<forall>(n, s) \<in> set (resolve_relationships reg). set (foreign_keys s) \<subseteq> set (map cl_name (sc_columns s))"
  proof (intro ballI, clarify)
    fix n s k assume "(n, s) \<in> set (resolve_relationships reg)" "k \<in> set (foreign_keys s)"
    then obtain s0 where s: "s = fold add_foreign_key (foreign_keys s0) s0" by (auto simp: resolve_relationships_def)
    with \<open>k \<in> set (foreign_keys s)\<close> show "k \<in> set (map cl_name (sc_columns s))" using has [of s0] fk by (metis subsetD)
  qed
  have keep: "list_all2 (\<lambda>(n, s) (n', s'). n' = n \<and> sc_relationships s' = sc_relationships s \<and> set (sc_columns s) \<subseteq> set (sc_columns s'))
        reg (resolve_relationships reg)"
    by (auto simp: resolve_relationships_def list_all2_conv_all_nth add_foreign_keys_facts(1,2) split: prod.splits
        dest: subsetD [OF add_foreign_keys_facts(2)])
  show ?thesis using idem keys keep by simp
qed

lemma version_columns_present:
  "map cl_name PROJECTION_VERSION_COLUMNS = [''_version'', ''_last_event_id'', ''_last_event_position'', ''_updated_at'']"
  "set PROJECTION_VERSION_COLUMNS \<subseteq> set (sc_columns (create_schema n cs rs is srid))"
  by (auto simp: PROJECTION_VERSION_COLUMNS_def create_schema_def)

section \<open>Concrete schemas\<close>

definition ex_schema :: "string \<Rightarrow> string list \<Rightarrow> projection_schema" where
  "ex_schema name ts =
     \<lparr>sc_name = name,
      sc_columns = [\<lparr>cl_name = ''id'', cl_type = StringType (Some 255), cl_primary_key = True, cl_nullable = False, cl_default = None,
                     cl_server_now = False, cl_index = False\<rparr>],
      sc_relationships = map (\<lambda>t. \<lparr>rl_name = t, rl_type = MANY_TO_ONE, rl_target_schema = t, rl_foreign_key = Some (t @ ''_id''),
                                  rl_back_populates = None, rl_cascade = False\<rparr>) ts,
      sc_indexes = [], sc_srid = 4326\<rparr>"

definition ex_registry :: schema_registry where
  "ex_registry = [(''orders'', ex_schema ''orders'' [''customers'']), (''customers'', ex_schema ''customers'' [])]"

lemma ex_depends: "depends ex_registry = {(''orders'', ''customers'')}"
proof -
  have "targets_of ex_registry n = (if n = ''orders'' then [''customers''] else [])" for n
    by (simp add: targets_of_def ex_registry_def ex_schema_def)
  then show ?thesis by (auto simp: depends_def split: if_splits)
qed

lemma ex_acyclic: "acyclic (depends ex_registry)"
  unfolding ex_depends by (simp add: acyclic_insert wf_acyclic)

theorem initialization_order_topological_witness:
  "\<exists>order. get_initialization_order 3 ex_registry = Inr order \<and> distinct order \<and> {''orders'', ''customers''} \<subseteq> set order
     \<and> (\<forall>ys zs. order = ys @ ''orders'' # zs \<longrightarrow> ''customers'' \<in> set ys)"
proof -
  have "targets_of ex_registry ''orders'' = [''customers'']" by (simp add: targets_of_def ex_registry_def ex_schema_def)
  then show ?thesis
    using initialization_order_topological [of ex_registry 3] ex_acyclic by (fastforce simp: ex_registry_def)
qed

theorem cyclic_schemas_ordered_silently_witness:
  "get_initialization_order 9 [(''a'', ex_schema ''a'' [''b'']), (''b'', ex_schema ''b'' [''a''])] = Inr [''b'', ''a'']"
  by (rule cyclic_schemas_ordered_silently) (simp_all add: targets_of_def ex_schema_def)

theorem registry_json_roundtrip_witness:
  "\<exists>j. registry_to_json 3 ex_registry = Inr j \<and> registry_from_json j = Inr ex_registry"
  by (rule registry_json_roundtrip) (simp_all add: registered_ok_def ex_registry_def ex_schema_def json_column_def)

theorem other_column_types_become_text_witness:
  "\<exists>c'. column_from_json (column_to_json
       \<lparr>cl_name = ''total'', cl_type = OtherType ''Numeric'', cl_primary_key = False, cl_nullable = False, cl_default = None,
        cl_server_now = False, cl_index = False\<rparr>) = Inr c' \<and> cl_type c' = StringType (Some 255)"
  using other_column_types_become_text [of "\<lparr>cl_name = ''total'', cl_type = OtherType ''Numeric'', cl_primary_key = False, cl_nullable = False,
      cl_default = None, cl_server_now = False, cl_index = False\<rparr>"]
  by (auto simp: type_class_name_def)

theorem resolve_relationships_adds_keys_witness:
  "resolve_relationships (resolve_relationships ex_registry) = resolve_relationships ex_registry"
  using resolve_relationships_adds_keys [of ex_registry] by simp

end
