(* ===== verification/Spec2Isabelle.thy ===== *)
theory Spec2Isabelle
  imports EventStore JobService Outbox SagaManager EventSourcing Instrumentation Mediator Filtering
    Projections AccessMiddleware TenantStores TenantAdmin Resilience Undo DbIdentity SagaBuilder RedisLocks
    Persistence SqlQuery DbStores TenantRouting TenantPersistence ProjectionStores ProjectionSchemas
begin

text \<open>
  A model of the core of the \<^verbatim>\<open>cqrs-ddd\<close> toolkit, a Python library for command/query separation, domain
  events, event sourcing and long-running processes, with the theorems that say what its parts do.
  Paths below are relative to src/packages; \<^verbatim>\<open>core\<close> is core/src/cqrs_ddd_core, \<^verbatim>\<open>advanced\<close> is
  advanced/src/cqrs_ddd_advanced_core, \<^verbatim>\<open>specifications\<close> is specifications/src/cqrs_ddd_specifications,
  \<^verbatim>\<open>filtering\<close> is features/filtering/src/cqrs_ddd_filtering, \<^verbatim>\<open>projections\<close> is
  engines/projections/src/cqrs_ddd_projections, \<^verbatim>\<open>access\<close> is features/access/src/cqrs_ddd_access_control,
  \<^verbatim>\<open>identity\<close> is features/identity/src/cqrs_ddd_identity, \<^verbatim>\<open>multitenancy\<close> is
  features/multitenancy/src/cqrs_ddd_multitenancy, \<^verbatim>\<open>mongo\<close> and \<^verbatim>\<open>sqlalchemy\<close> are the packages under persistence, and
  \<^verbatim>\<open>redis\<close> is infrastructure/redis/src/cqrs_ddd_redis.

  \<^bold>\<open>The parts and how they work together.\<close>  A command is sent through the mediator, which opens a unit of work
  for it and runs its handler inside the registered middlewares (validation, correlation, locking,
  authorisation, outbox, event store); commands that handlers send join the same unit of work.
  Commands change aggregates under pessimistic locks; the aggregates record domain events.  Events are appended to the event store, and event-sourced
  aggregates are rebuilt from it, from snapshots and through schema upcasting.  Outgoing events
  are kept in an outbox and handed to a broker by the outbox service, which claims messages with
  the same locks.  Sagas react to events by sending commands, keep a record of what they have sent,
  compensate what they have done when they fail, and are recovered when a send fails.  Background
  jobs are aggregates that a handler runs and that a sweeper and administrators change meanwhile.
  Queries carry specifications, trees of conditions that clients write as filter strings or JSON, that
  whitelists, tenant constraints and authorisation narrow, and that memory or database evaluates.
  Projections read the event store from a checkpoint and build read models.  Authorisation decisions
  come from evaluators that an enforcement point combines and caches.  Users sign in with passwords, one-time codes or keys and
  hold sessions and tokens.  A tenant is a value of a context variable; mixins in front of the stores read it and narrow what
  the stores return, routers send database work to the tenant's schema or database.  Specifications are compiled to MongoDB
  queries and SQL conditions, which the database adapters run; event stores, outboxes, repositories and projection stores exist in
  memory and over databases.

  \<^bold>\<open>Theories.\<close>
  \<^item> \<open>Prelude\<close>: JSON-like values, dictionaries as association lists in insertion order, slices and truth
    values of Python, exceptions as a datatype, shared lemmas.
  \<^item> \<open>EventStore\<close>: core/ports/event_store.py and core/adapters/memory/event_store.py.  The store is
    the list of events; \<open>append_batch\<close>, the cursor reads and the two streaming loops follow the methods
    of the class.  Positions are dense and increasing, reads page through everything exactly once.
  \<^item> \<open>Repository\<close>: core/adapters/memory/repository.py, and the locale \<open>repository\<close> with the laws of add, get and
    delete that the job and saga services use; it is interpreted for the generic, the job and the saga
    repository.
  \<^item> \<open>Jobs\<close>, \<open>JobService\<close>: advanced/background_jobs and its in-memory repository.  The transitions of the
    aggregate form the inductive relations \<open>job_step\<close> and \<open>job_run\<close>; status graph, retry budget and
    the agreement of state and recorded events are proved by rule induction.  The services are
    characterised on every branch; the locale \<open>once_op\<close> carries both bulk operations.
  \<^item> \<open>Locking\<close>: core/primitives/locking.py and core/adapters/memory/locking.py.  Lock states live in a heap, since
    a waiting task keeps a reference to one.  \<open>mem_acquire_among\<close> is a whole acquisition, with what other tasks do while it
    waits as a parameter; tasks that acquire, wait, are woken, time out and release form the relation \<open>lock_step\<close>, over which exclusion
    is proved until a release wakes a waiter.  The locale \<open>lock_strategy\<close> is the contract of a lock
    strategy (exclusion, reentrance, tokens); \<open>eager_lock_strategy\<close> adds that a free lock is granted.
  \<^item> \<open>CriticalSection\<close>: core/cqrs/concurrency.py and core/middleware/concurrency.py, over any lock
    strategy: all locks or none, one order for all sections, no deadlock, the handler runs under
    the locks.
  \<^item> \<open>Outbox\<close>: core/ports/outbox.py, core/adapters/memory/outbox.py, core/cqrs/outbox: claims, outcomes, retries,
    and that repeated batches drain the outbox in creation order.
  \<^item> \<open>Saga\<close>, \<open>SagaManager\<close>: advanced/sagas (state.py, orchestration.py, registry.py, manager.py),
    advanced/adapters/memory/sagas.py and core/cqrs/message_registry.py: idempotent handling, compensation in
    reverse order, Try-Confirm/Cancel, dispatch, recovery of the running sagas and time-outs.
  \<^item> \<open>Upcasting\<close>: advanced/upcasting/registry.py and advanced/event_sourcing/upcasting_reader.py; the sorted
    pass refines a step relation on (payload, version) pairs.
  \<^item> \<open>EventSourcing\<close>: core/domain (events.py, mixins.py, event_registry.py),
    advanced/domain/event_validation.py, advanced/snapshots, advanced/adapters/memory/snapshot_store.py and
    advanced/event_sourcing (loader.py, repository.py, persistence_orchestrator.py).  The locale
    \<open>event_log\<close> is the contract of the event store; persist and load are proved over it and read
    off for the in-memory store.
  \<^item> \<open>Validation\<close>, \<open>Instrumentation\<close>: core/validation and core/instrumentation.py: results that collect all
    messages, hooks that nest by priority around an operation.
  \<^item> \<open>Mediator\<close>: core/cqrs (mediator.py, registry.py, event_dispatcher.py, response.py), core/middleware,
    core/correlation.py, core/ports/unit_of_work.py and its in-memory adapter.  Handlers get \<open>nested_send\<close>, which is \<open>send_with\<close>
    again and looks for the unit of work of the context.  One root command is one transaction; middlewares wrap by priority; queued commit hooks end.
  \<^item> \<open>PyValue\<close>, \<open>SpecOperators\<close>, \<open>Specification\<close>, \<open>SpecLaws\<close>: Python values with their equality and order, the
    operators and the registry of specifications/operators_memory and evaluator.py, the trees, validation,
    factory, builder and query options of ast.py, base.py, builder.py and query_options.py, and what
    follows: Boolean algebra, round trip, whitelists.
  \<^item> \<open>Filtering\<close>: both filter syntaxes, field whitelists, the parser, injected constraints and pagination of
    filtering.
  \<^item> \<open>Projections\<close>: projections: checkpoints, handlers, error policies, the polling worker, partitions (a client of
    the locale \<open>lock_strategy\<close>), replay and sink.  Signals say where \<^verbatim>\<open>stop\<close> stops or cancels a round; runs of the worker are the
    inductive relation \<open>worker_run\<close>, and its history is a list of segments of which the cancelled ones are repeated.
  \<^item> \<open>Access\<close>, \<open>AccessMiddleware\<close>: access and the principals of features/identity: role expansion,
    evaluators, the enforcement point and its cache; the middlewares, decorators and rule handlers.

  \<^item> \<open>Scheduling\<close>, \<open>Undo\<close>, \<open>Conflict\<close>, \<open>Resilience\<close>: advanced/scheduling with its in-memory adapter, advanced/undo and its use for
    access rules, advanced/conflict/resolution.py, advanced/cqrs/handlers.py and mixins.py.  Due commands are sent
    once and settled; undo runs the executor of the last event; merges work per field; retried
    calls are bounded and paused, and conflicts are merged and retried.
  \<^item> \<open>SagaBuilder\<close>: advanced/sagas/builder.py and bootstrap.py: a class that is built declaratively behaves as the saga class of \<open>Saga\<close>,
    and the bootstrap connects every event of a saga class to the manager once.
  \<^item> \<open>RedisLocks\<close>: the two lock strategies of redis, over a server whose commands are parameters with the laws \<open>redis_laws\<close>.  Calls of
    clients that acquire, poll, extend and release are issued and answered in two steps of an inductive relation, with delayed and lost
    answers; no two clients count on a lock whose recorded lifetime has more left than the longest delay.
  \<^item> \<open>Persistence\<close>: advanced/persistence (dispatcher.py, caching.py) and core/adapters/decorators/caching_repository.py.  The caching
    repository refines a map for reads without a specification, whatever the cache forgets.
  \<^item> \<open>Tenancy\<close>, \<open>TenantStores\<close>, \<open>TenantAdmin\<close>, \<open>TenantPersistence\<close>, \<open>TenantRouting\<close>: multitenancy.  The locale \<open>tenant_scope\<close> is the
    contract of code that runs for a tenant, \<open>filtered_read\<close> the one of a filtered read; it is interpreted for the reads of every
    in-memory store and gives non-interference between tenants.  Administration keeps its registry consistent.  The
    dispatcher and handler mixins stamp writes and filter reads; the pool of engines stays within its capacity, keeps the
    engines used last and never hands one tenant the engine of another; the search path of a connection is restored.
  \<^item> \<open>Sessions\<close>, \<open>DbIdentity\<close>: session.py, oauth2, mfa, db and api_key of identity.  The locale \<open>expiring_store\<close> covers sessions and
    challenges; secrets are accepted once, tokens resolve to their principal, refreshing rotates them, failures lock an account.
  \<^item> \<open>MongoQuery\<close>, \<open>SqlQuery\<close>: mongo/query_builder.py, operators and search_helpers.py; sqlalchemy/specifications.  The compiled
    query selects what the specification accepts in memory, on the operators and operands that the predicates
    \<open>agreeable\<close> and \<open>sql_agreeable\<close> name; server laws are \<open>mongo_laws\<close>, \<open>sql_laws\<close> (under a collation by
    code points) and \<open>literal_laws\<close>, with executable instances.
  \<^item> \<open>DbStores\<close>, \<open>ProjectionStores\<close>: event store, outbox, repository and projection store of mongo and sqlalchemy, over tables and
    collections with documented laws and list- or map-based instances.  The event stores refine the one in memory; versioned
    deliveries to a MongoDB projection converge; only valid names get into SQL.
  \<^item> \<open>ProjectionSchemas\<close>: advanced/projections/schema.py: JSON round trip, foreign keys, and a topological order of initialisation.

  \<^bold>\<open>Conventions.\<close>  A class is a record, an enumeration a datatype, a method a function from the old
  state to the new state and the result; a raised exception is \<^const>\<open>Inl\<close> or \<^const>\<open>Some\<close> of an exception beside
  the state it leaves behind.  Python integers are \<^typ>\<open>int\<close>.  An \<^verbatim>\<open>async\<close> method is a sequence of
  atomic steps between suspension points; the two lock strategies and the projection worker have steps that interleave
  with others, and elsewhere the effect of other actors is a parameter.  Code of applications (handlers, upcasters,
  \<^verbatim>\<open>apply_\<close> methods) and of other packages (Pydantic, the broker, the command bus) is an argument;
  what a theorem needs of it is among its hypotheses, and a witness shows that they can be met.
  Instrumentation hooks run the wrapped call once and are left out of the operations they wrap, as is
  logging.  The messages of exceptions may be shortened where no code reads them.

  \<^bold>\<open>Bounds.\<close>  Only the streaming reads of the event stores take fuel.  Their theorems hold for every
  fuel above the number of events still to be read, since each round reads at least one; a replay
  inherits it.  The mediator takes the depth of nested sends that the interpreter allows and answers
  \<^const>\<open>RecursionError\<close> beyond it; so does the search for the order of schemas, for which one frame more than there are
  schemas is shown to be enough.  Commit hooks may queue further hooks for ever, so their loop is a partial
  function, and a theorem shows that it ends when hooks stop queueing.  Retries and role expansion
  end by a measure.  The polling
  loop of \<^verbatim>\<open>cancel_running\<close> counts the seconds of its grace period.  All other loops are structural
  recursions on the list the code iterates over.

  \<^bold>\<open>What modelling showed.\<close>  Several theorems state what the code does where its documentation says
  otherwise: \<open>unadvanced_aggregate_is_lost\<close>, \<open>empty_dedicated_store_never_used\<close>,
  \<open>contended_release_breaks_exclusion\<close>, \<open>cancel_running_never_escalates\<close>, \<open>handler_outcome\<close> (a
  concurrent cancellation is overwritten), \<open>abandoned_saga_sends_nothing\<close> and
  \<open>saga_commands_sent_in_order\<close> (pending commands of an earlier failure are dropped),
  \<open>json_filter_escapes_whitelist\<close> and \<open>sort_string_unchecked\<close>, \<open>worker_projects_once_in_order\<close> (the first event is
  never projected, and a cancelled round is repeated), \<open>partition_starves\<close>, \<open>event_after_replay_is_lost\<close>,
  \<open>replay_runs_whole_log\<close> (a replay ignores its start), \<open>failing_event_policies\<close> (dead letters are repeated), \<open>cached_grant_covers_other_resources\<close>,
  \<open>empty_resource_list_is_granted\<close>, \<open>filter_dropped_without_query_options\<close>, \<open>wildcard_role_inconsistent\<close> and
  \<open>specification_grants_escape_tenant\<close>.  Of tenants: \<open>search_with_options_unfiltered\<close>, \<open>snapshot_read_crosses_tenants\<close>,
  \<open>cache_batches_cross_tenants\<close>, \<open>cancel_crosses_tenants\<close>, \<open>dispatcher_specification_unfiltered\<close>, \<open>system_write_takes_ownership\<close>,
  \<open>fresh_connection_keeps_tenant_path\<close>, \<open>dashed_tenant_has_no_schema\<close>, \<open>system_tenant_is_routed_as_tenant\<close>, \<open>own_engine_evicted\<close>.
  Of locks and caches: \<open>dead_waiter_blocks_queue\<close>, \<open>reader_and_writer_hold_together\<close>, \<open>stale_release_opens_lock\<close>, \<open>belief_outlives_lock\<close>,
  \<open>cached_get_ignores_specification\<close>, \<open>cached_fetch_never_fills\<close>.  Of databases: \<open>mongo_null_checks_refused\<close>,
  \<open>empty_or_selects_all\<close>, \<open>sql_negation_loses_null\<close>, \<open>json_keys_escape_literal\<close>, \<open>sql_contains_takes_wildcards\<close>,
  \<open>late_event_is_skipped\<close>, \<open>sql_streaming_repeats_events\<close>, \<open>db_outbox_never_retries\<close>, \<open>loaded_aggregate_cannot_be_saved\<close>,
  \<open>second_document_of_event_dropped\<close>, \<open>sql_stale_event_overwrites_newer\<close>, \<open>sql_upsert_without_uow_is_lost\<close>,
  \<open>cyclic_schemas_ordered_silently\<close>, \<open>other_column_types_become_text\<close>.  Of sign-in: \<open>otp_guesses_unlimited\<close>.

  \<^bold>\<open>Not modelled.\<close>  The task and timer handling of the buffered outbox and of the workers; the
  migration of legacy saga metadata; geometry operators in memory and SQL; the mappers between entities and rows or documents; the job,
  saga and snapshot stores over databases; message brokers, file stores, notifications, external identity
  providers, metrics and tracing, which are input and output through other packages; Protocol classes, which declare
  operations and have no behaviour.
\<close>

end
